(* ===== verification/Prelude.thy ===== *)
theory Prelude
  imports Main "HOL-Library.Word" "HOL-Library.AList"
begin

unbundle bit_operations_syntax

text \<open>
  Shared vocabulary of the development.  Byte buffers are lists of 8-bit words, \<open>guint\<close> is
  a 32-bit word, \<open>gsize\<close> and \<open>CK_ULONG\<close> are 64-bit words (the LP64 little-endian targets the
  code is built for) or naturals where the value is the length of a buffer the model holds.
  This theory holds the big-endian and little-endian byte codings, the masks the code
  applies to bytes, and the interfaces several components share: tables with a key column,
  TLV codecs, and step systems with an invariant.
\<close>

section \<open>Types\<close>

type_synonym byte = "8 word"
type_synonym bytes = "8 word list"
type_synonym guint = "32 word"
type_synonym ck_ulong = "64 word"

named_theorems table_simps \<open>closed lookups in the constant tables\<close>
named_theorems call_defs \<open>definitions of the entry points and their helpers\<close>
named_theorems frame \<open>which fields an operation leaves alone\<close>

section \<open>Bytes\<close>

lemma unat_byte_less [simp]: "unat (b :: byte) < 256"
  using unsigned_less [of b] by simp

lemma unat_of_nat_byte: "unat (of_nat n :: byte) = n mod 256"
  by (simp add: unat_of_nat take_bit_eq_mod)

lemma of_nat_byte_mod: "(of_nat (n mod 256) :: byte) = of_nat n"
  by (simp add: word_unat_eq_iff unat_of_nat_byte)

lemma of_nat_byte_snoc [simp]: "(of_nat (n * 256 + unat b) :: byte) = b"
  by (simp only: word_unat_eq_iff unat_of_nat_byte) simp

lemma byte_and_7f: "unat ((b :: byte) AND 0x7f) = unat b mod 128"
proof -
  have "b AND 0x7f = take_bit 7 b"
    by (simp add: take_bit_eq_mask mask_eq_exp_minus_1)
  then have "unat (b AND 0x7f) = take_bit 7 (unat b)"
    by (simp only: unsigned_take_bit_eq)
  then show ?thesis
    by (simp add: take_bit_eq_mod)
qed

lemma byte_and_80: "((b :: byte) AND 0x80 = 0) \<longleftrightarrow> unat b < 128"
proof -
  have "(b AND 0x80 = 0) \<longleftrightarrow> \<not> bit b 7"
    using and_exp_eq_0_iff_not_bit [of b 7] by simp
  also have "\<dots> \<longleftrightarrow> \<not> bit (unat b) 7"
    by (simp add: bit_unsigned_iff)
  also have "\<dots> \<longleftrightarrow> even (unat b div 128)"
    by (simp add: bit_iff_odd)
  also have "\<dots> \<longleftrightarrow> unat b < 128"
  proof -
    have "unat b div 128 < 2"
      using unat_byte_less [of b] by (simp add: less_mult_imp_div_less)
    then have "even (unat b div 128) \<longleftrightarrow> unat b div 128 = 0"
      by (cases "unat b div 128") auto
    then show ?thesis by (simp add: div_eq_0_iff)
  qed
  finally show ?thesis .
qed


section \<open>Big-endian octet strings\<close>

text \<open>
  \<open>be_nat\<close> reads an octet string as a base-256 number, most significant octet first;
  \<open>be_octets\<close> writes the shortest octet string of a number.
\<close>

definition be_nat :: "bytes \<Rightarrow> nat" where
  "be_nat bs = foldl (\<lambda>acc b. acc * 256 + unat b) 0 bs"

fun be_octets :: "nat \<Rightarrow> bytes" where
  "be_octets n = (if n = 0 then [] else be_octets (n div 256) @ [of_nat n])"

declare be_octets.simps [simp del]

lemma be_nat_Nil [simp]: "be_nat [] = 0"
  by (simp add: be_nat_def)

lemma be_nat_snoc [simp]: "be_nat (bs @ [b]) = be_nat bs * 256 + unat b"
  by (simp add: be_nat_def)

lemma be_octets_0 [simp]: "be_octets 0 = []"
  by (simp add: be_octets.simps)

lemma be_octets_pos: "0 < n \<Longrightarrow> be_octets n = be_octets (n div 256) @ [of_nat n]"
  by (subst be_octets.simps) simp

lemma be_nat_octets [simp]: "be_nat (be_octets n) = n"
proof (induction n rule: less_induct)
  case (less n)
  show ?case
  proof (cases "n = 0")
    case False
    then have "be_nat (be_octets (n div 256)) = n div 256"
      using less by simp
    with False show ?thesis
      by (simp add: be_octets_pos unat_of_nat_byte)
  qed simp
qed

lemma be_octets_hd: "0 < n \<Longrightarrow> be_octets n \<noteq> [] \<and> hd (be_octets n) \<noteq> 0"
proof (induction n rule: less_induct)
  case (less n)
  show ?case
  proof (cases "n < 256")
    case True
    then have "be_octets n = [of_nat n]"
      using less.prems by (simp add: be_octets_pos)
    moreover from True less.prems have "(of_nat n :: byte) \<noteq> 0"
      by (simp add: word_unat_eq_iff unat_of_nat_byte)
    ultimately show ?thesis by simp
  next
    case False
    then have "0 < n div 256" and "n div 256 < n" by (auto simp: div_greater_zero_iff)
    with less.IH have "be_octets (n div 256) \<noteq> [] \<and> hd (be_octets (n div 256)) \<noteq> 0"
      by blast
    with less.prems show ?thesis by (simp add: be_octets_pos)
  qed
qed

lemma be_nat_pos: "bs \<noteq> [] \<Longrightarrow> hd bs \<noteq> 0 \<Longrightarrow> 0 < be_nat bs"
proof (induction bs rule: rev_induct)
  case (snoc b bs)
  show ?case
  proof (cases "bs = []")
    case True
    with snoc.prems have "0 < unat b"
      by (simp add: unat_gt_0)
    with True show ?thesis
      using be_nat_snoc [of "[]" b] by simp
  next
    case False
    with snoc show ?thesis by simp
  qed
qed simp

text \<open>An octet string with no leading zero is the one \<open>be_octets\<close> writes.\<close>

lemma be_octets_nat: "bs \<noteq> [] \<Longrightarrow> hd bs \<noteq> 0 \<Longrightarrow> be_octets (be_nat bs) = bs"
proof (induction bs rule: rev_induct)
  case (snoc b bs)
  have pos: "0 < be_nat (bs @ [b])"
    using snoc.prems by (rule be_nat_pos)
  have split: "be_octets (be_nat (bs @ [b])) = be_octets (be_nat bs) @ [b]"
    using be_octets_pos [OF pos] by (simp only: be_nat_snoc of_nat_byte_snoc) simp
  show ?case
  proof (cases "bs = []")
    case True
    then show ?thesis using split by simp
  next
    case False
    with snoc have "be_octets (be_nat bs) = bs" by simp
    with split show ?thesis by simp
  qed
qed simp

lemma be_nat_less: "be_nat bs < 256 ^ length bs"
proof (induction bs rule: rev_induct)
  case (snoc b bs)
  have "be_nat bs * 256 + unat b < Suc (be_nat bs) * 256"
    by simp
  also have "\<dots> \<le> 256 ^ length bs * 256"
    using snoc by (simp only: mult_le_mono1 Suc_leI)
  finally show ?case by (simp add: mult.commute)
qed simp

lemma length_be_octets_le: "n < 256 ^ k \<Longrightarrow> length (be_octets n) \<le> k"
proof (induction k arbitrary: n)
  case (Suc k)
  show ?case
  proof (cases "n = 0")
    case False
    from Suc.prems have "n div 256 < 256 ^ k"
      by (simp add: less_mult_imp_div_less mult.commute)
    with Suc.IH False show ?thesis by (simp add: be_octets_pos)
  qed simp
qed simp


lemma be_nat_Cons: "be_nat (b # bs) = unat b * 256 ^ length bs + be_nat bs"
proof (induction bs rule: rev_induct)
  case Nil
  show ?case using be_nat_snoc [of "[]" b] by simp
next
  case (snoc c cs)
  have "be_nat (b # cs @ [c]) = be_nat ((b # cs) @ [c])" by simp
  also have "\<dots> = be_nat (b # cs) * 256 + unat c" by (simp only: be_nat_snoc)
  finally show ?case using snoc by (simp add: algebra_simps)
qed

section \<open>Little-endian CK_ULONG values\<close>

text \<open>
  The memory image of a \<open>CK_ULONG\<close> attribute value and its reading back, as \<open>memcpy\<close> to
  and from an 8-byte object does it.
\<close>

definition le_bytes :: "ck_ulong \<Rightarrow> bytes" where
  "le_bytes w = map (\<lambda>i. of_nat (unat w div 256 ^ i)) [0..<8]"

definition le_ulong :: "bytes \<Rightarrow> ck_ulong" where
  "le_ulong bs = of_nat (be_nat (rev bs))"

lemma length_le_bytes [simp]: "length (le_bytes w) = 8"
  by (simp add: le_bytes_def)

lemma be_nat_digits: "be_nat (rev (map (\<lambda>i. of_nat (n div 256 ^ i)) [0..<k])) = n mod 256 ^ k"
proof (induction k)
  case (Suc k)
  have "n mod 256 ^ Suc k = n div 256 ^ k mod 256 * 256 ^ k + n mod 256 ^ k"
    using mod_mult2_eq [of n "256 ^ k" 256] by (simp add: mult.commute)
  with Suc show ?case
    by (simp add: be_nat_Cons unat_of_nat_byte)
qed simp

lemma le_ulong_bytes [simp]: "le_ulong (le_bytes w) = w"
proof -
  have "unat w < 256 ^ 8"
    using unsigned_less [of w] by simp
  then have "be_nat (rev (le_bytes w)) = unat w"
    unfolding le_bytes_def be_nat_digits by simp
  then show ?thesis by (simp add: le_ulong_def)
qed

lemma le_bytes_inject [simp]: "le_bytes v = le_bytes w \<longleftrightarrow> v = w"
  by (metis le_ulong_bytes)

section \<open>C strings\<close>

text \<open>
  Strings are character lists without the terminator; \<open>NULL\<close> is \<open>None\<close> where the code
  passes it.  \<open>ascii_down\<close> and \<open>strcaseeq\<close> are \<open>g_ascii_tolower\<close> and
  \<open>g_ascii_strcasecmp (..) == 0\<close>, \<open>strncaseeq\<close> is \<open>g_ascii_strncasecmp (.., n) == 0\<close>.
\<close>

definition ascii_down :: "char \<Rightarrow> char" where
  "ascii_down c =
     (let n = of_char c :: nat in if 65 \<le> n \<and> n \<le> 90 then char_of (n + 32) else c)"

definition strcaseeq :: "string \<Rightarrow> string \<Rightarrow> bool" where
  "strcaseeq s t \<longleftrightarrow> map ascii_down s = map ascii_down t"

definition strncaseeq :: "string \<Rightarrow> string \<Rightarrow> nat \<Rightarrow> bool" where
  "strncaseeq s t n \<longleftrightarrow> strcaseeq (take n s) (take n t)"

definition char_bytes :: "string \<Rightarrow> bytes" where
  "char_bytes s = map of_char s"

lemma length_char_bytes [simp]: "length (char_bytes s) = length s"
  by (simp add: char_bytes_def)

lemma strcaseeq_refl [simp]: "strcaseeq s s"
  by (simp add: strcaseeq_def)

section \<open>Tables with a key column\<close>

text \<open>
  The components search constant tables front to back and stop at the first hit.  A table
  whose key column has no duplicate is a partial function: the search finds an entry exactly
  when it is in the table, and a second column with no duplicate makes the lookups mutually
  inverse.
\<close>

lemma find_key_distinct:
  "distinct (map key xs) \<Longrightarrow> List.find (\<lambda>x. key x = k) xs = Some e \<longleftrightarrow> e \<in> set xs \<and> key e = k"
  by (induction xs) auto

locale keyed_table =
  fixes table :: "'e list"
    and key :: "'e \<Rightarrow> 'k"
  assumes distinct_keys: "distinct (map key table)"
begin

lemma key_inject: "a \<in> set table \<Longrightarrow> b \<in> set table \<Longrightarrow> key a = key b \<Longrightarrow> a = b"
  using distinct_keys by (auto simp: distinct_map inj_on_def)

lemma find_iff: "List.find (\<lambda>x. key x = k) table = Some e \<longleftrightarrow> e \<in> set table \<and> key e = k"
  by (rule find_key_distinct) (rule distinct_keys)

lemma find_entry: "e \<in> set table \<Longrightarrow> List.find (\<lambda>x. key x = key e) table = Some e"
  by (simp add: find_iff)

end

locale two_key_table = keyed_table table key
  for table :: "'e list" and key :: "'e \<Rightarrow> 'k" +
  fixes key2 :: "'e \<Rightarrow> 'j"
  assumes distinct_keys2: "distinct (map key2 table)"

sublocale two_key_table \<subseteq> second: keyed_table table key2
  by unfold_locales (rule distinct_keys2)

context two_key_table
begin

lemma find_crosswise:
  "List.find (\<lambda>x. key x = k) table = Some e \<Longrightarrow> List.find (\<lambda>x. key2 x = key2 e) table = Some e"
  by (simp add: find_iff second.find_iff)

end

section \<open>Step systems and invariants\<close>

text \<open>
  \<open>reach init step\<close> holds of the states reachable by any sequence of labelled steps.  The
  locale is the interface between a component's transition relation and its safety
  properties: the component shows the two laws, every reachable state has the invariant.
\<close>

inductive reach :: "('s \<Rightarrow> bool) \<Rightarrow> ('s \<Rightarrow> 'l \<Rightarrow> 's \<Rightarrow> bool) \<Rightarrow> 's \<Rightarrow> bool"
  for init step where
  reach_init: "init s \<Longrightarrow> reach init step s"
| reach_step: "reach init step s \<Longrightarrow> step s l t \<Longrightarrow> reach init step t"

locale step_invariant =
  fixes init :: "'s \<Rightarrow> bool"
    and step :: "'s \<Rightarrow> 'l \<Rightarrow> 's \<Rightarrow> bool"
    and inv :: "'s \<Rightarrow> bool"
  assumes inv_init: "init s \<Longrightarrow> inv s"
    and inv_step: "inv s \<Longrightarrow> step s l t \<Longrightarrow> inv t"
begin

lemma reach_inv: "reach init step s \<Longrightarrow> inv s"
  by (induction rule: reach.induct) (auto intro: inv_init inv_step)

end

end
