(* ===== verification/Cryptoki.thy ===== *)
theory Cryptoki
  imports Prelude
begin

text \<open>
  The part of the PKCS#11 (Cryptoki) vocabulary the sources use: attribute types, object
  classes, flags, return values and the attribute template.  The numbers are those of the
  PKCS#11 2.40 specification, which the code takes from \<open>p11-kit/pkcs11.h\<close>.  Return values
  the sources never name are \<open>CKR_OTHER\<close>.
\<close>

abbreviation CKA_CLASS :: ck_ulong where "CKA_CLASS \<equiv> 0"
abbreviation CKA_TOKEN :: ck_ulong where "CKA_TOKEN \<equiv> 1"
abbreviation CKA_PRIVATE :: ck_ulong where "CKA_PRIVATE \<equiv> 2"
abbreviation CKA_LABEL :: ck_ulong where "CKA_LABEL \<equiv> 3"
abbreviation CKA_VALUE :: ck_ulong where "CKA_VALUE \<equiv> 0x11"
abbreviation CKA_CERTIFICATE_TYPE :: ck_ulong where "CKA_CERTIFICATE_TYPE \<equiv> 0x80"
abbreviation CKA_ISSUER :: ck_ulong where "CKA_ISSUER \<equiv> 0x81"
abbreviation CKA_SERIAL_NUMBER :: ck_ulong where "CKA_SERIAL_NUMBER \<equiv> 0x82"
abbreviation CKA_TRUSTED :: ck_ulong where "CKA_TRUSTED \<equiv> 0x86"
abbreviation CKA_CERTIFICATE_CATEGORY :: ck_ulong where "CKA_CERTIFICATE_CATEGORY \<equiv> 0x87"
abbreviation CKA_KEY_TYPE :: ck_ulong where "CKA_KEY_TYPE \<equiv> 0x100"
abbreviation CKA_SUBJECT :: ck_ulong where "CKA_SUBJECT \<equiv> 0x101"
abbreviation CKA_ID :: ck_ulong where "CKA_ID \<equiv> 0x102"
abbreviation CKA_SENSITIVE :: ck_ulong where "CKA_SENSITIVE \<equiv> 0x103"
abbreviation CKA_ENCRYPT :: ck_ulong where "CKA_ENCRYPT \<equiv> 0x104"
abbreviation CKA_DECRYPT :: ck_ulong where "CKA_DECRYPT \<equiv> 0x105"
abbreviation CKA_WRAP :: ck_ulong where "CKA_WRAP \<equiv> 0x106"
abbreviation CKA_UNWRAP :: ck_ulong where "CKA_UNWRAP \<equiv> 0x107"
abbreviation CKA_SIGN :: ck_ulong where "CKA_SIGN \<equiv> 0x108"
abbreviation CKA_SIGN_RECOVER :: ck_ulong where "CKA_SIGN_RECOVER \<equiv> 0x109"
abbreviation CKA_VERIFY :: ck_ulong where "CKA_VERIFY \<equiv> 0x10a"
abbreviation CKA_VERIFY_RECOVER :: ck_ulong where "CKA_VERIFY_RECOVER \<equiv> 0x10b"
abbreviation CKA_DERIVE :: ck_ulong where "CKA_DERIVE \<equiv> 0x10c"
abbreviation CKA_MODULUS :: ck_ulong where "CKA_MODULUS \<equiv> 0x120"
abbreviation CKA_MODULUS_BITS :: ck_ulong where "CKA_MODULUS_BITS \<equiv> 0x121"
abbreviation CKA_PUBLIC_EXPONENT :: ck_ulong where "CKA_PUBLIC_EXPONENT \<equiv> 0x122"
abbreviation CKA_PRIVATE_EXPONENT :: ck_ulong where "CKA_PRIVATE_EXPONENT \<equiv> 0x123"
abbreviation CKA_PRIME_1 :: ck_ulong where "CKA_PRIME_1 \<equiv> 0x124"
abbreviation CKA_PRIME_2 :: ck_ulong where "CKA_PRIME_2 \<equiv> 0x125"
abbreviation CKA_EXPONENT_1 :: ck_ulong where "CKA_EXPONENT_1 \<equiv> 0x126"
abbreviation CKA_EXPONENT_2 :: ck_ulong where "CKA_EXPONENT_2 \<equiv> 0x127"
abbreviation CKA_COEFFICIENT :: ck_ulong where "CKA_COEFFICIENT \<equiv> 0x128"
abbreviation CKA_EXTRACTABLE :: ck_ulong where "CKA_EXTRACTABLE \<equiv> 0x162"
abbreviation CKA_LOCAL :: ck_ulong where "CKA_LOCAL \<equiv> 0x163"
abbreviation CKA_NEVER_EXTRACTABLE :: ck_ulong where "CKA_NEVER_EXTRACTABLE \<equiv> 0x164"
abbreviation CKA_ALWAYS_SENSITIVE :: ck_ulong where "CKA_ALWAYS_SENSITIVE \<equiv> 0x165"
abbreviation CKA_MODIFIABLE :: ck_ulong where "CKA_MODIFIABLE \<equiv> 0x170"
abbreviation CKA_DESTROYABLE :: ck_ulong where "CKA_DESTROYABLE \<equiv> 0x172"
abbreviation CKA_EC_PARAMS :: ck_ulong where "CKA_EC_PARAMS \<equiv> 0x180"
abbreviation CKA_EC_POINT :: ck_ulong where "CKA_EC_POINT \<equiv> 0x181"
abbreviation CKA_ALWAYS_AUTHENTICATE :: ck_ulong where "CKA_ALWAYS_AUTHENTICATE \<equiv> 0x202"
abbreviation CKO_CERTIFICATE :: ck_ulong where "CKO_CERTIFICATE \<equiv> 1"
abbreviation CKO_PUBLIC_KEY :: ck_ulong where "CKO_PUBLIC_KEY \<equiv> 2"
abbreviation CKO_PRIVATE_KEY :: ck_ulong where "CKO_PRIVATE_KEY \<equiv> 3"
abbreviation CKK_RSA :: ck_ulong where "CKK_RSA \<equiv> 0"
abbreviation CKK_EC :: ck_ulong where "CKK_EC \<equiv> 3"
abbreviation CKC_X_509 :: ck_ulong where "CKC_X_509 \<equiv> 0"
abbreviation CK_CERTIFICATE_CATEGORY_TOKEN_USER :: ck_ulong where "CK_CERTIFICATE_CATEGORY_TOKEN_USER \<equiv> 1"
abbreviation CK_UNAVAILABLE_INFORMATION :: ck_ulong where "CK_UNAVAILABLE_INFORMATION \<equiv> - 1"
abbreviation CKF_TOKEN_PRESENT :: ck_ulong where "CKF_TOKEN_PRESENT \<equiv> 1"
abbreviation CKF_REMOVABLE_DEVICE :: ck_ulong where "CKF_REMOVABLE_DEVICE \<equiv> 2"
abbreviation CKF_RW_SESSION :: ck_ulong where "CKF_RW_SESSION \<equiv> 2"
abbreviation CKF_SERIAL_SESSION :: ck_ulong where "CKF_SERIAL_SESSION \<equiv> 4"
abbreviation CKF_DONT_BLOCK :: ck_ulong where "CKF_DONT_BLOCK \<equiv> 1"
abbreviation CKF_OS_LOCKING_OK :: ck_ulong where "CKF_OS_LOCKING_OK \<equiv> 2"
abbreviation CKF_TOKEN_INITIALIZED :: ck_ulong where "CKF_TOKEN_INITIALIZED \<equiv> 0x400"
abbreviation CKF_PROTECTED_AUTHENTICATION_PATH :: ck_ulong where "CKF_PROTECTED_AUTHENTICATION_PATH \<equiv> 0x100"
abbreviation CKF_USER_PIN_INITIALIZED :: ck_ulong where "CKF_USER_PIN_INITIALIZED \<equiv> 8"
abbreviation CKF_SIGN :: ck_ulong where "CKF_SIGN \<equiv> 0x800"
abbreviation CKF_DECRYPT :: ck_ulong where "CKF_DECRYPT \<equiv> 0x200"
abbreviation CKU_USER :: ck_ulong where "CKU_USER \<equiv> 1"
abbreviation CKU_CONTEXT_SPECIFIC :: ck_ulong where "CKU_CONTEXT_SPECIFIC \<equiv> 2"
abbreviation CKS_RO_PUBLIC_SESSION :: ck_ulong where "CKS_RO_PUBLIC_SESSION \<equiv> 0"
abbreviation CKS_RO_USER_FUNCTIONS :: ck_ulong where "CKS_RO_USER_FUNCTIONS \<equiv> 1"
abbreviation CKS_RW_USER_FUNCTIONS :: ck_ulong where "CKS_RW_USER_FUNCTIONS \<equiv> 3"
abbreviation CKZ_DATA_SPECIFIED :: ck_ulong where "CKZ_DATA_SPECIFIED \<equiv> 1"
abbreviation CK_INVALID_HANDLE :: ck_ulong where "CK_INVALID_HANDLE \<equiv> 0"

datatype ck_rv = CKR_OK | CKR_CANCEL | CKR_FUNCTION_FAILED | CKR_ARGUMENTS_BAD | CKR_NO_EVENT
  | CKR_CANT_LOCK | CKR_ATTRIBUTE_SENSITIVE | CKR_ATTRIBUTE_TYPE_INVALID | CKR_DATA_INVALID
  | CKR_DATA_LEN_RANGE | CKR_DEVICE_ERROR | CKR_DEVICE_REMOVED | CKR_FUNCTION_CANCELED
  | CKR_FUNCTION_NOT_SUPPORTED | CKR_KEY_HANDLE_INVALID | CKR_KEY_TYPE_INCONSISTENT
  | CKR_KEY_FUNCTION_NOT_PERMITTED | CKR_MECHANISM_INVALID | CKR_MECHANISM_PARAM_INVALID
  | CKR_OBJECT_HANDLE_INVALID | CKR_OPERATION_ACTIVE | CKR_OPERATION_NOT_INITIALIZED
  | CKR_PIN_INCORRECT | CKR_PIN_INVALID | CKR_PIN_LEN_RANGE | CKR_PIN_LOCKED
  | CKR_SESSION_HANDLE_INVALID | CKR_SESSION_PARALLEL_NOT_SUPPORTED | CKR_SLOT_ID_INVALID
  | CKR_TOKEN_NOT_PRESENT | CKR_TOKEN_WRITE_PROTECTED | CKR_USER_ALREADY_LOGGED_IN
  | CKR_USER_NOT_LOGGED_IN | CKR_USER_TYPE_INVALID | CKR_BUFFER_TOO_SMALL
  | CKR_CRYPTOKI_NOT_INITIALIZED | CKR_CRYPTOKI_ALREADY_INITIALIZED | CKR_OTHER ck_ulong

text \<open>
  \<open>CK_ATTRIBUTE\<close>: \<open>pValue\<close> is the application's buffer, with its current contents, or \<open>NULL\<close>.
  A well-formed attribute of a search template has a buffer of \<open>ulValueLen\<close> bytes.
\<close>

record ck_attribute =
  ca_type :: ck_ulong
  ca_pValue :: "bytes option"
  ca_ulValueLen :: ck_ulong

definition attribute_of :: "ck_ulong \<Rightarrow> bytes \<Rightarrow> ck_attribute" where
  "attribute_of t v = \<lparr>ca_type = t, ca_pValue = Some v, ca_ulValueLen = of_nat (length v)\<rparr>"

end
