(* ===== verification/Der.thy ===== *)
theory Der
  imports Prelude
begin

text \<open>
  The DER reader and writer of \<open>src/module/der.c\<close>.  \<open>portal_der_read\<close> accepts one-byte tags
  with definite, minimal lengths of at most four octets that lie within the input;
  \<open>portal_der_encode\<close> writes such a TLV.  The lemmas show that the two are inverse to each
  other in both directions: every accepted TLV is the one the encoder writes for its value.
\<close>

section \<open>The interface: a canonical TLV codec\<close>

text \<open>
  What the parsers of \<open>DigestInfo\<close> and \<open>SubjectPublicKeyInfo\<close> rely on.  \<open>enc\<close> may fail and
  \<open>dec\<close> returns the tag, the value and the number of octets consumed.
\<close>

locale tlv_codec =
  fixes enc :: "byte \<Rightarrow> bytes \<Rightarrow> bytes option"
    and dec :: "bytes \<Rightarrow> (byte \<times> bytes \<times> nat) option"
  assumes dec_enc: "enc t v = Some e \<Longrightarrow> t AND 0x1f \<noteq> 0x1f \<Longrightarrow> dec (e @ rest) = Some (t, v, length e)"
    and enc_dec: "dec d = Some (t, v, n) \<Longrightarrow> enc t v = Some (take n d) \<and> n \<le> length d"
begin

lemma dec_determined: "dec d = Some (t, v, n) \<Longrightarrow> dec d' = Some (t, v, n') \<Longrightarrow> take n d = take n' d'"
  by (metis enc_dec option.inject)

lemma dec_consumed_unique: "dec d = Some (t, v, n) \<Longrightarrow> dec d' = Some (t, v, n') \<Longrightarrow> n = n'"
  using enc_dec [of d t v n] enc_dec [of d' t v n'] by (auto dest: arg_cong [where f = length])

text \<open>A value that is a sequence of encodings is read back one by one.\<close>

lemma dec_first_of_two:
  "enc t v = Some e \<Longrightarrow> t AND 0x1f \<noteq> 0x1f \<Longrightarrow> dec (e @ f) = Some (t, v, length e) \<and> drop (length e) (e @ f) = f"
  using dec_enc by auto

end

section \<open>Reading\<close>

record der_tlv =
  tlv_tag :: byte
  tlv_value :: bytes
  tlv_length :: nat
  tlv_consumed :: nat

abbreviation PORTAL_DER_INTEGER :: byte where "PORTAL_DER_INTEGER \<equiv> 0x02"
abbreviation PORTAL_DER_BIT_STRING :: byte where "PORTAL_DER_BIT_STRING \<equiv> 0x03"
abbreviation PORTAL_DER_OCTET_STRING :: byte where "PORTAL_DER_OCTET_STRING \<equiv> 0x04"
abbreviation PORTAL_DER_NULL :: byte where "PORTAL_DER_NULL \<equiv> 0x05"
abbreviation PORTAL_DER_OID :: byte where "PORTAL_DER_OID \<equiv> 0x06"
abbreviation PORTAL_DER_SEQUENCE :: byte where "PORTAL_DER_SEQUENCE \<equiv> 0x30"

text \<open>
  The length field: the content length and the offset of the content.  A \<open>NULL\<close> input has
  size 0 in the code and is the empty list here.  The shift loop over at most four octets
  cannot overflow a 64-bit \<open>gsize\<close>, so the length is a natural number.
\<close>

definition der_read_length :: "bytes \<Rightarrow> (nat \<times> nat) option" where
  "der_read_length data =
     (if data ! 1 AND 0x80 = 0 then Some (unat (data ! 1), 2)
      else
        let count = unat (data ! 1 AND 0x7f) in
        if count = 0 \<or> count > 4 \<or> length data < 2 + count then None
        else if data ! 2 = 0 then None
        else
          let len = be_nat (take count (drop 2 data)) in
          if len < 0x80 then None else Some (len, 2 + count))"

definition portal_der_read :: "bytes \<Rightarrow> der_tlv option" where
  "portal_der_read data =
     (if length data < 2 then None
      else if data ! 0 AND 0x1f = 0x1f then None
      else case der_read_length data of
        None \<Rightarrow> None
      | Some (len, offset) \<Rightarrow>
          if len > length data - offset then None
          else Some \<lparr>tlv_tag = data ! 0, tlv_value = take len (drop offset data),
                     tlv_length = len, tlv_consumed = offset + len\<rparr>)"

definition portal_der_read_tag :: "bytes \<Rightarrow> byte \<Rightarrow> der_tlv option" where
  "portal_der_read_tag data tag =
     (case portal_der_read data of
        None \<Rightarrow> None
      | Some out \<Rightarrow> if tlv_tag out = tag then Some out else None)"

section \<open>Writing\<close>

text \<open>
  The counting loop of the long form, and the length octets.  The code keeps them in
  \<open>guint8 header[5]\<close>: a count above four would overrun it, which is \<open>None\<close> here.
\<close>

fun der_octet_count :: "nat \<Rightarrow> nat" where
  "der_octet_count remaining = (if remaining = 0 then 0 else Suc (der_octet_count (remaining div 256)))"

declare der_octet_count.simps [simp del]

definition der_header :: "nat \<Rightarrow> bytes option" where
  "der_header sz =
     (if sz < 0x80 then Some [of_nat sz]
      else
        let count = der_octet_count sz in
        if count + 1 > 5 then None
        else Some ((0x80 OR of_nat count) # map (\<lambda>i. of_nat (sz div 256 ^ (count - 1 - i))) [0..<count]))"

definition portal_der_encode :: "byte \<Rightarrow> bytes \<Rightarrow> bytes option" where
  "portal_der_encode tag value =
     (case der_header (length value) of
        None \<Rightarrow> None
      | Some header \<Rightarrow> Some (tag # header @ value))"


section \<open>The length field\<close>

lemma der_octet_count_eq: "der_octet_count n = length (be_octets n)"
proof (induction n rule: be_octets.induct)
  case (1 n)
  then show ?case
    by (simp add: der_octet_count.simps [of n] be_octets.simps [of n])
qed

lemma be_octets_by_index:
  "map (\<lambda>i. of_nat (n div 256 ^ (length (be_octets n) - 1 - i))) [0..<length (be_octets n)] = be_octets n"
proof (induction n rule: less_induct)
  case (less n)
  show ?case
  proof (cases "n = 0")
    case False
    define L where "L = length (be_octets (n div 256))"
    have n: "be_octets n = be_octets (n div 256) @ [of_nat n]"
      using False by (simp add: be_octets_pos)
    have step: "n div 256 ^ (L - i) = n div 256 div 256 ^ (L - 1 - i)" if "i < L" for i
    proof -
      from that have "L - i = Suc (L - 1 - i)" by simp
      then show ?thesis by (simp add: div_mult2_eq)
    qed
    have "map (\<lambda>i. of_nat (n div 256 ^ (L - i))) [0..<L] =
        map (\<lambda>i. of_nat (n div 256 div 256 ^ (L - 1 - i))) [0..<L]"
      using step by simp
    also have "\<dots> = be_octets (n div 256)"
      using less.IH [of "n div 256"] False by (simp add: L_def)
    finally show ?thesis
      by (simp add: n L_def [symmetric])
  qed simp
qed

lemma der_header_long:
  assumes "128 \<le> n" and "length (be_octets n) \<le> 4"
  shows "der_header n = Some ((0x80 OR of_nat (length (be_octets n))) # be_octets n)"
  using assms be_octets_by_index [of n]
  by (simp add: der_header_def der_octet_count_eq Let_def)

lemma der_header_too_long: "4 < length (be_octets n) \<Longrightarrow> 128 \<le> n \<Longrightarrow> der_header n = None"
  by (simp add: der_header_def der_octet_count_eq Let_def)

lemma der_header_short: "n < 128 \<Longrightarrow> der_header n = Some [of_nat n]"
  by (simp add: der_header_def)

text \<open>The leading octet of the long form, for the four counts the code can write.\<close>

lemma der_long_marker:
  assumes "1 \<le> k" and "k \<le> 4"
  shows "(0x80 OR of_nat k :: byte) AND 0x80 \<noteq> 0" and "unat ((0x80 OR of_nat k :: byte) AND 0x7f) = k"
proof -
  from assms consider "k = 1" | "k = 2" | "k = 3" | "k = 4" by linarith
  then have "(0x80 OR of_nat k :: byte) AND 0x80 \<noteq> 0 \<and> unat ((0x80 OR of_nat k :: byte) AND 0x7f) = k"
    by cases simp_all
  then show "(0x80 OR of_nat k :: byte) AND 0x80 \<noteq> 0" and "unat ((0x80 OR of_nat k :: byte) AND 0x7f) = k"
    by auto
qed

lemma der_long_marker_unique:
  assumes "(b :: byte) AND 0x80 \<noteq> 0"
  shows "b = 0x80 OR of_nat (unat (b AND 0x7f))"
proof -
  have "(b AND 0x80) OR (b AND 0x7f) = b AND (0x80 OR 0x7f)"
    by (simp only: bit.conj_disj_distrib)
  moreover have "(0x80 OR 0x7f :: byte) = - 1" by simp
  ultimately have "b = (b AND 0x80) OR (b AND 0x7f)"
    by (simp only: bit.conj_one_right)
  moreover have "b AND 0x80 = 0x80"
  proof -
    have "bit b 7"
      using assms and_exp_eq_0_iff_not_bit [of b 7] by simp
    then have "b AND push_bit 7 1 = push_bit 7 1"
      by (intro bit_eqI) (auto simp only: bit_and_iff bit_push_bit_iff bit_1_iff diff_is_0_eq dest: le_antisym)
    then show ?thesis by simp
  qed
  ultimately show ?thesis by simp
qed


lemma der_header_length: "der_header n = Some h \<Longrightarrow> 1 \<le> length h \<and> length h \<le> 5"
  by (auto simp: der_header_def Let_def split: if_splits)

lemma der_header_total: "n < 2 ^ 32 \<Longrightarrow> \<exists>h. der_header n = Some h"
  using length_be_octets_le [of n 4]
  by (cases "n < 128") (auto simp: der_header_short der_header_long)

lemma der_read_length_header:
  assumes "der_header n = Some h"
  shows "der_read_length (t # h @ rest) = Some (n, Suc (length h))"
proof (cases "n < 128")
  case True
  with assms have h: "h = [of_nat n]" by (simp add: der_header_short)
  have "unat (of_nat n :: byte) = n" using True by (simp add: unat_of_nat_byte)
  with h True show ?thesis
    by (simp add: der_read_length_def byte_and_80)
next
  case False
  define k where "k = length (be_octets n)"
  from assms False have "\<not> 4 < k"
    using der_header_too_long [of n] by (auto simp: k_def)
  with assms False have h: "h = (0x80 OR of_nat k) # be_octets n"
    by (simp add: k_def der_header_long)
  from False have ne: "be_octets n \<noteq> []" and hd: "hd (be_octets n) \<noteq> 0"
    using be_octets_hd [of n] by auto
  then have k: "1 \<le> k" "k \<le> 4" using \<open>\<not> 4 < k\<close> by (auto simp: k_def Suc_le_eq)
  have third: "(t # h @ rest) ! 2 = hd (be_octets n)"
    using ne by (simp add: h nth_append hd_conv_nth numeral_2_eq_2)
  have "take k (drop 2 (t # h @ rest)) = be_octets n"
    by (simp add: h k_def numeral_2_eq_2)
  with k False hd third show ?thesis
    by (simp add: der_read_length_def der_long_marker [OF k] h k_def [symmetric] Let_def)
qed

lemma der_read_length_inverse:
  assumes "der_read_length d = Some (len, offset)" and "2 \<le> length d"
  shows "der_header len = Some (take (offset - 1) (drop 1 d)) \<and> 2 \<le> offset \<and> offset \<le> length d"
proof (cases "d ! 1 AND 0x80 = 0")
  case True
  with assms have "len = unat (d ! 1)" and "offset = 2" and "unat (d ! 1) < 128"
    by (auto simp: der_read_length_def byte_and_80)
  moreover have "take 1 (drop 1 d) = [d ! 1]"
    using assms(2) by (simp add: take_Suc_conv_app_nth hd_drop_conv_nth take_Suc)
  ultimately show ?thesis
    using assms(2) by (simp add: der_header_short)
next
  case False
  define k where "k = unat (d ! 1 AND 0x7f)"
  define bs where "bs = take k (drop 2 d)"
  from assms False have k: "k \<noteq> 0" "k \<le> 4" "2 + k \<le> length d" and z: "d ! 2 \<noteq> 0"
    and len: "len = be_nat bs" "128 \<le> len" and off: "offset = 2 + k"
    by (auto simp: der_read_length_def k_def bs_def Let_def split: if_splits)
  have lbs: "length bs = k" and ne: "bs \<noteq> []" and hd: "hd bs \<noteq> 0"
    using k z by (auto simp: bs_def hd_take hd_drop_conv_nth)
  then have oct: "be_octets len = bs"
    by (simp add: len(1) be_octets_nat)
  with lbs k len(2) have "der_header len = Some ((0x80 OR of_nat k) # bs)"
    by (simp add: der_header_long)
  also have "0x80 OR of_nat k = d ! 1"
    using der_long_marker_unique [OF False] by (simp add: k_def)
  also have "d ! 1 # bs = take (offset - 1) (drop 1 d)"
    using k by (simp add: bs_def off take_Suc hd_drop_conv_nth drop_Suc [symmetric] tl_drop numeral_2_eq_2)
  finally show ?thesis using k off by simp
qed

section \<open>The codec laws\<close>

definition der_decode :: "bytes \<Rightarrow> (byte \<times> bytes \<times> nat) option" where
  "der_decode d = map_option (\<lambda>r. (tlv_tag r, tlv_value r, tlv_consumed r)) (portal_der_read d)"

lemma der_read_encoded:
  assumes "portal_der_encode t v = Some e" and "t AND 0x1f \<noteq> 0x1f"
  shows "portal_der_read (e @ rest) =
    Some \<lparr>tlv_tag = t, tlv_value = v, tlv_length = length v, tlv_consumed = length e\<rparr>"
proof -
  from assms(1) obtain h where h: "der_header (length v) = Some h" and e: "e = t # h @ v"
    by (auto simp: portal_der_encode_def split: option.splits)
  from h have "1 \<le> length h" using der_header_length by blast
  then show ?thesis
    using der_read_length_header [OF h, of t "v @ rest"] assms(2) e
    by (cases h) (auto simp: portal_der_read_def)
qed

lemma der_read_fields:
  assumes "portal_der_read d = Some r"
  shows "tlv_length r = length (tlv_value r)" and "tlv_consumed r \<le> length d"
    and "2 + tlv_length r \<le> tlv_consumed r"
    and "portal_der_encode (tlv_tag r) (tlv_value r) = Some (take (tlv_consumed r) d)"
proof -
  from assms obtain len offset where rl: "der_read_length d = Some (len, offset)"
    and d2: "2 \<le> length d" and fits: "len \<le> length d - offset"
    and r: "r = \<lparr>tlv_tag = d ! 0, tlv_value = take len (drop offset d),
                 tlv_length = len, tlv_consumed = offset + len\<rparr>"
    by (auto simp: portal_der_read_def split: if_splits option.splits prod.splits)
  from der_read_length_inverse [OF rl d2]
  have h: "der_header len = Some (take (offset - 1) (drop 1 d))" and off: "2 \<le> offset" "offset \<le> length d"
    by auto
  show "tlv_length r = length (tlv_value r)" and "tlv_consumed r \<le> length d"
    and "2 + tlv_length r \<le> tlv_consumed r"
    using fits off by (auto simp: r)
  have d0: "d = d ! 0 # drop 1 d"
    using d2 by (cases d) auto
  have "take (offset + len) d = d ! 0 # take (offset - 1 + len) (drop 1 d)"
    using off by (subst d0) (simp add: take_Cons' add.commute)
  also have "take (offset - 1 + len) (drop 1 d) = take (offset - 1) (drop 1 d) @ take len (drop offset d)"
    using off by (simp only: take_add drop_drop) simp
  finally show "portal_der_encode (tlv_tag r) (tlv_value r) = Some (take (tlv_consumed r) d)"
    using h fits by (simp add: r portal_der_encode_def)
qed

interpretation der: tlv_codec portal_der_encode der_decode
  by unfold_locales (auto simp: der_decode_def der_read_encoded dest: der_read_fields)

lemma der_encode_total: "length v < 2 ^ 32 \<Longrightarrow> \<exists>e. portal_der_encode t v = Some e"
  using der_header_total [of "length v"] by (auto simp: portal_der_encode_def)

section \<open>Properties\<close>

text \<open>C29 (functional): \<open>portal_der_read\<close> accepts exactly the inputs that start with an encoding
  \<open>portal_der_encode\<close> writes for a one-byte tag: tag, value and length are those of the encoding and
  the consumed size is its size.  So the reader accepts no second form of any value.\<close>

theorem der_read_exact:
  "portal_der_read d = Some r \<longleftrightarrow>
    (\<exists>e rest. tlv_tag r AND 0x1f \<noteq> 0x1f \<and> portal_der_encode (tlv_tag r) (tlv_value r) = Some e \<and>
      d = e @ rest \<and> tlv_length r = length (tlv_value r) \<and> tlv_consumed r = length e)"
proof
  assume a: "portal_der_read d = Some r"
  then have "tlv_tag r AND 0x1f \<noteq> 0x1f"
    by (auto simp: portal_der_read_def split: if_splits option.splits)
  with der_read_fields [OF a] show "\<exists>e rest. tlv_tag r AND 0x1f \<noteq> 0x1f \<and>
      portal_der_encode (tlv_tag r) (tlv_value r) = Some e \<and>
      d = e @ rest \<and> tlv_length r = length (tlv_value r) \<and> tlv_consumed r = length e"
    by (intro exI [of _ "take (tlv_consumed r) d"] exI [of _ "drop (tlv_consumed r) d"]) simp
next
  assume "\<exists>e rest. tlv_tag r AND 0x1f \<noteq> 0x1f \<and> portal_der_encode (tlv_tag r) (tlv_value r) = Some e \<and>
      d = e @ rest \<and> tlv_length r = length (tlv_value r) \<and> tlv_consumed r = length e"
  then show "portal_der_read d = Some r"
    using der_read_encoded by fastforce
qed

text \<open>\<open>portal_der_encode\<close> fits its length octets into \<open>header[5]\<close> exactly for values
  shorter than 4 GiB; a longer value would overrun the buffer.\<close>

lemma der_encode_fits: "portal_der_encode t v = None \<longleftrightarrow> 2 ^ 32 \<le> length v"
proof -
  have "length v < 2 ^ 32" if "length (be_octets (length v)) \<le> 4"
  proof -
    have "length v < 256 ^ length (be_octets (length v))"
      using be_nat_less [of "be_octets (length v)"] by simp
    also have "\<dots> \<le> 256 ^ 4" using that by (intro power_increasing) simp_all
    finally show ?thesis by simp
  qed
  then have "der_header (length v) = None" if "2 ^ 32 \<le> length v"
    using that by (intro der_header_too_long) (auto simp: not_le [symmetric])
  moreover have "portal_der_encode t v = None \<longleftrightarrow> der_header (length v) = None"
    by (simp add: portal_der_encode_def split: option.splits)
  ultimately show ?thesis
    using der_header_total [of "length v"] by (cases "length v < 2 ^ 32") auto
qed

end
