(* ===== verification/ModMechanism.thy ===== *)
theory ModMechanism
  imports Der "HOL-Library.Monad_Syntax"
begin

text \<open>
  The hash and mechanism tables of the PKCS#11 module (\<open>src/module/mechanism.c\<close>), the
  lookups over them and the strict \<open>DigestInfo\<close> parser that turns the input of \<open>CKM_RSA_PKCS\<close>
  into a hash name and a digest.  The tables are interpretations of \<open>keyed_table\<close>; the parser
  is characterised exactly by the encodings it accepts.
\<close>

section \<open>PKCS#11 constants\<close>

abbreviation CKM_RSA_PKCS :: ck_ulong where "CKM_RSA_PKCS \<equiv> 0x1"
abbreviation CKM_SHA1_RSA_PKCS :: ck_ulong where "CKM_SHA1_RSA_PKCS \<equiv> 0x6"
abbreviation CKM_RSA_PKCS_OAEP :: ck_ulong where "CKM_RSA_PKCS_OAEP \<equiv> 0x9"
abbreviation CKM_RSA_PKCS_PSS :: ck_ulong where "CKM_RSA_PKCS_PSS \<equiv> 0xD"
abbreviation CKM_SHA1_RSA_PKCS_PSS :: ck_ulong where "CKM_SHA1_RSA_PKCS_PSS \<equiv> 0xE"
abbreviation CKM_SHA256_RSA_PKCS :: ck_ulong where "CKM_SHA256_RSA_PKCS \<equiv> 0x40"
abbreviation CKM_SHA384_RSA_PKCS :: ck_ulong where "CKM_SHA384_RSA_PKCS \<equiv> 0x41"
abbreviation CKM_SHA512_RSA_PKCS :: ck_ulong where "CKM_SHA512_RSA_PKCS \<equiv> 0x42"
abbreviation CKM_SHA256_RSA_PKCS_PSS :: ck_ulong where "CKM_SHA256_RSA_PKCS_PSS \<equiv> 0x43"
abbreviation CKM_SHA384_RSA_PKCS_PSS :: ck_ulong where "CKM_SHA384_RSA_PKCS_PSS \<equiv> 0x44"
abbreviation CKM_SHA512_RSA_PKCS_PSS :: ck_ulong where "CKM_SHA512_RSA_PKCS_PSS \<equiv> 0x45"
abbreviation CKM_SHA224_RSA_PKCS :: ck_ulong where "CKM_SHA224_RSA_PKCS \<equiv> 0x46"
abbreviation CKM_SHA224_RSA_PKCS_PSS :: ck_ulong where "CKM_SHA224_RSA_PKCS_PSS \<equiv> 0x47"
abbreviation CKM_SHA_1 :: ck_ulong where "CKM_SHA_1 \<equiv> 0x220"
abbreviation CKM_SHA256 :: ck_ulong where "CKM_SHA256 \<equiv> 0x250"
abbreviation CKM_SHA224 :: ck_ulong where "CKM_SHA224 \<equiv> 0x255"
abbreviation CKM_SHA384 :: ck_ulong where "CKM_SHA384 \<equiv> 0x260"
abbreviation CKM_SHA512 :: ck_ulong where "CKM_SHA512 \<equiv> 0x270"
abbreviation CKM_ECDSA :: ck_ulong where "CKM_ECDSA \<equiv> 0x1041"
abbreviation CKM_ECDSA_SHA1 :: ck_ulong where "CKM_ECDSA_SHA1 \<equiv> 0x1042"
abbreviation CKM_ECDSA_SHA224 :: ck_ulong where "CKM_ECDSA_SHA224 \<equiv> 0x1043"
abbreviation CKM_ECDSA_SHA256 :: ck_ulong where "CKM_ECDSA_SHA256 \<equiv> 0x1044"
abbreviation CKM_ECDSA_SHA384 :: ck_ulong where "CKM_ECDSA_SHA384 \<equiv> 0x1045"
abbreviation CKM_ECDSA_SHA512 :: ck_ulong where "CKM_ECDSA_SHA512 \<equiv> 0x1046"
abbreviation CKG_MGF1_SHA1 :: ck_ulong where "CKG_MGF1_SHA1 \<equiv> 1"
abbreviation CKG_MGF1_SHA256 :: ck_ulong where "CKG_MGF1_SHA256 \<equiv> 2"
abbreviation CKG_MGF1_SHA384 :: ck_ulong where "CKG_MGF1_SHA384 \<equiv> 3"
abbreviation CKG_MGF1_SHA512 :: ck_ulong where "CKG_MGF1_SHA512 \<equiv> 4"
abbreviation CKG_MGF1_SHA224 :: ck_ulong where "CKG_MGF1_SHA224 \<equiv> 5"

datatype gnutls_digest = GNUTLS_DIG_UNKNOWN | GNUTLS_DIG_SHA1 | GNUTLS_DIG_SHA224
  | GNUTLS_DIG_SHA256 | GNUTLS_DIG_SHA384 | GNUTLS_DIG_SHA512

section \<open>The tables\<close>

record hash_row =
  he_name :: string
  he_length :: nat
  he_gnutls_digest :: gnutls_digest
  he_ck_digest :: ck_ulong
  he_mgf :: ck_ulong
  he_oid :: bytes

definition oid_sha1 :: bytes where "oid_sha1 = [0x2b, 0x0e, 0x03, 0x02, 0x1a]"
definition oid_sha224 :: bytes where
  "oid_sha224 = [0x60, 0x86, 0x48, 0x01, 0x65, 0x03, 0x04, 0x02, 0x04]"
definition oid_sha256 :: bytes where
  "oid_sha256 = [0x60, 0x86, 0x48, 0x01, 0x65, 0x03, 0x04, 0x02, 0x01]"
definition oid_sha384 :: bytes where
  "oid_sha384 = [0x60, 0x86, 0x48, 0x01, 0x65, 0x03, 0x04, 0x02, 0x02]"
definition oid_sha512 :: bytes where
  "oid_sha512 = [0x60, 0x86, 0x48, 0x01, 0x65, 0x03, 0x04, 0x02, 0x03]"

definition hash_table :: "hash_row list" where
  "hash_table =
    [\<lparr>he_name = ''SHA1'', he_length = 20, he_gnutls_digest = GNUTLS_DIG_SHA1,
      he_ck_digest = CKM_SHA_1, he_mgf = CKG_MGF1_SHA1, he_oid = oid_sha1\<rparr>,
     \<lparr>he_name = ''SHA224'', he_length = 28, he_gnutls_digest = GNUTLS_DIG_SHA224,
      he_ck_digest = CKM_SHA224, he_mgf = CKG_MGF1_SHA224, he_oid = oid_sha224\<rparr>,
     \<lparr>he_name = ''SHA256'', he_length = 32, he_gnutls_digest = GNUTLS_DIG_SHA256,
      he_ck_digest = CKM_SHA256, he_mgf = CKG_MGF1_SHA256, he_oid = oid_sha256\<rparr>,
     \<lparr>he_name = ''SHA384'', he_length = 48, he_gnutls_digest = GNUTLS_DIG_SHA384,
      he_ck_digest = CKM_SHA384, he_mgf = CKG_MGF1_SHA384, he_oid = oid_sha384\<rparr>,
     \<lparr>he_name = ''SHA512'', he_length = 64, he_gnutls_digest = GNUTLS_DIG_SHA512,
      he_ck_digest = CKM_SHA512, he_mgf = CKG_MGF1_SHA512, he_oid = oid_sha512\<rparr>]"

record portal_mechanism =
  pm_type :: ck_ulong
  pm_portal_mechanism :: string
  pm_hash :: "string option"
  pm_hash_locally :: bool
  pm_digest_info :: bool
  pm_infer_hash :: bool
  pm_pss :: bool
  pm_can_sign :: bool
  pm_can_decrypt :: bool

abbreviation RSA_V15 :: string where "RSA_V15 \<equiv> ''RSA_PKCS1_V1_5''"
abbreviation RSA_PSS :: string where "RSA_PSS \<equiv> ''RSA_PSS''"
abbreviation ECDSA :: string where "ECDSA \<equiv> ''ECDSA''"
abbreviation RSA_OAEP :: string where "RSA_OAEP \<equiv> ''RSA_OAEP''"

fun mechanism_row ::
  "ck_ulong \<Rightarrow> string \<Rightarrow> string option \<Rightarrow> bool \<Rightarrow> bool \<Rightarrow> bool \<Rightarrow> bool \<Rightarrow> bool \<Rightarrow> bool \<Rightarrow> portal_mechanism" where
  "mechanism_row t n h hl di ih p s d =
     \<lparr>pm_type = t, pm_portal_mechanism = n, pm_hash = h, pm_hash_locally = hl, pm_digest_info = di,
      pm_infer_hash = ih, pm_pss = p, pm_can_sign = s, pm_can_decrypt = d\<rparr>"

definition mechanism_table :: "portal_mechanism list" where
  "mechanism_table =
    [mechanism_row CKM_RSA_PKCS RSA_V15 None False True False False True False,
     mechanism_row CKM_SHA1_RSA_PKCS RSA_V15 (Some ''SHA1'') True False False False True False,
     mechanism_row CKM_SHA224_RSA_PKCS RSA_V15 (Some ''SHA224'') True False False False True False,
     mechanism_row CKM_SHA256_RSA_PKCS RSA_V15 (Some ''SHA256'') True False False False True False,
     mechanism_row CKM_SHA384_RSA_PKCS RSA_V15 (Some ''SHA384'') True False False False True False,
     mechanism_row CKM_SHA512_RSA_PKCS RSA_V15 (Some ''SHA512'') True False False False True False,
     mechanism_row CKM_RSA_PKCS_PSS RSA_PSS None False False False True True False,
     mechanism_row CKM_SHA1_RSA_PKCS_PSS RSA_PSS (Some ''SHA1'') True False False True True False,
     mechanism_row CKM_SHA224_RSA_PKCS_PSS RSA_PSS (Some ''SHA224'') True False False True True False,
     mechanism_row CKM_SHA256_RSA_PKCS_PSS RSA_PSS (Some ''SHA256'') True False False True True False,
     mechanism_row CKM_SHA384_RSA_PKCS_PSS RSA_PSS (Some ''SHA384'') True False False True True False,
     mechanism_row CKM_SHA512_RSA_PKCS_PSS RSA_PSS (Some ''SHA512'') True False False True True False,
     mechanism_row CKM_ECDSA ECDSA None False False True False True False,
     mechanism_row CKM_ECDSA_SHA1 ECDSA (Some ''SHA1'') True False False False True False,
     mechanism_row CKM_ECDSA_SHA224 ECDSA (Some ''SHA224'') True False False False True False,
     mechanism_row CKM_ECDSA_SHA256 ECDSA (Some ''SHA256'') True False False False True False,
     mechanism_row CKM_ECDSA_SHA384 ECDSA (Some ''SHA384'') True False False False True False,
     mechanism_row CKM_ECDSA_SHA512 ECDSA (Some ''SHA512'') True False False False True False,
     mechanism_row CKM_RSA_PKCS_OAEP RSA_OAEP None False False False False False True]"

section \<open>Lookups\<close>

definition hash_entry :: "string option \<Rightarrow> hash_row option" where
  "hash_entry hash =
     (case hash of None \<Rightarrow> None | Some h \<Rightarrow> List.find (\<lambda>e. he_name e = h) hash_table)"

definition portal_mechanism_lookup :: "ck_ulong \<Rightarrow> portal_mechanism option" where
  "portal_mechanism_lookup t = List.find (\<lambda>m. pm_type m = t) mechanism_table"

definition portal_mechanism_available :: "portal_mechanism option \<Rightarrow> string list option \<Rightarrow> bool" where
  "portal_mechanism_available mechanism names =
     (case (mechanism, names) of
        (Some m, Some ns) \<Rightarrow> list_ex (\<lambda>n. n = pm_portal_mechanism m) ns
      | _ \<Rightarrow> False)"

definition portal_mechanism_list :: "string list option \<Rightarrow> ck_ulong list" where
  "portal_mechanism_list names =
     map pm_type (filter (\<lambda>m. portal_mechanism_available (Some m) names) mechanism_table)"

definition portal_hash_length :: "string option \<Rightarrow> nat" where
  "portal_hash_length hash = (case hash_entry hash of Some e \<Rightarrow> he_length e | None \<Rightarrow> 0)"

definition portal_hash_for_length :: "nat \<Rightarrow> string option" where
  "portal_hash_for_length len = map_option he_name (List.find (\<lambda>e. he_length e = len) hash_table)"

definition portal_hash_gnutls :: "string option \<Rightarrow> gnutls_digest" where
  "portal_hash_gnutls hash =
     (case hash_entry hash of Some e \<Rightarrow> he_gnutls_digest e | None \<Rightarrow> GNUTLS_DIG_UNKNOWN)"

definition portal_hash_ck_digest :: "string option \<Rightarrow> ck_ulong" where
  "portal_hash_ck_digest hash = (case hash_entry hash of Some e \<Rightarrow> he_ck_digest e | None \<Rightarrow> 0)"

definition portal_hash_from_ck_digest :: "ck_ulong \<Rightarrow> string option" where
  "portal_hash_from_ck_digest digest =
     map_option he_name (List.find (\<lambda>e. he_ck_digest e = digest) hash_table)"

definition portal_mgf_hash :: "ck_ulong \<Rightarrow> string option" where
  "portal_mgf_hash mgf = map_option he_name (List.find (\<lambda>e. he_mgf e = mgf) hash_table)"

text \<open>\<open>names[i]\<close> for the first row \<open>i\<close> of \<open>hash_table\<close> with this generator.\<close>

definition mgf_names :: "string list" where
  "mgf_names = [''MGF1-SHA1'', ''MGF1-SHA224'', ''MGF1-SHA256'', ''MGF1-SHA384'', ''MGF1-SHA512'']"

definition portal_mgf_name :: "ck_ulong \<Rightarrow> string option" where
  "portal_mgf_name mgf =
     map_option snd (List.find (\<lambda>(e, n). he_mgf e = mgf) (zip hash_table mgf_names))"

section \<open>The DigestInfo parser\<close>

abbreviation require :: "bool \<Rightarrow> unit option" where
  "require b \<equiv> (if b then Some () else None)"

text \<open>The algorithm parameters: absent, or exactly a NULL.\<close>

definition digestinfo_parameters_ok :: "der_tlv \<Rightarrow> der_tlv \<Rightarrow> bool" where
  "digestinfo_parameters_ok algorithm oid =
     (if tlv_consumed oid \<noteq> tlv_length algorithm then
        (case portal_der_read_tag (drop (tlv_consumed oid) (tlv_value algorithm)) PORTAL_DER_NULL of
           None \<Rightarrow> False
         | Some parameters \<Rightarrow>
             tlv_length parameters = 0 \<and>
             tlv_consumed oid + tlv_consumed parameters = tlv_length algorithm)
      else True)"

definition portal_digestinfo_parse :: "bytes \<Rightarrow> (string \<times> bytes) option" where
  "portal_digestinfo_parse data = do {
     require (data \<noteq> []);
     outer \<leftarrow> portal_der_read_tag data PORTAL_DER_SEQUENCE;
     require (tlv_consumed outer = length data);
     algorithm \<leftarrow> portal_der_read_tag (tlv_value outer) PORTAL_DER_SEQUENCE;
     oid \<leftarrow> portal_der_read_tag (tlv_value algorithm) PORTAL_DER_OID;
     require (digestinfo_parameters_ok algorithm oid);
     entry \<leftarrow> List.find (\<lambda>e. he_oid e = tlv_value oid) hash_table;
     value \<leftarrow> portal_der_read_tag (drop (tlv_consumed algorithm) (tlv_value outer)) PORTAL_DER_OCTET_STRING;
     require (tlv_consumed algorithm + tlv_consumed value = tlv_length outer);
     require (tlv_length value = he_length entry);
     Some (he_name entry, tlv_value value)
   }"


section \<open>The tables are partial functions\<close>

lemmas oid_defs = oid_sha1_def oid_sha224_def oid_sha256_def oid_sha384_def oid_sha512_def

interpretation ht: two_key_table hash_table he_name he_length
  by unfold_locales (simp_all add: hash_table_def)

interpretation ht_ck: two_key_table hash_table he_name he_ck_digest
  by unfold_locales (simp_all add: hash_table_def)

interpretation ht_mgf: two_key_table hash_table he_name he_mgf
  by unfold_locales (simp_all add: hash_table_def)

interpretation ht_oid: two_key_table hash_table he_name he_oid
  by unfold_locales (simp_all add: hash_table_def oid_defs)

interpretation mt: keyed_table mechanism_table pm_type
  by unfold_locales (simp add: mechanism_table_def)

lemma hash_entry_iff: "hash_entry (Some h) = Some e \<longleftrightarrow> e \<in> set hash_table \<and> he_name e = h"
  by (simp add: hash_entry_def ht.find_iff)

lemma hash_entry_None [simp]: "hash_entry None = None"
  by (simp add: hash_entry_def)

lemma hash_table_bounds:
  "e \<in> set hash_table \<Longrightarrow> 20 \<le> he_length e \<and> he_length e \<le> 64 \<and> he_ck_digest e \<noteq> 0
    \<and> he_gnutls_digest e \<noteq> GNUTLS_DIG_UNKNOWN \<and> length (he_oid e) \<le> 9"
  by (auto simp: hash_table_def oid_defs)

lemma portal_mechanism_lookup_iff:
  "portal_mechanism_lookup t = Some m \<longleftrightarrow> m \<in> set mechanism_table \<and> pm_type m = t"
  by (simp add: portal_mechanism_lookup_def mt.find_iff)

text \<open>
  What the signing code relies on: a mechanism that hashes locally names a hash of the table,
  and a mechanism that does not hash has at most one of the two input conventions.
\<close>

lemma mechanism_table_shape:
  assumes "m \<in> set mechanism_table"
  shows "pm_hash_locally m \<longleftrightarrow> pm_hash m \<noteq> None"
    and "pm_hash m \<noteq> None \<Longrightarrow> \<exists>e. hash_entry (pm_hash m) = Some e"
    and "pm_can_sign m \<noteq> pm_can_decrypt m"
    and "\<not> (pm_digest_info m \<and> pm_infer_hash m)"
    and "pm_can_sign m \<Longrightarrow> \<not> pm_hash_locally m \<Longrightarrow> pm_digest_info m \<or> pm_infer_hash m \<or> pm_pss m"
proof -
  have "list_all (\<lambda>m. (pm_hash_locally m = (pm_hash m \<noteq> None)) \<and> (pm_hash m \<noteq> None \<longrightarrow> hash_entry (pm_hash m) \<noteq> None) \<and>
      (pm_can_sign m \<noteq> pm_can_decrypt m) \<and> \<not> (pm_digest_info m \<and> pm_infer_hash m) \<and>
      (pm_can_sign m \<and> \<not> pm_hash_locally m \<longrightarrow> pm_digest_info m \<or> pm_infer_hash m \<or> pm_pss m)) mechanism_table"
    by (simp add: mechanism_table_def hash_entry_def hash_table_def)
  with assms show "pm_hash_locally m \<longleftrightarrow> pm_hash m \<noteq> None"
    and "pm_hash m \<noteq> None \<Longrightarrow> \<exists>e. hash_entry (pm_hash m) = Some e"
    and "pm_can_sign m \<noteq> pm_can_decrypt m" and "\<not> (pm_digest_info m \<and> pm_infer_hash m)"
    and "pm_can_sign m \<Longrightarrow> \<not> pm_hash_locally m \<Longrightarrow> pm_digest_info m \<or> pm_infer_hash m \<or> pm_pss m"
    by (auto simp: list_all_iff)
qed

section \<open>The DigestInfo encodings\<close>

text \<open>
  The abstract specification: the DER encoding of \<open>DigestInfo\<close> for a table entry, with the
  algorithm parameters absent or NULL.
\<close>

definition digestinfo_encode :: "hash_row \<Rightarrow> bool \<Rightarrow> bytes \<Rightarrow> bytes option" where
  "digestinfo_encode e null d = do {
     oid \<leftarrow> portal_der_encode PORTAL_DER_OID (he_oid e);
     parameters \<leftarrow> (if null then portal_der_encode PORTAL_DER_NULL [] else Some []);
     algorithm \<leftarrow> portal_der_encode PORTAL_DER_SEQUENCE (oid @ parameters);
     digest \<leftarrow> portal_der_encode PORTAL_DER_OCTET_STRING d;
     portal_der_encode PORTAL_DER_SEQUENCE (algorithm @ digest)
   }"

lemma read_tag_encoded:
  "portal_der_encode t v = Some e \<Longrightarrow> t AND 0x1f \<noteq> 0x1f \<Longrightarrow>
    portal_der_read_tag (e @ rest) t =
      Some \<lparr>tlv_tag = t, tlv_value = v, tlv_length = length v, tlv_consumed = length e\<rparr>"
  by (simp add: portal_der_read_tag_def der_read_encoded)

lemma read_tag_encoded_nil:
  "portal_der_encode t v = Some e \<Longrightarrow> t AND 0x1f \<noteq> 0x1f \<Longrightarrow>
    portal_der_read_tag e t =
      Some \<lparr>tlv_tag = t, tlv_value = v, tlv_length = length v, tlv_consumed = length e\<rparr>"
  using read_tag_encoded [of t v e "[]"] by simp

lemma read_tag_fields:
  assumes "portal_der_read_tag d t = Some r"
  shows "tlv_length r = length (tlv_value r)" and "tlv_consumed r \<le> length d"
    and "2 + tlv_length r \<le> tlv_consumed r"
    and "portal_der_encode t (tlv_value r) = Some (take (tlv_consumed r) d)"
  using assms der_read_fields [of d r]
  by (auto simp: portal_der_read_tag_def split: option.splits if_splits)

lemma encode_length: "portal_der_encode t v = Some e \<Longrightarrow> 2 + length v \<le> length e"
  using der_header_length by (fastforce simp: portal_der_encode_def split: option.splits)

lemma digestinfo_complete:
  assumes e: "e \<in> set hash_table" and d: "length d = he_length e"
    and enc: "digestinfo_encode e null d = Some data"
  shows "portal_digestinfo_parse data = Some (he_name e, d)"
proof -
  from enc obtain oid p alg dig where
    o: "portal_der_encode PORTAL_DER_OID (he_oid e) = Some oid" and
    p: "(if null then portal_der_encode PORTAL_DER_NULL [] else Some []) = Some p" and
    a: "portal_der_encode PORTAL_DER_SEQUENCE (oid @ p) = Some alg" and
    g: "portal_der_encode PORTAL_DER_OCTET_STRING d = Some dig" and
    s: "portal_der_encode PORTAL_DER_SEQUENCE (alg @ dig) = Some data"
    by (auto simp: digestinfo_encode_def bind_eq_Some_conv)
  have params: "digestinfo_parameters_ok
      \<lparr>tlv_tag = PORTAL_DER_SEQUENCE, tlv_value = oid @ p, tlv_length = length (oid @ p), tlv_consumed = length alg\<rparr>
      \<lparr>tlv_tag = PORTAL_DER_OID, tlv_value = he_oid e, tlv_length = length (he_oid e), tlv_consumed = length oid\<rparr>"
    using p read_tag_encoded_nil [of PORTAL_DER_NULL "[]" p]
    by (auto simp: digestinfo_parameters_ok_def split: if_splits)
  from e have f: "List.find (\<lambda>x. he_oid x = he_oid e) hash_table = Some e"
    by (simp add: ht_oid.second.find_iff)
  from encode_length [OF s] have "data \<noteq> []" by auto
  with params f d show ?thesis
    unfolding portal_digestinfo_parse_def
    by (simp add: read_tag_encoded [OF o] read_tag_encoded [OF a] read_tag_encoded_nil [OF g]
        read_tag_encoded_nil [OF s])
qed

lemma digestinfo_sound:
  assumes "portal_digestinfo_parse data = Some (h, d)"
  shows "\<exists>e null. e \<in> set hash_table \<and> he_name e = h \<and> length d = he_length e \<and>
    digestinfo_encode e null d = Some data"
proof -
  from assms obtain outer alg oid e val where
    r1: "portal_der_read_tag data PORTAL_DER_SEQUENCE = Some outer" and c1: "tlv_consumed outer = length data" and
    r2: "portal_der_read_tag (tlv_value outer) PORTAL_DER_SEQUENCE = Some alg" and
    r3: "portal_der_read_tag (tlv_value alg) PORTAL_DER_OID = Some oid" and
    par: "digestinfo_parameters_ok alg oid" and
    fe: "List.find (\<lambda>e. he_oid e = tlv_value oid) hash_table = Some e" and
    r4: "portal_der_read_tag (drop (tlv_consumed alg) (tlv_value outer)) PORTAL_DER_OCTET_STRING = Some val" and
    c4: "tlv_consumed alg + tlv_consumed val = tlv_length outer" and
    lv: "tlv_length val = he_length e" and hd: "h = he_name e" "d = tlv_value val"
    by (auto simp: portal_digestinfo_parse_def bind_eq_Some_conv split: if_splits)
  note f1 = read_tag_fields [OF r1] and f2 = read_tag_fields [OF r2]
    and f3 = read_tag_fields [OF r3] and f4 = read_tag_fields [OF r4]
  from fe have e: "e \<in> set hash_table" and oe: "he_oid e = tlv_value oid"
    by (auto simp: ht_oid.second.find_iff)
  define p where "p = drop (tlv_consumed oid) (tlv_value alg)"
  define null where "null = (p \<noteq> [])"
  have alg_split: "take (tlv_consumed oid) (tlv_value alg) @ p = tlv_value alg"
    by (simp add: p_def)
  have ov: "take (tlv_consumed alg) (tlv_value outer) @ drop (tlv_consumed alg) (tlv_value outer) = tlv_value outer"
    by simp
  have dig: "take (tlv_consumed val) (drop (tlv_consumed alg) (tlv_value outer)) = drop (tlv_consumed alg) (tlv_value outer)"
    using c4 f1(1) by simp
  have pe: "(if null then portal_der_encode PORTAL_DER_NULL [] else Some []) = Some p"
  proof (cases "p = []")
    case False
    with f2(1) f3(2) have "tlv_consumed oid \<noteq> tlv_length alg" by (auto simp: p_def)
    with par obtain q where q: "portal_der_read_tag p PORTAL_DER_NULL = Some q" "tlv_length q = 0"
      "tlv_consumed oid + tlv_consumed q = tlv_length alg"
      by (auto simp: digestinfo_parameters_ok_def p_def split: option.splits)
    from read_tag_fields [OF q(1)] q f2(1) show ?thesis
      by (auto simp: null_def p_def False)
  qed (simp add: null_def)
  have "digestinfo_encode e null d = Some data"
    using pe f1(4) c1 f2(4) f3(4) f4(4) ov alg_split
    by (simp add: digestinfo_encode_def oe hd dig)
  with e lv f4(1) hd show ?thesis by auto
qed

section \<open>Properties\<close>

text \<open>C26 (functional): the \<open>DigestInfo\<close> parser accepts exactly the DER encodings of
  \<open>DigestInfo\<close> for a hash of the table with a digest of that hash's length, with algorithm
  parameters absent or NULL, and returns that hash and digest.\<close>

theorem digestinfo_parse_exact:
  "portal_digestinfo_parse data = Some (h, d) \<longleftrightarrow>
    (\<exists>e null. e \<in> set hash_table \<and> he_name e = h \<and> length d = he_length e \<and>
      digestinfo_encode e null d = Some data)"
  using digestinfo_sound [of data h d] digestinfo_complete [of _ d _ data] by blast

text \<open>The hash lookups by PKCS#11 digest, by mask generator and by digest length
  are inverse to the lookups by name.\<close>

lemma hash_lookups_inverse:
  "(portal_hash_from_ck_digest c = Some h \<longleftrightarrow> hash_entry (Some h) \<noteq> None \<and> portal_hash_ck_digest (Some h) = c) \<and>
   (portal_hash_for_length n = Some h \<longleftrightarrow> hash_entry (Some h) \<noteq> None \<and> portal_hash_length (Some h) = n) \<and>
   (portal_mgf_hash m = Some h \<longleftrightarrow> (\<exists>e. hash_entry (Some h) = Some e \<and> he_mgf e = m)) \<and>
   (portal_mgf_name m = (case portal_mgf_hash m of None \<Rightarrow> None | Some k \<Rightarrow> Some (''MGF1-'' @ k)))"
proof (intro conjI)
  show "portal_hash_from_ck_digest c = Some h \<longleftrightarrow> hash_entry (Some h) \<noteq> None \<and> portal_hash_ck_digest (Some h) = c"
    by (auto simp: portal_hash_from_ck_digest_def portal_hash_ck_digest_def ht_ck.second.find_iff
        hash_entry_def ht.find_iff split: option.splits)
      (auto simp: ht.find_iff find_None_iff dest: ht.key_inject)
  show "portal_hash_for_length n = Some h \<longleftrightarrow> hash_entry (Some h) \<noteq> None \<and> portal_hash_length (Some h) = n"
    by (auto simp: portal_hash_for_length_def portal_hash_length_def ht.second.find_iff
        hash_entry_def ht.find_iff split: option.splits)
      (auto simp: ht.find_iff find_None_iff dest: ht.key_inject)
  show "portal_mgf_hash m = Some h \<longleftrightarrow> (\<exists>e. hash_entry (Some h) = Some e \<and> he_mgf e = m)"
    by (auto simp: portal_mgf_hash_def hash_entry_iff ht_mgf.second.find_iff)
  show "portal_mgf_name m = (case portal_mgf_hash m of None \<Rightarrow> None | Some k \<Rightarrow> Some (''MGF1-'' @ k))"
    by (simp add: portal_mgf_name_def portal_mgf_hash_def hash_table_def mgf_names_def)
qed

end
