(* ===== verification/Objects.thy ===== *)
theory Objects
  imports Cryptoki ModMechanism
begin

text \<open>
  The objects of the PKCS#11 module (\<open>src/module/objects.c\<close>, \<open>grant.h\<close>): how a grant becomes a
  certificate, a public key and a private key object, how search templates and attribute
  reads work on them, and which searches may ask the user for a credential.  The X.509 library
  (GnuTLS) is the parameter \<open>x509_env\<close>; private key material is an attribute without a value.
\<close>

section \<open>Grants and errors\<close>

record portal_grant =
  g_session_handle :: "string option"
  g_owner :: "string option"
  g_owner_generation :: "64 word"
  g_certificate_der :: bytes
  g_key_type :: "string option"
  g_key_size :: guint
  g_key_curve :: "string option"
  g_supported_mechanisms :: "string list option"
  g_may_sign :: bool
  g_may_decrypt :: bool
  g_expires_at :: int

datatype portal_error_code = PKCS11_PORTAL_ERROR_FAILED | PKCS11_PORTAL_ERROR_CANCELLED
  | PKCS11_PORTAL_ERROR_UNAVAILABLE | PKCS11_PORTAL_ERROR_INVALIDATED | PKCS11_PORTAL_ERROR_TIMEOUT
  | PKCS11_PORTAL_ERROR_PIN_LOCKED | PKCS11_PORTAL_ERROR_DEVICE | PKCS11_PORTAL_ERROR_LOGIN_REQUIRED
  | PKCS11_PORTAL_ERROR_INVALID_REQUEST

text \<open>A \<open>GError\<close>: of the module's own domain with a code, or of a foreign domain.\<close>

datatype portal_gerror = PortalError portal_error_code string | ForeignError string

section \<open>Objects and attributes\<close>

record portal_attribute =
  at_type :: ck_ulong
  at_value :: "bytes option"
  at_sensitive :: bool

record portal_object =
  ob_handle :: ck_ulong
  ob_class :: ck_ulong
  ob_attributes :: "portal_attribute list"

record portal_objects =
  os_objects :: "portal_object list"
  os_identifier :: bytes

abbreviation HANDLE_CERTIFICATE :: guint where "HANDLE_CERTIFICATE \<equiv> 1"
abbreviation HANDLE_PUBLIC_KEY :: guint where "HANDLE_PUBLIC_KEY \<equiv> 2"
abbreviation HANDLE_PRIVATE_KEY :: guint where "HANDLE_PRIVATE_KEY \<equiv> 3"

definition PKCS11_PORTAL_OBJECT_LABEL :: string where
  "PKCS11_PORTAL_OBJECT_LABEL = ''Portal Certificate''"

definition add_bytes :: "ck_ulong \<Rightarrow> bytes \<Rightarrow> portal_attribute" where
  "add_bytes t v = \<lparr>at_type = t, at_value = Some v, at_sensitive = False\<rparr>"

definition add_ulong :: "ck_ulong \<Rightarrow> ck_ulong \<Rightarrow> portal_attribute" where
  "add_ulong t v = add_bytes t (le_bytes v)"

definition add_bool :: "ck_ulong \<Rightarrow> bool \<Rightarrow> portal_attribute" where
  "add_bool t v = add_bytes t [if v then 1 else 0]"

definition add_string :: "ck_ulong \<Rightarrow> string \<Rightarrow> portal_attribute" where
  "add_string t v = add_bytes t (char_bytes v)"

definition add_sensitive :: "ck_ulong \<Rightarrow> portal_attribute" where
  "add_sensitive t = \<lparr>at_type = t, at_value = None, at_sensitive = True\<rparr>"

definition find_attribute :: "portal_object \<Rightarrow> ck_ulong \<Rightarrow> portal_attribute option" where
  "find_attribute obj t = List.find (\<lambda>a. at_type a = t) (ob_attributes obj)"

text \<open>The shift is a 32-bit one: the handle keeps 28 bits of the generation.\<close>

definition object_new :: "guint \<Rightarrow> guint \<Rightarrow> ck_ulong \<Rightarrow> portal_attribute list \<Rightarrow> portal_object" where
  "object_new generation index object_class attributes =
     \<lparr>ob_handle = ucast (push_bit 4 generation OR index), ob_class = object_class,
      ob_attributes = add_ulong CKA_CLASS object_class # attributes\<rparr>"

section \<open>Parsing the certificate\<close>

text \<open>\<open>spki_split\<close>: the algorithm parameters (\<open>NULL\<close> when absent) and the key bits.\<close>

definition spki_split :: "bytes \<Rightarrow> (bytes option \<times> bytes) option" where
  "spki_split spki = do {
     outer \<leftarrow> portal_der_read_tag spki PORTAL_DER_SEQUENCE;
     algorithm \<leftarrow> portal_der_read_tag (tlv_value outer) PORTAL_DER_SEQUENCE;
     oid \<leftarrow> portal_der_read_tag (tlv_value algorithm) PORTAL_DER_OID;
     bits \<leftarrow> portal_der_read_tag (drop (tlv_consumed algorithm) (tlv_value outer)) PORTAL_DER_BIT_STRING;
     require (\<not> (tlv_length bits < 1 \<or> tlv_value bits ! 0 \<noteq> 0));
     Some (if tlv_consumed oid < tlv_length algorithm
           then Some (drop (tlv_consumed oid) (tlv_value algorithm)) else None,
           drop 1 (tlv_value bits))
   }"

fun strip_leading_zeros :: "bytes \<Rightarrow> bytes" where
  "strip_leading_zeros (b # c # bs) = (if b = 0 then strip_leading_zeros (c # bs) else b # c # bs)"
| "strip_leading_zeros bs = bs"

text \<open>
  What the code asks of the X.509 library: each function gives the library's answer for a DER
  certificate (for \<open>x_sha1\<close>, for any data), \<open>None\<close> or \<open>False\<close> where the call fails.
\<close>

record x509_env =
  x_crt_init :: bool
  x_crt_import :: "bytes \<Rightarrow> bool"
  x_pubkey_import :: "bytes \<Rightarrow> bool"
  x_pubkey_export :: "bytes \<Rightarrow> bytes option"
  x_sha1 :: "bytes \<Rightarrow> bytes option"
  x_raw_dn :: "bytes \<Rightarrow> bytes option"
  x_raw_issuer_dn :: "bytes \<Rightarrow> bytes option"
  x_serial :: "bytes \<Rightarrow> bytes option"
  x_export_rsa_raw :: "bytes \<Rightarrow> (bytes \<times> bytes) option"

record parsed_certificate =
  pc_der :: bytes
  pc_spki :: bytes
  pc_identifier :: bytes
  pc_subject :: bytes
  pc_issuer :: bytes
  pc_serial :: bytes

text \<open>
  \<open>portal_der_encode\<close> on the buffers of this file: a serial has at most 128 octets and key bits
  come out of a certificate, far below the \<open>2 ^ 32\<close> octets from which the encoder would fail.
\<close>

definition der_encode_buffer :: "byte \<Rightarrow> bytes \<Rightarrow> bytes" where
  "der_encode_buffer tag v = (case portal_der_encode tag v of Some e \<Rightarrow> e | None \<Rightarrow> [])"

definition parse_certificate :: "x509_env \<Rightarrow> bytes \<Rightarrow> portal_gerror + parsed_certificate" where
  "parse_certificate x der =
     (if \<not> x_crt_init x then
        Inl (PortalError PKCS11_PORTAL_ERROR_FAILED ''Certificate allocation failed'')
      else if \<not> x_crt_import x der then
        Inl (PortalError PKCS11_PORTAL_ERROR_FAILED ''Portal returned an invalid certificate'')
      else if \<not> x_pubkey_import x der then
        Inl (PortalError PKCS11_PORTAL_ERROR_FAILED ''Certificate has no usable public key'')
      else case x_pubkey_export x der of
        None \<Rightarrow> Inl (PortalError PKCS11_PORTAL_ERROR_FAILED ''Public key export failed'')
      | Some spki \<Rightarrow>
          (case x_sha1 x spki of
             None \<Rightarrow> Inl (PortalError PKCS11_PORTAL_ERROR_FAILED ''Object identifier derivation failed'')
           | Some digest \<Rightarrow>
               Inr \<lparr>pc_der = der, pc_spki = spki, pc_identifier = digest,
                    pc_subject = (case x_raw_dn x der of Some d \<Rightarrow> d | None \<Rightarrow> []),
                    pc_issuer = (case x_raw_issuer_dn x der of Some d \<Rightarrow> d | None \<Rightarrow> []),
                    pc_serial = (case x_serial x der of
                        Some s \<Rightarrow> der_encode_buffer PORTAL_DER_INTEGER s
                      | None \<Rightarrow> [])\<rparr>))"

definition add_key_public_parts :: "x509_env \<Rightarrow> parsed_certificate \<Rightarrow> bool \<Rightarrow> portal_attribute list" where
  "add_key_public_parts x parsed is_rsa =
     (if is_rsa then
        (case x_export_rsa_raw x (pc_der parsed) of
           None \<Rightarrow> []
         | Some (modulus, exponent) \<Rightarrow>
             let modulus_bytes = strip_leading_zeros modulus;
                 exponent_bytes = strip_leading_zeros exponent
             in [add_bytes CKA_MODULUS modulus_bytes,
                 add_ulong CKA_MODULUS_BITS (of_nat (length modulus_bytes * 8)),
                 add_bytes CKA_PUBLIC_EXPONENT exponent_bytes])
      else
        (case spki_split (pc_spki parsed) of
           None \<Rightarrow> []
         | Some (parameters, key_bits) \<Rightarrow>
             (case parameters of Some p \<Rightarrow> [add_bytes CKA_EC_PARAMS p] | None \<Rightarrow> []) @
             [add_bytes CKA_EC_POINT (der_encode_buffer PORTAL_DER_OCTET_STRING key_bits)]))"


section \<open>The objects of a grant\<close>

definition certificate_attributes :: "portal_grant \<Rightarrow> parsed_certificate \<Rightarrow> portal_attribute list" where
  "certificate_attributes grant parsed =
     [add_bool CKA_TOKEN True, add_bool CKA_PRIVATE False, add_bool CKA_MODIFIABLE False,
      add_bool CKA_DESTROYABLE False, add_bool CKA_TRUSTED False,
      add_ulong CKA_CERTIFICATE_TYPE CKC_X_509,
      add_ulong CKA_CERTIFICATE_CATEGORY CK_CERTIFICATE_CATEGORY_TOKEN_USER,
      add_string CKA_LABEL PKCS11_PORTAL_OBJECT_LABEL,
      add_bytes CKA_ID (pc_identifier parsed), add_bytes CKA_SUBJECT (pc_subject parsed),
      add_bytes CKA_ISSUER (pc_issuer parsed), add_bytes CKA_SERIAL_NUMBER (pc_serial parsed),
      add_bytes CKA_VALUE (g_certificate_der grant)]"

definition public_key_attributes ::
  "x509_env \<Rightarrow> portal_grant \<Rightarrow> parsed_certificate \<Rightarrow> bool \<Rightarrow> ck_ulong \<Rightarrow> portal_attribute list" where
  "public_key_attributes x grant parsed is_rsa key_type =
     [add_bool CKA_TOKEN True, add_bool CKA_PRIVATE False, add_bool CKA_MODIFIABLE False,
      add_bool CKA_DESTROYABLE False, add_bool CKA_LOCAL False, add_ulong CKA_KEY_TYPE key_type,
      add_string CKA_LABEL PKCS11_PORTAL_OBJECT_LABEL,
      add_bytes CKA_ID (pc_identifier parsed), add_bytes CKA_SUBJECT (pc_subject parsed),
      add_bool CKA_VERIFY True, add_bool CKA_VERIFY_RECOVER False,
      add_bool CKA_ENCRYPT (g_may_decrypt grant), add_bool CKA_WRAP False,
      add_bool CKA_DERIVE False] @ add_key_public_parts x parsed is_rsa"

definition private_key_attributes ::
  "x509_env \<Rightarrow> portal_grant \<Rightarrow> parsed_certificate \<Rightarrow> bool \<Rightarrow> ck_ulong \<Rightarrow> portal_attribute list" where
  "private_key_attributes x grant parsed is_rsa key_type =
     [add_bool CKA_TOKEN True, add_bool CKA_PRIVATE True, add_bool CKA_MODIFIABLE False,
      add_bool CKA_DESTROYABLE False, add_bool CKA_LOCAL False, add_ulong CKA_KEY_TYPE key_type,
      add_string CKA_LABEL PKCS11_PORTAL_OBJECT_LABEL,
      add_bytes CKA_ID (pc_identifier parsed), add_bytes CKA_SUBJECT (pc_subject parsed),
      add_bool CKA_SIGN (g_may_sign grant), add_bool CKA_SIGN_RECOVER False,
      add_bool CKA_DECRYPT (g_may_decrypt grant), add_bool CKA_UNWRAP False,
      add_bool CKA_DERIVE False, add_bool CKA_SENSITIVE True, add_bool CKA_ALWAYS_SENSITIVE True,
      add_bool CKA_EXTRACTABLE False, add_bool CKA_NEVER_EXTRACTABLE True,
      add_bool CKA_ALWAYS_AUTHENTICATE False] @ add_key_public_parts x parsed is_rsa @
     [add_sensitive CKA_VALUE] @
     (if is_rsa then
        [add_sensitive CKA_PRIVATE_EXPONENT, add_sensitive CKA_PRIME_1, add_sensitive CKA_PRIME_2,
         add_sensitive CKA_EXPONENT_1, add_sensitive CKA_EXPONENT_2, add_sensitive CKA_COEFFICIENT]
      else [])"

definition portal_objects_new ::
  "x509_env \<Rightarrow> portal_grant \<Rightarrow> guint \<Rightarrow> portal_gerror + portal_objects" where
  "portal_objects_new x grant generation =
     (case parse_certificate x (g_certificate_der grant) of
        Inl e \<Rightarrow> Inl e
      | Inr parsed \<Rightarrow>
          let is_rsa = (g_key_type grant \<noteq> Some ''EC'');
              key_type = (if is_rsa then CKK_RSA else CKK_EC)
          in Inr \<lparr>os_objects =
               [object_new generation HANDLE_CERTIFICATE CKO_CERTIFICATE
                  (certificate_attributes grant parsed),
                object_new generation HANDLE_PUBLIC_KEY CKO_PUBLIC_KEY
                  (public_key_attributes x grant parsed is_rsa key_type),
                object_new generation HANDLE_PRIVATE_KEY CKO_PRIVATE_KEY
                  (private_key_attributes x grant parsed is_rsa key_type)],
               os_identifier = pc_identifier parsed\<rparr>)"

definition portal_objects_lookup :: "portal_objects option \<Rightarrow> ck_ulong \<Rightarrow> portal_object option" where
  "portal_objects_lookup objects handle =
     (case objects of None \<Rightarrow> None | Some os \<Rightarrow> List.find (\<lambda>ob. ob_handle ob = handle) (os_objects os))"

section \<open>Search templates\<close>

text \<open>A template is the application's array, or \<open>NULL\<close>, and a count of elements to look at.\<close>

definition attribute_matches :: "portal_object \<Rightarrow> ck_attribute \<Rightarrow> bool" where
  "attribute_matches obj t =
     (case find_attribute obj (ca_type t) of
        None \<Rightarrow> False
      | Some a \<Rightarrow>
          (case at_value a of
             None \<Rightarrow> False
           | Some v \<Rightarrow>
               if ca_ulValueLen t = CK_UNAVAILABLE_INFORMATION then False
               else if length v \<noteq> unat (ca_ulValueLen t) then False
               else if length v = 0 then True
               else (case ca_pValue t of
                   None \<Rightarrow> False
                 | Some p \<Rightarrow> take (length v) p = v)))"

definition portal_object_matches :: "portal_object \<Rightarrow> ck_attribute list option \<Rightarrow> nat \<Rightarrow> bool" where
  "portal_object_matches obj templ count =
     (if count = 0 then True
      else case templ of
        None \<Rightarrow> False
      | Some ts \<Rightarrow> list_all (attribute_matches obj) (take count ts))"

definition portal_objects_find ::
  "portal_objects option \<Rightarrow> ck_attribute list option \<Rightarrow> nat \<Rightarrow> ck_ulong list" where
  "portal_objects_find objects templ count =
     (case objects of
        None \<Rightarrow> []
      | Some os \<Rightarrow> map ob_handle (filter (\<lambda>ob. portal_object_matches ob templ count) (os_objects os)))"

section \<open>Reading attributes\<close>

record get_flags =
  gf_sensitive :: bool
  gf_invalid :: bool
  gf_too_small :: bool

text \<open>One iteration: the updated template element and the updated flags.\<close>

definition get_attribute_step ::
  "portal_object \<Rightarrow> ck_attribute \<Rightarrow> get_flags \<Rightarrow> ck_attribute \<times> get_flags" where
  "get_attribute_step obj t f =
     (case find_attribute obj (ca_type t) of
        None \<Rightarrow> (t\<lparr>ca_ulValueLen := CK_UNAVAILABLE_INFORMATION\<rparr>, f\<lparr>gf_invalid := True\<rparr>)
      | Some a \<Rightarrow>
          if at_sensitive a \<or> at_value a = None then
            (t\<lparr>ca_ulValueLen := CK_UNAVAILABLE_INFORMATION\<rparr>, f\<lparr>gf_sensitive := True\<rparr>)
          else
            let data = the (at_value a) in
            (case ca_pValue t of
               None \<Rightarrow> (t\<lparr>ca_ulValueLen := of_nat (length data)\<rparr>, f)
             | Some buf \<Rightarrow>
                 if unat (ca_ulValueLen t) < length data then
                   (t\<lparr>ca_ulValueLen := CK_UNAVAILABLE_INFORMATION\<rparr>, f\<lparr>gf_too_small := True\<rparr>)
                 else
                   (t\<lparr>ca_pValue := Some (data @ drop (length data) buf),
                      ca_ulValueLen := of_nat (length data)\<rparr>, f)))"

fun get_attributes_loop ::
  "portal_object \<Rightarrow> ck_attribute list \<Rightarrow> get_flags \<Rightarrow> ck_attribute list \<times> get_flags" where
  "get_attributes_loop obj [] f = ([], f)"
| "get_attributes_loop obj (t # ts) f =
     (let (t', f') = get_attribute_step obj t f;
          (ts', f'') = get_attributes_loop obj ts f'
      in (t' # ts', f''))"

definition no_flags :: get_flags where
  "no_flags = \<lparr>gf_sensitive = False, gf_invalid = False, gf_too_small = False\<rparr>"

definition portal_object_get_attributes ::
  "portal_object \<Rightarrow> ck_attribute list option \<Rightarrow> nat \<Rightarrow> ck_attribute list option \<times> ck_rv" where
  "portal_object_get_attributes obj templ count =
     (if count = 0 then (templ, CKR_OK)
      else case templ of
        None \<Rightarrow> (None, CKR_ARGUMENTS_BAD)
      | Some ts \<Rightarrow>
          let (ts', f) = get_attributes_loop obj (take count ts) no_flags
          in (Some (ts' @ drop count ts),
              if gf_sensitive f then CKR_ATTRIBUTE_SENSITIVE
              else if gf_invalid f then CKR_ATTRIBUTE_TYPE_INVALID
              else if gf_too_small f then CKR_BUFFER_TOO_SMALL
              else CKR_OK))"

section \<open>Search intent\<close>

datatype template_intent =
  PORTAL_TEMPLATE_UNRELATED | PORTAL_TEMPLATE_ENUMERATES | PORTAL_TEMPLATE_NAMES_CREDENTIAL

definition template_names_our_label :: "ck_attribute \<Rightarrow> bool" where
  "template_names_our_label a =
     (case ca_pValue a of
        None \<Rightarrow> False
      | Some p \<Rightarrow>
          ca_ulValueLen a \<noteq> CK_UNAVAILABLE_INFORMATION \<and>
          unat (ca_ulValueLen a) = length PKCS11_PORTAL_OBJECT_LABEL \<and>
          take (length PKCS11_PORTAL_OBJECT_LABEL) p = char_bytes PKCS11_PORTAL_OBJECT_LABEL)"

definition template_says_token_object :: "ck_attribute \<Rightarrow> bool" where
  "template_says_token_object a =
     (case ca_pValue a of
        None \<Rightarrow> False
      | Some p \<Rightarrow> ca_ulValueLen a = 1 \<and> take 1 p = [1])"

record intent_acc =
  ia_object_class :: ck_ulong
  ia_have_class :: bool
  ia_have_label :: bool
  ia_label_is_ours :: bool
  ia_have_identifier :: bool
  ia_key_shaped :: bool
  ia_distinguishing :: nat

text \<open>\<open>g_hash_table_contains\<close> over the identifiers issued since \<open>C_Initialize\<close>.\<close>

definition identifier_issued :: "bytes list option \<Rightarrow> ck_attribute \<Rightarrow> bool" where
  "identifier_issued issued_ids a =
     (case (issued_ids, ca_pValue a) of
        (Some ids, Some p) \<Rightarrow>
          ca_ulValueLen a \<noteq> CK_UNAVAILABLE_INFORMATION \<and> ca_ulValueLen a \<noteq> 0 \<and>
          take (unat (ca_ulValueLen a)) p \<in> set ids
      | _ \<Rightarrow> False)"

text \<open>The loop over the template; \<open>None\<close> is the early return of \<open>PORTAL_TEMPLATE_UNRELATED\<close>.\<close>

definition intent_step :: "bytes list option \<Rightarrow> ck_attribute \<Rightarrow> intent_acc \<Rightarrow> intent_acc option" where
  "intent_step issued_ids a acc0 =
     (let acc = acc0\<lparr>ia_distinguishing := ia_distinguishing acc0 + 1\<rparr>;
          switched =
            (if ca_type a = CKA_CLASS then
               (case ca_pValue a of
                  None \<Rightarrow> Some acc
                | Some p \<Rightarrow>
                    if ca_ulValueLen a = 8
                    then Some (acc\<lparr>ia_object_class := le_ulong (take 8 p), ia_have_class := True\<rparr>)
                    else Some acc)
             else if ca_type a = CKA_LABEL then
               Some (acc\<lparr>ia_have_label := True, ia_label_is_ours := template_names_our_label a\<rparr>)
             else if ca_type a = CKA_ID then
               (if identifier_issued issued_ids a then Some (acc\<lparr>ia_have_identifier := True\<rparr>) else None)
             else Some acc)
      in map_option (\<lambda>acc. if ca_type a \<noteq> CKA_CLASS \<and> ca_type a \<noteq> CKA_SIGN \<and> ca_type a \<noteq> CKA_DECRYPT
           then acc\<lparr>ia_key_shaped := False\<rparr> else acc) switched)"

fun intent_loop :: "bytes list option \<Rightarrow> ck_attribute list \<Rightarrow> intent_acc \<Rightarrow> intent_acc option" where
  "intent_loop issued_ids [] acc = Some acc"
| "intent_loop issued_ids (a # as) acc =
     (if ca_type a = CKA_TOKEN \<and> template_says_token_object a then intent_loop issued_ids as acc
      else case intent_step issued_ids a acc of
        None \<Rightarrow> None
      | Some acc' \<Rightarrow> intent_loop issued_ids as acc')"

definition intent_start :: intent_acc where
  "intent_start = \<lparr>ia_object_class = 0, ia_have_class = False, ia_have_label = False,
     ia_label_is_ours = False, ia_have_identifier = False, ia_key_shaped = True,
     ia_distinguishing = 0\<rparr>"

definition intent_verdict :: "intent_acc \<Rightarrow> template_intent" where
  "intent_verdict acc =
     (if ia_have_label acc then
        (if ia_label_is_ours acc then PORTAL_TEMPLATE_NAMES_CREDENTIAL else PORTAL_TEMPLATE_UNRELATED)
      else if ia_have_identifier acc then PORTAL_TEMPLATE_NAMES_CREDENTIAL
      else if ia_have_class acc \<and> ia_object_class acc = CKO_PRIVATE_KEY \<and> ia_key_shaped acc then
        PORTAL_TEMPLATE_NAMES_CREDENTIAL
      else if ia_distinguishing acc = 0 then PORTAL_TEMPLATE_ENUMERATES
      else if ia_distinguishing acc = 1 \<and> ia_have_class acc \<and>
          (ia_object_class acc = CKO_CERTIFICATE \<or> ia_object_class acc = CKO_PUBLIC_KEY) then
        PORTAL_TEMPLATE_ENUMERATES
      else PORTAL_TEMPLATE_UNRELATED)"

definition portal_template_intent ::
  "ck_attribute list option \<Rightarrow> nat \<Rightarrow> bytes list option \<Rightarrow> template_intent" where
  "portal_template_intent templ count issued_ids =
     (if count = 0 then PORTAL_TEMPLATE_ENUMERATES
      else case templ of
        None \<Rightarrow> PORTAL_TEMPLATE_UNRELATED
      | Some ts \<Rightarrow>
          (case intent_loop issued_ids (take count ts) intent_start of
             None \<Rightarrow> PORTAL_TEMPLATE_UNRELATED
           | Some acc \<Rightarrow> intent_verdict acc))"

text \<open>\<open>env_enumerate\<close> is the value of the variable \<open>PKCS11_PORTAL_CERTIFICATE_ENUMERATE\<close>.\<close>

definition portal_template_wants_credential ::
  "string option \<Rightarrow> ck_attribute list option \<Rightarrow> nat \<Rightarrow> bytes list option \<Rightarrow> bool \<Rightarrow> bool" where
  "portal_template_wants_credential env_enumerate templ count issued_ids enum_opt =
     (case portal_template_intent templ count issued_ids of
        PORTAL_TEMPLATE_NAMES_CREDENTIAL \<Rightarrow> True
      | PORTAL_TEMPLATE_ENUMERATES \<Rightarrow> enum_opt \<or> env_enumerate = Some ''1''
      | PORTAL_TEMPLATE_UNRELATED \<Rightarrow> False)"


section \<open>Handles\<close>

lemma low_nibble_of_handle:
  fixes g i :: guint
  assumes "i < 16"
  shows "take_bit 4 (push_bit 4 g OR i) = i"
proof -
  have "take_bit 4 i = i"
    using assms by (simp add: take_bit_eq_mod word_unat_eq_iff unat_mod_distrib word_less_nat_alt)
  then show ?thesis by (simp add: take_bit_or take_bit_push_bit)
qed

lemma rest_of_handle:
  fixes g i :: guint
  assumes "i < 16"
  shows "drop_bit 4 (push_bit 4 g OR i) = take_bit 28 g"
proof -
  have "drop_bit 4 i = 0"
    using assms by (simp add: drop_bit_eq_div word_unat_eq_iff unat_div word_less_nat_alt)
  then show ?thesis
    by (simp add: bit_eq_iff bit_simps)
qed

lemma handle_inject:
  fixes g h i j :: guint
  assumes "i < 16" and "j < 16"
  shows "push_bit 4 g OR i = push_bit 4 h OR j \<longleftrightarrow> i = j \<and> take_bit 28 g = take_bit 28 h"
proof
  assume eq: "push_bit 4 g OR i = push_bit 4 h OR j"
  from arg_cong [OF eq, of "take_bit 4"] arg_cong [OF eq, of "drop_bit 4"] assms
  show "i = j \<and> take_bit 28 g = take_bit 28 h"
    by (simp only: low_nibble_of_handle rest_of_handle)
next
  assume "i = j \<and> take_bit 28 g = take_bit 28 h"
  moreover have "push_bit 4 w = push_bit 4 (take_bit 28 w)" for w :: guint
    by (rule bit_eqI) (auto simp: bit_simps)
  ultimately show "push_bit 4 g OR i = push_bit 4 h OR j" by metis
qed

lemma unat_ucast_guint: "unat (ucast (v :: guint) :: ck_ulong) = unat v"
proof -
  have "unat v < 2 ^ 64"
    using unsigned_less [of v] by (rule less_trans) simp
  then show ?thesis by (simp add: unsigned_ucast_eq take_bit_nat_eq_self)
qed

lemma ucast_guint_inject: "(ucast (v :: guint) :: ck_ulong) = ucast w \<longleftrightarrow> v = w"
  by (metis unat_ucast_guint word_unat_eq_iff)

section \<open>The objects of a grant\<close>

lemma find_append: "List.find P (xs @ ys) = (case List.find P xs of None \<Rightarrow> List.find P ys | r \<Rightarrow> r)"
  by (induction xs) auto

lemmas add_defs = add_bytes_def add_ulong_def add_bool_def add_string_def add_sensitive_def

lemma at_type_add [simp]:
  "at_type (add_bytes t v) = t" "at_type (add_ulong t w) = t" "at_type (add_bool t b) = t"
  "at_type (add_string t s) = t" "at_type (add_sensitive t) = t"
  by (simp_all add: add_defs)

text \<open>The three objects of a grant, by handle index.\<close>

definition grant_objects :: "x509_env \<Rightarrow> portal_grant \<Rightarrow> guint \<Rightarrow> parsed_certificate \<Rightarrow> portal_object list" where
  "grant_objects x grant generation parsed =
     (let is_rsa = (g_key_type grant \<noteq> Some ''EC''); key_type = (if is_rsa then CKK_RSA else CKK_EC)
      in [object_new generation 1 CKO_CERTIFICATE (certificate_attributes grant parsed),
          object_new generation 2 CKO_PUBLIC_KEY (public_key_attributes x grant parsed is_rsa key_type),
          object_new generation 3 CKO_PRIVATE_KEY (private_key_attributes x grant parsed is_rsa key_type)])"

lemma portal_objects_new_Inr:
  "portal_objects_new x grant generation = Inr os \<longleftrightarrow>
    (\<exists>parsed. parse_certificate x (g_certificate_der grant) = Inr parsed \<and>
      os = \<lparr>os_objects = grant_objects x grant generation parsed, os_identifier = pc_identifier parsed\<rparr>)"
  by (auto simp: portal_objects_new_def grant_objects_def Let_def split: sum.splits)

lemma object_new_sel [simp]:
  "ob_handle (object_new g i c as) = ucast (push_bit 4 g OR i)"
  "ob_class (object_new g i c as) = c"
  "ob_attributes (object_new g i c as) = add_ulong CKA_CLASS c # as"
  by (simp_all add: object_new_def)

lemma object_handles:
  "map ob_handle (grant_objects x grant g parsed) = map (\<lambda>i. ucast (push_bit 4 g OR i)) [1, 2, 3 :: guint]"
  by (simp add: grant_objects_def Let_def)

lemma handles_distinct: "distinct (map ob_handle (grant_objects x grant g parsed))"
  by (simp add: object_handles ucast_guint_inject handle_inject)

interpretation grant_table: keyed_table "grant_objects x grant g parsed" ob_handle
  for x grant g parsed
  by unfold_locales (rule handles_distinct)

lemma portal_objects_lookup_iff:
  "portal_objects_new x grant g = Inr os \<Longrightarrow>
    portal_objects_lookup (Some os) h = Some ob \<longleftrightarrow> ob \<in> set (os_objects os) \<and> ob_handle ob = h"
  by (auto simp: portal_objects_new_Inr portal_objects_lookup_def grant_table.find_iff)

lemma lookup_handle:
  assumes "portal_objects_new x grant g = Inr os" and "portal_objects_lookup (Some os) h = Some ob"
  shows "\<exists>i. (i = 1 \<or> i = 2 \<or> i = 3) \<and> h = ucast (push_bit 4 g OR i)"
proof -
  from assms obtain parsed where "ob \<in> set (grant_objects x grant g parsed)" and "ob_handle ob = h"
    using portal_objects_lookup_iff [OF assms(1)] by (auto simp: portal_objects_new_Inr)
  then have "h \<in> set (map ob_handle (grant_objects x grant g parsed))" by auto
  then show ?thesis by (auto simp: object_handles)
qed

lemma handle_inject_ulong:
  "i < 16 \<Longrightarrow> j < 16 \<Longrightarrow> (ucast (push_bit 4 g OR i :: guint) :: ck_ulong) = ucast (push_bit 4 h OR j)
    \<longleftrightarrow> i = j \<and> take_bit 28 g = take_bit 28 h"
  by (simp only: ucast_guint_inject handle_inject)

lemma lookup_across_generations:
  assumes "portal_objects_new x grant g = Inr os" and "portal_objects_new x' grant' g' = Inr os'"
    and "portal_objects_lookup (Some os) h = Some ob" and "portal_objects_lookup (Some os') h = Some ob'"
  shows "take_bit 28 g = take_bit 28 g'"
proof -
  from lookup_handle [OF assms(1,3)] lookup_handle [OF assms(2,4)]
  obtain i j where "i = 1 \<or> i = 2 \<or> i = 3" and "j = 1 \<or> j = 2 \<or> j = 3"
    and eq: "(ucast (push_bit 4 g OR i) :: ck_ulong) = ucast (push_bit 4 g' OR j)" by metis
  then have "i < 16" and "j < 16" by auto
  with eq show ?thesis by (simp only: handle_inject_ulong)
qed

section \<open>Private key material\<close>

lemma public_parts_types:
  "a \<in> set (add_key_public_parts x parsed is_rsa) \<Longrightarrow>
    at_type a \<in> {CKA_MODULUS, CKA_MODULUS_BITS, CKA_PUBLIC_EXPONENT, CKA_EC_PARAMS, CKA_EC_POINT}
      \<and> at_value a \<noteq> None \<and> \<not> at_sensitive a"
  by (auto simp: add_key_public_parts_def add_defs Let_def split: if_splits option.splits prod.splits)

lemma public_parts_find:
  assumes "t \<notin> {CKA_MODULUS, CKA_MODULUS_BITS, CKA_PUBLIC_EXPONENT, CKA_EC_PARAMS, CKA_EC_POINT}"
  shows "List.find (\<lambda>a. at_type a = t) (add_key_public_parts x parsed is_rsa) = None"
  using assms public_parts_types [of _ x parsed is_rsa] by (auto simp: find_None_iff)

lemma private_value_sealed:
  "find_attribute (object_new g i c (private_key_attributes x grant parsed r k)) CKA_VALUE =
    Some (add_sensitive CKA_VALUE)"
  by (simp add: find_attribute_def private_key_attributes_def find_append public_parts_find)

lemma private_rsa_sealed:
  assumes "t \<in> {CKA_PRIVATE_EXPONENT, CKA_PRIME_1, CKA_PRIME_2, CKA_EXPONENT_1, CKA_EXPONENT_2, CKA_COEFFICIENT}"
  shows "find_attribute (object_new g i c (private_key_attributes x grant parsed True k)) t =
    Some (add_sensitive t)"
proof -
  from assms consider "t = CKA_PRIVATE_EXPONENT" | "t = CKA_PRIME_1" | "t = CKA_PRIME_2"
    | "t = CKA_EXPONENT_1" | "t = CKA_EXPONENT_2" | "t = CKA_COEFFICIENT" by blast
  then show ?thesis
    by cases (simp_all add: find_attribute_def private_key_attributes_def find_append public_parts_find)
qed

lemma grant_object_class:
  assumes "ob \<in> set (grant_objects x grant g parsed)" and "ob_class ob = CKO_PRIVATE_KEY"
  shows "ob = object_new g 3 CKO_PRIVATE_KEY
    (private_key_attributes x grant parsed (g_key_type grant \<noteq> Some ''EC'')
      (if g_key_type grant \<noteq> Some ''EC'' then CKK_RSA else CKK_EC))"
  using assms by (auto simp: grant_objects_def Let_def)

section \<open>The attribute loop\<close>

definition sealed :: "portal_object \<Rightarrow> ck_attribute \<Rightarrow> bool" where
  "sealed obj t \<longleftrightarrow> (\<exists>a. find_attribute obj (ca_type t) = Some a \<and> (at_sensitive a \<or> at_value a = None))"

lemma get_attribute_step_fst:
  "fst (get_attribute_step obj t f) = fst (get_attribute_step obj t no_flags)"
  by (auto simp: get_attribute_step_def Let_def split: option.splits)

lemma get_attribute_step_flags:
  "gf_sensitive (snd (get_attribute_step obj t f)) \<longleftrightarrow> gf_sensitive f \<or> sealed obj t"
  "gf_invalid (snd (get_attribute_step obj t f)) \<longleftrightarrow> gf_invalid f \<or> find_attribute obj (ca_type t) = None"
  by (auto simp: get_attribute_step_def sealed_def Let_def split: option.splits)

lemma get_attributes_loop_fst:
  "fst (get_attributes_loop obj ts f) = map (\<lambda>t. fst (get_attribute_step obj t no_flags)) ts"
proof (induction ts arbitrary: f)
  case (Cons t ts)
  then show ?case
    using get_attribute_step_fst [of obj t f] by (simp add: Let_def split_beta)
qed simp

lemma get_attributes_loop_flags:
  "gf_sensitive (snd (get_attributes_loop obj ts f)) \<longleftrightarrow> gf_sensitive f \<or> (\<exists>t \<in> set ts. sealed obj t)"
  "gf_invalid (snd (get_attributes_loop obj ts f)) \<longleftrightarrow>
    gf_invalid f \<or> (\<exists>t \<in> set ts. find_attribute obj (ca_type t) = None)"
  by (induction ts arbitrary: f) (auto simp: Let_def split_beta get_attribute_step_flags)

lemma get_attributes_nth:
  assumes "portal_object_get_attributes obj (Some ts) count = (Some ts', rv)" and "i < count" and "i < length ts"
  shows "ts' ! i = fst (get_attribute_step obj (ts ! i) no_flags)"
    and "length ts' = length ts"
  using assms get_attributes_loop_fst [of obj "take count ts" no_flags]
  by (auto simp: portal_object_get_attributes_def Let_def split_beta nth_append split: if_splits)

lemma get_attributes_sensitive_iff:
  assumes "0 < count"
  shows "snd (portal_object_get_attributes obj (Some ts) count) = CKR_ATTRIBUTE_SENSITIVE \<longleftrightarrow>
    (\<exists>t \<in> set (take count ts). sealed obj t)"
  using assms get_attributes_loop_flags [of obj "take count ts" no_flags]
  by (auto simp: portal_object_get_attributes_def Let_def split_beta no_flags_def)


section \<open>Reading and searching agree\<close>

lemma unat_of_nat_length: "length v < 2 ^ 64 \<Longrightarrow> unat (of_nat (length v) :: ck_ulong) = length v"
  by (simp add: unat_of_nat take_bit_nat_eq_self)

lemma of_nat_length_available:
  assumes "length v < 2 ^ 64 - 1"
  shows "(of_nat (length v) :: ck_ulong) \<noteq> CK_UNAVAILABLE_INFORMATION"
proof
  assume "(of_nat (length v) :: ck_ulong) = CK_UNAVAILABLE_INFORMATION"
  then have "unat (of_nat (length v) :: ck_ulong) = unat (- 1 :: ck_ulong)" by simp
  moreover have "unat (of_nat (length v) :: ck_ulong) = length v"
    using assms by (intro unat_of_nat_length) simp
  ultimately show False using assms by (simp add: unsigned_minus_1_eq_mask mask_eq_exp_minus_1)
qed

lemma attribute_of_matches:
  assumes "find_attribute obj t = Some a" and "at_value a = Some w"
    and "length v < 2 ^ 64 - 1"
  shows "attribute_matches obj (attribute_of t v) \<longleftrightarrow> v = w"
  using assms of_nat_length_available [OF assms(3)] unat_of_nat_length [of v]
  by (auto simp: attribute_matches_def attribute_of_def)

lemma matches_all:
  "portal_object_matches obj (Some ts) (length ts) \<longleftrightarrow> list_all (attribute_matches obj) ts"
  by (auto simp: portal_object_matches_def)

section \<open>The intent loop\<close>

definition class_named :: "ck_attribute \<Rightarrow> ck_ulong \<Rightarrow> bool" where
  "class_named a c \<longleftrightarrow> ca_type a = CKA_CLASS \<and> ca_ulValueLen a = 8 \<and>
     (\<exists>p. ca_pValue a = Some p \<and> le_ulong (take 8 p) = c)"

lemma intent_step_fields:
  assumes "intent_step ids a acc = Some acc'"
  shows "ia_have_label acc' \<longleftrightarrow> ia_have_label acc \<or> ca_type a = CKA_LABEL"
    and "ia_label_is_ours acc' \<Longrightarrow> ia_label_is_ours acc \<or> ca_type a = CKA_LABEL \<and> template_names_our_label a"
    and "ca_type a = CKA_LABEL \<Longrightarrow> ia_label_is_ours acc' = template_names_our_label a"
    and "ia_have_identifier acc' \<Longrightarrow> ia_have_identifier acc \<or> ca_type a = CKA_ID \<and> identifier_issued ids a"
    and "ia_have_class acc' \<Longrightarrow>
      ia_have_class acc \<and> ia_object_class acc' = ia_object_class acc \<or> class_named a (ia_object_class acc')"
    and "ia_key_shaped acc' \<longleftrightarrow>
      ia_key_shaped acc \<and> (ca_type a = CKA_CLASS \<or> ca_type a = CKA_SIGN \<or> ca_type a = CKA_DECRYPT)"
    and "ca_type a = CKA_ID \<Longrightarrow> identifier_issued ids a"
    and "ia_distinguishing acc' = ia_distinguishing acc + 1"
  using assms
  by (auto simp: intent_step_def class_named_def Let_def split: if_splits option.splits)

lemma intent_loop_label:
  "intent_loop ids ts acc = Some acc' \<Longrightarrow>
    (ia_have_label acc' \<longleftrightarrow> ia_have_label acc \<or> (\<exists>a \<in> set ts. ca_type a = CKA_LABEL)) \<and>
    (ia_label_is_ours acc' \<longrightarrow>
      ia_label_is_ours acc \<or> (\<exists>a \<in> set ts. ca_type a = CKA_LABEL \<and> template_names_our_label a))"
proof (induction ts arbitrary: acc)
  case (Cons a ts)
  show ?case
  proof (cases "ca_type a = CKA_TOKEN \<and> template_says_token_object a")
    case True
    with Cons show ?thesis by auto
  next
    case False
    with Cons.prems obtain acc1 where s: "intent_step ids a acc = Some acc1"
      and l: "intent_loop ids ts acc1 = Some acc'" by (auto split: option.splits)
    from Cons.IH [OF l] intent_step_fields(1,2) [OF s] show ?thesis by auto
  qed
qed auto

lemma intent_loop_identifier:
  "intent_loop ids ts acc = Some acc' \<Longrightarrow>
    (ia_have_identifier acc' \<longrightarrow>
      ia_have_identifier acc \<or> (\<exists>a \<in> set ts. ca_type a = CKA_ID \<and> identifier_issued ids a)) \<and>
    (\<forall>a \<in> set ts. ca_type a = CKA_ID \<longrightarrow> identifier_issued ids a)"
proof (induction ts arbitrary: acc)
  case (Cons a ts)
  show ?case
  proof (cases "ca_type a = CKA_TOKEN \<and> template_says_token_object a")
    case True
    with Cons show ?thesis by auto
  next
    case False
    with Cons.prems obtain acc1 where s: "intent_step ids a acc = Some acc1"
      and l: "intent_loop ids ts acc1 = Some acc'" by (auto split: option.splits)
    from Cons.IH [OF l] intent_step_fields(4,7) [OF s] show ?thesis by auto
  qed
qed auto

lemma intent_loop_class:
  "intent_loop ids ts acc = Some acc' \<Longrightarrow>
    (ia_have_class acc' \<longrightarrow>
      ia_have_class acc \<and> ia_object_class acc' = ia_object_class acc \<or>
      (\<exists>a \<in> set ts. class_named a (ia_object_class acc'))) \<and>
    (ia_key_shaped acc' \<longrightarrow> ia_key_shaped acc \<and>
      (\<forall>a \<in> set ts. ca_type a \<in> {CKA_TOKEN, CKA_CLASS, CKA_SIGN, CKA_DECRYPT}))"
proof (induction ts arbitrary: acc)
  case (Cons a ts)
  show ?case
  proof (cases "ca_type a = CKA_TOKEN \<and> template_says_token_object a")
    case True
    with Cons show ?thesis by auto
  next
    case False
    with Cons.prems obtain acc1 where s: "intent_step ids a acc = Some acc1"
      and l: "intent_loop ids ts acc1 = Some acc'" by (auto split: option.splits)
    from Cons.IH [OF l] intent_step_fields(5,6) [OF s] show ?thesis by auto
  qed
qed auto

lemma intent_names_credential:
  assumes "portal_template_intent (Some ts) count ids = PORTAL_TEMPLATE_NAMES_CREDENTIAL"
  shows "(\<exists>a \<in> set (take count ts). ca_type a = CKA_LABEL \<and> template_names_our_label a)
    \<or> (\<nexists>a. a \<in> set (take count ts) \<and> ca_type a = CKA_LABEL) \<and>
       ((\<exists>a \<in> set (take count ts). ca_type a = CKA_ID \<and> identifier_issued ids a)
        \<or> (\<exists>a \<in> set (take count ts). class_named a CKO_PRIVATE_KEY) \<and>
           (\<forall>a \<in> set (take count ts). ca_type a \<in> {CKA_TOKEN, CKA_CLASS, CKA_SIGN, CKA_DECRYPT}))"
proof -
  from assms obtain acc where l: "intent_loop ids (take count ts) intent_start = Some acc"
    and v: "intent_verdict acc = PORTAL_TEMPLATE_NAMES_CREDENTIAL"
    by (auto simp: portal_template_intent_def split: if_splits option.splits)
  note f = intent_loop_label [OF l] intent_loop_identifier [OF l] intent_loop_class [OF l]
  from v consider "ia_have_label acc" "ia_label_is_ours acc"
    | "\<not> ia_have_label acc" "ia_have_identifier acc"
    | "\<not> ia_have_label acc" "ia_have_class acc" "ia_object_class acc = CKO_PRIVATE_KEY" "ia_key_shaped acc"
    by (auto simp: intent_verdict_def split: if_splits)
  then show ?thesis
    using f by cases (auto simp: intent_start_def)
qed

lemma intent_unknown_identifier:
  assumes "a \<in> set (take count ts)" and "ca_type a = CKA_ID" and "\<not> identifier_issued ids a"
  shows "portal_template_intent (Some ts) count ids = PORTAL_TEMPLATE_UNRELATED"
proof -
  have "count \<noteq> 0" using assms(1) by (cases count) auto
  then show ?thesis
    using intent_loop_identifier [of ids "take count ts" intent_start] assms
    by (auto simp: portal_template_intent_def split: option.splits)
qed

lemma intent_foreign_label:
  assumes "a \<in> set (take count ts)" and "ca_type a = CKA_LABEL"
    and "\<forall>b \<in> set (take count ts). ca_type b = CKA_LABEL \<longrightarrow> \<not> template_names_our_label b"
  shows "portal_template_intent (Some ts) count ids = PORTAL_TEMPLATE_UNRELATED"
proof -
  have "count \<noteq> 0" using assms(1) by (cases count) auto
  then show ?thesis
    using intent_loop_label [of ids "take count ts" intent_start] assms
    by (auto simp: portal_template_intent_def intent_verdict_def intent_start_def split: option.splits)
qed

section \<open>A concrete certificate library and grant\<close>

text \<open>
  Constant answers of the X.509 library and a grant, on which the theorems are instantiated.
\<close>

definition sample_x509 :: x509_env where
  "sample_x509 = \<lparr>x_crt_init = True, x_crt_import = (\<lambda>_. True), x_pubkey_import = (\<lambda>_. True),
     x_pubkey_export = (\<lambda>_. Some []), x_sha1 = (\<lambda>_. Some [7]), x_raw_dn = (\<lambda>_. Some [1]),
     x_raw_issuer_dn = (\<lambda>_. Some [2]), x_serial = (\<lambda>_. None), x_export_rsa_raw = (\<lambda>_. Some ([0, 3], [5]))\<rparr>"

definition sample_grant :: portal_grant where
  "sample_grant = \<lparr>g_session_handle = Some ''/s'', g_owner = Some '':1.1'', g_owner_generation = 1,
     g_certificate_der = [0x30], g_key_type = Some ''RSA'', g_key_size = 8, g_key_curve = None,
     g_supported_mechanisms = Some [RSA_V15], g_may_sign = True, g_may_decrypt = False, g_expires_at = 0\<rparr>"

definition sample_parsed :: parsed_certificate where
  "sample_parsed = \<lparr>pc_der = [0x30], pc_spki = [], pc_identifier = [7], pc_subject = [1],
     pc_issuer = [2], pc_serial = []\<rparr>"

lemma sample_objects:
  "portal_objects_new sample_x509 sample_grant g =
    Inr \<lparr>os_objects = grant_objects sample_x509 sample_grant g sample_parsed, os_identifier = [7]\<rparr>"
  by (subst portal_objects_new_Inr)
    (simp add: parse_certificate_def sample_x509_def sample_grant_def sample_parsed_def)

section \<open>Properties\<close>

lemma handle_set:
  assumes "portal_objects_new x grant g = Inr os"
  shows "set (map ob_handle (os_objects os)) = (\<lambda>i. ucast (push_bit 4 g OR i)) ` {1, 2, 3 :: guint}"
proof -
  from assms have "map ob_handle (os_objects os) = map (\<lambda>i. ucast (push_bit 4 g OR i)) [1, 2, 3 :: guint]"
    unfolding portal_objects_new_Inr using object_handles by fastforce
  then show ?thesis by (simp del: set_map)
qed

lemma lookup_None_iff:
  assumes "portal_objects_new x grant g = Inr os"
  shows "portal_objects_lookup (Some os) h = None \<longleftrightarrow> h \<notin> (\<lambda>i. ucast (push_bit 4 g OR i)) ` {1, 2, 3 :: guint}"
  unfolding handle_set [OF assms, symmetric] by (auto simp: portal_objects_lookup_def find_None_iff)

text \<open>Object handles of two grants coincide exactly when the low 28 bits of their
  generations do: a handle of an earlier grant is invalid under a later one until 2 ^ 28
  generations have passed.\<close>

lemma handles_across_generations:
  assumes "portal_objects_new x grant g = Inr os" and "portal_objects_new x' grant' g' = Inr os'"
    and "ob \<in> set (os_objects os)"
  shows "portal_objects_lookup (Some os') (ob_handle ob) = None \<longleftrightarrow> take_bit 28 g \<noteq> take_bit 28 g'"
proof -
  from assms(1,3) handle_set [OF assms(1)] have "ob_handle ob \<in> (\<lambda>i. ucast (push_bit 4 g OR i)) ` {1, 2, 3 :: guint}"
    by auto
  then obtain i :: guint where i: "i = 1 \<or> i = 2 \<or> i = 3" "ob_handle ob = ucast (push_bit 4 g OR i)"
    by auto
  then show ?thesis
    by (auto simp: lookup_None_iff [OF assms(2)] handle_inject_ulong)
qed

lemma handles_across_generations_witness:
  "portal_objects_lookup
     (Some \<lparr>os_objects = grant_objects sample_x509 sample_grant 2 sample_parsed, os_identifier = [7]\<rparr>)
     (ob_handle (object_new 1 3 CKO_PRIVATE_KEY [])) = None"
  using handles_across_generations [OF sample_objects [of 1] sample_objects [of 2],
      of "grant_objects sample_x509 sample_grant 1 sample_parsed ! 2"]
  by (simp add: grant_objects_def Let_def)

text \<open>The size query and the read of an attribute agree: when a query without a
  buffer succeeds, a read into a buffer of the size it reported succeeds and fills exactly that
  buffer, and a search for the attribute as read finds the object.\<close>

lemma attribute_read_search:
  assumes new: "portal_objects_new x grant g = Inr os" and ob: "ob \<in> set (os_objects os)"
    and query: "portal_object_get_attributes ob (Some [q]) 1 = (Some [q'], CKR_OK)" and "ca_pValue q = None"
    and buf: "length buf = unat (ca_ulValueLen q')" "length buf < 2 ^ 64 - 1"
    and small: "\<forall>a \<in> set (ob_attributes ob). \<forall>v. at_value a = Some v \<longrightarrow> length v < 2 ^ 64"
  shows "\<exists>v a. length v = length buf \<and>
    portal_object_get_attributes ob
      (Some [\<lparr>ca_type = ca_type q, ca_pValue = Some buf, ca_ulValueLen = ca_ulValueLen q'\<rparr>]) 1 = (Some [a], CKR_OK) \<and>
    a = attribute_of (ca_type q) v \<and>
    ob_handle ob \<in> set (portal_objects_find (Some os) (Some [a]) 1)"
proof -
  from query assms(4) obtain a v where f: "find_attribute ob (ca_type q) = Some a" "at_value a = Some v"
    and s: "\<not> at_sensitive a" and q': "ca_ulValueLen q' = of_nat (length v)"
    by (auto simp: portal_object_get_attributes_def get_attribute_step_def no_flags_def Let_def
        split: option.splits if_splits)
  from f(1) have "a \<in> set (ob_attributes ob)"
    unfolding find_attribute_def find_Some_iff by auto
  with small f(2) have "length v < 2 ^ 64" by blast
  then have l: "length v = length buf" using buf(1) q' unat_of_nat_length [of v] by simp
  have "portal_object_get_attributes ob
      (Some [\<lparr>ca_type = ca_type q, ca_pValue = Some buf, ca_ulValueLen = ca_ulValueLen q'\<rparr>]) 1 =
    (Some [attribute_of (ca_type q) v], CKR_OK)"
    using f s l buf(1) q'
    by (simp add: portal_object_get_attributes_def get_attribute_step_def no_flags_def attribute_of_def)
  moreover have "attribute_matches ob (attribute_of (ca_type q) v)"
    using f l buf(2) by (simp add: attribute_of_matches)
  with ob have "ob_handle ob \<in> set (portal_objects_find (Some os) (Some [attribute_of (ca_type q) v]) 1)"
    by (auto simp: portal_objects_find_def portal_object_matches_def)
  ultimately show ?thesis using l by blast
qed

lemma attribute_read_search_witness:
  "\<exists>v a. length v = 8 \<and> a = attribute_of CKA_CLASS v \<and>
    ob_handle (object_new 1 1 CKO_CERTIFICATE []) \<in> set (portal_objects_find
      (Some \<lparr>os_objects = grant_objects sample_x509 sample_grant 1 sample_parsed, os_identifier = [7]\<rparr>) (Some [a]) 1)"
proof -
  let ?ob = "object_new 1 1 CKO_CERTIFICATE (certificate_attributes sample_grant sample_parsed)"
  let ?q = "\<lparr>ca_type = CKA_CLASS, ca_pValue = None, ca_ulValueLen = 0\<rparr>"
  have "?ob \<in> set (os_objects \<lparr>os_objects = grant_objects sample_x509 sample_grant 1 sample_parsed, os_identifier = [7]\<rparr>)"
    by (simp add: grant_objects_def Let_def)
  moreover have "portal_object_get_attributes ?ob (Some [?q]) 1 = (Some [?q\<lparr>ca_ulValueLen := 8\<rparr>], CKR_OK)"
    by (simp add: portal_object_get_attributes_def get_attribute_step_def no_flags_def find_attribute_def add_defs)
  moreover have "\<forall>a \<in> set (ob_attributes ?ob). \<forall>v. at_value a = Some v \<longrightarrow> length v < 2 ^ 64"
    by (simp add: certificate_attributes_def add_defs PKCS11_PORTAL_OBJECT_LABEL_def sample_grant_def sample_parsed_def)
  ultimately show ?thesis
    using attribute_read_search [OF sample_objects [of 1], of ?ob ?q "?q\<lparr>ca_ulValueLen := 8\<rparr>" "replicate 8 0"]
    by auto
qed

end
