(* ===== verification/ModuleState.thy ===== *)
theory ModuleState
  imports Objects
begin

text \<open>
  The global state of the PKCS#11 module (\<open>src/module/module.c\<close>), the helpers every entry point
  uses, and the module invariant.

  The state is one record with the file's static variables; the session table is an
  association list (\<open>NULL\<close> is \<open>None\<close>).  The portal client (\<open>src/module/portal.c\<close>, which speaks
  D-Bus), the clocks, the process environment, GnuTLS and the X.509 library are readings of the
  parameter \<open>portal_env\<close>: each section of an entry point that runs under \<open>module_lock\<close> sees one
  reading.  \<open>module_effects\<close> records the calls of \<open>portal_client_release\<close> and
  \<open>portal_client_cancel\<close>, newest first.
\<close>

section \<open>The environment\<close>

record gnutls_env =
  gh_init :: "gnutls_digest \<Rightarrow> bool"
  gh_update :: "gnutls_digest \<Rightarrow> bytes \<Rightarrow> bytes \<Rightarrow> bool"
  gh_output :: "gnutls_digest \<Rightarrow> bytes \<Rightarrow> bytes"

record portal_env =
  e_available :: bool
  e_mechanisms :: "string list"
  e_grant_gone :: "portal_grant \<Rightarrow> bool"
  e_sign :: "portal_grant \<Rightarrow> string \<Rightarrow> string option \<Rightarrow> string option \<Rightarrow> bool \<Rightarrow> guint \<Rightarrow> bytes
      \<Rightarrow> portal_gerror option + bytes"
  e_decrypt :: "portal_grant \<Rightarrow> string option \<Rightarrow> string option \<Rightarrow> bytes option \<Rightarrow> bytes
      \<Rightarrow> portal_gerror option + bytes"
  e_self_excluded :: bool
  e_new_client :: nat
  e_pid :: "32 word"
  e_real_time :: int
  e_monotonic_time :: int
  e_enumerate_var :: "string option"
  e_gnutls :: gnutls_env
  e_x509 :: x509_env

abbreviation G_USEC_PER_SEC :: int where "G_USEC_PER_SEC \<equiv> 1000000"
abbreviation PKCS11_PORTAL_REFUSAL_GRACE_SECONDS :: int where
  "PKCS11_PORTAL_REFUSAL_GRACE_SECONDS \<equiv> 10"

section \<open>Sessions and the module\<close>

record portal_session =
  ps_handle :: ck_ulong
  ps_serial :: guint
  ps_flags :: ck_ulong
  find_active :: bool
  find_results :: "ck_ulong list option"
  find_position :: nat
  sign_active :: bool
  sign_mechanism :: "portal_mechanism option"
  sign_hash :: "string option"
  sign_mgf :: "string option"
  sign_have_salt :: bool
  sign_salt :: guint
  sign_digest :: "(gnutls_digest \<times> bytes) option"
  sign_buffer :: "bytes option"
  decrypt_active :: bool
  decrypt_hash :: "string option"
  decrypt_mgf1_hash :: "string option"
  decrypt_label :: "bytes option"

datatype client_effect = Released portal_grant | Cancelled

record module_state =
  module_acquiring :: bool
  module_initialized :: bool
  module_lifecycle :: guint
  module_finalizing :: bool
  module_session_serial :: guint
  module_client :: "nat option"
  module_grant :: "portal_grant option"
  module_objects :: "portal_objects option"
  module_generation :: guint
  module_sessions :: "(ck_ulong \<times> portal_session) list option"
  module_next_session :: ck_ulong
  module_logged_in :: bool
  module_slot_events :: guint
  module_enumerate :: bool
  module_issued_ids :: "bytes list option"
  module_refusal_time :: int
  module_serial :: string
  module_effects :: "client_effect list"

text \<open>The static variables before the first \<open>C_Initialize\<close>.\<close>

definition module_start :: module_state where
  "module_start = \<lparr>module_acquiring = False, module_initialized = False, module_lifecycle = 0,
     module_finalizing = False, module_session_serial = 0, module_client = None,
     module_grant = None, module_objects = None, module_generation = 0, module_sessions = None,
     module_next_session = 0, module_logged_in = False, module_slot_events = 0,
     module_enumerate = False, module_issued_ids = None, module_refusal_time = 0,
     module_serial = [], module_effects = []\<rparr>"

section \<open>The portal client\<close>

definition portal_client_available :: "portal_env \<Rightarrow> nat option \<Rightarrow> bool" where
  "portal_client_available e client \<longleftrightarrow> client \<noteq> None \<and> e_available e"

definition portal_client_dup_mechanisms :: "portal_env \<Rightarrow> nat option \<Rightarrow> string list option" where
  "portal_client_dup_mechanisms e client =
     (if portal_client_available e client then Some (e_mechanisms e) else None)"

definition portal_client_grant_gone :: "portal_env \<Rightarrow> nat option \<Rightarrow> portal_grant \<Rightarrow> bool" where
  "portal_client_grant_gone e client g \<longleftrightarrow>
     client = None \<or> g_session_handle g = None \<or> e_grant_gone e g"

definition portal_client_release :: "nat option \<Rightarrow> portal_grant \<Rightarrow> module_state \<Rightarrow> module_state" where
  "portal_client_release client g s =
     (if client = None \<or> g_session_handle g = None then s
      else s\<lparr>module_effects := Released g # module_effects s\<rparr>)"

section \<open>Helpers of the entry points\<close>

definition portal_error_to_rv :: "portal_gerror option \<Rightarrow> ck_rv" where
  "portal_error_to_rv error =
     (case error of
        None \<Rightarrow> CKR_FUNCTION_FAILED
      | Some (ForeignError _) \<Rightarrow> CKR_FUNCTION_FAILED
      | Some (PortalError code _) \<Rightarrow>
          (case code of
             PKCS11_PORTAL_ERROR_CANCELLED \<Rightarrow> CKR_FUNCTION_CANCELED
           | PKCS11_PORTAL_ERROR_INVALIDATED \<Rightarrow> CKR_DEVICE_REMOVED
           | PKCS11_PORTAL_ERROR_UNAVAILABLE \<Rightarrow> CKR_TOKEN_NOT_PRESENT
           | PKCS11_PORTAL_ERROR_PIN_LOCKED \<Rightarrow> CKR_PIN_LOCKED
           | PKCS11_PORTAL_ERROR_DEVICE \<Rightarrow> CKR_DEVICE_ERROR
           | PKCS11_PORTAL_ERROR_LOGIN_REQUIRED \<Rightarrow> CKR_USER_NOT_LOGGED_IN
           | PKCS11_PORTAL_ERROR_INVALID_REQUEST \<Rightarrow> CKR_ARGUMENTS_BAD
           | _ \<Rightarrow> CKR_FUNCTION_FAILED))"

definition pad_field :: "nat \<Rightarrow> string \<Rightarrow> bytes" where
  "pad_field n v =
     (let len = min (length v) n
      in take len (char_bytes v) @ replicate (n - len) 0x20)"

definition session_reset_sign :: "portal_session \<Rightarrow> portal_session" where
  "session_reset_sign x = x\<lparr>sign_active := False, sign_mechanism := None, sign_hash := None,
     sign_mgf := None, sign_have_salt := False, sign_salt := 0, sign_digest := None,
     sign_buffer := None\<rparr>"

definition session_reset_decrypt :: "portal_session \<Rightarrow> portal_session" where
  "session_reset_decrypt x = x\<lparr>decrypt_active := False, decrypt_hash := None,
     decrypt_mgf1_hash := None, decrypt_label := None\<rparr>"

definition map_sessions :: "(portal_session \<Rightarrow> portal_session) \<Rightarrow> module_state \<Rightarrow> module_state" where
  "map_sessions f s =
     s\<lparr>module_sessions := map_option (map (\<lambda>(h, x). (h, f x))) (module_sessions s)\<rparr>"

text \<open>A session mutated through its pointer.\<close>

definition put_session :: "ck_ulong \<Rightarrow> portal_session \<Rightarrow> module_state \<Rightarrow> module_state" where
  "put_session h x s = s\<lparr>module_sessions := map_option (AList.update h x) (module_sessions s)\<rparr>"

definition remove_all_sessions :: "module_state \<Rightarrow> module_state" where
  "remove_all_sessions s = s\<lparr>module_sessions := map_option (\<lambda>_. []) (module_sessions s)\<rparr>"

definition get_session :: "module_state \<Rightarrow> ck_ulong \<Rightarrow> portal_session option" where
  "get_session s h = (case module_sessions s of None \<Rightarrow> None | Some xs \<Rightarrow> map_of xs h)"

definition drop_objects :: "module_state \<Rightarrow> module_state" where
  "drop_objects s =
     (map_sessions (\<lambda>x. session_reset_decrypt (session_reset_sign x)) s)
       \<lparr>module_objects := None, module_grant := None\<rparr>"

definition release_grant :: "portal_env \<Rightarrow> module_state \<Rightarrow> module_state" where
  "release_grant e s0 =
     (let s = s0\<lparr>module_generation := module_generation s0 + 1\<rparr>
      in drop_objects
        (case module_grant s of
           None \<Rightarrow> s
         | Some g \<Rightarrow>
             if \<not> portal_client_grant_gone e (module_client s) g
             then portal_client_release (module_client s) g s else s))"

definition grant_good :: "portal_env \<Rightarrow> module_state \<Rightarrow> portal_grant \<Rightarrow> bool" where
  "grant_good e s g \<longleftrightarrow>
     \<not> portal_client_grant_gone e (module_client s) g \<and>
     (g_expires_at g = 0 \<or> e_real_time e div G_USEC_PER_SEC < g_expires_at g)"

definition grant_still_good :: "portal_env \<Rightarrow> module_state \<Rightarrow> module_state \<times> bool" where
  "grant_still_good e s =
     (case module_grant s of
        None \<Rightarrow> (s, False)
      | Some g \<Rightarrow>
          if grant_good e s g then (s, True)
          else
            let s1 = remove_all_sessions (release_grant e s)
            in (s1\<lparr>module_logged_in := False, module_slot_events := module_slot_events s1 + 1\<rparr>, False))"

definition session_lookup :: "portal_env \<Rightarrow> module_state \<Rightarrow> ck_ulong \<Rightarrow> module_state \<times> portal_session option" where
  "session_lookup e s h =
     (if module_sessions s = None then (s, None)
      else let s1 = fst (grant_still_good e s) in (s1, get_session s1 h))"

definition session_revalidate ::
  "portal_env \<Rightarrow> module_state \<Rightarrow> ck_ulong \<Rightarrow> guint \<Rightarrow> guint \<Rightarrow> module_state \<times> portal_session option" where
  "session_revalidate e s h lifecycle serial =
     (if module_finalizing s \<or> \<not> module_initialized s \<or> module_lifecycle s \<noteq> lifecycle then (s, None)
      else case session_lookup e s h of
        (s1, None) \<Rightarrow> (s1, None)
      | (s1, Some x) \<Rightarrow> if ps_serial x \<noteq> serial then (s1, None) else (s1, Some x))"

definition operation_session_lookup ::
  "portal_env \<Rightarrow> module_state \<Rightarrow> ck_ulong \<Rightarrow> module_state \<times> (ck_rv + portal_session)" where
  "operation_session_lookup e s h =
     (if (case module_grant s of
            None \<Rightarrow> False
          | Some g \<Rightarrow> get_session s h \<noteq> None \<and> portal_client_grant_gone e (module_client s) g) then
        (fst (grant_still_good e s), Inl CKR_DEVICE_REMOVED)
      else case session_lookup e s h of
        (s1, None) \<Rightarrow> (s1, Inl CKR_SESSION_HANDLE_INVALID)
      | (s1, Some x) \<Rightarrow> (s1, Inr x))"


section \<open>The invariant\<close>

text \<open>
  A session's operations are consistent with themselves and with the presence of a grant: an
  active signature has a mechanism of the table and exactly one of the running hash and the
  bounded buffer; an inactive one holds nothing; no operation is pending without a grant.
\<close>

abbreviation PRE_HASHED_LIMIT :: nat where "PRE_HASHED_LIMIT \<equiv> 512"

definition sign_ok :: "portal_session \<Rightarrow> bool" where
  "sign_ok x \<longleftrightarrow>
     (if sign_active x then
        (\<exists>m. sign_mechanism x = Some m \<and> m \<in> set mechanism_table \<and> pm_can_sign m \<and>
          (if pm_hash_locally m then
             (\<exists>b. sign_digest x = Some (portal_hash_gnutls (pm_hash m), b)) \<and> sign_buffer x = None
           else sign_digest x = None \<and> (\<exists>b. sign_buffer x = Some b \<and> length b \<le> PRE_HASHED_LIMIT)) \<and>
          (pm_pss m \<longrightarrow> hash_entry (sign_hash x) \<noteq> None) \<and>
          (pm_hash m \<noteq> None \<longrightarrow> sign_hash x = pm_hash m) \<and>
          (\<not> pm_pss m \<longrightarrow> sign_hash x = pm_hash m \<and> sign_mgf x = None \<and> \<not> sign_have_salt x))
      else sign_mechanism x = None \<and> sign_hash x = None \<and> sign_mgf x = None \<and>
        \<not> sign_have_salt x \<and> sign_salt x = 0 \<and> sign_digest x = None \<and> sign_buffer x = None)"

definition decrypt_ok :: "portal_session \<Rightarrow> bool" where
  "decrypt_ok x \<longleftrightarrow>
     (if decrypt_active x then hash_entry (decrypt_hash x) \<noteq> None \<and> decrypt_mgf1_hash x = decrypt_hash x
      else decrypt_hash x = None \<and> decrypt_mgf1_hash x = None \<and> decrypt_label x = None)"

definition find_ok :: "portal_session \<Rightarrow> bool" where
  "find_ok x \<longleftrightarrow>
     (if find_active x then \<exists>rs. find_results x = Some rs \<and> find_position x \<le> length rs
      else find_results x = None \<and> find_position x = 0)"

definition session_ok :: "bool \<Rightarrow> ck_ulong \<Rightarrow> portal_session \<Rightarrow> bool" where
  "session_ok granted h x \<longleftrightarrow> ps_handle x = h \<and> sign_ok x \<and> decrypt_ok x \<and> find_ok x \<and>
     (sign_active x \<or> decrypt_active x \<longrightarrow> granted)"

definition sessions_ok :: "bool \<Rightarrow> (ck_ulong \<times> portal_session) list \<Rightarrow> bool" where
  "sessions_ok granted xs \<longleftrightarrow> distinct (map fst xs) \<and> (\<forall>(h, x) \<in> set xs. session_ok granted h x)"

definition module_inv :: "module_state \<Rightarrow> bool" where
  "module_inv s \<longleftrightarrow>
     (module_initialized s \<longleftrightarrow> module_sessions s \<noteq> None) \<and>
     (module_initialized s \<longleftrightarrow> module_issued_ids s \<noteq> None) \<and>
     (\<not> module_initialized s \<longrightarrow> module_grant s = None \<and> module_client s = None \<and> \<not> module_logged_in s) \<and>
     (module_grant s = None \<longleftrightarrow> module_objects s = None) \<and>
     (case module_sessions s of None \<Rightarrow> True | Some xs \<Rightarrow> sessions_ok (module_grant s \<noteq> None) xs)"

lemma module_inv_start: "module_inv module_start"
  by (simp add: module_inv_def module_start_def)

lemma sessions_ok_Nil [simp]: "sessions_ok g []"
  by (simp add: sessions_ok_def)

lemma reset_sign_oks [simp]:
  "sign_ok (session_reset_sign x)"
  "decrypt_ok (session_reset_sign x) = decrypt_ok x"
  "find_ok (session_reset_sign x) = find_ok x"
  "ps_handle (session_reset_sign x) = ps_handle x"
  "ps_serial (session_reset_sign x) = ps_serial x"
  "\<not> sign_active (session_reset_sign x)"
  "decrypt_active (session_reset_sign x) = decrypt_active x"
  by (simp_all add: sign_ok_def decrypt_ok_def find_ok_def session_reset_sign_def)

lemma reset_decrypt_oks [simp]:
  "decrypt_ok (session_reset_decrypt x)"
  "sign_ok (session_reset_decrypt x) = sign_ok x"
  "find_ok (session_reset_decrypt x) = find_ok x"
  "ps_handle (session_reset_decrypt x) = ps_handle x"
  "ps_serial (session_reset_decrypt x) = ps_serial x"
  "\<not> decrypt_active (session_reset_decrypt x)"
  "sign_active (session_reset_decrypt x) = sign_active x"
  by (simp_all add: sign_ok_def decrypt_ok_def find_ok_def session_reset_decrypt_def)

lemma session_reset_ok: "session_ok g h x \<Longrightarrow> session_ok g' h (session_reset_decrypt (session_reset_sign x))"
  by (simp add: session_ok_def)

lemma session_reset_sign_ok: "session_ok g h x \<Longrightarrow> session_ok g h (session_reset_sign x)"
  by (simp add: session_ok_def)

lemma session_reset_decrypt_ok: "session_ok g h x \<Longrightarrow> session_ok g h (session_reset_decrypt x)"
  by (simp add: session_ok_def)

lemma sessions_ok_reset:
  "sessions_ok g xs \<Longrightarrow>
    sessions_ok g' (map (\<lambda>(h, x). (h, session_reset_decrypt (session_reset_sign x))) xs)"
  by (force simp: sessions_ok_def comp_def split_beta intro: session_reset_ok)

lemma sessions_ok_update: "sessions_ok g xs \<Longrightarrow> session_ok g h x \<Longrightarrow> sessions_ok g (AList.update h x xs)"
proof -
  assume a: "sessions_ok g xs" and b: "session_ok g h x"
  have "set (AList.update h x xs) \<subseteq> insert (h, x) (set xs)"
    by (induction xs) auto
  with a b show "sessions_ok g (AList.update h x xs)"
    by (fastforce simp: sessions_ok_def distinct_update)
qed

lemma sessions_ok_get: "sessions_ok g xs \<Longrightarrow> map_of xs h = Some x \<Longrightarrow> session_ok g h x"
  by (auto simp: sessions_ok_def dest!: map_of_SomeD)

lemma sessions_ok_delete: "sessions_ok g xs \<Longrightarrow> sessions_ok g (AList.delete h xs)"
  by (auto simp: sessions_ok_def AList.delete_eq distinct_map_filter)

section \<open>The helpers keep the invariant\<close>

text \<open>What a helper that ends a grant leaves unchanged.\<close>

definition same_lifecycle :: "module_state \<Rightarrow> module_state \<Rightarrow> bool" where
  "same_lifecycle s t \<longleftrightarrow>
     module_acquiring t = module_acquiring s \<and> module_initialized t = module_initialized s \<and>
     module_lifecycle t = module_lifecycle s \<and> module_finalizing t = module_finalizing s \<and>
     module_client t = module_client s \<and> module_next_session t = module_next_session s \<and>
     module_session_serial t = module_session_serial s \<and> module_issued_ids t = module_issued_ids s \<and>
     module_enumerate t = module_enumerate s \<and> module_refusal_time t = module_refusal_time s \<and>
     (module_sessions t = None \<longleftrightarrow> module_sessions s = None)"

lemma same_lifecycle_refl [simp]: "same_lifecycle s s"
  by (simp add: same_lifecycle_def)

lemma same_lifecycle_trans: "same_lifecycle s t \<Longrightarrow> same_lifecycle t u \<Longrightarrow> same_lifecycle s u"
  by (simp add: same_lifecycle_def)

lemmas state_helper_defs = map_sessions_def put_session_def remove_all_sessions_def drop_objects_def
  release_grant_def portal_client_release_def

lemma release_grant_lifecycle: "same_lifecycle s (release_grant e s)"
  by (simp add: same_lifecycle_def state_helper_defs Let_def split: option.split)

lemma release_grant_fields [simp]:
  "module_grant (release_grant e s) = None"
  "module_objects (release_grant e s) = None"
  "module_generation (release_grant e s) = module_generation s + 1"
  "module_logged_in (release_grant e s) = module_logged_in s"
  "module_slot_events (release_grant e s) = module_slot_events s"
  "module_sessions (release_grant e s) =
     map_option (map (\<lambda>(h, x). (h, session_reset_decrypt (session_reset_sign x)))) (module_sessions s)"
  by (simp_all add: state_helper_defs Let_def split: option.split)

lemma release_grant_inv: "module_inv s \<Longrightarrow> module_inv (release_grant e s)"
  using release_grant_lifecycle [of s e]
  by (auto simp: module_inv_def same_lifecycle_def sessions_ok_reset split: option.splits)

lemma grant_still_good_lifecycle: "same_lifecycle s (fst (grant_still_good e s))"
  using release_grant_lifecycle [of s e]
  by (auto simp: grant_still_good_def same_lifecycle_def remove_all_sessions_def Let_def split: option.splits)

lemma grant_still_good_inv: "module_inv s \<Longrightarrow> module_inv (fst (grant_still_good e s))"
  using release_grant_inv [of s e]
  by (auto simp: grant_still_good_def module_inv_def remove_all_sessions_def Let_def split: option.splits)

lemma grant_still_good_cases:
  obtains (none) "module_grant s = None" "grant_still_good e s = (s, False)"
  | (good) g where "module_grant s = Some g" "grant_good e s g" "grant_still_good e s = (s, True)"
  | (ended) g t where "module_grant s = Some g" "\<not> grant_good e s g" "grant_still_good e s = (t, False)"
      "module_grant t = None" "module_objects t = None" "\<not> module_logged_in t"
      "module_slot_events t = module_slot_events s + 1" "module_generation t = module_generation s + 1"
      "module_sessions t = map_option (\<lambda>_. []) (module_sessions s)"
proof (cases "module_grant s")
  case None
  then show thesis by (intro none) (simp_all add: grant_still_good_def)
next
  case (Some g)
  show thesis
  proof (cases "grant_good e s g")
    case True
    with Some show thesis by (intro good) (simp_all add: grant_still_good_def)
  next
    case False
    with Some show thesis
      by (intro ended [of g "fst (grant_still_good e s)"])
        (simp_all add: grant_still_good_def remove_all_sessions_def Let_def option.map_comp comp_def)
  qed
qed

lemma session_lookup_inv: "module_inv s \<Longrightarrow> session_lookup e s h = (t, r) \<Longrightarrow> module_inv t"
  using grant_still_good_inv [of s e] by (auto simp: session_lookup_def Let_def split: if_splits)

lemma session_lookup_lifecycle: "session_lookup e s h = (t, r) \<Longrightarrow> same_lifecycle s t"
  using grant_still_good_lifecycle [of s e] by (auto simp: session_lookup_def Let_def split: if_splits)

lemma session_lookup_ok:
  assumes "module_inv s" and "session_lookup e s h = (t, Some x)"
  shows "get_session t h = Some x" and "session_ok (module_grant t \<noteq> None) h x"
    and "module_initialized t" and "\<And>g. module_grant t = Some g \<Longrightarrow> module_grant s = Some g \<and> grant_good e s g \<and> t = s"
proof -
  from session_lookup_inv [OF assms] have inv: "module_inv t" .
  from assms(2) show g: "get_session t h = Some x" by (auto simp: session_lookup_def Let_def split: if_splits)
  from inv g show "session_ok (module_grant t \<noteq> None) h x"
    by (auto simp: module_inv_def get_session_def split: option.splits intro: sessions_ok_get)
  from inv g show "module_initialized t"
    by (auto simp: module_inv_def get_session_def split: option.splits)
  fix gr
  assume "module_grant t = Some gr"
  with assms(2) show "module_grant s = Some gr \<and> grant_good e s gr \<and> t = s"
    by (cases rule: grant_still_good_cases [of s e])
      (auto simp: session_lookup_def Let_def split: if_splits)
qed

lemma session_revalidate_inv: "module_inv s \<Longrightarrow> session_revalidate e s h l n = (t, r) \<Longrightarrow> module_inv t"
  by (auto simp: session_revalidate_def split: if_splits prod.splits option.splits dest: session_lookup_inv)

lemma session_revalidate_lifecycle: "session_revalidate e s h l n = (t, r) \<Longrightarrow> same_lifecycle s t"
  by (auto simp: session_revalidate_def split: if_splits prod.splits option.splits dest: session_lookup_lifecycle)

lemma session_revalidate_Some:
  "session_revalidate e s h l n = (t, Some x) \<Longrightarrow>
    session_lookup e s h = (t, Some x) \<and> ps_serial x = n \<and> module_lifecycle s = l \<and> \<not> module_finalizing s"
  by (auto simp: session_revalidate_def split: if_splits prod.splits option.splits)

lemma operation_session_lookup_inv:
  "module_inv s \<Longrightarrow> operation_session_lookup e s h = (t, r) \<Longrightarrow> module_inv t"
  by (auto simp: operation_session_lookup_def split: if_splits prod.splits option.splits
      dest: session_lookup_inv grant_still_good_inv)

lemma operation_session_lookup_lifecycle:
  "operation_session_lookup e s h = (t, r) \<Longrightarrow> same_lifecycle s t"
  using grant_still_good_lifecycle [of s e]
  by (auto simp: operation_session_lookup_def split: if_splits prod.splits option.splits
      dest: session_lookup_lifecycle)

lemma operation_session_lookup_Inr:
  "operation_session_lookup e s h = (t, Inr x) \<Longrightarrow> session_lookup e s h = (t, Some x)"
  by (auto simp: operation_session_lookup_def split: if_splits prod.splits option.splits)

lemma put_session_inv:
  "module_inv s \<Longrightarrow> session_ok (module_grant s \<noteq> None) h x \<Longrightarrow> module_inv (put_session h x s)"
  by (auto simp: module_inv_def put_session_def sessions_ok_update split: option.splits)

lemma put_session_lifecycle [simp]: "same_lifecycle s (put_session h x s)"
  by (simp add: same_lifecycle_def put_session_def)

lemma put_session_fields [simp]:
  "module_grant (put_session h x s) = module_grant s" "module_objects (put_session h x s) = module_objects s"
  "module_client (put_session h x s) = module_client s" "module_initialized (put_session h x s) = module_initialized s"
  "module_generation (put_session h x s) = module_generation s"
  "module_effects (put_session h x s) = module_effects s"
  "module_lifecycle (put_session h x s) = module_lifecycle s"
  "module_finalizing (put_session h x s) = module_finalizing s"
  by (simp_all add: put_session_def)

lemma get_put_session:
  "get_session (put_session h x s) k = (if module_sessions s = None then None
     else if k = h then Some x else get_session s k)"
  by (auto simp: get_session_def put_session_def update_conv' split: option.split)

end
