(* ===== verification/ModuleCalls.thy ===== *)
theory ModuleCalls
  imports ModuleState
begin

text \<open>
  The entry points of \<open>src/module/module.c\<close> for initialisation, information, slots, mechanisms,
  sessions and login.  An entry point takes the environment, its arguments (a pointer that may
  be \<open>NULL\<close> is an option) and the state, and returns the new state, the return value and what it
  stores through its output pointers.  \<open>C_Finalize\<close> is split where it waits for a running
  acquisition.
\<close>

abbreviation PORTAL_SLOT_ID :: ck_ulong where "PORTAL_SLOT_ID \<equiv> 1"

section \<open>Initialisation\<close>

record ck_initialize_args =
  ia_CreateMutex :: bool
  ia_DestroyMutex :: bool
  ia_LockMutex :: bool
  ia_UnlockMutex :: bool
  ia_flags :: ck_ulong
  ia_pReserved :: "string option"

definition hex_digit :: "nat \<Rightarrow> char" where
  "hex_digit d = ''0123456789ABCDEF'' ! (d mod 16)"

definition hex_upper :: "nat \<Rightarrow> nat \<Rightarrow> string" where
  "hex_upper digits n = map (\<lambda>i. hex_digit (n div 16 ^ (digits - 1 - i))) [0..<digits]"

text \<open>\<open>"%s%013X"\<close> with the token serial prefix and 29 bits of the process id.\<close>

definition token_serial :: "guint \<Rightarrow> string" where
  "token_serial pid = ''XDP'' @ hex_upper 13 (unat (pid AND 0x1fffffff))"

definition initialize_args_rv :: "ck_initialize_args option \<Rightarrow> ck_rv" where
  "initialize_args_rv init_args =
     (case init_args of
        None \<Rightarrow> CKR_OK
      | Some a \<Rightarrow>
          let any_mutex = ia_CreateMutex a \<or> ia_DestroyMutex a \<or> ia_LockMutex a \<or> ia_UnlockMutex a;
              all_mutex = ia_CreateMutex a \<and> ia_DestroyMutex a \<and> ia_LockMutex a \<and> ia_UnlockMutex a
          in if ia_pReserved a \<noteq> None \<and> ia_pReserved a \<noteq> Some ''enumerate=1'' \<and>
                ia_pReserved a \<noteq> Some ''enumerate=0'' then CKR_ARGUMENTS_BAD
             else if any_mutex \<and> \<not> all_mutex then CKR_ARGUMENTS_BAD
             else if all_mutex \<and> ia_flags a AND CKF_OS_LOCKING_OK = 0 then CKR_CANT_LOCK
             else CKR_OK)"

definition C_Initialize :: "portal_env \<Rightarrow> ck_initialize_args option \<Rightarrow> module_state \<Rightarrow> module_state \<times> ck_rv" where
  "C_Initialize e init_args s =
     (if module_initialized s then (s, CKR_CRYPTOKI_ALREADY_INITIALIZED)
      else if initialize_args_rv init_args \<noteq> CKR_OK then (s, initialize_args_rv init_args)
      else
        (s\<lparr>module_serial := token_serial (e_pid e),
           module_enumerate := (case init_args of
               None \<Rightarrow> False | Some a \<Rightarrow> ia_pReserved a = Some ''enumerate=1''),
           module_issued_ids := Some [],
           module_sessions := Some [],
           module_next_session := 1,
           module_lifecycle := module_lifecycle s + 1,
           module_finalizing := False,
           module_logged_in := False,
           module_refusal_time := 0,
           module_slot_events := 0,
           module_client := (if e_self_excluded e then module_client s else Some (e_new_client e)),
           module_initialized := True\<rparr>, CKR_OK))"

text \<open>\<open>C_Finalize\<close> up to its wait: \<open>None\<close> when it goes on waiting for the acquisition.\<close>

definition finalize_finish :: "portal_env \<Rightarrow> module_state \<Rightarrow> module_state" where
  "finalize_finish e s =
     (release_grant e s)\<lparr>module_sessions := None, module_issued_ids := None, module_client := None,
       module_logged_in := False, module_finalizing := False, module_initialized := False\<rparr>"

definition C_Finalize :: "portal_env \<Rightarrow> bool \<Rightarrow> module_state \<Rightarrow> module_state \<times> ck_rv option" where
  "C_Finalize e reserved s0 =
     (if reserved then (s0, Some CKR_ARGUMENTS_BAD)
      else if \<not> module_initialized s0 then (s0, Some CKR_CRYPTOKI_NOT_INITIALIZED)
      else
        let s = s0\<lparr>module_finalizing := True\<rparr>
        in if module_acquiring s then (s\<lparr>module_effects := Cancelled # module_effects s\<rparr>, None)
           else (finalize_finish e s, Some CKR_OK))"

definition C_Finalize_wake :: "portal_env \<Rightarrow> module_state \<Rightarrow> module_state \<times> ck_rv option" where
  "C_Finalize_wake e s =
     (if module_acquiring s then (s, None) else (finalize_finish e s, Some CKR_OK))"

section \<open>Library information\<close>

record ck_info =
  ci_cryptokiVersion :: "nat \<times> nat"
  ci_manufacturerID :: bytes
  ci_flags :: ck_ulong
  ci_libraryDescription :: bytes
  ci_libraryVersion :: "nat \<times> nat"

abbreviation TOKEN_MANUFACTURER :: string where "TOKEN_MANUFACTURER \<equiv> ''freedesktop.org''"

definition C_GetInfo :: "bool \<Rightarrow> module_state \<Rightarrow> ck_rv \<times> ck_info option" where
  "C_GetInfo info s =
     (if \<not> module_initialized s then (CKR_CRYPTOKI_NOT_INITIALIZED, None)
      else if \<not> info then (CKR_ARGUMENTS_BAD, None)
      else (CKR_OK, Some \<lparr>ci_cryptokiVersion = (2, 40), ci_manufacturerID = pad_field 32 TOKEN_MANUFACTURER,
        ci_flags = 0, ci_libraryDescription = pad_field 32 ''Certificate portal PKCS#11'',
        ci_libraryVersion = (0, 1)\<rparr>))"

datatype ck_interface = Interface_3_0 | Interface_2_40

definition interface_list :: "ck_interface list" where
  "interface_list = [Interface_3_0, Interface_2_40]"

text \<open>
  The list protocol of PKCS#11: no output array asks for the count, a short array is refused
  with the count needed.  The results are the new \<open>*count\<close> and the elements written.
\<close>

definition C_GetInterfaceList :: "bool \<Rightarrow> nat option \<Rightarrow> ck_rv \<times> nat option \<times> ck_interface list" where
  "C_GetInterfaceList interfaces count =
     (case count of
        None \<Rightarrow> (CKR_ARGUMENTS_BAD, None, [])
      | Some n \<Rightarrow>
          if \<not> interfaces then (CKR_OK, Some (length interface_list), [])
          else if n < length interface_list then (CKR_BUFFER_TOO_SMALL, Some (length interface_list), [])
          else (CKR_OK, Some (length interface_list), interface_list))"

definition C_GetInterface ::
  "string option \<Rightarrow> (nat \<times> nat) option \<Rightarrow> bool \<Rightarrow> ck_ulong \<Rightarrow> ck_rv \<times> ck_interface option" where
  "C_GetInterface name version interface flags =
     (if \<not> interface then (CKR_ARGUMENTS_BAD, None)
      else if name \<noteq> None \<and> name \<noteq> Some ''PKCS 11'' then (CKR_ARGUMENTS_BAD, None)
      else if flags \<noteq> 0 then (CKR_ARGUMENTS_BAD, None)
      else if version = None \<or> version = Some (3, 0) then (CKR_OK, Some Interface_3_0)
      else if version = Some (2, 40) then (CKR_OK, Some Interface_2_40)
      else (CKR_ARGUMENTS_BAD, None))"

section \<open>Slots and tokens\<close>

definition C_GetSlotList ::
  "portal_env \<Rightarrow> bool \<Rightarrow> nat option \<Rightarrow> module_state \<Rightarrow> ck_rv \<times> nat option \<times> ck_ulong list" where
  "C_GetSlotList e slot_list count s =
     (if \<not> module_initialized s then (CKR_CRYPTOKI_NOT_INITIALIZED, count, [])
      else case count of
        None \<Rightarrow> (CKR_ARGUMENTS_BAD, None, [])
      | Some n \<Rightarrow>
          if \<not> portal_client_available e (module_client s) then (CKR_OK, Some 0, [])
          else if \<not> slot_list then (CKR_OK, Some 1, [])
          else if n < 1 then (CKR_BUFFER_TOO_SMALL, Some 1, [])
          else (CKR_OK, Some 1, [PORTAL_SLOT_ID]))"

record ck_slot_info =
  si_slotDescription :: bytes
  si_manufacturerID :: bytes
  si_flags :: ck_ulong

definition C_GetSlotInfo ::
  "portal_env \<Rightarrow> ck_ulong \<Rightarrow> bool \<Rightarrow> module_state \<Rightarrow> module_state \<times> ck_rv \<times> ck_slot_info option" where
  "C_GetSlotInfo e slot_id info s =
     (if \<not> module_initialized s then (s, CKR_CRYPTOKI_NOT_INITIALIZED, None)
      else if \<not> info then (s, CKR_ARGUMENTS_BAD, None)
      else if slot_id \<noteq> PORTAL_SLOT_ID then (s, CKR_SLOT_ID_INVALID, None)
      else
        let s1 = fst (grant_still_good e s)
        in (s1, CKR_OK, Some \<lparr>si_slotDescription = pad_field 64 ''Certificate portal'',
              si_manufacturerID = pad_field 32 TOKEN_MANUFACTURER,
              si_flags = (if portal_client_available e (module_client s1)
                then CKF_REMOVABLE_DEVICE OR CKF_TOKEN_PRESENT else CKF_REMOVABLE_DEVICE)\<rparr>))"

record ck_token_info =
  ti_label :: bytes
  ti_manufacturerID :: bytes
  ti_model :: bytes
  ti_serialNumber :: bytes
  ti_flags :: ck_ulong
  ti_ulMaxSessionCount :: ck_ulong
  ti_ulSessionCount :: ck_ulong
  ti_ulMaxRwSessionCount :: ck_ulong
  ti_ulRwSessionCount :: ck_ulong
  ti_ulMaxPinLen :: ck_ulong
  ti_ulMinPinLen :: ck_ulong
  ti_memory :: "ck_ulong list" \<comment> \<open>total and free public, total and free private memory\<close>
  ti_utcTime :: bytes

definition C_GetTokenInfo ::
  "portal_env \<Rightarrow> ck_ulong \<Rightarrow> bool \<Rightarrow> module_state \<Rightarrow> ck_rv \<times> ck_token_info option" where
  "C_GetTokenInfo e slot_id info s =
     (if \<not> module_initialized s then (CKR_CRYPTOKI_NOT_INITIALIZED, None)
      else if \<not> info then (CKR_ARGUMENTS_BAD, None)
      else if slot_id \<noteq> PORTAL_SLOT_ID then (CKR_SLOT_ID_INVALID, None)
      else if \<not> portal_client_available e (module_client s) then (CKR_TOKEN_NOT_PRESENT, None)
      else (CKR_OK, Some \<lparr>ti_label = pad_field 32 PKCS11_PORTAL_OBJECT_LABEL,
        ti_manufacturerID = pad_field 32 TOKEN_MANUFACTURER,
        ti_model = pad_field 16 ''portal-cert'',
        ti_serialNumber = pad_field 16 (module_serial s),
        ti_flags = CKF_TOKEN_INITIALIZED OR CKF_PROTECTED_AUTHENTICATION_PATH OR CKF_USER_PIN_INITIALIZED,
        ti_ulMaxSessionCount = CK_UNAVAILABLE_INFORMATION,
        ti_ulSessionCount = CK_UNAVAILABLE_INFORMATION,
        ti_ulMaxRwSessionCount = 0, ti_ulRwSessionCount = 0, ti_ulMaxPinLen = 0, ti_ulMinPinLen = 0,
        ti_memory = replicate 4 CK_UNAVAILABLE_INFORMATION,
        ti_utcTime = replicate 16 0x20\<rparr>))"

section \<open>Mechanisms\<close>

definition C_GetMechanismList ::
  "portal_env \<Rightarrow> ck_ulong \<Rightarrow> bool \<Rightarrow> nat option \<Rightarrow> module_state \<Rightarrow> ck_rv \<times> nat option \<times> ck_ulong list" where
  "C_GetMechanismList e slot_id mechanism_list count s =
     (if \<not> module_initialized s then (CKR_CRYPTOKI_NOT_INITIALIZED, count, [])
      else case count of
        None \<Rightarrow> (CKR_ARGUMENTS_BAD, None, [])
      | Some n \<Rightarrow>
          if slot_id \<noteq> PORTAL_SLOT_ID then (CKR_SLOT_ID_INVALID, count, [])
          else case portal_client_dup_mechanisms e (module_client s) of
            None \<Rightarrow> (CKR_TOKEN_NOT_PRESENT, count, [])
          | Some names \<Rightarrow>
              let ms = portal_mechanism_list (Some names); available = length ms
              in if \<not> mechanism_list then (CKR_OK, Some available, [])
                 else if n < available then (CKR_BUFFER_TOO_SMALL, Some available, [])
                 else (CKR_OK, Some available, ms))"

record ck_mechanism_info =
  mi_ulMinKeySize :: ck_ulong
  mi_ulMaxKeySize :: ck_ulong
  mi_flags :: ck_ulong

definition C_GetMechanismInfo ::
  "portal_env \<Rightarrow> ck_ulong \<Rightarrow> ck_ulong \<Rightarrow> bool \<Rightarrow> module_state \<Rightarrow> ck_rv \<times> ck_mechanism_info option" where
  "C_GetMechanismInfo e slot_id t info s =
     (if \<not> module_initialized s then (CKR_CRYPTOKI_NOT_INITIALIZED, None)
      else if \<not> info then (CKR_ARGUMENTS_BAD, None)
      else if slot_id \<noteq> PORTAL_SLOT_ID then (CKR_SLOT_ID_INVALID, None)
      else case portal_client_dup_mechanisms e (module_client s) of
        None \<Rightarrow> (CKR_TOKEN_NOT_PRESENT, None)
      | Some names \<Rightarrow>
          (case portal_mechanism_lookup t of
             None \<Rightarrow> (CKR_MECHANISM_INVALID, None)
           | Some m \<Rightarrow>
               if \<not> portal_mechanism_available (Some m) (Some names) then (CKR_MECHANISM_INVALID, None)
               else (CKR_OK, Some
                 \<lparr>mi_ulMinKeySize = (if pm_portal_mechanism m = ECDSA then 256 else 1024),
                  mi_ulMaxKeySize = (if pm_portal_mechanism m = ECDSA then 521 else 8192),
                  mi_flags = (if pm_can_sign m then CKF_SIGN else CKF_DECRYPT)\<rparr>)))"

section \<open>Sessions\<close>

definition C_OpenSession ::
  "portal_env \<Rightarrow> ck_ulong \<Rightarrow> ck_ulong \<Rightarrow> bool \<Rightarrow> module_state \<Rightarrow> module_state \<times> ck_rv \<times> ck_ulong option" where
  "C_OpenSession e slot_id flags session_handle s =
     (if \<not> module_initialized s then (s, CKR_CRYPTOKI_NOT_INITIALIZED, None)
      else if \<not> session_handle then (s, CKR_ARGUMENTS_BAD, None)
      else if slot_id \<noteq> PORTAL_SLOT_ID then (s, CKR_SLOT_ID_INVALID, None)
      else if flags AND CKF_SERIAL_SESSION = 0 then (s, CKR_SESSION_PARALLEL_NOT_SUPPORTED, None)
      else if flags AND CKF_RW_SESSION \<noteq> 0 then (s, CKR_TOKEN_WRITE_PROTECTED, None)
      else if module_finalizing s then (s, CKR_CRYPTOKI_NOT_INITIALIZED, None)
      else if \<not> portal_client_available e (module_client s) then (s, CKR_TOKEN_NOT_PRESENT, None)
      else
        let s1 = fst (grant_still_good e s);
            handle = module_next_session s1;
            serial = module_session_serial s1 + 1;
            session = \<lparr>ps_handle = handle, ps_serial = serial, ps_flags = flags,
              find_active = False, find_results = None, find_position = 0,
              sign_active = False, sign_mechanism = None, sign_hash = None, sign_mgf = None,
              sign_have_salt = False, sign_salt = 0, sign_digest = None, sign_buffer = None,
              decrypt_active = False, decrypt_hash = None, decrypt_mgf1_hash = None,
              decrypt_label = None\<rparr>
        in (put_session handle session
              (s1\<lparr>module_next_session := handle + 1, module_session_serial := serial\<rparr>),
            CKR_OK, Some handle))"

definition C_CloseSession :: "ck_ulong \<Rightarrow> module_state \<Rightarrow> module_state \<times> ck_rv" where
  "C_CloseSession session_handle s =
     (if \<not> module_initialized s then (s, CKR_CRYPTOKI_NOT_INITIALIZED)
      else if get_session s session_handle = None then (s, CKR_SESSION_HANDLE_INVALID)
      else
        let s1 = s\<lparr>module_sessions := map_option (AList.delete session_handle) (module_sessions s)\<rparr>
        in (if module_sessions s1 = Some [] then s1\<lparr>module_logged_in := False\<rparr> else s1, CKR_OK))"

definition C_CloseAllSessions :: "portal_env \<Rightarrow> ck_ulong \<Rightarrow> module_state \<Rightarrow> module_state \<times> ck_rv" where
  "C_CloseAllSessions e slot_id s =
     (if \<not> module_initialized s then (s, CKR_CRYPTOKI_NOT_INITIALIZED)
      else if slot_id \<noteq> PORTAL_SLOT_ID then (s, CKR_SLOT_ID_INVALID)
      else ((release_grant e (remove_all_sessions s))\<lparr>module_logged_in := False\<rparr>, CKR_OK))"

record ck_session_info =
  sei_slotID :: ck_ulong
  sei_state :: ck_ulong
  sei_flags :: ck_ulong
  sei_ulDeviceError :: ck_ulong

definition C_GetSessionInfo ::
  "portal_env \<Rightarrow> ck_ulong \<Rightarrow> bool \<Rightarrow> module_state \<Rightarrow> module_state \<times> ck_rv \<times> ck_session_info option" where
  "C_GetSessionInfo e session_handle info s =
     (if \<not> module_initialized s then (s, CKR_CRYPTOKI_NOT_INITIALIZED, None)
      else if \<not> info then (s, CKR_ARGUMENTS_BAD, None)
      else case session_lookup e s session_handle of
        (s1, None) \<Rightarrow> (s1, CKR_SESSION_HANDLE_INVALID, None)
      | (s1, Some x) \<Rightarrow> (s1, CKR_OK, Some
          \<lparr>sei_slotID = PORTAL_SLOT_ID,
           sei_state = (if module_logged_in s1 then CKS_RO_USER_FUNCTIONS else CKS_RO_PUBLIC_SESSION),
           sei_flags = ps_flags x, sei_ulDeviceError = 0\<rparr>))"

section \<open>Login\<close>

text \<open>The PIN arguments are ignored; the function does not depend on them.\<close>

definition C_Login ::
  "portal_env \<Rightarrow> ck_ulong \<Rightarrow> ck_ulong \<Rightarrow> bytes option \<Rightarrow> nat \<Rightarrow> module_state \<Rightarrow> module_state \<times> ck_rv" where
  "C_Login e session_handle user_type pin pin_len s =
     (if \<not> module_initialized s then (s, CKR_CRYPTOKI_NOT_INITIALIZED)
      else if user_type \<noteq> CKU_USER then (s, CKR_USER_TYPE_INVALID)
      else case session_lookup e s session_handle of
        (s1, None) \<Rightarrow> (s1, CKR_SESSION_HANDLE_INVALID)
      | (s1, Some _) \<Rightarrow>
          if module_logged_in s1 then (s1, CKR_USER_ALREADY_LOGGED_IN)
          else (s1\<lparr>module_logged_in := True\<rparr>, CKR_OK))"

definition C_Logout :: "portal_env \<Rightarrow> ck_ulong \<Rightarrow> module_state \<Rightarrow> module_state \<times> ck_rv" where
  "C_Logout e session_handle s =
     (if \<not> module_initialized s then (s, CKR_CRYPTOKI_NOT_INITIALIZED)
      else case session_lookup e s session_handle of
        (s1, None) \<Rightarrow> (s1, CKR_SESSION_HANDLE_INVALID)
      | (s1, Some _) \<Rightarrow>
          (release_grant e (s1\<lparr>module_logged_in := False\<rparr>),
           if module_logged_in s1 then CKR_OK else CKR_USER_NOT_LOGGED_IN))"

section \<open>Slot events\<close>

definition C_WaitForSlotEvent ::
  "portal_env \<Rightarrow> ck_ulong \<Rightarrow> bool \<Rightarrow> bool \<Rightarrow> module_state \<Rightarrow> module_state \<times> ck_rv \<times> ck_ulong option" where
  "C_WaitForSlotEvent e flags slot reserved s =
     (if \<not> module_initialized s then (s, CKR_CRYPTOKI_NOT_INITIALIZED, None)
      else if \<not> slot \<or> reserved \<or> flags AND NOT CKF_DONT_BLOCK \<noteq> 0 then (s, CKR_ARGUMENTS_BAD, None)
      else if flags AND CKF_DONT_BLOCK = 0 then (s, CKR_FUNCTION_NOT_SUPPORTED, None)
      else
        let s1 = fst (grant_still_good e s)
        in if module_slot_events s1 > 0
           then (s1\<lparr>module_slot_events := module_slot_events s1 - 1\<rparr>, CKR_OK, Some PORTAL_SLOT_ID)
           else (s1, CKR_NO_EVENT, None))"

text \<open>Every function the module does not support returns at once.\<close>

definition C_not_supported :: "module_state \<Rightarrow> module_state \<times> ck_rv" where
  "C_not_supported s = (s, CKR_FUNCTION_NOT_SUPPORTED)"

section \<open>The entry points keep the invariant\<close>

lemma module_inv_ignores [simp]:
  "module_inv (s\<lparr>module_finalizing := b\<rparr>) = module_inv s"
  "module_inv (s\<lparr>module_acquiring := b\<rparr>) = module_inv s"
  "module_inv (s\<lparr>module_effects := es\<rparr>) = module_inv s"
  "module_inv (s\<lparr>module_slot_events := n\<rparr>) = module_inv s"
  "module_inv (s\<lparr>module_generation := n\<rparr>) = module_inv s"
  "module_inv (s\<lparr>module_refusal_time := t\<rparr>) = module_inv s"
  "module_inv (s\<lparr>module_session_serial := n\<rparr>) = module_inv s"
  "module_inv (s\<lparr>module_next_session := h\<rparr>) = module_inv s"
  by (simp_all add: module_inv_def cong: option.case_cong)

lemma module_inv_log_in [simp]:
  "module_initialized s \<Longrightarrow> module_inv (s\<lparr>module_logged_in := b\<rparr>) = module_inv s"
  by (simp add: module_inv_def cong: option.case_cong)

lemma C_Initialize_inv:
  assumes "module_inv s"
  shows "module_inv (fst (C_Initialize e a s))"
  using assms by (auto simp: C_Initialize_def module_inv_def)

lemma finalize_finish_inv: "module_inv s \<Longrightarrow> module_inv (finalize_finish e s)"
  by (simp add: finalize_finish_def module_inv_def)

lemma C_Finalize_inv: "module_inv s \<Longrightarrow> module_inv (fst (C_Finalize e r s))"
  by (simp add: C_Finalize_def Let_def finalize_finish_inv)

lemma C_Finalize_wake_inv: "module_inv s \<Longrightarrow> module_inv (fst (C_Finalize_wake e s))"
  by (simp add: C_Finalize_wake_def finalize_finish_inv)

lemma C_GetSlotInfo_inv: "module_inv s \<Longrightarrow> module_inv (fst (C_GetSlotInfo e i b s))"
  by (simp add: C_GetSlotInfo_def Let_def grant_still_good_inv)

lemma C_OpenSession_inv:
  assumes "module_inv s"
  shows "module_inv (fst (C_OpenSession e i f b s))"
proof -
  define t where "t = fst (grant_still_good e s)"
  have "module_inv t" unfolding t_def by (rule grant_still_good_inv) (rule assms)
  then show ?thesis
    using assms unfolding C_OpenSession_def Let_def t_def [symmetric]
    by (auto intro!: put_session_inv simp: session_ok_def sign_ok_def decrypt_ok_def find_ok_def)
qed

lemma C_CloseSession_inv: "module_inv s \<Longrightarrow> module_inv (fst (C_CloseSession h s))"
  by (auto simp: C_CloseSession_def Let_def module_inv_def sessions_ok_delete split: option.splits)

lemma remove_all_sessions_inv: "module_inv s \<Longrightarrow> module_inv (remove_all_sessions s)"
  by (auto simp: module_inv_def remove_all_sessions_def split: option.splits)

lemma log_out_inv: "module_inv s \<Longrightarrow> module_inv (s\<lparr>module_logged_in := False\<rparr>)"
  by (auto simp: module_inv_def split: option.splits)

lemma C_CloseAllSessions_inv: "module_inv s \<Longrightarrow> module_inv (fst (C_CloseAllSessions e i s))"
  by (simp add: C_CloseAllSessions_def log_out_inv release_grant_inv remove_all_sessions_inv)

lemma C_GetSessionInfo_inv: "module_inv s \<Longrightarrow> module_inv (fst (C_GetSessionInfo e h b s))"
  by (auto simp: C_GetSessionInfo_def split: prod.splits option.splits dest: session_lookup_inv)

lemma C_Login_inv:
  assumes "module_inv s"
  shows "module_inv (fst (C_Login e h u p n s))"
proof (cases "session_lookup e s h")
  case (Pair t r)
  with assms have "module_inv t" by (blast dest: session_lookup_inv)
  moreover from assms Pair have "r \<noteq> None \<Longrightarrow> module_initialized t"
    by (auto dest: session_lookup_ok)
  ultimately show ?thesis
    using assms Pair by (cases r) (auto simp: C_Login_def)
qed

lemma C_Logout_inv:
  assumes "module_inv s"
  shows "module_inv (fst (C_Logout e h s))"
proof (cases "session_lookup e s h")
  case (Pair t r)
  with assms have "module_inv t" by (blast dest: session_lookup_inv)
  with assms Pair show ?thesis
    by (cases r) (auto simp: C_Logout_def intro: release_grant_inv log_out_inv)
qed

lemma C_WaitForSlotEvent_inv:
  assumes "module_inv s"
  shows "module_inv (fst (C_WaitForSlotEvent e f b r s))"
proof -
  define t where "t = fst (grant_still_good e s)"
  have "module_inv t" unfolding t_def by (rule grant_still_good_inv) (rule assms)
  then show ?thesis
    using assms unfolding C_WaitForSlotEvent_def Let_def t_def [symmetric] by simp
qed

end
