(* ===== verification/ModuleFind.thy ===== *)
theory ModuleFind
  imports ModuleCalls
begin

text \<open>
  Searching for objects and reading their attributes (\<open>src/module/module.c\<close>).

  \<open>ensure_grant\<close> drops \<open>module_lock\<close> while the portal asks the user, so it is two steps: what it
  does until it returns, waits or starts an acquisition (\<open>ensure_grant_begin\<close>), and what it
  does with the result once it has the lock again (\<open>ensure_grant_acquired\<close>).
  \<open>C_FindObjectsInit\<close> is split at the same places; its wake-up from the condition variable runs
  \<open>ensure_grant_begin\<close> again.
\<close>

section \<open>Acquiring the grant\<close>

datatype ensure_outcome =
    EnsureWait
  | EnsureResult bool
  | EnsureAcquire "nat option" guint \<comment> \<open>the client and the generation before the acquisition\<close>

definition in_refusal_grace :: "portal_env \<Rightarrow> module_state \<Rightarrow> bool" where
  "in_refusal_grace e s \<longleftrightarrow> module_refusal_time s \<noteq> 0 \<and>
     e_monotonic_time e - module_refusal_time s < PKCS11_PORTAL_REFUSAL_GRACE_SECONDS * G_USEC_PER_SEC"

definition ensure_grant_begin ::
  "portal_env \<Rightarrow> ck_attribute list option \<Rightarrow> nat \<Rightarrow> ck_ulong \<Rightarrow> guint \<Rightarrow> guint \<Rightarrow> module_state
    \<Rightarrow> module_state \<times> ensure_outcome" where
  "ensure_grant_begin e templ count handle lifecycle serial s =
     (if module_acquiring s \<and> \<not> module_finalizing s then (s, EnsureWait)
      else if module_acquiring s then (s, EnsureResult False)
      else case session_revalidate e s handle lifecycle serial of
        (s1, None) \<Rightarrow> (s1, EnsureResult False)
      | (s1, Some _) \<Rightarrow>
        (case grant_still_good e s1 of
           (s2, True) \<Rightarrow> (s2, EnsureResult True)
         | (s2, False) \<Rightarrow>
           (case session_revalidate e s2 handle lifecycle serial of
              (s3, None) \<Rightarrow> (s3, EnsureResult False)
            | (s3, Some _) \<Rightarrow>
                if \<not> portal_client_available e (module_client s3) then (s3, EnsureResult False)
                else if \<not> portal_template_wants_credential (e_enumerate_var e) templ count
                            (module_issued_ids s3) (module_enumerate s3)
                then (s3, EnsureResult False)
                else if in_refusal_grace e s3 then (s3, EnsureResult False)
                else (s3\<lparr>module_refusal_time := 0, module_acquiring := True\<rparr>,
                      EnsureAcquire (module_client s3) (module_generation s3)))))"

text \<open>\<open>portal_client_acquire\<close> gave \<open>Inr\<close> a grant or \<open>Inl\<close> an error (\<open>None\<close>: \<open>NULL\<close> and no error).\<close>

definition refused :: "portal_gerror option \<Rightarrow> bool" where
  "refused error = (case error of Some (PortalError PKCS11_PORTAL_ERROR_CANCELLED _) \<Rightarrow> True | _ \<Rightarrow> False)"

definition ensure_grant_install :: "portal_env \<Rightarrow> portal_grant \<Rightarrow> module_state \<Rightarrow> module_state \<times> bool" where
  "ensure_grant_install e grant s0 =
     (let s = s0\<lparr>module_grant := Some grant, module_generation := module_generation s0 + 1\<rparr>
      in case portal_objects_new (e_x509 e) grant (module_generation s) of
        Inl _ \<Rightarrow> (release_grant e s, False)
      | Inr os \<Rightarrow>
          (s\<lparr>module_objects := Some os,
             module_issued_ids := map_option (List.insert (os_identifier os)) (module_issued_ids s)\<rparr>, True))"

definition ensure_grant_acquired ::
  "portal_env \<Rightarrow> (portal_gerror option + portal_grant) \<Rightarrow> nat option \<Rightarrow> guint
    \<Rightarrow> ck_ulong \<Rightarrow> guint \<Rightarrow> guint \<Rightarrow> module_state \<Rightarrow> module_state \<times> bool" where
  "ensure_grant_acquired e result client generation handle lifecycle serial s0 =
     (let s = s0\<lparr>module_acquiring := False\<rparr>
      in case result of
        Inl error \<Rightarrow>
          (if refused error then s\<lparr>module_refusal_time := e_monotonic_time e\<rparr> else s, False)
      | Inr grant \<Rightarrow>
          if module_client s \<noteq> client \<or> module_generation s \<noteq> generation
          then (portal_client_release client grant s, False)
          else (case session_revalidate e s handle lifecycle serial of
            (s1, None) \<Rightarrow> (portal_client_release client grant s1, False)
          | (s1, Some _) \<Rightarrow>
              if module_grant s1 \<noteq> None
              then grant_still_good e (portal_client_release client grant s1)
              else ensure_grant_install e grant s1))"

section \<open>Searches\<close>

record find_context =
  fc_handle :: ck_ulong
  fc_templ :: "ck_attribute list option"
  fc_count :: nat
  fc_lifecycle :: guint
  fc_serial :: guint

text \<open>The checks of \<open>C_FindObjectsInit\<close> before \<open>ensure_grant\<close>: an error, or the identity of the session.\<close>

definition find_init_check ::
  "portal_env \<Rightarrow> ck_ulong \<Rightarrow> ck_attribute list option \<Rightarrow> nat \<Rightarrow> module_state
    \<Rightarrow> module_state \<times> (ck_rv + find_context)" where
  "find_init_check e session_handle templ count s =
     (if \<not> module_initialized s then (s, Inl CKR_CRYPTOKI_NOT_INITIALIZED)
      else if templ = None \<and> count > 0 then (s, Inl CKR_ARGUMENTS_BAD)
      else if module_finalizing s then (s, Inl CKR_CRYPTOKI_NOT_INITIALIZED)
      else case session_lookup e s session_handle of
        (s1, None) \<Rightarrow> (s1, Inl CKR_SESSION_HANDLE_INVALID)
      | (s1, Some x) \<Rightarrow>
          if find_active x then (s1, Inl CKR_OPERATION_ACTIVE)
          else (s1, Inr \<lparr>fc_handle = session_handle, fc_templ = templ, fc_count = count,
                         fc_lifecycle = module_lifecycle s1, fc_serial = ps_serial x\<rparr>))"

text \<open>What follows the return of \<open>ensure_grant\<close>.\<close>

definition find_init_finish ::
  "portal_env \<Rightarrow> find_context \<Rightarrow> bool \<Rightarrow> module_state \<Rightarrow> module_state \<times> ck_rv" where
  "find_init_finish e c acquired s =
     (case session_revalidate e s (fc_handle c) (fc_lifecycle c) (fc_serial c) of
        (s1, None) \<Rightarrow> (s1, CKR_SESSION_HANDLE_INVALID)
      | (s1, Some x) \<Rightarrow>
          if find_active x then (s1, CKR_OPERATION_ACTIVE)
          else
            (put_session (fc_handle c)
               (x\<lparr>find_results := Some (if acquired
                    then portal_objects_find (module_objects s1) (fc_templ c) (fc_count c) else []),
                  find_position := 0, find_active := True\<rparr>) s1, CKR_OK))"

text \<open>A search in progress: returned, waiting for a concurrent acquisition, or acquiring.\<close>

datatype find_progress =
    FindReturned ck_rv
  | FindWaiting find_context
  | FindAcquiring find_context "nat option" guint

definition find_init_ensure ::
  "portal_env \<Rightarrow> find_context \<Rightarrow> module_state \<Rightarrow> module_state \<times> find_progress" where
  "find_init_ensure e c s =
     (case ensure_grant_begin e (fc_templ c) (fc_count c) (fc_handle c) (fc_lifecycle c) (fc_serial c) s of
        (s1, EnsureWait) \<Rightarrow> (s1, FindWaiting c)
      | (s1, EnsureAcquire client generation) \<Rightarrow> (s1, FindAcquiring c client generation)
      | (s1, EnsureResult acquired) \<Rightarrow> apsnd FindReturned (find_init_finish e c acquired s1))"

definition C_FindObjectsInit ::
  "portal_env \<Rightarrow> ck_ulong \<Rightarrow> ck_attribute list option \<Rightarrow> nat \<Rightarrow> module_state
    \<Rightarrow> module_state \<times> find_progress" where
  "C_FindObjectsInit e session_handle templ count s =
     (case find_init_check e session_handle templ count s of
        (s1, Inl rv) \<Rightarrow> (s1, FindReturned rv)
      | (s1, Inr c) \<Rightarrow> find_init_ensure e c s1)"

definition C_FindObjectsInit_acquired ::
  "portal_env \<Rightarrow> find_context \<Rightarrow> (portal_gerror option + portal_grant) \<Rightarrow> nat option \<Rightarrow> guint
    \<Rightarrow> module_state \<Rightarrow> module_state \<times> ck_rv" where
  "C_FindObjectsInit_acquired e c result client generation s =
     (case ensure_grant_acquired e result client generation (fc_handle c) (fc_lifecycle c) (fc_serial c) s of
        (s1, acquired) \<Rightarrow> find_init_finish e c acquired s1)"

text \<open>\<open>objects\<close> says whether the application passed an output array.\<close>

definition C_FindObjects ::
  "portal_env \<Rightarrow> ck_ulong \<Rightarrow> bool \<Rightarrow> nat \<Rightarrow> bool \<Rightarrow> module_state \<Rightarrow> module_state \<times> ck_rv \<times> ck_ulong list" where
  "C_FindObjects e session_handle objects max_count count s =
     (if \<not> module_initialized s then (s, CKR_CRYPTOKI_NOT_INITIALIZED, [])
      else if \<not> count \<or> \<not> objects \<and> max_count > 0 then (s, CKR_ARGUMENTS_BAD, [])
      else case session_lookup e s session_handle of
        (s1, None) \<Rightarrow> (s1, CKR_SESSION_HANDLE_INVALID, [])
      | (s1, Some x) \<Rightarrow>
          if \<not> find_active x then (s1, CKR_OPERATION_NOT_INITIALIZED, [])
          else
            let results = (case find_results x of None \<Rightarrow> [] | Some rs \<Rightarrow> rs);
                out = take max_count (drop (find_position x) results)
            in (put_session session_handle (x\<lparr>find_position := find_position x + length out\<rparr>) s1,
                CKR_OK, out))"

definition C_FindObjectsFinal :: "portal_env \<Rightarrow> ck_ulong \<Rightarrow> module_state \<Rightarrow> module_state \<times> ck_rv" where
  "C_FindObjectsFinal e session_handle s =
     (if \<not> module_initialized s then (s, CKR_CRYPTOKI_NOT_INITIALIZED)
      else case session_lookup e s session_handle of
        (s1, None) \<Rightarrow> (s1, CKR_SESSION_HANDLE_INVALID)
      | (s1, Some x) \<Rightarrow>
          if \<not> find_active x then (s1, CKR_OPERATION_NOT_INITIALIZED)
          else (put_session session_handle
                  (x\<lparr>find_active := False, find_position := 0, find_results := None\<rparr>) s1, CKR_OK))"

text \<open>The template is both input and output.\<close>

definition C_GetAttributeValue ::
  "portal_env \<Rightarrow> ck_ulong \<Rightarrow> ck_ulong \<Rightarrow> ck_attribute list option \<Rightarrow> nat \<Rightarrow> module_state
    \<Rightarrow> module_state \<times> ck_rv \<times> ck_attribute list option" where
  "C_GetAttributeValue e session_handle object_handle templ count s =
     (if \<not> module_initialized s then (s, CKR_CRYPTOKI_NOT_INITIALIZED, templ)
      else if templ = None \<and> count > 0 then (s, CKR_ARGUMENTS_BAD, templ)
      else case session_lookup e s session_handle of
        (s1, None) \<Rightarrow> (s1, CKR_SESSION_HANDLE_INVALID, templ)
      | (s1, Some _) \<Rightarrow>
          (case portal_objects_lookup (module_objects s1) object_handle of
             None \<Rightarrow> (s1, CKR_OBJECT_HANDLE_INVALID, templ)
           | Some obj \<Rightarrow>
               (case portal_object_get_attributes obj templ count of
                  (templ', rv) \<Rightarrow> (s1, rv, templ'))))"

section \<open>The invariant\<close>

lemma session_ok_granted: "session_ok False h x \<Longrightarrow> session_ok g h x"
  by (auto simp: session_ok_def)

lemma sessions_ok_granted: "sessions_ok False xs \<Longrightarrow> sessions_ok g xs"
  unfolding sessions_ok_def using session_ok_granted by fast

lemma module_invD:
  assumes "module_inv s"
  shows "module_initialized s \<longleftrightarrow> module_sessions s \<noteq> None"
    and "module_initialized s \<longleftrightarrow> module_issued_ids s \<noteq> None"
    and "module_grant s = None \<longleftrightarrow> module_objects s = None"
    and "module_grant s \<noteq> None \<Longrightarrow> module_initialized s"
    and "module_client s \<noteq> None \<Longrightarrow> module_initialized s"
  using assms by (auto simp: module_inv_def)

lemma find_update_ok [simp]:
  "sign_ok (x\<lparr>find_active := a\<rparr>) = sign_ok x" "decrypt_ok (x\<lparr>find_active := a\<rparr>) = decrypt_ok x"
  "sign_ok (x\<lparr>find_results := rs\<rparr>) = sign_ok x" "decrypt_ok (x\<lparr>find_results := rs\<rparr>) = decrypt_ok x"
  "sign_ok (x\<lparr>find_position := k\<rparr>) = sign_ok x" "decrypt_ok (x\<lparr>find_position := k\<rparr>) = decrypt_ok x"
  by (simp_all add: sign_ok_def decrypt_ok_def)

lemma portal_client_release_inv [simp]: "module_inv (portal_client_release c g s) = module_inv s"
  by (simp add: portal_client_release_def)

lemma portal_client_release_fields [simp]:
  "module_grant (portal_client_release c g s) = module_grant s"
  "module_objects (portal_client_release c g s) = module_objects s"
  "module_sessions (portal_client_release c g s) = module_sessions s"
  "module_acquiring (portal_client_release c g s) = module_acquiring s"
  "module_client (portal_client_release c g s) = module_client s"
  "module_generation (portal_client_release c g s) = module_generation s"
  "module_refusal_time (portal_client_release c g s) = module_refusal_time s"
  by (simp_all add: portal_client_release_def)

lemma portal_client_release_lifecycle [simp]: "same_lifecycle s (portal_client_release c g s)"
  by (simp add: same_lifecycle_def portal_client_release_def)

lemma session_lookup_Some_fields:
  "session_lookup e s h = (t, Some x) \<Longrightarrow>
    module_sessions t \<noteq> None \<and> map_of (the (module_sessions t)) h = Some x"
  by (auto simp: session_lookup_def Let_def get_session_def split: if_splits option.splits)

lemma session_revalidate_ok:
  assumes "module_inv s" and "session_revalidate e s h l n = (t, Some x)"
  shows "get_session t h = Some x" and "session_ok (module_grant t \<noteq> None) h x" and "module_initialized t"
    and "ps_serial x = n" and "module_lifecycle s = l" and "\<not> module_finalizing s"
    and "module_grant t \<noteq> None \<Longrightarrow> t = s"
  using session_lookup_ok [OF assms(1)] session_revalidate_Some [OF assms(2)] by blast+

lemma ensure_grant_begin_inv:
  assumes "module_inv s" and "ensure_grant_begin e templ count h l n s = (t, r)"
  shows "module_inv t"
proof -
  have g: "grant_still_good e a = (b, c) \<Longrightarrow> module_inv a \<Longrightarrow> module_inv b" for a b c
    using grant_still_good_inv [of a e] by simp
  from assms show ?thesis
    unfolding ensure_grant_begin_def
    by (auto split: if_splits prod.splits option.splits bool.splits
        dest!: session_revalidate_inv [rotated] g)
qed

lemma ensure_grant_install_inv:
  assumes inv: "module_inv s" and "module_initialized s" and "module_grant s = None"
    and "ensure_grant_install e grant s = (t, r)"
  shows "module_inv t"
proof (cases "portal_objects_new (e_x509 e) grant (module_generation s + 1)")
  case (Inl a)
  have "module_inv (release_grant e (s\<lparr>module_grant := Some grant, module_generation := k\<rparr>))" for k
    using inv release_grant_lifecycle [of "s\<lparr>module_grant := Some grant, module_generation := k\<rparr>" e]
    by (auto simp: module_inv_def same_lifecycle_def sessions_ok_reset split: option.splits)
  with assms(4) Inl show ?thesis by (auto simp: ensure_grant_install_def Let_def)
next
  case (Inr os)
  with assms show ?thesis
    by (auto simp: ensure_grant_install_def Let_def module_inv_def sessions_ok_granted split: option.splits)
qed

lemma ensure_grant_acquired_inv:
  assumes "module_inv s" and "ensure_grant_acquired e result client generation h l n s = (t, r)"
  shows "module_inv t"
proof (cases "\<exists>grant. result = Inr grant \<and> module_client s = client \<and> module_generation s = generation")
  case False
  with assms show ?thesis
    by (auto simp: ensure_grant_acquired_def Let_def split: sum.splits if_splits)
next
  case True
  then obtain grant where r: "result = Inr grant" "module_client s = client" "module_generation s = generation"
    by blast
  obtain s1 x where v: "session_revalidate e (s\<lparr>module_acquiring := False\<rparr>) h l n = (s1, x)"
    by fastforce
  with assms(1) have "module_inv s1" using session_revalidate_inv [OF _ v] by simp
  moreover from assms(1) v have "x \<noteq> None \<Longrightarrow> module_initialized s1"
    by (auto dest: session_revalidate_ok(3) [rotated])
  moreover have "module_inv (fst (grant_still_good e (portal_client_release client grant s1)))"
    by (rule grant_still_good_inv) (simp add: \<open>module_inv s1\<close>)
  ultimately show ?thesis
    using assms r v
    by (auto simp: ensure_grant_acquired_def Let_def split: if_splits option.splits
        intro: ensure_grant_install_inv)
qed

lemma find_init_finish_inv:
  assumes "module_inv s" and "find_init_finish e c acquired s = (t, rv)"
  shows "module_inv t"
proof (cases "session_revalidate e s (fc_handle c) (fc_lifecycle c) (fc_serial c)")
  case (Pair s1 x)
  with assms have inv: "module_inv s1" by (blast intro: session_revalidate_inv)
  show ?thesis
  proof (cases x)
    case (Some y)
    from session_revalidate_ok [OF assms(1) Pair [unfolded Some]]
    have "session_ok (module_grant s1 \<noteq> None) (fc_handle c) y" by blast
    then have "session_ok (module_grant s1 \<noteq> None) (fc_handle c)
        (y\<lparr>find_results := Some rs, find_position := 0, find_active := True\<rparr>)" for rs
      by (simp add: session_ok_def find_ok_def)
    with inv assms(2) Pair Some show ?thesis
      by (auto simp: find_init_finish_def put_session_inv split: if_splits)
  qed (use inv assms(2) Pair in \<open>auto simp: find_init_finish_def\<close>)
qed

lemma find_init_check_inv: "module_inv s \<Longrightarrow> find_init_check e h templ count s = (t, r) \<Longrightarrow> module_inv t"
  by (auto simp: find_init_check_def split: if_splits prod.splits option.splits dest: session_lookup_inv)

lemma find_init_ensure_inv: "module_inv s \<Longrightarrow> find_init_ensure e c s = (t, r) \<Longrightarrow> module_inv t"
  by (auto simp: find_init_ensure_def apsnd_def map_prod_def
      split: prod.splits ensure_outcome.splits dest!: ensure_grant_begin_inv [rotated] find_init_finish_inv [rotated])

lemma C_FindObjectsInit_inv: "module_inv s \<Longrightarrow> C_FindObjectsInit e h templ count s = (t, r) \<Longrightarrow> module_inv t"
  by (auto simp: C_FindObjectsInit_def split: prod.splits sum.splits
      dest: find_init_check_inv find_init_ensure_inv)

lemma C_FindObjectsInit_acquired_inv:
  "module_inv s \<Longrightarrow> C_FindObjectsInit_acquired e c result client generation s = (t, rv) \<Longrightarrow> module_inv t"
  by (auto simp: C_FindObjectsInit_acquired_def split: prod.splits
      dest: ensure_grant_acquired_inv find_init_finish_inv)

lemma session_put_inv:
  assumes "module_inv s" and "session_lookup e s h = (t, Some x)"
    and "\<And>g. session_ok g h x \<Longrightarrow> session_ok g h y"
  shows "module_inv (put_session h y t)"
  using session_lookup_ok(2) [OF assms(1,2)] session_lookup_inv [OF assms(1,2)] assms(3)
  by (blast intro: put_session_inv)

lemma C_FindObjects_inv: "module_inv s \<Longrightarrow> module_inv (fst (C_FindObjects e h b m c s))"
  unfolding C_FindObjects_def Let_def
  by (auto simp: session_ok_def find_ok_def intro!: session_put_inv
      split: prod.splits option.splits dest: session_lookup_inv)

lemma C_FindObjectsFinal_inv: "module_inv s \<Longrightarrow> module_inv (fst (C_FindObjectsFinal e h s))"
  unfolding C_FindObjectsFinal_def
  by (auto simp: session_ok_def find_ok_def intro!: session_put_inv
      split: prod.splits option.splits dest: session_lookup_inv)

lemma C_GetAttributeValue_inv: "module_inv s \<Longrightarrow> module_inv (fst (C_GetAttributeValue e h ob templ count s))"
  by (auto simp: C_GetAttributeValue_def split: prod.splits option.splits dest: session_lookup_inv)

end
