(* ===== verification/ModuleSign.thy ===== *)
theory ModuleSign
  imports ModuleFind
begin

text \<open>
  Signing and decryption (\<open>src/module/module.c\<close>): \<open>C_SignInit\<close> chooses how the input is
  collected (a running GnuTLS hash, or a buffer of at most \<open>PRE_HASHED_LIMIT\<close> bytes for input
  that is hashed already), \<open>C_Sign\<close>, \<open>C_SignUpdate\<close> and \<open>C_SignFinal\<close> feed it and end it, and
  \<open>C_DecryptInit\<close> and \<open>C_Decrypt\<close> do OAEP.  The signature itself is \<open>e_sign\<close> of the environment.
\<close>

section \<open>Mechanism parameters\<close>

text \<open>
  The memory behind \<open>pParameter\<close>: \<open>CK_RSA_PKCS_PSS_PARAMS\<close> is three \<open>CK_ULONG\<close> words, the hash,
  the mask generator and the salt length; \<open>CK_RSA_PKCS_OAEP_PARAMS\<close> has the source type in the
  place of the salt length and goes on with the source data.
\<close>

record ck_parameter =
  cp_hashAlg :: ck_ulong
  cp_mgf :: ck_ulong
  cp_sLen_or_source :: ck_ulong
  cp_pSourceData :: "bytes option"
  cp_ulSourceDataLen :: ck_ulong

record ck_mechanism =
  cm_mechanism :: ck_ulong
  cm_pParameter :: "ck_parameter option"
  cm_ulParameterLen :: ck_ulong

abbreviation PSS_PARAMS_SIZE :: ck_ulong where "PSS_PARAMS_SIZE \<equiv> 24"
abbreviation OAEP_PARAMS_SIZE :: ck_ulong where "OAEP_PARAMS_SIZE \<equiv> 40"
abbreviation PKCS11_PORTAL_REASON_MAX :: ck_ulong where "PKCS11_PORTAL_REASON_MAX \<equiv> 256"
abbreviation TLS10_MD5_SHA1_LENGTH :: nat where "TLS10_MD5_SHA1_LENGTH \<equiv> 36"

section \<open>Setting up a signature\<close>

definition signature_length :: "module_state \<Rightarrow> nat" where
  "signature_length s =
     (case module_grant s of
        None \<Rightarrow> 0
      | Some g \<Rightarrow>
          if g_key_size g = 0 then 0
          else if g_key_type g = Some ''EC'' then unat (2 * ((g_key_size g + 7) div 8))
          else unat ((g_key_size g + 7) div 8))"

text \<open>The PSS parameters the module accepts: hash, generator name and salt length.\<close>

definition pss_parameters :: "portal_mechanism \<Rightarrow> ck_mechanism \<Rightarrow> (string \<times> string option \<times> guint) option" where
  "pss_parameters entry mechanism = do {
     p \<leftarrow> cm_pParameter mechanism;
     require (cm_ulParameterLen mechanism = PSS_PARAMS_SIZE);
     hash \<leftarrow> portal_hash_from_ck_digest (cp_hashAlg p);
     require (pm_hash entry = None \<or> pm_hash entry = Some hash);
     mgf_hash \<leftarrow> portal_mgf_hash (cp_mgf p);
     require (mgf_hash = hash);
     require (cp_sLen_or_source p = ucast (ucast (cp_sLen_or_source p) :: guint));
     Some (hash, portal_mgf_name (cp_mgf p), ucast (cp_sLen_or_source p))
   }"

text \<open>The session, as far as \<open>sign_setup\<close> got, and the result.\<close>

definition sign_setup ::
  "portal_env \<Rightarrow> portal_grant \<Rightarrow> portal_session \<Rightarrow> ck_mechanism \<Rightarrow> portal_session \<times> ck_rv" where
  "sign_setup e grant x mechanism =
     (case portal_mechanism_lookup (cm_mechanism mechanism) of
        None \<Rightarrow> (x, CKR_MECHANISM_INVALID)
      | Some entry \<Rightarrow>
        if \<not> pm_can_sign entry then (x, CKR_MECHANISM_INVALID)
        else if \<not> portal_mechanism_available (Some entry) (g_supported_mechanisms grant)
        then (x, CKR_MECHANISM_INVALID)
        else if (pm_portal_mechanism entry = ECDSA) \<noteq> (g_key_type grant = Some ''EC'')
        then (x, CKR_KEY_TYPE_INCONSISTENT)
        else
          let x1 = x\<lparr>sign_hash := pm_hash entry, sign_mgf := None, sign_have_salt := False\<rparr>;
              x2 = (if pm_pss entry then
                      map_option (\<lambda>(hash, mgf, salt). x1\<lparr>sign_hash := Some hash, sign_mgf := mgf,
                          sign_have_salt := True, sign_salt := salt\<rparr>) (pss_parameters entry mechanism)
                    else if cm_pParameter mechanism \<noteq> None \<or> cm_ulParameterLen mechanism \<noteq> 0 then None
                    else Some x1)
          in (case x2 of
               None \<Rightarrow> (x1, CKR_MECHANISM_PARAM_INVALID)
             | Some y \<Rightarrow>
                 if pm_hash_locally entry then
                   (let digest = portal_hash_gnutls (pm_hash entry)
                    in if \<not> gh_init (e_gnutls e) digest then (y, CKR_FUNCTION_FAILED)
                       else (y\<lparr>sign_digest := Some (digest, []), sign_mechanism := Some entry,
                               sign_active := True\<rparr>, CKR_OK))
                 else (y\<lparr>sign_buffer := Some [], sign_mechanism := Some entry, sign_active := True\<rparr>,
                       CKR_OK)))"

text \<open>
  Data with a length: the bytes read are the first \<open>sz\<close>.  The hash state is the algorithm and
  the bytes hashed so far.  A session without a hash has a buffer (\<open>sign_ok\<close>).
\<close>

definition sign_feed :: "portal_env \<Rightarrow> portal_session \<Rightarrow> bytes option \<Rightarrow> nat \<Rightarrow> portal_session \<times> ck_rv" where
  "sign_feed e x data sz =
     (if sz = 0 then (x, CKR_OK)
      else case data of
        None \<Rightarrow> (x, CKR_ARGUMENTS_BAD)
      | Some d \<Rightarrow>
        (case sign_digest x of
           Some (digest, fed) \<Rightarrow>
             if \<not> gh_update (e_gnutls e) digest fed (take sz d) then (x, CKR_FUNCTION_FAILED)
             else (x\<lparr>sign_digest := Some (digest, fed @ take sz d)\<rparr>, CKR_OK)
         | None \<Rightarrow>
             let buffer = (case sign_buffer x of None \<Rightarrow> [] | Some b \<Rightarrow> b)
             in if length buffer > PRE_HASHED_LIMIT \<or> sz > PRE_HASHED_LIMIT - length buffer
                then (x, CKR_DATA_LEN_RANGE)
                else (x\<lparr>sign_buffer := Some (buffer @ take sz d)\<rparr>, CKR_OK)))"

section \<open>Performing a signature\<close>

text \<open>What is sent to the portal: the hash name and the digest.\<close>

definition sign_input :: "portal_env \<Rightarrow> portal_mechanism \<Rightarrow> portal_session \<Rightarrow> ck_rv + (string option \<times> bytes)" where
  "sign_input e entry x =
     (let buffer = (case sign_buffer x of None \<Rightarrow> [] | Some b \<Rightarrow> b)
      in if pm_hash_locally entry then
           (case sign_digest x of
              None \<Rightarrow> Inl CKR_FUNCTION_FAILED
            | Some (digest, fed) \<Rightarrow>
                Inr (sign_hash x, take (portal_hash_length (pm_hash entry)) (gh_output (e_gnutls e) digest fed)))
         else if pm_digest_info entry then
           (case portal_digestinfo_parse buffer of
              None \<Rightarrow> Inl (if length buffer = TLS10_MD5_SHA1_LENGTH then CKR_MECHANISM_INVALID
                          else CKR_DATA_INVALID)
            | Some (hash, digest) \<Rightarrow> Inr (Some hash, digest))
         else if pm_infer_hash entry then
           (case portal_hash_for_length (length buffer) of
              None \<Rightarrow> Inl CKR_DATA_LEN_RANGE
            | Some hash \<Rightarrow> Inr (Some hash, buffer))
         else if length buffer \<noteq> portal_hash_length (sign_hash x) then Inl CKR_DATA_LEN_RANGE
         else Inr (sign_hash x, buffer))"

definition sign_perform :: "portal_env \<Rightarrow> portal_grant \<Rightarrow> portal_session \<Rightarrow> ck_rv + bytes" where
  "sign_perform e grant x =
     (case sign_mechanism x of
        None \<Rightarrow> Inl CKR_FUNCTION_FAILED
      | Some entry \<Rightarrow>
        (case sign_input e entry x of
           Inl rv \<Rightarrow> Inl rv
         | Inr (hash, data) \<Rightarrow>
           (case e_sign e grant (pm_portal_mechanism entry) hash (sign_mgf x) (sign_have_salt x)
                   (sign_salt x) data of
              Inl error \<Rightarrow> Inl (portal_error_to_rv error)
            | Inr signature \<Rightarrow> Inr signature)))"

text \<open>
  An output buffer protocol: the session afterwards, the return value, the new \<open>*out_len\<close> and
  the bytes written.  \<open>out\<close> says whether there is a buffer, \<open>out_len\<close> is the size it claims.
\<close>

type_synonym out_result = "ck_rv \<times> nat option \<times> bytes option"

definition sign_finish ::
  "portal_env \<Rightarrow> module_state \<Rightarrow> portal_session \<Rightarrow> bool \<Rightarrow> nat \<Rightarrow> portal_session \<times> out_result" where
  "sign_finish e s x out out_len =
     (let expected = signature_length s
      in if \<not> out then (x, CKR_OK, Some expected, None)
         else if out_len < expected then (x, CKR_BUFFER_TOO_SMALL, Some expected, None)
         else case module_grant s of
           None \<Rightarrow> (session_reset_sign x, CKR_FUNCTION_FAILED, Some out_len, None)
         | Some grant \<Rightarrow>
           (case sign_perform e grant x of
              Inl rv \<Rightarrow> (session_reset_sign x, rv, Some out_len, None)
            | Inr signature \<Rightarrow>
                if length signature > out_len
                then (session_reset_sign x, CKR_FUNCTION_FAILED, Some out_len, None)
                else (session_reset_sign x, CKR_OK, Some (length signature), Some signature)))"

section \<open>The entry points for signatures\<close>

definition private_key_object :: "module_state \<Rightarrow> ck_ulong \<Rightarrow> bool" where
  "private_key_object s key =
     (case portal_objects_lookup (module_objects s) key of
        None \<Rightarrow> False
      | Some obj \<Rightarrow> ob_class obj = CKO_PRIVATE_KEY)"

definition C_SignInit ::
  "portal_env \<Rightarrow> ck_ulong \<Rightarrow> ck_mechanism option \<Rightarrow> ck_ulong \<Rightarrow> module_state \<Rightarrow> module_state \<times> ck_rv" where
  "C_SignInit e session_handle mechanism key s =
     (if \<not> module_initialized s then (s, CKR_CRYPTOKI_NOT_INITIALIZED)
      else case mechanism of
        None \<Rightarrow> (s, CKR_ARGUMENTS_BAD)
      | Some m \<Rightarrow>
        (case session_lookup e s session_handle of
           (s1, None) \<Rightarrow> (s1, CKR_SESSION_HANDLE_INVALID)
         | (s1, Some x) \<Rightarrow>
           if sign_active x then (s1, CKR_OPERATION_ACTIVE)
           else (case module_grant s1 of
             None \<Rightarrow> (s1, CKR_KEY_HANDLE_INVALID)
           | Some grant \<Rightarrow>
             if \<not> private_key_object s1 key then (s1, CKR_KEY_HANDLE_INVALID)
             else if \<not> g_may_sign grant then (s1, CKR_KEY_FUNCTION_NOT_PERMITTED)
             else case sign_setup e grant x m of
               (y, rv) \<Rightarrow>
                 (put_session session_handle (if rv \<noteq> CKR_OK then session_reset_sign y else y) s1, rv))))"

definition C_Sign ::
  "portal_env \<Rightarrow> ck_ulong \<Rightarrow> bytes option \<Rightarrow> nat \<Rightarrow> bool \<Rightarrow> nat option \<Rightarrow> module_state
    \<Rightarrow> module_state \<times> out_result" where
  "C_Sign e session_handle data data_len signature signature_len s =
     (if \<not> module_initialized s then (s, CKR_CRYPTOKI_NOT_INITIALIZED, signature_len, None)
      else case signature_len of
        None \<Rightarrow> (s, CKR_ARGUMENTS_BAD, None, None)
      | Some out_len \<Rightarrow>
        (case operation_session_lookup e s session_handle of
           (s1, Inl rv) \<Rightarrow> (s1, rv, signature_len, None)
         | (s1, Inr x) \<Rightarrow>
           if \<not> sign_active x then (s1, CKR_OPERATION_NOT_INITIALIZED, signature_len, None)
           else if \<not> signature then (s1, CKR_OK, Some (signature_length s1), None)
           else if out_len < signature_length s1
           then (s1, CKR_BUFFER_TOO_SMALL, Some (signature_length s1), None)
           else case sign_feed e x data data_len of
             (y, rv) \<Rightarrow>
               if rv \<noteq> CKR_OK
               then (put_session session_handle (session_reset_sign y) s1, rv, signature_len, None)
               else case sign_finish e s1 y signature out_len of
                 (z, result) \<Rightarrow> (put_session session_handle z s1, result)))"

definition C_SignUpdate ::
  "portal_env \<Rightarrow> ck_ulong \<Rightarrow> bytes option \<Rightarrow> nat \<Rightarrow> module_state \<Rightarrow> module_state \<times> ck_rv" where
  "C_SignUpdate e session_handle part part_len s =
     (if \<not> module_initialized s then (s, CKR_CRYPTOKI_NOT_INITIALIZED)
      else case operation_session_lookup e s session_handle of
        (s1, Inl rv) \<Rightarrow> (s1, rv)
      | (s1, Inr x) \<Rightarrow>
          if \<not> sign_active x then (s1, CKR_OPERATION_NOT_INITIALIZED)
          else case sign_feed e x part part_len of
            (y, rv) \<Rightarrow>
              (put_session session_handle (if rv \<noteq> CKR_OK then session_reset_sign y else y) s1, rv))"

definition C_SignFinal ::
  "portal_env \<Rightarrow> ck_ulong \<Rightarrow> bool \<Rightarrow> nat option \<Rightarrow> module_state \<Rightarrow> module_state \<times> out_result" where
  "C_SignFinal e session_handle signature signature_len s =
     (if \<not> module_initialized s then (s, CKR_CRYPTOKI_NOT_INITIALIZED, signature_len, None)
      else case signature_len of
        None \<Rightarrow> (s, CKR_ARGUMENTS_BAD, None, None)
      | Some out_len \<Rightarrow>
        (case operation_session_lookup e s session_handle of
           (s1, Inl rv) \<Rightarrow> (s1, rv, signature_len, None)
         | (s1, Inr x) \<Rightarrow>
           if \<not> sign_active x then (s1, CKR_OPERATION_NOT_INITIALIZED, signature_len, None)
           else case sign_finish e s1 x signature out_len of
             (z, result) \<Rightarrow> (put_session session_handle z s1, result)))"

section \<open>Decryption\<close>

text \<open>The OAEP parameters the module accepts: the hash and the label.\<close>

definition oaep_parameters :: "ck_mechanism \<Rightarrow> (string \<times> bytes option) option" where
  "oaep_parameters mechanism = do {
     p \<leftarrow> cm_pParameter mechanism;
     require (cm_ulParameterLen mechanism = OAEP_PARAMS_SIZE);
     hash \<leftarrow> portal_hash_from_ck_digest (cp_hashAlg p);
     mgf_hash \<leftarrow> portal_mgf_hash (cp_mgf p);
     require (hash = mgf_hash);
     require (cp_ulSourceDataLen p > 0 \<longrightarrow> cp_sLen_or_source p = CKZ_DATA_SPECIFIED \<and>
       cp_pSourceData p \<noteq> None \<and> cp_ulSourceDataLen p \<le> PKCS11_PORTAL_REASON_MAX);
     Some (hash, if cp_ulSourceDataLen p > 0
       then map_option (take (unat (cp_ulSourceDataLen p))) (cp_pSourceData p) else None)
   }"

definition C_DecryptInit ::
  "portal_env \<Rightarrow> ck_ulong \<Rightarrow> ck_mechanism option \<Rightarrow> ck_ulong \<Rightarrow> module_state \<Rightarrow> module_state \<times> ck_rv" where
  "C_DecryptInit e session_handle mechanism key s =
     (if \<not> module_initialized s then (s, CKR_CRYPTOKI_NOT_INITIALIZED)
      else case mechanism of
        None \<Rightarrow> (s, CKR_ARGUMENTS_BAD)
      | Some m \<Rightarrow>
        if cm_mechanism m \<noteq> CKM_RSA_PKCS_OAEP then (s, CKR_MECHANISM_INVALID)
        else (case session_lookup e s session_handle of
          (s1, None) \<Rightarrow> (s1, CKR_SESSION_HANDLE_INVALID)
        | (s1, Some x) \<Rightarrow>
          if decrypt_active x then (s1, CKR_OPERATION_ACTIVE)
          else (case module_grant s1 of
            None \<Rightarrow> (s1, CKR_KEY_HANDLE_INVALID)
          | Some grant \<Rightarrow>
            if \<not> private_key_object s1 key then (s1, CKR_KEY_HANDLE_INVALID)
            else if \<not> g_may_decrypt grant then (s1, CKR_KEY_FUNCTION_NOT_PERMITTED)
            else if \<not> portal_mechanism_available (portal_mechanism_lookup CKM_RSA_PKCS_OAEP)
                        (g_supported_mechanisms grant) then (s1, CKR_MECHANISM_INVALID)
            else (case oaep_parameters m of
              None \<Rightarrow> (s1, CKR_MECHANISM_PARAM_INVALID)
            | Some (hash, label) \<Rightarrow>
                (put_session session_handle
                   (x\<lparr>decrypt_label := (if label = None then decrypt_label x else label),
                      decrypt_hash := Some hash, decrypt_mgf1_hash := Some hash,
                      decrypt_active := True\<rparr>) s1, CKR_OK)))))"

definition C_Decrypt ::
  "portal_env \<Rightarrow> ck_ulong \<Rightarrow> bytes option \<Rightarrow> nat \<Rightarrow> bool \<Rightarrow> nat option \<Rightarrow> module_state
    \<Rightarrow> module_state \<times> out_result" where
  "C_Decrypt e session_handle ciphertext ciphertext_len plaintext plaintext_len s =
     (if \<not> module_initialized s then (s, CKR_CRYPTOKI_NOT_INITIALIZED, plaintext_len, None)
      else case plaintext_len of
        None \<Rightarrow> (s, CKR_ARGUMENTS_BAD, None, None)
      | Some out_len \<Rightarrow>
        (case operation_session_lookup e s session_handle of
           (s1, Inl rv) \<Rightarrow> (s1, rv, plaintext_len, None)
         | (s1, Inr x) \<Rightarrow>
           if \<not> decrypt_active x then (s1, CKR_OPERATION_NOT_INITIALIZED, plaintext_len, None)
           else if \<not> plaintext then (s1, CKR_OK, Some (signature_length s1), None)
           else (case (ciphertext, module_grant s1) of
             (Some c, Some grant) \<Rightarrow>
             (case e_decrypt e grant (decrypt_hash x) (decrypt_mgf1_hash x) (decrypt_label x)
                     (take ciphertext_len c) of
                Inl error \<Rightarrow>
                  (put_session session_handle (session_reset_decrypt x) s1, portal_error_to_rv error,
                   plaintext_len, None)
              | Inr result \<Rightarrow>
                  if length result > out_len
                  then (s1, CKR_BUFFER_TOO_SMALL, Some (length result), None)
                  else (put_session session_handle (session_reset_decrypt x) s1, CKR_OK,
                        Some (length result), Some result))
           | _ \<Rightarrow> (put_session session_handle (session_reset_decrypt x) s1, CKR_ARGUMENTS_BAD,
                   plaintext_len, None))))"

section \<open>The invariant\<close>

text \<open>Everything of a session but the signature.\<close>

definition sign_frame :: "portal_session \<Rightarrow> portal_session \<Rightarrow> bool" where
  "sign_frame x y \<longleftrightarrow> ps_handle y = ps_handle x \<and> ps_serial y = ps_serial x \<and> ps_flags y = ps_flags x \<and>
     find_active y = find_active x \<and> find_results y = find_results x \<and>
     find_position y = find_position x \<and> decrypt_active y = decrypt_active x \<and>
     decrypt_hash y = decrypt_hash x \<and> decrypt_mgf1_hash y = decrypt_mgf1_hash x \<and>
     decrypt_label y = decrypt_label x"

lemma sign_frame_refl [simp]: "sign_frame x x"
  by (simp add: sign_frame_def)

lemma sign_frame_reset: "sign_frame x y \<Longrightarrow> sign_frame x (session_reset_sign y)"
  by (simp add: sign_frame_def session_reset_sign_def)

lemma sign_frame_trans: "sign_frame x y \<Longrightarrow> sign_frame y z \<Longrightarrow> sign_frame x z"
  by (simp add: sign_frame_def)

lemma sign_frame_ok:
  "sign_frame x y \<Longrightarrow> session_ok g h x \<Longrightarrow> sign_ok y \<Longrightarrow> (sign_active y \<Longrightarrow> g) \<Longrightarrow> session_ok g h y"
  by (auto simp: sign_frame_def session_ok_def decrypt_ok_def find_ok_def)

lemma hash_from_ck_digest_entry: "portal_hash_from_ck_digest d = Some hash \<Longrightarrow> hash_entry (Some hash) \<noteq> None"
  by (auto simp: portal_hash_from_ck_digest_def ht_ck.second.find_iff hash_entry_def ht.find_entry)

lemma portal_mgf_name_Some: "portal_mgf_hash mgf = Some h \<Longrightarrow> \<exists>n. portal_mgf_name mgf = Some n"
  by (auto simp: portal_mgf_name_def portal_mgf_hash_def hash_table_def mgf_names_def split: if_splits)

lemma pss_parameters_hash:
  "pss_parameters entry m = Some (hash, mgf, salt) \<Longrightarrow>
    hash_entry (Some hash) \<noteq> None \<and> (pm_hash entry \<noteq> None \<longrightarrow> pm_hash entry = Some hash) \<and>
    mgf \<noteq> None"
  by (auto simp: pss_parameters_def split: Option.bind_splits if_splits
      dest!: hash_from_ck_digest_entry portal_mgf_name_Some)

lemma sign_setup_frame: "sign_setup e grant x m = (y, rv) \<Longrightarrow> sign_frame x y"
  by (auto simp: sign_setup_def sign_frame_def Let_def split: option.splits if_splits)

lemma sign_setup_ok:
  assumes "sign_setup e grant x m = (y, CKR_OK)" and "\<not> sign_active x" and "sign_ok x"
  shows "sign_ok y" and "sign_active y"
    and "\<exists>entry. sign_mechanism y = Some entry \<and> portal_mechanism_lookup (cm_mechanism m) = Some entry \<and>
      portal_mechanism_available (Some entry) (g_supported_mechanisms grant) \<and>
      (pm_portal_mechanism entry = ECDSA \<longleftrightarrow> g_key_type grant = Some ''EC'')"
proof -
  from assms(1) obtain entry where l: "portal_mechanism_lookup (cm_mechanism m) = Some entry"
    and r: "pm_can_sign entry" "sign_mechanism y = Some entry" "sign_active y"
      "portal_mechanism_available (Some entry) (g_supported_mechanisms grant)"
      "pm_portal_mechanism entry = ECDSA \<longleftrightarrow> g_key_type grant = Some ''EC''"
    by (auto simp: sign_setup_def Let_def split: option.splits if_splits)
  then show "sign_active y"
    and "\<exists>entry. sign_mechanism y = Some entry \<and> portal_mechanism_lookup (cm_mechanism m) = Some entry \<and>
      portal_mechanism_available (Some entry) (g_supported_mechanisms grant) \<and>
      (pm_portal_mechanism entry = ECDSA \<longleftrightarrow> g_key_type grant = Some ''EC'')"
    by auto
  from l have "entry \<in> set mechanism_table" by (simp add: portal_mechanism_lookup_iff)
  with assms l r show "sign_ok y"
    by (auto simp: sign_setup_def sign_ok_def Let_def dest!: pss_parameters_hash split: option.splits if_splits)
qed

lemma sign_ok_digest:
  assumes "sign_ok x" and "sign_digest x = Some (d, a)"
  shows "sign_ok (x\<lparr>sign_digest := Some (d, b)\<rparr>)"
proof -
  from assms have "sign_active x" by (auto simp: sign_ok_def split: if_splits)
  with assms obtain m where "sign_mechanism x = Some m" "pm_hash_locally m"
    unfolding sign_ok_def by (metis option.distinct(1))
  with assms \<open>sign_active x\<close> show ?thesis by (simp add: sign_ok_def)
qed

lemma sign_ok_buffer:
  assumes "sign_ok x" and "sign_active x" and "sign_digest x = None" and "length b \<le> PRE_HASHED_LIMIT"
  shows "sign_ok (x\<lparr>sign_buffer := Some b\<rparr>)"
proof -
  from assms obtain m where "sign_mechanism x = Some m" "\<not> pm_hash_locally m"
    unfolding sign_ok_def by (metis option.distinct(1))
  with assms show ?thesis by (simp add: sign_ok_def)
qed

lemma sign_feed_frame: "sign_feed e x data sz = (y, rv) \<Longrightarrow> sign_frame x y"
  by (auto simp: sign_feed_def sign_frame_def Let_def split: option.splits if_splits)

lemma sign_feed_ok:
  assumes "sign_feed e x data sz = (y, rv)" and "sign_ok x" and "sign_active x"
  shows "sign_ok y" and "sign_active y" and "sign_mechanism y = sign_mechanism x"
    and "sign_hash y = sign_hash x" and "sign_mgf y = sign_mgf x"
    and "sign_have_salt y = sign_have_salt x" and "sign_salt y = sign_salt x"
proof -
  show a: "sign_active y" "sign_mechanism y = sign_mechanism x"
    "sign_hash y = sign_hash x" "sign_mgf y = sign_mgf x"
    "sign_have_salt y = sign_have_salt x" "sign_salt y = sign_salt x"
    using assms by (auto simp: sign_feed_def Let_def split: option.splits if_splits)
  show "sign_ok y"
    using assms by (auto simp: sign_feed_def Let_def sign_ok_digest sign_ok_buffer
        split: option.splits if_splits)
qed

lemma sign_finish_frame: "sign_finish e s x out out_len = (y, r) \<Longrightarrow> sign_frame x y"
  by (auto simp: sign_finish_def Let_def sign_frame_reset split: option.splits if_splits sum.splits)

lemma sign_finish_ok:
  "sign_finish e s x out out_len = (y, r) \<Longrightarrow> y = x \<or> y = session_reset_sign x"
  by (auto simp: sign_finish_def Let_def split: option.splits if_splits sum.splits)

lemma operation_lookup_ok:
  assumes "module_inv s" and "operation_session_lookup e s h = (t, Inr x)"
  shows "module_inv t" and "session_ok (module_grant t \<noteq> None) h x" and "sign_ok x" and "decrypt_ok x"
    and "sign_active x \<or> decrypt_active x \<Longrightarrow> module_grant t \<noteq> None \<and> t = s"
proof -
  from assms(2) have l: "session_lookup e s h = (t, Some x)" by (rule operation_session_lookup_Inr)
  from session_lookup_inv [OF assms(1) l] show "module_inv t" .
  from session_lookup_ok [OF assms(1) l] show o: "session_ok (module_grant t \<noteq> None) h x" by blast
  then show "sign_ok x" "decrypt_ok x" by (simp_all add: session_ok_def)
  assume "sign_active x \<or> decrypt_active x"
  with o have "module_grant t \<noteq> None" by (auto simp: session_ok_def)
  with session_lookup_ok(4) [OF assms(1) l] show "module_grant t \<noteq> None \<and> t = s" by blast
qed

lemma put_framed_inv:
  assumes "module_inv t" and "session_ok (module_grant t \<noteq> None) h x" and "sign_frame x y" and "sign_ok y"
    and "sign_active y \<Longrightarrow> module_grant t \<noteq> None"
  shows "module_inv (put_session h y t)"
  using assms by (blast intro: put_session_inv sign_frame_ok)

lemma C_SignInit_inv:
  assumes "module_inv s"
  shows "module_inv (fst (C_SignInit e h m key s))"
proof (cases "session_lookup e s h")
  case (Pair t r)
  show ?thesis
  proof (cases "\<exists>x grant mech. r = Some x \<and> \<not> sign_active x \<and> module_grant t = Some grant \<and> m = Some mech")
    case True
    then obtain x grant mech where r: "r = Some x" "\<not> sign_active x" "module_grant t = Some grant" "m = Some mech"
      by blast
    obtain y rv where y: "sign_setup e grant x mech = (y, rv)" by fastforce
    from session_lookup_ok [OF assms Pair [unfolded r]]
    have ok: "session_ok (module_grant t \<noteq> None) h x" by blast
    then have "sign_ok x" by (simp add: session_ok_def)
    with y r have "sign_ok (if rv \<noteq> CKR_OK then session_reset_sign y else y)"
      by (auto dest: sign_setup_ok)
    moreover have "sign_frame x (if rv \<noteq> CKR_OK then session_reset_sign y else y)"
      using sign_setup_frame [OF y] by (simp add: sign_frame_reset)
    ultimately have "module_inv (put_session h (if rv \<noteq> CKR_OK then session_reset_sign y else y) t)"
      using session_lookup_inv [OF assms Pair] ok r by (intro put_framed_inv) auto
    with assms Pair r y session_lookup_inv [OF assms Pair] show ?thesis
      by (simp add: C_SignInit_def)
  next
    case False
    with assms Pair session_lookup_inv [OF assms Pair] show ?thesis
      by (auto simp: C_SignInit_def split: option.splits)
  qed
qed

lemma C_SignUpdate_inv:
  assumes "module_inv s"
  shows "module_inv (fst (C_SignUpdate e h part n s))"
proof (cases "operation_session_lookup e s h")
  case (Pair t r)
  have inv: "module_inv t" using operation_session_lookup_inv [OF assms Pair] .
  show ?thesis
  proof (cases "\<exists>x. r = Inr x \<and> sign_active x")
    case True
    then obtain x where r: "r = Inr x" "sign_active x" by blast
    note ok = operation_lookup_ok [OF assms Pair [unfolded r]]
    obtain y rv where y: "sign_feed e x part n = (y, rv)" by fastforce
    have "sign_ok (if rv \<noteq> CKR_OK then session_reset_sign y else y)"
      using sign_feed_ok [OF y] ok(3) r by simp
    moreover have "sign_frame x (if rv \<noteq> CKR_OK then session_reset_sign y else y)"
      using sign_feed_frame [OF y] by (simp add: sign_frame_reset)
    ultimately have "module_inv (put_session h (if rv \<noteq> CKR_OK then session_reset_sign y else y) t)"
      using ok r by (intro put_framed_inv) auto
    with assms Pair r y show ?thesis by (simp add: C_SignUpdate_def)
  qed (use assms Pair inv in \<open>auto simp: C_SignUpdate_def split: sum.splits\<close>)
qed

lemma sign_finish_inv:
  assumes "module_inv t" and "session_ok (module_grant t \<noteq> None) h x" and "sign_frame x y"
    and "sign_ok y" and "sign_active x"
    and "sign_finish e t y out n = (z, r)"
  shows "module_inv (put_session h z t)"
proof (rule put_framed_inv [OF assms(1,2)])
  show "sign_frame x z"
    using assms(3) sign_finish_frame [OF assms(6)] by (rule sign_frame_trans)
  show "sign_ok z"
    using assms(4) sign_finish_ok [OF assms(6)] by auto
  show "module_grant t \<noteq> None"
    using assms(2,5) by (simp add: session_ok_def)
qed

lemma C_SignFinal_inv:
  assumes "module_inv s"
  shows "module_inv (fst (C_SignFinal e h b n s))"
proof (cases "operation_session_lookup e s h")
  case (Pair t r)
  have inv: "module_inv t" using operation_session_lookup_inv [OF assms Pair] .
  show ?thesis
  proof (cases "\<exists>x k. r = Inr x \<and> sign_active x \<and> n = Some k")
    case True
    then obtain x k where r: "r = Inr x" "sign_active x" "n = Some k" by blast
    note ok = operation_lookup_ok [OF assms Pair [unfolded r]]
    obtain z q where z: "sign_finish e t x b k = (z, q)" by (rule prod.exhaust)
    have "module_inv (put_session h z t)"
      by (rule sign_finish_inv [OF inv ok(2) _ ok(3) r(2) z]) simp
    with assms Pair r z show ?thesis by (simp add: C_SignFinal_def)
  qed (use assms Pair inv in \<open>auto simp: C_SignFinal_def split: sum.splits option.splits\<close>)
qed

lemma C_Sign_inv:
  assumes "module_inv s"
  shows "module_inv (fst (C_Sign e h d k b n s))"
proof (cases "operation_session_lookup e s h")
  case (Pair t r)
  have inv: "module_inv t" using operation_session_lookup_inv [OF assms Pair] .
  show ?thesis
  proof (cases "\<exists>x l. r = Inr x \<and> sign_active x \<and> n = Some l")
    case True
    then obtain x l where r: "r = Inr x" "sign_active x" "n = Some l" by blast
    note ok = operation_lookup_ok [OF assms Pair [unfolded r]]
    obtain y rv where y: "sign_feed e x d k = (y, rv)" by fastforce
    obtain z q where z: "sign_finish e t y b l = (z, q)" by (rule prod.exhaust)
    have "module_inv (put_session h z t)"
      using sign_feed_ok [OF y ok(3) r(2)] sign_feed_frame [OF y]
      by (intro sign_finish_inv [OF inv ok(2) _ _ r(2) z]) auto
    moreover have "module_inv (put_session h (session_reset_sign y) t)"
      using sign_feed_frame [OF y] ok(2)
      by (intro put_framed_inv [OF inv ok(2)] sign_frame_reset) simp_all
    ultimately show ?thesis
      using assms inv Pair r y z by (auto simp: C_Sign_def)
  qed (use assms Pair inv in \<open>auto simp: C_Sign_def split: sum.splits option.splits\<close>)
qed

lemma oaep_parameters_hash: "oaep_parameters m = Some (hash, label) \<Longrightarrow> hash_entry (Some hash) \<noteq> None"
  by (auto simp: oaep_parameters_def split: Option.bind_splits if_splits dest!: hash_from_ck_digest_entry)

lemma decrypt_update_ok [simp]:
  "sign_ok (x\<lparr>decrypt_label := a\<rparr>) = sign_ok x" "find_ok (x\<lparr>decrypt_label := a\<rparr>) = find_ok x"
  "sign_ok (x\<lparr>decrypt_hash := b\<rparr>) = sign_ok x" "find_ok (x\<lparr>decrypt_hash := b\<rparr>) = find_ok x"
  "sign_ok (x\<lparr>decrypt_mgf1_hash := b\<rparr>) = sign_ok x" "find_ok (x\<lparr>decrypt_mgf1_hash := b\<rparr>) = find_ok x"
  "sign_ok (x\<lparr>decrypt_active := c\<rparr>) = sign_ok x" "find_ok (x\<lparr>decrypt_active := c\<rparr>) = find_ok x"
  by (simp_all add: sign_ok_def find_ok_def)

lemma C_DecryptInit_inv: "module_inv s \<Longrightarrow> module_inv (fst (C_DecryptInit e h m key s))"
  unfolding C_DecryptInit_def
  by (auto split: option.splits prod.splits simp del: split_paired_All dest: session_lookup_inv
      dest!: oaep_parameters_hash simp: decrypt_ok_def session_ok_def
      intro!: put_session_inv dest: session_lookup_ok(2))

lemma C_Decrypt_inv: "module_inv s \<Longrightarrow> module_inv (fst (C_Decrypt e h c n b k s))"
  unfolding C_Decrypt_def
  by (auto split: option.splits sum.splits prod.splits dest: operation_session_lookup_inv operation_lookup_ok
      intro!: put_session_inv session_reset_decrypt_ok)

end
