(* ===== verification/ModuleSystem.thy ===== *)
theory ModuleSystem
  imports ModuleSign
begin

text \<open>
  The module as a system of threads (\<open>src/module/module.c\<close>).  A step is one section of an entry
  point that runs under \<open>module_lock\<close>: a whole call, or one of the parts of
  \<open>C_FindObjectsInit\<close> and \<open>C_Finalize\<close> between which the lock is dropped.  The environment of a
  step is arbitrary, so the portal, the clocks and the user may do anything between steps.  The
  system invariant is shown by an interpretation of \<open>step_invariant\<close>.
\<close>

section \<open>Calls and steps\<close>

datatype module_call =
    CallInitialize "ck_initialize_args option"
  | CallFinalize bool
  | CallGetSlotInfo ck_ulong bool
  | CallOpenSession ck_ulong ck_ulong bool
  | CallCloseSession ck_ulong
  | CallCloseAllSessions ck_ulong
  | CallGetSessionInfo ck_ulong bool
  | CallLogin ck_ulong ck_ulong "bytes option" nat
  | CallLogout ck_ulong
  | CallWaitForSlotEvent ck_ulong bool bool
  | CallFindObjectsInit ck_ulong "ck_attribute list option" nat
  | CallFindObjects ck_ulong bool nat bool
  | CallFindObjectsFinal ck_ulong
  | CallGetAttributeValue ck_ulong ck_ulong "ck_attribute list option" nat
  | CallSignInit ck_ulong "ck_mechanism option" ck_ulong
  | CallSign ck_ulong "bytes option" nat bool "nat option"
  | CallSignUpdate ck_ulong "bytes option" nat
  | CallSignFinal ck_ulong bool "nat option"
  | CallDecryptInit ck_ulong "ck_mechanism option" ck_ulong
  | CallDecrypt ck_ulong "bytes option" nat bool "nat option"
  | CallOther \<comment> \<open>the functions that only read, and the unsupported ones\<close>

datatype thread_state =
    Returned
  | Searching find_context \<comment> \<open>waiting for the acquisition of another thread\<close>
  | Acquiring find_context "nat option" guint \<comment> \<open>in \<open>portal_client_acquire\<close>\<close>
  | Finalizing

fun after_find :: "module_state \<times> find_progress \<Rightarrow> module_state \<times> thread_state" where
  "after_find (s, FindReturned rv) = (s, Returned)"
| "after_find (s, FindWaiting c) = (s, Searching c)"
| "after_find (s, FindAcquiring c client generation) = (s, Acquiring c client generation)"

fun after_finalize :: "module_state \<times> ck_rv option \<Rightarrow> module_state \<times> thread_state" where
  "after_finalize (s, None) = (s, Finalizing)"
| "after_finalize (s, Some rv) = (s, Returned)"

fun exec_call :: "portal_env \<Rightarrow> module_call \<Rightarrow> module_state \<Rightarrow> module_state \<times> thread_state" where
  "exec_call e (CallInitialize a) s = (fst (C_Initialize e a s), Returned)"
| "exec_call e (CallFinalize r) s = after_finalize (C_Finalize e r s)"
| "exec_call e (CallGetSlotInfo i b) s = (fst (C_GetSlotInfo e i b s), Returned)"
| "exec_call e (CallOpenSession i f b) s = (fst (C_OpenSession e i f b s), Returned)"
| "exec_call e (CallCloseSession h) s = (fst (C_CloseSession h s), Returned)"
| "exec_call e (CallCloseAllSessions i) s = (fst (C_CloseAllSessions e i s), Returned)"
| "exec_call e (CallGetSessionInfo h b) s = (fst (C_GetSessionInfo e h b s), Returned)"
| "exec_call e (CallLogin h u p n) s = (fst (C_Login e h u p n s), Returned)"
| "exec_call e (CallLogout h) s = (fst (C_Logout e h s), Returned)"
| "exec_call e (CallWaitForSlotEvent f b r) s = (fst (C_WaitForSlotEvent e f b r s), Returned)"
| "exec_call e (CallFindObjectsInit h ts n) s = after_find (C_FindObjectsInit e h ts n s)"
| "exec_call e (CallFindObjects h b m c) s = (fst (C_FindObjects e h b m c s), Returned)"
| "exec_call e (CallFindObjectsFinal h) s = (fst (C_FindObjectsFinal e h s), Returned)"
| "exec_call e (CallGetAttributeValue h ob ts n) s = (fst (C_GetAttributeValue e h ob ts n s), Returned)"
| "exec_call e (CallSignInit h m k) s = (fst (C_SignInit e h m k s), Returned)"
| "exec_call e (CallSign h d k b n) s = (fst (C_Sign e h d k b n s), Returned)"
| "exec_call e (CallSignUpdate h d k) s = (fst (C_SignUpdate e h d k s), Returned)"
| "exec_call e (CallSignFinal h b n) s = (fst (C_SignFinal e h b n s), Returned)"
| "exec_call e (CallDecryptInit h m k) s = (fst (C_DecryptInit e h m k s), Returned)"
| "exec_call e (CallDecrypt h c n b k) s = (fst (C_Decrypt e h c n b k s), Returned)"
| "exec_call e CallOther s = (s, Returned)"

record module_system =
  sys_module :: module_state
  sys_threads :: "nat \<Rightarrow> thread_state"

definition thread_step :: "nat \<Rightarrow> module_state \<times> thread_state \<Rightarrow> module_system \<Rightarrow> module_system" where
  "thread_step i r sys = \<lparr>sys_module = fst r, sys_threads = (sys_threads sys)(i := snd r)\<rparr>"

inductive module_step :: "module_system \<Rightarrow> nat \<Rightarrow> module_system \<Rightarrow> bool" where
  step_call:
    "sys_threads sys i = Returned \<Longrightarrow>
      module_step sys i (thread_step i (exec_call e c (sys_module sys)) sys)"
| step_wake_search:
    "sys_threads sys i = Searching c \<Longrightarrow>
      module_step sys i (thread_step i (after_find (find_init_ensure e c (sys_module sys))) sys)"
| step_acquired:
    "sys_threads sys i = Acquiring c client generation \<Longrightarrow>
      module_step sys i
        (thread_step i (fst (C_FindObjectsInit_acquired e c result client generation (sys_module sys)), Returned) sys)"
| step_wake_finalize:
    "sys_threads sys i = Finalizing \<Longrightarrow>
      module_step sys i (thread_step i (after_finalize (C_Finalize_wake e (sys_module sys))) sys)"

definition system_start :: "module_system \<Rightarrow> bool" where
  "system_start sys \<longleftrightarrow> sys_module sys = module_start \<and> sys_threads sys = (\<lambda>_. Returned)"

section \<open>What a call leaves alone\<close>

text \<open>
  All but initialisation, finalisation and acquisition keep the client and the acquisition flag,
  and either keep the grant, its objects and the generation or end the grant.
\<close>

definition call_frame :: "module_state \<Rightarrow> module_state \<Rightarrow> bool" where
  "call_frame s t \<longleftrightarrow>
     module_acquiring t = module_acquiring s \<and> module_client t = module_client s \<and>
     module_initialized t = module_initialized s \<and> module_lifecycle t = module_lifecycle s \<and>
     module_refusal_time t = module_refusal_time s \<and> module_issued_ids t = module_issued_ids s \<and>
     module_finalizing t = module_finalizing s \<and>
     (module_grant t = module_grant s \<and> module_objects t = module_objects s \<and>
        module_generation t = module_generation s \<or>
      module_grant t = None \<and> module_objects t = None)"

lemma call_frame_refl [simp]: "call_frame s s"
  by (simp add: call_frame_def)

lemma call_frame_trans: "call_frame s t \<Longrightarrow> call_frame t u \<Longrightarrow> call_frame s u"
  by (auto simp: call_frame_def)

lemma release_grant_frame [simp]: "call_frame s (release_grant e s)"
  using release_grant_lifecycle [of s e] by (simp add: call_frame_def same_lifecycle_def)

lemma grant_still_good_frame: "call_frame s (fst (grant_still_good e s))"
  using grant_still_good_lifecycle [of s e]
  by (cases rule: grant_still_good_cases [of s e]) (simp_all add: call_frame_def same_lifecycle_def)

lemma session_lookup_frame: "session_lookup e s h = (t, r) \<Longrightarrow> call_frame s t"
  using grant_still_good_frame [of s e] by (auto simp: session_lookup_def Let_def split: if_splits)

lemma session_revalidate_frame: "session_revalidate e s h l n = (t, r) \<Longrightarrow> call_frame s t"
  by (auto simp: session_revalidate_def split: if_splits prod.splits option.splits dest: session_lookup_frame)

lemma operation_session_lookup_frame: "operation_session_lookup e s h = (t, r) \<Longrightarrow> call_frame s t"
  using grant_still_good_frame [of s e]
  by (auto simp: operation_session_lookup_def split: if_splits prod.splits option.splits
      dest: session_lookup_frame)

lemma call_frame_updates [simp]:
  "call_frame s (put_session h x t) = call_frame s t"
  "call_frame s (t\<lparr>module_sessions := xs\<rparr>) = call_frame s t"
  "call_frame s (t\<lparr>module_logged_in := b\<rparr>) = call_frame s t"
  "call_frame s (t\<lparr>module_slot_events := n\<rparr>) = call_frame s t"
  "call_frame s (t\<lparr>module_next_session := h\<rparr>) = call_frame s t"
  "call_frame s (t\<lparr>module_session_serial := n\<rparr>) = call_frame s t"
  "call_frame s (portal_client_release c g t) = call_frame s t"
  "call_frame s (remove_all_sessions t) = call_frame s t"
  by (simp_all add: call_frame_def put_session_def portal_client_release_def remove_all_sessions_def)

lemmas lookup_frames = session_lookup_frame session_revalidate_frame operation_session_lookup_frame

lemma calls_frame:
  "call_frame s (fst (C_GetSlotInfo e i b s))"
  "call_frame s (fst (C_OpenSession e i f b s))"
  "call_frame s (fst (C_CloseSession h s))"
  "call_frame s (fst (C_GetSessionInfo e h b s))"
  "call_frame s (fst (C_Login e h u p n s))"
  "call_frame s (fst (C_WaitForSlotEvent e f b r s))"
  "call_frame s (fst (C_FindObjects e h b m c s))"
  "call_frame s (fst (C_FindObjectsFinal e h s))"
  "call_frame s (fst (C_GetAttributeValue e h ob ts n s))"
  using grant_still_good_frame [of s e]
  by (auto simp: C_GetSlotInfo_def C_OpenSession_def C_CloseSession_def C_GetSessionInfo_def C_Login_def
      C_WaitForSlotEvent_def C_FindObjects_def C_FindObjectsFinal_def C_GetAttributeValue_def Let_def
      split: prod.splits option.splits dest: lookup_frames)

lemma end_calls_frame:
  "call_frame s (fst (C_CloseAllSessions e i s))"
  "call_frame s (fst (C_Logout e h s))"
proof -
  have "call_frame s (release_grant e (remove_all_sessions s))"
    by (rule call_frame_trans [of s "remove_all_sessions s"]) simp_all
  then show "call_frame s (fst (C_CloseAllSessions e i s))"
    by (simp add: C_CloseAllSessions_def)
  have "call_frame s (release_grant e (t\<lparr>module_logged_in := False\<rparr>))" if "call_frame s t" for t
    by (rule call_frame_trans [of s "t\<lparr>module_logged_in := False\<rparr>"]) (simp_all add: that)
  then show "call_frame s (fst (C_Logout e h s))"
    by (auto simp: C_Logout_def split: prod.splits option.splits dest: lookup_frames)
qed

lemma sign_calls_frame:
  "call_frame s (fst (C_SignInit e h m k s))"
  "call_frame s (fst (C_Sign e h d l b n s))"
  "call_frame s (fst (C_SignUpdate e h d l s))"
  "call_frame s (fst (C_SignFinal e h b n s))"
  "call_frame s (fst (C_DecryptInit e h m k s))"
  "call_frame s (fst (C_Decrypt e h d l b n s))"
  by (auto simp: C_SignInit_def C_Sign_def C_SignUpdate_def C_SignFinal_def C_DecryptInit_def C_Decrypt_def
      split: prod.splits option.splits sum.splits dest: lookup_frames)

section \<open>Searches and acquisitions\<close>

lemma ensure_grant_begin_frame:
  assumes "ensure_grant_begin e ts n h l k s = (t, r)"
  shows "(\<forall>c g. r \<noteq> EnsureAcquire c g) \<and> call_frame s t \<or>
    (\<exists>u x. call_frame s u \<and> t = u\<lparr>module_refusal_time := 0, module_acquiring := True\<rparr> \<and>
      r = EnsureAcquire (module_client u) (module_generation u) \<and> \<not> module_acquiring s \<and>
      module_grant u = None \<and> session_revalidate e u h l k = (u, Some x) \<and> \<not> in_refusal_grace e u \<and>
      portal_client_available e (module_client u) \<and>
      portal_template_wants_credential (e_enumerate_var e) ts n (module_issued_ids u) (module_enumerate u))"
proof (cases "module_acquiring s")
  case True
  with assms show ?thesis by (auto simp: ensure_grant_begin_def split: if_splits)
next
  case False
  obtain s1 r1 where v1: "session_revalidate e s h l k = (s1, r1)" by fastforce
  obtain s2 b where g: "grant_still_good e s1 = (s2, b)" by fastforce
  obtain s3 r3 where v3: "session_revalidate e s2 h l k = (s3, r3)" by fastforce
  from g have f2: "call_frame s1 s2" using grant_still_good_frame [of s1 e] by simp
  from session_revalidate_frame [OF v1] f2 have f2: "call_frame s s2" by (rule call_frame_trans)
  with session_revalidate_frame [OF v3] have f3: "call_frame s s3" by (blast intro: call_frame_trans)
  have "module_grant s2 = None" if "\<not> b"
    using g that by (cases rule: grant_still_good_cases [of s1 e]) simp_all
  then have "s3 = s2" if "\<not> b"
    using v3 that by (auto simp: session_revalidate_def session_lookup_def grant_still_good_def Let_def
        split: if_splits prod.splits option.splits)
  with False assms v1 g v3 f2 f3 session_revalidate_frame [OF v1] \<open>\<not> b \<Longrightarrow> module_grant s2 = None\<close>
  show ?thesis
    by (cases b; cases r1; cases r3) (auto simp: ensure_grant_begin_def split: if_splits)
qed

definition objects_inv :: "module_state \<Rightarrow> bool" where
  "objects_inv s \<longleftrightarrow> (\<forall>g os. module_grant s = Some g \<longrightarrow> module_objects s = Some os \<longrightarrow>
     (\<exists>x. portal_objects_new x g (module_generation s) = Inr os))"

lemma objects_inv_frame: "call_frame s t \<Longrightarrow> objects_inv s \<Longrightarrow> objects_inv t"
  by (auto simp: call_frame_def objects_inv_def)

lemma objects_inv_acquiring [simp]:
  "objects_inv (s\<lparr>module_acquiring := b\<rparr>) = objects_inv s"
  "objects_inv (s\<lparr>module_refusal_time := k\<rparr>) = objects_inv s"
  "objects_inv (s\<lparr>module_finalizing := b\<rparr>) = objects_inv s"
  "objects_inv (s\<lparr>module_effects := es\<rparr>) = objects_inv s"
  by (simp_all add: objects_inv_def)

lemma objects_inv_None: "module_grant s = None \<Longrightarrow> objects_inv s"
  by (simp add: objects_inv_def)

text \<open>\<open>client_kept s t\<close>: the acquisition flag is cleared, the rest of the lifecycle is kept.\<close>

definition client_kept :: "module_state \<Rightarrow> module_state \<Rightarrow> bool" where
  "client_kept s t \<longleftrightarrow> module_acquiring t = module_acquiring s \<and> module_client t = module_client s \<and>
     module_initialized t = module_initialized s"

lemma call_frame_client: "call_frame s t \<Longrightarrow> client_kept s t"
  by (simp add: call_frame_def client_kept_def)

lemma ensure_grant_install_frame:
  assumes "ensure_grant_install e grant s = (t, r)"
  shows "client_kept s t" and "objects_inv t"
    and "r \<Longrightarrow> module_grant t = Some grant \<and> module_effects t = module_effects s"
    and "\<not> r \<Longrightarrow> module_grant t = None"
proof -
  have f: "client_kept s (release_grant e (s\<lparr>module_grant := Some grant, module_generation := k\<rparr>))" for k
    using release_grant_lifecycle [of "s\<lparr>module_grant := Some grant, module_generation := k\<rparr>" e]
    by (simp add: client_kept_def same_lifecycle_def)
  show "client_kept s t"
    using assms f by (auto simp: ensure_grant_install_def Let_def client_kept_def split: sum.splits)
  show "objects_inv t"
    using assms by (auto simp: ensure_grant_install_def Let_def objects_inv_def split: sum.splits)
  show "r \<Longrightarrow> module_grant t = Some grant \<and> module_effects t = module_effects s" "\<not> r \<Longrightarrow> module_grant t = None"
    using assms by (auto simp: ensure_grant_install_def Let_def split: sum.splits)
qed

lemma ensure_grant_acquired_frame:
  assumes "ensure_grant_acquired e result client generation h l n s = (t, r)"
  shows "client_kept (s\<lparr>module_acquiring := False\<rparr>) t" and "objects_inv s \<Longrightarrow> objects_inv t"
proof -
  define s0 where "s0 = s\<lparr>module_acquiring := False\<rparr>"
  have "client_kept s0 t \<and> (objects_inv s \<longrightarrow> objects_inv t)"
  proof (cases "\<exists>grant. result = Inr grant \<and> module_client s0 = client \<and> module_generation s0 = generation")
    case False
    then have "call_frame s0 t \<or> (\<exists>k. t = s0\<lparr>module_refusal_time := k\<rparr>)"
      using assms by (auto simp: ensure_grant_acquired_def Let_def s0_def split: sum.splits if_splits)
    then show ?thesis
      using objects_inv_frame [of s0 t] call_frame_client [of s0 t]
      by (auto simp: s0_def client_kept_def)
  next
    case True
    then obtain grant where g: "result = Inr grant" "module_client s0 = client" "module_generation s0 = generation"
      by blast
    obtain s1 r1 where v: "session_revalidate e s0 h l n = (s1, r1)" by fastforce
    note f1 = session_revalidate_frame [OF v]
    have f3: "call_frame s0 (fst (grant_still_good e (portal_client_release client grant s1)))"
      using grant_still_good_frame by (rule call_frame_trans [rotated]) (simp add: f1)
    have "call_frame s0 t \<or> ensure_grant_install e grant s1 = (t, r)"
      using assms g v f1 f3
      by (auto simp: ensure_grant_acquired_def Let_def s0_def [symmetric] split: if_splits option.splits)
    with f1 obtain u where u: "call_frame s0 u" "t = u \<or> ensure_grant_install e grant u = (t, r)" by blast
    from u(1) have "client_kept s0 u" "objects_inv s \<longrightarrow> objects_inv u"
      using objects_inv_frame [OF u(1)] call_frame_client [OF u(1)] by (simp_all add: s0_def)
    with u(2) ensure_grant_install_frame(1,2) [of e grant u t r] show ?thesis
      by (auto simp: client_kept_def)
  qed
  then show "client_kept (s\<lparr>module_acquiring := False\<rparr>) t" "objects_inv s \<Longrightarrow> objects_inv t"
    by (simp_all add: s0_def)
qed

lemma find_init_finish_frame: "find_init_finish e c b s = (t, rv) \<Longrightarrow> call_frame s t"
  by (auto simp: find_init_finish_def split: prod.splits option.splits if_splits dest: lookup_frames)

section \<open>The system invariant\<close>

definition is_acquiring :: "thread_state \<Rightarrow> bool" where
  "is_acquiring ts = (case ts of Acquiring _ _ _ \<Rightarrow> True | _ \<Rightarrow> False)"

lemma is_acquiring_simps [simp]:
  "is_acquiring (Acquiring c client g)" "\<not> is_acquiring Returned" "\<not> is_acquiring (Searching c)"
  "\<not> is_acquiring Finalizing"
  by (simp_all add: is_acquiring_def)

lemma not_acquiring: "\<not> is_acquiring ts \<Longrightarrow> ts \<noteq> Acquiring c client g"
  by auto

text \<open>
  While an acquisition runs, exactly one thread runs it, the module stays initialised and its
  client is the one the acquisition uses.
\<close>

definition acquisition_inv :: "module_system \<Rightarrow> bool" where
  "acquisition_inv sys \<longleftrightarrow>
     (module_acquiring (sys_module sys) \<longleftrightarrow> (\<exists>i. is_acquiring (sys_threads sys i))) \<and>
     (\<forall>i j. is_acquiring (sys_threads sys i) \<longrightarrow> is_acquiring (sys_threads sys j) \<longrightarrow> i = j) \<and>
     (\<forall>i c client g. sys_threads sys i = Acquiring c client g \<longrightarrow>
        module_client (sys_module sys) = client \<and> client \<noteq> None \<and> module_initialized (sys_module sys))"

definition system_inv :: "module_system \<Rightarrow> bool" where
  "system_inv sys \<longleftrightarrow> module_inv (sys_module sys) \<and> objects_inv (sys_module sys) \<and> acquisition_inv sys"

text \<open>What one section does to the acquisition, from a state where an acquisition implies a client.\<close>

definition section_ok :: "module_state \<Rightarrow> module_state \<times> thread_state \<Rightarrow> bool" where
  "section_ok s r \<longleftrightarrow> module_inv (fst r) \<and> objects_inv (fst r) \<and>
     (case snd r of
        Acquiring c client g \<Rightarrow> \<not> module_acquiring s \<and> module_acquiring (fst r) \<and>
          module_client (fst r) = client \<and> client \<noteq> None \<and> module_initialized (fst r)
      | _ \<Rightarrow> module_acquiring (fst r) = module_acquiring s \<and>
          (module_acquiring s \<longrightarrow> client_kept s (fst r)))"

lemma section_ok_frame:
  "module_inv t \<Longrightarrow> objects_inv s \<Longrightarrow> call_frame s t \<Longrightarrow> \<not> is_acquiring ts \<Longrightarrow> section_ok s (t, ts)"
  using objects_inv_frame [of s t] call_frame_client [of s t]
  by (auto simp: section_ok_def client_kept_def is_acquiring_def split: thread_state.splits)

lemma find_init_ensure_section:
  assumes "module_inv s" and "objects_inv s"
  shows "section_ok s (after_find (find_init_ensure e c s))"
proof -
  obtain t r where g: "ensure_grant_begin e (fc_templ c) (fc_count c) (fc_handle c) (fc_lifecycle c) (fc_serial c) s = (t, r)"
    by fastforce
  have inv: "module_inv t" by (rule ensure_grant_begin_inv [OF assms(1) g])
  show ?thesis
  proof (cases r)
    case EnsureWait
    with g ensure_grant_begin_frame [OF g] inv assms show ?thesis
      by (auto simp: find_init_ensure_def is_acquiring_def intro!: section_ok_frame)
  next
    case (EnsureResult b)
    obtain u rv where u: "find_init_finish e c b t = (u, rv)" by fastforce
    have "call_frame s u"
      using ensure_grant_begin_frame [OF g] find_init_finish_frame [OF u] EnsureResult
      by (blast intro: call_frame_trans)
    with g u EnsureResult find_init_finish_inv [OF inv u] assms show ?thesis
      by (auto simp: find_init_ensure_def is_acquiring_def intro!: section_ok_frame)
  next
    case (EnsureAcquire client gen)
    with ensure_grant_begin_frame [OF g] obtain u where u: "call_frame s u"
      "t = u\<lparr>module_refusal_time := 0, module_acquiring := True\<rparr>" "client = module_client u"
      "\<not> module_acquiring s" "portal_client_available e (module_client u)"
      by auto
    with inv have "module_client u \<noteq> None" "module_initialized u"
      using module_invD(5) [OF inv] by (auto simp: portal_client_available_def)
    with u g EnsureAcquire inv objects_inv_frame [OF u(1) assms(2)] show ?thesis
      by (auto simp: find_init_ensure_def section_ok_def)
  qed
qed

lemma C_FindObjectsInit_section:
  assumes "module_inv s" and "objects_inv s"
  shows "section_ok s (after_find (C_FindObjectsInit e h ts n s))"
proof -
  obtain t r where c: "find_init_check e h ts n s = (t, r)" by fastforce
  have f: "call_frame s t"
    using c by (auto simp: find_init_check_def split: if_splits prod.splits option.splits dest: lookup_frames)
  have inv: "module_inv t" by (rule find_init_check_inv [OF assms(1) c])
  show ?thesis
  proof (cases r)
    case (Inl rv)
    with c f inv assms show ?thesis
      by (auto simp: C_FindObjectsInit_def is_acquiring_def intro!: section_ok_frame)
  next
    case (Inr x)
    have "section_ok t (after_find (find_init_ensure e x t))"
      by (rule find_init_ensure_section [OF inv objects_inv_frame [OF f assms(2)]])
    with f c Inr show ?thesis
      by (auto simp: C_FindObjectsInit_def section_ok_def call_frame_def client_kept_def split: thread_state.splits)
  qed
qed

lemma finalize_section:
  assumes "module_inv s" and "objects_inv s"
  shows "section_ok s (after_finalize (C_Finalize e r s))"
    and "section_ok s (after_finalize (C_Finalize_wake e s))"
proof -
  have k: "module_acquiring (finalize_finish e t) = module_acquiring t" for t
    using release_grant_lifecycle [of t e] by (simp add: finalize_finish_def same_lifecycle_def)
  have "objects_inv (finalize_finish e t)" for t
    by (rule objects_inv_None) (simp add: finalize_finish_def)
  with assms k show "section_ok s (after_finalize (C_Finalize e r s))"
    and "section_ok s (after_finalize (C_Finalize_wake e s))"
    by (auto simp: C_Finalize_def C_Finalize_wake_def section_ok_def client_kept_def Let_def finalize_finish_inv)
qed

lemma exec_call_section:
  assumes "module_inv s" and "objects_inv s" and "module_acquiring s \<Longrightarrow> module_initialized s"
  shows "section_ok s (exec_call e c s)"
proof (cases c)
  case (CallInitialize a)
  have "section_ok s (fst (C_Initialize e a s), Returned)"
    using assms C_Initialize_inv [OF assms(1), of e a]
    by (auto simp: section_ok_def C_Initialize_def client_kept_def objects_inv_def)
  with CallInitialize show ?thesis by simp
next
  case (CallFinalize r)
  with finalize_section [OF assms(1,2)] show ?thesis by simp
next
  case (CallFindObjectsInit h ts n)
  with C_FindObjectsInit_section [OF assms(1,2)] show ?thesis by simp
qed (use assms in \<open>auto intro!: section_ok_frame simp: is_acquiring_def calls_frame end_calls_frame sign_calls_frame
    C_GetSlotInfo_inv C_OpenSession_inv C_CloseSession_inv C_CloseAllSessions_inv C_GetSessionInfo_inv C_Login_inv
    C_Logout_inv C_WaitForSlotEvent_inv C_FindObjects_inv C_FindObjectsFinal_inv C_GetAttributeValue_inv
    C_SignInit_inv C_Sign_inv C_SignUpdate_inv C_SignFinal_inv C_DecryptInit_inv C_Decrypt_inv\<close>)

lemma acquisition_inv_quiet:
  assumes "acquisition_inv sys" and "\<not> is_acquiring (sys_threads sys i)" and "\<not> is_acquiring ts"
    and "module_acquiring t = module_acquiring (sys_module sys)"
    and "module_acquiring (sys_module sys) \<longrightarrow> client_kept (sys_module sys) t"
  shows "acquisition_inv (thread_step i (t, ts) sys)"
proof -
  have th: "is_acquiring (((sys_threads sys)(i := ts)) j) \<longleftrightarrow> is_acquiring (sys_threads sys j)" for j
    using assms(2,3) by simp
  have "module_client t = client \<and> client \<noteq> None \<and> module_initialized t"
    if a: "((sys_threads sys)(i := ts)) j = Acquiring c client g" for j c client g
  proof -
    from a have "j \<noteq> i" using assms(3) by (auto simp: is_acquiring_def)
    with a have j: "sys_threads sys j = Acquiring c client g" by simp
    then have "is_acquiring (sys_threads sys j)" by (simp add: is_acquiring_def)
    with j assms(1,5) show ?thesis
      unfolding acquisition_inv_def client_kept_def by metis
  qed
  with th assms(1,4) show ?thesis
    unfolding acquisition_inv_def thread_step_def by simp
qed

lemma section_system_inv:
  assumes "system_inv sys" and "\<not> is_acquiring (sys_threads sys i)" and "section_ok (sys_module sys) r"
  shows "system_inv (thread_step i r sys)"
proof -
  obtain t ts where r: "r = (t, ts)" by (cases r)
  from assms(1) have old: "acquisition_inv sys" by (simp add: system_inv_def)
  have "acquisition_inv (thread_step i (t, ts) sys)"
  proof (cases ts)
    case (Acquiring c client g)
    with assms(3) r have n: "\<not> module_acquiring (sys_module sys)" "module_acquiring t"
      "module_client t = client" "client \<noteq> None" "module_initialized t"
      by (simp_all add: section_ok_def)
    with old have none: "\<not> is_acquiring (sys_threads sys j)" for j
      by (simp add: acquisition_inv_def)
    then have "sys_threads sys j \<noteq> Acquiring c' client' g'" for j c' client' g'
      by (rule not_acquiring)
    with none n Acquiring show ?thesis
      by (simp add: acquisition_inv_def thread_step_def)
  next
    case Returned
    with assms(3) r old show ?thesis by (intro acquisition_inv_quiet [of sys i ts t]) (simp_all add: section_ok_def assms(2))
  next
    case (Searching c)
    with assms(3) r old show ?thesis by (intro acquisition_inv_quiet [of sys i ts t]) (simp_all add: section_ok_def assms(2))
  next
    case Finalizing
    with assms(3) r old show ?thesis by (intro acquisition_inv_quiet [of sys i ts t]) (simp_all add: section_ok_def assms(2))
  qed
  with assms(3) r show ?thesis by (simp add: system_inv_def section_ok_def thread_step_def)
qed

lemma acquired_system_inv:
  assumes inv: "system_inv sys" and acq: "sys_threads sys i = Acquiring c client g"
    and t: "C_FindObjectsInit_acquired e c result client g (sys_module sys) = (t, rv)"
  shows "system_inv (thread_step i (t, Returned) sys)"
proof -
  let ?s = "sys_module sys"
  obtain u b where u: "ensure_grant_acquired e result client g (fc_handle c) (fc_lifecycle c) (fc_serial c) ?s = (u, b)"
    by fastforce
  with t have f: "find_init_finish e c b u = (t, rv)" by (simp add: C_FindObjectsInit_acquired_def)
  have old: "module_inv ?s" "objects_inv ?s" "acquisition_inv sys" using inv by (simp_all add: system_inv_def)
  have "call_frame u t" using f by (rule find_init_finish_frame)
  then have "objects_inv t"
    using ensure_grant_acquired_frame(2) [OF u old(2)] by (rule objects_inv_frame)
  moreover have "module_inv t" using old(1) t by (rule C_FindObjectsInit_acquired_inv)
  moreover have "\<not> module_acquiring t"
    using ensure_grant_acquired_frame(1) [OF u] \<open>call_frame u t\<close>
    by (simp add: client_kept_def call_frame_def)
  moreover have "is_acquiring (sys_threads sys j) \<Longrightarrow> j = i" for j
    using old(3) acq unfolding acquisition_inv_def by (metis is_acquiring_simps(1))
  then have none: "\<not> is_acquiring (((sys_threads sys)(i := Returned)) j)" for j
    by auto
  then have "((sys_threads sys)(i := Returned)) j \<noteq> Acquiring c' client' g'" for j c' client' g'
    by (rule not_acquiring)
  ultimately show ?thesis
    using none by (simp add: system_inv_def acquisition_inv_def thread_step_def)
qed

lemma system_inv_start: "system_start sys \<Longrightarrow> system_inv sys"
  using module_inv_start
  by (simp add: system_start_def system_inv_def objects_inv_def acquisition_inv_def) (simp add: module_start_def)

lemma acquiring_initialized:
  assumes "system_inv sys" and "module_acquiring (sys_module sys)"
  shows "module_initialized (sys_module sys)"
proof -
  from assms obtain i where "is_acquiring (sys_threads sys i)"
    by (auto simp: system_inv_def acquisition_inv_def)
  then obtain c client g where "sys_threads sys i = Acquiring c client g"
    by (cases "sys_threads sys i") simp_all
  with assms(1) show ?thesis unfolding system_inv_def acquisition_inv_def by blast
qed

lemma module_step_inv:
  assumes inv: "system_inv sys" and "module_step sys i sys'"
  shows "system_inv sys'"
  using assms(2)
proof cases
  case (step_call e c)
  have "section_ok (sys_module sys) (exec_call e c (sys_module sys))"
    using inv acquiring_initialized [OF inv] by (intro exec_call_section) (simp_all add: system_inv_def)
  with inv step_call show ?thesis by (simp add: section_system_inv)
next
  case (step_wake_search c e)
  have "section_ok (sys_module sys) (after_find (find_init_ensure e c (sys_module sys)))"
    using inv by (intro find_init_ensure_section) (simp_all add: system_inv_def)
  with inv step_wake_search show ?thesis by (simp add: section_system_inv)
next
  case (step_acquired c client g e result)
  show ?thesis
    unfolding step_acquired(1)
    by (rule acquired_system_inv [OF inv step_acquired(2)]) (rule prod.collapse [symmetric])
next
  case (step_wake_finalize e)
  have "section_ok (sys_module sys) (after_finalize (C_Finalize_wake e (sys_module sys)))"
    using inv by (intro finalize_section) (simp_all add: system_inv_def)
  with inv step_wake_finalize show ?thesis by (simp add: section_system_inv)
qed

interpretation msys: step_invariant system_start module_step system_inv
  by unfold_locales (fact system_inv_start, fact module_step_inv)

end
