(* ===== verification/ModuleProps.thy ===== *)
theory ModuleProps
  imports ModuleSystem
begin

text \<open>
  The properties of the PKCS#11 module that span its entry points, and a concrete environment
  and module state (\<open>sample_env\<close>, \<open>sample_started\<close>, \<open>sample_granted\<close>) on which they are instantiated.
\<close>


text \<open>For every mechanism type, \<open>C_GetMechanismInfo\<close> succeeds exactly when the
  list that \<open>C_GetMechanismList\<close> delivers names it; the list has no duplicate, fits the array and
  has the length the size query reports.\<close>

lemma mechanism_list_info:
  assumes "C_GetMechanismList e slot True (Some n) s = (CKR_OK, k, ms)"
  shows "(t \<in> set ms \<longleftrightarrow> fst (C_GetMechanismInfo e slot t True s) = CKR_OK) \<and> distinct ms \<and>
    length ms \<le> n \<and> C_GetMechanismList e slot False (Some m) s = (CKR_OK, Some (length ms), [])"
proof -
  from assms obtain names where a: "module_initialized s" "slot = PORTAL_SLOT_ID"
    "portal_client_dup_mechanisms e (module_client s) = Some names"
    "ms = portal_mechanism_list (Some names)" "length ms \<le> n"
    by (auto simp: C_GetMechanismList_def Let_def split: if_splits option.splits)
  have "t \<in> set ms \<longleftrightarrow> (\<exists>m. portal_mechanism_lookup t = Some m \<and> portal_mechanism_available (Some m) (Some names))"
    using a(4) by (auto simp: portal_mechanism_list_def portal_mechanism_lookup_iff)
  moreover have "distinct ms"
    using a(4) mt.distinct_keys by (simp add: portal_mechanism_list_def distinct_map_filter)
  ultimately show ?thesis
    using a by (auto simp: C_GetMechanismInfo_def C_GetMechanismList_def split: option.splits)
qed

definition sample_env :: portal_env where
  "sample_env = \<lparr>e_available = True, e_mechanisms = [RSA_OAEP, RSA_V15], e_grant_gone = (\<lambda>_. False),
     e_sign = (\<lambda>g mech hash mgf have_salt salt d. Inr d), e_decrypt = (\<lambda>g hash mgf label c. Inr c),
     e_self_excluded = False, e_new_client = 1, e_pid = 77, e_real_time = 0, e_monotonic_time = 1,
     e_enumerate_var = None,
     e_gnutls = \<lparr>gh_init = (\<lambda>_. True), gh_update = (\<lambda>_ _ _. True), gh_output = (\<lambda>_ _. replicate 64 0)\<rparr>,
     e_x509 = sample_x509\<rparr>"

definition sample_started :: module_state where
  "sample_started = fst (C_Initialize sample_env None module_start)"

lemma sample_started_fields [simp]:
  "module_initialized sample_started" "module_client sample_started = Some 1"
  "module_finalizing sample_started = False" "module_grant sample_started = None"
  "module_sessions sample_started = Some []" "module_acquiring sample_started = False"
  by (simp_all add: sample_started_def C_Initialize_def initialize_args_rv_def module_start_def sample_env_def)

lemma mechanism_list_info_witness:
  "fst (C_GetMechanismInfo sample_env 1 CKM_RSA_PKCS True sample_started) = CKR_OK"
proof -
  let ?ms = "portal_mechanism_list (Some [RSA_OAEP, RSA_V15])"
  have ms: "?ms = [CKM_RSA_PKCS, CKM_SHA1_RSA_PKCS, CKM_SHA224_RSA_PKCS, CKM_SHA256_RSA_PKCS,
      CKM_SHA384_RSA_PKCS, CKM_SHA512_RSA_PKCS, CKM_RSA_PKCS_OAEP]"
    by (simp add: portal_mechanism_list_def portal_mechanism_available_def mechanism_table_def)
  have "C_GetMechanismList sample_env 1 True (Some 9) sample_started = (CKR_OK, Some 7, ?ms)"
    by (simp add: C_GetMechanismList_def portal_client_dup_mechanisms_def portal_client_available_def
        sample_env_def ms)
  from mechanism_list_info [OF this, of CKM_RSA_PKCS] show ?thesis by (simp add: ms)
qed

text \<open>Once the grant has gone or expired, the next lookup of any session fails: all
  sessions are closed, the grant and its objects dropped, the user logged out, and one slot event
  is recorded for \<open>C_WaitForSlotEvent\<close>.\<close>

lemma grant_end_invalidates:
  assumes "module_inv s" and "module_grant s = Some g"
    and "portal_client_grant_gone e (module_client s) g \<or>
      g_expires_at g \<noteq> 0 \<and> g_expires_at g \<le> e_real_time e div G_USEC_PER_SEC"
  shows "\<exists>t. session_lookup e s h = (t, None) \<and> module_sessions t = Some [] \<and> module_grant t = None \<and>
    module_objects t = None \<and> \<not> module_logged_in t \<and> module_slot_events t = module_slot_events s + 1 \<and>
    snd (operation_session_lookup e s h) \<in> {Inl CKR_DEVICE_REMOVED, Inl CKR_SESSION_HANDLE_INVALID}"
proof -
  from assms(1,2) have i: "module_sessions s \<noteq> None" by (auto simp: module_inv_def)
  from assms(2,3) have "\<not> grant_good e s g" by (auto simp: grant_good_def)
  with assms(2) i show ?thesis
    by (cases rule: grant_still_good_cases [of s e])
      (auto simp: session_lookup_def operation_session_lookup_def get_session_def Let_def
        split: option.splits)
qed

definition sample_granted :: module_state where
  "sample_granted = fst (ensure_grant_install sample_env sample_grant
     (fst (C_OpenSession sample_env 1 CKF_SERIAL_SESSION True sample_started)))"

lemma sample_granted_fields [simp]:
  "module_initialized sample_granted" "module_client sample_granted = Some 1"
  "module_finalizing sample_granted = False" "module_grant sample_granted = Some sample_grant"
  "module_acquiring sample_granted = False" "module_generation sample_granted = 1"
  "module_objects sample_granted = Some
     \<lparr>os_objects = grant_objects sample_x509 sample_grant 1 sample_parsed, os_identifier = [7]\<rparr>"
  "module_sessions sample_granted = Some [(1,
     \<lparr>ps_handle = 1, ps_serial = 1, ps_flags = 4, find_active = False, find_results = None, find_position = 0,
      sign_active = False, sign_mechanism = None, sign_hash = None, sign_mgf = None,
      sign_have_salt = False, sign_salt = 0, sign_digest = None, sign_buffer = None,
      decrypt_active = False, decrypt_hash = None, decrypt_mgf1_hash = None, decrypt_label = None\<rparr>)]"
  by (simp_all add: sample_granted_def ensure_grant_install_def C_OpenSession_def sample_started_def
      C_Initialize_def initialize_args_rv_def module_start_def sample_env_def portal_client_available_def
      grant_still_good_def put_session_def Let_def sample_objects)

lemma sample_granted_inv: "module_inv sample_granted"
proof -
  let ?s = "fst (C_OpenSession sample_env 1 CKF_SERIAL_SESSION True sample_started)"
  have "module_inv sample_started" unfolding sample_started_def by (intro C_Initialize_inv module_inv_start)
  then have "module_inv ?s" by (rule C_OpenSession_inv)
  moreover have "module_initialized ?s" "module_grant ?s = None"
    by (simp_all add: C_OpenSession_def sample_env_def portal_client_available_def grant_still_good_def Let_def)
  ultimately show ?thesis
    unfolding sample_granted_def using ensure_grant_install_inv prod.collapse by metis
qed

lemma grant_end_invalidates_witness:
  "\<exists>t. session_lookup (sample_env\<lparr>e_grant_gone := \<lambda>_. True\<rparr>) sample_granted 1 = (t, None) \<and> module_sessions t = Some []"
  using grant_end_invalidates [OF sample_granted_inv, of sample_grant "sample_env\<lparr>e_grant_gone := \<lambda>_. True\<rparr>" 1]
  by (auto simp: portal_client_grant_gone_def)

section \<open>Searches\<close>

lemma wants_credential_intent:
  "portal_template_wants_credential v ts n ids b \<Longrightarrow> portal_template_intent ts n ids \<noteq> PORTAL_TEMPLATE_UNRELATED"
  by (auto simp: portal_template_wants_credential_def)

lemma ensure_grant_begin_enumerate:
  assumes "ensure_grant_begin e ts n h l k s = (t, r)"
  shows "module_enumerate t = module_enumerate s"
proof -
  obtain s1 r1 where v1: "session_revalidate e s h l k = (s1, r1)" by fastforce
  obtain s2 b where g: "grant_still_good e s1 = (s2, b)" by fastforce
  obtain s3 r3 where v3: "session_revalidate e s2 h l k = (s3, r3)" by fastforce
  have "module_enumerate s1 = module_enumerate s" "module_enumerate s2 = module_enumerate s1"
    "module_enumerate s3 = module_enumerate s2"
    using session_revalidate_lifecycle [OF v1] session_revalidate_lifecycle [OF v3] grant_still_good_lifecycle [of s1 e] g
    by (simp_all add: same_lifecycle_def)
  with assms v1 g v3 show ?thesis
    by (cases b; cases r1; cases r3) (auto simp: ensure_grant_begin_def split: if_splits)
qed

lemma find_init_ensure_Acquiring:
  assumes "find_init_ensure e d s = (t, FindAcquiring c client g)"
  shows "c = d \<and> (\<exists>u x. call_frame s u \<and> t = u\<lparr>module_refusal_time := 0, module_acquiring := True\<rparr> \<and>
      client = module_client u \<and> g = module_generation u \<and> \<not> module_acquiring s \<and> module_grant u = None \<and>
      session_revalidate e u (fc_handle d) (fc_lifecycle d) (fc_serial d) = (u, Some x) \<and> \<not> in_refusal_grace e u \<and>
      portal_client_available e (module_client u) \<and> module_enumerate u = module_enumerate s \<and>
      portal_template_wants_credential (e_enumerate_var e) (fc_templ d) (fc_count d) (module_issued_ids u) (module_enumerate u))"
proof -
  from assms have g: "ensure_grant_begin e (fc_templ d) (fc_count d) (fc_handle d) (fc_lifecycle d) (fc_serial d) s
      = (t, EnsureAcquire client g)" "c = d"
    by (auto simp: find_init_ensure_def apsnd_def map_prod_def split: prod.splits ensure_outcome.splits)
  from ensure_grant_begin_frame [OF g(1)] obtain u x where u: "call_frame s u"
    "t = u\<lparr>module_refusal_time := 0, module_acquiring := True\<rparr>" "client = module_client u" "g = module_generation u"
    "\<not> module_acquiring s" "module_grant u = None"
    "session_revalidate e u (fc_handle d) (fc_lifecycle d) (fc_serial d) = (u, Some x)" "\<not> in_refusal_grace e u"
    "portal_client_available e (module_client u)"
    "portal_template_wants_credential (e_enumerate_var e) (fc_templ d) (fc_count d) (module_issued_ids u) (module_enumerate u)"
    by auto
  have "module_enumerate t = module_enumerate s" by (rule ensure_grant_begin_enumerate [OF g(1)])
  with u g(2) show ?thesis by auto
qed

lemma C_FindObjectsInit_Acquiring:
  assumes "C_FindObjectsInit e h templ n s = (t, FindAcquiring c client g)"
  shows "\<exists>u x. call_frame s u \<and> t = u\<lparr>module_refusal_time := 0, module_acquiring := True\<rparr> \<and>
      client = module_client u \<and> g = module_generation u \<and> \<not> module_acquiring s \<and> module_grant u = None \<and>
      session_revalidate e u h (fc_lifecycle c) (fc_serial c) = (u, Some x) \<and> \<not> in_refusal_grace e u \<and>
      portal_client_available e (module_client u) \<and> module_enumerate u = module_enumerate s \<and>
      portal_template_wants_credential (e_enumerate_var e) templ n (module_issued_ids u) (module_enumerate u)"
proof -
  obtain s1 r where c: "find_init_check e h templ n s = (s1, r)" by fastforce
  with assms obtain d where d: "r = Inr d" "find_init_ensure e d s1 = (t, FindAcquiring c client g)"
    by (cases r) (auto simp: C_FindObjectsInit_def)
  from c d(1) have f: "call_frame s s1" "fc_handle d = h" "fc_templ d = templ" "fc_count d = n"
    by (auto simp: find_init_check_def split: if_splits prod.splits option.splits dest: lookup_frames)
  have "module_enumerate s1 = module_enumerate s"
    using c d(1) by (auto simp: find_init_check_def same_lifecycle_def split: if_splits prod.splits option.splits
        dest!: session_lookup_lifecycle)
  moreover have "module_acquiring s1 = module_acquiring s" using f(1) by (simp add: call_frame_def)
  ultimately show ?thesis
    using find_init_ensure_Acquiring [OF d(2)] call_frame_trans [OF f(1)] f(2-4) by force
qed

text \<open>The opt-in of the application or of the environment, without which a template must name what
  it looks for.\<close>

abbreviation enumeration_allowed :: "portal_env \<Rightarrow> module_state \<Rightarrow> bool" where
  "enumeration_allowed e s \<equiv> module_enumerate s \<or> e_enumerate_var e = Some ''1''"

lemma wants_credential_asks:
  assumes "portal_template_wants_credential (e_enumerate_var e) templ n ids (module_enumerate s)"
  shows "portal_template_intent templ n ids = PORTAL_TEMPLATE_NAMES_CREDENTIAL \<or>
      portal_template_intent templ n ids = PORTAL_TEMPLATE_ENUMERATES \<and> enumeration_allowed e s"
    and "enumeration_allowed e s \<or> (\<exists>ts. templ = Some ts \<and>
      ((\<exists>a \<in> set (take n ts). ca_type a = CKA_LABEL \<and> template_names_our_label a) \<or>
       (\<nexists>a. a \<in> set (take n ts) \<and> ca_type a = CKA_LABEL) \<and>
         ((\<exists>a \<in> set (take n ts). ca_type a = CKA_ID \<and> identifier_issued ids a) \<or>
          (\<exists>a \<in> set (take n ts). class_named a CKO_PRIVATE_KEY) \<and>
            (\<forall>a \<in> set (take n ts). ca_type a \<in> {CKA_TOKEN, CKA_CLASS, CKA_SIGN, CKA_DECRYPT}))))"
proof -
  show i: "portal_template_intent templ n ids = PORTAL_TEMPLATE_NAMES_CREDENTIAL \<or>
      portal_template_intent templ n ids = PORTAL_TEMPLATE_ENUMERATES \<and> enumeration_allowed e s"
    using assms by (auto simp: portal_template_wants_credential_def split: template_intent.splits)
  have "templ = None \<Longrightarrow> portal_template_intent templ n ids \<noteq> PORTAL_TEMPLATE_NAMES_CREDENTIAL"
    by (simp add: portal_template_intent_def)
  with i show "enumeration_allowed e s \<or> (\<exists>ts. templ = Some ts \<and>
      ((\<exists>a \<in> set (take n ts). ca_type a = CKA_LABEL \<and> template_names_our_label a) \<or>
       (\<nexists>a. a \<in> set (take n ts) \<and> ca_type a = CKA_LABEL) \<and>
         ((\<exists>a \<in> set (take n ts). ca_type a = CKA_ID \<and> identifier_issued ids a) \<or>
          (\<exists>a \<in> set (take n ts). class_named a CKO_PRIVATE_KEY) \<and>
            (\<forall>a \<in> set (take n ts). ca_type a \<in> {CKA_TOKEN, CKA_CLASS, CKA_SIGN, CKA_DECRYPT}))))"
    by (cases templ) (auto dest: intent_names_credential)
qed

text \<open>C20 (safety): a search contacts the portal, at its start or after it waited for another
  thread's acquisition, only for the one running acquisition, for a valid session, when no usable
  grant is held and the portal is available, outside the ten seconds after a refusal, and for a
  template that asks for the portal's credential.  Either the application or the environment
  variable allowed enumeration, or the template names the portal's label, or names no label and
  either an identifier that was issued before or private keys and nothing else; and in every case
  each identifier it names was issued before, and of the labels it names one is the portal's.\<close>

theorem prompt_only_when_asked:
  assumes "(t, FindAcquiring c client g) = C_FindObjectsInit e h templ n s \<or>
    (t, FindAcquiring c client g) =
      find_init_ensure e \<lparr>fc_handle = h, fc_templ = templ, fc_count = n, fc_lifecycle = l, fc_serial = k\<rparr> s"
  shows "\<not> module_acquiring s \<and> module_acquiring t \<and> \<not> module_finalizing s \<and> module_grant t = None \<and>
    (\<exists>x. get_session t h = Some x \<and> ps_serial x = fc_serial c) \<and> portal_client_available e client \<and>
    (module_refusal_time s = 0 \<or> module_refusal_time s + 10 * G_USEC_PER_SEC \<le> e_monotonic_time e) \<and>
    portal_template_intent templ n (module_issued_ids s) \<noteq> PORTAL_TEMPLATE_UNRELATED \<and>
    (portal_template_intent templ n (module_issued_ids s) = PORTAL_TEMPLATE_NAMES_CREDENTIAL \<or>
     portal_template_intent templ n (module_issued_ids s) = PORTAL_TEMPLATE_ENUMERATES \<and> enumeration_allowed e s) \<and>
    (enumeration_allowed e s \<or> (\<exists>ts. templ = Some ts \<and>
      ((\<exists>a \<in> set (take n ts). ca_type a = CKA_LABEL \<and> template_names_our_label a) \<or>
       (\<nexists>a. a \<in> set (take n ts) \<and> ca_type a = CKA_LABEL) \<and>
         ((\<exists>a \<in> set (take n ts). ca_type a = CKA_ID \<and> identifier_issued (module_issued_ids s) a) \<or>
          (\<exists>a \<in> set (take n ts). class_named a CKO_PRIVATE_KEY) \<and>
            (\<forall>a \<in> set (take n ts). ca_type a \<in> {CKA_TOKEN, CKA_CLASS, CKA_SIGN, CKA_DECRYPT}))))) \<and>
    (\<forall>ts a. templ = Some ts \<and> a \<in> set (take n ts) \<and> ca_type a = CKA_ID \<longrightarrow>
       identifier_issued (module_issued_ids s) a) \<and>
    (\<forall>ts a. templ = Some ts \<and> a \<in> set (take n ts) \<and> ca_type a = CKA_LABEL \<longrightarrow>
       (\<exists>b \<in> set (take n ts). ca_type b = CKA_LABEL \<and> template_names_our_label b))"
proof -
  obtain u x where u: "call_frame s u"
    "t = u\<lparr>module_refusal_time := 0, module_acquiring := True\<rparr>" "client = module_client u" "\<not> module_acquiring s"
    "module_grant u = None" "session_revalidate e u h (fc_lifecycle c) (fc_serial c) = (u, Some x)"
    "\<not> in_refusal_grace e u" "portal_client_available e (module_client u)" "module_enumerate u = module_enumerate s"
    and w: "portal_template_wants_credential (e_enumerate_var e) templ n (module_issued_ids u) (module_enumerate u)"
    using assms
  proof
    assume "(t, FindAcquiring c client g) = C_FindObjectsInit e h templ n s"
    from C_FindObjectsInit_Acquiring [OF this [symmetric]] that show thesis by blast
  next
    let ?d = "\<lparr>fc_handle = h, fc_templ = templ, fc_count = n, fc_lifecycle = l, fc_serial = k\<rparr>"
    assume "(t, FindAcquiring c client g) = find_init_ensure e ?d s"
    from find_init_ensure_Acquiring [OF this [symmetric]] that show thesis by auto
  qed
  from u(1) have ids: "module_issued_ids u = module_issued_ids s" "module_refusal_time u = module_refusal_time s"
    by (simp_all add: call_frame_def)
  from session_revalidate_Some [OF u(6)] u(1) have v: "session_lookup e u h = (u, Some x)"
    "ps_serial x = fc_serial c" "\<not> module_finalizing s"
    by (simp_all add: call_frame_def)
  then have session: "get_session t h = Some x"
    using u(2) by (auto simp: session_lookup_def Let_def get_session_def split: if_splits)
  note asks = wants_credential_asks [OF w, unfolded ids u(9)]
  from wants_credential_intent [OF w] have rel: "portal_template_intent templ n (module_issued_ids s) \<noteq> PORTAL_TEMPLATE_UNRELATED"
    by (simp add: ids)
  then have named: "\<forall>ts a. templ = Some ts \<and> a \<in> set (take n ts) \<and> ca_type a = CKA_ID \<longrightarrow>
       identifier_issued (module_issued_ids s) a"
    "\<forall>ts a. templ = Some ts \<and> a \<in> set (take n ts) \<and> ca_type a = CKA_LABEL \<longrightarrow>
       (\<exists>b \<in> set (take n ts). ca_type b = CKA_LABEL \<and> template_names_our_label b)"
    by (auto dest: intent_unknown_identifier intent_foreign_label)
  have grace: "module_refusal_time s = 0 \<or> module_refusal_time s + 10 * G_USEC_PER_SEC \<le> e_monotonic_time e"
    using u(7) ids by (auto simp: in_refusal_grace_def)
  from u(2,3,4,5,8) v(2,3) session grace rel asks named show ?thesis by simp
qed

definition sample_opened :: module_state where
  "sample_opened = fst (C_OpenSession sample_env 1 CKF_SERIAL_SESSION True sample_started)"

text \<open>A search for any private key.\<close>

definition sample_templ :: "ck_attribute list" where
  "sample_templ = [attribute_of CKA_CLASS (le_bytes CKO_PRIVATE_KEY)]"

definition sample_context :: find_context where
  "sample_context = \<lparr>fc_handle = 1, fc_templ = Some sample_templ, fc_count = 1, fc_lifecycle = 1, fc_serial = 1\<rparr>"

definition sample_acquiring :: module_state where
  "sample_acquiring = sample_opened\<lparr>module_acquiring := True\<rparr>"

lemma sample_opened_eq: "sample_opened =
  \<lparr>module_acquiring = False, module_initialized = True, module_lifecycle = 1,
     module_finalizing = False, module_session_serial = 1, module_client = Some 1,
     module_grant = None, module_objects = None, module_generation = 0, module_sessions = Some [(1,
     \<lparr>ps_handle = 1, ps_serial = 1, ps_flags = 4, find_active = False, find_results = None, find_position = 0,
      sign_active = False, sign_mechanism = None, sign_hash = None, sign_mgf = None,
      sign_have_salt = False, sign_salt = 0, sign_digest = None, sign_buffer = None,
      decrypt_active = False, decrypt_hash = None, decrypt_mgf1_hash = None, decrypt_label = None\<rparr>)],
     module_next_session = 2, module_logged_in = False, module_slot_events = 0,
     module_enumerate = False, module_issued_ids = Some [], module_refusal_time = 0,
     module_serial = token_serial 77, module_effects = []\<rparr>"
  by (simp add: sample_opened_def C_OpenSession_def sample_started_def
      C_Initialize_def initialize_args_rv_def module_start_def sample_env_def portal_client_available_def
      grant_still_good_def put_session_def Let_def)

lemma sample_search:
  "C_FindObjectsInit sample_env 1 (Some sample_templ) 1 sample_opened =
    (sample_acquiring, FindAcquiring sample_context (Some 1) 0)"
proof -
  have "portal_template_intent (Some sample_templ) 1 (Some []) = PORTAL_TEMPLATE_NAMES_CREDENTIAL"
    by (simp add: portal_template_intent_def sample_templ_def attribute_of_def intent_start_def intent_step_def
        intent_verdict_def Let_def)
  then have "portal_template_wants_credential v (Some sample_templ) 1 (Some []) b" for v b
    by (simp add: portal_template_wants_credential_def)
  then show ?thesis
    by (simp add: sample_opened_eq sample_acquiring_def sample_context_def C_FindObjectsInit_def find_init_check_def
        session_lookup_def grant_still_good_def get_session_def find_init_ensure_def ensure_grant_begin_def
        session_revalidate_def in_refusal_grace_def portal_client_available_def sample_env_def Let_def)
qed

theorem prompt_only_when_asked_witness:
  "module_acquiring sample_acquiring \<and> portal_client_available sample_env (Some 1)"
  using prompt_only_when_asked [OF disjI1, OF sample_search [symmetric]] by blast

section \<open>Acquisitions\<close>

lemma grant_still_good_effects: "\<exists>es. module_effects (fst (grant_still_good e s)) = es @ module_effects s"
  by (auto simp: grant_still_good_def release_grant_def drop_objects_def map_sessions_def
      remove_all_sessions_def portal_client_release_def Let_def split: option.splits)

lemma session_revalidate_effects:
  "session_revalidate e s h l n = (t, r) \<Longrightarrow> \<exists>es. module_effects t = es @ module_effects s"
  using grant_still_good_effects [of e s]
  by (auto simp: session_revalidate_def session_lookup_def Let_def split: if_splits prod.splits option.splits)

lemma release_effects:
  "client \<noteq> None \<Longrightarrow> g_session_handle grant \<noteq> None \<Longrightarrow>
    module_effects (portal_client_release client grant s) = Released grant # module_effects s"
  by (simp add: portal_client_release_def)

text \<open>C21 (safety): no acquired grant is lost: when \<open>ensure_grant\<close> has a grant from the portal it
  either makes it the module's grant, or asks the portal to release it, or the portal has ended
  it already.\<close>

theorem acquired_grant_accounted:
  assumes "client \<noteq> None" and "g_session_handle grant \<noteq> None"
    and "ensure_grant_acquired e (Inr grant) client generation h l n s = (t, r)"
  shows "r \<and> module_grant t = Some grant
    \<or> (\<exists>es. module_effects t = es @ module_effects s \<and> Released grant \<in> set es)
    \<or> portal_client_grant_gone e client grant \<and> \<not> r \<and> module_grant t = None"
proof -
  define s0 where "s0 = s\<lparr>module_acquiring := False\<rparr>"
  note rel = release_effects [OF assms(1,2)]
  have s0: "module_effects s0 = module_effects s" by (simp add: s0_def)
  show ?thesis
  proof (cases "module_client s0 \<noteq> client \<or> module_generation s0 \<noteq> generation")
    case True
    with assms(3) have "t = portal_client_release client grant s0"
      by (auto simp: ensure_grant_acquired_def Let_def s0_def)
    with rel [of s0] s0 show ?thesis by auto
  next
    case False
    obtain s1 v where v: "session_revalidate e s0 h l n = (s1, v)" by fastforce
    from session_revalidate_effects [OF v] s0 obtain es where es: "module_effects s1 = es @ module_effects s" by auto
    have cl: "module_client s1 = client"
      using session_revalidate_frame [OF v] False by (simp add: call_frame_def)
    from False assms(3) v consider "v = None" "t = portal_client_release client grant s1"
      | "v \<noteq> None" "module_grant s1 \<noteq> None" "(t, r) = grant_still_good e (portal_client_release client grant s1)"
      | "v \<noteq> None" "module_grant s1 = None" "ensure_grant_install e grant s1 = (t, r)"
      by (auto simp: ensure_grant_acquired_def Let_def s0_def split: option.splits if_splits)
    then show ?thesis
    proof cases
      case 1
      with rel [of s1] es show ?thesis by auto
    next
      case 2
      with rel [of s1] es grant_still_good_effects [of e "portal_client_release client grant s1"]
      show ?thesis by (metis append.assoc append_Cons fst_conv in_set_conv_decomp)
    next
      case 3
      with cl es assms(1,2) show ?thesis
        by (auto simp: ensure_grant_install_def release_grant_def drop_objects_def map_sessions_def
            portal_client_release_def Let_def split: sum.splits if_splits)
    qed
  qed
qed

lemma sample_acquired:
  "ensure_grant_acquired sample_env (Inr sample_grant) (Some 1) 0 1 1 1 sample_acquiring =
    (sample_acquiring\<lparr>module_acquiring := False, module_grant := Some sample_grant, module_generation := 1,
       module_objects := Some \<lparr>os_objects = grant_objects sample_x509 sample_grant 1 sample_parsed,
         os_identifier = [7]\<rparr>, module_issued_ids := Some [[7]]\<rparr>, True)"
  by (simp add: sample_acquiring_def sample_opened_eq ensure_grant_acquired_def session_revalidate_def
      session_lookup_def grant_still_good_def get_session_def ensure_grant_install_def sample_env_def
      sample_objects Let_def)

theorem acquired_grant_accounted_witness:
  "module_grant (fst (ensure_grant_acquired sample_env (Inr sample_grant) (Some 1) 0 1 1 1 sample_acquiring)) = Some sample_grant"
  using acquired_grant_accounted [of "Some 1" sample_grant, OF _ _ sample_acquired]
  unfolding sample_acquired by simp

text \<open>An acquisition whose client or generation is no longer the module's, or whose
  session was closed, reopened or finalised meanwhile, changes neither grant nor objects of the
  module beyond what revalidating the session does: it only releases the grant it got.\<close>

lemma stale_acquisition_dropped:
  assumes "ensure_grant_acquired e (Inr grant) client generation h l n s = (t, r)"
    and "module_client s \<noteq> client \<or> module_generation s \<noteq> generation \<or>
      module_finalizing s \<or> module_lifecycle s \<noteq> l \<or>
      (\<forall>x. get_session s h = Some x \<longrightarrow> ps_serial x \<noteq> n)"
  shows "\<not> r \<and> (module_grant t = module_grant s \<or> module_grant t = None) \<and>
    (module_objects t = module_objects s \<or> module_objects t = None) \<and> \<not> module_acquiring t"
proof -
  define s0 where "s0 = s\<lparr>module_acquiring := False\<rparr>"
  have gs: "get_session s0 h = get_session s h" by (simp add: s0_def get_session_def)
  show ?thesis
  proof (cases "module_client s0 \<noteq> client \<or> module_generation s0 \<noteq> generation")
    case True
    with assms(1) show ?thesis
      by (auto simp: ensure_grant_acquired_def Let_def s0_def)
  next
    case False
    obtain s1 v where v: "session_revalidate e s0 h l n = (s1, v)" by fastforce
    have "v = None"
    proof (rule ccontr)
      assume "v \<noteq> None"
      then obtain x where x: "v = Some x" by blast
      from session_revalidate_Some [OF v [unfolded x]] have a: "session_lookup e s0 h = (s1, Some x)"
        "ps_serial x = n" "module_lifecycle s0 = l" "\<not> module_finalizing s0" by auto
      from a(1) have "get_session s0 h = Some x"
        by (cases rule: grant_still_good_cases [of s0 e])
          (auto simp: session_lookup_def get_session_def Let_def split: if_splits option.splits)
      with a gs assms(2) False show False by (auto simp: s0_def)
    qed
    with False v assms(1) session_revalidate_frame [OF v] show ?thesis
      by (auto simp: ensure_grant_acquired_def Let_def s0_def call_frame_def)
  qed
qed

lemma stale_acquisition_dropped_witness:
  "\<not> snd (ensure_grant_acquired sample_env (Inr sample_grant) (Some 1) 7 1 1 1 sample_acquiring)"
  using stale_acquisition_dropped [of sample_env sample_grant "Some 1" 7 1 1 1 sample_acquiring]
  by (cases "ensure_grant_acquired sample_env (Inr sample_grant) (Some 1) 7 1 1 1 sample_acquiring")
    (simp add: sample_acquiring_def sample_opened_eq)

text \<open>After the user refused an acquisition, no search starts another one for ten
  seconds of the monotonic clock, in any later state that still has this refusal time.\<close>

lemma refusal_is_respected:
  assumes "ensure_grant_acquired e (Inl error) client generation h l n s = (t, r)" and "refused error"
    and "e_monotonic_time e \<noteq> 0" and "e_monotonic_time e' - e_monotonic_time e < 10 * G_USEC_PER_SEC"
    and "module_refusal_time u = module_refusal_time t"
  shows "\<not> r \<and> C_FindObjectsInit e' h' templ k u \<noteq> (v, FindAcquiring c cl g)"
proof -
  from assms(1,2) have t: "module_refusal_time t = e_monotonic_time e" "\<not> r"
    by (auto simp: ensure_grant_acquired_def Let_def)
  have "C_FindObjectsInit e' h' templ k u \<noteq> (v, FindAcquiring c cl g)"
  proof
    assume "C_FindObjectsInit e' h' templ k u = (v, FindAcquiring c cl g)"
    from C_FindObjectsInit_Acquiring [OF this] obtain w where "call_frame u w" "\<not> in_refusal_grace e' w"
      by blast
    with t assms(3-5) show False by (simp add: in_refusal_grace_def call_frame_def)
  qed
  with t show ?thesis by simp
qed

lemma refusal_is_respected_witness:
  "C_FindObjectsInit sample_env 1 (Some sample_templ) 1 (sample_opened\<lparr>module_refusal_time := 1\<rparr>)
    \<noteq> (sample_acquiring, FindAcquiring sample_context (Some 1) 0)"
  using refusal_is_respected [of sample_env "Some (PortalError PKCS11_PORTAL_ERROR_CANCELLED [])" "Some 1" 0 1 1 1
      sample_acquiring "sample_acquiring\<lparr>module_acquiring := False, module_refusal_time := 1\<rparr>" False sample_env
      "sample_opened\<lparr>module_refusal_time := 1\<rparr>" 1 "Some sample_templ" 1 sample_acquiring sample_context "Some 1" 0]
  by (simp add: ensure_grant_acquired_def refused_def sample_env_def)

section \<open>Listing the results of a search\<close>

text \<open>\<open>C_FindObjects\<close> called again and again with arrays of the given sizes.\<close>

fun find_chunks :: "portal_env \<Rightarrow> ck_ulong \<Rightarrow> nat list \<Rightarrow> module_state \<Rightarrow> module_state \<times> ck_ulong list list" where
  "find_chunks e h [] s = (s, [])"
| "find_chunks e h (k # ks) s =
     (case C_FindObjects e h True k True s of
        (s1, rv, out) \<Rightarrow> apsnd ((#) out) (find_chunks e h ks s1))"

definition session_alive :: "portal_env \<Rightarrow> module_state \<Rightarrow> bool" where
  "session_alive e s \<longleftrightarrow> module_initialized s \<and> module_sessions s \<noteq> None \<and>
     (\<forall>g. module_grant s = Some g \<longrightarrow> grant_good e s g)"

lemma session_lookup_alive: "session_alive e s \<Longrightarrow> session_lookup e s h = (s, get_session s h)"
  by (auto simp: session_alive_def session_lookup_def grant_still_good_def split: option.split)

lemma session_alive_put [simp]: "session_alive e (put_session h x s) = session_alive e s"
  by (simp add: session_alive_def grant_good_def) (simp add: put_session_def)

lemma take_take_drop: "take k xs @ take m (drop (length (take k xs)) xs) = take (k + m) xs"
  by (cases "k \<le> length xs") (simp_all add: take_add)

lemma find_chunks_results:
  assumes "session_alive e s" and "get_session s h = Some x" and "find_active x" and "find_results x = Some rs"
    and "find_chunks e h ks s = (t, outs)"
  shows "session_alive e t \<and> get_session t h = Some (x\<lparr>find_position := find_position x + length (concat outs)\<rparr>) \<and>
    concat outs = take (sum_list ks) (drop (find_position x) rs)"
  using assms
proof (induction ks arbitrary: s x outs)
  case Nil
  then show ?case by simp
next
  case (Cons k ks)
  define out where "out = take k (drop (find_position x) rs)"
  define y where "y = x\<lparr>find_position := find_position x + length out\<rparr>"
  have c: "C_FindObjects e h True k True s = (put_session h y s, CKR_OK, out)"
    using Cons.prems by (simp add: C_FindObjects_def session_lookup_alive out_def y_def session_alive_def)
  with Cons.prems(5) obtain outs' where o: "outs = out # outs'" "find_chunks e h ks (put_session h y s) = (t, outs')"
    by (auto simp: apsnd_def map_prod_def split: prod.splits)
  have g: "get_session (put_session h y s) h = Some y"
    using Cons.prems(1) by (simp add: get_put_session session_alive_def)
  have ih: "session_alive e t \<and> get_session t h = Some (y\<lparr>find_position := find_position y + length (concat outs')\<rparr>) \<and>
    concat outs' = take (sum_list ks) (drop (find_position y) rs)"
    using Cons.prems(1,3,4) by (intro Cons.IH [OF _ g _ _ o(2)]) (simp_all add: y_def)
  have "drop (find_position y) rs = drop (length out) (drop (find_position x) rs)"
    by (simp add: y_def add.commute)
  then have cc: "concat outs = take (sum_list (k # ks)) (drop (find_position x) rs)"
    using ih o(1) take_take_drop [of k "drop (find_position x) rs" "sum_list ks"]
    by (simp add: out_def [symmetric])
  have "y\<lparr>find_position := find_position y + length (concat outs')\<rparr> =
      x\<lparr>find_position := find_position x + length (concat outs)\<rparr>"
    by (simp add: y_def o(1))
  with ih cc show ?case by metis
qed

text \<open>C25 (functional): with a good grant, \<open>C_FindObjectsInit\<close> prompts nobody, and successive
  \<open>C_FindObjects\<close> calls with arrays of any sizes deliver exactly the handles of the objects that match
  the template, each once and in order; \<open>C_FindObjectsFinal\<close> then restores the session.\<close>

theorem search_lists_matches:
  assumes "module_inv s" and "module_grant s = Some g" and "grant_good e s g"
    and "\<not> module_finalizing s" and "\<not> module_acquiring s"
    and "get_session s h = Some x" and "\<not> find_active x" and "templ = None \<longrightarrow> n = 0"
    and "length (portal_objects_find (module_objects s) templ n) \<le> sum_list ks"
  shows "\<exists>t u outs v. C_FindObjectsInit e h templ n s = (t, FindReturned CKR_OK) \<and>
    find_chunks e h ks t = (u, outs) \<and> concat outs = portal_objects_find (module_objects s) templ n \<and>
    C_FindObjectsFinal e h u = (v, CKR_OK) \<and> get_session v h = Some x"
proof -
  from assms(1,2) have al: "session_alive e s"
    using assms(3) by (auto simp: session_alive_def module_inv_def)
  note look = session_lookup_alive [OF al]
  have rv: "session_revalidate e s h (module_lifecycle s) (ps_serial x) = (s, Some x)"
    using assms(4,6) al look by (simp add: session_revalidate_def session_alive_def)
  define y where "y = x\<lparr>find_results := Some (portal_objects_find (module_objects s) templ n),
    find_position := 0, find_active := True\<rparr>"
  have gg: "grant_still_good e s = (s, True)" using assms(2,3) by (simp add: grant_still_good_def)
  have i: "C_FindObjectsInit e h templ n s = (put_session h y s, FindReturned CKR_OK)"
    using assms al look rv gg
    by (auto simp: C_FindObjectsInit_def find_init_check_def find_init_ensure_def ensure_grant_begin_def
        find_init_finish_def session_alive_def y_def)
  have g: "get_session (put_session h y s) h = Some y"
    using al by (simp add: get_put_session session_alive_def)
  obtain u outs where c: "find_chunks e h ks (put_session h y s) = (u, outs)" by fastforce
  have u: "session_alive e u \<and> get_session u h = Some (y\<lparr>find_position := find_position y + length (concat outs)\<rparr>) \<and>
    concat outs = take (sum_list ks) (drop (find_position y) (portal_objects_find (module_objects s) templ n))"
    using al by (intro find_chunks_results [OF _ g _ _ c]) (simp_all add: y_def)
  have "find_ok x" using assms(1,6)
    by (auto simp: module_inv_def get_session_def session_ok_def split: option.splits dest: sessions_ok_get)
  with assms(7) have x: "x\<lparr>find_active := False, find_position := 0, find_results := None\<rparr> = x"
    by (simp add: find_ok_def)
  have "C_FindObjectsFinal e h u = (put_session h x u, CKR_OK)"
    using u x by (simp add: C_FindObjectsFinal_def session_lookup_alive session_alive_def y_def)
  moreover have "get_session (put_session h x u) h = Some x"
    using u by (simp add: get_put_session session_alive_def)
  moreover have "concat outs = portal_objects_find (module_objects s) templ n"
    using u assms(9) by (simp add: y_def)
  ultimately show ?thesis using i c by blast
qed

theorem search_lists_matches_witness:
  "\<exists>t u outs. C_FindObjectsInit sample_env 1 None 0 sample_granted = (t, FindReturned CKR_OK) \<and>
    find_chunks sample_env 1 [1, 2] t = (u, outs) \<and> concat outs = [0x11, 0x12, 0x13]"
proof -
  have "portal_objects_find (module_objects sample_granted) None 0 = [0x11, 0x12, 0x13]"
    by (simp add: portal_objects_find_def portal_object_matches_def grant_objects_def Let_def)
  moreover have "grant_good sample_env sample_granted sample_grant"
    by (simp add: grant_good_def portal_client_grant_gone_def sample_env_def sample_grant_def)
  ultimately show ?thesis
    using search_lists_matches [OF sample_granted_inv, of sample_grant sample_env 1 _ None 0 "[1, 2]"]
    by (auto simp: get_session_def)
qed

section \<open>Signatures\<close>

lemma operation_lookup_alive:
  "session_alive e s \<Longrightarrow> get_session s h = Some x \<Longrightarrow> operation_session_lookup e s h = (s, Inr x)"
  by (auto simp: operation_session_lookup_def session_lookup_alive session_alive_def grant_good_def split: option.split)

lemma update_twice: "AList.update k v (AList.update k w xs) = AList.update k v xs"
  by (induction xs) auto

lemma put_session_twice [simp]: "put_session h y (put_session h x s) = put_session h y s"
  by (simp add: put_session_def option.map_comp comp_def update_twice)

lemma put_session_same: "get_session s h = Some x \<Longrightarrow> put_session h x s = s"
  by (cases "module_sessions s") (simp_all add: put_session_def get_session_def update_triv)

lemma sign_ok_collects:
  assumes "sign_ok x" and "sign_active x"
  obtains (digest) d f where "sign_digest x = Some (d, f)" | (buffer) b where "sign_digest x = None" "sign_buffer x = Some b"
  using assms unfolding sign_ok_def by (metis surj_pair)

lemma sign_feed_append:
  assumes "sign_ok x" and "sign_active x" and "\<forall>d a b. gh_update (e_gnutls e) d a b"
    and "sign_feed e x (Some p) (length p) = (y, CKR_OK)" and "sign_feed e y (Some q) (length q) = (z, CKR_OK)"
  shows "sign_feed e x (Some (p @ q)) (length (p @ q)) = (z, CKR_OK)"
  using assms(1,2)
proof (cases rule: sign_ok_collects)
  case (digest d f)
  with assms(3-5) show ?thesis
    by (auto simp: sign_feed_def split: if_splits)
next
  case (buffer b)
  with assms(4,5) show ?thesis
    by (auto simp: sign_feed_def Let_def split: if_splits)
qed

text \<open>\<open>C_SignUpdate\<close> for each part in turn, until one fails.\<close>

fun sign_updates :: "portal_env \<Rightarrow> ck_ulong \<Rightarrow> bytes list \<Rightarrow> module_state \<Rightarrow> module_state \<times> ck_rv" where
  "sign_updates e h [] s = (s, CKR_OK)"
| "sign_updates e h (p # ps) s =
     (case C_SignUpdate e h (Some p) (length p) s of
        (s1, rv) \<Rightarrow> if rv \<noteq> CKR_OK then (s1, rv) else sign_updates e h ps s1)"

lemma sign_updates_feed:
  assumes "session_alive e s" and "get_session s h = Some x" and "sign_ok x" and "sign_active x"
    and "\<forall>d a b. gh_update (e_gnutls e) d a b" and "sign_updates e h ps s = (t, CKR_OK)"
  shows "\<exists>y. sign_feed e x (Some (concat ps)) (length (concat ps)) = (y, CKR_OK) \<and> t = put_session h y s"
  using assms
proof (induction ps arbitrary: s x)
  case Nil
  then show ?case by (simp add: sign_feed_def put_session_same)
next
  case (Cons p ps)
  obtain y rv where y: "sign_feed e x (Some p) (length p) = (y, rv)" by fastforce
  have u: "C_SignUpdate e h (Some p) (length p) s = (put_session h (if rv \<noteq> CKR_OK then session_reset_sign y else y) s, rv)"
    using Cons.prems y by (simp add: C_SignUpdate_def operation_lookup_alive session_alive_def)
  with Cons.prems(6) have rv: "rv = CKR_OK" and ups: "sign_updates e h ps (put_session h y s) = (t, CKR_OK)"
    by (auto split: if_splits)
  note ok = sign_feed_ok [OF y Cons.prems(3,4)]
  have g: "get_session (put_session h y s) h = Some y" "session_alive e (put_session h y s)"
    using Cons.prems(1) by (simp_all add: get_put_session) (simp add: session_alive_def)
  from Cons.IH [OF g(2,1) ok(1,2) Cons.prems(5) ups] obtain z where
    z: "sign_feed e y (Some (concat ps)) (length (concat ps)) = (z, CKR_OK)" "t = put_session h z s"
    by auto
  with sign_feed_append [OF Cons.prems(3-5) y [unfolded rv] z(1)] show ?case by auto
qed

text \<open>C24 (equivalence): signing in parts and signing at once are the same: when every
  \<open>C_SignUpdate\<close> succeeds and the hash library accepts all updates, \<open>C_SignFinal\<close> gives the return
  value, length and signature of one \<open>C_Sign\<close> over the concatenated parts, and leaves the module in
  the same state.\<close>

theorem sign_parts_equal_whole:
  assumes "module_inv s" and "session_alive e s" and "get_session s h = Some x" and "sign_active x"
    and "\<forall>d a b. gh_update (e_gnutls e) d a b"
    and "sign_updates e h ps s = (t, CKR_OK)" and "signature_length s \<le> n"
  shows "C_SignFinal e h True (Some n) t = C_Sign e h (Some (concat ps)) (length (concat ps)) True (Some n) s"
proof -
  have "sign_ok x" using assms(1,3)
    by (auto simp: module_inv_def get_session_def session_ok_def split: option.splits dest: sessions_ok_get)
  from sign_updates_feed [OF assms(2,3) this assms(4-6)] obtain y where
    y: "sign_feed e x (Some (concat ps)) (length (concat ps)) = (y, CKR_OK)" "t = put_session h y s" by blast
  have act: "sign_active y" using sign_feed_ok(2) [OF y(1) \<open>sign_ok x\<close> assms(4)] .
  have "signature_length t = signature_length s" by (simp add: y(2) signature_length_def)
  then have f: "sign_finish e t y True n = sign_finish e s y True n"
    by (simp add: sign_finish_def y(2) cong: if_cong option.case_cong)
  have "get_session t h = Some y" "session_alive e t"
    using assms(2) by (simp_all add: y(2) get_put_session) (simp add: session_alive_def)
  then have "C_SignFinal e h True (Some n) t =
      (case sign_finish e s y True n of (z, result) \<Rightarrow> (put_session h z s, result))"
    using act f by (auto simp: C_SignFinal_def operation_lookup_alive session_alive_def y(2) split: prod.splits)
  also have "\<dots> = C_Sign e h (Some (concat ps)) (length (concat ps)) True (Some n) s"
    using assms y by (auto simp: C_Sign_def operation_lookup_alive session_alive_def split: prod.splits)
  finally show ?thesis .
qed

text \<open>A session that has begun an RSA PKCS#1 signature.\<close>

definition sample_mechanism :: ck_mechanism where
  "sample_mechanism = \<lparr>cm_mechanism = CKM_RSA_PKCS, cm_pParameter = None, cm_ulParameterLen = 0\<rparr>"

definition sample_signing :: module_state where
  "sample_signing = fst (C_SignInit sample_env 1 (Some sample_mechanism) 0x13 sample_granted)"

lemma sample_granted_alive: "session_alive sample_env sample_granted"
  by (simp add: session_alive_def grant_good_def portal_client_grant_gone_def)
    (simp add: sample_env_def sample_grant_def)

lemma sample_lookup_RSA: "portal_mechanism_lookup CKM_RSA_PKCS =
    Some (mechanism_row CKM_RSA_PKCS RSA_V15 None False True False False True False)"
  by (simp add: portal_mechanism_lookup_def mechanism_table_def)

definition sample_signing_session :: portal_session where
  "sample_signing_session =
     \<lparr>ps_handle = 1, ps_serial = 1, ps_flags = 4, find_active = False, find_results = None, find_position = 0,
      sign_active = True,
      sign_mechanism = Some (mechanism_row CKM_RSA_PKCS RSA_V15 None False True False False True False),
      sign_hash = None, sign_mgf = None, sign_have_salt = False, sign_salt = 0, sign_digest = None,
      sign_buffer = Some [], decrypt_active = False, decrypt_hash = None, decrypt_mgf1_hash = None,
      decrypt_label = None\<rparr>"

lemma sample_sign_init:
  "C_SignInit sample_env 1 (Some sample_mechanism) 0x13 sample_granted =
    (put_session 1 sample_signing_session sample_granted, CKR_OK)"
proof -
  have "private_key_object sample_granted 0x13"
    by (simp add: private_key_object_def portal_objects_lookup_def grant_objects_def Let_def)
  then show ?thesis
    by (simp add: C_SignInit_def session_lookup_alive [OF sample_granted_alive] get_session_def
        sign_setup_def sample_mechanism_def sample_lookup_RSA portal_mechanism_available_def
        sample_signing_session_def)
      (simp add: sample_grant_def)
qed

lemma sample_signing_facts:
  "module_inv sample_signing" "session_alive sample_env sample_signing"
  "get_session sample_signing 1 = Some sample_signing_session" "sign_active sample_signing_session"
  "signature_length sample_signing = 1"
proof -
  show "module_inv sample_signing" unfolding sample_signing_def by (rule C_SignInit_inv) (rule sample_granted_inv)
  have s: "sample_signing = put_session 1 sample_signing_session sample_granted"
    by (simp add: sample_signing_def sample_sign_init)
  show "session_alive sample_env sample_signing" by (simp add: s sample_granted_alive)
  show "get_session sample_signing 1 = Some sample_signing_session" by (simp add: s get_put_session)
  show "sign_active sample_signing_session" by (simp add: sample_signing_session_def)
  show "signature_length sample_signing = 1" by (simp add: s signature_length_def sample_grant_def)
qed

theorem sign_parts_equal_whole_witness:
  "\<exists>t. C_SignFinal sample_env 1 True (Some 64) t =
    C_Sign sample_env 1 (Some (concat [[1, 2], [3]])) (length (concat [[1, 2], [3 :: byte]])) True (Some 64) sample_signing"
proof -
  have u: "C_SignUpdate sample_env 1 (Some p) (length p) (put_session 1 (sample_signing_session\<lparr>sign_buffer := Some b\<rparr>) sample_signing) =
      (put_session 1 (sample_signing_session\<lparr>sign_buffer := Some (b @ p)\<rparr>) sample_signing, CKR_OK)"
    if "length b + length p \<le> 512" for b p
  proof -
    let ?s = "put_session 1 (sample_signing_session\<lparr>sign_buffer := Some b\<rparr>) sample_signing"
    have "session_alive sample_env ?s" by (simp add: sample_signing_facts)
    moreover have "get_session ?s 1 = Some (sample_signing_session\<lparr>sign_buffer := Some b\<rparr>)"
      using sample_signing_facts(2) by (simp add: get_put_session session_alive_def)
    ultimately show ?thesis
      using that by (auto simp: C_SignUpdate_def operation_lookup_alive sign_feed_def sample_signing_session_def
          session_alive_def)
  qed
  have "sample_signing = put_session 1 (sample_signing_session\<lparr>sign_buffer := Some []\<rparr>) sample_signing"
    using put_session_same [OF sample_signing_facts(3)] by (simp add: sample_signing_session_def)
  then have "sign_updates sample_env 1 [[1, 2], [3]] sample_signing =
      (put_session 1 (sample_signing_session\<lparr>sign_buffer := Some [1, 2, 3]\<rparr>) sample_signing, CKR_OK)"
    using u [of "[]" "[1, 2]"] u [of "[1, 2]" "[3]"] by simp
  moreover have "\<forall>d a b. gh_update (e_gnutls sample_env) d a b" by (simp add: sample_env_def)
  moreover have "signature_length sample_signing \<le> 64" by (simp add: sample_signing_facts(5))
  ultimately show ?thesis
    using sign_parts_equal_whole [OF sample_signing_facts(1-4)] by blast
qed

text \<open>C23 (bounds): whatever the mechanism and the input, the portal is only ever asked to sign a
  digest of a known hash, of exactly that hash's length (given that the hash library writes at
  least that many bytes).\<close>

theorem signs_only_digests:
  assumes "sign_ok x" and "sign_active x" and "sign_mechanism x = Some entry"
    and "sign_input e entry x = Inr (hash, data)"
    and "\<forall>row f. row \<in> set hash_table \<longrightarrow>
      he_length row \<le> length (gh_output (e_gnutls e) (he_gnutls_digest row) f)"
  shows "\<exists>row. hash_entry hash = Some row \<and> length data = he_length row"
proof -
  from assms(1-3) have m: "entry \<in> set mechanism_table" "pm_can_sign entry"
    "pm_hash entry \<noteq> None \<Longrightarrow> sign_hash x = pm_hash entry"
    "pm_pss entry \<Longrightarrow> hash_entry (sign_hash x) \<noteq> None"
    "pm_hash_locally entry \<Longrightarrow> \<exists>b. sign_digest x = Some (portal_hash_gnutls (pm_hash entry), b)"
    by (auto simp: sign_ok_def split: if_splits)
  note shape = mechanism_table_shape [OF m(1)]
  show ?thesis
  proof (cases "pm_hash_locally entry")
    case True
    with shape(1,2) obtain row where row: "hash_entry (pm_hash entry) = Some row" by blast
    then have "row \<in> set hash_table" by (cases "pm_hash entry") (simp_all add: hash_entry_iff)
    with True m row assms(4,5) shape(1) show ?thesis
      by (auto simp: sign_input_def portal_hash_gnutls_def portal_hash_length_def Let_def)
  next
    case False
    then consider "pm_digest_info entry" | "\<not> pm_digest_info entry" "pm_infer_hash entry"
      | "\<not> pm_digest_info entry" "\<not> pm_infer_hash entry" "pm_pss entry"
      using shape(5) m(2) by blast
    then show ?thesis
    proof cases
      case 1
      with False assms(4) show ?thesis
        by (auto simp: sign_input_def Let_def hash_entry_iff split: option.splits dest!: digestinfo_sound)
    next
      case 2
      with False assms(4) show ?thesis
        by (auto simp: sign_input_def Let_def portal_hash_for_length_def ht.second.find_iff hash_entry_iff
            split: option.splits)
    next
      case 3
      with False m(4) assms(4) show ?thesis
        by (auto simp: sign_input_def Let_def portal_hash_length_def split: if_splits)
    qed
  qed
qed

theorem signs_only_digests_witness:
  "\<exists>row. hash_entry (Some ''SHA1'') = Some row \<and> length (replicate 20 (0 :: byte)) = he_length row"
proof -
  let ?entry = "mechanism_row CKM_ECDSA ECDSA None False False True False True False"
  let ?x = "sample_signing_session\<lparr>sign_mechanism := Some ?entry, sign_buffer := Some (replicate 20 0)\<rparr>"
  have "sign_ok ?x" by (simp add: sign_ok_def sample_signing_session_def mechanism_table_def)
  moreover have "sign_input sample_env ?entry ?x = Inr (Some ''SHA1'', replicate 20 0)"
    by (simp add: sign_input_def portal_hash_for_length_def hash_table_def)
  moreover have "\<forall>row f. row \<in> set hash_table \<longrightarrow>
      he_length row \<le> length (gh_output (e_gnutls sample_env) (he_gnutls_digest row) f)"
    by (auto simp: sample_env_def dest: hash_table_bounds)
  ultimately show ?thesis
    using signs_only_digests [of ?x ?entry sample_env "Some ''SHA1''" "replicate 20 0"]
    by (simp add: sample_signing_facts(4))
qed

text \<open>A signature operation begins only with the granted private key, a grant that
  permits signing, a mechanism the grant supports and that fits the key type; the session then
  holds that mechanism and a consistent operation.\<close>

lemma sign_init_authorised:
  assumes "module_inv s" and "C_SignInit e h (Some m) key s = (t, CKR_OK)"
  shows "\<exists>g x entry. module_grant t = Some g \<and> grant_good e s g \<and> g_may_sign g \<and> private_key_object t key \<and>
    get_session t h = Some x \<and> sign_active x \<and> sign_ok x \<and> sign_mechanism x = Some entry \<and>
    pm_type entry = cm_mechanism m \<and> pm_can_sign entry \<and>
    portal_mechanism_available (Some entry) (g_supported_mechanisms g) \<and>
    (pm_portal_mechanism entry = ECDSA \<longleftrightarrow> g_key_type g = Some ''EC'')"
proof -
  obtain s1 r where l: "session_lookup e s h = (s1, r)" by fastforce
  with assms(2) obtain x g y where x: "r = Some x" "\<not> sign_active x" "module_grant s1 = Some g"
    "private_key_object s1 key" "g_may_sign g" "sign_setup e g x m = (y, CKR_OK)" "t = put_session h y s1"
    by (auto simp: C_SignInit_def split: if_splits option.splits prod.splits)
  note ok = session_lookup_ok [OF assms(1) l [unfolded x(1)]]
  from ok(2) have sx: "sign_ok x" by (simp add: session_ok_def)
  note ready = sign_setup_ok [OF x(6) x(2) sx]
  from ready(3) obtain entry where entry: "sign_mechanism y = Some entry"
    "portal_mechanism_lookup (cm_mechanism m) = Some entry"
    "portal_mechanism_available (Some entry) (g_supported_mechanisms g)"
    "pm_portal_mechanism entry = ECDSA \<longleftrightarrow> g_key_type g = Some ''EC''" by blast
  have "module_sessions s1 \<noteq> None" using ok(1) by (auto simp: get_session_def split: option.splits)
  moreover have "pm_can_sign entry" using ready(1,2) entry(1) by (auto simp: sign_ok_def)
  moreover have "grant_good e s g" using ok(4) x(3) by blast
  ultimately show ?thesis
    using x ready entry portal_mechanism_lookup_iff
    by (intro exI [of _ g] exI [of _ y] exI [of _ entry])
      (simp add: get_put_session private_key_object_def)
qed

lemma sign_init_authorised_witness:
  "\<exists>g. module_grant (put_session 1 sample_signing_session sample_granted) = Some g \<and> g_may_sign g"
  using sign_init_authorised [OF sample_granted_inv sample_sign_init] by blast

text \<open>\<open>C_Sign\<close> with a signing operation: without a buffer, or with one that is too
  small, it reports the signature length and changes nothing; in every other case the operation is
  over afterwards, and what is written never exceeds the size the caller gave.\<close>

lemma sign_output_protocol:
  assumes "session_alive e s" and "get_session s h = Some x" and "sign_active x"
    and "C_Sign e h d k out (Some n) s = (t, rv, len, sig)"
  shows "(\<not> out \<longrightarrow> t = s \<and> rv = CKR_OK \<and> len = Some (signature_length s) \<and> sig = None) \<and>
    (out \<and> n < signature_length s \<longrightarrow> t = s \<and> rv = CKR_BUFFER_TOO_SMALL \<and> len = Some (signature_length s) \<and> sig = None) \<and>
    (out \<and> signature_length s \<le> n \<longrightarrow>
      (\<exists>y. get_session t h = Some y \<and> \<not> sign_active y \<and> sign_frame x y) \<and>
      (case sig of None \<Rightarrow> rv \<noteq> CKR_OK
       | Some b \<Rightarrow> rv = CKR_OK \<and> len = Some (length b) \<and> length b \<le> n))"
proof -
  have l: "operation_session_lookup e s h = (s, Inr x)" using assms(1,2) by (rule operation_lookup_alive)
  have i: "module_initialized s" "module_sessions s \<noteq> None" using assms(1) by (auto simp: session_alive_def)
  show ?thesis
  proof (cases "out \<and> signature_length s \<le> n")
    case False
    with assms l i show ?thesis by (auto simp: C_Sign_def)
  next
    case True
    obtain y rv1 where y: "sign_feed e x d k = (y, rv1)" by fastforce
    note fy = sign_feed_frame [OF y]
    have err: "portal_error_to_rv err \<noteq> CKR_OK" for err
      by (simp add: portal_error_to_rv_def split: option.splits portal_gerror.splits portal_error_code.splits)
    have inp: "sign_input e m z \<noteq> Inl CKR_OK" for m z
      by (auto simp: sign_input_def Let_def split: option.splits)
    have perf: "sign_perform e g z \<noteq> Inl CKR_OK" for g z
      using err inp by (auto simp: sign_perform_def split: option.splits sum.splits)
    show ?thesis
      using True assms(3,4) l i y fy perf sign_frame_reset [OF fy]
      by (auto simp: C_Sign_def sign_finish_def get_put_session Let_def
          split: if_splits option.splits sum.splits)
  qed
qed

lemma sign_output_protocol_witness:
  "\<exists>t. C_Sign sample_env 1 (Some [9]) 1 False (Some 0) sample_signing = (t, CKR_OK, Some 1, None) \<and> t = sample_signing"
  using sign_output_protocol [OF sample_signing_facts(2,3,4), of "Some [9]" 1 False 0]
  by (cases "C_Sign sample_env 1 (Some [9]) 1 False (Some 0) sample_signing") (auto simp: sample_signing_facts(5))

text \<open>Decryption begins only for RSA-OAEP with the granted private key, a grant that
  permits decryption and equal signature and MGF1 hashes of the table; the label is at most 256
  bytes.\<close>

lemma decrypt_init_only_oaep:
  assumes "module_inv s" and "C_DecryptInit e h (Some m) key s = (t, CKR_OK)"
  shows "cm_mechanism m = CKM_RSA_PKCS_OAEP \<and>
    (\<exists>g x. module_grant t = Some g \<and> grant_good e s g \<and> g_may_decrypt g \<and> private_key_object t key \<and>
      get_session t h = Some x \<and> decrypt_active x \<and> hash_entry (decrypt_hash x) \<noteq> None \<and>
      decrypt_mgf1_hash x = decrypt_hash x \<and>
      (case decrypt_label x of None \<Rightarrow> True | Some l \<Rightarrow> length l \<le> 256))"
proof -
  obtain s1 r where l: "session_lookup e s h = (s1, r)" by fastforce
  with assms(2) obtain x g hash label where x: "r = Some x" "\<not> decrypt_active x" "module_grant s1 = Some g"
    "private_key_object s1 key" "g_may_decrypt g" "cm_mechanism m = CKM_RSA_PKCS_OAEP"
    "oaep_parameters m = Some (hash, label)"
    "t = put_session h (x\<lparr>decrypt_label := (if label = None then decrypt_label x else label),
      decrypt_hash := Some hash, decrypt_mgf1_hash := Some hash, decrypt_active := True\<rparr>) s1"
    by (auto simp: C_DecryptInit_def split: if_splits option.splits prod.splits)
  note ok = session_lookup_ok [OF assms(1) l [unfolded x(1)]]
  from ok(2) x(2) have "decrypt_label x = None" by (simp add: session_ok_def decrypt_ok_def)
  moreover from x(7) have "hash_entry (Some hash) \<noteq> None" by (rule oaep_parameters_hash)
  moreover have "label = Some b \<Longrightarrow> length b \<le> 256" for b
    using x(7) by (auto simp: oaep_parameters_def word_le_nat_alt split: Option.bind_splits if_splits)
  moreover have "module_sessions s1 \<noteq> None" using ok(1) by (auto simp: get_session_def split: option.splits)
  moreover have "grant_good e s g" using ok(4) x(3) by blast
  ultimately show ?thesis
    using x by (auto simp: get_put_session private_key_object_def split: option.splits)
qed

definition sample_oaep :: ck_mechanism where
  "sample_oaep = \<lparr>cm_mechanism = CKM_RSA_PKCS_OAEP, cm_pParameter = Some
     \<lparr>cp_hashAlg = CKM_SHA_1, cp_mgf = CKG_MGF1_SHA1, cp_sLen_or_source = 0, cp_pSourceData = None,
      cp_ulSourceDataLen = 0\<rparr>, cm_ulParameterLen = 40\<rparr>"

definition sample_decrypt_grant :: portal_grant where
  "sample_decrypt_grant = sample_grant\<lparr>g_may_decrypt := True, g_supported_mechanisms := Some [RSA_OAEP]\<rparr>"

definition sample_decrypting :: module_state where
  "sample_decrypting = sample_granted\<lparr>module_grant := Some sample_decrypt_grant\<rparr>"

lemma decrypt_init_only_oaep_witness:
  "\<exists>t x. C_DecryptInit sample_env 1 (Some sample_oaep) 0x13 sample_decrypting = (t, CKR_OK) \<and>
    get_session t 1 = Some x \<and> decrypt_active x"
proof -
  have inv: "module_inv sample_decrypting"
    using sample_granted_inv by (simp add: sample_decrypting_def module_inv_def)
  have al: "session_alive sample_env sample_decrypting"
    by (simp add: session_alive_def grant_good_def portal_client_grant_gone_def sample_decrypting_def)
      (simp add: sample_env_def sample_grant_def sample_decrypt_grant_def)
  have k: "private_key_object sample_decrypting 0x13"
    by (simp add: private_key_object_def portal_objects_lookup_def grant_objects_def Let_def sample_decrypting_def)
  have o: "oaep_parameters sample_oaep = Some (''SHA1'', None)"
    by (simp add: oaep_parameters_def sample_oaep_def portal_hash_from_ck_digest_def portal_mgf_hash_def hash_table_def)
  have c: "cm_mechanism sample_oaep = CKM_RSA_PKCS_OAEP" by (simp add: sample_oaep_def)
  have "portal_mechanism_available (portal_mechanism_lookup CKM_RSA_PKCS_OAEP) (Some [RSA_OAEP])"
    by (simp add: portal_mechanism_lookup_def mechanism_table_def portal_mechanism_available_def)
  then have g: "portal_mechanism_available (portal_mechanism_lookup CKM_RSA_PKCS_OAEP)
      (g_supported_mechanisms sample_decrypt_grant)" "g_may_decrypt sample_decrypt_grant"
    "module_grant sample_decrypting = Some sample_decrypt_grant" "module_initialized sample_decrypting"
    "\<exists>x. get_session sample_decrypting 1 = Some x \<and> \<not> decrypt_active x"
    by (simp_all add: sample_decrypt_grant_def sample_decrypting_def get_session_def)
  then obtain x where x: "get_session sample_decrypting 1 = Some x" "\<not> decrypt_active x" by blast
  have "snd (C_DecryptInit sample_env 1 (Some sample_oaep) 0x13 sample_decrypting) = CKR_OK"
    using k o c g(1-4) x by (simp add: C_DecryptInit_def session_lookup_alive [OF al])
  then obtain t where t: "C_DecryptInit sample_env 1 (Some sample_oaep) 0x13 sample_decrypting = (t, CKR_OK)"
    by (metis prod.collapse)
  with decrypt_init_only_oaep [OF inv t] show ?thesis by blast
qed

section \<open>Properties of every reachable state\<close>

definition sample_system :: module_system where
  "sample_system = \<lparr>sys_module = sample_acquiring, sys_threads = (\<lambda>_. Returned)(0 := Acquiring sample_context (Some 1) 0)\<rparr>"

lemma sample_system_reach: "reach system_start module_step sample_system"
proof -
  let ?T = "(\<lambda>_. Returned) :: nat \<Rightarrow> thread_state"
  have 0: "reach system_start module_step \<lparr>sys_module = module_start, sys_threads = ?T\<rparr>"
    by (rule reach_init) (simp add: system_start_def)
  have 1: "reach system_start module_step \<lparr>sys_module = sample_started, sys_threads = ?T\<rparr>"
    using reach_step [OF 0 step_call [of _ 0 sample_env "CallInitialize None"]]
    by (simp add: thread_step_def sample_started_def fun_upd_idem)
  have 2: "reach system_start module_step \<lparr>sys_module = sample_opened, sys_threads = ?T\<rparr>"
    using reach_step [OF 1 step_call [of _ 0 sample_env "CallOpenSession 1 CKF_SERIAL_SESSION True"]]
    by (simp add: thread_step_def sample_opened_def fun_upd_idem)
  show ?thesis
    using reach_step [OF 2 step_call [of _ 0 sample_env "CallFindObjectsInit 1 (Some sample_templ) 1"]] sample_search
    by (simp add: thread_step_def sample_system_def)
qed

text \<open>C22 (invariant): in every reachable state at most one thread is inside the portal's acquisition;
  while it is, the module stays initialised and its client is the one the acquisition uses, so no
  \<open>C_Finalize\<close> frees the client under it.\<close>

theorem client_outlives_acquisition:
  assumes "reach system_start module_step sys" and "sys_threads sys i = Acquiring c client g"
  shows "module_client (sys_module sys) = client \<and> client \<noteq> None \<and> module_initialized (sys_module sys) \<and>
    module_acquiring (sys_module sys) \<and> (\<forall>j. is_acquiring (sys_threads sys j) \<longrightarrow> j = i)"
proof -
  from msys.reach_inv [OF assms(1)] have a: "acquisition_inv sys" by (simp add: system_inv_def)
  from assms(2) have i: "is_acquiring (sys_threads sys i)" by simp
  from a have "\<forall>i c client g. sys_threads sys i = Acquiring c client g \<longrightarrow>
      module_client (sys_module sys) = client \<and> client \<noteq> None \<and> module_initialized (sys_module sys)"
    unfolding acquisition_inv_def by (elim conjE)
  moreover from a i have "\<forall>j. is_acquiring (sys_threads sys j) \<longrightarrow> j = i" "module_acquiring (sys_module sys)"
    unfolding acquisition_inv_def by blast+
  ultimately show ?thesis using assms(2) by blast
qed

theorem client_outlives_acquisition_witness: "module_client (sys_module sample_system) = Some 1"
  using client_outlives_acquisition [OF sample_system_reach, of 0 sample_context "Some 1" 0]
  by (simp add: sample_system_def)

text \<open>In every reachable state every session is consistent: it is stored under its
  own handle, an active signature has a signing mechanism of the table and either a running hash or
  at most 512 buffered bytes, a search position lies within its results, and no signature or
  decryption is pending without a grant.\<close>

lemma reachable_sessions_consistent:
  assumes "reach system_start module_step sys" and "get_session (sys_module sys) h = Some x"
  shows "ps_handle x = h \<and> sign_ok x \<and> decrypt_ok x \<and> find_ok x \<and>
    (sign_active x \<or> decrypt_active x \<longrightarrow> module_grant (sys_module sys) \<noteq> None)"
proof -
  from msys.reach_inv [OF assms(1)] have "module_inv (sys_module sys)" by (simp add: system_inv_def)
  with assms(2) have "session_ok (module_grant (sys_module sys) \<noteq> None) h x"
    by (auto simp: module_inv_def get_session_def split: option.splits intro: sessions_ok_get)
  then show ?thesis by (auto simp: session_ok_def)
qed

lemma reachable_sessions_consistent_witness:
  "\<exists>x. get_session (sys_module sample_system) 1 = Some x \<and> find_ok x"
proof -
  obtain x where "get_session (sys_module sample_system) 1 = Some x"
    by (simp add: sample_system_def sample_acquiring_def sample_opened_eq get_session_def)
  with reachable_sessions_consistent [OF sample_system_reach this] show ?thesis by blast
qed

definition sample_found :: module_state where
  "sample_found = fst (C_FindObjectsInit_acquired sample_env sample_context (Inr sample_grant) (Some 1) 0 sample_acquiring)"

lemma sample_found_reach:
  "reach system_start module_step \<lparr>sys_module = sample_found, sys_threads = \<lambda>_. Returned\<rparr>"
  using reach_step [OF sample_system_reach step_acquired [of _ 0 sample_context "Some 1" 0 sample_env "Inr sample_grant"]]
  by (simp add: thread_step_def sample_system_def sample_found_def fun_upd_idem)

lemma sample_found_fields:
  "module_objects sample_found = Some \<lparr>os_objects = grant_objects sample_x509 sample_grant 1 sample_parsed, os_identifier = [7]\<rparr>"
  "module_initialized sample_found" "module_grant sample_found = Some sample_grant"
  using sample_acquired
  by (simp_all add: sample_found_def C_FindObjectsInit_acquired_def sample_context_def find_init_finish_def
      session_revalidate_def session_lookup_def grant_still_good_def grant_good_def portal_client_grant_gone_def
      sample_acquiring_def sample_opened_eq get_session_def Let_def sample_env_def sample_grant_def)

lemma get_attribute_value_template: "C_GetAttributeValue e h k (Some ts) n s = (t, rv, q) \<Longrightarrow> q \<noteq> None"
  by (auto simp: C_GetAttributeValue_def portal_object_get_attributes_def Let_def split_beta
      split: if_splits option.splits prod.splits)

lemma private_attribute_sealed:
  assumes "ca_type a \<in> {CKA_VALUE, CKA_PRIVATE_EXPONENT, CKA_PRIME_1, CKA_PRIME_2, CKA_EXPONENT_1,
      CKA_EXPONENT_2, CKA_COEFFICIENT}"
  shows "find_attribute (object_new g i c (private_key_attributes x gr parsed r k)) (ca_type a) = None \<or>
    sealed (object_new g i c (private_key_attributes x gr parsed r k)) a"
proof (cases "ca_type a = CKA_VALUE")
  case True
  then show ?thesis
    using private_value_sealed [of g i c x gr parsed r k] by (simp add: sealed_def add_sensitive_def)
next
  case False
  with assms have t: "ca_type a \<in> {CKA_PRIVATE_EXPONENT, CKA_PRIME_1, CKA_PRIME_2, CKA_EXPONENT_1, CKA_EXPONENT_2, CKA_COEFFICIENT}"
    by simp
  show ?thesis
  proof (cases r)
    case True
    with private_rsa_sealed [OF t, of g i c x gr parsed k] show ?thesis by (simp add: sealed_def add_sensitive_def)
  next
    case False
    with t have "find_attribute (object_new g i c (private_key_attributes x gr parsed r k)) (ca_type a) = None"
      by (auto simp: find_attribute_def private_key_attributes_def find_append public_parts_find)
    then show ?thesis ..
  qed
qed

text \<open>C18 (safety): in every reachable state, reading an attribute that would hold private key material
  (\<open>CKA_VALUE\<close> or a private RSA component) of a private key object fails and leaves the caller's
  buffer as it was.\<close>

theorem private_key_material_sealed:
  assumes "reach system_start module_step sys"
    and "private_key_object (sys_module sys) key"
    and "C_GetAttributeValue e h key (Some ts) n (sys_module sys) = (t, rv, Some ts')"
    and "i < n" and "i < length ts"
    and "ca_type (ts ! i) \<in> {CKA_VALUE, CKA_PRIVATE_EXPONENT, CKA_PRIME_1, CKA_PRIME_2, CKA_EXPONENT_1,
      CKA_EXPONENT_2, CKA_COEFFICIENT}"
  shows "rv \<noteq> CKR_OK \<and> length ts' = length ts \<and> ca_pValue (ts' ! i) = ca_pValue (ts ! i)"
proof -
  let ?s = "sys_module sys"
  from msys.reach_inv [OF assms(1)] have inv: "module_inv ?s" "objects_inv ?s" by (simp_all add: system_inv_def)
  obtain s1 r where l: "session_lookup e ?s h = (s1, r)" by fastforce
  show ?thesis
  proof (cases "r \<noteq> None \<and> module_initialized ?s \<and> portal_objects_lookup (module_objects s1) key \<noteq> None")
    case False
    with assms(3) l show ?thesis by (auto simp: C_GetAttributeValue_def split: if_splits option.splits)
  next
    case True
    then obtain ob where ob: "portal_objects_lookup (module_objects s1) key = Some ob" by blast
    from assms(3) l True ob have g: "portal_object_get_attributes ob (Some ts) n = (Some ts', rv)"
      by (auto simp: C_GetAttributeValue_def split: if_splits option.splits prod.splits)
    from ob have os1: "module_objects s1 \<noteq> None" by (auto simp: portal_objects_lookup_def split: option.splits)
    with session_lookup_frame [OF l] have os: "module_objects s1 = module_objects ?s"
      by (auto simp: call_frame_def)
    with os1 obtain os where os': "module_objects ?s = Some os" by auto
    with module_invD(3) [OF inv(1)] obtain gr where "module_grant ?s = Some gr" by auto
    with inv(2) os' obtain x where new: "portal_objects_new x gr (module_generation ?s) = Inr os"
      unfolding objects_inv_def by blast
    with ob os os' have "ob \<in> set (os_objects os)" by (auto simp: portal_objects_lookup_iff [OF new])
    moreover from assms(2) ob os have "ob_class ob = CKO_PRIVATE_KEY" by (simp add: private_key_object_def)
    moreover from new obtain parsed where
      "os_objects os = grant_objects x gr (module_generation ?s) parsed" by (auto simp: portal_objects_new_Inr)
    ultimately obtain rsa k where "ob = object_new (module_generation ?s) 3 CKO_PRIVATE_KEY (private_key_attributes x gr parsed rsa k)"
      using grant_object_class [of ob x gr "module_generation ?s" parsed] by auto
    then have f: "find_attribute ob (ca_type (ts ! i)) = None \<or> sealed ob (ts ! i)"
      by (simp only: private_attribute_sealed [OF assms(6)])
    note nth = get_attributes_nth [OF g assms(4,5)]
    from f have "ca_pValue (fst (get_attribute_step ob (ts ! i) no_flags)) = ca_pValue (ts ! i)"
      by (auto simp: get_attribute_step_def sealed_def)
    moreover have "ts ! i \<in> set (take n ts)"
      using assms(4,5) by (metis in_set_conv_nth length_take min_less_iff_conj nth_take)
    with f get_attributes_loop_flags [of ob "take n ts" no_flags] g have "rv \<noteq> CKR_OK"
      using assms(4) by (auto simp: portal_object_get_attributes_def Let_def split_beta split: if_splits)
    ultimately show ?thesis using nth by simp
  qed
qed

theorem private_key_material_sealed_witness:
  "\<exists>t rv ts'. C_GetAttributeValue sample_env 1 0x13 (Some [attribute_of CKA_PRIME_1 [0]]) 1 sample_found = (t, rv, Some ts') \<and>
    rv \<noteq> CKR_OK \<and> ca_pValue (ts' ! 0) = Some [0]"
proof -
  have k: "private_key_object sample_found 0x13"
    by (simp add: private_key_object_def portal_objects_lookup_def grant_objects_def Let_def sample_found_fields)
  obtain t rv q where c: "C_GetAttributeValue sample_env 1 0x13 (Some [attribute_of CKA_PRIME_1 [0]]) 1 sample_found = (t, rv, q)"
    by (rule prod_cases3)
  with get_attribute_value_template [OF c] obtain ts' where c:
    "C_GetAttributeValue sample_env 1 0x13 (Some [attribute_of CKA_PRIME_1 [0]]) 1 sample_found = (t, rv, Some ts')" by auto
  with private_key_material_sealed [OF sample_found_reach, of "0x13" sample_env 1 "[attribute_of CKA_PRIME_1 [0]]" 1 t rv ts' 0] k
  show ?thesis by (auto simp: attribute_of_def)
qed

definition no_operations :: "module_state \<Rightarrow> bool" where
  "no_operations s \<longleftrightarrow> (\<forall>h x. get_session s h = Some x \<longrightarrow> \<not> sign_active x \<and> \<not> decrypt_active x)"

lemma no_grant_no_operations:
  assumes "module_inv s" and "module_grant s = None"
  shows "no_operations s"
  using assms
  by (fastforce simp: no_operations_def module_inv_def get_session_def session_ok_def
      split: option.splits dest: sessions_ok_get)

lemma no_operations_revalidate:
  assumes "no_operations s" and "session_revalidate e s h l n = (t, r)"
  shows "no_operations t" and "r = Some x \<Longrightarrow> \<not> sign_active x \<and> \<not> decrypt_active x"
proof -
  have "no_operations (fst (grant_still_good e s))"
    using assms(1) by (cases rule: grant_still_good_cases [of s e])
      (auto simp: no_operations_def get_session_def split: option.splits)
  then show t: "no_operations t"
    using assms by (auto simp: session_revalidate_def session_lookup_def Let_def split: if_splits option.splits prod.splits)
  assume "r = Some x"
  with assms(2) session_revalidate_Some [of e s h l n t x] have "get_session t h = Some x"
    by (auto simp: session_lookup_def Let_def split: if_splits)
  with t show "\<not> sign_active x \<and> \<not> decrypt_active x" by (auto simp: no_operations_def)
qed

lemma no_operations_finish:
  assumes "no_operations s" and "find_init_finish e c b s = (t, rv)"
  shows "no_operations t"
proof -
  obtain s1 r where v: "session_revalidate e s (fc_handle c) (fc_lifecycle c) (fc_serial c) = (s1, r)" by fastforce
  note n = no_operations_revalidate [OF assms(1) v]
  have "no_operations (put_session (fc_handle c)
      (x\<lparr>find_results := rs, find_position := 0, find_active := True\<rparr>) s1)" if "r = Some x" for x rs
    using n(1) n(2) [OF that] by (auto simp: no_operations_def get_put_session split: if_splits)
  with n(1) assms(2) v show ?thesis
    by (auto simp: find_init_finish_def split: option.splits if_splits)
qed

lemma ensure_grant_acquired_cases:
  assumes "ensure_grant_acquired e result client g h l n s = (u, b)"
    and v: "session_revalidate e (s\<lparr>module_acquiring := False\<rparr>) h l n = (s1, r)"
  shows "module_grant u \<in> {module_grant s, module_grant s1, None} \<or>
    (\<exists>grant. module_grant s1 = None \<and> ensure_grant_install e grant s1 = (u, b))"
proof (cases "\<exists>grant. result = Inr grant \<and> module_client s = client \<and> module_generation s = g \<and> r \<noteq> None")
  case False
  with assms show ?thesis
    by (auto simp: ensure_grant_acquired_def Let_def split: sum.splits if_splits option.splits)
next
  case True
  then obtain grant x where c: "result = Inr grant" "module_client s = client" "module_generation s = g" "r = Some x"
    by blast
  have "module_grant (fst (grant_still_good e (portal_client_release client grant s1))) \<in> {module_grant s1, None}"
    using grant_still_good_frame [of "portal_client_release client grant s1" e] by (auto simp: call_frame_def)
  with c assms show ?thesis
    by (cases "module_grant s1") (simp_all add: ensure_grant_acquired_def Let_def, metis)
qed

lemma acquired_changes_grant:
  assumes inv: "module_inv s"
    and a: "C_FindObjectsInit_acquired e c result client g s = (t, rv)"
    and gr: "module_grant t = Some new" "module_grant s \<noteq> Some new"
  shows "no_operations t"
proof -
  define s0 where "s0 = s\<lparr>module_acquiring := False\<rparr>"
  have inv0: "module_inv s0" "module_grant s0 = module_grant s" using inv by (simp_all add: s0_def)
  obtain u b where u: "ensure_grant_acquired e result client g (fc_handle c) (fc_lifecycle c) (fc_serial c) s = (u, b)"
    by fastforce
  with a have f: "find_init_finish e c b u = (t, rv)" by (simp add: C_FindObjectsInit_acquired_def)
  with gr(1) find_init_finish_frame [OF f] have gu: "module_grant u = Some new" by (auto simp: call_frame_def)
  obtain s1 r where v: "session_revalidate e s0 (fc_handle c) (fc_lifecycle c) (fc_serial c) = (s1, r)" by fastforce
  have s1: "call_frame s0 s1" "module_inv s1"
    using session_revalidate_frame [OF v] session_revalidate_inv [OF inv0(1) v] by auto
  have "\<exists>grant. module_grant s1 = None \<and> ensure_grant_install e grant s1 = (u, b)"
    using ensure_grant_acquired_cases [OF u v [unfolded s0_def]] gu gr(2) s1(1) inv0(2)
    by (auto simp: call_frame_def)
  then obtain grant where g: "module_grant s1 = None" "ensure_grant_install e grant s1 = (u, b)" by blast
  from no_grant_no_operations [OF s1(2) g(1)] g gu have "no_operations u"
    by (auto simp: ensure_grant_install_def Let_def no_operations_def get_session_def split: sum.splits)
  then show ?thesis using f by (rule no_operations_finish)
qed

lemma find_init_ensure_grant:
  "module_grant (fst (after_find (find_init_ensure e c s))) \<in> {module_grant s, None}"
proof -
  obtain t r where g: "ensure_grant_begin e (fc_templ c) (fc_count c) (fc_handle c) (fc_lifecycle c) (fc_serial c) s = (t, r)"
    by fastforce
  show ?thesis
  proof (cases r)
    case (EnsureResult b)
    obtain u rv where u: "find_init_finish e c b t = (u, rv)" by fastforce
    with g EnsureResult ensure_grant_begin_frame [OF g] find_init_finish_frame [OF u] show ?thesis
      by (auto simp: find_init_ensure_def call_frame_def)
  qed (use g ensure_grant_begin_frame [OF g] in \<open>auto simp: find_init_ensure_def call_frame_def\<close>)
qed

lemma exec_call_grant: "module_grant (fst (exec_call e c s)) \<in> {module_grant s, None}"
proof -
  have fr: "call_frame s t \<Longrightarrow> module_grant t \<in> {module_grant s, None}" for t by (auto simp: call_frame_def)
  show ?thesis
  proof (cases c)
    case (CallFindObjectsInit h ts n)
    obtain s1 r where f: "find_init_check e h ts n s = (s1, r)" by fastforce
    then have "call_frame s s1"
      by (auto simp: find_init_check_def split: if_splits prod.splits option.splits dest: lookup_frames)
    then have s1: "module_grant s1 \<in> {module_grant s, None}" by (rule fr)
    show ?thesis
    proof (cases r)
      case (Inr d)
      with f s1 find_init_ensure_grant [of e d s1] show ?thesis
        by (auto simp: CallFindObjectsInit C_FindObjectsInit_def)
    qed (use f s1 in \<open>simp add: CallFindObjectsInit C_FindObjectsInit_def\<close>)
  next
    case (CallInitialize a)
    then show ?thesis by (simp add: C_Initialize_def)
  next
    case (CallFinalize r)
    then show ?thesis by (simp add: C_Finalize_def finalize_finish_def Let_def)
  qed (simp_all add: fr calls_frame end_calls_frame sign_calls_frame del: insert_iff)
qed

text \<open>C19 (safety): whenever a step of any thread gives the module a grant it did not have, no session
  has a signature or decryption pending: an operation begun under one grant never runs under
  another.\<close>

theorem replacement_grant_without_operations:
  assumes "reach system_start module_step sys" and "module_step sys i sys'"
    and "module_grant (sys_module sys') = Some g" and "module_grant (sys_module sys) \<noteq> Some g"
    and "get_session (sys_module sys') h = Some x"
  shows "\<not> sign_active x \<and> \<not> decrypt_active x"
proof -
  from msys.reach_inv [OF assms(1)] have inv: "module_inv (sys_module sys)" by (simp add: system_inv_def)
  from assms(2) show ?thesis
  proof cases
    case (step_call e c)
    with assms(3,4) exec_call_grant [of e c "sys_module sys"] show ?thesis by (auto simp: thread_step_def)
  next
    case (step_wake_search c e)
    with assms(3,4) find_init_ensure_grant [of e c "sys_module sys"] show ?thesis by (auto simp: thread_step_def)
  next
    case (step_acquired c client gn e result)
    obtain t rv where t: "C_FindObjectsInit_acquired e c result client gn (sys_module sys) = (t, rv)" by fastforce
    with step_acquired have s: "sys_module sys' = t" by (simp add: thread_step_def)
    from acquired_changes_grant [OF inv t] assms(3-5) show ?thesis by (auto simp: s no_operations_def)
  next
    case (step_wake_finalize e)
    with assms(3,4) show ?thesis
      by (auto simp: thread_step_def C_Finalize_wake_def finalize_finish_def split: if_splits)
  qed
qed

theorem replacement_grant_without_operations_witness:
  "\<exists>x. get_session sample_found 1 = Some x \<and> \<not> sign_active x"
proof -
  let ?sys' = "thread_step 0 (sample_found, Returned) sample_system"
  have "module_step sample_system 0 ?sys'"
    using step_acquired [of sample_system 0 sample_context "Some 1" 0 sample_env "Inr sample_grant"]
    by (simp add: sample_system_def sample_found_def)
  moreover obtain x where "get_session sample_found 1 = Some x"
    using sample_acquired
    by (simp add: sample_found_def C_FindObjectsInit_acquired_def sample_context_def find_init_finish_def
      session_revalidate_def session_lookup_def grant_still_good_def grant_good_def portal_client_grant_gone_def
      sample_acquiring_def sample_opened_eq get_session_def Let_def sample_env_def sample_grant_def put_session_def)
  moreover have "module_grant (sys_module sample_system) \<noteq> Some sample_grant"
    by (simp add: sample_system_def sample_acquiring_def sample_opened_eq)
  ultimately show ?thesis
    using replacement_grant_without_operations [OF sample_system_reach, of 0 ?sys' sample_grant 1 x]
    by (simp add: thread_step_def sample_found_fields)
qed

end
