(* ===== verification/Pkcs11Util.thy ===== *)
theory Pkcs11Util
  imports ModuleSign
begin

text \<open>
  The backend's calls into the tokens' PKCS#11 modules (\<open>src/tokens/pkcs11-util.c\<close>): error codes,
  token strings, attribute reads, object searches and mechanism lists.

  A third-party module is a parameter: \<open>ck_function_list\<close> is the table of the functions the
  backend calls, each a function of the module (a \<open>CK_FUNCTION_LIST*\<close>, here a number), of its
  arguments and of the state \<open>'w\<close> of all modules, tokens and readers.  Nothing is assumed of
  them: a module may return any value and write anything into the buffers it is given; only
  a write outside a buffer is not represented.  A buffer a function may write is the list or
  the function of its contents after the call.
\<close>

section \<open>The modules\<close>

type_synonym ck_module = nat

record 'w ck_function_list =
  f_GetSlotList :: "ck_module \<Rightarrow> bool \<Rightarrow> ck_ulong option \<Rightarrow> 'w \<Rightarrow> 'w \<times> ck_rv \<times> ck_ulong \<times> (nat \<Rightarrow> ck_ulong)"
  f_GetSlotInfo :: "ck_module \<Rightarrow> ck_ulong \<Rightarrow> 'w \<Rightarrow> 'w \<times> ck_rv \<times> ck_slot_info"
  f_GetTokenInfo :: "ck_module \<Rightarrow> ck_ulong \<Rightarrow> 'w \<Rightarrow> 'w \<times> ck_rv \<times> ck_token_info"
  f_GetMechanismList :: "ck_module \<Rightarrow> ck_ulong \<Rightarrow> ck_ulong option \<Rightarrow> 'w \<Rightarrow> 'w \<times> ck_rv \<times> ck_ulong \<times> (nat \<Rightarrow> ck_ulong)"
  f_OpenSession :: "ck_module \<Rightarrow> ck_ulong \<Rightarrow> ck_ulong \<Rightarrow> 'w \<Rightarrow> 'w \<times> ck_rv \<times> ck_ulong"
  f_CloseSession :: "ck_module \<Rightarrow> ck_ulong \<Rightarrow> 'w \<Rightarrow> 'w"
  f_GetSessionInfo :: "ck_module \<Rightarrow> ck_ulong \<Rightarrow> 'w \<Rightarrow> 'w \<times> ck_rv \<times> ck_session_info"
  f_Login :: "ck_module \<Rightarrow> ck_ulong \<Rightarrow> ck_ulong \<Rightarrow> bytes option \<Rightarrow> 'w \<Rightarrow> 'w \<times> ck_rv"
  f_FindObjectsInit :: "ck_module \<Rightarrow> ck_ulong \<Rightarrow> ck_attribute list \<Rightarrow> 'w \<Rightarrow> 'w \<times> ck_rv"
  f_FindObjects :: "ck_module \<Rightarrow> ck_ulong \<Rightarrow> nat \<Rightarrow> 'w \<Rightarrow> 'w \<times> ck_rv \<times> ck_ulong \<times> (nat \<Rightarrow> ck_ulong)"
  f_FindObjectsFinal :: "ck_module \<Rightarrow> ck_ulong \<Rightarrow> 'w \<Rightarrow> 'w"
  f_GetAttributeValue :: "ck_module \<Rightarrow> ck_ulong \<Rightarrow> ck_ulong \<Rightarrow> ck_ulong \<Rightarrow> bytes option \<Rightarrow> ck_ulong \<Rightarrow> 'w
      \<Rightarrow> 'w \<times> ck_rv \<times> ck_ulong \<times> bytes"
  f_SignInit :: "ck_module \<Rightarrow> ck_ulong \<Rightarrow> ck_mechanism \<Rightarrow> ck_ulong \<Rightarrow> 'w \<Rightarrow> 'w \<times> ck_rv"
  f_Sign :: "ck_module \<Rightarrow> ck_ulong \<Rightarrow> bytes \<Rightarrow> ck_ulong option \<Rightarrow> 'w \<Rightarrow> 'w \<times> ck_rv \<times> ck_ulong \<times> bytes"
  f_DecryptInit :: "ck_module \<Rightarrow> ck_ulong \<Rightarrow> ck_mechanism \<Rightarrow> ck_ulong \<Rightarrow> 'w \<Rightarrow> 'w \<times> ck_rv"
  f_Decrypt :: "ck_module \<Rightarrow> ck_ulong \<Rightarrow> bytes \<Rightarrow> ck_ulong option \<Rightarrow> 'w \<Rightarrow> 'w \<times> ck_rv \<times> ck_ulong \<times> bytes"

text \<open>\<open>overwrite old w\<close>: a buffer with contents \<open>old\<close> after a module wrote \<open>w\<close> from its start.\<close>

definition overwrite :: "bytes \<Rightarrow> bytes \<Rightarrow> bytes" where
  "overwrite old w = take (length old) w @ drop (length w) old"

lemma length_overwrite [simp]: "length (overwrite old w) = length old"
  by (simp add: overwrite_def min_def)

section \<open>Errors and strings\<close>

datatype pkcs11_error = CERTIFICATE_PKCS11_ERROR_FAILED | CERTIFICATE_PKCS11_ERROR_PIN_INCORRECT
  | CERTIFICATE_PKCS11_ERROR_PIN_LOCKED | CERTIFICATE_PKCS11_ERROR_TOKEN_REMOVED
  | CERTIFICATE_PKCS11_ERROR_CANCELLED | CERTIFICATE_PKCS11_ERROR_NOT_SUPPORTED
  | CERTIFICATE_PKCS11_ERROR_NO_PRIVATE_KEY | CERTIFICATE_PKCS11_ERROR_LOGIN_TIMEOUT
  | CERTIFICATE_PKCS11_ERROR_NO_DISPLAY | CERTIFICATE_PKCS11_ERROR_ENUMERATION_LIMIT

definition certificate_pkcs11_error_code :: "ck_rv \<Rightarrow> pkcs11_error" where
  "certificate_pkcs11_error_code rv =
     (case rv of
        CKR_PIN_INCORRECT \<Rightarrow> CERTIFICATE_PKCS11_ERROR_PIN_INCORRECT
      | CKR_PIN_INVALID \<Rightarrow> CERTIFICATE_PKCS11_ERROR_PIN_INCORRECT
      | CKR_PIN_LEN_RANGE \<Rightarrow> CERTIFICATE_PKCS11_ERROR_PIN_INCORRECT
      | CKR_PIN_LOCKED \<Rightarrow> CERTIFICATE_PKCS11_ERROR_PIN_LOCKED
      | CKR_TOKEN_NOT_PRESENT \<Rightarrow> CERTIFICATE_PKCS11_ERROR_TOKEN_REMOVED
      | CKR_DEVICE_REMOVED \<Rightarrow> CERTIFICATE_PKCS11_ERROR_TOKEN_REMOVED
      | CKR_SESSION_HANDLE_INVALID \<Rightarrow> CERTIFICATE_PKCS11_ERROR_TOKEN_REMOVED
      | CKR_CANCEL \<Rightarrow> CERTIFICATE_PKCS11_ERROR_CANCELLED
      | CKR_FUNCTION_CANCELED \<Rightarrow> CERTIFICATE_PKCS11_ERROR_CANCELLED
      | CKR_MECHANISM_INVALID \<Rightarrow> CERTIFICATE_PKCS11_ERROR_NOT_SUPPORTED
      | CKR_MECHANISM_PARAM_INVALID \<Rightarrow> CERTIFICATE_PKCS11_ERROR_NOT_SUPPORTED
      | CKR_FUNCTION_NOT_SUPPORTED \<Rightarrow> CERTIFICATE_PKCS11_ERROR_NOT_SUPPORTED
      | _ \<Rightarrow> CERTIFICATE_PKCS11_ERROR_FAILED)"

text \<open>The text functions of p11-kit and GLib: trimming, validation and repair of UTF-8.\<close>

record text_env =
  x_space_strdup :: "bytes \<Rightarrow> string option"
  x_utf8_validate :: "string \<Rightarrow> bool"
  x_utf8_make_valid :: "string \<Rightarrow> string"

definition certificate_pkcs11_string :: "text_env \<Rightarrow> bytes option \<Rightarrow> string" where
  "certificate_pkcs11_string x field =
     (case field of
        None \<Rightarrow> []
      | Some f \<Rightarrow>
          if length f = 0 then []
          else (case x_space_strdup x f of
              None \<Rightarrow> []
            | Some raw \<Rightarrow> if \<not> x_utf8_validate x raw then x_utf8_make_valid x raw else raw))"

section \<open>Attributes\<close>

abbreviation CERTIFICATE_PKCS11_ATTRIBUTE_MAX :: nat where "CERTIFICATE_PKCS11_ATTRIBUTE_MAX \<equiv> 64 * 1024"

text \<open>The buffer of the second read is fresh and not initialised: its contents \<open>junk\<close> are arbitrary.\<close>

definition certificate_pkcs11_get_attribute ::
  "'w ck_function_list \<Rightarrow> (nat \<Rightarrow> byte) \<Rightarrow> ck_module \<Rightarrow> ck_ulong \<Rightarrow> ck_ulong \<Rightarrow> ck_ulong \<Rightarrow> 'w \<Rightarrow> 'w \<times> bytes option" where
  "certificate_pkcs11_get_attribute F junk md session ob type w0 =
     (case f_GetAttributeValue F md session ob type None 0 w0 of
        (w1, rv, len, _) \<Rightarrow>
          if rv \<noteq> CKR_OK \<or> len = CK_UNAVAILABLE_INFORMATION \<or> len = 0 then (w1, None)
          else if unat len > CERTIFICATE_PKCS11_ATTRIBUTE_MAX then (w1, None)
          else
            (let buffer = map junk [0..<unat len]
             in case f_GetAttributeValue F md session ob type (Some buffer) len w1 of
                (w2, rv2, len2, written) \<Rightarrow>
                  if rv2 \<noteq> CKR_OK \<or> unat len2 > unat len then (w2, None)
                  else (w2, Some (take (unat len2) (overwrite buffer written)))))"

definition certificate_pkcs11_get_bool ::
  "'w ck_function_list \<Rightarrow> ck_module \<Rightarrow> ck_ulong \<Rightarrow> ck_ulong \<Rightarrow> ck_ulong \<Rightarrow> bool \<Rightarrow> 'w \<Rightarrow> 'w \<times> bool" where
  "certificate_pkcs11_get_bool F md session ob type fallback w0 =
     (case f_GetAttributeValue F md session ob type (Some [0]) 1 w0 of
        (w1, rv, _, written) \<Rightarrow>
          (w1, if rv \<noteq> CKR_OK then fallback else overwrite [0] written ! 0 \<noteq> 0))"

definition certificate_pkcs11_get_ulong ::
  "'w ck_function_list \<Rightarrow> ck_module \<Rightarrow> ck_ulong \<Rightarrow> ck_ulong \<Rightarrow> ck_ulong \<Rightarrow> 'w \<Rightarrow> 'w \<times> ck_ulong option" where
  "certificate_pkcs11_get_ulong F md session ob type w0 =
     (case f_GetAttributeValue F md session ob type (Some (le_bytes 0)) 8 w0 of
        (w1, rv, _, written) \<Rightarrow>
          (w1, if rv \<noteq> CKR_OK then None else Some (le_ulong (overwrite (le_bytes 0) written))))"

section \<open>Searches\<close>

abbreviation CERTIFICATE_PKCS11_OBJECT_MAX :: nat where "CERTIFICATE_PKCS11_OBJECT_MAX \<equiv> 16384"

lemma word_found_pos: "(n :: ck_ulong) \<noteq> 0 \<Longrightarrow> 0 < unat n"
  by (simp add: unat_gt_0)

text \<open>The \<open>for (;;)\<close> loop.  Every batch it appends has an object, and the limit stops it.\<close>

function find_objects_loop ::
  "'w ck_function_list \<Rightarrow> ck_module \<Rightarrow> ck_ulong \<Rightarrow> ck_ulong list \<Rightarrow> 'w \<Rightarrow> 'w \<times> (pkcs11_error + ck_ulong list)" where
  "find_objects_loop F md session handles w =
     (case f_FindObjects F md session 32 w of
        (w1, rv, found, batch) \<Rightarrow>
          if rv \<noteq> CKR_OK
          then (f_FindObjectsFinal F md session w1, Inl (certificate_pkcs11_error_code rv))
          else if found = 0 then (f_FindObjectsFinal F md session w1, Inr handles)
          else if unat found > 32 \<or> unat found > CERTIFICATE_PKCS11_OBJECT_MAX - length handles
          then (f_FindObjectsFinal F md session w1, Inl CERTIFICATE_PKCS11_ERROR_ENUMERATION_LIMIT)
          else find_objects_loop F md session (handles @ map batch [0..<unat found]) w1)"
  by pat_completeness auto
termination
  by (relation "measure (\<lambda>(F, md, session, handles, w). CERTIFICATE_PKCS11_OBJECT_MAX - length handles)")
     (auto dest!: word_found_pos)

declare find_objects_loop.simps [simp del]

definition certificate_pkcs11_find_objects ::
  "'w ck_function_list \<Rightarrow> ck_module \<Rightarrow> ck_ulong \<Rightarrow> ck_attribute list \<Rightarrow> 'w \<Rightarrow> 'w \<times> (pkcs11_error + ck_ulong list)" where
  "certificate_pkcs11_find_objects F md session templ w0 =
     (case f_FindObjectsInit F md session templ w0 of
        (w1, rv) \<Rightarrow>
          if rv \<noteq> CKR_OK then (w1, Inl (certificate_pkcs11_error_code rv))
          else find_objects_loop F md session [] w1)"

section \<open>Mechanisms\<close>

text \<open>
  The array has the size of the first answer and the loop runs to the second: \<open>list\<close> is the
  memory from the start of the array on, past its end where a module raised the count.
\<close>

definition certificate_pkcs11_has_mechanism ::
  "'w ck_function_list \<Rightarrow> ck_module \<Rightarrow> ck_ulong \<Rightarrow> ck_ulong \<Rightarrow> 'w \<Rightarrow> 'w \<times> bool" where
  "certificate_pkcs11_has_mechanism F md slot mechanism w0 =
     (case f_GetMechanismList F md slot None w0 of
        (w1, rv, n, _) \<Rightarrow>
          if rv \<noteq> CKR_OK \<or> n = 0 then (w1, False)
          else (case f_GetMechanismList F md slot (Some n) w1 of
              (w2, rv2, n2, list) \<Rightarrow>
                if rv2 \<noteq> CKR_OK then (w2, False)
                else (w2, list_ex (\<lambda>i. list i = mechanism) [0..<unat n2])))"

section \<open>Observing the calls\<close>

text \<open>
  \<open>recording F\<close> is \<open>F\<close> with a log: its state is the list of the calls made so far, oldest first,
  next to the state of \<open>F\<close>.  What a routine does with \<open>recording F\<close> it does with \<open>F\<close>.
\<close>

datatype token_call = Call_GetSlotList ck_module | Call_GetSlotInfo ck_module ck_ulong
  | Call_GetTokenInfo ck_module ck_ulong | Call_GetMechanismList ck_module ck_ulong
  | Call_OpenSession ck_module ck_ulong ck_rv ck_ulong | Call_CloseSession ck_module ck_ulong
  | Call_GetSessionInfo ck_module ck_ulong | Call_Login ck_module ck_ulong ck_ulong ck_rv
  | Call_FindObjectsInit ck_module ck_ulong | Call_FindObjects ck_module ck_ulong
  | Call_FindObjectsFinal ck_module ck_ulong | Call_GetAttributeValue ck_module ck_ulong ck_ulong ck_ulong
  | Call_SignInit ck_module ck_ulong ck_ulong ck_rv | Call_Sign ck_module ck_ulong bytes
  | Call_DecryptInit ck_module ck_ulong ck_ulong ck_rv | Call_Decrypt ck_module ck_ulong bytes

definition tap :: "('r \<Rightarrow> token_call) \<Rightarrow> ('w \<Rightarrow> 'w \<times> 'r) \<Rightarrow> token_call list \<times> 'w \<Rightarrow> (token_call list \<times> 'w) \<times> 'r" where
  "tap c f s = (case f (snd s) of (w, r) \<Rightarrow> ((fst s @ [c r], w), r))"

definition tap_quiet :: "token_call \<Rightarrow> ('w \<Rightarrow> 'w) \<Rightarrow> token_call list \<times> 'w \<Rightarrow> token_call list \<times> 'w" where
  "tap_quiet c f s = (fst s @ [c], f (snd s))"

definition recording :: "'w ck_function_list \<Rightarrow> (token_call list \<times> 'w) ck_function_list" where
  "recording F =
     \<lparr>f_GetSlotList = \<lambda>m b n. tap (\<lambda>_. Call_GetSlotList m) (f_GetSlotList F m b n),
      f_GetSlotInfo = \<lambda>m s. tap (\<lambda>_. Call_GetSlotInfo m s) (f_GetSlotInfo F m s),
      f_GetTokenInfo = \<lambda>m s. tap (\<lambda>_. Call_GetTokenInfo m s) (f_GetTokenInfo F m s),
      f_GetMechanismList = \<lambda>m s n. tap (\<lambda>_. Call_GetMechanismList m s) (f_GetMechanismList F m s n),
      f_OpenSession = \<lambda>m s fl. tap (\<lambda>(rv, h). Call_OpenSession m s rv h) (f_OpenSession F m s fl),
      f_CloseSession = \<lambda>m h. tap_quiet (Call_CloseSession m h) (f_CloseSession F m h),
      f_GetSessionInfo = \<lambda>m h. tap (\<lambda>_. Call_GetSessionInfo m h) (f_GetSessionInfo F m h),
      f_Login = \<lambda>m h u p. tap (\<lambda>rv. Call_Login m h u rv) (f_Login F m h u p),
      f_FindObjectsInit = \<lambda>m h t. tap (\<lambda>_. Call_FindObjectsInit m h) (f_FindObjectsInit F m h t),
      f_FindObjects = \<lambda>m h n. tap (\<lambda>_. Call_FindObjects m h) (f_FindObjects F m h n),
      f_FindObjectsFinal = \<lambda>m h. tap_quiet (Call_FindObjectsFinal m h) (f_FindObjectsFinal F m h),
      f_GetAttributeValue = \<lambda>m h ob ty b n. tap (\<lambda>_. Call_GetAttributeValue m h ob ty) (f_GetAttributeValue F m h ob ty b n),
      f_SignInit = \<lambda>m h mech k. tap (\<lambda>rv. Call_SignInit m h k rv) (f_SignInit F m h mech k),
      f_Sign = \<lambda>m h d n. tap (\<lambda>_. Call_Sign m h d) (f_Sign F m h d n),
      f_DecryptInit = \<lambda>m h mech k. tap (\<lambda>rv. Call_DecryptInit m h k rv) (f_DecryptInit F m h mech k),
      f_Decrypt = \<lambda>m h d n. tap (\<lambda>_. Call_Decrypt m h d) (f_Decrypt F m h d n)\<rparr>"

lemma recording_fields:
  "f_GetSlotList (recording F) = (\<lambda>m b n. tap (\<lambda>_. Call_GetSlotList m) (f_GetSlotList F m b n))"
  "f_GetSlotInfo (recording F) = (\<lambda>m s. tap (\<lambda>_. Call_GetSlotInfo m s) (f_GetSlotInfo F m s))"
  "f_GetTokenInfo (recording F) = (\<lambda>m s. tap (\<lambda>_. Call_GetTokenInfo m s) (f_GetTokenInfo F m s))"
  "f_GetMechanismList (recording F) = (\<lambda>m s n. tap (\<lambda>_. Call_GetMechanismList m s) (f_GetMechanismList F m s n))"
  "f_OpenSession (recording F) = (\<lambda>m s fl. tap (\<lambda>(rv, h). Call_OpenSession m s rv h) (f_OpenSession F m s fl))"
  "f_CloseSession (recording F) = (\<lambda>m h. tap_quiet (Call_CloseSession m h) (f_CloseSession F m h))"
  "f_GetSessionInfo (recording F) = (\<lambda>m h. tap (\<lambda>_. Call_GetSessionInfo m h) (f_GetSessionInfo F m h))"
  "f_Login (recording F) = (\<lambda>m h u p. tap (\<lambda>rv. Call_Login m h u rv) (f_Login F m h u p))"
  "f_FindObjectsInit (recording F) = (\<lambda>m h t. tap (\<lambda>_. Call_FindObjectsInit m h) (f_FindObjectsInit F m h t))"
  "f_FindObjects (recording F) = (\<lambda>m h n. tap (\<lambda>_. Call_FindObjects m h) (f_FindObjects F m h n))"
  "f_FindObjectsFinal (recording F) = (\<lambda>m h. tap_quiet (Call_FindObjectsFinal m h) (f_FindObjectsFinal F m h))"
  "f_GetAttributeValue (recording F) = (\<lambda>m h ob ty b n. tap (\<lambda>_. Call_GetAttributeValue m h ob ty) (f_GetAttributeValue F m h ob ty b n))"
  "f_SignInit (recording F) = (\<lambda>m h mech k. tap (\<lambda>rv. Call_SignInit m h k rv) (f_SignInit F m h mech k))"
  "f_Sign (recording F) = (\<lambda>m h d n. tap (\<lambda>_. Call_Sign m h d) (f_Sign F m h d n))"
  "f_DecryptInit (recording F) = (\<lambda>m h mech k. tap (\<lambda>rv. Call_DecryptInit m h k rv) (f_DecryptInit F m h mech k))"
  "f_Decrypt (recording F) = (\<lambda>m h d n. tap (\<lambda>_. Call_Decrypt m h d) (f_Decrypt F m h d n))"
  by (simp_all add: recording_def)

lemma tap_pair:
  "tap c f (l, w) = (case f w of (w', r) \<Rightarrow> ((l @ [c r], w'), r))"
  "tap_quiet d g (l, w) = (l @ [d], g w)"
  by (simp_all add: tap_def tap_quiet_def)

lemmas recording_simps = recording_fields tap_pair

text \<open>
  A protocol of calls is a partial transition function; \<open>follows step p q s s'\<close> says that the calls
  logged between two states lead it from \<open>p\<close> to \<open>q\<close>.
\<close>

fun protocol_run :: "('p \<Rightarrow> token_call \<Rightarrow> 'p option) \<Rightarrow> 'p \<Rightarrow> token_call list \<Rightarrow> 'p option" where
  "protocol_run step p [] = Some p"
| "protocol_run step p (c # cs) = (case step p c of None \<Rightarrow> None | Some q \<Rightarrow> protocol_run step q cs)"

lemma protocol_run_append:
  "protocol_run step p (cs @ ds) = (case protocol_run step p cs of None \<Rightarrow> None | Some q \<Rightarrow> protocol_run step q ds)"
  by (induction cs arbitrary: p) (auto split: option.splits)

lemma protocol_run_replicate: "step p c = Some p \<Longrightarrow> protocol_run step p (replicate n c) = Some p"
  by (induction n) auto

definition follows ::
  "('p \<Rightarrow> token_call \<Rightarrow> 'p option) \<Rightarrow> 'p \<Rightarrow> 'p \<Rightarrow> token_call list \<times> 'w \<Rightarrow> token_call list \<times> 'w \<Rightarrow> bool" where
  "follows step p q s t \<longleftrightarrow> (\<exists>cs. fst t = fst s @ cs \<and> protocol_run step p cs = Some q)"

lemma follows_refl [simp]: "follows step p p s s"
  by (auto simp: follows_def)

lemma follows_trans [trans]: "follows step p q s t \<Longrightarrow> follows step q r t u \<Longrightarrow> follows step p r s u"
  by (force simp: follows_def protocol_run_append)

lemma follows_tap: "tap c f s = (t, r) \<Longrightarrow> step p (c r) = Some q \<Longrightarrow> follows step p q s t"
  by (cases s) (auto simp: tap_pair follows_def split: prod.splits)

lemma follows_tap_quiet: "tap_quiet c f s = t \<Longrightarrow> step p c = Some q \<Longrightarrow> follows step p q s t"
  by (cases s) (auto simp: tap_pair follows_def)

text \<open>
  The loop ends by \<open>C_FindObjectsFinal\<close> on every path; before it come at most one
  \<open>C_FindObjects\<close> per object still allowed, and one more.
\<close>

lemma find_objects_loop_recording:
  assumes "length handles \<le> CERTIFICATE_PKCS11_OBJECT_MAX"
  shows "\<exists>n. n \<le> CERTIFICATE_PKCS11_OBJECT_MAX - length handles \<and>
    find_objects_loop (recording F) md session handles (l, w) =
      (case find_objects_loop F md session handles w of (w', r) \<Rightarrow>
        ((l @ replicate (Suc n) (Call_FindObjects md session) @ [Call_FindObjectsFinal md session], w'), r)) \<and>
    (\<forall>hs. snd (find_objects_loop F md session handles w) = Inr hs \<longrightarrow>
       length hs \<le> CERTIFICATE_PKCS11_OBJECT_MAX \<and> length handles + n \<le> length hs)"
  using assms
proof (induction F md session handles w arbitrary: l rule: find_objects_loop.induct)
  case (1 F md session handles w)
  obtain w1 rv found batch where f: "f_FindObjects F md session 32 w = (w1, rv, found, batch)"
    by (cases "f_FindObjects F md session 32 w") auto
  let ?more = "rv = CKR_OK \<and> found \<noteq> 0 \<and> \<not> (unat found > 32 \<or> unat found > CERTIFICATE_PKCS11_OBJECT_MAX - length handles)"
  let ?hs = "handles @ map batch [0..<unat found]"
  show ?case
  proof (cases ?more)
    case True
    then have pos: "0 < unat found" and len: "length ?hs \<le> CERTIFICATE_PKCS11_OBJECT_MAX"
      using 1(2) by (auto dest: word_found_pos)
    from 1(1) [OF f [symmetric] refl refl _ _ _ len, of "l @ [Call_FindObjects md session]"] True
    obtain n where n: "n \<le> CERTIFICATE_PKCS11_OBJECT_MAX - length ?hs"
      "find_objects_loop (recording F) md session ?hs (l @ [Call_FindObjects md session], w1) =
        (case find_objects_loop F md session ?hs w1 of (w', r) \<Rightarrow>
          (((l @ [Call_FindObjects md session]) @ replicate (Suc n) (Call_FindObjects md session)
             @ [Call_FindObjectsFinal md session], w'), r))"
      "\<forall>hs. snd (find_objects_loop F md session ?hs w1) = Inr hs \<longrightarrow>
        length hs \<le> CERTIFICATE_PKCS11_OBJECT_MAX \<and> length ?hs + n \<le> length hs"
      by auto
    with True f pos show ?thesis
      by (intro exI [of _ "Suc n"])
         (auto simp: find_objects_loop.simps [of F md session handles w]
           find_objects_loop.simps [of "recording F" md session handles "(l, w)"] recording_simps split: prod.splits)
  next
    case False
    with f 1(2) show ?thesis
      by (intro exI [of _ 0])
         (auto simp: find_objects_loop.simps [of F md session handles w]
           find_objects_loop.simps [of "recording F" md session handles "(l, w)"] recording_simps)
  qed
qed

lemma find_objects_follows:
  assumes "certificate_pkcs11_find_objects (recording F) md session templ s = (t, r)"
    and "step p (Call_FindObjectsInit md session) = Some p" and "step p (Call_FindObjects md session) = Some p"
    and "step p (Call_FindObjectsFinal md session) = Some p"
  shows "follows step p p s t"
proof -
  obtain l w where s: "s = (l, w)" by (cases s)
  obtain w1 rv where i: "f_FindObjectsInit F md session templ w = (w1, rv)" by fastforce
  obtain w2 q where l: "find_objects_loop F md session [] w1 = (w2, q)" by fastforce
  have run: "protocol_run step p (Call_FindObjectsInit md session #
      replicate (Suc n) (Call_FindObjects md session) @ [Call_FindObjectsFinal md session]) = Some p" for n
    using assms(2-4) protocol_run_replicate [of step p _ n] by (simp add: protocol_run_append)
  show ?thesis
  proof (cases "rv = CKR_OK")
    case True
    with find_objects_loop_recording [of "[]" F md session "l @ [Call_FindObjectsInit md session]" w1] assms(1) s i l
    obtain n where "fst t = l @ (Call_FindObjectsInit md session #
        replicate (Suc n) (Call_FindObjects md session) @ [Call_FindObjectsFinal md session])"
      by (auto simp: certificate_pkcs11_find_objects_def recording_simps)
    with run [of n] s show ?thesis unfolding follows_def by (metis fst_conv)
  qed (use assms(1,2) s i in \<open>auto simp: certificate_pkcs11_find_objects_def recording_simps follows_def\<close>)
qed

lemma get_attribute_follows:
  assumes "certificate_pkcs11_get_attribute (recording F) junk md session ob type s = (t, r)"
    and "step p (Call_GetAttributeValue md session ob type) = Some p"
  shows "follows step p p s t"
  using assms by (cases s)
    (auto simp: certificate_pkcs11_get_attribute_def recording_simps follows_def Let_def split: prod.splits if_splits)

lemma get_bool_follows:
  assumes "certificate_pkcs11_get_bool (recording F) md session ob type b s = (t, r)"
    and "step p (Call_GetAttributeValue md session ob type) = Some p"
  shows "follows step p p s t"
  using assms by (cases s)
    (auto simp: certificate_pkcs11_get_bool_def recording_simps follows_def split: prod.splits if_splits)

lemma has_mechanism_follows:
  assumes "certificate_pkcs11_has_mechanism (recording F) md slot mechanism s = (t, r)"
    and "step p (Call_GetMechanismList md slot) = Some p"
  shows "follows step p p s t"
  using assms by (cases s)
    (auto simp: certificate_pkcs11_has_mechanism_def recording_simps follows_def split: prod.splits if_splits)

text \<open>Whatever a module answers, a search ends; it makes at most 16,385 calls of
  \<open>C_FindObjects\<close>, returns at most 16,384 handles, at least one per call but the last, and
  ends the search it started exactly once, after an error too.\<close>

lemma enumeration_bounded:
  "\<exists>w' result calls.
     certificate_pkcs11_find_objects F md session templ w = (w', result) \<and>
     certificate_pkcs11_find_objects (recording F) md session templ (l, w) = ((l @ calls, w'), result) \<and>
     (if snd (f_FindObjectsInit F md session templ w) \<noteq> CKR_OK then calls = [Call_FindObjectsInit md session]
      else (\<exists>n. n \<le> CERTIFICATE_PKCS11_OBJECT_MAX \<and>
        calls = Call_FindObjectsInit md session #
          replicate (Suc n) (Call_FindObjects md session) @ [Call_FindObjectsFinal md session] \<and>
        (case result of Inl _ \<Rightarrow> True
         | Inr handles \<Rightarrow> n \<le> length handles \<and> length handles \<le> CERTIFICATE_PKCS11_OBJECT_MAX)))"
proof -
  obtain w1 rv where i: "f_FindObjectsInit F md session templ w = (w1, rv)" by fastforce
  obtain w' result where l: "find_objects_loop F md session [] w1 = (w', result)" by fastforce
  from find_objects_loop_recording [of "[]" F md session "l @ [Call_FindObjectsInit md session]" w1] l i
  show ?thesis
    by (cases "rv = CKR_OK")
       (auto simp: certificate_pkcs11_find_objects_def recording_simps split: sum.splits)
qed

end
