(* ===== verification/BrokerMechanism.thy ===== *)
theory BrokerMechanism
  imports ModuleSign
begin

text \<open>
  The broker's mechanisms (\<open>src/broker/mechanism.c\<close>): parsing of a portal request's mechanism name
  and parameters against the key, the PKCS#11 mechanism it becomes, the preparation of the input
  (a \<open>DigestInfo\<close> prefix for PKCS#1 v1.5) and the DER form of raw ECDSA signatures.  A \<open>GVariant\<close>
  dictionary is an association list; a \<open>GError\<close> is its code, without the message text.
\<close>

section \<open>Hashes\<close>

datatype certificate_hash = CERTIFICATE_HASH_NONE | CERTIFICATE_HASH_SHA1 | CERTIFICATE_HASH_SHA224
  | CERTIFICATE_HASH_SHA256 | CERTIFICATE_HASH_SHA384 | CERTIFICATE_HASH_SHA512

definition digest_info_sha1 :: bytes where
  "digest_info_sha1 =
     [0x30, 0x21] @ [0x30, 0x09] @ [0x06, 0x05] @ [0x2b, 0x0e, 0x03, 0x02, 0x1a]
       @ [0x05, 0x00] @ [0x04, 0x14]"
definition digest_info_sha224 :: bytes where
  "digest_info_sha224 =
     [0x30, 0x2d] @ [0x30, 0x0d] @ [0x06, 0x09] @ [0x60, 0x86, 0x48, 0x01, 0x65, 0x03, 0x04, 0x02, 0x04]
       @ [0x05, 0x00] @ [0x04, 0x1c]"
definition digest_info_sha256 :: bytes where
  "digest_info_sha256 =
     [0x30, 0x31] @ [0x30, 0x0d] @ [0x06, 0x09] @ [0x60, 0x86, 0x48, 0x01, 0x65, 0x03, 0x04, 0x02, 0x01]
       @ [0x05, 0x00] @ [0x04, 0x20]"
definition digest_info_sha384 :: bytes where
  "digest_info_sha384 =
     [0x30, 0x41] @ [0x30, 0x0d] @ [0x06, 0x09] @ [0x60, 0x86, 0x48, 0x01, 0x65, 0x03, 0x04, 0x02, 0x02]
       @ [0x05, 0x00] @ [0x04, 0x30]"
definition digest_info_sha512 :: bytes where
  "digest_info_sha512 =
     [0x30, 0x51] @ [0x30, 0x0d] @ [0x06, 0x09] @ [0x60, 0x86, 0x48, 0x01, 0x65, 0x03, 0x04, 0x02, 0x03]
       @ [0x05, 0x00] @ [0x04, 0x40]"

record broker_hash_row =
  bh_name :: string
  bh_hash :: certificate_hash
  bh_length :: nat
  bh_ck_hash :: ck_ulong
  bh_mgf :: ck_ulong
  bh_digest_info :: bytes

definition broker_hash_table :: "broker_hash_row list" where
  "broker_hash_table =
    [\<lparr>bh_name = ''SHA1'', bh_hash = CERTIFICATE_HASH_SHA1, bh_length = 20, bh_ck_hash = CKM_SHA_1,
      bh_mgf = CKG_MGF1_SHA1, bh_digest_info = digest_info_sha1\<rparr>,
     \<lparr>bh_name = ''SHA224'', bh_hash = CERTIFICATE_HASH_SHA224, bh_length = 28, bh_ck_hash = CKM_SHA224,
      bh_mgf = CKG_MGF1_SHA224, bh_digest_info = digest_info_sha224\<rparr>,
     \<lparr>bh_name = ''SHA256'', bh_hash = CERTIFICATE_HASH_SHA256, bh_length = 32, bh_ck_hash = CKM_SHA256,
      bh_mgf = CKG_MGF1_SHA256, bh_digest_info = digest_info_sha256\<rparr>,
     \<lparr>bh_name = ''SHA384'', bh_hash = CERTIFICATE_HASH_SHA384, bh_length = 48, bh_ck_hash = CKM_SHA384,
      bh_mgf = CKG_MGF1_SHA384, bh_digest_info = digest_info_sha384\<rparr>,
     \<lparr>bh_name = ''SHA512'', bh_hash = CERTIFICATE_HASH_SHA512, bh_length = 64, bh_ck_hash = CKM_SHA512,
      bh_mgf = CKG_MGF1_SHA512, bh_digest_info = digest_info_sha512\<rparr>]"

definition broker_hash_entry :: "certificate_hash \<Rightarrow> broker_hash_row option" where
  "broker_hash_entry hash = List.find (\<lambda>r. bh_hash r = hash) broker_hash_table"

definition certificate_hash_parse :: "string option \<Rightarrow> certificate_hash option" where
  "certificate_hash_parse name =
     (case name of
        None \<Rightarrow> None
      | Some n \<Rightarrow> map_option bh_hash (List.find (\<lambda>r. strcaseeq n (bh_name r) \<or>
          strcaseeq n (''SHA-'' @ drop 3 (bh_name r))) broker_hash_table))"

definition certificate_hash_to_string :: "certificate_hash \<Rightarrow> string" where
  "certificate_hash_to_string hash =
     (case broker_hash_entry hash of Some r \<Rightarrow> bh_name r | None \<Rightarrow> ''NONE'')"

definition certificate_hash_length :: "certificate_hash \<Rightarrow> nat" where
  "certificate_hash_length hash = (case broker_hash_entry hash of Some r \<Rightarrow> bh_length r | None \<Rightarrow> 0)"

section \<open>Parameters\<close>

datatype gvariant = GV_string string | GV_uint32 guint | GV_bytes bytes | GV_other string

datatype mechanism_error = INVALID_ARGUMENT | NOT_SUPPORTED | INVALID_DATA

datatype signature_encoding = CERTIFICATE_SIGNATURE_RAW | CERTIFICATE_SIGNATURE_DER

type_synonym parameters = "(string \<times> gvariant) list option"

definition lookup_value :: "parameters \<Rightarrow> string \<Rightarrow> gvariant option" where
  "lookup_value parameters key = (case parameters of None \<Rightarrow> None | Some ps \<Rightarrow> map_of ps key)"

text \<open>A key that is absent gives no string; a value of another type is an error.\<close>

definition lookup_string :: "parameters \<Rightarrow> string \<Rightarrow> mechanism_error + string option" where
  "lookup_string parameters key =
     (case lookup_value parameters key of
        None \<Rightarrow> Inr None
      | Some (GV_string t) \<Rightarrow> Inr (Some t)
      | Some _ \<Rightarrow> Inl INVALID_ARGUMENT)"

definition parse_encoding :: "parameters \<Rightarrow> mechanism_error + signature_encoding" where
  "parse_encoding parameters =
     (case lookup_string parameters ''signature_encoding'' of
        Inl e \<Rightarrow> Inl e
      | Inr None \<Rightarrow> Inr CERTIFICATE_SIGNATURE_RAW
      | Inr (Some text) \<Rightarrow>
          if text = ''raw'' then Inr CERTIFICATE_SIGNATURE_RAW
          else if text = ''der'' then Inr CERTIFICATE_SIGNATURE_DER
          else Inl INVALID_ARGUMENT)"

definition parse_hash :: "parameters \<Rightarrow> mechanism_error + certificate_hash" where
  "parse_hash parameters =
     (case lookup_value parameters ''hash'' of
        Some (GV_string text) \<Rightarrow>
          (case certificate_hash_parse (Some text) of None \<Rightarrow> Inl INVALID_ARGUMENT | Some h \<Rightarrow> Inr h)
      | _ \<Rightarrow> Inl INVALID_ARGUMENT)"

definition parameters_are_known :: "parameters \<Rightarrow> bool \<Rightarrow> bool" where
  "parameters_are_known parameters for_decrypt =
     (case parameters of
        None \<Rightarrow> True
      | Some ps \<Rightarrow> list_all (\<lambda>(key, _). key \<in> set
          (if for_decrypt then [''hash'', ''mgf1_hash'', ''label'']
           else [''hash'', ''mgf'', ''salt_length'', ''signature_encoding''])) ps)"

section \<open>Mechanisms\<close>

record certificate_mechanism =
  bm_name :: string
  bm_type :: ck_ulong
  bm_hash :: certificate_hash
  bm_encoding :: signature_encoding
  bm_pss :: "(ck_ulong \<times> ck_ulong \<times> ck_ulong) option" \<comment> \<open>hash, generator, salt length; \<open>has_pss\<close>\<close>
  bm_oaep :: "(ck_ulong \<times> ck_ulong) option" \<comment> \<open>hash, generator; \<open>has_oaep\<close>\<close>
  bm_label :: "bytes option"
  bm_expected_input :: nat
  bm_digest_info :: "bytes option"

abbreviation CERTIFICATE_MAX_LABEL_SIZE :: nat where "CERTIFICATE_MAX_LABEL_SIZE \<equiv> 256"

text \<open>\<open>mgf1_hash\<close> of a decryption: absent or the hash itself.\<close>

definition parse_mgf1_hash :: "parameters \<Rightarrow> certificate_hash \<Rightarrow> mechanism_error + unit" where
  "parse_mgf1_hash parameters hash =
     (case lookup_string parameters ''mgf1_hash'' of
        Inl e \<Rightarrow> Inl e
      | Inr None \<Rightarrow> Inr ()
      | Inr (Some t) \<Rightarrow>
          if certificate_hash_parse (Some t) = Some hash then Inr () else Inl INVALID_ARGUMENT)"

definition parse_label :: "parameters \<Rightarrow> mechanism_error + bytes option" where
  "parse_label parameters =
     (case lookup_value parameters ''label'' of
        None \<Rightarrow> Inr None
      | Some (GV_bytes b) \<Rightarrow>
          if length b > CERTIFICATE_MAX_LABEL_SIZE then Inl INVALID_ARGUMENT
          else Inr (if length b > 0 then Some b else None)
      | Some _ \<Rightarrow> Inl INVALID_ARGUMENT)"

definition parse_decrypt :: "string \<Rightarrow> parameters \<Rightarrow> string option \<Rightarrow> guint \<Rightarrow> mechanism_error + certificate_mechanism" where
  "parse_decrypt name parameters key_type key_size =
     (if name \<noteq> ''RSA_OAEP'' then Inl NOT_SUPPORTED
      else if key_type \<noteq> Some ''RSA'' then Inl NOT_SUPPORTED
      else case parse_hash parameters of
        Inl e \<Rightarrow> Inl e
      | Inr hash \<Rightarrow>
        (case (broker_hash_entry hash, parse_mgf1_hash parameters hash, parse_label parameters) of
           (None, _, _) \<Rightarrow> Inl INVALID_ARGUMENT
         | (Some entry, Inl e, _) \<Rightarrow> Inl e
         | (Some entry, Inr _, Inl e) \<Rightarrow> Inl e
         | (Some entry, Inr _, Inr label) \<Rightarrow>
             if unat (key_size div 8) < 2 * bh_length entry + 2 then Inl INVALID_ARGUMENT
             else Inr \<lparr>bm_name = name, bm_type = CKM_RSA_PKCS_OAEP, bm_hash = hash,
                       bm_encoding = CERTIFICATE_SIGNATURE_RAW, bm_pss = None,
                       bm_oaep = Some (bh_ck_hash entry, bh_mgf entry), bm_label = label,
                       bm_expected_input = unat (key_size div 8), bm_digest_info = None\<rparr>))"

definition parse_v15 :: "string \<Rightarrow> parameters \<Rightarrow> string option \<Rightarrow> guint \<Rightarrow> signature_encoding
    \<Rightarrow> mechanism_error + certificate_mechanism" where
  "parse_v15 name parameters key_type key_size encoding =
     (if key_type \<noteq> Some ''RSA'' then Inl NOT_SUPPORTED
      else case parse_hash parameters of
        Inl e \<Rightarrow> Inl e
      | Inr hash \<Rightarrow>
        (case broker_hash_entry hash of
           None \<Rightarrow> Inl INVALID_ARGUMENT
         | Some entry \<Rightarrow>
             if unat (key_size div 8) < length (bh_digest_info entry) + bh_length entry + 11
             then Inl INVALID_ARGUMENT
             else Inr \<lparr>bm_name = name, bm_type = CKM_RSA_PKCS, bm_hash = hash, bm_encoding = encoding,
                       bm_pss = None, bm_oaep = None, bm_label = None,
                       bm_expected_input = bh_length entry, bm_digest_info = Some (bh_digest_info entry)\<rparr>))"

text \<open>\<open>mgf\<close>: absent or \<open>MGF1\<close> mean the hash itself, \<open>MGF1-<hash>\<close> names one.\<close>

definition parse_pss_mgf :: "parameters \<Rightarrow> broker_hash_row \<Rightarrow> mechanism_error + certificate_hash" where
  "parse_pss_mgf parameters entry =
     (case lookup_string parameters ''mgf'' of
        Inl e \<Rightarrow> Inl e
      | Inr None \<Rightarrow> Inr (bh_hash entry)
      | Inr (Some mgf_name) \<Rightarrow>
          let rest = (if strncaseeq mgf_name ''MGF1-'' 5 then Some (drop 5 mgf_name)
                      else if strcaseeq mgf_name ''MGF1'' then Some (bh_name entry) else None)
          in (case certificate_hash_parse rest of None \<Rightarrow> Inl INVALID_ARGUMENT | Some h \<Rightarrow> Inr h))"

definition parse_salt_length :: "parameters \<Rightarrow> broker_hash_row \<Rightarrow> mechanism_error + guint" where
  "parse_salt_length parameters entry =
     (case lookup_value parameters ''salt_length'' of
        None \<Rightarrow> Inr (of_nat (bh_length entry))
      | Some (GV_uint32 n) \<Rightarrow> Inr n
      | Some _ \<Rightarrow> Inl INVALID_ARGUMENT)"

definition parse_pss :: "string \<Rightarrow> parameters \<Rightarrow> string option \<Rightarrow> guint \<Rightarrow> signature_encoding
    \<Rightarrow> mechanism_error + certificate_mechanism" where
  "parse_pss name parameters key_type key_size encoding =
     (if key_type \<noteq> Some ''RSA'' then Inl NOT_SUPPORTED
      else case parse_hash parameters of
        Inl e \<Rightarrow> Inl e
      | Inr hash \<Rightarrow>
        (case broker_hash_entry hash of
           None \<Rightarrow> Inl INVALID_ARGUMENT
         | Some entry \<Rightarrow>
           (case (parse_pss_mgf parameters entry, parse_salt_length parameters entry) of
              (Inl e, _) \<Rightarrow> Inl e
            | (Inr mgf_hash, Inl e) \<Rightarrow> Inl e
            | (Inr mgf_hash, Inr salt_length) \<Rightarrow>
                let em_length = (key_size - 1 + 7) div 8
                in if unat em_length < bh_length entry + unat salt_length + 2 then Inl INVALID_ARGUMENT
                   else Inr \<lparr>bm_name = name, bm_type = CKM_RSA_PKCS_PSS, bm_hash = hash,
                             bm_encoding = encoding,
                             bm_pss = Some (bh_ck_hash entry,
                               (case broker_hash_entry mgf_hash of Some r \<Rightarrow> bh_mgf r | None \<Rightarrow> 0),
                               ucast salt_length),
                             bm_oaep = None, bm_label = None, bm_expected_input = bh_length entry,
                             bm_digest_info = None\<rparr>)))"

definition parse_ecdsa :: "string \<Rightarrow> parameters \<Rightarrow> string option \<Rightarrow> signature_encoding
    \<Rightarrow> mechanism_error + certificate_mechanism" where
  "parse_ecdsa name parameters key_type encoding =
     (if key_type \<noteq> Some ''EC'' then Inl NOT_SUPPORTED
      else case parse_hash parameters of
        Inl e \<Rightarrow> Inl e
      | Inr hash \<Rightarrow> Inr \<lparr>bm_name = name, bm_type = CKM_ECDSA, bm_hash = hash, bm_encoding = encoding,
          bm_pss = None, bm_oaep = None, bm_label = None,
          bm_expected_input = certificate_hash_length hash, bm_digest_info = None\<rparr>)"

definition certificate_mechanism_parse ::
  "string option \<Rightarrow> parameters \<Rightarrow> string option \<Rightarrow> guint \<Rightarrow> bool \<Rightarrow> mechanism_error + certificate_mechanism" where
  "certificate_mechanism_parse name parameters key_type key_size for_decrypt =
     (case name of
        None \<Rightarrow> Inl INVALID_ARGUMENT
      | Some n \<Rightarrow>
          if \<not> parameters_are_known parameters for_decrypt then Inl INVALID_ARGUMENT
          else if for_decrypt then parse_decrypt n parameters key_type key_size
          else (case parse_encoding parameters of
              Inl e \<Rightarrow> Inl e
            | Inr encoding \<Rightarrow>
                if n = ''RSA_PKCS1_V1_5'' then parse_v15 n parameters key_type key_size encoding
                else if n = ''RSA_PSS'' then parse_pss n parameters key_type key_size encoding
                else if n = ''ECDSA'' then parse_ecdsa n parameters key_type encoding
                else Inl NOT_SUPPORTED))"

definition certificate_mechanism_to_ck :: "certificate_mechanism \<Rightarrow> ck_mechanism" where
  "certificate_mechanism_to_ck m =
     (case (bm_pss m, bm_oaep m) of
        (Some (hash, mgf, salt), _) \<Rightarrow>
          \<lparr>cm_mechanism = bm_type m, cm_pParameter = Some \<lparr>cp_hashAlg = hash, cp_mgf = mgf,
             cp_sLen_or_source = salt, cp_pSourceData = None, cp_ulSourceDataLen = 0\<rparr>,
           cm_ulParameterLen = PSS_PARAMS_SIZE\<rparr>
      | (None, Some (hash, mgf)) \<Rightarrow>
          \<lparr>cm_mechanism = bm_type m, cm_pParameter = Some \<lparr>cp_hashAlg = hash, cp_mgf = mgf,
             cp_sLen_or_source = CKZ_DATA_SPECIFIED, cp_pSourceData = bm_label m,
             cp_ulSourceDataLen = (case bm_label m of None \<Rightarrow> 0 | Some l \<Rightarrow> of_nat (length l))\<rparr>,
           cm_ulParameterLen = OAEP_PARAMS_SIZE\<rparr>
      | (None, None) \<Rightarrow>
          \<lparr>cm_mechanism = bm_type m, cm_pParameter = None, cm_ulParameterLen = 0\<rparr>)"

definition certificate_mechanism_prepare :: "certificate_mechanism \<Rightarrow> bytes \<Rightarrow> mechanism_error + bytes" where
  "certificate_mechanism_prepare m data =
     (if bm_expected_input m \<noteq> 0 \<and> length data \<noteq> bm_expected_input m then Inl INVALID_ARGUMENT
      else case bm_digest_info m of
        None \<Rightarrow> Inr data
      | Some prefix \<Rightarrow> Inr (prefix @ data))"

section \<open>ECDSA signatures\<close>

text \<open>The length octet is a cast to \<open>guint8\<close>; the input is not empty.\<close>

definition append_der_integer :: "bytes \<Rightarrow> bytes \<Rightarrow> bytes" where
  "append_der_integer buf value =
     (let digits = strip_leading_zeros value
      in if hd digits AND 0x80 \<noteq> 0
         then buf @ [0x02, of_nat (length digits + 1), 0x00] @ digits
         else buf @ [0x02, of_nat (length digits)] @ digits)"

definition certificate_ecdsa_raw_to_der :: "bytes \<Rightarrow> mechanism_error + bytes" where
  "certificate_ecdsa_raw_to_der raw =
     (let half = length raw div 2
      in if length raw = 0 \<or> length raw mod 2 \<noteq> 0 then Inl INVALID_DATA
         else
           let body = append_der_integer (append_der_integer [] (take half raw)) (drop half raw);
               n = length body
           in Inr ([0x30] @
             (if n < 0x80 then [of_nat n]
              else if n \<le> 0xff then [0x81, of_nat n]
              else [0x82, of_nat (n div 256), of_nat (n mod 256)]) @ body))"

section \<open>The hash table\<close>

interpretation bt: two_key_table broker_hash_table bh_hash bh_name
  by unfold_locales (simp_all add: broker_hash_table_def)

lemmas digest_info_defs = digest_info_sha1_def digest_info_sha224_def digest_info_sha256_def
  digest_info_sha384_def digest_info_sha512_def

lemma broker_hash_entry_iff: "broker_hash_entry h = Some r \<longleftrightarrow> r \<in> set broker_hash_table \<and> bh_hash r = h"
  by (simp add: broker_hash_entry_def bt.find_iff)

lemma der_encode_short: "length v < 128 \<Longrightarrow> portal_der_encode t v = Some (t # of_nat (length v) # v)"
  by (simp add: portal_der_encode_def der_header_def)

lemma digestinfo_encode_short:
  assumes "length (he_oid e) + length d + 10 < 128"
  shows "digestinfo_encode e True d =
    Some ([0x30, of_nat (length (he_oid e) + length d + 8), 0x30, of_nat (length (he_oid e) + 4), 0x06,
      of_nat (length (he_oid e))] @ he_oid e @ [0x05, 0x00, 0x04, of_nat (length d)] @ d)"
  using assms by (simp add: digestinfo_encode_def der_encode_short add.assoc)

text \<open>The prefixes are the encodings of \<open>DigestInfo\<close> with a NULL parameter, without the digest.\<close>

definition digest_info_prefix :: "hash_row \<Rightarrow> bytes" where
  "digest_info_prefix e = [0x30, of_nat (length (he_oid e) + he_length e + 8), 0x30, of_nat (length (he_oid e) + 4), 0x06,
      of_nat (length (he_oid e))] @ he_oid e @ [0x05, 0x00, 0x04, of_nat (he_length e)]"

lemma tables_agree:
  "list_all2 (\<lambda>e r. he_name e = bh_name r \<and> he_length e = bh_length r \<and> digest_info_prefix e = bh_digest_info r)
    hash_table broker_hash_table"
  by (simp add: hash_table_def broker_hash_table_def digest_info_prefix_def oid_defs digest_info_defs)

lemma broker_digest_info:
  assumes "r \<in> set broker_hash_table" and "length d = bh_length r"
  shows "\<exists>e. e \<in> set hash_table \<and> he_name e = bh_name r \<and> he_length e = bh_length r \<and>
    digestinfo_encode e True d = Some (bh_digest_info r @ d)"
proof -
  from tables_agree assms(1) obtain e where e: "e \<in> set hash_table" "he_name e = bh_name r"
    "he_length e = bh_length r" "digest_info_prefix e = bh_digest_info r"
    unfolding list_all2_conv_all_nth in_set_conv_nth by metis
  with assms(2) hash_table_bounds [OF e(1)] digestinfo_encode_short [of e d]
  show ?thesis by (intro exI [of _ e]) (simp add: digest_info_prefix_def)
qed

section \<open>What an accepted mechanism is\<close>

lemma parse_hash_entry: "parse_hash ps = Inr h \<Longrightarrow> \<exists>r. broker_hash_entry h = Some r"
  by (auto simp: parse_hash_def certificate_hash_parse_def broker_hash_entry_iff find_Some_iff
      split: option.splits gvariant.splits) (metis nth_mem)+

lemma parse_v15_Inr:
  assumes "parse_v15 n ps kt ks enc = Inr m"
  shows "\<exists>r. broker_hash_entry (bm_hash m) = Some r \<and> kt = Some ''RSA'' \<and>
    length (bh_digest_info r) + bh_length r + 11 \<le> unat (ks div 8) \<and> bm_expected_input m = bh_length r \<and>
    bm_digest_info m = Some (bh_digest_info r) \<and> bm_type m = CKM_RSA_PKCS \<and> bm_pss m = None \<and> bm_oaep m = None"
  using assms by (auto simp: parse_v15_def split: if_splits sum.splits option.splits)

lemma parse_pss_Inr:
  assumes "parse_pss n ps kt ks enc = Inr m"
  shows "\<exists>r salt mgf. broker_hash_entry (bm_hash m) = Some r \<and> kt = Some ''RSA'' \<and>
    bh_length r + unat (salt :: guint) + 2 \<le> unat ((ks - 1 + 7) div 8) \<and> bm_expected_input m = bh_length r \<and>
    bm_digest_info m = None \<and> bm_type m = CKM_RSA_PKCS_PSS \<and> bm_pss m = Some (bh_ck_hash r, mgf, ucast salt) \<and>
    bm_oaep m = None"
  using assms
  by (fastforce simp: parse_pss_def Let_def not_less split: if_splits sum.splits option.splits prod.splits)

lemma parse_ecdsa_Inr:
  assumes "parse_ecdsa n ps kt enc = Inr m"
  shows "kt = Some ''EC'' \<and> bm_expected_input m = certificate_hash_length (bm_hash m) \<and>
    bm_digest_info m = None \<and> bm_type m = CKM_ECDSA \<and> bm_pss m = None \<and> bm_oaep m = None \<and>
    (\<exists>r. broker_hash_entry (bm_hash m) = Some r)"
  using assms by (auto simp: parse_ecdsa_def split: if_splits sum.splits dest: parse_hash_entry)

lemma parse_decrypt_Inr:
  assumes "parse_decrypt n ps kt ks = Inr m"
  shows "\<exists>r. broker_hash_entry (bm_hash m) = Some r \<and> n = ''RSA_OAEP'' \<and> kt = Some ''RSA'' \<and>
    2 * bh_length r + 2 \<le> unat (ks div 8) \<and> bm_expected_input m = unat (ks div 8) \<and>
    bm_digest_info m = None \<and> bm_type m = CKM_RSA_PKCS_OAEP \<and> bm_pss m = None \<and>
    bm_oaep m = Some (bh_ck_hash r, bh_mgf r) \<and>
    (case bm_label m of None \<Rightarrow> True | Some l \<Rightarrow> 0 < length l \<and> length l \<le> CERTIFICATE_MAX_LABEL_SIZE)"
  using assms
  by (fastforce simp: parse_decrypt_def parse_label_def not_less
      split: if_splits sum.splits option.splits prod.splits gvariant.splits)

section \<open>Properties\<close>

text \<open>C27 (equivalence): what the broker feeds to an RSA PKCS#1 v1.5 key for an accepted request is
  read back by the PKCS#11 module's \<open>DigestInfo\<close> parser as exactly the requested hash and digest.\<close>

theorem prepared_digest_info_parses:
  assumes "certificate_mechanism_parse (Some ''RSA_PKCS1_V1_5'') ps kt ks False = Inr m"
    and "certificate_mechanism_prepare m data = Inr payload"
  shows "portal_digestinfo_parse payload = Some (certificate_hash_to_string (bm_hash m), data) \<and>
    length payload + 11 \<le> unat (ks div 8)"
proof -
  from assms(1) obtain enc where "parse_v15 ''RSA_PKCS1_V1_5'' ps kt ks enc = Inr m"
    by (auto simp: certificate_mechanism_parse_def split: if_splits sum.splits)
  from parse_v15_Inr [OF this] obtain r where r: "broker_hash_entry (bm_hash m) = Some r"
    "length (bh_digest_info r) + bh_length r + 11 \<le> unat (ks div 8)" "bm_expected_input m = bh_length r"
    "bm_digest_info m = Some (bh_digest_info r)" by blast
  from r(1) have t: "r \<in> set broker_hash_table" by (simp add: broker_hash_entry_iff)
  then have "bh_length r \<noteq> 0" by (auto simp: broker_hash_table_def)
  with assms(2) r have d: "length data = bh_length r" "payload = bh_digest_info r @ data"
    by (auto simp: certificate_mechanism_prepare_def split: if_splits)
  from broker_digest_info [OF t d(1)] obtain e where "e \<in> set hash_table" "he_name e = bh_name r"
    "he_length e = bh_length r" "digestinfo_encode e True data = Some payload" by (auto simp: d(2))
  with digestinfo_complete [of e data True payload] d r show ?thesis
    by (simp add: certificate_hash_to_string_def)
qed

definition sample_parameters :: parameters where
  "sample_parameters = Some [(''hash'', GV_string ''sha-256'')]"

lemma sample_v15:
  "certificate_mechanism_parse (Some ''RSA_PKCS1_V1_5'') sample_parameters (Some ''RSA'') 2048 False = Inr
    \<lparr>bm_name = ''RSA_PKCS1_V1_5'', bm_type = CKM_RSA_PKCS, bm_hash = CERTIFICATE_HASH_SHA256,
     bm_encoding = CERTIFICATE_SIGNATURE_RAW, bm_pss = None, bm_oaep = None, bm_label = None,
     bm_expected_input = 32, bm_digest_info = Some digest_info_sha256\<rparr>"
proof -
  have "certificate_hash_parse (Some ''sha-256'') = Some CERTIFICATE_HASH_SHA256"
    by (simp add: certificate_hash_parse_def broker_hash_table_def strcaseeq_def ascii_down_def char_of_def bit_Suc_0_iff)
  then have h: "parse_hash sample_parameters = Inr CERTIFICATE_HASH_SHA256"
    by (simp add: parse_hash_def lookup_value_def sample_parameters_def)
  have "parse_encoding sample_parameters = Inr CERTIFICATE_SIGNATURE_RAW"
    by (simp add: parse_encoding_def lookup_string_def lookup_value_def sample_parameters_def)
  moreover have "parameters_are_known sample_parameters False"
    by (simp add: parameters_are_known_def sample_parameters_def)
  moreover have "broker_hash_entry CERTIFICATE_HASH_SHA256 = Some \<lparr>bh_name = ''SHA256'', bh_hash = CERTIFICATE_HASH_SHA256,
      bh_length = 32, bh_ck_hash = CKM_SHA256, bh_mgf = CKG_MGF1_SHA256, bh_digest_info = digest_info_sha256\<rparr>"
    by (simp add: broker_hash_entry_def broker_hash_table_def)
  ultimately show ?thesis
    using h by (simp add: certificate_mechanism_parse_def parse_v15_def digest_info_defs)
qed

theorem prepared_digest_info_parses_witness:
  "portal_digestinfo_parse (digest_info_sha256 @ replicate 32 7) = Some (''SHA256'', replicate 32 7)"
  using prepared_digest_info_parses [OF sample_v15, of "replicate 32 7" "digest_info_sha256 @ replicate 32 7"]
  by (simp add: certificate_mechanism_prepare_def certificate_hash_to_string_def broker_hash_entry_def broker_hash_table_def)

section \<open>ECDSA signatures in DER\<close>

text \<open>The strict reading of an ECDSA signature: a sequence of two non-negative integers, nothing more.\<close>

definition ecdsa_der_read :: "bytes \<Rightarrow> (nat \<times> nat) option" where
  "ecdsa_der_read d = do {
     outer \<leftarrow> portal_der_read_tag d PORTAL_DER_SEQUENCE;
     require (tlv_consumed outer = length d);
     r \<leftarrow> portal_der_read_tag (tlv_value outer) PORTAL_DER_INTEGER;
     s \<leftarrow> portal_der_read_tag (drop (tlv_consumed r) (tlv_value outer)) PORTAL_DER_INTEGER;
     require (tlv_consumed r + tlv_consumed s = tlv_length outer);
     require (tlv_length r > 0 \<and> tlv_value r ! 0 AND 0x80 = 0);
     require (tlv_length s > 0 \<and> tlv_value s ! 0 AND 0x80 = 0);
     Some (be_nat (tlv_value r), be_nat (tlv_value s))
   }"

lemma strip_leading_zeros_facts:
  "v \<noteq> [] \<Longrightarrow> strip_leading_zeros v \<noteq> [] \<and> length (strip_leading_zeros v) \<le> length v \<and>
    be_nat (strip_leading_zeros v) = be_nat v"
  by (induction v rule: strip_leading_zeros.induct) (auto simp: be_nat_Cons)

definition der_integer_value :: "bytes \<Rightarrow> bytes" where
  "der_integer_value v =
     (let digits = strip_leading_zeros v in if hd digits AND 0x80 \<noteq> 0 then 0 # digits else digits)"

lemma der_integer_value_facts:
  assumes "v \<noteq> []" and "length v \<le> 126"
  shows "der_integer_value v \<noteq> []" and "length (der_integer_value v) \<le> 127"
    and "be_nat (der_integer_value v) = be_nat v" and "der_integer_value v ! 0 AND 0x80 = 0"
  using strip_leading_zeros_facts [OF assms(1)] assms(2)
  by (auto simp: der_integer_value_def Let_def be_nat_Cons hd_conv_nth)

lemma append_der_integer_encode:
  assumes "v \<noteq> []" and "length v \<le> 126"
  shows "portal_der_encode 0x02 (der_integer_value v) = Some (append_der_integer [] v)"
    and "append_der_integer buf v = buf @ append_der_integer [] v"
    and "length (append_der_integer [] v) \<le> 129"
proof -
  show "portal_der_encode 0x02 (der_integer_value v) = Some (append_der_integer [] v)"
    using der_integer_value_facts(2) [OF assms] strip_leading_zeros_facts [OF assms(1)]
    by (subst der_encode_short) (auto simp: der_integer_value_def append_der_integer_def Let_def)
  show "append_der_integer buf v = buf @ append_der_integer [] v"
    by (simp add: append_der_integer_def Let_def)
  show "length (append_der_integer [] v) \<le> 129"
    using strip_leading_zeros_facts [OF assms(1)] assms(2) by (auto simp: append_der_integer_def Let_def)
qed

lemma der_octet_count_small:
  "128 \<le> n \<Longrightarrow> n \<le> 255 \<Longrightarrow> der_octet_count n = 1" "256 \<le> n \<Longrightarrow> n < 65536 \<Longrightarrow> der_octet_count n = 2"
  by (simp_all add: der_octet_count.simps [of n] der_octet_count.simps [of "n div 256"]
      der_octet_count.simps [of "n div 256 div 256"] der_octet_count.simps [of 0] div_eq_0_iff
      div_mult2_eq [symmetric])

lemma sequence_header:
  assumes "n < 65536"
  shows "der_header n = Some (if n < 0x80 then [of_nat n] else if n \<le> 0xff then [0x81, of_nat n]
    else [0x82, of_nat (n div 256), of_nat (n mod 256)])"
proof -
  have m: "(of_nat (n mod 256) :: byte) = of_nat n" by (simp add: of_nat_byte_mod)
  consider "n < 128" | "128 \<le> n" "n \<le> 255" | "256 \<le> n" by linarith
  then show ?thesis
  proof cases
    case 3
    with assms m show ?thesis
      by (simp add: der_header_def der_octet_count_small(2) upt_rec numeral_2_eq_2)
  qed (simp_all add: der_header_def der_octet_count_small(1))
qed

text \<open>C28 (roundtrip): the DER form of a raw ECDSA signature of at most 252 bytes (P-521 has 132) is
  accepted by the strict DER reader as a sequence of two non-negative integers, and they are the two
  halves of the raw signature.\<close>

theorem ecdsa_der_reads_back:
  assumes "certificate_ecdsa_raw_to_der raw = Inr d" and "length raw \<le> 252"
  shows "ecdsa_der_read d =
    Some (be_nat (take (length raw div 2) raw), be_nat (drop (length raw div 2) raw))"
proof -
  define half where "half = length raw div 2"
  from assms(1) have ev: "length raw \<noteq> 0" "length raw mod 2 = 0"
    by (auto simp: certificate_ecdsa_raw_to_der_def Let_def split: if_splits)
  then have "length raw = 2 * half"
    unfolding half_def by presburger
  with ev(1) assms(2) have half: "length raw = 2 * half" "0 < half" "half \<le> 126"
    by linarith+
  let ?r = "take half raw" and ?s = "drop half raw"
  have ne: "?r \<noteq> []" "length ?r \<le> 126" "?s \<noteq> []" "length ?s \<le> 126" using half by auto
  note r = append_der_integer_encode [OF ne(1,2)] and s = append_der_integer_encode [OF ne(3,4)]
  note rv = der_integer_value_facts [OF ne(1,2)] and sv = der_integer_value_facts [OF ne(3,4)]
  define er es where "er = append_der_integer [] ?r" and "es = append_der_integer [] ?s"
  have len: "length (er @ es) < 65536" using r(3) s(3) by (simp add: er_def es_def)
  have "d = 0x30 # the (der_header (length (er @ es))) @ er @ es"
    using assms(1) ev s(2) [of er]
    by (auto simp: certificate_ecdsa_raw_to_der_def Let_def half_def [symmetric] er_def [symmetric] es_def [symmetric]
        sequence_header [OF len] simp del: length_append)
  then have d: "portal_der_encode 0x30 (er @ es) = Some d"
    using sequence_header [OF len] by (simp add: portal_der_encode_def)
  show ?thesis
    unfolding ecdsa_der_read_def half_def [symmetric]
    using rv sv by (simp add: read_tag_encoded_nil [OF d] read_tag_encoded [OF r(1) [folded er_def]]
        read_tag_encoded_nil [OF s(1) [folded es_def]])
qed

theorem ecdsa_der_reads_back_witness:
  "ecdsa_der_read [0x30, 0x07, 0x02, 0x02, 0x00, 0x80, 0x02, 0x01, 0x05] = Some (0x80, 5)"
proof -
  have "certificate_ecdsa_raw_to_der [0, 0x80, 0, 5] = Inr [0x30, 0x07, 0x02, 0x02, 0x00, 0x80, 0x02, 0x01, 0x05]"
    by (simp add: certificate_ecdsa_raw_to_der_def append_der_integer_def)
  from ecdsa_der_reads_back [OF this] show ?thesis by (simp add: be_nat_Cons)
qed

text \<open>The bound of the round trip is needed: a DER integer of 128 octets or more gets a
  truncated one-octet length, so there is a raw signature of 256 bytes whose output is not a DER
  signature.\<close>

lemma ecdsa_der_wide_integers_broken:
  "\<exists>raw d. length raw = 256 \<and> certificate_ecdsa_raw_to_der raw = Inr d \<and> ecdsa_der_read d = None"
proof -
  define raw :: bytes where "raw = replicate 256 1"
  define er where "er = [0x02, 0x80] @ (replicate 128 1 :: bytes)"
  have strip: "strip_leading_zeros (replicate 128 1) = (replicate 128 1 :: bytes)"
    by (simp add: numeral_eq_Suc)
  have "append_der_integer [] (replicate 128 1) = er" "append_der_integer er (replicate 128 1) = er @ er"
    by (simp_all add: append_der_integer_def strip er_def Let_def)
  moreover define d where "d = [0x30, 0x82, 0x01, 0x04] @ er @ er"
  ultimately have c: "certificate_ecdsa_raw_to_der raw = Inr d"
    by (simp add: certificate_ecdsa_raw_to_der_def raw_def Let_def) (simp add: er_def)
  have e: "portal_der_encode 0x30 (er @ er) = Some d"
    using sequence_header [of 260] by (simp add: portal_der_encode_def er_def d_def)
  have n: "portal_der_read_tag (er @ er) 0x02 = None"
    by (simp add: er_def portal_der_read_tag_def portal_der_read_def der_read_length_def)
  have "ecdsa_der_read d = None"
    unfolding ecdsa_der_read_def by (simp add: read_tag_encoded_nil [OF e] n)
  with c show ?thesis by (intro exI [of _ raw] exI [of _ d]) (simp add: raw_def)
qed

section \<open>Hash names and accepted requests\<close>

text \<open>The name of every hash is parsed back to it, in any case and with a dash after
  \<open>SHA\<close>, and no other spelling names it.\<close>

lemma hash_names_parse:
  "certificate_hash_parse (Some n) = Some h \<longleftrightarrow> h \<noteq> CERTIFICATE_HASH_NONE \<and>
    (map ascii_down n = map ascii_down (certificate_hash_to_string h) \<or>
     map ascii_down n = map ascii_down (''SHA-'' @ drop 3 (certificate_hash_to_string h)))"
proof -
  let ?P = "\<lambda>r. strcaseeq n (bh_name r) \<or> strcaseeq n (''SHA-'' @ drop 3 (bh_name r))"
  have uniq: "r = r'" if "r \<in> set broker_hash_table" "r' \<in> set broker_hash_table" "?P r" "?P r'" for r r'
  proof -
    have "list_all (\<lambda>r. list_all (\<lambda>r'. bh_hash r = bh_hash r' \<or>
        \<not> strcaseeq (bh_name r) (bh_name r') \<and> \<not> strcaseeq (bh_name r) (''SHA-'' @ drop 3 (bh_name r')) \<and>
        \<not> strcaseeq (''SHA-'' @ drop 3 (bh_name r)) (bh_name r') \<and>
        \<not> strcaseeq (''SHA-'' @ drop 3 (bh_name r)) (''SHA-'' @ drop 3 (bh_name r'))) broker_hash_table) broker_hash_table"
      by (simp add: broker_hash_table_def strcaseeq_def ascii_down_def char_of_def bit_Suc_0_iff)
    with that have "bh_hash r = bh_hash r'"
      unfolding list_all_iff strcaseeq_def by metis
    with that(1,2) show ?thesis by (rule bt.key_inject)
  qed
  have "certificate_hash_parse (Some n) = Some h \<longleftrightarrow> (\<exists>r \<in> set broker_hash_table. ?P r \<and> bh_hash r = h)"
  proof
    assume "certificate_hash_parse (Some n) = Some h"
    then show "\<exists>r \<in> set broker_hash_table. ?P r \<and> bh_hash r = h"
      by (auto simp: certificate_hash_parse_def find_Some_iff)
  next
    assume "\<exists>r \<in> set broker_hash_table. ?P r \<and> bh_hash r = h"
    then obtain r where r: "r \<in> set broker_hash_table" "?P r" "bh_hash r = h" by blast
    then obtain r' where r': "List.find ?P broker_hash_table = Some r'"
      by (cases "List.find ?P broker_hash_table") (auto simp: find_None_iff)
    then have "r' \<in> set broker_hash_table" "?P r'"
      unfolding find_Some_iff by (metis nth_mem)+
    with uniq [OF r(1) _ r(2)] r(3) r' show "certificate_hash_parse (Some n) = Some h"
      by (simp add: certificate_hash_parse_def)
  qed
  also have "\<dots> \<longleftrightarrow> (\<exists>r. broker_hash_entry h = Some r \<and> ?P r)"
    by (auto simp: broker_hash_entry_iff)
  also have "\<dots> \<longleftrightarrow> h \<noteq> CERTIFICATE_HASH_NONE \<and> strcaseeq n (certificate_hash_to_string h) \<or>
      h \<noteq> CERTIFICATE_HASH_NONE \<and> strcaseeq n (''SHA-'' @ drop 3 (certificate_hash_to_string h))"
    by (cases h) (simp_all add: certificate_hash_to_string_def broker_hash_entry_def broker_hash_table_def)
  finally show ?thesis by (auto simp: strcaseeq_def)
qed

text \<open>An accepted request fits the key: decryption is RSA-OAEP with an RSA key and equal
  hashes; the RSA mechanisms leave room for their padding as RFC 8017 requires; every mechanism
  names a hash of the table and fixes the input length.\<close>

lemma accepted_mechanism_fits_key:
  assumes "certificate_mechanism_parse name ps kt ks dec = Inr m"
  shows "\<exists>r. broker_hash_entry (bm_hash m) = Some r \<and>
    (dec \<longleftrightarrow> bm_type m = CKM_RSA_PKCS_OAEP) \<and>
    bm_type m \<in> {CKM_RSA_PKCS_OAEP, CKM_RSA_PKCS, CKM_RSA_PKCS_PSS, CKM_ECDSA} \<and>
    kt = Some (if bm_type m = CKM_ECDSA then ''EC'' else ''RSA'') \<and>
    (bm_type m = CKM_RSA_PKCS_OAEP \<longrightarrow> 2 * bh_length r + 2 \<le> unat ks div 8 \<and>
      bm_expected_input m = unat ks div 8 \<and> bm_oaep m = Some (bh_ck_hash r, bh_mgf r)) \<and>
    (bm_type m = CKM_RSA_PKCS \<longrightarrow> length (bh_digest_info r) + bh_length r + 11 \<le> unat ks div 8) \<and>
    (bm_type m = CKM_RSA_PKCS_PSS \<longrightarrow>
      (\<exists>mgf salt. bm_pss m = Some (bh_ck_hash r, mgf, ucast (salt :: guint)) \<and>
        bh_length r + unat salt + 2 \<le> (unat ks + 6) div 8)) \<and>
    (\<not> dec \<longrightarrow> bm_expected_input m = bh_length r)"
proof -
  have d: "unat (ks div 8) = unat ks div 8" by (simp add: unat_div)
  have "ks - 1 + 7 = ks + 6" by simp
  then have p: "unat ((ks - 1 + 7) div 8) \<le> (unat ks + 6) div 8"
    by (simp add: unat_div unat_word_ariths div_le_mono)
  from assms have "(dec \<and> (\<exists>n. parse_decrypt n ps kt ks = Inr m)) \<or> (\<not> dec \<and> (\<exists>n enc. parse_v15 n ps kt ks enc = Inr m))
    \<or> (\<not> dec \<and> (\<exists>n enc. parse_pss n ps kt ks enc = Inr m)) \<or> (\<not> dec \<and> (\<exists>n enc. parse_ecdsa n ps kt enc = Inr m))"
    by (fastforce simp: certificate_mechanism_parse_def split: option.splits if_splits sum.splits)
  then consider "dec" "\<exists>n. parse_decrypt n ps kt ks = Inr m"
    | "\<not> dec" "\<exists>n enc. parse_v15 n ps kt ks enc = Inr m" | "\<not> dec" "\<exists>n enc. parse_pss n ps kt ks enc = Inr m"
    | "\<not> dec" "\<exists>n enc. parse_ecdsa n ps kt enc = Inr m"
    by blast
  then show ?thesis
  proof cases
    case 1
    then show ?thesis by (auto dest!: parse_decrypt_Inr simp: d)
  next
    case 2
    then show ?thesis by (auto dest!: parse_v15_Inr simp: d)
  next
    case 3
    then show ?thesis using p by (fastforce dest!: parse_pss_Inr)
  next
    case 4
    then show ?thesis by (auto dest!: parse_ecdsa_Inr simp: certificate_hash_length_def)
  qed
qed

lemma accepted_mechanism_fits_key_witness:
  "broker_hash_entry CERTIFICATE_HASH_SHA256 \<noteq> None"
  using accepted_mechanism_fits_key [OF sample_v15] by auto

end
