(* ===== verification/Tokens.thy ===== *)
theory Tokens
  imports Pkcs11Util BrokerMechanism
begin

text \<open>
  Tokens and certificates (\<open>src/tokens/discovery.c\<close>, first part): the identity of a token, which
  survives reinsertion and does not depend on the slot, the weaker matching that presence
  tracking uses, and how a certificate is read.  GnuTLS is the parameter \<open>x509_reading\<close>, its
  answers about one certificate.
\<close>

section \<open>Tokens\<close>

record certificate_token =
  tk_label :: "string option"
  tk_manufacturer :: "string option"
  tk_model :: "string option"
  tk_serial :: "string option"
  tk_reader_name :: "string option"
  tk_module_name :: "string option"
  tk_protected_authentication_path :: bool
  tk_login_required :: bool
  tk_hardware :: bool
  tk_module_named_explicitly :: bool
  tk_skip_reason :: "string option"
  tk_pin_count_low :: bool
  tk_pin_final_try :: bool
  tk_pin_locked :: bool
  tk_module :: ck_module
  tk_slot :: ck_ulong

definition has_text :: "string option \<Rightarrow> bool" where
  "has_text s = (case s of None \<Rightarrow> False | Some t \<Rightarrow> t \<noteq> [])"

definition certificate_token_same :: "certificate_token option \<Rightarrow> certificate_token option \<Rightarrow> bool" where
  "certificate_token_same a b =
     (case (a, b) of
        (Some x, Some y) \<Rightarrow>
          if \<not> has_text (tk_serial x) then False
          else tk_serial x = tk_serial y \<and> tk_label x = tk_label y \<and> tk_model x = tk_model y \<and>
               tk_manufacturer x = tk_manufacturer y
      | _ \<Rightarrow> False)"

definition certificate_token_same_presence :: "certificate_token option \<Rightarrow> certificate_token option \<Rightarrow> bool" where
  "certificate_token_same_presence a b =
     (case (a, b) of
        (Some x, Some y) \<Rightarrow>
          if has_text (tk_serial x) then certificate_token_same a b
          else if has_text (tk_serial y) then False
          else tk_module x = tk_module y \<and> tk_slot x = tk_slot y \<and> tk_label x = tk_label y \<and>
               tk_model x = tk_model y \<and> tk_manufacturer x = tk_manufacturer y
      | _ \<Rightarrow> False)"

definition certificate_token_identity :: "certificate_token \<Rightarrow> string" where
  "certificate_token_identity t =
     (let part = case_option [] id; sep = [char_of (0x1f :: nat)]
      in part (tk_manufacturer t) @ sep @ part (tk_model t) @ sep @ part (tk_serial t) @ sep @ part (tk_label t))"

lemma has_text_simps [simp]: "\<not> has_text None" "has_text (Some t) \<longleftrightarrow> t \<noteq> []"
  by (simp_all add: has_text_def)

lemma token_same_iff:
  "certificate_token_same (Some x) (Some y) \<longleftrightarrow> has_text (tk_serial x) \<and> tk_serial x = tk_serial y \<and>
     tk_label x = tk_label y \<and> tk_model x = tk_model y \<and> tk_manufacturer x = tk_manufacturer y"
  by (simp add: certificate_token_same_def)

lemma token_same_identity:
  "certificate_token_same (Some x) (Some y) \<Longrightarrow> certificate_token_identity x = certificate_token_identity y"
  by (simp add: token_same_iff certificate_token_identity_def)

lemma presence_refl: "certificate_token_same_presence (Some x) (Some x)"
  by (simp add: certificate_token_same_presence_def certificate_token_same_def)

lemma presence_sym:
  "certificate_token_same_presence (Some x) (Some y) \<Longrightarrow> certificate_token_same_presence (Some y) (Some x)"
  by (auto simp: certificate_token_same_presence_def certificate_token_same_def split: if_splits)

lemma presence_trans:
  "certificate_token_same_presence (Some x) (Some y) \<Longrightarrow> certificate_token_same_presence (Some y) (Some z)
     \<Longrightarrow> certificate_token_same_presence (Some x) (Some z)"
  by (auto simp: certificate_token_same_presence_def certificate_token_same_def split: if_splits)

section \<open>Candidates\<close>

record certificate_candidate =
  cd_token :: "certificate_token option"
  cd_der :: bytes
  cd_cka_id :: "bytes option"
  cd_certificate_id :: "string option"
  cd_subject_display :: "string option"
  cd_issuer_display :: "string option"
  cd_subject_dn :: "string option"
  cd_issuer_der :: "bytes option"
  cd_not_before :: int
  cd_not_after :: int
  cd_eku_oids :: "string list option"
  cd_key_usage :: "string list option"
  cd_piv_slot :: "string option"
  cd_key_type :: "string option"
  cd_key_size :: guint
  cd_key_curve :: "string option"
  cd_can_sign :: bool
  cd_can_decrypt :: bool
  cd_supported_mechanisms :: "string list option"
  cd_display_flags :: guint

text \<open>\<open>g_new0\<close>: every pointer \<open>NULL\<close>, every number zero.\<close>

definition certificate_candidate_new :: certificate_candidate where
  "certificate_candidate_new =
     \<lparr>cd_token = None, cd_der = [], cd_cka_id = None, cd_certificate_id = None, cd_subject_display = None,
      cd_issuer_display = None, cd_subject_dn = None, cd_issuer_der = None, cd_not_before = 0,
      cd_not_after = 0, cd_eku_oids = None, cd_key_usage = None, cd_piv_slot = None, cd_key_type = None,
      cd_key_size = 0, cd_key_curve = None, cd_can_sign = False, cd_can_decrypt = False,
      cd_supported_mechanisms = None, cd_display_flags = 0\<rparr>"

definition certificate_candidate_same :: "certificate_candidate option \<Rightarrow> certificate_candidate option \<Rightarrow> bool" where
  "certificate_candidate_same a b =
     (case (a, b) of
        (Some x, Some y) \<Rightarrow>
          certificate_token_same (cd_token x) (cd_token y) \<and> cd_certificate_id x = cd_certificate_id y \<and>
          cd_cka_id x \<noteq> None \<and> cd_cka_id y \<noteq> None \<and> cd_cka_id x = cd_cka_id y
      | _ \<Rightarrow> False)"

definition certificate_candidate_is_expired :: "certificate_candidate \<Rightarrow> int \<Rightarrow> bool" where
  "certificate_candidate_is_expired c now \<longleftrightarrow> cd_not_after c > 0 \<and> cd_not_after c < now"

definition certificate_candidate_is_not_yet_valid :: "certificate_candidate \<Rightarrow> int \<Rightarrow> bool" where
  "certificate_candidate_is_not_yet_valid c now \<longleftrightarrow> cd_not_before c > 0 \<and> cd_not_before c > now"

section \<open>Reading a certificate\<close>

datatype gnutls_pk = GNUTLS_PK_RSA | GNUTLS_PK_RSA_PSS | GNUTLS_PK_ECDSA | GNUTLS_PK_OTHER

datatype extension_state = EXTENSION_ABSENT | EXTENSION_PRESENT | EXTENSION_UNREADABLE

text \<open>
  What GnuTLS says of one certificate.  The distinguished names are the UTF-8 text after
  repair, or \<open>None\<close> when the call fails; \<open>xr_key_purposes\<close> is the list of the extended key usage,
  where \<open>None\<close> is an entry that cannot be read and the first index past the list is not
  available; \<open>xr_key_usage\<close> is \<open>Inl False\<close> for an absent extension, \<open>Inl True\<close> for an error.
\<close>

record x509_reading =
  xr_imports :: bool
  xr_common_name :: "bool \<Rightarrow> string option"
  xr_organization_name :: "bool \<Rightarrow> string option"
  xr_dn :: "bool \<Rightarrow> string option"
  xr_activation_time :: int
  xr_expiration_time :: int
  xr_eku_extension :: extension_state
  xr_key_purposes :: "string option list"
  xr_key_usage :: "bool + guint"
  xr_raw_issuer :: "bytes option"
  xr_pk :: gnutls_pk
  xr_bits :: guint
  xr_curve_name :: "string option"

abbreviation XCC_DISPLAY_SUBJECT_FALLBACK :: guint where "XCC_DISPLAY_SUBJECT_FALLBACK \<equiv> 1"
abbreviation XCC_DISPLAY_ISSUER_FALLBACK :: guint where "XCC_DISPLAY_ISSUER_FALLBACK \<equiv> 2"

definition display_name :: "x509_reading \<Rightarrow> bool \<Rightarrow> guint \<Rightarrow> string \<times> guint" where
  "display_name crt issuer flags =
     (if has_text (xr_common_name crt issuer) then (the (xr_common_name crt issuer), flags)
      else if has_text (xr_organization_name crt issuer) then (the (xr_organization_name crt issuer), flags)
      else if has_text (xr_dn crt issuer) then (the (xr_dn crt issuer), flags)
      else (if issuer then ''Unnamed issuer'' else ''Unnamed certificate'',
            flags OR (if issuer then XCC_DISPLAY_ISSUER_FALLBACK else XCC_DISPLAY_SUBJECT_FALLBACK)))"

text \<open>The result of a parser: failure, or the value of \<open>*out\<close>, \<open>NULL\<close> when the extension is absent.\<close>

fun eku_loop :: "string option list \<Rightarrow> string list \<Rightarrow> string list option" where
  "eku_loop [] acc = Some acc"
| "eku_loop (None # rest) acc = None"
| "eku_loop (Some oid # rest) acc = eku_loop rest (acc @ [oid])"

definition parse_eku :: "x509_reading \<Rightarrow> (string list option) option" where
  "parse_eku crt =
     (if xr_eku_extension crt = EXTENSION_UNREADABLE then None
      else case eku_loop (xr_key_purposes crt) [] of
        None \<Rightarrow> None
      | Some oids \<Rightarrow> if oids = [] \<and> xr_eku_extension crt = EXTENSION_ABSENT then Some None else Some (Some oids))"

definition key_usage_names :: "(guint \<times> string) list" where
  "key_usage_names =
     [(128, ''digital_signature''), (64, ''content_commitment''), (32, ''key_encipherment''),
      (16, ''data_encipherment''), (8, ''key_agreement''), (4, ''key_cert_sign''), (2, ''crl_sign'')]"

definition parse_key_usage :: "x509_reading \<Rightarrow> (string list option) option" where
  "parse_key_usage crt =
     (case xr_key_usage crt of
        Inl False \<Rightarrow> Some None
      | Inl True \<Rightarrow> None
      | Inr usage \<Rightarrow> Some (Some (map snd (List.filter (\<lambda>(bit, _). usage AND bit \<noteq> 0) key_usage_names))))"

definition certificate_parse_der :: "x509_reading \<Rightarrow> certificate_candidate \<Rightarrow> certificate_candidate option" where
  "certificate_parse_der crt out =
     (if \<not> xr_imports crt then None
      else
        let (subject, f1) = display_name crt False (cd_display_flags out);
            (issuer, f2) = display_name crt True f1
        in (case (parse_eku crt, parse_key_usage crt) of
              (Some eku, Some usage) \<Rightarrow>
                Some (out\<lparr>cd_subject_display := Some subject, cd_issuer_display := Some issuer,
                  cd_display_flags := f2, cd_subject_dn := xr_dn crt False,
                  cd_not_before := xr_activation_time crt, cd_not_after := xr_expiration_time crt,
                  cd_eku_oids := eku, cd_key_usage := usage,
                  cd_issuer_der := (case xr_raw_issuer crt of None \<Rightarrow> cd_issuer_der out | Some b \<Rightarrow> Some b),
                  cd_key_type := Some (case xr_pk crt of GNUTLS_PK_RSA \<Rightarrow> ''RSA'' | GNUTLS_PK_RSA_PSS \<Rightarrow> ''RSA''
                    | GNUTLS_PK_ECDSA \<Rightarrow> ''EC'' | GNUTLS_PK_OTHER \<Rightarrow> ''unsupported''),
                  cd_key_size := xr_bits crt,
                  cd_key_curve := (case xr_pk crt of GNUTLS_PK_ECDSA \<Rightarrow> xr_curve_name crt
                    | _ \<Rightarrow> cd_key_curve out)\<rparr>)
            | _ \<Rightarrow> None))"

definition piv_slot_from_id :: "bytes option \<Rightarrow> string option" where
  "piv_slot_from_id cka_id =
     (case cka_id of
        Some [b] \<Rightarrow>
          if b = 0x9a \<or> b = 0x01 then Some ''authentication''
          else if b = 0x9c \<or> b = 0x02 then Some ''signature''
          else if b = 0x9d \<or> b = 0x03 then Some ''key_management''
          else if b = 0x9e \<or> b = 0x04 then Some ''card_authentication''
          else None
      | _ \<Rightarrow> None)"

end
