(* ===== verification/Discovery.thy ===== *)
theory Discovery
  imports Tokens
begin

text \<open>
  Discovery (\<open>src/tokens/discovery.c\<close>, second part): which modules and tokens count, how a
  token's certificates become candidates without a login, and how a session is opened on the
  token a grant was made for, wherever it is now.  p11-kit, the certificate reader, SHA-256 and
  the cancellable are parameters (\<open>discovery_env\<close>).
\<close>

section \<open>The environment\<close>

record 'w discovery_env =
  d_functions :: "'w ck_function_list"
  d_text :: text_env
  d_module_name :: "ck_module \<Rightarrow> string option"
  d_module_filename :: "ck_module \<Rightarrow> string option"
  d_basename :: "string \<Rightarrow> string"
  d_module_load :: "string \<Rightarrow> 'w \<Rightarrow> 'w \<times> ck_module option"
  d_module_initialize :: "ck_module \<Rightarrow> 'w \<Rightarrow> 'w \<times> ck_rv"
  d_module_release :: "ck_module \<Rightarrow> 'w \<Rightarrow> 'w"
  d_module_finalize :: "ck_module \<Rightarrow> 'w \<Rightarrow> 'w"
  d_modules_load :: "'w \<Rightarrow> 'w \<times> ck_module list option"
  d_modules_release :: "ck_module list \<Rightarrow> 'w \<Rightarrow> 'w"
  d_x509 :: "bytes \<Rightarrow> x509_reading"
  d_sha256 :: "bytes \<Rightarrow> string"
  d_is_cancelled :: "'w \<Rightarrow> bool"
  d_junk :: "nat \<Rightarrow> byte"

record certificate_tokens =
  ts_modules :: "ck_module list option"
  ts_explicit_modules :: "ck_module list"
  ts_module_names :: "ck_module \<rightharpoonup> string"
  ts_allow_software :: bool

abbreviation PKCS11_PORTAL_MODULE_NAME :: string where
  "PKCS11_PORTAL_MODULE_NAME \<equiv> ''xdg-desktop-portal-certificate''"
abbreviation PKCS11_PORTAL_MODULE_BASENAME :: string where
  "PKCS11_PORTAL_MODULE_BASENAME \<equiv> ''libpkcs11-portal-certificate.so''"
abbreviation CERTIFICATE_P11_KIT_TRUST_MODEL :: string where
  "CERTIFICATE_P11_KIT_TRUST_MODEL \<equiv> ''p11-kit-trust''"
abbreviation CKF_LOGIN_REQUIRED :: ck_ulong where "CKF_LOGIN_REQUIRED \<equiv> 4"
abbreviation CKF_HW_SLOT :: ck_ulong where "CKF_HW_SLOT \<equiv> 4"
abbreviation CKF_USER_PIN_COUNT_LOW :: ck_ulong where "CKF_USER_PIN_COUNT_LOW \<equiv> 0x10000"
abbreviation CKF_USER_PIN_FINAL_TRY :: ck_ulong where "CKF_USER_PIN_FINAL_TRY \<equiv> 0x20000"
abbreviation CKF_USER_PIN_LOCKED :: ck_ulong where "CKF_USER_PIN_LOCKED \<equiv> 0x40000"

section \<open>Modules\<close>

definition certificate_module_is_portal_module ::
  "'w discovery_env \<Rightarrow> string option \<Rightarrow> string option \<Rightarrow> bool" where
  "certificate_module_is_portal_module D name filename \<longleftrightarrow>
     (case name of None \<Rightarrow> False | Some n \<Rightarrow> strcaseeq n PKCS11_PORTAL_MODULE_NAME) \<or>
     (case filename of None \<Rightarrow> False
      | Some f \<Rightarrow> strcaseeq (d_basename D f) PKCS11_PORTAL_MODULE_BASENAME \<or>
                  strcaseeq (d_basename D f) (''lib'' @ PKCS11_PORTAL_MODULE_BASENAME))"

definition module_is_interesting :: "'w discovery_env \<Rightarrow> ck_module \<Rightarrow> bool" where
  "module_is_interesting D md =
     (if certificate_module_is_portal_module D (d_module_name D md) (d_module_filename D md) then False
      else case d_module_name D md of
        None \<Rightarrow> True
      | Some name \<Rightarrow> \<not> strcaseeq name ''p11-kit-trust'' \<and> \<not> strcaseeq name ''gnome-keyring'')"

definition module_list :: "'w discovery_env \<Rightarrow> certificate_tokens \<Rightarrow> ck_module list" where
  "module_list D ts = ts_explicit_modules ts @
     (case ts_modules ts of None \<Rightarrow> [] | Some ms \<Rightarrow> List.filter (module_is_interesting D) ms)"

definition certificate_tokens_free :: "'w discovery_env \<Rightarrow> certificate_tokens \<Rightarrow> 'w \<Rightarrow> 'w" where
  "certificate_tokens_free D ts w =
     fold (\<lambda>md w. d_module_release D md (d_module_finalize D md w)) (ts_explicit_modules ts)
       (case ts_modules ts of None \<Rightarrow> w | Some ms \<Rightarrow> d_modules_release D ms w)"

fun load_explicit :: "'w discovery_env \<Rightarrow> string list \<Rightarrow> certificate_tokens \<Rightarrow> 'w
    \<Rightarrow> 'w \<times> (pkcs11_error + certificate_tokens)" where
  "load_explicit D [] ts w = (w, Inr ts)"
| "load_explicit D (path # paths) ts w =
     (if certificate_module_is_portal_module D None (Some path)
      then (certificate_tokens_free D ts w, Inl CERTIFICATE_PKCS11_ERROR_NOT_SUPPORTED)
      else case d_module_load D path w of
        (w1, None) \<Rightarrow> (certificate_tokens_free D ts w1, Inl CERTIFICATE_PKCS11_ERROR_FAILED)
      | (w1, Some md) \<Rightarrow>
          (case d_module_initialize D md w1 of
             (w2, rv) \<Rightarrow>
               if rv \<noteq> CKR_OK
               then (certificate_tokens_free D ts (d_module_release D md w2), Inl (certificate_pkcs11_error_code rv))
               else load_explicit D paths
                 (ts\<lparr>ts_explicit_modules := ts_explicit_modules ts @ [md],
                     ts_module_names := (ts_module_names ts)(md \<mapsto> d_basename D path)\<rparr>) w2))"

definition certificate_tokens_new ::
  "'w discovery_env \<Rightarrow> string list option \<Rightarrow> 'w \<Rightarrow> 'w \<times> (pkcs11_error + certificate_tokens)" where
  "certificate_tokens_new D module_paths w =
     (let ts = \<lparr>ts_modules = None, ts_explicit_modules = [], ts_module_names = Map.empty, ts_allow_software = False\<rparr>
      in case module_paths of
           Some paths \<Rightarrow> load_explicit D paths ts w
         | None \<Rightarrow>
             (case d_modules_load D w of
                (w1, None) \<Rightarrow> (certificate_tokens_free D ts w1, Inl CERTIFICATE_PKCS11_ERROR_FAILED)
              | (w1, Some ms) \<Rightarrow> (w1, Inr (ts\<lparr>ts_modules := Some ms\<rparr>))))"

definition certificate_tokens_set_allow_software :: "bool \<Rightarrow> certificate_tokens \<Rightarrow> certificate_tokens" where
  "certificate_tokens_set_allow_software allow ts = ts\<lparr>ts_allow_software := allow\<rparr>"

section \<open>Slots\<close>

definition token_from_slot ::
  "'w discovery_env \<Rightarrow> certificate_tokens \<Rightarrow> ck_module \<Rightarrow> ck_ulong \<Rightarrow> 'w \<Rightarrow> 'w \<times> certificate_token option" where
  "token_from_slot D ts md slot w0 =
     (let text = (\<lambda>f. Some (certificate_pkcs11_string (d_text D) (Some f)))
      in case f_GetTokenInfo (d_functions D) md slot w0 of
        (w1, rv, info) \<Rightarrow>
          if rv \<noteq> CKR_OK then (w1, None)
          else if ti_flags info AND CKF_TOKEN_INITIALIZED = 0 then (w1, None)
          else (case f_GetSlotInfo (d_functions D) md slot w1 of
              (w2, rv2, slot_info) \<Rightarrow>
                (w2, Some
                  \<lparr>tk_label = text (ti_label info), tk_manufacturer = text (ti_manufacturerID info),
                   tk_model = text (ti_model info), tk_serial = text (ti_serialNumber info),
                   tk_reader_name = (if rv2 = CKR_OK then text (si_slotDescription slot_info) else Some []),
                   tk_module_name = (case d_module_name D md of
                       Some n \<Rightarrow> Some n
                     | None \<Rightarrow> (case ts_module_names ts md of Some n \<Rightarrow> Some n | None \<Rightarrow> Some ''(unnamed module)'')),
                   tk_protected_authentication_path = (ti_flags info AND CKF_PROTECTED_AUTHENTICATION_PATH \<noteq> 0),
                   tk_login_required = (ti_flags info AND CKF_LOGIN_REQUIRED \<noteq> 0),
                   tk_hardware = (rv2 = CKR_OK \<and> si_flags slot_info AND CKF_HW_SLOT \<noteq> 0),
                   tk_module_named_explicitly = (ts_module_names ts md \<noteq> None),
                   tk_skip_reason = None,
                   tk_pin_count_low = (ti_flags info AND CKF_USER_PIN_COUNT_LOW \<noteq> 0),
                   tk_pin_final_try = (ti_flags info AND CKF_USER_PIN_FINAL_TRY \<noteq> 0),
                   tk_pin_locked = (ti_flags info AND CKF_USER_PIN_LOCKED \<noteq> 0),
                   tk_module = md, tk_slot = slot\<rparr>)))"

definition token_skip_reason :: "certificate_tokens \<Rightarrow> certificate_token \<Rightarrow> string option" where
  "token_skip_reason ts token =
     (if tk_model token = Some CERTIFICATE_P11_KIT_TRUST_MODEL then Some ''Trust store has no private keys''
      else if tk_hardware token \<or> tk_module_named_explicitly token then None
      else if ts_allow_software ts then None
      else Some ''Token slot lacks CKF_HW_SLOT; use --allow-software-tokens or --module to include it'')"

text \<open>As in \<open>certificate_pkcs11_has_mechanism\<close> the second count is trusted.\<close>

definition slots_with_token :: "'w discovery_env \<Rightarrow> ck_module \<Rightarrow> 'w \<Rightarrow> 'w \<times> ck_ulong list" where
  "slots_with_token D md w0 =
     (case f_GetSlotList (d_functions D) md True None w0 of
        (w1, rv, count, _) \<Rightarrow>
          if rv \<noteq> CKR_OK \<or> count = 0 then (w1, [])
          else (case f_GetSlotList (d_functions D) md True (Some count) w1 of
              (w2, rv2, count2, ids) \<Rightarrow>
                if rv2 \<noteq> CKR_OK then (w2, []) else (w2, map ids [0..<unat count2])))"

definition mechanisms_for ::
  "'w discovery_env \<Rightarrow> ck_module \<Rightarrow> ck_ulong \<Rightarrow> string option \<Rightarrow> 'w \<Rightarrow> 'w \<times> string list" where
  "mechanisms_for D md slot key_type w0 =
     (let has = certificate_pkcs11_has_mechanism (d_functions D) md slot
      in if key_type = Some ''RSA'' then
           (case has CKM_RSA_PKCS w0 of (w1, v15) \<Rightarrow>
            case has CKM_RSA_PKCS_PSS w1 of (w2, pss) \<Rightarrow>
            case has CKM_RSA_PKCS_OAEP w2 of (w3, oaep) \<Rightarrow>
              (w3, (if v15 then [''RSA_PKCS1_V1_5''] else []) @ (if pss then [''RSA_PSS''] else []) @
                   (if oaep then [''RSA_OAEP''] else [])))
         else if key_type = Some ''EC'' then
           (case has CKM_ECDSA w0 of (w1, ecdsa) \<Rightarrow> (w1, if ecdsa then [''ECDSA''] else []))
         else (w0, []))"

section \<open>Enumeration\<close>

definition key_template :: "ck_ulong \<Rightarrow> bytes \<Rightarrow> ck_attribute list" where
  "key_template key_class cka_id = [attribute_of CKA_CLASS (le_bytes key_class), attribute_of CKA_ID cka_id]"

definition certificate_template :: "ck_attribute list" where
  "certificate_template = [attribute_of CKA_CLASS (le_bytes CKO_CERTIFICATE),
     attribute_of CKA_CERTIFICATE_TYPE (le_bytes CKC_X_509)]"

definition handles_or_empty :: "pkcs11_error + ck_ulong list \<Rightarrow> ck_ulong list" where
  "handles_or_empty r = (case r of Inl _ \<Rightarrow> [] | Inr hs \<Rightarrow> hs)"

text \<open>
  The evidence of a private key, without a login: the private key itself, else a public key,
  else a token that hides objects until the login.  \<open>Inr None\<close>: none.
\<close>

datatype key_evidence = Private_key ck_ulong | Public_key ck_ulong | Login_required

definition find_key_evidence ::
  "'w discovery_env \<Rightarrow> ck_module \<Rightarrow> certificate_token \<Rightarrow> ck_ulong \<Rightarrow> bytes \<Rightarrow> 'w
     \<Rightarrow> 'w \<times> (pkcs11_error + key_evidence option)" where
  "find_key_evidence D md token session cka_id w0 =
     (case certificate_pkcs11_find_objects (d_functions D) md session (key_template CKO_PRIVATE_KEY cka_id) w0 of
        (w1, keys) \<Rightarrow>
          if keys = Inl CERTIFICATE_PKCS11_ERROR_ENUMERATION_LIMIT
          then (w1, Inl CERTIFICATE_PKCS11_ERROR_ENUMERATION_LIMIT)
          else (case handles_or_empty keys of
              key # _ \<Rightarrow> (w1, Inr (Some (Private_key key)))
            | [] \<Rightarrow>
                (case certificate_pkcs11_find_objects (d_functions D) md session
                    (key_template CKO_PUBLIC_KEY cka_id) w1 of
                   (w2, public_keys) \<Rightarrow>
                     if public_keys = Inl CERTIFICATE_PKCS11_ERROR_ENUMERATION_LIMIT
                     then (w2, Inl CERTIFICATE_PKCS11_ERROR_ENUMERATION_LIMIT)
                     else (case handles_or_empty public_keys of
                         key # _ \<Rightarrow> (w2, Inr (Some (Public_key key)))
                       | [] \<Rightarrow> (w2, Inr (if tk_login_required token then Some Login_required else None))))))"

definition usage_has :: "string list option \<Rightarrow> string list \<Rightarrow> bool" where
  "usage_has usage names = (case usage of None \<Rightarrow> True | Some us \<Rightarrow> list_ex (\<lambda>n. n \<in> set us) names)"

definition key_capabilities ::
  "'w discovery_env \<Rightarrow> ck_module \<Rightarrow> ck_ulong \<Rightarrow> key_evidence \<Rightarrow> certificate_candidate \<Rightarrow> 'w
     \<Rightarrow> 'w \<times> certificate_candidate" where
  "key_capabilities D md session evidence c w0 =
     (let get = certificate_pkcs11_get_bool (d_functions D) md session
      in case evidence of
        Private_key key \<Rightarrow>
          (case get key CKA_SIGN True w0 of (w1, sign) \<Rightarrow>
           case get key CKA_DECRYPT False w1 of (w2, decrypt) \<Rightarrow>
             (w2, c\<lparr>cd_can_sign := sign, cd_can_decrypt := decrypt\<rparr>))
      | Public_key key \<Rightarrow>
          (case get key CKA_VERIFY True w0 of (w1, sign) \<Rightarrow>
           case get key CKA_ENCRYPT False w1 of (w2, decrypt) \<Rightarrow>
             (w2, c\<lparr>cd_can_sign := sign, cd_can_decrypt := decrypt\<rparr>))
      | Login_required \<Rightarrow>
          (w0, c\<lparr>cd_can_sign := usage_has (cd_key_usage c) [''digital_signature'', ''content_commitment''],
                 cd_can_decrypt := usage_has (cd_key_usage c) [''key_encipherment'', ''data_encipherment'']\<rparr>))"

text \<open>The body of the loop of \<open>enumerate_token\<close>; \<open>Inr None\<close> is \<open>continue\<close>.\<close>

definition enumerate_handle ::
  "'w discovery_env \<Rightarrow> ck_module \<Rightarrow> certificate_token \<Rightarrow> ck_ulong \<Rightarrow> ck_ulong \<Rightarrow> 'w
     \<Rightarrow> 'w \<times> (pkcs11_error + certificate_candidate option)" where
  "enumerate_handle D md token session handle w0 =
     (case certificate_pkcs11_get_attribute (d_functions D) (d_junk D) md session handle CKA_VALUE w0 of
        (w1, der) \<Rightarrow>
          if der = None \<or> der = Some [] then (w1, Inr None)
          else (case certificate_pkcs11_get_attribute (d_functions D) (d_junk D) md session handle CKA_ID w1 of
              (w2, cka_id) \<Rightarrow>
                if cka_id = None \<or> cka_id = Some [] then (w2, Inr None)
                else (case find_key_evidence D md token session (the cka_id) w2 of
                    (w3, Inl e) \<Rightarrow> (w3, Inl e)
                  | (w3, Inr None) \<Rightarrow> (w3, Inr None)
                  | (w3, Inr (Some evidence)) \<Rightarrow>
                      (case certificate_parse_der (d_x509 D (the der))
                          (certificate_candidate_new\<lparr>cd_token := Some token, cd_der := the der,
                             cd_cka_id := cka_id, cd_certificate_id := Some (d_sha256 D (the der))\<rparr>) of
                         None \<Rightarrow> (w3, Inr None)
                       | Some c1 \<Rightarrow>
                           (case key_capabilities D md session evidence
                               (c1\<lparr>cd_piv_slot := piv_slot_from_id cka_id\<rparr>) w3 of
                              (w4, c2) \<Rightarrow>
                                (case mechanisms_for D md (tk_slot token) (cd_key_type c2) w4 of
                                   (w5, mechanisms) \<Rightarrow>
                                     if mechanisms = [] then (w5, Inr None)
                                     else (w5, Inr (Some (c2\<lparr>cd_supported_mechanisms := Some mechanisms\<rparr>)))))))))"

fun enumerate_handles ::
  "'w discovery_env \<Rightarrow> ck_module \<Rightarrow> certificate_token \<Rightarrow> ck_ulong \<Rightarrow> ck_ulong list \<Rightarrow> certificate_candidate list
     \<Rightarrow> 'w \<Rightarrow> 'w \<times> (pkcs11_error + certificate_candidate list)" where
  "enumerate_handles D md token session [] out w = (w, Inr out)"
| "enumerate_handles D md token session (handle # handles) out w =
     (if d_is_cancelled D w then (w, Inr out)
      else case enumerate_handle D md token session handle w of
        (w1, Inl e) \<Rightarrow> (w1, Inl e)
      | (w1, Inr None) \<Rightarrow> enumerate_handles D md token session handles out w1
      | (w1, Inr (Some c)) \<Rightarrow> enumerate_handles D md token session handles (out @ [c]) w1)"

definition enumerate_token ::
  "'w discovery_env \<Rightarrow> ck_module \<Rightarrow> certificate_token \<Rightarrow> certificate_candidate list \<Rightarrow> 'w
     \<Rightarrow> 'w \<times> (pkcs11_error + certificate_candidate list)" where
  "enumerate_token D md token out w0 =
     (case f_OpenSession (d_functions D) md (tk_slot token) CKF_SERIAL_SESSION w0 of
        (w1, rv, session) \<Rightarrow>
          if rv \<noteq> CKR_OK then (w1, Inr out)
          else (case certificate_pkcs11_find_objects (d_functions D) md session certificate_template w1 of
              (w2, Inl e) \<Rightarrow>
                (f_CloseSession (d_functions D) md session w2,
                 if e = CERTIFICATE_PKCS11_ERROR_ENUMERATION_LIMIT then Inl e else Inr out)
            | (w2, Inr handles) \<Rightarrow>
                (case enumerate_handles D md token session handles out w2 of
                   (w3, r) \<Rightarrow> (f_CloseSession (d_functions D) md session w3, r))))"

text \<open>\<open>enumerate\<close>: \<open>Inl None\<close> is the error of a cancelled \<open>GCancellable\<close>.\<close>

fun enumerate_slots ::
  "'w discovery_env \<Rightarrow> certificate_tokens \<Rightarrow> ck_module \<Rightarrow> ck_ulong list \<Rightarrow> nat \<Rightarrow> certificate_candidate list
     \<Rightarrow> 'w \<Rightarrow> 'w \<times> (pkcs11_error option + nat \<times> certificate_candidate list)" where
  "enumerate_slots D ts md [] n out w = (w, Inr (n, out))"
| "enumerate_slots D ts md (slot # slots) n out w =
     (if d_is_cancelled D w then (w, Inl None)
      else case token_from_slot D ts md slot w of
        (w1, None) \<Rightarrow> enumerate_slots D ts md slots n out w1
      | (w1, Some token) \<Rightarrow>
          if token_skip_reason ts token \<noteq> None then enumerate_slots D ts md slots n out w1
          else (case enumerate_token D md token out w1 of
              (w2, Inl e) \<Rightarrow> (w2, Inl (Some e))
            | (w2, Inr out2) \<Rightarrow> enumerate_slots D ts md slots (Suc n) out2 w2))"

fun enumerate_modules ::
  "'w discovery_env \<Rightarrow> certificate_tokens \<Rightarrow> ck_module list \<Rightarrow> nat \<Rightarrow> certificate_candidate list
     \<Rightarrow> 'w \<Rightarrow> 'w \<times> (pkcs11_error option + nat \<times> certificate_candidate list)" where
  "enumerate_modules D ts [] n out w = (w, Inr (n, out))"
| "enumerate_modules D ts (md # mds) n out w =
     (case slots_with_token D md w of
        (w1, slots) \<Rightarrow>
          (case enumerate_slots D ts md slots n out w1 of
             (w2, Inl e) \<Rightarrow> (w2, Inl e)
           | (w2, Inr (n2, out2)) \<Rightarrow> enumerate_modules D ts mds n2 out2 w2))"

text \<open>The result is the candidates and whether a usable token is present.\<close>

definition certificate_tokens_enumerate ::
  "'w discovery_env \<Rightarrow> certificate_tokens \<Rightarrow> 'w \<Rightarrow> 'w \<times> (pkcs11_error option + certificate_candidate list \<times> bool)" where
  "certificate_tokens_enumerate D ts w0 =
     (case enumerate_modules D ts (module_list D ts) 0 [] w0 of
        (w1, Inl e) \<Rightarrow> (w1, Inl e)
      | (w1, Inr (n, out)) \<Rightarrow> (w1, Inr (out, n > 0)))"

section \<open>Listing\<close>

fun list_slots ::
  "'w discovery_env \<Rightarrow> certificate_tokens \<Rightarrow> bool \<Rightarrow> ck_module \<Rightarrow> ck_ulong list \<Rightarrow> certificate_token list
     \<Rightarrow> 'w \<Rightarrow> 'w \<times> certificate_token list" where
  "list_slots D ts include_skipped md [] out w = (w, out)"
| "list_slots D ts include_skipped md (slot # slots) out w =
     (case token_from_slot D ts md slot w of
        (w1, None) \<Rightarrow> list_slots D ts include_skipped md slots out w1
      | (w1, Some token) \<Rightarrow>
          if token_skip_reason ts token \<noteq> None \<and> \<not> include_skipped
          then list_slots D ts include_skipped md slots out w1
          else list_slots D ts include_skipped md slots
            (out @ [token\<lparr>tk_skip_reason := token_skip_reason ts token\<rparr>]) w1)"

fun list_modules ::
  "'w discovery_env \<Rightarrow> certificate_tokens \<Rightarrow> bool \<Rightarrow> ck_module list \<Rightarrow> certificate_token list
     \<Rightarrow> 'w \<Rightarrow> 'w \<times> certificate_token list" where
  "list_modules D ts include_skipped [] out w = (w, out)"
| "list_modules D ts include_skipped (md # mds) out w =
     (case slots_with_token D md w of
        (w1, slots) \<Rightarrow>
          (case list_slots D ts include_skipped md slots out w1 of
             (w2, out2) \<Rightarrow> list_modules D ts include_skipped mds out2 w2))"

definition list_tokens ::
  "'w discovery_env \<Rightarrow> certificate_tokens \<Rightarrow> bool \<Rightarrow> 'w \<Rightarrow> 'w \<times> certificate_token list" where
  "list_tokens D ts include_skipped w = list_modules D ts include_skipped (module_list D ts) [] w"

section \<open>Opening a session on a known token\<close>

text \<open>\<open>Inr None\<close>: not found.\<close>

fun open_in_slots ::
  "'w discovery_env \<Rightarrow> certificate_tokens \<Rightarrow> certificate_token option \<Rightarrow> ck_module \<Rightarrow> ck_ulong list
     \<Rightarrow> 'w \<Rightarrow> 'w \<times> (pkcs11_error + (ck_module \<times> ck_ulong) option)" where
  "open_in_slots D ts token md [] w = (w, Inr None)"
| "open_in_slots D ts token md (slot # slots) w =
     (case token_from_slot D ts md slot w of
        (w1, present) \<Rightarrow>
          if present = None \<or> \<not> certificate_token_same present token
          then open_in_slots D ts token md slots w1
          else if token_skip_reason ts (the present) \<noteq> None then open_in_slots D ts token md slots w1
          else (case f_OpenSession (d_functions D) md slot CKF_SERIAL_SESSION w1 of
              (w2, rv, session) \<Rightarrow>
                if rv \<noteq> CKR_OK then (w2, Inl (certificate_pkcs11_error_code rv))
                else (w2, Inr (Some (md, session)))))"

fun open_in_modules ::
  "'w discovery_env \<Rightarrow> certificate_tokens \<Rightarrow> certificate_token option \<Rightarrow> ck_module list
     \<Rightarrow> 'w \<Rightarrow> 'w \<times> (pkcs11_error + (ck_module \<times> ck_ulong) option)" where
  "open_in_modules D ts token [] w = (w, Inr None)"
| "open_in_modules D ts token (md # mds) w =
     (case slots_with_token D md w of
        (w1, slots) \<Rightarrow>
          (case open_in_slots D ts token md slots w1 of
             (w2, Inl e) \<Rightarrow> (w2, Inl e)
           | (w2, Inr (Some r)) \<Rightarrow> (w2, Inr (Some r))
           | (w2, Inr None) \<Rightarrow> open_in_modules D ts token mds w2))"

definition certificate_tokens_open_session ::
  "'w discovery_env \<Rightarrow> certificate_tokens \<Rightarrow> certificate_token option \<Rightarrow> 'w
     \<Rightarrow> 'w \<times> (pkcs11_error + ck_module \<times> ck_ulong)" where
  "certificate_tokens_open_session D ts token w0 =
     (case open_in_modules D ts token (module_list D ts) w0 of
        (w1, Inl e) \<Rightarrow> (w1, Inl e)
      | (w1, Inr None) \<Rightarrow> (w1, Inl CERTIFICATE_PKCS11_ERROR_TOKEN_REMOVED)
      | (w1, Inr (Some r)) \<Rightarrow> (w1, Inr r))"

section \<open>The PIN flags\<close>

definition copy_flags :: "certificate_token \<Rightarrow> certificate_token \<Rightarrow> certificate_token" where
  "copy_flags present token = token\<lparr>tk_pin_count_low := tk_pin_count_low present,
     tk_pin_final_try := tk_pin_final_try present, tk_pin_locked := tk_pin_locked present\<rparr>"

fun refresh_in_slots ::
  "'w discovery_env \<Rightarrow> certificate_tokens \<Rightarrow> certificate_token \<Rightarrow> ck_module \<Rightarrow> ck_ulong list
     \<Rightarrow> 'w \<Rightarrow> 'w \<times> certificate_token option" where
  "refresh_in_slots D ts token md [] w = (w, None)"
| "refresh_in_slots D ts token md (slot # slots) w =
     (case token_from_slot D ts md slot w of
        (w1, present) \<Rightarrow>
          if present = None \<or> \<not> certificate_token_same_presence present (Some token)
          then refresh_in_slots D ts token md slots w1
          else (w1, Some (copy_flags (the present) token)))"

fun refresh_in_modules ::
  "'w discovery_env \<Rightarrow> certificate_tokens \<Rightarrow> certificate_token \<Rightarrow> ck_module list
     \<Rightarrow> 'w \<Rightarrow> 'w \<times> certificate_token" where
  "refresh_in_modules D ts token [] w = (w, token)"
| "refresh_in_modules D ts token (md # mds) w =
     (case slots_with_token D md w of
        (w1, slots) \<Rightarrow>
          (case refresh_in_slots D ts token md slots w1 of
             (w2, Some t) \<Rightarrow> (w2, t)
           | (w2, None) \<Rightarrow> refresh_in_modules D ts token mds w2))"

definition certificate_tokens_refresh_flags ::
  "'w discovery_env \<Rightarrow> certificate_tokens \<Rightarrow> certificate_token \<Rightarrow> 'w \<Rightarrow> 'w \<times> certificate_token" where
  "certificate_tokens_refresh_flags D ts token w = refresh_in_modules D ts token (module_list D ts) w"

definition certificate_tokens_capabilities :: "string list \<times> bool" where
  "certificate_tokens_capabilities = ([''RSA_PKCS1_V1_5'', ''RSA_PSS'', ''RSA_OAEP'', ''ECDSA''], True)"

end
