(* ===== verification/DiscoveryProps.thy ===== *)
theory DiscoveryProps
  imports Discovery
begin

text \<open>
  What discovery promises: the shape of the candidates it returns, that a session is opened only
  on the token asked for, and that enumeration uses the tokens without logging in and
  closes every session it opens.
\<close>

section \<open>Candidates\<close>

text \<open>
  \<open>candidate_ok\<close>: the candidate is on a usable token, its certificate and its key identifier are
  there, within the size limit, the usage constraints are those of the certificate, and the token
  supports a mechanism for the key.
\<close>

definition candidate_ok :: "'w discovery_env \<Rightarrow> certificate_tokens \<Rightarrow> certificate_candidate \<Rightarrow> bool" where
  "candidate_ok D ts c \<longleftrightarrow>
     (\<exists>t. cd_token c = Some t \<and> token_skip_reason ts t = None) \<and>
     cd_der c \<noteq> [] \<and> length (cd_der c) \<le> CERTIFICATE_PKCS11_ATTRIBUTE_MAX \<and>
     (\<exists>i. cd_cka_id c = Some i \<and> i \<noteq> [] \<and> length i \<le> CERTIFICATE_PKCS11_ATTRIBUTE_MAX) \<and>
     cd_certificate_id c = Some (d_sha256 D (cd_der c)) \<and>
     parse_eku (d_x509 D (cd_der c)) = Some (cd_eku_oids c) \<and>
     parse_key_usage (d_x509 D (cd_der c)) = Some (cd_key_usage c) \<and>
     (\<exists>ms. cd_supported_mechanisms c = Some ms \<and> ms \<noteq> [] \<and>
        (cd_key_type c = Some ''RSA'' \<and> set ms \<subseteq> {''RSA_PKCS1_V1_5'', ''RSA_PSS'', ''RSA_OAEP''} \<or>
         cd_key_type c = Some ''EC'' \<and> ms = [''ECDSA'']))"

lemma get_attribute_bounded:
  "certificate_pkcs11_get_attribute F junk md session ob type w = (w', Some v) \<Longrightarrow>
     length v \<le> CERTIFICATE_PKCS11_ATTRIBUTE_MAX"
  by (auto simp: certificate_pkcs11_get_attribute_def Let_def split: prod.splits if_splits)

lemma mechanisms_for_names:
  "mechanisms_for D md slot kt w = (w', ms) \<Longrightarrow> ms \<noteq> [] \<Longrightarrow>
     kt = Some ''RSA'' \<and> set ms \<subseteq> {''RSA_PKCS1_V1_5'', ''RSA_PSS'', ''RSA_OAEP''} \<or> kt = Some ''EC'' \<and> ms = [''ECDSA'']"
  by (auto simp: mechanisms_for_def Let_def split: if_splits prod.splits)

lemma parse_der_keeps:
  "certificate_parse_der x c = Some c1 \<Longrightarrow>
     cd_token c1 = cd_token c \<and> cd_der c1 = cd_der c \<and> cd_cka_id c1 = cd_cka_id c \<and>
     cd_certificate_id c1 = cd_certificate_id c \<and>
     parse_eku x = Some (cd_eku_oids c1) \<and> parse_key_usage x = Some (cd_key_usage c1)"
  by (auto simp: certificate_parse_der_def Let_def split: if_splits prod.splits option.splits)

lemma key_capabilities_keeps:
  "key_capabilities D md session ev c w = (w', c1) \<Longrightarrow>
     cd_token c1 = cd_token c \<and> cd_der c1 = cd_der c \<and> cd_cka_id c1 = cd_cka_id c \<and>
     cd_certificate_id c1 = cd_certificate_id c \<and> cd_eku_oids c1 = cd_eku_oids c \<and>
     cd_key_usage c1 = cd_key_usage c \<and> cd_key_type c1 = cd_key_type c"
  by (auto simp: key_capabilities_def Let_def split: key_evidence.splits prod.splits)

lemma enumerate_handle_ok:
  assumes "enumerate_handle D md token session handle w = (w', Inr (Some c))"
    and "token_skip_reason ts token = None"
  shows "candidate_ok D ts c"
proof -
  from assms(1) obtain w1 w2 w3 w4 der i ev c1 c2 ms where
    a: "certificate_pkcs11_get_attribute (d_functions D) (d_junk D) md session handle CKA_VALUE w = (w1, Some der)"
      "certificate_pkcs11_get_attribute (d_functions D) (d_junk D) md session handle CKA_ID w1 = (w2, Some i)"
      "der \<noteq> []" "i \<noteq> []" and
    p: "certificate_parse_der (d_x509 D der) (certificate_candidate_new\<lparr>cd_token := Some token, cd_der := der,
          cd_cka_id := Some i, cd_certificate_id := Some (d_sha256 D der)\<rparr>) = Some c1" and
    k: "key_capabilities D md session ev (c1\<lparr>cd_piv_slot := piv_slot_from_id (Some i)\<rparr>) w3 = (w4, c2)" and
    m: "mechanisms_for D md (tk_slot token) (cd_key_type c2) w4 = (w', ms)" "ms \<noteq> []"
      "c = c2\<lparr>cd_supported_mechanisms := Some ms\<rparr>"
    unfolding enumerate_handle_def by (auto split: prod.splits if_splits sum.splits option.splits)
  from parse_der_keeps [OF p] key_capabilities_keeps [OF k] mechanisms_for_names [OF m(1,2)]
    get_attribute_bounded [OF a(1)] get_attribute_bounded [OF a(2)] a(3,4) m(2,3) assms(2)
  show ?thesis by (simp add: candidate_ok_def)
qed

lemma enumerate_handles_ok:
  "enumerate_handles D md token session handles out w = (w', Inr out') \<Longrightarrow> token_skip_reason ts token = None \<Longrightarrow>
     Ball (set out) (candidate_ok D ts) \<Longrightarrow> Ball (set out') (candidate_ok D ts)"
proof (induction handles arbitrary: out w)
  case (Cons handle handles)
  obtain w1 r where h: "enumerate_handle D md token session handle w = (w1, r)" by fastforce
  show ?case
  proof (cases "d_is_cancelled D w")
    case False
    then show ?thesis
    proof (cases r)
      case (Inr oc)
      show ?thesis
      proof (cases oc)
        case None
        with Cons.prems h False Inr have "enumerate_handles D md token session handles out w1 = (w', Inr out')" by simp
        then show ?thesis using Cons.prems(2,3) by (rule Cons.IH)
      next
        case (Some c)
        with Cons.prems(3) h Inr enumerate_handle_ok [OF _ Cons.prems(2)]
        have "Ball (set (out @ [c])) (candidate_ok D ts)" by auto
        moreover from Cons.prems(1) h False Inr Some
        have "enumerate_handles D md token session handles (out @ [c]) w1 = (w', Inr out')" by simp
        ultimately show ?thesis using Cons.IH Cons.prems(2) by blast
      qed
    qed (use Cons h in auto)
  qed (use Cons in auto)
qed simp

lemma enumerate_token_ok:
  assumes "enumerate_token D md token out w = (w', Inr out')" and "token_skip_reason ts token = None"
    and "Ball (set out) (candidate_ok D ts)"
  shows "Ball (set out') (candidate_ok D ts)"
proof -
  obtain w1 rv session where o: "f_OpenSession (d_functions D) md (tk_slot token) CKF_SERIAL_SESSION w = (w1, rv, session)"
    by (rule prod_cases3)
  obtain w2 r where f: "certificate_pkcs11_find_objects (d_functions D) md session certificate_template w1 = (w2, r)"
    by fastforce
  show ?thesis
  proof (cases r)
    case (Inr handles)
    obtain w3 q where "enumerate_handles D md token session handles out w2 = (w3, q)" by fastforce
    with assms o f Inr enumerate_handles_ok [of D md token session handles out w2 w3 out' ts] show ?thesis
      by (auto simp: enumerate_token_def split: if_splits)
  qed (use assms o f in \<open>auto simp: enumerate_token_def split: if_splits\<close>)
qed

lemma enumerate_slots_ok:
  "enumerate_slots D ts md slots n out w = (w', Inr (n', out')) \<Longrightarrow>
     Ball (set out) (candidate_ok D ts) \<Longrightarrow> Ball (set out') (candidate_ok D ts)"
proof (induction slots arbitrary: n out w)
  case (Cons slot slots)
  obtain w1 t where t: "token_from_slot D ts md slot w = (w1, t)" by fastforce
  show ?case
  proof (cases t)
    case None
    with Cons t show ?thesis by (auto split: if_splits)
  next
    case (Some token)
    obtain w2 r where e: "enumerate_token D md token out w1 = (w2, r)" by fastforce
    with Cons t Some enumerate_token_ok [of D md token out w1 w2 _ ts] show ?thesis
      by (cases r) (auto split: if_splits)
  qed
qed simp

lemma enumerate_modules_ok:
  "enumerate_modules D ts mds n out w = (w', Inr (n', out')) \<Longrightarrow>
     Ball (set out) (candidate_ok D ts) \<Longrightarrow> Ball (set out') (candidate_ok D ts)"
proof (induction mds arbitrary: n out w)
  case (Cons md mds)
  obtain w1 slots where s: "slots_with_token D md w = (w1, slots)" by fastforce
  obtain w2 r where e: "enumerate_slots D ts md slots n out w1 = (w2, r)" by fastforce
  with Cons s enumerate_slots_ok [of D ts md slots n out w1 w2] show ?case
    by (cases r) auto
qed simp

section \<open>The token a session is opened on\<close>

text \<open>\<open>opened_on D ts token md rv session w'\<close>: the last thing done was to ask for a session on this token.\<close>

definition opened_on ::
  "'w discovery_env \<Rightarrow> certificate_tokens \<Rightarrow> certificate_token option \<Rightarrow> ck_module \<Rightarrow> ck_rv \<Rightarrow> ck_ulong \<Rightarrow> 'w \<Rightarrow> bool" where
  "opened_on D ts token md rv session w' \<longleftrightarrow>
     (\<exists>slot w1 w2 present. token_from_slot D ts md slot w1 = (w2, Some present) \<and>
        certificate_token_same (Some present) token \<and> token_skip_reason ts present = None \<and>
        f_OpenSession (d_functions D) md slot CKF_SERIAL_SESSION w2 = (w', rv, session))"

definition open_result_ok ::
  "'w discovery_env \<Rightarrow> certificate_tokens \<Rightarrow> certificate_token option \<Rightarrow> ck_module list \<Rightarrow> 'w
     \<Rightarrow> pkcs11_error + (ck_module \<times> ck_ulong) option \<Rightarrow> bool" where
  "open_result_ok D ts token mds w' r =
     (case r of
        Inl e \<Rightarrow> (\<exists>md \<in> set mds. \<exists>rv h. rv \<noteq> CKR_OK \<and> opened_on D ts token md rv h w' \<and> e = certificate_pkcs11_error_code rv)
      | Inr None \<Rightarrow> True
      | Inr (Some (md, session)) \<Rightarrow> md \<in> set mds \<and> opened_on D ts token md CKR_OK session w')"

lemma open_in_slots_same:
  "open_in_slots D ts token md slots w = (w', r) \<Longrightarrow> open_result_ok D ts token [md] w' r"
proof (induction slots arbitrary: w)
  case (Cons slot slots)
  obtain w1 t where t: "token_from_slot D ts md slot w = (w1, t)" by fastforce
  obtain w2 rv h where o: "f_OpenSession (d_functions D) md slot CKF_SERIAL_SESSION w1 = (w2, rv, h)"
    by (rule prod_cases3)
  have "opened_on D ts token md rv h w2"
    if "t = Some p" "certificate_token_same (Some p) token" "token_skip_reason ts p = None" for p
    unfolding opened_on_def using t o that by blast
  with Cons t o show ?case
    by (cases t) (fastforce simp: open_result_ok_def split: if_splits)+
qed (auto simp: open_result_ok_def)

lemma open_result_ok_mono: "open_result_ok D ts token mds w' r \<Longrightarrow> set mds \<subseteq> set mds' \<Longrightarrow> open_result_ok D ts token mds' w' r"
  by (auto simp: open_result_ok_def split: sum.splits option.splits)

lemma open_in_modules_same:
  "open_in_modules D ts token mds w = (w', r) \<Longrightarrow> open_result_ok D ts token mds w' r"
proof (induction mds arbitrary: w)
  case (Cons m mds)
  obtain w1 slots where s: "slots_with_token D m w = (w1, slots)" by fastforce
  obtain w2 q where e: "open_in_slots D ts token m slots w1 = (w2, q)" by fastforce
  have "open_result_ok D ts token (m # mds) w2 q"
    using open_in_slots_same [OF e] by (rule open_result_ok_mono) auto
  moreover have "open_result_ok D ts token (m # mds) w' r" if "open_in_modules D ts token mds w2 = (w', r)"
    using Cons.IH [OF that] by (rule open_result_ok_mono) auto
  ultimately show ?case using Cons.prems s e
    by (auto split: sum.splits option.splits)
qed (auto simp: open_result_ok_def)

lemma open_session_result:
  assumes "certificate_tokens_open_session D ts token w = (w', r)"
  shows "case r of
      Inr (md, session) \<Rightarrow> md \<in> set (module_list D ts) \<and> opened_on D ts token md CKR_OK session w'
    | Inl e \<Rightarrow> e = CERTIFICATE_PKCS11_ERROR_TOKEN_REMOVED \<or>
        (\<exists>md \<in> set (module_list D ts). \<exists>rv session. rv \<noteq> CKR_OK \<and> opened_on D ts token md rv session w' \<and>
           e = certificate_pkcs11_error_code rv)"
proof -
  obtain w1 q where q: "open_in_modules D ts token (module_list D ts) w = (w1, q)" by fastforce
  from open_in_modules_same [OF q] q assms show ?thesis
    by (auto simp: certificate_tokens_open_session_def open_result_ok_def split: sum.splits option.splits)
qed

section \<open>The calls of an enumeration\<close>

definition recording_env :: "'w discovery_env \<Rightarrow> (token_call list \<times> 'w) discovery_env" where
  "recording_env D =
     \<lparr>d_functions = recording (d_functions D), d_text = d_text D, d_module_name = d_module_name D,
      d_module_filename = d_module_filename D, d_basename = d_basename D,
      d_module_load = (\<lambda>p (l, w). case d_module_load D p w of (w', r) \<Rightarrow> ((l, w'), r)),
      d_module_initialize = (\<lambda>m (l, w). case d_module_initialize D m w of (w', r) \<Rightarrow> ((l, w'), r)),
      d_module_release = (\<lambda>m (l, w). (l, d_module_release D m w)),
      d_module_finalize = (\<lambda>m (l, w). (l, d_module_finalize D m w)),
      d_modules_load = (\<lambda>(l, w). case d_modules_load D w of (w', r) \<Rightarrow> ((l, w'), r)),
      d_modules_release = (\<lambda>ms (l, w). (l, d_modules_release D ms w)),
      d_x509 = d_x509 D, d_sha256 = d_sha256 D, d_is_cancelled = (\<lambda>(l, w). d_is_cancelled D w),
      d_junk = d_junk D\<rparr>"

lemma recording_env_fields [simp]:
  "d_functions (recording_env D) = recording (d_functions D)"
  "d_module_name (recording_env D) = d_module_name D"
  by (simp_all add: recording_env_def)

text \<open>
  The protocol of discovery: it never logs in, signs or decrypts; it has at most one session open,
  searches and reads only in that session, and does not open another before closing it.
\<close>

fun discovery_protocol :: "(ck_module \<times> ck_ulong) option \<Rightarrow> token_call \<Rightarrow> (ck_module \<times> ck_ulong) option option" where
  "discovery_protocol p (Call_GetSlotList m) = Some p"
| "discovery_protocol p (Call_GetSlotInfo m s) = Some p"
| "discovery_protocol p (Call_GetTokenInfo m s) = Some p"
| "discovery_protocol p (Call_GetMechanismList m s) = Some p"
| "discovery_protocol p (Call_OpenSession m s rv h) =
     (if p \<noteq> None then None else Some (if rv = CKR_OK then Some (m, h) else None))"
| "discovery_protocol p (Call_CloseSession m h) = (if p = Some (m, h) then Some None else None)"
| "discovery_protocol p (Call_FindObjectsInit m h) = (if p = Some (m, h) then Some p else None)"
| "discovery_protocol p (Call_FindObjects m h) = (if p = Some (m, h) then Some p else None)"
| "discovery_protocol p (Call_FindObjectsFinal m h) = (if p = Some (m, h) then Some p else None)"
| "discovery_protocol p (Call_GetAttributeValue m h ob ty) = (if p = Some (m, h) then Some p else None)"
| "discovery_protocol p _ = None"

abbreviation disc :: "(ck_module \<times> ck_ulong) option \<Rightarrow> (ck_module \<times> ck_ulong) option
    \<Rightarrow> token_call list \<times> 'w \<Rightarrow> token_call list \<times> 'w \<Rightarrow> bool" where
  "disc \<equiv> follows discovery_protocol"

lemma token_from_slot_follows: "token_from_slot (recording_env D) ts md slot s = (t, r) \<Longrightarrow> disc p p s t"
  by (cases s) (auto simp: token_from_slot_def recording_simps follows_def Let_def split: prod.splits if_splits)

lemma slots_with_token_follows: "slots_with_token (recording_env D) md s = (t, r) \<Longrightarrow> disc p p s t"
  by (cases s) (auto simp: slots_with_token_def recording_simps follows_def split: prod.splits if_splits)

lemma mechanisms_for_follows:
  assumes "mechanisms_for (recording_env D) md slot kt s = (t, r)"
  shows "disc p p s t"
proof -
  let ?has = "\<lambda>k. certificate_pkcs11_has_mechanism (recording (d_functions D)) md slot k"
  have h: "?has k a = (b, x) \<Longrightarrow> disc p p a b" for k a b x
    by (erule has_mechanism_follows) simp
  from assms show ?thesis
    by (auto simp: mechanisms_for_def Let_def split: if_splits prod.splits dest!: h intro: follows_trans)
qed

lemma key_capabilities_follows:
  assumes "key_capabilities (recording_env D) md session ev c s = (t, r)"
  shows "disc (Some (md, session)) (Some (md, session)) s t"
proof -
  have h: "certificate_pkcs11_get_bool (recording (d_functions D)) md session ob ty f a = (b, x) \<Longrightarrow>
      disc (Some (md, session)) (Some (md, session)) a b" for ob ty f a b x
    by (erule get_bool_follows) simp
  from assms show ?thesis
    by (auto simp: key_capabilities_def Let_def split: key_evidence.splits prod.splits dest!: h intro: follows_trans)
qed

lemma find_key_evidence_follows:
  assumes "find_key_evidence (recording_env D) md token session i s = (t, r)"
  shows "disc (Some (md, session)) (Some (md, session)) s t"
proof -
  have h: "certificate_pkcs11_find_objects (recording (d_functions D)) md session templ a = (b, x) \<Longrightarrow>
      disc (Some (md, session)) (Some (md, session)) a b" for templ a b x
    by (erule find_objects_follows) simp_all
  from assms show ?thesis
    by (auto simp: find_key_evidence_def split: prod.splits if_splits list.splits dest!: h intro: follows_trans)
qed

lemma enumerate_handle_follows:
  assumes "enumerate_handle (recording_env D) md token session handle s = (t, r)"
  shows "disc (Some (md, session)) (Some (md, session)) s t"
proof -
  have h: "certificate_pkcs11_get_attribute (recording (d_functions D)) junk md session ob ty a = (b, x) \<Longrightarrow>
      disc (Some (md, session)) (Some (md, session)) a b" for junk ob ty a b x
    by (erule get_attribute_follows) simp
  obtain s1 der where a1: "certificate_pkcs11_get_attribute (recording (d_functions D)) (d_junk (recording_env D))
      md session handle CKA_VALUE s = (s1, der)" by fastforce
  obtain s2 i where a2: "certificate_pkcs11_get_attribute (recording (d_functions D)) (d_junk (recording_env D))
      md session handle CKA_ID s1 = (s2, i)" by fastforce
  obtain s3 ev where e: "find_key_evidence (recording_env D) md token session (the i) s2 = (s3, ev)" by fastforce
  have d: "disc (Some (md, session)) (Some (md, session)) s s1" "disc (Some (md, session)) (Some (md, session)) s s2"
    "disc (Some (md, session)) (Some (md, session)) s s3"
    using h [OF a1] h [OF a2] find_key_evidence_follows [OF e] by (blast intro: follows_trans)+
  from assms a1 a2 e show ?thesis
    by (auto simp: enumerate_handle_def d split: if_splits sum.splits option.splits prod.splits
        dest!: key_capabilities_follows mechanisms_for_follows [where p = "Some (md, session)"] intro: follows_trans d)
qed

lemma enumerate_handles_follows:
  "enumerate_handles (recording_env D) md token session handles out s = (t, r) \<Longrightarrow>
     disc (Some (md, session)) (Some (md, session)) s t"
proof (induction handles arbitrary: out s)
  case (Cons handle handles)
  obtain s1 r1 where h: "enumerate_handle (recording_env D) md token session handle s = (s1, r1)" by fastforce
  note d = enumerate_handle_follows [OF h]
  from Cons.prems h d show ?case
    by (auto split: if_splits sum.splits option.splits intro: follows_trans [OF d] Cons.IH)
qed simp

lemma enumerate_token_follows:
  assumes "enumerate_token (recording_env D) md token out s = (t, r)"
  shows "disc None None s t"
proof -
  obtain s1 rv session where o: "f_OpenSession (recording (d_functions D)) md (tk_slot token) CKF_SERIAL_SESSION s = (s1, rv, session)"
    by (rule prod_cases3)
  have d1: "disc None (if rv = CKR_OK then Some (md, session) else None) s s1"
    using o by (cases s) (auto simp: recording_simps follows_def split: prod.splits)
  obtain s2 f where f: "certificate_pkcs11_find_objects (recording (d_functions D)) md session certificate_template s1 = (s2, f)"
    by fastforce
  have d2: "disc (Some (md, session)) (Some (md, session)) s1 s2"
    by (rule find_objects_follows [OF f]) simp_all
  have close: "disc (Some (md, session)) None a (f_CloseSession (recording (d_functions D)) md session a)" for a
    by (cases a) (simp add: recording_simps follows_def)
  show ?thesis
  proof (cases f)
    case (Inr handles)
    obtain s3 q where e: "enumerate_handles (recording_env D) md token session handles out s2 = (s3, q)" by fastforce
    from follows_trans [OF d2 follows_trans [OF enumerate_handles_follows [OF e] close]] assms o d1 f Inr e
    show ?thesis by (auto simp: enumerate_token_def split: if_splits intro: follows_trans)
  qed (use assms o d1 f follows_trans [OF d2 close] in \<open>auto simp: enumerate_token_def split: if_splits intro: follows_trans\<close>)
qed

lemma enumerate_slots_follows:
  "enumerate_slots (recording_env D) ts md slots n out s = (t, r) \<Longrightarrow> disc None None s t"
proof (induction slots arbitrary: n out s)
  case (Cons slot slots)
  obtain s1 tok where h: "token_from_slot (recording_env D) ts md slot s = (s1, tok)" by fastforce
  note d = token_from_slot_follows [OF h, of None]
  obtain s2 e where e: "enumerate_token (recording_env D) md (the tok) out s1 = (s2, e)" by fastforce
  note d2 = follows_trans [OF d enumerate_token_follows [OF e]]
  from Cons.prems h e show ?case
    by (auto split: if_splits sum.splits option.splits simp: d2
        intro: follows_trans [OF d] follows_trans [OF d2] Cons.IH)
qed simp

lemma enumerate_modules_follows:
  "enumerate_modules (recording_env D) ts mds n out s = (t, r) \<Longrightarrow> disc None None s t"
proof (induction mds arbitrary: n out s)
  case (Cons md mds)
  obtain s1 slots where h: "slots_with_token (recording_env D) md s = (s1, slots)" by fastforce
  obtain s2 e where e: "enumerate_slots (recording_env D) ts md slots n out s1 = (s2, e)" by fastforce
  note d = follows_trans [OF slots_with_token_follows [OF h] enumerate_slots_follows [OF e]]
  from Cons.prems h e show ?case
    by (auto split: sum.splits simp: d intro: follows_trans [OF d] Cons.IH)
qed simp

text \<open>Enumerating the tokens never logs in, signs or decrypts; it has at most one
  session open, searches and reads only in that one, and leaves none open, on errors and
  cancellation too.\<close>

lemma discovery_without_login:
  "\<exists>calls. fst (fst (certificate_tokens_enumerate (recording_env D) ts (l, w))) = l @ calls \<and>
     protocol_run discovery_protocol None calls = Some None"
proof -
  obtain t r where e: "enumerate_modules (recording_env D) ts (module_list (recording_env D) ts) 0 [] (l, w) = (t, r)"
    by fastforce
  from enumerate_modules_follows [OF e] e show ?thesis
    by (cases r) (auto simp: certificate_tokens_enumerate_def follows_def split: prod.splits)
qed

section \<open>A concrete token\<close>

text \<open>
  One module with one hardware token: it has one object of every kind, asked for, its
  certificate is the octet 42, and the user is logged in from \<open>C_Login\<close> on.  The state is the number of
  objects a running search has left and whether the user is logged in.
\<close>

definition sample_functions :: "(nat \<times> bool) ck_function_list" where
  "sample_functions =
     \<lparr>f_GetSlotList = \<lambda>m b n w. (w, CKR_OK, 1, \<lambda>_. 7),
      f_GetSlotInfo = \<lambda>m s w. (w, CKR_OK, \<lparr>si_slotDescription = [0x52], si_manufacturerID = [], si_flags = CKF_HW_SLOT\<rparr>),
      f_GetTokenInfo = \<lambda>m s w. (w, CKR_OK, \<lparr>ti_label = [0x4c], ti_manufacturerID = [], ti_model = [],
        ti_serialNumber = [0x31], ti_flags = CKF_TOKEN_INITIALIZED OR CKF_LOGIN_REQUIRED,
        ti_ulMaxSessionCount = 0, ti_ulSessionCount = 0, ti_ulMaxRwSessionCount = 0, ti_ulRwSessionCount = 0,
        ti_ulMaxPinLen = 0, ti_ulMinPinLen = 0, ti_memory = [], ti_utcTime = []\<rparr>),
      f_GetMechanismList = \<lambda>m s n w. (w, CKR_OK, 1, \<lambda>_. CKM_RSA_PKCS),
      f_OpenSession = \<lambda>m s fl w. (w, CKR_OK, 9),
      f_CloseSession = \<lambda>m h w. w,
      f_GetSessionInfo = \<lambda>m h w. (w, CKR_OK, \<lparr>sei_slotID = 7,
        sei_state = (if snd w then CKS_RO_USER_FUNCTIONS else CKS_RO_PUBLIC_SESSION), sei_flags = 0, sei_ulDeviceError = 0\<rparr>),
      f_Login = \<lambda>m h u pin w. if pin = Some [0x31, 0x32] then ((fst w, True), CKR_OK) else (w, CKR_PIN_INCORRECT),
      f_FindObjectsInit = \<lambda>m h t w. ((1, snd w), CKR_OK),
      f_FindObjects = \<lambda>m h n w. ((0, snd w), CKR_OK, of_nat (fst w), \<lambda>_. 5),
      f_FindObjectsFinal = \<lambda>m h w. w,
      f_GetAttributeValue = \<lambda>m h ob ty b n w. (w, CKR_OK, 1, [42]),
      f_SignInit = \<lambda>m h mech k w. (w, CKR_OK),
      f_Sign = \<lambda>m h d n w. (w, CKR_OK, 2, [1, 2]),
      f_DecryptInit = \<lambda>m h mech k w. (w, CKR_OK),
      f_Decrypt = \<lambda>m h d n w. (w, CKR_OK, 1, [3])\<rparr>"

definition sample_reading :: x509_reading where
  "sample_reading =
     \<lparr>xr_imports = True, xr_common_name = (\<lambda>_. Some ''Ada''), xr_organization_name = (\<lambda>_. None), xr_dn = (\<lambda>_. None),
      xr_activation_time = 0, xr_expiration_time = 0, xr_eku_extension = EXTENSION_ABSENT, xr_key_purposes = [],
      xr_key_usage = Inl False, xr_raw_issuer = None, xr_pk = GNUTLS_PK_RSA, xr_bits = 2048, xr_curve_name = None\<rparr>"

definition sample_discovery :: "(nat \<times> bool) discovery_env" where
  "sample_discovery =
     \<lparr>d_functions = sample_functions,
      d_text = \<lparr>x_space_strdup = \<lambda>b. Some (map (char_of \<circ> unat) b), x_utf8_validate = \<lambda>_. True, x_utf8_make_valid = id\<rparr>,
      d_module_name = \<lambda>_. None, d_module_filename = \<lambda>_. None, d_basename = id,
      d_module_load = \<lambda>p w. (w, Some 3), d_module_initialize = \<lambda>m w. (w, CKR_OK),
      d_module_release = \<lambda>m w. w, d_module_finalize = \<lambda>m w. w,
      d_modules_load = \<lambda>w. (w, None), d_modules_release = \<lambda>ms w. w,
      d_x509 = \<lambda>_. sample_reading, d_sha256 = \<lambda>_. ''ab'', d_is_cancelled = \<lambda>_. False, d_junk = \<lambda>_. 0\<rparr>"

definition sample_tokens :: certificate_tokens where
  "sample_tokens = \<lparr>ts_modules = None, ts_explicit_modules = [3], ts_module_names = [3 \<mapsto> ''m.so''], ts_allow_software = False\<rparr>"

definition sample_token :: certificate_token where
  "sample_token =
     \<lparr>tk_label = Some ''L'', tk_manufacturer = Some [], tk_model = Some [], tk_serial = Some ''1'',
      tk_reader_name = Some ''R'', tk_module_name = Some ''m.so'', tk_protected_authentication_path = False,
      tk_login_required = True, tk_hardware = True, tk_module_named_explicitly = True, tk_skip_reason = None,
      tk_pin_count_low = False, tk_pin_final_try = False, tk_pin_locked = False, tk_module = 3, tk_slot = 7\<rparr>"

lemma sample_slots: "slots_with_token sample_discovery 3 w = (w, [7])"
  by (simp add: slots_with_token_def sample_discovery_def sample_functions_def)

lemma sample_from_slot: "token_from_slot sample_discovery sample_tokens 3 7 w = (w, Some sample_token)"
  by (simp add: token_from_slot_def sample_discovery_def sample_functions_def sample_tokens_def sample_token_def
      certificate_pkcs11_string_def char_of_def bit_Suc_0_iff)

lemma sample_list: "module_list sample_discovery sample_tokens = [3]"
  by (simp add: module_list_def sample_tokens_def)

lemma sample_open:
  "certificate_tokens_open_session sample_discovery sample_tokens (Some sample_token) w = (w, Inr (3, 9))"
  by (simp add: certificate_tokens_open_session_def sample_list sample_slots sample_from_slot token_same_iff)
     (simp add: sample_token_def token_skip_reason_def sample_discovery_def sample_functions_def)

lemma sample_find:
  "certificate_pkcs11_find_objects sample_functions 3 9 templ w = ((0, snd w), Inr [5])"
  by (simp add: certificate_pkcs11_find_objects_def sample_functions_def find_objects_loop.simps)

definition sample_candidate :: certificate_candidate where
  "sample_candidate = certificate_candidate_new\<lparr>cd_token := Some sample_token, cd_der := [42],
     cd_cka_id := Some [42], cd_certificate_id := Some ''ab'', cd_subject_display := Some ''Ada'',
     cd_issuer_display := Some ''Ada'', cd_key_type := Some ''RSA'', cd_key_size := 2048, cd_can_sign := True,
     cd_can_decrypt := True, cd_supported_mechanisms := Some [''RSA_PKCS1_V1_5'']\<rparr>"

lemma sample_fields:
  "d_functions sample_discovery = sample_functions" "d_x509 sample_discovery = (\<lambda>_. sample_reading)"
  "d_sha256 sample_discovery = (\<lambda>_. ''ab'')" "tk_slot sample_token = 7"
  "tk_login_required sample_token" "d_is_cancelled sample_discovery = (\<lambda>_. False)"
  by (simp_all add: sample_discovery_def sample_token_def)

lemma sample_capabilities:
  "key_capabilities sample_discovery 3 9 (Private_key 5) c w = (w, c\<lparr>cd_can_sign := True, cd_can_decrypt := True\<rparr>)"
  "mechanisms_for sample_discovery 3 7 (Some ''RSA'') w = (w, [''RSA_PKCS1_V1_5''])"
proof -
  have g: "certificate_pkcs11_get_bool sample_functions 3 9 5 ty v w = (w, True)" for ty v w
    by (simp add: certificate_pkcs11_get_bool_def sample_functions_def overwrite_def)
  have h: "certificate_pkcs11_has_mechanism sample_functions 3 7 k w = (w, k = CKM_RSA_PKCS)" for k w
    by (auto simp: certificate_pkcs11_has_mechanism_def sample_functions_def)
  show "key_capabilities sample_discovery 3 9 (Private_key 5) c w = (w, c\<lparr>cd_can_sign := True, cd_can_decrypt := True\<rparr>)"
    by (simp add: key_capabilities_def sample_fields g)
  show "mechanisms_for sample_discovery 3 7 (Some ''RSA'') w = (w, [''RSA_PKCS1_V1_5''])"
    by (simp add: mechanisms_for_def sample_fields h)
qed

lemma sample_parse:
  "certificate_parse_der sample_reading c = Some (c\<lparr>cd_subject_display := Some ''Ada'', cd_issuer_display := Some ''Ada'',
     cd_subject_dn := None, cd_not_before := 0, cd_not_after := 0, cd_eku_oids := None, cd_key_usage := None,
     cd_key_type := Some ''RSA'', cd_key_size := 2048\<rparr>)"
  by (simp add: certificate_parse_der_def sample_reading_def display_name_def parse_eku_def parse_key_usage_def)

lemma sample_enumerate_handle:
  "enumerate_handle sample_discovery 3 sample_token 9 5 (0, b) = ((0, b), Inr (Some sample_candidate))"
proof -
  have a: "certificate_pkcs11_get_attribute sample_functions junk 3 9 5 ty w = (w, Some [42])" for junk ty w
    by (simp add: certificate_pkcs11_get_attribute_def sample_functions_def overwrite_def)
  have e: "find_key_evidence sample_discovery 3 sample_token 9 [42] (0, b) = ((0, b), Inr (Some (Private_key 5)))"
    by (simp add: find_key_evidence_def sample_fields sample_find handles_or_empty_def)
  show ?thesis
    by (simp add: enumerate_handle_def sample_fields a e sample_parse sample_capabilities)
       (simp add: sample_candidate_def certificate_candidate_new_def piv_slot_from_id_def)
qed

lemma sample_enumerate:
  "certificate_tokens_enumerate sample_discovery sample_tokens (0, False) = ((0, False), Inr ([sample_candidate], True))"
proof -
  have o: "f_OpenSession sample_functions m s fl w = (w, CKR_OK, 9)" "f_CloseSession sample_functions m h w = w" for m s fl w h
    by (simp_all add: sample_functions_def)
  have k: "token_skip_reason sample_tokens sample_token = None"
    by (simp add: token_skip_reason_def sample_token_def)
  show ?thesis
    by (simp add: certificate_tokens_enumerate_def sample_list sample_slots sample_from_slot k enumerate_token_def
        sample_fields o sample_find sample_enumerate_handle)
qed

section \<open>Properties\<close>

text \<open>C33 (type): every candidate of an enumeration is on a usable token, has a certificate and a key
  identifier of at most 64 KiB each and the digest of that certificate as its name, carries
  exactly the usage constraints the certificate states (an unreadable extension is never taken for
  an absent one), and has an RSA or EC key with a mechanism of that key type on its token.\<close>

theorem candidates_well_formed:
  assumes "certificate_tokens_enumerate D ts w = (w', Inr (candidates, present))" and "c \<in> set candidates"
  shows "candidate_ok D ts c"
  using assms enumerate_modules_ok [of D ts "module_list D ts" 0 "[]" w w']
  by (auto simp: certificate_tokens_enumerate_def split: prod.splits sum.splits)

theorem candidates_well_formed_witness: "candidate_ok sample_discovery sample_tokens sample_candidate"
  by (rule candidates_well_formed [OF sample_enumerate]) simp

text \<open>A session is asked for only in a module of the list, on a slot whose token at that
  moment has the serial number, label, model and manufacturer of the token meant and is usable,
  whatever slot it was in before.  Every error is that call's, or that no such token is there.\<close>

lemma session_opens_same_token:
  assumes "certificate_tokens_open_session D ts token w = (w', r)"
  shows "case r of
      Inr (md, session) \<Rightarrow> md \<in> set (module_list D ts) \<and> opened_on D ts token md CKR_OK session w'
    | Inl e \<Rightarrow> e = CERTIFICATE_PKCS11_ERROR_TOKEN_REMOVED \<or>
        (\<exists>md \<in> set (module_list D ts). \<exists>rv session. rv \<noteq> CKR_OK \<and> opened_on D ts token md rv session w' \<and>
           e = certificate_pkcs11_error_code rv)"
  using assms by (rule open_session_result)

lemma session_opens_same_token_witness:
  "opened_on sample_discovery sample_tokens (Some sample_token) 3 CKR_OK 9 (0, False)"
  using session_opens_same_token [OF sample_open [of "(0, False)"]] by simp

end
