(* ===== verification/Watch.thy ===== *)
theory Watch
  imports DiscoveryProps
begin

text \<open>
  Presence watching (\<open>src/tokens/discovery.c\<close>, last part): the polling thread's debounce over all
  readers, and the queue that carries its events to the main context.  A round of the thread
  is a function of the list of tokens it finds; the list itself comes from \<open>list_tokens\<close>.  The
  round is shown to be, for every token on its own, the two-observation debouncer
  \<open>debounce_step\<close>: what other readers show has no influence.  The first listing adds its tokens
  without looking for them among those already added, so a token listed twice is watched twice
  until its first removal; the theorem counts these entries.
\<close>

section \<open>Matching\<close>

text \<open>What the watcher needs of the matching of tokens: an equivalence.\<close>

locale presence_matching =
  fixes same :: "'a \<Rightarrow> 'a \<Rightarrow> bool"
  assumes same_refl: "same x x"
    and same_sym: "same x y \<Longrightarrow> same y x"
    and same_trans: "same x y \<Longrightarrow> same y z \<Longrightarrow> same x z"
begin

lemma same_cong: "same x y \<Longrightarrow> same a x \<longleftrightarrow> same a y"
  using same_sym same_trans by blast

lemma list_ex_cong_same: "same x y \<Longrightarrow> list_ex (\<lambda>a. same a x) xs \<longleftrightarrow> list_ex (\<lambda>a. same a y) xs"
  by (simp add: same_cong cong: list.pred_cong)

lemma find_class_None: "List.find (\<lambda>e. same (key e) t) xs = None \<longleftrightarrow> (\<forall>e \<in> set xs. \<not> same (key e) t)"
  by (induction xs) auto

end

definition same_presence :: "certificate_token \<Rightarrow> certificate_token \<Rightarrow> bool" where
  "same_presence a b = certificate_token_same_presence (Some a) (Some b)"

interpretation pres: presence_matching same_presence
  by unfold_locales (auto simp: same_presence_def intro: presence_refl presence_sym presence_trans)

section \<open>A round of the watch thread\<close>

abbreviation CERTIFICATE_WATCH_DEBOUNCE :: nat where "CERTIFICATE_WATCH_DEBOUNCE \<equiv> 2"

record watch_token =
  wt_token :: certificate_token
  wt_stable :: nat
  wt_present :: bool

definition list_contains_token :: "certificate_token list \<Rightarrow> certificate_token \<Rightarrow> bool" where
  "list_contains_token list token = list_ex (\<lambda>t. same_presence t token) list"

definition watch_contains_token :: "watch_token list \<Rightarrow> certificate_token \<Rightarrow> bool" where
  "watch_contains_token watched token = list_ex (\<lambda>e. same_presence (wt_token e) token) watched"

definition watch_token_add :: "certificate_token \<Rightarrow> bool \<Rightarrow> watch_token list \<Rightarrow> watch_token list" where
  "watch_token_add token present watched = watched @ [\<lparr>wt_token = token, wt_stable = 0, wt_present = present\<rparr>]"

fun watch_add_fresh :: "certificate_token list \<Rightarrow> watch_token list \<Rightarrow> watch_token list" where
  "watch_add_fresh [] watched = watched"
| "watch_add_fresh (fresh # now) watched =
     watch_add_fresh now (if watch_contains_token watched fresh then watched else watch_token_add fresh False watched)"

definition watch_observe :: "certificate_token list \<Rightarrow> watch_token \<Rightarrow> watch_token" where
  "watch_observe now e =
     e\<lparr>wt_stable := (if list_contains_token now (wt_token e) = wt_present e then 0 else wt_stable e + 1)\<rparr>"

type_synonym watch_event = "certificate_token \<times> bool"

fun watch_removals :: "watch_token list \<Rightarrow> watch_token list \<times> watch_event list" where
  "watch_removals [] = ([], [])"
| "watch_removals (e # es) =
     (case watch_removals es of
        (es', evs) \<Rightarrow>
          if wt_present e \<and> wt_stable e \<ge> CERTIFICATE_WATCH_DEBOUNCE
          then (e\<lparr>wt_present := False, wt_stable := 0\<rparr> # es', (wt_token e, False) # evs)
          else (e # es', evs))"

fun watch_additions :: "certificate_token list \<Rightarrow> watch_token list \<Rightarrow> watch_token list \<times> watch_event list" where
  "watch_additions now [] = ([], [])"
| "watch_additions now (e # es) =
     (case watch_additions now es of
        (es', evs) \<Rightarrow>
          let (e2, ev) = (if \<not> wt_present e \<and> wt_stable e \<ge> CERTIFICATE_WATCH_DEBOUNCE
                          then (e\<lparr>wt_present := True, wt_stable := 0\<rparr>, [(wt_token e, True)]) else (e, []))
          in (if \<not> wt_present e2 \<and> \<not> list_contains_token now (wt_token e2) then es' else e2 # es', ev @ evs))"

definition watch_round :: "certificate_token list \<Rightarrow> watch_token list \<Rightarrow> watch_token list \<times> watch_event list" where
  "watch_round now watched =
     (case watch_removals (map (watch_observe now) (watch_add_fresh now watched)) of
        (w1, gone) \<Rightarrow> (case watch_additions now w1 of (w2, come) \<Rightarrow> (w2, gone @ come)))"

definition watch_initial :: "certificate_token list \<Rightarrow> watch_token list" where
  "watch_initial initial = fold (\<lambda>t. watch_token_add t True) initial []"

fun watch_rounds :: "certificate_token list list \<Rightarrow> watch_token list \<Rightarrow> watch_token list \<times> watch_event list" where
  "watch_rounds [] watched = (watched, [])"
| "watch_rounds (now # rest) watched =
     (case watch_round now watched of
        (w1, evs) \<Rightarrow> (case watch_rounds rest w1 of (w2, evs2) \<Rightarrow> (w2, evs @ evs2)))"

definition watch_thread :: "certificate_token list \<Rightarrow> certificate_token list list \<Rightarrow> watch_event list" where
  "watch_thread initial polls = snd (watch_rounds polls (watch_initial initial))"

section \<open>The event queue\<close>

text \<open>
  \<open>tw_delivered\<close> is what the receiver has been called with, oldest first; a queue whose receiver is
  gone drops its events.  A dispatch takes the queue as it is when it starts, so events
  queued meanwhile come later.
\<close>

record token_watch =
  tw_events :: "watch_event list"
  tw_event_source :: bool
  tw_dispatching_events :: bool
  tw_watch_event :: bool
  tw_delivered :: "watch_event list"

definition certificate_tokens_dispatch_pending :: "token_watch \<Rightarrow> token_watch" where
  "certificate_tokens_dispatch_pending s =
     (if tw_dispatching_events s then s
      else s\<lparr>tw_events := [], tw_delivered := tw_delivered s @ (if tw_watch_event s then tw_events s else [])\<rparr>)"

definition watch_dispatch :: "token_watch \<Rightarrow> token_watch" where
  "watch_dispatch s = certificate_tokens_dispatch_pending (s\<lparr>tw_event_source := False\<rparr>)"

definition watch_emit :: "watch_event \<Rightarrow> token_watch \<Rightarrow> token_watch" where
  "watch_emit ev s = s\<lparr>tw_events := tw_events s @ [ev], tw_event_source := True\<rparr>"

definition certificate_tokens_emit_event :: "bool \<Rightarrow> watch_event \<Rightarrow> token_watch \<Rightarrow> token_watch" where
  "certificate_tokens_emit_event own_context ev s =
     (if own_context then certificate_tokens_dispatch_pending (watch_emit ev s) else watch_emit ev s)"

definition certificate_tokens_clear_watch :: "token_watch \<Rightarrow> token_watch" where
  "certificate_tokens_clear_watch s = s\<lparr>tw_watch_event := False, tw_event_source := False, tw_events := []\<rparr>"

section \<open>The debouncer\<close>

text \<open>
  One token on its own: reported present or not, and the number of observations in a row that
  say otherwise.  The second reports the change.
\<close>

fun debounce_step :: "bool \<times> nat \<Rightarrow> bool \<Rightarrow> (bool \<times> nat) \<times> bool list" where
  "debounce_step (present, n) seen =
     (if seen = present then ((present, 0), [])
      else if Suc n \<ge> CERTIFICATE_WATCH_DEBOUNCE then ((seen, 0), [seen])
      else ((present, Suc n), []))"

fun debounce_run :: "bool \<times> nat \<Rightarrow> bool list \<Rightarrow> bool list" where
  "debounce_run d [] = []"
| "debounce_run d (seen # rest) = (case debounce_step d seen of (d', out) \<Rightarrow> out @ debounce_run d' rest)"

definition watch_view :: "watch_token list \<Rightarrow> certificate_token \<Rightarrow> bool \<times> nat" where
  "watch_view watched t =
     (case List.find (\<lambda>e. same_presence (wt_token e) t) watched of
        None \<Rightarrow> (False, 0) | Some e \<Rightarrow> (wt_present e, wt_stable e))"

definition events_of :: "certificate_token \<Rightarrow> watch_event list \<Rightarrow> bool list" where
  "events_of t evs = map snd (List.filter (\<lambda>ev. same_presence (fst ev) t) evs)"

definition entries :: "certificate_token \<Rightarrow> watch_token list \<Rightarrow> watch_token list" where
  "entries t watched = List.filter (\<lambda>e. same_presence (wt_token e) t) watched"

text \<open>The reports of several entries of one token that agree and are dropped at their first removal.\<close>

fun first_times :: "nat \<Rightarrow> bool list \<Rightarrow> bool list" where
  "first_times n [] = []"
| "first_times n (b # bs) = replicate n b @ bs"

section \<open>The round is the debouncer, token by token\<close>

definition removed_entry :: "watch_token \<Rightarrow> watch_token" where
  "removed_entry e = (if wt_present e \<and> wt_stable e \<ge> CERTIFICATE_WATCH_DEBOUNCE
     then e\<lparr>wt_present := False, wt_stable := 0\<rparr> else e)"

lemma watch_removals_map:
  "watch_removals es = (map removed_entry es,
     map (\<lambda>e. (wt_token e, False)) (List.filter (\<lambda>e. wt_present e \<and> wt_stable e \<ge> CERTIFICATE_WATCH_DEBOUNCE) es))"
  by (induction es) (auto simp: removed_entry_def)

definition added_entry :: "watch_token \<Rightarrow> watch_token" where
  "added_entry e = (if \<not> wt_present e \<and> wt_stable e \<ge> CERTIFICATE_WATCH_DEBOUNCE
     then e\<lparr>wt_present := True, wt_stable := 0\<rparr> else e)"

lemma watch_additions_map:
  "watch_additions now es =
     (List.filter (\<lambda>e. wt_present e \<or> list_contains_token now (wt_token e)) (map added_entry es),
      map (\<lambda>e. (wt_token e, True)) (List.filter (\<lambda>e. \<not> wt_present e \<and> wt_stable e \<ge> CERTIFICATE_WATCH_DEBOUNCE) es))"
  by (induction es) (auto simp: added_entry_def Let_def)

definition round_entry :: "certificate_token list \<Rightarrow> watch_token \<Rightarrow> watch_token" where
  "round_entry now e = added_entry (removed_entry (watch_observe now e))"

lemma entry_token [simp]:
  "wt_token (removed_entry e) = wt_token e" "wt_token (added_entry e) = wt_token e"
  "wt_token (watch_observe now e) = wt_token e" "wt_token (round_entry now e) = wt_token e"
  by (simp_all add: removed_entry_def added_entry_def watch_observe_def round_entry_def)

lemma watch_round_eq:
  "watch_round now watched =
     (let es = map (watch_observe now) (watch_add_fresh now watched) in
      (List.filter (\<lambda>e. wt_present e \<or> list_contains_token now (wt_token e)) (map (round_entry now) (watch_add_fresh now watched)),
       map (\<lambda>e. (wt_token e, False)) (List.filter (\<lambda>e. wt_present e \<and> wt_stable e \<ge> CERTIFICATE_WATCH_DEBOUNCE) es) @
       map (\<lambda>e. (wt_token e, True)) (List.filter (\<lambda>e. \<not> wt_present e \<and> wt_stable e \<ge> CERTIFICATE_WATCH_DEBOUNCE)
         (map removed_entry es))))"
  by (simp add: watch_round_def watch_removals_map watch_additions_map round_entry_def [abs_def] Let_def comp_def)

text \<open>One entry goes through the round as the debouncer goes through one observation.\<close>

lemma round_entry_debounce:
  assumes "debounce_step (wt_present e, wt_stable e) (list_contains_token now (wt_token e)) = (d, out)"
  shows "d = (wt_present (round_entry now e), wt_stable (round_entry now e))"
    and "out = (if wt_present (watch_observe now e) \<and> wt_stable (watch_observe now e) \<ge> CERTIFICATE_WATCH_DEBOUNCE
        then [False] else []) @
      (if \<not> wt_present (removed_entry (watch_observe now e)) \<and>
          wt_stable (removed_entry (watch_observe now e)) \<ge> CERTIFICATE_WATCH_DEBOUNCE then [True] else [])"
  using assms by (auto simp: round_entry_def added_entry_def removed_entry_def watch_observe_def split: if_splits)

lemma round_entry_dropped:
  "\<not> wt_present (round_entry now e) \<Longrightarrow> \<not> list_contains_token now (wt_token e) \<Longrightarrow> wt_stable (round_entry now e) = 0"
  by (auto simp: round_entry_def added_entry_def removed_entry_def watch_observe_def split: if_splits)

text \<open>A token that is not tracked counts as reported absent.\<close>

lemma watch_view_entries:
  "watch_view watched t = (case entries t watched of [] \<Rightarrow> (False, 0) | e # es \<Rightarrow> (wt_present e, wt_stable e))"
proof -
  have "List.find P xs = (case List.filter P xs of [] \<Rightarrow> None | x # _ \<Rightarrow> Some x)" for P and xs :: "watch_token list"
    by (induction xs) auto
  then show ?thesis by (simp add: watch_view_def entries_def split: list.split)
qed

text \<open>A round adds at most one entry of a class, and only when there is none.\<close>

lemma watch_add_fresh_entries:
  "entries t (watch_add_fresh now watched) = entries t watched \<or>
     entries t watched = [] \<and>
     (\<exists>x. entries t (watch_add_fresh now watched) = [\<lparr>wt_token = x, wt_stable = 0, wt_present = False\<rparr>])"
proof (induction now watched rule: watch_add_fresh.induct)
  case (2 fresh now watched)
  let ?w = "if watch_contains_token watched fresh then watched else watch_token_add fresh False watched"
  have same: "same_presence x fresh" if "same_presence fresh t" "same_presence x t" for x
    using that by (meson pres.same_sym pres.same_trans)
  have "entries t ?w = entries t watched \<or>
      entries t watched = [] \<and> entries t ?w = [\<lparr>wt_token = fresh, wt_stable = 0, wt_present = False\<rparr>]"
    using same by (auto simp: watch_token_add_def entries_def watch_contains_token_def list_ex_iff filter_empty_conv)
  with 2 show ?case by auto
qed simp

lemma watch_add_fresh_mono: "watch_contains_token watched t \<Longrightarrow> watch_contains_token (watch_add_fresh now watched) t"
  by (induction now watched rule: watch_add_fresh.induct)
     (auto simp: watch_token_add_def watch_contains_token_def)

lemma watch_add_fresh_covers:
  "list_contains_token now t \<Longrightarrow> watch_contains_token (watch_add_fresh now watched) t"
proof (induction now watched rule: watch_add_fresh.induct)
  case (2 fresh now watched)
  let ?w = "if watch_contains_token watched fresh then watched else watch_token_add fresh False watched"
  have "watch_contains_token ?w fresh"
    by (simp add: watch_token_add_def watch_contains_token_def pres.same_refl)
  then have "same_presence fresh t \<Longrightarrow> watch_contains_token ?w t"
    using pres.list_ex_cong_same [of fresh t "map wt_token ?w"]
    by (simp only: watch_contains_token_def list_ex_iff set_map ball_simps bex_simps)
  with 2 watch_add_fresh_mono [of ?w t now] show ?case
    by (cases "same_presence fresh t") (auto simp: list_contains_token_def)
qed (simp add: list_contains_token_def)

lemma events_of_map:
  assumes "List.filter (\<lambda>x. same_presence (wt_token x) t) es = xs" and "\<And>e. wt_token (f e) = wt_token e"
  shows "events_of t (map (\<lambda>e. (wt_token e, b)) (List.filter P (map f es))) =
    map (\<lambda>_. b) (List.filter (P \<circ> f) xs)"
proof -
  have "events_of t (map (\<lambda>e. (wt_token e, b)) (List.filter P (map f es))) =
      map (\<lambda>_. b) (List.filter (P \<circ> f) (List.filter (\<lambda>x. same_presence (wt_token x) t) es))"
    using assms(2) by (induction es) (auto simp: events_of_def)
  with assms(1) show ?thesis by simp
qed

text \<open>The entries of one class agree, and there is more than one only while the token is reported present.\<close>

definition agreeing :: "watch_token list \<Rightarrow> bool \<times> nat \<Rightarrow> bool" where
  "agreeing es d \<longleftrightarrow> (\<forall>e \<in> set es. (wt_present e, wt_stable e) = d) \<and> (fst d \<or> length es \<le> 1)"

lemma agreeing_view: "agreeing (entries t watched) d \<Longrightarrow> entries t watched \<noteq> [] \<Longrightarrow> watch_view watched t = d"
  by (auto simp: watch_view_entries agreeing_def neq_Nil_conv)

lemma watch_round_entries:
  assumes "watch_round now watched = (watched', evs)"
    and "\<forall>e \<in> set (entries t (watch_add_fresh now watched)). (wt_present e, wt_stable e) = d0"
    and "debounce_step d0 (list_contains_token now t) = (d, out)"
  shows "entries t watched' = (if fst d \<or> list_contains_token now t
      then map (round_entry now) (entries t (watch_add_fresh now watched)) else [])"
    and "events_of t evs = concat (map (\<lambda>_. out) (entries t (watch_add_fresh now watched)))"
    and "\<forall>e \<in> set (entries t (watch_add_fresh now watched)). (wt_present (round_entry now e), wt_stable (round_entry now e)) = d"
proof -
  let ?es = "watch_add_fresh now watched"
  have seen: "list_contains_token now (wt_token e) = list_contains_token now t" if "e \<in> set (entries t ?es)" for e
    using that pres.list_ex_cong_same [of "wt_token e" t now] by (simp add: entries_def list_contains_token_def)
  have step: "debounce_step (wt_present e, wt_stable e) (list_contains_token now (wt_token e)) = (d, out)"
    if "e \<in> set (entries t ?es)" for e
    using assms(2,3) seen that by auto
  show d: "\<forall>e \<in> set (entries t ?es). (wt_present (round_entry now e), wt_stable (round_entry now e)) = d"
    using round_entry_debounce(1) [OF step] by simp
  have "watched' = List.filter (\<lambda>e. wt_present e \<or> list_contains_token now (wt_token e)) (map (round_entry now) ?es)"
    using assms(1) by (simp add: watch_round_eq Let_def)
  then have "entries t watched' =
      List.filter (\<lambda>e. wt_present e \<or> list_contains_token now (wt_token e)) (map (round_entry now) (entries t ?es))"
    unfolding entries_def by (simp add: filter_map comp_def conj_commute)
  also have "\<dots> = List.filter (\<lambda>e. fst d \<or> list_contains_token now t) (map (round_entry now) (entries t ?es))"
  proof -
    have "wt_present (round_entry now e) = fst d" if "e \<in> set (entries t ?es)" for e using d that by (metis fst_conv)
    then show ?thesis using seen by (intro filter_cong) auto
  qed
  finally show "entries t watched' = (if fst d \<or> list_contains_token now t then map (round_entry now) (entries t ?es) else [])"
    by simp
  have "events_of t evs =
      map (\<lambda>_. False) (List.filter ((\<lambda>e. wt_present e \<and> wt_stable e \<ge> CERTIFICATE_WATCH_DEBOUNCE) \<circ> watch_observe now) (entries t ?es)) @
      map (\<lambda>_. True) (List.filter ((\<lambda>e. \<not> wt_present e \<and> wt_stable e \<ge> CERTIFICATE_WATCH_DEBOUNCE) \<circ>
        (\<lambda>e. removed_entry (watch_observe now e))) (entries t ?es))"
    using events_of_map [OF entries_def [symmetric], of "watch_observe now"]
      events_of_map [OF entries_def [symmetric], of "\<lambda>e. removed_entry (watch_observe now e)"] assms(1)
    by (auto simp: watch_round_eq Let_def comp_def events_of_def)
  also have "\<dots> = concat (map (\<lambda>_. out) (entries t ?es))"
  proof -
    have outs: "out = [] \<or> out = [False] \<or> out = [True]" using assms(3) by (cases d0) (auto split: if_splits)
    have "(wt_present (watch_observe now e) \<and> wt_stable (watch_observe now e) \<ge> CERTIFICATE_WATCH_DEBOUNCE) = (out = [False])"
      "(\<not> wt_present (removed_entry (watch_observe now e)) \<and>
          wt_stable (removed_entry (watch_observe now e)) \<ge> CERTIFICATE_WATCH_DEBOUNCE) = (out = [True])"
      if "e \<in> set (entries t ?es)" for e
      using round_entry_debounce(2) [OF step [OF that]] outs by (auto split: if_splits)
    with outs show ?thesis
      by (auto simp: comp_def filter_empty_conv map_replicate_const concat_replicate_single cong: filter_cong)
  qed
  finally show "events_of t evs = concat (map (\<lambda>_. out) (entries t ?es))" .
qed

text \<open>So a round takes the class of a token through one observation of the debouncer; at a report the
  entries of the class become one at most.\<close>

lemma watch_round_debounce:
  assumes "agreeing (entries t watched) (watch_view watched t)" and r: "watch_round now watched = (watched', evs)"
    and d: "debounce_step (watch_view watched t) (list_contains_token now t) = (d, out)"
  shows "watch_view watched' t = d" and "agreeing (entries t watched') d"
    and "events_of t evs = concat (replicate (max 1 (length (entries t watched))) out)"
    and "max 1 (length (entries t watched')) = (if out = [] then max 1 (length (entries t watched)) else 1)"
proof -
  let ?es = "entries t (watch_add_fresh now watched)"
  have es: "?es = entries t watched \<or> entries t watched = [] \<and> length ?es = 1 \<and>
      (\<forall>e \<in> set ?es. (wt_present e, wt_stable e) = (False, 0))"
    using watch_add_fresh_entries [of t now watched] by auto
  have empty: "entries t watched = [] \<Longrightarrow> watch_view watched t = (False, 0)" by (simp add: watch_view_entries)
  have all: "\<forall>e \<in> set ?es. (wt_present e, wt_stable e) = watch_view watched t"
    using es assms(1) empty by (auto simp: agreeing_def)
  note round = watch_round_entries [OF r all d]
  have many: "fst (watch_view watched t) \<or> length ?es \<le> 1" using es assms(1) by (auto simp: agreeing_def)
  have none: "d = (False, 0) \<and> out = []" if "?es = []"
  proof -
    have "\<not> list_contains_token now t"
      using that watch_add_fresh_covers [of now t watched]
      by (auto simp: watch_contains_token_def list_ex_iff entries_def filter_empty_conv)
    with that es empty d show ?thesis by auto
  qed
  have gone: "d = (False, 0)" if "\<not> fst d" "\<not> list_contains_token now t"
    using d that by (cases "watch_view watched t") (auto split: if_splits)
  have view: "entries t watched' \<noteq> [] \<Longrightarrow> watch_view watched' t = d"
    using round(1,3) by (auto simp: watch_view_entries neq_Nil_conv split: if_splits)
  show v: "watch_view watched' t = d"
  proof (cases "entries t watched' = []")
    case True
    with round(1) none gone have "d = (False, 0)" by (auto split: if_splits)
    with True show ?thesis by (simp add: watch_view_entries)
  qed (rule view)
  have out: "out = [] \<and> fst d = fst (watch_view watched t) \<or> out = [fst d] \<and> fst d \<noteq> fst (watch_view watched t) \<and>
      fst d = list_contains_token now t"
    using d by (cases "watch_view watched t") (auto split: if_splits)
  show "agreeing (entries t watched') d"
    using round(1,3) many out by (auto simp: agreeing_def split: if_splits)
  have len: "max 1 (length (entries t watched)) = max 1 (length ?es)" using es by auto
  show "events_of t evs = concat (replicate (max 1 (length (entries t watched))) out)"
    using round(2) none unfolding len by (cases "?es = []") (auto simp: map_replicate_const max_def Suc_le_eq)
  show "max 1 (length (entries t watched')) = (if out = [] then max 1 (length (entries t watched)) else 1)"
    using round(1) many none out gone unfolding len by auto
qed

section \<open>The thread\<close>

lemma first_times_append:
  "length out \<le> 1 \<Longrightarrow> first_times n (out @ rest) = concat (replicate n out) @ first_times (if out = [] then n else 1) rest"
  by (cases out; cases rest) (auto simp: concat_replicate_single)

lemma watch_rounds_debounce:
  "agreeing (entries t watched) (watch_view watched t) \<Longrightarrow>
     events_of t (snd (watch_rounds polls watched)) = first_times (max 1 (length (entries t watched)))
       (debounce_run (watch_view watched t) (map (\<lambda>now. list_contains_token now t) polls))"
proof (induction polls arbitrary: watched)
  case (Cons now polls)
  obtain w1 evs where r: "watch_round now watched = (w1, evs)" by fastforce
  obtain w2 evs2 where r2: "watch_rounds polls w1 = (w2, evs2)" by fastforce
  obtain d out where d: "debounce_step (watch_view watched t) (list_contains_token now t) = (d, out)" by fastforce
  note round = watch_round_debounce [OF Cons.prems r d]
  have "length out \<le> 1" using d by (cases "watch_view watched t") (auto split: if_splits)
  with Cons.IH [of w1] round r r2 d show ?case
    by (simp add: events_of_def first_times_append)
qed (simp add: events_of_def)

lemma watch_initial_eq:
  "watch_initial initial = map (\<lambda>t. \<lparr>wt_token = t, wt_stable = 0, wt_present = True\<rparr>) initial"
proof -
  have "fold (\<lambda>t. watch_token_add t True) initial acc =
      acc @ map (\<lambda>t. \<lparr>wt_token = t, wt_stable = 0, wt_present = True\<rparr>) initial" for acc
    by (induction initial arbitrary: acc) (simp_all add: watch_token_add_def)
  then show ?thesis by (simp add: watch_initial_def)
qed

lemma watch_view_initial: "watch_view (watch_initial initial) t = (list_contains_token initial t, 0)"
  by (induction initial) (auto simp: watch_initial_eq watch_view_def list_contains_token_def)

text \<open>Events of the debouncer alternate, beginning with a change of the reported state.\<close>

lemma debounce_run_alternates:
  "debounce_run (b, n) seen = out \<Longrightarrow> out = map (\<lambda>i. (even i) \<noteq> b) [0..<length out]"
proof (induction seen arbitrary: b n out)
  case (Cons x seen)
  show ?case
  proof (cases "x = b \<or> Suc n < CERTIFICATE_WATCH_DEBOUNCE")
    case True
    then have "\<exists>m. out = debounce_run (b, m) seen" using Cons.prems by auto
    with Cons.IH show ?thesis by metis
  next
    case False
    then have out: "out = x # debounce_run (x, 0) seen" and x: "x = (\<not> b)" using Cons.prems by auto
    let ?rest = "debounce_run (x, 0) seen"
    have "?rest = map (\<lambda>i. even i \<noteq> x) [0..<length ?rest]" using Cons.IH by blast
    then have "?rest = map (\<lambda>i. even (Suc i) \<noteq> b) [0..<length ?rest]" unfolding x by simp
    moreover have "map (\<lambda>i. even i \<noteq> b) [0..<length (x # ?rest)] =
        (even (0::nat) \<noteq> b) # map (\<lambda>i. even (Suc i) \<noteq> b) [0..<length ?rest]"
      unfolding length_Cons by (rule map_upt_Suc)
    ultimately show ?thesis unfolding out using x by simp
  qed
qed simp

lemma watch_initial_entries:
  "entries t (watch_initial initial) =
     map (\<lambda>t. \<lparr>wt_token = t, wt_stable = 0, wt_present = True\<rparr>) (List.filter (\<lambda>a. same_presence a t) initial)"
  by (simp add: watch_initial_eq entries_def filter_map comp_def)

lemma watch_initial_agreeing: "agreeing (entries t (watch_initial initial)) (watch_view (watch_initial initial) t)"
proof (cases "List.filter (\<lambda>a. same_presence a t) initial")
  case Nil
  then show ?thesis by (simp add: agreeing_def watch_initial_entries)
next
  case (Cons a as)
  then show ?thesis by (simp add: agreeing_def watch_initial_entries watch_view_entries)
qed

text \<open>C31 (refinement): for every token, the events the watch thread reports, over any first listing and any
  sequence of polls of all readers, are those of a debouncer that sees only whether that token is there:
  a change is reported at its second observation in a row, other readers never delay or repeat it,
  and removals and insertions alternate.  The one difference is in the first listing, where the
  code does not look for a token it has added already: a token listed \<open>k\<close> times there has its first
  event, then its removal, reported \<open>k\<close> times, and is watched once from then on.\<close>

theorem watch_refines_debouncer:
  "let run = debounce_run (list_contains_token initial t, 0) (map (\<lambda>now. list_contains_token now t) polls);
       k = length (List.filter (\<lambda>a. same_presence a t) initial)
   in events_of t (watch_thread initial polls) =
        (case run of [] \<Rightarrow> [] | first # rest \<Rightarrow> replicate (max 1 k) first @ rest) \<and>
      run = map (\<lambda>i. even i \<noteq> list_contains_token initial t) [0..<length run]"
proof -
  have "first_times n run = (case run of [] \<Rightarrow> [] | first # rest \<Rightarrow> replicate n first @ rest)" for n run
    by (cases run) simp_all
  then show ?thesis
    using watch_rounds_debounce [OF watch_initial_agreeing] debounce_run_alternates
    unfolding watch_thread_def watch_view_initial Let_def watch_initial_entries length_map by metis
qed

theorem watch_refines_debouncer_witness:
  "events_of sample_token (watch_thread [sample_token] [[], [], [sample_token], [], [sample_token], [sample_token]])
     = [False, True] \<and>
   events_of sample_token (watch_thread [sample_token, sample_token] [[], [], [sample_token], [sample_token], [], []])
     = [False, False, True, False]"
  using watch_refines_debouncer [of "[sample_token]" sample_token "[[], [], [sample_token], [], [sample_token], [sample_token]]"]
    watch_refines_debouncer [of "[sample_token, sample_token]" sample_token "[[], [], [sample_token], [sample_token], [], []]"]
  by (simp add: Let_def list_contains_token_def pres.same_refl)

end
