(* ===== verification/TokenFilter.thy ===== *)
theory TokenFilter
  imports DiscoveryProps
begin

text \<open>
  The certificate filter (\<open>src/tokens/filter.c\<close>): which operations a certificate allows for a purpose,
  the caller's filter, its parser and the order of the candidates offered.  Filtering only decides what
  is offered; the user still has to agree.  \<open>CertificateOperations\<close> is a bit mask.
\<close>

section \<open>Purposes and operations\<close>

datatype certificate_purpose = CERTIFICATE_PURPOSE_CLIENT_AUTH | CERTIFICATE_PURPOSE_SIGNING
  | CERTIFICATE_PURPOSE_EMAIL | CERTIFICATE_PURPOSE_SSH

abbreviation CERTIFICATE_OPERATION_NONE :: guint where "CERTIFICATE_OPERATION_NONE \<equiv> 0"
abbreviation CERTIFICATE_OPERATION_SIGN :: guint where "CERTIFICATE_OPERATION_SIGN \<equiv> 1"
abbreviation CERTIFICATE_OPERATION_DECRYPT :: guint where "CERTIFICATE_OPERATION_DECRYPT \<equiv> 2"

abbreviation CERTIFICATE_EKU_ANY :: string where "CERTIFICATE_EKU_ANY \<equiv> ''2.5.29.37.0''"
abbreviation CERTIFICATE_EKU_CLIENT_AUTH :: string where "CERTIFICATE_EKU_CLIENT_AUTH \<equiv> ''1.3.6.1.5.5.7.3.2''"
abbreviation CERTIFICATE_EKU_CODE_SIGNING :: string where "CERTIFICATE_EKU_CODE_SIGNING \<equiv> ''1.3.6.1.5.5.7.3.3''"
abbreviation CERTIFICATE_EKU_EMAIL_PROTECTION :: string where "CERTIFICATE_EKU_EMAIL_PROTECTION \<equiv> ''1.3.6.1.5.5.7.3.4''"
abbreviation CERTIFICATE_EKU_SMARTCARD_LOGON :: string where "CERTIFICATE_EKU_SMARTCARD_LOGON \<equiv> ''1.3.6.1.4.1.311.20.2.2''"

definition strv_has :: "string list option \<Rightarrow> string option \<Rightarrow> bool" where
  "strv_has strv needle = (case (strv, needle) of (Some xs, Some n) \<Rightarrow> n \<in> set xs | _ \<Rightarrow> False)"

definition strv_has_ci :: "string list option \<Rightarrow> string option \<Rightarrow> bool" where
  "strv_has_ci strv needle =
     (case (strv, needle) of (Some xs, Some n) \<Rightarrow> list_ex (\<lambda>x. strcaseeq x n) xs | _ \<Rightarrow> False)"

definition eku_unrestricted :: "certificate_candidate \<Rightarrow> bool" where
  "eku_unrestricted c \<longleftrightarrow> cd_eku_oids c = None"

definition eku_allows :: "certificate_candidate \<Rightarrow> string \<Rightarrow> bool" where
  "eku_allows c oid =
     (if eku_unrestricted c then True
      else if strv_has (cd_eku_oids c) (Some CERTIFICATE_EKU_ANY) then True
      else strv_has (cd_eku_oids c) (Some oid))"

definition key_usage_allows_signing :: "certificate_candidate \<Rightarrow> bool" where
  "key_usage_allows_signing c \<longleftrightarrow> cd_key_usage c = None \<or>
     strv_has (cd_key_usage c) (Some ''digital_signature'') \<or> strv_has (cd_key_usage c) (Some ''content_commitment'')"

definition key_usage_allows_decryption :: "certificate_candidate \<Rightarrow> bool" where
  "key_usage_allows_decryption c \<longleftrightarrow> cd_key_usage c = None \<or>
     strv_has (cd_key_usage c) (Some ''key_encipherment'') \<or> strv_has (cd_key_usage c) (Some ''data_encipherment'')"

definition candidate_signs :: "certificate_candidate \<Rightarrow> bool" where
  "candidate_signs c \<longleftrightarrow> cd_can_sign c \<and> key_usage_allows_signing c"

definition candidate_decrypts :: "certificate_candidate \<Rightarrow> bool" where
  "candidate_decrypts c \<longleftrightarrow> cd_can_decrypt c \<and> key_usage_allows_decryption c"

definition certificate_purpose_operations :: "certificate_candidate \<Rightarrow> certificate_purpose \<Rightarrow> guint" where
  "certificate_purpose_operations c purpose =
     (case purpose of
        CERTIFICATE_PURPOSE_CLIENT_AUTH \<Rightarrow>
          if \<not> candidate_signs c then CERTIFICATE_OPERATION_NONE
          else if eku_unrestricted c \<or> eku_allows c CERTIFICATE_EKU_CLIENT_AUTH \<or>
              strv_has (cd_eku_oids c) (Some CERTIFICATE_EKU_SMARTCARD_LOGON) then CERTIFICATE_OPERATION_SIGN
          else CERTIFICATE_OPERATION_NONE
      | CERTIFICATE_PURPOSE_SIGNING \<Rightarrow>
          if \<not> candidate_signs c then CERTIFICATE_OPERATION_NONE
          else if eku_unrestricted c then CERTIFICATE_OPERATION_SIGN
          else if strv_has (cd_eku_oids c) (Some CERTIFICATE_EKU_ANY) \<or>
              strv_has (cd_eku_oids c) (Some CERTIFICATE_EKU_CODE_SIGNING) \<or>
              strv_has (cd_eku_oids c) (Some CERTIFICATE_EKU_EMAIL_PROTECTION) \<or>
              strv_has (cd_eku_oids c) (Some CERTIFICATE_EKU_CLIENT_AUTH) \<or>
              strv_has (cd_eku_oids c) (Some CERTIFICATE_EKU_SMARTCARD_LOGON) then CERTIFICATE_OPERATION_SIGN
          else CERTIFICATE_OPERATION_NONE
      | CERTIFICATE_PURPOSE_EMAIL \<Rightarrow>
          if \<not> eku_allows c CERTIFICATE_EKU_EMAIL_PROTECTION then CERTIFICATE_OPERATION_NONE
          else (if candidate_signs c then CERTIFICATE_OPERATION_SIGN else CERTIFICATE_OPERATION_NONE) OR
               (if candidate_decrypts c then CERTIFICATE_OPERATION_DECRYPT else CERTIFICATE_OPERATION_NONE)
      | CERTIFICATE_PURPOSE_SSH \<Rightarrow>
          if \<not> cd_can_sign c then CERTIFICATE_OPERATION_NONE
          else if cd_key_type c = Some ''RSA'' \<or> cd_key_type c = Some ''EC'' then CERTIFICATE_OPERATION_SIGN
          else CERTIFICATE_OPERATION_NONE)"

definition certificate_purpose_matches :: "certificate_candidate \<Rightarrow> certificate_purpose \<Rightarrow> guint \<Rightarrow> bool" where
  "certificate_purpose_matches c purpose permitted \<longleftrightarrow> certificate_purpose_operations c purpose AND permitted \<noteq> 0"

section \<open>The filter\<close>

text \<open>A candidate from discovery has a key type; without one the comparison would read \<open>NULL\<close>.\<close>

record certificate_filter =
  cf_purpose :: certificate_purpose
  cf_operations :: guint
  cf_issuers :: "bytes list option"
  cf_key_usage :: "string list option"
  cf_eku_oids :: "string list option"
  cf_key_algorithms :: "string list option"
  cf_token_label :: "string option"
  cf_piv_slot :: "string option"

definition issuer_matches :: "certificate_candidate \<Rightarrow> bytes list option \<Rightarrow> bool" where
  "issuer_matches c issuers =
     (case issuers of
        None \<Rightarrow> True
      | Some [] \<Rightarrow> True
      | Some is \<Rightarrow> (case cd_issuer_der c of None \<Rightarrow> False | Some der \<Rightarrow> list_ex (\<lambda>w. w = der) is))"

definition key_algorithm_matches :: "certificate_candidate \<Rightarrow> string list option \<Rightarrow> bool" where
  "key_algorithm_matches c algorithms =
     (case algorithms of
        None \<Rightarrow> True
      | Some [] \<Rightarrow> True
      | Some as \<Rightarrow> list_ex (\<lambda>wanted.
          (case cd_key_type c of None \<Rightarrow> False | Some t \<Rightarrow> strcaseeq wanted t) \<or>
          strv_has_ci (cd_supported_mechanisms c) (Some wanted) \<or>
          strncaseeq wanted ''rsa'' 3 \<and> cd_key_type c = Some ''RSA'' \<or>
          (strncaseeq wanted ''ecdsa'' 5 \<or> strncaseeq wanted ''ec'' 2) \<and> cd_key_type c = Some ''EC'') as)"

definition certificate_filter_matches :: "certificate_candidate \<Rightarrow> certificate_filter \<Rightarrow> bool" where
  "certificate_filter_matches c f \<longleftrightarrow>
     certificate_purpose_matches c (cf_purpose f) (cf_operations f) \<and>
     issuer_matches c (cf_issuers f) \<and>
     (case cf_key_usage f of None \<Rightarrow> True
      | Some us \<Rightarrow> list_all (\<lambda>u. strv_has_ci (cd_key_usage c) (Some u)) us) \<and>
     (case cf_eku_oids f of None \<Rightarrow> True | Some oids \<Rightarrow> list_all (eku_allows c) oids) \<and>
     key_algorithm_matches c (cf_key_algorithms f) \<and>
     (if has_text (cf_token_label f)
      then (case cd_token c of None \<Rightarrow> False | Some t \<Rightarrow> tk_label t = cf_token_label f) else True) \<and>
     (if has_text (cf_piv_slot f) then cd_piv_slot c = cf_piv_slot f else True)"

fun filter_split :: "certificate_filter \<Rightarrow> int \<Rightarrow> certificate_candidate list \<Rightarrow> certificate_candidate list
    \<Rightarrow> certificate_candidate list \<Rightarrow> certificate_candidate list \<times> certificate_candidate list" where
  "filter_split f now [] usable unusable = (usable, unusable)"
| "filter_split f now (c # cs) usable unusable =
     (if \<not> certificate_filter_matches c f then filter_split f now cs usable unusable
      else if certificate_candidate_is_expired c now \<or> certificate_candidate_is_not_yet_valid c now
      then filter_split f now cs usable (unusable @ [c])
      else filter_split f now cs (usable @ [c]) unusable)"

definition certificate_filter_apply ::
  "certificate_candidate list \<Rightarrow> certificate_filter \<Rightarrow> int \<Rightarrow> certificate_candidate list" where
  "certificate_filter_apply candidates f real_time =
     (case filter_split f (real_time div G_USEC_PER_SEC) candidates [] [] of
        (usable, unusable) \<Rightarrow> usable @ unusable)"

section \<open>The parser\<close>

text \<open>
  The options of a request: a vardict, whose entry \<open>certificate_filter\<close> is a vardict again.
\<close>

datatype filter_value = FV_strings "string list" | FV_byte_arrays "bytes list" | FV_string string | FV_other string

datatype option_value = OV_vardict "(string \<times> filter_value) list" | OV_other string

definition filter_keys :: "string list" where
  "filter_keys = [''issuers'', ''key_usage'', ''eku'', ''key_algorithms'', ''token_label'', ''piv_slot'']"

definition piv_slots :: "string list" where
  "piv_slots = [''authentication'', ''signature'', ''key_management'', ''card_authentication'']"

definition strv_from_variant :: "(string \<times> filter_value) list \<Rightarrow> string \<Rightarrow> mechanism_error + string list option" where
  "strv_from_variant dict key =
     (case map_of dict key of
        None \<Rightarrow> Inr None
      | Some (FV_strings xs) \<Rightarrow> Inr (Some xs)
      | Some _ \<Rightarrow> Inl INVALID_ARGUMENT)"

definition parse_issuers :: "(string \<times> filter_value) list \<Rightarrow> mechanism_error + bytes list option" where
  "parse_issuers dict =
     (case map_of dict ''issuers'' of
        None \<Rightarrow> Inr None
      | Some (FV_byte_arrays xs) \<Rightarrow> Inr (Some xs)
      | Some _ \<Rightarrow> Inl INVALID_ARGUMENT)"

definition parse_filter_string :: "(string \<times> filter_value) list \<Rightarrow> string \<Rightarrow> (string \<Rightarrow> bool) \<Rightarrow> mechanism_error + string option" where
  "parse_filter_string dict key ok =
     (case map_of dict key of
        None \<Rightarrow> Inr None
      | Some (FV_string text) \<Rightarrow> if ok text then Inr (Some text) else Inl INVALID_ARGUMENT
      | Some _ \<Rightarrow> Inl INVALID_ARGUMENT)"

definition certificate_filter_parse ::
  "(string \<times> option_value) list option \<Rightarrow> certificate_purpose \<Rightarrow> guint \<Rightarrow> mechanism_error + certificate_filter" where
  "certificate_filter_parse options purpose operations =
     (let out = \<lparr>cf_purpose = purpose, cf_operations = operations, cf_issuers = None, cf_key_usage = None,
                 cf_eku_oids = None, cf_key_algorithms = None, cf_token_label = None, cf_piv_slot = None\<rparr>
      in case options of
        None \<Rightarrow> Inr out
      | Some os \<Rightarrow>
          (case map_of os ''certificate_filter'' of
             None \<Rightarrow> Inr out
           | Some (OV_other _) \<Rightarrow> Inl INVALID_ARGUMENT
           | Some (OV_vardict dict) \<Rightarrow>
               if \<not> list_all (\<lambda>(key, _). key \<in> set filter_keys) dict then Inl INVALID_ARGUMENT
               else (case (parse_issuers dict, strv_from_variant dict ''key_usage'', strv_from_variant dict ''eku'',
                           strv_from_variant dict ''key_algorithms'', parse_filter_string dict ''token_label'' (\<lambda>_. True),
                           parse_filter_string dict ''piv_slot'' (\<lambda>text. text \<in> set piv_slots)) of
                   (Inr issuers, Inr usage, Inr eku, Inr algorithms, Inr label, Inr slot) \<Rightarrow>
                     Inr (out\<lparr>cf_issuers := issuers, cf_key_usage := usage, cf_eku_oids := eku,
                       cf_key_algorithms := algorithms, cf_token_label := label, cf_piv_slot := slot\<rparr>)
                 | _ \<Rightarrow> Inl INVALID_ARGUMENT)))"

section \<open>What a request's options mean\<close>

text \<open>
  The meaning of one entry of \<open>certificate_filter\<close>, stated on the entry itself: whether it is well
  formed, and which candidates meet it.
\<close>

definition entry_well_formed :: "string \<times> filter_value \<Rightarrow> bool" where
  "entry_well_formed e =
     (case e of
        (key, FV_byte_arrays _) \<Rightarrow> key = ''issuers''
      | (key, FV_strings _) \<Rightarrow> key \<in> {''key_usage'', ''eku'', ''key_algorithms''}
      | (key, FV_string text) \<Rightarrow> key = ''token_label'' \<or> key = ''piv_slot'' \<and> text \<in> set piv_slots
      | (key, FV_other _) \<Rightarrow> False)"

definition has_key_algorithm :: "certificate_candidate \<Rightarrow> string \<Rightarrow> bool" where
  "has_key_algorithm c wanted \<longleftrightarrow>
     (\<exists>t. cd_key_type c = Some t \<and> strcaseeq wanted t) \<or>
     (\<exists>ms. cd_supported_mechanisms c = Some ms \<and> (\<exists>m \<in> set ms. strcaseeq m wanted)) \<or>
     strncaseeq wanted ''rsa'' 3 \<and> cd_key_type c = Some ''RSA'' \<or>
     strncaseeq wanted ''ec'' 2 \<and> cd_key_type c = Some ''EC''"

definition entry_met :: "certificate_candidate \<Rightarrow> string \<times> filter_value \<Rightarrow> bool" where
  "entry_met c e =
     (case e of
        (_, FV_byte_arrays names) \<Rightarrow> names = [] \<or> (\<exists>der \<in> set names. cd_issuer_der c = Some der)
      | (key, FV_strings xs) \<Rightarrow>
          if key = ''key_usage'' then (\<forall>u \<in> set xs. \<exists>us. cd_key_usage c = Some us \<and> (\<exists>v \<in> set us. strcaseeq v u))
          else if key = ''eku'' then (\<forall>oid \<in> set xs. \<forall>eku. cd_eku_oids c = Some eku \<longrightarrow> CERTIFICATE_EKU_ANY \<in> set eku \<or> oid \<in> set eku)
          else xs = [] \<or> (\<exists>a \<in> set xs. has_key_algorithm c a)
      | (key, FV_string text) \<Rightarrow>
          if key = ''token_label'' then text = [] \<or> (\<exists>t. cd_token c = Some t \<and> tk_label t = Some text)
          else cd_piv_slot c = Some text
      | (_, FV_other _) \<Rightarrow> False)"

definition offered :: "certificate_purpose \<Rightarrow> guint \<Rightarrow> (string \<times> filter_value) list \<Rightarrow> certificate_candidate \<Rightarrow> bool" where
  "offered purpose operations dict c \<longleftrightarrow>
     certificate_purpose_matches c purpose operations \<and> list_all (entry_met c) dict"

definition valid_now :: "int \<Rightarrow> certificate_candidate \<Rightarrow> bool" where
  "valid_now now c \<longleftrightarrow> \<not> (0 < cd_not_after c \<and> cd_not_after c < now) \<and> \<not> (0 < cd_not_before c \<and> now < cd_not_before c)"

lemma filter_split_eq:
  "filter_split f now cs usable unusable =
     (usable @ List.filter (\<lambda>c. certificate_filter_matches c f \<and> valid_now now c) cs,
      unusable @ List.filter (\<lambda>c. certificate_filter_matches c f \<and> \<not> valid_now now c) cs)"
  by (induction f now cs usable unusable rule: filter_split.induct)
     (auto simp: valid_now_def certificate_candidate_is_expired_def certificate_candidate_is_not_yet_valid_def)

text \<open>A dictionary with distinct keys is read key by key.\<close>

lemma dict_all:
  assumes "distinct (map fst d)" and "fst ` set d \<subseteq> K"
  shows "list_all P d \<longleftrightarrow> (\<forall>k \<in> K. case map_of d k of None \<Rightarrow> True | Some v \<Rightarrow> P (k, v))"
  using assms by (fastforce simp: list_all_iff split: option.splits dest: map_of_SomeD)

lemma strv_has_ci_iff:
  "strv_has_ci strv (Some n) \<longleftrightarrow> (\<exists>xs. strv = Some xs \<and> (\<exists>x \<in> set xs. strcaseeq x n))"
  by (auto simp: strv_has_ci_def list_ex_iff split: option.splits)

lemma eku_allows_iff:
  "eku_allows c oid \<longleftrightarrow> (\<forall>eku. cd_eku_oids c = Some eku \<longrightarrow> CERTIFICATE_EKU_ANY \<in> set eku \<or> oid \<in> set eku)"
  by (auto simp: eku_allows_def eku_unrestricted_def strv_has_def split: option.splits)

lemma strcaseeq_take: "strcaseeq s t \<Longrightarrow> strcaseeq (take n s) (take n t)"
  by (simp add: strcaseeq_def flip: take_map)

lemma strncaseeq_ecdsa: "strncaseeq s ''ecdsa'' 5 \<Longrightarrow> strncaseeq s ''ec'' 2"
  using strcaseeq_take [of "take 5 s" "''ecdsa''" 2] by (simp add: strncaseeq_def min_def)

lemma issuer_matches_iff:
  "issuer_matches c (Some names) \<longleftrightarrow> names = [] \<or> (\<exists>der \<in> set names. cd_issuer_der c = Some der)"
  by (cases names) (auto simp: issuer_matches_def list_ex_iff split: option.splits)

lemma key_algorithm_matches_iff:
  "key_algorithm_matches c (Some xs) \<longleftrightarrow> xs = [] \<or> (\<exists>a \<in> set xs. has_key_algorithm c a)"
proof -
  have "(case cd_key_type c of None \<Rightarrow> False | Some t \<Rightarrow> strcaseeq a t) \<or> strv_has_ci (cd_supported_mechanisms c) (Some a) \<or>
      strncaseeq a ''rsa'' 3 \<and> cd_key_type c = Some ''RSA'' \<or>
      (strncaseeq a ''ecdsa'' 5 \<or> strncaseeq a ''ec'' 2) \<and> cd_key_type c = Some ''EC'' \<longleftrightarrow> has_key_algorithm c a" for a
    using strncaseeq_ecdsa [of a] by (auto simp: has_key_algorithm_def strv_has_ci_iff split: option.splits)
  then show ?thesis by (cases xs) (simp_all add: key_algorithm_matches_def list_ex_iff)
qed

text \<open>Every key has one kind of value; the parser fails exactly on an entry that is not well formed.\<close>

definition well_formed_at :: "(string \<times> filter_value) list \<Rightarrow> string \<Rightarrow> bool" where
  "well_formed_at d k = (case map_of d k of None \<Rightarrow> True | Some v \<Rightarrow> entry_well_formed (k, v))"

lemma parse_entries:
  "parse_issuers d = (if well_formed_at d ''issuers''
     then Inr (case map_of d ''issuers'' of Some (FV_byte_arrays xs) \<Rightarrow> Some xs | _ \<Rightarrow> None) else Inl INVALID_ARGUMENT)"
  "k \<in> {''key_usage'', ''eku'', ''key_algorithms''} \<Longrightarrow> strv_from_variant d k = (if well_formed_at d k
     then Inr (case map_of d k of Some (FV_strings xs) \<Rightarrow> Some xs | _ \<Rightarrow> None) else Inl INVALID_ARGUMENT)"
  "parse_filter_string d ''token_label'' (\<lambda>_. True) = (if well_formed_at d ''token_label''
     then Inr (case map_of d ''token_label'' of Some (FV_string t) \<Rightarrow> Some t | _ \<Rightarrow> None) else Inl INVALID_ARGUMENT)"
  "parse_filter_string d ''piv_slot'' (\<lambda>t. t \<in> set piv_slots) = (if well_formed_at d ''piv_slot''
     then Inr (case map_of d ''piv_slot'' of Some (FV_string t) \<Rightarrow> Some t | _ \<Rightarrow> None) else Inl INVALID_ARGUMENT)"
  by (auto simp: parse_issuers_def strv_from_variant_def parse_filter_string_def well_formed_at_def entry_well_formed_def
      split: option.splits filter_value.splits)

lemma entry_well_formed_keys: "list_all entry_well_formed d \<Longrightarrow> fst ` set d \<subseteq> set filter_keys"
  by (fastforce simp: list_all_iff entry_well_formed_def filter_keys_def split: filter_value.splits)

lemma entry_met_keys:
  "entry_met c (''issuers'', FV_byte_arrays xs) \<longleftrightarrow> issuer_matches c (Some xs)"
  "entry_met c (''key_usage'', FV_strings us) \<longleftrightarrow> list_all (\<lambda>u. strv_has_ci (cd_key_usage c) (Some u)) us"
  "entry_met c (''eku'', FV_strings os) \<longleftrightarrow> list_all (eku_allows c) os"
  "entry_met c (''key_algorithms'', FV_strings as) \<longleftrightarrow> key_algorithm_matches c (Some as)"
  "entry_met c (''token_label'', FV_string t) \<longleftrightarrow>
     (if has_text (Some t) then (case cd_token c of None \<Rightarrow> False | Some tk \<Rightarrow> tk_label tk = Some t) else True)"
  "t \<in> set piv_slots \<Longrightarrow> entry_met c (''piv_slot'', FV_string t) \<longleftrightarrow>
     (if has_text (Some t) then cd_piv_slot c = Some t else True)"
  by (auto simp: entry_met_def issuer_matches_iff strv_has_ci_iff list_all_iff eku_allows_iff
      key_algorithm_matches_iff piv_slots_def split: option.splits)

definition filter_of :: "certificate_purpose \<Rightarrow> guint \<Rightarrow> (string \<times> filter_value) list \<Rightarrow> certificate_filter" where
  "filter_of purpose operations d =
     (let strings = (\<lambda>k. case map_of d k of Some (FV_strings xs) \<Rightarrow> Some xs | _ \<Rightarrow> None);
          text = (\<lambda>k. case map_of d k of Some (FV_string t) \<Rightarrow> Some t | _ \<Rightarrow> None)
      in \<lparr>cf_purpose = purpose, cf_operations = operations,
          cf_issuers = (case map_of d ''issuers'' of Some (FV_byte_arrays xs) \<Rightarrow> Some xs | _ \<Rightarrow> None),
          cf_key_usage = strings ''key_usage'', cf_eku_oids = strings ''eku'', cf_key_algorithms = strings ''key_algorithms'',
          cf_token_label = text ''token_label'', cf_piv_slot = text ''piv_slot''\<rparr>)"

lemma filter_of_matches:
  assumes "distinct (map fst d)" and "list_all entry_well_formed d"
  shows "certificate_filter_matches c (filter_of purpose operations d) \<longleftrightarrow> offered purpose operations d c"
proof -
  have e: "list_all (entry_met c) d \<longleftrightarrow> (\<forall>k \<in> set filter_keys. case map_of d k of None \<Rightarrow> True | Some v \<Rightarrow> entry_met c (k, v))"
    using assms(1) entry_well_formed_keys [OF assms(2)] by (rule dict_all)
  have w: "map_of d k = Some v \<Longrightarrow> entry_well_formed (k, v)" for k v
    using assms(2) map_of_SomeD [of d k v] by (auto simp: list_all_iff)
  have "(case map_of d ''issuers'' of None \<Rightarrow> True | Some v \<Rightarrow> entry_met c (''issuers'', v)) \<longleftrightarrow>
      issuer_matches c (cf_issuers (filter_of purpose operations d))"
    using w [of "''issuers''"]
    by (auto simp: filter_of_def entry_met_keys issuer_matches_def entry_well_formed_def split: option.splits filter_value.splits)
  moreover have "(case map_of d ''key_usage'' of None \<Rightarrow> True | Some v \<Rightarrow> entry_met c (''key_usage'', v)) \<longleftrightarrow>
      (case cf_key_usage (filter_of purpose operations d) of None \<Rightarrow> True
       | Some us \<Rightarrow> list_all (\<lambda>u. strv_has_ci (cd_key_usage c) (Some u)) us)"
    using w [of "''key_usage''"]
    by (auto simp: filter_of_def entry_met_keys entry_well_formed_def Let_def split: option.splits filter_value.splits)
  moreover have "(case map_of d ''eku'' of None \<Rightarrow> True | Some v \<Rightarrow> entry_met c (''eku'', v)) \<longleftrightarrow>
      (case cf_eku_oids (filter_of purpose operations d) of None \<Rightarrow> True | Some oids \<Rightarrow> list_all (eku_allows c) oids)"
    using w [of "''eku''"]
    by (auto simp: filter_of_def entry_met_keys entry_well_formed_def Let_def split: option.splits filter_value.splits)
  moreover have "(case map_of d ''key_algorithms'' of None \<Rightarrow> True | Some v \<Rightarrow> entry_met c (''key_algorithms'', v)) \<longleftrightarrow>
      key_algorithm_matches c (cf_key_algorithms (filter_of purpose operations d))"
    using w [of "''key_algorithms''"]
    by (auto simp: filter_of_def entry_met_keys entry_well_formed_def Let_def key_algorithm_matches_def split: option.splits filter_value.splits)
  moreover have "(case map_of d ''token_label'' of None \<Rightarrow> True | Some v \<Rightarrow> entry_met c (''token_label'', v)) \<longleftrightarrow>
      (if has_text (cf_token_label (filter_of purpose operations d))
       then (case cd_token c of None \<Rightarrow> False | Some t \<Rightarrow> tk_label t = cf_token_label (filter_of purpose operations d)) else True)"
    using w [of "''token_label''"]
    by (auto simp: filter_of_def entry_met_keys entry_well_formed_def Let_def split: option.splits filter_value.splits)
  moreover have "(case map_of d ''piv_slot'' of None \<Rightarrow> True | Some v \<Rightarrow> entry_met c (''piv_slot'', v)) \<longleftrightarrow>
      (if has_text (cf_piv_slot (filter_of purpose operations d))
       then cd_piv_slot c = cf_piv_slot (filter_of purpose operations d) else True)"
    using w [of "''piv_slot''"]
    by (auto simp: filter_of_def entry_met_keys entry_well_formed_def Let_def split: option.splits filter_value.splits)
  ultimately show ?thesis
    by (simp add: offered_def e certificate_filter_matches_def filter_keys_def) (simp add: filter_of_def Let_def)
qed

lemma certificate_filter_parse_eq:
  assumes "distinct (map fst d)" and "map_of os ''certificate_filter'' = Some (OV_vardict d)"
  shows "certificate_filter_parse (Some os) purpose operations =
    (if list_all entry_well_formed d then Inr (filter_of purpose operations d) else Inl INVALID_ARGUMENT)"
proof -
  have k: "list_all (\<lambda>(key, _). key \<in> set filter_keys) d \<longleftrightarrow> fst ` set d \<subseteq> set filter_keys"
    by (auto simp: list_all_iff)
  have e: "fst ` set d \<subseteq> set filter_keys \<Longrightarrow> list_all entry_well_formed d \<longleftrightarrow> (\<forall>k \<in> set filter_keys. well_formed_at d k)"
    unfolding well_formed_at_def by (rule dict_all [OF assms(1)])
  show ?thesis
  proof (cases "fst ` set d \<subseteq> set filter_keys")
    case True
    show ?thesis
      unfolding e [OF True] certificate_filter_parse_def Let_def
      by (simp add: assms(2) k True parse_entries filter_of_def Let_def) (simp add: filter_keys_def)
  next
    case False
    with entry_well_formed_keys [of d] show ?thesis
      by (auto simp: certificate_filter_parse_def assms(2) k)
  qed
qed

text \<open>C32 (functional): a request's filter is refused as a whole when one of its entries is unknown or ill
  formed; otherwise the candidates offered are exactly those that allow one of the permitted
  operations for the purpose and meet every entry of the filter, in discovery order, the currently
  valid before the others, which stay selectable.\<close>

theorem filter_offers_exactly:
  assumes "distinct (map fst d)" and "map_of os ''certificate_filter'' = Some (OV_vardict d)"
  shows "case certificate_filter_parse (Some os) purpose operations of
      Inl e \<Rightarrow> e = INVALID_ARGUMENT \<and> \<not> list_all entry_well_formed d
    | Inr f \<Rightarrow> list_all entry_well_formed d \<and>
        certificate_filter_apply candidates f real_time =
          List.filter (\<lambda>c. offered purpose operations d c \<and> valid_now (real_time div G_USEC_PER_SEC) c) candidates @
          List.filter (\<lambda>c. offered purpose operations d c \<and> \<not> valid_now (real_time div G_USEC_PER_SEC) c) candidates"
  using certificate_filter_parse_eq [OF assms] filter_of_matches [OF assms(1)]
  by (simp add: certificate_filter_apply_def filter_split_eq)

theorem filter_offers_exactly_witness:
  "certificate_filter_apply [sample_candidate\<lparr>cd_not_after := 1\<rparr>, sample_candidate, sample_candidate\<lparr>cd_can_sign := False\<rparr>]
     (filter_of CERTIFICATE_PURPOSE_CLIENT_AUTH CERTIFICATE_OPERATION_SIGN
        [(''key_algorithms'', FV_strings [''rsa'']), (''token_label'', FV_string ''L'')]) 2000000
   = [sample_candidate, sample_candidate\<lparr>cd_not_after := 1\<rparr>]"
proof -
  let ?d = "[(''key_algorithms'', FV_strings [''rsa'']), (''token_label'', FV_string ''L'')]"
  have f: "certificate_filter_parse (Some [(''certificate_filter'', OV_vardict ?d)]) CERTIFICATE_PURPOSE_CLIENT_AUTH
      CERTIFICATE_OPERATION_SIGN = Inr (filter_of CERTIFICATE_PURPOSE_CLIENT_AUTH CERTIFICATE_OPERATION_SIGN ?d)"
    using certificate_filter_parse_eq [of ?d "[(''certificate_filter'', OV_vardict ?d)]"]
    by (simp add: entry_well_formed_def)
  have "offered CERTIFICATE_PURPOSE_CLIENT_AUTH CERTIFICATE_OPERATION_SIGN ?d sample_candidate"
    "offered CERTIFICATE_PURPOSE_CLIENT_AUTH CERTIFICATE_OPERATION_SIGN ?d (sample_candidate\<lparr>cd_not_after := 1\<rparr>)"
    "\<not> offered CERTIFICATE_PURPOSE_CLIENT_AUTH CERTIFICATE_OPERATION_SIGN ?d (sample_candidate\<lparr>cd_can_sign := False\<rparr>)"
    by (simp_all add: offered_def entry_met_def has_key_algorithm_def certificate_purpose_matches_def
        certificate_purpose_operations_def candidate_signs_def key_usage_allows_signing_def eku_unrestricted_def
        sample_candidate_def sample_token_def certificate_candidate_new_def strcaseeq_def strncaseeq_def ascii_down_def
        char_of_def bit_Suc_0_iff)
  moreover have "valid_now 2 sample_candidate" "\<not> valid_now 2 (sample_candidate\<lparr>cd_not_after := 1\<rparr>)"
    by (simp_all add: valid_now_def sample_candidate_def certificate_candidate_new_def)
  ultimately show ?thesis
    using f filter_offers_exactly [where d = ?d and os = "[(''certificate_filter'', OV_vardict ?d)]"
        and purpose = CERTIFICATE_PURPOSE_CLIENT_AUTH and operations = CERTIFICATE_OPERATION_SIGN and real_time = 2000000
        and candidates = "[sample_candidate\<lparr>cd_not_after := 1\<rparr>, sample_candidate, sample_candidate\<lparr>cd_can_sign := False\<rparr>]"]
    by simp
qed

end
