(* ===== verification/Display.thy ===== *)
theory Display
  imports TokenFilter "HOL-Library.Sublist"
begin

text \<open>
  Text that comes from outside and ends in a log or on the screen (\<open>src/redact.c\<close>,
  \<open>src/core/identity.c\<close>, \<open>src/core/chooser-format.c\<close>).  A C string is the list of its octets
  without the terminator; text for the screen is the list of its Unicode characters, since the code
  walks it with \<open>g_utf8_next_char\<close>.  The Unicode tables of GLib and the repair of invalid UTF-8 are
  parameters.
\<close>

section \<open>The log\<close>

abbreviation CERTIFICATE_LOG_FIELD_MAX :: nat where "CERTIFICATE_LOG_FIELD_MAX \<equiv> 128"

definition log_digit :: "nat \<Rightarrow> char" where
  "log_digit n = (if n < 10 then char_of (48 + n) else char_of (87 + n))"

definition log_escaped :: "char \<Rightarrow> bool" where
  "log_escaped c \<longleftrightarrow> (of_char c :: nat) < 0x20 \<or> (of_char c :: nat) = 0x7f"

definition log_octet :: "char \<Rightarrow> string" where
  "log_octet c = (if log_escaped c then [CHR 0x5C, CHR ''x'', log_digit (of_char c div 16), log_digit (of_char c mod 16)] else [c])"

fun field_loop :: "string \<Rightarrow> nat \<Rightarrow> string" where
  "field_loop [] count = []"
| "field_loop (c # cs) count =
     (if count \<ge> CERTIFICATE_LOG_FIELD_MAX then ''...'' else log_octet c @ field_loop cs (count + 1))"

definition field :: "string option \<Rightarrow> string" where
  "field text =
     (case text of
        None \<Rightarrow> ''(none)''
      | Some t \<Rightarrow> if t = [] then ''(none)'' else field_loop t 0)"

definition certificate_log_decision :: "string \<Rightarrow> string option \<Rightarrow> string option \<Rightarrow> string option \<Rightarrow> bool \<Rightarrow> string" where
  "certificate_log_decision reason_code app_id level purpose granted =
     reason_code @ '' app_id='' @ field app_id @ '' identity='' @ field level @ '' purpose='' @ field purpose @
     '' granted='' @ (if granted then ''yes'' else ''no'')"

definition certificate_log_grant :: "string \<Rightarrow> string option \<Rightarrow> string option \<Rightarrow> string" where
  "certificate_log_grant reason_code grant_id detail_code =
     reason_code @ '' session='' @ field grant_id @ '' detail='' @ field detail_code"

definition certificate_log_operation :: "string \<Rightarrow> string option \<Rightarrow> string option \<Rightarrow> string option \<Rightarrow> string" where
  "certificate_log_operation reason_code grant_id operation_id mechanism =
     reason_code @ '' session='' @ field grant_id @ '' operation='' @ field operation_id @ '' mechanism='' @ field mechanism"

text \<open>\<open>certificate_log_debug\<close> writes nothing unless the log is verbose.\<close>

definition certificate_log_debug :: "bool \<Rightarrow> string \<Rightarrow> string option \<Rightarrow> string option" where
  "certificate_log_debug certificate_verbose reason_code detail_code =
     (if \<not> certificate_verbose then None else Some (reason_code @ '' detail='' @ field detail_code))"

fun strstr :: "string \<Rightarrow> string \<Rightarrow> nat option" where
  "strstr [] m = (if m = [] then Some 0 else None)"
| "strstr (c # cs) m = (if take (length m) (c # cs) = m then Some 0 else map_option Suc (strstr cs m))"

definition redact_markers :: "string list" where
  "redact_markers = [''pkcs11:'', ''pin-value'', ''pin-source'']"

fun earliest_marker :: "string \<Rightarrow> string list \<Rightarrow> nat option \<Rightarrow> nat option" where
  "earliest_marker t [] cutoff = cutoff"
| "earliest_marker t (m # ms) cutoff =
     earliest_marker t ms
       (case strstr t m of
          None \<Rightarrow> cutoff
        | Some hit \<Rightarrow> (case cutoff of None \<Rightarrow> Some hit | Some c \<Rightarrow> if hit < c then Some hit else cutoff))"

definition certificate_redact_error_text :: "string option \<Rightarrow> string" where
  "certificate_redact_error_text text =
     (case text of
        None \<Rightarrow> ''(no message)''
      | Some t \<Rightarrow>
          (case earliest_marker t redact_markers None of
             None \<Rightarrow> field (Some t)
           | Some cutoff \<Rightarrow> if cutoff = 0 then ''(redacted)'' else field (Some (take cutoff t)) @ ''(redacted)''))"

definition certificate_redact_serial :: "string option \<Rightarrow> string" where
  "certificate_redact_serial serial =
     (case serial of
        None \<Rightarrow> ''(none)''
      | Some s \<Rightarrow>
          if s = [] then ''(none)''
          else if length s \<le> 4 then ''****''
          else ''****'' @ drop (length s - 4) s)"

section \<open>Purposes and identity\<close>

definition purpose_table :: "(string \<times> certificate_purpose) list" where
  "purpose_table = [(''client_auth'', CERTIFICATE_PURPOSE_CLIENT_AUTH), (''signing'', CERTIFICATE_PURPOSE_SIGNING),
     (''email'', CERTIFICATE_PURPOSE_EMAIL), (''ssh'', CERTIFICATE_PURPOSE_SSH)]"

definition certificate_purpose_parse :: "string option \<Rightarrow> certificate_purpose option" where
  "certificate_purpose_parse text = (case text of None \<Rightarrow> None | Some t \<Rightarrow> map_of purpose_table t)"

fun certificate_purpose_to_string :: "certificate_purpose \<Rightarrow> string" where
  "certificate_purpose_to_string CERTIFICATE_PURPOSE_CLIENT_AUTH = ''client_auth''"
| "certificate_purpose_to_string CERTIFICATE_PURPOSE_SIGNING = ''signing''"
| "certificate_purpose_to_string CERTIFICATE_PURPOSE_EMAIL = ''email''"
| "certificate_purpose_to_string CERTIFICATE_PURPOSE_SSH = ''ssh''"

fun certificate_purpose_display :: "certificate_purpose \<Rightarrow> string" where
  "certificate_purpose_display CERTIFICATE_PURPOSE_CLIENT_AUTH = ''prove who you are to a server''"
| "certificate_purpose_display CERTIFICATE_PURPOSE_SIGNING = ''sign a document or a piece of data''"
| "certificate_purpose_display CERTIFICATE_PURPOSE_EMAIL = ''sign email''"
| "certificate_purpose_display CERTIFICATE_PURPOSE_SSH = ''authenticate an SSH connection''"

fun certificate_purpose_detail :: "certificate_purpose \<Rightarrow> string" where
  "certificate_purpose_detail CERTIFICATE_PURPOSE_CLIENT_AUTH =
     ''The application will be able to authenticate as you until the '' @
     ''grant expires. It cannot read the private key.''"
| "certificate_purpose_detail CERTIFICATE_PURPOSE_SIGNING =
     ''The application will be able to have data signed with this key '' @
     ''until the grant expires. It cannot read the private key.''"
| "certificate_purpose_detail CERTIFICATE_PURPOSE_EMAIL =
     ''The application will be able to sign email until the grant '' @
     ''expires. It cannot read the private key.''"
| "certificate_purpose_detail CERTIFICATE_PURPOSE_SSH =
     ''The application will be able to authenticate SSH connections as '' @
     ''you until the grant expires. It cannot read the private key.''"

datatype identity_level = CERTIFICATE_IDENTITY_VERIFIED_SANDBOXED | CERTIFICATE_IDENTITY_DERIVED_HOST
  | CERTIFICATE_IDENTITY_UNKNOWN

definition certificate_identity_level_parse :: "string option \<Rightarrow> identity_level" where
  "certificate_identity_level_parse level =
     (if level = Some ''sandboxed'' then CERTIFICATE_IDENTITY_VERIFIED_SANDBOXED
      else if level = Some ''host'' then CERTIFICATE_IDENTITY_DERIVED_HOST
      else CERTIFICATE_IDENTITY_UNKNOWN)"

fun certificate_identity_level_to_string :: "identity_level \<Rightarrow> string" where
  "certificate_identity_level_to_string CERTIFICATE_IDENTITY_VERIFIED_SANDBOXED = ''sandboxed''"
| "certificate_identity_level_to_string CERTIFICATE_IDENTITY_DERIVED_HOST = ''host''"
| "certificate_identity_level_to_string CERTIFICATE_IDENTITY_UNKNOWN = ''unidentified''"

record caller_identity =
  ca_level :: identity_level
  ca_app_id :: "string option"
  ca_app_display_name :: "string option"

text \<open>\<open>desktop_name\<close> reads the installed desktop files: \<open>None\<close> without such a file, else the file's name.\<close>

definition certificate_app_display_name :: "(string \<Rightarrow> string option option) \<Rightarrow> string option \<Rightarrow> string option" where
  "certificate_app_display_name desktop_name app_id =
     (case app_id of
        None \<Rightarrow> None
      | Some a \<Rightarrow>
          if a = [] then None
          else if CHR ''/'' \<in> set a then None
          else (case desktop_name (a @ ''.desktop'') of
              None \<Rightarrow> None
            | Some None \<Rightarrow> None
            | Some (Some name) \<Rightarrow> if name = [] then None else Some name))"

section \<open>Text for the screen\<close>

type_synonym gunichar = nat

datatype unicode_type = G_UNICODE_FORMAT | G_UNICODE_LINE_SEPARATOR | G_UNICODE_PARAGRAPH_SEPARATOR
  | G_UNICODE_NON_SPACING_MARK | G_UNICODE_SPACING_MARK | G_UNICODE_ENCLOSING_MARK | G_UNICODE_OTHER_TYPE

record unicode_env =
  u_characters :: "string \<Rightarrow> gunichar list"
  u_iscntrl :: "gunichar \<Rightarrow> bool"
  u_isspace :: "gunichar \<Rightarrow> bool"
  u_type :: "gunichar \<Rightarrow> unicode_type"

text \<open>\<open>u_characters\<close> is \<open>g_utf8_make_valid\<close> and the walk over its characters.\<close>

abbreviation CERTIFICATE_SANITIZE_MAX_MARK_RUN :: nat where "CERTIFICATE_SANITIZE_MAX_MARK_RUN \<equiv> 4"
abbreviation ellipsis :: gunichar where "ellipsis \<equiv> 0x2026"

definition is_mark :: "unicode_env \<Rightarrow> gunichar \<Rightarrow> bool" where
  "is_mark u c \<longleftrightarrow> u_type u c \<in> {G_UNICODE_NON_SPACING_MARK, G_UNICODE_SPACING_MARK, G_UNICODE_ENCLOSING_MARK}"

definition is_removed :: "unicode_env \<Rightarrow> gunichar \<Rightarrow> bool" where
  "is_removed u c \<longleftrightarrow> u_iscntrl u c \<or> u_type u c = G_UNICODE_FORMAT \<or> u_type u c = G_UNICODE_LINE_SEPARATOR \<or>
     u_type u c = G_UNICODE_PARAGRAPH_SEPARATOR"

fun sanitize_loop :: "unicode_env \<Rightarrow> nat \<Rightarrow> gunichar list \<Rightarrow> bool \<Rightarrow> nat \<Rightarrow> nat \<Rightarrow> gunichar list \<Rightarrow> gunichar list" where
  "sanitize_loop u max_chars [] pending_space marks count out = out"
| "sanitize_loop u max_chars (c # cs) pending_space marks count out =
     (if is_removed u c then sanitize_loop u max_chars cs (out \<noteq> []) marks count out
      else if u_isspace u c then sanitize_loop u max_chars cs (out \<noteq> []) marks count out
      else if is_mark u c \<and> marks \<ge> CERTIFICATE_SANITIZE_MAX_MARK_RUN
      then sanitize_loop u max_chars cs pending_space marks count out
      else
        let marks = (if is_mark u c then marks + 1 else 0);
            (out, count) = (if pending_space then (out @ [0x20], count + 1) else (out, count));
            out = out @ [c];
            count = count + 1
        in if count \<ge> max_chars then out @ [ellipsis]
           else sanitize_loop u max_chars cs False marks count out)"

definition certificate_sanitize_untrusted_text :: "unicode_env \<Rightarrow> string option \<Rightarrow> nat \<Rightarrow> gunichar list option" where
  "certificate_sanitize_untrusted_text u text max_chars =
     (case text of
        None \<Rightarrow> None
      | Some t \<Rightarrow>
          if t = [] then None
          else (case sanitize_loop u max_chars (u_characters u t) False 0 0 [] of
              [] \<Rightarrow> None
            | out \<Rightarrow> Some out))"

definition certificate_display_text :: "unicode_env \<Rightarrow> string option \<Rightarrow> nat \<Rightarrow> gunichar list option \<Rightarrow> gunichar list option" where
  "certificate_display_text u text max_chars fallback =
     (case certificate_sanitize_untrusted_text u text max_chars of
        Some clean \<Rightarrow> Some clean
      | None \<Rightarrow> fallback)"

abbreviation CERTIFICATE_DISPLAY_MAX_APP_NAME :: nat where "CERTIFICATE_DISPLAY_MAX_APP_NAME \<equiv> 80"
abbreviation CERTIFICATE_DISPLAY_MAX_APP_ID :: nat where "CERTIFICATE_DISPLAY_MAX_APP_ID \<equiv> 128"
abbreviation CERTIFICATE_DISPLAY_MAX_SUBJECT :: nat where "CERTIFICATE_DISPLAY_MAX_SUBJECT \<equiv> 120"
abbreviation CERTIFICATE_DISPLAY_MAX_ISSUER :: nat where "CERTIFICATE_DISPLAY_MAX_ISSUER \<equiv> 120"
abbreviation CERTIFICATE_DISPLAY_MAX_TOKEN_LABEL :: nat where "CERTIFICATE_DISPLAY_MAX_TOKEN_LABEL \<equiv> 64"
abbreviation CERTIFICATE_DISPLAY_MAX_READER :: nat where "CERTIFICATE_DISPLAY_MAX_READER \<equiv> 80"

text \<open>The code's own words, all of them ASCII.\<close>

definition words :: "string \<Rightarrow> gunichar list" where
  "words s = map of_char s"

definition certificate_chooser_display_name :: "unicode_env \<Rightarrow> caller_identity \<Rightarrow> gunichar list" where
  "certificate_chooser_display_name u caller =
     (let app_name = certificate_display_text u (ca_app_display_name caller) CERTIFICATE_DISPLAY_MAX_APP_NAME None;
          app_id = certificate_display_text u (ca_app_id caller) CERTIFICATE_DISPLAY_MAX_APP_ID None
      in case app_name of
           Some n \<Rightarrow> n
         | None \<Rightarrow> (case app_id of Some i \<Rightarrow> i | None \<Rightarrow> words ''An unidentified application''))"

definition request_prefix :: string where
  "request_prefix = ''/org/freedesktop/portal/desktop/request/''"

definition certificate_chooser_is_generic_purpose :: "bool \<Rightarrow> string option \<Rightarrow> bool" where
  "certificate_chooser_is_generic_purpose generic_purpose request_handle =
     (if generic_purpose then True
      else case request_handle of
          None \<Rightarrow> False
        | Some h \<Rightarrow>
            if take (length request_prefix) h \<noteq> request_prefix then False
            else (case dropWhile (\<lambda>c. c \<noteq> CHR ''/'') (drop (length request_prefix) h) of
                [] \<Rightarrow> False
              | _ # token \<Rightarrow> take 7 token = ''pkcs11a''))"

definition certificate_chooser_format_purpose :: "bool \<Rightarrow> string option \<Rightarrow> certificate_purpose \<Rightarrow> string" where
  "certificate_chooser_format_purpose generic_purpose request_handle purpose =
     (if certificate_chooser_is_generic_purpose generic_purpose request_handle
      then ''is asking to use a certificate on your security token.''
      else ''wants to use a certificate on your security token to '' @ certificate_purpose_display purpose @ ''.'')"

definition certificate_chooser_purpose_detail :: "bool \<Rightarrow> string option \<Rightarrow> certificate_purpose \<Rightarrow> string" where
  "certificate_chooser_purpose_detail generic_purpose request_handle purpose =
     (if certificate_chooser_is_generic_purpose generic_purpose request_handle
      then ''The application will be able to use this key until the '' @ ''grant expires. It cannot read the private key.''
      else certificate_purpose_detail purpose)"

text \<open>The decimal digits of a printed number.\<close>

fun decimal :: "nat \<Rightarrow> string" where
  "decimal n = (if n < 10 then [char_of (48 + n)] else decimal (n div 10) @ [char_of (48 + n mod 10)])"

declare decimal.simps [simp del]

definition quantity :: "nat \<Rightarrow> string \<Rightarrow> string \<Rightarrow> string" where
  "quantity n one many = decimal n @ '' '' @ (if n = 1 then one else many)"

definition certificate_chooser_format_lifetime :: "guint \<Rightarrow> string" where
  "certificate_chooser_format_lifetime seconds =
     (if seconds \<noteq> 0 \<and> seconds mod 3600 = 0 then quantity (unat (seconds div 3600)) ''hour'' ''hours''
      else if seconds \<ge> 60 then
        let text = quantity (unat (seconds div 60)) ''minute'' ''minutes'';
            remainder = unat (seconds mod 60)
        in if remainder = 0 then text
           else text @ '' and '' @ quantity remainder ''second'' ''seconds''
      else quantity (unat seconds) ''second'' ''seconds'')"

definition certificate_log_counts :: "string \<Rightarrow> guint \<Rightarrow> guint \<Rightarrow> string" where
  "certificate_log_counts reason_code tokens candidates =
     reason_code @ '' tokens='' @ decimal (unat tokens) @ '' candidates='' @ decimal (unat candidates)"

text \<open>\<open>date\<close> is the local date of a time in the user's format, where there is one.\<close>

definition certificate_chooser_format_expiry :: "(int \<Rightarrow> gunichar list option) \<Rightarrow> certificate_candidate \<Rightarrow> int \<Rightarrow> gunichar list" where
  "certificate_chooser_format_expiry date c now =
     (let d = (case date (cd_not_after c) of Some d \<Rightarrow> d | None \<Rightarrow> words ''an unknown date'')
      in if certificate_candidate_is_expired c now then words ''EXPIRED on '' @ d
         else if certificate_candidate_is_not_yet_valid c now then words ''NOT YET VALID''
         else words ''Valid until '' @ d)"

definition token_text :: "certificate_candidate \<Rightarrow> (certificate_token \<Rightarrow> string option) \<Rightarrow> string option" where
  "token_text c part = (case cd_token c of None \<Rightarrow> None | Some tk \<Rightarrow> part tk)"

text \<open>The middle dot of the code's format is U+00B7.\<close>

definition certificate_chooser_format_detail ::
  "unicode_env \<Rightarrow> (int \<Rightarrow> gunichar list option) \<Rightarrow> certificate_candidate \<Rightarrow> int \<Rightarrow> gunichar list" where
  "certificate_chooser_format_detail u date c now =
     (let dot = words ''  '' @ [0xb7] @ words ''  '';
          label = certificate_display_text u (token_text c tk_label) CERTIFICATE_DISPLAY_MAX_TOKEN_LABEL (Some (words ''unnamed token''));
          reader = certificate_display_text u (token_text c tk_reader_name) CERTIFICATE_DISPLAY_MAX_READER None
      in certificate_chooser_format_expiry date c now @ dot @
         words (case cd_key_type c of None \<Rightarrow> ''unknown'' | Some k \<Rightarrow> k) @ words '' '' @ words (decimal (unat (cd_key_size c))) @
         words ''-bit'' @ dot @ (case label of None \<Rightarrow> [] | Some l \<Rightarrow> l) @
         (case reader of None \<Rightarrow> [] | Some r \<Rightarrow> words '' in '' @ r))"

section \<open>What the log can hold\<close>

lemma log_digit_plain: "n < 16 \<Longrightarrow> \<not> log_escaped (log_digit n) \<and> log_digit n \<noteq> CHR ''p''"
  by (auto simp: log_digit_def log_escaped_def dest!: arg_cong [of _ _ "of_char :: char \<Rightarrow> nat"])

lemma log_octet_plain: "list_all (\<lambda>c. \<not> log_escaped c) (log_octet c)"
proof (cases "log_escaped c")
  case True
  then have "(of_char c :: nat) div 16 < 16 \<and> (of_char c :: nat) mod 16 < 16" by (auto simp: log_escaped_def)
  with True show ?thesis by (auto simp: log_octet_def log_digit_plain log_escaped_def [of "CHR 0x5C"] log_escaped_def [of "CHR ''x''"])
qed (simp add: log_octet_def)

lemma field_loop_plain: "list_all (\<lambda>c. \<not> log_escaped c) (field_loop t n)"
  by (induction t arbitrary: n) (auto simp: log_octet_plain, simp_all add: log_escaped_def)

lemma log_octet_length: "length (log_octet c) \<le> 4"
  by (simp add: log_octet_def)

lemma field_loop_length: "n \<le> CERTIFICATE_LOG_FIELD_MAX \<Longrightarrow> length (field_loop t n) \<le> 4 * (CERTIFICATE_LOG_FIELD_MAX - n) + 3"
proof (induction t arbitrary: n)
  case (Cons c t)
  show ?case
  proof (cases "n \<ge> CERTIFICATE_LOG_FIELD_MAX")
    case False
    with Cons.IH [of "n + 1"] log_octet_length [of c] show ?thesis by simp
  qed simp
qed simp

lemma field_plain: "list_all (\<lambda>c. \<not> log_escaped c) (field t)" "length (field t) \<le> 515"
proof -
  have n: "list_all (\<lambda>c. \<not> log_escaped c) ''(none)''" by (simp add: log_escaped_def)
  show "list_all (\<lambda>c. \<not> log_escaped c) (field t)"
    using n by (simp add: field_def field_loop_plain split: option.split)
  show "length (field t) \<le> 515"
    using field_loop_length [of 0] by (simp add: field_def split: option.split)
qed

lemma strstr_None: "strstr s m = None \<longleftrightarrow> \<not> sublist m s"
proof (induction s)
  case (Cons c s)
  have "prefix m (c # s) \<longleftrightarrow> take (length m) (c # s) = m" by (metis prefix_def append_eq_conv_conj take_is_prefix)
  with Cons show ?case by (simp add: sublist_Cons_right)
qed simp

lemma strstr_Some: "strstr s m = Some n \<Longrightarrow> m \<noteq> [] \<Longrightarrow> \<not> sublist m (take n s)"
proof (induction s arbitrary: n)
  case (Cons c s)
  show ?case
  proof (cases "take (length m) (c # s) = m")
    case False
    with Cons.prems obtain k where k: "strstr s m = Some k" "n = Suc k" by auto
    have "\<not> prefix m (take n (c # s))"
      using False by (metis prefix_def append_eq_conv_conj prefix_order.trans take_is_prefix)
    with k Cons show ?thesis by (simp add: sublist_Cons_right)
  qed (use Cons.prems in auto)
qed simp

lemma earliest_marker_cut:
  "(case earliest_marker t ms cutoff of
      None \<Rightarrow> cutoff = None \<and> list_all (\<lambda>m. strstr t m = None) ms
    | Some k \<Rightarrow> (\<forall>c. cutoff = Some c \<longrightarrow> k \<le> c) \<and> list_all (\<lambda>m. case strstr t m of None \<Rightarrow> True | Some n \<Rightarrow> k \<le> n) ms)"
proof (induction ms arbitrary: cutoff)
  case (Cons m ms)
  show ?case
    using Cons [of "case strstr t m of None \<Rightarrow> cutoff
        | Some hit \<Rightarrow> (case cutoff of None \<Rightarrow> Some hit | Some c \<Rightarrow> if hit < c then Some hit else cutoff)"]
    by (cases "strstr t m"; cases cutoff) (auto split: option.splits if_splits)
qed (simp split: option.split)

text \<open>A word without a backslash or a dot, starting with \<open>p\<close>, is in an escaped text only where it was in the text.\<close>

lemma prefix_field_loop:
  "prefix m (field_loop t n) \<Longrightarrow> CHR 0x5C \<notin> set m \<Longrightarrow> CHR ''.'' \<notin> set m \<Longrightarrow> prefix m t"
proof (induction t arbitrary: m n)
  case (Cons c t)
  show ?case
  proof (cases m)
    case (Cons a m')
    with Cons.prems Cons.IH [of m' "n + 1"] show ?thesis by (auto simp: log_octet_def split: if_splits)
  qed simp
qed simp

lemma sublist_field_loop:
  assumes "m = CHR ''p'' # m'" "CHR 0x5C \<notin> set m" "CHR ''.'' \<notin> set m"
  shows "sublist m (field_loop t n) \<Longrightarrow> sublist m t"
proof (induction t arbitrary: n)
  case (Cons c t)
  have pre: "prefix m (c # t)" if "prefix m (field_loop (c # t) n)"
    using prefix_field_loop that assms by blast
  show ?case
  proof (cases "n \<ge> CERTIFICATE_LOG_FIELD_MAX")
    case True
    then show ?thesis using Cons.prems assms by (auto simp: sublist_Cons_right)
  next
    case le: False
    show ?thesis
    proof (cases "log_escaped c")
      case True
      have d: "(of_char c :: nat) div 16 < 16" by (simp add: less_mult_imp_div_less)
      show ?thesis
        using Cons.prems le True assms(1) Cons.IH [of "n + 1"] log_digit_plain [OF d] log_digit_plain [of "of_char c mod 16"]
        by (auto simp: log_octet_def sublist_Cons_right)
    next
      case False
      then show ?thesis
        using Cons.prems le pre Cons.IH [of "n + 1"] by (auto simp: log_octet_def sublist_Cons_right)
    qed
  qed
qed simp

definition marker_shaped :: "string \<Rightarrow> bool" where
  "marker_shaped m \<longleftrightarrow> (\<exists>m'. m = CHR ''p'' # m') \<and> CHR 0x5C \<notin> set m \<and> CHR ''.'' \<notin> set m \<and> CHR ''('' \<notin> set m"

lemma markers_shaped: "m \<in> set redact_markers \<Longrightarrow> marker_shaped m"
  by (auto simp: redact_markers_def marker_shaped_def)

lemma field_no_marker:
  assumes "marker_shaped m" "\<not> sublist m t"
  shows "\<not> sublist m (field (Some t))"
proof (cases "t = []")
  case True
  with assms show ?thesis by (auto simp: field_def marker_shaped_def sublist_Cons_right)
next
  case False
  from assms obtain m' where "m = CHR ''p'' # m'" "CHR 0x5C \<notin> set m" "CHR ''.'' \<notin> set m"
    by (auto simp: marker_shaped_def)
  from sublist_field_loop [OF this, of t 0] assms False show ?thesis by (auto simp: field_def)
qed

lemma redacted_no_marker:
  assumes "m \<in> set redact_markers"
  shows "strstr (certificate_redact_error_text text) m = None"
proof -
  note sh = markers_shaped [OF assms]
  have lit: "\<not> sublist m ''(redacted)''" "\<not> sublist m ''(no message)''"
    using assms by (auto simp: redact_markers_def sublist_Cons_right)
  show ?thesis
  proof (cases "text")
    case None
    with lit show ?thesis by (simp add: certificate_redact_error_text_def strstr_None del: strstr.simps)
  next
    case (Some t)
    show ?thesis
    proof (cases "earliest_marker t redact_markers None")
      case None
      have "strstr t m = None"
        using earliest_marker_cut [where t = t and ms = redact_markers and cutoff = None] None assms by (auto simp: list_all_iff)
      with None Some sh show ?thesis
        by (simp add: certificate_redact_error_text_def field_no_marker strstr_None)
    next
      case k: (Some k)
      have le: "case strstr t m of None \<Rightarrow> True | Some n \<Rightarrow> k \<le> n"
        using earliest_marker_cut [where t = t and ms = redact_markers and cutoff = None] k assms by (auto simp: list_all_iff)
      have "\<not> sublist m (take k t)"
      proof (cases "strstr t m")
        case None
        then show ?thesis by (metis strstr_None sublist_order.order_trans sublist_take)
      next
        case (Some n)
        have "\<not> sublist m (take n t)" using strstr_Some [OF Some] sh by (auto simp: marker_shaped_def)
        moreover have "sublist (take k t) (take n t)"
          using le Some by (metis option.simps(5) min.absorb1 sublist_take take_take)
        ultimately show ?thesis by (meson sublist_order.order_trans)
      qed
      then have a: "\<not> sublist m (field (Some (take k t)))" using field_no_marker [OF sh] by simp
      have "\<not> sublist m (field (Some (take k t)) @ ''(redacted)'')"
      proof
        assume "sublist m (field (Some (take k t)) @ ''(redacted)'')"
        with a lit obtain x y where xy: "m = x @ y" "suffix x (field (Some (take k t)))" "prefix y ''(redacted)''"
          by (auto simp: sublist_append)
        with sh have "y = []" by (cases y) (auto simp: marker_shaped_def)
        with xy a show False by (simp add: suffix_imp_sublist)
      qed
      with k Some lit show ?thesis by (simp add: certificate_redact_error_text_def strstr_None)
    qed
  qed
qed

text \<open>C36 (safety): whatever text a library puts into an error message, what the log shows of it names
  no \<open>pkcs11:\<close> URI and no PIN attribute, holds no control character that could forge a second
  entry, and has a bounded length.\<close>

theorem redacted_text_safe:
  "list_all (\<lambda>m. strstr (certificate_redact_error_text text) m = None) redact_markers \<and>
   list_all (\<lambda>c. \<not> log_escaped c) (certificate_redact_error_text text) \<and>
   length (certificate_redact_error_text text) \<le> 4 * CERTIFICATE_LOG_FIELD_MAX + 13"
proof -
  have l: "list_all (\<lambda>c. \<not> log_escaped c) ''(redacted)''" "list_all (\<lambda>c. \<not> log_escaped c) ''(no message)''"
    by (simp_all add: log_escaped_def)
  have "length (certificate_redact_error_text text) \<le> 525"
  proof (cases "text")
    case (Some t)
    have "length (field (Some u)) \<le> 515" "length (field (Some u)) \<le> 525" for u
      using field_plain(2) [of "Some u"] by simp_all
    with Some show ?thesis by (auto simp: certificate_redact_error_text_def split: option.split)
  qed (simp add: certificate_redact_error_text_def)
  moreover have "list_all (\<lambda>c. \<not> log_escaped c) (certificate_redact_error_text text)"
    using l by (auto simp: certificate_redact_error_text_def field_plain(1) split: option.split)
  ultimately show ?thesis using redacted_no_marker [of _ "text"] by (simp add: list_all_iff)
qed

section \<open>What the screen can show\<close>

text \<open>Text of one line: nothing removed above is left, the only white space is single spaces between
  words, and no run of marks is longer than four.\<close>

definition mark_run :: "unicode_env \<Rightarrow> gunichar list \<Rightarrow> nat" where
  "mark_run u cs = length (takeWhile (is_mark u) (rev cs))"

definition single_line :: "unicode_env \<Rightarrow> gunichar list \<Rightarrow> bool" where
  "single_line u cs \<longleftrightarrow>
     list_all (\<lambda>c. \<not> is_removed u c \<and> (c = 0x20 \<or> \<not> u_isspace u c)) cs \<and>
     (cs = [] \<or> hd cs \<noteq> 0x20 \<and> last cs \<noteq> 0x20) \<and>
     successively (\<lambda>a b. \<not> (a = 0x20 \<and> b = 0x20)) cs \<and>
     list_all (\<lambda>k. mark_run u (take k cs) \<le> CERTIFICATE_SANITIZE_MAX_MARK_RUN) [0..<Suc (length cs)]"

text \<open>What Unicode says of the two characters the code adds.\<close>

definition unicode_adds :: "unicode_env \<Rightarrow> bool" where
  "unicode_adds u \<longleftrightarrow> u_isspace u 0x20 \<and> \<not> is_removed u 0x20 \<and> \<not> is_mark u 0x20 \<and>
     \<not> u_isspace u ellipsis \<and> \<not> is_removed u ellipsis \<and> \<not> is_mark u ellipsis"

lemma mark_run_snoc [simp]:
  "mark_run u [] = 0" "mark_run u (cs @ [c]) = (if is_mark u c then Suc (mark_run u cs) else 0)"
  by (simp_all add: mark_run_def)

lemma single_line_snoc:
  assumes "single_line u cs" "\<not> is_removed u c" "c = 0x20 \<or> \<not> u_isspace u c" "mark_run u (cs @ [c]) \<le> 4"
    "c \<noteq> 0x20" "cs = [] \<or> last cs \<noteq> 0x20"
  shows "single_line u (cs @ [c])"
proof -
  have "mark_run u (take k (cs @ [c])) \<le> 4" if "k < Suc (length (cs @ [c]))" for k
  proof (cases "k \<le> length cs")
    case True
    with assms(1) show ?thesis by (auto simp: single_line_def list_all_iff)
  next
    case False
    with that have "k = Suc (length cs)" by simp
    with assms(4) show ?thesis by simp
  qed
  with assms show ?thesis
    by (auto simp: single_line_def list_all_iff successively_append_iff hd_append split: if_splits)
qed

lemma single_line_space:
  assumes "single_line u cs" "cs \<noteq> []" "unicode_adds u" "\<not> is_removed u c" "\<not> u_isspace u c"
  shows "single_line u (cs @ [0x20, c])"
proof -
  have c: "c \<noteq> 0x20" using assms(3,5) by (auto simp: unicode_adds_def)
  have "mark_run u (take k (cs @ [0x20, c])) \<le> 4" if "k < Suc (length (cs @ [0x20, c]))" for k
  proof (cases "k \<le> length cs")
    case True
    with assms(1) show ?thesis by (auto simp: single_line_def list_all_iff)
  next
    case False
    with that have "take k (cs @ [0x20, c]) = cs @ [0x20] \<or> take k (cs @ [0x20, c]) = (cs @ [0x20]) @ [c]"
      by (cases "k - length cs") (auto simp: take_Cons')
    then show ?thesis
      using assms(3) by (elim disjE) (simp_all only: mark_run_snoc, auto simp: unicode_adds_def)
  qed
  from this this [of "length cs + 2"] assms c show ?thesis
    by (auto simp: single_line_def list_all_iff successively_append_iff unicode_adds_def)
qed

lemma sanitize_loop_single_line:
  assumes "unicode_adds u"
  shows "\<lbrakk>single_line u out; out = [] \<longrightarrow> \<not> pending; mark_run u out \<le> marks; marks \<le> 4; count = length out;
     count < max 1 n\<rbrakk> \<Longrightarrow> single_line u (sanitize_loop u n cs pending marks count out) \<and>
       length (sanitize_loop u n cs pending marks count out) \<le> max 1 n + 2"
proof (induction cs arbitrary: pending marks count out)
  case (Cons c cs)
  note IH = Cons.IH and pre = Cons.prems
  show ?case
  proof (cases "is_removed u c \<or> u_isspace u c \<or> is_mark u c \<and> marks \<ge> 4")
    case True
    with IH pre show ?thesis by auto
  next
    case False
    define out' where "out' = (if pending then out @ [0x20] else out) @ [c]"
    define marks' where "marks' = (if is_mark u c then marks + 1 else 0)"
    have line: "single_line u out'" and run: "mark_run u out' \<le> marks'" "marks' \<le> 4"
    proof -
      have sp: "\<not> is_mark u 0x20" "mark_run u (out @ [0x20, c]) = (if is_mark u c then 1 else 0)"
        using assms mark_run_snoc(2) [of u "out @ [0x20]" c] by (auto simp: unicode_adds_def)
      have m: "mark_run u out' \<le> marks'" "marks' \<le> 4"
        using False pre sp by (cases pending; simp add: out'_def marks'_def)
          (use False pre in \<open>auto simp: marks'_def\<close>)
      then show "mark_run u out' \<le> marks'" "marks' \<le> 4" by auto
      have c: "\<not> is_removed u c" "\<not> u_isspace u c" using False by auto
      then have c32: "c \<noteq> 0x20" using assms by (auto simp: unicode_adds_def)
      have last: "out = [] \<or> last out \<noteq> 0x20" using pre(1) by (auto simp: single_line_def)
      show "single_line u out'"
      proof (cases pending)
        case True
        with pre have "out \<noteq> []" by auto
        from single_line_space [OF pre(1) this assms c] True show ?thesis by (simp add: out'_def)
      next
        case False
        with m have "mark_run u (out @ [c]) \<le> 4" by (simp add: out'_def)
        from single_line_snoc [OF pre(1) c(1) _ this c32 last] c False show ?thesis by (simp add: out'_def)
      qed
    qed
    have len: "length out' \<le> max 1 n + 1" using pre by (auto simp: out'_def)
    have ne: "out' \<noteq> []" "last out' \<noteq> 0x20"
      using False assms by (auto simp: out'_def unicode_adds_def)
    have eq: "sanitize_loop u n (c # cs) pending marks count out =
        (if length out' \<ge> n then out' @ [ellipsis] else sanitize_loop u n cs False marks' (length out') out')"
      using False pre by (auto simp: out'_def marks'_def Let_def)
    show ?thesis
    proof (cases "length out' \<ge> n")
      case True
      have e: "ellipsis \<noteq> (0x20 :: gunichar)" by simp
      have r: "mark_run u (out' @ [ellipsis]) \<le> 4" using assms by (simp add: unicode_adds_def)
      have "single_line u (out' @ [ellipsis])"
        by (rule single_line_snoc [OF line _ _ r e]) (use assms ne in \<open>auto simp: unicode_adds_def\<close>)
      with True eq len show ?thesis by simp
    next
      case more: False
      have "single_line u (sanitize_loop u n cs False marks' (length out') out') \<and>
          length (sanitize_loop u n cs False marks' (length out') out') \<le> max 1 n + 2"
        by (rule IH) (use line run ne more in auto)
      with more eq show ?thesis by simp
    qed
  qed
qed simp

text \<open>Text from outside that the code puts on the screen is one line: no control, formatting or
  separator character is left in it, its only white space is single spaces inside it, no letter
  carries more than four marks, and it has at most two characters more than the cap asked for.\<close>

lemma display_text_one_line:
  assumes "unicode_adds u" "certificate_sanitize_untrusted_text u t max_chars = Some out"
  shows "out \<noteq> [] \<and> single_line u out \<and> length out \<le> max 1 max_chars + 2"
proof -
  obtain s where s: "t = Some s" "out = sanitize_loop u max_chars (u_characters u s) False 0 0 []" "out \<noteq> []"
    using assms(2) by (auto simp: certificate_sanitize_untrusted_text_def split: option.splits if_splits list.splits)
  have "single_line u []" by (simp add: single_line_def)
  with sanitize_loop_single_line [OF assms(1) this, of False 0 0 max_chars] s show ?thesis by simp
qed

text \<open>A Unicode table of ASCII and the ellipsis, with one combining mark, U+0301.\<close>

definition sample_unicode :: unicode_env where
  "sample_unicode = \<lparr>u_characters = map of_char, u_iscntrl = (\<lambda>c. c < 0x20 \<or> c = 0x7f), u_isspace = (\<lambda>c. c \<in> {9, 10, 13, 0x20}),
     u_type = (\<lambda>c. if c = 0x301 then G_UNICODE_NON_SPACING_MARK else G_UNICODE_OTHER_TYPE)\<rparr>"

lemma display_text_one_line_witness:
  "length [0x61, 0x20, 0x62, 0x2026 :: gunichar] \<le> max 1 2 + 2 \<and> single_line sample_unicode [0x61, 0x20, 0x62, 0x2026]"
proof -
  have "certificate_sanitize_untrusted_text sample_unicode (Some ([char_of (10 :: nat), CHR ''a'', char_of (10 :: nat), CHR ''b'', CHR ''c''])) 2
      = Some [0x61, 0x20, 0x62, 0x2026]"
    by (simp add: certificate_sanitize_untrusted_text_def sample_unicode_def is_removed_def is_mark_def)
  moreover have "unicode_adds sample_unicode"
    by (simp add: unicode_adds_def sample_unicode_def is_removed_def is_mark_def)
  ultimately show ?thesis using display_text_one_line by blast
qed

text \<open>The name of a purpose parses to that purpose, every name that parses is one of these
  names, and the same of the identity levels, where anything unknown counts as unidentified.\<close>

lemma purpose_names_roundtrip:
  "certificate_purpose_parse (Some (certificate_purpose_to_string p)) = Some p \<and>
   (certificate_purpose_parse t = Some p \<longleftrightarrow> t = Some (certificate_purpose_to_string p)) \<and>
   certificate_identity_level_parse (Some (certificate_identity_level_to_string l)) = l \<and>
   (certificate_identity_level_parse v = CERTIFICATE_IDENTITY_UNKNOWN \<longleftrightarrow> v \<noteq> Some ''sandboxed'' \<and> v \<noteq> Some ''host'')"
  by (cases p; cases l) (auto simp: certificate_purpose_parse_def purpose_table_def certificate_identity_level_parse_def
      split: option.splits if_splits)

end
