(* ===== verification/Chooser.thy ===== *)
theory Chooser
  imports Display
begin

text \<open>
  The certificate chooser (\<open>src/core/chooser.c\<close>): the interaction in which the user picks one of the
  candidates.  The provider that draws the window sees only views; each view has a revision, each
  row an identifier, and the user's answer names both.  The state holds every chooser made so far,
  the table \<open>choosers\<close> of the running ones, and a log of what the code did, newest first: the views it
  showed, the windows it closed, and its answers.  Identifiers and revisions count up from one in 64
  bits; they are natural numbers here, since no run exhausts them.
\<close>

section \<open>Views\<close>

datatype validity = XCC_VALIDITY_VALID | XCC_VALIDITY_EXPIRED | XCC_VALIDITY_NOT_YET_VALID | XCC_VALIDITY_UNKNOWN

abbreviation XCC_DISPLAY_SUBJECT_FALLBACK :: guint where "XCC_DISPLAY_SUBJECT_FALLBACK \<equiv> 1"
abbreviation XCC_DISPLAY_ISSUER_FALLBACK :: guint where "XCC_DISPLAY_ISSUER_FALLBACK \<equiv> 2"
abbreviation XCC_DISPLAY_TOKEN_FALLBACK :: guint where "XCC_DISPLAY_TOKEN_FALLBACK \<equiv> 4"
abbreviation XCC_DISPLAY_CALLER_FALLBACK :: guint where "XCC_DISPLAY_CALLER_FALLBACK \<equiv> 8"

record chooser_row =
  cr_id :: nat
  cr_subject :: "gunichar list"
  cr_issuer :: "gunichar list"
  cr_token :: "gunichar list"
  cr_reader :: "gunichar list option"
  cr_expiry :: "gunichar list"
  cr_detail :: "gunichar list"
  cr_fingerprint :: "gunichar list option"
  cr_invalid :: bool
  cr_not_before :: int
  cr_not_after :: int
  cr_validity :: validity
  cr_key_type :: "string option"
  cr_key_size :: guint
  cr_display_flags :: guint

record chooser_view =
  cv_revision :: nat
  cv_candidates :: "chooser_row list"
  cv_caller_name :: "gunichar list"
  cv_app_id :: "gunichar list option"
  cv_identity_level :: identity_level
  cv_identity_detail :: string
  cv_purpose :: certificate_purpose
  cv_purpose_text :: string
  cv_purpose_detail :: string
  cv_may_sign :: bool
  cv_may_decrypt :: bool
  cv_operation_scope :: string
  cv_lifetime_seconds :: guint
  cv_duration :: string
  cv_reason_label :: string
  cv_untrusted_reason :: "gunichar list option"
  cv_tokens_present :: bool
  cv_parent_window :: "string option"
  cv_activation_token :: "string option"
  cv_generic_purpose :: bool
  cv_display_flags :: guint
  cv_tokens_reading :: bool

record chooser_request =
  rq_caller :: caller_identity
  rq_purpose :: certificate_purpose
  rq_may_sign :: bool
  rq_may_decrypt :: bool
  rq_lifetime_seconds :: guint
  rq_reason :: "string option"
  rq_request_handle :: "string option"
  rq_tokens_present :: bool
  rq_generic_purpose :: bool

text \<open>What one call reads of the world: the clock, the tables, the provider, and whether the
  \<open>GCancellable\<close> is cancelled already.\<close>

record chooser_env =
  ce_unicode :: unicode_env
  ce_real_time :: int
  ce_date :: "int \<Rightarrow> gunichar list option"
  ce_provider :: bool
  ce_needs_display :: bool
  ce_has_display :: bool
  ce_cancelled :: bool

definition certificate_chooser_available :: "chooser_env \<Rightarrow> bool" where
  "certificate_chooser_available e \<longleftrightarrow> ce_provider e \<and> (\<not> ce_needs_display e \<or> ce_has_display e)"

fun identity_detail :: "identity_level \<Rightarrow> string" where
  "identity_detail CERTIFICATE_IDENTITY_VERIFIED_SANDBOXED = ''Sandboxed application, identity verified by the system''"
| "identity_detail CERTIFICATE_IDENTITY_DERIVED_HOST =
     ''Unsandboxed application. The name above was derived from the '' @
     ''running process. Its identity has not been verified.''"
| "identity_detail CERTIFICATE_IDENTITY_UNKNOWN =
     ''This application could not be identified. Only continue if you '' @
     ''know which application made this request.''"

definition display_text :: "unicode_env \<Rightarrow> string option \<Rightarrow> nat \<Rightarrow> string \<Rightarrow> guint \<Rightarrow> guint \<Rightarrow> gunichar list \<times> guint" where
  "display_text u v cap fallback flag flags =
     (case certificate_display_text u v cap None of
        Some sanitized \<Rightarrow> (sanitized, flags)
      | None \<Rightarrow> (words fallback, flags OR flag))"

definition row_validity :: "certificate_candidate \<Rightarrow> int \<Rightarrow> validity" where
  "row_validity c now =
     (if certificate_candidate_is_expired c now then XCC_VALIDITY_EXPIRED
      else if certificate_candidate_is_not_yet_valid c now then XCC_VALIDITY_NOT_YET_VALID
      else if cd_not_before c \<le> 0 \<or> cd_not_after c \<le> 0 then XCC_VALIDITY_UNKNOWN
      else XCC_VALIDITY_VALID)"

definition candidate_row :: "chooser_env \<Rightarrow> nat \<Rightarrow> certificate_candidate \<Rightarrow> chooser_row" where
  "candidate_row e i c =
     (let u = ce_unicode e;
          now = ce_real_time e div G_USEC_PER_SEC;
          (subject, flags) = display_text u (cd_subject_display c) CERTIFICATE_DISPLAY_MAX_SUBJECT
             ''Unnamed certificate'' XCC_DISPLAY_SUBJECT_FALLBACK (cd_display_flags c);
          (issuer, flags) = display_text u (cd_issuer_display c) CERTIFICATE_DISPLAY_MAX_ISSUER
             ''an unnamed issuer'' XCC_DISPLAY_ISSUER_FALLBACK flags;
          (token, flags) = display_text u (token_text c tk_label) CERTIFICATE_DISPLAY_MAX_TOKEN_LABEL
             ''unnamed token'' XCC_DISPLAY_TOKEN_FALLBACK flags
      in \<lparr>cr_id = i, cr_subject = subject, cr_issuer = issuer, cr_token = token,
          cr_reader = certificate_display_text u (token_text c tk_reader_name) CERTIFICATE_DISPLAY_MAX_READER None,
          cr_expiry = certificate_chooser_format_expiry (ce_date e) c now,
          cr_detail = certificate_chooser_format_detail u (ce_date e) c now,
          cr_fingerprint = certificate_display_text u (cd_certificate_id c) 64 None,
          cr_invalid = (certificate_candidate_is_expired c now \<or> certificate_candidate_is_not_yet_valid c now),
          cr_not_before = cd_not_before c, cr_not_after = cd_not_after c,
          cr_validity = row_validity c now, cr_key_type = cd_key_type c, cr_key_size = cd_key_size c,
          cr_display_flags = flags\<rparr>)"

section \<open>Choosers\<close>

record choice =
  ch_id :: nat
  ch_candidate :: certificate_candidate

record chooser =
  cz_next_candidate_id :: nat
  cz_view :: chooser_view
  cz_choices :: "choice list"
  cz_app_id :: "string option"
  cz_cancellable :: bool
  cz_cancel_id :: bool
  cz_cancel_idle :: bool
  cz_finished :: bool
  cz_error :: nat

text \<open>A deferred reply: a candidate identifier of zero cancels.\<close>

record chooser_reply =
  re_id :: nat
  re_revision :: nat
  re_candidate_id :: nat

datatype chooser_effect = Chooser_shown nat chooser_view | Chooser_updated nat chooser_view | Chooser_closed nat
  | Chooser_done nat "certificate_candidate option" nat | Chooser_unavailable | Decision_logged string

record chooser_state =
  cs_memory :: "nat \<Rightarrow> chooser option"
  cs_choosers :: "nat set"
  cs_next_ui_id :: nat
  cs_provider_depth :: nat
  cs_deferred :: "chooser_reply list"
  cs_log :: "chooser_effect list"

definition chooser_start :: chooser_state where
  "chooser_start = \<lparr>cs_memory = (\<lambda>_. None), cs_choosers = {}, cs_next_ui_id = 0, cs_provider_depth = 0,
     cs_deferred = [], cs_log = []\<rparr>"

definition chooser_lookup :: "nat \<Rightarrow> chooser_state \<Rightarrow> chooser option" where
  "chooser_lookup i s = (if i \<in> cs_choosers s then cs_memory s i else None)"

definition set_chooser :: "nat \<Rightarrow> chooser \<Rightarrow> chooser_state \<Rightarrow> chooser_state" where
  "set_chooser i z s = s\<lparr>cs_memory := (cs_memory s)(i \<mapsto> z)\<rparr>"

definition note_effect :: "chooser_effect \<Rightarrow> chooser_state \<Rightarrow> chooser_state" where
  "note_effect x s = s\<lparr>cs_log := x # cs_log s\<rparr>"

text \<open>An answer given while the code is calling the provider: checked, and put off.\<close>

definition defer_reply :: "chooser_reply \<Rightarrow> chooser_state \<Rightarrow> chooser_state" where
  "defer_reply r s = s\<lparr>cs_deferred := cs_deferred s @ [r]\<rparr>"

definition reply_within_provider :: "chooser_reply \<Rightarrow> chooser_state \<Rightarrow> chooser_state" where
  "reply_within_provider r s =
     (case chooser_lookup (re_id r) s of
        None \<Rightarrow> s
      | Some z \<Rightarrow>
          if re_candidate_id r = 0 then defer_reply (r\<lparr>re_revision := 0\<rparr>) s
          else if re_revision r \<noteq> cv_revision (cz_view z) then s
          else defer_reply r s)"

text \<open>A call of the provider, which may answer before it returns.\<close>

definition provider_call :: "chooser_effect \<Rightarrow> chooser_reply list \<Rightarrow> chooser_state \<Rightarrow> chooser_state" where
  "provider_call x replies s =
     (let s1 = note_effect x (s\<lparr>cs_provider_depth := cs_provider_depth s + 1\<rparr>);
          s2 = fold reply_within_provider replies s1
      in s2\<lparr>cs_provider_depth := cs_provider_depth s2 - 1\<rparr>)"

definition chooser_finish :: "chooser_reply list \<Rightarrow> nat \<Rightarrow> certificate_candidate option \<Rightarrow> chooser_state \<Rightarrow> chooser_state" where
  "chooser_finish replies i chosen s =
     (case cs_memory s i of
        None \<Rightarrow> s
      | Some z \<Rightarrow>
          if cz_finished z then s
          else
            let s1 = set_chooser i (z\<lparr>cz_finished := True, cz_cancel_id := False, cz_cancel_idle := False\<rparr>)
                       (s\<lparr>cs_choosers := cs_choosers s - {i}\<rparr>);
                s2 = provider_call (Chooser_closed i) replies s1;
                s3 = note_effect (Decision_logged (certificate_log_decision
                       (if chosen \<noteq> None then ''consent-granted'' else ''chooser-cancelled'') (cz_app_id z)
                       (Some (certificate_identity_level_to_string (cv_identity_level (cz_view z))))
                       (Some (certificate_purpose_to_string (cv_purpose (cz_view z)))) (chosen \<noteq> None))) s2
            in note_effect (Chooser_done i chosen (cz_error z)) s3)"

definition certificate_chooser_choose :: "chooser_reply list \<Rightarrow> nat \<Rightarrow> nat \<Rightarrow> nat \<Rightarrow> chooser_state \<Rightarrow> chooser_state" where
  "certificate_chooser_choose replies i revision candidate_id s =
     (case chooser_lookup i s of
        None \<Rightarrow> s
      | Some z \<Rightarrow>
          if revision \<noteq> cv_revision (cz_view z) \<or> candidate_id = 0 then s
          else if cs_provider_depth s \<noteq> 0
          then defer_reply \<lparr>re_id = i, re_revision = revision, re_candidate_id = candidate_id\<rparr> s
          else (case List.find (\<lambda>c. ch_id c = candidate_id) (cz_choices z) of
              None \<Rightarrow> s
            | Some c \<Rightarrow> chooser_finish replies i (Some (ch_candidate c)) s))"

definition certificate_chooser_cancel :: "chooser_reply list \<Rightarrow> nat \<Rightarrow> chooser_state \<Rightarrow> chooser_state" where
  "certificate_chooser_cancel replies i s =
     (case chooser_lookup i s of
        None \<Rightarrow> s
      | Some z \<Rightarrow>
          if cs_provider_depth s \<noteq> 0 then defer_reply \<lparr>re_id = i, re_revision = 0, re_candidate_id = 0\<rparr> s
          else chooser_finish replies i None s)"

definition certificate_chooser_fail :: "chooser_reply list \<Rightarrow> nat \<Rightarrow> nat \<Rightarrow> chooser_state \<Rightarrow> chooser_state" where
  "certificate_chooser_fail replies i error s =
     (case chooser_lookup i s of
        None \<Rightarrow> s
      | Some z \<Rightarrow> chooser_finish replies i None (set_chooser i (z\<lparr>cz_error := error\<rparr>) s))"

definition reply_idle :: "chooser_reply list \<Rightarrow> chooser_reply \<Rightarrow> chooser_state \<Rightarrow> chooser_state" where
  "reply_idle replies r s =
     (if re_candidate_id r \<noteq> 0 then certificate_chooser_choose replies (re_id r) (re_revision r) (re_candidate_id r) s
      else certificate_chooser_cancel replies (re_id r) s)"

text \<open>\<open>on_cancelled\<close> and the idle source it makes.\<close>

definition chooser_on_cancelled :: "nat \<Rightarrow> chooser_state \<Rightarrow> chooser_state" where
  "chooser_on_cancelled i s = (case cs_memory s i of None \<Rightarrow> s | Some z \<Rightarrow> set_chooser i (z\<lparr>cz_cancel_idle := True\<rparr>) s)"

definition chooser_on_cancelled_idle :: "chooser_reply list \<Rightarrow> nat \<Rightarrow> chooser_state \<Rightarrow> chooser_state" where
  "chooser_on_cancelled_idle replies i s =
     (case cs_memory s i of
        None \<Rightarrow> s
      | Some z \<Rightarrow> chooser_finish replies i None (set_chooser i (z\<lparr>cz_cancel_idle := False\<rparr>) s))"

fun number_choices :: "choice list \<Rightarrow> certificate_candidate list \<Rightarrow> nat \<Rightarrow> choice list \<times> nat" where
  "number_choices previous [] next_id = ([], next_id)"
| "number_choices previous (c # cs) next_id =
     (let i = (case List.find (\<lambda>p. certificate_candidate_same (Some (ch_candidate p)) (Some c)) previous of
                 Some p \<Rightarrow> ch_id p | None \<Rightarrow> 0);
          (i, next_id) = (if i = 0 then (next_id + 1, next_id + 1) else (i, next_id));
          (choices, next_id) = number_choices previous cs next_id
      in (\<lparr>ch_id = i, ch_candidate = c\<rparr> # choices, next_id))"

definition replace_candidates :: "chooser_env \<Rightarrow> certificate_candidate list \<Rightarrow> bool \<Rightarrow> chooser \<Rightarrow> chooser" where
  "replace_candidates e candidates tokens_present z =
     (case number_choices (cz_choices z) candidates (cz_next_candidate_id z) of
        (choices, next_id) \<Rightarrow>
          z\<lparr>cz_choices := choices, cz_next_candidate_id := next_id,
            cz_view := (cz_view z)\<lparr>cv_revision := cv_revision (cz_view z) + 1,
              cv_candidates := map (\<lambda>c. candidate_row e (ch_id c) (ch_candidate c)) choices,
              cv_tokens_present := tokens_present\<rparr>\<rparr>)"

definition certificate_chooser_update ::
  "chooser_env \<Rightarrow> chooser_reply list \<Rightarrow> nat \<Rightarrow> certificate_candidate list \<Rightarrow> bool \<Rightarrow> chooser_state \<Rightarrow> chooser_state" where
  "certificate_chooser_update e replies i candidates tokens_present s =
     (case cs_memory s i of
        None \<Rightarrow> s
      | Some z \<Rightarrow>
          if cz_finished z then s
          else
            let z1 = replace_candidates e candidates tokens_present (z\<lparr>cz_view := (cz_view z)\<lparr>cv_tokens_reading := False\<rparr>\<rparr>)
            in provider_call (Chooser_updated i (cz_view z1)) replies (set_chooser i z1 s))"

definition certificate_chooser_set_tokens_reading :: "chooser_reply list \<Rightarrow> nat \<Rightarrow> bool \<Rightarrow> chooser_state \<Rightarrow> chooser_state" where
  "certificate_chooser_set_tokens_reading replies i reading s =
     (case cs_memory s i of
        None \<Rightarrow> s
      | Some z \<Rightarrow>
          if cz_finished z \<or> cv_tokens_reading (cz_view z) = reading then s
          else
            let z1 = z\<lparr>cz_view := (cz_view z)\<lparr>cv_tokens_reading := reading, cv_revision := cv_revision (cz_view z) + 1\<rparr>\<rparr>
            in provider_call (Chooser_updated i (cz_view z1)) replies (set_chooser i z1 s))"

definition operation_scope :: "bool \<Rightarrow> bool \<Rightarrow> string" where
  "operation_scope may_sign may_decrypt =
     (if may_sign \<and> may_decrypt then ''It allows signing and decryption.''
      else if may_decrypt then ''It allows decryption only.''
      else if may_sign then ''It allows signing only.'' else ''It allows no operations.'')"

definition request_view :: "chooser_env \<Rightarrow> string option \<Rightarrow> string option \<Rightarrow> chooser_request \<Rightarrow> chooser_view" where
  "request_view e parent_window activation_token r =
     (let u = ce_unicode e; caller = rq_caller r;
          generic = rq_generic_purpose r; handle = rq_request_handle r
      in \<lparr>cv_revision = 0, cv_candidates = [], cv_caller_name = certificate_chooser_display_name u caller,
          cv_app_id = certificate_display_text u (ca_app_id caller) CERTIFICATE_DISPLAY_MAX_APP_ID None,
          cv_identity_level = ca_level caller, cv_identity_detail = identity_detail (ca_level caller),
          cv_purpose = rq_purpose r, cv_purpose_text = certificate_chooser_format_purpose generic handle (rq_purpose r),
          cv_purpose_detail = certificate_chooser_purpose_detail generic handle (rq_purpose r),
          cv_may_sign = rq_may_sign r, cv_may_decrypt = rq_may_decrypt r,
          cv_operation_scope = operation_scope (rq_may_sign r) (rq_may_decrypt r),
          cv_lifetime_seconds = rq_lifetime_seconds r,
          cv_duration = certificate_chooser_format_lifetime (rq_lifetime_seconds r),
          cv_reason_label = ''The application says'',
          cv_untrusted_reason = certificate_sanitize_untrusted_text u (rq_reason r) 160,
          cv_tokens_present = False, cv_parent_window = parent_window, cv_activation_token = activation_token,
          cv_generic_purpose = certificate_chooser_is_generic_purpose generic handle,
          cv_display_flags =
            (if certificate_display_text u (ca_app_display_name caller) CERTIFICATE_DISPLAY_MAX_APP_NAME None = None \<and>
                certificate_display_text u (ca_app_id caller) CERTIFICATE_DISPLAY_MAX_APP_ID None = None
             then XCC_DISPLAY_CALLER_FALLBACK else 0),
          cv_tokens_reading = False\<rparr>)"

text \<open>\<open>None\<close> is the \<open>NULL\<close> returned without a provider, after the caller's callback.\<close>

definition certificate_chooser_show ::
  "chooser_env \<Rightarrow> chooser_reply list \<Rightarrow> string option \<Rightarrow> string option \<Rightarrow> certificate_candidate list \<Rightarrow> chooser_request
     \<Rightarrow> bool \<Rightarrow> chooser_state \<Rightarrow> chooser_state \<times> nat option" where
  "certificate_chooser_show e replies parent_window activation_token candidates r cancellable s =
     (if \<not> certificate_chooser_available e then (note_effect Chooser_unavailable s, None)
      else
        let i = cs_next_ui_id s + 1;
            z = replace_candidates e candidates (rq_tokens_present r)
                  \<lparr>cz_next_candidate_id = 0, cz_view = request_view e parent_window activation_token r, cz_choices = [],
                   cz_app_id = ca_app_id (rq_caller r), cz_cancellable = cancellable, cz_cancel_id = (cancellable \<and> \<not> ce_cancelled e),
                   cz_cancel_idle = False, cz_finished = False, cz_error = 0\<rparr>;
            s1 = set_chooser i z (s\<lparr>cs_next_ui_id := i, cs_choosers := insert i (cs_choosers s)\<rparr>);
            s2 = (if cancellable \<and> ce_cancelled e then chooser_on_cancelled i s1 else s1);
            s3 = note_effect (Decision_logged (certificate_log_decision ''chooser-shown'' (cz_app_id z)
                   (Some (certificate_identity_level_to_string (cv_identity_level (cz_view z))))
                   (Some (certificate_purpose_to_string (cv_purpose (cz_view z)))) False)) s2;
            s4 = provider_call (Chooser_shown i (cz_view z)) replies s3
        in ((case cs_memory s4 i of
               None \<Rightarrow> s4
             | Some z4 \<Rightarrow> set_chooser i (z4\<lparr>cz_view := (cz_view z4)\<lparr>cv_activation_token := None\<rparr>\<rparr>) s4), Some i))"

section \<open>The system\<close>

datatype chooser_event = Ev_show chooser_env "certificate_candidate list" chooser_request "nat option"
  | Ev_update chooser_env nat "certificate_candidate list" | Ev_tokens_reading nat | Ev_choose nat nat nat | Ev_cancel nat | Ev_fail nat | Ev_deferred chooser_reply
  | Ev_cancelled nat | Ev_cancelled_idle nat

text \<open>
  The calls of the core and of the provider, in any order, with any answers inside the provider's
  callbacks.  The calls that give candidates are named with what they read of the world, and the first with
  the identifier it returned.  A deferred reply is the source at the head of the list; an idle source and the handler of a
  \<open>GCancellable\<close> run only while they exist.
\<close>

inductive chooser_step :: "chooser_state \<Rightarrow> chooser_event \<Rightarrow> chooser_state \<Rightarrow> bool" where
  step_show: "certificate_chooser_show e replies pw at cands r cancellable s = (t, res) \<Longrightarrow> chooser_step s (Ev_show e cands r res) t"
| step_update: "chooser_step s (Ev_update e i cands) (certificate_chooser_update e replies i cands present s)"
| step_reading: "chooser_step s (Ev_tokens_reading i) (certificate_chooser_set_tokens_reading replies i reading s)"
| step_choose: "chooser_step s (Ev_choose i rv c) (certificate_chooser_choose replies i rv c s)"
| step_cancel: "chooser_step s (Ev_cancel i) (certificate_chooser_cancel replies i s)"
| step_fail: "chooser_step s (Ev_fail i) (certificate_chooser_fail replies i error s)"
| step_deferred: "cs_deferred s = r # rs \<Longrightarrow> chooser_step s (Ev_deferred r) (reply_idle replies r (s\<lparr>cs_deferred := rs\<rparr>))"
| step_cancelled: "\<lbrakk>cs_memory s i = Some z; cz_cancel_id z\<rbrakk> \<Longrightarrow> chooser_step s (Ev_cancelled i) (chooser_on_cancelled i s)"
| step_cancelled_idle: "\<lbrakk>cs_memory s i = Some z; cz_cancel_idle z\<rbrakk>
    \<Longrightarrow> chooser_step s (Ev_cancelled_idle i) (chooser_on_cancelled_idle replies i s)"

inductive_cases chooser_stepE: "chooser_step s ev t"

section \<open>Calls of the provider\<close>

lemma reply_within_provider_defers: "\<exists>ds. reply_within_provider r s = s\<lparr>cs_deferred := cs_deferred s @ ds\<rparr>"
  by (auto simp: reply_within_provider_def defer_reply_def split: option.split intro: exI [of _ "[]"])

lemma replies_within_provider_defer: "\<exists>ds. fold reply_within_provider rs s = s\<lparr>cs_deferred := cs_deferred s @ ds\<rparr>"
proof (induction rs arbitrary: s)
  case Nil
  have "s = s\<lparr>cs_deferred := cs_deferred s @ []\<rparr>" by simp
  then show ?case by (metis fold_simps(1))
next
  case (Cons r rs)
  obtain ds where d: "reply_within_provider r s = s\<lparr>cs_deferred := cs_deferred s @ ds\<rparr>"
    using reply_within_provider_defers by blast
  obtain es where e: "fold reply_within_provider rs (reply_within_provider r s)
      = (reply_within_provider r s)\<lparr>cs_deferred := cs_deferred (reply_within_provider r s) @ es\<rparr>"
    using Cons by blast
  have "fold reply_within_provider (r # rs) s = s\<lparr>cs_deferred := cs_deferred s @ (ds @ es)\<rparr>"
    using e by (simp add: d)
  then show ?case by blast
qed

text \<open>Whatever the provider answers, the call shows its view and puts the answers off.\<close>

lemma provider_call_eq:
  "\<exists>ds. provider_call x replies s = s\<lparr>cs_log := x # cs_log s, cs_deferred := cs_deferred s @ ds\<rparr>"
proof -
  obtain ds where d: "fold reply_within_provider replies (note_effect x (s\<lparr>cs_provider_depth := cs_provider_depth s + 1\<rparr>))
      = (note_effect x (s\<lparr>cs_provider_depth := cs_provider_depth s + 1\<rparr>))
          \<lparr>cs_deferred := cs_deferred (note_effect x (s\<lparr>cs_provider_depth := cs_provider_depth s + 1\<rparr>)) @ ds\<rparr>"
    using replies_within_provider_defer by blast
  then show ?thesis by (intro exI [of _ ds]) (simp add: provider_call_def Let_def note_effect_def)
qed

lemma provider_call_fields [simp]:
  "cs_memory (provider_call x replies s) = cs_memory s"
  "cs_choosers (provider_call x replies s) = cs_choosers s"
  "cs_next_ui_id (provider_call x replies s) = cs_next_ui_id s"
  "cs_provider_depth (provider_call x replies s) = cs_provider_depth s"
  "cs_log (provider_call x replies s) = x # cs_log s"
  using provider_call_eq [of x replies s] by auto

lemma chooser_state_fields [simp]:
  "cs_memory (note_effect x s) = cs_memory s" "cs_choosers (note_effect x s) = cs_choosers s"
  "cs_next_ui_id (note_effect x s) = cs_next_ui_id s" "cs_provider_depth (note_effect x s) = cs_provider_depth s"
  "cs_log (note_effect x s) = x # cs_log s" "cs_deferred (note_effect x s) = cs_deferred s"
  "cs_memory (set_chooser i z s) = (cs_memory s)(i \<mapsto> z)" "cs_choosers (set_chooser i z s) = cs_choosers s"
  "cs_next_ui_id (set_chooser i z s) = cs_next_ui_id s" "cs_provider_depth (set_chooser i z s) = cs_provider_depth s"
  "cs_log (set_chooser i z s) = cs_log s" "cs_deferred (set_chooser i z s) = cs_deferred s"
  by (simp_all add: note_effect_def set_chooser_def)

section \<open>The invariant\<close>

definition choice_same :: "choice \<Rightarrow> choice \<Rightarrow> bool" where
  "choice_same c d \<longleftrightarrow> certificate_candidate_same (Some (ch_candidate c)) (Some (ch_candidate d))"

definition ids_ok :: "choice list \<Rightarrow> nat \<Rightarrow> bool" where
  "ids_ok cs n \<longleftrightarrow> (\<forall>c\<in>set cs. 0 < ch_id c \<and> ch_id c \<le> n) \<and>
     (\<forall>c\<in>set cs. \<forall>d\<in>set cs. ch_id c = ch_id d \<longrightarrow> c = d \<or> choice_same c d)"

fun last_view :: "chooser_effect list \<Rightarrow> nat \<Rightarrow> chooser_view option" where
  "last_view [] i = None"
| "last_view (Chooser_shown j v # es) i = (if i = j then Some v else last_view es i)"
| "last_view (Chooser_updated j v # es) i = (if i = j then Some v else last_view es i)"
| "last_view (x # es) i = last_view es i"

text \<open>The views a chooser's window has shown, newest first.\<close>

fun views_of :: "chooser_effect list \<Rightarrow> nat \<Rightarrow> chooser_view list" where
  "views_of [] i = []"
| "views_of (Chooser_shown j v # es) i = (if i = j then v # views_of es i else views_of es i)"
| "views_of (Chooser_updated j v # es) i = (if i = j then v # views_of es i else views_of es i)"
| "views_of (x # es) i = views_of es i"

lemma last_view_views_of: "last_view log i = (case views_of log i of [] \<Rightarrow> None | v # vs \<Rightarrow> Some v)"
  by (induction log i rule: last_view.induct) auto

text \<open>The revisions of the views count up from one.\<close>

definition numbered :: "chooser_view list \<Rightarrow> bool" where
  "numbered vs \<longleftrightarrow> map cv_revision vs = rev [1..<Suc (length vs)]"

lemma numbered_simps [simp]:
  "numbered []" "numbered (v # vs) \<longleftrightarrow> cv_revision v = Suc (length vs) \<and> numbered vs"
  by (auto simp: numbered_def)

lemma numbered_older:
  assumes "numbered (v # vs)" "w \<in> set vs"
  shows "cv_revision w < cv_revision v"
proof -
  have "cv_revision w \<in> set (map cv_revision vs)" using assms(2) by simp
  also have "set (map cv_revision vs) = {1..<Suc (length vs)}"
  proof -
    have "numbered vs" using assms(1) by simp
    then have "map cv_revision vs = rev [1..<Suc (length vs)]" by (simp only: numbered_def)
    then show ?thesis by (simp only: set_rev set_upt)
  qed
  finally show ?thesis using assms(1) by simp
qed

fun done_count :: "chooser_effect list \<Rightarrow> nat \<Rightarrow> nat" where
  "done_count [] i = 0"
| "done_count (Chooser_done j c err # es) i = (if i = j then 1 else 0) + done_count es i"
| "done_count (x # es) i = done_count es i"

text \<open>A chooser's view is what its window shows, and the views it has shown are numbered.\<close>

definition chooser_ok :: "chooser_effect list \<Rightarrow> nat \<Rightarrow> chooser \<Rightarrow> bool" where
  "chooser_ok log i z \<longleftrightarrow>
     (\<exists>v. last_view log i = Some v \<and> cz_view z = v\<lparr>cv_activation_token := None\<rparr>) \<and>
     numbered (views_of log i) \<and>
     ids_ok (cz_choices z) (cz_next_candidate_id z) \<and>
     done_count log i = (if cz_finished z then 1 else 0)"

definition chooser_inv :: "chooser_state \<Rightarrow> bool" where
  "chooser_inv s \<longleftrightarrow>
     cs_provider_depth s = 0 \<and>
     (\<forall>i. i \<in> cs_choosers s \<longleftrightarrow> (\<exists>z. cs_memory s i = Some z \<and> \<not> cz_finished z)) \<and>
     (\<forall>i. case cs_memory s i of
            None \<Rightarrow> done_count (cs_log s) i = 0 \<and> views_of (cs_log s) i = []
          | Some z \<Rightarrow> i \<le> cs_next_ui_id s \<and> chooser_ok (cs_log s) i z)"

lemma chooser_invD:
  assumes "chooser_inv s"
  shows "cs_provider_depth s = 0" "i \<in> cs_choosers s \<longleftrightarrow> (\<exists>z. cs_memory s i = Some z \<and> \<not> cz_finished z)"
    "cs_memory s i = None \<Longrightarrow> done_count (cs_log s) i = 0 \<and> views_of (cs_log s) i = []"
    "cs_memory s i = Some z \<Longrightarrow> i \<le> cs_next_ui_id s \<and> chooser_ok (cs_log s) i z"
proof -
  have c: "case cs_memory s i of None \<Rightarrow> done_count (cs_log s) i = 0 \<and> views_of (cs_log s) i = []
      | Some z \<Rightarrow> i \<le> cs_next_ui_id s \<and> chooser_ok (cs_log s) i z" for i
    using assms unfolding chooser_inv_def by blast
  show "cs_provider_depth s = 0" "i \<in> cs_choosers s \<longleftrightarrow> (\<exists>z. cs_memory s i = Some z \<and> \<not> cz_finished z)"
    using assms unfolding chooser_inv_def by blast+
  show "cs_memory s i = None \<Longrightarrow> done_count (cs_log s) i = 0 \<and> views_of (cs_log s) i = []"
    "cs_memory s i = Some z \<Longrightarrow> i \<le> cs_next_ui_id s \<and> chooser_ok (cs_log s) i z"
    using c [of i] by simp_all
qed

text \<open>One chooser changes, and only effects of this one are noted.\<close>

lemma chooser_inv_change:
  assumes "chooser_inv s"
    and "cs_memory t = (cs_memory s)(i \<mapsto> z)" "cs_log t = es @ cs_log s" "cs_provider_depth t = 0"
    and "cs_next_ui_id s \<le> cs_next_ui_id t" "i \<le> cs_next_ui_id t"
    and "cs_choosers t = (if cz_finished z then cs_choosers s - {i} else insert i (cs_choosers s))"
    and "chooser_ok (cs_log t) i z"
    and "\<And>j. j \<noteq> i \<Longrightarrow> views_of (es @ cs_log s) j = views_of (cs_log s) j \<and> done_count (es @ cs_log s) j = done_count (cs_log s) j"
  shows "chooser_inv t"
  unfolding chooser_inv_def
proof (intro conjI allI)
  fix j
  show "j \<in> cs_choosers t \<longleftrightarrow> (\<exists>z. cs_memory t j = Some z \<and> \<not> cz_finished z)"
    using assms(2,7) chooser_invD(2) [OF assms(1), of j] by auto
  show "case cs_memory t j of None \<Rightarrow> done_count (cs_log t) j = 0 \<and> views_of (cs_log t) j = []
      | Some z \<Rightarrow> j \<le> cs_next_ui_id t \<and> chooser_ok (cs_log t) j z"
  proof (cases "j = i")
    case True
    with assms show ?thesis by simp
  next
    case False
    from assms(9) [OF this] show ?thesis
      using False assms(2,3,5) chooser_invD(3,4) [OF assms(1), of j]
      by (auto simp: chooser_ok_def last_view_views_of split: option.split)
  qed
qed (use assms in simp)

lemma chooser_inv_deferred [simp]: "chooser_inv (s\<lparr>cs_deferred := ds\<rparr>) = chooser_inv s"
  unfolding chooser_inv_def by (simp cong: option.case_cong)

lemma chooser_finish_inv:
  assumes "chooser_inv s"
  shows "chooser_inv (chooser_finish replies i chosen s)"
proof (cases "cs_memory s i")
  case (Some z)
  show ?thesis
  proof (cases "cz_finished z")
    case False
    let ?t = "chooser_finish replies i chosen s"
    let ?z = "z\<lparr>cz_finished := True, cz_cancel_id := False, cz_cancel_idle := False\<rparr>"
    obtain d where log: "cs_log ?t = [Chooser_done i chosen (cz_error z), Decision_logged d, Chooser_closed i] @ cs_log s"
      using Some False by (simp add: chooser_finish_def Let_def)
    show ?thesis
      by (rule chooser_inv_change [OF assms _ log, where i = i and z = ?z])
        (use Some False assms chooser_invD(1) [OF assms] chooser_invD(2,3,4) [OF assms, of i] in
          \<open>auto simp: chooser_finish_def Let_def chooser_ok_def\<close>)
  qed (use assms Some in \<open>simp add: chooser_finish_def\<close>)
qed (use assms in \<open>simp add: chooser_finish_def\<close>)

lemma chooser_inv_set:
  assumes "chooser_inv s" "cs_memory s i = Some z" "cz_view z' = cz_view z" "cz_choices z' = cz_choices z"
    "cz_next_candidate_id z' = cz_next_candidate_id z" "cz_finished z' = cz_finished z"
  shows "chooser_inv (set_chooser i z' s)"
  by (rule chooser_inv_change [OF assms(1), where i = i and z = z' and es = "[]"])
    (use assms chooser_invD(1) [OF assms(1)] chooser_invD(2,3,4) [OF assms(1), of i] in \<open>auto simp: chooser_ok_def\<close>)

lemma choice_same_sym: "choice_same c d \<Longrightarrow> choice_same d c"
  by (auto simp: choice_same_def certificate_candidate_same_def certificate_token_same_def has_text_def split: option.splits if_splits)

lemma choice_same_trans: "choice_same c d \<Longrightarrow> choice_same d f \<Longrightarrow> choice_same c f"
  by (auto simp: choice_same_def certificate_candidate_same_def certificate_token_same_def has_text_def split: option.splits if_splits)

text \<open>An identifier is that of the same credential before, or new.\<close>

lemma number_choices_ids:
  "number_choices ps cs n = (ds, m) \<Longrightarrow> \<forall>p\<in>set ps. 0 < ch_id p \<and> ch_id p \<le> n0 \<Longrightarrow> n0 \<le> n \<Longrightarrow>
     n \<le> m \<and> map ch_candidate ds = cs \<and>
     (\<forall>d\<in>set ds. 0 < ch_id d \<and> ch_id d \<le> m \<and> (n < ch_id d \<or> (\<exists>p\<in>set ps. ch_id p = ch_id d \<and> choice_same p d))) \<and>
     (\<forall>d\<in>set ds. \<forall>d'\<in>set ds. ch_id d = ch_id d' \<longrightarrow> n < ch_id d \<longrightarrow> d = d')"
proof (induction cs arbitrary: n ds m)
  case (Cons c cs)
  let ?found = "List.find (\<lambda>p. certificate_candidate_same (Some (ch_candidate p)) (Some c)) ps"
  show ?case
  proof (cases ?found)
    case None
    obtain ds' where d: "number_choices ps cs (n + 1) = (ds', m)" "ds = \<lparr>ch_id = n + 1, ch_candidate = c\<rparr> # ds'"
      using Cons.prems(1) None by (auto split: prod.splits)
    from Cons.IH [OF d(1) Cons.prems(2)] Cons.prems(3) have IH: "n + 1 \<le> m" "map ch_candidate ds' = cs"
      "\<forall>d\<in>set ds'. 0 < ch_id d \<and> ch_id d \<le> m \<and> (n + 1 < ch_id d \<or> (\<exists>p\<in>set ps. ch_id p = ch_id d \<and> choice_same p d))"
      "\<forall>d\<in>set ds'. \<forall>d'\<in>set ds'. ch_id d = ch_id d' \<longrightarrow> n + 1 < ch_id d \<longrightarrow> d = d'" by auto
    have other: "ch_id d \<noteq> n + 1" if "d \<in> set ds'" for d
      using IH(3) that Cons.prems(2,3) by fastforce
    have fresh: "n < ch_id d \<longleftrightarrow> n + 1 < ch_id d" if "d \<in> set ds'" for d
      using other [OF that] by auto
    have kept: "\<forall>d\<in>set ds'. 0 < ch_id d \<and> ch_id d \<le> m \<and> (n < ch_id d \<or> (\<exists>p\<in>set ps. ch_id p = ch_id d \<and> choice_same p d))"
      "\<forall>d\<in>set ds'. \<forall>d'\<in>set ds'. ch_id d = ch_id d' \<longrightarrow> n < ch_id d \<longrightarrow> d = d'"
      using IH(3,4) fresh by blast+
    show ?thesis
      unfolding d(2) using IH(1,2) kept other by (simp, metis)
  next
    case (Some p)
    then have p: "p \<in> set ps" "certificate_candidate_same (Some (ch_candidate p)) (Some c)" by (auto simp: find_Some_iff)
    with Cons.prems(2,3) have b: "0 < ch_id p" "ch_id p \<le> n" by fastforce+
    obtain ds' where d: "number_choices ps cs n = (ds', m)" "ds = \<lparr>ch_id = ch_id p, ch_candidate = c\<rparr> # ds'"
      using Cons.prems(1) Some b by (auto split: prod.splits)
    have s: "choice_same p \<lparr>ch_id = ch_id p, ch_candidate = c\<rparr>" using p by (simp add: choice_same_def)
    from Cons.IH [OF d(1) Cons.prems(2,3)] b s p(1) show ?thesis
      unfolding d(2) by auto
  qed
qed auto

lemma number_choices_ids_ok:
  assumes "number_choices ps cs n = (ds, m)" "ids_ok ps n"
  shows "ids_ok ds m"
proof -
  from number_choices_ids [OF assms(1), of n] assms(2)
  have b: "\<forall>d\<in>set ds. 0 < ch_id d \<and> ch_id d \<le> m \<and> (n < ch_id d \<or> (\<exists>p\<in>set ps. ch_id p = ch_id d \<and> choice_same p d))"
    "\<forall>d\<in>set ds. \<forall>d'\<in>set ds. ch_id d = ch_id d' \<longrightarrow> n < ch_id d \<longrightarrow> d = d'"
    by (auto simp: ids_ok_def)
  have "d = d' \<or> choice_same d d'" if d: "d \<in> set ds" "d' \<in> set ds" "ch_id d = ch_id d'" for d d'
  proof (cases "n < ch_id d")
    case False
    with b(1) d obtain p q where pq: "p \<in> set ps" "q \<in> set ps" "ch_id p = ch_id q" "choice_same p d" "choice_same q d'"
      by (metis (full_types))
    with assms(2) have "p = q \<or> choice_same p q" unfolding ids_ok_def by blast
    with pq show ?thesis by (metis choice_same_sym choice_same_trans)
  qed (use b(2) d in blast)
  with b(1) show ?thesis unfolding ids_ok_def by blast
qed

lemma replace_candidates_ok:
  assumes "ids_ok (cz_choices z) (cz_next_candidate_id z)"
  obtains choices n where "replace_candidates e cands present z =
      z\<lparr>cz_choices := choices, cz_next_candidate_id := n, cz_view := (cz_view z)\<lparr>cv_revision := cv_revision (cz_view z) + 1,
        cv_candidates := map (\<lambda>c. candidate_row e (ch_id c) (ch_candidate c)) choices, cv_tokens_present := present\<rparr>\<rparr>"
    "ids_ok choices n"
    "number_choices (cz_choices z) cands (cz_next_candidate_id z) = (choices, n)"
proof -
  obtain choices n where nc: "number_choices (cz_choices z) cands (cz_next_candidate_id z) = (choices, n)"
    by fastforce
  with number_choices_ids_ok [OF nc assms] show ?thesis
    by (intro that [of choices n]) (simp_all add: replace_candidates_def)
qed

lemma chooser_okD:
  assumes "chooser_ok log i z"
  obtains v vs where "views_of log i = v # vs" "cz_view z = v\<lparr>cv_activation_token := None\<rparr>" "numbered (v # vs)"
    "ids_ok (cz_choices z) (cz_next_candidate_id z)"
    "done_count log i = (if cz_finished z then 1 else 0)"
  using assms unfolding chooser_ok_def last_view_views_of by (auto split: list.splits)

lemma chooser_update_inv:
  assumes inv: "chooser_inv s"
  shows "chooser_inv (certificate_chooser_update e replies i cands present s)"
proof (cases "cs_memory s i")
  case (Some z)
  show ?thesis
  proof (cases "cz_finished z")
    case False
    let ?z = "z\<lparr>cz_view := (cz_view z)\<lparr>cv_tokens_reading := False\<rparr>\<rparr>"
    have ok: "chooser_ok (cs_log s) i z" "i \<le> cs_next_ui_id s" using chooser_invD(4) [OF inv Some] by auto
    from chooser_okD [OF ok(1)] obtain v vs where v: "views_of (cs_log s) i = v # vs" "cz_view z = v\<lparr>cv_activation_token := None\<rparr>"
      "numbered (v # vs)" "ids_ok (cz_choices z) (cz_next_candidate_id z)" "done_count (cs_log s) i = 0"
      using False by auto
    from v(4) have ids: "ids_ok (cz_choices ?z) (cz_next_candidate_id ?z)" by simp
    obtain choices n where r: "replace_candidates e cands present ?z =
        ?z\<lparr>cz_choices := choices, cz_next_candidate_id := n, cz_view := (cz_view ?z)\<lparr>cv_revision := cv_revision (cz_view ?z) + 1,
          cv_candidates := map (\<lambda>c. candidate_row e (ch_id c) (ch_candidate c)) choices, cv_tokens_present := present\<rparr>\<rparr>"
      "ids_ok choices n"
      by (rule replace_candidates_ok [OF ids])
    define z1 where "z1 = replace_candidates e cands present ?z"
    note r1 = r(1) [folded z1_def]
    let ?t = "certificate_chooser_update e replies i cands present s"
    have log: "cs_log ?t = [Chooser_updated i (cz_view z1)] @ cs_log s"
      using Some False by (simp add: certificate_chooser_update_def Let_def z1_def)
    have ok1: "chooser_ok (cs_log ?t) i z1"
      unfolding log using v(3) by (auto simp: chooser_ok_def r1 r(2) v False)
    have fin: "\<not> cz_finished z1" using r1 False by simp
    show ?thesis
      by (rule chooser_inv_change [OF inv _ log, where i = i and z = z1])
        (use Some False ok ok1 fin inv chooser_invD(1) [OF inv] chooser_invD(2,3,4) [OF inv, of i] in
          \<open>simp_all add: certificate_chooser_update_def Let_def insert_absorb z1_def [symmetric]\<close>)
  qed (use assms Some in \<open>simp add: certificate_chooser_update_def\<close>)
qed (use assms in \<open>simp add: certificate_chooser_update_def\<close>)

lemma chooser_reading_inv:
  assumes inv: "chooser_inv s"
  shows "chooser_inv (certificate_chooser_set_tokens_reading replies i reading s)"
proof (cases "cs_memory s i")
  case (Some z)
  show ?thesis
  proof (cases "cz_finished z \<or> cv_tokens_reading (cz_view z) = reading")
    case False
    let ?z1 = "z\<lparr>cz_view := (cz_view z)\<lparr>cv_tokens_reading := reading, cv_revision := cv_revision (cz_view z) + 1\<rparr>\<rparr>"
    have ok: "chooser_ok (cs_log s) i z" "i \<le> cs_next_ui_id s" using chooser_invD(4) [OF inv Some] by auto
    let ?t = "certificate_chooser_set_tokens_reading replies i reading s"
    have log: "cs_log ?t = [Chooser_updated i (cz_view ?z1)] @ cs_log s"
      using Some False by (simp add: certificate_chooser_set_tokens_reading_def Let_def)
    from chooser_okD [OF ok(1)] obtain v vs where v: "views_of (cs_log s) i = v # vs" "cz_view z = v\<lparr>cv_activation_token := None\<rparr>"
      "numbered (v # vs)" "ids_ok (cz_choices z) (cz_next_candidate_id z)" "done_count (cs_log s) i = 0"
      using False by auto
    have ok1: "chooser_ok (cs_log ?t) i ?z1"
      unfolding log using v False by (auto simp: chooser_ok_def)
    show ?thesis
      by (rule chooser_inv_change [OF inv _ log, where i = i and z = ?z1])
        (use Some False ok ok1 inv chooser_invD(1) [OF inv] chooser_invD(2,3,4) [OF inv, of i] in
          \<open>simp_all add: certificate_chooser_set_tokens_reading_def Let_def insert_absorb\<close>)
  qed (use assms Some in \<open>auto simp: certificate_chooser_set_tokens_reading_def\<close>)
qed (use assms in \<open>simp add: certificate_chooser_set_tokens_reading_def\<close>)

lemma chooser_cancelled_inv: "chooser_inv s \<Longrightarrow> chooser_inv (chooser_on_cancelled i s)"
  by (auto simp: chooser_on_cancelled_def intro!: chooser_inv_set split: option.split)

lemma chooser_answers_inv:
  assumes "chooser_inv s"
  shows "chooser_inv (certificate_chooser_choose replies i rv c s)" "chooser_inv (certificate_chooser_cancel replies i s)"
    "chooser_inv (certificate_chooser_fail replies i error s)" "chooser_inv (reply_idle replies r s)"
    "chooser_inv (chooser_on_cancelled_idle replies i s)"
proof -
  show a: "chooser_inv (certificate_chooser_choose replies i rv c s)" for i rv c
    using assms by (auto simp: certificate_chooser_choose_def defer_reply_def chooser_finish_inv split: option.split)
  show b: "chooser_inv (certificate_chooser_cancel replies i s)" for i
    using assms by (auto simp: certificate_chooser_cancel_def defer_reply_def chooser_finish_inv split: option.split)
  show "chooser_inv (certificate_chooser_fail replies i error s)"
    using assms by (auto simp: certificate_chooser_fail_def chooser_lookup_def chooser_finish_inv chooser_inv_set
        split: option.split if_splits)
  show "chooser_inv (reply_idle replies r s)" using a b by (simp add: reply_idle_def)
  show "chooser_inv (chooser_on_cancelled_idle replies i s)"
    using assms by (auto simp: chooser_on_cancelled_idle_def chooser_finish_inv chooser_inv_set split: option.split)
qed

lemma chooser_ok_unavailable [simp]: "chooser_ok (Chooser_unavailable # log) i z = chooser_ok log i z"
  by (simp add: chooser_ok_def)

lemma chooser_show_inv:
  assumes inv: "chooser_inv s" and t: "certificate_chooser_show e replies pw at cands r cancellable s = (t, res)"
  shows "chooser_inv t"
proof (cases "certificate_chooser_available e")
  case True
  define i where "i = Suc (cs_next_ui_id s)"
  define z0 where "z0 = \<lparr>cz_next_candidate_id = 0, cz_view = request_view e pw at r, cz_choices = [],
      cz_app_id = ca_app_id (rq_caller r), cz_cancellable = cancellable, cz_cancel_id = (cancellable \<and> \<not> ce_cancelled e),
      cz_cancel_idle = False, cz_finished = False, cz_error = 0\<rparr>"
  have ids: "ids_ok (cz_choices z0) (cz_next_candidate_id z0)" by (simp add: z0_def ids_ok_def)
  obtain choices n where z: "replace_candidates e cands (rq_tokens_present r) z0 =
      z0\<lparr>cz_choices := choices, cz_next_candidate_id := n, cz_view := (cz_view z0)\<lparr>cv_revision := cv_revision (cz_view z0) + 1,
        cv_candidates := map (\<lambda>c. candidate_row e (ch_id c) (ch_candidate c)) choices, cv_tokens_present := rq_tokens_present r\<rparr>\<rparr>"
    "ids_ok choices n"
    by (rule replace_candidates_ok [OF ids])
  define z1 where "z1 = replace_candidates e cands (rq_tokens_present r) z0"
  define z2 where "z2 = (if cancellable \<and> ce_cancelled e then z1\<lparr>cz_cancel_idle := True\<rparr> else z1)"
  define z3 where "z3 = z2\<lparr>cz_view := (cz_view z2)\<lparr>cv_activation_token := None\<rparr>\<rparr>"
  note z1 = z [folded z1_def]
  have new: "cs_memory s i = None" using chooser_invD(4) [OF inv, of i] by (cases "cs_memory s i") (auto simp: i_def)
  define d where "d = certificate_log_decision ''chooser-shown'' (cz_app_id z1)
      (Some (certificate_identity_level_to_string (cv_identity_level (cz_view z1))))
      (Some (certificate_purpose_to_string (cv_purpose (cz_view z1)))) False"
  define s1 where "s1 = set_chooser i z1 (s\<lparr>cs_next_ui_id := i, cs_choosers := insert i (cs_choosers s)\<rparr>)"
  define s2 where "s2 = (if cancellable \<and> ce_cancelled e then chooser_on_cancelled i s1 else s1)"
  have s2: "cs_memory s2 = (cs_memory s)(i \<mapsto> z2)" "cs_next_ui_id s2 = i" "cs_choosers s2 = insert i (cs_choosers s)"
    "cs_provider_depth s2 = cs_provider_depth s" "cs_log s2 = cs_log s"
    by (simp_all add: s2_def s1_def z2_def chooser_on_cancelled_def)
  define s4 where "s4 = provider_call (Chooser_shown i (cz_view z1)) replies (note_effect (Decision_logged d) s2)"
  have s4: "cs_memory s4 i = Some z2" by (simp add: s4_def s2)
  have "t = (case cs_memory s4 i of None \<Rightarrow> s4
      | Some z4 \<Rightarrow> set_chooser i (z4\<lparr>cz_view := (cz_view z4)\<lparr>cv_activation_token := None\<rparr>\<rparr>) s4)"
    using t True unfolding certificate_chooser_show_def Let_def Suc_eq_plus1 [symmetric] i_def [symmetric] z0_def [symmetric]
      z1_def [symmetric] d_def [symmetric] s1_def [symmetric] s2_def [symmetric] s4_def [symmetric]
    by simp
  then have t4: "t = set_chooser i z3 s4" by (simp add: s4 z3_def)
  have log: "cs_log t = [Chooser_shown i (cz_view z1), Decision_logged d] @ cs_log s"
    and mem: "cs_memory t = (cs_memory s)(i \<mapsto> z3)" and ids': "cs_next_ui_id t = i" "cs_choosers t = insert i (cs_choosers s)"
    and depth: "cs_provider_depth t = cs_provider_depth s"
    by (simp_all add: t4 s4_def s2)
  have fin: "\<not> cz_finished z3" by (simp add: z3_def z2_def z1(1) z0_def)
  have ok: "chooser_ok (cs_log t) i z3"
    using z(2) chooser_invD(3) [OF inv new]
    unfolding log by (auto simp: chooser_ok_def z3_def z2_def z1(1) z0_def request_view_def Let_def)
  show ?thesis
    by (rule chooser_inv_change [OF inv mem log])
      (use fin ok ids' depth inv chooser_invD(1) [OF inv] in \<open>auto simp: i_def\<close>)
qed (use inv t in \<open>auto simp: certificate_chooser_show_def chooser_inv_def cong: option.case_cong\<close>)

lemma chooser_inv_start: "chooser_inv chooser_start"
  by (simp add: chooser_inv_def chooser_start_def)

lemma chooser_inv_step:
  assumes "chooser_inv s" "chooser_step s ev t"
  shows "chooser_inv t"
  using assms(2)
proof (cases rule: chooser_step.cases)
  case (step_deferred r rs replies)
  then show ?thesis using assms(1) chooser_answers_inv(4) [of "s\<lparr>cs_deferred := rs\<rparr>"] by simp
qed (use assms(1) in \<open>auto intro: chooser_show_inv chooser_update_inv chooser_reading_inv chooser_answers_inv chooser_cancelled_inv\<close>)

interpretation chooser: step_invariant "\<lambda>s. s = chooser_start" chooser_step chooser_inv
  by unfold_locales (auto intro: chooser_inv_start chooser_inv_step)

abbreviation chooser_reachable :: "chooser_state \<Rightarrow> bool" where
  "chooser_reachable \<equiv> reach (\<lambda>s. s = chooser_start) chooser_step"

section \<open>What a consent is for\<close>

text \<open>The new effects of a finish, and so of every answer.\<close>

lemma chooser_finish_done:
  assumes "cs_log (chooser_finish replies i chosen s) = es @ cs_log s" "Chooser_done j (Some c) err \<in> set es"
  shows "j = i \<and> chosen = Some c"
proof (cases "cs_memory s i")
  case (Some z)
  with assms show ?thesis by (cases "cz_finished z") (auto simp: chooser_finish_def Let_def append_eq_Cons_conv)
qed (use assms in \<open>simp add: chooser_finish_def\<close>)

lemma chooser_choose_done:
  assumes inv: "chooser_inv s"
    and log: "cs_log (certificate_chooser_choose replies i rv cid s) = es @ cs_log s" "Chooser_done j (Some c) err \<in> set es"
  obtains z v vs ch where "j = i" "cs_memory s i = Some z" "\<not> cz_finished z" "rv = cv_revision v"
    "views_of (cs_log s) i = v # vs" "numbered (v # vs)" "cv_candidates (cz_view z) = cv_candidates v"
    "List.find (\<lambda>c. ch_id c = cid) (cz_choices z) = Some ch" "c = ch_candidate ch"
proof -
  have ne: "certificate_chooser_choose replies i rv cid s \<noteq> s" using log by auto
  then obtain z where z: "cs_memory s i = Some z" "i \<in> cs_choosers s" "rv = cv_revision (cz_view z)" "cid \<noteq> 0"
    by (auto simp: certificate_chooser_choose_def chooser_lookup_def split: option.splits if_splits)
  have d0: "cs_provider_depth s = 0" using chooser_invD(1) [OF inv] .
  obtain ch where ch: "List.find (\<lambda>c. ch_id c = cid) (cz_choices z) = Some ch"
    using ne z d0 by (auto simp: certificate_chooser_choose_def chooser_lookup_def split: option.splits if_splits)
  have "certificate_chooser_choose replies i rv cid s = chooser_finish replies i (Some (ch_candidate ch)) s"
    using z d0 ch by (simp add: certificate_chooser_choose_def chooser_lookup_def)
  with log chooser_finish_done [of replies i "Some (ch_candidate ch)" s es j c err] have c: "j = i" "c = ch_candidate ch" by auto
  have "\<not> cz_finished z" using z(1,2) chooser_invD(2) [OF inv, of i] by simp
  moreover have "chooser_ok (cs_log s) i z" using chooser_invD(4) [OF inv z(1)] by simp
  from chooser_okD [OF this] obtain v vs where "views_of (cs_log s) i = v # vs" "cz_view z = v\<lparr>cv_activation_token := None\<rparr>"
    "numbered (v # vs)" by metis
  ultimately show ?thesis using ch c z by (intro that [of z v vs ch]) auto
qed

text \<open>Only an answer, given now or put off before, makes a chooser return a candidate.\<close>

lemma done_only_by_choice:
  assumes "chooser_step s ev t" "cs_log t = es @ cs_log s" "Chooser_done i (Some c) err \<in> set es"
  obtains replies k rv cid rest where "ev = Ev_choose k rv cid \<or> ev = Ev_deferred \<lparr>re_id = k, re_revision = rv, re_candidate_id = cid\<rparr>"
    "t = certificate_chooser_choose replies k rv cid (s\<lparr>cs_deferred := rest\<rparr>)"
proof -
  have other: thesis if "cs_log (chooser_finish replies k None u) = es @ cs_log s" "cs_log u = cs_log s" for replies k u
    using chooser_finish_done [of replies k None u es i c err] that assms(3) by simp
  from assms(1) show ?thesis
  proof (cases rule: chooser_step.cases)
    case (step_choose k rv cid replies)
    show ?thesis by (rule that [of k rv cid replies "cs_deferred s"]) (use step_choose in auto)
  next
    case (step_deferred r rs replies)
    show ?thesis
    proof (cases "re_candidate_id r = 0")
      case True
      then show ?thesis
        using step_deferred assms(2,3) other [of replies "re_id r" "s\<lparr>cs_deferred := rs\<rparr>"]
        by (auto simp: reply_idle_def certificate_chooser_cancel_def defer_reply_def split: option.splits if_splits)
    next
      case False
      show ?thesis
        by (rule that [of "re_id r" "re_revision r" "re_candidate_id r" replies rs])
          (use step_deferred False in \<open>auto simp: reply_idle_def\<close>)
    qed
  next
    case (step_show e replies pw at cands r cancellable res)
    then show ?thesis using assms(2,3)
      by (auto simp: certificate_chooser_show_def Let_def chooser_on_cancelled_def append_eq_Cons_conv
          split: if_splits option.splits)
  qed (use assms(2,3) in
      \<open>auto intro: other simp: certificate_chooser_update_def certificate_chooser_set_tokens_reading_def certificate_chooser_cancel_def
        certificate_chooser_fail_def chooser_on_cancelled_idle_def chooser_on_cancelled_def defer_reply_def Let_def
        append_eq_Cons_conv split: option.splits if_splits\<close>)
qed

section \<open>What the core offered\<close>

text \<open>A run with its calls, newest first.\<close>

inductive chooser_run :: "chooser_event list \<Rightarrow> chooser_state \<Rightarrow> bool" where
  chooser_run_start: "chooser_run [] chooser_start"
| chooser_run_step: "\<lbrakk>chooser_run evs s; chooser_step s ev t\<rbrakk> \<Longrightarrow> chooser_run (ev # evs) t"

lemma chooser_run_reachable: "chooser_run evs s \<Longrightarrow> chooser_reachable s"
  by (induction rule: chooser_run.induct) (auto intro: reach_init reach_step)

lemma chooser_reachable_run: "chooser_reachable s \<Longrightarrow> \<exists>evs. chooser_run evs s"
  by (induction rule: reach.induct) (auto intro: chooser_run.intros)

text \<open>The candidates given last to a chooser, and what was read of the world with them.\<close>

fun last_offer :: "chooser_event list \<Rightarrow> nat \<Rightarrow> (chooser_env \<times> certificate_candidate list) option" where
  "last_offer [] i = None"
| "last_offer (Ev_show e cands r res # evs) i = (if res = Some i then Some (e, cands) else last_offer evs i)"
| "last_offer (Ev_update e j cands # evs) i = (if j = i then Some (e, cands) else last_offer evs i)"
| "last_offer (x # evs) i = last_offer evs i"

definition offered :: "chooser_env \<Rightarrow> certificate_candidate list \<Rightarrow> chooser \<Rightarrow> bool" where
  "offered e cands z \<longleftrightarrow> map ch_candidate (cz_choices z) = cands \<and>
     cv_candidates (cz_view z) = map (\<lambda>c. candidate_row e (ch_id c) (ch_candidate c)) (cz_choices z)"

lemma number_choices_candidates: "number_choices ps cs n = (ds, m) \<Longrightarrow> map ch_candidate ds = cs"
  by (induction cs arbitrary: n ds m) (auto simp: Let_def split: prod.splits if_splits)

lemma replace_candidates_offered: "offered e cands (replace_candidates e cands present z)"
  using number_choices_candidates [of "cz_choices z" cands "cz_next_candidate_id z"]
  by (simp add: offered_def replace_candidates_def split: prod.split)

lemma chooser_show_offered:
  assumes "certificate_chooser_available e" "certificate_chooser_show e replies pw at cands r cancellable s = (t, res)"
  shows "res = Some (Suc (cs_next_ui_id s))"
    and "\<exists>z. cs_memory t = (cs_memory s)(Suc (cs_next_ui_id s) \<mapsto> z) \<and> offered e cands z"
proof -
  define z0 where "z0 = \<lparr>cz_next_candidate_id = 0, cz_view = request_view e pw at r, cz_choices = [],
      cz_app_id = ca_app_id (rq_caller r), cz_cancellable = cancellable, cz_cancel_id = (cancellable \<and> \<not> ce_cancelled e),
      cz_cancel_idle = False, cz_finished = False, cz_error = 0\<rparr>"
  define z1 where "z1 = replace_candidates e cands (rq_tokens_present r) z0"
  have off: "offered e cands z1" unfolding z1_def by (rule replace_candidates_offered)
  show "res = Some (Suc (cs_next_ui_id s))" using assms by (simp add: certificate_chooser_show_def Let_def)
  show "\<exists>z. cs_memory t = (cs_memory s)(Suc (cs_next_ui_id s) \<mapsto> z) \<and> offered e cands z"
    using assms off
    unfolding certificate_chooser_show_def Let_def Suc_eq_plus1 [symmetric] z0_def [symmetric] z1_def [symmetric]
    by (auto simp: chooser_on_cancelled_def offered_def split: if_splits)
qed

text \<open>Every chooser still running afterwards had the same choices and rows before.\<close>

definition keeps_offers :: "chooser_state \<Rightarrow> chooser_state \<Rightarrow> bool" where
  "keeps_offers s t \<longleftrightarrow> (\<forall>j z'. cs_memory t j = Some z' \<and> \<not> cz_finished z' \<longrightarrow>
     (\<exists>z. cs_memory s j = Some z \<and> \<not> cz_finished z \<and> cz_choices z' = cz_choices z \<and>
       cv_candidates (cz_view z') = cv_candidates (cz_view z)))"

lemma keeps_offers_refl [simp]: "cs_memory t = cs_memory s \<Longrightarrow> keeps_offers s t"
  by (simp add: keeps_offers_def)

lemma keeps_offers_set:
  assumes "cs_memory s i = Some z" "cz_choices z' = cz_choices z" "cv_candidates (cz_view z') = cv_candidates (cz_view z)"
    and "cz_finished z' = cz_finished z"
  shows "keeps_offers s (set_chooser i z' s)"
  using assms by (simp add: keeps_offers_def)

lemma keeps_offers_trans: "keeps_offers s t \<Longrightarrow> keeps_offers t u \<Longrightarrow> keeps_offers s u"
  unfolding keeps_offers_def by metis

lemma chooser_finish_keeps_offers: "keeps_offers s (chooser_finish replies i chosen s)"
  by (auto simp: keeps_offers_def chooser_finish_def Let_def split: option.splits)

lemma chooser_answers_keep_offers:
  "keeps_offers s (certificate_chooser_choose replies i rv c s)" "keeps_offers s (certificate_chooser_cancel replies i s)"
  "keeps_offers s (certificate_chooser_fail replies i error s)" "keeps_offers s (chooser_on_cancelled_idle replies i s)"
  "keeps_offers s (chooser_on_cancelled i s)" "keeps_offers s (certificate_chooser_set_tokens_reading replies i reading s)"
proof -
  show "keeps_offers s (certificate_chooser_choose replies i rv c s)" "keeps_offers s (certificate_chooser_cancel replies i s)"
    by (auto simp: certificate_chooser_choose_def certificate_chooser_cancel_def defer_reply_def chooser_finish_keeps_offers
        split: option.split)
  show "keeps_offers s (certificate_chooser_fail replies i error s)" "keeps_offers s (chooser_on_cancelled_idle replies i s)"
    by (auto simp: certificate_chooser_fail_def chooser_on_cancelled_idle_def chooser_lookup_def split: option.split
        intro: keeps_offers_trans [OF keeps_offers_set chooser_finish_keeps_offers])
  show "keeps_offers s (chooser_on_cancelled i s)" "keeps_offers s (certificate_chooser_set_tokens_reading replies i reading s)"
    by (auto simp: chooser_on_cancelled_def certificate_chooser_set_tokens_reading_def keeps_offers_set keeps_offers_def
        Let_def split: option.split)
qed

text \<open>A chooser still running after a call has the rows of this call, or those it had.\<close>

lemma chooser_step_offers:
  assumes "chooser_step s ev t" "cs_memory t i = Some z'" "\<not> cz_finished z'"
  shows "(\<exists>e cands. last_offer (ev # evs) i = Some (e, cands) \<and> offered e cands z') \<or>
    (\<exists>z. cs_memory s i = Some z \<and> \<not> cz_finished z \<and> cz_choices z' = cz_choices z \<and>
       cv_candidates (cz_view z') = cv_candidates (cz_view z) \<and> last_offer (ev # evs) i = last_offer evs i)"
proof -
  have kept: ?thesis if "keeps_offers s t" "last_offer (ev # evs) i = last_offer evs i"
    using that assms(2,3) unfolding keeps_offers_def by auto
  from assms(1) show ?thesis
  proof (cases rule: chooser_step.cases)
    case (step_show e replies pw at cands r cancellable res)
    show ?thesis
    proof (cases "certificate_chooser_available e")
      case True
      from chooser_show_offered [OF this step_show(2)] step_show(1) assms(2,3) show ?thesis by (auto split: if_splits)
    next
      case False
      with step_show have "t = note_effect Chooser_unavailable s" "res = None" by (simp_all add: certificate_chooser_show_def)
      then show ?thesis using step_show(1) kept by simp
    qed
  next
    case (step_update e replies j cands present)
    then show ?thesis
      using assms(2,3) by (auto simp: certificate_chooser_update_def Let_def replace_candidates_offered split: option.splits if_splits)
  next
    case (step_deferred r rs replies)
    have "keeps_offers (s\<lparr>cs_deferred := rs\<rparr>) t" "cs_memory (s\<lparr>cs_deferred := rs\<rparr>) = cs_memory s"
      using step_deferred by (auto simp: reply_idle_def chooser_answers_keep_offers)
    then have "keeps_offers s t" by (simp add: keeps_offers_def)
    with kept step_deferred show ?thesis by simp
  qed (use kept in \<open>simp_all add: chooser_answers_keep_offers\<close>)
qed

lemma running_chooser_offered:
  "chooser_run evs s \<Longrightarrow> cs_memory s i = Some z \<Longrightarrow> \<not> cz_finished z \<Longrightarrow>
     \<exists>e cands. last_offer evs i = Some (e, cands) \<and> offered e cands z"
proof (induction arbitrary: z rule: chooser_run.induct)
  case (chooser_run_step evs s ev t)
  from chooser_step_offers [OF chooser_run_step.hyps(2) chooser_run_step.prems, of evs] chooser_run_step.IH
  show ?case by (auto simp: offered_def)
qed (simp add: chooser_start_def)

text \<open>The row of an identifier is that of the choice with this identifier.\<close>

lemma find_row:
  "List.find (\<lambda>r. cr_id r = cid) (map (\<lambda>c. candidate_row e (ch_id c) (ch_candidate c)) cs) =
     map_option (\<lambda>c. candidate_row e (ch_id c) (ch_candidate c)) (List.find (\<lambda>c. ch_id c = cid) cs)"
proof -
  have "cr_id (candidate_row e k c) = k" for k c by (simp add: candidate_row_def Let_def split: prod.split)
  then show ?thesis by (induction cs) auto
qed

text \<open>A chooser of one candidate, shown for a sandboxed application.\<close>

definition sample_chooser_env :: chooser_env where
  "sample_chooser_env = \<lparr>ce_unicode = sample_unicode, ce_real_time = 0, ce_date = (\<lambda>_. None), ce_provider = True,
     ce_needs_display = True, ce_has_display = True, ce_cancelled = False\<rparr>"

definition sample_request :: chooser_request where
  "sample_request = \<lparr>rq_caller = \<lparr>ca_level = CERTIFICATE_IDENTITY_VERIFIED_SANDBOXED, ca_app_id = Some ''org.x'', ca_app_display_name = None\<rparr>,
     rq_purpose = CERTIFICATE_PURPOSE_SIGNING, rq_may_sign = True, rq_may_decrypt = False, rq_lifetime_seconds = 300,
     rq_reason = None, rq_request_handle = None, rq_tokens_present = True, rq_generic_purpose = False\<rparr>"

definition sample_chooser_state :: chooser_state where
  "sample_chooser_state = fst (certificate_chooser_show sample_chooser_env [] None None [sample_candidate] sample_request False chooser_start)"

definition sample_chooser_show :: chooser_event where
  "sample_chooser_show = Ev_show sample_chooser_env [sample_candidate] sample_request (Some 1)"

lemma sample_chooser_run: "chooser_run [sample_chooser_show] sample_chooser_state"
proof -
  let ?show = "certificate_chooser_show sample_chooser_env [] None None [sample_candidate] sample_request False chooser_start"
  have "snd ?show = Some 1"
    by (simp add: certificate_chooser_show_def certificate_chooser_available_def Let_def chooser_start_def
      sample_chooser_env_def [THEN arg_cong, of ce_provider] sample_chooser_env_def [THEN arg_cong, of ce_needs_display]
      sample_chooser_env_def [THEN arg_cong, of ce_has_display])
  then have "?show = (sample_chooser_state, Some 1)" unfolding sample_chooser_state_def by (metis prod.collapse)
  then show ?thesis unfolding sample_chooser_show_def by (rule chooser_run_step [OF chooser_run_start step_show])
qed

lemma sample_chooser_reachable: "chooser_reachable sample_chooser_state"
  using sample_chooser_run by (rule chooser_run_reachable)

lemma sample_chooser_facts:
  "\<exists>z. cs_memory sample_chooser_state 1 = Some z \<and> 1 \<in> cs_choosers sample_chooser_state \<and> cz_choices z = [\<lparr>ch_id = 1, ch_candidate = sample_candidate\<rparr>] \<and>
     cv_revision (cz_view z) = 1 \<and> \<not> cz_finished z \<and> cz_error z = 0 \<and> cs_provider_depth sample_chooser_state = 0"
  by (simp add: sample_chooser_state_def certificate_chooser_show_def certificate_chooser_available_def Let_def
      sample_chooser_env_def [THEN arg_cong, of ce_provider] sample_chooser_env_def [THEN arg_cong, of ce_needs_display]
      sample_chooser_env_def [THEN arg_cong, of ce_has_display] chooser_start_def replace_candidates_def request_view_def)

lemma sample_chooser_choice:
  "\<exists>log. cs_log (certificate_chooser_choose [] 1 1 1 sample_chooser_state) = Chooser_done 1 (Some sample_candidate) 0 # log @ cs_log sample_chooser_state"
proof -
  from sample_chooser_facts obtain z where z: "cs_memory sample_chooser_state 1 = Some z" "1 \<in> cs_choosers sample_chooser_state"
    "cz_choices z = [\<lparr>ch_id = 1, ch_candidate = sample_candidate\<rparr>]" "cv_revision (cz_view z) = 1" "\<not> cz_finished z" "cz_error z = 0"
    "cs_provider_depth sample_chooser_state = 0" by auto
  then show ?thesis
    by (simp add: certificate_chooser_choose_def chooser_lookup_def chooser_finish_def Let_def)
qed

text \<open>C34 (safety): a chooser returns a candidate only because the provider named the revision and a row
  of the very view its window showed last.  The views a chooser shows are numbered in order, each
  update of the list or of the reading state being a new revision, so an answer to an older view is
  void, whether given at once or put off.  The candidate returned is one of those the core gave this
  chooser last, and the row named is how it was displayed then.\<close>

theorem consent_is_for_the_row_shown:
  assumes "chooser_run evs s" "chooser_step s ev t" "cs_log t = es @ cs_log s" "Chooser_done i (Some c) err \<in> set es"
  shows "\<exists>rv cid v older row e cands.
    (ev = Ev_choose i rv cid \<or> ev = Ev_deferred \<lparr>re_id = i, re_revision = rv, re_candidate_id = cid\<rparr>) \<and>
    last_view (cs_log s) i = Some v \<and> cv_revision v = rv \<and>
    views_of (cs_log s) i = v # older \<and> rv = Suc (length older) \<and> (\<forall>w \<in> set older. cv_revision w < rv) \<and>
    List.find (\<lambda>r. cr_id r = cid) (cv_candidates v) = Some row \<and>
    last_offer evs i = Some (e, cands) \<and> c \<in> set cands \<and> row = candidate_row e cid c"
proof -
  from done_only_by_choice [OF assms(2-4)] obtain replies k rv cid rest where
    ev: "ev = Ev_choose k rv cid \<or> ev = Ev_deferred \<lparr>re_id = k, re_revision = rv, re_candidate_id = cid\<rparr>"
    and t: "t = certificate_chooser_choose replies k rv cid (s\<lparr>cs_deferred := rest\<rparr>)" by metis
  let ?s = "s\<lparr>cs_deferred := rest\<rparr>"
  have inv: "chooser_inv ?s" using chooser.reach_inv [OF chooser_run_reachable [OF assms(1)]] by simp
  have log: "cs_log (certificate_chooser_choose replies k rv cid ?s) = es @ cs_log ?s" using assms(3) t by simp
  obtain z v vs ch where z: "i = k" "cs_memory s k = Some z" "\<not> cz_finished z"
    "rv = cv_revision v" "views_of (cs_log s) k = v # vs" "numbered (v # vs)" "cv_candidates (cz_view z) = cv_candidates v"
    "List.find (\<lambda>c. ch_id c = cid) (cz_choices z) = Some ch" "c = ch_candidate ch"
    unfolding chooser_state.select_convs chooser_state.update_convs by (rule chooser_choose_done [OF inv log assms(4), simplified]) simp_all
  from running_chooser_offered [OF assms(1) z(2,3)] obtain e cands where o: "last_offer evs k = Some (e, cands)"
    "map ch_candidate (cz_choices z) = cands"
    "cv_candidates v = map (\<lambda>c. candidate_row e (ch_id c) (ch_candidate c)) (cz_choices z)"
    unfolding offered_def z(7) by auto
  have "List.find (\<lambda>r. cr_id r = cid) (cv_candidates v) = Some (candidate_row e cid c)"
    using find_row [of cid e "cz_choices z"] z(8,9) o(3) by (auto simp: find_Some_iff)
  moreover have "c \<in> set cands" using z(8,9) o(2) by (auto simp: find_Some_iff)
  moreover have "\<forall>w \<in> set vs. cv_revision w < rv" using numbered_older [OF z(6)] z(4) by blast
  moreover have "rv = Suc (length vs)" using z(4,6) by simp
  ultimately show ?thesis using ev z(1,4,5) o(1) by (auto simp: last_view_views_of)
qed

theorem consent_is_for_the_row_shown_witness:
  "\<exists>v row. last_view (cs_log sample_chooser_state) 1 = Some v \<and> cv_revision v = 1 \<and>
     List.find (\<lambda>r. cr_id r = 1) (cv_candidates v) = Some row \<and> row = candidate_row sample_chooser_env 1 sample_candidate"
proof -
  from sample_chooser_choice obtain log where
    "cs_log (certificate_chooser_choose [] 1 1 1 sample_chooser_state) = (Chooser_done 1 (Some sample_candidate) 0 # log) @ cs_log sample_chooser_state"
    by auto
  from consent_is_for_the_row_shown [OF sample_chooser_run step_choose this, of 1 sample_candidate 0] show ?thesis
    by (auto simp: sample_chooser_show_def)
qed

text \<open>C35 (invariant): each chooser is answered at most once, exactly when it is finished, and only running
  choosers can be found by their identifier.\<close>

theorem chooser_answered_once:
  assumes "chooser_reachable s"
  shows "done_count (cs_log s) i = (case cs_memory s i of Some z \<Rightarrow> if cz_finished z then 1 else 0 | None \<Rightarrow> 0) \<and>
    (chooser_lookup i s = (case cs_memory s i of Some z \<Rightarrow> if cz_finished z then None else Some z | None \<Rightarrow> None))"
proof -
  note inv = chooser.reach_inv [OF assms]
  show ?thesis
    using chooser_invD(2,3,4) [OF inv, of i] by (cases "cs_memory s i") (auto simp: chooser_lookup_def chooser_ok_def)
qed

theorem chooser_answered_once_witness:
  "done_count (cs_log sample_chooser_state) 1 = 0 \<and> chooser_lookup 1 sample_chooser_state \<noteq> None"
  using chooser_answered_once [OF sample_chooser_reachable, of 1] sample_chooser_facts by auto

text \<open>Through an update of the list, a row that keeps an identifier keeps its credential: the
  same certificate and key on the same token; rows of different credentials have different
  identifiers, and an identifier given up is not given again.\<close>

lemma row_ids_keep_their_credential:
  assumes "chooser_reachable s" "cs_memory s i = Some z" "\<not> cz_finished z"
    and "cs_memory (certificate_chooser_update e replies i cands present s) i = Some z'"
  shows "map ch_candidate (cz_choices z') = cands \<and>
    (\<forall>d\<in>set (cz_choices z'). (\<exists>p\<in>set (cz_choices z). ch_id p = ch_id d \<and> choice_same p d) \<or> cz_next_candidate_id z < ch_id d) \<and>
    (\<forall>d\<in>set (cz_choices z'). \<forall>d'\<in>set (cz_choices z'). ch_id d = ch_id d' \<longrightarrow> d = d' \<or> choice_same d d') \<and>
    (\<forall>d\<in>set (cz_choices z'). 0 < ch_id d \<and> ch_id d \<le> cz_next_candidate_id z') \<and> cz_next_candidate_id z \<le> cz_next_candidate_id z'"
proof -
  have ok: "ids_ok (cz_choices z) (cz_next_candidate_id z)"
    using chooser_invD(4) [OF chooser.reach_inv [OF assms(1)] assms(2)] by (simp add: chooser_ok_def)
  obtain ds m where n: "number_choices (cz_choices z) cands (cz_next_candidate_id z) = (ds, m)" by fastforce
  have z': "cz_choices z' = ds" "cz_next_candidate_id z' = m"
    using assms(2-4) n by (auto simp: certificate_chooser_update_def replace_candidates_def Let_def)
  have "\<forall>p\<in>set (cz_choices z). 0 < ch_id p \<and> ch_id p \<le> cz_next_candidate_id z" using ok by (simp add: ids_ok_def)
  from number_choices_ids [OF n this order_refl] number_choices_ids_ok [OF n ok] show ?thesis
    unfolding z' ids_ok_def by blast
qed

lemma row_ids_keep_their_credential_witness:
  "\<exists>z' :: chooser. map ch_candidate (cz_choices z') = [sample_candidate] \<and> (\<exists>d\<in>set (cz_choices z'). ch_id d = 1)"
proof -
  from sample_chooser_facts obtain z where z: "cs_memory sample_chooser_state 1 = Some z" "\<not> cz_finished z"
    "cz_choices z = [\<lparr>ch_id = 1, ch_candidate = sample_candidate\<rparr>]" by auto
  have same: "certificate_candidate_same (Some sample_candidate) (Some sample_candidate)"
    by (simp add: sample_candidate_def certificate_candidate_same_def certificate_token_same_def sample_token_def has_text_def)
  obtain z' where z': "cs_memory (certificate_chooser_update sample_chooser_env [] 1 [sample_candidate] True sample_chooser_state) 1 = Some z'"
    "\<exists>d\<in>set (cz_choices z'). ch_id d = 1"
    using z same by (auto simp: certificate_chooser_update_def replace_candidates_def Let_def)
  from row_ids_keep_their_credential [OF sample_chooser_reachable z(1,2) z'(1), THEN conjunct1] z'(2)
  show ?thesis using exI [of "\<lambda>z :: chooser. map ch_candidate (cz_choices z) = [sample_candidate] \<and> (\<exists>d\<in>set (cz_choices z). ch_id d = 1)" z'] by simp
qed

end
