(* ===== verification/PinCore.thy ===== *)
theory PinCore
  imports Chooser
begin

text \<open>
  The PIN dialogue (\<open>src/core/pin.c\<close>), the page that holds a PIN (\<open>src/core/secret.c\<close>) and the dispatch of
  its windows (\<open>src/core/ui.c\<close>).  Prompts queue for one place on the screen; the prompt at that place
  may have a worker in flight, which refreshes the token's flags or logs in.  The provider of the
  prompts is the dispatcher of \<open>ui.c\<close>: it posts messages and never calls back before it returns, and
  an answer of the window comes back as a \<open>Reply\<close> on the coordinator.  A prompt is named by a number, and so
  is an interaction; the log notes the messages posted, the workers started and the callbacks made,
  newest first.  Log lines and reference counts are not modelled.
\<close>

section \<open>The page of a PIN\<close>

record xcc_secret =
  sx_data :: bytes
  sx_length :: nat

definition xcc_secret_set_length :: "xcc_secret \<Rightarrow> nat \<Rightarrow> xcc_secret \<times> bool" where
  "xcc_secret_set_length x len =
     (if len = 0 \<or> len > 511 \<or> len \<ge> length (sx_data x) \<or> 0 \<in> set (take len (sx_data x))
      then (x\<lparr>sx_length := 0, sx_data := replicate (length (sx_data x)) 0\<rparr>, False)
      else (x\<lparr>sx_data := (sx_data x)[len := 0], sx_length := len\<rparr>, True))"

text \<open>The C string at the start of the page.\<close>

definition xcc_secret_view :: "xcc_secret option \<Rightarrow> bytes option" where
  "xcc_secret_view secret =
     (case secret of
        None \<Rightarrow> None
      | Some x \<Rightarrow> if sx_length x > 0 then Some (takeWhile (\<lambda>b. b \<noteq> 0) (sx_data x)) else None)"

definition secret_length :: "xcc_secret option \<Rightarrow> nat" where
  "secret_length secret = (case secret of None \<Rightarrow> 0 | Some x \<Rightarrow> sx_length x)"

section \<open>Prompts\<close>

datatype pin_outcome = CERTIFICATE_PIN_OK | CERTIFICATE_PIN_INCORRECT | CERTIFICATE_PIN_LOCKED | CERTIFICATE_PIN_CANCELLED
  | CERTIFICATE_PIN_DEVICE_ERROR | CERTIFICATE_PIN_TOKEN_REMOVED | CERTIFICATE_PIN_NO_DISPLAY | CERTIFICATE_PIN_TIMED_OUT

datatype pin_status = XCC_PIN_STATUS_NONE | XCC_PIN_STATUS_INCORRECT | XCC_PIN_STATUS_REQUIRED | XCC_PIN_STATUS_TOO_LONG
  | XCC_PIN_STATUS_MEMORY_UNAVAILABLE

abbreviation PIN_MAX_ATTEMPTS :: nat where "PIN_MAX_ATTEMPTS \<equiv> 3"

record pin_prompt =
  pp_token :: certificate_token
  pp_context_specific :: bool
  pp_parent_window :: "string option"
  pp_caller_display :: "string option"
  pp_purpose_display :: "string option"
  pp_refresh :: bool
  pp_abandon :: bool
  pp_cancellable :: bool
  pp_cancel_id :: bool
  pp_protected_path :: bool
  pp_finished :: bool
  pp_busy :: bool
  pp_refresh_in_flight :: bool
  pp_login_in_flight :: bool
  pp_cancel_deferred :: bool
  pp_deferred_outcome :: pin_outcome
  pp_login_succeeded :: bool
  pp_secret :: "xcc_secret option"
  pp_cancel_idle :: bool
  pp_login_timeout_id :: bool
  pp_attempts :: nat
  pp_protected_path_confirmed :: bool
  pp_warning_pending :: bool

text \<open>What a step reads: the clocks and switches of the process, and for each prompt its
  \<open>GCancellable\<close> and the flags of its token, which a worker may have changed.\<close>

record pin_env =
  pe_unicode :: unicode_env
  pe_provider :: bool
  pe_needs_display :: bool
  pe_has_display :: bool
  pe_login_timeout_seconds :: guint
  pe_cancelled :: "nat \<Rightarrow> bool"
  pe_count_low :: "nat \<Rightarrow> bool"
  pe_final_try :: "nat \<Rightarrow> bool"
  pe_locked :: "nat \<Rightarrow> bool"

record pin_view =
  pv_token_label :: "string option"
  pv_reader :: "string option"
  pv_caller_display :: "string option"
  pv_purpose_display :: "string option"
  pv_parent_window :: "string option"
  pv_context_specific :: bool
  pv_protected_path :: bool
  pv_busy :: bool
  pv_count_low :: bool
  pv_final_try :: bool
  pv_locked :: bool
  pv_status :: "string option"
  pv_purpose :: certificate_purpose
  pv_generic_purpose :: bool
  pv_status_code :: pin_status
  pv_display_flags :: guint

text \<open>The texts of a message, cleaned for the screen.\<close>

record pin_texts =
  px_token_label :: "gunichar list option"
  px_reader :: "gunichar list option"
  px_caller_display :: "gunichar list option"
  px_purpose_display :: "gunichar list option"

datatype ui_call = PIN_SHOW pin_view pin_texts | PIN_UPDATE pin_view pin_texts | WARNING nat string | HIDE | CLOSE

record interaction =
  in_prompt :: nat
  in_shown :: bool
  in_ready :: bool
  in_warning_id :: nat

datatype pin_effect = Ui_posted nat ui_call | Refresh_started nat | Login_started nat "bytes option"
  | Pin_done nat pin_outcome | Pin_abandoned nat | Pin_no_display

record pin_state =
  ps_prompts :: "nat \<Rightarrow> pin_prompt option"
  ps_next :: nat
  ps_queue :: "nat list"
  ps_active :: "nat option"
  ps_interactions :: "(nat \<times> interaction) list"
  ps_next_ui_id :: nat
  ps_log :: "pin_effect list"

definition pin_start :: pin_state where
  "pin_start = \<lparr>ps_prompts = (\<lambda>_. None), ps_next = 0, ps_queue = [], ps_active = None, ps_interactions = [], ps_next_ui_id = 0, ps_log = []\<rparr>"

definition pin_note :: "pin_effect \<Rightarrow> pin_state \<Rightarrow> pin_state" where
  "pin_note x s = s\<lparr>ps_log := x # ps_log s\<rparr>"

definition pin_set :: "nat \<Rightarrow> (pin_prompt \<Rightarrow> pin_prompt) \<Rightarrow> pin_state \<Rightarrow> pin_state" where
  "pin_set p f s = s\<lparr>ps_prompts := (ps_prompts s)(p := map_option f (ps_prompts s p))\<rparr>"

definition is_cancelled :: "pin_env \<Rightarrow> nat \<Rightarrow> pin_prompt \<Rightarrow> bool" where
  "is_cancelled e p pr \<longleftrightarrow> pp_cancellable pr \<and> pe_cancelled e p"

section \<open>Messages to the windows\<close>

text \<open>\<open>interaction\<close>: the entry of a prompt, made on demand.\<close>

definition ui_find :: "nat \<Rightarrow> pin_state \<Rightarrow> nat option" where
  "ui_find p s = map_option fst (List.find (\<lambda>(k, i). in_prompt i = p) (ps_interactions s))"

definition ui_interaction :: "nat \<Rightarrow> pin_state \<Rightarrow> pin_state \<times> nat" where
  "ui_interaction p s =
     (case ui_find p s of
        Some k \<Rightarrow> (s, k)
      | None \<Rightarrow>
          let k = ps_next_ui_id s + 1
          in (s\<lparr>ps_next_ui_id := k,
                ps_interactions := (k, \<lparr>in_prompt = p, in_shown = False, in_ready = False, in_warning_id = 0\<rparr>) # ps_interactions s\<rparr>, k))"

definition ui_update :: "nat \<Rightarrow> (interaction \<Rightarrow> interaction) \<Rightarrow> pin_state \<Rightarrow> pin_state" where
  "ui_update k f s = s\<lparr>ps_interactions := map (\<lambda>(j, i). (j, if j = k then f i else i)) (ps_interactions s)\<rparr>"

definition ui_post :: "nat \<Rightarrow> ui_call \<Rightarrow> pin_state \<Rightarrow> pin_state" where
  "ui_post k c s = pin_note (Ui_posted k c) s"

definition pin_texts_of :: "unicode_env \<Rightarrow> pin_view \<Rightarrow> pin_texts" where
  "pin_texts_of u v =
     \<lparr>px_token_label = certificate_display_text u (pv_token_label v) CERTIFICATE_DISPLAY_MAX_TOKEN_LABEL (Some (words ''Unnamed token'')),
      px_reader = certificate_display_text u (pv_reader v) CERTIFICATE_DISPLAY_MAX_READER None,
      px_caller_display = certificate_display_text u (pv_caller_display v) CERTIFICATE_DISPLAY_MAX_APP_NAME None,
      px_purpose_display = certificate_display_text u (pv_purpose_display v) 160 None\<rparr>"

definition token_fallback :: "unicode_env \<Rightarrow> string option \<Rightarrow> guint" where
  "token_fallback u label =
     (if certificate_display_text u label CERTIFICATE_DISPLAY_MAX_TOKEN_LABEL None = None then XCC_DISPLAY_TOKEN_FALLBACK else 0)"

definition pin_message :: "pin_env \<Rightarrow> nat \<Rightarrow> pin_view \<Rightarrow> (pin_view \<Rightarrow> pin_texts \<Rightarrow> ui_call) \<Rightarrow> pin_state \<Rightarrow> pin_state" where
  "pin_message e p v call s =
     (case ui_interaction p s of
        (s1, k) \<Rightarrow>
          let v1 = v\<lparr>pv_display_flags := pv_display_flags v OR token_fallback (pe_unicode e) (pv_token_label v)\<rparr>
          in ui_post k (call v1 (pin_texts_of (pe_unicode e) v1)) (ui_update k (\<lambda>i. i\<lparr>in_shown := True\<rparr>) s1))"

definition ui_warning :: "nat \<Rightarrow> string \<Rightarrow> pin_state \<Rightarrow> pin_state" where
  "ui_warning p message s =
     (case ui_interaction p s of
        (s1, k) \<Rightarrow>
          let n = (case map_of (ps_interactions s1) k of None \<Rightarrow> 0 | Some i \<Rightarrow> in_warning_id i) + 1
          in ui_post k (WARNING n message) (ui_update k (\<lambda>i. i\<lparr>in_warning_id := n\<rparr>) s1))"

definition ui_shown :: "nat \<Rightarrow> pin_state \<Rightarrow> bool" where
  "ui_shown k s = (case map_of (ps_interactions s) k of None \<Rightarrow> False | Some i \<Rightarrow> in_shown i)"

definition ui_hide :: "nat \<Rightarrow> pin_state \<Rightarrow> pin_state" where
  "ui_hide p s =
     (case ui_find p s of
        None \<Rightarrow> s
      | Some k \<Rightarrow> if ui_shown k s then ui_post k HIDE s else s)"

definition ui_close :: "nat \<Rightarrow> pin_state \<Rightarrow> pin_state" where
  "ui_close p s =
     (case ui_find p s of
        None \<Rightarrow> s
      | Some k \<Rightarrow>
          (if ui_shown k s then ui_post k CLOSE s else s)
            \<lparr>ps_interactions := filter (\<lambda>(j, i). j \<noteq> k) (ps_interactions s)\<rparr>)"

definition pin_status_text :: "pin_status \<Rightarrow> string option" where
  "pin_status_text status =
     (case status of
        XCC_PIN_STATUS_INCORRECT \<Rightarrow> Some ''That PIN was not accepted. Try again.''
      | XCC_PIN_STATUS_REQUIRED \<Rightarrow> Some ''Enter the PIN for this token.''
      | XCC_PIN_STATUS_TOO_LONG \<Rightarrow> Some ''PIN exceeds the supported length.''
      | XCC_PIN_STATUS_MEMORY_UNAVAILABLE \<Rightarrow> Some ''Could not allocate memory for the PIN.''
      | XCC_PIN_STATUS_NONE \<Rightarrow> None)"

definition all_purposes :: "certificate_purpose list" where
  "all_purposes = [CERTIFICATE_PURPOSE_CLIENT_AUTH, CERTIFICATE_PURPOSE_SIGNING, CERTIFICATE_PURPOSE_EMAIL, CERTIFICATE_PURPOSE_SSH]"

definition pin_purpose :: "string option \<Rightarrow> certificate_purpose option" where
  "pin_purpose text = List.find (\<lambda>p. text = Some (certificate_purpose_display p)) all_purposes"

definition pin_view_of :: "pin_env \<Rightarrow> nat \<Rightarrow> pin_prompt \<Rightarrow> pin_status \<Rightarrow> pin_view" where
  "pin_view_of e p pr status =
     \<lparr>pv_token_label = tk_label (pp_token pr), pv_reader = tk_reader_name (pp_token pr),
      pv_caller_display = pp_caller_display pr, pv_purpose_display = pp_purpose_display pr,
      pv_parent_window = pp_parent_window pr, pv_context_specific = pp_context_specific pr,
      pv_protected_path = pp_protected_path pr, pv_busy = pp_busy pr, pv_count_low = pe_count_low e p,
      pv_final_try = pe_final_try e p, pv_locked = pe_locked e p, pv_status = pin_status_text status,
      pv_purpose = (case pin_purpose (pp_purpose_display pr) of Some q \<Rightarrow> q | None \<Rightarrow> CERTIFICATE_PURPOSE_CLIENT_AUTH),
      pv_generic_purpose = (pin_purpose (pp_purpose_display pr) = None), pv_status_code = status,
      pv_display_flags = token_fallback (pe_unicode e) (tk_label (pp_token pr))\<rparr>"

definition pin_update :: "pin_env \<Rightarrow> nat \<Rightarrow> pin_status \<Rightarrow> pin_state \<Rightarrow> pin_state" where
  "pin_update e p status s =
     (case ps_prompts s p of None \<Rightarrow> s | Some pr \<Rightarrow> pin_message e p (pin_view_of e p pr status) PIN_UPDATE s)"

definition set_busy :: "pin_env \<Rightarrow> nat \<Rightarrow> bool \<Rightarrow> pin_state \<Rightarrow> pin_state" where
  "set_busy e p busy s = pin_update e p XCC_PIN_STATUS_NONE (pin_set p (\<lambda>pr. pr\<lparr>pp_busy := busy\<rparr>) s)"

section \<open>Answering and starting\<close>

text \<open>\<open>certificate_pin_prompt_answer\<close> in three parts: the deferral while a worker borrows the login
  data, what is undone before the next prompt starts, and the callbacks after it.\<close>

definition pin_defer :: "nat \<Rightarrow> pin_outcome \<Rightarrow> pin_prompt \<Rightarrow> pin_state \<Rightarrow> pin_state" where
  "pin_defer p outcome pr s =
     (if pp_cancel_deferred pr then s
      else
        let s1 = pin_set p (\<lambda>pr. pr\<lparr>pp_cancel_deferred := True, pp_deferred_outcome := outcome\<rparr>) s
        in if \<not> pp_refresh_in_flight pr then ui_hide p s1 else s1)"

definition pin_finish :: "nat \<Rightarrow> pin_state \<Rightarrow> pin_state" where
  "pin_finish p s =
     ui_close p (pin_set p (\<lambda>pr. pr\<lparr>pp_finished := True, pp_cancel_id := False, pp_cancel_idle := False,
       pp_login_timeout_id := False, pp_secret := None\<rparr>) s)"

definition pin_callbacks :: "nat \<Rightarrow> pin_outcome \<Rightarrow> pin_prompt \<Rightarrow> pin_state \<Rightarrow> pin_state" where
  "pin_callbacks p outcome pr s =
     (let s1 = pin_note (Pin_done p outcome) s
      in if pp_login_succeeded pr \<and> outcome \<noteq> CERTIFICATE_PIN_OK \<and> pp_abandon pr then pin_note (Pin_abandoned p) s1 else s1)"

lemma pin_queue_fields [simp]:
  "ps_queue (pin_note x s) = ps_queue s" "ps_queue (pin_set p f s) = ps_queue s" "ps_queue (ui_close p s) = ps_queue s"
  "ps_queue (pin_finish p s) = ps_queue s"
  by (simp_all add: pin_note_def pin_set_def ui_close_def ui_post_def pin_finish_def split: option.split)

function certificate_pin_prompt_answer :: "pin_env \<Rightarrow> nat \<Rightarrow> pin_outcome \<Rightarrow> pin_state \<Rightarrow> pin_state"
  and pin_prompt_start :: "pin_env \<Rightarrow> nat \<Rightarrow> pin_state \<Rightarrow> pin_state"
  and pin_prompt_show :: "pin_env \<Rightarrow> nat \<Rightarrow> pin_state \<Rightarrow> pin_state" where
  "certificate_pin_prompt_answer e p outcome s =
     (case ps_prompts s p of
        None \<Rightarrow> s
      | Some pr \<Rightarrow>
          if pp_finished pr then s
          else if pp_refresh_in_flight pr \<or> pp_login_in_flight pr then pin_defer p outcome pr s
          else if ps_active s = Some p
          then pin_callbacks p outcome pr
                 (case ps_queue s of
                    [] \<Rightarrow> (pin_finish p s)\<lparr>ps_active := None\<rparr>
                  | q # qs \<Rightarrow> pin_prompt_start e q ((pin_finish p s)\<lparr>ps_active := None, ps_queue := qs\<rparr>))
          else pin_callbacks p outcome pr ((pin_finish p s)\<lparr>ps_queue := remove1 p (ps_queue s)\<rparr>))"
| "pin_prompt_start e p s =
     (case ps_prompts s p of
        None \<Rightarrow> s
      | Some pr \<Rightarrow>
          let s1 = s\<lparr>ps_active := Some p\<rparr>
          in if is_cancelled e p pr then certificate_pin_prompt_answer e p CERTIFICATE_PIN_CANCELLED s1
             else if \<not> pp_refresh pr then pin_prompt_show e p s1
             else pin_note (Refresh_started p) (pin_set p (\<lambda>pr. pr\<lparr>pp_refresh_in_flight := True\<rparr>) s1))"
| "pin_prompt_show e p s =
     (case ps_prompts s p of
        None \<Rightarrow> s
      | Some pr \<Rightarrow>
          if pe_locked e p then certificate_pin_prompt_answer e p CERTIFICATE_PIN_LOCKED s
          else pin_message e p (pin_view_of e p pr XCC_PIN_STATUS_NONE) PIN_SHOW s)"
  by pat_completeness auto
termination
  by (relation "measure (\<lambda>x. case x of
        Inl (e, p, outcome, s) \<Rightarrow> 3 * length (ps_queue s)
      | Inr (Inl (e, p, s)) \<Rightarrow> 3 * length (ps_queue s) + 2
      | Inr (Inr (e, p, s)) \<Rightarrow> 3 * length (ps_queue s) + 1)") auto

declare certificate_pin_prompt_answer.simps [simp del] pin_prompt_start.simps [simp del] pin_prompt_show.simps [simp del]

section \<open>Submitting a PIN\<close>

definition certificate_pin_prompt_final_try_warning :: string where
  "certificate_pin_prompt_final_try_warning =
     ''Token will lock if this last attempt fails. Continue to enter the PIN on the reader, '' @ ''or Cancel.''"

definition certificate_pin_prompt_submit :: "pin_env \<Rightarrow> nat \<Rightarrow> pin_state \<Rightarrow> pin_state" where
  "certificate_pin_prompt_submit e p s =
     (case ps_prompts s p of
        None \<Rightarrow> s
      | Some pr \<Rightarrow>
          if pp_busy pr \<or> pp_finished pr \<or> pp_login_in_flight pr then s
          else if pp_protected_path pr \<and> pe_final_try e p \<and> \<not> pp_protected_path_confirmed pr
          then (if pp_warning_pending pr then s
                else ui_warning p certificate_pin_prompt_final_try_warning (pin_set p (\<lambda>pr. pr\<lparr>pp_warning_pending := True\<rparr>) s))
          else if \<not> pp_protected_path pr \<and> secret_length (pp_secret pr) = 0 then pin_update e p XCC_PIN_STATUS_REQUIRED s
          else
            let s1 = set_busy e p True (pin_set p (\<lambda>pr. pr\<lparr>pp_secret := None, pp_attempts := pp_attempts pr + 1, pp_login_in_flight := True\<rparr>) s);
                s2 = (if pe_login_timeout_seconds e > 0 then pin_set p (\<lambda>pr. pr\<lparr>pp_login_timeout_id := True\<rparr>) s1 else s1)
            in pin_note (Login_started p (if pp_protected_path pr then None else xcc_secret_view (pp_secret pr))) s2)"

definition certificate_pin_prompt_hold :: "pin_env \<Rightarrow> nat \<Rightarrow> xcc_secret option \<Rightarrow> nat \<Rightarrow> pin_state \<Rightarrow> pin_state \<times> bool" where
  "certificate_pin_prompt_hold e p secret len s =
     (case ps_prompts s p of
        None \<Rightarrow> (s, False)
      | Some pr \<Rightarrow>
          if pp_finished pr \<or> pp_login_in_flight pr then (s, False)
          else
            let s1 = pin_set p (\<lambda>pr. pr\<lparr>pp_secret := None\<rparr>) s
            in case secret of
                 None \<Rightarrow> (pin_update e p XCC_PIN_STATUS_MEMORY_UNAVAILABLE s1, False)
               | Some x \<Rightarrow>
                   (case xcc_secret_set_length x len of
                      (y, True) \<Rightarrow> (pin_set p (\<lambda>pr. pr\<lparr>pp_secret := Some y\<rparr>) s1, True)
                    | (y, False) \<Rightarrow>
                        (pin_update e p (if len = 0 then XCC_PIN_STATUS_REQUIRED else XCC_PIN_STATUS_TOO_LONG) s1, False)))"

definition certificate_pin_prompt_ready :: "pin_env \<Rightarrow> nat \<Rightarrow> pin_state \<Rightarrow> pin_state" where
  "certificate_pin_prompt_ready e p s =
     (case ps_prompts s p of
        None \<Rightarrow> s
      | Some pr \<Rightarrow> if pp_finished pr then s else if pp_protected_path pr then certificate_pin_prompt_submit e p s else s)"

definition certificate_pin_prompt_warning_reply :: "pin_env \<Rightarrow> nat \<Rightarrow> bool \<Rightarrow> pin_state \<Rightarrow> pin_state" where
  "certificate_pin_prompt_warning_reply e p accepted s =
     (case ps_prompts s p of
        None \<Rightarrow> s
      | Some pr \<Rightarrow>
          if \<not> pp_protected_path pr \<or> pp_finished pr \<or> pp_login_in_flight pr \<or> \<not> pp_warning_pending pr then s
          else
            let s1 = pin_set p (\<lambda>pr. pr\<lparr>pp_warning_pending := False\<rparr>) s
            in if \<not> accepted then certificate_pin_prompt_answer e p CERTIFICATE_PIN_CANCELLED s1
               else certificate_pin_prompt_submit e p (pin_set p (\<lambda>pr. pr\<lparr>pp_protected_path_confirmed := True\<rparr>) s1))"

text \<open>\<open>pin-format.c\<close>: the other words of a prompt.\<close>

definition certificate_pin_prompt_retry_hint :: "pin_view \<Rightarrow> string option" where
  "certificate_pin_prompt_retry_hint v =
     (if pv_locked v then Some ''This token is locked. It cannot be unlocked here.''
      else if pv_final_try v then Some ''This is the last attempt before the token locks.''
      else if pv_count_low v then Some ''There have been recent failed attempts on this token.''
      else None)"

definition certificate_pin_prompt_heading :: "pin_prompt \<Rightarrow> string" where
  "certificate_pin_prompt_heading pr =
     (if pp_protected_path pr then ''Enter your PIN on the reader'' else ''Enter your PIN to unlock this token'')"

section \<open>Workers, timeouts and cancellation\<close>

text \<open>\<open>c\<close> names the prompt whose \<open>GCancellable\<close> it is, and \<open>cancelled\<close> reads it.\<close>

definition certificate_pin_login_is_cancelling :: "bool \<Rightarrow> nat \<Rightarrow> pin_state \<Rightarrow> bool" where
  "certificate_pin_login_is_cancelling cancelled c s \<longleftrightarrow> cancelled \<or>
     (ps_active s = Some c \<and> (case ps_prompts s c of None \<Rightarrow> False | Some pr \<Rightarrow> pp_cancel_deferred pr))"

text \<open>\<open>login_thread\<close>: whether the flags of the token are refreshed after the login.\<close>

definition login_refreshes :: "pin_prompt \<Rightarrow> pkcs11_error + unit \<Rightarrow> bool" where
  "login_refreshes pr r \<longleftrightarrow> pp_refresh pr \<and> (r = Inr () \<or> r = Inl CERTIFICATE_PKCS11_ERROR_PIN_INCORRECT)"

definition on_login_done :: "pin_env \<Rightarrow> nat \<Rightarrow> pkcs11_error + unit \<Rightarrow> pin_state \<Rightarrow> pin_state" where
  "on_login_done e p result s =
     (case ps_prompts s p of
        None \<Rightarrow> s
      | Some pr \<Rightarrow>
          let ok = (result = Inr ());
              s1 = pin_set p (\<lambda>pr. pr\<lparr>pp_login_in_flight := False, pp_login_timeout_id := False,
                     pp_login_succeeded := (ok \<or> pp_login_succeeded pr)\<rparr>) s
          in if pp_cancel_deferred pr
             then certificate_pin_prompt_answer e p (pp_deferred_outcome pr) (pin_set p (\<lambda>pr. pr\<lparr>pp_cancel_deferred := False\<rparr>) s1)
             else if pp_finished pr then s1
             else (case result of
                 Inr _ \<Rightarrow> certificate_pin_prompt_answer e p CERTIFICATE_PIN_OK s1
               | Inl err \<Rightarrow>
                   (let s2 = set_busy e p False s1
                    in if err = CERTIFICATE_PKCS11_ERROR_CANCELLED then certificate_pin_prompt_answer e p CERTIFICATE_PIN_CANCELLED s2
                       else if err = CERTIFICATE_PKCS11_ERROR_PIN_INCORRECT then
                         (if pe_locked e p then certificate_pin_prompt_answer e p CERTIFICATE_PIN_LOCKED s2
                          else if pp_protected_path pr then certificate_pin_prompt_answer e p CERTIFICATE_PIN_INCORRECT s2
                          else if pp_attempts pr \<ge> PIN_MAX_ATTEMPTS then certificate_pin_prompt_answer e p CERTIFICATE_PIN_INCORRECT s2
                          else pin_update e p XCC_PIN_STATUS_INCORRECT (pin_set p (\<lambda>pr. pr\<lparr>pp_secret := None\<rparr>) s2))
                       else if err = CERTIFICATE_PKCS11_ERROR_PIN_LOCKED then certificate_pin_prompt_answer e p CERTIFICATE_PIN_LOCKED s2
                       else if err = CERTIFICATE_PKCS11_ERROR_TOKEN_REMOVED then certificate_pin_prompt_answer e p CERTIFICATE_PIN_TOKEN_REMOVED s2
                       else certificate_pin_prompt_answer e p CERTIFICATE_PIN_DEVICE_ERROR s2)))"

definition on_login_timeout :: "pin_env \<Rightarrow> nat \<Rightarrow> pin_state \<Rightarrow> pin_state" where
  "on_login_timeout e p s =
     (case ps_prompts s p of
        None \<Rightarrow> s
      | Some pr \<Rightarrow>
          let s1 = pin_set p (\<lambda>pr. pr\<lparr>pp_login_timeout_id := False\<rparr>) s
          in if \<not> pp_login_in_flight pr then s1 else certificate_pin_prompt_answer e p CERTIFICATE_PIN_TIMED_OUT s1)"

definition pin_on_cancelled :: "nat \<Rightarrow> pin_state \<Rightarrow> pin_state" where
  "pin_on_cancelled p s = pin_set p (\<lambda>pr. pr\<lparr>pp_cancel_idle := True\<rparr>) s"

definition pin_on_cancelled_idle :: "pin_env \<Rightarrow> nat \<Rightarrow> pin_state \<Rightarrow> pin_state" where
  "pin_on_cancelled_idle e p s =
     certificate_pin_prompt_answer e p CERTIFICATE_PIN_CANCELLED (pin_set p (\<lambda>pr. pr\<lparr>pp_cancel_idle := False\<rparr>) s)"

definition on_refresh_done :: "pin_env \<Rightarrow> nat \<Rightarrow> pin_state \<Rightarrow> pin_state" where
  "on_refresh_done e p s =
     (case ps_prompts s p of
        None \<Rightarrow> s
      | Some pr \<Rightarrow>
          let s1 = pin_set p (\<lambda>pr. pr\<lparr>pp_refresh_in_flight := False\<rparr>) s
          in if pp_cancel_deferred pr
             then certificate_pin_prompt_answer e p (pp_deferred_outcome pr) (pin_set p (\<lambda>pr. pr\<lparr>pp_cancel_deferred := False\<rparr>) s1)
             else if is_cancelled e p pr then certificate_pin_prompt_answer e p CERTIFICATE_PIN_CANCELLED s1
             else if \<not> pp_finished pr then pin_prompt_show e p s1
             else s1)"

record pin_request =
  pr_token :: certificate_token
  pr_context_specific :: bool
  pr_parent_window :: "string option"
  pr_caller_display :: "string option"
  pr_purpose_display :: "string option"
  pr_refresh :: bool
  pr_abandon :: bool
  pr_cancellable :: bool

definition pin_prompt_new :: "pin_request \<Rightarrow> pin_prompt" where
  "pin_prompt_new r =
     \<lparr>pp_token = pr_token r, pp_context_specific = pr_context_specific r, pp_parent_window = pr_parent_window r,
      pp_caller_display = pr_caller_display r, pp_purpose_display = pr_purpose_display r, pp_refresh = pr_refresh r,
      pp_abandon = pr_abandon r, pp_cancellable = pr_cancellable r, pp_cancel_id = False,
      pp_protected_path = tk_protected_authentication_path (pr_token r), pp_finished = False, pp_busy = False,
      pp_refresh_in_flight = False, pp_login_in_flight = False, pp_cancel_deferred = False,
      pp_deferred_outcome = CERTIFICATE_PIN_OK, pp_login_succeeded = False, pp_secret = None, pp_cancel_idle = False,
      pp_login_timeout_id = False, pp_attempts = 0, pp_protected_path_confirmed = False, pp_warning_pending = False\<rparr>"

definition certificate_pin_login_full_kind :: "pin_env \<Rightarrow> pin_request \<Rightarrow> pin_state \<Rightarrow> pin_state" where
  "certificate_pin_login_full_kind e r s =
     (if \<not> pe_provider e \<or> (pe_needs_display e \<and> \<not> pe_has_display e) then pin_note Pin_no_display s
      else
        let p = ps_next s;
            pr = pin_prompt_new r;
            s1 = s\<lparr>ps_next := p + 1, ps_prompts := (ps_prompts s)(p \<mapsto> pr)\<rparr>;
            s2 = (if is_cancelled e p pr then pin_on_cancelled p s1 else pin_set p (\<lambda>pr. pr\<lparr>pp_cancel_id := pp_cancellable pr\<rparr>) s1)
        in if ps_active s2 \<noteq> None then s2\<lparr>ps_queue := ps_queue s2 @ [p]\<rparr> else pin_prompt_start e p s2)"

text \<open>An entry of \<open>reply\<close> for the interaction of a prompt.\<close>

datatype pin_reply = Reply_submit "xcc_secret option" | Reply_warning nat bool | Reply_cancel | Reply_failed "bool" | Reply_ready

definition ui_reply :: "pin_env \<Rightarrow> nat \<Rightarrow> pin_reply \<Rightarrow> pin_state \<Rightarrow> pin_state" where
  "ui_reply e k r s =
     (case map_of (ps_interactions s) k of
        None \<Rightarrow> s
      | Some i \<Rightarrow>
          (case ps_prompts s (in_prompt i) of
             None \<Rightarrow> s
           | Some pr \<Rightarrow>
               let p = in_prompt i
               in case r of
                    Reply_submit secret \<Rightarrow>
                      if pp_finished pr \<or> pp_cancel_deferred pr \<or> pp_busy pr \<or> pp_login_in_flight pr \<or> \<not> in_ready i then s
                      else if pp_protected_path pr then certificate_pin_prompt_submit e p s
                      else if secret = None then s
                      else (case certificate_pin_prompt_hold e p secret (secret_length secret) s of
                          (s1, True) \<Rightarrow> certificate_pin_prompt_submit e p s1
                        | (s1, False) \<Rightarrow> s1)
                  | Reply_warning w accepted \<Rightarrow>
                      if w = in_warning_id i \<and> pp_warning_pending pr then certificate_pin_prompt_warning_reply e p accepted s else s
                  | Reply_ready \<Rightarrow>
                      if \<not> in_ready i \<and> \<not> pp_finished pr \<and> \<not> is_cancelled e p pr
                      then (let s1 = ui_update k (\<lambda>i. i\<lparr>in_ready := True\<rparr>) s
                            in if pp_protected_path pr then certificate_pin_prompt_submit e p s1 else s1)
                      else s
                  | Reply_cancel \<Rightarrow> certificate_pin_prompt_answer e p CERTIFICATE_PIN_CANCELLED s
                  | Reply_failed no_display \<Rightarrow>
                      certificate_pin_prompt_answer e p (if no_display then CERTIFICATE_PIN_NO_DISPLAY else CERTIFICATE_PIN_DEVICE_ERROR) s))"

section \<open>The system\<close>

datatype pin_event = Ev_login pin_request | Ev_refresh_done nat | Ev_login_done nat "pkcs11_error + unit" | Ev_login_timeout nat
  | Ev_cancel_signal nat | Ev_cancel_idle nat | Ev_reply nat pin_reply

text \<open>A worker that was started ends once, with any result; a timeout, an idle source and the handler of a
  \<open>GCancellable\<close> run only while they exist; windows may answer anything at any time.\<close>

inductive pin_step :: "pin_state \<Rightarrow> pin_env \<times> pin_event \<Rightarrow> pin_state \<Rightarrow> bool" where
  step_login: "pin_step s (e, Ev_login r) (certificate_pin_login_full_kind e r s)"
| step_refresh_done: "\<lbrakk>ps_prompts s p = Some pr; pp_refresh_in_flight pr\<rbrakk> \<Longrightarrow> pin_step s (e, Ev_refresh_done p) (on_refresh_done e p s)"
| step_login_done: "\<lbrakk>ps_prompts s p = Some pr; pp_login_in_flight pr\<rbrakk> \<Longrightarrow> pin_step s (e, Ev_login_done p r) (on_login_done e p r s)"
| step_login_timeout: "\<lbrakk>ps_prompts s p = Some pr; pp_login_timeout_id pr\<rbrakk> \<Longrightarrow> pin_step s (e, Ev_login_timeout p) (on_login_timeout e p s)"
| step_signal: "\<lbrakk>ps_prompts s p = Some pr; pp_cancel_id pr\<rbrakk> \<Longrightarrow> pin_step s (e, Ev_cancel_signal p) (pin_on_cancelled p s)"
| step_idle: "\<lbrakk>ps_prompts s p = Some pr; pp_cancel_idle pr\<rbrakk> \<Longrightarrow> pin_step s (e, Ev_cancel_idle p) (pin_on_cancelled_idle e p s)"
| step_reply: "pin_step s (e, Ev_reply k r) (ui_reply e k r s)"

inductive_cases pin_stepE: "pin_step s l t"

end
