(* ===== verification/PinProps.thy ===== *)
theory PinProps
  imports PinCore
begin

text \<open>
  What the PIN dialogue guarantees in every reachable state (\<open>PinCore\<close>).  The invariant says of each
  prompt what its entries in the log are, in order; of the queue, that the unanswered prompts are the
  active one and those behind it; of the windows, that the active prompt is being refreshed or has an
  interaction through which it can be answered.  \<open>answer\<close>, \<open>start\<close> and \<open>show\<close> call each other along the
  queue: the invariant has a set of prompts that are finished and whose callback is still to come,
  and one prompt exempt from the clauses that hold between steps only.
\<close>

section \<open>The entries of a prompt\<close>

fun concerns :: "nat \<Rightarrow> pin_effect \<Rightarrow> bool" where
  "concerns p (Login_started q pin) = (p = q)"
| "concerns p (Pin_done q outcome) = (p = q)"
| "concerns p (Pin_abandoned q) = (p = q)"
| "concerns p x = False"

definition entries :: "nat \<Rightarrow> pin_state \<Rightarrow> pin_effect list" where
  "entries p s = filter (concerns p) (ps_log s)"

text \<open>What may be given to a token: nothing where the reader collects the PIN, else a C string of 1 to 511 octets.\<close>

definition pin_given :: "bool \<Rightarrow> bytes option \<Rightarrow> bool" where
  "pin_given protected pin =
     (case pin of
        None \<Rightarrow> protected
      | Some cs \<Rightarrow> \<not> protected \<and> 0 < length cs \<and> length cs \<le> 511 \<and> 0 \<notin> set cs)"

text \<open>The end of a prompt: its callback, and after it the undoing of a login nobody wants.\<close>

definition pin_closing :: "nat \<Rightarrow> pin_prompt \<Rightarrow> pin_outcome \<Rightarrow> pin_effect list" where
  "pin_closing p pr outcome =
     (if pp_login_succeeded pr \<and> outcome \<noteq> CERTIFICATE_PIN_OK \<and> pp_abandon pr then [Pin_abandoned p] else []) @ [Pin_done p outcome]"

definition entries_ok :: "pin_effect list \<Rightarrow> bool \<Rightarrow> nat \<Rightarrow> pin_prompt \<Rightarrow> bool" where
  "entries_ok es pending p pr \<longleftrightarrow>
     (\<exists>pins closing. es = closing @ map (Login_started p) pins \<and> length pins = pp_attempts pr \<and>
        list_all (pin_given (pp_protected_path pr)) pins \<and>
        (if pp_finished pr \<and> \<not> pending
         then \<exists>outcome. closing = pin_closing p pr outcome \<and> (outcome = CERTIFICATE_PIN_OK \<longrightarrow> pp_login_succeeded pr)
         else closing = []))"

definition secret_ok :: "xcc_secret option \<Rightarrow> bool" where
  "secret_ok secret =
     (case secret of
        None \<Rightarrow> True
      | Some x \<Rightarrow> 0 < sx_length x \<and> sx_length x \<le> 511 \<and> sx_length x < length (sx_data x) \<and>
          0 \<notin> set (take (sx_length x) (sx_data x)) \<and> sx_data x ! sx_length x = 0)"

definition flags_ok :: "bool \<Rightarrow> pin_prompt \<Rightarrow> bool" where
  "flags_ok exempt pr \<longleftrightarrow>
     (pp_finished pr \<longrightarrow> \<not> pp_refresh_in_flight pr \<and> \<not> pp_login_in_flight pr \<and> \<not> pp_cancel_id pr \<and> \<not> pp_cancel_idle pr \<and>
        \<not> pp_login_timeout_id pr \<and> pp_secret pr = None) \<and>
     \<not> (pp_refresh_in_flight pr \<and> pp_login_in_flight pr) \<and>
     (pp_cancel_deferred pr \<longrightarrow> (pp_refresh_in_flight pr \<or> pp_login_in_flight pr) \<and> pp_deferred_outcome pr \<noteq> CERTIFICATE_PIN_OK) \<and>
     (pp_login_timeout_id pr \<longrightarrow> pp_login_in_flight pr) \<and>
     pp_attempts pr \<le> PIN_MAX_ATTEMPTS \<and> (pp_protected_path pr \<longrightarrow> pp_attempts pr \<le> 1) \<and>
     (\<not> exempt \<and> \<not> pp_finished pr \<and> \<not> pp_login_in_flight pr \<longrightarrow>
        pp_attempts pr < PIN_MAX_ATTEMPTS \<and> (pp_protected_path pr \<longrightarrow> pp_attempts pr = 0)) \<and>
     (\<not> exempt \<and> \<not> pp_finished pr \<longrightarrow> \<not> pp_login_succeeded pr) \<and>
     (\<not> exempt \<and> pp_busy pr \<longrightarrow> pp_finished pr \<or> pp_login_in_flight pr) \<and>
     secret_ok (pp_secret pr)"

definition waiting :: "pin_prompt \<Rightarrow> bool" where
  "waiting pr \<longleftrightarrow> \<not> pp_refresh_in_flight pr \<and> \<not> pp_login_in_flight pr"

section \<open>The invariant\<close>

definition prompts_ok :: "pin_state \<Rightarrow> nat set \<Rightarrow> nat set \<Rightarrow> bool" where
  "prompts_ok s D X \<longleftrightarrow>
     (\<forall>p. case ps_prompts s p of
            None \<Rightarrow> entries p s = []
          | Some pr \<Rightarrow> p < ps_next s \<and> flags_ok (p \<in> X) pr \<and> entries_ok (entries p s) (p \<in> D) p pr \<and>
                (p \<in> D \<longrightarrow> pp_finished pr))"

definition queue_ok :: "pin_state \<Rightarrow> nat option \<Rightarrow> bool" where
  "queue_ok s U \<longleftrightarrow>
     (\<forall>p. p \<in> set (ps_queue s) \<or> U = Some p \<longleftrightarrow> (\<exists>pr. ps_prompts s p = Some pr \<and> \<not> pp_finished pr)) \<and>
     (\<forall>p pr. p \<in> set (ps_queue s) \<longrightarrow> ps_prompts s p = Some pr \<longrightarrow> waiting pr) \<and>
     distinct (ps_queue s) \<and> (\<forall>p. U = Some p \<longrightarrow> p \<notin> set (ps_queue s)) \<and> (U = None \<longrightarrow> ps_queue s = [])"

definition windows_ok :: "pin_state \<Rightarrow> bool" where
  "windows_ok s \<longleftrightarrow> distinct (map fst (ps_interactions s)) \<and> (\<forall>k\<in>set (map fst (ps_interactions s)). k \<le> ps_next_ui_id s)"

definition reachable_window :: "pin_state \<Rightarrow> bool" where
  "reachable_window s \<longleftrightarrow>
     (\<forall>p pr. ps_active s = Some p \<longrightarrow> ps_prompts s p = Some pr \<longrightarrow> pp_refresh_in_flight pr \<or> ui_find p s \<noteq> None)"

text \<open>Only prompts that have left the queue, and whose token is not being refreshed, have a window.\<close>

definition unqueued :: "pin_state \<Rightarrow> bool" where
  "unqueued s \<longleftrightarrow> (\<forall>p. ui_find p s \<noteq> None \<longrightarrow> p \<notin> set (ps_queue s) \<and> p < ps_next s \<and>
     (\<forall>pr. ps_prompts s p = Some pr \<longrightarrow> \<not> pp_refresh_in_flight pr))"

definition pin_ok :: "pin_state \<Rightarrow> nat set \<Rightarrow> nat set \<Rightarrow> nat option \<Rightarrow> bool" where
  "pin_ok s D X U \<longleftrightarrow> prompts_ok s D X \<and> queue_ok s U \<and> windows_ok s"

definition pin_inv :: "pin_state \<Rightarrow> bool" where
  "pin_inv s \<longleftrightarrow> pin_ok s {} {} (ps_active s) \<and> reachable_window s \<and> unqueued s"

lemma pin_ok_fields [simp]:
  "prompts_ok (s\<lparr>ps_active := a\<rparr>) D X = prompts_ok s D X" "prompts_ok (s\<lparr>ps_queue := q\<rparr>) D X = prompts_ok s D X"
  "queue_ok (s\<lparr>ps_active := a\<rparr>) U = queue_ok s U"
  unfolding prompts_ok_def queue_ok_def by (simp_all add: entries_def cong: option.case_cong)

section \<open>What the parts leave alone\<close>

text \<open>Posting to the windows changes only interactions and the log, where it adds no entry of a prompt.\<close>

definition ui_only :: "pin_state \<Rightarrow> pin_state \<Rightarrow> bool" where
  "ui_only s t \<longleftrightarrow> ps_prompts t = ps_prompts s \<and> ps_next t = ps_next s \<and> ps_queue t = ps_queue s \<and> ps_active t = ps_active s \<and>
     (\<forall>p. entries p t = entries p s) \<and> (windows_ok s \<longrightarrow> windows_ok t)"

lemma ui_only_refl: "ui_only s s"
  by (simp add: ui_only_def)

lemma ui_only_trans: "ui_only s t \<Longrightarrow> ui_only t u \<Longrightarrow> ui_only s u"
  by (simp add: ui_only_def)

lemma ui_only_post: "ui_only s (ui_post k c s)"
  by (simp add: ui_only_def ui_post_def pin_note_def entries_def windows_ok_def)

lemma ui_only_update: "ui_only s (ui_update k f s)"
proof -
  have "map fst (map (\<lambda>(j, i). (j, if j = k then f i else i)) xs) = map fst xs" for xs
    by (induction xs) auto
  then have "map fst (ps_interactions (ui_update k f s)) = map fst (ps_interactions s)"
    by (simp add: ui_update_def)
  moreover have "ps_next_ui_id (ui_update k f s) = ps_next_ui_id s" by (simp add: ui_update_def)
  ultimately have "windows_ok (ui_update k f s) = windows_ok s" by (simp only: windows_ok_def)
  then show ?thesis by (simp add: ui_only_def ui_update_def entries_def)
qed

lemma ui_only_interaction: "ui_only s (fst (ui_interaction p s))"
  by (auto simp: ui_only_def ui_interaction_def entries_def windows_ok_def Let_def split: option.split)

lemma ui_only_close: "ui_only s (ui_close p s)"
proof -
  have "ui_only t (t\<lparr>ps_interactions := filter (\<lambda>(j, i). j \<noteq> k) (ps_interactions t)\<rparr>)" for t k
    by (auto simp: ui_only_def entries_def windows_ok_def distinct_map_filter)
  note drop = this
  have "ui_only s (ui_post k CLOSE s\<lparr>ps_interactions := filter (\<lambda>(j, i). j \<noteq> k) (ps_interactions s)\<rparr>)" for k
    using ui_only_trans [OF ui_only_post drop [of "ui_post k CLOSE s" k]] by (simp add: ui_post_def pin_note_def)
  with drop show ?thesis
    unfolding ui_close_def by (auto split: option.split intro: ui_only_refl)
qed

lemma ui_only_hide: "ui_only s (ui_hide p s)"
  by (auto simp: ui_hide_def intro: ui_only_refl ui_only_post split: option.split)

lemma ui_only_message: "ui_only s (pin_message e p v call s)"
  using ui_only_interaction [of s p]
  by (auto simp: pin_message_def Let_def split: prod.split
      intro: ui_only_trans [OF ui_only_trans, OF _ ui_only_update ui_only_post])

lemma ui_only_warning: "ui_only s (ui_warning p m s)"
  using ui_only_interaction [of s p]
  by (auto simp: ui_warning_def Let_def split: prod.split
      intro: ui_only_trans [OF ui_only_trans, OF _ ui_only_update ui_only_post])

lemma ui_only_pin_update: "ui_only s (pin_update e p st s)"
  by (auto simp: pin_update_def intro: ui_only_refl ui_only_message split: option.split)

lemmas ui_only_ops = ui_only_post ui_only_update ui_only_close ui_only_hide ui_only_message ui_only_warning ui_only_pin_update

lemma ui_onlyD:
  assumes "ui_only s t"
  shows "ps_prompts t = ps_prompts s" "ps_next t = ps_next s" "ps_queue t = ps_queue s" "ps_active t = ps_active s"
    "entries p t = entries p s" "pin_ok s D X U \<Longrightarrow> pin_ok t D X U"
  using assms by (auto simp: ui_only_def pin_ok_def prompts_ok_def queue_ok_def cong: option.case_cong)

lemmas ui_fields [simp] = ui_only_ops [THEN ui_onlyD(1)] ui_only_ops [THEN ui_onlyD(2)] ui_only_ops [THEN ui_onlyD(3)]
  ui_only_ops [THEN ui_onlyD(4)] ui_only_ops [THEN ui_onlyD(5)]

lemma prompts_okD:
  assumes "prompts_ok s D X" "ps_prompts s p = Some pr"
  shows "p < ps_next s" "flags_ok (p \<in> X) pr" "entries_ok (entries p s) (p \<in> D) p pr" "p \<in> D \<Longrightarrow> pp_finished pr"
  using assms unfolding prompts_ok_def by (auto split: option.splits dest: spec [of _ p])

lemma prompts_ok_none: "prompts_ok s D X \<Longrightarrow> ps_prompts s p = None \<Longrightarrow> entries p s = []"
  unfolding prompts_ok_def by (auto split: option.splits dest: spec [of _ p])

lemma prompts_okI:
  assumes "\<And>p. ps_prompts s p = None \<Longrightarrow> entries p s = []"
    and "\<And>p pr. ps_prompts s p = Some pr \<Longrightarrow> p < ps_next s \<and> flags_ok (p \<in> X) pr \<and> entries_ok (entries p s) (p \<in> D) p pr \<and>
      (p \<in> D \<longrightarrow> pp_finished pr)"
  shows "prompts_ok s D X"
  using assms unfolding prompts_ok_def by (auto split: option.split)

lemma pin_set_fields [simp]:
  "ps_prompts (pin_set p f s) = (ps_prompts s)(p := map_option f (ps_prompts s p))" "ps_next (pin_set p f s) = ps_next s"
  "ps_active (pin_set p f s) = ps_active s" "ps_log (pin_set p f s) = ps_log s" "ps_interactions (pin_set p f s) = ps_interactions s"
  "ps_next_ui_id (pin_set p f s) = ps_next_ui_id s" "entries q (pin_set p f s) = entries q s" "windows_ok (pin_set p f s) = windows_ok s"
  "ui_find q (pin_set p f s) = ui_find q s"
  by (simp_all add: pin_set_def entries_def windows_ok_def ui_find_def)

lemma pin_note_fields [simp]:
  "ps_prompts (pin_note x s) = ps_prompts s" "ps_next (pin_note x s) = ps_next s" "ps_active (pin_note x s) = ps_active s"
  "ps_interactions (pin_note x s) = ps_interactions s" "ps_next_ui_id (pin_note x s) = ps_next_ui_id s"
  "entries p (pin_note x s) = (if concerns p x then x # entries p s else entries p s)" "windows_ok (pin_note x s) = windows_ok s"
  "ui_find p (pin_note x s) = ui_find p s"
  by (simp_all add: pin_note_def entries_def windows_ok_def ui_find_def)

lemma entries_update [simp]:
  "entries p (s\<lparr>ps_active := a\<rparr>) = entries p s" "entries p (s\<lparr>ps_queue := q\<rparr>) = entries p s"
  "windows_ok (s\<lparr>ps_active := a\<rparr>) = windows_ok s" "windows_ok (s\<lparr>ps_queue := q\<rparr>) = windows_ok s"
  "ui_find p (s\<lparr>ps_active := a\<rparr>) = ui_find p s" "ui_find p (s\<lparr>ps_queue := q\<rparr>) = ui_find p s"
  by (simp_all add: entries_def windows_ok_def ui_find_def)

text \<open>A change of one prompt that its entries do not show.\<close>

lemma entries_ok_same:
  assumes "entries_ok es b p pr" "pp_attempts pr' = pp_attempts pr" "pp_protected_path pr' = pp_protected_path pr"
    "pp_finished pr' = pp_finished pr" "pp_finished pr \<and> \<not> b \<longrightarrow> pp_login_succeeded pr' = pp_login_succeeded pr"
    "pp_abandon pr' = pp_abandon pr"
  shows "entries_ok es b p pr'"
  using assms unfolding entries_ok_def pin_closing_def by (auto split: if_splits)

lemma pin_set_ok:
  assumes ok: "pin_ok s D X U" and pr: "ps_prompts s p = Some pr"
    and "flags_ok (p \<in> Y) (f pr)" "entries_ok (entries p s) (p \<in> D) p (f pr)" "pp_finished (f pr) = pp_finished pr"
    and "p \<in> set (ps_queue s) \<Longrightarrow> waiting (f pr)" "Y - {p} = X - {p}"
  shows "pin_ok (pin_set p f s) D Y U"
proof -
  have mem: "q \<in> Y \<longleftrightarrow> q \<in> X" if "q \<noteq> p" for q using assms(7) that by blast
  have "prompts_ok (pin_set p f s) D Y"
  proof (rule prompts_okI)
    fix q pr' assume "ps_prompts (pin_set p f s) q = Some pr'"
    then show "q < ps_next (pin_set p f s) \<and> flags_ok (q \<in> Y) pr' \<and> entries_ok (entries q (pin_set p f s)) (q \<in> D) q pr' \<and>
        (q \<in> D \<longrightarrow> pp_finished pr')"
      using ok pr assms(3-5) prompts_okD [of s D X q] mem [of q] by (auto simp: pin_ok_def split: if_splits)
  qed (use ok pr prompts_ok_none in \<open>auto simp: pin_ok_def split: if_splits\<close>)
  moreover have "queue_ok (pin_set p f s) U"
    using ok pr assms(5,6) unfolding pin_ok_def queue_ok_def by (auto split: if_splits)
  ultimately show ?thesis using ok by (simp add: pin_ok_def)
qed

lemma pin_finish_fields [simp]:
  "ps_active (pin_finish p s) = ps_active s" "ps_next (pin_finish p s) = ps_next s" "entries q (pin_finish p s) = entries q s"
  "windows_ok s \<Longrightarrow> windows_ok (pin_finish p s)"
  using ui_only_close [of _ p] by (auto simp: pin_finish_def ui_only_def)

lemma pin_finish_prompts:
  "ps_prompts (pin_finish p s) = (ps_prompts s)(p := map_option (\<lambda>pr. pr\<lparr>pp_finished := True, pp_cancel_id := False,
     pp_cancel_idle := False, pp_login_timeout_id := False, pp_secret := None\<rparr>) (ps_prompts s p))"
  by (simp add: pin_finish_def)

text \<open>A prompt that waits for nobody is finished: it leaves the screen or the queue, its callback is due.\<close>

lemma pin_finish_ok:
  assumes ok: "pin_ok s D X (ps_active s)" and X: "X \<subseteq> {p}" and pr: "ps_prompts s p = Some pr" "\<not> pp_finished pr" "waiting pr" and D: "p \<notin> D"
  shows "prompts_ok (pin_finish p s) (insert p D) {}"
    "\<And>q. q \<noteq> p \<Longrightarrow> (\<exists>pr. ps_prompts (pin_finish p s) q = Some pr \<and> \<not> pp_finished pr) \<longleftrightarrow> q \<in> set (ps_queue s) \<or> ps_active s = Some q"
    "\<not> (\<exists>pr. ps_prompts (pin_finish p s) p = Some pr \<and> \<not> pp_finished pr)"
proof -
  have ps: "prompts_ok s D X" "queue_ok s (ps_active s)" using ok by (auto simp: pin_ok_def)
  let ?pr = "pr\<lparr>pp_finished := True, pp_cancel_id := False, pp_cancel_idle := False, pp_login_timeout_id := False, pp_secret := None\<rparr>"
  have f: "flags_ok False ?pr"
    using prompts_okD(2) [OF ps(1) pr(1)] pr(3) by (auto simp: flags_ok_def waiting_def secret_ok_def)
  have e: "entries_ok (entries p s) True p ?pr"
    using prompts_okD(3) [OF ps(1) pr(1)] pr(2) D by (auto simp: entries_ok_def)
  have x: "q \<notin> X" if "q \<noteq> p" for q using X that by blast
  show "prompts_ok (pin_finish p s) (insert p D) {}"
  proof (rule prompts_okI)
    fix q pr' assume q: "ps_prompts (pin_finish p s) q = Some pr'"
    show "q < ps_next (pin_finish p s) \<and> flags_ok (q \<in> {}) pr' \<and> entries_ok (entries q (pin_finish p s)) (q \<in> insert p D) q pr' \<and>
        (q \<in> insert p D \<longrightarrow> pp_finished pr')"
    proof (cases "q = p")
      case True
      with q pr f e prompts_okD(1) [OF ps(1) pr(1)] show ?thesis by (auto simp: pin_finish_prompts)
    next
      case False
      with q prompts_okD [OF ps(1), of q] x [OF False] show ?thesis by (simp add: pin_finish_prompts)
    qed
  qed (use pr prompts_ok_none [OF ps(1)] in \<open>auto simp: pin_finish_prompts split: if_splits\<close>)
  show "(\<exists>pr. ps_prompts (pin_finish p s) q = Some pr \<and> \<not> pp_finished pr) \<longleftrightarrow> q \<in> set (ps_queue s) \<or> ps_active s = Some q"
    if "q \<noteq> p" for q
    using ps(2) that by (simp add: queue_ok_def pin_finish_prompts)
  show "\<not> (\<exists>pr. ps_prompts (pin_finish p s) p = Some pr \<and> \<not> pp_finished pr)"
    using pr by (simp add: pin_finish_prompts)
qed

lemma pin_callbacks_fields [simp]:
  "ps_prompts (pin_callbacks p out pr s) = ps_prompts s" "ps_next (pin_callbacks p out pr s) = ps_next s"
  "ps_queue (pin_callbacks p out pr s) = ps_queue s" "ps_active (pin_callbacks p out pr s) = ps_active s"
  "windows_ok (pin_callbacks p out pr s) = windows_ok s" "ui_find q (pin_callbacks p out pr s) = ui_find q s"
  "entries q (pin_callbacks p out pr s) = (if q = p then pin_closing p pr out else []) @ entries q s"
  by (auto simp: pin_callbacks_def Let_def pin_closing_def)

lemma pin_callbacks_ok:
  assumes ok: "pin_ok s (insert p D) {} U" and p: "ps_prompts s p = Some pr'" "pp_finished pr'" "p \<notin> D"
    and pr: "pp_login_succeeded pr = pp_login_succeeded pr'" "pp_abandon pr = pp_abandon pr'"
    and outcome: "out = CERTIFICATE_PIN_OK \<longrightarrow> pp_login_succeeded pr"
  shows "pin_ok (pin_callbacks p out pr s) D {} U"
proof -
  have ps: "prompts_ok s (insert p D) {}" using ok by (simp add: pin_ok_def)
  have "prompts_ok (pin_callbacks p out pr s) D {}"
  proof (rule prompts_okI)
    fix q pr2 assume q: "ps_prompts (pin_callbacks p out pr s) q = Some pr2"
    have a: "q < ps_next s" "flags_ok False pr2" "entries_ok (entries q s) (q \<in> insert p D) q pr2"
      using prompts_okD [OF ps, of q pr2] q by auto
    show "q < ps_next (pin_callbacks p out pr s) \<and> flags_ok (q \<in> {}) pr2 \<and>
        entries_ok (entries q (pin_callbacks p out pr s)) (q \<in> D) q pr2 \<and> (q \<in> D \<longrightarrow> pp_finished pr2)"
    proof (cases "q = p")
      case True
      with q p(1) have eq: "pr2 = pr'" by simp
      from a(3) True obtain pins where pins: "entries p s = map (Login_started p) pins" "length pins = pp_attempts pr2"
        "list_all (pin_given (pp_protected_path pr2)) pins"
        by (auto simp: entries_ok_def)
      have "pin_closing p pr out = pin_closing p pr2 out" using pr eq by (simp add: pin_closing_def)
      with pins have "entries_ok (pin_closing p pr out @ entries p s) False p pr2"
        unfolding entries_ok_def using p(2) pr(1) outcome eq
        by (intro exI [of _ pins] exI [of _ "pin_closing p pr2 out"]) auto
      with True a p show ?thesis by simp
    next
      case False
      with a q prompts_okD(4) [OF ps, of q pr2] show ?thesis by auto
    qed
  qed (use prompts_ok_none [OF ps] p in auto)
  then show ?thesis using ok by (auto simp: pin_ok_def queue_ok_def)
qed

section \<open>Answering, starting and showing\<close>

definition settled :: "pin_state \<Rightarrow> pin_state \<Rightarrow> nat set \<Rightarrow> bool" where
  "settled s t D \<longleftrightarrow> pin_ok t D {} (ps_active t) \<and> reachable_window t \<and> unqueued t \<and> dom (ps_prompts t) = dom (ps_prompts s) \<and>
     (\<forall>d pr. ps_prompts s d = Some pr \<longrightarrow> pp_finished pr \<longrightarrow> ps_prompts t d = Some pr)"

lemma queue_ok_active:
  assumes "queue_ok s U" "U = Some p"
  shows "\<exists>pr. ps_prompts s p = Some pr \<and> \<not> pp_finished pr"
  using assms unfolding queue_ok_def by blast

lemma queue_ok_queued:
  assumes "queue_ok s U" "p \<in> set (ps_queue s)"
  shows "\<exists>pr. ps_prompts s p = Some pr \<and> \<not> pp_finished pr \<and> waiting pr"
  using assms unfolding queue_ok_def by blast

lemma ui_find_ex: "ui_find q u \<noteq> None \<longleftrightarrow> (\<exists>k i. (k, i) \<in> set (ps_interactions u) \<and> in_prompt i = q)"
  by (auto simp: ui_find_def find_None_iff)

lemma ui_find_update [simp]:
  assumes "\<And>i. in_prompt (f i) = in_prompt i"
  shows "ui_find q (ui_update k f u) = ui_find q u"
proof -
  have "List.find (\<lambda>(k, i). in_prompt i = q) (map (\<lambda>(j, i). (j, if j = k then f i else i)) xs)
      = map_option (\<lambda>(j, i). (j, if j = k then f i else i)) (List.find (\<lambda>(k, i). in_prompt i = q) xs)"
    for xs :: "(nat \<times> interaction) list"
    by (induction xs) (auto simp: assms)
  then show ?thesis by (simp add: ui_find_def ui_update_def option.map_comp case_prod_unfold comp_def)
qed

lemma ui_find_interaction: "ui_find q (fst (ui_interaction p s)) \<noteq> None \<longleftrightarrow> q = p \<or> ui_find q s \<noteq> None"
  by (auto simp: ui_interaction_def Let_def ui_find_def split: option.split)

lemma ui_find_post [simp]: "ui_find q (ui_post k c s) = ui_find q s"
  by (simp add: ui_post_def)

lemma ui_find_message: "ui_find q (pin_message e p v call s) \<noteq> None \<longleftrightarrow> q = p \<or> ui_find q s \<noteq> None"
  using ui_find_interaction [of q p s] by (cases "ui_interaction p s") (simp add: pin_message_def Let_def)

lemma ui_find_warning: "ui_find q (ui_warning p m s) \<noteq> None \<longleftrightarrow> q = p \<or> ui_find q s \<noteq> None"
  using ui_find_interaction [of q p s] by (cases "ui_interaction p s") (simp add: ui_warning_def Let_def)

lemma ui_find_pin_update: "ui_find q (pin_update e p st s) \<noteq> None \<longleftrightarrow> (q = p \<and> ps_prompts s p \<noteq> None) \<or> ui_find q s \<noteq> None"
  using ui_find_message [of q e p _ PIN_UPDATE s] by (auto simp: pin_update_def split: option.split)

lemma ui_find_none:
  "ui_find q (pin_message e p v call s) = None \<longleftrightarrow> q \<noteq> p \<and> ui_find q s = None"
  "ui_find q (ui_warning p m s) = None \<longleftrightarrow> q \<noteq> p \<and> ui_find q s = None"
  "ui_find q (pin_update e p st s) = None \<longleftrightarrow> \<not> (q = p \<and> ps_prompts s p \<noteq> None) \<and> ui_find q s = None"
  using ui_find_message [of q e p v call s] ui_find_warning [of q p m s] ui_find_pin_update [of q e p st s] by auto

lemma ui_find_hide [simp]: "ui_find q (ui_hide p s) = ui_find q s"
  by (simp add: ui_hide_def split: option.split)

lemma ui_find_close: "ui_find q (ui_close p s) \<noteq> None \<Longrightarrow> ui_find q s \<noteq> None"
  unfolding ui_find_ex by (auto simp: ui_close_def ui_post_def split: option.splits if_splits)

lemma ui_find_finish:
  assumes "ui_find q s \<noteq> None" "q \<noteq> p" "windows_ok s"
  shows "ui_find q (pin_finish p s) \<noteq> None"
proof -
  let ?s = "pin_set p (\<lambda>pr. pr\<lparr>pp_finished := True, pp_cancel_id := False, pp_cancel_idle := False,
       pp_login_timeout_id := False, pp_secret := None\<rparr>) s"
  obtain k i where k: "(k, i) \<in> set (ps_interactions s)" "in_prompt i = q" using assms(1) ui_find_ex by blast
  show ?thesis
  proof (cases "ui_find p ?s")
    case None
    then show ?thesis using assms by (simp add: pin_finish_def ui_close_def)
  next
    case (Some j)
    then obtain i' where j: "(j, i') \<in> set (ps_interactions s)" "in_prompt i' = p"
      by (auto simp: ui_find_def find_Some_iff) (metis nth_mem)
    have "j \<noteq> k"
      using k j assms(2,3) by (auto simp: windows_ok_def dest: eq_key_imp_eq_value)
    then have "(k, i) \<in> set (ps_interactions (pin_finish p s))" using k Some by (auto simp: pin_finish_def ui_close_def)
    with k(2) ui_find_ex show ?thesis by blast
  qed
qed

lemma ui_find_finish_back: "ui_find q (pin_finish p s) \<noteq> None \<Longrightarrow> ui_find q s \<noteq> None"
  using ui_find_close by (fastforce simp: pin_finish_def)

lemma pin_ok_note_refresh [simp]: "pin_ok (pin_note (Refresh_started p) s) D X U = pin_ok s D X U"
  unfolding pin_ok_def prompts_ok_def queue_ok_def by (simp cong: option.case_cong)

lemma pin_defer_settled:
  assumes ok: "pin_ok s D {} (ps_active s)" and w: "reachable_window s" "unqueued s" and pr: "ps_prompts s p = Some pr" "\<not> pp_finished pr"
    and "\<not> waiting pr" "out \<noteq> CERTIFICATE_PIN_OK"
  shows "settled s (pin_defer p out pr s) D"
proof (cases "pp_cancel_deferred pr")
  case False
  let ?s = "pin_set p (\<lambda>pr. pr\<lparr>pp_cancel_deferred := True, pp_deferred_outcome := out\<rparr>) s"
  have ps: "prompts_ok s D {}" using ok by (simp add: pin_ok_def)
  have nq: "p \<notin> set (ps_queue s)" using ok pr(1) assms(6) by (auto simp: pin_ok_def queue_ok_def)
  have "pin_ok ?s D {} (ps_active s)"
    by (rule pin_set_ok [OF ok pr(1)])
      (use prompts_okD [OF ps pr(1)] assms(6,7) nq in \<open>auto simp: flags_ok_def waiting_def intro: entries_ok_same\<close>)
  then have "pin_ok (ui_hide p ?s) D {} (ps_active s)" "pin_ok ?s D {} (ps_active s)" using ui_onlyD(6) [OF ui_only_hide] by auto
  then show ?thesis
    using w pr False by (auto simp: settled_def pin_defer_def Let_def reachable_window_def unqueued_def)
qed (use assms in \<open>simp add: settled_def pin_defer_def\<close>)

lemma answer_start_show:
  "\<And>D X pr. \<lbrakk>pin_ok s D X (ps_active s); X \<subseteq> {p}; ps_prompts s p = Some pr; \<not> pp_finished pr; p \<notin> D;
      out = CERTIFICATE_PIN_OK \<longrightarrow> pp_login_succeeded pr \<and> waiting pr; \<not> waiting pr \<longrightarrow> X = {};
      reachable_window s \<or> ps_active s = Some p \<and> waiting pr; unqueued s\<rbrakk> \<Longrightarrow> settled s (certificate_pin_prompt_answer e p out s) D \<and>
        (waiting pr \<longrightarrow> (\<exists>pr'. ps_prompts (certificate_pin_prompt_answer e p out s) p = Some pr' \<and> pp_finished pr'))"
  "\<And>D pr. \<lbrakk>pin_ok s2 D {} (Some p2); ps_active s2 = None; ps_prompts s2 p2 = Some pr; waiting pr; p2 \<notin> D; unqueued s2; ui_find p2 s2 = None\<rbrakk>
      \<Longrightarrow> settled s2 (pin_prompt_start e2 p2 s2) D"
  "\<And>D pr. \<lbrakk>pin_ok s3 D {} (Some p3); ps_active s3 = Some p3; ps_prompts s3 p3 = Some pr; waiting pr; p3 \<notin> D; unqueued s3\<rbrakk>
      \<Longrightarrow> settled s3 (pin_prompt_show e3 p3 s3) D"
proof (induction e p out s and e2 p2 s2 and e3 p3 s3 rule: certificate_pin_prompt_answer_pin_prompt_start_pin_prompt_show.induct)
  case (1 e p out s)
  note IH = 1(1) and ok = 1(2) and X = 1(3) and pr = 1(4,5) and D = 1(6) and outcome = 1(7) and nw = 1(8) and win = 1(9) and unq = 1(10)
  show ?case
  proof (cases "waiting pr")
    case False
    with pr nw ok win unq outcome pin_defer_settled [of s D p pr out] show ?thesis
      by (auto simp: certificate_pin_prompt_answer.simps [of e p out s] waiting_def)
  next
    case True
    note fin = pin_finish_ok [OF ok X pr True D]
    have q: "queue_ok s (ps_active s)" and w: "windows_ok (pin_finish p s)" using ok by (auto simp: pin_ok_def)
    let ?pr = "pr\<lparr>pp_finished := True, pp_cancel_id := False, pp_cancel_idle := False, pp_login_timeout_id := False, pp_secret := None\<rparr>"
    have p1: "ps_prompts (pin_finish p s) p = Some ?pr" using pr by (simp add: pin_finish_prompts)
    have outc: "out = CERTIFICATE_PIN_OK \<longrightarrow> pp_login_succeeded pr" using outcome by blast
    have keep: "ps_prompts (pin_finish p s) d = Some prd" if "ps_prompts s d = Some prd" "pp_finished prd" for d prd
      using that pr by (auto simp: pin_finish_prompts)
    have dm: "dom (ps_prompts (pin_finish p s)) = dom (ps_prompts s)" by (auto simp: pin_finish_prompts)
    have unqf: "q \<notin> set (ps_queue s) \<and> q < ps_next s \<and>
        (\<forall>pr. ps_prompts (pin_finish p s) q = Some pr \<longrightarrow> \<not> pp_refresh_in_flight pr)"
      if "ui_find q (pin_finish p s) \<noteq> None" for q
      using ui_find_finish_back [OF that] unq pr True by (auto simp: unqueued_def pin_finish_prompts waiting_def)
    have waits: "\<not> (pp_refresh_in_flight pr \<or> pp_login_in_flight pr)" using True by (simp add: waiting_def)
    show ?thesis
    proof (cases "ps_active s = Some p")
      case active: True
      show ?thesis
      proof (cases "ps_queue s")
        case Nil
        let ?t = "(pin_finish p s)\<lparr>ps_active := None\<rparr>"
        have none: "\<not> (\<exists>pr. ps_prompts (pin_finish p s) q = Some pr \<and> \<not> pp_finished pr)" for q
          using fin(2) [of q] fin(3) Nil active by (cases "q = p") auto
        have "queue_ok ?t None" unfolding queue_ok_def using Nil none by simp
        then have "pin_ok ?t (insert p D) {} None" using fin(1) w by (simp add: pin_ok_def)
        from pin_callbacks_ok [OF this _ _ D _ _ outc, of ?pr] p1
        have "pin_ok (pin_callbacks p out pr ?t) D {} None" by simp
        then show ?thesis using pr waits active Nil keep unqf dm p1
          by (simp add: certificate_pin_prompt_answer.simps [of e p out s] settled_def reachable_window_def unqueued_def)
      next
        case (Cons r rs)
        let ?t = "(pin_finish p s)\<lparr>ps_active := None, ps_queue := rs\<rparr>"
        have qs: "distinct (r # rs)" "p \<notin> set (r # rs)" using q Cons active by (auto simp: queue_ok_def)
        obtain prr where r: "ps_prompts s r = Some prr" "\<not> pp_finished prr" "waiting prr"
          using queue_ok_queued [OF q, of r] Cons by auto
        have un: "(\<exists>pr. ps_prompts (pin_finish p s) q = Some pr \<and> \<not> pp_finished pr) \<longleftrightarrow> q \<in> set rs \<or> r = q" for q
          using fin(2) [of q] fin(3) Cons active qs by (cases "q = p") auto
        have wt: "waiting prq" if "q \<in> set rs" "ps_prompts (pin_finish p s) q = Some prq" for q prq
          using q that Cons qs by (auto simp: queue_ok_def pin_finish_prompts split: if_splits)
        have "queue_ok ?t (Some r)" unfolding queue_ok_def using un wt qs by simp
        then have tok: "pin_ok ?t (insert p D) {} (Some r)" using fin(1) w by (simp add: pin_ok_def)
        have rt: "ps_prompts ?t r = Some prr" using r qs by (simp add: pin_finish_prompts)
        have rD: "r \<notin> insert p D" using prompts_okD(4) [of s D X r prr] ok r qs by (auto simp: pin_ok_def)
        have "settled ?t (pin_prompt_start e r ?t) (insert p D)"
          by (rule IH [OF pr(1) pr(2) waits active Cons tok _ rt r(3) rD])
            (use unqf Cons in \<open>auto simp: unqueued_def\<close>, metis list.set_intros(1) option.exhaust_sel unqf)
        then have t: "pin_ok (pin_prompt_start e r ?t) (insert p D) {} (ps_active (pin_prompt_start e r ?t))"
          "reachable_window (pin_prompt_start e r ?t)" "unqueued (pin_prompt_start e r ?t)" "dom (ps_prompts (pin_prompt_start e r ?t)) = dom (ps_prompts s)"
          "\<And>d pr. ps_prompts ?t d = Some pr \<Longrightarrow> pp_finished pr \<Longrightarrow> ps_prompts (pin_prompt_start e r ?t) d = Some pr"
          using dm by (auto simp: settled_def)
        have pt: "ps_prompts (pin_prompt_start e r ?t) p = Some ?pr" using t(5) [of p ?pr] p1 by simp
        from pin_callbacks_ok [OF t(1) pt _ D _ _ outc] t(2-5) keep pt
        show ?thesis using pr waits active Cons
          by (simp add: certificate_pin_prompt_answer.simps [of e p out s] settled_def reachable_window_def unqueued_def)
      qed
    next
      case inactive: False
      let ?t = "(pin_finish p s)\<lparr>ps_queue := remove1 p (ps_queue s)\<rparr>"
      have pq: "p \<in> set (ps_queue s)" "distinct (ps_queue s)" using q pr inactive by (auto simp: queue_ok_def)
      have un: "(\<exists>pr. ps_prompts (pin_finish p s) q = Some pr \<and> \<not> pp_finished pr) \<longleftrightarrow>
          q \<in> set (remove1 p (ps_queue s)) \<or> ps_active s = Some q" for q
        using fin(2) [of q] fin(3) pq inactive by (cases "q = p") auto
      have wt: "waiting prq" if "q \<in> set (remove1 p (ps_queue s))" "ps_prompts (pin_finish p s) q = Some prq" for q prq
        using q that pq by (auto simp: queue_ok_def pin_finish_prompts split: if_splits)
      have "queue_ok ?t (ps_active s)"
        unfolding queue_ok_def using un wt pq q by (simp add: queue_ok_def)
      then have "pin_ok ?t (insert p D) {} (ps_active s)" using fin(1) w by (simp add: pin_ok_def)
      from pin_callbacks_ok [OF this _ _ D _ _ outc, of ?pr] p1
      have "pin_ok (pin_callbacks p out pr ?t) D {} (ps_active s)" by simp
      moreover have "reachable_window (pin_callbacks p out pr ?t)"
        using win inactive ui_find_finish [where s = s and p = p] ok by (auto simp: reachable_window_def pin_finish_prompts pin_ok_def)
      moreover have "unqueued (pin_callbacks p out pr ?t)"
        using unqf by (auto simp: unqueued_def dest: in_set_remove1 [THEN iffD1] notin_set_remove1)
      ultimately show ?thesis using pr waits inactive keep dm p1
        by (simp add: certificate_pin_prompt_answer.simps [of e p out s] settled_def)
    qed
  qed
next
  case (2 e p s)
  note IHa = 2(1) and IHs = 2(2) and ok = 2(3) and active = 2(4) and pr = 2(5) and wt = 2(6) and D = 2(7) and unq = 2(8) and nowin = 2(9)
  let ?s = "s\<lparr>ps_active := Some p\<rparr>"
  have fin: "\<not> pp_finished pr" using ok pr by (auto simp: pin_ok_def queue_ok_def)
  have ok1: "pin_ok ?s D {} (ps_active ?s)" using ok by (simp add: pin_ok_def)
  have unq1: "unqueued ?s" using unq by (simp add: unqueued_def)
  have lift: "settled s t D" if "settled ?s t D" for t using that by (simp add: settled_def)
  show ?case
  proof (cases "is_cancelled e p pr")
    case True
    have "settled ?s (certificate_pin_prompt_answer e p CERTIFICATE_PIN_CANCELLED ?s) D"
      by (rule IHa [OF pr refl True ok1, THEN conjunct1]) (use pr fin D wt unq1 in auto)
    with True pr show ?thesis by (simp add: pin_prompt_start.simps [of e p s] lift)
  next
    case nc: False
    show ?thesis
    proof (cases "pp_refresh pr")
      case False
      then have r: "\<not> pp_refresh pr" by simp
      have "settled ?s (pin_prompt_show e p ?s) D"
        by (rule IHs [OF pr refl nc r]) (use ok1 pr wt D unq1 in auto)
      with nc False pr show ?thesis by (simp add: pin_prompt_start.simps [of e p s] lift)
    next
      case True
      let ?t = "pin_set p (\<lambda>pr. pr\<lparr>pp_refresh_in_flight := True\<rparr>) ?s"
      have ps: "prompts_ok s D {}" using ok by (simp add: pin_ok_def)
      have nq: "p \<notin> set (ps_queue s)" using ok by (auto simp: pin_ok_def queue_ok_def)
      have "pin_ok ?t D {} (Some p)"
        by (rule pin_set_ok [of ?s D "{}" "Some p" p pr])
          (use ok1 pr wt fin nq prompts_okD [OF ps pr] in \<open>auto simp: flags_ok_def waiting_def intro: entries_ok_same\<close>)
      then show ?thesis using nc True pr fin unq nowin
        by (auto simp: pin_prompt_start.simps [of e p s] settled_def reachable_window_def pin_ok_note_refresh unqueued_def)
    qed
  qed
next
  case (3 e p s)
  note IH = 3(1) and ok = 3(2) and active = 3(3) and pr = 3(4) and wt = 3(5) and D = 3(6) and unq = 3(7)
  have fin: "\<not> pp_finished pr" using ok pr by (auto simp: pin_ok_def queue_ok_def)
  show ?case
  proof (cases "pe_locked e p")
    case True
    have "settled s (certificate_pin_prompt_answer e p CERTIFICATE_PIN_LOCKED s) D"
      by (rule IH [OF pr True, THEN conjunct1]) (use ok active pr fin D wt unq in auto)
    with True pr show ?thesis by (simp add: pin_prompt_show.simps [of e p s])
  next
    case False
    let ?t = "pin_message e p (pin_view_of e p pr XCC_PIN_STATUS_NONE) PIN_SHOW s"
    have "pin_ok ?t D {} (Some p)" using ui_onlyD(6) [OF ui_only_message ok] .
    moreover have "p \<notin> set (ps_queue s)" "p < ps_next s"
      using ok pr prompts_okD(1) [of s D "{}" p pr] by (auto simp: pin_ok_def queue_ok_def)
    ultimately show ?thesis using False pr active unq wt
      by (auto simp: pin_prompt_show.simps [of e p s] settled_def reachable_window_def unqueued_def waiting_def ui_find_message simp del: not_None_eq)
  qed
qed

section \<open>Steps\<close>

lemma pin_set_twice [simp]: "pin_set p f (pin_set p g s) = pin_set p (\<lambda>pr. f (g pr)) s"
  by (simp add: pin_set_def option.map_comp comp_def)

lemma unqueued_set:
  assumes "unqueued s" "\<And>pr. ps_prompts s p = Some pr \<Longrightarrow> pp_refresh_in_flight (f pr) \<Longrightarrow> pp_refresh_in_flight pr"
  shows "unqueued (pin_set p f s)"
  using assms by (auto simp: unqueued_def simp del: not_None_eq)

lemma reachable_window_set:
  assumes "reachable_window s" "\<And>pr. ps_prompts s p = Some pr \<Longrightarrow> pp_refresh_in_flight pr \<Longrightarrow> pp_refresh_in_flight (f pr)"
  shows "reachable_window (pin_set p f s)"
  using assms by (auto simp: reachable_window_def)

lemma answer_inv:
  assumes "pin_ok s {} X (ps_active s)" "X \<subseteq> {p}" "ps_prompts s p = Some pr" "\<not> pp_finished pr"
    "out = CERTIFICATE_PIN_OK \<longrightarrow> pp_login_succeeded pr \<and> waiting pr" "\<not> waiting pr \<longrightarrow> X = {}"
    "reachable_window s \<or> ps_active s = Some p \<and> waiting pr" "unqueued s"
  shows "pin_inv (certificate_pin_prompt_answer e p out s)"
  using answer_start_show(1) [OF assms(1-4) _ assms(5-8), of e] by (simp add: settled_def pin_inv_def)

lemma answer_inv_any:
  assumes "pin_inv s" "out \<noteq> CERTIFICATE_PIN_OK"
  shows "pin_inv (certificate_pin_prompt_answer e p out s)"
proof (cases "ps_prompts s p")
  case None
  then show ?thesis using assms by (simp add: certificate_pin_prompt_answer.simps [of e p out s])
next
  case (Some pr)
  show ?thesis
  proof (cases "pp_finished pr")
    case True
    with Some show ?thesis using assms by (simp add: certificate_pin_prompt_answer.simps [of e p out s])
  next
    case False
    show ?thesis by (rule answer_inv [OF _ _ Some False]) (use assms in \<open>auto simp: pin_inv_def\<close>)
  qed
qed

lemma pin_invD:
  assumes "pin_inv s"
  shows "pin_ok s {} {} (ps_active s)" "prompts_ok s {} {}" "queue_ok s (ps_active s)" "windows_ok s" "reachable_window s" "unqueued s"
  using assms by (auto simp: pin_inv_def pin_ok_def)

text \<open>A change of one prompt's flags.\<close>

lemma pin_set_inv:
  assumes inv: "pin_inv s" and pr: "ps_prompts s p = Some pr" and "flags_ok False (f pr)" "pp_attempts (f pr) = pp_attempts pr"
    "pp_protected_path (f pr) = pp_protected_path pr" "pp_finished (f pr) = pp_finished pr"
    "pp_login_succeeded (f pr) = pp_login_succeeded pr" "pp_abandon (f pr) = pp_abandon pr"
    "pp_refresh_in_flight (f pr) = pp_refresh_in_flight pr" "pp_login_in_flight (f pr) = pp_login_in_flight pr"
  shows "pin_inv (pin_set p f s)"
proof -
  note d = pin_invD [OF inv]
  have e: "entries_ok (entries p s) False p (f pr)"
    using entries_ok_same [OF prompts_okD(3) [OF d(2) pr], of "f pr"] assms(4-8) by simp
  have "pin_ok (pin_set p f s) {} {} (ps_active s)"
    by (rule pin_set_ok [OF d(1) pr])
      (use e assms(3,6,9,10) queue_ok_queued [OF d(3), of p] pr in \<open>auto simp: waiting_def\<close>)
  moreover have "reachable_window (pin_set p f s)" by (rule reachable_window_set [OF d(5)]) (use pr assms(9) in simp)
  moreover have "unqueued (pin_set p f s)" by (rule unqueued_set [OF d(6)]) (use pr assms(9) in simp)
  ultimately show ?thesis by (simp add: pin_inv_def)
qed

text \<open>Posting to a window, of a prompt that may have one.\<close>

lemma ui_only_inv:
  assumes "pin_inv s" "ui_only s t"
    and "\<And>q. ui_find q t \<noteq> None \<Longrightarrow> q = p \<or> ui_find q s \<noteq> None" "\<And>q. ui_find q s \<noteq> None \<Longrightarrow> ui_find q t \<noteq> None"
    and "ui_find p s \<noteq> None"
  shows "pin_inv t"
proof -
  note d = pin_invD [OF assms(1)]
  have "ui_find q t \<noteq> None \<longleftrightarrow> ui_find q s \<noteq> None" for q using assms(3-5) by blast
  then have "reachable_window t" "unqueued t"
    using d(5,6) ui_onlyD(1-4) [OF assms(2)] unfolding reachable_window_def unqueued_def by metis+
  with ui_onlyD(6) [OF assms(2) d(1)] ui_onlyD(4) [OF assms(2)] show ?thesis by (simp add: pin_inv_def)
qed

lemma pin_update_inv: "pin_inv s \<Longrightarrow> ui_find p s \<noteq> None \<Longrightarrow> pin_inv (pin_update e p st s)"
  by (rule ui_only_inv [OF _ ui_only_pin_update]) (auto simp: ui_find_pin_update simp del: not_None_eq)

lemma ui_warning_inv: "pin_inv s \<Longrightarrow> ui_find p s \<noteq> None \<Longrightarrow> pin_inv (ui_warning p m s)"
  by (rule ui_only_inv [OF _ ui_only_warning]) (auto simp: ui_find_warning simp del: not_None_eq)

lemma ui_ready_inv: "pin_inv s \<Longrightarrow> pin_inv (ui_update k (\<lambda>i. i\<lparr>in_ready := True\<rparr>) s)"
proof -
  assume inv: "pin_inv s"
  have "ui_find q (ui_update k (\<lambda>i. i\<lparr>in_ready := True\<rparr>) s) = ui_find q s" for q by (rule ui_find_update) simp
  then show "pin_inv (ui_update k (\<lambda>i. i\<lparr>in_ready := True\<rparr>) s)"
    using pin_invD [OF inv] ui_onlyD(6) [OF ui_only_update, OF pin_invD(1) [OF inv], of k "\<lambda>i. i\<lparr>in_ready := True\<rparr>"]
    by (simp add: pin_inv_def reachable_window_def unqueued_def)
qed

lemma secret_ok_view:
  assumes "secret_ok (Some x)"
  shows "pin_given False (xcc_secret_view (Some x))"
proof -
  let ?n = "sx_length x"
  have n: "0 < ?n" "?n \<le> 511" "?n < length (sx_data x)" "0 \<notin> set (take ?n (sx_data x))" "sx_data x ! ?n = 0"
    using assms by (auto simp: secret_ok_def)
  obtain a b where ab: "sx_data x = a @ 0 # b" "a = take ?n (sx_data x)"
    using n(3,5) id_take_nth_drop [of ?n "sx_data x"] by metis
  have "takeWhile (\<lambda>b. b \<noteq> 0) (a @ 0 # b) = a"
    using n(4) ab(2) by (subst takeWhile_append2) auto
  then have "takeWhile (\<lambda>b. b \<noteq> 0) (sx_data x) = a" by (simp only: ab(1))
  with n ab(2) show ?thesis by (simp add: pin_given_def xcc_secret_view_def)
qed

lemma secret_set_ok: "xcc_secret_set_length x n = (y, True) \<Longrightarrow> secret_ok (Some y)"
  by (auto simp: xcc_secret_set_length_def secret_ok_def split: if_splits)

text \<open>A prompt with a window is the active one, or answered already.\<close>

lemma submit_login_inv:
  assumes inv: "pin_inv s" and pr: "ps_prompts s p = Some pr" and win: "ui_find p s \<noteq> None"
    and idle: "\<not> pp_busy pr" "\<not> pp_finished pr" "\<not> pp_login_in_flight pr"
    and sec: "pp_protected_path pr \<or> secret_length (pp_secret pr) \<noteq> 0"
    and t: "ps_prompts t = (ps_prompts s)(p \<mapsto> pr\<lparr>pp_secret := None, pp_attempts := pp_attempts pr + 1, pp_login_in_flight := True,
        pp_busy := True, pp_login_timeout_id := b\<rparr>)"
      "ps_next t = ps_next s" "ps_queue t = ps_queue s" "ps_active t = ps_active s" "windows_ok t"
      "\<And>q. ui_find q t \<noteq> None \<longleftrightarrow> ui_find q s \<noteq> None"
      "\<And>q. entries q t = (if q = p then [Login_started p (if pp_protected_path pr then None else xcc_secret_view (pp_secret pr))] else []) @ entries q s"
  shows "pin_inv t"
proof -
  note d = pin_invD [OF inv]
  let ?pr = "pr\<lparr>pp_secret := None, pp_attempts := pp_attempts pr + 1, pp_login_in_flight := True, pp_busy := True, pp_login_timeout_id := b\<rparr>"
  let ?pin = "if pp_protected_path pr then None else xcc_secret_view (pp_secret pr)"
  have fl: "flags_ok False pr" and en: "entries_ok (entries p s) False p pr" and lt: "p < ps_next s"
    using prompts_okD [OF d(2) pr] by auto
  have nr: "\<not> pp_refresh_in_flight pr" and nq: "p \<notin> set (ps_queue s)" using d(6) win pr by (auto simp: unqueued_def simp del: not_None_eq)
  have fl': "flags_ok False ?pr" using fl idle nr by (auto simp: flags_ok_def secret_ok_def)
  have given: "pin_given (pp_protected_path pr) ?pin"
  proof (cases "pp_protected_path pr")
    case False
    with sec fl obtain x where "pp_secret pr = Some x" "secret_ok (Some x)"
      by (cases "pp_secret pr") (auto simp: secret_length_def flags_ok_def)
    with secret_ok_view False show ?thesis by simp
  qed (simp add: pin_given_def)
  from en idle(2) obtain pins where pins: "entries p s = map (Login_started p) pins" "length pins = pp_attempts pr"
    "list_all (pin_given (pp_protected_path pr)) pins" by (auto simp: entries_ok_def)
  have en': "entries_ok (entries p t) False p ?pr"
    unfolding entries_ok_def
    by (rule exI [of _ "?pin # pins"], rule exI [of _ "[]"]) (use pins given idle(2) t(7) [of p] in auto)
  have "prompts_ok t {} {}"
  proof (rule prompts_okI)
    fix q prq assume q: "ps_prompts t q = Some prq"
    show "q < ps_next t \<and> flags_ok (q \<in> {}) prq \<and> entries_ok (entries q t) (q \<in> {}) q prq \<and> (q \<in> {} \<longrightarrow> pp_finished prq)"
    proof (cases "q = p")
      case True
      with q fl' en' lt t show ?thesis by auto
    next
      case False
      with q prompts_okD [OF d(2), of q] t show ?thesis by auto
    qed
  qed (use t prompts_ok_none [OF d(2)] in \<open>auto split: if_splits\<close>)
  moreover have "queue_ok t (ps_active s)"
    using d(3) nq pr idle(2) unfolding queue_ok_def t(1,3) by auto
  moreover have "reachable_window t" "unqueued t"
    using d(5,6) t pr nr unfolding reachable_window_def unqueued_def by (auto split: if_splits simp del: not_None_eq)
  ultimately show ?thesis using t by (simp add: pin_inv_def pin_ok_def)
qed

lemma submit_inv:
  assumes inv: "pin_inv s" and win: "ui_find p s \<noteq> None"
  shows "pin_inv (certificate_pin_prompt_submit e p s)"
proof (cases "ps_prompts s p")
  case (Some pr)
  note d = pin_invD [OF inv]
  note eq = certificate_pin_prompt_submit_def [of e p s, unfolded Some option.case]
  consider (none) "pp_busy pr \<or> pp_finished pr \<or> pp_login_in_flight pr"
    | (warn) "\<not> (pp_busy pr \<or> pp_finished pr \<or> pp_login_in_flight pr)" "pp_protected_path pr \<and> pe_final_try e p \<and> \<not> pp_protected_path_confirmed pr"
    | (empty) "\<not> (pp_busy pr \<or> pp_finished pr \<or> pp_login_in_flight pr)" "\<not> (pp_protected_path pr \<and> pe_final_try e p \<and> \<not> pp_protected_path_confirmed pr)"
        "\<not> pp_protected_path pr \<and> secret_length (pp_secret pr) = 0"
    | (login) "\<not> (pp_busy pr \<or> pp_finished pr \<or> pp_login_in_flight pr)" "\<not> (pp_protected_path pr \<and> pe_final_try e p \<and> \<not> pp_protected_path_confirmed pr)"
        "\<not> (\<not> pp_protected_path pr \<and> secret_length (pp_secret pr) = 0)" by blast
  then show ?thesis
  proof cases
    case none
    then show ?thesis using inv by (simp add: eq)
  next
    case warn
    have "pin_inv (pin_set p (\<lambda>pr. pr\<lparr>pp_warning_pending := True\<rparr>) s)"
      by (rule pin_set_inv [OF inv Some]) (use prompts_okD(2) [OF d(2) Some] in \<open>simp_all add: flags_ok_def\<close>)
    then show ?thesis using warn inv win ui_warning_inv by (simp add: eq)
  next
    case empty
    then show ?thesis using inv win pin_update_inv by (simp add: eq)
  next
    case login
    have upd: "pr\<lparr>pp_secret := x, pp_attempts := n, pp_login_in_flight := y, pp_busy := z, pp_login_timeout_id := pp_login_timeout_id pr\<rparr>
        = pr\<lparr>pp_secret := x, pp_attempts := n, pp_login_in_flight := y, pp_busy := z\<rparr>" for x n y z
      by (cases pr) simp
    show ?thesis
      by (rule submit_login_inv [OF inv Some win, where b = "pe_login_timeout_seconds e > 0 \<or> pp_login_timeout_id pr"])
        (use login Some d(4) ui_only_pin_update win in
          \<open>auto simp: eq set_busy_def Let_def upd ui_find_none ui_only_def fun_upd_def simp del: not_None_eq\<close>)
  qed
qed (use inv in \<open>simp add: certificate_pin_prompt_submit_def\<close>)

lemma hold_inv:
  assumes inv: "pin_inv s" and win: "ui_find p s \<noteq> None"
  shows "pin_inv (fst (certificate_pin_prompt_hold e p secret n s))" "ui_find p (fst (certificate_pin_prompt_hold e p secret n s)) \<noteq> None"
proof -
  have "pin_inv (fst (certificate_pin_prompt_hold e p secret n s)) \<and> ui_find p (fst (certificate_pin_prompt_hold e p secret n s)) \<noteq> None"
  proof (cases "ps_prompts s p")
    case (Some pr)
    show ?thesis
    proof (cases "pp_finished pr \<or> pp_login_in_flight pr")
      case False
      have fl: "flags_ok False pr" using prompts_okD(2) [OF pin_invD(2) [OF inv] Some] by simp
      have a: "pin_inv (pin_set p (\<lambda>pr. pr\<lparr>pp_secret := None\<rparr>) s)"
        by (rule pin_set_inv [OF inv Some]) (use fl in \<open>simp_all add: flags_ok_def secret_ok_def\<close>)
      have b: "pin_inv (pin_set p (\<lambda>pr. pr\<lparr>pp_secret := Some y\<rparr>) s)" if "secret_ok (Some y)" for y
        by (rule pin_set_inv [OF inv Some]) (use fl False that in \<open>simp_all add: flags_ok_def\<close>)
      show ?thesis
      proof (cases secret)
        case None
        then show ?thesis using Some False win pin_update_inv [OF a]
          by (simp add: certificate_pin_prompt_hold_def ui_find_none)
      next
        case (Some x)
        obtain y ok where y: "xcc_secret_set_length x n = (y, ok)" by fastforce
        show ?thesis
        proof (cases ok)
          case True
          with y secret_set_ok have "secret_ok (Some y)" by simp
          with True show ?thesis using \<open>ps_prompts s p = Some pr\<close> Some False y b win
            by (simp add: certificate_pin_prompt_hold_def)
        next
          case nok: False
          with y show ?thesis using \<open>ps_prompts s p = Some pr\<close> Some False win pin_update_inv [OF a]
            by (simp add: certificate_pin_prompt_hold_def ui_find_none)
        qed
      qed
    qed (use inv win Some in \<open>simp add: certificate_pin_prompt_hold_def\<close>)
  qed (use inv win in \<open>simp add: certificate_pin_prompt_hold_def\<close>)
  then show "pin_inv (fst (certificate_pin_prompt_hold e p secret n s))" "ui_find p (fst (certificate_pin_prompt_hold e p secret n s)) \<noteq> None"
    by auto
qed

lemma warning_reply_inv:
  assumes inv: "pin_inv s" and win: "ui_find p s \<noteq> None"
  shows "pin_inv (certificate_pin_prompt_warning_reply e p accepted s)"
proof (cases "ps_prompts s p")
  case (Some pr)
  have fl: "flags_ok False pr" using prompts_okD(2) [OF pin_invD(2) [OF inv] Some] by simp
  have a: "pin_inv (pin_set p (\<lambda>pr. pr\<lparr>pp_warning_pending := False\<rparr>) s)"
    by (rule pin_set_inv [OF inv Some]) (use fl in \<open>simp_all add: flags_ok_def\<close>)
  have b: "pin_inv (pin_set p (\<lambda>pr. pr\<lparr>pp_warning_pending := False, pp_protected_path_confirmed := True\<rparr>) s)"
    by (rule pin_set_inv [OF inv Some]) (use fl in \<open>simp_all add: flags_ok_def\<close>)
  show ?thesis
    using Some inv win answer_inv_any [OF a] submit_inv [OF b]
    by (simp add: certificate_pin_prompt_warning_reply_def Let_def)
qed (use inv in \<open>simp add: certificate_pin_prompt_warning_reply_def\<close>)

text \<open>The prompt a worker runs for is the active one.\<close>

lemma in_flight_active:
  assumes "pin_inv s" "ps_prompts s p = Some pr" "\<not> waiting pr"
  shows "ps_active s = Some p" "\<not> pp_finished pr"
proof -
  show f: "\<not> pp_finished pr"
    using prompts_okD(2) [OF pin_invD(2) [OF assms(1)] assms(2)] assms(3) by (auto simp: flags_ok_def waiting_def)
  have "p \<notin> set (ps_queue s)" using queue_ok_queued [OF pin_invD(3) [OF assms(1)]] assms(2,3) by fastforce
  with f pin_invD(3) [OF assms(1)] assms(2) show "ps_active s = Some p" by (auto simp: queue_ok_def)
qed

text \<open>A worker has ended: between its end and the answer the prompt is exempt.\<close>

lemma worker_done_ok:
  assumes inv: "pin_inv s" and pr: "ps_prompts s p = Some pr" "\<not> waiting pr"
    and f: "flags_ok True (f pr)" "pp_attempts (f pr) = pp_attempts pr" "pp_protected_path (f pr) = pp_protected_path pr"
      "pp_finished (f pr) = pp_finished pr" "pp_abandon (f pr) = pp_abandon pr" "waiting (f pr)"
  shows "pin_ok (pin_set p f s) {} {p} (ps_active s)" "unqueued (pin_set p f s)"
proof -
  note d = pin_invD [OF inv] and a = in_flight_active [OF inv pr]
  have e: "entries_ok (entries p s) False p (f pr)"
    using entries_ok_same [OF prompts_okD(3) [OF d(2) pr(1)], of "f pr"] f a(2) by simp
  show "pin_ok (pin_set p f s) {} {p} (ps_active s)"
    by (rule pin_set_ok [OF d(1) pr(1)]) (use e f in auto)
  show "unqueued (pin_set p f s)" by (rule unqueued_set [OF d(6)]) (use pr f(6) in \<open>auto simp: waiting_def\<close>)
qed

lemma answer_after_worker:
  assumes "pin_ok s {} {p} (ps_active s)" "unqueued s" "ps_prompts s p = Some pr" "waiting pr" "\<not> pp_finished pr"
    "out = CERTIFICATE_PIN_OK \<longrightarrow> pp_login_succeeded pr" "ps_active s = Some p"
  shows "pin_inv (certificate_pin_prompt_answer e p out s)"
  by (rule answer_inv [OF assms(1) _ assms(3)]) (use assms in auto)

lemma on_refresh_done_inv:
  assumes inv: "pin_inv s" and pr: "ps_prompts s p = Some pr" "pp_refresh_in_flight pr"
  shows "pin_inv (on_refresh_done e p s)"
proof -
  have nw: "\<not> waiting pr" using pr by (simp add: waiting_def)
  note d = pin_invD [OF inv] and a = in_flight_active [OF inv pr(1) nw]
  have fl: "flags_ok False pr" using prompts_okD(2) [OF d(2) pr(1)] by simp
  have nl: "\<not> pp_login_in_flight pr" using fl pr by (auto simp: flags_ok_def)
  let ?f = "\<lambda>pr. pr\<lparr>pp_refresh_in_flight := False\<rparr>" and ?g = "\<lambda>pr. pr\<lparr>pp_refresh_in_flight := False, pp_cancel_deferred := False\<rparr>"
  have g: "pin_ok (pin_set p ?g s) {} {p} (ps_active s)" "unqueued (pin_set p ?g s)"
    by (rule worker_done_ok [OF inv pr(1) nw]; use fl nl a in \<open>auto simp: flags_ok_def waiting_def\<close>)+
  show ?thesis
  proof (cases "pp_cancel_deferred pr")
    case True
    then have o: "pp_deferred_outcome pr \<noteq> CERTIFICATE_PIN_OK" using fl by (simp add: flags_ok_def)
    have "pin_inv (certificate_pin_prompt_answer e p (pp_deferred_outcome pr) (pin_set p ?g s))"
      by (rule answer_after_worker [OF _ g(2), where pr = "?g pr"]) (use g a pr nl o in \<open>auto simp: waiting_def\<close>)
    with True pr show ?thesis by (simp add: on_refresh_done_def)
  next
    case nd: False
    then have "flags_ok False (?f pr)" using fl nl by (simp add: flags_ok_def)
    then have f: "pin_ok (pin_set p ?f s) {} {} (ps_active s)"
      by (intro pin_set_ok [OF d(1) pr(1)])
        (use entries_ok_same [OF prompts_okD(3) [OF d(2) pr(1)], of "?f pr"] queue_ok_queued [OF d(3), of p] nw pr in auto)
    have u: "unqueued (pin_set p ?f s)" by (rule unqueued_set [OF d(6)]) simp
    have w: "waiting (?f pr)" using nl by (simp add: waiting_def)
    show ?thesis
    proof (cases "is_cancelled e p pr")
      case True
      have "pin_inv (certificate_pin_prompt_answer e p CERTIFICATE_PIN_CANCELLED (pin_set p ?f s))"
        by (rule answer_inv [OF _ _ _ _ _ _ _ u, where X = "{}" and pr = "?f pr"]) (use f a pr w in auto)
      with True nd pr show ?thesis by (simp add: on_refresh_done_def)
    next
      case False
      have "settled (pin_set p ?f s) (pin_prompt_show e p (pin_set p ?f s)) {}"
        by (rule answer_start_show(3) [where pr = "?f pr"]) (use f a pr w u in auto)
      with False nd pr a show ?thesis by (simp add: on_refresh_done_def settled_def pin_inv_def)
    qed
  qed
qed

lemma on_login_done_inv:
  assumes inv: "pin_inv s" and pr: "ps_prompts s p = Some pr" "pp_login_in_flight pr"
  shows "pin_inv (on_login_done e p r s)"
proof -
  have nw: "\<not> waiting pr" using pr by (simp add: waiting_def)
  note d = pin_invD [OF inv] and a = in_flight_active [OF inv pr(1) nw]
  have fl: "flags_ok False pr" using prompts_okD(2) [OF d(2) pr(1)] by simp
  have nr: "\<not> pp_refresh_in_flight pr" "\<not> pp_login_succeeded pr" using fl pr a by (auto simp: flags_ok_def)
  have win: "ui_find p s \<noteq> None" using d(5) a pr nr by (auto simp: reachable_window_def)
  let ?ok = "r = Inr ()"
  let ?f = "\<lambda>pr. pr\<lparr>pp_login_in_flight := False, pp_login_timeout_id := False, pp_login_succeeded := (?ok \<or> pp_login_succeeded pr)\<rparr>"
  have succ: "pin_set p (\<lambda>pra. pra\<lparr>pp_login_in_flight := False, pp_login_timeout_id := False, pp_login_succeeded := (?ok \<or> pp_login_succeeded pr)\<rparr>) s
      = pin_set p ?f s" using pr(1) by (simp add: pin_set_def)
  show ?thesis
  proof (cases "pp_cancel_deferred pr")
    case True
    let ?g = "\<lambda>pr. pr\<lparr>pp_login_in_flight := False, pp_login_timeout_id := False, pp_login_succeeded := (?ok \<or> pp_login_succeeded pr), pp_cancel_deferred := False\<rparr>"
    have g: "pin_ok (pin_set p ?g s) {} {p} (ps_active s)" "unqueued (pin_set p ?g s)"
      by (rule worker_done_ok [OF inv pr(1) nw]; use fl nr a in \<open>auto simp: flags_ok_def waiting_def\<close>)+
    have o: "pp_deferred_outcome pr \<noteq> CERTIFICATE_PIN_OK" using fl True by (simp add: flags_ok_def)
    have "pin_inv (certificate_pin_prompt_answer e p (pp_deferred_outcome pr) (pin_set p ?g s))"
      by (rule answer_after_worker [OF _ g(2), where pr = "?g pr"]) (use g a pr nr o in \<open>auto simp: waiting_def\<close>)
    with True pr succ show ?thesis by (simp add: on_login_done_def Let_def)
  next
    case nd: False
    have f: "pin_ok (pin_set p ?f s) {} {p} (ps_active s)" "unqueued (pin_set p ?f s)"
      by (rule worker_done_ok [OF inv pr(1) nw]; use fl nr nd a in \<open>auto simp: flags_ok_def waiting_def\<close>)+
    show ?thesis
    proof (cases r)
      case (Inr u)
      have "pin_inv (certificate_pin_prompt_answer e p CERTIFICATE_PIN_OK (pin_set p ?f s))"
        by (rule answer_after_worker [OF _ f(2), where pr = "?f pr"]) (use f a pr nr Inr in \<open>auto simp: waiting_def\<close>)
      with nd pr succ a Inr show ?thesis by (simp add: on_login_done_def Let_def)
    next
      case (Inl err)
      let ?h = "\<lambda>pr. pr\<lparr>pp_login_in_flight := False, pp_login_timeout_id := False, pp_login_succeeded := (?ok \<or> pp_login_succeeded pr), pp_busy := False\<rparr>"
      let ?s2 = "set_busy e p False (pin_set p ?f s)"
      have h: "pin_ok (pin_set p ?h s) {} {p} (ps_active s)" "unqueued (pin_set p ?h s)"
        by (rule worker_done_ok [OF inv pr(1) nw]; use fl nr nd a in \<open>auto simp: flags_ok_def waiting_def\<close>)+
      have s2: "?s2 = pin_update e p XCC_PIN_STATUS_NONE (pin_set p ?h s)" by (simp add: set_busy_def)
      have ok2: "pin_ok ?s2 {} {p} (ps_active ?s2)" using ui_onlyD(6) [OF ui_only_pin_update h(1)] by (simp add: s2)
      have un2: "unqueued ?s2" using h(2) win unfolding s2 unqueued_def by (auto simp: ui_find_none simp del: not_None_eq)
      have p2: "ps_prompts ?s2 p = Some (?h pr)" using pr by (simp add: s2)
      have ans: "pin_inv (certificate_pin_prompt_answer e p out ?s2)" if "out \<noteq> CERTIFICATE_PIN_OK" for out
        by (rule answer_after_worker [OF ok2 un2 p2]) (use that a nr in \<open>auto simp: waiting_def s2\<close>)
      have retry: "pin_inv (pin_update e p XCC_PIN_STATUS_INCORRECT (pin_set p (\<lambda>pr. pr\<lparr>pp_secret := None\<rparr>) ?s2))"
        if "\<not> pp_protected_path pr" "\<not> pp_attempts pr \<ge> PIN_MAX_ATTEMPTS"
      proof -
        have fh: "flags_ok False ((?h pr)\<lparr>pp_secret := None\<rparr>)"
          using fl nr nd that Inl by (auto simp: flags_ok_def secret_ok_def)
        have en: "entries_ok (entries p ?s2) False p ((?h pr)\<lparr>pp_secret := None\<rparr>)"
          using entries_ok_same [OF prompts_okD(3) [OF d(2) pr(1)], of "(?h pr)\<lparr>pp_secret := None\<rparr>"] a(2) by (simp add: s2)
        have nq: "p \<notin> set (ps_queue s)" using d(3) a(1) by (auto simp: queue_ok_def)
        let ?s3 = "pin_set p (\<lambda>pr. pr\<lparr>pp_secret := None\<rparr>) ?s2"
        have "pin_ok ?s3 {} {} (ps_active ?s2)"
          by (rule pin_set_ok [OF ok2 p2]) (use fh en nq in \<open>auto simp: s2\<close>)
        moreover have "unqueued ?s3" by (rule unqueued_set [OF un2]) simp
        moreover have "reachable_window ?s3" using a(1) win by (auto simp: reachable_window_def s2 ui_find_none)
        ultimately have "pin_inv ?s3" by (simp add: pin_inv_def)
        then show ?thesis by (rule pin_update_inv) (use win in \<open>simp add: s2 ui_find_none del: not_None_eq\<close>)
      qed
      show ?thesis
        using nd pr succ a Inl ans retry by (simp add: on_login_done_def Let_def)
    qed
  qed
qed

lemma on_login_timeout_inv:
  assumes inv: "pin_inv s"
  shows "pin_inv (on_login_timeout e p s)"
proof (cases "ps_prompts s p")
  case (Some pr)
  have fl: "flags_ok False pr" using prompts_okD(2) [OF pin_invD(2) [OF inv] Some] by simp
  have a: "pin_inv (pin_set p (\<lambda>pr. pr\<lparr>pp_login_timeout_id := False\<rparr>) s)"
    by (rule pin_set_inv [OF inv Some]) (use fl in \<open>simp_all add: flags_ok_def\<close>)
  then show ?thesis using Some answer_inv_any [OF a] by (simp add: on_login_timeout_def Let_def)
qed (use inv in \<open>simp add: on_login_timeout_def\<close>)

lemma cancel_signal_inv:
  assumes inv: "pin_inv s" and pr: "ps_prompts s p = Some pr" "pp_cancel_id pr"
  shows "pin_inv (pin_on_cancelled p s)"
proof -
  have fl: "flags_ok False pr" using prompts_okD(2) [OF pin_invD(2) [OF inv] pr(1)] by simp
  show ?thesis unfolding pin_on_cancelled_def
    by (rule pin_set_inv [OF inv pr(1)]) (use fl pr in \<open>auto simp: flags_ok_def\<close>)
qed

lemma cancel_idle_inv:
  assumes inv: "pin_inv s"
  shows "pin_inv (pin_on_cancelled_idle e p s)"
proof (cases "ps_prompts s p")
  case (Some pr)
  have fl: "flags_ok False pr" using prompts_okD(2) [OF pin_invD(2) [OF inv] Some] by simp
  have "pin_inv (pin_set p (\<lambda>pr. pr\<lparr>pp_cancel_idle := False\<rparr>) s)"
    by (rule pin_set_inv [OF inv Some]) (use fl in \<open>simp_all add: flags_ok_def\<close>)
  then show ?thesis using answer_inv_any unfolding pin_on_cancelled_idle_def by simp
next
  case None
  then have "pin_set p (\<lambda>pr. pr\<lparr>pp_cancel_idle := False\<rparr>) s = s" by (auto simp: pin_set_def fun_upd_idem)
  then show ?thesis using answer_inv_any inv unfolding pin_on_cancelled_idle_def by simp
qed

lemma ui_reply_inv:
  assumes inv: "pin_inv s"
  shows "pin_inv (ui_reply e k r s)"
proof (cases "map_of (ps_interactions s) k")
  case (Some i)
  let ?p = "in_prompt i"
  have win: "ui_find ?p s \<noteq> None" unfolding ui_find_ex using map_of_SomeD [OF Some] by blast
  have rw: "ui_find ?p (ui_update k (\<lambda>i. i\<lparr>in_ready := True\<rparr>) s) \<noteq> None" using win by (subst ui_find_update) simp_all
  have hold: "pin_inv s1 \<and> ui_find ?p s1 \<noteq> None" if "certificate_pin_prompt_hold e ?p x n s = (s1, b)" for x n s1 b
    using hold_inv [OF inv win, of e x n] that by simp
  show ?thesis
  proof (cases "ps_prompts s ?p")
    case pr: (Some pr)
    show ?thesis
    proof (cases r)
      case (Reply_submit secret)
      obtain s1 b where h: "certificate_pin_prompt_hold e ?p secret (secret_length secret) s = (s1, b)" by fastforce
      from hold [OF h] have "pin_inv s1" "pin_inv (certificate_pin_prompt_submit e ?p s1)" using submit_inv by auto
      with h Reply_submit Some pr inv submit_inv [OF inv win] show ?thesis
        by (cases b) (simp_all add: ui_reply_def Let_def)
    qed (use Some pr inv answer_inv_any [OF inv] warning_reply_inv [OF inv win] ui_ready_inv [OF inv, of k]
          submit_inv [OF ui_ready_inv [OF inv, of k] rw] in \<open>auto simp: ui_reply_def Let_def\<close>)
  qed (use Some inv in \<open>simp add: ui_reply_def\<close>)
qed (use inv in \<open>simp add: ui_reply_def\<close>)

text \<open>A new prompt, before it is queued or started.\<close>

lemma new_prompt_ok:
  assumes inv: "pin_inv s" and t: "ps_prompts t = (ps_prompts s)(ps_next s \<mapsto> pr)" "ps_next t = ps_next s + 1"
      "ps_log t = ps_log s" "ps_interactions t = ps_interactions s" "ps_next_ui_id t = ps_next_ui_id s"
    and pr: "flags_ok False pr" "\<not> pp_finished pr" "pp_attempts pr = 0"
  shows "prompts_ok t {} {}" "windows_ok t" "ui_find (ps_next s) t = None" "ps_prompts s (ps_next s) = None"
proof -
  note d = pin_invD [OF inv]
  show none: "ps_prompts s (ps_next s) = None"
    using prompts_okD(1) [OF d(2), of "ps_next s"] by (cases "ps_prompts s (ps_next s)") auto
  have e: "entries q t = entries q s" for q by (simp add: entries_def t)
  have en: "entries_ok (entries (ps_next s) t) False (ps_next s) pr"
    using prompts_ok_none [OF d(2) none] pr by (simp add: e entries_ok_def)
  show "prompts_ok t {} {}"
  proof (rule prompts_okI)
    fix q prq assume q: "ps_prompts t q = Some prq"
    show "q < ps_next t \<and> flags_ok (q \<in> {}) prq \<and> entries_ok (entries q t) (q \<in> {}) q prq \<and> (q \<in> {} \<longrightarrow> pp_finished prq)"
    proof (cases "q = ps_next s")
      case True
      with q en pr t show ?thesis by auto
    next
      case False
      with q t prompts_okD [OF d(2), of q] e show ?thesis by auto
    qed
  qed (use t e prompts_ok_none [OF d(2)] in \<open>auto split: if_splits\<close>)
  show "windows_ok t" using d(4) by (simp add: windows_ok_def t)
  have "ui_find (ps_next s) s = None" using d(6) by (cases "ui_find (ps_next s) s") (auto simp: unqueued_def)
  then show "ui_find (ps_next s) t = None" by (simp add: ui_find_def t)
qed

lemma login_full_inv:
  assumes inv: "pin_inv s"
  shows "pin_inv (certificate_pin_login_full_kind e r s)"
proof (cases "\<not> pe_provider e \<or> (pe_needs_display e \<and> \<not> pe_has_display e)")
  case True
  have "pin_inv (pin_note Pin_no_display s)"
    using inv unfolding pin_inv_def pin_ok_def prompts_ok_def queue_ok_def reachable_window_def unqueued_def
    by (simp cong: option.case_cong)
  with True show ?thesis by (simp add: certificate_pin_login_full_kind_def)
next
  case False
  note d = pin_invD [OF inv]
  let ?p = "ps_next s"
  define pr where "pr = pin_prompt_new r"
  define s1 where "s1 = s\<lparr>ps_next := ?p + 1, ps_prompts := (ps_prompts s)(?p \<mapsto> pr)\<rparr>"
  define s2 where "s2 = (if is_cancelled e ?p pr then pin_on_cancelled ?p s1 else pin_set ?p (\<lambda>pr. pr\<lparr>pp_cancel_id := pp_cancellable pr\<rparr>) s1)"
  define pr2 where "pr2 = (if is_cancelled e ?p pr then pr\<lparr>pp_cancel_idle := True\<rparr> else pr\<lparr>pp_cancel_id := pp_cancellable pr\<rparr>)"
  have s2: "ps_prompts s2 = (ps_prompts s)(?p \<mapsto> pr2)" "ps_next s2 = ?p + 1" "ps_log s2 = ps_log s" "ps_interactions s2 = ps_interactions s"
    "ps_next_ui_id s2 = ps_next_ui_id s" "ps_queue s2 = ps_queue s" "ps_active s2 = ps_active s"
    by (auto simp: s2_def s1_def pr2_def pin_on_cancelled_def)
  have pr2: "flags_ok False pr2" "\<not> pp_finished pr2" "pp_attempts pr2 = 0" "waiting pr2" "\<not> pp_refresh_in_flight pr2"
    by (auto simp: pr2_def pr_def pin_prompt_new_def flags_ok_def secret_ok_def waiting_def)
  have t: "prompts_ok s2 {} {}" "windows_ok s2" "ui_find ?p s2 = None" "ps_prompts s ?p = None"
    by (rule new_prompt_ok [OF inv s2(1-5) pr2(1-3)])+
  have find: "ui_find q s2 = ui_find q s" for q by (simp add: ui_find_def s2)
  have nq: "?p \<notin> set (ps_queue s)" "ps_active s \<noteq> Some ?p"
    using queue_ok_queued [OF d(3), of ?p] queue_ok_active [OF d(3), of ?p] t(4) by auto
  have unq: "unqueued s2" using d(6) t(3) pr2 by (auto simp: unqueued_def find s2 simp del: not_None_eq)
  have eq: "certificate_pin_login_full_kind e r s =
      (if ps_active s2 \<noteq> None then s2\<lparr>ps_queue := ps_queue s2 @ [?p]\<rparr> else pin_prompt_start e ?p s2)"
    unfolding certificate_pin_login_full_kind_def Let_def pr_def [symmetric] s1_def [symmetric] s2_def [symmetric] by (rule if_not_P [OF False])
  show ?thesis
  proof (cases "ps_active s")
    case None
    then have q: "ps_queue s = []" using d(3) by (simp add: queue_ok_def)
    have "queue_ok s2 (Some ?p)" using d(3) None q pr2 unfolding queue_ok_def s2 by auto
    then have "pin_ok s2 {} {} (Some ?p)" using t by (simp add: pin_ok_def)
    from answer_start_show(2) [OF this _ _ pr2(4) _ unq t(3), of e] None s2(1,7)
    show ?thesis by (simp add: eq settled_def pin_inv_def)
  next
    case (Some a)
    let ?t = "s2\<lparr>ps_queue := ps_queue s2 @ [?p]\<rparr>"
    have "queue_ok ?t (Some a)"
      using d(3) Some nq pr2 by (auto simp: queue_ok_def s2 split: if_splits)
    moreover have "reachable_window ?t" using d(5) Some nq by (auto simp: reachable_window_def s2 find)
    moreover have "unqueued ?t" using unq t(3) by (auto simp: unqueued_def s2 simp del: not_None_eq)
    ultimately show ?thesis using t Some s2 by (simp add: eq pin_inv_def pin_ok_def)
  qed
qed

lemma pin_inv_start: "pin_inv pin_start"
  by (simp add: pin_inv_def pin_ok_def prompts_ok_def queue_ok_def windows_ok_def reachable_window_def unqueued_def
      pin_start_def entries_def ui_find_def)

lemma pin_inv_step: "pin_inv s \<Longrightarrow> pin_step s l t \<Longrightarrow> pin_inv t"
  by (erule pin_stepE) (auto intro: login_full_inv on_refresh_done_inv on_login_done_inv on_login_timeout_inv cancel_signal_inv
      cancel_idle_inv ui_reply_inv)

interpretation pin: step_invariant "\<lambda>s. s = pin_start" pin_step pin_inv
  by unfold_locales (auto intro: pin_inv_start pin_inv_step)

abbreviation pin_reachable :: "pin_state \<Rightarrow> bool" where
  "pin_reachable \<equiv> reach (\<lambda>s. s = pin_start) pin_step"

end
