(* ===== verification/PinGuarantees.thy ===== *)
theory PinGuarantees
  imports PinProps
begin

text \<open>
  The properties of the PIN dialogue (\<open>src/core/pin.c\<close>), read off the invariant of \<open>PinProps\<close>: who is
  answered, what is submitted, what is undone, who agreed to a last attempt, and that every prompt can be
  answered from wherever the dialogue stands.
\<close>

section \<open>Answers and attempts\<close>

lemma reachable_prompt:
  assumes "pin_reachable s" "ps_prompts s p = Some pr"
  shows "flags_ok False pr" "entries_ok (entries p s) False p pr"
  using prompts_okD(2,3) [OF pin_invD(2) [OF pin.reach_inv [OF assms(1)]] assms(2)] by auto

text \<open>C37 (invariant): the prompts not answered yet are the active one and, in the order of the queue, those
  behind it, and without an active one nobody waits; an answered prompt has had exactly one callback, and
  nothing is submitted after it; a login that succeeded although the answer was another one is
  undone right after the callback, and only a successful login is answered with OK.\<close>

theorem prompts_answered_once:
  assumes "pin_reachable s"
  shows "(\<forall>p. p \<in> set (ps_queue s) \<or> ps_active s = Some p \<longleftrightarrow> (\<exists>pr. ps_prompts s p = Some pr \<and> \<not> pp_finished pr)) \<and>
    distinct (ps_queue s) \<and> (ps_active s = None \<longrightarrow> ps_queue s = []) \<and>
    (\<forall>p pr. ps_prompts s p = Some pr \<longrightarrow>
       (if pp_finished pr
        then \<exists>outcome pins. entries p s =
               (if pp_login_succeeded pr \<and> outcome \<noteq> CERTIFICATE_PIN_OK \<and> pp_abandon pr then [Pin_abandoned p] else []) @
               [Pin_done p outcome] @ map (Login_started p) pins \<and> (outcome = CERTIFICATE_PIN_OK \<longrightarrow> pp_login_succeeded pr)
        else \<exists>pins. entries p s = map (Login_started p) pins))"
proof -
  note q = pin_invD(3) [OF pin.reach_inv [OF assms]]
  have e: "if pp_finished pr
        then \<exists>outcome pins. entries p s =
               (if pp_login_succeeded pr \<and> outcome \<noteq> CERTIFICATE_PIN_OK \<and> pp_abandon pr then [Pin_abandoned p] else []) @
               [Pin_done p outcome] @ map (Login_started p) pins \<and> (outcome = CERTIFICATE_PIN_OK \<longrightarrow> pp_login_succeeded pr)
        else \<exists>pins. entries p s = map (Login_started p) pins" if "ps_prompts s p = Some pr" for p pr
  proof -
    from reachable_prompt(2) [OF assms that] obtain pins closing where es: "entries p s = closing @ map (Login_started p) pins"
      "if pp_finished pr then \<exists>outcome. closing = pin_closing p pr outcome \<and> (outcome = CERTIFICATE_PIN_OK \<longrightarrow> pp_login_succeeded pr)
       else closing = []"
      unfolding entries_ok_def by auto
    show ?thesis
    proof (cases "pp_finished pr")
      case True
      with es(2) obtain outcome where o: "closing = pin_closing p pr outcome" "outcome = CERTIFICATE_PIN_OK \<longrightarrow> pp_login_succeeded pr"
        by auto
      show ?thesis unfolding if_P [OF True]
        by (rule exI [of _ outcome], rule exI [of _ pins]) (use es(1) o in \<open>simp add: pin_closing_def\<close>)
    qed (use es in auto)
  qed
  show ?thesis using q e unfolding queue_ok_def by blast
qed

definition submissions :: "nat \<Rightarrow> pin_state \<Rightarrow> pin_effect list" where
  "submissions p s = filter (\<lambda>x. case x of Login_started q pin \<Rightarrow> q = p | _ \<Rightarrow> False) (ps_log s)"

lemma submissions_entries: "submissions p s = filter (\<lambda>x. case x of Login_started q pin \<Rightarrow> True | _ \<Rightarrow> False) (entries p s)"
  unfolding submissions_def entries_def filter_filter by (rule filter_cong) (auto split: pin_effect.splits)

text \<open>C38 (bounds): a prompt submits a PIN at most three times, and at most once where the reader collects the
  PIN; it never has two logins in flight, and none while its token is being refreshed; what it
  gives to the token is nothing for such a reader, and else a C string of 1 to 511 octets.\<close>

theorem submissions_bounded:
  assumes "pin_reachable s" "ps_prompts s p = Some pr"
  shows "length (submissions p s) = pp_attempts pr \<and> pp_attempts pr \<le> (if pp_protected_path pr then 1 else PIN_MAX_ATTEMPTS) \<and>
    list_all (\<lambda>x. \<exists>pin. x = Login_started p pin \<and> pin_given (pp_protected_path pr) pin) (submissions p s) \<and>
    \<not> (pp_login_in_flight pr \<and> (pp_refresh_in_flight pr \<or> pp_finished pr))"
proof -
  note fl = reachable_prompt(1) [OF assms] and en = reachable_prompt(2) [OF assms]
  from en obtain pins closing where es: "entries p s = closing @ map (Login_started p) pins" "length pins = pp_attempts pr"
    "list_all (pin_given (pp_protected_path pr)) pins" "closing = [] \<or> (\<exists>outcome. closing = pin_closing p pr outcome)"
    unfolding entries_ok_def by (auto split: if_splits)
  have "filter (\<lambda>x. case x of Login_started q pin \<Rightarrow> True | _ \<Rightarrow> False) closing = []"
    using es(4) by (auto simp: pin_closing_def)
  moreover have "filter (\<lambda>x. case x of Login_started q pin \<Rightarrow> True | _ \<Rightarrow> False) (map (Login_started p) pins) = map (Login_started p) pins"
    by (simp add: filter_id_conv)
  ultimately have sub: "submissions p s = map (Login_started p) pins" by (simp add: submissions_entries es(1))
  show ?thesis using es(2,3) fl by (auto simp: sub list_all_iff flags_ok_def)
qed

section \<open>The last attempt\<close>

text \<open>What a function does neither submit nor agree to.\<close>

definition consent_same :: "pin_state \<Rightarrow> pin_state \<Rightarrow> bool" where
  "consent_same s t \<longleftrightarrow> (\<forall>q. submissions q t = submissions q s \<and>
     map_option pp_protected_path_confirmed (ps_prompts t q) = map_option pp_protected_path_confirmed (ps_prompts s q))"

lemma consent_refl [simp]: "consent_same s s"
  by (simp add: consent_same_def)

lemma consent_trans: "consent_same s t \<Longrightarrow> consent_same t u \<Longrightarrow> consent_same s u"
  by (simp add: consent_same_def)

lemma consent_ui: "ui_only s t \<Longrightarrow> consent_same s t"
  by (simp add: consent_same_def submissions_entries ui_onlyD(1) ui_onlyD(5))

lemma consent_change: "(\<And>pr. pp_protected_path_confirmed (f pr) = pp_protected_path_confirmed pr) \<Longrightarrow> consent_same s (pin_set p f s)"
  by (simp add: consent_same_def submissions_entries option.map_comp comp_def)

lemma consent_note:
  assumes "\<And>q pin. x \<noteq> Login_started q pin"
  shows "consent_same s (pin_note x s)"
proof (cases x)
  case (Login_started q pin)
  with assms show ?thesis by blast
qed (simp_all add: consent_same_def submissions_def pin_note_def)

lemma consent_fields: "ps_log t = ps_log s \<Longrightarrow> ps_prompts t = ps_prompts s \<Longrightarrow> consent_same s t"
  by (simp add: consent_same_def submissions_def)

text \<open>A change of flags that neither notes an agreement nor takes an answer back.\<close>

definition harmless :: "(pin_prompt \<Rightarrow> pin_prompt) \<Rightarrow> bool" where
  "harmless f \<longleftrightarrow> (\<forall>pr. pp_protected_path_confirmed (f pr) = pp_protected_path_confirmed pr \<and> (pp_finished pr \<longrightarrow> pp_finished (f pr)))"

text \<open>What a frame is: a relation between a state and a later one which posting, noting and the changes of
  flags keep.  Submitting is the one thing it need not allow.\<close>

locale pin_frame =
  fixes same :: "pin_state \<Rightarrow> pin_state \<Rightarrow> bool"
  assumes same_refl: "same s s"
    and same_trans: "same s t \<Longrightarrow> same t u \<Longrightarrow> same s u"
    and same_ui: "ui_only s t \<Longrightarrow> same s t"
    and same_set: "harmless f \<Longrightarrow> same s (pin_set p f s)"
    and same_note: "(\<And>q pin. x \<noteq> Login_started q pin) \<Longrightarrow> same s (pin_note x s)"
    and same_fields: "ps_log t = ps_log s \<Longrightarrow> ps_prompts t = ps_prompts s \<Longrightarrow> same s t"
begin

lemma same_finish: "same s (pin_finish p s)"
  unfolding pin_finish_def by (rule same_trans [OF same_set same_ui [OF ui_only_close]]) (simp add: harmless_def)

lemma same_callbacks: "same s (pin_callbacks p out pr s)"
  unfolding pin_callbacks_def Let_def by (auto intro: same_note same_trans [OF same_note same_note])

lemma same_defer: "same s (pin_defer p out pr s)"
  unfolding pin_defer_def Let_def
  by (auto simp: harmless_def intro!: same_refl same_set same_trans [OF same_set same_ui [OF ui_only_hide]])

lemma same_answer:
  "same s (certificate_pin_prompt_answer e p out s)"
  "same s2 (pin_prompt_start e2 p2 s2)"
  "same s3 (pin_prompt_show e3 p3 s3)"
proof (induction e p out s and e2 p2 s2 and e3 p3 s3 rule: certificate_pin_prompt_answer_pin_prompt_start_pin_prompt_show.induct)
  case (1 e p out s)
  show ?case
  proof (cases "ps_prompts s p")
    case (Some pr)
    have f: "same s ((pin_finish p s)\<lparr>ps_active := a\<rparr>)" "same s ((pin_finish p s)\<lparr>ps_active := a, ps_queue := q\<rparr>)"
      "same s ((pin_finish p s)\<lparr>ps_queue := q\<rparr>)" for a q
      by (rule same_trans [OF same_finish same_fields]; simp)+
    show ?thesis
    proof (cases "ps_queue s")
      case Nil
      with Some f show ?thesis
        by (auto simp: certificate_pin_prompt_answer.simps [of e p out s] same_defer same_refl intro: same_trans [OF _ same_callbacks])
    next
      case (Cons r rs)
      have "same s (pin_prompt_start e r ((pin_finish p s)\<lparr>ps_active := None, ps_queue := rs\<rparr>))"
        if "\<not> pp_finished pr" "\<not> (pp_refresh_in_flight pr \<or> pp_login_in_flight pr)" "ps_active s = Some p"
        by (rule same_trans [OF f(2) 1 [OF Some that Cons]])
      with Some f Cons show ?thesis
        by (auto simp: certificate_pin_prompt_answer.simps [of e p out s] same_defer same_refl intro!: same_trans [OF _ same_callbacks])
    qed
  qed (simp add: certificate_pin_prompt_answer.simps [of e p out s] same_refl)
next
  case (2 e p s)
  show ?case
  proof (cases "ps_prompts s p")
    case (Some pr)
    have f: "same s (s\<lparr>ps_active := Some p\<rparr>)" by (rule same_fields) simp_all
    have "same s (pin_note (Refresh_started p) (pin_set p (\<lambda>pr. pr\<lparr>pp_refresh_in_flight := True\<rparr>) (s\<lparr>ps_active := Some p\<rparr>)))"
      by (rule same_trans [OF same_trans [OF f same_set] same_note]) (simp_all add: harmless_def)
    with Some f 2 [OF Some refl] show ?thesis
      by (auto simp: pin_prompt_start.simps [of e p s] Let_def intro: same_trans)
  qed (simp add: pin_prompt_start.simps [of e p s] same_refl)
next
  case (3 e p s)
  then show ?case
    by (cases "ps_prompts s p") (auto simp: pin_prompt_show.simps [of e p s] same_refl intro: same_ui [OF ui_only_message])
qed

lemma same_update: "same s (pin_update e p st s)"
  by (rule same_ui [OF ui_only_pin_update])

lemma same_busy: "same s (set_busy e p b s)"
  unfolding set_busy_def by (rule same_trans [OF same_set same_update]) (simp add: harmless_def)

lemma same_set_answer:
  assumes "harmless f"
  shows "same s (certificate_pin_prompt_answer e p out (pin_set q f s))" "same s (pin_prompt_show e p (pin_set q f s))"
    "same s (certificate_pin_prompt_answer e p out (set_busy e q b (pin_set q f s)))"
proof -
  note s = same_set [OF assms]
  show "same s (certificate_pin_prompt_answer e p out (pin_set q f s))" "same s (pin_prompt_show e p (pin_set q f s))"
    by (rule same_trans [OF s same_answer(1)], rule same_trans [OF s same_answer(3)])
  show "same s (certificate_pin_prompt_answer e p out (set_busy e q b (pin_set q f s)))"
    by (rule same_trans [OF same_trans [OF s same_busy] same_answer(1)])
qed

lemma same_workers:
  "same s (on_refresh_done e p s)" "same s (on_login_done e p r s)" "same s (on_login_timeout e p s)"
  "same s (pin_on_cancelled p s)" "same s (pin_on_cancelled_idle e p s)"
  "same s (fst (certificate_pin_prompt_hold e p x n s))"
proof -
  show "same s (on_refresh_done e p s)"
    by (auto simp: on_refresh_done_def Let_def same_set_answer same_set harmless_def same_refl split: option.split)
  have a: "same s (pin_update e p st (pin_set p f (set_busy e q b (pin_set q g s))))"
    if "harmless f"
      "harmless g" for f g st q b
    by (rule same_trans [OF same_trans [OF same_trans [OF same_set same_busy] same_set] same_update]) (use that in auto)
  show "same s (on_login_done e p r s)"
    by (auto simp: on_login_done_def Let_def same_set_answer same_set a harmless_def same_refl split: option.split sum.split)
  show "same s (on_login_timeout e p s)"
    by (auto simp: on_login_timeout_def Let_def same_set_answer same_set harmless_def same_refl split: option.split)
  show "same s (pin_on_cancelled p s)" by (simp add: pin_on_cancelled_def same_set harmless_def)
  show "same s (pin_on_cancelled_idle e p s)" by (simp add: pin_on_cancelled_idle_def same_set_answer harmless_def)
  have b: "same s (pin_update e p st (pin_set p f s))"
    if "harmless f" for f st
    by (rule same_trans [OF same_set same_update]) (use that in auto)
  show "same s (fst (certificate_pin_prompt_hold e p x n s))"
    by (auto simp: certificate_pin_prompt_hold_def Let_def same_set b harmless_def same_refl split: option.split prod.split bool.split)
qed

end

interpretation consent: pin_frame consent_same
  by unfold_locales (auto simp: harmless_def intro: consent_trans consent_ui consent_change consent_note consent_fields)

text \<open>A submission of a prompt, and only of this one; for a reader's last try only if it is agreed to.\<close>

lemma submit_consent:
  shows "map_option pp_protected_path_confirmed (ps_prompts (certificate_pin_prompt_submit e p s) q)
      = map_option pp_protected_path_confirmed (ps_prompts s q)"
    and "submissions q (certificate_pin_prompt_submit e p s) \<noteq> submissions q s \<Longrightarrow> ps_prompts s p = Some pr \<Longrightarrow>
      q = p \<and> (pp_protected_path pr \<and> pe_final_try e p \<longrightarrow> pp_protected_path_confirmed pr)"
proof -
  have "map_option pp_protected_path_confirmed (ps_prompts (certificate_pin_prompt_submit e p s) q)
      = map_option pp_protected_path_confirmed (ps_prompts s q) \<and>
     (submissions q (certificate_pin_prompt_submit e p s) = submissions q s \<or>
      q = p \<and> (\<exists>pr. ps_prompts s p = Some pr \<and> (pp_protected_path pr \<and> pe_final_try e p \<longrightarrow> pp_protected_path_confirmed pr)))"
  proof (cases "ps_prompts s p")
    case (Some pr)
    let ?f = "\<lambda>pr. pr\<lparr>pp_secret := None, pp_attempts := Suc (pp_attempts pr), pp_login_in_flight := True\<rparr>"
    let ?s1 = "set_busy e p True (pin_set p ?f s)"
    let ?s2 = "if pe_login_timeout_seconds e > 0 then pin_set p (\<lambda>pr. pr\<lparr>pp_login_timeout_id := True\<rparr>) ?s1 else ?s1"
    have c1: "consent_same s ?s1" by (rule consent_trans [OF consent_change consent.same_busy]) simp
    have c2: "consent_same s ?s2"
      using c1 consent_trans [OF c1 consent_change, of "\<lambda>pr. pr\<lparr>pp_login_timeout_id := True\<rparr>" p] by simp
    have warn: "consent_same s (ui_warning p m (pin_set p (\<lambda>pr. pr\<lparr>pp_warning_pending := True\<rparr>) s))" for m
      by (rule consent_trans [OF consent_change consent_ui [OF ui_only_warning]]) simp
    have login: "submissions q (pin_note (Login_started p x) u) = (if q = p then Login_started p x # submissions q u else submissions q u)" for x u
      by (simp add: submissions_def pin_note_def)
    show ?thesis
      using Some c2 warn [unfolded consent_same_def] consent.same_update [of s e p XCC_PIN_STATUS_REQUIRED, unfolded consent_same_def]
      unfolding certificate_pin_prompt_submit_def consent_same_def by (simp add: Let_def login)
  qed (simp add: certificate_pin_prompt_submit_def)
  then show "map_option pp_protected_path_confirmed (ps_prompts (certificate_pin_prompt_submit e p s) q)
      = map_option pp_protected_path_confirmed (ps_prompts s q)"
    "submissions q (certificate_pin_prompt_submit e p s) \<noteq> submissions q s \<Longrightarrow> ps_prompts s p = Some pr \<Longrightarrow>
      q = p \<and> (pp_protected_path pr \<and> pe_final_try e p \<longrightarrow> pp_protected_path_confirmed pr)"
    by auto
qed

text \<open>The user's agreement, in answer to the latest warning shown.\<close>

definition accepts_warning :: "pin_state \<Rightarrow> nat \<Rightarrow> pin_event \<Rightarrow> bool" where
  "accepts_warning s p ev \<longleftrightarrow>
     (\<exists>k i pr. ev = Ev_reply k (Reply_warning (in_warning_id i) True) \<and> map_of (ps_interactions s) k = Some i \<and> in_prompt i = p \<and>
        ps_prompts s p = Some pr \<and> pp_warning_pending pr)"

definition agreed :: "pin_env \<Rightarrow> pin_state \<Rightarrow> pin_event \<Rightarrow> nat \<Rightarrow> pin_prompt \<Rightarrow> pin_state \<Rightarrow> bool" where
  "agreed e s ev p pr t \<longleftrightarrow>
     (submissions p t \<noteq> submissions p s \<and> pp_protected_path pr \<and> pe_final_try e p \<longrightarrow> pp_protected_path_confirmed pr \<or> accepts_warning s p ev) \<and>
     (map_option pp_protected_path_confirmed (ps_prompts t p) = Some True \<longrightarrow> pp_protected_path_confirmed pr \<or> accepts_warning s p ev)"

lemma agreed_same: "consent_same s t \<Longrightarrow> ps_prompts s p = Some pr \<Longrightarrow> agreed e s ev p pr t"
  by (simp add: agreed_def consent_same_def)

lemma agreed_submit:
  assumes "consent_same s u" "ps_prompts s p = Some pr" "\<And>pr'. ps_prompts u q = Some pr' \<Longrightarrow> \<exists>pr0. ps_prompts s q = Some pr0 \<and>
      pp_protected_path pr' = pp_protected_path pr0 \<and> pp_protected_path_confirmed pr' = pp_protected_path_confirmed pr0"
  shows "agreed e s ev p pr (certificate_pin_prompt_submit e q u)"
proof (cases "ps_prompts u q")
  case None
  then show ?thesis using agreed_same [OF assms(1,2)] by (simp add: certificate_pin_prompt_submit_def)
next
  case (Some pr')
  have c: "submissions p u = submissions p s" "map_option pp_protected_path_confirmed (ps_prompts u p) = Some (pp_protected_path_confirmed pr)"
    using assms(1,2) by (simp_all add: consent_same_def)
  show ?thesis
    using submit_consent(1) [of e q u p] submit_consent(2) [OF _ Some, of p e] assms(2) assms(3) [OF Some] c Some
    by (auto simp: agreed_def)
qed

lemma agreed_reply:
  assumes pr: "ps_prompts s p = Some pr"
  shows "agreed e s (Ev_reply k r) p pr (ui_reply e k r s)"
proof -
  note same = agreed_same [OF _ pr]
  show ?thesis
  proof (cases "map_of (ps_interactions s) k")
    case None
    then show ?thesis by (simp add: ui_reply_def same)
  next
    case (Some i)
    let ?p = "in_prompt i"
    show ?thesis
    proof (cases "ps_prompts s ?p")
      case None
      with Some show ?thesis by (simp add: ui_reply_def same)
    next
      case q: (Some q)
      have submit: "agreed e s ev p pr (certificate_pin_prompt_submit e ?p u)"
        if "consent_same s u" "\<And>pr'. ps_prompts u ?p = Some pr' \<Longrightarrow> pp_protected_path pr' = pp_protected_path q" for u ev
      proof (rule agreed_submit [OF that(1) pr])
        fix pr' assume "ps_prompts u ?p = Some pr'"
        moreover from this that(1) q have "pp_protected_path_confirmed pr' = pp_protected_path_confirmed q"
          by (auto simp: consent_same_def dest: spec [of _ ?p])
        ultimately show "\<exists>pr0. ps_prompts s ?p = Some pr0 \<and> pp_protected_path pr' = pp_protected_path pr0 \<and>
            pp_protected_path_confirmed pr' = pp_protected_path_confirmed pr0" using q that(2) by auto
      qed
      show ?thesis
      proof (cases r)
        case (Reply_submit secret)
        obtain s1 b where h: "certificate_pin_prompt_hold e ?p secret (secret_length secret) s = (s1, b)" by fastforce
        have c1: "consent_same s s1" using consent.same_workers(6) [of s e ?p secret "secret_length secret"] h by simp
        have pp: "pp_protected_path pr' = pp_protected_path q" if "ps_prompts s1 ?p = Some pr'" for pr'
          using h that q by (auto simp: certificate_pin_prompt_hold_def Let_def split: option.splits if_splits prod.splits bool.splits)
        show ?thesis
          using Some q Reply_submit h submit [OF c1 pp] submit [OF consent_refl] same [OF c1] same [OF consent_refl]
          by (cases b) (auto simp: ui_reply_def Let_def)
      next
        case (Reply_warning w accepted)
        let ?s1 = "pin_set ?p (\<lambda>pr. pr\<lparr>pp_warning_pending := False\<rparr>) s"
        have c: "consent_same s (certificate_pin_prompt_answer e ?p out ?s1)" for out by (rule consent.same_set_answer(1)) (simp add: harmless_def)
        show ?thesis
        proof (cases "w = in_warning_id i \<and> pp_warning_pending q \<and> accepted")
          case True
          then have acc: "accepts_warning s ?p (Ev_reply k r)" using Some q Reply_warning by (auto simp: accepts_warning_def)
          show ?thesis
          proof (cases "p = ?p")
            case True
            with acc show ?thesis by (simp add: agreed_def)
          next
            case other: False
            let ?s2 = "pin_set ?p (\<lambda>pr. pr\<lparr>pp_warning_pending := False, pp_protected_path_confirmed := True\<rparr>) s"
            have "submissions p (certificate_pin_prompt_submit e ?p ?s2) = submissions p ?s2"
              using submit_consent(2) [of p e ?p ?s2] other q by (cases "submissions p (certificate_pin_prompt_submit e ?p ?s2) = submissions p ?s2") auto
            moreover have "map_option pp_protected_path_confirmed (ps_prompts (certificate_pin_prompt_submit e ?p ?s2) p) = Some (pp_protected_path_confirmed pr)"
              using other pr by (simp add: submit_consent(1))
            ultimately have "agreed e s (Ev_reply k r) p pr (certificate_pin_prompt_submit e ?p ?s2)"
              by (auto simp: agreed_def submissions_entries)
            then show ?thesis using Some q Reply_warning same [OF consent_refl]
              by (auto simp: ui_reply_def certificate_pin_prompt_warning_reply_def Let_def same c)
          qed
        next
          case False
          then show ?thesis using Some q Reply_warning same [OF consent_refl]
            by (auto simp: ui_reply_def certificate_pin_prompt_warning_reply_def Let_def same c)
        qed
      next
        case Reply_cancel
        then show ?thesis using Some q by (simp add: ui_reply_def Let_def same consent.same_answer)
      next
        case (Reply_failed nd)
        then show ?thesis using Some q by (simp add: ui_reply_def Let_def same consent.same_answer)
      next
        case Reply_ready
        let ?u = "ui_update k (\<lambda>i. i\<lparr>in_ready := True\<rparr>) s"
        have u: "consent_same s ?u" by (rule consent_ui [OF ui_only_update])
        show ?thesis using Some q Reply_ready submit [OF u] same [OF u] same [OF consent_refl]
          by (simp add: ui_reply_def Let_def)
      qed
    qed
  qed
qed

lemma login_full_eq:
  assumes "\<not> (\<not> pe_provider e \<or> (pe_needs_display e \<and> \<not> pe_has_display e))"
  obtains u where "ps_log u = ps_log s" "\<And>p. p \<noteq> ps_next s \<Longrightarrow> ps_prompts u p = ps_prompts s p"
    "certificate_pin_login_full_kind e r s =
      (if ps_active u \<noteq> None then u\<lparr>ps_queue := ps_queue u @ [ps_next s]\<rparr> else pin_prompt_start e (ps_next s) u)"
proof -
  let ?s1 = "s\<lparr>ps_next := ps_next s + 1, ps_prompts := (ps_prompts s)(ps_next s \<mapsto> pin_prompt_new r)\<rparr>"
  let ?u = "if is_cancelled e (ps_next s) (pin_prompt_new r) then pin_on_cancelled (ps_next s) ?s1
      else pin_set (ps_next s) (\<lambda>pr. pr\<lparr>pp_cancel_id := pp_cancellable pr\<rparr>) ?s1"
  show ?thesis
  proof (rule that [of ?u])
    show "certificate_pin_login_full_kind e r s =
        (if ps_active ?u \<noteq> None then ?u\<lparr>ps_queue := ps_queue ?u @ [ps_next s]\<rparr> else pin_prompt_start e (ps_next s) ?u)"
      unfolding certificate_pin_login_full_kind_def Let_def by (rule if_not_P [OF assms])
  qed (auto simp: pin_on_cancelled_def)
qed

text \<open>C39 (safety): where the reader collects the PIN and the token has one try left, no login is started
  unless the user has agreed: in this very step or before, and agreement is only ever recorded in
  answer to the latest warning shown for this prompt.\<close>

theorem last_try_needs_agreement:
  assumes "pin_reachable s" "pin_step s (e, ev) t" "ps_prompts s p = Some pr"
  shows "(submissions p t \<noteq> submissions p s \<and> pp_protected_path pr \<and> pe_final_try e p \<longrightarrow>
      pp_protected_path_confirmed pr \<or> accepts_warning s p ev) \<and>
    (map_option pp_protected_path_confirmed (ps_prompts t p) = Some True \<longrightarrow> pp_protected_path_confirmed pr \<or> accepts_warning s p ev)"
proof -
  have new: "p \<noteq> ps_next s" using prompts_okD(1) [OF pin_invD(2) [OF pin.reach_inv [OF assms(1)]] assms(3)] by simp
  have ag: "agreed e s ev p pr t" if "consent_same u t" "ps_log u = ps_log s" "ps_prompts u p = ps_prompts s p" for u t ev
    using that assms(3) by (simp add: agreed_def consent_same_def submissions_def)
  have login: "agreed e s ev p pr (certificate_pin_login_full_kind e r s)" for r ev
  proof (cases "\<not> pe_provider e \<or> (pe_needs_display e \<and> \<not> pe_has_display e)")
    case True
    then show ?thesis by (simp add: certificate_pin_login_full_kind_def agreed_same [OF consent_note assms(3)])
  next
    case False
    obtain u where u: "ps_log u = ps_log s" "ps_prompts u p = ps_prompts s p"
      "certificate_pin_login_full_kind e r s =
        (if ps_active u \<noteq> None then u\<lparr>ps_queue := ps_queue u @ [ps_next s]\<rparr> else pin_prompt_start e (ps_next s) u)"
      using login_full_eq [OF False] new by metis
    have q: "consent_same u (u\<lparr>ps_queue := x\<rparr>)" for x by (rule consent_fields) simp_all
    show ?thesis using ag [OF q u(1,2)] ag [OF consent.same_answer(2) u(1,2)] by (simp add: u(3))
  qed
  have "agreed e s ev p pr t"
    using assms(2) by (cases rule: pin_stepE) (auto intro: login agreed_same [OF consent.same_workers(1) assms(3)]
        agreed_same [OF consent.same_workers(2) assms(3)] agreed_same [OF consent.same_workers(3) assms(3)]
        agreed_same [OF consent.same_workers(4) assms(3)] agreed_same [OF consent.same_workers(5) assms(3)] agreed_reply [OF assms(3)])
  then show ?thesis by (simp add: agreed_def)
qed

section \<open>Every prompt can be answered\<close>

definition answered :: "pin_state \<Rightarrow> nat \<Rightarrow> bool" where
  "answered s p \<longleftrightarrow> (\<exists>pr. ps_prompts s p = Some pr \<and> pp_finished pr)"

definition unanswered :: "pin_state \<Rightarrow> nat set" where
  "unanswered s = {p. \<exists>pr. ps_prompts s p = Some pr \<and> \<not> pp_finished pr}"

text \<open>No prompt comes or goes, and answers stay.\<close>

definition progress :: "pin_state \<Rightarrow> pin_state \<Rightarrow> bool" where
  "progress s t \<longleftrightarrow> dom (ps_prompts t) = dom (ps_prompts s) \<and> (\<forall>p. answered s p \<longrightarrow> answered t p)"

interpretation progress: pin_frame progress
proof unfold_locales
  fix f :: "pin_prompt \<Rightarrow> pin_prompt" and s p
  assume "harmless f"
  then show "progress s (pin_set p f s)" by (auto simp: progress_def answered_def harmless_def)
qed (auto simp: progress_def answered_def ui_onlyD(1))

lemma unanswered_progress: "progress s t \<Longrightarrow> unanswered t \<subseteq> unanswered s"
proof
  fix p
  assume pg: "progress s t" and "p \<in> unanswered t"
  then obtain q where q: "ps_prompts t p = Some q" "\<not> pp_finished q" by (auto simp: unanswered_def)
  then have "p \<in> dom (ps_prompts s)" using pg by (auto simp: progress_def)
  moreover have "\<not> answered s p"
  proof
    assume "answered s p"
    then have "answered t p" using pg by (simp add: progress_def)
    then show False using q by (simp add: answered_def)
  qed
  ultimately show "p \<in> unanswered s" by (auto simp: unanswered_def answered_def)
qed

lemma unanswered_finite: "pin_inv s \<Longrightarrow> finite (unanswered s)"
  by (rule finite_subset [of _ "{..<ps_next s}"]) (auto simp: unanswered_def dest: prompts_okD(1) [OF pin_invD(2)])

lemma answer_answers:
  assumes "ps_prompts s p = Some pr" "\<not> pp_finished pr" "waiting pr"
  shows "answered (certificate_pin_prompt_answer e p out s) p"
proof -
  have fin: "answered (pin_finish p s) p" using assms by (auto simp: answered_def pin_finish_prompts)
  have u: "answered ((pin_finish p s)\<lparr>ps_active := a\<rparr>) p" "answered ((pin_finish p s)\<lparr>ps_queue := q\<rparr>) p"
    "answered ((pin_finish p s)\<lparr>ps_active := a, ps_queue := q\<rparr>) p" for a q
    using fin by (simp_all add: answered_def)
  have st: "answered (pin_prompt_start e r ((pin_finish p s)\<lparr>ps_active := a, ps_queue := q\<rparr>)) p" for r a q
  proof -
    have "progress ((pin_finish p s)\<lparr>ps_active := a, ps_queue := q\<rparr>) (pin_prompt_start e r ((pin_finish p s)\<lparr>ps_active := a, ps_queue := q\<rparr>))"
      by (rule progress.same_answer(2))
    then show ?thesis using u(3) unfolding progress_def by blast
  qed
  have cb: "answered (pin_callbacks p out pr t) p = answered t p" for t by (simp add: answered_def)
  show ?thesis
    using assms u st by (auto simp: certificate_pin_prompt_answer.simps [of e p out s] waiting_def cb split: list.split)
qed

text \<open>The events that need no further input: a worker ends, a window is dismissed.\<close>

definition closes :: "pin_env \<Rightarrow> pin_env \<times> pin_event \<Rightarrow> bool" where
  "closes e l \<longleftrightarrow> fst l = e \<and> (\<exists>p k r. snd l \<in> {Ev_refresh_done p, Ev_login_done p r, Ev_reply k Reply_cancel})"

definition closing_step :: "pin_env \<Rightarrow> pin_state \<Rightarrow> pin_env \<times> pin_event \<Rightarrow> pin_state \<Rightarrow> bool" where
  "closing_step e s l t \<longleftrightarrow> pin_step s l t \<and> closes e l"

abbreviation closing_run :: "pin_env \<Rightarrow> pin_state \<Rightarrow> pin_state \<Rightarrow> bool" where
  "closing_run e s t \<equiv> reach (\<lambda>x. x = s) (closing_step e) t"

lemma closing_run_trans: "closing_run e u t \<Longrightarrow> closing_run e s u \<Longrightarrow> closing_run e s t"
  by (induction rule: reach.induct) (auto intro: reach_step)

lemma closing_run_one: "pin_step s l t \<Longrightarrow> closes e l \<Longrightarrow> closing_run e s t"
  by (rule reach_step [OF reach_init]) (auto simp: closing_step_def)

lemma login_closes:
  assumes inv: "pin_inv s" and pr: "ps_prompts s p = Some pr" "pp_login_in_flight pr"
  shows "\<exists>t. closing_run e s t \<and> pin_inv t \<and> progress s t \<and> answered t p"
proof -
  let ?r = "Inl CERTIFICATE_PKCS11_ERROR_CANCELLED :: pkcs11_error + unit"
  have nw: "\<not> waiting pr" using pr by (simp add: waiting_def)
  have fl: "flags_ok False pr" using prompts_okD(2) [OF pin_invD(2) [OF inv] pr(1)] by simp
  have fin: "\<not> pp_finished pr" "\<not> pp_refresh_in_flight pr" using fl pr by (auto simp: flags_ok_def)
  have "answered (certificate_pin_prompt_answer e p out (pin_set p f s)) p"
    if "\<not> pp_finished (f pr)" "waiting (f pr)" for out f
    by (rule answer_answers [of _ _ "f pr"]) (use pr that in simp_all)
  moreover have "answered (certificate_pin_prompt_answer e p out (set_busy e p b (pin_set p f s))) p"
    if "\<not> pp_finished (f pr)" "waiting (f pr)" for out f b
    by (rule answer_answers [of _ _ "(f pr)\<lparr>pp_busy := b\<rparr>"]) (use pr that in \<open>simp_all add: set_busy_def waiting_def\<close>)
  ultimately have "answered (on_login_done e p ?r s) p"
    using pr fin by (auto simp: on_login_done_def Let_def waiting_def)
  moreover have "closing_run e s (on_login_done e p ?r s)"
    by (rule closing_run_one [OF step_login_done [OF pr]]) (auto simp: closes_def)
  ultimately show ?thesis using on_login_done_inv [OF inv pr] progress.same_workers(2) by blast
qed

lemma window_closes:
  assumes inv: "pin_inv s" and pr: "ps_prompts s p = Some pr" "\<not> pp_finished pr" "waiting pr" "ps_active s = Some p"
  shows "\<exists>t. closing_run e s t \<and> pin_inv t \<and> progress s t \<and> answered t p"
proof -
  have "ui_find p s \<noteq> None" using pin_invD(5) [OF inv] pr by (auto simp: reachable_window_def waiting_def)
  then obtain k i where k: "(k, i) \<in> set (ps_interactions s)" "in_prompt i = p" unfolding ui_find_ex by blast
  then have m: "map_of (ps_interactions s) k = Some i" using pin_invD(4) [OF inv] by (simp add: windows_ok_def)
  let ?t = "certificate_pin_prompt_answer e p CERTIFICATE_PIN_CANCELLED s"
  have "ui_reply e k Reply_cancel s = ?t" using m k pr by (simp add: ui_reply_def Let_def)
  then have "closing_run e s ?t" using closing_run_one [OF step_reply [of s e k Reply_cancel]] by (force simp: closes_def)
  moreover have "pin_inv ?t" using answer_inv_any [OF inv] by simp
  moreover have "progress s ?t" by (rule progress.same_answer(1))
  ultimately show ?thesis using answer_answers [OF pr(1-3)] by blast
qed

lemma refresh_closes:
  assumes inv: "pin_inv s" and pr: "ps_prompts s p = Some pr" "pp_refresh_in_flight pr"
  shows "\<exists>t. closing_run e s t \<and> pin_inv t \<and> progress s t \<and> answered t p"
proof -
  let ?t = "on_refresh_done e p s" and ?f = "\<lambda>pr. pr\<lparr>pp_refresh_in_flight := False\<rparr>"
  have nw: "\<not> waiting pr" using pr by (simp add: waiting_def)
  note a = in_flight_active [OF inv pr(1) nw]
  have nl: "\<not> pp_login_in_flight pr"
    using prompts_okD(2) [OF pin_invD(2) [OF inv] pr(1)] pr by (auto simp: flags_ok_def)
  have run: "closing_run e s ?t" by (rule closing_run_one [OF step_refresh_done [OF pr]]) (auto simp: closes_def)
  have inv': "pin_inv ?t" and pg: "progress s ?t" using on_refresh_done_inv [OF inv pr] progress.same_workers(1) by blast+
  have an: "answered (certificate_pin_prompt_answer e p out (pin_set p f s)) p"
    if "\<not> pp_finished (f pr)" "waiting (f pr)" for out f
    by (rule answer_answers [of _ _ "f pr"]) (use pr that in simp_all)
  show ?thesis
  proof (cases "pp_cancel_deferred pr \<or> is_cancelled e p pr \<or> pe_locked e p")
    case True
    then have "answered ?t p"
      using pr a nl an by (auto simp: on_refresh_done_def Let_def waiting_def pin_prompt_show.simps [of e p "pin_set p f s" for f])
    with run inv' pg show ?thesis by blast
  next
    case False
    then have t: "?t = pin_message e p (pin_view_of e p (?f pr) XCC_PIN_STATUS_NONE) PIN_SHOW (pin_set p ?f s)"
      using pr a by (simp add: on_refresh_done_def pin_prompt_show.simps [of e p "pin_set p f s" for f])
    have "ps_prompts ?t p = Some (?f pr)" "ps_active ?t = Some p" using pr a by (simp_all add: t)
    with window_closes [OF inv' this(1) _ _ this(2), of e] a nl obtain t where
      "closing_run e ?t t" "pin_inv t" "progress ?t t" "answered t p" by (auto simp: waiting_def)
    with closing_run_trans [OF _ run] progress.same_trans [OF pg] show ?thesis by blast
  qed
qed

lemma active_closes:
  assumes "pin_inv s" "ps_active s = Some p"
  shows "\<exists>t. closing_run e s t \<and> pin_inv t \<and> progress s t \<and> answered t p"
proof -
  obtain pr where pr: "ps_prompts s p = Some pr" "\<not> pp_finished pr"
    using queue_ok_active [OF pin_invD(3) [OF assms(1)] assms(2)] by blast
  consider "pp_refresh_in_flight pr" | "pp_login_in_flight pr" | "waiting pr" by (auto simp: waiting_def)
  then show ?thesis
    using refresh_closes [OF assms(1) pr(1)] login_closes [OF assms(1) pr(1)] window_closes [OF assms(1) pr _ assms(2)] by cases blast+
qed

lemma all_closes: "pin_inv s \<Longrightarrow> \<exists>t. closing_run e s t \<and> progress s t \<and> unanswered t = {}"
proof (induction "card (unanswered s)" arbitrary: s rule: less_induct)
  case less
  show ?case
  proof (cases "ps_active s")
    case None
    then have "unanswered s = {}" using pin_invD(3) [OF less.prems] by (auto simp: queue_ok_def unanswered_def)
    moreover have "closing_run e s s" by (rule reach_init) (rule refl)
    moreover have "progress s s" by (simp add: progress_def)
    ultimately show ?thesis by (intro exI [of _ s] conjI)
  next
    case (Some p)
    obtain u where u: "closing_run e s u" "pin_inv u" "progress s u" "answered u p" using active_closes [OF less.prems Some] by blast
    have p: "p \<in> unanswered s" using queue_ok_active [OF pin_invD(3) [OF less.prems] Some] by (simp add: unanswered_def)
    have "p \<notin> unanswered u" using u(4) by (auto simp: unanswered_def answered_def)
    then have "unanswered u \<subset> unanswered s" using p unanswered_progress [OF u(3)] by auto
    then have "card (unanswered u) < card (unanswered s)" by (rule psubset_card_mono [OF unanswered_finite [OF less.prems]])
    then obtain t where t: "closing_run e u t" "progress u t" "unanswered t = {}"
      using less.hyps [of u] u(2) by blast
    have "closing_run e s t" by (rule closing_run_trans [OF t(1) u(1)])
    moreover have "progress s t" by (rule progress.same_trans [OF u(3) t(2)])
    ultimately show ?thesis using t(3) by blast
  qed
qed

text \<open>C40 (liveness): from every state the dialogue can be in, ends of the workers in flight and dismissals of
  the window on the screen are enough to bring it, whatever the tokens and the clocks say, to a
  state in which every prompt made so far has been answered.\<close>

theorem prompts_can_be_answered:
  assumes "pin_reachable s"
  shows "\<exists>t. closing_run e s t \<and> dom (ps_prompts t) = dom (ps_prompts s) \<and>
    (\<forall>p pr. ps_prompts t p = Some pr \<longrightarrow> pp_finished pr \<and> (\<exists>outcome. Pin_done p outcome \<in> set (ps_log t)))"
proof -
  obtain t where t: "closing_run e s t" "progress s t" "unanswered t = {}" using all_closes [OF pin.reach_inv [OF assms]] by blast
  have inv: "pin_inv t"
    using t(1) by (induction rule: reach.induct) (auto simp: closing_step_def pin.reach_inv [OF assms] intro: pin_inv_step)
  have "pp_finished pr \<and> (\<exists>outcome. Pin_done p outcome \<in> set (ps_log t))" if "ps_prompts t p = Some pr" for p pr
  proof -
    have pr: "ps_prompts t p = Some pr" by (rule that)
    then have fin: "pp_finished pr" using t(3) by (auto simp: unanswered_def)
    have "\<exists>outcome. Pin_done p outcome \<in> set (entries p t)"
      using prompts_okD(3) [OF pin_invD(2) [OF inv] pr] fin by (auto simp: entries_ok_def pin_closing_def)
    then show ?thesis using fin by (auto simp: entries_def)
  qed
  with t show ?thesis unfolding progress_def by blast
qed

section \<open>A dialogue\<close>

text \<open>A reader with its own keypad whose token has one try left: the window is ready, the user agrees to
  the last attempt, and a login is started.\<close>

definition sample_pin_env :: pin_env where
  "sample_pin_env = \<lparr>pe_unicode = sample_unicode, pe_provider = True, pe_needs_display = False, pe_has_display = False,
     pe_login_timeout_seconds = 0, pe_cancelled = (\<lambda>_. False), pe_count_low = (\<lambda>_. False), pe_final_try = (\<lambda>_. True),
     pe_locked = (\<lambda>_. False)\<rparr>"

definition sample_pin_request :: pin_request where
  "sample_pin_request = \<lparr>pr_token = sample_token\<lparr>tk_protected_authentication_path := True\<rparr>, pr_context_specific = False,
     pr_parent_window = None, pr_caller_display = None, pr_purpose_display = None, pr_refresh = False, pr_abandon = False,
     pr_cancellable = False\<rparr>"

definition sample_shown :: pin_state where
  "sample_shown = certificate_pin_login_full_kind sample_pin_env sample_pin_request pin_start"

definition sample_warned :: pin_state where
  "sample_warned = ui_reply sample_pin_env 1 Reply_ready sample_shown"

definition sample_agreed :: pin_state where
  "sample_agreed = ui_reply sample_pin_env 1 (Reply_warning 1 True) sample_warned"

lemma sample_states_reachable: "pin_reachable sample_shown" "pin_reachable sample_warned" "pin_reachable sample_agreed"
proof -
  have start: "pin_reachable pin_start" by (rule reach_init) simp
  show shown: "pin_reachable sample_shown" unfolding sample_shown_def by (rule reach_step [OF start step_login])
  show warned: "pin_reachable sample_warned" unfolding sample_warned_def by (rule reach_step [OF shown step_reply])
  show "pin_reachable sample_agreed" unfolding sample_agreed_def by (rule reach_step [OF warned step_reply])
qed

lemmas sample_ui = ui_update_def ui_post_def ui_interaction_def ui_find_def pin_note_def pin_set_def Let_def

lemma sample_shown_facts:
  "ps_prompts sample_shown 0 = Some (pin_prompt_new sample_pin_request)"
  "ps_interactions sample_shown = [(1, \<lparr>in_prompt = 0, in_shown = True, in_ready = False, in_warning_id = 0\<rparr>)]"
  "submissions 0 sample_shown = []"
  by (simp_all add: sample_shown_def certificate_pin_login_full_kind_def sample_pin_env_def sample_pin_request_def pin_prompt_new_def
      pin_start_def pin_prompt_start.simps pin_prompt_show.simps is_cancelled_def pin_message_def sample_ui submissions_def)

lemma sample_warned_facts:
  "ps_prompts sample_warned 0 = Some ((pin_prompt_new sample_pin_request)\<lparr>pp_warning_pending := True\<rparr>)"
  "ps_interactions sample_warned = [(1, \<lparr>in_prompt = 0, in_shown = True, in_ready = True, in_warning_id = 1\<rparr>)]"
  "submissions 0 sample_warned = []"
  by (simp_all add: sample_warned_def ui_reply_def sample_shown_facts certificate_pin_prompt_submit_def pin_prompt_new_def
      sample_pin_request_def sample_pin_env_def is_cancelled_def ui_warning_def sample_ui sample_shown_facts(3) [unfolded submissions_def] submissions_def)

lemma sample_agreed_facts:
  "\<exists>pr. ps_prompts sample_agreed 0 = Some pr \<and> pp_attempts pr = 1 \<and> pp_protected_path_confirmed pr \<and> \<not> pp_finished pr \<and> pp_protected_path pr"
  "submissions 0 sample_agreed = [Login_started 0 None]"
  by (simp_all add: sample_agreed_def ui_reply_def sample_warned_facts certificate_pin_prompt_warning_reply_def certificate_pin_prompt_submit_def
      pin_prompt_new_def sample_pin_request_def sample_pin_env_def set_busy_def pin_update_def pin_message_def sample_ui
      sample_warned_facts(3) [unfolded submissions_def] submissions_def)

theorem prompts_answered_once_witness:
  "(0 \<in> set (ps_queue sample_agreed) \<or> ps_active sample_agreed = Some 0) \<and> (\<exists>pins. entries 0 sample_agreed = map (Login_started 0) pins)"
proof -
  from sample_agreed_facts(1) obtain pr where pr: "ps_prompts sample_agreed 0 = Some pr" "\<not> pp_finished pr" by blast
  note all = prompts_answered_once [OF sample_states_reachable(3)]
  from all pr have "0 \<in> set (ps_queue sample_agreed) \<or> ps_active sample_agreed = Some 0" by blast
  moreover from all pr have "\<exists>pins. entries 0 sample_agreed = map (Login_started 0) pins" by (metis (no_types, lifting))
  ultimately show ?thesis by blast
qed

theorem submissions_bounded_witness:
  "\<exists>pr. ps_prompts sample_agreed 0 = Some pr \<and> pp_attempts pr = 1 \<and> length (submissions 0 sample_agreed) = 1"
proof -
  from sample_agreed_facts(1) obtain pr where pr: "ps_prompts sample_agreed 0 = Some pr" "pp_attempts pr = 1" by blast
  with submissions_bounded [OF sample_states_reachable(3) pr(1)] show ?thesis by simp
qed

theorem last_try_needs_agreement_witness:
  "submissions 0 sample_agreed \<noteq> submissions 0 sample_warned \<and> accepts_warning sample_warned 0 (Ev_reply 1 (Reply_warning 1 True))"
proof -
  have "submissions 0 sample_agreed \<noteq> submissions 0 sample_warned" by (simp add: sample_agreed_facts sample_warned_facts)
  moreover have "pe_final_try sample_pin_env 0" "pp_protected_path (pin_prompt_new sample_pin_request)"
    "\<not> pp_protected_path_confirmed (pin_prompt_new sample_pin_request)"
    by (simp_all add: sample_pin_env_def pin_prompt_new_def sample_pin_request_def)
  moreover have "accepts_warning sample_warned 0 (Ev_reply 1 (Reply_warning 1 True))"
    using last_try_needs_agreement [OF sample_states_reachable(2) step_reply [of sample_warned sample_pin_env 1 "Reply_warning 1 True", folded sample_agreed_def]
        sample_warned_facts(1), THEN conjunct1] calculation
    by simp
  ultimately show ?thesis by blast
qed

theorem prompts_can_be_answered_witness:
  "\<exists>t. closing_run sample_pin_env sample_agreed t \<and> (\<exists>outcome. Pin_done 0 outcome \<in> set (ps_log t))"
proof -
  from prompts_can_be_answered [OF sample_states_reachable(3), of sample_pin_env] obtain t where
    t: "closing_run sample_pin_env sample_agreed t" "dom (ps_prompts t) = dom (ps_prompts sample_agreed)"
    "\<forall>p pr. ps_prompts t p = Some pr \<longrightarrow> pp_finished pr \<and> (\<exists>outcome. Pin_done p outcome \<in> set (ps_log t))" by auto
  have "0 \<in> dom (ps_prompts t)" using sample_agreed_facts(1) t(2) by auto
  then show ?thesis using t(1,3) by auto
qed

end
