(* ===== verification/Device.thy ===== *)
theory Device
  imports TokenFilter
begin

text \<open>
  The device of a grant (\<open>src/broker/device.c\<close>): the PKCS#11 session on the token of the grant's
  certificate, its private key, and the operations on them.  The device is a record of the
  C structure's fields; the state \<open>'w\<close> of the tokens is passed along.  The invariant is that an open
  device is bound to one candidate: its session was opened on that candidate's token and its key
  was found there under that candidate's identifier.
\<close>

section \<open>The device\<close>

record certificate_device =
  dv_module :: "ck_module option"
  dv_session :: ck_ulong
  dv_private_key :: ck_ulong
  dv_logged_in :: bool
  dv_candidate :: "certificate_candidate option"

text \<open>As \<open>xcc_session_init\<close> leaves it.\<close>

definition device_start :: certificate_device where
  "device_start = \<lparr>dv_module = None, dv_session = CK_INVALID_HANDLE, dv_private_key = CK_INVALID_HANDLE,
     dv_logged_in = False, dv_candidate = None\<rparr>"

text \<open>Called with a module: \<open>md\<close> is \<open>device->module\<close>.  A failed search leaves the key alone.\<close>

definition find_private_key ::
  "'w discovery_env \<Rightarrow> ck_module \<Rightarrow> certificate_device \<Rightarrow> certificate_candidate \<Rightarrow> 'w \<Rightarrow> certificate_device \<times> 'w" where
  "find_private_key D md d c w =
     (case certificate_pkcs11_find_objects (d_functions D) md (dv_session d)
          (key_template CKO_PRIVATE_KEY (case cd_cka_id c of None \<Rightarrow> [] | Some i \<Rightarrow> i)) w of
        (w1, Inr (key # _)) \<Rightarrow> (d\<lparr>dv_private_key := key\<rparr>, w1)
      | (w1, _) \<Rightarrow> (d, w1))"

definition device_is_bound_to :: "certificate_device \<Rightarrow> certificate_candidate \<Rightarrow> bool" where
  "device_is_bound_to d c =
     (case dv_candidate d of
        None \<Rightarrow> False
      | Some dc \<Rightarrow> cd_certificate_id dc = cd_certificate_id c \<and> certificate_token_same (cd_token dc) (cd_token c))"

definition certificate_device_close :: "'w discovery_env \<Rightarrow> certificate_device \<Rightarrow> 'w \<Rightarrow> certificate_device \<times> 'w" where
  "certificate_device_close D d w =
     (case dv_module d of
        None \<Rightarrow> (d\<lparr>dv_candidate := None\<rparr>, w)
      | Some md \<Rightarrow>
          (d\<lparr>dv_candidate := None, dv_module := None, dv_session := CK_INVALID_HANDLE,
             dv_private_key := CK_INVALID_HANDLE, dv_logged_in := False\<rparr>,
           if dv_session d \<noteq> CK_INVALID_HANDLE then f_CloseSession (d_functions D) md (dv_session d) w else w))"

definition device_note_login :: "bool \<Rightarrow> certificate_device \<Rightarrow> certificate_device" where
  "device_note_login logged_in d =
     (if dv_logged_in d \<and> \<not> logged_in then d\<lparr>dv_private_key := CK_INVALID_HANDLE\<rparr> else d)\<lparr>dv_logged_in := logged_in\<rparr>"

text \<open>An open device has a candidate (\<open>device_bound\<close> below); without one the search would read \<open>NULL\<close>.\<close>

definition certificate_device_refresh_login ::
  "'w discovery_env \<Rightarrow> certificate_device \<Rightarrow> 'w \<Rightarrow> (certificate_device \<times> 'w) \<times> (pkcs11_error + unit)" where
  "certificate_device_refresh_login D d w0 =
     (case dv_module d of
        None \<Rightarrow> ((d, w0), Inl CERTIFICATE_PKCS11_ERROR_TOKEN_REMOVED)
      | Some md \<Rightarrow>
          if dv_session d = CK_INVALID_HANDLE then ((d, w0), Inl CERTIFICATE_PKCS11_ERROR_TOKEN_REMOVED)
          else (case f_GetSessionInfo (d_functions D) md (dv_session d) w0 of
              (w1, rv, info) \<Rightarrow>
                if rv \<noteq> CKR_OK then ((d, w1), Inl (certificate_pkcs11_error_code rv))
                else
                  let logged_in = (sei_state info = CKS_RO_USER_FUNCTIONS \<or> sei_state info = CKS_RW_USER_FUNCTIONS);
                      d2 = device_note_login logged_in d
                  in case dv_candidate d2 of
                       Some c \<Rightarrow>
                         if logged_in \<and> dv_private_key d2 = CK_INVALID_HANDLE
                         then (find_private_key D md d2 c w1, Inr ()) else ((d2, w1), Inr ())
                     | None \<Rightarrow> ((d2, w1), Inr ())))"

definition certificate_device_open ::
  "'w discovery_env \<Rightarrow> certificate_tokens \<Rightarrow> certificate_candidate \<Rightarrow> certificate_device \<Rightarrow> 'w
     \<Rightarrow> (certificate_device \<times> 'w) \<times> (pkcs11_error + unit)" where
  "certificate_device_open D ts c d w0 =
     (if dv_module d \<noteq> None \<and> device_is_bound_to d c then certificate_device_refresh_login D d w0
      else
        let (d1, w1) = (case dv_module d of None \<Rightarrow> (d, w0) | Some _ \<Rightarrow> certificate_device_close D d w0);
            d2 = d1\<lparr>dv_private_key := CK_INVALID_HANDLE, dv_session := CK_INVALID_HANDLE\<rparr>
        in case certificate_tokens_open_session D ts (cd_token c) w1 of
             (w2, Inl e) \<Rightarrow> ((d2\<lparr>dv_module := None\<rparr>, w2), Inl e)
           | (w2, Inr (md, session)) \<Rightarrow>
               (let d3 = d2\<lparr>dv_module := Some md, dv_session := session, dv_logged_in := False, dv_candidate := Some c\<rparr>
                in case find_private_key D md d3 c w2 of
                     (d4, w3) \<Rightarrow> certificate_device_refresh_login D d4 w3))"

text \<open>\<open>pin\<close> is \<open>NULL\<close> for the protected path; its length is that of the C string.\<close>

definition certificate_device_login ::
  "'w discovery_env \<Rightarrow> certificate_candidate \<Rightarrow> bytes option \<Rightarrow> certificate_device \<Rightarrow> 'w
     \<Rightarrow> (certificate_device \<times> 'w) \<times> (pkcs11_error + unit)" where
  "certificate_device_login D c pin d w0 =
     (case dv_module d of
        None \<Rightarrow> ((d, w0), Inl CERTIFICATE_PKCS11_ERROR_TOKEN_REMOVED)
      | Some md \<Rightarrow>
          if dv_session d = CK_INVALID_HANDLE then ((d, w0), Inl CERTIFICATE_PKCS11_ERROR_TOKEN_REMOVED)
          else (case f_Login (d_functions D) md (dv_session d) CKU_USER pin w0 of
              (w1, rv) \<Rightarrow>
                if rv \<noteq> CKR_OK \<and> rv \<noteq> CKR_USER_ALREADY_LOGGED_IN
                then ((d, w1), Inl (certificate_pkcs11_error_code rv))
                else
                  let d1 = d\<lparr>dv_logged_in := True\<rparr>
                  in (if dv_private_key d1 = CK_INVALID_HANDLE then find_private_key D md d1 c w1 else (d1, w1), Inr ())))"

definition certificate_device_login_context ::
  "'w discovery_env \<Rightarrow> bytes option \<Rightarrow> certificate_device \<Rightarrow> 'w \<Rightarrow> (certificate_device \<times> 'w) \<times> (pkcs11_error + unit)" where
  "certificate_device_login_context D pin d w0 =
     (case dv_module d of
        None \<Rightarrow> ((d, w0), Inl CERTIFICATE_PKCS11_ERROR_TOKEN_REMOVED)
      | Some md \<Rightarrow>
          if dv_session d = CK_INVALID_HANDLE then ((d, w0), Inl CERTIFICATE_PKCS11_ERROR_TOKEN_REMOVED)
          else (case f_Login (d_functions D) md (dv_session d) CKU_CONTEXT_SPECIFIC pin w0 of
              (w1, rv) \<Rightarrow>
                ((d, w1), if rv \<noteq> CKR_OK then Inl (certificate_pkcs11_error_code rv) else Inr ())))"

section \<open>One operation\<close>

definition device_init ::
  "'w discovery_env \<Rightarrow> ck_module \<Rightarrow> bool \<Rightarrow> certificate_device \<Rightarrow> certificate_mechanism \<Rightarrow> 'w \<Rightarrow> 'w \<times> ck_rv" where
  "device_init D md decrypt d mechanism w =
     (if decrypt then f_DecryptInit (d_functions D) md (dv_session d) (certificate_mechanism_to_ck mechanism) (dv_private_key d) w
      else f_SignInit (d_functions D) md (dv_session d) (certificate_mechanism_to_ck mechanism) (dv_private_key d) w)"

definition device_run ::
  "'w discovery_env \<Rightarrow> ck_module \<Rightarrow> bool \<Rightarrow> certificate_device \<Rightarrow> bytes \<Rightarrow> ck_ulong option \<Rightarrow> 'w \<Rightarrow> 'w \<times> ck_rv \<times> ck_ulong \<times> bytes" where
  "device_run D md decrypt d payload room w =
     (if decrypt then f_Decrypt (d_functions D) md (dv_session d) payload room w
      else f_Sign (d_functions D) md (dv_session d) payload room w)"

text \<open>
  The two calls after the initialisation: the size, then the output into a buffer of that many
  zeros.  The output is as long as the second call says; what lies past the buffer is the memory
  after it (\<open>d_junk\<close>).
\<close>

definition device_output ::
  "'w discovery_env \<Rightarrow> ck_module \<Rightarrow> bool \<Rightarrow> certificate_device \<Rightarrow> bytes \<Rightarrow> 'w \<Rightarrow> 'w \<times> (pkcs11_error + bytes)" where
  "device_output D md decrypt d payload w0 =
     (case device_run D md decrypt d payload None w0 of
        (w1, rv, n, _) \<Rightarrow>
          if rv \<noteq> CKR_OK then (w1, Inl (certificate_pkcs11_error_code rv))
          else (case device_run D md decrypt d payload (Some n) w1 of
              (w2, rv2, n2, written) \<Rightarrow>
                if rv2 \<noteq> CKR_OK then (w2, Inl (certificate_pkcs11_error_code rv2))
                else
                  let buffer = overwrite (replicate (unat n) 0) written
                  in (w2, Inr (map (\<lambda>i. if i < unat n then buffer ! i else d_junk D i) [0..<unat n2]))))"

text \<open>
  \<open>certificate_device_perform\<close> in two halves, around its \<open>authenticate\<close>.  \<open>None\<close> for the result of the
  first half says that the key wants an authentication of its own now.
\<close>

definition perform_begin ::
  "'w discovery_env \<Rightarrow> bool \<Rightarrow> certificate_mechanism \<Rightarrow> bytes \<Rightarrow> certificate_device \<Rightarrow> 'w \<Rightarrow> 'w \<times> (pkcs11_error + bytes) option" where
  "perform_begin D decrypt mechanism payload d w0 =
     (case dv_module d of
        None \<Rightarrow> (w0, Some (Inl CERTIFICATE_PKCS11_ERROR_TOKEN_REMOVED))
      | Some md \<Rightarrow>
          if dv_private_key d = CK_INVALID_HANDLE then (w0, Some (Inl CERTIFICATE_PKCS11_ERROR_NO_PRIVATE_KEY))
          else (case certificate_pkcs11_get_bool (d_functions D) md (dv_session d) (dv_private_key d)
                CKA_ALWAYS_AUTHENTICATE False w0 of
            (w1, always_authenticate) \<Rightarrow>
              (case device_init D md decrypt d mechanism w1 of
                 (w2, rv) \<Rightarrow>
                   if rv \<noteq> CKR_OK then (w2, Some (Inl (certificate_pkcs11_error_code rv)))
                   else if \<not> always_authenticate
                   then (case device_output D md decrypt d payload w2 of (w3, r) \<Rightarrow> (w3, Some r))
                   else (w2, None))))"

text \<open>The code goes on with the device as it is then: \<open>None\<close> is a \<open>NULL\<close> module at that point.\<close>

definition perform_end ::
  "'w discovery_env \<Rightarrow> bool \<Rightarrow> bytes \<Rightarrow> pkcs11_error + unit \<Rightarrow> certificate_device \<Rightarrow> 'w
     \<Rightarrow> ((certificate_device \<times> 'w) \<times> (pkcs11_error + bytes)) option" where
  "perform_end D decrypt payload authenticated d w =
     (case authenticated of
        Inl e \<Rightarrow> Some (certificate_device_close D d w, Inl e)
      | Inr _ \<Rightarrow>
          (case dv_module d of
             None \<Rightarrow> None
           | Some md \<Rightarrow> (case device_output D md decrypt d payload w of (w1, r) \<Rightarrow> Some ((d, w1), r))))"

type_synonym 'w device_authenticate = "certificate_device \<times> 'w \<Rightarrow> (certificate_device \<times> 'w) \<times> (pkcs11_error + unit)"

text \<open>\<open>authenticate\<close> may release the device's lock and so change the device.\<close>

definition certificate_device_perform ::
  "'w discovery_env \<Rightarrow> bool \<Rightarrow> certificate_mechanism \<Rightarrow> bytes \<Rightarrow> 'w device_authenticate option \<Rightarrow> certificate_device \<Rightarrow> 'w
     \<Rightarrow> ((certificate_device \<times> 'w) \<times> (pkcs11_error + bytes)) option" where
  "certificate_device_perform D decrypt mechanism payload authenticate d w0 =
     (case perform_begin D decrypt mechanism payload d w0 of
        (w1, Some r) \<Rightarrow> Some ((d, w1), r)
      | (w1, None) \<Rightarrow>
          (case authenticate of
             None \<Rightarrow> Some (certificate_device_close D d w1, Inl CERTIFICATE_PKCS11_ERROR_FAILED)
           | Some auth \<Rightarrow> (case auth (d, w1) of ((d2, w2), r) \<Rightarrow> perform_end D decrypt payload r d2 w2)))"

section \<open>What an open device is bound to\<close>

text \<open>
  \<open>key_found D md session c key\<close>: a search in this session for the private key with the identifier
  of \<open>c\<close> gave this handle first.
\<close>

definition key_found :: "'w discovery_env \<Rightarrow> ck_module \<Rightarrow> ck_ulong \<Rightarrow> certificate_candidate \<Rightarrow> ck_ulong \<Rightarrow> bool" where
  "key_found D md session c key \<longleftrightarrow>
     (\<exists>w w1 keys. certificate_pkcs11_find_objects (d_functions D) md session
        (key_template CKO_PRIVATE_KEY (case cd_cka_id c of None \<Rightarrow> [] | Some i \<Rightarrow> i)) w = (w1, Inr (key # keys)))"

definition device_bound :: "'w discovery_env \<Rightarrow> certificate_tokens \<Rightarrow> certificate_device \<Rightarrow> bool" where
  "device_bound D ts d =
     (case dv_module d of
        None \<Rightarrow> dv_candidate d = None \<and> dv_session d = CK_INVALID_HANDLE \<and>
          dv_private_key d = CK_INVALID_HANDLE \<and> \<not> dv_logged_in d
      | Some md \<Rightarrow> \<exists>c w. dv_candidate d = Some c \<and> md \<in> set (module_list D ts) \<and>
          opened_on D ts (cd_token c) md CKR_OK (dv_session d) w \<and>
          (dv_private_key d \<noteq> CK_INVALID_HANDLE \<longrightarrow>
            (\<exists>kc. device_is_bound_to d kc \<and> key_found D md (dv_session d) kc (dv_private_key d))))"

lemma device_bound_start: "device_bound D ts device_start"
  by (simp add: device_bound_def device_start_def)

lemma device_bound_close: "certificate_device_close D d w = (d', w') \<Longrightarrow> device_bound D ts d \<Longrightarrow> device_bound D ts d'"
  by (auto simp: certificate_device_close_def device_bound_def split: option.splits)

lemma device_bound_logged_in: "device_bound D ts d \<Longrightarrow> dv_module d \<noteq> None \<Longrightarrow> device_bound D ts (d\<lparr>dv_logged_in := b\<rparr>)"
  by (auto simp: device_bound_def device_is_bound_to_def split: option.splits)

lemma device_bound_no_key: "device_bound D ts d \<Longrightarrow> device_bound D ts (d\<lparr>dv_private_key := CK_INVALID_HANDLE\<rparr>)"
  by (auto simp: device_bound_def split: option.splits)

lemma device_bound_find:
  assumes "find_private_key D md d c w = (d', w')" and "device_bound D ts d" and "dv_module d = Some md"
    and "device_is_bound_to d c"
  shows "device_bound D ts d' \<and> dv_module d' = Some md"
proof -
  obtain w1 r where f: "certificate_pkcs11_find_objects (d_functions D) md (dv_session d)
      (key_template CKO_PRIVATE_KEY (case cd_cka_id c of None \<Rightarrow> [] | Some i \<Rightarrow> i)) w = (w1, r)" by fastforce
  show ?thesis
  proof (cases "\<exists>key keys. r = Inr (key # keys)")
    case True
    then obtain key keys where r: "r = Inr (key # keys)" by auto
    with assms(1) f have d': "d' = d\<lparr>dv_private_key := key\<rparr>" by (simp add: find_private_key_def)
    have "key_found D md (dv_session d) c key" using f r by (auto simp: key_found_def)
    moreover have "device_is_bound_to d' c" using assms(4) d' by (simp add: device_is_bound_to_def)
    ultimately show ?thesis using assms(2,3) d' by (auto simp: device_bound_def)
  next
    case False
    with assms f show ?thesis by (auto simp: find_private_key_def split: sum.splits list.splits)
  qed
qed

lemma token_same_right: "certificate_token_same a b \<Longrightarrow> certificate_token_same b b"
  by (cases a; cases b) (simp_all add: certificate_token_same_def split: if_splits)

lemma device_bound_candidate:
  assumes "device_bound D ts d" and "dv_module d = Some md" and "dv_candidate d = Some c"
  shows "device_is_bound_to d c"
proof -
  from assms obtain w where "opened_on D ts (cd_token c) md CKR_OK (dv_session d) w"
    by (auto simp: device_bound_def)
  then obtain present where "certificate_token_same (Some present) (cd_token c)"
    unfolding opened_on_def by blast
  then have "certificate_token_same (cd_token c) (cd_token c)" by (rule token_same_right)
  with assms(3) show ?thesis by (simp add: device_is_bound_to_def)
qed

lemma device_bound_refresh:
  assumes "certificate_device_refresh_login D d w = ((d', w'), r)" and "device_bound D ts d"
  shows "device_bound D ts d' \<and> dv_module d' = dv_module d"
proof (cases "dv_module d")
  case (Some md)
  obtain w1 rv info where g: "f_GetSessionInfo (d_functions D) md (dv_session d) w = (w1, rv, info)" by (rule prod_cases3)
  from assms(2) Some obtain c where c: "dv_candidate d = Some c" by (auto simp: device_bound_def)
  show ?thesis
  proof (cases "dv_session d = CK_INVALID_HANDLE \<or> rv \<noteq> CKR_OK")
    case False
    let ?li = "sei_state info = CKS_RO_USER_FUNCTIONS \<or> sei_state info = CKS_RW_USER_FUNCTIONS"
    let ?d2 = "device_note_login ?li d"
    have d2: "device_bound D ts ?d2" "dv_module ?d2 = Some md" "dv_candidate ?d2 = Some c"
      using assms(2) Some c by (auto simp: device_note_login_def intro!: device_bound_logged_in device_bound_no_key)
    have r: "certificate_device_refresh_login D d w = (if ?li \<and> dv_private_key ?d2 = CK_INVALID_HANDLE
        then (find_private_key D md ?d2 c w1, Inr ()) else ((?d2, w1), Inr ()))"
      using False Some g d2(3) unfolding certificate_device_refresh_login_def Let_def by simp
    show ?thesis
      using device_bound_find [OF _ d2(1,2) device_bound_candidate [OF d2], of w1 d' w'] assms(1) d2 Some
      unfolding r by (simp split: if_splits)
  qed (use assms Some g in \<open>auto simp: certificate_device_refresh_login_def split: if_splits\<close>)
qed (use assms in \<open>auto simp: certificate_device_refresh_login_def\<close>)

lemma device_bound_open:
  assumes "certificate_device_open D ts c d w = ((d', w'), r)" and "device_bound D ts d"
  shows "device_bound D ts d'"
proof (cases "dv_module d \<noteq> None \<and> device_is_bound_to d c")
  case True
  with assms device_bound_refresh [of D d w d' w' r ts] show ?thesis
    by (simp add: certificate_device_open_def)
next
  case False
  obtain d1 w1 where d1: "(case dv_module d of None \<Rightarrow> (d, w) | Some _ \<Rightarrow> certificate_device_close D d w) = (d1, w1)" by fastforce
  have b1: "device_bound D ts d1 \<and> dv_module d1 = None"
    using d1 assms(2) device_bound_close [of D d w d1 w1 ts]
    by (auto simp: certificate_device_close_def split: if_splits option.splits)
  let ?d2 = "d1\<lparr>dv_private_key := CK_INVALID_HANDLE, dv_session := CK_INVALID_HANDLE\<rparr>"
  obtain w2 q where o: "certificate_tokens_open_session D ts (cd_token c) w1 = (w2, q)" by fastforce
  have F: "(dv_module d \<noteq> None \<and> device_is_bound_to d c) = False" using False by simp
  note eq = certificate_device_open_def [of D ts c d w, unfolded F if_False d1 Let_def prod.case o]
  show ?thesis
  proof (cases q)
    case (Inl e)
    with assms(1) eq have "d' = ?d2\<lparr>dv_module := None\<rparr>" by simp
    with b1 show ?thesis by (auto simp: device_bound_def)
  next
    case (Inr ms)
    obtain md session where ms: "ms = (md, session)" by (cases ms)
    let ?d3 = "?d2\<lparr>dv_module := Some md, dv_session := session, dv_logged_in := False, dv_candidate := Some c\<rparr>"
    have oo: "md \<in> set (module_list D ts)" "opened_on D ts (cd_token c) md CKR_OK session w2"
      using open_session_result [OF o] Inr ms by simp_all
    have b3: "device_bound D ts ?d3" "dv_module ?d3 = Some md" "dv_candidate ?d3 = Some c"
      using oo by (auto simp: device_bound_def)
    obtain d4 w3 where f: "find_private_key D md ?d3 c w2 = (d4, w3)" by fastforce
    have b4: "device_bound D ts d4"
      using device_bound_find [OF f b3(1,2) device_bound_candidate [OF b3]] by simp
    from assms(1) eq Inr ms f have "certificate_device_refresh_login D d4 w3 = ((d', w'), r)" by simp
    from device_bound_refresh [OF this b4] show ?thesis by simp
  qed
qed

lemma device_bound_login:
  assumes "certificate_device_login D c pin d w = ((d', w'), r)" and "device_bound D ts d"
    and "device_is_bound_to d c"
  shows "device_bound D ts d'"
proof (cases "dv_module d")
  case (Some md)
  obtain w1 rv where l: "f_Login (d_functions D) md (dv_session d) CKU_USER pin w = (w1, rv)" by fastforce
  let ?d1 = "d\<lparr>dv_logged_in := True\<rparr>"
  have b: "device_bound D ts ?d1" "dv_module ?d1 = Some md" "device_is_bound_to ?d1 c"
    using device_bound_logged_in [OF assms(2)] Some assms(3) by (auto simp: device_is_bound_to_def)
  from assms(1,2) Some l b(1) device_bound_find [OF _ b, of w1 d' w'] show ?thesis
    by (auto simp: certificate_device_login_def Let_def split: if_splits)
qed (use assms in \<open>auto simp: certificate_device_login_def\<close>)

lemma login_context_device: "certificate_device_login_context D pin d w = ((d', w'), r) \<Longrightarrow> d' = d"
  by (auto simp: certificate_device_login_context_def split: option.splits if_splits prod.splits)

text \<open>An operation leaves the device as it was, as the authentication left it, or closed.\<close>

lemma perform_device:
  assumes "certificate_device_perform D decrypt mechanism payload authenticate d w = Some ((d', w'), r)"
  shows "\<exists>d0 w0. (d0 = d \<or> (\<exists>auth w2. authenticate = Some auth \<and> d0 = fst (fst (auth (d, w2))))) \<and>
    (d' = d0 \<or> d' = fst (certificate_device_close D d0 w0))"
proof -
  obtain w1 b where b: "perform_begin D decrypt mechanism payload d w = (w1, b)" by fastforce
  show ?thesis
  proof (cases "b \<noteq> None \<or> authenticate = None")
    case True
    with assms b have "d' = d \<or> (d', w') = certificate_device_close D d w1"
      by (auto simp: certificate_device_perform_def split: option.splits)
    then show ?thesis by (metis fst_conv)
  next
    case False
    then obtain auth where a: "authenticate = Some auth" and n: "b = None" by auto
    obtain d2 w2 q where q: "auth (d, w1) = ((d2, w2), q)" by (metis prod.exhaust)
    from assms b a n q have "d' = d2 \<or> (d', w') = certificate_device_close D d2 w2"
      by (auto simp: certificate_device_perform_def perform_end_def split: sum.splits option.splits prod.splits)
    with a q show ?thesis by (metis fst_conv)
  qed
qed

section \<open>The device over time\<close>

text \<open>
  The operations that change a device, in any order and with any behaviour of the tokens
  between them; an ordinary login is made with a candidate the device is bound to
  (\<open>do_login\<close> opens it first), and an operation changes the device only by its authentication and by
  closing it (\<open>perform_device\<close>).
\<close>

datatype device_call = Dev_open certificate_candidate | Dev_refresh_login | Dev_login certificate_candidate "bytes option"
  | Dev_login_context "bytes option" | Dev_close

inductive device_step ::
  "'w discovery_env \<Rightarrow> certificate_tokens \<Rightarrow> certificate_device \<Rightarrow> device_call \<Rightarrow> certificate_device \<Rightarrow> bool"
  for D ts where
  step_open: "certificate_device_open D ts c d w = ((d', w'), r) \<Longrightarrow> device_step D ts d (Dev_open c) d'"
| step_refresh: "certificate_device_refresh_login D d w = ((d', w'), r) \<Longrightarrow> device_step D ts d Dev_refresh_login d'"
| step_login: "device_is_bound_to d c \<Longrightarrow> certificate_device_login D c pin d w = ((d', w'), r)
    \<Longrightarrow> device_step D ts d (Dev_login c pin) d'"
| step_context: "certificate_device_login_context D pin d w = ((d', w'), r) \<Longrightarrow> device_step D ts d (Dev_login_context pin) d'"
| step_close: "certificate_device_close D d w = (d', w') \<Longrightarrow> device_step D ts d Dev_close d'"

inductive_cases device_stepE: "device_step D ts d l d'"

interpretation dev: step_invariant "\<lambda>d. d = device_start" "device_step D ts" "device_bound D ts" for D ts
  by unfold_locales (auto simp: device_bound_start elim!: device_stepE
      dest: device_bound_open device_bound_refresh device_bound_login login_context_device device_bound_close)

text \<open>C30 (invariant): after any sequence of openings, logins, refreshes and closings, an open device holds one
  candidate, its session was opened on that candidate's token, found again by its identity, and
  its key handle, unless there is none, came from a search in that very session for the private
  key of the same certificate on the same token; a closed device holds nothing.\<close>

theorem device_bound_to_one_credential:
  assumes "reach (\<lambda>d. d = device_start) (device_step D ts) d"
  shows "case dv_module d of
      None \<Rightarrow> dv_candidate d = None \<and> dv_session d = CK_INVALID_HANDLE \<and> dv_private_key d = CK_INVALID_HANDLE \<and> \<not> dv_logged_in d
    | Some md \<Rightarrow> \<exists>c w. dv_candidate d = Some c \<and> md \<in> set (module_list D ts) \<and>
        opened_on D ts (cd_token c) md CKR_OK (dv_session d) w \<and>
        (dv_private_key d \<noteq> CK_INVALID_HANDLE \<longrightarrow>
          (\<exists>kc. cd_certificate_id c = cd_certificate_id kc \<and> certificate_token_same (cd_token c) (cd_token kc) \<and>
             key_found D md (dv_session d) kc (dv_private_key d)))"
  using dev.reach_inv [OF assms]
  by (auto simp: device_bound_def device_is_bound_to_def split: option.splits)

lemma sample_device_open:
  "certificate_device_open sample_discovery sample_tokens sample_candidate device_start (0, False) =
     ((\<lparr>dv_module = Some 3, dv_session = 9, dv_private_key = 5, dv_logged_in = False, dv_candidate = Some sample_candidate\<rparr>,
       (0, False)), Inr ())"
proof -
  have t: "cd_token sample_candidate = Some sample_token" by (simp add: sample_candidate_def)
  have g: "f_GetSessionInfo sample_functions m h w = (w, CKR_OK, \<lparr>sei_slotID = 7,
      sei_state = (if snd w then CKS_RO_USER_FUNCTIONS else CKS_RO_PUBLIC_SESSION), sei_flags = 0, sei_ulDeviceError = 0\<rparr>)" for m h w
    by (simp add: sample_functions_def)
  show ?thesis
    by (simp add: certificate_device_open_def device_start_def t sample_open find_private_key_def sample_fields sample_find
        certificate_device_refresh_login_def g device_note_login_def)
qed

theorem device_bound_to_one_credential_witness:
  "\<exists>kc w. key_found sample_discovery 3 9 kc 5 \<and> opened_on sample_discovery sample_tokens (Some sample_token) 3 CKR_OK 9 w"
proof -
  let ?d = "\<lparr>dv_module = Some 3, dv_session = 9, dv_private_key = 5, dv_logged_in = False, dv_candidate = Some sample_candidate\<rparr>"
  have "reach (\<lambda>d. d = device_start) (device_step sample_discovery sample_tokens) ?d"
    by (rule reach_step) (rule reach_init, rule refl, rule step_open, rule sample_device_open)
  from device_bound_to_one_credential [OF this] show ?thesis
    by (auto simp: sample_candidate_def)
qed

end
