(* ===== verification/Session.thy ===== *)
theory Session
  imports Device Display
begin

text \<open>
  The session of an application with the backend (\<open>src/core/session.c\<close>, \<open>session-private.h\<close>): its
  owner and the identity the frontend vouched for, its grant, the device, and the bookkeeping
  of the PIN dialogue its operations share.  Here are the functions of one session; the operations
  on its grant are in \<open>Operations\<close>.
\<close>

abbreviation CERTIFICATE_EXPIRY_GRACE_SECONDS :: guint where "CERTIFICATE_EXPIRY_GRACE_SECONDS \<equiv> 30"
abbreviation CERTIFICATE_MAX_DECRYPTS_PER_GRANT :: guint where "CERTIFICATE_MAX_DECRYPTS_PER_GRANT \<equiv> 32"

text \<open>\<open>se_expiry_source\<close> is the delay of the timer that is set; waiters are named by their operation.\<close>

record xcc_session =
  se_owner_generation :: nat
  se_app_id :: "string option"
  se_identity_level :: identity_level
  se_identity_seen :: bool
  se_closed :: bool
  se_invalidating :: bool
  se_granted :: bool
  se_grant_pending :: bool
  se_candidate :: "certificate_candidate option"
  se_purpose :: certificate_purpose
  se_generic_purpose :: bool
  se_may_sign :: bool
  se_may_decrypt :: bool
  se_decrypt_count :: guint
  se_lifetime :: guint
  se_expires_at :: int
  se_expiry_source :: "guint option"
  se_device :: certificate_device
  se_login_in_progress :: bool
  se_login_generation :: nat
  se_login_waiters :: "nat list option"

text \<open>\<open>xcc_session_init\<close> over zeroed memory.\<close>

definition xcc_session_init :: xcc_session where
  "xcc_session_init = \<lparr>se_owner_generation = 0, se_app_id = None, se_identity_level = CERTIFICATE_IDENTITY_VERIFIED_SANDBOXED,
     se_identity_seen = False, se_closed = False, se_invalidating = False, se_granted = False, se_grant_pending = False,
     se_candidate = None, se_purpose = CERTIFICATE_PURPOSE_CLIENT_AUTH, se_generic_purpose = False, se_may_sign = False,
     se_may_decrypt = False, se_decrypt_count = 0, se_lifetime = 0, se_expires_at = 0, se_expiry_source = None,
     se_device = device_start, se_login_in_progress = False, se_login_generation = 0, se_login_waiters = None\<rparr>"

text \<open>\<open>now\<close> is the monotonic clock in microseconds.\<close>

definition xcc_session_grant ::
  "int \<Rightarrow> certificate_candidate \<Rightarrow> certificate_purpose \<Rightarrow> bool \<Rightarrow> bool \<Rightarrow> guint \<Rightarrow> xcc_session \<Rightarrow> xcc_session" where
  "xcc_session_grant now candidate purpose may_sign may_decrypt lifetime se =
     se\<lparr>se_candidate := Some candidate, se_purpose := purpose, se_may_sign := may_sign, se_may_decrypt := may_decrypt,
        se_decrypt_count := 0, se_lifetime := lifetime,
        se_expires_at := now div G_USEC_PER_SEC + uint lifetime, se_granted := True,
        se_expiry_source := Some (lifetime + CERTIFICATE_EXPIRY_GRACE_SECONDS)\<rparr>"

definition xcc_session_is_expired :: "int \<Rightarrow> xcc_session \<Rightarrow> bool" where
  "xcc_session_is_expired now se \<longleftrightarrow> se_granted se \<and> se_expires_at se \<le> now div G_USEC_PER_SEC"

definition xcc_session_uses_token :: "certificate_token option \<Rightarrow> xcc_session \<Rightarrow> bool" where
  "xcc_session_uses_token token se \<longleftrightarrow>
     (case se_candidate se of None \<Rightarrow> False | Some c \<Rightarrow> certificate_token_same (cd_token c) token)"

definition certificate_session_reasons :: "string list" where
  "certificate_session_reasons = [''expired'', ''token_removed'', ''policy'', ''backend_gone'', ''error'']"

definition checked_reason :: "string \<Rightarrow> string" where
  "checked_reason reason = (if reason \<in> set certificate_session_reasons then reason else ''error'')"

text \<open>\<open>xcc_acquire_rollback\<close> (\<open>acquire.c\<close>), as far as the session goes.\<close>

definition rollback_session :: "xcc_session \<Rightarrow> xcc_session" where
  "rollback_session se =
     se\<lparr>se_expiry_source := None, se_granted := False, se_candidate := None, se_purpose := CERTIFICATE_PURPOSE_CLIENT_AUTH,
        se_generic_purpose := False, se_may_sign := False, se_may_decrypt := False, se_decrypt_count := 0, se_lifetime := 0,
        se_expires_at := 0, se_grant_pending := False\<rparr>"

lemma grant_rollback:
  "se_granted (rollback_session se) = False" "se_candidate (rollback_session se) = None"
  "se_expiry_source (rollback_session se) = None" "se_may_sign (rollback_session se) = False"
  "se_may_decrypt (rollback_session se) = False"
  by (simp_all add: rollback_session_def)

end
