(* ===== verification/Operations.thy ===== *)
theory Operations
  imports Session PinCore
begin

text \<open>
  The operations on a grant (\<open>src/broker/operations.c\<close>), with the parts of \<open>src/core/session.c\<close> they call.
  The state is one session with the operations made on it.  An operation is a chain of tasks: a worker
  opens the device, the coordinator decides whether a PIN is needed, operations that need one wait
  for the one login dialogue of the session, and a worker performs the operation on the token.  Each
  section of a worker under \<open>device_lock\<close> is one step and each callback on the coordinator is one
  step.  While a token asks for a PIN of its own in the middle of a signature, the section is left
  and \<open>operation_lock\<close> stays taken.

  The PIN dialogue (\<open>PinCore\<close>) is seen through its contract: it may call \<open>do_login\<close> on a worker while
  it lasts, and it is over when it calls \<open>on_pin_done\<close>.  Error messages, log lines and the test
  gates are not modelled.
\<close>

section \<open>Operations and their state\<close>

text \<open>A \<open>GError\<close> by domain and code.\<close>

datatype gerror = Error_pkcs11 pkcs11_error | Error_io mechanism_error | Error_io_cancelled

text \<open>
  Where the task of an operation stands.  \<open>Task_none\<close> is an operation that is answered or waits for a
  login; \<open>Task_open\<close> and \<open>Task_sign\<close> are started workers, their \<open>_lock\<close> is before the section under the
  locks; \<open>Task_context\<close> waits inside that section for the PIN of the operation, with the session
  handle it has seen; \<open>Task_opened\<close> and \<open>Task_signed\<close> are results on their way to the coordinator.
\<close>

datatype op_task = Task_none | Task_open | Task_open_lock | Task_opened "gerror + bool"
  | Task_sign | Task_sign_lock | Task_context ck_ulong | Task_context_done ck_ulong pin_outcome
  | Task_signed "gerror + bytes option"

record operation =
  op_decrypt :: bool
  op_mechanism :: certificate_mechanism
  op_payload :: bytes
  op_parent_window :: "string option"
  op_caller_display :: "string option"
  op_purpose_display :: string
  op_cancellable :: bool
  op_cancelled :: bool \<comment> \<open>the state of that cancellable\<close>
  op_answered :: bool
  op_login_cancel_id :: bool
  op_login_cancel_idle :: bool
  op_context_outcome :: pin_outcome
  op_retry_open :: bool
  op_retried_open :: bool
  op_retry_login :: bool
  op_open_login_generation :: nat
  op_task :: op_task

text \<open>
  The login dialogue: shown, over with its login to be undone, and undone.  \<open>li_cancelled\<close> is the state of
  its cancellable, which is also the session's \<open>login_cancellable\<close>.
\<close>

datatype login_stage = Login_prompting | Login_releasing | Login_released

record login_interaction =
  li_cancelled :: bool
  li_outcome :: pin_outcome
  li_performed_login :: bool
  li_stage :: login_stage

datatype op_effect = Op_done nat "gerror + bytes" | Op_refused gerror | Login_prompt nat "pin_request option"
  | Context_prompt nat "pin_request option" | Window_cancelled | Invalidated string
  | Performing nat certificate_device bool certificate_mechanism bytes | Finishing nat certificate_device

record op_state =
  os_session :: xcc_session
  os_operations :: "nat \<Rightarrow> operation option"
  os_next :: nat
  os_interaction :: "login_interaction option"
  os_operation_lock :: "nat option"
  os_releases :: nat
  os_log :: "op_effect list"

text \<open>
  What a step reads: the clock when it starts and after its calls of the module, the tokens, whether
  \<open>device_lock\<close> is free, whether the dialogue has a deferred cancellation, and whether it can be shown.
\<close>

record 'w op_env =
  oe_now :: int
  oe_later :: int
  oe_world :: 'w
  oe_lock_free :: bool
  oe_cancel_deferred :: bool
  oe_no_display :: bool

definition op_start :: op_state where
  "op_start = \<lparr>os_session = xcc_session_init, os_operations = (\<lambda>_. None), os_next = 0, os_interaction = None,
     os_operation_lock = None, os_releases = 0, os_log = []\<rparr>"

definition op_note :: "op_effect \<Rightarrow> op_state \<Rightarrow> op_state" where
  "op_note x s = s\<lparr>os_log := x # os_log s\<rparr>"

definition op_set :: "nat \<Rightarrow> (operation \<Rightarrow> operation) \<Rightarrow> op_state \<Rightarrow> op_state" where
  "op_set i f s = s\<lparr>os_operations := (os_operations s)(i := map_option f (os_operations s i))\<rparr>"

abbreviation session_set :: "(xcc_session \<Rightarrow> xcc_session) \<Rightarrow> op_state \<Rightarrow> op_state" where
  "session_set f s \<equiv> s\<lparr>os_session := f (os_session s)\<rparr>"

abbreviation device_set :: "certificate_device \<Rightarrow> op_state \<Rightarrow> op_state" where
  "device_set d s \<equiv> session_set (\<lambda>se. se\<lparr>se_device := d\<rparr>) s"

definition op_is_cancelled :: "operation \<Rightarrow> bool" where
  "op_is_cancelled x \<longleftrightarrow> op_cancellable x \<and> op_cancelled x"

section \<open>Answers and authority\<close>

definition operation_fail :: "nat \<Rightarrow> gerror \<Rightarrow> op_state \<Rightarrow> op_state" where
  "operation_fail i err s =
     (case os_operations s i of
        None \<Rightarrow> s
      | Some x \<Rightarrow> if op_answered x then s else op_note (Op_done i (Inl err)) (op_set i (\<lambda>x. x\<lparr>op_answered := True\<rparr>) s))"

definition operation_succeed :: "nat \<Rightarrow> bytes \<Rightarrow> op_state \<Rightarrow> op_state" where
  "operation_succeed i result s =
     (case os_operations s i of
        None \<Rightarrow> s
      | Some x \<Rightarrow> if op_answered x then s else op_note (Op_done i (Inr result)) (op_set i (\<lambda>x. x\<lparr>op_answered := True\<rparr>) s))"

definition certificate_broker_decrypts_spent :: "xcc_session \<Rightarrow> bool" where
  "certificate_broker_decrypts_spent se \<longleftrightarrow> se_decrypt_count se \<ge> CERTIFICATE_MAX_DECRYPTS_PER_GRANT"

text \<open>\<open>cancelled\<close> is the state of \<open>operation->cancellable\<close>.\<close>

definition operation_still_authorised :: "int \<Rightarrow> bool \<Rightarrow> xcc_session \<Rightarrow> pkcs11_error + unit" where
  "operation_still_authorised now cancelled se =
     (if cancelled then Inl CERTIFICATE_PKCS11_ERROR_CANCELLED
      else if se_closed se then Inl CERTIFICATE_PKCS11_ERROR_FAILED
      else if xcc_session_is_expired now se then Inl CERTIFICATE_PKCS11_ERROR_FAILED
      else Inr ())"

definition ensure_session_locked ::
  "'w discovery_env \<Rightarrow> certificate_tokens \<Rightarrow> certificate_candidate \<Rightarrow> certificate_device \<Rightarrow> 'w
     \<Rightarrow> (certificate_device \<times> 'w) \<times> (pkcs11_error + unit)" where
  "ensure_session_locked D ts c d w = certificate_device_open D ts c d w"

text \<open>Whether the device is of no use without a login.\<close>

definition wants_login :: "certificate_candidate \<Rightarrow> certificate_device \<Rightarrow> bool" where
  "wants_login c d \<longleftrightarrow> \<not> dv_logged_in d \<and>
     ((case cd_token c of None \<Rightarrow> False | Some t \<Rightarrow> tk_login_required t) \<or> dv_private_key d = CK_INVALID_HANDLE)"

section \<open>Closing the session\<close>

text \<open>\<open>g_cancellable_cancel\<close> on the request of an operation, with the handler \<open>on_waiter_cancelled\<close>.\<close>

definition on_waiter_cancelled :: "operation \<Rightarrow> operation" where
  "on_waiter_cancelled x = x\<lparr>op_login_cancel_idle := True\<rparr>"

definition cancel_operation :: "operation \<Rightarrow> operation" where
  "cancel_operation x =
     (if op_cancelled x then x
      else let y = x\<lparr>op_cancelled := True\<rparr> in if op_login_cancel_id x then on_waiter_cancelled y else y)"

definition xcc_session_release_device_async :: "'w op_env \<Rightarrow> op_state \<Rightarrow> op_state" where
  "xcc_session_release_device_async e s =
     (if oe_lock_free e \<and> dv_module (se_device (os_session s)) = None then s else s\<lparr>os_releases := os_releases s + 1\<rparr>)"

text \<open>The unanswered requests of the session are those of its unanswered operations.\<close>

definition xcc_session_close :: "'w op_env \<Rightarrow> op_state \<Rightarrow> op_state" where
  "xcc_session_close e s =
     (if se_closed (os_session s) then s
      else
        let s1 = session_set (\<lambda>se. se\<lparr>se_closed := True\<rparr>) s;
            s2 = s1\<lparr>os_operations := (\<lambda>i. map_option (\<lambda>x. if op_answered x then x else cancel_operation x) (os_operations s1 i))\<rparr>;
            s3 = session_set (\<lambda>se. se\<lparr>se_expiry_source := None\<rparr>) s2
        in xcc_session_release_device_async e s3)"

definition xcc_session_invalidate :: "'w op_env \<Rightarrow> string \<Rightarrow> op_state \<Rightarrow> op_state" where
  "xcc_session_invalidate e reason s =
     (if se_closed (os_session s) \<or> se_invalidating (os_session s) then s
      else
        let s1 = session_set (\<lambda>se. se\<lparr>se_invalidating := True\<rparr>) s
        in xcc_session_close e (op_note (Invalidated (checked_reason reason)) s1))"

definition on_lifetime_expired :: "'w op_env \<Rightarrow> op_state \<Rightarrow> op_state" where
  "on_lifetime_expired e s = xcc_session_invalidate e ''expired'' (session_set (\<lambda>se. se\<lparr>se_expiry_source := None\<rparr>) s)"

section \<open>Starting tasks\<close>

definition open_operation :: "nat \<Rightarrow> op_state \<Rightarrow> op_state" where
  "open_operation i s =
     op_set i (\<lambda>x. x\<lparr>op_open_login_generation := se_login_generation (os_session s), op_task := Task_open\<rparr>) s"

definition run_operation :: "nat \<Rightarrow> op_state \<Rightarrow> op_state" where
  "run_operation i s = op_set i (\<lambda>x. x\<lparr>op_task := Task_sign\<rparr>) s"

definition apply_login_outcome :: "'w op_env \<Rightarrow> nat \<Rightarrow> pin_outcome \<Rightarrow> op_state \<Rightarrow> op_state" where
  "apply_login_outcome e i outcome s =
     (case os_operations s i of
        None \<Rightarrow> s
      | Some x \<Rightarrow>
          if op_is_cancelled x then operation_fail i (Error_pkcs11 CERTIFICATE_PKCS11_ERROR_CANCELLED) s
          else (case outcome of
              CERTIFICATE_PIN_OK \<Rightarrow> run_operation i s
            | CERTIFICATE_PIN_CANCELLED \<Rightarrow> operation_fail i (Error_pkcs11 CERTIFICATE_PKCS11_ERROR_CANCELLED) s
            | CERTIFICATE_PIN_LOCKED \<Rightarrow> operation_fail i (Error_pkcs11 CERTIFICATE_PKCS11_ERROR_PIN_LOCKED) s
            | CERTIFICATE_PIN_TOKEN_REMOVED \<Rightarrow>
                operation_fail i (Error_pkcs11 CERTIFICATE_PKCS11_ERROR_TOKEN_REMOVED) (xcc_session_invalidate e ''token_removed'' s)
            | CERTIFICATE_PIN_INCORRECT \<Rightarrow> operation_fail i (Error_pkcs11 CERTIFICATE_PKCS11_ERROR_PIN_INCORRECT) s
            | CERTIFICATE_PIN_TIMED_OUT \<Rightarrow> operation_fail i (Error_pkcs11 CERTIFICATE_PKCS11_ERROR_LOGIN_TIMEOUT) s
            | CERTIFICATE_PIN_NO_DISPLAY \<Rightarrow> operation_fail i (Error_pkcs11 CERTIFICATE_PKCS11_ERROR_NO_DISPLAY) s
            | CERTIFICATE_PIN_DEVICE_ERROR \<Rightarrow> operation_fail i (Error_pkcs11 CERTIFICATE_PKCS11_ERROR_FAILED) s))"

section \<open>The shared login\<close>

definition do_login ::
  "'w discovery_env \<Rightarrow> certificate_tokens \<Rightarrow> 'w op_env \<Rightarrow> bytes option \<Rightarrow> op_state \<Rightarrow> op_state" where
  "do_login D ts e pin s =
     (case (os_interaction s, se_candidate (os_session s)) of
        (Some li, Some c) \<Rightarrow>
          if operation_still_authorised (oe_now e) (li_cancelled li) (os_session s) \<noteq> Inr () then s
          else (case ensure_session_locked D ts c (se_device (os_session s)) (oe_world e) of
              ((d1, w1), Inl _) \<Rightarrow> device_set d1 s
            | ((d1, w1), Inr _) \<Rightarrow>
                if operation_still_authorised (oe_later e) (li_cancelled li) (os_session s) \<noteq> Inr () \<or> dv_logged_in d1
                then device_set d1 s
                else (case certificate_device_login D c pin d1 w1 of
                    ((d2, w2), r) \<Rightarrow>
                      (device_set d2 s)\<lparr>os_interaction := Some (li\<lparr>li_performed_login := (r = Inr ())\<rparr>)\<rparr>))
      | _ \<Rightarrow> s)"

definition detach_waiter_cancel :: "nat \<Rightarrow> op_state \<Rightarrow> op_state" where
  "detach_waiter_cancel i s = op_set i (\<lambda>x. x\<lparr>op_login_cancel_id := False, op_login_cancel_idle := False\<rparr>) s"

definition finish_waiter :: "'w op_env \<Rightarrow> pin_outcome \<Rightarrow> nat \<Rightarrow> op_state \<Rightarrow> op_state" where
  "finish_waiter e outcome i s =
     (let s1 = detach_waiter_cancel i s
      in case os_operations s1 i of
           None \<Rightarrow> s1
         | Some x \<Rightarrow>
             if op_retry_login x then open_operation i (op_set i (\<lambda>x. x\<lparr>op_retry_login := False\<rparr>) s1)
             else apply_login_outcome e i outcome s1)"

definition finish_login :: "'w op_env \<Rightarrow> op_state \<Rightarrow> op_state" where
  "finish_login e s =
     (case os_interaction s of
        None \<Rightarrow> s
      | Some li \<Rightarrow>
          let waiters = (case se_login_waiters (os_session s) of None \<Rightarrow> [] | Some ws \<Rightarrow> ws);
              s1 = (session_set (\<lambda>se. se\<lparr>se_login_in_progress := False, se_login_generation := se_login_generation se + 1,
                      se_login_waiters := None\<rparr>) s)\<lparr>os_interaction := None\<rparr>
          in fold (finish_waiter e (li_outcome li)) waiters s1)"

definition on_pin_done :: "'w op_env \<Rightarrow> pin_outcome \<Rightarrow> op_state \<Rightarrow> op_state" where
  "on_pin_done e outcome s =
     (case os_interaction s of
        None \<Rightarrow> s
      | Some li \<Rightarrow>
          let outcome1 = (if outcome = CERTIFICATE_PIN_OK \<and> li_cancelled li then CERTIFICATE_PIN_CANCELLED else outcome);
              li1 = li\<lparr>li_outcome := outcome1\<rparr>
          in if outcome1 \<noteq> CERTIFICATE_PIN_OK \<and> li_performed_login li
             then s\<lparr>os_interaction := Some (li1\<lparr>li_cancelled := True, li_stage := Login_releasing\<rparr>)\<rparr>
             else finish_login e (s\<lparr>os_interaction := Some li1\<rparr>))"

text \<open>The release that \<open>on_pin_done\<close> waits for: its worker, and its callback.\<close>

definition release_login :: "'w discovery_env \<Rightarrow> 'w op_env \<Rightarrow> op_state \<Rightarrow> op_state" where
  "release_login D e s =
     (case os_interaction s of
        None \<Rightarrow> s
      | Some li \<Rightarrow>
          (device_set (fst (certificate_device_close D (se_device (os_session s)) (oe_world e))) s)
            \<lparr>os_interaction := Some (li\<lparr>li_stage := Login_released\<rparr>)\<rparr>)"

definition waiter_cancelled_idle :: "nat \<Rightarrow> op_state \<Rightarrow> op_state" where
  "waiter_cancelled_idle i s =
     (let s1 = op_set i (\<lambda>x. x\<lparr>op_login_cancel_idle := False\<rparr>) s
      in case se_login_waiters (os_session s1) of
           None \<Rightarrow> s1
         | Some ws \<Rightarrow>
             if i \<in> set ws
             then (let s2 = session_set (\<lambda>se. se\<lparr>se_login_waiters := Some (remove1 i ws)\<rparr>) s1;
                       s3 = operation_fail i (Error_pkcs11 CERTIFICATE_PKCS11_ERROR_CANCELLED) (detach_waiter_cancel i s2)
                   in if remove1 i ws = []
                      then (case os_interaction s3 of
                          None \<Rightarrow> s3
                        | Some li \<Rightarrow> op_note Window_cancelled (s3\<lparr>os_interaction := Some (li\<lparr>li_cancelled := True\<rparr>)\<rparr>))
                      else s3)
             else s1)"

section \<open>Opening the device\<close>

text \<open>\<open>g_task_propagate_pointer\<close>: a task with a cancellable that is cancelled has no other result.\<close>

definition task_propagate :: "operation \<Rightarrow> gerror + 'a \<Rightarrow> gerror + 'a" where
  "task_propagate x r = (if op_is_cancelled x then Inl Error_io_cancelled else r)"

text \<open>\<open>open_thread\<close>: before the lock, and under it.\<close>

definition open_check :: "'w op_env \<Rightarrow> nat \<Rightarrow> op_state \<Rightarrow> op_state" where
  "open_check e i s =
     op_set i (\<lambda>x. x\<lparr>op_task :=
       (case operation_still_authorised (oe_now e) (op_is_cancelled x) (os_session s) of
          Inl err \<Rightarrow> Task_opened (Inl (Error_pkcs11 err))
        | Inr _ \<Rightarrow> Task_open_lock)\<rparr>) s"

definition open_thread ::
  "'w discovery_env \<Rightarrow> certificate_tokens \<Rightarrow> 'w op_env \<Rightarrow> nat \<Rightarrow> op_state \<Rightarrow> op_state" where
  "open_thread D ts e i s =
     (case (os_operations s i, se_candidate (os_session s)) of
        (Some x, Some c) \<Rightarrow>
          (case operation_still_authorised (oe_now e) (op_is_cancelled x) (os_session s) of
             Inl err \<Rightarrow> op_set i (\<lambda>x. x\<lparr>op_task := Task_opened (Inl (Error_pkcs11 err))\<rparr>) s
           | Inr _ \<Rightarrow>
               (case ensure_session_locked D ts c (se_device (os_session s)) (oe_world e) of
                  ((d1, w1), Inl err) \<Rightarrow> op_set i (\<lambda>x. x\<lparr>op_task := Task_opened (Inl (Error_pkcs11 err))\<rparr>) (device_set d1 s)
                | ((d1, w1), Inr _) \<Rightarrow> op_set i (\<lambda>x. x\<lparr>op_task := Task_opened (Inr (wants_login c d1))\<rparr>) (device_set d1 s)))
      | _ \<Rightarrow> s)"

text \<open>\<open>g_cancellable_connect\<close> calls the handler at once when the cancellable is cancelled already.\<close>

definition attach_waiter :: "nat \<Rightarrow> op_state \<Rightarrow> op_state" where
  "attach_waiter i s =
     op_set i (\<lambda>x. if \<not> op_cancellable x then x
       else if op_cancelled x then on_waiter_cancelled (x\<lparr>op_login_cancel_id := False\<rparr>)
       else x\<lparr>op_login_cancel_id := True\<rparr>) s"

definition login_request :: "bool \<Rightarrow> operation \<Rightarrow> xcc_session \<Rightarrow> pin_request option" where
  "login_request context_specific x se =
     (case se_candidate se of
        None \<Rightarrow> None
      | Some c \<Rightarrow> map_option (\<lambda>t. \<lparr>pr_token = t, pr_context_specific = context_specific, pr_parent_window = op_parent_window x,
          pr_caller_display = op_caller_display x, pr_purpose_display = Some (op_purpose_display x), pr_refresh = True,
          pr_abandon = False, pr_cancellable = (if context_specific then op_cancellable x else True)\<rparr>) (cd_token c))"

definition add_waiter :: "nat \<Rightarrow> op_state \<Rightarrow> op_state" where
  "add_waiter i s =
     session_set (\<lambda>se. se\<lparr>se_login_waiters :=
       Some ((case se_login_waiters se of None \<Rightarrow> [] | Some ws \<Rightarrow> ws) @ [i])\<rparr>) s"

definition on_opened :: "'w op_env \<Rightarrow> nat \<Rightarrow> op_state \<Rightarrow> op_state" where
  "on_opened e i s =
     (case os_operations s i of
        None \<Rightarrow> s
      | Some x \<Rightarrow>
          (case op_task x of
             Task_opened r \<Rightarrow>
               let s0 = op_set i (\<lambda>x. x\<lparr>op_task := Task_none\<rparr>) s
               in (case task_propagate x r of
                  Inl err \<Rightarrow>
                    operation_fail i err
                      (if err = Error_pkcs11 CERTIFICATE_PKCS11_ERROR_TOKEN_REMOVED then xcc_session_invalidate e ''token_removed'' s0 else s0)
                | Inr needs_login \<Rightarrow>
                    (case operation_still_authorised (oe_now e) (op_is_cancelled x) (os_session s0) of
                       Inl err \<Rightarrow> operation_fail i (Error_pkcs11 err) s0
                     | Inr _ \<Rightarrow>
                         if se_login_in_progress (os_session s0) then
                           (let cancelling = (case os_interaction s0 of None \<Rightarrow> False | Some li \<Rightarrow> li_cancelled li) \<or> oe_cancel_deferred e
                            in attach_waiter i (add_waiter i (op_set i (\<lambda>x. x\<lparr>op_retry_login := cancelling\<rparr>) s0)))
                         else if needs_login \<and> op_open_login_generation x \<noteq> se_login_generation (os_session s0)
                         then open_operation i s0
                         else if needs_login then
                           (let s1 = session_set (\<lambda>se. se\<lparr>se_login_in_progress := True\<rparr>) (add_waiter i s0);
                                s2 = s1\<lparr>os_interaction := Some \<lparr>li_cancelled = False, li_outcome = CERTIFICATE_PIN_OK,
                                       li_performed_login = False, li_stage = Login_prompting\<rparr>\<rparr>;
                                s3 = op_note (Login_prompt i (login_request False x (os_session s2))) (attach_waiter i s2)
                            in if oe_no_display e then on_pin_done e CERTIFICATE_PIN_NO_DISPLAY s3 else s3)
                         else run_operation i s0))
           | _ \<Rightarrow> s))"

section \<open>Performing an operation\<close>

text \<open>Every failure of a decryption looks the same.\<close>

definition signed_result :: "bool \<Rightarrow> pkcs11_error + bytes \<Rightarrow> gerror + bytes option" where
  "signed_result decrypt r =
     (case r of
        Inl err \<Rightarrow> Inl (Error_pkcs11 (if decrypt then CERTIFICATE_PKCS11_ERROR_FAILED else err))
      | Inr result \<Rightarrow> Inr (Some result))"

definition op_finish_task :: "nat \<Rightarrow> gerror + bytes option \<Rightarrow> op_state \<Rightarrow> op_state" where
  "op_finish_task i r s = op_set i (\<lambda>x. x\<lparr>op_task := Task_signed r\<rparr>) s"

text \<open>\<open>sign_thread\<close>: before the locks, and under both.\<close>

definition sign_check :: "'w op_env \<Rightarrow> nat \<Rightarrow> op_state \<Rightarrow> op_state" where
  "sign_check e i s =
     op_set i (\<lambda>x. x\<lparr>op_task :=
       (case operation_still_authorised (oe_now e) (op_is_cancelled x) (os_session s) of
          Inl err \<Rightarrow> Task_signed (Inl (Error_pkcs11 err))
        | Inr _ \<Rightarrow> Task_sign_lock)\<rparr>) s"

definition sign_thread :: "'w discovery_env \<Rightarrow> 'w op_env \<Rightarrow> nat \<Rightarrow> op_state \<Rightarrow> op_state" where
  "sign_thread D e i s =
     (case (os_operations s i, se_candidate (os_session s)) of
        (Some x, Some c) \<Rightarrow>
          let se = os_session s; d = se_device se
          in (case operation_still_authorised (oe_now e) (op_is_cancelled x) se of
             Inl err \<Rightarrow> op_finish_task i (Inl (Error_pkcs11 err)) s
           | Inr _ \<Rightarrow>
               (case (if dv_module d = None then ((d, oe_world e), Inr ()) else certificate_device_refresh_login D d (oe_world e)) of
                  ((d1, w1), Inl err) \<Rightarrow> op_finish_task i (Inl (Error_pkcs11 err)) (device_set d1 s)
                | ((d1, w1), Inr _) \<Rightarrow>
                    (case operation_still_authorised (oe_later e) (op_is_cancelled x) se of
                       Inl err \<Rightarrow> op_finish_task i (Inl (Error_pkcs11 err)) (device_set d1 s)
                     | Inr _ \<Rightarrow>
                         if dv_module d1 = None \<or> wants_login c d1
                         then op_finish_task i (Inr None) (op_set i (\<lambda>x. x\<lparr>op_retry_open := True\<rparr>) (device_set d1 s))
                         else
                           let s1 = op_note (Performing i d1 (op_decrypt x) (op_mechanism x) (op_payload x)) (device_set d1 s)
                           in (case perform_begin D (op_decrypt x) (op_mechanism x) (op_payload x) d1 w1 of
                              (w2, Some r) \<Rightarrow> op_finish_task i (signed_result (op_decrypt x) r) s1
                            | (w2, None) \<Rightarrow>
                                op_note (Context_prompt i (login_request True x se))
                                  ((op_set i (\<lambda>x. x\<lparr>op_task := Task_context (dv_session d1)\<rparr>) s1)\<lparr>os_operation_lock := Some i\<rparr>)))))
      | _ \<Rightarrow> s)"

definition do_context_login :: "'w discovery_env \<Rightarrow> 'w op_env \<Rightarrow> nat \<Rightarrow> bytes option \<Rightarrow> op_state \<Rightarrow> op_state" where
  "do_context_login D e i pin s =
     (case os_operations s i of
        None \<Rightarrow> s
      | Some x \<Rightarrow>
          (case op_task x of
             Task_context handle \<Rightarrow>
               if operation_still_authorised (oe_now e) (op_is_cancelled x) (os_session s) \<noteq> Inr () then s
               else if dv_session (se_device (os_session s)) \<noteq> handle then s
               else device_set (fst (fst (certificate_device_login_context D pin (se_device (os_session s)) (oe_world e)))) s
           | _ \<Rightarrow> s))"

definition on_context_pin_done :: "nat \<Rightarrow> pin_outcome \<Rightarrow> op_state \<Rightarrow> op_state" where
  "on_context_pin_done i outcome s =
     op_set i (\<lambda>x. case op_task x of Task_context handle \<Rightarrow> x\<lparr>op_task := Task_context_done handle outcome\<rparr> | _ \<Rightarrow> x) s"

text \<open>\<open>authenticate_context\<close> after its wait.\<close>

definition authenticate_context :: "'w op_env \<Rightarrow> ck_ulong \<Rightarrow> pin_outcome \<Rightarrow> operation \<Rightarrow> xcc_session \<Rightarrow> pkcs11_error + unit" where
  "authenticate_context e handle outcome x se =
     (if outcome \<noteq> CERTIFICATE_PIN_OK then Inl CERTIFICATE_PKCS11_ERROR_FAILED
      else (case operation_still_authorised (oe_now e) (op_is_cancelled x) se of
          Inl err \<Rightarrow> Inl err
        | Inr _ \<Rightarrow>
            if dv_module (se_device se) = None \<or> dv_session (se_device se) \<noteq> handle then Inl CERTIFICATE_PKCS11_ERROR_TOKEN_REMOVED
            else Inr ()))"

definition sign_thread_authenticated :: "'w discovery_env \<Rightarrow> 'w op_env \<Rightarrow> nat \<Rightarrow> op_state \<Rightarrow> op_state" where
  "sign_thread_authenticated D e i s =
     (case os_operations s i of
        None \<Rightarrow> s
      | Some x \<Rightarrow>
          (case op_task x of
             Task_context_done handle outcome \<Rightarrow>
               let se = os_session s;
                   r = authenticate_context e handle outcome x se;
                   s1 = op_set i (\<lambda>x. x\<lparr>op_context_outcome := outcome\<rparr>) (s\<lparr>os_operation_lock := None\<rparr>);
                   s2 = (if r = Inr () then op_note (Finishing i (se_device se)) s1 else s1)
               in (case perform_end D (op_decrypt x) (op_payload x) r (se_device se) (oe_world e) of
                  None \<Rightarrow> s
                | Some ((d1, w1), result) \<Rightarrow> op_finish_task i (signed_result (op_decrypt x) result) (device_set d1 s2))
           | _ \<Rightarrow> s))"

text \<open>A result that is \<open>NULL\<close> without an error comes with \<open>retry_open\<close> only (\<open>op_flags\<close> in \<open>OperationsProps\<close>).\<close>

definition on_signed :: "'w op_env \<Rightarrow> nat \<Rightarrow> op_state \<Rightarrow> op_state" where
  "on_signed e i s =
     (case os_operations s i of
        None \<Rightarrow> s
      | Some x \<Rightarrow>
          (case op_task x of
             Task_signed r0 \<Rightarrow>
               let r = task_propagate x r0;
                   s0 = op_set i (\<lambda>x. x\<lparr>op_task := Task_none\<rparr>) s;
                   s1 = op_set i (\<lambda>x. x\<lparr>op_retry_open := False\<rparr>) s0
               in if op_retry_open x \<and> (\<exists>v. r = Inr v)
                  then (if op_retried_open x then operation_fail i (Error_pkcs11 CERTIFICATE_PKCS11_ERROR_FAILED) s1
                        else open_operation i (op_set i (\<lambda>x. x\<lparr>op_retried_open := True\<rparr>) s1))
                  else (case r of
                     Inr (Some signature) \<Rightarrow>
                       if bm_type (op_mechanism x) = CKM_ECDSA \<and> bm_encoding (op_mechanism x) = CERTIFICATE_SIGNATURE_DER
                       then (case certificate_ecdsa_raw_to_der signature of
                           Inl err \<Rightarrow> operation_fail i (Error_io err) s0
                         | Inr der \<Rightarrow> operation_succeed i der s0)
                       else operation_succeed i signature s0
                   | Inr None \<Rightarrow> s0
                   | Inl err \<Rightarrow>
                       if op_context_outcome x \<noteq> CERTIFICATE_PIN_OK then apply_login_outcome e i (op_context_outcome x) s0
                       else operation_fail i err
                         (if err = Error_pkcs11 CERTIFICATE_PKCS11_ERROR_TOKEN_REMOVED then xcc_session_invalidate e ''token_removed'' s0
                          else s0))
           | _ \<Rightarrow> s))"

section \<open>Accepting an operation\<close>

record operation_request =
  or_decrypt :: bool
  or_mechanism_name :: "string option"
  or_parameters :: parameters
  or_data :: bytes
  or_parent_window :: "string option"
  or_caller_display :: "string option"
  or_cancellable :: bool
  or_cancelled :: bool

definition certificate_broker_perform :: "'w op_env \<Rightarrow> operation_request \<Rightarrow> op_state \<Rightarrow> op_state" where
  "certificate_broker_perform e r s =
     (let se = os_session s
      in if se_grant_pending se then op_note (Op_refused (Error_io INVALID_ARGUMENT)) s
         else (case se_candidate se of
            None \<Rightarrow> op_note (Op_refused (Error_pkcs11 CERTIFICATE_PKCS11_ERROR_FAILED)) s
          | Some c \<Rightarrow>
              if \<not> se_granted se then op_note (Op_refused (Error_pkcs11 CERTIFICATE_PKCS11_ERROR_FAILED)) s
              else if se_closed se then op_note (Op_refused (Error_pkcs11 CERTIFICATE_PKCS11_ERROR_FAILED)) s
              else if xcc_session_is_expired (oe_now e) se then op_note (Op_refused (Error_pkcs11 CERTIFICATE_PKCS11_ERROR_FAILED)) s
              else if or_decrypt r \<and> certificate_broker_decrypts_spent se
              then op_note (Op_refused (Error_pkcs11 CERTIFICATE_PKCS11_ERROR_NOT_SUPPORTED)) s
              else if (if or_decrypt r then \<not> se_may_decrypt se else \<not> se_may_sign se)
              then op_note (Op_refused (Error_pkcs11 CERTIFICATE_PKCS11_ERROR_NOT_SUPPORTED)) s
              else (case certificate_mechanism_parse (or_mechanism_name r) (or_parameters r) (cd_key_type c) (cd_key_size c) (or_decrypt r) of
                  Inl err \<Rightarrow> op_note (Op_refused (Error_io err)) s
                | Inr mechanism \<Rightarrow>
                    (case certificate_mechanism_prepare mechanism (or_data r) of
                       Inl err \<Rightarrow> op_note (Op_refused (Error_io err)) s
                     | Inr payload \<Rightarrow>
                         let i = os_next s;
                             x = \<lparr>op_decrypt = or_decrypt r, op_mechanism = mechanism, op_payload = payload,
                                   op_parent_window = or_parent_window r, op_caller_display = or_caller_display r,
                                   op_purpose_display = (if se_generic_purpose se then ''use a certificate''
                                     else certificate_purpose_display (se_purpose se)),
                                   op_cancellable = or_cancellable r, op_cancelled = or_cancelled r, op_answered = False,
                                   op_login_cancel_id = False, op_login_cancel_idle = False,
                                   op_context_outcome = CERTIFICATE_PIN_OK, op_retry_open = False, op_retried_open = False,
                                   op_retry_login = False, op_open_login_generation = 0, op_task = Task_none\<rparr>;
                             s1 = s\<lparr>os_next := i + 1, os_operations := (os_operations s)(i \<mapsto> x)\<rparr>;
                             s2 = (if or_decrypt r then session_set (\<lambda>se. se\<lparr>se_decrypt_count := se_decrypt_count se + 1\<rparr>) s1 else s1)
                         in open_operation i s2))))"

section \<open>The system\<close>

datatype op_event = Ev_grant certificate_candidate certificate_purpose bool bool bool guint | Ev_delivered | Ev_rollback
  | Ev_perform operation_request | Ev_open_check nat | Ev_open nat | Ev_opened nat | Ev_sign_check nat | Ev_sign nat
  | Ev_context_login nat "bytes option" | Ev_context_done nat pin_outcome | Ev_sign_authenticated nat | Ev_signed nat
  | Ev_login_attempt "bytes option" | Ev_pin_done pin_outcome | Ev_release_login | Ev_released_login | Ev_release
  | Ev_cancel nat | Ev_cancel_idle nat | Ev_expired | Ev_invalidate string | Ev_close
  | Ev_identity nat "string option" identity_level bool

text \<open>
  The coordinator and the workers.  A grant is made by an acquisition, for a session without one, is
  pending until it is delivered, and is taken back only while pending (\<open>acquire.c\<close>, \<open>context.c\<close>).
  The dialogue runs \<open>do_login\<close> while it lasts and ends once.  \<open>Ev_identity\<close> is the session's owner and the
  level of its identity as \<open>Core\<close> records them.
\<close>

inductive op_step ::
  "'w discovery_env \<Rightarrow> certificate_tokens \<Rightarrow> op_state \<Rightarrow> 'w op_env \<times> op_event \<Rightarrow> op_state \<Rightarrow> bool"
  for D ts where
  step_grant: "\<lbrakk>\<not> se_granted (os_session s); \<not> se_closed (os_session s); cd_token c \<noteq> None\<rbrakk>
    \<Longrightarrow> op_step D ts s (e, Ev_grant c purpose may_sign may_decrypt generic lifetime)
      (session_set (\<lambda>se. (xcc_session_grant (oe_now e) c purpose may_sign may_decrypt lifetime
         (se\<lparr>se_grant_pending := True\<rparr>))\<lparr>se_generic_purpose := generic\<rparr>) s)"
| step_delivered: "se_grant_pending (os_session s)
    \<Longrightarrow> op_step D ts s (e, Ev_delivered) (session_set (\<lambda>se. se\<lparr>se_grant_pending := False\<rparr>) s)"
| step_rollback: "se_grant_pending (os_session s) \<Longrightarrow> op_step D ts s (e, Ev_rollback) (session_set rollback_session s)"
| step_perform: "op_step D ts s (e, Ev_perform r) (certificate_broker_perform e r s)"
| step_open_check: "\<lbrakk>os_operations s i = Some x; op_task x = Task_open\<rbrakk> \<Longrightarrow> op_step D ts s (e, Ev_open_check i) (open_check e i s)"
| step_open: "\<lbrakk>os_operations s i = Some x; op_task x = Task_open_lock\<rbrakk> \<Longrightarrow> op_step D ts s (e, Ev_open i) (open_thread D ts e i s)"
| step_opened: "\<lbrakk>os_operations s i = Some x; op_task x = Task_opened r\<rbrakk> \<Longrightarrow> op_step D ts s (e, Ev_opened i) (on_opened e i s)"
| step_sign_check: "\<lbrakk>os_operations s i = Some x; op_task x = Task_sign\<rbrakk> \<Longrightarrow> op_step D ts s (e, Ev_sign_check i) (sign_check e i s)"
| step_sign: "\<lbrakk>os_operations s i = Some x; op_task x = Task_sign_lock; os_operation_lock s = None\<rbrakk>
    \<Longrightarrow> op_step D ts s (e, Ev_sign i) (sign_thread D e i s)"
| step_context_login: "\<lbrakk>os_operations s i = Some x; op_task x = Task_context h\<rbrakk>
    \<Longrightarrow> op_step D ts s (e, Ev_context_login i pin) (do_context_login D e i pin s)"
| step_context_done: "\<lbrakk>os_operations s i = Some x; op_task x = Task_context h\<rbrakk>
    \<Longrightarrow> op_step D ts s (e, Ev_context_done i outcome) (on_context_pin_done i outcome s)"
| step_sign_authenticated: "\<lbrakk>os_operations s i = Some x; op_task x = Task_context_done h outcome\<rbrakk>
    \<Longrightarrow> op_step D ts s (e, Ev_sign_authenticated i) (sign_thread_authenticated D e i s)"
| step_signed: "\<lbrakk>os_operations s i = Some x; op_task x = Task_signed r\<rbrakk> \<Longrightarrow> op_step D ts s (e, Ev_signed i) (on_signed e i s)"
| step_login_attempt: "\<lbrakk>os_interaction s = Some li; li_stage li = Login_prompting\<rbrakk>
    \<Longrightarrow> op_step D ts s (e, Ev_login_attempt pin) (do_login D ts e pin s)"
| step_pin_done: "\<lbrakk>os_interaction s = Some li; li_stage li = Login_prompting\<rbrakk>
    \<Longrightarrow> op_step D ts s (e, Ev_pin_done outcome) (on_pin_done e outcome s)"
| step_release_login: "\<lbrakk>os_interaction s = Some li; li_stage li = Login_releasing\<rbrakk>
    \<Longrightarrow> op_step D ts s (e, Ev_release_login) (release_login D e s)"
| step_released_login: "\<lbrakk>os_interaction s = Some li; li_stage li = Login_released\<rbrakk>
    \<Longrightarrow> op_step D ts s (e, Ev_released_login) (finish_login e s)"
| step_release: "os_releases s > 0
    \<Longrightarrow> op_step D ts s (e, Ev_release)
      ((device_set (fst (certificate_device_close D (se_device (os_session s)) (oe_world e))) s)\<lparr>os_releases := os_releases s - 1\<rparr>)"
| step_cancel: "\<lbrakk>os_operations s i = Some x; \<not> op_answered x; op_cancellable x\<rbrakk> \<Longrightarrow> op_step D ts s (e, Ev_cancel i) (op_set i cancel_operation s)"
| step_cancel_idle: "\<lbrakk>os_operations s i = Some x; op_login_cancel_idle x\<rbrakk> \<Longrightarrow> op_step D ts s (e, Ev_cancel_idle i) (waiter_cancelled_idle i s)"
| step_expired: "se_expiry_source (os_session s) = Some delay \<Longrightarrow> op_step D ts s (e, Ev_expired) (on_lifetime_expired e s)"
| step_invalidate: "op_step D ts s (e, Ev_invalidate reason) (xcc_session_invalidate e reason s)"
| step_close: "op_step D ts s (e, Ev_close) (xcc_session_close e s)"
| step_identity: "op_step D ts s (e, Ev_identity generation app level seen)
      (session_set (\<lambda>se. se\<lparr>se_owner_generation := generation, se_app_id := app, se_identity_level := level, se_identity_seen := seen\<rparr>) s)"

inductive_cases op_stepE: "op_step D ts s l t"

end
