(* ===== verification/Core.thy ===== *)
theory Core
  imports Operations Discovery
begin

text \<open>
  The core between the frontend and the operations: contexts and requests (\<open>src/core/context.c\<close>), the
  acquisition of a grant (\<open>acquire.c\<close>), signatures and capabilities (\<open>sign.c\<close>) and the sessions of a
  context (\<open>session.c\<close>).  Two threads share the context.  The desktop thread makes requests, cancels
  them and closes sessions, and is called back with the results; the coordinator runs what is posted
  to it in order, and there the sessions and requests change.  Each posted function, each callback of
  a worker, and each part of a callback on the desktop thread is one step.

  The operations of a session are those of \<open>Operations\<close>: the state of a session here is a state there,
  and what this code does to it is a step there.  What an operation reports (\<open>Op_done\<close>, \<open>Invalidated\<close>)
  runs the callbacks here, in the order of the reports.  Log lines, reference counts and the user
  interface behind the chooser are not modelled; freed sessions and requests stay in the maps.
\<close>

section \<open>Error codes\<close>

datatype error_code = XCC_OK | XCC_ERROR_CANCELLED | XCC_ERROR_OWNER_GONE | XCC_ERROR_BACKEND_GONE
  | XCC_ERROR_NO_SUCH_SESSION | XCC_ERROR_INVALID_REQUEST | XCC_ERROR_INVALID_PURPOSE | XCC_ERROR_INVALID_FILTER
  | XCC_ERROR_DEVICE | XCC_ERROR_INTERACTION_REQUIRED | XCC_ERROR_NO_DISPLAY | XCC_ERROR_PIN_LOCKED
  | XCC_ERROR_TOKEN_REMOVED | XCC_ERROR_PIN_INCORRECT | XCC_ERROR_LOGIN_TIMEOUT | XCC_ERROR_NOT_SUPPORTED

datatype cancel_reason = XCC_CANCEL_USER | XCC_CANCEL_OWNER_GONE | XCC_CANCEL_SESSION_CLOSED
  | XCC_CANCEL_BACKEND_GONE | XCC_CANCEL_TOKEN_REMOVED | XCC_CANCEL_DEVICE

datatype result_kind = XCC_RESULT_ACQUIRE | XCC_RESULT_SIGN | XCC_RESULT_CAPABILITIES

fun xcc_error_wire_name :: "error_code \<Rightarrow> string option" where
  "xcc_error_wire_name XCC_OK = None"
| "xcc_error_wire_name XCC_ERROR_CANCELLED = Some ''cancelled''"
| "xcc_error_wire_name XCC_ERROR_OWNER_GONE = Some ''owner_gone''"
| "xcc_error_wire_name XCC_ERROR_BACKEND_GONE = Some ''backend_gone''"
| "xcc_error_wire_name XCC_ERROR_NO_SUCH_SESSION = Some ''no_such_session''"
| "xcc_error_wire_name XCC_ERROR_INVALID_REQUEST = Some ''invalid_request''"
| "xcc_error_wire_name XCC_ERROR_INVALID_PURPOSE = Some ''invalid_purpose''"
| "xcc_error_wire_name XCC_ERROR_INVALID_FILTER = Some ''invalid_filter''"
| "xcc_error_wire_name XCC_ERROR_DEVICE = Some ''device_error''"
| "xcc_error_wire_name XCC_ERROR_INTERACTION_REQUIRED = Some ''interaction_required''"
| "xcc_error_wire_name XCC_ERROR_NO_DISPLAY = Some ''no_display''"
| "xcc_error_wire_name XCC_ERROR_PIN_LOCKED = Some ''pin_locked''"
| "xcc_error_wire_name XCC_ERROR_TOKEN_REMOVED = Some ''token_removed''"
| "xcc_error_wire_name XCC_ERROR_PIN_INCORRECT = Some ''device_error''"
| "xcc_error_wire_name XCC_ERROR_LOGIN_TIMEOUT = Some ''device_error''"
| "xcc_error_wire_name XCC_ERROR_NOT_SUPPORTED = Some ''invalid_request''"

definition xcc_error_wire_response :: "error_code \<Rightarrow> nat" where
  "xcc_error_wire_response err = (if err = XCC_OK then 0 else if err = XCC_ERROR_CANCELLED then 1 else 2)"

text \<open>The table \<open>codes\<close> of \<open>completion\<close> and of \<open>cancel\<close>.\<close>

fun cancel_code :: "cancel_reason \<Rightarrow> error_code" where
  "cancel_code XCC_CANCEL_USER = XCC_ERROR_CANCELLED"
| "cancel_code XCC_CANCEL_OWNER_GONE = XCC_ERROR_OWNER_GONE"
| "cancel_code XCC_CANCEL_SESSION_CLOSED = XCC_ERROR_NO_SUCH_SESSION"
| "cancel_code XCC_CANCEL_BACKEND_GONE = XCC_ERROR_BACKEND_GONE"
| "cancel_code XCC_CANCEL_TOKEN_REMOVED = XCC_ERROR_TOKEN_REMOVED"
| "cancel_code XCC_CANCEL_DEVICE = XCC_ERROR_DEVICE"

section \<open>State\<close>

text \<open>The identity level is the number the caller passes; numbers beyond the enumeration are refused.\<close>

record principal =
  pr_owner_generation :: nat
  pr_app_id :: "string option"
  pr_identity_level :: guint
  pr_identity_present :: bool

definition level_of :: "guint \<Rightarrow> identity_level" where
  "level_of l = (if l = 0 then CERTIFICATE_IDENTITY_VERIFIED_SANDBOXED else if l = 1 then CERTIFICATE_IDENTITY_DERIVED_HOST
     else CERTIFICATE_IDENTITY_UNKNOWN)"

fun level_number :: "identity_level \<Rightarrow> guint" where
  "level_number CERTIFICATE_IDENTITY_VERIFIED_SANDBOXED = 0"
| "level_number CERTIFICATE_IDENTITY_DERIVED_HOST = 1"
| "level_number CERTIFICATE_IDENTITY_UNKNOWN = 2"

text \<open>
  \<open>rq_cancelled\<close> is the state of the request's cancellable, \<open>rq_chooser\<close> the open chooser by the list it
  shows, \<open>rq_workers\<close> the enumerations whose callback has not returned, and \<open>rq_operation\<close> the operation
  of a signature.  \<open>rq_input\<close> holds what a signature passes on.
\<close>

record xcc_request =
  rq_session :: "nat option"
  rq_kind :: result_kind
  rq_cancelled :: bool
  rq_answered :: bool
  rq_detached :: bool
  rq_cancel_intent :: "cancel_reason option"
  rq_cancelled_code :: error_code
  rq_error :: error_code
  rq_candidate_present :: bool
  rq_signature_present :: bool
  rq_mechanisms_present :: bool
  rq_result_may_sign :: bool
  rq_protected_path :: bool
  rq_has_display :: bool
  rq_candidate :: "certificate_candidate option"
  rq_signature :: "bytes option"
  rq_mechanisms :: "string list option"
  rq_app_id :: "string option"
  rq_level :: guint
  rq_purpose :: certificate_purpose
  rq_filter :: certificate_filter
  rq_lifetime :: guint
  rq_may_sign :: bool
  rq_interaction_forbidden :: bool
  rq_generic_purpose :: bool
  rq_chooser :: "certificate_candidate list option"
  rq_enumerating :: bool
  rq_enumerate_again :: bool
  rq_chooser_completed :: bool
  rq_pending_chosen :: "certificate_candidate option"
  rq_pending_error :: error_code
  rq_input :: operation_request
  rq_validation_error :: error_code
  rq_principal :: principal
  rq_workers :: nat
  rq_operation :: "nat option"

datatype core_post = Post_acquire nat | Post_sign nat | Post_capabilities nat | Post_cancel nat cancel_reason
  | Post_generation nat | Post_shutdown | Post_ack nat | Post_rollback nat | Post_session_call nat "string option"
  | Post_register nat | Post_principal nat "principal option"

datatype desktop_call = Desk_completion nat | Desk_invalidated nat string | Desk_shutdown

text \<open>Where the desktop thread stands in \<open>completion\<close>: before its call of \<open>done\<close>, and in that call.\<close>

datatype desktop_stage = Desk_idle | Desk_deciding nat | Desk_called nat

datatype core_effect = Done nat error_code "certificate_candidate option" "bytes option"
  | Offered nat "certificate_candidate list" | Consented nat certificate_candidate
  | Session_made nat bool | Session_refused error_code | Principal_checked nat error_code
  | Session_invalidated nat string | Shutdown_done

text \<open>
  \<open>cc_callbacks\<close> is the request an operation of a session reports to.  \<open>cc_waiting\<close>: the desktop thread
  waits in \<open>xcc_session_new\<close> or \<open>xcc_session_check_principal\<close>.
\<close>

record core =
  cc_generation :: nat
  cc_stopping :: bool
  cc_watch_stopped :: bool
  cc_shutdown_started :: bool
  cc_shutdown_posted :: bool
  cc_sessions :: "nat \<Rightarrow> op_state option"
  cc_next_session :: nat
  cc_registered :: "nat list"
  cc_requests :: "nat \<Rightarrow> xcc_request option"
  cc_next_request :: nat
  cc_active :: "nat list"
  cc_callbacks :: "nat \<Rightarrow> nat \<Rightarrow> nat option"
  cc_posts :: nat
  cc_queue :: "core_post list"
  cc_desktop :: "desktop_call list"
  cc_stage :: desktop_stage
  cc_waiting :: bool
  cc_log :: "core_effect list"

text \<open>The configuration: whether there is a display, and whether a chooser can be shown.\<close>

record core_config =
  cg_has_display :: bool
  cg_chooser_available :: bool

text \<open>
  What a step reads: what the operations read, the token events waiting when the code asks for them and
  when it asks a second time, the real time, the names of applications, and whether the user
  interface has nothing left to deliver.
\<close>

record 'w core_env =
  ce_op :: "'w op_env"
  ce_events :: "(certificate_token option \<times> bool) list"
  ce_more_events :: "(certificate_token option \<times> bool) list"
  ce_real_time :: int
  ce_desktop_name :: "string \<Rightarrow> string option option"
  ce_ui_idle :: bool

definition core_start :: core where
  "core_start = \<lparr>cc_generation = 0, cc_stopping = False, cc_watch_stopped = False, cc_shutdown_started = False,
     cc_shutdown_posted = False, cc_sessions = (\<lambda>_. None), cc_next_session = 0, cc_registered = [],
     cc_requests = (\<lambda>_. None), cc_next_request = 0, cc_active = [], cc_callbacks = (\<lambda>_ _. None), cc_posts = 0,
     cc_queue = [], cc_desktop = [], cc_stage = Desk_idle, cc_waiting = False, cc_log = []\<rparr>"

section \<open>Posting\<close>

definition core_note :: "core_effect \<Rightarrow> core \<Rightarrow> core" where
  "core_note x c = c\<lparr>cc_log := x # cc_log c\<rparr>"

definition request_set :: "nat \<Rightarrow> (xcc_request \<Rightarrow> xcc_request) \<Rightarrow> core \<Rightarrow> core" where
  "request_set r f c = c\<lparr>cc_requests := (cc_requests c)(r := map_option f (cc_requests c r))\<rparr>"

definition session_put :: "nat \<Rightarrow> op_state \<Rightarrow> core \<Rightarrow> core" where
  "session_put sid os c = c\<lparr>cc_sessions := (cc_sessions c)(sid \<mapsto> os)\<rparr>"

text \<open>A post is refused once the shutdown is posted; \<open>cc_accepts\<close> is the result.\<close>

definition cc_accepts :: "core \<Rightarrow> bool" where
  "cc_accepts c \<longleftrightarrow> \<not> cc_shutdown_posted c"

definition xcc_context_post :: "core_post \<Rightarrow> core \<Rightarrow> core" where
  "xcc_context_post p c = (if cc_accepts c then c\<lparr>cc_queue := cc_queue c @ [p], cc_posts := cc_posts c + 1\<rparr> else c)"

definition desktop_post :: "desktop_call \<Rightarrow> core \<Rightarrow> core" where
  "desktop_post p c = c\<lparr>cc_desktop := cc_desktop c @ [p]\<rparr>"

section \<open>Requests\<close>

definition xcc_request_new :: "nat option \<Rightarrow> result_kind \<Rightarrow> xcc_request" where
  "xcc_request_new s kind = \<lparr>rq_session = s, rq_kind = kind, rq_cancelled = False, rq_answered = False, rq_detached = False,
     rq_cancel_intent = None, rq_cancelled_code = XCC_OK, rq_error = XCC_OK, rq_candidate_present = False,
     rq_signature_present = False, rq_mechanisms_present = False, rq_result_may_sign = False, rq_protected_path = False,
     rq_has_display = False, rq_candidate = None, rq_signature = None, rq_mechanisms = None, rq_app_id = None, rq_level = 0,
     rq_purpose = CERTIFICATE_PURPOSE_CLIENT_AUTH,
     rq_filter = \<lparr>cf_purpose = CERTIFICATE_PURPOSE_CLIENT_AUTH, cf_operations = 0, cf_issuers = None, cf_key_usage = None,
       cf_eku_oids = None, cf_key_algorithms = None, cf_token_label = None, cf_piv_slot = None\<rparr>,
     rq_lifetime = 0, rq_may_sign = False, rq_interaction_forbidden = False, rq_generic_purpose = False, rq_chooser = None,
     rq_enumerating = False, rq_enumerate_again = False, rq_chooser_completed = False, rq_pending_chosen = None,
     rq_pending_error = XCC_OK,
     rq_input = \<lparr>or_decrypt = False, or_mechanism_name = None, or_parameters = None, or_data = [], or_parent_window = None,
       or_caller_display = None, or_cancellable = True, or_cancelled = False\<rparr>,
     rq_validation_error = XCC_OK,
     rq_principal = \<lparr>pr_owner_generation = 0, pr_app_id = None, pr_identity_level = 0, pr_identity_present = False\<rparr>,
     rq_workers = 0, rq_operation = None\<rparr>"

text \<open>\<open>g_cancellable_cancel\<close> on the request's cancellable, which its operation watches.\<close>

definition cancel_cancellable :: "nat \<Rightarrow> core \<Rightarrow> core" where
  "cancel_cancellable r c =
     (case cc_requests c r of
        None \<Rightarrow> c
      | Some q \<Rightarrow>
          let c1 = request_set r (\<lambda>q. q\<lparr>rq_cancelled := True\<rparr>) c
          in (case (rq_session q, rq_operation q) of
               (Some sid, Some i) \<Rightarrow>
                 (case cc_sessions c1 sid of None \<Rightarrow> c1 | Some os \<Rightarrow> session_put sid (op_set i cancel_operation os) c1)
             | _ \<Rightarrow> c1))"

text \<open>\<open>completed g q e\<close>: the request with the result \<open>xcc_request_complete\<close> writes.\<close>

definition completed :: "core_config \<Rightarrow> error_code \<Rightarrow> xcc_request \<Rightarrow> xcc_request" where
  "completed g err q =
     (let err = (if rq_cancelled_code q \<noteq> XCC_OK then rq_cancelled_code q
                 else if rq_cancelled q then XCC_ERROR_CANCELLED else err);
          q1 = (if rq_kind q = XCC_RESULT_CAPABILITIES \<and> rq_mechanisms q = None
                then q\<lparr>rq_mechanisms := Some (fst certificate_tokens_capabilities),
                       rq_protected_path := snd certificate_tokens_capabilities, rq_has_display := cg_has_display g\<rparr>
                else q)
      in q1\<lparr>rq_answered := True, rq_error := err,
            rq_candidate_present := (err = XCC_OK \<and> rq_candidate q1 \<noteq> None),
            rq_signature_present := (err = XCC_OK \<and> rq_signature q1 \<noteq> None),
            rq_mechanisms_present := (err = XCC_OK \<and> rq_kind q1 = XCC_RESULT_CAPABILITIES)\<rparr>)"

definition xcc_request_complete :: "core_config \<Rightarrow> nat \<Rightarrow> error_code \<Rightarrow> core \<Rightarrow> core" where
  "xcc_request_complete g r err c =
     (case cc_requests c r of
        None \<Rightarrow> c
      | Some q \<Rightarrow> if rq_answered q then c else desktop_post (Desk_completion r) (request_set r (completed g err) c))"

text \<open>\<open>p\<close> is the post that starts the request.\<close>

definition xcc_request_schedule :: "core_config \<Rightarrow> nat \<Rightarrow> core_post \<Rightarrow> core \<Rightarrow> core" where
  "xcc_request_schedule g r p c =
     (if cc_accepts c then xcc_context_post p c
      else xcc_request_complete g r XCC_ERROR_BACKEND_GONE (request_set r (\<lambda>q. q\<lparr>rq_detached := True\<rparr>) c))"

section \<open>Sessions\<close>

text \<open>A session that closes, and one that is invalidated, and the requests of the context.\<close>

definition close_request :: "nat \<Rightarrow> nat \<Rightarrow> core \<Rightarrow> core" where
  "close_request sid r c =
     (case cc_requests c r of
        None \<Rightarrow> c
      | Some q \<Rightarrow>
          if rq_session q \<noteq> Some sid then c
          else request_set r (\<lambda>q.
            let q1 = (if rq_cancel_intent q = None then q\<lparr>rq_cancel_intent := Some XCC_CANCEL_SESSION_CLOSED\<rparr> else q)
            in if rq_answered q1 then q1
               else q1\<lparr>rq_cancelled_code := (if rq_cancelled_code q1 = XCC_OK then XCC_ERROR_NO_SUCH_SESSION else rq_cancelled_code q1),
                       rq_cancelled := True\<rparr>) c)"

definition session_closed :: "nat \<Rightarrow> core \<Rightarrow> core" where
  "session_closed sid c =
     (let c1 = fold (close_request sid) (cc_active c) c in c1\<lparr>cc_registered := remove1 sid (cc_registered c1)\<rparr>)"

definition xcc_session_close_internal :: "'w core_env \<Rightarrow> nat \<Rightarrow> core \<Rightarrow> core" where
  "xcc_session_close_internal e sid c =
     (case cc_sessions c sid of
        None \<Rightarrow> c
      | Some os \<Rightarrow>
          if se_closed (os_session os) then c
          else session_closed sid (session_put sid (Operations.xcc_session_close (ce_op e) os) c))"

definition invalidate_reason :: "string \<Rightarrow> cancel_reason" where
  "invalidate_reason reason =
     (if reason = ''token_removed'' then XCC_CANCEL_TOKEN_REMOVED
      else if reason = ''backend_gone'' then XCC_CANCEL_BACKEND_GONE else XCC_CANCEL_DEVICE)"

definition invalidate_request :: "nat \<Rightarrow> string \<Rightarrow> nat \<Rightarrow> core \<Rightarrow> core" where
  "invalidate_request sid reason r c =
     (case cc_requests c r of
        None \<Rightarrow> c
      | Some q \<Rightarrow>
          if rq_session q \<noteq> Some sid then c
          else request_set r (\<lambda>q.
            let q1 = (if rq_cancel_intent q = None then q\<lparr>rq_cancel_intent := Some (invalidate_reason reason)\<rparr> else q)
            in if \<not> rq_answered q1 \<and> rq_cancelled_code q1 = XCC_OK
               then q1\<lparr>rq_cancelled_code := cancel_code (invalidate_reason reason)\<rparr> else q1) c)"

text \<open>What \<open>xcc_session_invalidate_internal\<close> does around the session itself.\<close>

definition session_invalidated :: "nat \<Rightarrow> string \<Rightarrow> core \<Rightarrow> core" where
  "session_invalidated sid reason c =
     session_closed sid (desktop_post (Desk_invalidated sid reason) (fold (invalidate_request sid reason) (cc_active c) c))"

section \<open>Results of operations\<close>

definition operation_code :: "gerror \<Rightarrow> error_code" where
  "operation_code err =
     (case err of
        Error_pkcs11 CERTIFICATE_PKCS11_ERROR_CANCELLED \<Rightarrow> XCC_ERROR_CANCELLED
      | Error_io_cancelled \<Rightarrow> XCC_ERROR_CANCELLED
      | Error_pkcs11 CERTIFICATE_PKCS11_ERROR_PIN_LOCKED \<Rightarrow> XCC_ERROR_PIN_LOCKED
      | Error_pkcs11 CERTIFICATE_PKCS11_ERROR_TOKEN_REMOVED \<Rightarrow> XCC_ERROR_TOKEN_REMOVED
      | Error_pkcs11 CERTIFICATE_PKCS11_ERROR_LOGIN_TIMEOUT \<Rightarrow> XCC_ERROR_LOGIN_TIMEOUT
      | Error_pkcs11 CERTIFICATE_PKCS11_ERROR_PIN_INCORRECT \<Rightarrow> XCC_ERROR_PIN_INCORRECT
      | Error_pkcs11 CERTIFICATE_PKCS11_ERROR_NO_DISPLAY \<Rightarrow> XCC_ERROR_NO_DISPLAY
      | Error_pkcs11 CERTIFICATE_PKCS11_ERROR_NOT_SUPPORTED \<Rightarrow> XCC_ERROR_NOT_SUPPORTED
      | Error_io NOT_SUPPORTED \<Rightarrow> XCC_ERROR_NOT_SUPPORTED
      | Error_io INVALID_ARGUMENT \<Rightarrow> XCC_ERROR_INVALID_REQUEST
      | _ \<Rightarrow> XCC_ERROR_DEVICE)"

definition on_operation_done :: "core_config \<Rightarrow> nat \<Rightarrow> gerror + bytes \<Rightarrow> core \<Rightarrow> core" where
  "on_operation_done g r result c =
     (case result of
        Inl err \<Rightarrow> xcc_request_complete g r (operation_code err) c
      | Inr v \<Rightarrow> xcc_request_complete g r XCC_OK (request_set r (\<lambda>q. q\<lparr>rq_signature := Some v\<rparr>) c))"

text \<open>The callbacks of one report of a session's operations.\<close>

definition report :: "core_config \<Rightarrow> nat \<Rightarrow> op_effect \<Rightarrow> core \<Rightarrow> core" where
  "report g sid x c =
     (case x of
        Invalidated reason \<Rightarrow> session_invalidated sid reason c
      | Op_done i result \<Rightarrow> (case cc_callbacks c sid i of None \<Rightarrow> c | Some r \<Rightarrow> on_operation_done g r result c)
      | _ \<Rightarrow> c)"

text \<open>A session goes to a new state: its new reports, oldest first.\<close>

definition session_goes :: "core_config \<Rightarrow> nat \<Rightarrow> op_state \<Rightarrow> core \<Rightarrow> core" where
  "session_goes g sid os' c =
     (case cc_sessions c sid of
        None \<Rightarrow> c
      | Some os \<Rightarrow>
          fold (report g sid) (rev (take (length (os_log os') - length (os_log os)) (os_log os'))) (session_put sid os' c))"

definition xcc_session_invalidate_internal :: "core_config \<Rightarrow> 'w core_env \<Rightarrow> string \<Rightarrow> nat \<Rightarrow> core \<Rightarrow> core" where
  "xcc_session_invalidate_internal g e reason sid c =
     (case cc_sessions c sid of
        None \<Rightarrow> c
      | Some os \<Rightarrow> session_goes g sid (Operations.xcc_session_invalidate (ce_op e) reason os) c)"

section \<open>Principals\<close>

definition identity_set :: "identity_level \<Rightarrow> bool \<Rightarrow> op_state \<Rightarrow> op_state" where
  "identity_set level seen = session_set (\<lambda>se. se\<lparr>se_identity_level := level, se_identity_seen := seen\<rparr>)"

text \<open>\<open>None\<close> is a principal that is \<open>NULL\<close> or of another layout.\<close>

definition principal_check :: "nat \<Rightarrow> principal option \<Rightarrow> core \<Rightarrow> core \<times> error_code" where
  "principal_check sid pr c =
     (case (pr, cc_sessions c sid) of
        (None, _) \<Rightarrow> (c, XCC_ERROR_INVALID_REQUEST)
      | (_, None) \<Rightarrow> (c, XCC_ERROR_NO_SUCH_SESSION)
      | (Some p, Some os) \<Rightarrow>
          let se = os_session os
          in if se_closed se \<or> se_owner_generation se \<noteq> cc_generation c \<or> pr_owner_generation p \<noteq> se_owner_generation se \<or>
                se_app_id se \<noteq> pr_app_id p
             then (c, XCC_ERROR_NO_SUCH_SESSION)
             else if pr_identity_present p
             then (if pr_identity_level p > level_number CERTIFICATE_IDENTITY_UNKNOWN then (c, XCC_ERROR_INVALID_REQUEST)
                   else if se_identity_seen se \<and> pr_identity_level p < level_number (se_identity_level se)
                   then (c, XCC_ERROR_NO_SUCH_SESSION)
                   else (session_put sid (identity_set (level_of (pr_identity_level p)) True os) c, XCC_OK))
             else (c, XCC_OK))"

definition xcc_request_validate :: "nat \<Rightarrow> core \<Rightarrow> core \<times> error_code" where
  "xcc_request_validate r c =
     (case cc_requests c r of
        None \<Rightarrow> (c, XCC_ERROR_INVALID_REQUEST)
      | Some q \<Rightarrow>
          let c1 = c\<lparr>cc_active := cc_active c @ [r]\<rparr>
          in if cc_stopping c then (c1, XCC_ERROR_BACKEND_GONE)
             else if rq_cancel_intent q \<noteq> None then (c1, XCC_ERROR_CANCELLED)
             else if rq_cancelled_code q \<noteq> XCC_OK then (c1, rq_cancelled_code q)
             else if rq_cancelled q then (c1, XCC_ERROR_CANCELLED)
             else if rq_validation_error q \<noteq> XCC_OK then (c1, rq_validation_error q)
             else (case rq_session q of
                 None \<Rightarrow> (request_set r (\<lambda>q. q\<lparr>rq_principal := (rq_principal q)\<lparr>pr_owner_generation := cc_generation c\<rparr>\<rparr>) c1, XCC_OK)
               | Some sid \<Rightarrow>
                   if pr_app_id (rq_principal q) = None then (c1, XCC_ERROR_INVALID_REQUEST)
                   else principal_check sid (Some (rq_principal q)) c1))"

section \<open>Acquisition\<close>

definition start_enumeration :: "nat \<Rightarrow> core \<Rightarrow> core" where
  "start_enumeration r =
     request_set r (\<lambda>q. q\<lparr>rq_enumerating := True, rq_enumerate_again := False, rq_workers := rq_workers q + 1\<rparr>)"

definition acquire_token_event :: "certificate_token option \<Rightarrow> bool \<Rightarrow> nat \<Rightarrow> core \<Rightarrow> core" where
  "acquire_token_event token added r c =
     (case cc_requests c r of
        None \<Rightarrow> c
      | Some q \<Rightarrow>
          if rq_answered q \<or> rq_kind q \<noteq> XCC_RESULT_ACQUIRE then c
          else if rq_chooser_completed q
          then (if \<not> added \<and> (\<exists>p. rq_pending_chosen q = Some p \<and> certificate_token_same (cd_token p) token) \<and> \<not> rq_cancelled q
                then cancel_cancellable r (request_set r (\<lambda>q. q\<lparr>rq_cancelled_code := XCC_ERROR_TOKEN_REMOVED\<rparr>) c)
                else if rq_pending_chosen q \<noteq> None then request_set r (\<lambda>q. q\<lparr>rq_enumerate_again := True\<rparr>) c
                else c)
          else if rq_chooser q = None \<and> \<not> rq_enumerating q then c
          else
            let c1 = (if \<not> added \<and> rq_chooser q \<noteq> None then request_set r (\<lambda>q. q\<lparr>rq_chooser := Some []\<rparr>) c else c)
            in if rq_enumerating q then request_set r (\<lambda>q. q\<lparr>rq_enumerate_again := True\<rparr>) c1 else start_enumeration r c1)"

definition xcc_acquire_token_event :: "certificate_token option \<Rightarrow> bool \<Rightarrow> core \<Rightarrow> core" where
  "xcc_acquire_token_event token added c = fold (acquire_token_event token added) (cc_active c) c"

definition remove_token :: "core_config \<Rightarrow> 'w core_env \<Rightarrow> certificate_token option \<Rightarrow> nat \<Rightarrow> core \<Rightarrow> core" where
  "remove_token g e token sid c =
     (case cc_sessions c sid of
        None \<Rightarrow> c
      | Some os \<Rightarrow>
          if xcc_session_uses_token token (os_session os) then xcc_session_invalidate_internal g e ''token_removed'' sid c else c)"

definition token_event :: "core_config \<Rightarrow> 'w core_env \<Rightarrow> certificate_token option \<times> bool \<Rightarrow> core \<Rightarrow> core" where
  "token_event g e ev c =
     (let c1 = xcc_acquire_token_event (fst ev) (snd ev) c
      in if snd ev then c1 else fold (remove_token g e (fst ev)) (cc_registered c1) c1)"

text \<open>\<open>certificate_tokens_dispatch_pending\<close> with \<open>token_event\<close> for its callback, over the events it finds.\<close>

definition deliver_token_events ::
  "core_config \<Rightarrow> 'w core_env \<Rightarrow> (certificate_token option \<times> bool) list \<Rightarrow> core \<Rightarrow> core" where
  "deliver_token_events g e events = fold (token_event g e) events"

text \<open>The grant of \<open>finish_acquire\<close>, pending.\<close>

definition grant_session :: "int \<Rightarrow> xcc_request \<Rightarrow> certificate_candidate \<Rightarrow> xcc_session \<Rightarrow> xcc_session" where
  "grant_session now q candidate se =
     (xcc_session_grant now candidate (rq_purpose q) (rq_may_sign q \<and> cd_can_sign candidate) False (rq_lifetime q)
        (se\<lparr>se_grant_pending := True\<rparr>))\<lparr>se_generic_purpose := rq_generic_purpose q\<rparr>"

definition finish_acquire :: "core_config \<Rightarrow> 'w core_env \<Rightarrow> nat \<Rightarrow> certificate_candidate \<Rightarrow> core \<Rightarrow> core" where
  "finish_acquire g e r candidate c =
     (case cc_requests c r of
        None \<Rightarrow> c
      | Some q \<Rightarrow>
          if rq_cancel_intent q \<noteq> None then xcc_request_complete g r XCC_ERROR_CANCELLED c
          else (case rq_session q of
              None \<Rightarrow> xcc_request_complete g r XCC_ERROR_NO_SUCH_SESSION c
            | Some sid \<Rightarrow>
                (case cc_sessions c sid of
                   None \<Rightarrow> xcc_request_complete g r XCC_ERROR_NO_SUCH_SESSION c
                 | Some os \<Rightarrow>
                     if se_closed (os_session os) then xcc_request_complete g r XCC_ERROR_NO_SUCH_SESSION c
                     else if (case cd_token candidate of None \<Rightarrow> True | Some t \<Rightarrow> \<not> has_text (tk_serial t))
                     then xcc_request_complete g r XCC_ERROR_DEVICE c
                     else xcc_request_complete g r XCC_OK
                       (request_set r (\<lambda>q. q\<lparr>rq_candidate := Some candidate, rq_result_may_sign := rq_may_sign q\<rparr>)
                         (session_put sid (session_set (grant_session (oe_now (ce_op e)) q candidate) os) c)))))"

text \<open>\<open>xcc_acquire_rollback\<close>, which asserts that the grant is pending.\<close>

definition xcc_acquire_rollback :: "nat \<Rightarrow> core \<Rightarrow> core" where
  "xcc_acquire_rollback r c =
     (case cc_requests c r of
        None \<Rightarrow> c
      | Some q \<Rightarrow>
          let c1 = (case rq_session q of
                None \<Rightarrow> c
              | Some sid \<Rightarrow>
                  (case cc_sessions c sid of None \<Rightarrow> c | Some os \<Rightarrow> session_put sid (session_set rollback_session os) c))
          in request_set r (\<lambda>q. q\<lparr>rq_candidate := None\<rparr>) c1)"

definition on_chooser_done ::
  "core_config \<Rightarrow> 'w core_env \<Rightarrow> (certificate_token option \<times> bool) list \<Rightarrow> nat \<Rightarrow> certificate_candidate option \<Rightarrow> error_code
     \<Rightarrow> core \<Rightarrow> core" where
  "on_chooser_done g e events r chosen err c =
     (let c1 = request_set r (\<lambda>q.
            let q1 = q\<lparr>rq_chooser := None\<rparr>
            in if rq_chooser_completed q1 then q1
               else q1\<lparr>rq_chooser_completed := True, rq_pending_error := err, rq_pending_chosen := chosen\<rparr>) c;
          c2 = deliver_token_events g e events c1
      in case cc_requests c2 r of
           None \<Rightarrow> c2
         | Some q \<Rightarrow>
             if rq_enumerating q then c2
             else if err \<noteq> XCC_OK then xcc_request_complete g r err c2
             else if rq_cancelled_code q \<noteq> XCC_OK then xcc_request_complete g r (rq_cancelled_code q) c2
             else (case chosen of
                 None \<Rightarrow> xcc_request_complete g r XCC_ERROR_CANCELLED c2
               | Some candidate \<Rightarrow>
                   if rq_cancelled q then xcc_request_complete g r XCC_ERROR_CANCELLED c2
                   else finish_acquire g e r candidate c2))"

text \<open>
  \<open>None\<close> are candidates that are \<open>NULL\<close>, with whether the error is \<open>G_IO_ERROR_CANCELLED\<close>.  The chooser is
  available here, so \<open>certificate_chooser_show\<close> answers later.
\<close>

definition enumerated_completed ::
  "core_config \<Rightarrow> 'w core_env \<Rightarrow> nat \<Rightarrow> certificate_candidate list option \<Rightarrow> xcc_request \<Rightarrow> core \<Rightarrow> core" where
  "enumerated_completed g e r candidates q c =
     (case rq_pending_chosen q of
        None \<Rightarrow> on_chooser_done g e (ce_more_events e) r None (rq_pending_error q) c
      | Some chosen \<Rightarrow>
          if rq_cancelled_code q \<noteq> XCC_OK \<or> rq_cancelled q
          then on_chooser_done g e (ce_more_events e) r (Some chosen) (rq_pending_error q) c
          else (case candidates of
              None \<Rightarrow> xcc_request_complete g r XCC_ERROR_DEVICE c
            | Some cs \<Rightarrow>
                if rq_enumerate_again q then start_enumeration r c
                else (case List.find (\<lambda>x. certificate_candidate_same (Some chosen) (Some x))
                        (certificate_filter_apply cs (rq_filter q) (ce_real_time e)) of
                    Some x \<Rightarrow> on_chooser_done g e (ce_more_events e) r (Some x) (rq_pending_error q) c
                  | None \<Rightarrow> xcc_request_complete g r XCC_ERROR_TOKEN_REMOVED c)))"

definition on_enumerated ::
  "core_config \<Rightarrow> 'w core_env \<Rightarrow> nat \<Rightarrow> certificate_candidate list option \<Rightarrow> bool \<Rightarrow> core \<Rightarrow> core" where
  "on_enumerated g e r candidates cancelled c =
     (let c1 = deliver_token_events g e (ce_events e) c;
          c2 = request_set r (\<lambda>q. q\<lparr>rq_enumerating := False, rq_workers := rq_workers q - 1\<rparr>) c1
      in case cc_requests c2 r of
           None \<Rightarrow> c2
         | Some q \<Rightarrow>
             if rq_cancel_intent q \<noteq> None \<and> rq_chooser q = None then xcc_request_complete g r XCC_ERROR_CANCELLED c2
             else if rq_chooser_completed q then enumerated_completed g e r candidates q c2
             else (case candidates of
                 None \<Rightarrow>
                   if rq_chooser q \<noteq> None
                   then cancel_cancellable r
                     (if cancelled then c2 else request_set r (\<lambda>q. q\<lparr>rq_cancelled_code := XCC_ERROR_DEVICE\<rparr>) c2)
                   else if cancelled
                   then xcc_request_complete g r
                     (if rq_cancelled_code q \<noteq> XCC_OK then rq_cancelled_code q else XCC_ERROR_CANCELLED) c2
                   else xcc_request_complete g r XCC_ERROR_DEVICE c2
               | Some cs \<Rightarrow>
                   if rq_interaction_forbidden q then xcc_request_complete g r XCC_ERROR_INTERACTION_REQUIRED c2
                   else if \<not> cg_chooser_available g then xcc_request_complete g r XCC_ERROR_NO_DISPLAY c2
                   else if rq_enumerate_again q then start_enumeration r c2
                   else
                     let matching = certificate_filter_apply cs (rq_filter q) (ce_real_time e)
                     in core_note (Offered r matching) (request_set r (\<lambda>q. q\<lparr>rq_chooser := Some matching\<rparr>) c2)))"

definition xcc_acquire_start :: "core_config \<Rightarrow> nat \<Rightarrow> core \<Rightarrow> core" where
  "xcc_acquire_start g r c =
     (case xcc_request_validate r c of
        (c1, err) \<Rightarrow>
          if err \<noteq> XCC_OK then xcc_request_complete g r err c1
          else (case cc_requests c1 r of
              None \<Rightarrow> c1
            | Some q \<Rightarrow>
                if (case rq_session q of None \<Rightarrow> False
                    | Some sid \<Rightarrow> (case cc_sessions c1 sid of None \<Rightarrow> False | Some os \<Rightarrow> se_granted (os_session os)))
                then xcc_request_complete g r XCC_ERROR_INVALID_REQUEST c1
                else if list_ex (\<lambda>p. p \<noteq> r \<and> (case cc_requests c1 p of None \<Rightarrow> False
                       | Some x \<Rightarrow> rq_session x = rq_session q \<and> rq_kind x = XCC_RESULT_ACQUIRE \<and> \<not> rq_answered x)) (cc_active c1)
                then xcc_request_complete g r XCC_ERROR_INVALID_REQUEST c1
                else start_enumeration r c1))"

section \<open>Signatures and capabilities\<close>

definition xcc_sign_start :: "core_config \<Rightarrow> 'w core_env \<Rightarrow> nat \<Rightarrow> core \<Rightarrow> core" where
  "xcc_sign_start g e r c =
     (case xcc_request_validate r c of
        (c1, err) \<Rightarrow>
          if err \<noteq> XCC_OK then xcc_request_complete g r err c1
          else (case cc_requests c1 r of
              None \<Rightarrow> c1
            | Some q \<Rightarrow>
                (case rq_session q of
                   None \<Rightarrow> c1
                 | Some sid \<Rightarrow>
                     (case cc_sessions c1 sid of
                        None \<Rightarrow> c1
                      | Some os \<Rightarrow>
                          let name = certificate_app_display_name (ce_desktop_name e) (rq_app_id q);
                              os' = certificate_broker_perform (ce_op e) ((rq_input q)\<lparr>or_cancelled := rq_cancelled q,
                                or_caller_display := (if name \<noteq> None then name else rq_app_id q)\<rparr>) os;
                              c2 = session_put sid os' c1
                          in if os_next os < os_next os'
                             then (request_set r (\<lambda>q. q\<lparr>rq_operation := Some (os_next os)\<rparr>) c2)
                               \<lparr>cc_callbacks := (cc_callbacks c2)(sid := (cc_callbacks c2 sid)(os_next os \<mapsto> r))\<rparr>
                             else (case os_log os' of
                                 Op_refused refusal # _ \<Rightarrow> on_operation_done g r (Inl refusal) c2
                               | _ \<Rightarrow> c2)))))"

definition capabilities_start :: "core_config \<Rightarrow> nat \<Rightarrow> core \<Rightarrow> core" where
  "capabilities_start g r c =
     (case xcc_request_validate r c of
        (c1, err) \<Rightarrow>
          if err \<noteq> XCC_OK then xcc_request_complete g r err c1
          else request_set r (\<lambda>q. q\<lparr>rq_workers := rq_workers q + 1\<rparr>) c1)"

text \<open>\<open>capabilities_thread\<close> and its callback.\<close>

definition capabilities_done :: "core_config \<Rightarrow> nat \<Rightarrow> core \<Rightarrow> core" where
  "capabilities_done g r c =
     xcc_request_complete g r XCC_OK (request_set r (\<lambda>q. q\<lparr>rq_workers := rq_workers q - 1,
       rq_mechanisms := Some (fst certificate_tokens_capabilities), rq_protected_path := snd certificate_tokens_capabilities,
       rq_has_display := cg_has_display g\<rparr>) c)"

section \<open>Cancellation, owners and shutdown\<close>

definition cancel_request :: "cancel_reason \<Rightarrow> nat \<Rightarrow> core \<Rightarrow> core" where
  "cancel_request reason r c =
     (case cc_requests c r of
        None \<Rightarrow> c
      | Some q \<Rightarrow>
          if rq_answered q then c
          else cancel_cancellable r (request_set r (\<lambda>q. if rq_cancelled_code q = XCC_OK
                 then q\<lparr>rq_cancelled_code := cancel_code reason\<rparr> else q) c))"

text \<open>A request that the owner's loss or the shutdown cancels, whatever was to cancel it before.\<close>

definition override_request :: "cancel_reason \<Rightarrow> nat \<Rightarrow> core \<Rightarrow> core" where
  "override_request reason r c =
     (case cc_requests c r of
        None \<Rightarrow> c
      | Some q \<Rightarrow>
          let c1 = request_set r (\<lambda>q. q\<lparr>rq_cancel_intent := Some reason\<rparr>) c
          in if rq_answered q then c1
             else cancel_cancellable r (request_set r (\<lambda>q. q\<lparr>rq_cancelled_code := cancel_code reason\<rparr>) c1))"

definition request_generation :: "core \<Rightarrow> xcc_request \<Rightarrow> nat" where
  "request_generation c q =
     (case rq_session q of
        None \<Rightarrow> pr_owner_generation (rq_principal q)
      | Some sid \<Rightarrow> (case cc_sessions c sid of None \<Rightarrow> 0 | Some os \<Rightarrow> se_owner_generation (os_session os)))"

definition orphan_request :: "nat \<Rightarrow> core \<Rightarrow> core" where
  "orphan_request r c =
     (case cc_requests c r of
        None \<Rightarrow> c
      | Some q \<Rightarrow> if request_generation c q \<noteq> cc_generation c then override_request XCC_CANCEL_OWNER_GONE r c else c)"

definition orphan_session :: "'w core_env \<Rightarrow> nat \<Rightarrow> core \<Rightarrow> core" where
  "orphan_session e sid c =
     (case cc_sessions c sid of
        None \<Rightarrow> c
      | Some os \<Rightarrow> if se_owner_generation (os_session os) \<noteq> cc_generation c then xcc_session_close_internal e sid c else c)"

definition generation :: "'w core_env \<Rightarrow> nat \<Rightarrow> core \<Rightarrow> core" where
  "generation e n c =
     (let c1 = c\<lparr>cc_generation := n\<rparr>;
          c2 = fold orphan_request (cc_active c1) c1
      in fold (orphan_session e) (cc_registered c2) c2)"

text \<open>\<open>certificate_release_pending\<close>, counted over the sessions.\<close>

definition session_releases :: "op_state \<Rightarrow> nat" where
  "session_releases os = os_releases os +
     (case os_interaction os of None \<Rightarrow> 0 | Some li \<Rightarrow> if li_stage li = Login_prompting then 0 else 1)"

definition xcc_session_releases_pending :: "core \<Rightarrow> nat" where
  "xcc_session_releases_pending c =
     sum_list (map (\<lambda>sid. case cc_sessions c sid of None \<Rightarrow> 0 | Some os \<Rightarrow> session_releases os) [0..<cc_next_session c])"

definition xcc_context_check_shutdown :: "'w core_env \<Rightarrow> core \<Rightarrow> core" where
  "xcc_context_check_shutdown e c =
     (if \<not> cc_stopping c \<or> \<not> cc_watch_stopped c \<or> cc_shutdown_posted c \<or> cc_active c \<noteq> [] \<or> cc_posts c \<noteq> 0 \<or>
         \<not> ce_ui_idle e \<or> xcc_session_releases_pending c \<noteq> 0
      then c
      else desktop_post Desk_shutdown (c\<lparr>cc_shutdown_posted := True, cc_registered := []\<rparr>))"

definition shutdown_start :: "core_config \<Rightarrow> 'w core_env \<Rightarrow> core \<Rightarrow> core" where
  "shutdown_start g e c =
     (let c1 = c\<lparr>cc_stopping := True\<rparr>;
          c2 = fold (override_request XCC_CANCEL_BACKEND_GONE) (cc_active c1) c1;
          c3 = fold (xcc_session_invalidate_internal g e ''backend_gone'') (cc_registered c2) c2
      in xcc_context_check_shutdown e c3)"

definition stopped_watch :: "'w core_env \<Rightarrow> core \<Rightarrow> core" where
  "stopped_watch e c = xcc_context_check_shutdown e (c\<lparr>cc_watch_stopped := True\<rparr>)"

section \<open>Completion\<close>

definition completion_ack :: "'w core_env \<Rightarrow> nat \<Rightarrow> core \<Rightarrow> core" where
  "completion_ack e r c = xcc_context_check_shutdown e (c\<lparr>cc_active := remove1 r (cc_active c)\<rparr>)"

definition rollback_acquisition :: "nat \<Rightarrow> core \<Rightarrow> core" where
  "rollback_acquisition r c = desktop_post (Desk_completion r) (xcc_acquire_rollback r c)"

text \<open>\<open>completion\<close> up to the intent it has read, up to the call of \<open>done\<close>, and after that call.\<close>

definition completion :: "nat \<Rightarrow> core \<Rightarrow> core" where
  "completion r c =
     (request_set r (\<lambda>q. case rq_cancel_intent q of
        None \<Rightarrow> q
      | Some reason \<Rightarrow> q\<lparr>rq_error := cancel_code reason, rq_candidate_present := False, rq_signature_present := False,
          rq_mechanisms_present := False\<rparr>) c)\<lparr>cc_stage := Desk_deciding r\<rparr>"

definition completion_deliver :: "nat \<Rightarrow> core \<Rightarrow> core" where
  "completion_deliver r c =
     (case cc_requests c r of
        None \<Rightarrow> c
      | Some q \<Rightarrow>
          let acquired = (rq_kind q = XCC_RESULT_ACQUIRE \<and> rq_candidate q \<noteq> None)
          in if acquired \<and> rq_error q \<noteq> XCC_OK then (xcc_context_post (Post_rollback r) c)\<lparr>cc_stage := Desk_idle\<rparr>
             else
               let c1 = (case rq_session q of
                     None \<Rightarrow> c
                   | Some sid \<Rightarrow>
                       (case cc_sessions c sid of
                          None \<Rightarrow> c
                        | Some os \<Rightarrow> if acquired then session_put sid (session_set (\<lambda>se. se\<lparr>se_grant_pending := False\<rparr>) os) c else c))
               in (core_note (Done r (rq_error q) (if rq_candidate_present q then rq_candidate q else None)
                    (if rq_signature_present q then rq_signature q else None)) c1)\<lparr>cc_stage := Desk_called r\<rparr>)"

definition completion_return :: "nat \<Rightarrow> core \<Rightarrow> core" where
  "completion_return r c =
     (case cc_requests c r of
        None \<Rightarrow> c
      | Some q \<Rightarrow> (if rq_detached q then c else xcc_context_post (Post_ack r) c)\<lparr>cc_stage := Desk_idle\<rparr>)"

section \<open>The coordinator\<close>

definition session_call :: "core_config \<Rightarrow> 'w core_env \<Rightarrow> nat \<Rightarrow> string option \<Rightarrow> core \<Rightarrow> core" where
  "session_call g e sid reason c =
     (case reason of Some why \<Rightarrow> xcc_session_invalidate_internal g e why sid c | None \<Rightarrow> xcc_session_close_internal e sid c)"

definition session_new_register :: "nat \<Rightarrow> core \<Rightarrow> core" where
  "session_new_register sid c =
     (case cc_sessions c sid of
        None \<Rightarrow> c
      | Some os \<Rightarrow>
          let valid = (\<not> cc_stopping c \<and> se_owner_generation (os_session os) = cc_generation c);
              c1 = (core_note (Session_made sid valid) c)\<lparr>cc_waiting := False\<rparr>
          in if valid then c1\<lparr>cc_registered := cc_registered c1 @ [sid]\<rparr> else c1)"

definition principal_checked :: "nat \<Rightarrow> principal option \<Rightarrow> core \<Rightarrow> core" where
  "principal_checked sid p c =
     (case principal_check sid p c of (c1, err) \<Rightarrow> (core_note (Principal_checked sid err) c1)\<lparr>cc_waiting := False\<rparr>)"

definition posted_function :: "core_config \<Rightarrow> 'w core_env \<Rightarrow> core_post \<Rightarrow> core \<Rightarrow> core" where
  "posted_function g e p =
     (case p of
        Post_acquire r \<Rightarrow> xcc_acquire_start g r
      | Post_sign r \<Rightarrow> xcc_sign_start g e r
      | Post_capabilities r \<Rightarrow> capabilities_start g r
      | Post_cancel r reason \<Rightarrow> cancel_request reason r
      | Post_generation n \<Rightarrow> generation e n
      | Post_shutdown \<Rightarrow> shutdown_start g e
      | Post_ack r \<Rightarrow> completion_ack e r
      | Post_rollback r \<Rightarrow> rollback_acquisition r
      | Post_session_call sid reason \<Rightarrow> session_call g e sid reason
      | Post_register sid \<Rightarrow> session_new_register sid
      | Post_principal sid pr \<Rightarrow> principal_checked sid pr)"

definition coordinator_post :: "core_config \<Rightarrow> 'w core_env \<Rightarrow> core_post \<Rightarrow> core \<Rightarrow> core" where
  "coordinator_post g e p c =
     (let c1 = posted_function g e p c in xcc_context_check_shutdown e (c1\<lparr>cc_posts := cc_posts c1 - 1\<rparr>))"

section \<open>Calls of the desktop thread\<close>

text \<open>
  A request specification; \<open>None\<close> outside is one that is \<open>NULL\<close> or of another layout.  An option field is
  absent or present; a present string may be \<open>NULL\<close>, and \<open>NULL\<close> arrays are empty.  The rows of the issuers
  are as \<open>xcc_acquire_spec_issuer\<close> and the checks of a row give them, \<open>None\<close> a row that is refused.
\<close>

record acquire_spec =
  as_principal :: principal
  as_purpose :: guint
  as_generic_purpose :: "bool option"
  as_lifetime_seconds :: "guint option"
  as_sign :: "bool option"
  as_interaction_forbidden :: "bool option"
  as_issuers :: "bytes option list option"
  as_key_usage :: "string list option"
  as_eku_oids :: "string list option"
  as_key_algorithms :: "string list option"
  as_token_label :: "string option option"
  as_piv_slot :: "string option option"

record sign_spec =
  ss_principal :: principal
  ss_parent_window :: "string option"
  ss_mechanism :: "string option"
  ss_data :: "bytes option"
  ss_hash :: "string option option"
  ss_mgf :: "string option option"
  ss_salt_length :: "guint option"
  ss_encoding :: "string option option"

record session_spec =
  sp_owner_generation :: nat
  sp_app_id :: "string option"
  sp_identity_level :: guint
  sp_identity_present :: bool

definition purpose_of :: "guint \<Rightarrow> certificate_purpose" where
  "purpose_of p = (if p = 0 then CERTIFICATE_PURPOSE_CLIENT_AUTH else if p = 1 then CERTIFICATE_PURPOSE_SIGNING
     else if p = 2 then CERTIFICATE_PURPOSE_EMAIL else CERTIFICATE_PURPOSE_SSH)"

definition piv_slot_names :: "string list" where
  "piv_slot_names = [''authentication'', ''signature'', ''key_management'', ''card_authentication'']"

text \<open>Later checks overwrite what earlier ones found.\<close>

definition acquire_validation :: "acquire_spec \<Rightarrow> guint \<Rightarrow> error_code" where
  "acquire_validation a lifetime =
     (if as_purpose a > 3 then XCC_ERROR_INVALID_PURPOSE
      else if lifetime = 0 then XCC_ERROR_INVALID_REQUEST
      else if as_token_label a = Some None then XCC_ERROR_INVALID_FILTER
      else if (case as_piv_slot a of None \<Rightarrow> False | Some None \<Rightarrow> True | Some (Some slot) \<Rightarrow> slot \<notin> set piv_slot_names)
      then XCC_ERROR_INVALID_FILTER
      else if (case as_issuers a of None \<Rightarrow> False | Some rows \<Rightarrow> None \<in> set rows) then XCC_ERROR_INVALID_FILTER
      else XCC_OK)"

definition acquire_request :: "acquire_spec option \<Rightarrow> xcc_request \<Rightarrow> xcc_request" where
  "acquire_request spec q =
     (case spec of
        None \<Rightarrow> q\<lparr>rq_validation_error := XCC_ERROR_INVALID_REQUEST\<rparr>
      | Some a \<Rightarrow>
          let p = as_principal a;
              level = (if pr_identity_present p then pr_identity_level p else level_number CERTIFICATE_IDENTITY_UNKNOWN);
              lifetime = (case as_lifetime_seconds a of Some l \<Rightarrow> min l 3600 | None \<Rightarrow> 300);
              may_sign = (case as_sign a of None \<Rightarrow> True | Some b \<Rightarrow> b);
              purpose = purpose_of (as_purpose a)
          in q\<lparr>rq_principal := p\<lparr>pr_identity_present := True, pr_identity_level := level\<rparr>, rq_app_id := pr_app_id p,
               rq_level := level, rq_purpose := purpose, rq_generic_purpose := (as_generic_purpose a = Some True),
               rq_lifetime := lifetime, rq_may_sign := may_sign,
               rq_interaction_forbidden := (as_interaction_forbidden a = Some True),
               rq_filter := \<lparr>cf_purpose = purpose, cf_operations = (if may_sign then CERTIFICATE_OPERATION_SIGN else 0),
                 cf_issuers = map_option (\<lambda>rows. map the (takeWhile (\<lambda>row. row \<noteq> None) rows)) (as_issuers a),
                 cf_key_usage = as_key_usage a, cf_eku_oids = as_eku_oids a, cf_key_algorithms = as_key_algorithms a,
                 cf_token_label = Option.bind (as_token_label a) id, cf_piv_slot = Option.bind (as_piv_slot a) id\<rparr>,
               rq_validation_error := acquire_validation a lifetime\<rparr>)"

definition sign_parameters :: "bool \<Rightarrow> sign_spec \<Rightarrow> (string \<times> gvariant) list" where
  "sign_parameters valid_parameters a =
     (if valid_parameters then [] else [(''invalid'', GV_other ''b'')]) @
     (case ss_hash a of Some (Some h) \<Rightarrow> [(''hash'', GV_string h)] | _ \<Rightarrow> []) @
     (case ss_mgf a of Some (Some m) \<Rightarrow> [(''mgf'', GV_string m)] | _ \<Rightarrow> []) @
     (case ss_salt_length a of Some n \<Rightarrow> [(''salt_length'', GV_uint32 n)] | None \<Rightarrow> []) @
     (case ss_encoding a of Some (Some x) \<Rightarrow> [(''signature_encoding'', GV_string x)] | _ \<Rightarrow> [])"

definition sign_request :: "sign_spec option \<Rightarrow> bool \<Rightarrow> xcc_request \<Rightarrow> xcc_request" where
  "sign_request spec valid_parameters q =
     (case spec of
        None \<Rightarrow> q\<lparr>rq_validation_error := XCC_ERROR_INVALID_REQUEST\<rparr>
      | Some a \<Rightarrow>
          if ss_mechanism a = None \<or> ss_hash a = Some None \<or> ss_mgf a = Some None \<or> ss_encoding a = Some None
          then q\<lparr>rq_validation_error := XCC_ERROR_INVALID_REQUEST\<rparr>
          else (case ss_data a of
              None \<Rightarrow> q\<lparr>rq_validation_error := XCC_ERROR_INVALID_REQUEST\<rparr>
            | Some input \<Rightarrow>
                q\<lparr>rq_principal := ss_principal a, rq_app_id := pr_app_id (ss_principal a),
                  rq_input := (rq_input q)\<lparr>or_mechanism_name := ss_mechanism a, or_data := input,
                    or_parent_window := ss_parent_window a, or_parameters := Some (sign_parameters valid_parameters a)\<rparr>\<rparr>))"

text \<open>A new request, and the post that starts it.\<close>

definition request_add :: "core_config \<Rightarrow> xcc_request \<Rightarrow> (nat \<Rightarrow> core_post) \<Rightarrow> core \<Rightarrow> core" where
  "request_add g q start c =
     (let r = cc_next_request c
      in xcc_request_schedule g r (start r) (c\<lparr>cc_requests := (cc_requests c)(r \<mapsto> q), cc_next_request := r + 1\<rparr>))"

definition xcc_acquire_async :: "core_config \<Rightarrow> nat \<Rightarrow> acquire_spec option \<Rightarrow> core \<Rightarrow> core" where
  "xcc_acquire_async g sid spec = request_add g (acquire_request spec (xcc_request_new (Some sid) XCC_RESULT_ACQUIRE)) Post_acquire"

definition xcc_sign_async_parsed :: "core_config \<Rightarrow> nat \<Rightarrow> sign_spec option \<Rightarrow> bool \<Rightarrow> core \<Rightarrow> core" where
  "xcc_sign_async_parsed g sid spec valid_parameters =
     request_add g (sign_request spec valid_parameters (xcc_request_new (Some sid) XCC_RESULT_SIGN)) Post_sign"

definition xcc_get_capabilities_async :: "core_config \<Rightarrow> core \<Rightarrow> core" where
  "xcc_get_capabilities_async g = request_add g (xcc_request_new None XCC_RESULT_CAPABILITIES) Post_capabilities"

definition xcc_request_cancel :: "nat \<Rightarrow> cancel_reason \<Rightarrow> core \<Rightarrow> core" where
  "xcc_request_cancel r reason c =
     (if cc_stopping c then c
      else xcc_context_post (Post_cancel r reason)
        (request_set r (\<lambda>q. if rq_cancel_intent q = None then q\<lparr>rq_cancel_intent := Some reason\<rparr> else q) c))"

definition session_is_closed :: "nat \<Rightarrow> core \<Rightarrow> bool" where
  "session_is_closed sid c \<longleftrightarrow> (case cc_sessions c sid of None \<Rightarrow> True | Some os \<Rightarrow> se_closed (os_session os))"

text \<open>\<open>xcc_session_close\<close> and \<open>xcc_session_invalidate\<close> on the desktop thread.\<close>

definition session_close_async :: "nat \<Rightarrow> core \<Rightarrow> core" where
  "session_close_async sid c = (if session_is_closed sid c then c else xcc_context_post (Post_session_call sid None) c)"

definition session_invalidate_async :: "nat \<Rightarrow> string \<Rightarrow> core \<Rightarrow> core" where
  "session_invalidate_async sid reason c =
     (if session_is_closed sid c then c else xcc_context_post (Post_session_call sid (Some reason)) c)"

text \<open>\<open>xcc_session_new\<close> up to its wait; \<open>None\<close> is a specification that is \<open>NULL\<close> or of another layout.\<close>

definition session_of :: "session_spec \<Rightarrow> op_state" where
  "session_of a = session_set (\<lambda>se. se\<lparr>se_owner_generation := sp_owner_generation a, se_app_id := sp_app_id a,
     se_identity_level := level_of (sp_identity_level a), se_identity_seen := sp_identity_present a\<rparr>) op_start"

definition xcc_session_new :: "session_spec option \<Rightarrow> core \<Rightarrow> core" where
  "xcc_session_new spec c =
     (case spec of
        None \<Rightarrow> core_note (Session_refused XCC_ERROR_INVALID_REQUEST) c
      | Some a \<Rightarrow>
          if sp_app_id a = None \<or> sp_identity_present a \<and> sp_identity_level a > level_number CERTIFICATE_IDENTITY_UNKNOWN
          then core_note (Session_refused XCC_ERROR_INVALID_REQUEST) c
          else if \<not> cc_accepts c then core_note (Session_refused XCC_ERROR_NO_SUCH_SESSION) c
          else
            let sid = cc_next_session c
            in (xcc_context_post (Post_register sid) (session_put sid (session_of a) c))\<lparr>cc_next_session := sid + 1, cc_waiting := True\<rparr>)"

definition xcc_session_check_principal :: "nat \<Rightarrow> principal option \<Rightarrow> core \<Rightarrow> core" where
  "xcc_session_check_principal sid p c =
     (if p = None then core_note (Principal_checked sid XCC_ERROR_INVALID_REQUEST) c
      else if \<not> cc_accepts c then core_note (Principal_checked sid XCC_ERROR_BACKEND_GONE) c
      else (xcc_context_post (Post_principal sid p) c)\<lparr>cc_waiting := True\<rparr>)"

definition xcc_context_shutdown_async :: "core \<Rightarrow> core" where
  "xcc_context_shutdown_async c =
     (if cc_shutdown_started c then c else xcc_context_post Post_shutdown (c\<lparr>cc_shutdown_started := True\<rparr>))"

section \<open>The system\<close>

datatype core_event = Cv_post | Cv_enumerated nat "certificate_candidate list option" bool
  | Cv_chooser nat "certificate_candidate option" error_code | Cv_token "certificate_token option" bool
  | Cv_operation nat op_event | Cv_capabilities nat | Cv_watch_stopped | Cv_shutdown_poll
  | Cv_desktop | Cv_deliver | Cv_return
  | Cv_acquire nat "acquire_spec option" | Cv_sign nat "sign_spec option" bool | Cv_get_capabilities
  | Cv_cancel nat cancel_reason | Cv_session_close nat | Cv_session_invalidate nat string
  | Cv_session_new "session_spec option" | Cv_check_principal nat "principal option" | Cv_set_generation nat | Cv_shutdown

text \<open>The steps of a session's operations that this code does not take itself.\<close>

definition own_event :: "op_event \<Rightarrow> bool" where
  "own_event ev \<longleftrightarrow> (case ev of
     Ev_grant c p s d x l \<Rightarrow> False | Ev_delivered \<Rightarrow> False | Ev_rollback \<Rightarrow> False | Ev_perform q \<Rightarrow> False | Ev_cancel i \<Rightarrow> False
   | Ev_invalidate reason \<Rightarrow> False | Ev_close \<Rightarrow> False | Ev_identity n a l b \<Rightarrow> False | _ \<Rightarrow> True)"

definition desktop_next :: "desktop_call \<Rightarrow> core \<Rightarrow> core" where
  "desktop_next p c =
     (case p of
        Desk_completion r \<Rightarrow> completion r c
      | Desk_invalidated sid reason \<Rightarrow> core_note (Session_invalidated sid reason) c
      | Desk_shutdown \<Rightarrow> core_note Shutdown_done c)"

text \<open>A session the frontend was given.  One that was refused is freed, and no call is about it.\<close>

definition session_held :: "nat \<Rightarrow> core \<Rightarrow> bool" where
  "session_held sid c \<longleftrightarrow> Session_made sid True \<in> set (cc_log c)"

text \<open>The desktop thread may make a call: it does not wait, and it is between callbacks or in one.\<close>

definition desktop_free :: "core \<Rightarrow> bool" where
  "desktop_free c \<longleftrightarrow> \<not> cc_waiting c \<and> (case cc_stage c of Desk_deciding r \<Rightarrow> False | _ \<Rightarrow> True)"

text \<open>
  The enumeration returns candidates of tokens (\<open>candidates_well_formed\<close>).  A chooser answers once, with
  a row of the list it shows (\<open>consent_is_for_the_row_shown\<close>), without one after a failure or a
  cancellation.
\<close>

inductive core_step ::
  "'w discovery_env \<Rightarrow> certificate_tokens \<Rightarrow> core_config \<Rightarrow> core \<Rightarrow> 'w core_env \<times> core_event \<Rightarrow> core \<Rightarrow> bool"
  for D ts g where
  core_post: "cc_queue c = p # ps \<Longrightarrow> core_step D ts g c (e, Cv_post) (coordinator_post g e p (c\<lparr>cc_queue := ps\<rparr>))"
| core_enumerated: "\<lbrakk>cc_requests c r = Some q; rq_kind q = XCC_RESULT_ACQUIRE; rq_workers q > 0;
      case candidates of None \<Rightarrow> True | Some cs \<Rightarrow> list_all (\<lambda>x. cd_token x \<noteq> None) cs\<rbrakk>
    \<Longrightarrow> core_step D ts g c (e, Cv_enumerated r candidates cancelled) (on_enumerated g e r candidates cancelled c)"
| core_chooser: "\<lbrakk>cc_requests c r = Some q; rq_chooser q = Some rows;
      case chosen of None \<Rightarrow> True | Some x \<Rightarrow> x \<in> set rows \<and> err = XCC_OK\<rbrakk>
    \<Longrightarrow> core_step D ts g c (e, Cv_chooser r chosen err)
      (on_chooser_done g e (ce_events e) r chosen err (case chosen of None \<Rightarrow> c | Some x \<Rightarrow> core_note (Consented r x) c))"
| core_token: "core_step D ts g c (e, Cv_token token added) (token_event g e (token, added) c)"
| core_operation: "\<lbrakk>cc_sessions c sid = Some os; op_step D ts os (ce_op e, ev) os'; own_event ev\<rbrakk>
    \<Longrightarrow> core_step D ts g c (e, Cv_operation sid ev) (session_goes g sid os' c)"
| core_capabilities: "\<lbrakk>cc_requests c r = Some q; rq_kind q = XCC_RESULT_CAPABILITIES; rq_workers q > 0\<rbrakk>
    \<Longrightarrow> core_step D ts g c (e, Cv_capabilities r) (capabilities_done g r c)"
| core_watch_stopped: "cc_stopping c \<Longrightarrow> core_step D ts g c (e, Cv_watch_stopped) (stopped_watch e c)"
| core_shutdown_poll: "core_step D ts g c (e, Cv_shutdown_poll) (xcc_context_check_shutdown e c)"
| core_desktop: "\<lbrakk>\<not> cc_waiting c; cc_stage c = Desk_idle; cc_desktop c = p # ps\<rbrakk>
    \<Longrightarrow> core_step D ts g c (e, Cv_desktop) (desktop_next p (c\<lparr>cc_desktop := ps\<rparr>))"
| core_deliver: "cc_stage c = Desk_deciding r \<Longrightarrow> core_step D ts g c (e, Cv_deliver) (completion_deliver r c)"
| core_return: "\<lbrakk>\<not> cc_waiting c; cc_stage c = Desk_called r\<rbrakk> \<Longrightarrow> core_step D ts g c (e, Cv_return) (completion_return r c)"
| core_acquire: "\<lbrakk>desktop_free c; session_held sid c; cc_sessions c sid = Some os\<rbrakk>
    \<Longrightarrow> core_step D ts g c (e, Cv_acquire sid spec) (xcc_acquire_async g sid spec c)"
| core_sign: "\<lbrakk>desktop_free c; session_held sid c; cc_sessions c sid = Some os\<rbrakk>
    \<Longrightarrow> core_step D ts g c (e, Cv_sign sid spec valid) (xcc_sign_async_parsed g sid spec valid c)"
| core_get_capabilities: "desktop_free c \<Longrightarrow> core_step D ts g c (e, Cv_get_capabilities) (xcc_get_capabilities_async g c)"
| core_cancel: "\<lbrakk>desktop_free c; cc_requests c r \<noteq> None\<rbrakk> \<Longrightarrow> core_step D ts g c (e, Cv_cancel r reason) (xcc_request_cancel r reason c)"
| core_session_close: "\<lbrakk>desktop_free c; session_held sid c\<rbrakk> \<Longrightarrow> core_step D ts g c (e, Cv_session_close sid) (session_close_async sid c)"
| core_session_invalidate: "\<lbrakk>desktop_free c; session_held sid c\<rbrakk>
    \<Longrightarrow> core_step D ts g c (e, Cv_session_invalidate sid reason) (session_invalidate_async sid reason c)"
| core_session_new: "desktop_free c \<Longrightarrow> core_step D ts g c (e, Cv_session_new spec) (xcc_session_new spec c)"
| core_check_principal: "\<lbrakk>desktop_free c; session_held sid c\<rbrakk>
    \<Longrightarrow> core_step D ts g c (e, Cv_check_principal sid pr) (xcc_session_check_principal sid pr c)"
| core_set_generation: "desktop_free c \<Longrightarrow> core_step D ts g c (e, Cv_set_generation n) (xcc_context_post (Post_generation n) c)"
| core_shutdown: "desktop_free c \<Longrightarrow> core_step D ts g c (e, Cv_shutdown) (xcc_context_shutdown_async c)"

abbreviation core_reachable :: "'w discovery_env \<Rightarrow> certificate_tokens \<Rightarrow> core_config \<Rightarrow> core \<Rightarrow> bool" where
  "core_reachable D ts g \<equiv> reach (\<lambda>c. c = core_start) (core_step D ts g)"

end
