(* ===== verification/OperationsProps.thy ===== *)
theory OperationsProps
  imports Operations
begin

text \<open>
  The invariant of the operations of one session (\<open>Operations\<close>) and its proof.  An operation that is not
  answered is in exactly one place: it has a task, it waits for the login, or a function has it in hand
  (the set \<open>X\<close> of \<open>op_inv\<close>, empty between steps).
\<close>

section \<open>The invariant\<close>

definition waiters :: "op_state \<Rightarrow> nat list" where
  "waiters s = (case se_login_waiters (os_session s) of None \<Rightarrow> [] | Some ws \<Rightarrow> ws)"

definition in_context :: "operation \<Rightarrow> bool" where
  "in_context x \<longleftrightarrow> (case op_task x of Task_context h \<Rightarrow> True | Task_context_done h out \<Rightarrow> True | _ \<Rightarrow> False)"

text \<open>\<open>h\<close>: in hand; \<open>w\<close>: among the waiters; \<open>c\<close>: the session is closed.\<close>

definition op_place :: "bool \<Rightarrow> bool \<Rightarrow> operation \<Rightarrow> bool" where
  "op_place h w x \<longleftrightarrow>
     (if op_answered x then op_task x = Task_none \<and> \<not> h \<and> \<not> w
      else if h then op_task x = Task_none \<and> \<not> w
      else w = (op_task x = Task_none))"

definition op_flags :: "bool \<Rightarrow> bool \<Rightarrow> bool \<Rightarrow> operation \<Rightarrow> bool" where
  "op_flags c h w x \<longleftrightarrow>
     (\<not> h \<and> \<not> w \<longrightarrow> \<not> op_login_cancel_id x \<and> \<not> op_login_cancel_idle x \<and> (op_answered x \<or> \<not> op_retry_login x)) \<and>
     (op_retry_open x \<longrightarrow> op_answered x \<or> h \<or> op_task x = Task_signed (Inr None)) \<and>
     (op_task x = Task_signed (Inr None) \<longrightarrow> op_retry_open x) \<and>
     (op_context_outcome x \<noteq> CERTIFICATE_PIN_OK \<longrightarrow> op_answered x \<or> h \<or> (\<exists>err. op_task x = Task_signed (Inl err))) \<and>
     (c \<and> \<not> op_answered x \<longrightarrow> op_cancelled x)"

definition op_permitted :: "xcc_session \<Rightarrow> operation \<Rightarrow> bool" where
  "op_permitted se x \<longleftrightarrow> (if op_decrypt x then se_may_decrypt se else se_may_sign se) \<and>
     (\<exists>c name parameters data. se_candidate se = Some c \<and>
       certificate_mechanism_parse name parameters (cd_key_type c) (cd_key_size c) (op_decrypt x) = Inr (op_mechanism x) \<and>
       certificate_mechanism_prepare (op_mechanism x) data = Inr (op_payload x))"

definition op_at :: "nat set \<Rightarrow> op_state \<Rightarrow> nat \<Rightarrow> bool" where
  "op_at X s i \<longleftrightarrow>
     (case os_operations s i of
        None \<Rightarrow> i \<ge> os_next s \<and> i \<notin> X \<and> i \<notin> set (waiters s)
      | Some x \<Rightarrow> i < os_next s \<and> op_place (i \<in> X) (i \<in> set (waiters s)) x \<and>
          op_flags (se_closed (os_session s)) (i \<in> X) (i \<in> set (waiters s)) x)"

definition ops_ok :: "nat set \<Rightarrow> op_state \<Rightarrow> bool" where
  "ops_ok X s \<longleftrightarrow> (\<forall>i. op_at X s i)"

definition lock_ok :: "op_state \<Rightarrow> bool" where
  "lock_ok s \<longleftrightarrow> (\<forall>i. os_operation_lock s = Some i \<longleftrightarrow> (\<exists>x. os_operations s i = Some x \<and> in_context x))"

definition login_fields :: "nat list option \<Rightarrow> bool \<Rightarrow> login_interaction option \<Rightarrow> bool" where
  "login_fields ws in_progress li \<longleftrightarrow>
     (case li of None \<Rightarrow> \<not> in_progress \<and> ws = None | Some _ \<Rightarrow> in_progress \<and> (\<exists>l. ws = Some l \<and> distinct l))"

definition login_ok :: "op_state \<Rightarrow> bool" where
  "login_ok s \<longleftrightarrow> login_fields (se_login_waiters (os_session s)) (se_login_in_progress (os_session s)) (os_interaction s)"

definition done_results :: "op_effect list \<Rightarrow> nat \<Rightarrow> (gerror + bytes) list" where
  "done_results log i = concat (map (\<lambda>x. case x of Op_done j r \<Rightarrow> if j = i then [r] else [] | _ \<Rightarrow> []) log)"

definition answers_ok :: "op_state \<Rightarrow> bool" where
  "answers_ok s \<longleftrightarrow> (\<forall>i. length (done_results (os_log s) i) =
     (case os_operations s i of None \<Rightarrow> 0 | Some x \<Rightarrow> if op_answered x then 1 else 0))"

definition op_inv :: "nat set \<Rightarrow> op_state \<Rightarrow> bool" where
  "op_inv X s \<longleftrightarrow> ops_ok X s \<and> lock_ok s \<and> login_ok s \<and> answers_ok s"

section \<open>Fields\<close>

lemma op_set_fields [simp]:
  "os_session (op_set i f s) = os_session s" "os_next (op_set i f s) = os_next s"
  "os_interaction (op_set i f s) = os_interaction s" "os_operation_lock (op_set i f s) = os_operation_lock s"
  "os_releases (op_set i f s) = os_releases s" "os_log (op_set i f s) = os_log s"
  "os_operations (op_set i f s) j = (if j = i then map_option f (os_operations s i) else os_operations s j)"
  by (simp_all add: op_set_def)

lemma op_note_fields [simp]:
  "os_session (op_note x s) = os_session s" "os_next (op_note x s) = os_next s"
  "os_interaction (op_note x s) = os_interaction s" "os_operation_lock (op_note x s) = os_operation_lock s"
  "os_releases (op_note x s) = os_releases s" "os_log (op_note x s) = x # os_log s"
  "os_operations (op_note x s) = os_operations s"
  by (simp_all add: op_note_def)

lemma done_results_simps [simp]:
  "done_results [] i = []"
  "done_results (x # l) i = (case x of Op_done j r \<Rightarrow> if j = i then [r] else [] | _ \<Rightarrow> []) @ done_results l i"
  by (simp_all add: done_results_def)

lemma waiters_fields [simp]:
  "waiters (op_set i f s) = waiters s" "waiters (op_note x s) = waiters s"
  "waiters (s\<lparr>os_releases := n\<rparr>) = waiters s" "waiters (s\<lparr>os_interaction := li\<rparr>) = waiters s"
  "waiters (s\<lparr>os_operation_lock := lk\<rparr>) = waiters s" "waiters (s\<lparr>os_operations := ops\<rparr>) = waiters s"
  by (simp_all add: waiters_def)

lemma waiters_session: "se_login_waiters (f (os_session s)) = se_login_waiters (os_session s) \<Longrightarrow> waiters (session_set f s) = waiters s"
  by (simp add: waiters_def)

lemma op_set_none: "os_operations s i = None \<Longrightarrow> op_set i f s = s"
  by (simp add: op_set_def fun_upd_idem)

lemma op_set_twice [simp]: "op_set i f (op_set i g s) = op_set i (\<lambda>x. f (g x)) s"
  by (simp add: op_set_def option.map_comp comp_def)

lemma op_invD:
  assumes "op_inv X s"
  shows "op_at X s i" "lock_ok s" "login_ok s" "answers_ok s"
  using assms by (simp_all add: op_inv_def ops_ok_def)

lemma op_invI: "(\<And>i. op_at X s i) \<Longrightarrow> lock_ok s \<Longrightarrow> login_ok s \<Longrightarrow> answers_ok s \<Longrightarrow> op_inv X s"
  by (simp add: op_inv_def ops_ok_def)

lemma op_at_cong:
  "op_at X s i \<Longrightarrow> os_operations t i = os_operations s i \<Longrightarrow> os_next t = os_next s \<Longrightarrow> i \<in> set (waiters t) \<longleftrightarrow> i \<in> set (waiters s)
    \<Longrightarrow> se_closed (os_session t) = se_closed (os_session s) \<Longrightarrow> i \<in> Y \<longleftrightarrow> i \<in> X \<Longrightarrow> op_at Y t i"
  by (simp add: op_at_def cong: option.case_cong)

lemma op_atD:
  assumes "op_inv X s" "os_operations s i = Some x"
  shows "i < os_next s" "op_place (i \<in> X) (i \<in> set (waiters s)) x"
    "op_flags (se_closed (os_session s)) (i \<in> X) (i \<in> set (waiters s)) x"
  using op_invD(1) [OF assms(1), of i] assms(2) by (simp_all add: op_at_def)

lemma op_setI:
  assumes inv: "op_inv X s" and x: "os_operations s i = Some x"
    and f: "op_answered (f x) = op_answered x" "in_context (f x) = in_context x"
    "op_place (i \<in> X') (i \<in> set (waiters s)) (f x)"
    "op_flags (se_closed (os_session s)) (i \<in> X') (i \<in> set (waiters s)) (f x)"
    and X': "\<And>j. j \<noteq> i \<Longrightarrow> j \<in> X' \<longleftrightarrow> j \<in> X"
  shows "op_inv X' (op_set i f s)"
proof (rule op_invI)
  fix j
  show "op_at X' (op_set i f s) j"
  proof (cases "j = i")
    case True
    then show ?thesis using x f op_atD(1) [OF inv x] by (simp add: op_at_def)
  next
    case False
    then show ?thesis using op_at_cong [OF op_invD(1) [OF inv, of j]] X' by simp
  qed
  show "lock_ok (op_set i f s)" using op_invD(2) [OF inv] x f(2) unfolding lock_ok_def by auto
  show "login_ok (op_set i f s)" using op_invD(3) [OF inv] by (simp add: login_ok_def)
  show "answers_ok (op_set i f s)" using op_invD(4) [OF inv] x f(1) by (auto simp: answers_ok_def)
qed

text \<open>Fields that no part of the invariant reads.\<close>

lemma op_inv_cong:
  assumes inv: "op_inv X s"
    and "os_operations t = os_operations s" "os_next t = os_next s" "waiters t = waiters s"
    "se_closed (os_session t) = se_closed (os_session s)" "os_operation_lock t = os_operation_lock s" "os_log t = os_log s" "login_ok t"
  shows "op_inv X t"
proof (rule op_invI)
  show "op_at X t i" for i using op_at_cong [OF op_invD(1) [OF inv]] assms(2-) by simp
qed (use assms(2-) op_invD [OF inv] in \<open>simp_all add: lock_ok_def answers_ok_def\<close>)

lemma op_inv_session:
  assumes "op_inv X s" "se_closed (f (os_session s)) = se_closed (os_session s)"
    "se_login_in_progress (f (os_session s)) = se_login_in_progress (os_session s)"
    "se_login_waiters (f (os_session s)) = se_login_waiters (os_session s)"
  shows "op_inv X (session_set f s)"
  using assms op_invD(3) [OF assms(1)] by (intro op_inv_cong [OF assms(1)]) (simp_all add: waiters_def login_ok_def)

lemma op_inv_releases:
  assumes "op_inv X s"
  shows "op_inv X (s\<lparr>os_releases := n\<rparr>)"
  by (rule op_inv_cong [OF assms]) (use op_invD(3) [OF assms] in \<open>simp_all add: login_ok_def\<close>)

lemma op_inv_interaction:
  assumes "op_inv X s" "os_interaction s = Some li"
  shows "op_inv X (s\<lparr>os_interaction := Some li'\<rparr>)"
  by (rule op_inv_cong [OF assms(1)]) (use op_invD(3) [OF assms(1)] assms(2) in \<open>simp_all add: login_ok_def login_fields_def\<close>)

lemma op_inv_note:
  assumes "op_inv X s" "\<And>i r. e \<noteq> Op_done i r"
  shows "op_inv X (op_note e s)"
proof (rule op_invI)
  show "op_at X (op_note e s) i" for i using op_at_cong [OF op_invD(1) [OF assms(1)]] by simp
  show "answers_ok (op_note e s)" using op_invD(4) [OF assms(1)] assms(2) by (auto simp: answers_ok_def split: op_effect.splits)
qed (use op_invD [OF assms(1)] in \<open>simp_all add: lock_ok_def login_ok_def\<close>)

section \<open>Answering and starting\<close>

text \<open>An operation in hand, its login flags cleared.\<close>

definition op_clear :: "operation \<Rightarrow> bool" where
  "op_clear x \<longleftrightarrow> \<not> op_login_cancel_id x \<and> \<not> op_login_cancel_idle x"

lemma in_hand:
  assumes "op_inv X s" "i \<in> X"
  obtains x where "os_operations s i = Some x" "\<not> op_answered x" "op_task x = Task_none" "i \<notin> set (waiters s)" "i < os_next s"
    "se_closed (os_session s) \<longrightarrow> op_cancelled x"
  using op_invD(1) [OF assms(1), of i] assms(2) that
  by (auto simp: op_at_def op_place_def op_flags_def split: option.splits if_splits)

text \<open>Neither a retry nor the failure of a PIN of its own is noted.\<close>

definition op_fresh :: "operation \<Rightarrow> bool" where
  "op_fresh x \<longleftrightarrow> op_context_outcome x = CERTIFICATE_PIN_OK \<and> \<not> op_retry_open x"

lemma op_answer_inv:
  assumes inv: "op_inv X s" and i: "i \<in> X" and x: "os_operations s i = Some x" "op_clear x"
  shows "op_inv (X - {i}) (op_note (Op_done i r) (op_set i (\<lambda>x. x\<lparr>op_answered := True\<rparr>) s))"
proof -
  obtain y where y: "os_operations s i = Some y" "\<not> op_answered y" "op_task y = Task_none" "i \<notin> set (waiters s)" "i < os_next s"
    by (rule in_hand [OF inv i])
  with x have xy: "y = x" by simp
  show ?thesis
  proof (rule op_invI)
    fix j
    show "op_at (X - {i}) (op_note (Op_done i r) (op_set i (\<lambda>x. x\<lparr>op_answered := True\<rparr>) s)) j"
      using op_at_cong [OF op_invD(1) [OF inv, of j]] y x
      by (cases "j = i") (auto simp: op_at_def op_place_def op_flags_def op_clear_def)
    show "lock_ok (op_note (Op_done i r) (op_set i (\<lambda>x. x\<lparr>op_answered := True\<rparr>) s))"
      using op_invD(2) [OF inv] y(1,3) by (auto simp: lock_ok_def in_context_def)
    show "answers_ok (op_note (Op_done i r) (op_set i (\<lambda>x. x\<lparr>op_answered := True\<rparr>) s))"
      using op_invD(4) [OF inv] y(1,2) by (auto simp: answers_ok_def)
  qed (use op_invD(3) [OF inv] in \<open>simp add: login_ok_def\<close>)
qed

lemma operation_fail_inv:
  assumes "op_inv X s" "i \<in> X" "os_operations s i = Some x" "op_clear x"
  shows "op_inv (X - {i}) (operation_fail i err s)"
proof -
  have "\<not> op_answered x" by (rule in_hand [OF assms(1,2)]) (use assms(3) in simp)
  then show ?thesis using op_answer_inv [OF assms, of "Inl err"] assms(3) by (simp add: operation_fail_def)
qed

lemma operation_succeed_inv:
  assumes "op_inv X s" "i \<in> X" "os_operations s i = Some x" "op_clear x"
  shows "op_inv (X - {i}) (operation_succeed i result s)"
proof -
  have "\<not> op_answered x" by (rule in_hand [OF assms(1,2)]) (use assms(3) in simp)
  then show ?thesis using op_answer_inv [OF assms, of "Inr result"] assms(3) by (simp add: operation_succeed_def)
qed

lemma op_start_inv:
  assumes inv: "op_inv X s" and i: "i \<in> X" and x: "os_operations s i = Some x" "op_clear x"
    and f: "op_answered (f x) = op_answered x" "op_clear (f x) \<and> \<not> op_retry_login (f x)" "op_task (f x) \<in> {Task_open, Task_sign}" "op_fresh (f x)" "op_cancelled (f x) = op_cancelled x"
  shows "op_inv (X - {i}) (op_set i f s)"
proof (rule op_setI [where f = f and x = x, OF inv x(1) f(1)])
  obtain y where y: "os_operations s i = Some y" "\<not> op_answered y" "op_task y = Task_none" "i \<notin> set (waiters s)"
    "se_closed (os_session s) \<longrightarrow> op_cancelled y" by (rule in_hand [OF inv i])
  with x have y: "\<not> op_answered x" "op_task x = Task_none" "i \<notin> set (waiters s)"
    "se_closed (os_session s) \<longrightarrow> op_cancelled x" by auto
  show "in_context (f x) = in_context x" using f(3) y by (auto simp: in_context_def)
  show "op_place (i \<in> X - {i}) (i \<in> set (waiters s)) (f x)" using f y by (auto simp: op_place_def)
  show "op_flags (se_closed (os_session s)) (i \<in> X - {i}) (i \<in> set (waiters s)) (f x)"
    using f y by (auto simp: op_flags_def op_clear_def op_fresh_def)
qed auto

text \<open>Closing.\<close>

lemma cancel_operation_fields [simp]:
  "op_answered (cancel_operation x) = op_answered x" "op_task (cancel_operation x) = op_task x" "op_cancelled (cancel_operation x)"
  "op_retry_open (cancel_operation x) = op_retry_open x" "op_retry_login (cancel_operation x) = op_retry_login x"
  "op_login_cancel_id (cancel_operation x) = op_login_cancel_id x" "op_decrypt (cancel_operation x) = op_decrypt x"
  "op_context_outcome (cancel_operation x) = op_context_outcome x" "op_cancellable (cancel_operation x) = op_cancellable x"
  "in_context (cancel_operation x) = in_context x" "op_place h w (cancel_operation x) = op_place h w x"
  by (simp_all add: cancel_operation_def on_waiter_cancelled_def Let_def in_context_def op_place_def)

lemma cancel_operation_idle: "\<not> op_login_cancel_id x \<Longrightarrow> op_login_cancel_idle (cancel_operation x) = op_login_cancel_idle x"
  by (simp add: cancel_operation_def Let_def)

lemma cancel_operation_clear: "op_clear x \<Longrightarrow> op_clear (cancel_operation x)"
  by (simp add: op_clear_def cancel_operation_idle)

lemma cancel_flags: "op_flags c h w x \<Longrightarrow> op_flags c' h w (cancel_operation x)"
  by (auto simp: op_flags_def cancel_operation_idle)

lemma release_async_inv: "op_inv X s \<Longrightarrow> op_inv X (xcc_session_release_device_async e s)"
  by (auto simp: xcc_session_release_device_async_def intro: op_inv_releases)

lemma close_inv:
  assumes inv: "op_inv X s"
  shows "op_inv X (xcc_session_close e s)"
proof (cases "se_closed (os_session s)")
  case False
  define t where "t = (session_set (\<lambda>se. se\<lparr>se_closed := True\<rparr>) s)
      \<lparr>os_operations := (\<lambda>i. map_option (\<lambda>x. if op_answered x then x else cancel_operation x) (os_operations s i))\<rparr>"
  have t: "os_next t = os_next s" "waiters t = waiters s" "se_closed (os_session t)" "os_operation_lock t = os_operation_lock s"
    "os_log t = os_log s" "os_operations t = (\<lambda>i. map_option (\<lambda>x. if op_answered x then x else cancel_operation x) (os_operations s i))"
    by (simp_all add: t_def waiters_def)
  have "op_inv X t"
  proof (rule op_invI)
    fix i
    show "op_at X t i"
    proof (cases "os_operations s i")
      case None
      then show ?thesis using op_invD(1) [OF inv, of i] by (simp add: op_at_def t)
    next
      case (Some x)
      then show ?thesis using op_atD [OF inv Some] cancel_flags [of False "i \<in> X" _ x True] False
        by (cases "op_answered x") (simp_all add: op_at_def t op_flags_def)
    qed
    have "(\<exists>y. os_operations t i = Some y \<and> in_context y) = (\<exists>x. os_operations s i = Some x \<and> in_context x)" for i
      by (cases "os_operations s i") (simp_all add: t)
    then show "lock_ok t" using op_invD(2) [OF inv] by (simp add: lock_ok_def t(4))
    have "(case os_operations t i of None \<Rightarrow> (0 :: nat) | Some x \<Rightarrow> if op_answered x then 1 else 0) =
        (case os_operations s i of None \<Rightarrow> 0 | Some x \<Rightarrow> if op_answered x then 1 else 0)" for i
      by (cases "os_operations s i") (simp_all add: t)
    then show "answers_ok t" using op_invD(4) [OF inv] by (simp add: answers_ok_def t(5))
    show "login_ok t" using op_invD(3) [OF inv] by (simp add: login_ok_def t_def)
  qed
  then have "op_inv X (session_set (\<lambda>se. se\<lparr>se_expiry_source := None\<rparr>) t)" by (rule op_inv_session) simp_all
  from release_async_inv [OF this] False show ?thesis by (simp add: xcc_session_close_def Let_def t_def)
qed (use inv in \<open>simp add: xcc_session_close_def\<close>)

lemma invalidate_inv:
  assumes "op_inv X s"
  shows "op_inv X (xcc_session_invalidate e reason s)"
proof -
  have "op_inv X (op_note (Invalidated (checked_reason reason)) (session_set (\<lambda>se. se\<lparr>se_invalidating := True\<rparr>) s))"
    by (rule op_inv_note, rule op_inv_session [OF assms]) simp_all
  from close_inv [OF this, of e] assms show ?thesis by (simp add: xcc_session_invalidate_def Let_def)
qed

text \<open>What closing does to one operation.\<close>

lemma close_operation:
  assumes "os_operations s i = Some x"
  shows "\<exists>y. os_operations (xcc_session_close e s) i = Some y \<and> (y = x \<or> y = cancel_operation x)"
  using assms by (simp add: xcc_session_close_def xcc_session_release_device_async_def Let_def)

lemma invalidate_operation:
  assumes "os_operations s i = Some x"
  shows "\<exists>y. os_operations (xcc_session_invalidate e reason s) i = Some y \<and> (y = x \<or> y = cancel_operation x)"
  using assms close_operation [of "op_note (Invalidated (checked_reason reason)) (session_set (\<lambda>se. se\<lparr>se_invalidating := True\<rparr>) s)" i x e]
  by (simp add: xcc_session_invalidate_def Let_def)

lemma fail_invalidated_inv:
  assumes "op_inv X s" "i \<in> X" "os_operations s i = Some x" "op_clear x"
  shows "op_inv (X - {i}) (operation_fail i err (if c then xcc_session_invalidate e reason s else s))"
proof -
  obtain y where "os_operations (xcc_session_invalidate e reason s) i = Some y" "y = x \<or> y = cancel_operation x"
    using invalidate_operation [OF assms(3)] by blast
  moreover from this(2) assms(4) have "op_clear y" by (auto intro: cancel_operation_clear)
  ultimately have "op_inv (X - {i}) (operation_fail i err (xcc_session_invalidate e reason s))"
    by (intro operation_fail_inv [OF invalidate_inv [OF assms(1)] assms(2)])
  then show ?thesis using operation_fail_inv [OF assms] by simp
qed

lemma apply_login_outcome_inv:
  assumes inv: "op_inv X s" "i \<in> X" "os_operations s i = Some x" "op_clear x"
    and c: "outcome = CERTIFICATE_PIN_OK \<longrightarrow> op_fresh x \<and> \<not> op_retry_login x"
  shows "op_inv (X - {i}) (apply_login_outcome e i outcome s)"
proof (cases "op_is_cancelled x \<or> outcome \<noteq> CERTIFICATE_PIN_OK")
  case True
  note f = operation_fail_inv [OF inv] fail_invalidated_inv [OF inv, of _ True, unfolded if_True]
  from True show ?thesis using inv(3) by (cases outcome) (auto simp: apply_login_outcome_def intro: f)
next
  case False
  then have "apply_login_outcome e i outcome s = run_operation i s" using inv(3) by (simp add: apply_login_outcome_def)
  moreover have "op_inv (X - {i}) (run_operation i s)" unfolding run_operation_def
    by (rule op_start_inv [OF inv]) (use inv(4) c False in \<open>auto simp: op_clear_def op_fresh_def\<close>)
  ultimately show ?thesis by simp
qed

lemma open_operation_inv:
  assumes "op_inv X s" "i \<in> X" "os_operations s i = Some x" "op_clear x" "op_fresh x" "\<not> op_retry_login x"
  shows "op_inv (X - {i}) (open_operation i s)"
  unfolding open_operation_def by (rule op_start_inv [OF assms(1-4)]) (use assms in \<open>auto simp: op_clear_def op_fresh_def\<close>)

section \<open>Tasks and waiters\<close>

lemma op_task_inv:
  assumes inv: "op_inv X s" and x: "os_operations s i = Some x" "op_task x \<noteq> Task_none" "\<not> in_context x"
    and f: "op_task (f x) \<noteq> Task_none" "\<not> in_context (f x)" "op_answered (f x) = op_answered x"
      "op_clear (f x) = op_clear x" "op_retry_login (f x) = op_retry_login x" "op_retry_open (f x) \<longleftrightarrow> op_task (f x) = Task_signed (Inr None)"
      "op_context_outcome (f x) \<noteq> CERTIFICATE_PIN_OK \<longrightarrow> (\<exists>err. op_task (f x) = Task_signed (Inl err))" "op_cancelled (f x) = op_cancelled x"
  shows "op_inv X (op_set i f s)"
proof (rule op_setI [where f = f and x = x, OF inv x(1) f(3)])
  note at = op_atD [OF inv x(1)]
  have un: "\<not> op_answered x" "i \<notin> X" "i \<notin> set (waiters s)" using at(2) x(2) by (auto simp: op_place_def split: if_splits)
  show "in_context (f x) = in_context x" using f(2) x(3) by simp
  show "op_place (i \<in> X) (i \<in> set (waiters s)) (f x)" using un f by (simp add: op_place_def)
  show "op_flags (se_closed (os_session s)) (i \<in> X) (i \<in> set (waiters s)) (f x)"
    using at(3) un f by (auto simp: op_flags_def op_clear_def)
qed simp

lemma task_out:
  assumes "op_inv X s" "os_operations s i = Some x" "op_task x \<noteq> Task_none"
  shows "\<not> op_answered x" "i \<notin> X" "i \<notin> set (waiters s)" "op_clear x \<and> \<not> op_retry_login x"
    "se_closed (os_session s) \<longrightarrow> op_cancelled x" "op_retry_open x \<longleftrightarrow> op_task x = Task_signed (Inr None)"
    "op_context_outcome x = CERTIFICATE_PIN_OK \<or> (\<exists>err. op_task x = Task_signed (Inl err))"
  using op_atD [OF assms(1,2)] assms(3) by (auto simp: op_place_def op_flags_def op_clear_def split: if_splits)

text \<open>The coordinator takes the result of a task.\<close>

lemma op_take_inv:
  assumes inv: "op_inv X s" and x: "os_operations s i = Some x" "op_task x \<noteq> Task_none" "\<not> in_context x"
    and f: "op_task (f x) = Task_none" "op_answered (f x) = op_answered x" "op_cancelled (f x) = op_cancelled x"
  shows "op_inv (insert i X) (op_set i f s)"
proof (rule op_setI [where f = f and x = x, OF inv x(1) f(2)])
  note at = op_atD [OF inv x(1)] and out = task_out [OF inv x(1,2)]
  show "in_context (f x) = in_context x" using f(1) x(3) by (simp add: in_context_def)
  show "op_place (i \<in> insert i X) (i \<in> set (waiters s)) (f x)" using out f by (simp add: op_place_def)
  show "op_flags (se_closed (os_session s)) (i \<in> insert i X) (i \<in> set (waiters s)) (f x)"
    using out f by (auto simp: op_flags_def)
qed simp

text \<open>An operation in hand joins the waiters.\<close>

lemma op_wait_inv:
  assumes inv: "op_inv X s" and i: "i \<in> X" and x: "os_operations s i = Some x" "op_fresh x"
    and t: "os_operations t = os_operations s" "os_next t = os_next s" "set (waiters t) = insert i (set (waiters s))"
      "se_closed (os_session t) = se_closed (os_session s)" "os_operation_lock t = os_operation_lock s" "os_log t = os_log s" "login_ok t"
    and f: "op_task (f x) = op_task x" "op_answered (f x) = op_answered x" "op_retry_open (f x) = op_retry_open x"
      "op_cancelled (f x) = op_cancelled x" "op_context_outcome (f x) = op_context_outcome x"
  shows "op_inv (X - {i}) (op_set i f t)"
proof -
  obtain y where "os_operations s i = Some y" "\<not> op_answered y" "op_task y = Task_none" "i \<notin> set (waiters s)" "i < os_next s"
    "se_closed (os_session s) \<longrightarrow> op_cancelled y" by (rule in_hand [OF inv i])
  with x have y: "\<not> op_answered x" "op_task x = Task_none" "i \<notin> set (waiters s)" "i < os_next s"
    "\<not> op_retry_open x" "op_context_outcome x = CERTIFICATE_PIN_OK" "se_closed (os_session s) \<longrightarrow> op_cancelled x" by (auto simp: op_fresh_def)
  show ?thesis
  proof (rule op_invI)
    fix j
    show "op_at (X - {i}) (op_set i f t) j"
    proof (cases "j = i")
      case True
      then show ?thesis using x y f t by (simp add: op_at_def op_place_def op_flags_def)
    next
      case False
      then show ?thesis using op_at_cong [OF op_invD(1) [OF inv, of j]] t by simp
    qed
    show "lock_ok (op_set i f t)" using op_invD(2) [OF inv] x(1) y(2) f(1) t by (auto simp: lock_ok_def in_context_def)
    show "answers_ok (op_set i f t)" using op_invD(4) [OF inv] x(1) f(2) t by (auto simp: answers_ok_def)
  qed (use t(7) in \<open>simp add: login_ok_def\<close>)
qed

text \<open>What a function may do to an operation it is not about: cancel it.\<close>

definition others_same :: "nat \<Rightarrow> op_state \<Rightarrow> op_state \<Rightarrow> bool" where
  "others_same i s t \<longleftrightarrow> (\<forall>j x. j \<noteq> i \<longrightarrow> os_operations s j = Some x \<longrightarrow>
     (\<exists>y. os_operations t j = Some y \<and> (y = x \<or> y = cancel_operation x)))"

lemma others_fail: "others_same i s t \<Longrightarrow> others_same i s (operation_fail i err t)"
  by (simp add: others_same_def operation_fail_def split: option.splits)

lemma others_set: "others_same i s t \<Longrightarrow> others_same i s (op_set i f t)"
  by (simp add: others_same_def)

lemma others_refl: "others_same i s s"
  by (simp add: others_same_def)

lemma others_invalidate: "others_same i s (xcc_session_invalidate e reason s)"
  using invalidate_operation by (auto simp: others_same_def)

lemma cancel_twice [simp]: "cancel_operation (cancel_operation x) = cancel_operation x"
  by (simp add: cancel_operation_def [of "cancel_operation x"])

lemma others_trans: "others_same i s t \<Longrightarrow> others_same i t u \<Longrightarrow> others_same i s u"
  unfolding others_same_def by (metis cancel_twice)

lemma others_outcome: "others_same i s (apply_login_outcome e i outcome s)"
  by (auto simp: apply_login_outcome_def run_operation_def split: option.splits pin_outcome.splits
      intro!: others_fail others_set others_refl others_invalidate)

lemma others_waiter: "others_same i s (finish_waiter e outcome i s)"
  unfolding finish_waiter_def Let_def detach_waiter_cancel_def open_operation_def
  by (auto split: option.splits intro!: others_set others_refl others_trans [OF _ others_outcome])

section \<open>The login\<close>

lemma op_fresh_cancel [simp]: "op_fresh (cancel_operation x) = op_fresh x"
  by (simp add: op_fresh_def)

lemma finish_waiter_inv:
  assumes inv: "op_inv X s" and i: "i \<in> X" and x: "os_operations s i = Some x" "op_fresh x"
  shows "op_inv (X - {i}) (finish_waiter e outcome i s)"
proof -
  let ?s1 = "detach_waiter_cancel i s" and ?x1 = "x\<lparr>op_login_cancel_id := False, op_login_cancel_idle := False\<rparr>"
  obtain y where "os_operations s i = Some y" "\<not> op_answered y" "op_task y = Task_none" "i \<notin> set (waiters s)" "i < os_next s"
    "se_closed (os_session s) \<longrightarrow> op_cancelled y" by (rule in_hand [OF inv i])
  with x have y: "\<not> op_answered x" "op_task x = Task_none" "i \<notin> set (waiters s)" "\<not> op_retry_open x"
    "se_closed (os_session s) \<longrightarrow> op_cancelled x" "op_context_outcome x = CERTIFICATE_PIN_OK" by (auto simp: op_fresh_def)
  have inv1: "op_inv X ?s1" unfolding detach_waiter_cancel_def
    by (rule op_setI [where x = x, OF inv x(1)]) (use y i x(2) in \<open>auto simp: in_context_def op_place_def op_flags_def\<close>)
  have x1: "os_operations ?s1 i = Some ?x1" using x by (simp add: detach_waiter_cancel_def)
  show ?thesis
  proof (cases "op_retry_login x")
    case True
    let ?s2 = "op_set i (\<lambda>x. x\<lparr>op_retry_login := False\<rparr>) ?s1"
    have "op_inv X ?s2"
      by (rule op_setI [where x = ?x1, OF inv1 x1]) (use y i x(2) in \<open>auto simp: in_context_def op_place_def op_flags_def detach_waiter_cancel_def\<close>)
    then have "op_inv (X - {i}) (open_operation i ?s2)"
      by (rule open_operation_inv [where x = "?x1\<lparr>op_retry_login := False\<rparr>", OF _ i]) (use x1 x(2) in \<open>simp_all add: op_clear_def op_fresh_def\<close>)
    then show ?thesis using True x1 by (simp add: finish_waiter_def Let_def)
  next
    case False
    have "op_inv (X - {i}) (apply_login_outcome e i outcome ?s1)"
      by (rule apply_login_outcome_inv [OF inv1 i x1]) (use False x(2) in \<open>simp_all add: op_clear_def op_fresh_def\<close>)
    then show ?thesis using False x1 by (simp add: finish_waiter_def Let_def)
  qed
qed

lemma finish_waiters_inv:
  assumes "op_inv X s" "set ws \<subseteq> X" "distinct ws"
    "\<forall>i\<in>set ws. \<exists>x. os_operations s i = Some x \<and> op_fresh x"
  shows "op_inv (X - set ws) (fold (finish_waiter e outcome) ws s)"
  using assms
proof (induction ws arbitrary: X s)
  case (Cons i ws)
  let ?t = "finish_waiter e outcome i s"
  from Cons.prems obtain x where x: "os_operations s i = Some x" "op_fresh x" by auto
  have "op_inv (X - {i}) ?t" by (rule finish_waiter_inv [OF Cons.prems(1) _ x]) (use Cons.prems in auto)
  moreover have "\<forall>j\<in>set ws. \<exists>y. os_operations ?t j = Some y \<and> op_fresh y"
  proof
    fix j assume j: "j \<in> set ws"
    with Cons.prems obtain y where "os_operations s j = Some y" "op_fresh y" "j \<noteq> i" by auto
    then show "\<exists>y. os_operations ?t j = Some y \<and> op_fresh y"
      using others_waiter [of i s e outcome] unfolding others_same_def by (metis op_fresh_cancel)
  qed
  ultimately have "op_inv (X - {i} - set ws) (fold (finish_waiter e outcome) ws ?t)"
    using Cons.prems by (intro Cons.IH) auto
  moreover have "X - {i} - set ws = X - set (i # ws)" by auto
  ultimately show ?case by simp
qed simp

lemma waiter_operation:
  assumes "op_inv X s" "i \<in> set (waiters s)"
  obtains x where "os_operations s i = Some x" "\<not> op_answered x" "op_task x = Task_none" "i \<notin> X"
    "op_context_outcome x = CERTIFICATE_PIN_OK" "\<not> op_retry_open x" "i < os_next s" "se_closed (os_session s) \<longrightarrow> op_cancelled x"
  using op_invD(1) [OF assms(1), of i] assms(2) that
  by (auto simp: op_at_def op_place_def op_flags_def split: option.splits if_splits)

lemma finish_login_inv:
  assumes inv: "op_inv {} s" and li: "os_interaction s = Some li"
  shows "op_inv {} (finish_login e s)"
proof -
  define s1 where "s1 = (session_set (\<lambda>se. se\<lparr>se_login_in_progress := False, se_login_generation := se_login_generation se + 1,
      se_login_waiters := None\<rparr>) s)\<lparr>os_interaction := None\<rparr>"
  have s1: "waiters s1 = []" "os_operations s1 = os_operations s" "os_next s1 = os_next s" "se_closed (os_session s1) = se_closed (os_session s)"
    by (simp_all add: s1_def waiters_def)
  have inv1: "op_inv (set (waiters s)) s1"
  proof (rule op_invI)
    fix i
    show "op_at (set (waiters s)) s1 i"
    proof (cases "i \<in> set (waiters s)")
      case True
      then obtain x where "os_operations s i = Some x" "\<not> op_answered x" "op_task x = Task_none"
        "op_context_outcome x = CERTIFICATE_PIN_OK" "\<not> op_retry_open x" "i < os_next s" "se_closed (os_session s) \<longrightarrow> op_cancelled x"
        using waiter_operation [OF inv True] by blast
      with True show ?thesis by (simp add: op_at_def s1 op_place_def op_flags_def)
    next
      case False
      then show ?thesis using op_at_cong [OF op_invD(1) [OF inv, of i], of s1 "set (waiters s)"] by (simp add: s1)
    qed
  qed (use op_invD [OF inv] in \<open>simp_all add: s1_def lock_ok_def answers_ok_def login_ok_def login_fields_def\<close>)
  have d: "distinct (waiters s)"
    using op_invD(3) [OF inv] by (auto simp: login_ok_def login_fields_def waiters_def li)
  have "\<forall>i\<in>set (waiters s). \<exists>x. os_operations s1 i = Some x \<and> op_fresh x"
  proof
    fix i assume "i \<in> set (waiters s)"
    from waiter_operation [OF inv this] show "\<exists>x. os_operations s1 i = Some x \<and> op_fresh x"
      unfolding s1(2) op_fresh_def by metis
  qed
  from finish_waiters_inv [OF inv1 _ d this, of e "li_outcome li"]
  show ?thesis by (simp add: finish_login_def li Let_def s1_def waiters_def)
qed

lemma on_pin_done_inv:
  assumes inv: "op_inv {} s" and li: "os_interaction s = Some li"
  shows "op_inv {} (on_pin_done e outcome s)"
  using op_inv_interaction [OF inv li] finish_login_inv [OF op_inv_interaction [OF inv li], of _ _ e]
  by (simp add: on_pin_done_def li Let_def)

lemma device_set_inv: "op_inv X s \<Longrightarrow> op_inv X (device_set d s)"
  by (rule op_inv_session) simp_all

lemma release_login_inv: "op_inv {} s \<Longrightarrow> os_interaction s = Some li \<Longrightarrow> op_inv {} (release_login D e s)"
  by (simp add: release_login_def) (rule op_inv_interaction [where li = li], rule device_set_inv, simp_all)

lemma do_login_inv: "op_inv {} s \<Longrightarrow> op_inv {} (do_login D ts e pin s)"
  unfolding do_login_def
  by (auto split: option.splits prod.splits sum.splits intro!: device_set_inv op_inv_interaction)

text \<open>A waiter leaves.\<close>

lemma waiter_leaves_inv:
  assumes inv: "op_inv {} s" and ws: "se_login_waiters (os_session s) = Some ws" "i \<in> set ws"
  shows "op_inv {i} (session_set (\<lambda>se. se\<lparr>se_login_waiters := Some (remove1 i ws)\<rparr>) s)"
proof -
  let ?t = "session_set (\<lambda>se. se\<lparr>se_login_waiters := Some (remove1 i ws)\<rparr>) s"
  have w: "waiters s = ws" "waiters ?t = remove1 i ws" using ws by (simp_all add: waiters_def)
  have d: "distinct ws" using op_invD(3) [OF inv] ws by (auto simp: login_ok_def login_fields_def split: option.splits)
  show ?thesis
  proof (rule op_invI)
    fix j
    show "op_at {i} ?t j"
    proof (cases "j = i")
      case True
      obtain x where "os_operations s i = Some x" "\<not> op_answered x" "op_task x = Task_none" "op_context_outcome x = CERTIFICATE_PIN_OK"
        "\<not> op_retry_open x" "i < os_next s" "se_closed (os_session s) \<longrightarrow> op_cancelled x"
        using waiter_operation [OF inv, of i] ws(2) w(1) by metis
      then show ?thesis using True d by (simp add: op_at_def w op_place_def op_flags_def)
    next
      case False
      then show ?thesis using op_at_cong [OF op_invD(1) [OF inv, of j], of ?t "{i}"] w by simp
    qed
    show "login_ok ?t" using op_invD(3) [OF inv] ws d by (auto simp: login_ok_def login_fields_def split: option.splits)
  qed (use op_invD [OF inv] in \<open>simp_all add: lock_ok_def answers_ok_def\<close>)
qed

lemma waiter_cancelled_idle_inv:
  assumes inv: "op_inv {} s" and x: "os_operations s i = Some x" "op_login_cancel_idle x"
  shows "op_inv {} (waiter_cancelled_idle i s)"
proof -
  note at = op_atD [OF inv x(1)]
  have w: "i \<in> set (waiters s)" using at(3) x(2) by (auto simp: op_flags_def)
  then obtain ws where ws: "se_login_waiters (os_session s) = Some ws" "i \<in> set ws"
    by (cases "se_login_waiters (os_session s)") (simp_all add: waiters_def)
  define s1 where "s1 = op_set i (\<lambda>x. x\<lparr>op_login_cancel_idle := False\<rparr>) s"
  define s2 where "s2 = session_set (\<lambda>se. se\<lparr>se_login_waiters := Some (remove1 i ws)\<rparr>) s1"
  define s3 where "s3 = operation_fail i (Error_pkcs11 CERTIFICATE_PKCS11_ERROR_CANCELLED) (detach_waiter_cancel i s2)"
  obtain y where "os_operations s i = Some y" "\<not> op_answered y" "op_task y = Task_none"
    "op_context_outcome y = CERTIFICATE_PIN_OK" "\<not> op_retry_open y" "se_closed (os_session s) \<longrightarrow> op_cancelled y"
    using waiter_operation [OF inv w] by metis
  with x have y: "\<not> op_answered x" "op_task x = Task_none" "op_context_outcome x = CERTIFICATE_PIN_OK" "\<not> op_retry_open x"
    "se_closed (os_session s) \<longrightarrow> op_cancelled x" by auto
  have inv1: "op_inv {} s1" unfolding s1_def
    by (rule op_setI [where x = x, OF inv x(1)]) (use at y w in \<open>auto simp: in_context_def op_place_def op_flags_def\<close>)
  have ws1: "se_login_waiters (os_session s1) = Some ws" using ws by (simp add: s1_def)
  have inv2: "op_inv {i} s2" unfolding s2_def by (rule waiter_leaves_inv [OF inv1]) (use ws in \<open>simp_all add: s1_def\<close>)
  have x2: "os_operations s2 i = Some (x\<lparr>op_login_cancel_idle := False\<rparr>)" using x by (simp add: s2_def s1_def)
  have w2: "i \<notin> set (waiters s2)" "se_closed (os_session s2) = se_closed (os_session s)"
    using in_hand [OF inv2, of i] by (auto simp: s2_def s1_def)
  let ?x3 = "x\<lparr>op_login_cancel_id := False, op_login_cancel_idle := False\<rparr>"
  have x3: "os_operations (detach_waiter_cancel i s2) i = Some ?x3" using x2 by (simp add: detach_waiter_cancel_def)
  have "op_inv {i} (detach_waiter_cancel i s2)" unfolding detach_waiter_cancel_def
    by (rule op_setI [OF inv2 x2]) (use y w2 in \<open>auto simp: in_context_def op_place_def op_flags_def\<close>)
  then have "op_inv ({i} - {i}) s3" unfolding s3_def
    by (rule operation_fail_inv [OF _ _ x3]) (simp_all add: op_clear_def)
  then have inv3: "op_inv {} s3" by simp
  have "op_inv {} (op_note Window_cancelled (s3\<lparr>os_interaction := Some (li\<lparr>li_cancelled := True\<rparr>)\<rparr>))" if "os_interaction s3 = Some li" for li
    by (rule op_inv_note, rule op_inv_interaction [OF inv3 that]) simp
  moreover have "waiter_cancelled_idle i s =
      (if remove1 i ws = [] then (case os_interaction s3 of None \<Rightarrow> s3
         | Some li \<Rightarrow> op_note Window_cancelled (s3\<lparr>os_interaction := Some (li\<lparr>li_cancelled := True\<rparr>)\<rparr>)) else s3)"
    by (simp add: waiter_cancelled_idle_def Let_def s1_def [symmetric] ws1 ws(2) s2_def [symmetric] s3_def [symmetric]
        cong: option.case_cong)
  ultimately show ?thesis using inv3 by (simp split: option.split)
qed

section \<open>Callbacks of tasks\<close>

lemma attach_waiter_eq:
  "attach_waiter i (add_waiter i (op_set i g s)) = op_set i (\<lambda>x. if \<not> op_cancellable (g x) then g x
       else if op_cancelled (g x) then on_waiter_cancelled ((g x)\<lparr>op_login_cancel_id := False\<rparr>) else (g x)\<lparr>op_login_cancel_id := True\<rparr>) (add_waiter i s)"
  by (simp add: attach_waiter_def add_waiter_def op_set_def option.map_comp comp_def)

lemma add_waiter_fields [simp]:
  "os_operations (add_waiter i s) = os_operations s" "os_next (add_waiter i s) = os_next s" "waiters (add_waiter i s) = waiters s @ [i]"
  "se_closed (os_session (add_waiter i s)) = se_closed (os_session s)" "os_operation_lock (add_waiter i s) = os_operation_lock s"
  "os_log (add_waiter i s) = os_log s" "os_interaction (add_waiter i s) = os_interaction s"
  by (simp_all add: add_waiter_def waiters_def split: option.split)

lemma on_opened_inv:
  assumes inv: "op_inv {} s" and x: "os_operations s i = Some x" "op_task x = Task_opened r"
  shows "op_inv {} (on_opened e i s)"
proof -
  let ?s0 = "op_set i (\<lambda>x. x\<lparr>op_task := Task_none\<rparr>) s" and ?x0 = "x\<lparr>op_task := Task_none\<rparr>"
  have nc: "op_task x \<noteq> Task_none" "\<not> in_context x" using x(2) by (simp_all add: in_context_def)
  note out = task_out [OF inv x(1) nc(1)]
  have c: "op_clear ?x0" "\<not> op_retry_login ?x0" "op_fresh ?x0"
    using out(4,6,7) x(2) by (auto simp: op_clear_def op_fresh_def)
  have inv0: "op_inv {i} ?s0" using op_take_inv [where f = "\<lambda>x. x\<lparr>op_task := Task_none\<rparr>", OF inv x(1) nc] by simp
  have x0: "os_operations ?s0 i = Some ?x0" using x by simp
  have fail: "op_inv {} (operation_fail i err (if b then xcc_session_invalidate e reason ?s0 else ?s0))" for err b reason
    using fail_invalidated_inv [OF inv0 insertI1 x0 c(1), of err b e reason] by (simp only: Diff_cancel)
  show ?thesis
  proof (cases "task_propagate x r")
    case (Inl err)
    then show ?thesis using x fail by (simp only: on_opened_def option.case op_task.case Let_def sum.case)
  next
    case (Inr needs_login)
    show ?thesis
    proof (cases "operation_still_authorised (oe_now e) (op_is_cancelled x) (os_session s)")
      case (Inl err)
      then show ?thesis using x Inr operation_fail_inv [OF inv0 _ x0 c(1)] by (simp add: on_opened_def)
    next
      case auth: (Inr u)
      show ?thesis
      proof (cases "se_login_in_progress (os_session s)")
        case True
        then obtain li where li: "os_interaction s = Some li"
          using op_invD(3) [OF inv] by (auto simp: login_ok_def login_fields_def split: option.splits)
        have lo: "login_ok (add_waiter i ?s0)"
          using op_invD(3) [OF inv] out(3) li by (auto simp: login_ok_def login_fields_def add_waiter_def waiters_def)
        have "op_inv ({i} - {i}) (attach_waiter i (add_waiter i (op_set i (\<lambda>x. x\<lparr>op_retry_login := b\<rparr>) ?s0)))" for b
          unfolding attach_waiter_eq
          by (rule op_wait_inv [OF inv0 _ x0 c(3) _ _ _ _ _ _ lo]) (simp_all add: on_waiter_cancelled_def)
        then show ?thesis using x Inr auth True by (simp add: on_opened_def Let_def)
      next
        case False
        then have li: "os_interaction s = None" "se_login_waiters (os_session s) = None"
          using op_invD(3) [OF inv] by (auto simp: login_ok_def login_fields_def split: option.splits)
        have "op_inv {} (run_operation i ?s0)" unfolding run_operation_def
          using op_start_inv [where f = "\<lambda>x. x\<lparr>op_task := Task_sign\<rparr>", OF inv0 _ x0 c(1)] c by (simp add: op_clear_def op_fresh_def)
        moreover have "op_inv {} (open_operation i ?s0)"
          using open_operation_inv [OF inv0 _ x0 c(1,3,2)] by simp
        moreover have "op_inv {} (op_note (Login_prompt i q) (attach_waiter i
            ((session_set (\<lambda>se. se\<lparr>se_login_in_progress := True\<rparr>) (add_waiter i ?s0))\<lparr>os_interaction := Some l\<rparr>)))" for q l
        proof (rule op_inv_note)
          let ?t = "(session_set (\<lambda>se. se\<lparr>se_login_in_progress := True\<rparr>) (add_waiter i ?s0))\<lparr>os_interaction := Some l\<rparr>"
          have w: "waiters (session_set (\<lambda>se. se\<lparr>se_login_in_progress := True\<rparr>) (add_waiter i ?s0)) = waiters s @ [i]"
            by (simp add: waiters_def add_waiter_def split: option.split)
          have lo: "login_ok ?t" using li by (simp add: login_ok_def login_fields_def add_waiter_def)
          have "op_inv ({i} - {i}) (attach_waiter i ?t)"
            unfolding attach_waiter_def by (rule op_wait_inv [OF inv0 _ x0 c(3) _ _ _ _ _ _ lo]) (simp_all add: w on_waiter_cancelled_def)
          then show "op_inv {} (attach_waiter i ?t)" by simp
        qed simp
        moreover have "os_interaction (op_note (Login_prompt i q) (attach_waiter i (t\<lparr>os_interaction := Some l\<rparr>))) = Some l" for q t l
          by (simp add: attach_waiter_def)
        ultimately show ?thesis using x Inr auth False on_pin_done_inv [of _ _ e CERTIFICATE_PIN_NO_DISPLAY]
          by (simp add: on_opened_def Let_def)
      qed
    qed
  qed
qed

lemma on_signed_inv:
  assumes inv: "op_inv {} s" and x: "os_operations s i = Some x" "op_task x = Task_signed r0"
  shows "op_inv {} (on_signed e i s)"
proof -
  have nc: "op_task x \<noteq> Task_none" "\<not> in_context x" using x(2) by (simp_all add: in_context_def)
  note out = task_out [OF inv x(1) nc(1)]
  define r where "r = task_propagate x r0"
  show ?thesis
  proof (cases "op_retry_open x")
    case False
    let ?s0 = "op_set i (\<lambda>x. x\<lparr>op_task := Task_none\<rparr>) s" and ?x0 = "x\<lparr>op_task := Task_none\<rparr>"
    have inv0: "op_inv {i} ?s0" using op_take_inv [where f = "\<lambda>x. x\<lparr>op_task := Task_none\<rparr>", OF inv x(1) nc] by simp
    have x0: "os_operations ?s0 i = Some ?x0" "op_clear ?x0" using x(1) out(4) by (simp_all add: op_clear_def)
    have fail: "op_inv {} (operation_fail i err (if b then xcc_session_invalidate e reason ?s0 else ?s0))"
      "op_inv {} (operation_fail i err ?s0)" "op_inv {} (operation_succeed i v ?s0)" for err b reason v
      using fail_invalidated_inv [OF inv0 insertI1 x0, of err b e reason] operation_fail_inv [OF inv0 insertI1 x0, of err]
        operation_succeed_inv [OF inv0 insertI1 x0, of v] by (simp_all only: Diff_cancel)
    have applied: "op_inv {} (apply_login_outcome e i (op_context_outcome x) ?s0)" if "op_context_outcome x \<noteq> CERTIFICATE_PIN_OK"
      using apply_login_outcome_inv [OF inv0 insertI1 x0, of "op_context_outcome x" e] that by (simp only: Diff_cancel) simp
    have nn: "r \<noteq> Inr None" using False out(6) x(2) by (auto simp: r_def task_propagate_def split: if_splits)
    show ?thesis
      using x False fail applied nn unfolding on_signed_def r_def [symmetric]
      by (simp only: option.case op_task.case Let_def r_def [symmetric] simp_thms if_False)
        (auto split: sum.splits option.splits)
  next
    case True
    let ?f = "\<lambda>x. x\<lparr>op_task := Task_none, op_retry_open := False\<rparr>" and ?s0 = "op_set i (\<lambda>x. x\<lparr>op_task := Task_none\<rparr>) s"
    have r0: "r0 = Inr None" using True out(6) x(2) by simp
    have co: "op_context_outcome x = CERTIFICATE_PIN_OK" using out(7) x(2) r0 by simp
    have inv1: "op_inv {i} (op_set i ?f s)" using op_take_inv [where f = ?f, OF inv x(1) nc] by simp
    have x1: "os_operations (op_set i ?f s) i = Some (?f x)" "op_clear (?f x)" using x(1) out(4) by (simp_all add: op_clear_def)
    have s1: "op_set i (\<lambda>x. x\<lparr>op_retry_open := False\<rparr>) ?s0 = op_set i ?f s" by simp
    show ?thesis
    proof (cases "op_is_cancelled x")
      case True
      let ?x0 = "x\<lparr>op_task := Task_none\<rparr>"
      have inv0: "op_inv {i} ?s0" using op_take_inv [where f = "\<lambda>x. x\<lparr>op_task := Task_none\<rparr>", OF inv x(1) nc] by simp
      have x0: "os_operations ?s0 i = Some ?x0" "op_clear ?x0" using x(1) out(4) by (simp_all add: op_clear_def)
      have "op_inv {} (operation_fail i Error_io_cancelled ?s0)" using operation_fail_inv [OF inv0 insertI1 x0] by (simp only: Diff_cancel)
      then show ?thesis using x True co by (simp add: on_signed_def task_propagate_def)
    next
      case False
      have "op_inv {} (operation_fail i err (op_set i ?f s))" for err
        using operation_fail_inv [OF inv1 insertI1 x1, of err] by (simp only: Diff_cancel)
      moreover have "op_inv {} (open_operation i (op_set i (\<lambda>x. x\<lparr>op_retried_open := True\<rparr>) (op_set i ?f s)))"
        using op_start_inv [where f = "\<lambda>x. x\<lparr>op_retried_open := True, op_open_login_generation := se_login_generation (os_session s),
            op_task := Task_open\<rparr>", OF inv1 insertI1 x1] out(4) co
        by (simp add: open_operation_def op_clear_def op_fresh_def)
      ultimately show ?thesis using x True False r0 by (simp add: on_signed_def task_propagate_def Let_def)
    qed
  qed
qed

section \<open>Workers\<close>

lemma op_result_inv:
  assumes inv: "op_inv X s" and x: "os_operations s i = Some x" "op_task x \<in> {Task_open, Task_open_lock, Task_sign, Task_sign_lock}"
    and r: "r \<notin> {Task_none, Task_signed (Inr None)}" "\<And>h. r \<noteq> Task_context h" "\<And>h out. r \<noteq> Task_context_done h out"
  shows "op_inv X (op_set i (\<lambda>x. x\<lparr>op_task := r\<rparr>) s)"
proof -
  have nc: "op_task x \<noteq> Task_none" "\<not> in_context x" using x(2) by (auto simp: in_context_def)
  note out = task_out [OF inv x(1) nc(1)]
  have out: "\<not> op_retry_open x" "op_context_outcome x = CERTIFICATE_PIN_OK" using out(6,7) x(2) by auto
  show ?thesis
    by (rule op_task_inv [where x = x, OF inv x(1) nc]) (use out r in \<open>auto simp: in_context_def op_clear_def split: op_task.split\<close>)
qed

lemma open_check_inv:
  assumes "op_inv {} s" "os_operations s i = Some x" "op_task x = Task_open"
  shows "op_inv {} (open_check e i s)"
proof -
  have "open_check e i s = op_set i (\<lambda>y. y\<lparr>op_task := (case operation_still_authorised (oe_now e) (op_is_cancelled x) (os_session s) of
      Inl err \<Rightarrow> Task_opened (Inl (Error_pkcs11 err)) | Inr _ \<Rightarrow> Task_open_lock)\<rparr>) s"
    using assms(2) by (simp add: open_check_def op_set_def)
  then show ?thesis by (auto intro!: op_result_inv [OF assms(1,2)] simp: assms(3) split: sum.splits)
qed

lemma sign_check_inv:
  assumes "op_inv {} s" "os_operations s i = Some x" "op_task x = Task_sign"
  shows "op_inv {} (sign_check e i s)"
proof -
  have "sign_check e i s = op_set i (\<lambda>y. y\<lparr>op_task := (case operation_still_authorised (oe_now e) (op_is_cancelled x) (os_session s) of
      Inl err \<Rightarrow> Task_signed (Inl (Error_pkcs11 err)) | Inr _ \<Rightarrow> Task_sign_lock)\<rparr>) s"
    using assms(2) by (simp add: sign_check_def op_set_def)
  then show ?thesis by (auto intro!: op_result_inv [OF assms(1,2)] simp: assms(3) split: sum.splits)
qed

lemma open_thread_inv:
  assumes "op_inv {} s" "os_operations s i = Some x" "op_task x = Task_open_lock"
  shows "op_inv {} (open_thread D ts e i s)"
proof -
  have "op_inv {} (op_set i (\<lambda>x. x\<lparr>op_task := Task_opened r\<rparr>) (device_set d s))" for r d
    by (rule op_result_inv [OF device_set_inv [OF assms(1)], of _ _ x]) (use assms in auto)
  moreover have "op_inv {} (op_set i (\<lambda>x. x\<lparr>op_task := Task_opened r\<rparr>) s)" for r
    by (rule op_result_inv [OF assms(1), of _ x]) (use assms in auto)
  ultimately show ?thesis
    using assms by (auto simp: open_thread_def split: option.splits sum.splits prod.splits)
qed

lemma signed_result_some [simp]: "signed_result decrypt r \<noteq> Inr None" "Inr None \<noteq> signed_result decrypt r"
  by (auto simp: signed_result_def split: sum.splits)

lemma op_enter_context_inv:
  assumes inv: "op_inv {} s" and x: "os_operations s i = Some x" "op_task x = Task_sign_lock" and lk: "os_operation_lock s = None"
  shows "op_inv {} ((op_set i (\<lambda>x. x\<lparr>op_task := Task_context h\<rparr>) s)\<lparr>os_operation_lock := Some i\<rparr>)"
proof -
  let ?t = "(op_set i (\<lambda>x. x\<lparr>op_task := Task_context h\<rparr>) s)\<lparr>os_operation_lock := Some i\<rparr>"
  have n: "op_task x \<noteq> Task_none" using x(2) by simp
  note out = task_out [OF inv x(1) n] and at = op_atD [OF inv x(1)]
  show ?thesis
  proof (rule op_invI)
    fix j
    show "op_at {} ?t j"
    proof (cases "j = i")
      case True
      then show ?thesis using x out at by (auto simp: op_at_def op_place_def op_flags_def)
    next
      case False
      then show ?thesis using op_at_cong [OF op_invD(1) [OF inv, of j], of ?t "{}"] by simp
    qed
    show "lock_ok ?t" using op_invD(2) [OF inv] lk x by (auto simp: lock_ok_def in_context_def)
    show "answers_ok ?t" using op_invD(4) [OF inv] x by (auto simp: answers_ok_def)
  qed (use op_invD(3) [OF inv] in \<open>simp add: login_ok_def\<close>)
qed

text \<open>The ways through the section of \<open>sign_thread\<close>.\<close>

definition sign_refresh :: "'w discovery_env \<Rightarrow> 'w op_env \<Rightarrow> op_state \<Rightarrow> (certificate_device \<times> 'w) \<times> (pkcs11_error + unit)" where
  "sign_refresh D e s =
     (if dv_module (se_device (os_session s)) = None then ((se_device (os_session s), oe_world e), Inr ())
      else certificate_device_refresh_login D (se_device (os_session s)) (oe_world e))"

lemma sign_thread_cases:
  obtains (idle) "sign_thread D e i s = s"
  | (refused) err where "sign_thread D e i s = op_finish_task i (Inl (Error_pkcs11 err)) s"
  | (stale) err d1 w1 q where "sign_refresh D e s = ((d1, w1), q)" "sign_thread D e i s = op_finish_task i (Inl (Error_pkcs11 err)) (device_set d1 s)"
  | (retry) d1 w1 q where "sign_refresh D e s = ((d1, w1), q)" "sign_thread D e i s = op_finish_task i (Inr None) (op_set i (\<lambda>x. x\<lparr>op_retry_open := True\<rparr>) (device_set d1 s))"
  | (perform) x c d1 w1 w2 q where
      "os_operations s i = Some x" "se_candidate (os_session s) = Some c"
      "operation_still_authorised (oe_now e) (op_is_cancelled x) (os_session s) = Inr ()"
      "operation_still_authorised (oe_later e) (op_is_cancelled x) (os_session s) = Inr ()"
      "dv_module d1 \<noteq> None" "\<not> wants_login c d1"
      "sign_refresh D e s = ((d1, w1), Inr ())"
      "perform_begin D (op_decrypt x) (op_mechanism x) (op_payload x) d1 w1 = (w2, q)"
      "sign_thread D e i s = (case q of
         Some r \<Rightarrow> op_finish_task i (signed_result (op_decrypt x) r)
           (op_note (Performing i d1 (op_decrypt x) (op_mechanism x) (op_payload x)) (device_set d1 s))
       | None \<Rightarrow> op_note (Context_prompt i (login_request True x (os_session s)))
           ((op_set i (\<lambda>x. x\<lparr>op_task := Task_context (dv_session d1)\<rparr>)
             (op_note (Performing i d1 (op_decrypt x) (op_mechanism x) (op_payload x)) (device_set d1 s)))\<lparr>os_operation_lock := Some i\<rparr>))"
proof (cases "os_operations s i")
  case None
  then show ?thesis by (intro idle) (simp add: sign_thread_def)
next
  case x: (Some x)
  show ?thesis
  proof (cases "se_candidate (os_session s)")
    case None
    then show ?thesis by (intro idle) (simp add: sign_thread_def split: option.split)
  next
    case c: (Some c)
    show ?thesis
    proof (cases "operation_still_authorised (oe_now e) (op_is_cancelled x) (os_session s)")
      case (Inl err)
      then show ?thesis using x c by (intro refused [of err]) (simp add: sign_thread_def)
    next
      case a: (Inr u)
      obtain d1 w1 r where d: "(if dv_module (se_device (os_session s)) = None then ((se_device (os_session s), oe_world e), Inr ())
        else certificate_device_refresh_login D (se_device (os_session s)) (oe_world e)) = ((d1, w1), r)" by (metis prod.exhaust)
      then have sr: "sign_refresh D e s = ((d1, w1), r)" by (simp only: sign_refresh_def)
      show ?thesis
      proof (cases r)
        case (Inl err)
        then show ?thesis using x c a d by (intro stale [OF sr, of err]) (simp add: sign_thread_def Let_def)
      next
        case r: (Inr v)
        show ?thesis
        proof (cases "operation_still_authorised (oe_later e) (op_is_cancelled x) (os_session s)")
          case (Inl err)
          then show ?thesis using x c a d r by (intro stale [OF sr, of err]) (simp add: sign_thread_def Let_def)
        next
          case b: (Inr u')
          obtain w2 q where q: "perform_begin D (op_decrypt x) (op_mechanism x) (op_payload x) d1 w1 = (w2, q)" by fastforce
          have eq: "sign_thread D e i s = (if dv_module d1 = None \<or> wants_login c d1
              then op_finish_task i (Inr None) (op_set i (\<lambda>x. x\<lparr>op_retry_open := True\<rparr>) (device_set d1 s))
              else (case q of
                 Some r \<Rightarrow> op_finish_task i (signed_result (op_decrypt x) r)
                   (op_note (Performing i d1 (op_decrypt x) (op_mechanism x) (op_payload x)) (device_set d1 s))
               | None \<Rightarrow> op_note (Context_prompt i (login_request True x (os_session s)))
                   ((op_set i (\<lambda>x. x\<lparr>op_task := Task_context (dv_session d1)\<rparr>)
                     (op_note (Performing i d1 (op_decrypt x) (op_mechanism x) (op_payload x)) (device_set d1 s)))\<lparr>os_operation_lock := Some i\<rparr>)))"
            by (simp only: sign_thread_def x c option.case prod.case a d r b q sum.case Let_def)
          show ?thesis
          proof (cases "dv_module d1 = None \<or> wants_login c d1")
            case True
            then show ?thesis using eq by (intro retry [OF sr]) simp
          next
            case False
            then obtain md where md: "dv_module d1 = Some md" "\<not> wants_login c d1" by auto
            show ?thesis
              by (rule perform [of x c d1 w1 w2 q]) (use eq x c a b sr r q md in simp_all)
          qed
        qed
      qed
    qed
  qed
qed

lemma sign_thread_inv:
  assumes inv: "op_inv {} s" and x: "os_operations s i = Some x" "op_task x = Task_sign_lock" and lk: "os_operation_lock s = None"
  shows "op_inv {} (sign_thread D e i s)"
proof -
  have fin: "op_inv {} (op_finish_task i r t)"
    if "op_inv {} t" "os_operations t = os_operations s" "r \<noteq> Inr None" for r t
    unfolding op_finish_task_def by (rule op_result_inv [OF that(1), of _ x]) (use that x in auto)
  have n: "op_task x \<noteq> Task_none" "\<not> in_context x" using x(2) by (simp_all add: in_context_def)
  note out = task_out [OF inv x(1) n(1)]
  have retry: "op_inv {} (op_finish_task i (Inr None) (op_set i (\<lambda>x. x\<lparr>op_retry_open := True\<rparr>) (device_set d s)))" for d
  proof -
    have "op_inv {} (op_set i (\<lambda>x. x\<lparr>op_retry_open := True, op_task := Task_signed (Inr None)\<rparr>) (device_set d s))"
      by (rule op_task_inv [where x = x, OF device_set_inv [OF inv] _ n])
        (use out x in \<open>simp_all add: in_context_def op_clear_def\<close>)
    then show ?thesis by (simp add: op_finish_task_def)
  qed
  have ctx: "op_inv {} (op_note (Context_prompt i q) ((op_set i (\<lambda>x. x\<lparr>op_task := Task_context h\<rparr>) t)\<lparr>os_operation_lock := Some i\<rparr>))"
    if "op_inv {} t" "os_operations t = os_operations s" "os_operation_lock t = None" for t q h
    by (rule op_inv_note, rule op_enter_context_inv [of _ _ x]) (use that x in simp_all)
  have dev: "op_inv {} (device_set d s)" "op_inv {} (op_note (Performing i d b m p) (device_set d s))" for d b m p
    using device_set_inv [OF inv] by (auto intro: op_inv_note)
  show ?thesis
  proof (cases rule: sign_thread_cases [of D e i s])
    case (perform y c d1 w1 w2 q)
    show ?thesis
    proof (cases q)
      case None
      then show ?thesis using perform(9) x lk by (simp add: ctx dev)
    next
      case (Some r)
      then show ?thesis using perform(9) x by (simp add: fin dev)
    qed
  qed (use inv x in \<open>simp_all add: fin retry dev\<close>)
qed

lemma do_context_login_inv:
  assumes "op_inv {} s"
  shows "op_inv {} (do_context_login D e i pin s)"
  unfolding do_context_login_def using assms by (auto intro!: device_set_inv split: option.splits op_task.splits)

lemma on_context_pin_done_inv:
  assumes inv: "op_inv {} s" and x: "os_operations s i = Some x" "op_task x = Task_context h"
  shows "op_inv {} (on_context_pin_done i outcome s)"
proof -
  have n: "op_task x \<noteq> Task_none" using x(2) by simp
  note out = task_out [OF inv x(1) n]
  show ?thesis unfolding on_context_pin_done_def
    by (rule op_setI [where x = x, OF inv x(1)])
      (use x out in \<open>auto simp: in_context_def op_place_def op_flags_def op_clear_def\<close>)
qed

lemma perform_end_cases:
  assumes "r = Inr () \<longrightarrow> dv_module d \<noteq> None"
  obtains d1 w1 result where "perform_end D decrypt payload r d w = Some ((d1, w1), result)"
    "\<forall>err. r = Inl err \<longrightarrow> result = Inl err"
proof (cases r)
  case (Inl err)
  then show ?thesis using that by (cases "certificate_device_close D d w") (simp add: perform_end_def)
next
  case (Inr u)
  with assms obtain md where "dv_module d = Some md" by auto
  with Inr show ?thesis using that by (cases "device_output D md decrypt d payload w") (simp add: perform_end_def)
qed

lemma authenticated_module: "authenticate_context e handle outcome x se = Inr () \<Longrightarrow> dv_module (se_device se) \<noteq> None"
  by (auto simp: authenticate_context_def split: if_splits sum.splits)

lemma sign_thread_authenticated_eq:
  assumes "os_operations s i = Some x" "op_task x = Task_context_done h outcome"
  obtains d1 result where "sign_thread_authenticated D e i s =
      op_finish_task i (signed_result (op_decrypt x) result) (device_set d1
        (if authenticate_context e h outcome x (os_session s) = Inr ()
         then op_note (Finishing i (se_device (os_session s))) (op_set i (\<lambda>x. x\<lparr>op_context_outcome := outcome\<rparr>) (s\<lparr>os_operation_lock := None\<rparr>))
         else op_set i (\<lambda>x. x\<lparr>op_context_outcome := outcome\<rparr>) (s\<lparr>os_operation_lock := None\<rparr>)))"
    "outcome \<noteq> CERTIFICATE_PIN_OK \<longrightarrow> (\<exists>err. result = Inl err)"
proof -
  let ?r = "authenticate_context e h outcome x (os_session s)"
  have "?r = Inr () \<longrightarrow> dv_module (se_device (os_session s)) \<noteq> None" using authenticated_module by blast
  then obtain d1 w1 result where p: "perform_end D (op_decrypt x) (op_payload x) ?r (se_device (os_session s)) (oe_world e) = Some ((d1, w1), result)"
    "\<forall>err. ?r = Inl err \<longrightarrow> result = Inl err"
    by (rule perform_end_cases [where D = D and decrypt = "op_decrypt x" and payload = "op_payload x" and w = "oe_world e"])
  show ?thesis
  proof (rule that [of result d1])
    show "outcome \<noteq> CERTIFICATE_PIN_OK \<longrightarrow> (\<exists>err. result = Inl err)" using p(2) by (auto simp: authenticate_context_def)
  qed (simp add: sign_thread_authenticated_def assms p(1) Let_def)
qed

lemma sign_thread_authenticated_inv:
  assumes inv: "op_inv {} s" and x: "os_operations s i = Some x" "op_task x = Task_context_done h outcome"
  shows "op_inv {} (sign_thread_authenticated D e i s)"
proof -
  have n: "op_task x \<noteq> Task_none" using x(2) by simp
  note out = task_out [OF inv x(1) n] and at = op_atD [OF inv x(1)]
  obtain d1 result where eq: "sign_thread_authenticated D e i s =
      op_finish_task i (signed_result (op_decrypt x) result) (device_set d1
        (if authenticate_context e h outcome x (os_session s) = Inr ()
         then op_note (Finishing i (se_device (os_session s))) (op_set i (\<lambda>x. x\<lparr>op_context_outcome := outcome\<rparr>) (s\<lparr>os_operation_lock := None\<rparr>))
         else op_set i (\<lambda>x. x\<lparr>op_context_outcome := outcome\<rparr>) (s\<lparr>os_operation_lock := None\<rparr>)))"
    "outcome \<noteq> CERTIFICATE_PIN_OK \<longrightarrow> (\<exists>err. result = Inl err)" by (rule sign_thread_authenticated_eq [OF x])
  let ?f = "\<lambda>y. y\<lparr>op_context_outcome := outcome, op_task := Task_signed (signed_result (op_decrypt x) result)\<rparr>"
  let ?t = "op_set i ?f (s\<lparr>os_operation_lock := None\<rparr>)"
  have "op_inv {} ?t"
  proof (rule op_invI)
    fix j
    show "op_at {} ?t j"
    proof (cases "j = i")
      case True
      then show ?thesis using x out at eq(2)
        by (auto simp: op_at_def op_place_def op_flags_def op_clear_def signed_result_def split: sum.splits)
    next
      case False
      then show ?thesis using op_at_cong [OF op_invD(1) [OF inv, of j], of ?t "{}"] by simp
    qed
    have "os_operation_lock s = Some i" using op_invD(2) [OF inv] x by (auto simp: lock_ok_def in_context_def)
    then show "lock_ok ?t" using op_invD(2) [OF inv] x by (auto simp: lock_ok_def in_context_def)
    show "answers_ok ?t" using op_invD(4) [OF inv] x by (auto simp: answers_ok_def)
  qed (use op_invD(3) [OF inv] in \<open>simp add: login_ok_def\<close>)
  then have dev: "op_inv {} (device_set d1 ?t)" by (rule device_set_inv)
  then have "op_inv {} (op_note (Finishing i (se_device (os_session s))) (device_set d1 ?t))" by (rule op_inv_note) simp
  moreover have "sign_thread_authenticated D e i s = (if authenticate_context e h outcome x (os_session s) = Inr ()
      then op_note (Finishing i (se_device (os_session s))) (device_set d1 ?t) else device_set d1 ?t)"
    unfolding eq(1) by (simp add: op_finish_task_def op_note_def op_set_def x)
  ultimately show ?thesis using dev by presburger
qed

section \<open>Acceptance, and every step\<close>

lemma perform_cases:
  obtains (refused) err where "certificate_broker_perform e r s = op_note (Op_refused err) s"
  | (accepted) c mechanism payload where "\<not> se_grant_pending (os_session s)" "se_candidate (os_session s) = Some c" "se_granted (os_session s)"
      "\<not> se_closed (os_session s)" "\<not> xcc_session_is_expired (oe_now e) (os_session s)"
      "or_decrypt r \<longrightarrow> \<not> certificate_broker_decrypts_spent (os_session s)"
      "if or_decrypt r then se_may_decrypt (os_session s) else se_may_sign (os_session s)"
      "certificate_mechanism_parse (or_mechanism_name r) (or_parameters r) (cd_key_type c) (cd_key_size c) (or_decrypt r) = Inr mechanism"
      "certificate_mechanism_prepare mechanism (or_data r) = Inr payload"
      "certificate_broker_perform e r s =
        session_set (\<lambda>se. if or_decrypt r then se\<lparr>se_decrypt_count := se_decrypt_count se + 1\<rparr> else se)
          (s\<lparr>os_next := os_next s + 1, os_operations := (os_operations s)(os_next s \<mapsto>
            \<lparr>op_decrypt = or_decrypt r, op_mechanism = mechanism, op_payload = payload,
             op_parent_window = or_parent_window r, op_caller_display = or_caller_display r,
             op_purpose_display = (if se_generic_purpose (os_session s) then ''use a certificate''
               else certificate_purpose_display (se_purpose (os_session s))),
             op_cancellable = or_cancellable r, op_cancelled = or_cancelled r, op_answered = False,
             op_login_cancel_id = False, op_login_cancel_idle = False,
             op_context_outcome = CERTIFICATE_PIN_OK, op_retry_open = False, op_retried_open = False,
             op_retry_login = False, op_open_login_generation = se_login_generation (os_session s), op_task = Task_open\<rparr>)\<rparr>)"
proof (cases "\<exists>err. certificate_broker_perform e r s = op_note (Op_refused err) s")
  case True
  then show ?thesis using refused by blast
next
  case False
  then obtain c where c: "se_candidate (os_session s) = Some c"
    by (cases "se_candidate (os_session s)") (auto simp: certificate_broker_perform_def Let_def split: if_splits)
  from False c have g: "\<not> se_grant_pending (os_session s)" "se_granted (os_session s)" "\<not> se_closed (os_session s)"
    "\<not> xcc_session_is_expired (oe_now e) (os_session s)" "or_decrypt r \<longrightarrow> \<not> certificate_broker_decrypts_spent (os_session s)"
    "if or_decrypt r then se_may_decrypt (os_session s) else se_may_sign (os_session s)"
    by (auto simp: certificate_broker_perform_def Let_def split: if_splits)
  from False c g obtain m where m: "certificate_mechanism_parse (or_mechanism_name r) (or_parameters r) (cd_key_type c) (cd_key_size c) (or_decrypt r) = Inr m"
    by (cases "certificate_mechanism_parse (or_mechanism_name r) (or_parameters r) (cd_key_type c) (cd_key_size c) (or_decrypt r)")
      (auto simp: certificate_broker_perform_def Let_def split: if_splits)
  from False c g m obtain p where p: "certificate_mechanism_prepare m (or_data r) = Inr p"
    by (cases "certificate_mechanism_prepare m (or_data r)") (auto simp: certificate_broker_perform_def Let_def split: if_splits)
  show ?thesis
    by (rule accepted [OF g(1) c g(2-6) m p])
      (cases "or_decrypt r", use g c m p in \<open>simp_all add: certificate_broker_perform_def Let_def open_operation_def op_set_def\<close>)
qed

lemma op_new_inv:
  assumes inv: "op_inv {} s" and c: "\<not> se_closed (os_session s)"
    and x: "\<not> op_answered x" "op_task x = Task_open" "op_clear x" "op_fresh x" "\<not> op_retry_login x"
  shows "op_inv {} (s\<lparr>os_next := os_next s + 1, os_operations := (os_operations s)(os_next s \<mapsto> x)\<rparr>)" (is "op_inv {} ?t")
proof -
  have none: "os_operations s (os_next s) = None"
    using op_atD(1) [OF inv, of "os_next s"] by (cases "os_operations s (os_next s)") auto
  have w: "os_next s \<notin> set (waiters s)" "waiters ?t = waiters s"
    using op_invD(1) [OF inv, of "os_next s"] none by (simp_all add: op_at_def waiters_def)
  show ?thesis
  proof (rule op_invI)
    fix j
    show "op_at {} ?t j"
    proof (cases "j = os_next s")
      case True
      then show ?thesis using x w c by (simp add: op_at_def op_place_def op_flags_def op_clear_def op_fresh_def)
    next
      case False
      then show ?thesis using op_invD(1) [OF inv, of j] w by (auto simp: op_at_def split: option.splits)
    qed
    show "lock_ok ?t" using op_invD(2) [OF inv] none x(2) by (auto simp: lock_ok_def in_context_def split: if_splits)
    show "answers_ok ?t" using op_invD(4) [OF inv] none x(1) by (auto simp: answers_ok_def)
  qed (use op_invD(3) [OF inv] in \<open>simp add: login_ok_def\<close>)
qed

lemma broker_perform_inv:
  assumes "op_inv {} s"
  shows "op_inv {} (certificate_broker_perform e r s)"
proof (cases rule: perform_cases [of e r s])
  case (refused err)
  then show ?thesis using assms by (simp add: op_inv_note)
next
  case (accepted c mechanism payload)
  show ?thesis unfolding accepted(10)
    by (rule op_inv_session, rule op_new_inv [OF assms accepted(4)]) (simp_all add: op_clear_def op_fresh_def)
qed

lemma cancel_inv:
  assumes "op_inv {} s" "os_operations s i = Some x"
  shows "op_inv {} (op_set i cancel_operation s)"
  by (rule op_setI [where x = x, OF assms]) (use op_atD [OF assms] in \<open>auto intro: cancel_flags\<close>)

lemma op_inv_start: "op_inv {} op_start"
  by (simp add: op_inv_def ops_ok_def op_at_def lock_ok_def login_ok_def login_fields_def answers_ok_def op_start_def
      waiters_def xcc_session_init_def)

lemma op_inv_step:
  assumes inv: "op_inv {} s" and step: "op_step D ts s l t"
  shows "op_inv {} t"
proof -
  have grant: "op_inv {} (session_set (\<lambda>se. (xcc_session_grant now c p ms md l (se\<lparr>se_grant_pending := True\<rparr>))\<lparr>se_generic_purpose := g\<rparr>) s)"
    for now c p ms md l g by (rule op_inv_session [OF inv]) (simp_all add: xcc_session_grant_def)
  have delivered: "op_inv {} (session_set (\<lambda>se. se\<lparr>se_grant_pending := False\<rparr>) s)" "op_inv {} (session_set rollback_session s)"
    "op_inv {} (session_set (\<lambda>se. se\<lparr>se_expiry_source := None\<rparr>) s)"
    by (rule op_inv_session [OF inv]; simp add: rollback_session_def)+
  have expired: "op_inv {} (on_lifetime_expired e s)" for e :: "'a op_env"
    unfolding on_lifetime_expired_def by (rule invalidate_inv [OF delivered(3)])
  have identity: "op_inv {} (session_set (\<lambda>se. se\<lparr>se_owner_generation := g, se_app_id := a, se_identity_level := l, se_identity_seen := b\<rparr>) s)"
    for g a l b by (rule op_inv_session [OF inv]) simp_all
  have released: "op_inv {} ((device_set d s)\<lparr>os_releases := n\<rparr>)" for d n
    by (rule op_inv_releases [OF device_set_inv [OF inv]])
  show ?thesis using step
    by (cases rule: op_stepE)
      (auto intro: released identity grant delivered expired broker_perform_inv open_check_inv open_thread_inv on_opened_inv sign_check_inv sign_thread_inv
        do_context_login_inv on_context_pin_done_inv sign_thread_authenticated_inv on_signed_inv do_login_inv on_pin_done_inv
        release_login_inv finish_login_inv op_inv_releases device_set_inv cancel_inv waiter_cancelled_idle_inv invalidate_inv close_inv
        simp: inv)
qed

abbreviation op_reachable :: "'w discovery_env \<Rightarrow> certificate_tokens \<Rightarrow> op_state \<Rightarrow> bool" where
  "op_reachable D ts \<equiv> reach (\<lambda>s. s = op_start) (op_step D ts)"

interpretation ops: step_invariant "\<lambda>s. s = op_start" "op_step D ts" "op_inv {}" for D ts
  by unfold_locales (auto simp: op_inv_start intro: op_inv_step)

end
