(* ===== verification/OperationFrames.thy ===== *)
theory OperationFrames
  imports OperationsProps
begin

text \<open>
  What the functions of \<open>Operations\<close> leave alone, proved once for every relation of the state before to
  the state after that allows small changes (\<open>op_frame\<close>), and the relations the properties of
  \<open>OperationGuarantees\<close> use: \<open>calm\<close>, no use of the token, no result and no change of the grant;
  \<open>device_same\<close>, the device is as it was; \<open>untouched j\<close>, the task of operation \<open>j\<close> is as it was.
\<close>

section \<open>What most functions leave alone\<close>

text \<open>An operation's request stays; an answer and a cancellation stay; no result appears.\<close>

definition working :: "operation \<Rightarrow> bool" where
  "working x \<longleftrightarrow> in_context x \<or> (\<exists>v. op_task x = Task_signed (Inr (Some v)))"

definition calm_op :: "operation \<Rightarrow> operation \<Rightarrow> bool" where
  "calm_op x y \<longleftrightarrow> op_decrypt y = op_decrypt x \<and> op_mechanism y = op_mechanism x \<and> op_payload y = op_payload x \<and>
     op_cancellable y = op_cancellable x \<and> (op_answered x \<longrightarrow> op_answered y) \<and> (op_cancelled x \<longrightarrow> op_cancelled y) \<and>
     (working y \<longrightarrow> op_task y = op_task x)"

definition failure_note :: "op_effect \<Rightarrow> bool" where
  "failure_note x \<longleftrightarrow> (case x of Op_done i r \<Rightarrow> (\<exists>err. r = Inl err) | Performing i d b m p \<Rightarrow> False | Finishing i d \<Rightarrow> False
     | Context_prompt i q \<Rightarrow> False | _ \<Rightarrow> True)"

text \<open>Changes of the session that touch neither the grant nor the device.\<close>

definition grant_part :: "xcc_session \<Rightarrow> _" where
  "grant_part se = (se_candidate se, se_granted se, se_grant_pending se, se_may_sign se, se_may_decrypt se, se_decrypt_count se, se_expires_at se,
     se_purpose se, se_lifetime se)"

definition quiet :: "(xcc_session \<Rightarrow> xcc_session) \<Rightarrow> bool" where
  "quiet f \<longleftrightarrow> (\<forall>se. grant_part (f se) = grant_part se \<and> se_device (f se) = se_device se \<and> (se_closed se \<longrightarrow> se_closed (f se)))"

lemma quietI:
  "quiet (\<lambda>se. se\<lparr>se_closed := True\<rparr>)" "quiet (\<lambda>se. se\<lparr>se_invalidating := True\<rparr>)" "quiet (\<lambda>se. se\<lparr>se_expiry_source := None\<rparr>)"
  "quiet (\<lambda>se. se\<lparr>se_login_in_progress := a, se_login_generation := g se, se_login_waiters := w\<rparr>)"
  "quiet (\<lambda>se. se\<lparr>se_login_waiters := v se\<rparr>)" "quiet (\<lambda>se. se\<lparr>se_login_in_progress := a\<rparr>)"
  by (simp_all add: quiet_def grant_part_def)

definition wants_der :: "operation \<Rightarrow> bool" where
  "wants_der x \<longleftrightarrow> bm_type (op_mechanism x) = CKM_ECDSA \<and> bm_encoding (op_mechanism x) = CERTIFICATE_SIGNATURE_DER"

locale op_frame =
  fixes same :: "op_state \<Rightarrow> op_state \<Rightarrow> bool"
    and ok :: "nat \<Rightarrow> bool"
  assumes same_refl: "same s s"
    and same_trans: "same s t \<Longrightarrow> same t u \<Longrightarrow> same s u"
    and same_set: "ok i \<Longrightarrow> (\<And>x. os_operations s i = Some x \<Longrightarrow> calm_op x (f x)) \<Longrightarrow> same s (op_set i f s)"
    and same_all: "(\<And>x. calm_op x (f x) \<and> op_task (f x) = op_task x) \<Longrightarrow> same s (s\<lparr>os_operations := \<lambda>i. map_option f (os_operations s i)\<rparr>)"
    and same_note: "failure_note x \<Longrightarrow> same s (op_note x s)"
    and same_session: "quiet g \<Longrightarrow> same s (session_set g s)"
    and same_fields: "same s (s\<lparr>os_interaction := li\<rparr>)" "same s (s\<lparr>os_releases := n\<rparr>)"
begin

lemma same_release: "same s (xcc_session_release_device_async e s)"
  by (simp add: xcc_session_release_device_async_def same_refl same_fields)

lemma same_close: "same s (xcc_session_close e s)"
proof (cases "se_closed (os_session s)")
  case False
  let ?s1 = "session_set (\<lambda>se. se\<lparr>se_closed := True\<rparr>) s"
  let ?s2 = "?s1\<lparr>os_operations := (\<lambda>i. map_option (\<lambda>x. if op_answered x then x else cancel_operation x) (os_operations ?s1 i))\<rparr>"
  have 1: "same s ?s1" by (rule same_session [OF quietI(1)])
  have 2: "same ?s1 ?s2"
    by (rule same_all) (simp add: calm_op_def cancel_operation_def on_waiter_cancelled_def Let_def)
  have 3: "same ?s2 (xcc_session_release_device_async e (session_set (\<lambda>se. se\<lparr>se_expiry_source := None\<rparr>) ?s2))"
    by (rule same_trans [OF same_session [OF quietI(3)] same_release])
  show ?thesis using same_trans [OF same_trans [OF 1 2] 3] False by (simp add: xcc_session_close_def Let_def)
qed (simp add: xcc_session_close_def same_refl)

lemma same_invalidate: "same s (xcc_session_invalidate e reason s)"
proof -
  have "same s (op_note (Invalidated (checked_reason reason)) (session_set (\<lambda>se. se\<lparr>se_invalidating := True\<rparr>) s))"
    by (rule same_trans [OF same_session [OF quietI(2)] same_note]) (simp add: failure_note_def)
  from same_trans [OF this same_close [of _ e]] show ?thesis by (simp add: xcc_session_invalidate_def Let_def same_refl)
qed

lemma same_fail:
  assumes "ok i"
  shows "same s (operation_fail i err s)"
proof (cases "\<exists>x. os_operations s i = Some x \<and> \<not> op_answered x")
  case True
  have "same s (op_note (Op_done i (Inl err)) (op_set i (\<lambda>x. x\<lparr>op_answered := True\<rparr>) s))"
    by (rule same_trans [OF same_set [OF assms] same_note]) (simp_all add: failure_note_def calm_op_def working_def in_context_def)
  with True show ?thesis by (auto simp: operation_fail_def)
next
  case False
  then show ?thesis by (auto simp: operation_fail_def same_refl split: option.split)
qed

lemma same_started:
  assumes "op_task (f x) \<in> {Task_open, Task_sign}" "op_decrypt (f x) = op_decrypt x" "op_mechanism (f x) = op_mechanism x"
    "op_payload (f x) = op_payload x" "op_cancellable (f x) = op_cancellable x" "op_answered (f x) = op_answered x" "op_cancelled (f x) = op_cancelled x"
  shows "calm_op x (f x)"
  using assms by (auto simp: calm_op_def working_def in_context_def)

lemma same_open: "ok i \<Longrightarrow> same s (open_operation i s)"
  unfolding open_operation_def by (rule same_set, assumption, rule same_started) simp_all

lemma same_run: "ok i \<Longrightarrow> same s (run_operation i s)"
  unfolding run_operation_def by (rule same_set, assumption, rule same_started) simp_all

lemma same_outcome: "ok i \<Longrightarrow> same s (apply_login_outcome e i outcome s)"
  by (auto simp: apply_login_outcome_def same_refl same_run same_fail split: option.split pin_outcome.split
      intro: same_trans [OF same_invalidate same_fail])

lemma same_waiter:
  assumes ok: "ok i"
  shows "same s (finish_waiter e outcome i s)"
proof -
  have d: "same s (detach_waiter_cancel i s)"
    unfolding detach_waiter_cancel_def by (rule same_set [OF ok]) (simp add: calm_op_def working_def in_context_def)
  have r: "same t (op_set i (\<lambda>x. x\<lparr>op_retry_login := False\<rparr>) t)" for t
    by (rule same_set [OF ok]) (simp add: calm_op_def working_def in_context_def)
  show ?thesis
    using d same_trans [OF same_trans [OF d r] same_open [OF ok]] same_trans [OF d same_outcome [OF ok]]
    by (auto simp: finish_waiter_def Let_def split: option.split)
qed

lemma same_waiters: "\<forall>i\<in>set ws. ok i \<Longrightarrow> same s (fold (finish_waiter e outcome) ws s)"
  by (induction ws arbitrary: s) (auto simp: same_refl intro: same_trans [OF same_waiter])

lemma same_finish_login:
  assumes "\<forall>i\<in>set (waiters s). ok i"
  shows "same s (finish_login e s)"
proof (cases "os_interaction s")
  case (Some li)
  have "same s ((session_set (\<lambda>se. se\<lparr>se_login_in_progress := False, se_login_generation := se_login_generation se + 1,
      se_login_waiters := None\<rparr>) s)\<lparr>os_interaction := None\<rparr>)"
    by (rule same_trans [OF same_session same_fields(1)]) (rule quietI(4))
  from same_trans [OF this same_waiters [OF assms]] Some show ?thesis by (simp add: finish_login_def Let_def waiters_def)
qed (simp add: finish_login_def same_refl)

lemma same_pin_done: "\<forall>i\<in>set (waiters s). ok i \<Longrightarrow> same s (on_pin_done e outcome s)"
  by (auto simp: on_pin_done_def Let_def same_refl same_fields split: option.split intro!: same_trans [OF same_fields(1) same_finish_login])

lemma same_cancel_idle:
  assumes ok: "ok i"
  shows "same s (waiter_cancelled_idle i s)"
proof -
  have u: "same t (op_set i (\<lambda>x. x\<lparr>op_login_cancel_idle := False\<rparr>) t)" "same t (detach_waiter_cancel i t)" for t
    unfolding detach_waiter_cancel_def by (rule same_set [OF ok]; simp add: calm_op_def working_def in_context_def)+
  have w: "same t (session_set (\<lambda>se. se\<lparr>se_login_waiters := v\<rparr>) t)" for t v by (rule same_session [OF quietI(5)])
  have c: "same t (op_note Window_cancelled (t\<lparr>os_interaction := li\<rparr>))" for t li
    by (rule same_trans [OF same_fields(1) same_note]) (simp add: failure_note_def)
  let ?s1 = "op_set i (\<lambda>x. x\<lparr>op_login_cancel_idle := False\<rparr>) s"
  have f: "same s (operation_fail i err (detach_waiter_cancel i (session_set (\<lambda>se. se\<lparr>se_login_waiters := v\<rparr>) ?s1)))" for err v
    by (rule same_trans [OF same_trans [OF same_trans [OF u(1) w] u(2)] same_fail [OF ok]])
  show ?thesis
    using u(1) f same_trans [OF f c] unfolding waiter_cancelled_idle_def Let_def by (auto split: option.split)
qed

lemma same_cancel: "ok i \<Longrightarrow> same s (op_set i cancel_operation s)"
  by (rule same_set, assumption) (simp add: calm_op_def cancel_operation_def on_waiter_cancelled_def Let_def working_def in_context_def)

lemma same_task:
  assumes "\<not> working (f x)" "op_decrypt (f x) = op_decrypt x" "op_mechanism (f x) = op_mechanism x"
    "op_payload (f x) = op_payload x" "op_cancellable (f x) = op_cancellable x" "op_answered (f x) = op_answered x" "op_cancelled (f x) = op_cancelled x"
  shows "calm_op x (f x)"
  using assms by (auto simp: calm_op_def)

lemma same_open_check: "ok i \<Longrightarrow> same s (open_check e i s)"
  unfolding open_check_def by (rule same_set, assumption, rule same_task) (simp_all add: working_def in_context_def split: sum.split)

lemma same_sign_check: "ok i \<Longrightarrow> same s (sign_check e i s)"
  unfolding sign_check_def by (rule same_set, assumption, rule same_task) (simp_all add: working_def in_context_def split: sum.split)

lemma same_expired: "same s (on_lifetime_expired e s)"
  unfolding on_lifetime_expired_def by (rule same_trans [OF same_session [OF quietI(3)] same_invalidate])

lemma same_taken: "ok i \<Longrightarrow> same s (op_set i (\<lambda>x. x\<lparr>op_task := Task_none\<rparr>) s)"
  by (rule same_set, assumption, rule same_task) (simp_all add: working_def in_context_def)

lemma same_flag:
  assumes "ok i"
  shows "same s (op_set i (\<lambda>x. x\<lparr>op_retry_open := b\<rparr>) s)" "same s (op_set i (\<lambda>x. x\<lparr>op_retried_open := b\<rparr>) s)"
  "same s (op_set i (\<lambda>x. x\<lparr>op_retry_login := b\<rparr>) s)" "same s (op_set i (\<lambda>x. x\<lparr>op_context_outcome := out\<rparr>) s)"
  by (rule same_set [OF assms]; simp add: calm_op_def working_def in_context_def)+

lemma same_attach: "ok i \<Longrightarrow> same s (attach_waiter i s)"
  unfolding attach_waiter_def by (rule same_set, assumption) (simp add: calm_op_def on_waiter_cancelled_def working_def in_context_def)

lemma same_add_waiter: "same s (add_waiter i s)"
  unfolding add_waiter_def by (rule same_session [OF quietI(5)])

lemma same_invalidate_fail: "ok i \<Longrightarrow> same s (operation_fail i err (if b then xcc_session_invalidate e reason s else s))"
  by (simp add: same_fail same_trans [OF same_invalidate same_fail])

lemma same_on_opened:
  assumes ok: "ok i" and w: "\<forall>j\<in>set (waiters s). se_login_in_progress (os_session s) \<or> ok j"
  shows "same s (on_opened e i s)"
proof (cases "\<exists>x r. os_operations s i = Some x \<and> op_task x = Task_opened r")
  case True
  then obtain x r where x: "os_operations s i = Some x" "op_task x = Task_opened r" by blast
  let ?s0 = "op_set i (\<lambda>x. x\<lparr>op_task := Task_none\<rparr>) s"
  have wait: "same s (attach_waiter i (add_waiter i (op_set i (\<lambda>x. x\<lparr>op_retry_login := b\<rparr>) ?s0)))" for b
    by (rule same_trans [OF same_trans [OF same_trans [OF same_taken [OF ok] same_flag(3) [OF ok]] same_add_waiter] same_attach [OF ok]])
  have first: "same s (op_note (Login_prompt i q) (attach_waiter i
      ((session_set (\<lambda>se. se\<lparr>se_login_in_progress := True\<rparr>) (add_waiter i ?s0))\<lparr>os_interaction := li\<rparr>)))" for q li
    by (rule same_trans [OF same_trans [OF same_trans [OF same_trans [OF same_trans [OF same_taken [OF ok] same_add_waiter] same_session]
          same_fields(1)] same_attach [OF ok]] same_note]) (simp_all add: quietI(6) failure_note_def)
  have "same s (operation_fail i err ?s0)" for err by (rule same_trans [OF same_taken [OF ok] same_fail [OF ok]])
  moreover have "same s (operation_fail i err (xcc_session_invalidate e reason ?s0))" for err reason
    by (rule same_trans [OF same_taken [OF ok] same_trans [OF same_invalidate same_fail [OF ok]]])
  moreover have "same s (open_operation i ?s0)" "same s (run_operation i ?s0)"
    by (rule same_trans [OF same_taken [OF ok] same_open [OF ok]], rule same_trans [OF same_taken [OF ok] same_run [OF ok]])
  moreover have "same s (on_pin_done e out (op_note (Login_prompt i q) (attach_waiter i
      ((session_set (\<lambda>se. se\<lparr>se_login_in_progress := True\<rparr>) (add_waiter i ?s0))\<lparr>os_interaction := li\<rparr>))))" if "\<not> se_login_in_progress (os_session s)" for out q li
    using w that ok by (intro same_trans [OF first same_pin_done]) (auto simp: attach_waiter_def add_waiter_def waiters_def split: option.splits)
  ultimately show ?thesis
    using x wait first
    unfolding on_opened_def Let_def by (simp only: option.case op_task.case) (auto split: sum.split)
next
  case False
  then show ?thesis by (auto simp: on_opened_def same_refl split: option.split op_task.split)
qed

lemma same_on_signed:
  assumes ok: "ok i" and x: "os_operations s i = Some x" "op_task x = Task_signed r0"
    and fails: "\<And>v. task_propagate x r0 = Inr (Some v) \<Longrightarrow> op_retry_open x \<or> (wants_der x \<and> (\<exists>err. certificate_ecdsa_raw_to_der v = Inl err))"
  shows "same s (on_signed e i s)"
proof -
  define r where "r = task_propagate x r0"
  define s0 where "s0 = op_set i (\<lambda>x. x\<lparr>op_task := Task_none\<rparr>) s"
  define s1 where "s1 = op_set i (\<lambda>x. x\<lparr>op_retry_open := False\<rparr>) s0"
  have s0: "same s s0" unfolding s0_def by (rule same_taken [OF ok])
  have s1: "same s s1" unfolding s1_def by (rule same_trans [OF s0 same_flag(1) [OF ok]])
  have eq: "on_signed e i s = (if op_retry_open x \<and> (\<exists>v. r = Inr v)
      then (if op_retried_open x then operation_fail i (Error_pkcs11 CERTIFICATE_PKCS11_ERROR_FAILED) s1
            else open_operation i (op_set i (\<lambda>x. x\<lparr>op_retried_open := True\<rparr>) s1))
      else (case r of
         Inr (Some signature) \<Rightarrow>
           if wants_der x then (case certificate_ecdsa_raw_to_der signature of
               Inl err \<Rightarrow> operation_fail i (Error_io err) s0
             | Inr der \<Rightarrow> operation_succeed i der s0)
           else operation_succeed i signature s0
       | Inr None \<Rightarrow> s0
       | Inl err \<Rightarrow>
           if op_context_outcome x \<noteq> CERTIFICATE_PIN_OK then apply_login_outcome e i (op_context_outcome x) s0
           else operation_fail i err
             (if err = Error_pkcs11 CERTIFICATE_PKCS11_ERROR_TOKEN_REMOVED then xcc_session_invalidate e ''token_removed'' s0
              else s0)))"
    by (simp only: on_signed_def x option.case op_task.case Let_def r_def [symmetric] s0_def [symmetric] s1_def [symmetric] wants_der_def)
  show ?thesis
  proof (cases "op_retry_open x \<and> (\<exists>v. r = Inr v)")
    case True
    show ?thesis unfolding eq if_P [OF True]
      using same_trans [OF s1 same_fail [OF ok]] same_trans [OF same_trans [OF s1 same_flag(2) [OF ok]] same_open [OF ok]] by simp
  next
    case False
    note eq = eq [unfolded if_not_P [OF False]]
    show ?thesis
    proof (cases r)
      case (Inl err)
      then show ?thesis unfolding eq
        using same_trans [OF s0 same_outcome [OF ok, of _ e]] same_trans [OF s0 same_fail [OF ok]]
          same_trans [OF s0 same_trans [OF same_invalidate [of _ e] same_fail [OF ok]]] by simp
    next
      case (Inr o')
      show ?thesis
      proof (cases o')
        case None
        then show ?thesis unfolding eq using Inr s0 by simp
      next
        case (Some v)
        with fails [of v] Inr False obtain err where "wants_der x" "certificate_ecdsa_raw_to_der v = Inl err"
          by (auto simp: r_def)
        then show ?thesis unfolding eq using Inr Some same_trans [OF s0 same_fail [OF ok]] by simp
      qed
    qed
  qed
qed

end

text \<open>The functions that use the device, where a change of it does not matter.\<close>

locale op_frame_device = op_frame +
  assumes same_device: "same s (device_set d s)"
begin

lemma same_do_login: "same s (do_login D ts e pin s)"
  unfolding do_login_def
  by (auto simp: same_refl same_device split: option.split prod.split sum.split intro!: same_trans [OF same_device same_fields(1)])

lemma same_release_login: "same s (release_login D e s)"
  unfolding release_login_def by (auto simp: same_refl split: option.split intro!: same_trans [OF same_device same_fields(1)])

lemma same_released: "same s ((device_set d s)\<lparr>os_releases := n\<rparr>)"
  by (rule same_trans [OF same_device same_fields(2)])

lemma same_context_login: "same s (do_context_login D e i pin s)"
  unfolding do_context_login_def by (auto simp: same_refl same_device split: option.split op_task.split)

lemma same_open_thread:
  assumes ok: "ok i"
  shows "same s (open_thread D ts e i s)"
proof -
  have "same t (op_set i (\<lambda>x. x\<lparr>op_task := Task_opened r\<rparr>) t)" for t r
    by (rule same_set [OF ok], rule same_task) (simp_all add: working_def in_context_def)
  from this same_trans [OF same_device this] show ?thesis
    unfolding open_thread_def by (auto simp: same_refl split: option.split prod.split sum.split)
qed

end

definition calm :: "op_state \<Rightarrow> op_state \<Rightarrow> bool" where
  "calm s t \<longleftrightarrow> (\<exists>l. os_log t = l @ os_log s \<and> list_all failure_note l) \<and> os_next t = os_next s \<and>
     grant_part (os_session t) = grant_part (os_session s) \<and> (se_closed (os_session s) \<longrightarrow> se_closed (os_session t)) \<and>
     (\<forall>i. rel_option calm_op (os_operations s i) (os_operations t i))"

lemma calm_op_refl [simp]: "calm_op x x"
  by (simp add: calm_op_def)

lemma calm_op_trans: "calm_op x y \<Longrightarrow> calm_op y z \<Longrightarrow> calm_op x z"
  unfolding calm_op_def working_def in_context_def by auto

lemma calm_operations: "calm s t \<Longrightarrow> os_operations t i = Some y \<Longrightarrow> \<exists>x. os_operations s i = Some x \<and> calm_op x y"
  unfolding calm_def by (metis option_rel_Some2)

lemma calm_trans:
  assumes "calm s t" "calm t u"
  shows "calm s u"
proof -
  have "rel_option calm_op (os_operations s i) (os_operations u i)" for i
  proof -
    have "rel_option calm_op (os_operations s i) (os_operations t i)" "rel_option calm_op (os_operations t i) (os_operations u i)"
      using assms by (simp_all add: calm_def)
    then show ?thesis using calm_op_trans
      by (cases "os_operations s i"; cases "os_operations t i"; cases "os_operations u i") auto
  qed
  moreover from assms obtain l m where "os_log t = l @ os_log s" "list_all failure_note l" "os_log u = m @ os_log t" "list_all failure_note m"
    by (auto simp: calm_def)
  then have "os_log u = (m @ l) @ os_log s \<and> list_all failure_note (m @ l)" by simp
  then have "\<exists>l. os_log u = l @ os_log s \<and> list_all failure_note l" by blast
  ultimately show ?thesis using assms by (simp add: calm_def)
qed

lemma rel_option_same [simp]: "rel_option calm_op x x"
  by (cases x) simp_all

interpretation calm: op_frame_device calm "\<lambda>_. True"
proof unfold_locales
  show "calm s t \<Longrightarrow> calm t u \<Longrightarrow> calm s u" for s t u by (rule calm_trans)
  show "calm s (op_set i f s)" if "\<And>x. os_operations s i = Some x \<Longrightarrow> calm_op x (f x)" for s i f
    using that by (cases "os_operations s i") (auto simp: calm_def)
  show "calm s (s\<lparr>os_operations := \<lambda>i. map_option f (os_operations s i)\<rparr>)" if "\<And>x. calm_op x (f x) \<and> op_task (f x) = op_task x" for s f
  proof -
    have "rel_option calm_op (os_operations s i) (map_option f (os_operations s i))" for i
      using that by (cases "os_operations s i") simp_all
    then show ?thesis by (simp add: calm_def)
  qed
  show "calm s (session_set g s)" if "quiet g" for s g
    using that by (simp add: calm_def quiet_def)
qed (auto simp: calm_def grant_part_def)

definition device_same :: "op_state \<Rightarrow> op_state \<Rightarrow> bool" where
  "device_same s t \<longleftrightarrow> se_device (os_session t) = se_device (os_session s)"

interpretation device: op_frame device_same "\<lambda>_. True"
  by unfold_locales (simp_all add: device_same_def quiet_def)

definition untouched :: "nat \<Rightarrow> op_state \<Rightarrow> op_state \<Rightarrow> bool" where
  "untouched j s t \<longleftrightarrow> map_option op_task (os_operations t j) = map_option op_task (os_operations s j)"

interpretation untouched: op_frame_device "untouched j" "\<lambda>i. i \<noteq> j" for j
  by unfold_locales (auto simp: untouched_def option.map_comp comp_def)

lemma on_signed_cases:
  assumes x: "os_operations s i = Some x" "op_task x = Task_signed r0"
  obtains (calm) "calm s (on_signed e i s)" "device_same s (on_signed e i s)" "\<And>j. j \<noteq> i \<Longrightarrow> untouched j s (on_signed e i s)"
  | (result) v result where "r0 = Inr (Some v)" "\<not> op_is_cancelled x"
      "on_signed e i s = operation_succeed i result (op_set i (\<lambda>x. x\<lparr>op_task := Task_none\<rparr>) s)"
      "result = v \<or> certificate_ecdsa_raw_to_der v = Inr result"
proof (cases "\<exists>v. task_propagate x r0 = Inr (Some v) \<and> \<not> op_retry_open x \<and>
    (wants_der x \<longrightarrow> (\<exists>der. certificate_ecdsa_raw_to_der v = Inr der))")
  case True
  then obtain v where v: "task_propagate x r0 = Inr (Some v)" "\<not> op_retry_open x"
    "wants_der x \<longrightarrow> (\<exists>der. certificate_ecdsa_raw_to_der v = Inr der)" by blast
  then have r: "r0 = Inr (Some v)" "\<not> op_is_cancelled x" by (auto simp: task_propagate_def split: if_splits)
  show ?thesis
  proof (cases "wants_der x")
    case True
    with v obtain der where "certificate_ecdsa_raw_to_der v = Inr der" by blast
    then show ?thesis using x v True r by (intro result [of v der]) (simp_all add: on_signed_def Let_def wants_der_def)
  next
    case False
    then show ?thesis using x v r by (intro result [of v v]) (auto simp: on_signed_def Let_def wants_der_def)
  qed
next
  case False
  then have f: "op_retry_open x \<or> (wants_der x \<and> (\<exists>err. certificate_ecdsa_raw_to_der v = Inl err))" if "task_propagate x r0 = Inr (Some v)" for v
    using that by (cases "certificate_ecdsa_raw_to_der v") auto
  show ?thesis by (rule calm) (rule calm.same_on_signed [OF TrueI x f] device.same_on_signed [OF TrueI x f] untouched.same_on_signed [OF not_sym x f], assumption)+
qed

end
