(* ===== verification/OperationGuarantees.thy ===== *)
theory OperationGuarantees
  imports OperationFrames
begin

text \<open>
  The properties of the operations of a session (\<open>Operations\<close>): when the token is put to work, what a
  caller may receive, how many decryptions a grant allows, and that closing a session settles every
  operation.
\<close>

section \<open>The device of a grant\<close>

text \<open>The device is open for the grant's candidate \<open>co\<close> only.\<close>

definition device_of :: "'w discovery_env \<Rightarrow> certificate_tokens \<Rightarrow> certificate_candidate option \<Rightarrow> certificate_device \<Rightarrow> bool" where
  "device_of D ts co d \<longleftrightarrow> device_bound D ts d \<and> (dv_candidate d = None \<or> dv_candidate d = co)"

lemma device_of_closed: "device_of D ts co d \<Longrightarrow> dv_module d = None \<Longrightarrow> device_of D ts co' d"
  by (simp add: device_of_def device_bound_def)

lemma device_of_open_candidate: "device_of D ts co d \<Longrightarrow> dv_module d \<noteq> None \<Longrightarrow> dv_candidate d = co"
  by (auto simp: device_of_def device_bound_def)

lemma find_candidate: "find_private_key D md d c w = (d', w') \<Longrightarrow> dv_candidate d' = dv_candidate d"
  by (auto simp: find_private_key_def split: prod.splits sum.splits list.splits)

lemma close_candidate: "certificate_device_close D d w = (d', w') \<Longrightarrow> dv_candidate d' = None \<and> dv_module d' = None"
  by (auto simp: certificate_device_close_def split: option.splits)

lemma refresh_candidate:
  assumes "certificate_device_refresh_login D d w = ((d', w'), r)"
  shows "dv_candidate d' = dv_candidate d"
proof (cases "dv_module d")
  case (Some md)
  obtain w1 rv info where g: "f_GetSessionInfo (d_functions D) md (dv_session d) w = (w1, rv, info)" by (rule prod_cases3)
  have n: "dv_candidate (device_note_login b d) = dv_candidate d" for b by (simp add: device_note_login_def)
  show ?thesis
    using assms Some g n find_candidate [of D md _ _ w1 d' w']
    by (auto simp: certificate_device_refresh_login_def Let_def split: if_splits option.splits)
qed (use assms in \<open>simp add: certificate_device_refresh_login_def\<close>)

lemma device_of_close:
  assumes "device_of D ts co d"
  shows "device_of D ts co (fst (certificate_device_close D d w))" "dv_module (fst (certificate_device_close D d w)) = None"
proof -
  obtain d' w' where c: "certificate_device_close D d w = (d', w')" by fastforce
  with assms close_candidate [OF c] device_bound_close [OF c] show "device_of D ts co (fst (certificate_device_close D d w))"
    "dv_module (fst (certificate_device_close D d w)) = None" by (simp_all add: device_of_def)
qed

lemma device_of_refresh:
  assumes "certificate_device_refresh_login D d w = ((d', w'), r)" "device_of D ts co d"
  shows "device_of D ts co d'"
  using device_bound_refresh [OF assms(1)] refresh_candidate [OF assms(1)] assms(2) by (simp add: device_of_def)

lemma device_of_open:
  assumes "certificate_device_open D ts c d w = ((d', w'), r)" "device_of D ts (Some c) d"
  shows "device_of D ts (Some c) d'"
proof (cases "dv_module d \<noteq> None \<and> device_is_bound_to d c")
  case True
  with assms(1) have "certificate_device_refresh_login D d w = ((d', w'), r)" by (simp add: certificate_device_open_def)
  from device_of_refresh [OF this assms(2)] show ?thesis .
next
  case False
  obtain d1 w1 where d1: "(case dv_module d of None \<Rightarrow> (d, w) | Some _ \<Rightarrow> certificate_device_close D d w) = (d1, w1)" by fastforce
  have "device_of D ts (Some c) d1 \<and> dv_module d1 = None"
    using d1 device_of_close [OF assms(2), of w] assms(2) by (auto split: option.splits)
  then have c1: "dv_candidate d1 = None" by (auto simp: device_of_def device_bound_def)
  let ?d2 = "d1\<lparr>dv_private_key := CK_INVALID_HANDLE, dv_session := CK_INVALID_HANDLE\<rparr>"
  obtain w2 q where o: "certificate_tokens_open_session D ts (cd_token c) w1 = (w2, q)" by fastforce
  have F: "(dv_module d \<noteq> None \<and> device_is_bound_to d c) = False" using False by simp
  note eq = certificate_device_open_def [of D ts c d w, unfolded F if_False d1 Let_def prod.case o]
  have "dv_candidate d' = None \<or> dv_candidate d' = Some c"
  proof (cases q)
    case (Inl err)
    with assms(1) eq c1 show ?thesis by auto
  next
    case (Inr ms)
    obtain md session where ms: "ms = (md, session)" by (cases ms)
    let ?d3 = "?d2\<lparr>dv_module := Some md, dv_session := session, dv_logged_in := False, dv_candidate := Some c\<rparr>"
    obtain d4 w3 where f: "find_private_key D md ?d3 c w2 = (d4, w3)" by fastforce
    from assms(1) eq Inr ms f have "certificate_device_refresh_login D d4 w3 = ((d', w'), r)" by simp
    from refresh_candidate [OF this] find_candidate [OF f] show ?thesis by simp
  qed
  moreover have "device_bound D ts d'" using device_bound_open [OF assms(1)] assms(2) by (simp add: device_of_def)
  ultimately show ?thesis by (simp add: device_of_def)
qed

lemma device_of_login:
  assumes "certificate_device_login D c pin d w = ((d', w'), r)" "device_of D ts (Some c) d"
  shows "device_of D ts (Some c) d'"
proof (cases "dv_module d")
  case (Some md)
  have b: "device_bound D ts d" using assms(2) by (simp add: device_of_def)
  have c: "dv_candidate d = Some c" using device_of_open_candidate [OF assms(2)] Some by simp
  have "device_bound D ts d'" by (rule device_bound_login [OF assms(1) b device_bound_candidate [OF b Some c]])
  moreover obtain w1 rv where l: "f_Login (d_functions D) md (dv_session d) CKU_USER pin w = (w1, rv)" by fastforce
  then have "dv_candidate d' = dv_candidate d"
    using assms(1) Some find_candidate [of D md _ c w1 d' w'] by (auto simp: certificate_device_login_def Let_def split: if_splits)
  ultimately show ?thesis using assms(2) by (simp add: device_of_def)
qed (use assms in \<open>auto simp: certificate_device_login_def\<close>)


section \<open>The invariant of a grant\<close>

definition performed :: "op_effect list \<Rightarrow> nat list" where
  "performed log = concat (map (\<lambda>x. case x of Performing i d b m p \<Rightarrow> [i] | _ \<Rightarrow> []) log)"

text \<open>An operation that will not come to the token again.\<close>

definition spent :: "operation \<Rightarrow> bool" where
  "spent x \<longleftrightarrow> op_answered x \<or> in_context x \<or> (\<exists>r. op_task x = Task_signed r \<and> r \<noteq> Inr None)"

definition decrypts :: "op_state \<Rightarrow> nat set" where
  "decrypts s = {i. \<exists>x. os_operations s i = Some x \<and> op_decrypt x}"

text \<open>A use of the token in the log: by the request of an operation, on a device open for the grant's candidate.\<close>

definition use_ok :: "certificate_candidate option \<Rightarrow> (nat \<Rightarrow> operation option) \<Rightarrow> op_effect \<Rightarrow> bool" where
  "use_ok co ops x \<longleftrightarrow> (case x of
     Performing i d b m p \<Rightarrow> dv_candidate d = co \<and>
       (\<exists>x. ops i = Some x \<and> b = op_decrypt x \<and> m = op_mechanism x \<and> p = op_payload x \<and> spent x)
   | _ \<Rightarrow> True)"

definition idle_ok :: "op_state \<Rightarrow> bool" where
  "idle_ok s \<longleftrightarrow> (os_next s = 0 \<longrightarrow> os_interaction s = None \<and> dv_module (se_device (os_session s)) = None) \<and>
     (os_next s \<noteq> 0 \<longrightarrow> se_granted (os_session s) \<and> \<not> se_grant_pending (os_session s))"

definition count_ok :: "op_state \<Rightarrow> bool" where
  "count_ok s \<longleftrightarrow> card (decrypts s) = unat (se_decrypt_count (os_session s)) \<and> card (decrypts s) \<le> unat CERTIFICATE_MAX_DECRYPTS_PER_GRANT"

definition uses_ok :: "op_state \<Rightarrow> bool" where
  "uses_ok s \<longleftrightarrow> distinct (performed (os_log s)) \<and> list_all (use_ok (se_candidate (os_session s)) (os_operations s)) (os_log s) \<and>
     (\<forall>i x. os_operations s i = Some x \<longrightarrow> working x \<longrightarrow> i \<in> set (performed (os_log s)))"

definition grant_inv :: "'w discovery_env \<Rightarrow> certificate_tokens \<Rightarrow> op_state \<Rightarrow> bool" where
  "grant_inv D ts s \<longleftrightarrow> idle_ok s \<and> device_of D ts (se_candidate (os_session s)) (se_device (os_session s)) \<and>
     (\<forall>i x. os_operations s i = Some x \<longrightarrow> op_permitted (os_session s) x) \<and> count_ok s \<and> uses_ok s"

lemma calm_op_working:
  assumes "calm_op x y" "working y"
  shows "working x"
proof -
  from assms have "op_task y = op_task x" by (simp add: calm_op_def)
  with assms(2) show ?thesis by (simp add: working_def in_context_def)
qed

lemma performed_simps [simp]:
  "performed [] = []"
  "performed (x # l) = (case x of Performing i d b m p \<Rightarrow> [i] | _ \<Rightarrow> []) @ performed l"
  "performed (l @ m) = performed l @ performed m"
  by (simp_all add: performed_def)

lemma performed_iff: "i \<in> set (performed l) \<longleftrightarrow> (\<exists>d b m p. Performing i d b m p \<in> set l)"
  by (induction l) (auto split: op_effect.splits)

lemma failure_notes: "list_all failure_note l \<Longrightarrow> performed l = [] \<and> list_all (use_ok co ops) l"
  by (induction l) (auto simp: failure_note_def use_ok_def split: op_effect.splits)

lemma use_ok_cong:
  assumes "list_all (use_ok co ops) l"
    and "\<And>i x. ops i = Some x \<Longrightarrow> spent x \<Longrightarrow> \<exists>y. ops' i = Some y \<and> op_decrypt y = op_decrypt x \<and> op_mechanism y = op_mechanism x \<and>
      op_payload y = op_payload x \<and> spent y"
  shows "list_all (use_ok co ops') l"
proof -
  have "use_ok co ops' e" if u: "use_ok co ops e" for e
  proof (cases e)
    case (Performing i d b m p)
    with u obtain x where "dv_candidate d = co" "ops i = Some x" "b = op_decrypt x" "m = op_mechanism x" "p = op_payload x" "spent x"
      by (auto simp: use_ok_def)
    with assms(2) [of i x] show ?thesis by (auto simp: use_ok_def Performing)
  qed (simp_all add: use_ok_def)
  with assms(1) show ?thesis by (simp add: list_all_iff)
qed

lemma op_permitted_cong:
  assumes "op_permitted se x" "se_candidate se' = se_candidate se" "se_may_sign se' = se_may_sign se" "se_may_decrypt se' = se_may_decrypt se"
    "op_decrypt y = op_decrypt x" "op_mechanism y = op_mechanism x" "op_payload y = op_payload x"
  shows "op_permitted se' y"
  using assms by (simp add: op_permitted_def)

text \<open>A calm step keeps the invariant when the device does and no spent operation is taken up again.\<close>

lemma grant_inv_calm:
  assumes g: "grant_inv D ts s" and c: "calm s t"
    and d: "device_of D ts (se_candidate (os_session s)) (se_device (os_session t))"
    and z: "os_next s = 0 \<Longrightarrow> os_interaction t = None \<and> dv_module (se_device (os_session t)) = None"
    and sp: "\<And>i x. os_operations s i = Some x \<Longrightarrow> spent x \<Longrightarrow> \<not> op_answered x \<Longrightarrow> \<exists>y. os_operations t i = Some y \<and> spent y"
  shows "grant_inv D ts t"
proof -
  have gp: "grant_part (os_session t) = grant_part (os_session s)" and n: "os_next t = os_next s"
    and rel: "rel_option calm_op (os_operations s i) (os_operations t i)" for i using c by (auto simp: calm_def)
  have se: "se_candidate (os_session t) = se_candidate (os_session s)" "se_granted (os_session t) = se_granted (os_session s)"
    "se_grant_pending (os_session t) = se_grant_pending (os_session s)" "se_may_sign (os_session t) = se_may_sign (os_session s)"
    "se_may_decrypt (os_session t) = se_may_decrypt (os_session s)" "se_decrypt_count (os_session t) = se_decrypt_count (os_session s)"
    using gp by (simp_all add: grant_part_def)
  have earlier: "\<exists>x. os_operations s i = Some x \<and> calm_op x y" if "os_operations t i = Some y" for i y
    using calm_operations [OF c that] .
  have later: "\<exists>y. os_operations t i = Some y \<and> calm_op x y" if "os_operations s i = Some x" for i x
    using rel [of i] that by (metis option_rel_Some1)
  have dec: "decrypts t = decrypts s" unfolding decrypts_def using earlier later by (auto simp: calm_op_def) (metis+)
  obtain l where l: "os_log t = l @ os_log s" "list_all failure_note l" using c by (auto simp: calm_def)
  have spent: "\<exists>y. os_operations t i = Some y \<and> op_decrypt y = op_decrypt x \<and> op_mechanism y = op_mechanism x \<and>
      op_payload y = op_payload x \<and> spent y" if x: "os_operations s i = Some x" and xs: "spent x" for i x
  proof -
    obtain y where y: "os_operations t i = Some y" "calm_op x y" using later [OF x] by blast
    have "spent y"
    proof (cases "op_answered x")
      case True
      then show ?thesis using y(2) by (simp add: calm_op_def spent_def)
    next
      case False
      from sp [OF x xs this] y(1) show ?thesis by simp
    qed
    with y show ?thesis by (auto simp: calm_op_def)
  qed
  have "uses_ok t"
  proof -
    from g have u: "uses_ok s" by (simp add: grant_inv_def)
    have "i \<in> set (performed (os_log s))" if iy: "os_operations t i = Some y" and wy: "working y" for i y
    proof -
      obtain x where x: "os_operations s i = Some x" "calm_op x y" using earlier [OF iy] by blast
      then have "working x" using wy calm_op_working by blast
      with u x(1) show ?thesis by (auto simp: uses_ok_def)
    qed
    moreover have "list_all (use_ok (se_candidate (os_session s)) (os_operations t)) (os_log s)"
      by (rule use_ok_cong [where ops = "os_operations s"]) (use u spent in \<open>auto simp: uses_ok_def\<close>)
    ultimately show ?thesis using u failure_notes [OF l(2)] by (auto simp: uses_ok_def l(1) se)
  qed
  moreover have "\<forall>i y. os_operations t i = Some y \<longrightarrow> op_permitted (os_session t) y"
  proof (intro allI impI)
    fix i y assume y: "os_operations t i = Some y"
    obtain x where x: "os_operations s i = Some x" "calm_op x y" using earlier [OF y] by blast
    from g x(1) have p: "op_permitted (os_session s) x" by (simp add: grant_inv_def)
    show "op_permitted (os_session t) y"
      by (rule op_permitted_cong [OF p se(1,4,5)]) (use x(2) in \<open>simp_all add: calm_op_def\<close>)
  qed
  moreover from g have "idle_ok s" "count_ok s" by (simp_all add: grant_inv_def)
  then have "idle_ok t" "count_ok t" using z by (simp_all add: idle_ok_def count_ok_def n se dec)
  ultimately show ?thesis using d by (simp add: grant_inv_def se)
qed

text \<open>A step of one operation.\<close>

lemma grant_inv_one:
  assumes g: "grant_inv D ts s" and x: "os_operations s i = Some x" and n: "os_next s \<noteq> 0" "os_next t = os_next s"
    and t: "os_operations t = (os_operations s)(i \<mapsto> y)" "grant_part (os_session t) = grant_part (os_session s)"
    and y: "op_decrypt y = op_decrypt x" "op_mechanism y = op_mechanism x" "op_payload y = op_payload x" "spent x \<longrightarrow> spent y"
    and d: "device_of D ts (se_candidate (os_session s)) (se_device (os_session t))"
    and l: "os_log t = l @ os_log s" "list_all (use_ok (se_candidate (os_session s)) ((os_operations s)(i \<mapsto> y))) l"
      "performed l = [] \<or> performed l = [i] \<and> \<not> spent x" "working y \<longrightarrow> working x \<or> performed l = [i]"
  shows "grant_inv D ts t"
proof -
  have se: "se_candidate (os_session t) = se_candidate (os_session s)" "se_granted (os_session t) = se_granted (os_session s)"
    "se_grant_pending (os_session t) = se_grant_pending (os_session s)" "se_may_sign (os_session t) = se_may_sign (os_session s)"
    "se_may_decrypt (os_session t) = se_may_decrypt (os_session s)" "se_decrypt_count (os_session t) = se_decrypt_count (os_session s)"
    using t(2) by (simp_all add: grant_part_def)
  have u: "uses_ok s" and p: "op_permitted (os_session s) x" using g x by (simp_all add: grant_inv_def)
  have dec: "decrypts t = decrypts s" unfolding decrypts_def t(1) using x y(1) by auto
  have fresh: "i \<notin> set (performed (os_log s))" if "\<not> spent x"
    using u that x by (auto simp: uses_ok_def performed_iff list_all_iff use_ok_def split: op_effect.splits)
  have "op_permitted (os_session t) z" if "os_operations t j = Some z" for j z
  proof (cases "j = i")
    case True
    show ?thesis by (rule op_permitted_cong [OF p se(1,4,5)]) (use that t(1) True y in simp_all)
  next
    case False
    then have "op_permitted (os_session s) z" using that t(1) g by (simp add: grant_inv_def)
    then show ?thesis by (rule op_permitted_cong) (simp_all add: se)
  qed
  moreover have "list_all (use_ok (se_candidate (os_session s)) (os_operations t)) (os_log s)"
    by (rule use_ok_cong [where ops = "os_operations s"]) (use u x y t(1) in \<open>auto simp: uses_ok_def\<close>)
  with u l fresh x t(1) have "uses_ok t" by (auto simp: uses_ok_def se split: if_splits)
  moreover from g have "idle_ok s" "count_ok s" by (simp_all add: grant_inv_def)
  then have "idle_ok t" "count_ok t" using n by (simp_all add: idle_ok_def count_ok_def se dec)
  ultimately show ?thesis using d by (simp add: grant_inv_def se)
qed

text \<open>Before an operation is accepted.\<close>

lemma grant_inv_idle:
  assumes g: "grant_inv D ts s" and inv: "op_inv {} s" and n: "os_next s = 0"
    and f: "se_device (f (os_session s)) = se_device (os_session s)" "se_decrypt_count (f (os_session s)) \<in> {0, se_decrypt_count (os_session s)}"
  shows "grant_inv D ts (session_set f s)"
proof -
  have none: "os_operations s i = None" for i
    using op_atD(1) [OF inv, of i] n by (cases "os_operations s i") auto
  have dec: "decrypts (session_set f s) = {}" "decrypts s = {}" by (simp_all add: decrypts_def none)
  from g have u: "uses_ok s" "idle_ok s" "count_ok s" by (simp_all add: grant_inv_def)
  then have "list_all (use_ok co (os_operations s)) (os_log s)" for co
    by (auto simp: uses_ok_def list_all_iff use_ok_def none split: op_effect.splits)
  then have "uses_ok (session_set f s)" using u(1) by (simp add: uses_ok_def none)
  moreover have "idle_ok (session_set f s)" using u(2) n f(1) by (simp add: idle_ok_def)
  moreover have "count_ok (session_set f s)" using u(3) f(2) dec by (auto simp: count_ok_def)
  moreover have "device_of D ts (se_candidate (f (os_session s))) (se_device (os_session s))"
    using g u(2) n by (auto simp: grant_inv_def idle_ok_def intro: device_of_closed)
  ultimately show ?thesis using f(1) none by (simp add: grant_inv_def)
qed

lemma grant_inv_perform:
  assumes g: "grant_inv D ts s" and inv: "op_inv {} s"
  shows "grant_inv D ts (certificate_broker_perform e r s)"
proof (cases rule: perform_cases [of e r s])
  case (refused err)
  have "calm s (op_note (Op_refused err) s)" by (rule calm.same_note) (simp add: failure_note_def)
  then show ?thesis unfolding refused
    by (rule grant_inv_calm [OF g]) (use g in \<open>auto simp: grant_inv_def idle_ok_def\<close>)
next
  case (accepted c mechanism payload)
  define x where "x = \<lparr>op_decrypt = or_decrypt r, op_mechanism = mechanism, op_payload = payload,
             op_parent_window = or_parent_window r, op_caller_display = or_caller_display r,
             op_purpose_display = (if se_generic_purpose (os_session s) then ''use a certificate''
               else certificate_purpose_display (se_purpose (os_session s))),
             op_cancellable = or_cancellable r, op_cancelled = or_cancelled r, op_answered = False,
             op_login_cancel_id = False, op_login_cancel_idle = False,
             op_context_outcome = CERTIFICATE_PIN_OK, op_retry_open = False, op_retried_open = False,
             op_retry_login = False, op_open_login_generation = se_login_generation (os_session s), op_task = Task_open\<rparr>"
  define t where "t = certificate_broker_perform e r s"
  have t: "t = session_set (\<lambda>se. if or_decrypt r then se\<lparr>se_decrypt_count := se_decrypt_count se + 1\<rparr> else se)
      (s\<lparr>os_next := os_next s + 1, os_operations := (os_operations s)(os_next s \<mapsto> x)\<rparr>)"
    unfolding t_def accepted(10) x_def by simp
  have none: "os_operations s (os_next s) = None"
    using op_atD(1) [OF inv, of "os_next s"] by (cases "os_operations s (os_next s)") auto
  have ops: "os_operations t = (os_operations s)(os_next s \<mapsto> x)" "os_next t \<noteq> 0" "os_log t = os_log s" by (simp_all add: t)
  have se: "se_candidate (os_session t) = se_candidate (os_session s)" "se_granted (os_session t) = se_granted (os_session s)"
    "se_grant_pending (os_session t) = se_grant_pending (os_session s)" "se_may_sign (os_session t) = se_may_sign (os_session s)"
    "se_may_decrypt (os_session t) = se_may_decrypt (os_session s)" "se_device (os_session t) = se_device (os_session s)"
    "se_decrypt_count (os_session t) = (if or_decrypt r then se_decrypt_count (os_session s) + 1 else se_decrypt_count (os_session s))"
    by (simp_all add: t)
  have dec: "decrypts t = (if or_decrypt r then insert (os_next s) (decrypts s) else decrypts s)"
    unfolding decrypts_def ops(1) using none by (auto simp: x_def)
  have "decrypts s \<subseteq> {..<os_next s}" unfolding decrypts_def using op_atD(1) [OF inv] by auto
  then have fin: "finite (decrypts s)" "os_next s \<notin> decrypts s" by (auto intro: finite_subset)
  from g have u: "uses_ok s" "idle_ok s" "count_ok s" by (simp_all add: grant_inv_def)
  have "count_ok t"
  proof (cases "or_decrypt r")
    case True
    with accepted(6) have "unat (se_decrypt_count (os_session s)) < 32"
      by (simp add: certificate_broker_decrypts_spent_def word_le_nat_alt)
    moreover from this have "unat (se_decrypt_count (os_session s) + 1) = unat (se_decrypt_count (os_session s)) + 1"
      by (simp add: unat_word_ariths)
    ultimately show ?thesis using u(3) True fin by (simp add: count_ok_def dec se)
  qed (use u(3) in \<open>simp add: count_ok_def dec se\<close>)
  moreover have "op_permitted (os_session t) z" if "os_operations t j = Some z" for j z
  proof (cases "j = os_next s")
    case True
    with that ops(1) have "z = x" by simp
    have "if op_decrypt x then se_may_decrypt (os_session t) else se_may_sign (os_session t)" using accepted(7) by (simp add: x_def se)
    moreover have "se_candidate (os_session t) = Some c \<and>
        certificate_mechanism_parse (or_mechanism_name r) (or_parameters r) (cd_key_type c) (cd_key_size c) (op_decrypt x) = Inr (op_mechanism x) \<and>
        certificate_mechanism_prepare (op_mechanism x) (or_data r) = Inr (op_payload x)" using accepted(2,8,9) by (simp add: x_def se)
    ultimately show ?thesis unfolding op_permitted_def \<open>z = x\<close> by blast
  next
    case False
    then have "op_permitted (os_session s) z" using that ops(1) g by (simp add: grant_inv_def)
    then show ?thesis by (rule op_permitted_cong) (simp_all add: se)
  qed
  moreover have "list_all (use_ok (se_candidate (os_session s)) (os_operations t)) (os_log s)"
    by (rule use_ok_cong [where ops = "os_operations s"]) (use u(1) none ops(1) in \<open>auto simp: uses_ok_def\<close>)
  then have "uses_ok t" using u(1) by (auto simp: uses_ok_def se ops x_def working_def in_context_def)
  moreover have "idle_ok t" using ops(2) accepted(1,3) by (simp add: idle_ok_def se)
  ultimately have "grant_inv D ts t" using g by (simp add: grant_inv_def se)
  then show ?thesis by (simp add: t_def)
qed

text \<open>Steps that take up an operation which has not come to the token.\<close>

lemma spent_untouched:
  assumes "os_operations s j = Some x" "spent x" "\<not> op_answered x" "untouched j s t"
  shows "\<exists>y. os_operations t j = Some y \<and> spent y"
proof -
  from assms obtain y where "os_operations t j = Some y" "op_task y = op_task x"
    by (auto simp: untouched_def)
  with assms(2,3) show ?thesis by (simp add: spent_def in_context_def)
qed

lemma operation_next: "op_inv X s \<Longrightarrow> os_operations s i = Some x \<Longrightarrow> os_next s \<noteq> 0"
  using op_atD(1) [of X s i x] by simp

lemma grant_inv_task:
  assumes g: "grant_inv D ts s" and inv: "op_inv {} s" and x: "os_operations s i = Some x" "spent x \<longrightarrow> op_answered x"
    and c: "calm s t" "\<And>j. j \<noteq> i \<Longrightarrow> untouched j s t" and d: "device_of D ts (se_candidate (os_session s)) (se_device (os_session t))"
  shows "grant_inv D ts t"
proof (rule grant_inv_calm [OF g c(1) d])
  show "\<exists>z. os_operations t j = Some z \<and> spent z" if "os_operations s j = Some y" "spent y" "\<not> op_answered y" for j y
    using spent_untouched [OF that c(2)] that x by (cases "j = i") auto
qed (use operation_next [OF inv x(1)] in simp_all)

lemma grant_inv_login:
  assumes g: "grant_inv D ts s" and inv: "op_inv {} s" and li: "os_interaction s \<noteq> None"
    and c: "calm s t" "\<And>j. j \<notin> set (waiters s) \<Longrightarrow> untouched j s t" and d: "device_of D ts (se_candidate (os_session s)) (se_device (os_session t))"
  shows "grant_inv D ts t"
proof (rule grant_inv_calm [OF g c(1) d])
  show "\<exists>z. os_operations t j = Some z \<and> spent z" if y: "os_operations s j = Some y" "spent y" "\<not> op_answered y" for j y
  proof -
    have "op_task y \<noteq> Task_none" using y(2,3) by (auto simp: spent_def in_context_def)
    then show ?thesis using spent_untouched [OF y c(2)] task_out(3) [OF inv y(1)] by blast
  qed
qed (use g li in \<open>simp_all add: grant_inv_def idle_ok_def\<close>)

lemma grant_device: "grant_inv D ts s \<Longrightarrow> device_same s t \<Longrightarrow> device_of D ts (se_candidate (os_session s)) (se_device (os_session t))"
  by (simp add: grant_inv_def device_same_def)

lemma no_login_no_waiters: "op_inv X s \<Longrightarrow> \<not> se_login_in_progress (os_session s) \<Longrightarrow> waiters s = []"
  using op_invD(3) [of X s] by (auto simp: login_ok_def login_fields_def waiters_def split: option.splits)

lemma open_thread_device:
  assumes "device_of D ts (se_candidate (os_session s)) (se_device (os_session s))"
  shows "device_of D ts (se_candidate (os_session s)) (se_device (os_session (open_thread D ts e i s)))"
proof (cases "os_operations s i = None \<or> se_candidate (os_session s) = None")
  case False
  then obtain x c where x: "os_operations s i = Some x" "se_candidate (os_session s) = Some c" by auto
  obtain d1 w1 r where o: "certificate_device_open D ts c (se_device (os_session s)) (oe_world e) = ((d1, w1), r)"
    by (metis prod.exhaust)
  from device_of_open [OF o] assms x(2) have "device_of D ts (Some c) d1" by simp
  then show ?thesis using assms x o by (simp add: open_thread_def ensure_session_locked_def split: sum.split)
qed (use assms in \<open>auto simp: open_thread_def split: option.split\<close>)

lemma do_login_device:
  assumes "device_of D ts (se_candidate (os_session s)) (se_device (os_session s))"
  shows "device_of D ts (se_candidate (os_session s)) (se_device (os_session (do_login D ts e pin s)))"
proof (cases "os_interaction s = None \<or> se_candidate (os_session s) = None")
  case False
  then obtain li c where x: "os_interaction s = Some li" "se_candidate (os_session s) = Some c" by auto
  obtain d1 w1 r where o: "certificate_device_open D ts c (se_device (os_session s)) (oe_world e) = ((d1, w1), r)"
    by (metis prod.exhaust)
  obtain d2 w2 q where l: "certificate_device_login D c pin d1 w1 = ((d2, w2), q)" by (metis prod.exhaust)
  from device_of_open [OF o] assms x(2) have d: "device_of D ts (Some c) d1" by simp
  from device_of_login [OF l this] d assms x o l show ?thesis by (simp add: do_login_def ensure_session_locked_def split: sum.split)
qed (use assms in \<open>auto simp: do_login_def split: option.split\<close>)

lemma context_login_device: "device_same s (do_context_login D e i pin s)"
proof -
  have "fst (fst (certificate_device_login_context D pin d w)) = d" for d w
    by (metis login_context_device prod.exhaust_sel)
  then show ?thesis by (simp add: device_same_def do_context_login_def split: option.split op_task.split)
qed

lemma task_fresh:
  assumes "op_inv {} s" "os_operations s i = Some x" "op_task x \<noteq> Task_none" "\<not> in_context x" "\<And>r. op_task x \<noteq> Task_signed r"
  shows "\<not> spent x"
  using task_out(1) [OF assms(1-3)] assms(4,5) by (simp add: spent_def)

lemma grant_inv_opened:
  assumes g: "grant_inv D ts s" and inv: "op_inv {} s" and x: "os_operations s i = Some x" "op_task x = Task_opened r"
  shows "grant_inv D ts (on_opened e i s)"
proof (rule grant_inv_task [OF g inv x(1)])
  show "spent x \<longrightarrow> op_answered x" using task_fresh [OF inv x(1)] x(2) by (simp add: in_context_def)
  have w: "\<forall>j\<in>set (waiters s). se_login_in_progress (os_session s) \<or> P j" for P using no_login_no_waiters [OF inv] by auto
  show "calm s (on_opened e i s)" by (rule calm.same_on_opened) (simp_all add: w)
  show "untouched j s (on_opened e i s)" if "j \<noteq> i" for j by (rule untouched.same_on_opened) (use that w in auto)
  show "device_of D ts (se_candidate (os_session s)) (se_device (os_session (on_opened e i s)))"
    by (rule grant_device [OF g], rule device.same_on_opened) (simp_all add: w)
qed

lemma op_finish_calm:
  assumes "r = Inl err \<or> r = Inr None"
  shows "calm s (op_finish_task i r s)" "j \<noteq> i \<Longrightarrow> untouched j s (op_finish_task i r s)"
  unfolding op_finish_task_def
  by (rule calm.same_set untouched.same_set; use assms in \<open>auto simp: calm_op_def working_def in_context_def\<close>)+

lemma grant_inv_sign:
  assumes g: "grant_inv D ts s" and inv: "op_inv {} s" and x: "os_operations s i = Some x" "op_task x = Task_sign_lock"
  shows "grant_inv D ts (sign_thread D e i s)"
proof -
  have sp: "\<not> spent x" using task_fresh [OF inv x(1)] x(2) by (simp add: in_context_def)
  have dv: "device_of D ts (se_candidate (os_session s)) (se_device (os_session s))" using g by (simp add: grant_inv_def)
  have refresh: "device_of D ts (se_candidate (os_session s)) d1" if "sign_refresh D e s = ((d1, w1), q)" for d1 w1 q
    using that device_of_refresh [OF _ dv] dv by (auto simp: sign_refresh_def split: if_splits)
  have fin: "grant_inv D ts (op_finish_task i r t)"
    if "calm s t" "\<And>j. j \<noteq> i \<Longrightarrow> untouched j s t" "device_of D ts (se_candidate (os_session s)) (se_device (os_session t))"
      "r = Inl err \<or> r = Inr None" for r t err
    by (rule grant_inv_task [OF g inv x(1)])
      (use sp that calm.same_trans [OF that(1)] untouched.same_trans [OF that(2)] op_finish_calm [OF that(4)] in \<open>auto simp: op_finish_task_def\<close>)
  have dev: "device_of D ts (se_candidate (os_session s)) (se_device (os_session (device_set d s)))" if "device_of D ts (se_candidate (os_session s)) d" for d
    using that by simp
  show ?thesis
  proof (cases rule: sign_thread_cases [of D e i s])
    case idle
    then show ?thesis using g by simp
  next
    case (refused err)
    then show ?thesis by (simp add: fin [OF calm.same_refl untouched.same_refl dv])
  next
    case (stale err d1 w1 q)
    show ?thesis unfolding stale(2)
      by (rule fin [OF calm.same_device untouched.same_device dev [OF refresh [OF stale(1)]]]) simp
  next
    case (retry d1 w1 q)
    show ?thesis unfolding retry(2)
    proof (rule fin)
      show "calm s (op_set i (\<lambda>x. x\<lparr>op_retry_open := True\<rparr>) (device_set d1 s))"
        by (rule calm.same_trans [OF calm.same_device calm.same_flag(1)]) simp
      show "untouched j s (op_set i (\<lambda>x. x\<lparr>op_retry_open := True\<rparr>) (device_set d1 s))" if "j \<noteq> i" for j
        by (rule untouched.same_trans [OF untouched.same_device untouched.same_flag(1)]) (use that in simp)
    qed (use refresh [OF retry(1)] in simp_all)
  next
    case (perform z c d1 w1 w2 q)
    have z: "z = x" using perform(1) x(1) by simp
    have d: "device_of D ts (se_candidate (os_session s)) d1" by (rule refresh [OF perform(7)])
    have use: "use_ok (se_candidate (os_session s)) ((os_operations s)(i \<mapsto> y)) (Performing i d1 (op_decrypt x) (op_mechanism x) (op_payload x))"
      if "op_decrypt y = op_decrypt x" "op_mechanism y = op_mechanism x" "op_payload y = op_payload x" "spent y" for y
      using that device_of_open_candidate [OF d perform(5)] by (auto simp: use_ok_def)
    show ?thesis
    proof (cases q)
      case None
      let ?y = "x\<lparr>op_task := Task_context (dv_session d1)\<rparr>"
      have "spent ?y" by (simp add: spent_def in_context_def)
      then show ?thesis unfolding perform(9)
        by (intro grant_inv_one [where y = ?y and l = "[Context_prompt i (login_request True x (os_session s)),
              Performing i d1 (op_decrypt x) (op_mechanism x) (op_payload x)]", OF g x(1) operation_next [OF inv x(1)]])
          (use None z x d sp use [of ?y] in \<open>simp_all add: use_ok_def [of _ _ "Context_prompt _ _"] fun_eq_iff grant_part_def\<close>)
    next
      case (Some r)
      let ?y = "x\<lparr>op_task := Task_signed (signed_result (op_decrypt x) r)\<rparr>"
      have "spent ?y" by (simp add: spent_def)
      then show ?thesis unfolding perform(9)
        by (intro grant_inv_one [where y = ?y and l = "[Performing i d1 (op_decrypt x) (op_mechanism x) (op_payload x)]", OF g x(1) operation_next [OF inv x(1)]])
          (use Some z x d sp use [of ?y] in \<open>simp_all add: fun_eq_iff grant_part_def op_finish_task_def\<close>)
    qed
  qed
qed

lemma sign_thread_authenticated_device:
  assumes "device_of D ts co (se_device (os_session s))"
  shows "device_of D ts co (se_device (os_session (sign_thread_authenticated D e i s)))"
proof -
  have "device_of D ts co d1" if "perform_end D b p r (se_device (os_session s)) w = Some ((d1, w1), q)" for b p r w d1 w1 q
    using that device_of_close(1) [OF assms, of w] assms
    by (auto simp: perform_end_def split: sum.splits option.splits prod.splits)
  then show ?thesis using assms
    by (auto simp: sign_thread_authenticated_def Let_def op_finish_task_def split: option.split op_task.split)
qed

lemma grant_inv_authenticated:
  assumes g: "grant_inv D ts s" and inv: "op_inv {} s" and x: "os_operations s i = Some x" "op_task x = Task_context_done h outcome"
  shows "grant_inv D ts (sign_thread_authenticated D e i s)"
proof -
  obtain d1 result where eq: "sign_thread_authenticated D e i s =
      op_finish_task i (signed_result (op_decrypt x) result) (device_set d1
        (if authenticate_context e h outcome x (os_session s) = Inr ()
         then op_note (Finishing i (se_device (os_session s))) (op_set i (\<lambda>x. x\<lparr>op_context_outcome := outcome\<rparr>) (s\<lparr>os_operation_lock := None\<rparr>))
         else op_set i (\<lambda>x. x\<lparr>op_context_outcome := outcome\<rparr>) (s\<lparr>os_operation_lock := None\<rparr>)))"
    "outcome \<noteq> CERTIFICATE_PIN_OK \<longrightarrow> (\<exists>err. result = Inl err)" by (rule sign_thread_authenticated_eq [OF x])
  let ?y = "x\<lparr>op_context_outcome := outcome, op_task := Task_signed (signed_result (op_decrypt x) result)\<rparr>"
  have dv: "device_of D ts (se_candidate (os_session s)) (se_device (os_session (sign_thread_authenticated D e i s)))"
    using g by (intro sign_thread_authenticated_device) (simp add: grant_inv_def)
  have "working x" "spent ?y" using x(2) by (simp_all add: working_def in_context_def spent_def)
  then show ?thesis
    by (intro grant_inv_one [where y = ?y and l = "if authenticate_context e h outcome x (os_session s) = Inr ()
          then [Finishing i (se_device (os_session s))] else []", OF g x(1) operation_next [OF inv x(1)] _ _ _ _ _ _ _ dv])
      (use x in \<open>simp_all add: eq(1) fun_eq_iff grant_part_def op_finish_task_def use_ok_def\<close>)
qed

lemma grant_inv_context_done:
  assumes g: "grant_inv D ts s" and inv: "op_inv {} s" and x: "os_operations s i = Some x" "op_task x = Task_context h"
  shows "grant_inv D ts (on_context_pin_done i outcome s)"
proof -
  let ?y = "x\<lparr>op_task := Task_context_done h outcome\<rparr>"
  have "working x" "spent ?y" using x(2) by (simp_all add: working_def in_context_def spent_def)
  moreover have "device_of D ts (se_candidate (os_session s)) (se_device (os_session s))" using g by (simp add: grant_inv_def)
  ultimately show ?thesis
    by (intro grant_inv_one [where y = ?y and l = "[]", OF g x(1) operation_next [OF inv x(1)]])
      (use x in \<open>simp_all add: on_context_pin_done_def fun_eq_iff grant_part_def\<close>)
qed

text \<open>The result of a task that used the token answers its operation.\<close>

lemma fail_answered: "os_operations s i = Some x \<Longrightarrow> \<exists>y. os_operations (operation_fail i err s) i = Some y \<and> op_answered y"
  by (simp add: operation_fail_def)

lemma fail_answered_closed:
  assumes "os_operations s i = Some x"
  shows "\<exists>y. os_operations (operation_fail i err (xcc_session_invalidate e reason s)) i = Some y \<and> op_answered y"
  using invalidate_operation [OF assms, of e reason] fail_answered by blast

lemma outcome_answered:
  assumes "os_operations s i = Some x" "outcome \<noteq> CERTIFICATE_PIN_OK"
  shows "\<exists>y. os_operations (apply_login_outcome e i outcome s) i = Some y \<and> op_answered y"
  using assms fail_answered [OF assms(1)] fail_answered_closed [OF assms(1), where e = e]
  by (cases outcome) (simp_all add: apply_login_outcome_def)

lemma on_signed_answers:
  assumes inv: "op_inv {} s" and x: "os_operations s i = Some x" "op_task x = Task_signed r0" "r0 \<noteq> Inr None"
  shows "\<exists>y. os_operations (on_signed e i s) i = Some y \<and> op_answered y"
proof -
  have "\<not> op_retry_open x" using task_out(6) [OF inv x(1)] x(2,3) by simp
  let ?s0 = "op_set i (\<lambda>x. x\<lparr>op_task := Task_none\<rparr>) s"
  have s0: "os_operations ?s0 i = Some (x\<lparr>op_task := Task_none\<rparr>)" using x(1) by simp
  show ?thesis
  proof (cases "task_propagate x r0")
    case (Inl err)
    then show ?thesis
      using x \<open>\<not> op_retry_open x\<close> fail_answered [OF s0] fail_answered_closed [OF s0, where e = e] outcome_answered [OF s0, where e = e]
      by (simp add: on_signed_def Let_def)
  next
    case (Inr v)
    with x(3) obtain w where w: "v = Some w" by (cases v) (auto simp: task_propagate_def split: if_splits)
    then show ?thesis
      using x \<open>\<not> op_retry_open x\<close> Inr fail_answered [OF s0] s0
      by (simp add: on_signed_def Let_def operation_succeed_def split: sum.split)
  qed
qed

lemma grant_inv_signed:
  assumes g: "grant_inv D ts s" and inv: "op_inv {} s" and x: "os_operations s i = Some x" "op_task x = Task_signed r"
  shows "grant_inv D ts (on_signed e i s)"
  using x
proof (cases rule: on_signed_cases [where e = e])
  case calm
  show ?thesis
  proof (rule grant_inv_calm [OF g calm(1) grant_device [OF g calm(2)]])
    show "\<exists>z. os_operations (on_signed e i s) j = Some z \<and> spent z"
      if y: "os_operations s j = Some y" "spent y" "\<not> op_answered y" for j y
    proof (cases "j = i")
      case True
      with y x have "r \<noteq> Inr None" by (simp add: spent_def in_context_def)
      from on_signed_answers [OF inv x this] True show ?thesis by (auto simp: spent_def)
    next
      case False
      show ?thesis by (rule spent_untouched [OF y calm(3)]) (rule False)
    qed
  qed (use operation_next [OF inv x(1)] in simp_all)
next
  case (result v out)
  let ?y = "x\<lparr>op_task := Task_none, op_answered := True\<rparr>"
  have n: "\<not> op_answered x" using task_out(1) [OF inv x(1)] x(2) by simp
  have "working x" "spent ?y" using x(2) result(1) by (simp_all add: working_def in_context_def spent_def)
  moreover have "device_of D ts (se_candidate (os_session s)) (se_device (os_session s))" using g by (simp add: grant_inv_def)
  ultimately show ?thesis unfolding result(3)
    by (intro grant_inv_one [where y = ?y and l = "[Op_done i (Inr out)]", OF g x(1) operation_next [OF inv x(1)]])
      (use x n in \<open>simp_all add: operation_succeed_def fun_eq_iff grant_part_def use_ok_def working_def in_context_def\<close>)
qed

lemma close_interaction:
  "os_interaction (xcc_session_close e s) = os_interaction s" "os_interaction (xcc_session_invalidate e reason s) = os_interaction s"
  "os_interaction (on_lifetime_expired e s) = os_interaction s"
  by (simp_all add: xcc_session_close_def xcc_session_invalidate_def on_lifetime_expired_def xcc_session_release_device_async_def Let_def)

text \<open>Steps of the whole session.\<close>

lemma grant_inv_session:
  assumes g: "grant_inv D ts s" and c: "calm s t" "\<And>j. untouched j s t"
    and d: "device_same s t \<or> dv_module (se_device (os_session t)) = None \<and> device_of D ts (se_candidate (os_session s)) (se_device (os_session t))"
    and li: "os_interaction t = os_interaction s"
  shows "grant_inv D ts t"
proof (rule grant_inv_calm [OF g c(1)])
  show "device_of D ts (se_candidate (os_session s)) (se_device (os_session t))" using d grant_device [OF g] by blast
  show "os_interaction t = None \<and> dv_module (se_device (os_session t)) = None" if "os_next s = 0"
    using g that d li by (auto simp: grant_inv_def idle_ok_def device_same_def)
  show "\<exists>z. os_operations t j = Some z \<and> spent z" if "os_operations s j = Some y" "spent y" "\<not> op_answered y" for j y
    by (rule spent_untouched [OF that c(2)])
qed

lemma grant_inv_closing:
  assumes "grant_inv D ts s"
  shows "grant_inv D ts (xcc_session_close e s)" "grant_inv D ts (xcc_session_invalidate e reason s)" "grant_inv D ts (on_lifetime_expired e s)"
  by (rule grant_inv_session [OF assms calm.same_close untouched.same_close disjI1 [OF device.same_close]]
      grant_inv_session [OF assms calm.same_invalidate untouched.same_invalidate disjI1 [OF device.same_invalidate]]
      grant_inv_session [OF assms calm.same_expired untouched.same_expired disjI1 [OF device.same_expired]], simp add: close_interaction)+

lemma grant_inv_release:
  assumes g: "grant_inv D ts s"
  shows "grant_inv D ts ((device_set (fst (certificate_device_close D (se_device (os_session s)) w)) s)\<lparr>os_releases := n\<rparr>)"
proof (rule grant_inv_session [OF g calm.same_released untouched.same_released])
  have "device_of D ts (se_candidate (os_session s)) (se_device (os_session s))" using g by (simp add: grant_inv_def)
  note c = device_of_close [OF this, of w]
  then show "device_same s ((device_set (fst (certificate_device_close D (se_device (os_session s)) w)) s)\<lparr>os_releases := n\<rparr>) \<or>
    dv_module (se_device (os_session ((device_set (fst (certificate_device_close D (se_device (os_session s)) w)) s)\<lparr>os_releases := n\<rparr>))) = None \<and>
    device_of D ts (se_candidate (os_session s))
      (se_device (os_session ((device_set (fst (certificate_device_close D (se_device (os_session s)) w)) s)\<lparr>os_releases := n\<rparr>)))" by simp
qed simp

lemma grant_inv_login_steps:
  assumes g: "grant_inv D ts s" and inv: "op_inv {} s" and li: "os_interaction s \<noteq> None"
  shows "grant_inv D ts (do_login D ts e pin s)" "grant_inv D ts (on_pin_done e outcome s)" "grant_inv D ts (release_login D e s)"
    "grant_inv D ts (finish_login e s)"
proof -
  note l = grant_inv_login [OF g inv li]
  have dv: "device_of D ts (se_candidate (os_session s)) (se_device (os_session s))" using g by (simp add: grant_inv_def)
  show "grant_inv D ts (do_login D ts e pin s)"
    by (rule l [OF calm.same_do_login untouched.same_do_login do_login_device [OF dv]])
  show "grant_inv D ts (on_pin_done e outcome s)"
    by (rule l [OF calm.same_pin_done untouched.same_pin_done grant_device [OF g device.same_pin_done]]) auto
  show "grant_inv D ts (finish_login e s)"
    by (rule l [OF calm.same_finish_login untouched.same_finish_login grant_device [OF g device.same_finish_login]]) auto
  show "grant_inv D ts (release_login D e s)"
    by (rule l [OF calm.same_release_login untouched.same_release_login])
      (use dv device_of_close(1) [OF dv] in \<open>simp add: release_login_def split: option.split\<close>)
qed

lemma grant_inv_operation_steps:
  assumes g: "grant_inv D ts s" and inv: "op_inv {} s" and x: "os_operations s i = Some x"
  shows "op_task x = Task_open \<Longrightarrow> grant_inv D ts (open_check e i s)" "op_task x = Task_sign \<Longrightarrow> grant_inv D ts (sign_check e i s)"
    "op_task x = Task_open_lock \<Longrightarrow> grant_inv D ts (open_thread D ts e i s)"
    "op_login_cancel_idle x \<Longrightarrow> grant_inv D ts (waiter_cancelled_idle i s)"
proof -
  note t = grant_inv_task [OF g inv x] and f = task_fresh [OF inv x]
  have dv: "device_of D ts (se_candidate (os_session s)) (se_device (os_session s))" using g by (simp add: grant_inv_def)
  show "grant_inv D ts (open_check e i s)" if "op_task x = Task_open"
    by (rule t [OF _ calm.same_open_check untouched.same_open_check grant_device [OF g device.same_open_check]])
      (use f that in \<open>auto simp: in_context_def\<close>)
  show "grant_inv D ts (sign_check e i s)" if "op_task x = Task_sign"
    by (rule t [OF _ calm.same_sign_check untouched.same_sign_check grant_device [OF g device.same_sign_check]])
      (use f that in \<open>auto simp: in_context_def\<close>)
  show "grant_inv D ts (open_thread D ts e i s)" if "op_task x = Task_open_lock"
    by (rule t [OF _ calm.same_open_thread untouched.same_open_thread open_thread_device [OF dv]])
      (use f that in \<open>auto simp: in_context_def\<close>)
  show "grant_inv D ts (waiter_cancelled_idle i s)" if "op_login_cancel_idle x"
  proof (rule t [OF _ calm.same_cancel_idle untouched.same_cancel_idle grant_device [OF g device.same_cancel_idle]])
    have "op_task x = Task_none" using task_out(4) [OF inv x] that by (auto simp: op_clear_def)
    then show "spent x \<longrightarrow> op_answered x" by (simp add: spent_def in_context_def)
  qed auto
qed

lemma grant_inv_step:
  assumes g: "grant_inv D ts s" and inv: "op_inv {} s" and step: "op_step D ts s l t"
  shows "grant_inv D ts t"
  using step
proof (cases rule: op_step.cases)
  case (step_grant c e purpose may_sign may_decrypt generic lifetime)
  then have "os_next s = 0" using g by (auto simp: grant_inv_def idle_ok_def)
  then show ?thesis unfolding step_grant(2) by (rule grant_inv_idle [OF g inv]) (simp_all add: xcc_session_grant_def)
next
  case (step_delivered e)
  then have "os_next s = 0" using g by (auto simp: grant_inv_def idle_ok_def)
  then show ?thesis unfolding step_delivered(2) by (rule grant_inv_idle [OF g inv]) simp_all
next
  case (step_rollback e)
  then have "os_next s = 0" using g by (auto simp: grant_inv_def idle_ok_def)
  then show ?thesis unfolding step_rollback(2) by (rule grant_inv_idle [OF g inv]) (simp_all add: rollback_session_def)
next
  case (step_context_login i x h e pin)
  show ?thesis unfolding step_context_login(2)
    by (rule grant_inv_session [OF g calm.same_context_login untouched.same_context_login disjI1 [OF context_login_device]])
      (simp add: do_context_login_def split: option.split op_task.split)
next
  case (step_cancel i x e)
  show ?thesis unfolding step_cancel(2)
    by (rule grant_inv_session [OF g calm.same_cancel _ disjI1 [OF device.same_cancel]])
      (auto simp: untouched_def option.map_comp comp_def)
next
  case (step_identity e generation app level seen)
  have "quiet (\<lambda>se. se\<lparr>se_owner_generation := generation, se_app_id := app, se_identity_level := level, se_identity_seen := seen\<rparr>)"
    by (simp add: quiet_def grant_part_def)
  then show ?thesis unfolding step_identity(2)
    by (intro grant_inv_session [OF g calm.same_session _ disjI1 [OF device.same_session]]) (simp_all add: untouched_def)
qed (use g inv in \<open>auto intro: grant_inv_perform grant_inv_opened grant_inv_sign grant_inv_context_done grant_inv_authenticated
    grant_inv_signed grant_inv_login_steps grant_inv_operation_steps grant_inv_release grant_inv_closing\<close>)

lemma grant_inv_start: "grant_inv D ts op_start"
  by (simp add: grant_inv_def idle_ok_def device_of_def device_bound_start count_ok_def decrypts_def uses_ok_def op_start_def
      xcc_session_init_def) (simp add: device_start_def)

interpretation grant: step_invariant "\<lambda>s. s = op_start" "op_step D ts" "\<lambda>s. op_inv {} s \<and> grant_inv D ts s" for D ts
  by unfold_locales (auto simp: op_inv_start grant_inv_start intro: op_inv_step grant_inv_step)

section \<open>What a step adds to the log\<close>

lemma step_log:
  assumes inv: "op_inv {} s" and step: "op_step D ts s l t"
  obtains (calm) new where "os_log t = new @ os_log s" "list_all failure_note new"
  | (sign) e i x where "l = (e, Ev_sign i)" "t = sign_thread D e i s" "os_operations s i = Some x" "op_task x = Task_sign_lock"
      "os_operation_lock s = None"
  | (authenticated) e i x h outcome where "l = (e, Ev_sign_authenticated i)" "t = sign_thread_authenticated D e i s"
      "os_operations s i = Some x" "op_task x = Task_context_done h outcome"
  | (result) i x v out where "os_operations s i = Some x" "op_task x = Task_signed (Inr (Some v))" "\<not> op_is_cancelled x"
      "os_log t = Op_done i (Inr out) # os_log s" "out = v \<or> certificate_ecdsa_raw_to_der v = Inr out"
proof -
  have c: thesis if "calm s t" using that calm unfolding calm_def by blast
  have same: thesis if "os_log t = os_log s" using calm [of "[]"] that by simp
  show thesis using step
  proof (cases rule: op_step.cases)
    case (step_perform e r)
    then show thesis
    proof (cases rule: perform_cases [of e r s])
      case (refused err)
      then show thesis using calm [of "[Op_refused err]"] step_perform by (simp add: failure_note_def)
    qed (use same step_perform in simp)
  next
    case (step_signed i x r e)
    from step_signed(3,4) show thesis
    proof (cases rule: on_signed_cases [where e = e])
      case (result v out)
      have "\<not> op_answered x" using task_out(1) [OF inv step_signed(3)] step_signed(4) by simp
      then show thesis using that(4) [of i x v out] result step_signed by (simp add: operation_succeed_def)
    qed (use c step_signed in simp)
  next
    case (step_opened i x r e)
    have w: "\<forall>j\<in>set (waiters s). se_login_in_progress (os_session s) \<or> True" by simp
    then show thesis using c step_opened calm.same_on_opened [OF TrueI w, where e = e] by simp
  qed (auto intro: c same sign authenticated calm.same_open_check calm.same_sign_check calm.same_open_thread calm.same_context_login
      calm.same_do_login calm.same_pin_done calm.same_finish_login calm.same_release_login calm.same_released calm.same_cancel
      calm.same_cancel_idle calm.same_expired calm.same_invalidate calm.same_close simp: on_context_pin_done_def)
qed

lemma used_operation:
  assumes "grant_inv D ts s" "Performing i d b m p \<in> set (os_log s)"
  shows "\<exists>x. os_operations s i = Some x \<and> spent x \<and> b = op_decrypt x \<and> m = op_mechanism x \<and> p = op_payload x \<and>
    dv_candidate d = se_candidate (os_session s)"
proof -
  from assms have "use_ok (se_candidate (os_session s)) (os_operations s) (Performing i d b m p)"
    by (simp add: grant_inv_def uses_ok_def list_all_iff)
  then show ?thesis by (auto simp: use_ok_def)
qed

lemma authorised_iff:
  "operation_still_authorised now cancelled se = Inr () \<longleftrightarrow> \<not> cancelled \<and> \<not> se_closed se \<and> \<not> xcc_session_is_expired now se"
  by (simp add: operation_still_authorised_def)

lemma authenticated_log:
  assumes x: "os_operations s i = Some x" "op_task x = Task_context_done h outcome"
  shows "os_log (sign_thread_authenticated D e i s) =
    (if authenticate_context e h outcome x (os_session s) = Inr () then [Finishing i (se_device (os_session s))] else []) @ os_log s"
  by (rule sign_thread_authenticated_eq [OF x, of D e]) (simp add: op_finish_task_def)

lemma sign_log:
  assumes "y \<in> set new" "os_log (sign_thread D e i s) = new @ os_log s"
  obtains x c d w1 where "os_operations s i = Some x" "se_candidate (os_session s) = Some c"
      "operation_still_authorised (oe_now e) (op_is_cancelled x) (os_session s) = Inr ()"
      "operation_still_authorised (oe_later e) (op_is_cancelled x) (os_session s) = Inr ()"
      "dv_module d \<noteq> None" "\<not> wants_login c d" "sign_refresh D e s = ((d, w1), Inr ())"
      "y = Performing i d (op_decrypt x) (op_mechanism x) (op_payload x) \<or> y = Context_prompt i (login_request True x (os_session s))"
proof (cases rule: sign_thread_cases [of D e i s])
  case (perform x c d1 w1 w2 q)
  let ?p = "Performing i d1 (op_decrypt x) (op_mechanism x) (op_payload x)"
  have "os_log (sign_thread D e i s) =
      (case q of Some r \<Rightarrow> [?p] | None \<Rightarrow> [Context_prompt i (login_request True x (os_session s)), ?p]) @ os_log s"
    by (simp add: perform(9) op_finish_task_def split: option.split)
  with assms have "y \<in> set (case q of Some r \<Rightarrow> [?p] | None \<Rightarrow> [Context_prompt i (login_request True x (os_session s)), ?p])" by simp
  then have "y = ?p \<or> y = Context_prompt i (login_request True x (os_session s))" by (auto split: option.splits)
  with that perform show ?thesis by blast
qed (use assms in \<open>simp_all add: op_finish_task_def\<close>)

section \<open>Properties\<close>

definition decrypt_uses :: "op_effect list \<Rightarrow> nat list" where
  "decrypt_uses log = concat (map (\<lambda>x. case x of Performing i d b m p \<Rightarrow> if b then [i] else [] | _ \<Rightarrow> []) log)"

lemma decrypt_uses_performed: "set (decrypt_uses l) \<subseteq> set (performed l)" "distinct (performed l) \<Longrightarrow> distinct (decrypt_uses l)"
proof (induction l)
  case (Cons x l)
  have u: "decrypt_uses (x # l) = (case x of Performing i d b m p \<Rightarrow> if b then [i] else [] | _ \<Rightarrow> []) @ decrypt_uses l"
    by (simp add: decrypt_uses_def)
  { case 1 then show ?case using Cons.IH(1) by (auto simp: u split: op_effect.splits)
  next case 2 then show ?case using Cons.IH by (auto simp: u split: op_effect.splits) }
qed (simp_all add: decrypt_uses_def)

lemma decrypt_uses_iff: "i \<in> set (decrypt_uses l) \<longleftrightarrow> (\<exists>d m p. Performing i d True m p \<in> set l)"
  by (induction l) (auto simp: decrypt_uses_def split: op_effect.splits if_splits)

lemma token_work:
  assumes "op_reachable D ts s" and "op_step D ts s (e, l) t" and "os_log t = new @ os_log s" and "Performing i d b m p \<in> set new"
  shows "\<exists>x c name parameters data.
    os_operations s i = Some x \<and> \<not> op_is_cancelled x \<and> \<not> op_answered x \<and> b = op_decrypt x \<and>
    se_candidate (os_session s) = Some c \<and> se_granted (os_session s) \<and> \<not> se_grant_pending (os_session s) \<and> \<not> se_closed (os_session s) \<and>
    \<not> xcc_session_is_expired (oe_now e) (os_session s) \<and> \<not> xcc_session_is_expired (oe_later e) (os_session s) \<and>
    (if b then se_may_decrypt (os_session s) else se_may_sign (os_session s)) \<and>
    certificate_mechanism_parse name parameters (cd_key_type c) (cd_key_size c) b = Inr m \<and> certificate_mechanism_prepare m data = Inr p \<and>
    dv_candidate d = Some c \<and> device_bound D ts d \<and> dv_module d \<noteq> None \<and> \<not> wants_login c d \<and>
    i \<notin> set (performed (os_log s)) \<and> os_operation_lock s = None"
proof -
  from grant.reach_inv [OF assms(1)] have inv: "op_inv {} s" and g: "grant_inv D ts s" by auto
  show ?thesis
    using inv assms(2)
  proof (cases rule: step_log)
    case (calm l)
    with assms(3,4) have "Performing i d b m p \<in> set l" by simp
    with calm(2) show ?thesis by (auto simp: list_all_iff failure_note_def)
  next
    case (authenticated f j x h outcome)
    with assms(3,4) show ?thesis using authenticated_log [OF authenticated(3,4), of D f] by (auto split: if_splits)
  next
    case (result j x v out)
    with assms(3,4) show ?thesis by (auto simp: append_eq_Cons_conv)
  next
    case (sign f j x)
    from assms(4) assms(3) [unfolded sign(2)] obtain z c d1 w1 where z: "os_operations s j = Some z" "se_candidate (os_session s) = Some c"
      "operation_still_authorised (oe_now f) (op_is_cancelled z) (os_session s) = Inr ()"
      "operation_still_authorised (oe_later f) (op_is_cancelled z) (os_session s) = Inr ()"
      "dv_module d1 \<noteq> None" "\<not> wants_login c d1" "sign_refresh D f s = ((d1, w1), Inr ())"
      "Performing i d b m p = Performing j d1 (op_decrypt z) (op_mechanism z) (op_payload z) \<or>
       Performing i d b m p = Context_prompt j (login_request True z (os_session s))" by (rule sign_log)
    with sign have zx: "z = x" and f: "f = e" and p: "i = j" "d = d1" "b = op_decrypt x" "m = op_mechanism x" "p = op_payload x" by auto
    have dv: "device_of D ts (se_candidate (os_session s)) (se_device (os_session s))" using g by (simp add: grant_inv_def)
    have d1: "device_of D ts (Some c) d1"
      using z(7) dv z(2) device_of_refresh [OF _ dv] by (auto simp: sign_refresh_def split: if_splits)
    have fresh: "\<not> spent x" using task_fresh [OF inv sign(3)] sign(4) by (simp add: in_context_def)
    then have n: "i \<notin> set (performed (os_log s))" "\<not> op_answered x"
      using used_operation [OF g] sign(3) p(1) by (force simp: performed_iff, simp add: spent_def)
    have "op_permitted (os_session s) x" "idle_ok s" using g sign(3) by (simp_all add: grant_inv_def)
    then obtain name parameters data where q: "if op_decrypt x then se_may_decrypt (os_session s) else se_may_sign (os_session s)"
      "certificate_mechanism_parse name parameters (cd_key_type c) (cd_key_size c) (op_decrypt x) = Inr m" "certificate_mechanism_prepare m data = Inr p"
      "se_granted (os_session s)" "\<not> se_grant_pending (os_session s)"
      using z(2) p operation_next [OF inv sign(3)] by (auto simp: op_permitted_def idle_ok_def split: if_splits)
    show ?thesis
      by (intro exI [of _ x] exI [of _ c] exI [of _ name] exI [of _ parameters] exI [of _ data])
        (use z(2-6) q d1 n sign(3,5) device_of_open_candidate [OF d1 z(5)] in \<open>simp add: p zx f authorised_iff device_of_def\<close>)
  qed
qed

text \<open>C11 (safety): a step that puts the token to work does it for an operation that is not cancelled, under a
  grant that is delivered and neither closed nor expired, before and after the state of the token was asked
  for; it permits the operation, whose mechanism and payload are what the request's name, parameters and data
  parse to for the granted certificate; the device is open for that certificate, on its token, and logged in
  where that is needed; the operation has not been to the token before, and no other one is there.\<close>

theorem token_work_authorised:
  assumes "op_reachable D ts s" and "op_step D ts s (e, l) t" and "os_log t = new @ os_log s" and "Performing i d b m p \<in> set new"
  shows "\<exists>x c name parameters data.
    os_operations s i = Some x \<and> \<not> op_is_cancelled x \<and> \<not> op_answered x \<and> b = op_decrypt x \<and>
    se_candidate (os_session s) = Some c \<and> se_granted (os_session s) \<and> \<not> se_grant_pending (os_session s) \<and> \<not> se_closed (os_session s) \<and>
    \<not> xcc_session_is_expired (oe_now e) (os_session s) \<and> \<not> xcc_session_is_expired (oe_later e) (os_session s) \<and>
    (if b then se_may_decrypt (os_session s) else se_may_sign (os_session s)) \<and>
    certificate_mechanism_parse name parameters (cd_key_type c) (cd_key_size c) b = Inr m \<and> certificate_mechanism_prepare m data = Inr p \<and>
    dv_candidate d = Some c \<and> device_bound D ts d \<and> dv_module d \<noteq> None \<and> \<not> wants_login c d \<and>
    i \<notin> set (performed (os_log s)) \<and> os_operation_lock s = None"
  by (rule token_work [OF assms])

text \<open>C15 (safety): when a key asks for a PIN of its own, the operation goes on only after a dialogue that ended
  well, if it is still not cancelled and the grant is still neither closed nor expired, on the very session
  handle for which the PIN was asked, and only where the operation had been begun on the token.\<close>

theorem authenticated_work_authorised:
  assumes "op_reachable D ts s" and "op_step D ts s (e, l) t" and "os_log t = new @ os_log s" and "Finishing i d \<in> set new"
  shows "\<exists>x. os_operations s i = Some x \<and> op_task x = Task_context_done (dv_session d) CERTIFICATE_PIN_OK \<and>
    os_operation_lock s = Some i \<and> i \<in> set (performed (os_log s)) \<and> \<not> op_is_cancelled x \<and> \<not> se_closed (os_session s) \<and>
    \<not> xcc_session_is_expired (oe_now e) (os_session s) \<and> d = se_device (os_session s) \<and> dv_module d \<noteq> None \<and>
    dv_candidate d = se_candidate (os_session s)"
proof -
  from grant.reach_inv [OF assms(1)] have inv: "op_inv {} s" and g: "grant_inv D ts s" by auto
  show ?thesis
    using inv assms(2)
  proof (cases rule: step_log)
    case (calm l)
    with assms(3,4) have "Finishing i d \<in> set l" by simp
    with calm(2) show ?thesis by (auto simp: list_all_iff failure_note_def)
  next
    case (result j x v out)
    with assms(3,4) show ?thesis by (auto simp: append_eq_Cons_conv)
  next
    case (sign f j x)
    from assms(4) assms(3) [unfolded sign(2)] show ?thesis by (rule sign_log) simp
  next
    case (authenticated f j x h outcome)
    with assms(3,4) have a: "authenticate_context e h outcome x (os_session s) = Inr ()" "i = j" "d = se_device (os_session s)"
      using authenticated_log [OF authenticated(3,4), of D e] by (auto split: if_splits)
    then have b: "outcome = CERTIFICATE_PIN_OK" "operation_still_authorised (oe_now e) (op_is_cancelled x) (os_session s) = Inr ()"
      "dv_module d \<noteq> None" "h = dv_session d" by (auto simp: authenticate_context_def split: if_splits sum.splits)
    have c: "in_context x" "working x" using authenticated(4) by (simp_all add: in_context_def working_def)
    have "os_operation_lock s = Some j" using op_invD(2) [OF inv] authenticated(3) c(1) by (auto simp: lock_ok_def)
    moreover have "j \<in> set (performed (os_log s))" using g authenticated(3) c(2) by (auto simp: grant_inv_def uses_ok_def)
    moreover have "dv_candidate d = se_candidate (os_session s)"
      using g b(3) a(3) by (auto simp: grant_inv_def intro: device_of_open_candidate)
    ultimately show ?thesis using authenticated(3,4) a b by (auto simp: authorised_iff)
  qed
qed

lemma token_result:
  assumes "op_reachable D ts s" and "op_step D ts s (e, l) t" and "os_log t = new @ os_log s" and "Op_done i (Inr r) \<in> set new"
  shows "\<exists>x d. os_operations s i = Some x \<and> \<not> op_answered x \<and> done_results (os_log s) i = [] \<and> \<not> op_is_cancelled x \<and>
    \<not> (op_cancellable x \<and> se_closed (os_session s)) \<and>
    Performing i d (op_decrypt x) (op_mechanism x) (op_payload x) \<in> set (os_log s) \<and> dv_candidate d = se_candidate (os_session s)"
proof -
  from grant.reach_inv [OF assms(1)] have inv: "op_inv {} s" and g: "grant_inv D ts s" by auto
  show ?thesis
    using inv assms(2)
  proof (cases rule: step_log)
    case (calm l)
    with assms(3,4) have "Op_done i (Inr r) \<in> set l" by simp
    with calm(2) show ?thesis by (auto simp: list_all_iff failure_note_def)
  next
    case (sign f j x)
    from assms(4) assms(3) [unfolded sign(2)] show ?thesis by (rule sign_log) simp_all
  next
    case (authenticated f j x h outcome)
    with assms(3,4) show ?thesis using authenticated_log [OF authenticated(3,4), of D f] by (auto split: if_splits)
  next
    case (result j x v out)
    with assms(3,4) have "i = j" by (auto simp: append_eq_Cons_conv)
    note x = result(1,2) [folded this]
    have n: "\<not> op_answered x" "se_closed (os_session s) \<longrightarrow> op_cancelled x" using task_out(1,5) [OF inv x(1)] x(2) by simp_all
    have "length (done_results (os_log s) i) = 0" using op_invD(4) [OF inv] x(1) n(1) by (simp add: answers_ok_def)
    moreover from g x have "i \<in> set (performed (os_log s))" by (auto simp: grant_inv_def uses_ok_def working_def)
    then obtain d b m p where p: "Performing i d b m p \<in> set (os_log s)" by (auto simp: performed_iff)
    with used_operation [OF g p] x(1) have "Performing i d (op_decrypt x) (op_mechanism x) (op_payload x) \<in> set (os_log s)"
      "dv_candidate d = se_candidate (os_session s)" by auto
    ultimately show ?thesis using x n result(3) by (auto simp: op_is_cancelled_def)
  qed
qed

text \<open>C12 (safety): the result of an operation reaches the caller only as its first answer, of an operation that is
  not cancelled (so, where it can be cancelled, of a session that is not closed), and for which the token was
  put to work with the operation's own mechanism and payload, open for the granted certificate.\<close>

theorem results_only_when_live:
  assumes "op_reachable D ts s" and "op_step D ts s (e, l) t" and "os_log t = new @ os_log s" and "Op_done i (Inr r) \<in> set new"
  shows "\<exists>x d. os_operations s i = Some x \<and> \<not> op_answered x \<and> done_results (os_log s) i = [] \<and> \<not> op_is_cancelled x \<and>
    \<not> (op_cancellable x \<and> se_closed (os_session s)) \<and>
    Performing i d (op_decrypt x) (op_mechanism x) (op_payload x) \<in> set (os_log s) \<and> dv_candidate d = se_candidate (os_session s)"
  by (rule token_result [OF assms])

text \<open>C14 (bounds): no operation comes to the token twice, whatever is retried, and in the life of a grant the token
  is asked for at most 32 decryptions.\<close>

theorem token_uses_bounded:
  assumes "op_reachable D ts s"
  shows "distinct (performed (os_log s)) \<and> length (decrypt_uses (os_log s)) \<le> unat CERTIFICATE_MAX_DECRYPTS_PER_GRANT"
proof -
  from grant.reach_inv [OF assms] have inv: "op_inv {} s" and g: "grant_inv D ts s" by auto
  then have d: "distinct (performed (os_log s))" and c: "card (decrypts s) \<le> unat CERTIFICATE_MAX_DECRYPTS_PER_GRANT" by (simp_all add: grant_inv_def uses_ok_def count_ok_def)
  have "decrypts s \<subseteq> {..<os_next s}" unfolding decrypts_def using op_atD(1) [OF inv] by auto
  then have "finite (decrypts s)" by (rule finite_subset) simp
  moreover have "set (decrypt_uses (os_log s)) \<subseteq> decrypts s"
    using used_operation [OF g] by (fastforce simp: decrypt_uses_iff decrypts_def)
  ultimately have "card (set (decrypt_uses (os_log s))) \<le> card (decrypts s)" by (rule card_mono)
  with decrypt_uses_performed(2) [OF d] c d show ?thesis by (simp add: distinct_card)
qed

text \<open>C13 (invariant): every accepted operation is answered exactly once: while it is not, it is in exactly one place,
  a task or the list of those that wait for the login, and once it is, in none.  A lock on the token is held
  exactly by the operation whose own PIN is asked for, a session has one login dialogue at most, and closing
  has cancelled every operation that is left.\<close>

theorem operations_answered_once:
  assumes "op_reachable D ts s" and "os_operations s i = Some x"
  shows "length (done_results (os_log s) i) = (if op_answered x then 1 else 0) \<and>
    (if op_answered x then op_task x = Task_none \<and> i \<notin> set (waiters s) else (op_task x = Task_none) = (i \<in> set (waiters s))) \<and>
    (os_operation_lock s = Some i) = in_context x \<and> distinct (waiters s) \<and>
    se_login_in_progress (os_session s) = (os_interaction s \<noteq> None) \<and>
    (op_answered x \<or> op_cancelled x \<or> \<not> se_closed (os_session s))"
proof -
  from grant.reach_inv [OF assms(1)] have inv: "op_inv {} s" by auto
  note at = op_atD [OF inv assms(2)]
  have "distinct (waiters s) \<and> se_login_in_progress (os_session s) = (os_interaction s \<noteq> None)"
    using op_invD(3) [OF inv] by (auto simp: login_ok_def login_fields_def waiters_def split: option.splits)
  moreover have "(os_operation_lock s = Some i) = in_context x" using op_invD(2) [OF inv] assms(2) by (auto simp: lock_ok_def)
  moreover have "length (done_results (os_log s) i) = (if op_answered x then 1 else 0)"
    using op_invD(4) [OF inv] assms(2) by (simp add: answers_ok_def)
  moreover have "if op_answered x then op_task x = Task_none \<and> i \<notin> set (waiters s) else (op_task x = Task_none) = (i \<in> set (waiters s))"
    using at(2) by (auto simp: op_place_def split: if_splits)
  moreover have "op_answered x \<or> op_cancelled x \<or> \<not> se_closed (os_session s)" using at(3) by (auto simp: op_flags_def)
  ultimately show ?thesis by blast
qed

text \<open>An operation is accepted exactly for a delivered grant that is neither closed nor expired,
  that permits it and has a decryption left if it is one, with a mechanism that parses for the key and data that
  fit it; an accepted operation starts at once and counts if it is a decryption, and a refused one changes
  nothing but the log.\<close>

lemma operation_accepted_iff:
  "let se = os_session s; t = certificate_broker_perform e r s in
   if \<exists>c m p. \<not> se_grant_pending se \<and> se_candidate se = Some c \<and> se_granted se \<and> \<not> se_closed se \<and> \<not> xcc_session_is_expired (oe_now e) se \<and>
       \<not> (or_decrypt r \<and> certificate_broker_decrypts_spent se) \<and> (if or_decrypt r then se_may_decrypt se else se_may_sign se) \<and>
       certificate_mechanism_parse (or_mechanism_name r) (or_parameters r) (cd_key_type c) (cd_key_size c) (or_decrypt r) = Inr m \<and>
       certificate_mechanism_prepare m (or_data r) = Inr p
   then (\<exists>x. os_operations t = (os_operations s)(os_next s \<mapsto> x) \<and> op_task x = Task_open \<and> \<not> op_answered x \<and> op_decrypt x = or_decrypt r) \<and>
     os_next t = os_next s + 1 \<and> os_log t = os_log s \<and>
     os_session t = se\<lparr>se_decrypt_count := se_decrypt_count se + (if or_decrypt r then 1 else 0)\<rparr>
   else \<exists>err. t = op_note (Op_refused err) s" (is "let se = _; t = _ in if ?cond se then ?yes se t else ?no t")
proof (cases rule: perform_cases [of e r s])
  case (refused err)
  have "os_log (certificate_broker_perform e r s) \<noteq> os_log s" using refused by simp
  moreover have "os_log (certificate_broker_perform e r s) = os_log s" if "?cond (os_session s)"
    using that by (auto simp: certificate_broker_perform_def Let_def open_operation_def)
  ultimately have n: "\<not> ?cond (os_session s)" by blast
  show ?thesis unfolding Let_def if_not_P [OF n] using refused by blast
next
  case (accepted c m p)
  then have c: "?cond (os_session s)" by blast
  show ?thesis unfolding Let_def if_P [OF c]
    by (intro conjI exI [of _ "the (os_operations (certificate_broker_perform e r s) (os_next s))"]) (simp_all add: accepted(10))
qed

section \<open>A run\<close>

definition sample_mechanism :: certificate_mechanism where
  "sample_mechanism = \<lparr>bm_name = ''RSA_PKCS1_V1_5'', bm_type = CKM_RSA_PKCS, bm_hash = CERTIFICATE_HASH_SHA256,
     bm_encoding = CERTIFICATE_SIGNATURE_RAW, bm_pss = None, bm_oaep = None, bm_label = None,
     bm_expected_input = 32, bm_digest_info = Some digest_info_sha256\<rparr>"

definition sample_request :: operation_request where
  "sample_request = \<lparr>or_decrypt = False, or_mechanism_name = Some ''RSA_PKCS1_V1_5'', or_parameters = sample_parameters,
     or_data = replicate 32 7, or_parent_window = None, or_caller_display = None, or_cancellable = True, or_cancelled = False\<rparr>"

definition sample_op_env :: "(nat \<times> bool) op_env" where
  "sample_op_env = \<lparr>oe_now = 0, oe_later = 0, oe_world = (0, True), oe_lock_free = True, oe_cancel_deferred = False, oe_no_display = False\<rparr>"

definition sample_grant :: "bool \<Rightarrow> xcc_session" where
  "sample_grant pending = xcc_session_init\<lparr>se_granted := True, se_grant_pending := pending, se_candidate := Some sample_candidate,
     se_may_sign := True, se_may_decrypt := True, se_lifetime := 60, se_expires_at := 60, se_expiry_source := Some 90\<rparr>"

definition sample_operation :: operation where
  "sample_operation = \<lparr>op_decrypt = False, op_mechanism = sample_mechanism, op_payload = digest_info_sha256 @ replicate 32 7,
     op_parent_window = None, op_caller_display = None, op_purpose_display = certificate_purpose_display CERTIFICATE_PURPOSE_CLIENT_AUTH,
     op_cancellable = True, op_cancelled = False, op_answered = False, op_login_cancel_id = False, op_login_cancel_idle = False,
     op_context_outcome = CERTIFICATE_PIN_OK, op_retry_open = False, op_retried_open = False, op_retry_login = False,
     op_open_login_generation = 0, op_task = Task_none\<rparr>"

definition sample_device :: certificate_device where
  "sample_device = \<lparr>dv_module = Some 3, dv_session = 9, dv_private_key = 5, dv_logged_in = True, dv_candidate = Some sample_candidate\<rparr>"

definition sample_granted :: "bool \<Rightarrow> op_state" where
  "sample_granted pending = op_start\<lparr>os_session := sample_grant pending\<rparr>"

definition sample_at :: "certificate_device \<Rightarrow> op_task \<Rightarrow> nat option \<Rightarrow> op_effect list \<Rightarrow> op_state" where
  "sample_at d task lock log = \<lparr>os_session = (sample_grant False)\<lparr>se_device := d\<rparr>, os_operations = [0 \<mapsto> sample_operation\<lparr>op_task := task\<rparr>],
     os_next = 1, os_interaction = None, os_operation_lock = lock, os_releases = 0, os_log = log\<rparr>"

lemma sample_granting:
  "session_set (\<lambda>se. (xcc_session_grant (oe_now sample_op_env) sample_candidate CERTIFICATE_PURPOSE_CLIENT_AUTH True True 60
     (se\<lparr>se_grant_pending := True\<rparr>))\<lparr>se_generic_purpose := False\<rparr>) op_start = sample_granted True"
  "session_set (\<lambda>se. se\<lparr>se_grant_pending := False\<rparr>) (sample_granted True) = sample_granted False"
  by (simp_all add: sample_granted_def sample_grant_def op_start_def xcc_session_init_def xcc_session_grant_def sample_op_env_def)

lemma sample_grant_fields [simp]:
  "se_grant_pending (sample_grant p) = p" "se_candidate (sample_grant p) = Some sample_candidate" "se_granted (sample_grant p)"
  "\<not> se_closed (sample_grant p)" "se_may_sign (sample_grant p)" "\<not> se_generic_purpose (sample_grant p)"
  "se_purpose (sample_grant p) = CERTIFICATE_PURPOSE_CLIENT_AUTH" "se_login_generation (sample_grant p) = 0" "se_device (sample_grant p) = device_start"
  "\<not> se_login_in_progress (sample_grant p)" "\<not> se_login_in_progress ((sample_grant p)\<lparr>se_device := d\<rparr>)"
  "\<not> xcc_session_is_expired 0 (sample_grant p)" "\<not> xcc_session_is_expired 0 ((sample_grant p)\<lparr>se_device := d\<rparr>)"
  by (simp_all add: sample_grant_def xcc_session_init_def xcc_session_is_expired_def)

lemma sample_env_fields [simp]:
  "oe_now sample_op_env = 0" "oe_later sample_op_env = 0" "oe_world sample_op_env = (0, True)"
  by (simp_all add: sample_op_env_def)

lemma sample_candidate_fields [simp]:
  "cd_key_type sample_candidate = Some ''RSA''" "cd_key_size sample_candidate = 2048" "cd_token sample_candidate = Some sample_token"
  by (simp_all add: sample_candidate_def)

lemma sample_operation_fields [simp]:
  "\<not> op_answered (sample_operation\<lparr>op_task := t\<rparr>)" "\<not> op_is_cancelled (sample_operation\<lparr>op_task := t\<rparr>)"
  "op_decrypt sample_operation = False" "op_mechanism sample_operation = sample_mechanism"
  "op_payload sample_operation = digest_info_sha256 @ replicate 32 7" "op_context_outcome sample_operation = CERTIFICATE_PIN_OK"
  "\<not> op_retry_open sample_operation" "op_open_login_generation sample_operation = 0"
  by (simp_all add: sample_operation_def op_is_cancelled_def)

lemma sample_at_fields [simp]:
  "os_operations (sample_at d t k g) = [0 \<mapsto> sample_operation\<lparr>op_task := t\<rparr>]" "os_operation_lock (sample_at d t k g) = k"
  "os_log (sample_at d t k g) = g" "se_candidate (os_session (sample_at d t k g)) = Some sample_candidate"
  "\<not> se_closed (os_session (sample_at d t k g))" "\<not> xcc_session_is_expired 0 (os_session (sample_at d t k g))"
  "\<not> se_login_in_progress (os_session (sample_at d t k g))" "se_device (os_session (sample_at d t k g)) = d"
  "se_login_generation (os_session (sample_at d t k g)) = 0"
  by (simp_all add: sample_at_def)

lemma sample_at_update:
  "op_set 0 (\<lambda>x. x\<lparr>op_task := u\<rparr>) (sample_at d t k g) = sample_at d u k g"
  "device_set d' (sample_at d t k g) = sample_at d' t k g"
  "op_note y (sample_at d t k g) = sample_at d t k (y # g)"
  "(sample_at d t k g)\<lparr>os_operation_lock := k'\<rparr> = sample_at d t k' g"
  by (simp_all add: sample_at_def op_set_def op_note_def)

lemma sample_authorised: "operation_still_authorised 0 False (os_session (sample_at d u k g)) = Inr ()"
  by (simp add: operation_still_authorised_def)

lemma sample_performing: "certificate_broker_perform sample_op_env sample_request (sample_granted False) = sample_at device_start Task_open None []"
proof -
  have p: "certificate_mechanism_prepare sample_mechanism (replicate 32 7) = Inr (digest_info_sha256 @ replicate 32 7)"
    by (simp add: certificate_mechanism_prepare_def sample_mechanism_def)
  show ?thesis
    by (simp add: certificate_broker_perform_def sample_granted_def sample_request_def sample_v15 [folded sample_mechanism_def] p Let_def
        open_operation_def op_set_def sample_at_def op_start_def sample_operation_def sample_grant_def xcc_session_init_def
        xcc_session_is_expired_def)
qed

lemma sample_get_session: "f_GetSessionInfo sample_functions m h w = (w, CKR_OK, \<lparr>sei_slotID = 7,
    sei_state = (if snd w then CKS_RO_USER_FUNCTIONS else CKS_RO_PUBLIC_SESSION), sei_flags = 0, sei_ulDeviceError = 0\<rparr>)"
  by (simp add: sample_functions_def)

lemma sample_opening:
  "certificate_device_open sample_discovery sample_tokens sample_candidate device_start (0, True) = ((sample_device, (0, True)), Inr ())"
  by (simp add: certificate_device_open_def device_start_def sample_open find_private_key_def sample_fields sample_find
      certificate_device_refresh_login_def sample_get_session device_note_login_def sample_device_def)

lemma sample_output: "device_output sample_discovery 3 False sample_device payload w = (w, Inr [1, 2])"
  by (simp add: device_output_def device_run_def sample_fields sample_functions_def overwrite_def upt_rec)

definition sample_use :: op_effect where
  "sample_use = Performing 0 sample_device False sample_mechanism (digest_info_sha256 @ replicate 32 7)"

lemma sample_run:
  "open_check sample_op_env 0 (sample_at device_start Task_open None []) = sample_at device_start Task_open_lock None []"
  "open_thread sample_discovery sample_tokens sample_op_env 0 (sample_at device_start Task_open_lock None []) =
     sample_at sample_device (Task_opened (Inr False)) None []"
  "on_opened sample_op_env 0 (sample_at sample_device (Task_opened (Inr False)) None []) = sample_at sample_device Task_sign None []"
  "sign_check sample_op_env 0 (sample_at sample_device Task_sign None []) = sample_at sample_device Task_sign_lock None []"
  "sign_thread sample_discovery sample_op_env 0 (sample_at sample_device Task_sign_lock None []) =
     sample_at sample_device (Task_context 9) (Some 0) [Context_prompt 0 (login_request True (sample_operation\<lparr>op_task := Task_sign_lock\<rparr>)
       (os_session (sample_at sample_device Task_sign_lock None []))), sample_use]"
  "on_context_pin_done 0 CERTIFICATE_PIN_OK (sample_at sample_device (Task_context 9) (Some 0) log) =
     sample_at sample_device (Task_context_done 9 CERTIFICATE_PIN_OK) (Some 0) log"
  "sign_thread_authenticated sample_discovery sample_op_env 0 (sample_at sample_device (Task_context_done 9 CERTIFICATE_PIN_OK) (Some 0) log) =
     sample_at sample_device (Task_signed (Inr (Some [1, 2]))) None (Finishing 0 sample_device # log)"
proof -
  show "open_check sample_op_env 0 (sample_at device_start Task_open None []) = sample_at device_start Task_open_lock None []"
    by (simp add: open_check_def sample_at_def op_set_def operation_still_authorised_def)
  show "open_thread sample_discovery sample_tokens sample_op_env 0 (sample_at device_start Task_open_lock None []) =
     sample_at sample_device (Task_opened (Inr False)) None []"
    by (simp add: open_thread_def sample_authorised ensure_session_locked_def sample_opening sample_at_update)
      (simp add: wants_login_def sample_device_def)
  show "on_opened sample_op_env 0 (sample_at sample_device (Task_opened (Inr False)) None []) = sample_at sample_device Task_sign None []"
    by (simp add: on_opened_def task_propagate_def sample_at_update Let_def sample_authorised run_operation_def)
  show "sign_check sample_op_env 0 (sample_at sample_device Task_sign None []) = sample_at sample_device Task_sign_lock None []"
    by (simp add: sign_check_def sample_at_def op_set_def operation_still_authorised_def)
  have r: "certificate_device_refresh_login sample_discovery sample_device (0, True) = ((sample_device, (0, True)), Inr ())"
    by (simp add: certificate_device_refresh_login_def sample_device_def sample_fields sample_get_session device_note_login_def)
  have g: "certificate_pkcs11_get_bool sample_functions 3 9 5 ty v w = (w, True)" for ty v w
    by (simp add: certificate_pkcs11_get_bool_def sample_functions_def overwrite_def)
  have b: "perform_begin sample_discovery False sample_mechanism p sample_device (0, True) = ((0, True), None)" for p
    by (simp add: perform_begin_def sample_device_def sample_fields g device_init_def) (simp add: sample_functions_def)
  have w: "\<not> wants_login sample_candidate sample_device" "dv_module sample_device = Some 3" "dv_session sample_device = 9"
    by (simp_all add: wants_login_def sample_device_def)
  show "sign_thread sample_discovery sample_op_env 0 (sample_at sample_device Task_sign_lock None []) =
     sample_at sample_device (Task_context 9) (Some 0) [Context_prompt 0 (login_request True (sample_operation\<lparr>op_task := Task_sign_lock\<rparr>)
       (os_session (sample_at sample_device Task_sign_lock None []))), sample_use]"
    by (simp add: sign_thread_def sample_authorised r b w Let_def sample_at_update sample_use_def)
  show "on_context_pin_done 0 CERTIFICATE_PIN_OK (sample_at sample_device (Task_context 9) (Some 0) log) =
     sample_at sample_device (Task_context_done 9 CERTIFICATE_PIN_OK) (Some 0) log"
    by (simp add: on_context_pin_done_def sample_at_def op_set_def)
  show "sign_thread_authenticated sample_discovery sample_op_env 0 (sample_at sample_device (Task_context_done 9 CERTIFICATE_PIN_OK) (Some 0) log) =
     sample_at sample_device (Task_signed (Inr (Some [1, 2]))) None (Finishing 0 sample_device # log)"
    by (simp add: sign_thread_authenticated_def authenticate_context_def sample_authorised w perform_end_def sample_output Let_def
        signed_result_def op_finish_task_def) (simp add: sample_at_def op_set_def op_note_def sample_operation_def)
qed

abbreviation sample_asked :: "op_effect list" where
  "sample_asked \<equiv> [Context_prompt 0 (login_request True (sample_operation\<lparr>op_task := Task_sign_lock\<rparr>)
     (os_session (sample_at sample_device Task_sign_lock None []))), sample_use]"

abbreviation sample_reach :: "op_state \<Rightarrow> bool" where
  "sample_reach \<equiv> op_reachable sample_discovery sample_tokens"

lemma sample_reached:
  "op_step sample_discovery sample_tokens (sample_at sample_device Task_sign_lock None []) (sample_op_env, Ev_sign 0)
     (sample_at sample_device (Task_context 9) (Some 0) sample_asked)"
  "op_step sample_discovery sample_tokens (sample_at sample_device (Task_context_done 9 CERTIFICATE_PIN_OK) (Some 0) sample_asked)
     (sample_op_env, Ev_sign_authenticated 0)
     (sample_at sample_device (Task_signed (Inr (Some [1, 2]))) None (Finishing 0 sample_device # sample_asked))"
  "sample_reach (sample_at sample_device Task_sign_lock None [])"
  "sample_reach (sample_at sample_device (Task_context_done 9 CERTIFICATE_PIN_OK) (Some 0) sample_asked)"
  "sample_reach (sample_at sample_device (Task_signed (Inr (Some [1, 2]))) None (Finishing 0 sample_device # sample_asked))"
proof -
  let ?step = "\<lambda>s l t. op_step sample_discovery sample_tokens s (sample_op_env, l) t"
  have 1: "?step op_start (Ev_grant sample_candidate CERTIFICATE_PURPOSE_CLIENT_AUTH True True False 60) (sample_granted True)"
    unfolding sample_granting(1) [symmetric] by (rule step_grant) (simp_all add: op_start_def xcc_session_init_def)
  have 2: "?step (sample_granted True) Ev_delivered (sample_granted False)"
    unfolding sample_granting(2) [symmetric] by (rule step_delivered) (simp add: sample_granted_def)
  have 3: "?step (sample_granted False) (Ev_perform sample_request) (sample_at device_start Task_open None [])"
    unfolding sample_performing [symmetric] by (rule step_perform)
  have 4: "?step (sample_at device_start Task_open None []) (Ev_open_check 0) (sample_at device_start Task_open_lock None [])"
    unfolding sample_run(1) [symmetric] by (rule step_open_check, simp, simp+)
  have 5: "?step (sample_at device_start Task_open_lock None []) (Ev_open 0) (sample_at sample_device (Task_opened (Inr False)) None [])"
    unfolding sample_run(2) [symmetric] by (rule step_open, simp, simp+)
  have 6: "?step (sample_at sample_device (Task_opened (Inr False)) None []) (Ev_opened 0) (sample_at sample_device Task_sign None [])"
    unfolding sample_run(3) [symmetric] by (rule step_opened, simp, simp+)
  have 7: "?step (sample_at sample_device Task_sign None []) (Ev_sign_check 0) (sample_at sample_device Task_sign_lock None [])"
    unfolding sample_run(4) [symmetric] by (rule step_sign_check, simp, simp+)
  have 8: "?step (sample_at sample_device Task_sign_lock None []) (Ev_sign 0) (sample_at sample_device (Task_context 9) (Some 0) sample_asked)"
    unfolding sample_run(5) [symmetric] by (rule step_sign, simp, simp+)
  have 9: "?step (sample_at sample_device (Task_context 9) (Some 0) sample_asked) (Ev_context_done 0 CERTIFICATE_PIN_OK)
      (sample_at sample_device (Task_context_done 9 CERTIFICATE_PIN_OK) (Some 0) sample_asked)"
    unfolding sample_run(6) [symmetric] by (rule step_context_done, simp, simp+)
  show 10: "?step (sample_at sample_device (Task_context_done 9 CERTIFICATE_PIN_OK) (Some 0) sample_asked) (Ev_sign_authenticated 0)
      (sample_at sample_device (Task_signed (Inr (Some [1, 2]))) None (Finishing 0 sample_device # sample_asked))"
    unfolding sample_run(7) [symmetric] by (rule step_sign_authenticated, simp, simp+)
  show 8: "?step (sample_at sample_device Task_sign_lock None []) (Ev_sign 0) (sample_at sample_device (Task_context 9) (Some 0) sample_asked)"
    by (rule 8)
  have "sample_reach op_start" by (rule reach_init) simp
  from reach_step [OF reach_step [OF reach_step [OF reach_step [OF reach_step [OF reach_step [OF reach_step [OF this 1] 2] 3] 4] 5] 6] 7]
  show "sample_reach (sample_at sample_device Task_sign_lock None [])" .
  from reach_step [OF reach_step [OF this 8] 9]
  show "sample_reach (sample_at sample_device (Task_context_done 9 CERTIFICATE_PIN_OK) (Some 0) sample_asked)" .
  from reach_step [OF this 10]
  show "sample_reach (sample_at sample_device (Task_signed (Inr (Some [1, 2]))) None (Finishing 0 sample_device # sample_asked))" .
qed

theorem token_work_authorised_witness:
  "\<exists>c name parameters data. certificate_mechanism_parse name parameters (cd_key_type c) (cd_key_size c) False = Inr sample_mechanism \<and>
     certificate_mechanism_prepare sample_mechanism data = Inr (digest_info_sha256 @ replicate 32 7) \<and> dv_candidate sample_device = Some c"
proof -
  have "os_log (sample_at sample_device (Task_context 9) (Some 0) sample_asked) = sample_asked @ os_log (sample_at sample_device Task_sign_lock None [])"
    "Performing 0 sample_device False sample_mechanism (digest_info_sha256 @ replicate 32 7) \<in> set sample_asked"
    by (simp_all add: sample_use_def)
  from token_work_authorised [OF sample_reached(3,1) this] show ?thesis by blast
qed

theorem authenticated_work_authorised_witness:
  "dv_candidate sample_device = Some sample_candidate \<and> 0 \<in> set (performed sample_asked)"
proof -
  have "os_log (sample_at sample_device (Task_signed (Inr (Some [1, 2]))) None (Finishing 0 sample_device # sample_asked)) =
      [Finishing 0 sample_device] @ os_log (sample_at sample_device (Task_context_done 9 CERTIFICATE_PIN_OK) (Some 0) sample_asked)"
    "Finishing 0 sample_device \<in> set [Finishing 0 sample_device]" by simp_all
  from authenticated_work_authorised [OF sample_reached(4,2) this] show ?thesis by simp
qed

lemma sample_answer:
  "on_signed sample_op_env 0 (sample_at sample_device (Task_signed (Inr (Some [1, 2]))) None (Finishing 0 sample_device # sample_asked)) =
     operation_succeed 0 [1, 2] (sample_at sample_device Task_none None (Finishing 0 sample_device # sample_asked))"
proof -
  have m: "op_mechanism (sample_operation\<lparr>op_task := u\<rparr>) = sample_mechanism" "bm_type sample_mechanism = CKM_RSA_PKCS" for u
    by (simp_all add: sample_mechanism_def)
  show ?thesis by (simp add: on_signed_def task_propagate_def Let_def sample_at_update m)
qed

theorem results_only_when_live_witness:
  "\<exists>d. Performing 0 d False sample_mechanism (digest_info_sha256 @ replicate 32 7) \<in> set (Finishing 0 sample_device # sample_asked) \<and>
     dv_candidate d = Some sample_candidate"
proof -
  let ?s = "sample_at sample_device (Task_signed (Inr (Some [1, 2]))) None (Finishing 0 sample_device # sample_asked)"
  have step: "op_step sample_discovery sample_tokens ?s (sample_op_env, Ev_signed 0) (on_signed sample_op_env 0 ?s)"
    by (rule step_signed, simp, simp)
  have "os_log (on_signed sample_op_env 0 ?s) = [Op_done 0 (Inr [1, 2])] @ os_log ?s"
    unfolding sample_answer by (simp add: operation_succeed_def)
  from results_only_when_live [OF sample_reached(5) step this, of 0 "[1, 2]"] show ?thesis by auto
qed

theorem token_uses_bounded_witness: "distinct (performed (Finishing 0 sample_device # sample_asked))"
  using token_uses_bounded [OF sample_reached(5)] by simp

theorem operations_answered_once_witness:
  "length (done_results sample_asked 0) = 0 \<and> os_operation_lock (sample_at sample_device (Task_context_done 9 CERTIFICATE_PIN_OK) (Some 0) sample_asked) = Some 0"
  using operations_answered_once [OF sample_reached(4), of 0 "sample_operation\<lparr>op_task := Task_context_done 9 CERTIFICATE_PIN_OK\<rparr>"]
  by (simp add: in_context_def)

end
