(* ===== verification/OperationSettles.thy ===== *)
theory OperationSettles
  imports OperationGuarantees
begin

text \<open>
  What becomes of the operations of a closed session (\<open>Operations\<close>): nothing is started any more, each
  step the backend has yet to take brings an operation or the login dialogue closer to its end, and
  while an operation is not answered there is such a step.
\<close>

section \<open>The distance to the end\<close>

definition op_rank :: "operation \<Rightarrow> nat" where
  "op_rank x = (if op_answered x then 0 else case op_task x of
     Task_opened r \<Rightarrow> 1 | Task_open_lock \<Rightarrow> 2 | Task_open \<Rightarrow> 3 | Task_signed r \<Rightarrow> 4 | Task_context_done h out \<Rightarrow> 5
   | Task_context h \<Rightarrow> 6 | Task_sign_lock \<Rightarrow> 7 | Task_sign \<Rightarrow> 8 | Task_none \<Rightarrow> 9) + (if op_login_cancel_idle x then 1 else 0)"

definition ranks :: "op_state \<Rightarrow> nat" where
  "ranks s = (\<Sum>i<os_next s. case os_operations s i of None \<Rightarrow> 0 | Some x \<Rightarrow> op_rank x)"

definition login_rank :: "login_interaction option \<Rightarrow> nat" where
  "login_rank li = (case li of None \<Rightarrow> 0
   | Some l \<Rightarrow> (case li_stage l of Login_released \<Rightarrow> 1 | Login_releasing \<Rightarrow> 2 | Login_prompting \<Rightarrow> 3))"

definition settle_rank :: "op_state \<Rightarrow> nat" where
  "settle_rank s = ranks s + login_rank (os_interaction s) + os_releases s"

text \<open>
  The steps the backend takes on its own: sections of workers, callbacks, idle sources, and the end of a
  dialogue.  What callers do, and attempts to log in while a dialogue lasts, are not among them.
\<close>

definition settling :: "op_event \<Rightarrow> bool" where
  "settling l \<longleftrightarrow> (case l of
     Ev_open_check i \<Rightarrow> True | Ev_open i \<Rightarrow> True | Ev_opened i \<Rightarrow> True | Ev_sign_check i \<Rightarrow> True | Ev_sign i \<Rightarrow> True
   | Ev_context_done i out \<Rightarrow> True | Ev_sign_authenticated i \<Rightarrow> True | Ev_signed i \<Rightarrow> True | Ev_pin_done out \<Rightarrow> True
   | Ev_release_login \<Rightarrow> True | Ev_released_login \<Rightarrow> True | Ev_release \<Rightarrow> True | Ev_cancel_idle i \<Rightarrow> True | _ \<Rightarrow> False)"

lemma op_rank_le: "op_rank x \<le> 10"
  by (simp add: op_rank_def split: op_task.split)

lemma ranks_le: "ranks s \<le> 10 * os_next s"
proof -
  have "ranks s \<le> (\<Sum>i<os_next s. 10)" unfolding ranks_def by (rule sum_mono) (simp add: op_rank_le split: option.split)
  then show ?thesis by simp
qed

lemma ranks_mono:
  assumes "os_next t = os_next s"
    and "\<And>i x. os_operations s i = Some x \<Longrightarrow> \<exists>y. os_operations t i = Some y \<and> op_rank y \<le> op_rank x"
    and "\<And>i. os_operations s i = None \<Longrightarrow> os_operations t i = None"
  shows "ranks t \<le> ranks s"
  unfolding ranks_def assms(1)
proof (rule sum_mono)
  show "(case os_operations t i of None \<Rightarrow> 0 | Some x \<Rightarrow> op_rank x) \<le> (case os_operations s i of None \<Rightarrow> 0 | Some x \<Rightarrow> op_rank x)" for i
  proof (cases "os_operations s i")
    case (Some x)
    with assms(2) [OF Some] show ?thesis by auto
  qed (simp add: assms(3))
qed

lemma ranks_upd:
  assumes "os_next t = os_next s" "os_operations t = (os_operations s)(i \<mapsto> y)" "os_operations s i = Some x" "i < os_next s"
  shows "ranks t + op_rank x = ranks s + op_rank y"
proof -
  have "(\<Sum>j\<in>{..<os_next s} - {i}. case os_operations t j of None \<Rightarrow> 0 | Some x \<Rightarrow> op_rank x) =
      (\<Sum>j\<in>{..<os_next s} - {i}. case os_operations s j of None \<Rightarrow> 0 | Some x \<Rightarrow> op_rank x)"
    by (rule sum.cong) (simp_all add: assms(2))
  moreover have "ranks t = op_rank y + (\<Sum>j\<in>{..<os_next s} - {i}. case os_operations t j of None \<Rightarrow> 0 | Some x \<Rightarrow> op_rank x)"
    unfolding ranks_def assms(1) using assms(4) by (subst sum.remove [of _ i]) (simp_all add: assms(2))
  moreover have "ranks s = op_rank x + (\<Sum>j\<in>{..<os_next s} - {i}. case os_operations s j of None \<Rightarrow> 0 | Some x \<Rightarrow> op_rank x)"
    unfolding ranks_def using assms(4) by (subst sum.remove [of _ i]) (simp_all add: assms(3))
  ultimately show ?thesis by simp
qed

section \<open>The functions in a closed session\<close>

lemma closed_simps:
  assumes "se_closed (os_session s)"
  shows "xcc_session_close e s = s" "xcc_session_invalidate e reason s = s"
    "operation_still_authorised now c (os_session s) \<noteq> Inr ()"
  using assms by (simp_all add: xcc_session_close_def xcc_session_invalidate_def authorised_iff)

text \<open>One operation, brought closer to its end, everything else as it was.\<close>

definition moved :: "nat \<Rightarrow> operation \<Rightarrow> op_state \<Rightarrow> op_state \<Rightarrow> bool" where
  "moved i y s t \<longleftrightarrow> os_operations t = (os_operations s)(i \<mapsto> y) \<and> os_next t = os_next s \<and> os_interaction t = os_interaction s \<and>
     os_releases t = os_releases s \<and> se_closed (os_session t)"

lemma moved_less:
  assumes "op_inv X s" "os_operations s i = Some x" "moved i y s t" "op_rank y < op_rank x"
  shows "settle_rank t < settle_rank s"
proof -
  have "i < os_next s" by (rule op_atD(1) [OF assms(1,2)])
  with assms(3) have "ranks t + op_rank x = ranks s + op_rank y"
    by (intro ranks_upd) (use assms(2) in \<open>auto simp: moved_def\<close>)
  with assms(3,4) show ?thesis by (simp add: settle_rank_def moved_def)
qed

lemma moved_set:
  assumes "os_operations s i = Some x" "se_closed (os_session s)"
  shows "moved i (f x) s (op_set i f s)"
  using assms by (simp add: moved_def fun_eq_iff)

lemma moved_fail:
  assumes "moved i x s t" "\<not> op_answered x"
  shows "moved i (x\<lparr>op_answered := True\<rparr>) s (operation_fail i err t)"
  using assms by (simp add: operation_fail_def moved_def fun_eq_iff)

lemma moved_succeed:
  assumes "moved i x s t" "\<not> op_answered x"
  shows "moved i (x\<lparr>op_answered := True\<rparr>) s (operation_succeed i r t)"
  using assms by (simp add: operation_succeed_def moved_def fun_eq_iff)

lemma moved_again:
  assumes "moved i x s t"
  shows "moved i (f x) s (op_set i f t)" "se_closed (os_session t)" "os_operations t i = Some x"
  using assms by (simp_all add: moved_def fun_eq_iff)

lemma outcome_moved:
  assumes "moved i x s t" "\<not> op_answered x"
  shows "moved i (x\<lparr>op_answered := True\<rparr>) s (apply_login_outcome e i outcome t) \<or>
    outcome = CERTIFICATE_PIN_OK \<and> moved i (x\<lparr>op_task := Task_sign\<rparr>) s (apply_login_outcome e i outcome t)"
proof -
  have "moved i (x\<lparr>op_task := Task_sign\<rparr>) s (run_operation i t)"
    unfolding run_operation_def by (rule moved_again(1) [OF assms(1)])
  then show ?thesis
    using moved_fail [OF assms] moved_again(3) [OF assms(1)] closed_simps(2) [OF moved_again(2) [OF assms(1)], of e]
    by (cases outcome) (simp_all add: apply_login_outcome_def)
qed

lemma finish_waiter_moved:
  assumes "os_operations s i = Some x" "op_task x = Task_none" "\<not> op_answered x" "se_closed (os_session s)"
  shows "\<exists>y. moved i y s (finish_waiter e outcome i s) \<and> op_rank y < op_rank x"
proof -
  let ?x = "x\<lparr>op_login_cancel_id := False, op_login_cancel_idle := False\<rparr>"
  have d: "moved i ?x s (detach_waiter_cancel i s)"
    unfolding detach_waiter_cancel_def by (rule moved_set [OF assms(1,4)])
  show ?thesis
  proof (cases "op_retry_login x")
    case True
    let ?y = "?x\<lparr>op_retry_login := False, op_open_login_generation := se_login_generation (os_session s), op_task := Task_open\<rparr>"
    have "finish_waiter e outcome i s = open_operation i (op_set i (\<lambda>x. x\<lparr>op_retry_login := False\<rparr>) (detach_waiter_cancel i s))"
      using True assms(1) by (simp add: finish_waiter_def detach_waiter_cancel_def)
    moreover have "moved i ?y s \<dots>" using assms(1,4) by (simp add: moved_def open_operation_def detach_waiter_cancel_def fun_eq_iff)
    moreover have "op_rank ?y < op_rank x" using assms(2,3) by (simp add: op_rank_def)
    ultimately show ?thesis by metis
  next
    case False
    have "finish_waiter e outcome i s = apply_login_outcome e i outcome (detach_waiter_cancel i s)"
      using False assms(1) by (simp add: finish_waiter_def detach_waiter_cancel_def)
    moreover have "op_rank (?x\<lparr>op_answered := True\<rparr>) < op_rank x" "op_rank (?x\<lparr>op_task := Task_sign\<rparr>) < op_rank x"
      using assms(2,3) by (simp_all add: op_rank_def)
    ultimately show ?thesis using outcome_moved [OF d, of e outcome] assms(3) by auto
  qed
qed

lemma finish_waiters_moved:
  assumes "\<forall>i\<in>set ws. \<exists>x. os_operations s i = Some x \<and> op_task x = Task_none \<and> \<not> op_answered x" "distinct ws" "se_closed (os_session s)"
  shows "ranks (fold (finish_waiter e outcome) ws s) \<le> ranks s \<and> se_closed (os_session (fold (finish_waiter e outcome) ws s)) \<and>
    os_interaction (fold (finish_waiter e outcome) ws s) = os_interaction s \<and> os_releases (fold (finish_waiter e outcome) ws s) = os_releases s"
  using assms
proof (induction ws arbitrary: s)
  case (Cons i ws)
  let ?t = "finish_waiter e outcome i s"
  from Cons.prems(1) obtain x where x: "os_operations s i = Some x" "op_task x = Task_none" "\<not> op_answered x" by auto
  from finish_waiter_moved [OF x Cons.prems(3), of e outcome] obtain y where y: "moved i y s ?t" "op_rank y < op_rank x" by blast
  have "\<forall>j\<in>set ws. \<exists>z. os_operations ?t j = Some z \<and> op_task z = Task_none \<and> \<not> op_answered z"
    using Cons.prems(1,2) y(1) by (auto simp: moved_def)
  then have "ranks (fold (finish_waiter e outcome) ws ?t) \<le> ranks ?t \<and> se_closed (os_session (fold (finish_waiter e outcome) ws ?t)) \<and>
      os_interaction (fold (finish_waiter e outcome) ws ?t) = os_interaction ?t \<and> os_releases (fold (finish_waiter e outcome) ws ?t) = os_releases ?t"
    using Cons.prems(2) y(1) by (intro Cons.IH) (auto simp: moved_def)
  moreover have "ranks ?t \<le> ranks s"
    by (rule ranks_mono) (use y x in \<open>auto simp: moved_def\<close>)
  ultimately show ?case using y(1) by (auto simp: moved_def)
qed simp

section \<open>Every step is progress\<close>

lemma finish_login_less:
  assumes inv: "op_inv {} s" and c: "se_closed (os_session s)" and li: "os_interaction s = Some li"
  shows "settle_rank (finish_login e s) < settle_rank s \<and> se_closed (os_session (finish_login e s))"
proof -
  define s1 where "s1 = (session_set (\<lambda>se. se\<lparr>se_login_in_progress := False, se_login_generation := se_login_generation se + 1,
      se_login_waiters := None\<rparr>) s)\<lparr>os_interaction := None\<rparr>"
  have s1: "os_operations s1 = os_operations s" "se_closed (os_session s1)" "os_interaction s1 = None" "os_releases s1 = os_releases s"
    "ranks s1 = ranks s" using c by (simp_all add: s1_def ranks_def)
  have eq: "finish_login e s = fold (finish_waiter e (li_outcome li)) (waiters s) s1"
    by (simp add: finish_login_def li Let_def s1_def waiters_def)
  have "\<forall>i\<in>set (waiters s). \<exists>x. os_operations s1 i = Some x \<and> op_task x = Task_none \<and> \<not> op_answered x"
    unfolding s1(1) using waiter_operation [OF inv] by metis
  moreover have "distinct (waiters s)"
    using op_invD(3) [OF inv] by (auto simp: login_ok_def login_fields_def waiters_def li)
  ultimately have "ranks (finish_login e s) \<le> ranks s \<and> se_closed (os_session (finish_login e s)) \<and>
      os_interaction (finish_login e s) = None \<and> os_releases (finish_login e s) = os_releases s"
    using finish_waiters_moved [of "waiters s" s1 e "li_outcome li"] s1 unfolding eq by simp
  moreover have "login_rank (Some li) > 0" by (simp add: login_rank_def split: login_stage.split)
  ultimately show ?thesis using li by (simp add: settle_rank_def login_rank_def)
qed

lemma interaction_ranks: "ranks (s\<lparr>os_interaction := li\<rparr>) = ranks s" "ranks (s\<lparr>os_releases := n\<rparr>) = ranks s"
  "ranks (session_set f s) = ranks s" "ranks (op_note x s) = ranks s"
  by (simp_all add: ranks_def)

lemma on_pin_done_less:
  assumes inv: "op_inv {} s" and c: "se_closed (os_session s)" and li: "os_interaction s = Some li" "li_stage li = Login_prompting"
  shows "settle_rank (on_pin_done e outcome s) < settle_rank s \<and> se_closed (os_session (on_pin_done e outcome s))"
proof -
  define li1 where "li1 = li\<lparr>li_outcome := if outcome = CERTIFICATE_PIN_OK \<and> li_cancelled li then CERTIFICATE_PIN_CANCELLED else outcome\<rparr>"
  have "settle_rank (s\<lparr>os_interaction := Some li1\<rparr>) = settle_rank s"
    using li by (simp add: settle_rank_def interaction_ranks login_rank_def li1_def)
  with finish_login_less [OF op_inv_interaction [OF inv li(1)], of li1 li1 e] c
  have "settle_rank (finish_login e (s\<lparr>os_interaction := Some li1\<rparr>)) < settle_rank s \<and>
      se_closed (os_session (finish_login e (s\<lparr>os_interaction := Some li1\<rparr>)))" by simp
  moreover have "settle_rank (s\<lparr>os_interaction := Some (li1\<lparr>li_cancelled := True, li_stage := Login_releasing\<rparr>)\<rparr>) < settle_rank s"
    using li by (simp add: settle_rank_def interaction_ranks login_rank_def)
  ultimately show ?thesis using li c by (simp add: on_pin_done_def Let_def li1_def)
qed

lemma cancel_idle_less:
  assumes inv: "op_inv {} s" and c: "se_closed (os_session s)" and x: "os_operations s i = Some x" "op_login_cancel_idle x"
  shows "settle_rank (waiter_cancelled_idle i s) < settle_rank s \<and> se_closed (os_session (waiter_cancelled_idle i s))"
proof -
  define s1 where "s1 = op_set i (\<lambda>x. x\<lparr>op_login_cancel_idle := False\<rparr>) s"
  let ?x = "x\<lparr>op_login_cancel_idle := False\<rparr>"
  have s1: "moved i ?x s s1" unfolding s1_def by (rule moved_set [OF x(1) c])
  have r1: "op_rank ?x < op_rank x" using x(2) by (simp add: op_rank_def)
  show ?thesis
  proof (cases "i \<in> set (waiters s)")
    case False
    then have "waiter_cancelled_idle i s = s1"
      by (auto simp: waiter_cancelled_idle_def Let_def s1_def waiters_def split: option.split)
    then show ?thesis using moved_less [OF inv x(1) s1 r1] s1 by (simp add: moved_def)
  next
    case True
    from waiter_operation [OF inv True] x(1) have n: "\<not> op_answered x" by (metis option.inject)
    obtain ws where ws: "se_login_waiters (os_session s) = Some ws" "i \<in> set ws"
      using True by (cases "se_login_waiters (os_session s)") (auto simp: waiters_def)
    define s3 where "s3 = operation_fail i (Error_pkcs11 CERTIFICATE_PKCS11_ERROR_CANCELLED)
        (detach_waiter_cancel i (session_set (\<lambda>se. se\<lparr>se_login_waiters := Some (remove1 i ws)\<rparr>) s1))"
    let ?y = "x\<lparr>op_login_cancel_id := False, op_login_cancel_idle := False\<rparr>"
    have "moved i ?y s (detach_waiter_cancel i (session_set (\<lambda>se. se\<lparr>se_login_waiters := Some (remove1 i ws)\<rparr>) s1))"
      using x(1) c by (simp add: moved_def detach_waiter_cancel_def s1_def fun_eq_iff)
    from moved_fail [OF this] n have s3: "moved i (?y\<lparr>op_answered := True\<rparr>) s s3" by (simp add: s3_def)
    have "op_rank (?y\<lparr>op_answered := True\<rparr>) < op_rank x" using n x(2) by (simp add: op_rank_def)
    with s3 moved_less [OF inv x(1) s3] have less: "settle_rank s3 < settle_rank s" "se_closed (os_session s3)" by (simp_all add: moved_def)
    have "waiter_cancelled_idle i s = (if remove1 i ws = [] then (case os_interaction s3 of None \<Rightarrow> s3
        | Some li \<Rightarrow> op_note Window_cancelled (s3\<lparr>os_interaction := Some (li\<lparr>li_cancelled := True\<rparr>)\<rparr>)) else s3)"
      using ws by (simp add: waiter_cancelled_idle_def Let_def s1_def s3_def cong: option.case_cong)
    moreover have "settle_rank (op_note Window_cancelled (s3\<lparr>os_interaction := Some (li\<lparr>li_cancelled := True\<rparr>)\<rparr>)) = settle_rank s3"
      if "os_interaction s3 = Some li" for li
      using that by (simp add: settle_rank_def interaction_ranks login_rank_def)
    ultimately show ?thesis using less by (auto split: option.split)
  qed
qed

lemma opened_less:
  assumes inv: "op_inv {} s" and c: "se_closed (os_session s)" and x: "os_operations s i = Some x" "op_task x = Task_opened r"
  shows "settle_rank (on_opened e i s) < settle_rank s \<and> se_closed (os_session (on_opened e i s))"
proof -
  have nt: "op_task x \<noteq> Task_none" using x(2) by simp
  note out = task_out [OF inv x(1) nt]
  let ?s0 = "op_set i (\<lambda>x. x\<lparr>op_task := Task_none\<rparr>) s"
  have s0: "moved i (x\<lparr>op_task := Task_none\<rparr>) s ?s0" by (rule moved_set [OF x(1) c])
  have closed: "se_closed (os_session ?s0)" using c by simp
  have "\<exists>err. on_opened e i s = operation_fail i err ?s0"
  proof (cases "task_propagate x r")
    case (Inl err)
    then show ?thesis using x closed_simps(2) [OF closed, of e] by (auto simp: on_opened_def Let_def)
  next
    case (Inr b)
    obtain err where "operation_still_authorised (oe_now e) (op_is_cancelled x) (os_session ?s0) = Inl err"
      using closed_simps(3) [OF closed] by (metis (full_types) old.sum.exhaust old.unit.exhaust)
    then show ?thesis using x Inr by (auto simp: on_opened_def Let_def)
  qed
  then obtain err where "on_opened e i s = operation_fail i err ?s0" by blast
  with moved_fail [OF s0] out(1) have "moved i (x\<lparr>op_task := Task_none, op_answered := True\<rparr>) s (on_opened e i s)" by simp
  moreover have "op_rank (x\<lparr>op_task := Task_none, op_answered := True\<rparr>) < op_rank x"
    using out(1,4) x(2) by (simp add: op_rank_def op_clear_def)
  ultimately show ?thesis using moved_less [OF inv x(1)] by (auto simp: moved_def)
qed

lemma signed_less:
  assumes inv: "op_inv {} s" and c: "se_closed (os_session s)" and x: "os_operations s i = Some x" "op_task x = Task_signed r"
  shows "settle_rank (on_signed e i s) < settle_rank s \<and> se_closed (os_session (on_signed e i s))"
proof -
  have nt: "op_task x \<noteq> Task_none" using x(2) by simp
  note out = task_out [OF inv x(1) nt]
  have idle: "\<not> op_login_cancel_idle x" using out(4) by (simp add: op_clear_def)
  let ?s0 = "op_set i (\<lambda>x. x\<lparr>op_task := Task_none\<rparr>) s" and ?x0 = "x\<lparr>op_task := Task_none\<rparr>"
  have s0: "moved i ?x0 s ?s0" by (rule moved_set [OF x(1) c])
  have closed: "se_closed (os_session ?s0)" using c by simp
  note inval = closed_simps(2) [OF closed, of e]
  have "\<exists>y. moved i y s (on_signed e i s) \<and> op_rank y < op_rank x"
  proof (cases "op_retry_open x \<and> (\<exists>v. task_propagate x r = Inr v)")
    case True
    let ?s1 = "op_set i (\<lambda>x. x\<lparr>op_retry_open := False\<rparr>) ?s0" and ?x1 = "?x0\<lparr>op_retry_open := False\<rparr>"
    have s1: "moved i ?x1 s ?s1" by (rule moved_again(1) [OF s0])
    show ?thesis
    proof (cases "op_retried_open x")
      case again: True
      have "on_signed e i s = operation_fail i (Error_pkcs11 CERTIFICATE_PKCS11_ERROR_FAILED) ?s1"
        unfolding on_signed_def x option.case op_task.case Let_def using True again by simp
      moreover have "moved i (?x1\<lparr>op_answered := True\<rparr>) s (operation_fail i (Error_pkcs11 CERTIFICATE_PKCS11_ERROR_FAILED) ?s1)"
        by (rule moved_fail [OF s1]) (use out(1) in simp)
      ultimately show ?thesis using idle x(2) out(1)
        by (intro exI [of _ "?x1\<lparr>op_answered := True\<rparr>"]) (simp add: op_rank_def)
    next
      case False
      let ?y = "?x1\<lparr>op_retried_open := True, op_open_login_generation := se_login_generation (os_session s), op_task := Task_open\<rparr>"
      have "on_signed e i s = open_operation i (op_set i (\<lambda>x. x\<lparr>op_retried_open := True\<rparr>) ?s1)"
        unfolding on_signed_def x option.case op_task.case Let_def using True False by simp
      moreover have "moved i ?y s (open_operation i (op_set i (\<lambda>x. x\<lparr>op_retried_open := True\<rparr>) ?s1))"
        using x(1) c by (simp add: moved_def open_operation_def fun_eq_iff)
      ultimately show ?thesis using idle x(2) out(1) by (intro exI [of _ ?y]) (simp add: op_rank_def)
    qed
  next
    case False
    have answered: "moved i (?x0\<lparr>op_answered := True\<rparr>) s (on_signed e i s)"
    proof (cases "task_propagate x r")
      case (Inl err)
      have "on_signed e i s = (if op_context_outcome x \<noteq> CERTIFICATE_PIN_OK then apply_login_outcome e i (op_context_outcome x) ?s0
          else operation_fail i err ?s0)"
        using x Inl inval by (simp add: on_signed_def Let_def)
      then show ?thesis using moved_fail [OF s0] outcome_moved [OF s0, of e "op_context_outcome x"] out(1)
        by (cases "op_context_outcome x = CERTIFICATE_PIN_OK") simp_all
    next
      case (Inr v)
      with False have n: "\<not> op_retry_open x" by blast
      have "r = Inr v" using Inr by (simp add: task_propagate_def split: if_splits)
      with n out(6) x(2) obtain w where w: "v = Some w" by (cases v) auto
      show ?thesis using x Inr n w moved_fail [OF s0] moved_succeed [OF s0] out(1)
        by (simp add: on_signed_def Let_def split: sum.split)
    qed
    then show ?thesis using idle x(2) out(1) by (intro exI [of _ "?x0\<lparr>op_answered := True\<rparr>"]) (simp add: op_rank_def)
  qed
  then obtain y where y: "moved i y s (on_signed e i s)" "op_rank y < op_rank x" by blast
  from moved_less [OF inv x(1) y] y(1) show ?thesis by (simp add: moved_def)
qed

lemma worker_less:
  assumes inv: "op_inv {} s" and c: "se_closed (os_session s)" and x: "os_operations s i = Some x" and cd: "se_candidate (os_session s) \<noteq> None"
  shows "op_task x = Task_open \<Longrightarrow> settle_rank (open_check e i s) < settle_rank s \<and> se_closed (os_session (open_check e i s))"
    "op_task x = Task_open_lock \<Longrightarrow> settle_rank (open_thread D ts e i s) < settle_rank s \<and> se_closed (os_session (open_thread D ts e i s))"
    "op_task x = Task_sign \<Longrightarrow> settle_rank (sign_check e i s) < settle_rank s \<and> se_closed (os_session (sign_check e i s))"
    "op_task x = Task_sign_lock \<Longrightarrow> settle_rank (sign_thread D e i s) < settle_rank s \<and> se_closed (os_session (sign_thread D e i s))"
    "op_task x = Task_context h \<Longrightarrow> settle_rank (on_context_pin_done i outcome s) < settle_rank s \<and> se_closed (os_session (on_context_pin_done i outcome s))"
proof -
  obtain err where a: "operation_still_authorised (oe_now e) (op_is_cancelled x) (os_session s) = Inl err"
    using closed_simps(3) [OF c] by (metis (full_types) old.sum.exhaust old.unit.exhaust)
  from cd obtain cc where cc: "se_candidate (os_session s) = Some cc" by auto
  have less: "settle_rank t < settle_rank s \<and> se_closed (os_session t)"
    if "moved i (x\<lparr>op_task := u\<rparr>) s t" "op_rank (x\<lparr>op_task := u\<rparr>) < op_rank x" for t u
    using moved_less [OF inv x that] that(1) by (simp add: moved_def)
  have set: "moved i (x\<lparr>op_task := u\<rparr>) s (op_set i (\<lambda>x. x\<lparr>op_task := u\<rparr>) s)" for u by (rule moved_set [OF x c])
  have n: "\<not> op_answered x" if "op_task x \<noteq> Task_none" using task_out(1) [OF inv x that] .
  { assume t: "op_task x = Task_open"
    show "settle_rank (open_check e i s) < settle_rank s \<and> se_closed (os_session (open_check e i s))"
      by (rule less [of "Task_opened (Inl (Error_pkcs11 err))"])
        (use t n x a c in \<open>simp_all add: open_check_def moved_def fun_eq_iff op_rank_def\<close>)
  next assume t: "op_task x = Task_open_lock"
    show "settle_rank (open_thread D ts e i s) < settle_rank s \<and> se_closed (os_session (open_thread D ts e i s))"
      by (rule less [of "Task_opened (Inl (Error_pkcs11 err))"])
        (use t n x a c cc in \<open>simp_all add: open_thread_def set op_rank_def\<close>)
  next assume t: "op_task x = Task_sign"
    show "settle_rank (sign_check e i s) < settle_rank s \<and> se_closed (os_session (sign_check e i s))"
      by (rule less [of "Task_signed (Inl (Error_pkcs11 err))"])
        (use t n x a c in \<open>simp_all add: sign_check_def moved_def fun_eq_iff op_rank_def\<close>)
  next assume t: "op_task x = Task_sign_lock"
    show "settle_rank (sign_thread D e i s) < settle_rank s \<and> se_closed (os_session (sign_thread D e i s))"
      by (rule less [of "Task_signed (Inl (Error_pkcs11 err))"])
        (use t n x a c cc in \<open>simp_all add: sign_thread_def op_finish_task_def set op_rank_def\<close>)
  next assume t: "op_task x = Task_context h"
    show "settle_rank (on_context_pin_done i outcome s) < settle_rank s \<and> se_closed (os_session (on_context_pin_done i outcome s))"
      by (rule less [of "Task_context_done h outcome"])
        (use t n x c in \<open>simp_all add: on_context_pin_done_def moved_def fun_eq_iff op_rank_def\<close>) }
qed

lemma authenticated_less:
  assumes inv: "op_inv {} s" and c: "se_closed (os_session s)" and x: "os_operations s i = Some x" "op_task x = Task_context_done h outcome"
  shows "settle_rank (sign_thread_authenticated D e i s) < settle_rank s \<and> se_closed (os_session (sign_thread_authenticated D e i s))"
proof -
  obtain d1 result where eq: "sign_thread_authenticated D e i s =
      op_finish_task i (signed_result (op_decrypt x) result) (device_set d1
        (if authenticate_context e h outcome x (os_session s) = Inr ()
         then op_note (Finishing i (se_device (os_session s))) (op_set i (\<lambda>x. x\<lparr>op_context_outcome := outcome\<rparr>) (s\<lparr>os_operation_lock := None\<rparr>))
         else op_set i (\<lambda>x. x\<lparr>op_context_outcome := outcome\<rparr>) (s\<lparr>os_operation_lock := None\<rparr>)))"
    "outcome \<noteq> CERTIFICATE_PIN_OK \<longrightarrow> (\<exists>err. result = Inl err)" by (rule sign_thread_authenticated_eq [OF x])
  let ?y = "x\<lparr>op_context_outcome := outcome, op_task := Task_signed (signed_result (op_decrypt x) result)\<rparr>"
  have nt: "op_task x \<noteq> Task_none" using x(2) by simp
  have "moved i ?y s (sign_thread_authenticated D e i s)"
    using x(1) c by (simp add: eq(1) moved_def op_finish_task_def fun_eq_iff)
  moreover have "op_rank ?y < op_rank x" using x(2) task_out(1) [OF inv x(1) nt] by (simp add: op_rank_def)
  ultimately show ?thesis using moved_less [OF inv x(1)] by (auto simp: moved_def)
qed

definition settle_step :: "'w discovery_env \<Rightarrow> certificate_tokens \<Rightarrow> op_state \<Rightarrow> 'w op_env \<times> op_event \<Rightarrow> op_state \<Rightarrow> bool" where
  "settle_step D ts s l t \<longleftrightarrow> settling (snd l) \<and> op_step D ts s l t"

lemma settle_less:
  assumes inv: "op_inv {} s" and g: "grant_inv D ts s" and c: "se_closed (os_session s)" and step: "settle_step D ts s l t"
  shows "settle_rank t < settle_rank s \<and> se_closed (os_session t)"
proof -
  have cd: "se_candidate (os_session s) \<noteq> None" if "os_operations s i = Some x" for i x
    using g that by (auto simp: grant_inv_def op_permitted_def)
  from step have "op_step D ts s l t" "settling (snd l)" by (simp_all add: settle_step_def)
  then show ?thesis
  proof (cases rule: op_step.cases)
    case (step_release_login li e)
    then show ?thesis using c by (simp add: release_login_def settle_rank_def interaction_ranks login_rank_def)
  next
    case (step_release e)
    then show ?thesis using c by (simp add: settle_rank_def interaction_ranks)
  qed (use c cd in \<open>auto simp: settling_def intro: worker_less [OF inv c, THEN conjunct1] worker_less [OF inv c, THEN conjunct2]
      opened_less [OF inv c, THEN conjunct1] opened_less [OF inv c, THEN conjunct2]
      signed_less [OF inv c, THEN conjunct1] signed_less [OF inv c, THEN conjunct2]
      authenticated_less [OF inv c, THEN conjunct1] authenticated_less [OF inv c, THEN conjunct2]
      finish_login_less [OF inv c, THEN conjunct1] finish_login_less [OF inv c, THEN conjunct2]
      on_pin_done_less [OF inv c, THEN conjunct1] on_pin_done_less [OF inv c, THEN conjunct2]
      cancel_idle_less [OF inv c, THEN conjunct1] cancel_idle_less [OF inv c, THEN conjunct2]\<close>)
qed

lemma settleI: "op_step D ts s (e, l) t \<Longrightarrow> settling l \<Longrightarrow> \<exists>l t. settle_step D ts s (e, l) t"
  by (auto simp: settle_step_def)

lemma settle_enabled:
  assumes inv: "op_inv {} s" and x: "os_operations s i = Some x" "\<not> op_answered x"
  shows "\<exists>l t. settle_step D ts s (e, l) t"
proof -
  have in_task: "\<exists>l t. settle_step D ts s (e, l) t" if y: "os_operations s k = Some y" and t: "op_task y \<noteq> Task_none" "op_task y \<noteq> Task_sign_lock" for k y
  proof (cases "op_task y")
    case (Task_opened r) from step_opened [OF y this, of D ts e] show ?thesis by (rule settleI) (simp add: settling_def)
  next case Task_open from step_open_check [OF y this, of D ts e] show ?thesis by (rule settleI) (simp add: settling_def)
  next case Task_open_lock from step_open [OF y this, of D ts e] show ?thesis by (rule settleI) (simp add: settling_def)
  next case Task_sign from step_sign_check [OF y this, of D ts e] show ?thesis by (rule settleI) (simp add: settling_def)
  next case (Task_context h) from step_context_done [OF y this, of D ts e] show ?thesis by (rule settleI) (simp add: settling_def)
  next case (Task_context_done h out) from step_sign_authenticated [OF y this, of D ts e] show ?thesis by (rule settleI) (simp add: settling_def)
  next case (Task_signed r) from step_signed [OF y this, of D ts e] show ?thesis by (rule settleI) (simp add: settling_def)
  qed (use t in simp_all)
  consider "op_task x = Task_none" | "op_task x = Task_sign_lock" | "op_task x \<noteq> Task_none" "op_task x \<noteq> Task_sign_lock" by blast
  then show ?thesis
  proof cases
    case 1
    with op_atD(2) [OF inv x(1)] x(2) have "i \<in> set (waiters s)" by (simp add: op_place_def)
    then have "se_login_waiters (os_session s) \<noteq> None" by (cases "se_login_waiters (os_session s)") (simp_all add: waiters_def)
    with op_invD(3) [OF inv] obtain li where li: "os_interaction s = Some li"
      by (auto simp: login_ok_def login_fields_def split: option.splits)
    show ?thesis
    proof (cases "li_stage li")
      case Login_prompting from step_pin_done [OF li this, of D ts e] show ?thesis by (rule settleI) (simp add: settling_def)
    next case Login_releasing from step_release_login [OF li this, of D ts e] show ?thesis by (rule settleI) (simp add: settling_def)
    next case Login_released from step_released_login [OF li this, of D ts e] show ?thesis by (rule settleI) (simp add: settling_def)
    qed
  next
    case 2
    show ?thesis
    proof (cases "os_operation_lock s")
      case None
      from step_sign [OF x(1) 2 None, of D ts e] show ?thesis by (rule settleI) (simp add: settling_def)
    next
      case (Some k)
      with op_invD(2) [OF inv] obtain y where y: "os_operations s k = Some y" "in_context y" by (auto simp: lock_ok_def)
      then have "op_task y \<noteq> Task_none" "op_task y \<noteq> Task_sign_lock" by (auto simp: in_context_def)
      with in_task [OF y(1)] show ?thesis .
    qed
  next
    case 3
    with in_task [OF x(1)] show ?thesis .
  qed
qed

lemma step_next:
  assumes inv: "op_inv {} s" and step: "op_step D ts s l t"
  shows "os_next s \<le> os_next t"
proof -
  have c: "os_next s \<le> os_next u" if "calm s u" for u using that by (simp add: calm_def)
  show ?thesis using step
  proof (cases rule: op_step.cases)
    case (step_perform e r)
    then show ?thesis by (cases rule: perform_cases [of e r s]) simp_all
  next
    case (step_sign i x e)
    then show ?thesis by (cases rule: sign_thread_cases [of D e i s]) (simp_all add: op_finish_task_def split: option.split)
  next
    case (step_sign_authenticated i x h outcome e)
    show ?thesis unfolding step_sign_authenticated(2)
      by (rule sign_thread_authenticated_eq [OF step_sign_authenticated(3,4), of D e]) (simp add: op_finish_task_def)
  next
    case (step_signed i x r e)
    from step_signed(3,4) show ?thesis
    proof (cases rule: on_signed_cases [where e = e])
      case (result v out)
      then show ?thesis using step_signed(2) by (simp add: operation_succeed_def split: option.split)
    qed (use c step_signed in simp)
  next
    case (step_opened i x r e)
    have w: "\<forall>j\<in>set (waiters s). se_login_in_progress (os_session s) \<or> True" by simp
    show ?thesis unfolding step_opened(2) by (rule c) (rule calm.same_on_opened [OF TrueI w])
  qed (auto intro: c calm.same_open_check calm.same_sign_check calm.same_open_thread calm.same_context_login
      calm.same_do_login calm.same_pin_done calm.same_finish_login calm.same_release_login calm.same_released calm.same_cancel
      calm.same_cancel_idle calm.same_expired calm.same_invalidate calm.same_close simp: on_context_pin_done_def)
qed

lemma operations_below: "op_inv {} s \<Longrightarrow> i < os_next s \<Longrightarrow> \<exists>x. os_operations s i = Some x"
  using op_invD(1) [of "{}" s i] by (cases "os_operations s i") (simp_all add: op_at_def)

section \<open>Properties\<close>

lemma closed_session_runs:
  assumes "op_reachable D ts s" and "se_closed (os_session s)"
  shows "\<exists>t. reach (\<lambda>u. u = s) (settle_step D ts) t \<and>
    (\<forall>i<os_next s. \<exists>x. os_operations t i = Some x \<and> op_answered x \<and> length (done_results (os_log t) i) = 1)"
  using assms
proof (induction "settle_rank s" arbitrary: s rule: less_induct)
  case less
  from grant.reach_inv [OF less.prems(1)] have inv: "op_inv {} s" and g: "grant_inv D ts s" by auto
  show ?case
  proof (cases "\<exists>i x. os_operations s i = Some x \<and> \<not> op_answered x")
    case True
    then obtain i x where x: "os_operations s i = Some x" "\<not> op_answered x" by blast
    obtain l t where t: "settle_step D ts s (undefined, l) t" using settle_enabled [OF inv x] by blast
    then have step: "op_step D ts s (undefined, l) t" by (simp add: settle_step_def)
    have rt: "op_reachable D ts t" by (rule reach_step [OF less.prems(1) step])
    from settle_less [OF inv g less.prems(2) t] have "settle_rank t < settle_rank s" "se_closed (os_session t)" by simp_all
    from less.hyps [OF this(1) rt this(2)] obtain u where u: "reach (\<lambda>u. u = t) (settle_step D ts) u"
      "\<forall>i<os_next t. \<exists>x. os_operations u i = Some x \<and> op_answered x \<and> length (done_results (os_log u) i) = 1" by blast
    have "reach (\<lambda>u. u = s) (settle_step D ts) u"
      using u(1)
    proof (induction rule: reach.induct)
      case (reach_init v)
      have "reach (\<lambda>u. u = s) (settle_step D ts) s" by (rule reach.reach_init) simp
      from reach.reach_step [OF this t] reach_init show ?case by simp
    next
      case (reach_step v k w)
      show ?case by (rule reach.reach_step [OF reach_step(3,2)])
    qed
    moreover have "os_next s \<le> os_next t" by (rule step_next [OF inv step])
    ultimately show ?thesis using u(2) by (meson order_less_le_trans)
  next
    case False
    have "\<exists>x. os_operations s i = Some x \<and> op_answered x \<and> length (done_results (os_log s) i) = 1" if "i < os_next s" for i
    proof -
      from operations_below [OF inv that] obtain x where "os_operations s i = Some x" by blast
      with False op_invD(4) [OF inv] show ?thesis by (auto simp: answers_ok_def)
    qed
    moreover have "reach (\<lambda>u. u = s) (settle_step D ts) s" by (rule reach_init) simp
    ultimately show ?thesis by blast
  qed
qed

text \<open>C16 (termination): in a closed session every step the backend takes on its own lowers a number that is at
  most ten for every operation, three for the login dialogue and one for every release of the device, so
  there are at most so many of them, whatever the tokens do; and the session stays closed.\<close>

theorem closed_session_winds_down:
  assumes "op_reachable D ts s" and "se_closed (os_session s)" and "settle_step D ts s l t"
  shows "settle_rank t < settle_rank s \<and> settle_rank s \<le> 10 * os_next s + 3 + os_releases s \<and> se_closed (os_session t)"
proof -
  from grant.reach_inv [OF assms(1)] have inv: "op_inv {} s" and g: "grant_inv D ts s" by auto
  have "login_rank (os_interaction s) \<le> 3" by (simp add: login_rank_def split: option.split login_stage.split)
  with ranks_le [of s] have "settle_rank s \<le> 10 * os_next s + 3 + os_releases s" by (simp add: settle_rank_def)
  with settle_less [OF inv g assms(2,3)] show ?thesis by simp
qed

text \<open>C17 (liveness): while a session that is closed has an unanswered operation the backend has a step to take,
  whatever the clock and the tokens are then; and such steps lead to a state in which every operation that was
  accepted has been answered, once.\<close>

theorem closed_session_settles:
  assumes "op_reachable D ts s" and "se_closed (os_session s)"
  shows "(\<forall>i x e. os_operations s i = Some x \<and> \<not> op_answered x \<longrightarrow> (\<exists>l t. settle_step D ts s (e, l) t)) \<and>
    (\<exists>t. reach (\<lambda>u. u = s) (settle_step D ts) t \<and>
      (\<forall>i<os_next s. \<exists>x. os_operations t i = Some x \<and> op_answered x \<and> length (done_results (os_log t) i) = 1))"
proof -
  from grant.reach_inv [OF assms(1)] have inv: "op_inv {} s" by auto
  show ?thesis using settle_enabled [OF inv] closed_session_runs [OF assms] by blast
qed

lemma sample_closed:
  "op_reachable sample_discovery sample_tokens
     (xcc_session_close sample_op_env (sample_at sample_device (Task_context_done 9 CERTIFICATE_PIN_OK) (Some 0) sample_asked))"
  by (rule reach_step [OF sample_reached(4) step_close])

lemma sample_closed_fields:
  "se_closed (os_session (xcc_session_close e s))" "os_next (xcc_session_close e s) = os_next s"
  by (simp_all add: xcc_session_close_def xcc_session_release_device_async_def Let_def)

theorem closed_session_winds_down_witness:
  "\<exists>t. settle_rank t < settle_rank (xcc_session_close sample_op_env (sample_at sample_device (Task_context_done 9 CERTIFICATE_PIN_OK) (Some 0) sample_asked))"
proof -
  let ?s = "xcc_session_close sample_op_env (sample_at sample_device (Task_context_done 9 CERTIFICATE_PIN_OK) (Some 0) sample_asked)"
  from close_operation [of "sample_at sample_device (Task_context_done 9 CERTIFICATE_PIN_OK) (Some 0) sample_asked" 0
      "sample_operation\<lparr>op_task := Task_context_done 9 CERTIFICATE_PIN_OK\<rparr>" sample_op_env]
  obtain y where "os_operations ?s 0 = Some y" "op_task y = Task_context_done 9 CERTIFICATE_PIN_OK" by auto
  from step_sign_authenticated [OF this, of sample_discovery sample_tokens sample_op_env]
  have "settle_step sample_discovery sample_tokens ?s (sample_op_env, Ev_sign_authenticated 0)
      (sign_thread_authenticated sample_discovery sample_op_env 0 ?s)" by (simp add: settle_step_def settling_def)
  from closed_session_winds_down [OF sample_closed sample_closed_fields(1) this] show ?thesis by blast
qed

theorem closed_session_settles_witness:
  "\<exists>t x. os_operations t 0 = Some x \<and> op_answered x \<and>
     reach (\<lambda>u. u = xcc_session_close sample_op_env (sample_at sample_device (Task_context_done 9 CERTIFICATE_PIN_OK) (Some 0) sample_asked))
       (settle_step sample_discovery sample_tokens) t"
proof -
  have "0 < os_next (xcc_session_close sample_op_env (sample_at sample_device (Task_context_done 9 CERTIFICATE_PIN_OK) (Some 0) sample_asked))"
    unfolding sample_closed_fields(2) by (simp add: sample_at_def)
  with closed_session_settles [OF sample_closed sample_closed_fields(1)] show ?thesis by blast
qed

end
