(* ===== verification/CoreSessions.thy ===== *)
theory CoreSessions
  imports Core OperationSettles
begin

text \<open>
  What the steps of a session's operations leave to the rest of the core: a step the core does not take
  itself changes neither the terms of the grant nor the number of operations (\<open>weak\<close>), and an operation
  becomes answered in it exactly when the step reports a result for it, once (\<open>own_step_reports\<close>).
\<close>

definition same_input :: "operation \<Rightarrow> operation \<Rightarrow> bool" where [simp]:
  "same_input x y \<longleftrightarrow> op_cancellable y = op_cancellable x \<and> op_decrypt y = op_decrypt x \<and> op_mechanism y = op_mechanism x \<and> op_payload y = op_payload x"

definition weak :: "op_state \<Rightarrow> op_state \<Rightarrow> bool" where
  "weak s t \<longleftrightarrow> (\<exists>l. os_log t = l @ os_log s) \<and> os_next t = os_next s \<and>
     grant_part (os_session t) = grant_part (os_session s) \<and> (se_closed (os_session s) \<longrightarrow> se_closed (os_session t)) \<and>
     (\<forall>i. rel_option same_input (os_operations s i) (os_operations t i))"

lemma weak_refl [simp]: "weak s s"
  by (simp add: weak_def option.rel_refl)

lemma weak_trans:
  assumes "weak s t" "weak t u"
  shows "weak s u"
proof -
  have "rel_option same_input (os_operations s i) (os_operations u i)" for i
  proof -
    have "rel_option same_input (os_operations s i) (os_operations t i)"
      "rel_option same_input (os_operations t i) (os_operations u i)"
      using assms by (simp_all add: weak_def)
    then show ?thesis by (cases "os_operations s i"; cases "os_operations t i"; cases "os_operations u i") auto
  qed
  moreover from assms obtain l m where "os_log t = l @ os_log s" "os_log u = m @ os_log t" by (auto simp: weak_def)
  then have "\<exists>l. os_log u = l @ os_log s" by simp
  ultimately show ?thesis using assms by (simp add: weak_def)
qed

lemma weak_calm: "calm s t \<Longrightarrow> weak s t"
  unfolding weak_def calm_def by (auto intro: option.rel_mono_strong simp: calm_op_def)

lemma weak_set: "(\<And>x. same_input x (f x)) \<Longrightarrow> weak s t \<Longrightarrow> weak s (op_set i f t)"
  by (rule weak_trans) (auto simp: weak_def option.rel_map option.rel_refl)

lemma weak_note: "weak s t \<Longrightarrow> weak s (op_note x t)"
  by (rule weak_trans) (auto simp: weak_def option.rel_refl)

lemma weak_fields: "weak s t \<Longrightarrow> weak s (device_set d t)" "weak s t \<Longrightarrow> weak s (t\<lparr>os_operation_lock := k\<rparr>)"
  by (rule weak_trans, assumption, simp add: weak_def option.rel_refl grant_part_def)+

lemma weak_finish: "weak s t \<Longrightarrow> weak s (op_finish_task i r t)"
  unfolding op_finish_task_def by (rule weak_set) simp_all

lemma weak_signed: "weak s (on_signed e i s)"
proof (cases "os_operations s i")
  case (Some x)
  show ?thesis
  proof (cases "op_task x")
    case (Task_signed r)
    from Some this show ?thesis
    proof (cases rule: on_signed_cases [where e = e])
      case (result v out)
      show ?thesis unfolding result(3) operation_succeed_def
        by (auto split: option.split intro!: weak_note weak_set)
    qed (simp add: weak_calm)
  qed (use Some in \<open>simp_all add: on_signed_def\<close>)
qed (simp add: on_signed_def)

lemma own_step_weak:
  assumes step: "op_step D ts s (e, ev) t" and own: "own_event ev"
  shows "weak s t"
  using step
proof (cases rule: op_step.cases)
  case (step_sign i x)
  show ?thesis unfolding step_sign(2)
  proof (cases rule: sign_thread_cases [of D e i s])
    case (perform x c d1 w1 w2 q)
    show "weak s (sign_thread D e i s)" unfolding perform(9)
      by (auto split: option.split intro!: weak_note weak_set weak_finish weak_fields)
  qed (auto intro!: weak_finish weak_set weak_fields)
next
  case (step_sign_authenticated i x h outcome)
  let ?u = "op_set i (\<lambda>x. x\<lparr>op_context_outcome := outcome\<rparr>) (s\<lparr>os_operation_lock := None\<rparr>)"
  have u: "weak s ?u" by (rule weak_set, simp) (rule weak_fields(2) [OF weak_refl])
  have "weak s (if b then op_note n ?u else ?u)" for b n using u weak_note [OF u] by simp
  from weak_finish [OF weak_fields(1) [OF this]] show ?thesis unfolding step_sign_authenticated(2)
    by (metis sign_thread_authenticated_eq [OF step_sign_authenticated(3,4), of D e])
next
  case (step_context_done i x h outcome)
  show ?thesis unfolding step_context_done(2) on_context_pin_done_def by (rule weak_set) (auto split: op_task.split)
next
  case (step_opened i x r)
  have w: "\<forall>j\<in>set (waiters s). se_login_in_progress (os_session s) \<or> True" by simp
  show ?thesis unfolding step_opened(2) by (rule weak_calm) (rule calm.same_on_opened [OF TrueI w])
qed (use own in \<open>auto simp: own_event_def weak_signed intro!: weak_calm calm.same_open_check calm.same_sign_check calm.same_open_thread
    calm.same_context_login calm.same_do_login calm.same_pin_done calm.same_finish_login calm.same_release_login calm.same_released
    calm.same_cancel_idle calm.same_expired\<close>)

section \<open>Reports\<close>

definition done_ids :: "op_effect list \<Rightarrow> nat list" where
  "done_ids log = concat (map (\<lambda>x. case x of Op_done i r \<Rightarrow> [i] | _ \<Rightarrow> []) log)"

lemma done_ids_simps [simp]:
  "done_ids [] = []" "done_ids (x # l) = (case x of Op_done i r \<Rightarrow> [i] | _ \<Rightarrow> []) @ done_ids l"
  "done_ids (k @ l) = done_ids k @ done_ids l" "done_ids (rev l) = rev (done_ids l)"
  by (simp_all add: done_ids_def) (induction l; simp split: op_effect.split)

lemma done_ids_count: "length (done_results log i) = count_list (done_ids log) i"
  by (induction log) (auto split: op_effect.split)

lemma count_distinct: "(\<And>i. count_list l i \<le> 1) \<Longrightarrow> distinct l"
proof (induction l)
  case (Cons x l)
  have "count_list l i \<le> 1" for i using Cons.prems [of i] by (auto split: if_splits)
  moreover have "count_list l x = 0" using Cons.prems [of x] by simp
  ultimately show ?case using Cons.IH by (simp add: count_list_0_iff)
qed simp

lemma answered_ids:
  assumes "answers_ok s" "\<And>i. os_operations s i = None \<Longrightarrow> True"
  shows "distinct (done_ids (os_log s))"
    "i \<in> set (done_ids (os_log s)) \<longleftrightarrow> (\<exists>x. os_operations s i = Some x \<and> op_answered x)"
proof -
  have c: "count_list (done_ids (os_log s)) i = (case os_operations s i of None \<Rightarrow> 0 | Some x \<Rightarrow> if op_answered x then 1 else 0)" for i
    using assms(1) by (simp add: answers_ok_def done_ids_count)
  show "distinct (done_ids (os_log s))" by (rule count_distinct) (simp add: c split: option.split)
  have "i \<in> set (done_ids (os_log s)) \<longleftrightarrow> count_list (done_ids (os_log s)) i \<noteq> 0" by (simp add: count_list_0_iff)
  then show "i \<in> set (done_ids (os_log s)) \<longleftrightarrow> (\<exists>x. os_operations s i = Some x \<and> op_answered x)"
    by (auto simp: c split: option.splits if_splits)
qed

text \<open>The new reports of a step that lengthens the log: distinct, and of the operations it answers.\<close>

lemma new_reports:
  assumes s: "op_inv {} s" and t: "op_inv {} t" and log: "os_log t = new @ os_log s"
    and ops: "\<And>i. rel_option same_input (os_operations s i) (os_operations t i)"
    and x: "os_operations s i = Some x"
  shows "distinct (done_ids new)"
    "\<exists>y. os_operations t i = Some y \<and> same_input x y \<and>
      (op_answered y \<longleftrightarrow> op_answered x \<or> i \<in> set (done_ids new)) \<and> (op_answered x \<longrightarrow> i \<notin> set (done_ids new))"
proof -
  note S = answered_ids [OF op_invD(4) [OF s]] and T = answered_ids [OF op_invD(4) [OF t]]
  from T(1) log show d: "distinct (done_ids new)" by simp
  from ops [of i] x obtain y where y: "os_operations t i = Some y" "same_input x y"
    by (auto simp: option_rel_Some1)
  have "op_answered y \<longleftrightarrow> i \<in> set (done_ids new) \<or> i \<in> set (done_ids (os_log s))" using T(2) [of i] y log by simp
  moreover have "op_answered x \<longleftrightarrow> i \<in> set (done_ids (os_log s))" using S(2) [of i] x by simp
  moreover have "i \<in> set (done_ids new) \<longrightarrow> i \<notin> set (done_ids (os_log s))" using T(1) log by auto
  ultimately show "\<exists>y. os_operations t i = Some y \<and> same_input x y \<and>
      (op_answered y \<longleftrightarrow> op_answered x \<or> i \<in> set (done_ids new)) \<and> (op_answered x \<longrightarrow> i \<notin> set (done_ids new))"
    using y by blast
qed

end
