(* ===== verification/CoreProps.thy ===== *)
theory CoreProps
  imports CoreSessions
begin

text \<open>
  The invariant of the core (\<open>core_inv\<close>).  A request waits in the queue, or is active, or has been
  delivered; one that is answered has exactly one completion under way or delivered; one that is not
  waits for an enumeration, a chooser, a worker or an operation.  A session has one acquisition at a
  time, none after a grant, and its grant is the one an acquisition of a candidate the user chose made.
  \<open>X\<close> are the requests a start has in hand, \<open>H\<close> those a callback has in hand, and \<open>Y\<close> the results of operations
  not yet reported.
\<close>

section \<open>Lists of the state\<close>

definition start_of :: "core_post \<Rightarrow> nat list" where
  "start_of p = (case p of Post_acquire r \<Rightarrow> [r] | Post_sign r \<Rightarrow> [r] | Post_capabilities r \<Rightarrow> [r] | _ \<Rightarrow> [])"

definition rollback_of :: "core_post \<Rightarrow> nat list" where
  "rollback_of p = (case p of Post_rollback r \<Rightarrow> [r] | _ \<Rightarrow> [])"

definition completion_of :: "desktop_call \<Rightarrow> nat list" where
  "completion_of p = (case p of Desk_completion r \<Rightarrow> [r] | _ \<Rightarrow> [])"

definition deciding :: "desktop_stage \<Rightarrow> nat list" where
  "deciding st = (case st of Desk_deciding r \<Rightarrow> [r] | _ \<Rightarrow> [])"

definition delivered_of :: "core_effect \<Rightarrow> nat list" where
  "delivered_of x = (case x of Done r err cand sig \<Rightarrow> [r] | _ \<Rightarrow> [])"

definition starts :: "core \<Rightarrow> nat list" where
  "starts c = concat (map start_of (cc_queue c))"

definition outstanding :: "core \<Rightarrow> nat list" where
  "outstanding c = concat (map completion_of (cc_desktop c)) @ deciding (cc_stage c) @ concat (map rollback_of (cc_queue c))"

definition delivered :: "core \<Rightarrow> nat list" where
  "delivered c = concat (map delivered_of (cc_log c))"

section \<open>The invariant\<close>

definition fresh :: "xcc_request \<Rightarrow> bool" where
  "fresh q \<longleftrightarrow> \<not> rq_answered q \<and> rq_signature q = None \<and> rq_chooser q = None \<and> rq_workers q = 0 \<and> \<not> rq_enumerating q \<and> \<not> rq_chooser_completed q \<and>
     rq_pending_chosen q = None \<and> rq_operation q = None \<and> rq_candidate q = None"

definition busy :: "xcc_request \<Rightarrow> bool" where
  "busy q \<longleftrightarrow> rq_enumerating q \<or> rq_chooser q \<noteq> None"

text \<open>What a request that is not answered waits for.\<close>

definition awaited :: "xcc_request \<Rightarrow> bool" where
  "awaited q \<longleftrightarrow> (case rq_kind q of XCC_RESULT_ACQUIRE \<Rightarrow> busy q | XCC_RESULT_SIGN \<Rightarrow> rq_operation q \<noteq> None
     | XCC_RESULT_CAPABILITIES \<Rightarrow> rq_workers q > 0)"

definition place_ok :: "nat set \<Rightarrow> nat set \<Rightarrow> core \<Rightarrow> nat \<Rightarrow> xcc_request \<Rightarrow> bool" where
  "place_ok X H c r q \<longleftrightarrow>
     (r \<in> set (starts c) \<longrightarrow> fresh q \<and> r \<notin> set (cc_active c) \<and> r \<notin> X \<and> \<not> rq_detached q) \<and>
     (r \<in> set (cc_active c) \<longrightarrow> \<not> rq_detached q) \<and>
     (r \<in> X \<longrightarrow> fresh q \<and> \<not> rq_detached q) \<and>
     (\<not> rq_detached q \<and> r \<notin> X \<longrightarrow> r \<in> set (starts c) \<or> r \<in> set (cc_active c) \<or> r \<in> set (delivered c)) \<and>
     (rq_detached q \<longrightarrow> rq_answered q \<and> rq_candidate q = None) \<and>
     (r \<in> set (cc_active c) \<and> r \<notin> X \<and> r \<notin> H \<and> \<not> rq_answered q \<longrightarrow> awaited q)"

definition offer_ok :: "xcc_request \<Rightarrow> certificate_candidate \<Rightarrow> bool" where
  "offer_ok q x \<longleftrightarrow> cd_token x \<noteq> None \<and> certificate_filter_matches x (rq_filter q)"

text \<open>The candidate of a grant is the one the user chose, as it was or as it was found again.\<close>

definition chosen_ok :: "core_effect list \<Rightarrow> nat \<Rightarrow> xcc_request \<Rightarrow> certificate_candidate \<Rightarrow> bool" where
  "chosen_ok log r q cd \<longleftrightarrow> offer_ok q cd \<and>
     (\<exists>x. Consented r x \<in> set log \<and> (x = cd \<or> certificate_candidate_same (Some x) (Some cd)))"

definition has_serial :: "certificate_candidate \<Rightarrow> bool" where
  "has_serial cd \<longleftrightarrow> (\<exists>t. cd_token cd = Some t \<and> has_text (tk_serial t))"

definition acquire_ok :: "core_config \<Rightarrow> nat set \<Rightarrow> core \<Rightarrow> nat \<Rightarrow> xcc_request \<Rightarrow> bool" where
  "acquire_ok g X c r q \<longleftrightarrow>
     (busy q \<longrightarrow> r \<in> set (cc_active c) \<and> r \<notin> X \<and> \<not> rq_answered q \<and> rq_kind q = XCC_RESULT_ACQUIRE \<and> rq_validation_error q = XCC_OK) \<and>
     (rq_kind q = XCC_RESULT_ACQUIRE \<longrightarrow> rq_workers q = (if rq_enumerating q then 1 else 0)) \<and>
     (\<forall>rows. rq_chooser q = Some rows \<longrightarrow> cg_chooser_available g \<and> \<not> rq_interaction_forbidden q \<and> \<not> rq_chooser_completed q \<and>
        list_all (offer_ok q) rows) \<and>
     (rq_chooser_completed q \<longrightarrow> rq_kind q = XCC_RESULT_ACQUIRE \<and> rq_validation_error q = XCC_OK) \<and>
     (\<forall>x. rq_pending_chosen q = Some x \<longrightarrow> rq_chooser_completed q \<and> rq_pending_error q = XCC_OK \<and> offer_ok q x \<and>
        Consented r x \<in> set (cc_log c)) \<and>
     (\<forall>cd. rq_candidate q = Some cd \<longrightarrow> rq_kind q = XCC_RESULT_ACQUIRE \<and> rq_answered q \<and> rq_validation_error q = XCC_OK \<and>
        chosen_ok (cc_log c) r q cd \<and> has_serial cd)"

text \<open>What \<open>xcc_acquire_async\<close> and \<open>xcc_sign_async_parsed\<close> make of a specification.\<close>

definition spec_ok :: "xcc_request \<Rightarrow> bool" where
  "spec_ok q \<longleftrightarrow> unat (rq_lifetime q) \<le> 3600 \<and> or_cancellable (rq_input q) \<and> \<not> or_decrypt (rq_input q) \<and>
     (rq_kind q = XCC_RESULT_ACQUIRE \<and> rq_validation_error q = XCC_OK \<longrightarrow> rq_lifetime q \<noteq> 0 \<and> cf_purpose (rq_filter q) = rq_purpose q \<and>
        cf_operations (rq_filter q) = (if rq_may_sign q then CERTIFICATE_OPERATION_SIGN else 0))"

definition sent_candidate :: "xcc_request \<Rightarrow> certificate_candidate option" where
  "sent_candidate q = (if rq_candidate_present q then rq_candidate q else None)"

definition sent_signature :: "xcc_request \<Rightarrow> bytes option" where
  "sent_signature q = (if rq_signature_present q then rq_signature q else None)"

definition result_ok :: "core \<Rightarrow> nat \<Rightarrow> xcc_request \<Rightarrow> bool" where
  "result_ok c r q \<longleftrightarrow>
     (rq_candidate_present q \<or> rq_signature_present q \<or> rq_mechanisms_present q \<longrightarrow> rq_answered q \<and> rq_error q = XCC_OK) \<and>
     (rq_answered q \<and> rq_error q = XCC_OK \<longrightarrow> (case rq_kind q of
        XCC_RESULT_ACQUIRE \<Rightarrow> rq_candidate_present q \<and> rq_candidate q \<noteq> None
      | XCC_RESULT_SIGN \<Rightarrow> rq_signature_present q \<and> rq_signature q \<noteq> None
      | XCC_RESULT_CAPABILITIES \<Rightarrow> rq_mechanisms_present q)) \<and>
     (r \<in> set (delivered c) \<longrightarrow> Done r (rq_error q) (sent_candidate q) (sent_signature q) \<in> set (cc_log c) \<and>
        (rq_candidate q \<noteq> None \<longrightarrow> rq_error q = XCC_OK))"

text \<open>The operation of a signature works on what the request gave, for the certificate of the grant.\<close>

definition asked_for :: "xcc_request \<Rightarrow> op_state \<Rightarrow> operation \<Rightarrow> bool" where
  "asked_for q os x \<longleftrightarrow> \<not> op_decrypt x \<and> (\<exists>cd. se_candidate (os_session os) = Some cd \<and>
     certificate_mechanism_parse (or_mechanism_name (rq_input q)) (or_parameters (rq_input q)) (cd_key_type cd) (cd_key_size cd) False =
       Inr (op_mechanism x) \<and>
     certificate_mechanism_prepare (op_mechanism x) (or_data (rq_input q)) = Inr (op_payload x))"

definition linked :: "(nat \<times> nat) set \<Rightarrow> xcc_request \<Rightarrow> nat \<Rightarrow> nat \<Rightarrow> op_state \<Rightarrow> operation \<Rightarrow> bool" where
  "linked Y q sid i os x \<longleftrightarrow> os_operations os i = Some x \<and> op_cancellable x \<and> asked_for q os x \<and>
     (\<forall>v. rq_signature q = Some v \<longrightarrow> Op_done i (Inr v) \<in> set (os_log os)) \<and> (rq_answered q \<longleftrightarrow> op_answered x \<and> (sid, i) \<notin> Y)"

definition link_ok :: "(nat \<times> nat) set \<Rightarrow> core \<Rightarrow> nat \<Rightarrow> xcc_request \<Rightarrow> bool" where
  "link_ok Y c r q \<longleftrightarrow> (rq_operation q = None \<longrightarrow> rq_signature q = None) \<and> (\<forall>i. rq_operation q = Some i \<longrightarrow> rq_kind q = XCC_RESULT_SIGN \<and>
     (\<exists>sid os x. rq_session q = Some sid \<and> cc_callbacks c sid i = Some r \<and> cc_sessions c sid = Some os \<and> linked Y q sid i os x))"

definition kind_ok :: "core \<Rightarrow> xcc_request \<Rightarrow> bool" where
  "kind_ok c q \<longleftrightarrow> (rq_session q = None \<longleftrightarrow> rq_kind q = XCC_RESULT_CAPABILITIES) \<and>
     (\<forall>sid. rq_session q = Some sid \<longrightarrow> session_held sid c \<and> cc_sessions c sid \<noteq> None)"

definition request_ok :: "core_config \<Rightarrow> nat set \<Rightarrow> nat set \<Rightarrow> (nat \<times> nat) set \<Rightarrow> core \<Rightarrow> nat \<Rightarrow> xcc_request \<Rightarrow> bool" where
  "request_ok g X H Y c r q \<longleftrightarrow> place_ok X H c r q \<and> acquire_ok g X c r q \<and> spec_ok q \<and> result_ok c r q \<and> link_ok Y c r q \<and> kind_ok c q"

definition acquiring :: "nat set \<Rightarrow> core \<Rightarrow> nat \<Rightarrow> nat \<Rightarrow> bool" where
  "acquiring X c sid r \<longleftrightarrow> r \<in> set (cc_active c) \<and> r \<notin> X \<and>
     (\<exists>q. cc_requests c r = Some q \<and> rq_kind q = XCC_RESULT_ACQUIRE \<and> rq_session q = Some sid \<and> \<not> rq_answered q)"

definition holding :: "core \<Rightarrow> nat \<Rightarrow> nat \<Rightarrow> bool" where
  "holding c sid r \<longleftrightarrow> (\<exists>q. cc_requests c r = Some q \<and> rq_session q = Some sid \<and> rq_candidate q \<noteq> None)"

definition granted_by :: "xcc_request \<Rightarrow> certificate_candidate \<Rightarrow> xcc_session \<Rightarrow> bool" where
  "granted_by q cd se \<longleftrightarrow> se_candidate se = Some cd \<and> se_purpose se = rq_purpose q \<and> se_may_sign se = (rq_may_sign q \<and> cd_can_sign cd) \<and>
     \<not> se_may_decrypt se \<and> se_lifetime se = rq_lifetime q"

definition session_ok :: "'w discovery_env \<Rightarrow> certificate_tokens \<Rightarrow> nat set \<Rightarrow> core \<Rightarrow> nat \<Rightarrow> op_state \<Rightarrow> bool" where
  "session_ok D ts X c sid os \<longleftrightarrow> op_reachable D ts os \<and>
     (if se_granted (os_session os)
      then (\<exists>r q cd. (\<forall>p. holding c sid p \<longleftrightarrow> p = r) \<and> cc_requests c r = Some q \<and> rq_candidate q = Some cd \<and>
              granted_by q cd (os_session os) \<and> (se_grant_pending (os_session os) \<longleftrightarrow> r \<in> set (outstanding c))) \<and>
           (\<forall>r. \<not> acquiring X c sid r)
      else \<not> se_grant_pending (os_session os) \<and> (\<forall>r. \<not> holding c sid r) \<and>
           (\<forall>r p. acquiring X c sid r \<and> acquiring X c sid p \<longrightarrow> r = p)) \<and>
     (\<forall>i. cc_callbacks c sid i \<noteq> None \<longleftrightarrow> i < os_next os)"

definition lists_ok :: "core \<Rightarrow> bool" where
  "lists_ok c \<longleftrightarrow> distinct (outstanding c @ delivered c) \<and>
     (\<forall>r. r \<in> set (outstanding c @ delivered c) \<longleftrightarrow> (\<exists>q. cc_requests c r = Some q \<and> rq_answered q)) \<and>
     distinct (starts c) \<and> distinct (cc_active c) \<and>
     (\<forall>r. cc_requests c r \<noteq> None \<longleftrightarrow> r < cc_next_request c) \<and> (\<forall>sid. cc_sessions c sid \<noteq> None \<longleftrightarrow> sid < cc_next_session c) \<and>
     (\<forall>r. r \<in> set (starts c) \<union> set (cc_active c) \<longrightarrow> cc_requests c r \<noteq> None) \<and>
     (\<forall>sid i r. cc_callbacks c sid i = Some r \<longrightarrow>
        (\<exists>q. cc_requests c r = Some q \<and> rq_session q = Some sid \<and> rq_operation q = Some i)) \<and>
     (\<forall>sid i. cc_sessions c sid = None \<longrightarrow> cc_callbacks c sid i = None)"

text \<open>
  What is queued is about requests of its kind, delivered ones, and grants to be taken back; once the
  shutdown is posted nothing is queued or active.
\<close>

definition post_ok :: "core \<Rightarrow> core_post \<Rightarrow> bool" where
  "post_ok c p \<longleftrightarrow> (case p of
     Post_acquire r \<Rightarrow> (\<exists>q. cc_requests c r = Some q \<and> rq_kind q = XCC_RESULT_ACQUIRE)
   | Post_sign r \<Rightarrow> (\<exists>q. cc_requests c r = Some q \<and> rq_kind q = XCC_RESULT_SIGN)
   | Post_capabilities r \<Rightarrow> (\<exists>q. cc_requests c r = Some q \<and> rq_kind q = XCC_RESULT_CAPABILITIES)
   | Post_rollback r \<Rightarrow> (\<exists>q. cc_requests c r = Some q \<and> rq_candidate q \<noteq> None \<and> rq_error q \<noteq> XCC_OK)
   | Post_ack r \<Rightarrow> r \<in> set (delivered c)
   | _ \<Rightarrow> True)"

definition queue_ok :: "core \<Rightarrow> bool" where
  "queue_ok c \<longleftrightarrow> list_all (post_ok c) (cc_queue c) \<and> (\<forall>r. cc_stage c = Desk_called r \<longrightarrow> r \<in> set (delivered c)) \<and>
     (cc_shutdown_posted c \<longrightarrow> cc_active c = [] \<and> cc_queue c = [])"

lemma queue_ok_same:
  assumes ok: "queue_ok c" and same: "cc_queue c' = cc_queue c" "cc_stage c' = cc_stage c" "set (delivered c) \<subseteq> set (delivered c')"
      "cc_active c' = cc_active c" "cc_shutdown_posted c' = cc_shutdown_posted c"
    and r: "\<And>r q. cc_requests c r = Some q \<Longrightarrow> \<exists>q'. cc_requests c' r = Some q' \<and> rq_kind q' = rq_kind q \<and>
      (Post_rollback r \<in> set (cc_queue c) \<longrightarrow> rq_candidate q' = rq_candidate q \<and> rq_error q' = rq_error q)"
  shows "queue_ok c'"
proof -
  have "post_ok c' p" if p: "p \<in> set (cc_queue c)" "post_ok c p" for p
  proof (cases p)
    case (Post_acquire a)
    with p(2) obtain q where "cc_requests c a = Some q" "rq_kind q = XCC_RESULT_ACQUIRE" by (auto simp: post_ok_def)
    with r [of a q] Post_acquire show ?thesis by (auto simp: post_ok_def)
  next
    case (Post_sign a)
    with p(2) obtain q where "cc_requests c a = Some q" "rq_kind q = XCC_RESULT_SIGN" by (auto simp: post_ok_def)
    with r [of a q] Post_sign show ?thesis by (auto simp: post_ok_def)
  next
    case (Post_capabilities a)
    with p(2) obtain q where "cc_requests c a = Some q" "rq_kind q = XCC_RESULT_CAPABILITIES" by (auto simp: post_ok_def)
    with r [of a q] Post_capabilities show ?thesis by (auto simp: post_ok_def)
  next
    case (Post_rollback a)
    with p(2) obtain q where "cc_requests c a = Some q" "rq_candidate q \<noteq> None" "rq_error q \<noteq> XCC_OK" by (auto simp: post_ok_def)
    with r [of a q] p(1) Post_rollback show ?thesis by (auto simp: post_ok_def)
  qed (use p same(3) in \<open>auto simp: post_ok_def\<close>)
  with ok same show ?thesis by (auto simp: queue_ok_def list_all_iff)
qed

definition core_inv ::
  "'w discovery_env \<Rightarrow> certificate_tokens \<Rightarrow> core_config \<Rightarrow> nat set \<Rightarrow> nat set \<Rightarrow> (nat \<times> nat) set \<Rightarrow> core \<Rightarrow> bool" where
  "core_inv D ts g X H Y c \<longleftrightarrow> lists_ok c \<and> queue_ok c \<and> (\<forall>r q. cc_requests c r = Some q \<longrightarrow> request_ok g X H Y c r q) \<and>
     (\<forall>sid os. cc_sessions c sid = Some os \<longrightarrow> session_ok D ts X c sid os)"

lemma core_invD:
  assumes "core_inv D ts g X H Y c"
  shows "lists_ok c" "cc_requests c r = Some q \<Longrightarrow> request_ok g X H Y c r q" "cc_sessions c sid = Some os \<Longrightarrow> session_ok D ts X c sid os"
    "queue_ok c"
  using assms by (simp_all add: core_inv_def)

lemma core_invI:
  assumes "lists_ok c" "queue_ok c" "\<And>r q. cc_requests c r = Some q \<Longrightarrow> request_ok g X H Y c r q"
    "\<And>sid os. cc_sessions c sid = Some os \<Longrightarrow> session_ok D ts X c sid os"
  shows "core_inv D ts g X H Y c"
  using assms by (simp add: core_inv_def)

lemma request_okD:
  assumes "request_ok g X H Y c r q"
  shows "place_ok X H c r q" "acquire_ok g X c r q" "spec_ok q" "result_ok c r q" "link_ok Y c r q" "kind_ok c q"
  using assms by (simp_all add: request_ok_def)

section \<open>Mild changes\<close>

text \<open>
  Most functions cancel, note an intent, invalidate or close: they answer no request and change no
  grant.  \<open>mild\<close> is a change of that kind, with the refresh of an open chooser.
\<close>

definition fixed :: "xcc_request \<Rightarrow> _" where
  "fixed q = (rq_session q, rq_kind q, rq_answered q, rq_detached q, rq_error q, rq_candidate_present q, rq_signature_present q,
     rq_mechanisms_present q, rq_candidate q, rq_signature q, rq_purpose q, rq_filter q, rq_lifetime q, rq_may_sign q,
     rq_interaction_forbidden q, rq_generic_purpose q, rq_chooser_completed q, rq_pending_chosen q, rq_pending_error q,
     rq_validation_error q, rq_operation q, rq_input q)"

definition mild_request :: "xcc_request \<Rightarrow> xcc_request \<Rightarrow> bool" where
  "mild_request q p \<longleftrightarrow> fixed p = fixed q \<and> (rq_cancel_intent q \<noteq> None \<longrightarrow> rq_cancel_intent p \<noteq> None) \<and>
     (rq_cancelled_code q \<noteq> XCC_OK \<longrightarrow> rq_cancelled_code p \<noteq> XCC_OK) \<and> (rq_cancelled q \<longrightarrow> rq_cancelled p) \<and>
     (rq_chooser p = rq_chooser q \<or> rq_chooser q \<noteq> None \<and> rq_chooser p = Some []) \<and>
     (rq_enumerating p = rq_enumerating q \<and> rq_workers p = rq_workers q \<or>
      rq_chooser q \<noteq> None \<and> \<not> rq_enumerating q \<and> rq_enumerating p \<and> rq_workers p = rq_workers q + 1)"

definition mild_session :: "'w discovery_env \<Rightarrow> certificate_tokens \<Rightarrow> op_state \<Rightarrow> op_state \<Rightarrow> bool" where
  "mild_session D ts s t \<longleftrightarrow> (op_reachable D ts s \<longrightarrow> op_reachable D ts t \<and> os_next t = os_next s \<and>
     grant_part (os_session t) = grant_part (os_session s) \<and> (se_closed (os_session s) \<longrightarrow> se_closed (os_session t)) \<and>
     (\<exists>l. os_log t = l @ os_log s) \<and>
     (\<forall>i. rel_option (\<lambda>x y. same_input x y \<and> op_answered y = op_answered x) (os_operations s i) (os_operations t i)))"

definition mild :: "'w discovery_env \<Rightarrow> certificate_tokens \<Rightarrow> core \<Rightarrow> core \<Rightarrow> bool" where
  "mild D ts c c' \<longleftrightarrow> cc_next_session c' = cc_next_session c \<and> cc_next_request c' = cc_next_request c \<and> cc_active c' = cc_active c \<and>
     cc_callbacks c' = cc_callbacks c \<and> cc_queue c' = cc_queue c \<and> outstanding c' = outstanding c \<and> cc_stage c' = cc_stage c \<and> cc_log c' = cc_log c \<and>
     cc_shutdown_posted c' = cc_shutdown_posted c \<and> cc_posts c' = cc_posts c \<and>
     (\<forall>r. rel_option mild_request (cc_requests c r) (cc_requests c' r)) \<and>
     (\<forall>sid. rel_option (mild_session D ts) (cc_sessions c sid) (cc_sessions c' sid))"

lemma fixedD:
  assumes "fixed p = fixed q"
  shows "rq_session p = rq_session q" "rq_kind p = rq_kind q" "rq_answered p = rq_answered q" "rq_detached p = rq_detached q"
    "rq_error p = rq_error q" "rq_candidate_present p = rq_candidate_present q" "rq_signature_present p = rq_signature_present q"
    "rq_mechanisms_present p = rq_mechanisms_present q" "rq_candidate p = rq_candidate q" "rq_signature p = rq_signature q"
    "rq_purpose p = rq_purpose q" "rq_filter p = rq_filter q" "rq_lifetime p = rq_lifetime q" "rq_may_sign p = rq_may_sign q"
    "rq_interaction_forbidden p = rq_interaction_forbidden q" "rq_generic_purpose p = rq_generic_purpose q"
    "rq_chooser_completed p = rq_chooser_completed q"
    "rq_pending_chosen p = rq_pending_chosen q" "rq_pending_error p = rq_pending_error q"
    "rq_validation_error p = rq_validation_error q" "rq_operation p = rq_operation q" "rq_input p = rq_input q"
  using assms by (simp_all add: fixed_def)

lemma mild_requestD:
  assumes "mild_request q p"
  shows "fixed p = fixed q" "rq_cancel_intent q \<noteq> None \<Longrightarrow> rq_cancel_intent p \<noteq> None"
    "rq_cancelled_code q \<noteq> XCC_OK \<Longrightarrow> rq_cancelled_code p \<noteq> XCC_OK" "rq_cancelled q \<Longrightarrow> rq_cancelled p"
    "rq_chooser p = None \<longleftrightarrow> rq_chooser q = None" "busy p = busy q"
    "rq_chooser q = None \<Longrightarrow> rq_enumerating p = rq_enumerating q" "rq_chooser q = None \<Longrightarrow> rq_workers p = rq_workers q"
    "rq_enumerating q \<Longrightarrow> rq_enumerating p"
  using assms unfolding mild_request_def busy_def by auto

lemma mild_requestD2:
  assumes "mild_request q p"
  shows "rq_chooser p = rq_chooser q \<or> rq_chooser q \<noteq> None \<and> rq_chooser p = Some []"
    "rq_enumerating p = rq_enumerating q \<and> rq_workers p = rq_workers q \<or>
      rq_chooser q \<noteq> None \<and> \<not> rq_enumerating q \<and> rq_enumerating p \<and> rq_workers p = rq_workers q + 1"
  using assms unfolding mild_request_def by metis+

lemma mild_request_refl [simp]: "mild_request q q"
  by (simp add: mild_request_def)

lemma mild_session_refl [simp]: "mild_session D ts s s"
  by (simp add: mild_session_def option.rel_refl)

lemma mild_refl [simp]: "mild D ts c c"
  by (simp add: mild_def option.rel_refl)

lemma mild_request_trans:
  assumes "mild_request q p" "mild_request p u"
  shows "mild_request q u"
proof -
  note a = assms(1) [unfolded mild_request_def] and b = assms(2) [unfolded mild_request_def]
  have "fixed u = fixed q" using a b by metis
  moreover have "rq_cancel_intent q \<noteq> None \<longrightarrow> rq_cancel_intent u \<noteq> None" using a b by metis
  moreover have "rq_cancelled_code q \<noteq> XCC_OK \<longrightarrow> rq_cancelled_code u \<noteq> XCC_OK" using a b by metis
  moreover have "rq_cancelled q \<longrightarrow> rq_cancelled u" using a b by metis
  moreover have "rq_chooser u = rq_chooser q \<or> rq_chooser q \<noteq> None \<and> rq_chooser u = Some []" using a b by metis
  moreover have "rq_enumerating u = rq_enumerating q \<and> rq_workers u = rq_workers q \<or>
      rq_chooser q \<noteq> None \<and> \<not> rq_enumerating q \<and> rq_enumerating u \<and> rq_workers u = rq_workers q + 1"
    using a b by metis
  ultimately show ?thesis by (simp only: mild_request_def simp_thms)
qed

lemma mild_session_trans:
  assumes "mild_session D ts s t" "mild_session D ts t u"
  shows "mild_session D ts s u"
  unfolding mild_session_def
proof (intro impI)
  assume s: "op_reachable D ts s"
  from assms(1) s have t: "op_reachable D ts t" by (simp add: mild_session_def)
  let ?R = "\<lambda>x y. same_input x y \<and> op_answered y = op_answered x"
  have "rel_option ?R (os_operations s i) (os_operations u i)" for i
  proof -
    have "rel_option ?R (os_operations s i) (os_operations t i)" "rel_option ?R (os_operations t i) (os_operations u i)"
      using assms s t by (simp_all add: mild_session_def)
    then show ?thesis by (cases "os_operations s i"; cases "os_operations t i"; cases "os_operations u i") auto
  qed
  moreover from assms s t obtain l m where "os_log t = l @ os_log s" "os_log u = m @ os_log t" by (auto simp: mild_session_def)
  then have "\<exists>l. os_log u = l @ os_log s" by simp
  moreover have "op_reachable D ts u \<and> os_next u = os_next s \<and> grant_part (os_session u) = grant_part (os_session s) \<and>
     (se_closed (os_session s) \<longrightarrow> se_closed (os_session u))" using assms s t by (simp add: mild_session_def)
  ultimately show "op_reachable D ts u \<and> os_next u = os_next s \<and> grant_part (os_session u) = grant_part (os_session s) \<and>
     (se_closed (os_session s) \<longrightarrow> se_closed (os_session u)) \<and> (\<exists>l. os_log u = l @ os_log s) \<and>
     (\<forall>i. rel_option ?R (os_operations s i) (os_operations u i))" by simp
qed

lemma rel_option_chain:
  assumes "rel_option P x y" "rel_option P y z" "\<And>a b c. P a b \<Longrightarrow> P b c \<Longrightarrow> P a c"
  shows "rel_option P x z"
  using assms(1,2) by (cases x; cases y; cases z) (auto intro: assms(3))

lemma mild_trans:
  assumes "mild D ts c d" "mild D ts d f"
  shows "mild D ts c f"
proof -
  have "rel_option mild_request (cc_requests c r) (cc_requests f r)" for r
    by (rule rel_option_chain [where y = "cc_requests d r", OF _ _ mild_request_trans]) (use assms in \<open>simp_all add: mild_def\<close>)
  moreover have "rel_option (mild_session D ts) (cc_sessions c sid) (cc_sessions f sid)" for sid
    by (rule rel_option_chain [where y = "cc_sessions d sid", OF _ _ mild_session_trans]) (use assms in \<open>simp_all add: mild_def\<close>)
  ultimately show ?thesis using assms by (simp add: mild_def)
qed

lemma grant_partD:
  assumes "grant_part se = grant_part se'"
  shows "se_candidate se = se_candidate se'" "se_granted se = se_granted se'" "se_grant_pending se = se_grant_pending se'"
    "se_may_sign se = se_may_sign se'" "se_may_decrypt se = se_may_decrypt se'" "se_purpose se = se_purpose se'" "se_lifetime se = se_lifetime se'"
  using assms by (simp_all add: grant_part_def)

text \<open>Which states the two sides of a mild change are at.\<close>

lemma mild_at:
  assumes "mild D ts c c'"
  shows "cc_requests c' r = Some p \<Longrightarrow> \<exists>q. cc_requests c r = Some q \<and> mild_request q p"
    "cc_requests c r = Some q \<Longrightarrow> \<exists>p. cc_requests c' r = Some p \<and> mild_request q p"
    "cc_sessions c' sid = Some t \<Longrightarrow> \<exists>s. cc_sessions c sid = Some s \<and> mild_session D ts s t"
    "cc_sessions c sid = Some s \<Longrightarrow> \<exists>t. cc_sessions c' sid = Some t \<and> mild_session D ts s t"
    "cc_requests c' r = None \<longleftrightarrow> cc_requests c r = None" "cc_sessions c' sid = None \<longleftrightarrow> cc_sessions c sid = None"
proof -
  have r: "rel_option mild_request (cc_requests c r) (cc_requests c' r)" and s: "rel_option (mild_session D ts) (cc_sessions c sid) (cc_sessions c' sid)"
    using assms by (simp_all add: mild_def)
  show "cc_requests c' r = Some p \<Longrightarrow> \<exists>q. cc_requests c r = Some q \<and> mild_request q p"
    "cc_requests c r = Some q \<Longrightarrow> \<exists>p. cc_requests c' r = Some p \<and> mild_request q p"
    "cc_requests c' r = None \<longleftrightarrow> cc_requests c r = None"
    using r by (auto simp: option_rel_Some1 option_rel_Some2)
  show "cc_sessions c' sid = Some t \<Longrightarrow> \<exists>s. cc_sessions c sid = Some s \<and> mild_session D ts s t"
    "cc_sessions c sid = Some s \<Longrightarrow> \<exists>t. cc_sessions c' sid = Some t \<and> mild_session D ts s t"
    "cc_sessions c' sid = None \<longleftrightarrow> cc_sessions c sid = None"
    using s by (auto simp: option_rel_Some1 option_rel_Some2)
qed

lemma mild_lists:
  assumes "mild D ts c c'"
  shows "cc_next_session c' = cc_next_session c" "cc_next_request c' = cc_next_request c" "cc_active c' = cc_active c"
    "cc_callbacks c' = cc_callbacks c" "starts c' = starts c" "outstanding c' = outstanding c" "cc_stage c' = cc_stage c"
    "cc_log c' = cc_log c" "delivered c' = delivered c" "session_held sid c' = session_held sid c" "cc_queue c' = cc_queue c"
    "cc_shutdown_posted c' = cc_shutdown_posted c" "cc_posts c' = cc_posts c"
  using assms by (simp_all add: mild_def delivered_def session_held_def starts_def)

lemma mild_requests_ex:
  assumes m: "mild D ts c c'" and P: "\<And>q p. mild_request q p \<Longrightarrow> P p = P q"
  shows "(\<exists>q. cc_requests c' r = Some q \<and> P q) = (\<exists>q. cc_requests c r = Some q \<and> P q)"
proof
  assume "\<exists>q. cc_requests c' r = Some q \<and> P q"
  then obtain p where "cc_requests c' r = Some p" "P p" by blast
  with mild_at(1) [OF m] P show "\<exists>q. cc_requests c r = Some q \<and> P q" by blast
next
  assume "\<exists>q. cc_requests c r = Some q \<and> P q"
  then obtain q where "cc_requests c r = Some q" "P q" by blast
  with mild_at(2) [OF m] P show "\<exists>q. cc_requests c' r = Some q \<and> P q" by blast
qed

lemma list_all_empty_or: "list_all P rows \<Longrightarrow> rows' = rows \<or> rows' = [] \<Longrightarrow> list_all P rows'"
  by auto

lemma lists_ok_mild:
  assumes ok: "lists_ok c" and m: "mild D ts c c'"
  shows "lists_ok c'"
proof -
  note l = mild_lists [OF m] and at = mild_at [OF m]
  have a: "(\<exists>q. cc_requests c' r = Some q \<and> rq_answered q) \<longleftrightarrow> (\<exists>q. cc_requests c r = Some q \<and> rq_answered q)" for r
    by (rule mild_requests_ex [OF m fixedD(3) [OF mild_requestD(1)]])
  have b: "\<exists>q. cc_requests c' r = Some q \<and> rq_session q = Some sid \<and> rq_operation q = Some i"
    if "\<exists>q. cc_requests c r = Some q \<and> rq_session q = Some sid \<and> rq_operation q = Some i" for r sid i
    using that mild_requests_ex [OF m, of "\<lambda>q. rq_session q = Some sid \<and> rq_operation q = Some i"] fixedD(1,21) [OF mild_requestD(1)] by simp
  show ?thesis using ok unfolding lists_ok_def l a at(5,6) by (meson b)
qed

lemma link_ok_mild:
  assumes ok: "link_ok Y c r q" and m: "mild D ts c c'" and mq: "mild_request q p"
    and reach: "\<And>sid os. cc_sessions c sid = Some os \<Longrightarrow> op_reachable D ts os"
  shows "link_ok Y c' r p"
  unfolding link_ok_def
proof (rule conjI; intro allI impI)
  note f = fixedD [OF mild_requestD(1) [OF mq]]
  show "rq_operation p = None \<Longrightarrow> rq_signature p = None" using ok f by (simp add: link_ok_def)
  fix i
  assume "rq_operation p = Some i"
  then have "rq_operation q = Some i" using f(21) by simp
  with ok obtain sid os x where k: "rq_kind q = XCC_RESULT_SIGN" "rq_session q = Some sid" "cc_callbacks c sid i = Some r" "cc_sessions c sid = Some os"
    "linked Y q sid i os x" unfolding link_ok_def by blast
  then have x: "os_operations os i = Some x" by (simp add: linked_def)
  from mild_at(4) [OF m k(4)] obtain t where t: "cc_sessions c' sid = Some t" "mild_session D ts os t" by blast
  from t(2) reach [OF k(4)] have r: "rel_option (\<lambda>x y. same_input x y \<and> op_answered y = op_answered x) (os_operations os i) (os_operations t i)"
    "grant_part (os_session t) = grant_part (os_session os)" "set (os_log os) \<subseteq> set (os_log t)"
    by (auto simp: mild_session_def)
  from r(1) x obtain y where y: "os_operations t i = Some y" "same_input x y" "op_answered y = op_answered x"
    by (auto simp: option_rel_Some1)
  have "asked_for q os x" "op_cancellable x" "\<And>v. rq_signature q = Some v \<Longrightarrow> Op_done i (Inr v) \<in> set (os_log os)"
    "rq_answered q \<longleftrightarrow> op_answered x \<and> (sid, i) \<notin> Y" using k(5) by (simp_all add: linked_def)
  moreover from this(1) y(2) have "asked_for p t y" unfolding asked_for_def f grant_partD(1) [OF r(2)] by simp
  ultimately have "linked Y p sid i t y" using y r(3) unfolding linked_def f by auto
  with k t(1) f(1,2) mild_lists(4) [OF m] show "rq_kind p = XCC_RESULT_SIGN \<and> (\<exists>sid os x. rq_session p = Some sid \<and> cc_callbacks c' sid i = Some r \<and>
      cc_sessions c' sid = Some os \<and> linked Y p sid i os x)"
    by auto
qed

lemma chosen_ok_cong: "chosen_ok log r q x \<Longrightarrow> set log \<subseteq> set log' \<Longrightarrow> rq_filter p = rq_filter q \<Longrightarrow> chosen_ok log' r p x"
  by (auto simp: chosen_ok_def offer_ok_def)

lemma request_ok_mild:
  assumes ok: "request_ok g X H Y c r q" and m: "mild D ts c c'" and mq: "mild_request q p"
    and reach: "\<And>sid os. cc_sessions c sid = Some os \<Longrightarrow> op_reachable D ts os"
  shows "request_ok g X H Y c' r p"
proof -
  note f = fixedD [OF mild_requestD(1) [OF mq]] and l = mild_lists [OF m] and d = mild_requestD [OF mq]
  note ok = request_okD [OF ok]
  have "busy p = busy q" by (rule d(6))
  have fresh: "fresh q \<Longrightarrow> fresh p" using f d(5,7,8) by (simp add: fresh_def)
  have "rq_workers q > 0 \<Longrightarrow> rq_workers p > 0" using mild_requestD2(2) [OF mq] by auto
  with f(2,21) d(6) have aw: "awaited q \<Longrightarrow> awaited p" by (cases "rq_kind q") (simp_all add: awaited_def)
  have "place_ok X H c' r p" using ok(1) fresh aw unfolding place_ok_def l f by blast
  moreover have "acquire_ok g X c' r p"
  proof -
    have a1: "busy q \<longrightarrow> r \<in> set (cc_active c) \<and> r \<notin> X \<and> \<not> rq_answered q \<and> rq_kind q = XCC_RESULT_ACQUIRE \<and> rq_validation_error q = XCC_OK"
      and a2: "rq_kind q = XCC_RESULT_ACQUIRE \<longrightarrow> rq_workers q = (if rq_enumerating q then 1 else 0)"
      and a3: "\<forall>rows. rq_chooser q = Some rows \<longrightarrow> cg_chooser_available g \<and> \<not> rq_interaction_forbidden q \<and> \<not> rq_chooser_completed q \<and> list_all (offer_ok q) rows"
      using ok(2) unfolding acquire_ok_def by blast+
    have "\<forall>rows. rq_chooser p = Some rows \<longrightarrow> cg_chooser_available g \<and> \<not> rq_interaction_forbidden q \<and> \<not> rq_chooser_completed q \<and> list_all (offer_ok p) rows"
    proof (intro allI impI)
      fix rows
      assume "rq_chooser p = Some rows"
      with mild_requestD2(1) [OF mq] obtain rows' where "rq_chooser q = Some rows'" "rows = rows' \<or> rows = []" by (cases "rq_chooser q") auto
      with a3 f(12) show "cg_chooser_available g \<and> \<not> rq_interaction_forbidden q \<and> \<not> rq_chooser_completed q \<and> list_all (offer_ok p) rows"
        by (auto simp: offer_ok_def list_all_iff)
    qed
    moreover have "rq_kind q = XCC_RESULT_ACQUIRE \<longrightarrow> rq_workers p = (if rq_enumerating p then 1 else 0)"
      using a2 mild_requestD2(2) [OF mq] by auto
    moreover have "chosen_ok (cc_log c) r p x" if "chosen_ok (cc_log c) r q x" for x
      using that by (rule chosen_ok_cong) (simp_all add: f)
    moreover have "offer_ok p x = offer_ok q x" for x by (simp add: offer_ok_def f)
    ultimately show ?thesis using ok(2) a1 unfolding acquire_ok_def l f d(6) by meson
  qed
  moreover have "spec_ok p" using ok(3) f by (simp add: spec_ok_def)
  moreover have "result_ok c' r p" using ok(4) unfolding result_ok_def sent_candidate_def sent_signature_def l f .
  moreover have "kind_ok c' p" using ok(6) unfolding kind_ok_def l f mild_at(6) [OF m] .
  moreover have "link_ok Y c' r p" by (rule link_ok_mild [OF ok(5) m mq reach])
  ultimately show ?thesis by (simp add: request_ok_def)
qed

lemma acquiring_mild: "mild D ts c c' \<Longrightarrow> acquiring X c' sid r = acquiring X c sid r"
proof -
  assume m: "mild D ts c c'"
  show ?thesis unfolding acquiring_def mild_lists [OF m]
    using mild_requests_ex [OF m, of "\<lambda>q. rq_kind q = XCC_RESULT_ACQUIRE \<and> rq_session q = Some sid \<and> \<not> rq_answered q" r]
      fixedD(1,2,3) [OF mild_requestD(1)] by simp
qed

lemma holding_mild: "mild D ts c c' \<Longrightarrow> holding c' sid r = holding c sid r"
proof -
  assume m: "mild D ts c c'"
  show ?thesis unfolding holding_def
    using mild_requests_ex [OF m, of "\<lambda>q. rq_session q = Some sid \<and> rq_candidate q \<noteq> None" r] fixedD(1,9) [OF mild_requestD(1)] by simp
qed

lemma session_ok_mild:
  assumes ok: "session_ok D ts X c sid s" and m: "mild D ts c c'" and ms: "mild_session D ts s t"
  shows "session_ok D ts X c' sid t"
proof -
  from ok have r: "op_reachable D ts s" by (simp add: session_ok_def)
  with ms have t: "op_reachable D ts t" "os_next t = os_next s" "grant_part (os_session t) = grant_part (os_session s)"
    by (simp_all add: mild_session_def)
  note gp = grant_partD [OF t(3)]
  have "\<exists>p. cc_requests c' r = Some p \<and> rq_candidate p = Some cd \<and> granted_by p cd (os_session t)"
    if "cc_requests c r = Some q" "rq_candidate q = Some cd" "granted_by q cd (os_session s)" for r q cd
  proof -
    from mild_at(2) [OF m that(1)] obtain p where "cc_requests c' r = Some p" "mild_request q p" by blast
    with that fixedD(9,11,13,14) [OF mild_requestD(1) [OF this(2)]] show ?thesis by (auto simp: granted_by_def gp)
  qed
  note tr = this
  show ?thesis
  proof (cases "se_granted (os_session s)")
    case True
    with ok obtain r q cd where h: "\<forall>p. holding c sid p \<longleftrightarrow> p = r" "cc_requests c r = Some q" "rq_candidate q = Some cd"
      "granted_by q cd (os_session s)" "se_grant_pending (os_session s) \<longleftrightarrow> r \<in> set (outstanding c)" "\<forall>r. \<not> acquiring X c sid r"
      "\<forall>i. cc_callbacks c sid i \<noteq> None \<longleftrightarrow> i < os_next s" unfolding session_ok_def by auto
    from tr [OF h(2-4)] obtain p where "cc_requests c' r = Some p" "rq_candidate p = Some cd" "granted_by p cd (os_session t)" by blast
    with h t True show ?thesis unfolding session_ok_def gp t(2) acquiring_mild [OF m] holding_mild [OF m] mild_lists(4,6) [OF m] by auto
  next
    case False
    with ok t(1) show ?thesis unfolding session_ok_def gp t(2) acquiring_mild [OF m] holding_mild [OF m] mild_lists(4,6) [OF m] by simp
  qed
qed

lemma core_inv_mild:
  assumes inv: "core_inv D ts g X H Y c" and m: "mild D ts c c'"
  shows "core_inv D ts g X H Y c'"
proof (rule core_invI)
  have reach: "op_reachable D ts os" if "cc_sessions c sid = Some os" for sid os
    using core_invD(3) [OF inv that] by (simp add: session_ok_def)
  show "lists_ok c'" by (rule lists_ok_mild [OF core_invD(1) [OF inv] m])
  show "queue_ok c'"
  proof (rule queue_ok_same [OF core_invD(4) [OF inv]])
    show "\<exists>q'. cc_requests c' r = Some q' \<and> rq_kind q' = rq_kind q \<and>
      (Post_rollback r \<in> set (cc_queue c) \<longrightarrow> rq_candidate q' = rq_candidate q \<and> rq_error q' = rq_error q)"
      if "cc_requests c r = Some q" for r q
      using mild_at(2) [OF m that] fixedD(2,5,9) [OF mild_requestD(1)] by blast
  qed (simp_all add: mild_lists [OF m])
  show "request_ok g X H Y c' r p" if p: "cc_requests c' r = Some p" for r p
  proof -
    from mild_at(1) [OF m p] obtain q where q: "cc_requests c r = Some q" "mild_request q p" by blast
    show ?thesis by (rule request_ok_mild [OF core_invD(2) [OF inv q(1)] m q(2) reach])
  qed
  show "session_ok D ts X c' sid t" if t: "cc_sessions c' sid = Some t" for sid t
  proof -
    from mild_at(3) [OF m t] obtain s where s: "cc_sessions c sid = Some s" "mild_session D ts s t" by blast
    show ?thesis by (rule session_ok_mild [OF core_invD(3) [OF inv s(1)] m s(2)])
  qed
qed

text \<open>A fold of mild changes is mild.\<close>

lemma mild_fold:
  assumes inv: "core_inv D ts g X H Y c" and f: "\<And>x c. x \<in> set xs \<Longrightarrow> core_inv D ts g X H Y c \<Longrightarrow> mild D ts c (f x c)"
  shows "mild D ts c (fold f xs c)"
  using assms
proof (induction xs arbitrary: c)
  case (Cons x xs)
  have m: "mild D ts c (f x c)" by (rule Cons.prems(2)) (simp_all add: Cons.prems(1))
  have "mild D ts (f x c) (fold f xs (f x c))"
    by (rule Cons.IH [OF core_inv_mild [OF Cons.prems(1) m]]) (use Cons.prems(2) in auto)
  from mild_trans [OF m this] show ?case by simp
qed simp

section \<open>The mild functions\<close>

lemma core_fields [simp]:
  "cc_requests (session_put sid os c) = cc_requests c" "cc_requests (desktop_post p c) = cc_requests c" "cc_requests (core_note x c) = cc_requests c"
  "cc_requests (request_set r f c) r' = (if r' = r then map_option f (cc_requests c r) else cc_requests c r')"
  "cc_sessions (request_set r f c) = cc_sessions c" "cc_sessions (desktop_post p c) = cc_sessions c" "cc_sessions (core_note x c) = cc_sessions c"
  "cc_sessions (session_put sid os c) sid' = (if sid' = sid then Some os else cc_sessions c sid')"
  "cc_queue (request_set r f c) = cc_queue c" "cc_queue (session_put sid os c) = cc_queue c" "cc_queue (desktop_post p c) = cc_queue c" "cc_queue (core_note x c) = cc_queue c"
  "cc_desktop (request_set r f c) = cc_desktop c" "cc_desktop (session_put sid os c) = cc_desktop c" "cc_desktop (desktop_post p c) = cc_desktop c @ [p]" "cc_desktop (core_note x c) = cc_desktop c"
  "cc_stage (request_set r f c) = cc_stage c" "cc_stage (session_put sid os c) = cc_stage c" "cc_stage (desktop_post p c) = cc_stage c" "cc_stage (core_note x c) = cc_stage c"
  "cc_log (request_set r f c) = cc_log c" "cc_log (session_put sid os c) = cc_log c" "cc_log (desktop_post p c) = cc_log c" "cc_log (core_note x c) = x # cc_log c"
  "cc_active (request_set r f c) = cc_active c" "cc_active (session_put sid os c) = cc_active c" "cc_active (desktop_post p c) = cc_active c" "cc_active (core_note x c) = cc_active c"
  "cc_callbacks (request_set r f c) = cc_callbacks c" "cc_callbacks (session_put sid os c) = cc_callbacks c" "cc_callbacks (desktop_post p c) = cc_callbacks c" "cc_callbacks (core_note x c) = cc_callbacks c"
  "cc_next_request (request_set r f c) = cc_next_request c" "cc_next_request (session_put sid os c) = cc_next_request c" "cc_next_request (desktop_post p c) = cc_next_request c" "cc_next_request (core_note x c) = cc_next_request c"
  "cc_next_session (request_set r f c) = cc_next_session c" "cc_next_session (session_put sid os c) = cc_next_session c" "cc_next_session (desktop_post p c) = cc_next_session c" "cc_next_session (core_note x c) = cc_next_session c"
  "cc_registered (request_set r f c) = cc_registered c" "cc_registered (session_put sid os c) = cc_registered c" "cc_registered (desktop_post p c) = cc_registered c" "cc_registered (core_note x c) = cc_registered c"
  "cc_stopping (request_set r f c) = cc_stopping c" "cc_stopping (session_put sid os c) = cc_stopping c" "cc_stopping (desktop_post p c) = cc_stopping c" "cc_stopping (core_note x c) = cc_stopping c"
  "cc_shutdown_posted (request_set r f c) = cc_shutdown_posted c" "cc_shutdown_posted (session_put sid os c) = cc_shutdown_posted c" "cc_shutdown_posted (desktop_post p c) = cc_shutdown_posted c" "cc_shutdown_posted (core_note x c) = cc_shutdown_posted c"
  "cc_posts (request_set r f c) = cc_posts c" "cc_posts (session_put sid os c) = cc_posts c" "cc_posts (desktop_post p c) = cc_posts c" "cc_posts (core_note x c) = cc_posts c"
  "cc_generation (request_set r f c) = cc_generation c" "cc_generation (session_put sid os c) = cc_generation c" "cc_generation (desktop_post p c) = cc_generation c" "cc_generation (core_note x c) = cc_generation c"
  by (simp_all add: request_set_def session_put_def desktop_post_def core_note_def)

lemma core_lists [simp]:
  "starts (request_set r f c) = starts c" "starts (session_put sid os c) = starts c" "starts (desktop_post p c) = starts c" "starts (core_note x c) = starts c"
  "outstanding (request_set r f c) = outstanding c" "outstanding (session_put sid os c) = outstanding c" "outstanding (core_note x c) = outstanding c"
  "outstanding (desktop_post (Desk_invalidated sid reason) c) = outstanding c" "outstanding (desktop_post Desk_shutdown c) = outstanding c"
  "delivered (request_set r f c) = delivered c" "delivered (session_put sid os c) = delivered c" "delivered (desktop_post p c) = delivered c"
  by (simp_all add: starts_def outstanding_def delivered_def completion_of_def)

lemma option_rel_self [simp]: "rel_option mild_request x x" "rel_option (mild_session D ts) y y"
  by (simp_all add: option.rel_refl)

lemma mild_request_set:
  assumes "\<And>q. cc_requests c r = Some q \<Longrightarrow> mild_request q (f q)"
  shows "mild D ts c (request_set r f c)"
  using assms by (cases "cc_requests c r") (simp_all add: mild_def)

lemma mild_session_put:
  assumes "cc_sessions c sid = Some os" "mild_session D ts os os'"
  shows "mild D ts c (session_put sid os' c)"
  using assms by (simp add: mild_def)

lemma mild_plain:
  "mild D ts c (desktop_post (Desk_invalidated sid reason) c)" "mild D ts c (c\<lparr>cc_registered := l\<rparr>)" "mild D ts c (c\<lparr>cc_generation := n\<rparr>)"
  "mild D ts c (c\<lparr>cc_stopping := b\<rparr>)" "mild D ts c (c\<lparr>cc_waiting := b\<rparr>)" "mild D ts c (c\<lparr>cc_watch_stopped := b\<rparr>)"
  "mild D ts c (c\<lparr>cc_shutdown_started := b\<rparr>)"
  by (simp_all add: mild_def) (simp_all add: starts_def outstanding_def completion_of_def)

lemma mild_sessionI:
  assumes step: "op_step D ts s l t" and w: "weak s t" and log: "os_log t = new @ os_log s" "done_ids new = []"
  shows "mild_session D ts s t"
  unfolding mild_session_def
proof (intro impI conjI)
  assume s: "op_reachable D ts s"
  show t: "op_reachable D ts t" by (rule reach_step [OF s step])
  show "os_next t = os_next s" "grant_part (os_session t) = grant_part (os_session s)" "se_closed (os_session s) \<Longrightarrow> se_closed (os_session t)"
    "\<exists>l. os_log t = l @ os_log s"
    using w by (auto simp: weak_def)
  have ops: "rel_option same_input (os_operations s i) (os_operations t i)" for i
    using w by (simp add: weak_def)
  show "\<forall>i. rel_option (\<lambda>x y. same_input x y \<and> op_answered y = op_answered x) (os_operations s i) (os_operations t i)"
  proof
    fix i
    show "rel_option (\<lambda>x y. same_input x y \<and> op_answered y = op_answered x) (os_operations s i) (os_operations t i)"
    proof (cases "os_operations s i")
      case None
      with ops [of i] show ?thesis by simp
    next
      case (Some x)
      from new_reports(2) [OF ops.reach_inv [OF s] ops.reach_inv [OF t] log(1) ops Some] log(2) Some show ?thesis by auto
    qed
  qed
qed

lemma mild_close:
  fixes D :: "'w discovery_env" and e :: "'w op_env"
  shows "mild_session D ts s (Operations.xcc_session_close e s)"
  by (rule mild_sessionI [OF step_close weak_calm [OF calm.same_close], where new = "[]"])
    (simp_all add: Operations.xcc_session_close_def Operations.xcc_session_release_device_async_def Let_def)

lemma close_log: "os_log (Operations.xcc_session_close e s) = os_log s"
  by (simp add: Operations.xcc_session_close_def Operations.xcc_session_release_device_async_def Let_def)

lemma invalidate_log:
  "os_log (Operations.xcc_session_invalidate e reason s) =
     (if se_closed (os_session s) \<or> se_invalidating (os_session s) then [] else [Invalidated (checked_reason reason)]) @ os_log s"
  by (simp add: Operations.xcc_session_invalidate_def Let_def close_log)

lemma mild_invalidate:
  fixes D :: "'w discovery_env" and e :: "'w op_env"
  shows "mild_session D ts s (Operations.xcc_session_invalidate e reason s)"
  by (rule mild_sessionI [OF step_invalidate weak_calm [OF calm.same_invalidate] invalidate_log]) simp

lemma mild_cancel_operation:
  assumes "os_operations s i = Some x" "\<not> op_answered x" "op_cancellable x"
  shows "mild_session D ts s (op_set i cancel_operation s)"
  by (rule mild_sessionI [OF step_cancel [OF assms] weak_calm [OF calm.same_cancel], where new = "[]"]) simp_all

lemma mild_identity: "mild_session D ts s (identity_set level seen s)"
proof (rule mild_sessionI [where new = "[]"])
  have eq: "identity_set level seen s = session_set (\<lambda>se. se\<lparr>se_owner_generation := se_owner_generation (os_session s),
      se_app_id := se_app_id (os_session s), se_identity_level := level, se_identity_seen := seen\<rparr>) s"
    by (simp add: identity_set_def)
  show "op_step D ts s (undefined, Ev_identity (se_owner_generation (os_session s)) (se_app_id (os_session s)) level seen) (identity_set level seen s)"
    unfolding eq by (rule step_identity)
  show "weak s (identity_set level seen s)" by (simp add: weak_def identity_set_def grant_part_def option.rel_refl)
qed (simp_all add: identity_set_def)

lemma mild_fold_any: "(\<And>x c. mild D ts c (f x c)) \<Longrightarrow> mild D ts c (fold f xs c)"
proof (induction xs arbitrary: c)
  case (Cons x xs)
  from mild_trans [OF Cons.prems Cons.IH [OF Cons.prems]] show ?case by simp
qed simp

lemma mild_request_flags [simp]:
  "mild_request q (q\<lparr>rq_cancelled := True\<rparr>)" "mild_request q (q\<lparr>rq_enumerate_again := b\<rparr>)" "mild_request q (q\<lparr>rq_principal := p\<rparr>)"
  "mild_request q (q\<lparr>rq_cancel_intent := Some reason\<rparr>)" "err \<noteq> XCC_OK \<Longrightarrow> mild_request q (q\<lparr>rq_cancelled_code := err\<rparr>)"
  by (simp_all add: mild_request_def fixed_def)

lemma cancel_code_error [simp]: "cancel_code reason \<noteq> XCC_OK"
  by (cases reason) simp_all

lemma mild_close_request: "mild D ts c (close_request sid r c)"
  by (auto simp: close_request_def Let_def mild_request_def fixed_def split: option.split intro!: mild_request_set)

lemma mild_invalidate_request: "mild D ts c (invalidate_request sid reason r c)"
  by (auto simp: invalidate_request_def Let_def mild_request_def fixed_def split: option.split intro!: mild_request_set)

lemma mild_session_closed: "mild D ts c (session_closed sid c)"
  unfolding session_closed_def Let_def by (rule mild_trans [OF mild_fold_any [OF mild_close_request] mild_plain(2)])

lemma mild_close_internal:
  fixes D :: "'w discovery_env" and e :: "'w core_env"
  shows "mild D ts c (xcc_session_close_internal e sid c)"
  unfolding xcc_session_close_internal_def
  by (auto split: option.split intro: mild_trans [OF mild_session_put [OF _ mild_close] mild_session_closed])

lemma mild_session_invalidated: "mild D ts c (session_invalidated sid reason c)"
  unfolding session_invalidated_def
  by (rule mild_trans [OF mild_trans [OF mild_fold_any [OF mild_invalidate_request] mild_plain(1)] mild_session_closed])

lemma session_goes_eq:
  "cc_sessions c sid = Some os \<Longrightarrow> os_log os' = new @ os_log os \<Longrightarrow> session_goes g sid os' c = fold (report g sid) (rev new) (session_put sid os' c)"
  by (simp add: session_goes_def)

lemma invalidate_internal_eq:
  assumes "cc_sessions c sid = Some os"
  shows "xcc_session_invalidate_internal g e reason sid c =
     (if se_closed (os_session os) \<or> se_invalidating (os_session os) then session_put sid os c
      else session_invalidated sid (checked_reason reason) (session_put sid (Operations.xcc_session_invalidate (ce_op e) reason os) c))"
  unfolding xcc_session_invalidate_internal_def assms option.case session_goes_eq [OF assms invalidate_log]
  by (simp add: report_def Operations.xcc_session_invalidate_def)

lemma mild_invalidate_internal:
  fixes D :: "'w discovery_env" and e :: "'w core_env"
  shows "mild D ts c (xcc_session_invalidate_internal g e reason sid c)"
proof (cases "cc_sessions c sid")
  case (Some os)
  have "mild D ts c (session_put sid os c)" by (rule mild_session_put [OF Some mild_session_refl])
  moreover have "mild D ts c (session_invalidated sid (checked_reason reason)
      (session_put sid (Operations.xcc_session_invalidate (ce_op e) reason os) c))"
    by (rule mild_trans [OF mild_session_put [OF Some mild_invalidate] mild_session_invalidated])
  ultimately show ?thesis unfolding invalidate_internal_eq [OF Some] by simp
qed (simp add: xcc_session_invalidate_internal_def)

lemma mild_cancel:
  assumes inv: "core_inv D ts g X H {} c" and q: "\<And>q. cc_requests c r = Some q \<Longrightarrow> \<not> rq_answered q"
  shows "mild D ts c (cancel_cancellable r c)"
proof (cases "cc_requests c r")
  case (Some q)
  let ?c1 = "request_set r (\<lambda>q. q\<lparr>rq_cancelled := True\<rparr>) c"
  have m: "mild D ts c ?c1" by (rule mild_request_set) simp
  show ?thesis
  proof (cases "rq_operation q")
    case None
    with Some m show ?thesis by (cases "rq_session q") (simp_all add: cancel_cancellable_def Let_def)
  next
    case i: (Some i)
    with request_okD(5) [OF core_invD(2) [OF inv Some]] obtain sid os x where "rq_session q = Some sid" "cc_sessions c sid = Some os"
      "os_operations os i = Some x" "op_cancellable x" "rq_answered q \<longleftrightarrow> op_answered x" unfolding link_ok_def linked_def by blast
    with q [OF Some] mild_trans [OF m mild_session_put [OF _ mild_cancel_operation, of ?c1 sid os i x]] i Some show ?thesis
      by (simp add: cancel_cancellable_def Let_def)
  qed
qed (simp add: cancel_cancellable_def)

text \<open>A cancellation after a change of flags.\<close>

lemma mild_cancel_after:
  assumes inv: "core_inv D ts g X H {} c" and q: "cc_requests c r = Some q" "\<not> rq_answered q" and f: "mild_request q (f q)"
  shows "mild D ts c (cancel_cancellable r (request_set r f c))"
proof -
  have m: "mild D ts c (request_set r f c)" by (rule mild_request_set) (use q f in simp)
  have "mild D ts (request_set r f c) (cancel_cancellable r (request_set r f c))"
    by (rule mild_cancel [OF core_inv_mild [OF inv m]]) (use q fixedD(3) [OF mild_requestD(1) [OF f]] in auto)
  from mild_trans [OF m this] show ?thesis .
qed

lemma mild_enumeration:
  assumes "cc_requests c r = Some q" "rq_chooser q \<noteq> None" "\<not> rq_enumerating q"
  shows "mild D ts c (start_enumeration r c)"
  unfolding start_enumeration_def by (rule mild_request_set) (use assms in \<open>simp add: mild_request_def fixed_def\<close>)

lemma mild_acquire_token_event:
  assumes inv: "core_inv D ts g X H {} c"
  shows "mild D ts c (acquire_token_event token added r c)"
proof (cases "cc_requests c r")
  case (Some q)
  show ?thesis
  proof (cases "rq_answered q \<or> rq_kind q \<noteq> XCC_RESULT_ACQUIRE")
    case False
    then have un: "\<not> rq_answered q" by simp
    let ?f = "\<lambda>q. q\<lparr>rq_cancelled_code := XCC_ERROR_TOKEN_REMOVED\<rparr>"
    have a: "mild D ts c (cancel_cancellable r (request_set r ?f c))"
      by (rule mild_cancel_after [OF inv Some un]) simp
    have b: "mild D ts d (request_set r (\<lambda>q. q\<lparr>rq_enumerate_again := True\<rparr>) d)" for d by (rule mild_request_set) simp
    let ?c1 = "if \<not> added \<and> rq_chooser q \<noteq> None then request_set r (\<lambda>q. q\<lparr>rq_chooser := Some []\<rparr>) c else c"
    have c1: "mild D ts c ?c1" using Some by (auto simp: mild_request_def fixed_def intro!: mild_request_set)
    have d: "mild D ts ?c1 (start_enumeration r ?c1)" if "rq_chooser q \<noteq> None" "\<not> rq_enumerating q"
      by (rule mild_enumeration [where q = "if \<not> added \<and> rq_chooser q \<noteq> None then q\<lparr>rq_chooser := Some []\<rparr> else q"]) (use that Some in auto)
    show ?thesis
    proof (cases "rq_chooser_completed q")
      case True
      with False Some show ?thesis using a b by (simp add: acquire_token_event_def)
    next
      case nc: False
      show ?thesis
      proof (cases "rq_chooser q = None \<and> \<not> rq_enumerating q")
        case True
        with nc False Some show ?thesis by (simp add: acquire_token_event_def)
      next
        case ce: False
        have "acquire_token_event token added r c =
            (if rq_enumerating q then request_set r (\<lambda>q. q\<lparr>rq_enumerate_again := True\<rparr>) ?c1 else start_enumeration r ?c1)"
          unfolding acquire_token_event_def Let_def Some option.case if_not_P [OF False] if_not_P [OF nc] if_not_P [OF ce] ..
        moreover have "mild D ts c (request_set r (\<lambda>q. q\<lparr>rq_enumerate_again := True\<rparr>) ?c1)" by (rule mild_trans [OF c1 b])
        moreover have "\<not> rq_enumerating q \<Longrightarrow> mild D ts c (start_enumeration r ?c1)" using ce by (intro mild_trans [OF c1 d]) auto
        ultimately show ?thesis by metis
      qed
    qed
  qed (use Some in \<open>simp add: acquire_token_event_def\<close>)
qed (simp add: acquire_token_event_def)

lemma mild_token_event:
  fixes D :: "'w discovery_env" and e :: "'w core_env"
  assumes inv: "core_inv D ts g X H {} c"
  shows "mild D ts c (token_event g e ev c)"
proof -
  have a: "mild D ts c (xcc_acquire_token_event (fst ev) (snd ev) c)"
    unfolding xcc_acquire_token_event_def by (rule mild_fold [OF inv mild_acquire_token_event])
  have "mild D ts d (remove_token g e token sid d)" for d token sid
    unfolding remove_token_def by (auto split: option.split intro: mild_invalidate_internal)
  then have "mild D ts d (fold (remove_token g e token) sids d)" for d token sids by (rule mild_fold_any)
  from mild_trans [OF a this] a show ?thesis by (cases "snd ev") (simp_all add: token_event_def Let_def)
qed

lemma mild_dispatch:
  fixes D :: "'w discovery_env" and e :: "'w core_env"
  assumes inv: "core_inv D ts g X H {} c"
  shows "mild D ts c (deliver_token_events g e events c)"
  unfolding deliver_token_events_def by (rule mild_fold [OF inv mild_token_event])

lemma mild_cancel_request:
  assumes inv: "core_inv D ts g X H {} c"
  shows "mild D ts c (cancel_request reason r c)"
proof (cases "cc_requests c r")
  case (Some q)
  let ?f = "\<lambda>q. if rq_cancelled_code q = XCC_OK then q\<lparr>rq_cancelled_code := cancel_code reason\<rparr> else q"
  from mild_cancel_after [OF inv Some, of ?f] Some show ?thesis by (simp add: cancel_request_def)
qed (simp add: cancel_request_def)

lemma mild_override_request:
  assumes inv: "core_inv D ts g X H {} c"
  shows "mild D ts c (override_request reason r c)"
proof (cases "cc_requests c r")
  case (Some q)
  let ?f = "\<lambda>q. q\<lparr>rq_cancel_intent := Some reason\<rparr>" and ?h = "\<lambda>q. q\<lparr>rq_cancelled_code := cancel_code reason\<rparr>"
  have m: "mild D ts c (request_set r ?f c)" by (rule mild_request_set) simp
  have "mild D ts (request_set r ?f c) (cancel_cancellable r (request_set r ?h (request_set r ?f c)))" if "\<not> rq_answered q"
    by (rule mild_cancel_after [OF core_inv_mild [OF inv m], of r "?f q"]) (use Some that in simp_all)
  from mild_trans [OF m this] m Some show ?thesis by (auto simp: override_request_def Let_def)
qed (simp add: override_request_def)

lemma mild_orphan_request: "core_inv D ts g X H {} c \<Longrightarrow> mild D ts c (orphan_request r c)"
  unfolding orphan_request_def by (auto split: option.split intro: mild_override_request)

lemma mild_generation:
  fixes D :: "'w discovery_env" and e :: "'w core_env"
  assumes inv: "core_inv D ts g X H {} c"
  shows "mild D ts c (generation e n c)"
proof -
  have a: "mild D ts c (c\<lparr>cc_generation := n\<rparr>)" by (rule mild_plain)
  from mild_trans [OF a mild_fold [OF core_inv_mild [OF inv a] mild_orphan_request]]
  have b: "mild D ts c (fold orphan_request (cc_active c) (c\<lparr>cc_generation := n\<rparr>))" .
  have "mild D ts d (orphan_session e sid d)" for d sid
    unfolding orphan_session_def by (auto split: option.split intro: mild_close_internal)
  from mild_trans [OF b mild_fold_any [OF this]] show ?thesis by (simp add: generation_def Let_def)
qed

end
