(* ===== verification/CoreInv.thy ===== *)
theory CoreInv
  imports CoreProps
begin

text \<open>
  The invariant \<open>core_inv\<close> through the functions that answer requests, start enumerations and grant
  sessions, and so through every step of the core.
\<close>

section \<open>Answering\<close>

lemma completed_fields [simp]:
  "rq_session (completed g err q) = rq_session q" "rq_kind (completed g err q) = rq_kind q" "rq_answered (completed g err q)"
  "rq_detached (completed g err q) = rq_detached q" "rq_candidate (completed g err q) = rq_candidate q"
  "rq_signature (completed g err q) = rq_signature q" "rq_purpose (completed g err q) = rq_purpose q"
  "rq_filter (completed g err q) = rq_filter q" "rq_lifetime (completed g err q) = rq_lifetime q" "rq_may_sign (completed g err q) = rq_may_sign q"
  "rq_interaction_forbidden (completed g err q) = rq_interaction_forbidden q" "rq_chooser (completed g err q) = rq_chooser q"
  "rq_enumerating (completed g err q) = rq_enumerating q" "rq_chooser_completed (completed g err q) = rq_chooser_completed q"
  "rq_pending_chosen (completed g err q) = rq_pending_chosen q" "rq_pending_error (completed g err q) = rq_pending_error q"
  "rq_validation_error (completed g err q) = rq_validation_error q" "rq_workers (completed g err q) = rq_workers q"
  "rq_operation (completed g err q) = rq_operation q" "rq_input (completed g err q) = rq_input q" "rq_cancel_intent (completed g err q) = rq_cancel_intent q"
  "rq_candidate_present (completed g err q) \<longleftrightarrow> rq_error (completed g err q) = XCC_OK \<and> rq_candidate q \<noteq> None"
  "rq_signature_present (completed g err q) \<longleftrightarrow> rq_error (completed g err q) = XCC_OK \<and> rq_signature q \<noteq> None"
  "rq_mechanisms_present (completed g err q) \<longleftrightarrow> rq_error (completed g err q) = XCC_OK \<and> rq_kind q = XCC_RESULT_CAPABILITIES"
  by (simp_all add: completed_def Let_def)

lemma completed_error:
  "rq_error (completed g err q) = (if rq_cancelled_code q \<noteq> XCC_OK then rq_cancelled_code q else if rq_cancelled q then XCC_ERROR_CANCELLED else err)"
  by (simp add: completed_def Let_def)

lemma completed_ok: "rq_error (completed g err q) = XCC_OK \<Longrightarrow> err = XCC_OK"
  by (simp add: completed_error split: if_splits)

lemma busy_completed [simp]: "busy (completed g err q) = busy q"
  by (simp add: busy_def)

text \<open>What a change of a session keeps for its operations.\<close>

definition ops_kept :: "op_state \<Rightarrow> op_state \<Rightarrow> bool" where
  "ops_kept s t \<longleftrightarrow> os_operations s \<subseteq>\<^sub>m os_operations t \<and> set (os_log s) \<subseteq> set (os_log t) \<and>
     (os_operations s \<noteq> (\<lambda>_. None) \<longrightarrow> se_candidate (os_session t) = se_candidate (os_session s))"

lemma ops_kept_refl [simp]: "ops_kept s s"
  by (simp add: ops_kept_def)

text \<open>Before a grant is delivered the session has no operations.\<close>

lemma no_operations:
  assumes "op_reachable D ts os" "\<not> se_granted (os_session os) \<or> se_grant_pending (os_session os)"
  shows "os_operations os = (\<lambda>_. None)"
proof
  fix i
  from grant.reach_inv [OF assms(1)] have inv: "op_inv {} os" and "idle_ok os" by (simp_all add: grant_inv_def)
  with assms(2) have "os_next os = 0" by (auto simp: idle_ok_def)
  with op_atD(1) [OF inv] show "os_operations os i = None" by (cases "os_operations os i") auto
qed

lemma ops_kept_idle: "os_operations os = (\<lambda>_. None) \<Longrightarrow> os_log t = os_log os \<Longrightarrow> ops_kept os t"
  by (simp add: ops_kept_def)

lemma linked_cong:
  assumes "rq_input p = rq_input q" "rq_signature p = rq_signature q" "rq_answered p = rq_answered q"
  shows "linked Y p = linked Y q"
  using assms by (simp add: linked_def asked_for_def fun_eq_iff)

lemma linked_kept:
  assumes "linked Y q sid i s x" "ops_kept s t" "(sid, i) \<in> Y' \<longleftrightarrow> (sid, i) \<in> Y"
  shows "linked Y' q sid i t x"
proof -
  from assms(1,2) have "os_operations t i = Some x" "se_candidate (os_session t) = se_candidate (os_session s)" "set (os_log s) \<subseteq> set (os_log t)"
    by (auto simp: linked_def ops_kept_def map_le_def dom_def fun_eq_iff)
  with assms(1,3) show ?thesis by (auto simp: linked_def asked_for_def)
qed

text \<open>Another request: the lists change only at \<open>r\<close>.\<close>

lemma request_ok_other:
  assumes ok: "request_ok g X H Y c p q"
    and "p \<in> set (starts c') \<longleftrightarrow> p \<in> set (starts c)" "p \<in> set (cc_active c') \<longleftrightarrow> p \<in> set (cc_active c)" "p \<in> X' \<longleftrightarrow> p \<in> X" "p \<in> H' \<longleftrightarrow> p \<in> H"
      "p \<in> set (delivered c') \<longleftrightarrow> p \<in> set (delivered c)" "set (cc_log c) \<subseteq> set (cc_log c')"
    and sessions: "\<And>sid s. rq_session q = Some sid \<Longrightarrow> cc_sessions c sid = Some s \<Longrightarrow>
      \<exists>t. cc_sessions c' sid = Some t \<and> ops_kept s t"
    and callbacks: "\<And>sid i. cc_callbacks c sid i = Some p \<Longrightarrow> cc_callbacks c' sid i = Some p \<and> ((sid, i) \<in> Y' \<longleftrightarrow> (sid, i) \<in> Y)"
  shows "request_ok g X' H' Y' c' p q"
proof -
  note k = request_okD [OF ok]
  have "place_ok X' H' c' p q" using k(1) unfolding place_ok_def assms(2-6) .
  moreover have "acquire_ok g X' c' p q"
    using k(2) chosen_ok_cong [OF _ assms(7) refl] subsetD [OF assms(7)] unfolding acquire_ok_def assms(2-6) by blast
  moreover have "result_ok c' p q" using k(4) assms(7) unfolding result_ok_def assms(2-6) by blast
  moreover have "link_ok Y' c' p q" unfolding link_ok_def
  proof (rule conjI; intro allI impI)
    show "rq_operation q = None \<Longrightarrow> rq_signature q = None" using k(5) by (simp add: link_ok_def)
    fix i
    assume "rq_operation q = Some i"
    with k(5) obtain sid os x where l: "rq_kind q = XCC_RESULT_SIGN" "rq_session q = Some sid" "cc_callbacks c sid i = Some p" "cc_sessions c sid = Some os"
      "linked Y q sid i os x" unfolding link_ok_def by blast
    from sessions [OF l(2,4)] obtain t where "cc_sessions c' sid = Some t" "ops_kept os t" by blast
    with l callbacks [OF l(3)] linked_kept [OF l(5)] show "rq_kind q = XCC_RESULT_SIGN \<and> (\<exists>sid os x. rq_session q = Some sid \<and> cc_callbacks c' sid i = Some p \<and>
      cc_sessions c' sid = Some os \<and> linked Y' q sid i os x)" by blast
  qed
  moreover have "kind_ok c' q" using k(6) sessions assms(7) unfolding kind_ok_def session_held_def by (metis not_None_eq subsetD)
  ultimately show ?thesis using k(3) by (simp add: request_ok_def)
qed

lemma answered_iff:
  assumes "core_inv D ts g X H Y c" "cc_requests c r = Some q"
  shows "rq_answered q \<longleftrightarrow> r \<in> set (outstanding c) \<or> r \<in> set (delivered c)"
  using core_invD(1) [OF assms(1)] assms(2) by (auto simp: lists_ok_def)

lemma complete_inv:
  assumes inv: "core_inv D ts g X H Y c" and q: "cc_requests c r = Some q" "\<not> rq_answered q" "\<not> busy q" "rq_candidate q = None"
      "r \<notin> set (starts c)" "r \<in> set (cc_active c)"
    and payload: "err = XCC_OK \<Longrightarrow> rq_kind q = XCC_RESULT_SIGN \<and> rq_signature q \<noteq> None \<or> rq_kind q = XCC_RESULT_CAPABILITIES"
    and H': "\<And>p. p \<noteq> r \<Longrightarrow> p \<in> H' \<longleftrightarrow> p \<in> H"
    and Y: "case rq_operation q of None \<Rightarrow> Y' = Y | Some i \<Rightarrow> (\<forall>sid. rq_session q = Some sid \<longrightarrow> (sid, i) \<in> Y \<and> Y' = Y - {(sid, i)} \<and>
      (\<exists>os x. cc_sessions c sid = Some os \<and> os_operations os i = Some x \<and> op_answered x))"
  shows "core_inv D ts g (X - {r}) H' Y' (xcc_request_complete g r err c)"
proof -
  let ?q = "completed g err q"
  define c' where "c' = desktop_post (Desk_completion r) (request_set r (completed g err) c)"
  have eq: "xcc_request_complete g r err c = c'" using q by (simp add: xcc_request_complete_def c'_def)
  have req: "cc_requests c' p = (if p = r then Some ?q else cc_requests c p)" for p using q(1) by (simp add: c'_def)
  have f: "cc_sessions c' = cc_sessions c" "cc_active c' = cc_active c" "cc_callbacks c' = cc_callbacks c" "starts c' = starts c"
    "delivered c' = delivered c" "cc_log c' = cc_log c" "cc_next_request c' = cc_next_request c" "cc_next_session c' = cc_next_session c"
    by (simp_all add: c'_def)
  have out: "outstanding c' = concat (map completion_of (cc_desktop c)) @ r # deciding (cc_stage c) @ concat (map rollback_of (cc_queue c))"
    by (simp add: c'_def outstanding_def completion_of_def)
  have outs: "set (outstanding c') = insert r (set (outstanding c))" unfolding out by (auto simp: outstanding_def)
  have new: "r \<notin> set (outstanding c)" "r \<notin> set (delivered c)" using answered_iff [OF inv q(1)] q(2) by simp_all
  note L = core_invD(1) [OF inv, unfolded lists_ok_def]
  note R = request_okD [OF core_invD(2) [OF inv q(1)]]
  have op: "rq_operation q = None \<or> (\<exists>sid i os x. rq_operation q = Some i \<and> rq_session q = Some sid \<and> cc_callbacks c sid i = Some r \<and>
      cc_sessions c sid = Some os \<and> linked Y q sid i os x \<and> op_answered x \<and> rq_kind q = XCC_RESULT_SIGN \<and>
      (sid, i) \<in> Y \<and> Y' = Y - {(sid, i)})"
  proof (cases "rq_operation q")
    case (Some i)
    with R(5) obtain sid os x where k: "rq_kind q = XCC_RESULT_SIGN" "rq_session q = Some sid" "cc_callbacks c sid i = Some r" "cc_sessions c sid = Some os"
      "linked Y q sid i os x" unfolding link_ok_def by blast
    from Y Some k(2) obtain os' x' where "(sid, i) \<in> Y" "Y' = Y - {(sid, i)}" "cc_sessions c sid = Some os'" "os_operations os' i = Some x'" "op_answered x'"
      by auto
    with k Some show ?thesis by (auto simp: linked_def)
  qed simp
  have opl: "link_ok Y' c' r ?q"
  proof (cases "rq_operation q")
    case None
    with R(5) show ?thesis by (simp add: link_ok_def)
  next
    case (Some i)
    with op obtain sid os x where l: "rq_session q = Some sid" "cc_callbacks c sid i = Some r" "cc_sessions c sid = Some os" "linked Y q sid i os x"
      "op_answered x" "rq_kind q = XCC_RESULT_SIGN" "Y' = Y - {(sid, i)}" by auto
    then have "linked Y' ?q sid i os x" by (simp add: linked_def asked_for_def)
    with l Some show ?thesis by (auto simp: link_ok_def f)
  qed
  have "core_inv D ts g (X - {r}) H' Y' c'"
  proof (rule core_invI)
    have "distinct (outstanding c' @ delivered c')"
      using L new unfolding out f by (auto simp: outstanding_def)
    moreover have "(\<exists>x. cc_requests c' p = Some x \<and> rq_answered x) \<longleftrightarrow> p = r \<or> (\<exists>x. cc_requests c p = Some x \<and> rq_answered x)" for p
      by (simp add: req)
    moreover have "(\<exists>x. cc_requests c' p = Some x \<and> rq_session x = Some sid \<and> rq_operation x = Some i) \<longleftrightarrow>
        (\<exists>x. cc_requests c p = Some x \<and> rq_session x = Some sid \<and> rq_operation x = Some i)" for p sid i
      using q(1) by (auto simp: req)
    moreover have "cc_requests c' p \<noteq> None \<longleftrightarrow> cc_requests c p \<noteq> None" for p using q(1) by (simp add: req)
    ultimately show "lists_ok c'" using L outs unfolding lists_ok_def f by auto
    have "Post_rollback r \<notin> set (cc_queue c)" using new(1) by (auto simp: outstanding_def rollback_of_def)
    then show "queue_ok c'" by (intro queue_ok_same [OF core_invD(4) [OF inv]]) (use q(1) in \<open>auto simp: req c'_def\<close>)
  next
    fix p x
    assume p: "cc_requests c' p = Some x"
    show "request_ok g (X - {r}) H' Y' c' p x"
    proof (cases "p = r")
      case False
      with p have p: "cc_requests c p = Some x" by (simp add: req)
      show ?thesis
      proof (rule request_ok_other [OF core_invD(2) [OF inv p]])
        fix sid i
        assume cb: "cc_callbacks c sid i = Some p"
        with op False show "cc_callbacks c' sid i = Some p \<and> ((sid, i) \<in> Y' \<longleftrightarrow> (sid, i) \<in> Y)" using Y unfolding f by auto
      qed (use False H' in \<open>simp_all add: f\<close>)
    next
      case True
      with p have x: "x = ?q" by (simp add: req)
      have "place_ok (X - {r}) H' c' r ?q" using R(1) q by (simp add: place_ok_def f)
      moreover have "acquire_ok g (X - {r}) c' r ?q" using R(2) q unfolding acquire_ok_def f
        by (simp add: chosen_ok_def offer_ok_def [abs_def] cong: option.case_cong)
      moreover have "spec_ok ?q" using R(3) by (simp add: spec_ok_def)
      moreover have "result_ok c' r ?q" using q new payload completed_ok [of g err q]
        by (auto simp: result_ok_def f split: result_kind.split)
      moreover have "kind_ok c' ?q" using R(6) by (simp add: kind_ok_def session_held_def f)
      moreover note opl
      ultimately show ?thesis using True x by (simp add: request_ok_def)
    qed
  next
    fix sid os
    assume s: "cc_sessions c' sid = Some os"
    then have s: "cc_sessions c sid = Some os" by (simp add: f)
    note S = core_invD(3) [OF inv s, unfolded session_ok_def]
    have h: "holding c' sid p = holding c sid p" for p using q(1,4) by (simp add: holding_def req)
    have a: "acquiring (X - {r}) c' sid p \<Longrightarrow> acquiring X c sid p" for p by (auto simp: acquiring_def req f split: if_splits)
    have hr: "\<not> holding c sid r" using q(1,4) by (simp add: holding_def)
    show "session_ok D ts (X - {r}) c' sid os"
    proof (cases "se_granted (os_session os)")
      case True
      with S obtain p x cd where g: "\<forall>z. holding c sid z \<longleftrightarrow> z = p" "cc_requests c p = Some x" "rq_candidate x = Some cd"
        "granted_by x cd (os_session os)" "se_grant_pending (os_session os) \<longleftrightarrow> p \<in> set (outstanding c)" "\<forall>z. \<not> acquiring X c sid z" by auto
      from g(1) hr have "p \<noteq> r" by blast
      with g outs have "cc_requests c' p = Some x" "se_grant_pending (os_session os) \<longleftrightarrow> p \<in> set (outstanding c')" by (simp_all add: req)
      with g(1,3,4,6) True S a show ?thesis unfolding session_ok_def h f by (metis (full_types))
    next
      case False
      with S a show ?thesis unfolding session_ok_def h f by (metis (full_types))
    qed
  qed
  then show ?thesis by (simp add: eq)
qed

section \<open>Changing one request\<close>

lemma session_ok_grantedI:
  assumes "op_reachable D ts os" "se_granted (os_session os)" "\<And>p. holding c sid p \<longleftrightarrow> p = r" "cc_requests c r = Some q" "rq_candidate q = Some cd"
    "granted_by q cd (os_session os)" "se_grant_pending (os_session os) \<longleftrightarrow> r \<in> set (outstanding c)" "\<And>p. \<not> acquiring X c sid p"
    "\<And>i. cc_callbacks c sid i \<noteq> None \<longleftrightarrow> i < os_next os"
  shows "session_ok D ts X c sid os"
  unfolding session_ok_def if_P [OF assms(2)] using assms by blast

lemma session_ok_ungrantedI:
  assumes "op_reachable D ts os" "\<not> se_granted (os_session os)" "\<not> se_grant_pending (os_session os)" "\<And>p. \<not> holding c sid p"
    "\<And>p z. acquiring X c sid p \<Longrightarrow> acquiring X c sid z \<Longrightarrow> p = z" "\<And>i. cc_callbacks c sid i \<noteq> None \<longleftrightarrow> i < os_next os"
  shows "session_ok D ts X c sid os"
  unfolding session_ok_def if_not_P [OF assms(2)] using assms by blast

lemma session_okE:
  assumes "session_ok D ts X c sid os"
  obtains (granted) r q cd where "op_reachable D ts os" "\<And>i. cc_callbacks c sid i \<noteq> None \<longleftrightarrow> i < os_next os" "se_granted (os_session os)"
      "\<And>p. holding c sid p \<longleftrightarrow> p = r" "cc_requests c r = Some q" "rq_candidate q = Some cd" "granted_by q cd (os_session os)"
      "se_grant_pending (os_session os) \<longleftrightarrow> r \<in> set (outstanding c)" "\<And>p. \<not> acquiring X c sid p"
  | (ungranted) "op_reachable D ts os" "\<And>i. cc_callbacks c sid i \<noteq> None \<longleftrightarrow> i < os_next os" "\<not> se_granted (os_session os)"
      "\<not> se_grant_pending (os_session os)" "\<And>p. \<not> holding c sid p" "\<And>p z. acquiring X c sid p \<Longrightarrow> acquiring X c sid z \<Longrightarrow> p = z"
proof (cases "se_granted (os_session os)")
  case True
  from assms [unfolded session_ok_def if_P [OF True]] that(1) True show ?thesis by blast
next
  case False
  from assms [unfolded session_ok_def if_not_P [OF False]] that(2) False show ?thesis by blast
qed

lemma lists_ok_same:
  assumes ok: "lists_ok c" and same: "outstanding c' = outstanding c" "delivered c' = delivered c" "starts c' = starts c" "cc_active c' = cc_active c"
      "cc_callbacks c' = cc_callbacks c" "cc_next_request c' = cc_next_request c" "cc_next_session c' = cc_next_session c"
    and s: "\<And>sid. cc_sessions c' sid = None \<longleftrightarrow> cc_sessions c sid = None"
    and r: "\<And>p. cc_requests c' p = None \<longleftrightarrow> cc_requests c p = None"
    and a: "\<And>p. (\<exists>x. cc_requests c' p = Some x \<and> rq_answered x) \<longleftrightarrow> (\<exists>x. cc_requests c p = Some x \<and> rq_answered x)"
    and o: "\<And>p sid i. (\<exists>x. cc_requests c' p = Some x \<and> rq_session x = Some sid \<and> rq_operation x = Some i) \<longleftrightarrow>
      (\<exists>x. cc_requests c p = Some x \<and> rq_session x = Some sid \<and> rq_operation x = Some i)"
  shows "lists_ok c'"
  using ok unfolding lists_ok_def same s r a o .

lemma lists_ok_change:
  assumes ok: "lists_ok c" and same: "starts c' = starts c" "cc_active c' = cc_active c"
      "cc_callbacks c' = cc_callbacks c" "cc_next_request c' = cc_next_request c" "cc_next_session c' = cc_next_session c"
    and s: "\<And>sid. cc_sessions c' sid = None \<longleftrightarrow> cc_sessions c sid = None"
    and r: "\<And>p. cc_requests c' p = None \<longleftrightarrow> cc_requests c p = None"
    and d: "distinct (outstanding c' @ delivered c')"
    and a: "\<And>p. p \<in> set (outstanding c' @ delivered c') \<longleftrightarrow> (\<exists>x. cc_requests c' p = Some x \<and> rq_answered x)"
    and o: "\<And>p sid i. (\<exists>x. cc_requests c' p = Some x \<and> rq_session x = Some sid \<and> rq_operation x = Some i) \<longleftrightarrow>
      (\<exists>x. cc_requests c p = Some x \<and> rq_session x = Some sid \<and> rq_operation x = Some i)"
  shows "lists_ok c'"
  using ok d a unfolding lists_ok_def same s r o by blast

lemma update_inv:
  assumes inv: "core_inv D ts g X H Y c" and q: "cc_requests c r = Some q"
    and same: "rq_session (f q) = rq_session q" "rq_kind (f q) = rq_kind q" "rq_answered (f q) = rq_answered q" "rq_candidate (f q) = rq_candidate q"
      "rq_operation (f q) = rq_operation q" "rq_purpose (f q) = rq_purpose q" "rq_lifetime (f q) = rq_lifetime q" "rq_may_sign (f q) = rq_may_sign q"
    and err: "Post_rollback r \<in> set (cc_queue c) \<Longrightarrow> rq_error (f q) = rq_error q"
    and ok: "request_ok g X' H' Y (request_set r f c) r (f q)"
    and X': "\<And>p. p \<noteq> r \<Longrightarrow> p \<in> X' \<longleftrightarrow> p \<in> X" "\<And>p. p \<noteq> r \<Longrightarrow> p \<in> H' \<longleftrightarrow> p \<in> H"
    and acq: "\<And>sid os p. r \<in> X \<Longrightarrow> r \<notin> X' \<Longrightarrow> rq_session q = Some sid \<Longrightarrow> rq_kind q = XCC_RESULT_ACQUIRE \<Longrightarrow> \<not> rq_answered q \<Longrightarrow>
      cc_sessions c sid = Some os \<Longrightarrow> \<not> se_granted (os_session os) \<and> \<not> acquiring X c sid p"
  shows "core_inv D ts g X' H' Y (request_set r f c)"
proof (rule core_invI)
  let ?c = "request_set r f c"
  show "lists_ok ?c" by (rule lists_ok_same [OF core_invD(1) [OF inv]]) (use q same in simp_all)
  show "queue_ok ?c" by (rule queue_ok_same [OF core_invD(4) [OF inv]]) (use q same err in auto)
  show "request_ok g X' H' Y ?c p x" if p: "cc_requests ?c p = Some x" for p x
  proof (cases "p = r")
    case True
    with p q ok show ?thesis by simp
  next
    case False
    with p have "cc_requests c p = Some x" by simp
    from request_ok_other [OF core_invD(2) [OF inv this]] X' False show ?thesis by simp
  qed
  fix sid os
  assume s: "cc_sessions ?c sid = Some os"
  then have s: "cc_sessions c sid = Some os" by simp
  have h: "holding ?c sid p = holding c sid p" for p using q same(1,4) by (simp add: holding_def)
  have a: "acquiring X' ?c sid p \<Longrightarrow> acquiring X c sid p \<or> p = r \<and> r \<in> X \<and> \<not> se_granted (os_session os) \<and> (\<forall>z. \<not> acquiring X c sid z)" for p
    using q same(1-3) X'(1) [of p] acq [of sid os] s by (auto simp: acquiring_def split: if_splits)
  from core_invD(3) [OF inv s] show "session_ok D ts X' ?c sid os"
  proof (cases rule: session_okE)
    case (granted p x cd)
    define y where "y = (if p = r then f q else x)"
    have y: "cc_requests ?c p = Some y" "rq_candidate y = Some cd" "granted_by y cd (os_session os)"
      using granted(5-7) q same by (auto simp: y_def granted_by_def)
    show ?thesis by (rule session_ok_grantedI [OF granted(1,3) _ y]) (use granted h a in auto)
  next
    case ungranted
    have "p = z" if "acquiring X' ?c sid p" "acquiring X' ?c sid z" for p z
      using a [OF that(1)] a [OF that(2)] ungranted(6) by blast
    then show ?thesis using ungranted h by (intro session_ok_ungrantedI) simp_all
  qed
qed

text \<open>The fields of a request that its enumerations and its chooser change.\<close>

definition kept :: "xcc_request \<Rightarrow> _" where
  "kept q = (rq_session q, rq_kind q, rq_answered q, rq_detached q, rq_error q, rq_candidate_present q, rq_signature_present q,
     rq_mechanisms_present q, rq_candidate q, rq_signature q, rq_purpose q, rq_filter q, rq_lifetime q, rq_may_sign q,
     rq_interaction_forbidden q, rq_validation_error q, rq_operation q, rq_input q)"

lemma acquire_update_inv:
  assumes inv: "core_inv D ts g X H Y c" and q: "cc_requests c r = Some q" "\<not> rq_answered q" "r \<in> set (cc_active c)" "rq_kind q = XCC_RESULT_ACQUIRE"
    and f: "kept (f q) = kept q" and waits: "busy (f q) \<or> r \<in> H'" and H': "\<And>p. p \<noteq> r \<Longrightarrow> p \<in> H' \<longleftrightarrow> p \<in> H" and ok: "acquire_ok g (X - {r}) c r (f q)"
    and acq: "\<And>sid os p. r \<in> X \<Longrightarrow> rq_session q = Some sid \<Longrightarrow> cc_sessions c sid = Some os \<Longrightarrow>
      \<not> se_granted (os_session os) \<and> \<not> acquiring X c sid p"
  shows "core_inv D ts g (X - {r}) H' Y (request_set r f c)"
proof (rule update_inv [OF inv q(1)])
  have fq: "rq_session (f q) = rq_session q" "rq_kind (f q) = rq_kind q" "rq_answered (f q) = rq_answered q" "rq_candidate (f q) = rq_candidate q"
      "rq_operation (f q) = rq_operation q" "rq_purpose (f q) = rq_purpose q" "rq_lifetime (f q) = rq_lifetime q" "rq_may_sign (f q) = rq_may_sign q"
      "rq_detached (f q) = rq_detached q" "rq_error (f q) = rq_error q" "rq_candidate_present (f q) = rq_candidate_present q"
      "rq_signature_present (f q) = rq_signature_present q" "rq_mechanisms_present (f q) = rq_mechanisms_present q"
      "rq_signature (f q) = rq_signature q" "rq_filter (f q) = rq_filter q" "rq_validation_error (f q) = rq_validation_error q" "rq_input (f q) = rq_input q"
    using f by (simp_all add: kept_def)
  show "rq_session (f q) = rq_session q" "rq_kind (f q) = rq_kind q" "rq_answered (f q) = rq_answered q" "rq_candidate (f q) = rq_candidate q"
      "rq_operation (f q) = rq_operation q" "rq_purpose (f q) = rq_purpose q" "rq_lifetime (f q) = rq_lifetime q" "rq_may_sign (f q) = rq_may_sign q"
    "rq_error (f q) = rq_error q"
    by (simp_all add: fq)
  note R = request_okD [OF core_invD(2) [OF inv q(1)]]
  have "place_ok (X - {r}) H' (request_set r f c) r (f q)"
  proof -
    have "r \<notin> set (starts c)" "\<not> rq_detached q" using R(1) q(3) by (auto simp: place_ok_def)
    then show ?thesis using q waits by (auto simp: place_ok_def fq awaited_def)
  qed
  moreover have "acquire_ok g (X - {r}) (request_set r f c) r (f q)" using ok by (simp add: acquire_ok_def)
  moreover have "spec_ok (f q)" using R(3) by (simp add: fq spec_ok_def)
  moreover have "result_ok (request_set r f c) r (f q)"
    using R(4) unfolding result_ok_def sent_candidate_def sent_signature_def fq core_lists core_fields .
  moreover have "link_ok Y (request_set r f c) r (f q)" using R(5) by (simp add: fq link_ok_def linked_cong [of "f q" q])
  moreover have "kind_ok (request_set r f c) (f q)" using R(6) by (simp add: fq kind_ok_def session_held_def)
  ultimately show "request_ok g (X - {r}) H' Y (request_set r f c) r (f q)" by (simp add: request_ok_def)
qed (use acq H' in auto)

lemma start_enumeration_inv:
  assumes inv: "core_inv D ts g X H Y c" and q: "cc_requests c r = Some q" "\<not> rq_answered q" "r \<in> set (cc_active c)" "rq_kind q = XCC_RESULT_ACQUIRE"
      "\<not> rq_enumerating q" "rq_validation_error q = XCC_OK"
    and H': "\<And>p. p \<noteq> r \<Longrightarrow> p \<in> H' \<longleftrightarrow> p \<in> H"
    and acq: "\<And>sid os p. r \<in> X \<Longrightarrow> rq_session q = Some sid \<Longrightarrow> cc_sessions c sid = Some os \<Longrightarrow>
      \<not> se_granted (os_session os) \<and> \<not> acquiring X c sid p"
  shows "core_inv D ts g (X - {r}) H' Y (start_enumeration r c)"
  unfolding start_enumeration_def
proof (rule acquire_update_inv [OF inv q(1-4)])
  let ?f = "\<lambda>q. q\<lparr>rq_enumerating := True, rq_enumerate_again := False, rq_workers := rq_workers q + 1\<rparr>"
  show "kept (?f q) = kept q" by (simp add: kept_def)
  show "busy (?f q) \<or> r \<in> H'" by (simp add: busy_def)
  have "acquire_ok g X c r q" by (rule request_okD(2) [OF core_invD(2) [OF inv q(1)]])
  then show "acquire_ok g (X - {r}) c r (?f q)" using q unfolding acquire_ok_def busy_def
    by (simp add: chosen_ok_def offer_ok_def [abs_def])
qed (use acq H' in auto)

section \<open>One request and its session\<close>

lemma one_change_inv:
  assumes inv: "core_inv D ts g X H Y c" and q: "cc_requests c r = Some q" "rq_session q = Some sid" and os: "cc_sessions c sid = Some os"
    and req: "\<And>p. cc_requests c' p = (if p = r then Some q' else cc_requests c p)"
    and ses: "\<And>s. cc_sessions c' s = (if s = sid then Some os' else cc_sessions c s)" "ops_kept os os'"
    and callbacks: "\<And>s j p. cc_callbacks c s j = Some p \<Longrightarrow> cc_callbacks c' s j = Some p" "\<And>s. s \<noteq> sid \<Longrightarrow> cc_callbacks c' s = cc_callbacks c s"
      "\<And>j p. cc_callbacks c' sid j = Some p \<Longrightarrow> cc_callbacks c sid j = Some p \<or> p = r \<and> rq_operation q' = Some j"
    and same: "starts c' = starts c" "cc_active c' = cc_active c"
      "cc_next_request c' = cc_next_request c" "cc_next_session c' = cc_next_session c" "set (cc_log c) \<subseteq> set (cc_log c')"
    and out: "\<And>p. p \<noteq> r \<Longrightarrow> p \<in> set (outstanding c') \<longleftrightarrow> p \<in> set (outstanding c)" "\<And>p. p \<noteq> r \<Longrightarrow> p \<in> set (delivered c') \<longleftrightarrow> p \<in> set (delivered c)"
      "distinct (outstanding c' @ delivered c')" "r \<in> set (outstanding c') \<or> r \<in> set (delivered c') \<longleftrightarrow> rq_answered q'"
    and q': "rq_session q' = Some sid" "rq_operation q = None \<or> rq_operation q' = rq_operation q"
    and H': "\<And>p. p \<noteq> r \<Longrightarrow> p \<in> H' \<longleftrightarrow> p \<in> H" "\<And>p. p \<noteq> r \<Longrightarrow> p \<in> X' \<longleftrightarrow> p \<in> X"
    and queue: "queue_ok c'"
    and ok: "request_ok g X' H' Y c' r q'" "session_ok D ts X' c' sid os'"
  shows "core_inv D ts g X' H' Y c'"
proof (rule core_invI)
  note L = core_invD(1) [OF inv, unfolded lists_ok_def]
  have A: "p \<in> set (outstanding c' @ delivered c') \<longleftrightarrow> (\<exists>q. cc_requests c' p = Some q \<and> rq_answered q)" for p
    using L out(1,2) [of p] out(4) by (cases "p = r") (simp_all add: req)
  have B: "\<exists>x. cc_requests c' p = Some x \<and> rq_session x = Some s \<and> rq_operation x = Some i"
    if "cc_callbacks c' s i = Some p" for p s i
  proof (cases "s = sid \<and> p = r \<and> rq_operation q' = Some i")
    case True
    with q' show ?thesis by (simp add: req)
  next
    case False
    with that callbacks(2) callbacks(3) [of i p] have "cc_callbacks c s i = Some p" by (cases "s = sid") auto
    with L obtain x where "cc_requests c p = Some x" "rq_session x = Some s" "rq_operation x = Some i" by blast
    with q q' show ?thesis by (auto simp: req)
  qed
  have C: "cc_callbacks c' s i = None" if "cc_sessions c' s = None" for s i
    using that L callbacks(2) [of s] by (auto simp: ses split: if_splits)
  have E: "cc_requests c' p = None \<longleftrightarrow> cc_requests c p = None" for p using q by (simp add: req)
  have F: "cc_sessions c' s = None \<longleftrightarrow> cc_sessions c s = None" for s using os by (simp add: ses)
  show "lists_ok c'" unfolding lists_ok_def same E F using L out(3) A B C [unfolded F] by auto
  show "queue_ok c'" by (rule queue)
  show "request_ok g X' H' Y c' p x" if p: "cc_requests c' p = Some x" for p x
  proof (cases "p = r")
    case True
    with p ok(1) show ?thesis by (simp add: req)
  next
    case False
    with p have p: "cc_requests c p = Some x" by (simp add: req)
    show ?thesis by (rule request_ok_other [OF core_invD(2) [OF inv p]]) (use False out(1,2) [of p] same os ses H' callbacks in \<open>auto split: if_splits\<close>)
  qed
  fix s t
  assume t: "cc_sessions c' s = Some t"
  show "session_ok D ts X' c' s t"
  proof (cases "s = sid")
    case True
    with t ok(2) show ?thesis by (simp add: ses)
  next
    case False
    with t have t: "cc_sessions c s = Some t" by (simp add: ses)
    have h: "holding c' s p = holding c s p" and a: "acquiring X' c' s p = acquiring X c s p" for p
      using False q q' H' by (auto simp: holding_def acquiring_def req same)
    from core_invD(3) [OF inv t] show ?thesis
    proof (cases rule: session_okE)
      case (granted p x cd)
      have "\<not> holding c s r" using False q by (simp add: holding_def)
      with granted(4) have "p \<noteq> r" by blast
      with granted(5-8) out(1) have y: "cc_requests c' p = Some x" "rq_candidate x = Some cd" "granted_by x cd (os_session t)"
        "se_grant_pending (os_session t) \<longleftrightarrow> p \<in> set (outstanding c')" by (simp_all add: req)
      show ?thesis by (rule session_ok_grantedI [OF granted(1,3) _ y]) (use granted h a callbacks(2) [OF False] in simp_all)
    next
      case ungranted
      then show ?thesis using h a callbacks(2) [OF False] by (intro session_ok_ungrantedI) auto
    qed
  qed
qed

section \<open>Granting\<close>

lemma grant_session_fields [simp]:
  "se_granted (grant_session now q cd se)" "se_grant_pending (grant_session now q cd se)" "se_closed (grant_session now q cd se) = se_closed se"
  by (simp_all add: grant_session_def xcc_session_grant_def)

lemma grant_session_by: "granted_by q cd (grant_session now q cd se)"
  by (simp add: granted_by_def grant_session_def xcc_session_grant_def)

lemma acquire_grant_inv:
  assumes inv: "core_inv D ts g X H Y c" and q: "cc_requests c r = Some q" "\<not> rq_answered q" "r \<in> set (cc_active c)" "r \<notin> X" "\<not> busy q"
      "rq_kind q = XCC_RESULT_ACQUIRE" "rq_validation_error q = XCC_OK" "rq_session q = Some sid"
    and os: "cc_sessions c sid = Some os" "\<not> se_closed (os_session os)" and cd: "chosen_ok (cc_log c) r q cd" "has_serial cd"
    and H': "\<And>p. p \<noteq> r \<Longrightarrow> p \<in> H' \<longleftrightarrow> p \<in> H"
  shows "core_inv D ts g X H' Y (xcc_request_complete g r XCC_OK (request_set r (\<lambda>q. q\<lparr>rq_candidate := Some cd, rq_result_may_sign := rq_may_sign q\<rparr>)
      (session_put sid (session_set (grant_session now q cd) os) c)))" (is "core_inv D ts g X H' Y ?c")
proof -
  let ?q = "q\<lparr>rq_candidate := Some cd, rq_result_may_sign := rq_may_sign q\<rparr>" and ?os = "session_set (grant_session now q cd) os"
  have acq: "acquiring X c sid r" using q by (simp add: acquiring_def)
  have R: "request_ok g X H Y c r q" by (rule core_invD(2) [OF inv q(1)])
  note k = request_okD [OF R]
  from core_invD(3) [OF inv os(1)] acq have s: "op_reachable D ts os" "\<And>i. cc_callbacks c sid i \<noteq> None \<longleftrightarrow> i < os_next os"
    "\<not> se_granted (os_session os)" "\<And>p. \<not> holding c sid p" "\<And>p. acquiring X c sid p \<Longrightarrow> p = r"
    by (metis session_okE)+
  have new: "r \<notin> set (outstanding c)" "r \<notin> set (delivered c)" "r \<notin> set (starts c)" using answered_iff [OF inv q(1)] q(2,3) k(1) by (auto simp: place_ok_def)
  have req: "cc_requests ?c p = (if p = r then Some (completed g XCC_OK ?q) else cc_requests c p)" for p
    using q(1,2) by (simp add: xcc_request_complete_def)
  have f: "cc_sessions ?c z = (if z = sid then Some ?os else cc_sessions c z)" "starts ?c = starts c" "cc_active ?c = cc_active c"
    "cc_callbacks ?c = cc_callbacks c" "cc_next_request ?c = cc_next_request c" "cc_next_session ?c = cc_next_session c"
    "cc_log ?c = cc_log c" "delivered ?c = delivered c" for z
    using q(1,2) by (simp_all add: xcc_request_complete_def)
  have out: "outstanding ?c = concat (map completion_of (cc_desktop c)) @ r # deciding (cc_stage c) @ concat (map rollback_of (cc_queue c))"
    using q(1,2) by (simp add: xcc_request_complete_def outstanding_def completion_of_def)
  then have outs: "set (outstanding ?c) = insert r (set (outstanding c))" by (auto simp: outstanding_def)
  have "cd_token cd \<noteq> None" using cd(2) by (auto simp: has_serial_def)
  define e :: "'a op_env" where "e = \<lparr>oe_now = now, oe_later = undefined, oe_world = undefined, oe_lock_free = undefined,
      oe_cancel_deferred = undefined, oe_no_display = undefined\<rparr>"
  from step_grant [OF s(3) os(2) \<open>cd_token cd \<noteq> None\<close>, where D = D and ts = ts and e = e and purpose = "rq_purpose q"
      and may_sign = "rq_may_sign q \<and> cd_can_sign cd" and may_decrypt = False and generic = "rq_generic_purpose q" and lifetime = "rq_lifetime q"]
  have "\<exists>l. op_step D ts os l ?os" unfolding grant_session_def [abs_def] by (auto simp: e_def)
  then obtain l where "op_step D ts os l ?os" by blast
  then have reach: "op_reachable D ts ?os" by (rule reach_step [OF s(1)])
  have kept: "ops_kept os ?os" by (rule ops_kept_idle [OF no_operations [OF s(1)]]) (use s(3) in simp_all)
  show ?thesis
  proof (rule one_change_inv [OF inv q(1,8) os(1) req])
    show "distinct (outstanding ?c @ delivered ?c)"
      using core_invD(1) [OF inv] new unfolding out f lists_ok_def by (auto simp: outstanding_def)
    have "place_ok X H' ?c r (completed g XCC_OK ?q)" using k(1) q new by (simp add: place_ok_def f)
    moreover have "acquire_ok g X ?c r (completed g XCC_OK ?q)"
      using k(2) q cd unfolding acquire_ok_def f by (simp add: chosen_ok_def offer_ok_def [abs_def] busy_def)
    moreover have "spec_ok (completed g XCC_OK ?q)" using k(3) by (simp add: spec_ok_def)
    moreover have "result_ok ?c r (completed g XCC_OK ?q)" using q new unfolding result_ok_def f by simp
    moreover have "link_ok Y ?c r (completed g XCC_OK ?q)" using k(5) q by (auto simp: link_ok_def)
    moreover have "kind_ok ?c (completed g XCC_OK ?q)" using k(6) q by (simp add: kind_ok_def session_held_def f)
    ultimately show "request_ok g X H' Y ?c r (completed g XCC_OK ?q)" by (simp add: request_ok_def)
    have "Post_rollback r \<notin> set (cc_queue c)" using new(1) by (auto simp: outstanding_def rollback_of_def)
    then show "queue_ok ?c" by (intro queue_ok_same [OF core_invD(4) [OF inv]]) (use q(1,2) in \<open>auto simp: req f xcc_request_complete_def\<close>)
    have hold: "holding ?c sid p \<longleftrightarrow> p = r" for p using s(4) [of p] q(8) by (auto simp: holding_def req)
    have noacq: "\<not> acquiring X ?c sid p" for p
    proof
      assume p: "acquiring X ?c sid p"
      then have "p \<noteq> r" by (auto simp: acquiring_def req)
      with p have "acquiring X c sid p" by (simp add: acquiring_def req f)
      with s(5) \<open>p \<noteq> r\<close> show False by blast
    qed
    show "session_ok D ts X ?c sid ?os"
    proof (rule session_ok_grantedI [OF reach _ hold])
      show "cc_requests ?c r = Some (completed g XCC_OK ?q)" by (simp add: req)
      show "granted_by (completed g XCC_OK ?q) cd (os_session ?os)" using grant_session_by [of q cd now] by (simp add: granted_by_def)
    qed (use s(2) noacq outs in \<open>simp_all add: f\<close>)
  qed (use outs q H' kept in \<open>simp_all add: f(1)\<close>, simp_all add: f)
qed

section \<open>Acquisition\<close>

text \<open>An acquisition that is under way: active, not answered, and past its checks.\<close>

definition under_way :: "nat set \<Rightarrow> core \<Rightarrow> nat \<Rightarrow> xcc_request \<Rightarrow> bool" where
  "under_way X c r q \<longleftrightarrow> cc_requests c r = Some q \<and> \<not> rq_answered q \<and> r \<in> set (cc_active c) \<and> r \<notin> X \<and>
     rq_kind q = XCC_RESULT_ACQUIRE \<and> rq_validation_error q = XCC_OK"

lemma under_way_facts:
  assumes inv: "core_inv D ts g X H Y c" and u: "under_way X c r q"
  shows "rq_operation q = None" "rq_candidate q = None" "r \<notin> set (starts c)" "X - {r} = X"
    "\<exists>sid os. rq_session q = Some sid \<and> cc_sessions c sid = Some os"
proof -
  from u have q: "cc_requests c r = Some q" "\<not> rq_answered q" "r \<in> set (cc_active c)" "r \<notin> X" "rq_kind q = XCC_RESULT_ACQUIRE"
    by (simp_all add: under_way_def)
  note R = request_okD [OF core_invD(2) [OF inv q(1)]]
  show "rq_operation q = None" using R(5) q(5) unfolding link_ok_def by (metis not_None_eq result_kind.distinct(1))
  show "rq_candidate q = None" using R(2) q(2) unfolding acquire_ok_def by (metis not_None_eq)
  show "r \<notin> set (starts c)" using R(1) q(3) by (auto simp: place_ok_def)
  show "X - {r} = X" using q(4) by simp
  show "\<exists>sid os. rq_session q = Some sid \<and> cc_sessions c sid = Some os" using R(6) q(5) unfolding kind_ok_def
    by (metis not_None_eq result_kind.distinct(3))
qed

lemma acquire_fail_inv:
  assumes inv: "core_inv D ts g X H Y c" and u: "under_way X c r q" and idle: "\<not> busy q" and err: "err \<noteq> XCC_OK"
    and H': "\<And>p. p \<noteq> r \<Longrightarrow> p \<in> H' \<longleftrightarrow> p \<in> H"
  shows "core_inv D ts g X H' Y (xcc_request_complete g r err c)"
proof -
  note f = under_way_facts [OF inv u]
  have "core_inv D ts g (X - {r}) H' Y (xcc_request_complete g r err c)"
    by (rule complete_inv [OF inv]) (use u idle err f H' in \<open>auto simp: under_way_def\<close>)
  with f(4) show ?thesis by simp
qed

lemma finish_acquire_inv:
  fixes D :: "'w discovery_env" and e :: "'w core_env"
  assumes inv: "core_inv D ts g X H Y c" and u: "under_way X c r q" and idle: "\<not> busy q" and cd: "chosen_ok (cc_log c) r q cd"
    and H': "\<And>p. p \<noteq> r \<Longrightarrow> p \<in> H' \<longleftrightarrow> p \<in> H"
  shows "core_inv D ts g X H' Y (finish_acquire g e r cd c)"
proof -
  note fail = acquire_fail_inv [OF inv u idle _ H']
  from under_way_facts(5) [OF inv u] obtain sid os where s: "rq_session q = Some sid" "cc_sessions c sid = Some os" by blast
  have q: "cc_requests c r = Some q" using u by (simp add: under_way_def)
  show ?thesis
  proof (cases "rq_cancel_intent q \<noteq> None \<or> se_closed (os_session os) \<or> \<not> has_serial cd")
    case True
    have hs: "(case cd_token cd of None \<Rightarrow> True | Some t \<Rightarrow> \<not> has_text (tk_serial t)) \<longleftrightarrow> \<not> has_serial cd"
      by (simp add: has_serial_def split: option.split)
    from True fail [of XCC_ERROR_CANCELLED] fail [of XCC_ERROR_NO_SUCH_SESSION] fail [of XCC_ERROR_DEVICE] show ?thesis
      unfolding finish_acquire_def q s option.case hs by auto
  next
    case False
    then obtain t where t: "cd_token cd = Some t" "has_text (tk_serial t)" by (auto simp: has_serial_def)
    from acquire_grant_inv [OF inv q _ _ _ idle _ _ s _ cd _ H', where now = "oe_now (ce_op e)"] u False show ?thesis
      unfolding finish_acquire_def q s option.case t by (simp add: under_way_def t(2))
  qed
qed

text \<open>A mild change keeps an acquisition under way.\<close>

lemma under_way_mild:
  assumes m: "mild D ts c c'" and u: "under_way X c r q"
  obtains p where "under_way X c' r p" "mild_request q p" "fixed p = fixed q"
proof -
  from u have "cc_requests c r = Some q" by (simp add: under_way_def)
  from mild_at(2) [OF m this] obtain p where p: "cc_requests c' r = Some p" "mild_request q p" by blast
  note f = fixedD [OF mild_requestD(1) [OF p(2)]]
  have "under_way X c' r p" using u p(1) f by (simp add: under_way_def mild_lists(3) [OF m])
  with that p(2) mild_requestD(1) [OF p(2)] show ?thesis by blast
qed

section \<open>Callbacks of an acquisition\<close>

lemma core_inv_note:
  assumes inv: "core_inv D ts g X H Y c" and x: "delivered_of x = []"
  shows "core_inv D ts g X H Y (core_note x c)"
proof (rule core_invI)
  have d: "delivered (core_note x c) = delivered c" using x by (simp add: delivered_def)
  show "lists_ok (core_note x c)" by (rule lists_ok_same [OF core_invD(1) [OF inv]]) (simp_all add: d)
  show "queue_ok (core_note x c)" by (rule queue_ok_same [OF core_invD(4) [OF inv]]) (simp_all add: d)
  show "request_ok g X H Y (core_note x c) p q" if "cc_requests (core_note x c) p = Some q" for p q
    by (rule request_ok_other [OF core_invD(2) [OF inv]]) (use that in \<open>auto simp: d\<close>)
  fix sid os
  assume "cc_sessions (core_note x c) sid = Some os"
  then have s: "cc_sessions c sid = Some os" by simp
  have a: "holding (core_note x c) sid p = holding c sid p" "acquiring X (core_note x c) sid p = acquiring X c sid p" for p
    by (simp_all add: holding_def acquiring_def)
  show "session_ok D ts X (core_note x c) sid os" using core_invD(3) [OF inv s] unfolding session_ok_def a core_fields core_lists .
qed

lemma offer_ok_fields [simp]:
  "offer_ok (q\<lparr>rq_chooser := a\<rparr>) = offer_ok q" "offer_ok (q\<lparr>rq_chooser_completed := b\<rparr>) = offer_ok q"
  "offer_ok (q\<lparr>rq_pending_error := err\<rparr>) = offer_ok q" "offer_ok (q\<lparr>rq_pending_chosen := x\<rparr>) = offer_ok q"
  "offer_ok (q\<lparr>rq_enumerating := b\<rparr>) = offer_ok q" "offer_ok (q\<lparr>rq_workers := n\<rparr>) = offer_ok q"
  by (simp_all add: offer_ok_def fun_eq_iff)

lemma chosen_ok_fields [simp]:
  "chosen_ok l r (q\<lparr>rq_chooser := a\<rparr>) = chosen_ok l r q" "chosen_ok l r (q\<lparr>rq_chooser_completed := b\<rparr>) = chosen_ok l r q"
  "chosen_ok l r (q\<lparr>rq_pending_error := err\<rparr>) = chosen_ok l r q" "chosen_ok l r (q\<lparr>rq_pending_chosen := x\<rparr>) = chosen_ok l r q"
  "chosen_ok l r (q\<lparr>rq_enumerating := b\<rparr>) = chosen_ok l r q" "chosen_ok l r (q\<lparr>rq_workers := n\<rparr>) = chosen_ok l r q"
  by (simp_all add: chosen_ok_def fun_eq_iff)

text \<open>A request that waits for something is no longer in hand.\<close>

lemma core_inv_hand_back:
  assumes inv: "core_inv D ts g X H Y c" and H': "\<And>p q. p \<in> H \<Longrightarrow> p \<notin> H' \<Longrightarrow> cc_requests c p = Some q \<Longrightarrow> rq_answered q \<or> awaited q"
  shows "core_inv D ts g X H' Y c"
proof (rule core_invI)
  fix p q
  assume q: "cc_requests c p = Some q"
  note R = request_okD [OF core_invD(2) [OF inv q]]
  have "place_ok X H' c p q" using R(1) H' [OF _ _ q] unfolding place_ok_def by blast
  with R show "request_ok g X H' Y c p q" by (simp add: request_ok_def)
qed (use core_invD [OF inv] in auto)

lemma awaited_busy: "busy q \<Longrightarrow> rq_kind q = XCC_RESULT_ACQUIRE \<Longrightarrow> awaited q"
  by (simp add: awaited_def)

lemma on_chooser_done_inv:
  fixes D :: "'w discovery_env" and e :: "'w core_env"
  assumes inv: "core_inv D ts g {} H {} c" and H: "H \<subseteq> {r}" and u: "under_way {} c r q"
    and chosen: "\<And>x. chosen = Some x \<Longrightarrow> chosen_ok (cc_log c) r q x"
    and consent: "\<And>x. \<not> rq_chooser_completed q \<Longrightarrow> chosen = Some x \<Longrightarrow> err = XCC_OK \<and> Consented r x \<in> set (cc_log c)"
  shows "core_inv D ts g {} {} {} (on_chooser_done g e events r chosen err c)"
proof -
  let ?f = "\<lambda>q. let q1 = q\<lparr>rq_chooser := None\<rparr> in if rq_chooser_completed q1 then q1
               else q1\<lparr>rq_chooser_completed := True, rq_pending_error := err, rq_pending_chosen := chosen\<rparr>"
  define c1 where "c1 = request_set r ?f c"
  define c2 where "c2 = deliver_token_events g e events c1"
  from u have q: "cc_requests c r = Some q" "\<not> rq_answered q" "r \<in> set (cc_active c)" "rq_kind q = XCC_RESULT_ACQUIRE" "rq_validation_error q = XCC_OK"
    by (simp_all add: under_way_def)
  have A: "acquire_ok g {} c r q" by (rule request_okD(2) [OF core_invD(2) [OF inv q(1)]])
  have "core_inv D ts g ({} - {r}) {r} {} c1" unfolding c1_def
  proof (rule acquire_update_inv [OF inv q(1-4)])
    show "kept (?f q) = kept q" by (simp add: kept_def Let_def)
    have off: "\<And>x. chosen = Some x \<Longrightarrow> offer_ok q x" using chosen by (simp add: chosen_ok_def)
    then show "acquire_ok g ({} - {r}) c r (?f q)" using A q off consent
      by (cases "rq_chooser_completed q") (simp_all add: acquire_ok_def Let_def busy_def)
  qed (use H in auto)
  then have c1: "core_inv D ts g {} {r} {} c1" by simp
  have u1: "under_way {} c1 r (?f q)" using u by (simp add: c1_def under_way_def Let_def)
  have m: "mild D ts c1 c2" unfolding c2_def by (rule mild_dispatch [OF c1])
  have c2: "core_inv D ts g {} {r} {} c2" by (rule core_inv_mild [OF c1 m])
  from under_way_mild [OF m u1] obtain p where p: "under_way {} c2 r p" "mild_request (?f q) p" "fixed p = fixed (?f q)" .
  have pq: "cc_requests c2 r = Some p" "rq_chooser p = None" "rq_filter p = rq_filter q"
    using p(1) mild_requestD(5) [OF p(2)] fixedD(12) [OF p(3)] by (simp_all add: under_way_def Let_def)
  have log: "cc_log c2 = cc_log c" using mild_lists(8) [OF m] by (simp add: c1_def)
  have run: "on_chooser_done g e events r chosen err c = (if rq_enumerating p then c2
      else if err \<noteq> XCC_OK then xcc_request_complete g r err c2
      else if rq_cancelled_code p \<noteq> XCC_OK then xcc_request_complete g r (rq_cancelled_code p) c2
      else (case chosen of None \<Rightarrow> xcc_request_complete g r XCC_ERROR_CANCELLED c2
        | Some candidate \<Rightarrow> if rq_cancelled p then xcc_request_complete g r XCC_ERROR_CANCELLED c2 else finish_acquire g e r candidate c2))"
    unfolding on_chooser_done_def Let_def c1_def [symmetric, unfolded Let_def] c2_def [symmetric] pq(1) option.case ..
  have idle: "\<not> rq_enumerating p \<Longrightarrow> \<not> busy p" using pq(2) by (simp add: busy_def)
  note fail = acquire_fail_inv [OF c2 p(1) idle, where H' = "{}"]
  show ?thesis
  proof (cases "rq_enumerating p")
    case True
    have "core_inv D ts g {} {} {} c2"
      by (rule core_inv_hand_back [OF c2]) (use True pq p(1) in \<open>auto simp: under_way_def busy_def intro: awaited_busy\<close>)
    with True show ?thesis by (simp add: run)
  next
    case False
    have "core_inv D ts g {} {} {} (finish_acquire g e r x c2)" if "chosen = Some x" for x
      by (rule finish_acquire_inv [OF c2 p(1) idle [OF False] chosen_ok_cong [OF chosen [OF that]]]) (use log pq in auto)
    with False fail show ?thesis by (auto simp: run split: option.split)
  qed
qed

lemma candidate_same_trans:
  assumes "certificate_candidate_same (Some x) (Some y)" "certificate_candidate_same (Some y) (Some z)"
  shows "certificate_candidate_same (Some x) (Some z)"
  using assms by (auto simp: certificate_candidate_same_def certificate_token_same_def has_text_def split: option.splits if_splits)

lemma filter_apply_set: "x \<in> set (certificate_filter_apply cs f t) \<Longrightarrow> x \<in> set cs \<and> certificate_filter_matches x f"
  by (auto simp: certificate_filter_apply_def filter_split_eq)

lemma filter_apply_offer:
  assumes "list_all (\<lambda>x. cd_token x \<noteq> None) cs"
  shows "list_all (offer_ok q) (certificate_filter_apply cs (rq_filter q) t)"
  using assms filter_apply_set by (auto simp: list_all_iff offer_ok_def)

lemma enumerated_completed_inv:
  fixes D :: "'w discovery_env" and e :: "'w core_env"
  assumes inv: "core_inv D ts g {} {r} {} c" and u: "under_way {} c r q" and idle: "\<not> busy q" and over: "rq_chooser_completed q"
    and cs: "case candidates of None \<Rightarrow> True | Some cs \<Rightarrow> list_all (\<lambda>x. cd_token x \<noteq> None) cs"
  shows "core_inv D ts g {} {} {} (enumerated_completed g e r candidates q c)"
proof -
  have q: "cc_requests c r = Some q" "\<not> rq_answered q" "r \<in> set (cc_active c)" "rq_kind q = XCC_RESULT_ACQUIRE" "rq_validation_error q = XCC_OK"
    using u by (simp_all add: under_way_def)
  note fail = acquire_fail_inv [OF inv u idle, where H' = "{}"]
  have chooser: "core_inv D ts g {} {} {} (on_chooser_done g e (ce_more_events e) r chosen (rq_pending_error q) c)"
    if "\<And>x. chosen = Some x \<Longrightarrow> chosen_ok (cc_log c) r q x" for chosen
    by (rule on_chooser_done_inv [OF inv _ u that]) (use over in simp_all)
  show ?thesis
  proof (cases "rq_pending_chosen q")
    case None
    then show ?thesis using chooser [of None] by (simp add: enumerated_completed_def)
  next
    case (Some chosen)
    from request_okD(2) [OF core_invD(2) [OF inv q(1)]] Some have ch: "offer_ok q chosen" "Consented r chosen \<in> set (cc_log c)"
      unfolding acquire_ok_def by blast+
    have old: "core_inv D ts g {} {} {} (on_chooser_done g e (ce_more_events e) r (Some chosen) (rq_pending_error q) c)"
      by (rule chooser) (use ch in \<open>auto simp: chosen_ok_def\<close>)
    have found: "core_inv D ts g {} {} {} (on_chooser_done g e (ce_more_events e) r (Some x) (rq_pending_error q) c)"
      if "candidates = Some cs" "List.find (\<lambda>x. certificate_candidate_same (Some chosen) (Some x))
          (certificate_filter_apply cs (rq_filter q) (ce_real_time e)) = Some x" for cs x
    proof (rule chooser)
      from that(2) have "x \<in> set (certificate_filter_apply cs (rq_filter q) (ce_real_time e))" "certificate_candidate_same (Some chosen) (Some x)"
        by (auto simp: find_Some_iff)
      moreover have "list_all (offer_ok q) (certificate_filter_apply cs (rq_filter q) (ce_real_time e))"
        by (rule filter_apply_offer) (use cs that(1) in simp)
      ultimately show "chosen_ok (cc_log c) r q y" if "Some x = Some y" for y using that ch by (auto simp: chosen_ok_def list_all_iff)
    qed
    have again: "core_inv D ts g ({} - {r}) {} {} (start_enumeration r c)"
      by (rule start_enumeration_inv [OF inv q(1-4) _ q(5)]) (use idle in \<open>auto simp: busy_def\<close>)
    show ?thesis using old found again fail unfolding enumerated_completed_def Some option.case
      by (cases candidates) (auto split: option.split)
  qed
qed

lemma enumerating_stops_inv:
  assumes inv: "core_inv D ts g {} {} {} c" and u: "under_way {} c r q"
  shows "core_inv D ts g {} {r} {} (request_set r (\<lambda>q. q\<lparr>rq_enumerating := False, rq_workers := rq_workers q - 1\<rparr>) c)"
proof -
  let ?f = "\<lambda>q. q\<lparr>rq_enumerating := False, rq_workers := rq_workers q - 1\<rparr>"
  from u have q: "cc_requests c r = Some q" "\<not> rq_answered q" "r \<in> set (cc_active c)" "rq_kind q = XCC_RESULT_ACQUIRE" "rq_validation_error q = XCC_OK"
    by (simp_all add: under_way_def)
  have A: "acquire_ok g {} c r q" by (rule request_okD(2) [OF core_invD(2) [OF inv q(1)]])
  have "core_inv D ts g ({} - {r}) {r} {} (request_set r ?f c)"
  proof (rule acquire_update_inv [OF inv q(1-4)])
    show "kept (?f q) = kept q" by (simp add: kept_def)
    show "acquire_ok g ({} - {r}) c r (?f q)" using A q by (simp add: acquire_ok_def busy_def)
  qed simp_all
  then show ?thesis by simp
qed

lemma chooser_shown_inv:
  assumes inv: "core_inv D ts g {} {r} {} c" and u: "under_way {} c r q" and "cg_chooser_available g" "\<not> rq_interaction_forbidden q"
    "\<not> rq_chooser_completed q" "list_all (offer_ok q) rows"
  shows "core_inv D ts g {} {} {} (core_note (Offered r rows) (request_set r (\<lambda>q. q\<lparr>rq_chooser := Some rows\<rparr>) c))"
proof -
  let ?f = "\<lambda>q. q\<lparr>rq_chooser := Some rows\<rparr>"
  from u have q: "cc_requests c r = Some q" "\<not> rq_answered q" "r \<in> set (cc_active c)" "rq_kind q = XCC_RESULT_ACQUIRE" "rq_validation_error q = XCC_OK"
    by (simp_all add: under_way_def)
  have A: "acquire_ok g {} c r q" by (rule request_okD(2) [OF core_invD(2) [OF inv q(1)]])
  have "core_inv D ts g ({} - {r}) {} {} (request_set r ?f c)"
  proof (rule acquire_update_inv [OF inv q(1-4)])
    show "kept (?f q) = kept q" by (simp add: kept_def)
    show "acquire_ok g ({} - {r}) c r (?f q)" using A q assms(3-6) by (simp add: acquire_ok_def busy_def)
  qed (simp_all add: busy_def)
  then have "core_inv D ts g {} {} {} (request_set r ?f c)" by simp
  then show ?thesis by (rule core_inv_note) (simp add: delivered_of_def)
qed

lemma on_enumerated_inv:
  fixes D :: "'w discovery_env" and e :: "'w core_env"
  assumes inv: "core_inv D ts g {} {} {} c" and r: "cc_requests c r = Some q" "rq_kind q = XCC_RESULT_ACQUIRE" "rq_workers q > 0"
    and cs: "case candidates of None \<Rightarrow> True | Some cs \<Rightarrow> list_all (\<lambda>x. cd_token x \<noteq> None) cs"
  shows "core_inv D ts g {} {} {} (on_enumerated g e r candidates cancelled c)"
proof -
  from request_okD(2) [OF core_invD(2) [OF inv r(1)]] r have "rq_enumerating q" "busy q"
    by (auto simp: acquire_ok_def busy_def split: if_splits)
  with request_okD(2) [OF core_invD(2) [OF inv r(1)]] r have u: "under_way {} c r q" by (auto simp: acquire_ok_def under_way_def)
  define c1 where "c1 = deliver_token_events g e (ce_events e) c"
  have m: "mild D ts c c1" unfolding c1_def by (rule mild_dispatch [OF inv])
  have c1: "core_inv D ts g {} {} {} c1" by (rule core_inv_mild [OF inv m])
  from under_way_mild [OF m u] obtain q1 where u1: "under_way {} c1 r q1" .
  let ?f = "\<lambda>q. q\<lparr>rq_enumerating := False, rq_workers := rq_workers q - 1\<rparr>"
  define c2 where "c2 = request_set r ?f c1"
  define p where "p = ?f q1"
  have c2: "core_inv D ts g {} {r} {} c2" unfolding c2_def by (rule enumerating_stops_inv [OF c1 u1])
  have u2: "under_way {} c2 r p" using u1 by (simp add: c2_def p_def under_way_def)
  then have p: "cc_requests c2 r = Some p" "\<not> rq_answered p" "r \<in> set (cc_active c2)" "rq_kind p = XCC_RESULT_ACQUIRE" "rq_validation_error p = XCC_OK"
    by (simp_all add: under_way_def)
  have pe: "\<not> rq_enumerating p" by (simp add: p_def)
  have A: "acquire_ok g {} c2 r p" by (rule request_okD(2) [OF core_invD(2) [OF c2 p(1)]])
  have idle: "\<not> busy p" if "rq_chooser p = None" using that pe by (simp add: busy_def)
  have fail: "core_inv D ts g {} {} {} (xcc_request_complete g r err c2)" if "rq_chooser p = None" "err \<noteq> XCC_OK" for err
    by (rule acquire_fail_inv [OF c2 u2 idle [OF that(1)] that(2)]) simp
  have run: "on_enumerated g e r candidates cancelled c =
      (if rq_cancel_intent p \<noteq> None \<and> rq_chooser p = None then xcc_request_complete g r XCC_ERROR_CANCELLED c2
       else if rq_chooser_completed p then enumerated_completed g e r candidates p c2
       else (case candidates of
           None \<Rightarrow>
             if rq_chooser p \<noteq> None
             then cancel_cancellable r (if cancelled then c2 else request_set r (\<lambda>q. q\<lparr>rq_cancelled_code := XCC_ERROR_DEVICE\<rparr>) c2)
             else if cancelled
             then xcc_request_complete g r (if rq_cancelled_code p \<noteq> XCC_OK then rq_cancelled_code p else XCC_ERROR_CANCELLED) c2
             else xcc_request_complete g r XCC_ERROR_DEVICE c2
         | Some cs \<Rightarrow>
             if rq_interaction_forbidden p then xcc_request_complete g r XCC_ERROR_INTERACTION_REQUIRED c2
             else if \<not> cg_chooser_available g then xcc_request_complete g r XCC_ERROR_NO_DISPLAY c2
             else if rq_enumerate_again p then start_enumeration r c2
             else core_note (Offered r (certificate_filter_apply cs (rq_filter p) (ce_real_time e)))
               (request_set r (\<lambda>q. q\<lparr>rq_chooser := Some (certificate_filter_apply cs (rq_filter p) (ce_real_time e))\<rparr>) c2)))"
    unfolding on_enumerated_def Let_def c1_def [symmetric] c2_def [symmetric] p(1) option.case ..
  show ?thesis
  proof (cases "rq_cancel_intent p \<noteq> None \<and> rq_chooser p = None")
    case True
    with fail show ?thesis by (simp add: run)
  next
    case n1: False
    show ?thesis
    proof (cases "rq_chooser_completed p")
      case True
      then have "rq_chooser p = None" using A unfolding acquire_ok_def by (metis not_None_eq)
      then show ?thesis unfolding run if_not_P [OF n1] if_P [OF True] by (intro enumerated_completed_inv [OF c2 u2 idle True cs])
    next
      case n2: False
      show ?thesis
      proof (cases candidates)
        case None
        have "core_inv D ts g {} {} {} (cancel_cancellable r (if cancelled then c2 else request_set r (\<lambda>q. q\<lparr>rq_cancelled_code := XCC_ERROR_DEVICE\<rparr>) c2))"
          if "rq_chooser p \<noteq> None"
        proof -
          have b: "core_inv D ts g {} {} {} c2"
            by (rule core_inv_hand_back [OF c2]) (use that p in \<open>auto simp: busy_def intro: awaited_busy\<close>)
          have "mild D ts c2 (cancel_cancellable r (request_set r (\<lambda>q. q\<lparr>rq_cancelled_code := XCC_ERROR_DEVICE\<rparr>) c2))"
            by (rule mild_cancel_after [OF b p(1,2)]) simp
          moreover have "mild D ts c2 (cancel_cancellable r c2)" by (rule mild_cancel [OF b]) (use p in simp)
          ultimately show ?thesis using core_inv_mild [OF b] by (cases cancelled) auto
        qed
        with fail show ?thesis unfolding run if_not_P [OF n1] if_not_P [OF n2] unfolding None option.case by simp
      next
        case (Some xs)
        have "rq_chooser p = None" if "rq_interaction_forbidden p \<or> \<not> cg_chooser_available g"
          using A that unfolding acquire_ok_def by (metis not_None_eq)
        moreover have "core_inv D ts g ({} - {r}) {} {} (start_enumeration r c2)"
          by (rule start_enumeration_inv [OF c2 p(1-4) pe p(5)]) auto
        moreover have "core_inv D ts g {} {} {} (core_note (Offered r (certificate_filter_apply xs (rq_filter p) (ce_real_time e)))
            (request_set r (\<lambda>q. q\<lparr>rq_chooser := Some (certificate_filter_apply xs (rq_filter p) (ce_real_time e))\<rparr>) c2))"
          if "\<not> rq_interaction_forbidden p" "cg_chooser_available g"
          by (rule chooser_shown_inv [OF c2 u2 that(2,1) n2 filter_apply_offer]) (use cs Some in simp)
        ultimately show ?thesis using fail unfolding run if_not_P [OF n1] if_not_P [OF n2] unfolding Some option.case by simp
      qed
    qed
  qed
qed

section \<open>Queues\<close>

text \<open>Nothing changes but what is queued, what is active and where the desktop thread stands.\<close>

lemma queue_change_inv:
  assumes inv: "core_inv D ts g X H Y c"
    and same: "cc_requests c' = cc_requests c" "cc_sessions c' = cc_sessions c" "cc_callbacks c' = cc_callbacks c"
      "cc_next_request c' = cc_next_request c" "cc_next_session c' = cc_next_session c" "cc_log c' = cc_log c"
    and out: "set (outstanding c') = set (outstanding c)" "distinct (outstanding c')"
    and st: "distinct (starts c')" "distinct (cc_active c')" "\<And>r. r \<in> set (starts c') \<union> set (cc_active c') \<Longrightarrow> cc_requests c r \<noteq> None"
    and queue: "queue_ok c'"
    and place: "\<And>r q. cc_requests c r = Some q \<Longrightarrow> place_ok X' H c' r q"
    and act: "\<And>r q. cc_requests c r = Some q \<Longrightarrow> busy q \<Longrightarrow> r \<in> set (cc_active c') \<and> r \<notin> X'"
    and acq: "\<And>sid r. acquiring X' c' sid r \<Longrightarrow> acquiring X c sid r"
  shows "core_inv D ts g X' H Y c'"
proof (rule core_invI [OF _ queue])
  have d: "delivered c' = delivered c" by (simp add: delivered_def same)
  show "lists_ok c'" using core_invD(1) [OF inv] st out unfolding lists_ok_def same d by auto
  show "request_ok g X' H Y c' r q" if "cc_requests c' r = Some q" for r q
  proof -
    from that same have q: "cc_requests c r = Some q" by simp
    note R = request_okD [OF core_invD(2) [OF inv q]]
    have "acquire_ok g X' c' r q" using R(2) act [OF q] unfolding acquire_ok_def same by blast
    moreover have "result_ok c' r q" "link_ok Y c' r q" "kind_ok c' q"
      using R(4-6) unfolding result_ok_def link_ok_def kind_ok_def session_held_def same d .
    ultimately show ?thesis using R(3) place [OF q] by (simp add: request_ok_def)
  qed
  fix sid os
  assume "cc_sessions c' sid = Some os"
  then have s: "cc_sessions c sid = Some os" by (simp add: same)
  have h: "holding c' sid p = holding c sid p" for p by (simp add: holding_def same)
  from core_invD(3) [OF inv s] show "session_ok D ts X' c' sid os"
  proof (cases rule: session_okE)
    case (granted p x cd)
    from granted(5) have px: "cc_requests c' p = Some x" by (simp add: same)
    show ?thesis by (rule session_ok_grantedI [OF granted(1,3) _ px granted(6,7)]) (use granted h out acq in \<open>auto simp: same dest: acq\<close>)
  next
    case ungranted
    then show ?thesis using h acq same by (intro session_ok_ungrantedI) auto
  qed
qed

lemma queue_lists [simp]:
  "starts (c\<lparr>cc_queue := ps\<rparr>) = concat (map start_of ps)"
  "outstanding (c\<lparr>cc_queue := ps\<rparr>) = concat (map completion_of (cc_desktop c)) @ deciding (cc_stage c) @ concat (map rollback_of ps)"
  "delivered (c\<lparr>cc_queue := ps\<rparr>) = delivered c" "delivered (c\<lparr>cc_active := l\<rparr>) = delivered c" "outstanding (c\<lparr>cc_active := l\<rparr>) = outstanding c"
  "starts (c\<lparr>cc_active := l\<rparr>) = starts c" "delivered (c\<lparr>cc_stage := st\<rparr>) = delivered c" "starts (c\<lparr>cc_stage := st\<rparr>) = starts c"
  "delivered (c\<lparr>cc_desktop := ds\<rparr>) = delivered c" "starts (c\<lparr>cc_desktop := ds\<rparr>) = starts c"
  "starts (c\<lparr>cc_posts := n\<rparr>) = starts c" "outstanding (c\<lparr>cc_posts := n\<rparr>) = outstanding c" "delivered (c\<lparr>cc_posts := n\<rparr>) = delivered c"
  by (simp_all add: starts_def outstanding_def delivered_def)

lemma post_ok_cong: "cc_requests c' = cc_requests c \<Longrightarrow> delivered c' = delivered c \<Longrightarrow> post_ok c' = post_ok c"
  by (simp add: post_ok_def fun_eq_iff split: core_post.split)

lemma lists_okD:
  assumes "core_inv D ts g X H Y c"
  shows "distinct (outstanding c)" "distinct (starts c)" "distinct (cc_active c)" "r \<in> set (starts c) \<union> set (cc_active c) \<Longrightarrow> cc_requests c r \<noteq> None"
    "r \<in> set (outstanding c) \<Longrightarrow> r \<notin> set (delivered c)" "r \<in> set (outstanding c) \<union> set (delivered c) \<Longrightarrow> cc_requests c r \<noteq> None"
  using core_invD(1) [OF assms] unfolding lists_ok_def by (auto 0 3)

lemma place_okD: "core_inv D ts g X H Y c \<Longrightarrow> cc_requests c r = Some q \<Longrightarrow> place_ok X H c r q"
  by (rule request_okD(1) [OF core_invD(2)])

lemma busy_active: "core_inv D ts g X H Y c \<Longrightarrow> cc_requests c r = Some q \<Longrightarrow> busy q \<Longrightarrow> r \<in> set (cc_active c) \<and> r \<notin> X"
  using request_okD(2) [OF core_invD(2)] unfolding acquire_ok_def by blast

lemma popped_queue_ok:
  assumes "queue_ok c" "cc_queue c = p # ps"
  shows "queue_ok (c\<lparr>cc_queue := ps\<rparr>)" "post_ok c p" "\<not> cc_shutdown_posted c"
  using assms post_ok_cong [of "c\<lparr>cc_queue := ps\<rparr>" c] by (auto simp: queue_ok_def)

lemma pop_plain_inv:
  assumes inv: "core_inv D ts g X H Y c" and p: "cc_queue c = p # ps" "start_of p = []" "rollback_of p = []"
  shows "core_inv D ts g X H Y (c\<lparr>cc_queue := ps\<rparr>)"
proof -
  have s: "starts c = concat (map start_of ps)" "outstanding (c\<lparr>cc_queue := ps\<rparr>) = outstanding c"
    using p by (simp_all add: starts_def outstanding_def)
  show ?thesis
  proof (rule queue_change_inv [OF inv])
    show "queue_ok (c\<lparr>cc_queue := ps\<rparr>)" by (rule popped_queue_ok [OF core_invD(4) [OF inv] p(1)])
    show "place_ok X H (c\<lparr>cc_queue := ps\<rparr>) r q" if "cc_requests c r = Some q" for r q
      using place_okD [OF inv that] unfolding place_ok_def by (simp add: s)
  qed (use lists_okD [OF inv] busy_active [OF inv] s in \<open>simp_all add: acquiring_def del: queue_lists(2)\<close>)
qed

text \<open>The start of a request is taken in hand.\<close>

lemma pop_start_inv:
  assumes inv: "core_inv D ts g {} H Y c" and p: "cc_queue c = p # ps" "start_of p = [r]"
  shows "core_inv D ts g {r} H Y (c\<lparr>cc_queue := ps\<rparr>)"
    "\<exists>q. cc_requests c r = Some q \<and> fresh q \<and> r \<notin> set (cc_active c) \<and> \<not> rq_detached q"
proof -
  have rb: "rollback_of p = []" using p(2) by (cases p) (simp_all add: start_of_def rollback_of_def)
  have s: "starts c = r # concat (map start_of ps)" "outstanding (c\<lparr>cc_queue := ps\<rparr>) = outstanding c"
    using p rb by (simp_all add: starts_def outstanding_def)
  from lists_okD(4) [OF inv, of r] s(1) obtain q where q: "cc_requests c r = Some q" by auto
  from place_okD [OF inv q] s(1) have f: "fresh q \<and> r \<notin> set (cc_active c) \<and> \<not> rq_detached q" by (simp add: place_ok_def)
  with q show "\<exists>q. cc_requests c r = Some q \<and> fresh q \<and> r \<notin> set (cc_active c) \<and> \<not> rq_detached q" by blast
  show "core_inv D ts g {r} H Y (c\<lparr>cc_queue := ps\<rparr>)"
  proof (rule queue_change_inv [OF inv])
    show "queue_ok (c\<lparr>cc_queue := ps\<rparr>)" by (rule popped_queue_ok [OF core_invD(4) [OF inv] p(1)])
    show "place_ok {r} H (c\<lparr>cc_queue := ps\<rparr>) x z" if "cc_requests c x = Some z" for x z
      using place_okD [OF inv that] lists_okD(2) [OF inv] q f that unfolding place_ok_def s(1) by (cases "x = r") (auto simp: fresh_def)
    show "x \<in> set (cc_active (c\<lparr>cc_queue := ps\<rparr>)) \<and> x \<notin> {r}" if "cc_requests c x = Some z" "busy z" for x z
      using busy_active [OF inv that] f by auto
  qed (use lists_okD [OF inv] s in \<open>auto simp: acquiring_def simp del: queue_lists(2)\<close>)
qed

end
