(* ===== verification/CoreSteps.thy ===== *)
theory CoreSteps
  imports CoreInv
begin

text \<open>
  The invariant of the core through the posted functions, the calls of the desktop thread and the reports
  of operations: every reachable state has it (\<open>core_reachable_inv\<close>), with the count of the posts.
\<close>

section \<open>Starting requests\<close>

lemma principal_check_mild:
  fixes D :: "'w discovery_env"
  assumes "principal_check sid pr c = (c', err)"
  shows "mild D ts c c'"
proof (cases pr)
  case (Some p)
  show ?thesis
  proof (cases "cc_sessions c sid")
    case os: (Some os)
    have "mild D ts c (session_put sid (identity_set level seen os) c)" for level seen
      by (rule mild_session_put [OF os mild_identity])
    with assms Some os show ?thesis by (auto simp: principal_check_def Let_def split: if_splits)
  qed (use assms Some in \<open>simp add: principal_check_def\<close>)
qed (use assms in \<open>simp add: principal_check_def\<close>)

lemma fresh_mild: "mild_request q p \<Longrightarrow> fresh q \<Longrightarrow> fresh p"
  using mild_requestD(5,7,8) [of q p] fixedD(3,9,10,17,18,21) [OF mild_requestD(1), of q p] by (simp add: fresh_def)

lemma validate_inv:
  fixes D :: "'w discovery_env"
  assumes inv: "core_inv D ts g {r} H Y c" and q: "cc_requests c r = Some q" "r \<notin> set (cc_active c)" "\<not> cc_shutdown_posted c"
    and v: "xcc_request_validate r c = (c1, err)"
  shows "core_inv D ts g {r} H Y c1" "r \<in> set (cc_active c1)" "\<exists>p. cc_requests c1 r = Some p \<and> mild_request q p"
    "err = XCC_OK \<Longrightarrow> rq_validation_error q = XCC_OK"
proof -
  let ?a = "c\<lparr>cc_active := cc_active c @ [r]\<rparr>"
  have place: "place_ok {r} H c r q" by (rule place_okD [OF inv q(1)])
  have st: "r \<notin> set (starts c)" using place by (auto simp: place_ok_def)
  have a: "core_inv D ts g {r} H Y ?a"
  proof (rule queue_change_inv [OF inv])
    show "queue_ok ?a" using core_invD(4) [OF inv] q(3) post_ok_cong [of ?a c] by (simp add: queue_ok_def)
    show "place_ok {r} H ?a x z" if "cc_requests c x = Some z" for x z
      using place_okD [OF inv that] st q that unfolding place_ok_def by (cases "x = r") auto
  qed (use lists_okD [OF inv] busy_active [OF inv] q in \<open>auto simp: acquiring_def\<close>)
  have p: "mild D ts ?a c1"
  proof -
    have "mild D ts ?a (request_set r (\<lambda>q. q\<lparr>rq_principal := f q\<rparr>) ?a)" for f by (rule mild_request_set) simp
    moreover have "mild D ts ?a c1" if "principal_check sid pr ?a = (c1, err)" for sid pr by (rule principal_check_mild [OF that])
    ultimately show ?thesis using v q(1) unfolding xcc_request_validate_def
      by (auto simp: Let_def split: if_splits option.splits)
  qed
  show "core_inv D ts g {r} H Y c1" by (rule core_inv_mild [OF a p])
  show "r \<in> set (cc_active c1)" using mild_lists(3) [OF p] by simp
  show "\<exists>p. cc_requests c1 r = Some p \<and> mild_request q p" using mild_at(2) [OF p] q(1) by simp
  show "rq_validation_error q = XCC_OK" if "err = XCC_OK"
    using v that q(1) unfolding xcc_request_validate_def by (auto simp: Let_def split: if_splits)
qed

lemma start_fail_inv:
  assumes inv: "core_inv D ts g {r} H Y c" and q: "cc_requests c r = Some q" "fresh q" "r \<in> set (cc_active c)" and err: "err \<noteq> XCC_OK"
  shows "core_inv D ts g {} H Y (xcc_request_complete g r err c)"
proof -
  have "r \<notin> set (starts c)" using place_okD [OF inv q(1)] by (auto simp: place_ok_def)
  then have "core_inv D ts g ({r} - {r}) H Y (xcc_request_complete g r err c)"
    by (intro complete_inv [OF inv q(1)]) (use q err in \<open>auto simp: fresh_def busy_def\<close>)
  then show ?thesis by simp
qed

text \<open>A start: the post is popped, and the request is as its call made it.\<close>

lemma start_inv:
  fixes D :: "'w discovery_env"
  assumes inv: "core_inv D ts g {} H Y c" and p: "cc_queue c = p # ps" "start_of p = [r]"
    and v: "xcc_request_validate r (c\<lparr>cc_queue := ps\<rparr>) = (c1, err)"
  obtains q where "core_inv D ts g {r} H Y c1" "r \<in> set (cc_active c1)" "cc_requests c1 r = Some q" "fresh q"
    "err = XCC_OK \<longrightarrow> rq_validation_error q = XCC_OK" "cc_queue c1 = ps" "cc_posts c1 = cc_posts c" "\<not> cc_shutdown_posted c1"
    "\<exists>q0. cc_requests c r = Some q0 \<and> rq_kind q = rq_kind q0"
proof -
  note a = pop_start_inv [OF inv p]
  from a(2) obtain q0 where q0: "cc_requests c r = Some q0" "fresh q0" "r \<notin> set (cc_active c)" by blast
  have nsp: "\<not> cc_shutdown_posted c" by (rule popped_queue_ok(3) [OF core_invD(4) [OF inv] p(1)])
  note b = validate_inv [OF a(1) _ _ _ v, of q0]
  from b(3) q0 nsp obtain q where q: "cc_requests c1 r = Some q" "mild_request q0 q" by auto
  have same: "cc_queue c1 = ps \<and> cc_posts c1 = cc_posts c \<and> \<not> cc_shutdown_posted c1"
  proof -
    have m: "cc_queue c' = cc_queue d \<and> cc_posts c' = cc_posts d \<and> cc_shutdown_posted c' = cc_shutdown_posted d"
      if "principal_check sid pr d = (c', e)" for sid pr d c' e
      using mild_lists(11,12,13) [OF principal_check_mild [OF that, where D = D and ts = ts]] by simp
    show ?thesis using v q0(1) nsp unfolding xcc_request_validate_def
      by (auto simp: Let_def split: if_splits option.splits dest!: m)
  qed
  show thesis
    by (rule that [OF _ _ q(1) fresh_mild [OF q(2) q0(2)]])
      (use b q0 nsp same fixedD(2,20) [OF mild_requestD(1) [OF q(2)]] in auto)
qed

lemma complete_fields [simp]:
  "cc_queue (xcc_request_complete g r err c) = cc_queue c" "cc_posts (xcc_request_complete g r err c) = cc_posts c"
  "cc_shutdown_posted (xcc_request_complete g r err c) = cc_shutdown_posted c"
  by (simp_all add: xcc_request_complete_def split: option.split)

lemma kept_ok:
  assumes k: "kept p = kept q" and ok: "request_ok g X H Y c r q"
  shows "spec_ok p" "result_ok (request_set r f c) r p" "link_ok Y (request_set r f c) r p" "kind_ok (request_set r f c) p"
proof -
  have fq: "rq_session p = rq_session q" "rq_kind p = rq_kind q" "rq_answered p = rq_answered q" "rq_candidate p = rq_candidate q"
    "rq_operation p = rq_operation q" "rq_purpose p = rq_purpose q" "rq_lifetime p = rq_lifetime q" "rq_may_sign p = rq_may_sign q"
    "rq_error p = rq_error q" "rq_candidate_present p = rq_candidate_present q" "rq_signature_present p = rq_signature_present q"
    "rq_mechanisms_present p = rq_mechanisms_present q" "rq_signature p = rq_signature q" "rq_filter p = rq_filter q"
    "rq_validation_error p = rq_validation_error q" "rq_input p = rq_input q"
    using k by (simp_all add: kept_def)
  note R = request_okD [OF ok]
  show "spec_ok p" using R(3) unfolding spec_ok_def fq .
  show "result_ok (request_set r f c) r p" using R(4) unfolding result_ok_def sent_candidate_def sent_signature_def fq core_lists core_fields .
  have "linked Y p = linked Y q" by (rule linked_cong) (simp_all add: fq)
  then show "link_ok Y (request_set r f c) r p" using R(5) unfolding link_ok_def fq core_fields by simp
  show "kind_ok (request_set r f c) p" using R(6) unfolding kind_ok_def session_held_def fq core_fields .
qed

definition same_queue :: "core \<Rightarrow> core \<Rightarrow> bool" where
  "same_queue c c' \<longleftrightarrow> cc_queue c' = cc_queue c \<and> cc_posts c' = cc_posts c \<and> cc_shutdown_posted c' = cc_shutdown_posted c"

lemma same_queue_trans: "same_queue c d \<Longrightarrow> same_queue d e \<Longrightarrow> same_queue c e"
  by (simp add: same_queue_def)

lemma same_queue_simps [simp]:
  "same_queue c c" "same_queue c (xcc_request_complete g r err c)" "same_queue c (request_set r f c)" "same_queue c (session_put sid os c)"
  "same_queue c (desktop_post p c)" "same_queue c (core_note x c)" "same_queue c (start_enumeration r c)"
  by (simp_all add: same_queue_def start_enumeration_def)

lemma same_queue_mild: "mild D ts c c' \<Longrightarrow> same_queue c c'"
  by (simp add: same_queue_def mild_def)

lemma validate_same_queue:
  fixes D :: "'w discovery_env" and ts :: certificate_tokens
  assumes "xcc_request_validate r c = (c1, err)"
  shows "same_queue c c1"
proof -
  have "same_queue d c'" if "principal_check sid pr d = (c', e)" for sid pr d c' e
    using same_queue_mild [OF principal_check_mild [OF that, where D = D and ts = ts]] .
  note m = this [where d = "c\<lparr>cc_active := cc_active c @ [r]\<rparr>"]
  have a: "same_queue c (c\<lparr>cc_active := cc_active c @ [r]\<rparr>)" by (simp add: same_queue_def)
  show ?thesis using assms unfolding xcc_request_validate_def
    by (auto simp: Let_def a split: if_splits option.splits intro: same_queue_trans [OF a] dest!: m)
qed

lemma xcc_acquire_start_inv:
  fixes D :: "'w discovery_env"
  assumes inv: "core_inv D ts g {} {} {} c" and p: "cc_queue c = Post_acquire r # ps"
  shows "core_inv D ts g {} {} {} (xcc_acquire_start g r (c\<lparr>cc_queue := ps\<rparr>))"
proof -
  obtain c1 err where v: "xcc_request_validate r (c\<lparr>cc_queue := ps\<rparr>) = (c1, err)" by fastforce
  have sp: "start_of (Post_acquire r) = [r]" by (simp add: start_of_def)
  obtain q where c1: "core_inv D ts g {r} {} {} c1" "r \<in> set (cc_active c1)" "cc_requests c1 r = Some q"
    "fresh q" "err = XCC_OK \<longrightarrow> rq_validation_error q = XCC_OK" "\<exists>q0. cc_requests c r = Some q0 \<and> rq_kind q = rq_kind q0"
    by (rule start_inv [OF inv p sp v])
  have kind: "rq_kind q = XCC_RESULT_ACQUIRE"
    using popped_queue_ok(2) [OF core_invD(4) [OF inv] p] c1(6) by (auto simp: post_ok_def)
  note fail = start_fail_inv [OF c1(1,3,4,2)]
  from request_okD(6) [OF core_invD(2) [OF c1(1,3)]] kind obtain sid os where s: "rq_session q = Some sid" "cc_sessions c1 sid = Some os"
    unfolding kind_ok_def by fastforce
  let ?other = "\<lambda>z. z \<noteq> r \<and> (case cc_requests c1 z of None \<Rightarrow> False
                       | Some x \<Rightarrow> rq_session x = rq_session q \<and> rq_kind x = XCC_RESULT_ACQUIRE \<and> \<not> rq_answered x)"
  have run: "xcc_acquire_start g r (c\<lparr>cc_queue := ps\<rparr>) =
      (if err \<noteq> XCC_OK then xcc_request_complete g r err c1
       else if se_granted (os_session os) then xcc_request_complete g r XCC_ERROR_INVALID_REQUEST c1
       else if list_ex ?other (cc_active c1) then xcc_request_complete g r XCC_ERROR_INVALID_REQUEST c1
       else start_enumeration r c1)"
    unfolding xcc_acquire_start_def v prod.case c1(3) s option.case ..
  have "core_inv D ts g ({r} - {r}) {} {} (start_enumeration r c1)"
    if "err = XCC_OK" "\<not> se_granted (os_session os)" "\<not> list_ex ?other (cc_active c1)"
  proof (rule start_enumeration_inv [OF c1(1,3) _ c1(2) kind])
    show "\<not> se_granted (os_session os') \<and> \<not> acquiring {r} c1 sid' z"
      if "rq_session q = Some sid'" "cc_sessions c1 sid' = Some os'" for sid' os' z
    proof -
      have "sid' = sid" "os' = os" using that s by auto
      moreover have "\<not> acquiring {r} c1 sid z"
      proof
        assume "acquiring {r} c1 sid z"
        with s have "z \<in> set (cc_active c1)" "?other z" by (auto simp: acquiring_def)
        with \<open>\<not> list_ex ?other (cc_active c1)\<close> show False unfolding list_ex_iff by blast
      qed
      ultimately show ?thesis using \<open>\<not> se_granted (os_session os)\<close> by simp
    qed
  qed (use c1 that in \<open>auto simp: fresh_def\<close>)
  with fail show ?thesis unfolding run by simp
qed

lemma capabilities_start_inv:
  fixes D :: "'w discovery_env"
  assumes inv: "core_inv D ts g {} {} {} c" and p: "cc_queue c = Post_capabilities r # ps"
  shows "core_inv D ts g {} {} {} (capabilities_start g r (c\<lparr>cc_queue := ps\<rparr>))"
proof -
  obtain c1 err where v: "xcc_request_validate r (c\<lparr>cc_queue := ps\<rparr>) = (c1, err)" by fastforce
  have sp: "start_of (Post_capabilities r) = [r]" by (simp add: start_of_def)
  obtain q where c1: "core_inv D ts g {r} {} {} c1" "r \<in> set (cc_active c1)" "cc_requests c1 r = Some q"
    "fresh q" "err = XCC_OK \<longrightarrow> rq_validation_error q = XCC_OK" "\<exists>q0. cc_requests c r = Some q0 \<and> rq_kind q = rq_kind q0"
    by (rule start_inv [OF inv p sp v])
  have kind: "rq_kind q = XCC_RESULT_CAPABILITIES"
    using popped_queue_ok(2) [OF core_invD(4) [OF inv] p] c1(6) by (auto simp: post_ok_def)
  note fail = start_fail_inv [OF c1(1,3,4,2)]
  let ?f = "\<lambda>q. q\<lparr>rq_workers := rq_workers q + 1\<rparr>"
  have "core_inv D ts g {} {} {} (request_set r ?f c1)"
  proof (rule update_inv [OF c1(1,3)])
    note R = request_okD [OF core_invD(2) [OF c1(1,3)]]
    have "place_ok {} {} (request_set r ?f c1) r (?f q)" using R(1) c1(2,4) kind by (auto simp: place_ok_def awaited_def)
    moreover have "acquire_ok g {} (request_set r ?f c1) r (?f q)" using R(2) c1(4) kind by (simp add: acquire_ok_def fresh_def busy_def)
    moreover have k: "kept (?f q) = kept q" by (simp add: kept_def)
    note kept_ok(1) [OF k core_invD(2) [OF c1(1,3)]] kept_ok(2-4) [OF k core_invD(2) [OF c1(1,3)], where f = ?f]
    ultimately show "request_ok g {} {} {} (request_set r ?f c1) r (?f q)" by (simp add: request_ok_def)
  qed (use kind in simp_all)
  with fail show ?thesis unfolding capabilities_start_def v prod.case by simp
qed

lemma operation_code_error [simp]: "operation_code err \<noteq> XCC_OK"
  by (simp add: operation_code_def split: gerror.split pkcs11_error.split mechanism_error.split)

lemma next_operation:
  assumes "op_reachable D ts os"
  shows "os_operations os (os_next os) = None"
  using op_atD(1) [OF ops.reach_inv [OF assms]] by (cases "os_operations os (os_next os)") auto

lemma sign_linked_inv:
  fixes D :: "'w discovery_env" and eo :: "'w op_env"
  assumes inv: "core_inv D ts g {r} {} {} c" and q: "cc_requests c r = Some q" "fresh q" "r \<in> set (cc_active c)" "rq_kind q = XCC_RESULT_SIGN"
      "rq_session q = Some sid" and os: "cc_sessions c sid = Some os"
    and step: "op_step D ts os l os'" and new: "os_next os' = os_next os + 1" "os_operations os' = (os_operations os)(os_next os \<mapsto> x)"
      "op_cancellable x" "\<not> op_answered x" "grant_part (os_session os') = grant_part (os_session os)" "os_log os' = os_log os"
      "asked_for q os x"
  shows "core_inv D ts g {} {} {} ((request_set r (\<lambda>q. q\<lparr>rq_operation := Some (os_next os)\<rparr>) (session_put sid os' c))
     \<lparr>cc_callbacks := (cc_callbacks c)(sid := (cc_callbacks c sid)(os_next os \<mapsto> r))\<rparr>)" (is "core_inv D ts g {} {} {} ?c")
proof -
  let ?q = "q\<lparr>rq_operation := Some (os_next os)\<rparr>"
  note R = request_okD [OF core_invD(2) [OF inv q(1)]]
  have S: "session_ok D ts {r} c sid os" by (rule core_invD(3) [OF inv os])
  then have s: "op_reachable D ts os" "\<And>i. cc_callbacks c sid i \<noteq> None \<longleftrightarrow> i < os_next os" by (simp_all add: session_ok_def)
  have none: "os_operations os (os_next os) = None" "cc_callbacks c sid (os_next os) = None"
    using next_operation [OF s(1)] s(2) [of "os_next os"] by auto
  have req: "cc_requests ?c p = (if p = r then Some ?q else cc_requests c p)" for p using q(1) by simp
  have f: "cc_sessions ?c z = (if z = sid then Some os' else cc_sessions c z)" "starts ?c = starts c" "cc_active ?c = cc_active c"
    "cc_next_request ?c = cc_next_request c" "cc_next_session ?c = cc_next_session c" "cc_log ?c = cc_log c" "outstanding ?c = outstanding c"
    "delivered ?c = delivered c" "cc_queue ?c = cc_queue c" "cc_stage ?c = cc_stage c" "cc_shutdown_posted ?c = cc_shutdown_posted c" for z
    by (simp_all add: starts_def outstanding_def delivered_def)
  have na: "r \<notin> set (outstanding c)" "r \<notin> set (delivered c)" using answered_iff [OF inv q(1)] q(2) by (simp_all add: fresh_def)
  note gp = grant_partD [OF new(5)]
  show ?thesis
  proof (rule one_change_inv [OF inv q(1,5) os req f(1)])
    show "ops_kept os os'" using none by (auto simp: new(2,6) gp ops_kept_def map_le_def)
    show "queue_ok ?c" by (rule queue_ok_same [OF core_invD(4) [OF inv]]) (use q in \<open>auto simp: f req\<close>)
    show "distinct (outstanding ?c @ delivered ?c)" using core_invD(1) [OF inv] unfolding f lists_ok_def by blast
    have "place_ok {} {} ?c r ?q" using R(1) q by (auto simp: place_ok_def f awaited_def)
    moreover have "acquire_ok g {} ?c r ?q" using R(2) q(2,4) by (simp add: acquire_ok_def fresh_def busy_def)
    moreover have "spec_ok ?q" using R(3) by (simp add: spec_ok_def)
    moreover have "result_ok ?c r ?q" using R(4) q(2) na by (simp add: result_ok_def f fresh_def)
    moreover have "kind_ok ?c ?q" using R(6) by (auto simp: kind_ok_def session_held_def f)
    moreover have "linked {} ?q sid (os_next os) os' x" using q(2) new(2-4,7) by (simp add: linked_def asked_for_def gp fresh_def)
    then have "link_ok {} ?c r ?q" using q by (auto simp: link_ok_def f)
    ultimately show "request_ok g {} {} {} ?c r ?q" by (simp add: request_ok_def)
    have h: "holding ?c sid p = holding c sid p" and a: "acquiring {} ?c sid p = acquiring {r} c sid p" for p
      using q by (auto simp: holding_def acquiring_def req f)
    have cb: "cc_callbacks ?c sid i \<noteq> None \<longleftrightarrow> i < os_next os'" for i using s(2) [of i] by (auto simp: new less_Suc_eq)
    have reach: "op_reachable D ts os'" by (rule reach_step [OF s(1) step])
    from S show "session_ok D ts {} ?c sid os'"
    proof (cases rule: session_okE)
      case (granted p x cd)
      have "p \<noteq> r" using granted(5,6) q(1,2) by (auto simp: fresh_def)
      with granted(5) have px: "cc_requests ?c p = Some x" by (simp add: req)
      have by': "granted_by x cd (os_session os')" using granted(7) by (simp add: granted_by_def gp)
      show ?thesis by (rule session_ok_grantedI [OF reach _ _ px granted(6) by' _ _ cb])
          (use granted(3,4,8,9) h a f in \<open>simp_all add: gp\<close>)
    next
      case ungranted
      then show ?thesis using h a cb by (intro session_ok_ungrantedI [OF reach]) (auto simp: gp)
    qed
  qed (use q none na in \<open>auto simp: f fresh_def split: if_splits\<close>)
qed

lemma xcc_sign_start_inv:
  fixes D :: "'w discovery_env" and e :: "'w core_env"
  assumes inv: "core_inv D ts g {} {} {} c" and p: "cc_queue c = Post_sign r # ps"
  shows "core_inv D ts g {} {} {} (xcc_sign_start g e r (c\<lparr>cc_queue := ps\<rparr>))" "same_queue (c\<lparr>cc_queue := ps\<rparr>) (xcc_sign_start g e r (c\<lparr>cc_queue := ps\<rparr>))"
proof -
  obtain c1 err where v: "xcc_request_validate r (c\<lparr>cc_queue := ps\<rparr>) = (c1, err)" by fastforce
  have sp: "start_of (Post_sign r) = [r]" by (simp add: start_of_def)
  obtain q where c1: "core_inv D ts g {r} {} {} c1" "r \<in> set (cc_active c1)" "cc_requests c1 r = Some q"
    "fresh q" "\<exists>q0. cc_requests c r = Some q0 \<and> rq_kind q = rq_kind q0"
    by (rule start_inv [OF inv p sp v])
  have sq: "same_queue (c\<lparr>cc_queue := ps\<rparr>) c1" by (rule validate_same_queue [OF v])
  have kind: "rq_kind q = XCC_RESULT_SIGN"
    using popped_queue_ok(2) [OF core_invD(4) [OF inv] p] c1(5) by (auto simp: post_ok_def)
  note fail = start_fail_inv [OF c1(1,3,4,2)]
  note R = request_okD [OF core_invD(2) [OF c1(1,3)]]
  from R(6) kind obtain sid os where s: "rq_session q = Some sid" "cc_sessions c1 sid = Some os"
    unfolding kind_ok_def by fastforce
  have spec: "or_cancellable (rq_input q)" "\<not> or_decrypt (rq_input q)" using R(3) by (simp_all add: spec_ok_def)
  let ?name = "certificate_app_display_name (ce_desktop_name e) (rq_app_id q)"
  define rq where "rq = (rq_input q)\<lparr>or_cancelled := rq_cancelled q, or_caller_display := (if ?name \<noteq> None then ?name else rq_app_id q)\<rparr>"
  define os' where "os' = certificate_broker_perform (ce_op e) rq os"
  have rq: "or_cancellable rq" "\<not> or_decrypt rq" using spec by (simp_all add: rq_def)
  have step: "op_step D ts os (ce_op e, Ev_perform rq) os'" unfolding os'_def by (rule step_perform)
  have run: "xcc_sign_start g e r (c\<lparr>cc_queue := ps\<rparr>) = (if err \<noteq> XCC_OK then xcc_request_complete g r err c1
      else if os_next os < os_next os' then (request_set r (\<lambda>q. q\<lparr>rq_operation := Some (os_next os)\<rparr>) (session_put sid os' c1))
         \<lparr>cc_callbacks := (cc_callbacks c1)(sid := (cc_callbacks c1 sid)(os_next os \<mapsto> r))\<rparr>
      else (case os_log os' of Op_refused refusal # _ \<Rightarrow> on_operation_done g r (Inl refusal) (session_put sid os' c1) | _ \<Rightarrow> session_put sid os' c1))"
    unfolding xcc_sign_start_def v prod.case c1(3) option.case s Let_def rq_def [symmetric] os'_def [symmetric] core_fields ..
  show "core_inv D ts g {} {} {} (xcc_sign_start g e r (c\<lparr>cc_queue := ps\<rparr>))"
  proof (cases "err = XCC_OK")
    case False
    with fail show ?thesis unfolding run by simp
  next
    case True
    show ?thesis
    proof (cases rule: perform_cases [of "ce_op e" rq os])
      case (refused why)
      then have o: "os' = op_note (Op_refused why) os" by (simp add: os'_def)
      have m: "mild D ts c1 (session_put sid os' c1)"
        by (rule mild_session_put [OF s(2)], rule mild_sessionI [OF step, where new = "[Op_refused why]"])
          (simp_all add: o weak_note)
      from mild_at(2) [OF m c1(3)] obtain q' where q': "cc_requests (session_put sid os' c1) r = Some q'" "mild_request q q'" by blast
      have "core_inv D ts g {} {} {} (xcc_request_complete g r (operation_code why) (session_put sid os' c1))"
        by (rule start_fail_inv [OF core_inv_mild [OF c1(1) m] q'(1) fresh_mild [OF q'(2) c1(4)]]) (use c1(2) in simp_all)
      with True show ?thesis unfolding run by (simp add: o on_operation_done_def)
    next
      case (accepted cd mechanism payload)
      define x where "x = the (os_operations os' (os_next os))"
      have new: "os_next os' = os_next os + 1" "os_operations os' = (os_operations os)(os_next os \<mapsto> x)" "op_cancellable x" "\<not> op_answered x"
        "grant_part (os_session os') = grant_part (os_session os)" "os_log os' = os_log os"
        "op_decrypt x = or_decrypt rq" "op_mechanism x = mechanism" "op_payload x = payload"
        using rq unfolding x_def os'_def accepted(10) by (simp_all add: grant_part_def)
      have "asked_for q os x" using accepted(2,8,9) rq(2) new(7-9) unfolding asked_for_def by (simp add: rq_def)
      from sign_linked_inv [OF c1(1,3,4,2) kind s step new(1-6) this] True new(1) show ?thesis unfolding run by simp
    qed
  qed
  show "same_queue (c\<lparr>cc_queue := ps\<rparr>) (xcc_sign_start g e r (c\<lparr>cc_queue := ps\<rparr>))"
    unfolding run by (rule same_queue_trans [OF sq]) (auto simp: on_operation_done_def same_queue_def split: list.split op_effect.split)
qed

section \<open>Reports of operations\<close>

text \<open>The session is at its new state; the results it reports are still to be handed over.\<close>

lemma session_moved_inv:
  fixes D :: "'w discovery_env"
  assumes inv: "core_inv D ts g {} {} {} c" and os: "cc_sessions c sid = Some os"
    and step: "op_step D ts os l os'" and w: "weak os os'" and log: "os_log os' = new @ os_log os"
  shows "core_inv D ts g {} {} ({sid} \<times> set (done_ids new)) (session_put sid os' c)"
proof (rule core_invI)
  let ?c = "session_put sid os' c"
  have S: "session_ok D ts {} c sid os" by (rule core_invD(3) [OF inv os])
  then have reach: "op_reachable D ts os" by (simp add: session_ok_def)
  have reach': "op_reachable D ts os'" by (rule reach_step [OF reach step])
  have wops: "rel_option same_input (os_operations os i) (os_operations os' i)" for i
    using w by (simp add: weak_def)
  note news = new_reports(2) [OF ops.reach_inv [OF reach] ops.reach_inv [OF reach'] log wops]
  show "lists_ok ?c" by (rule lists_ok_same [OF core_invD(1) [OF inv]]) (use os in auto)
  show "queue_ok ?c" by (rule queue_ok_same [OF core_invD(4) [OF inv]]) auto
  show "request_ok g {} {} ({sid} \<times> set (done_ids new)) ?c r q" if "cc_requests ?c r = Some q" for r q
  proof -
    from that have q: "cc_requests c r = Some q" by simp
    note R = request_okD [OF core_invD(2) [OF inv q]]
    have "link_ok ({sid} \<times> set (done_ids new)) ?c r q" unfolding link_ok_def
    proof (rule conjI; intro allI impI)
      show "rq_operation q = None \<Longrightarrow> rq_signature q = None" using R(5) by (simp add: link_ok_def)
      fix i
      assume "rq_operation q = Some i"
      with R(5) obtain z o1 x where k: "rq_kind q = XCC_RESULT_SIGN" "rq_session q = Some z" "cc_callbacks c z i = Some r" "cc_sessions c z = Some o1"
        "linked {} q z i o1 x" unfolding link_ok_def by auto
      show "rq_kind q = XCC_RESULT_SIGN \<and> (\<exists>z os x. rq_session q = Some z \<and> cc_callbacks ?c z i = Some r \<and> cc_sessions ?c z = Some os \<and>
          linked ({sid} \<times> set (done_ids new)) q z i os x)"
      proof (cases "z = sid")
        case True
        with k(4) os have o1: "o1 = os" by simp
        with k(5) news [of i x] obtain y where y: "os_operations os' i = Some y" "same_input x y"
          "op_answered y \<longleftrightarrow> op_answered x \<or> i \<in> set (done_ids new)" "op_answered x \<longrightarrow> i \<notin> set (done_ids new)" by (auto simp: linked_def)
        have "grant_part (os_session os') = grant_part (os_session os)" using w by (simp add: weak_def)
        from k(5) y log grant_partD(1) [OF this] True o1 have "linked ({sid} \<times> set (done_ids new)) q z i os' y"
          by (auto simp: linked_def asked_for_def)
        with k True show ?thesis by auto
      next
        case False
        with k(5) have "linked ({sid} \<times> set (done_ids new)) q z i o1 x" by (simp add: linked_def)
        with k False show ?thesis by auto
      qed
    qed
    moreover have "place_ok {} {} ?c r q" "acquire_ok g {} ?c r q" "result_ok ?c r q"
      using R(1,2,4) unfolding place_ok_def acquire_ok_def result_ok_def core_fields core_lists .
    moreover have "kind_ok ?c q" using R(6) os unfolding kind_ok_def session_held_def by auto
    ultimately show ?thesis using R(3) by (simp add: request_ok_def)
  qed
  fix z t
  assume t: "cc_sessions ?c z = Some t"
  have h: "holding ?c z p = holding c z p" "acquiring {} ?c z p = acquiring {} c z p" for p by (simp_all add: holding_def acquiring_def)
  show "session_ok D ts {} ?c z t"
  proof (cases "z = sid")
    case True
    with t have t: "t = os'" by simp
    have gp: "grant_part (os_session os') = grant_part (os_session os)" and n: "os_next os' = os_next os" using w by (simp_all add: weak_def)
    note gp = grant_partD [OF gp]
    from S show ?thesis unfolding True t
    proof (cases rule: session_okE)
      case (granted p x cd)
      have px: "cc_requests ?c p = Some x" "granted_by x cd (os_session os')" using granted(5,7) by (simp_all add: granted_by_def gp)
      show "session_ok D ts {} ?c sid os'" by (rule session_ok_grantedI [OF reach' _ _ px(1) granted(6) px(2)])
          (use granted h in \<open>simp_all add: gp n True\<close>)
    next
      case ungranted
      then show "session_ok D ts {} ?c sid os'" using h by (intro session_ok_ungrantedI [OF reach']) (simp_all add: gp n True)
    qed
  next
    case False
    with t have "cc_sessions c z = Some t" by simp
    from core_invD(3) [OF inv this] show ?thesis unfolding session_ok_def h core_fields core_lists .
  qed
qed

lemma operation_request:
  assumes inv: "core_inv D ts g {} H Y c" and q: "cc_requests c r = Some q" "rq_operation q = Some i" "\<not> rq_answered q"
  shows "r \<in> set (cc_active c)" "r \<notin> set (starts c)" "\<not> busy q" "rq_candidate q = None" "rq_kind q = XCC_RESULT_SIGN"
proof -
  note R = request_okD [OF core_invD(2) [OF inv q(1)]]
  show k: "rq_kind q = XCC_RESULT_SIGN" using R(5) q(2) unfolding link_ok_def by blast
  show "\<not> busy q" using R(2) k unfolding acquire_ok_def by (metis result_kind.distinct(1))
  show "rq_candidate q = None" using R(2) q(3) unfolding acquire_ok_def by (metis not_None_eq)
  show st: "r \<notin> set (starts c)" using R(1) q(2) by (auto simp: place_ok_def fresh_def)
  have "r \<notin> set (delivered c)" using answered_iff [OF inv q(1)] q(3) by simp
  with R(1) st q(3) show "r \<in> set (cc_active c)" by (auto simp: place_ok_def)
qed

lemma signature_inv:
  assumes inv: "core_inv D ts g {} H Y c" and q: "cc_requests c r = Some q" "\<not> rq_answered q"
    and v: "rq_operation q = Some i" "rq_session q = Some sid" "cc_sessions c sid = Some os" "Op_done i (Inr v) \<in> set (os_log os)"
  shows "core_inv D ts g {} H Y (request_set r (\<lambda>q. q\<lparr>rq_signature := Some v\<rparr>) c)"
proof (rule update_inv [OF inv q(1)])
  let ?f = "\<lambda>q. q\<lparr>rq_signature := Some v\<rparr>"
  note R = request_okD [OF core_invD(2) [OF inv q(1)]]
  have nd: "r \<notin> set (delivered c)" using answered_iff [OF inv q(1)] q(2) by simp
  have "r \<notin> set (starts c)" by (rule operation_request(2) [OF inv q(1) v(1) q(2)])
  then have "place_ok {} H (request_set r ?f c) r (?f q)" using R(1) by (simp add: place_ok_def awaited_def busy_def cong: result_kind.case_cong)
  moreover have "acquire_ok g {} (request_set r ?f c) r (?f q)" using R(2) unfolding acquire_ok_def
    by (simp add: busy_def chosen_ok_def offer_ok_def [abs_def])
  moreover have "spec_ok (?f q)" using R(3) by (simp add: spec_ok_def)
  moreover have "result_ok (request_set r ?f c) r (?f q)" using R(4) q nd unfolding result_ok_def by simp
  moreover have "link_ok Y (request_set r ?f c) r (?f q)" using R(5) v by (auto simp: link_ok_def linked_def asked_for_def)
  moreover have "kind_ok (request_set r ?f c) (?f q)" using R(6) by (simp add: kind_ok_def session_held_def)
  ultimately show "request_ok g {} H Y (request_set r ?f c) r (?f q)" by (simp add: request_ok_def)
qed simp_all

lemma report_fields [simp]:
  "cc_sessions (xcc_request_complete g r err c) = cc_sessions c" "cc_callbacks (xcc_request_complete g r err c) = cc_callbacks c"
  by (simp_all add: xcc_request_complete_def split: option.split)

lemma session_closed_fields [simp]:
  "cc_sessions (session_closed sid c) = cc_sessions c" "cc_callbacks (session_closed sid c) = cc_callbacks c"
proof -
  have "cc_sessions (close_request sid r c) = cc_sessions c \<and> cc_callbacks (close_request sid r c) = cc_callbacks c" for r c
    by (simp add: close_request_def split: option.split)
  then have "cc_sessions (fold (close_request sid) rs c) = cc_sessions c \<and> cc_callbacks (fold (close_request sid) rs c) = cc_callbacks c" for rs
    by (induction rs arbitrary: c) simp_all
  then show "cc_sessions (session_closed sid c) = cc_sessions c" "cc_callbacks (session_closed sid c) = cc_callbacks c"
    by (simp_all add: session_closed_def Let_def)
qed

lemma session_invalidated_fields [simp]:
  "cc_sessions (session_invalidated sid reason c) = cc_sessions c" "cc_callbacks (session_invalidated sid reason c) = cc_callbacks c"
proof -
  have "cc_sessions (invalidate_request sid reason r c) = cc_sessions c \<and> cc_callbacks (invalidate_request sid reason r c) = cc_callbacks c" for r c
    by (simp add: invalidate_request_def split: option.split)
  then have "cc_sessions (fold (invalidate_request sid reason) rs c) = cc_sessions c \<and>
      cc_callbacks (fold (invalidate_request sid reason) rs c) = cc_callbacks c" for rs
    by (induction rs arbitrary: c) simp_all
  then show "cc_sessions (session_invalidated sid reason c) = cc_sessions c" "cc_callbacks (session_invalidated sid reason c) = cc_callbacks c"
    by (simp_all add: session_invalidated_def)
qed

lemma report_sessions:
  "cc_sessions (report g sid x c) = cc_sessions c" "cc_callbacks (report g sid x c) = cc_callbacks c"
  by (simp_all add: report_def on_operation_done_def split: op_effect.split option.split sum.split)

lemma report_inv:
  fixes D :: "'w discovery_env"
  assumes inv: "core_inv D ts g {} {} ({sid} \<times> set (done_ids (x # rest))) c" and d: "distinct (done_ids (x # rest))"
    and os: "cc_sessions c sid = Some os" "x \<in> set (os_log os)"
    and ans: "\<And>i. i \<in> set (done_ids (x # rest)) \<Longrightarrow> \<exists>y. os_operations os i = Some y \<and> op_answered y"
  shows "core_inv D ts g {} {} ({sid} \<times> set (done_ids rest)) (report g sid x c)" "same_queue c (report g sid x c)"
proof -
  show "same_queue c (report g sid x c)"
    using same_queue_mild [OF mild_session_invalidated] by (auto simp: report_def on_operation_done_def same_queue_def split: op_effect.split option.split sum.split)
  show "core_inv D ts g {} {} ({sid} \<times> set (done_ids rest)) (report g sid x c)"
  proof (cases "\<exists>i res. x = Op_done i res")
    case False
    have "mild D ts c (session_invalidated sid reason c)" for reason by (rule mild_session_invalidated)
    from core_inv_mild [OF inv this] inv False show ?thesis by (cases x) (simp_all add: report_def)
  next
    case True
    then obtain i res where x: "x = Op_done i res" by blast
    with ans [of i] obtain y where y: "os_operations os i = Some y" "op_answered y" by auto
    have S: "session_ok D ts {} c sid os" by (rule core_invD(3) [OF inv os(1)])
    then have reach: "op_reachable D ts os" and cbs: "\<And>i. cc_callbacks c sid i \<noteq> None \<longleftrightarrow> i < os_next os" by (simp_all add: session_ok_def)
    from op_atD(1) [OF ops.reach_inv [OF reach] y(1)] cbs obtain r where cb: "cc_callbacks c sid i = Some r" by blast
    with core_invD(1) [OF inv] obtain q where q: "cc_requests c r = Some q" "rq_session q = Some sid" "rq_operation q = Some i"
      unfolding lists_ok_def by blast
    from request_okD(5) [OF core_invD(2) [OF inv q(1)]] q(2,3) x have un: "\<not> rq_answered q" by (auto simp: link_ok_def linked_def)
    note o = operation_request [OF inv q(1,3) un]
    have Y: "{sid} \<times> set (done_ids rest) = {sid} \<times> set (done_ids (x # rest)) - {(sid, i)}" using d x by auto
    have fin: "core_inv D ts g {} {} ({sid} \<times> set (done_ids rest)) (xcc_request_complete g r err c')"
      if c': "core_inv D ts g {} {} ({sid} \<times> set (done_ids (x # rest))) c'" and q': "cc_requests c' r = Some q'" "rq_session q' = Some sid"
        "rq_operation q' = Some i" "\<not> rq_answered q'" and pay: "err = XCC_OK \<Longrightarrow> rq_signature q' \<noteq> None" and s: "cc_sessions c' sid = Some os"
      for c' q' err
    proof -
      note o' = operation_request [OF c' q'(1,3,4)]
      have "core_inv D ts g ({} - {r}) {} ({sid} \<times> set (done_ids rest)) (xcc_request_complete g r err c')"
        by (rule complete_inv [OF c' q'(1,4) o'(3,4,2,1)]) (use q' o' pay Y x s y in auto)
      then show ?thesis by simp
    qed
    show ?thesis
    proof (cases res)
      case (Inl err)
      from fin [OF inv q un _ os(1), of "operation_code err"] show ?thesis by (simp add: report_def x cb on_operation_done_def Inl)
    next
      case (Inr v)
      let ?f = "\<lambda>q. q\<lparr>rq_signature := Some v\<rparr>"
      have "core_inv D ts g {} {} ({sid} \<times> set (done_ids rest)) (xcc_request_complete g r XCC_OK (request_set r ?f c))"
        by (rule fin [OF signature_inv [OF inv q(1) un q(3,2) os(1)], where q' = "?f q"]) (use q un os x Inr in simp_all)
      then show ?thesis by (simp add: report_def x cb on_operation_done_def Inr)
    qed
  qed
qed

lemma reports_inv:
  fixes D :: "'w discovery_env"
  assumes "core_inv D ts g {} {} ({sid} \<times> set (done_ids xs)) c" "distinct (done_ids xs)" "cc_sessions c sid = Some os" "set xs \<subseteq> set (os_log os)"
    "\<And>i. i \<in> set (done_ids xs) \<Longrightarrow> \<exists>y. os_operations os i = Some y \<and> op_answered y"
  shows "core_inv D ts g {} {} {} (fold (report g sid) xs c) \<and> same_queue c (fold (report g sid) xs c)"
  using assms
proof (induction xs arbitrary: c)
  case (Cons x xs)
  have "x \<in> set (os_log os)" using Cons.prems(4) by simp
  note r = report_inv [OF Cons.prems(1-3) this Cons.prems(5)]
  have "core_inv D ts g {} {} {} (fold (report g sid) xs (report g sid x c)) \<and> same_queue (report g sid x c) (fold (report g sid) xs (report g sid x c))"
    by (rule Cons.IH [OF r(1)]) (use Cons.prems(2-5) in \<open>auto simp: report_sessions\<close>)
  with same_queue_trans [OF r(2)] show ?case by auto
qed simp

lemma session_goes_inv:
  fixes D :: "'w discovery_env" and e :: "'w op_env"
  assumes inv: "core_inv D ts g {} {} {} c" and os: "cc_sessions c sid = Some os" and step: "op_step D ts os (e, ev) os'" and own: "own_event ev"
  shows "core_inv D ts g {} {} {} (session_goes g sid os' c)" "same_queue c (session_goes g sid os' c)"
proof -
  have w: "weak os os'" by (rule own_step_weak [OF step own])
  then obtain new where log: "os_log os' = new @ os_log os" by (auto simp: weak_def)
  have reach: "op_reachable D ts os" using core_invD(3) [OF inv os] by (simp add: session_ok_def)
  have reach': "op_reachable D ts os'" by (rule reach_step [OF reach step])
  note A = answered_ids [OF op_invD(4) [OF ops.reach_inv [OF reach']]]
  have "core_inv D ts g {} {} {} (fold (report g sid) (rev new) (session_put sid os' c)) \<and>
      same_queue (session_put sid os' c) (fold (report g sid) (rev new) (session_put sid os' c))"
  proof (rule reports_inv)
    show "core_inv D ts g {} {} ({sid} \<times> set (done_ids (rev new))) (session_put sid os' c)"
      using session_moved_inv [OF inv os step w log] by simp
    show "distinct (done_ids (rev new))" using A(1) log by simp
    show "cc_sessions (session_put sid os' c) sid = Some os'" by simp
    show "set (rev new) \<subseteq> set (os_log os')" by (simp add: log)
    show "\<exists>y. os_operations os' i = Some y \<and> op_answered y" if "i \<in> set (done_ids (rev new))" for i
      using A(2) [of i] that log by simp
  qed
  then show "core_inv D ts g {} {} {} (session_goes g sid os' c)" "same_queue c (session_goes g sid os' c)"
    unfolding session_goes_eq [OF os log] using same_queue_trans [OF same_queue_simps(4)] by blast+
qed

end
