(* ===== verification/CoreReach.thy ===== *)
theory CoreReach
  imports CoreSteps
begin

text \<open>
  Every reachable state of the core has its invariant (\<open>core_reachable_inv\<close>), with the count of the posts:
  the completions, the calls of the desktop thread and the rest of the posted functions.
\<close>

section \<open>Queues\<close>

definition posts_eq :: "core \<Rightarrow> bool" where
  "posts_eq c \<longleftrightarrow> cc_posts c = length (cc_queue c)"

lemma plain_lists [simp]:
  "starts (c\<lparr>cc_shutdown_posted := b\<rparr>) = starts c" "outstanding (c\<lparr>cc_shutdown_posted := b\<rparr>) = outstanding c"
  "delivered (c\<lparr>cc_shutdown_posted := b\<rparr>) = delivered c" "starts (c\<lparr>cc_registered := l\<rparr>) = starts c"
  "outstanding (c\<lparr>cc_registered := l\<rparr>) = outstanding c" "delivered (c\<lparr>cc_registered := l\<rparr>) = delivered c"
  "starts (c\<lparr>cc_waiting := b\<rparr>) = starts c" "outstanding (c\<lparr>cc_waiting := b\<rparr>) = outstanding c"
  "delivered (c\<lparr>cc_waiting := b\<rparr>) = delivered c" "starts (c\<lparr>cc_next_session := n\<rparr>) = starts c"
  "outstanding (c\<lparr>cc_next_session := n\<rparr>) = outstanding c" "delivered (c\<lparr>cc_next_session := n\<rparr>) = delivered c"
  by (simp_all add: starts_def outstanding_def delivered_def)

lemma posts_inv:
  assumes inv: "core_inv D ts g X H Y c"
  shows "core_inv D ts g X H Y (c\<lparr>cc_posts := n\<rparr>)"
proof (rule queue_change_inv [OF inv])
  show "queue_ok (c\<lparr>cc_posts := n\<rparr>)" by (rule queue_ok_same [OF core_invD(4) [OF inv]]) auto
  show "place_ok X H (c\<lparr>cc_posts := n\<rparr>) r q" if "cc_requests c r = Some q" for r q
    using place_okD [OF inv that] unfolding place_ok_def by simp
qed (use lists_okD [OF inv] busy_active [OF inv] in \<open>simp_all add: acquiring_def\<close>)

lemma post_fields [simp]:
  "cc_requests (xcc_context_post p c) = cc_requests c" "cc_sessions (xcc_context_post p c) = cc_sessions c"
  "cc_callbacks (xcc_context_post p c) = cc_callbacks c" "cc_next_request (xcc_context_post p c) = cc_next_request c"
  "cc_next_session (xcc_context_post p c) = cc_next_session c" "cc_log (xcc_context_post p c) = cc_log c"
  "cc_active (xcc_context_post p c) = cc_active c" "cc_desktop (xcc_context_post p c) = cc_desktop c"
  "cc_stage (xcc_context_post p c) = cc_stage c" "cc_shutdown_posted (xcc_context_post p c) = cc_shutdown_posted c"
  "delivered (xcc_context_post p c) = delivered c" "cc_stopping (xcc_context_post p c) = cc_stopping c"
  "cc_registered (xcc_context_post p c) = cc_registered c" "cc_generation (xcc_context_post p c) = cc_generation c"
  by (simp_all add: xcc_context_post_def delivered_def)

lemma posts_eq_post: "posts_eq c \<Longrightarrow> posts_eq (xcc_context_post p c)"
  by (simp add: posts_eq_def xcc_context_post_def)

lemma posts_eq_same: "same_queue c c' \<Longrightarrow> posts_eq c \<Longrightarrow> posts_eq c'"
  by (simp add: posts_eq_def same_queue_def)

lemma post_plain_inv:
  assumes inv: "core_inv D ts g X H Y c" and p: "start_of p = []" "rollback_of p = []" "post_ok c p"
  shows "core_inv D ts g X H Y (xcc_context_post p c)"
proof -
  let ?c = "xcc_context_post p c"
  have s: "starts ?c = starts c" "outstanding ?c = outstanding c"
    using p by (simp_all add: xcc_context_post_def starts_def outstanding_def)
  show ?thesis
  proof (rule queue_change_inv [OF inv])
    have "post_ok ?c = post_ok c" by (rule post_ok_cong) simp_all
    with core_invD(4) [OF inv] p(3) show "queue_ok ?c" by (auto simp: queue_ok_def xcc_context_post_def cc_accepts_def)
    show "place_ok X H ?c r q" if "cc_requests c r = Some q" for r q using place_okD [OF inv that] unfolding place_ok_def s post_fields .
  qed (use lists_okD [OF inv] busy_active [OF inv] s in \<open>simp_all add: acquiring_def\<close>)
qed

lemma pop_desktop_inv:
  assumes inv: "core_inv D ts g X H Y c" and p: "cc_desktop c = p # ps" "completion_of p = []"
  shows "core_inv D ts g X H Y (c\<lparr>cc_desktop := ps\<rparr>)"
proof -
  let ?c = "c\<lparr>cc_desktop := ps\<rparr>"
  have s: "outstanding ?c = outstanding c" using p by (simp add: outstanding_def)
  show ?thesis
  proof (rule queue_change_inv [OF inv])
    show "queue_ok ?c" by (rule queue_ok_same [OF core_invD(4) [OF inv]]) auto
    show "place_ok X H ?c r q" if "cc_requests c r = Some q" for r q
      using place_okD [OF inv that] unfolding place_ok_def by simp
  qed (use lists_okD [OF inv] busy_active [OF inv] s in \<open>simp_all add: acquiring_def\<close>)
qed

text \<open>The check of the shutdown finds nothing queued when it finds no posts.\<close>

lemma check_shutdown_idle: "0 < cc_posts c \<Longrightarrow> xcc_context_check_shutdown e c = c"
  by (simp add: xcc_context_check_shutdown_def)

lemma check_shutdown_queue: "cc_queue (xcc_context_check_shutdown e c) = cc_queue c" "cc_posts (xcc_context_check_shutdown e c) = cc_posts c"
  by (simp_all add: xcc_context_check_shutdown_def desktop_post_def)

lemma check_shutdown_inv:
  assumes inv: "core_inv D ts g {} H Y c" and eq: "posts_eq c"
  shows "core_inv D ts g {} H Y (xcc_context_check_shutdown e c)"
proof (cases "xcc_context_check_shutdown e c = c")
  case False
  let ?c = "desktop_post Desk_shutdown (c\<lparr>cc_shutdown_posted := True, cc_registered := []\<rparr>)"
  from False have c: "xcc_context_check_shutdown e c = ?c" and a: "cc_active c = []" "cc_posts c = 0"
    unfolding xcc_context_check_shutdown_def by metis+
  from a eq have q: "cc_queue c = []" by (simp add: posts_eq_def)
  have s: "starts ?c = starts c" "outstanding ?c = outstanding c" "delivered ?c = delivered c"
    by (simp_all add: desktop_post_def starts_def outstanding_def delivered_def completion_of_def)
  have f: "cc_requests ?c = cc_requests c" "cc_sessions ?c = cc_sessions c" "cc_callbacks ?c = cc_callbacks c"
    "cc_next_request ?c = cc_next_request c" "cc_next_session ?c = cc_next_session c" "cc_log ?c = cc_log c" "cc_active ?c = cc_active c"
    "cc_queue ?c = cc_queue c" "cc_stage ?c = cc_stage c"
    by (simp_all add: desktop_post_def)
  have "core_inv D ts g {} H Y ?c"
  proof (rule queue_change_inv [OF inv])
    show "queue_ok ?c" using core_invD(4) [OF inv] unfolding queue_ok_def f s a q by simp
    show "place_ok {} H ?c r z" if "cc_requests c r = Some z" for r z using place_okD [OF inv that] unfolding place_ok_def s f .
  qed (use lists_okD [OF inv] busy_active [OF inv] in \<open>simp_all add: acquiring_def s f a q\<close>)
  with c show ?thesis by simp
qed (use inv in simp)

lemma ack_inv:
  assumes inv: "core_inv D ts g {} H Y c" and r: "r \<in> set (delivered c)"
  shows "core_inv D ts g {} H Y (c\<lparr>cc_active := remove1 r (cc_active c)\<rparr>)"
proof (rule queue_change_inv [OF inv])
  let ?c = "c\<lparr>cc_active := remove1 r (cc_active c)\<rparr>"
  have d: "distinct (cc_active c)" by (rule lists_okD [OF inv])
  have "post_ok ?c = post_ok c" by (rule post_ok_cong) simp_all
  then show "queue_ok ?c" using core_invD(4) [OF inv] by (simp add: queue_ok_def)
  show "place_ok {} H ?c x z" if "cc_requests c x = Some z" for x z
    using place_okD [OF inv that] r d unfolding place_ok_def by auto
  show "x \<in> set (cc_active ?c) \<and> x \<notin> {}" if z: "cc_requests c x = Some z" "busy z" for x z
  proof -
    have "\<not> rq_answered z" using request_okD(2) [OF core_invD(2) [OF inv z(1)]] z(2) by (simp add: acquire_ok_def)
    then have "x \<noteq> r" using answered_iff [OF inv z(1)] r by auto
    with busy_active [OF inv z] d show ?thesis by simp
  qed
  show "cc_requests c x \<noteq> None" if "x \<in> set (starts ?c) \<union> set (cc_active ?c)" for x
    by (rule lists_okD(4) [OF inv]) (use that d in auto)
qed (use lists_okD [OF inv] in \<open>auto simp: acquiring_def\<close>)

section \<open>Completions\<close>

lemma capabilities_done_inv:
  fixes D :: "'w discovery_env"
  assumes inv: "core_inv D ts g {} {} {} c" and q: "cc_requests c r = Some q" "rq_kind q = XCC_RESULT_CAPABILITIES" "rq_workers q > 0"
  shows "core_inv D ts g {} {} {} (capabilities_done g r c)"
proof -
  let ?f = "\<lambda>q. q\<lparr>rq_workers := rq_workers q - 1, rq_mechanisms := Some (fst certificate_tokens_capabilities),
      rq_protected_path := snd certificate_tokens_capabilities, rq_has_display := cg_has_display g\<rparr>"
  note R = request_okD [OF core_invD(2) [OF inv q(1)]]
  have st: "r \<notin> set (starts c)" using R(1) q(3) by (auto simp: place_ok_def fresh_def)
  have idle: "\<not> busy q" using R(2) q(2) by (auto simp: acquire_ok_def)
  have "rq_candidate q = None" using R(2) q(2) by (cases "rq_candidate q") (auto simp: acquire_ok_def)
  moreover have "rq_operation q = None" using R(5) q(2) by (cases "rq_operation q") (auto simp: link_ok_def)
  ultimately have none: "rq_operation q = None" "rq_candidate q = None" by simp_all
  have k: "kept (?f q) = kept q" by (simp add: kept_def)
  have ok: "core_inv D ts g {} {r} {} (request_set r ?f c)"
  proof (rule update_inv [OF inv q(1)])
    have "place_ok {} {r} (request_set r ?f c) r (?f q)" using R(1) st by (simp add: place_ok_def)
    moreover have "acquire_ok g {} (request_set r ?f c) r (?f q)"
      using R(2) q(2) none unfolding acquire_ok_def by (cases "rq_pending_chosen q") (auto simp: busy_def offer_ok_def [abs_def])
    moreover note kept_ok(1) [OF k core_invD(2) [OF inv q(1)]] kept_ok(2-4) [OF k core_invD(2) [OF inv q(1)], where f = ?f]
    ultimately show "request_ok g {} {r} {} (request_set r ?f c) r (?f q)" by (simp add: request_ok_def)
  qed simp_all
  show ?thesis
  proof (cases "rq_answered q")
    case True
    have "core_inv D ts g {} {} {} (request_set r ?f c)"
      by (rule core_inv_hand_back [OF ok]) (use q True in auto)
    with True q show ?thesis by (simp add: capabilities_done_def xcc_request_complete_def)
  next
    case False
    then have "r \<notin> set (delivered c)" using answered_iff [OF inv q(1)] by simp
    with R(1) st False have act: "r \<in> set (cc_active c)" by (auto simp: place_ok_def)
    have "core_inv D ts g ({} - {r}) {} {} (xcc_request_complete g r XCC_OK (request_set r ?f c))"
      by (rule complete_inv [OF ok, where q = "?f q"]) (use q False act st idle none in \<open>auto simp: busy_def\<close>)
    then show ?thesis by (simp add: capabilities_done_def)
  qed
qed

lemma outstanding_stage: "cc_stage c = Desk_deciding r \<Longrightarrow>
    outstanding c = concat (map completion_of (cc_desktop c)) @ r # concat (map rollback_of (cc_queue c))"
  by (simp add: outstanding_def deciding_def)

lemma completion_inv:
  assumes inv: "core_inv D ts g {} H Y c" and p: "cc_desktop c = Desk_completion r # ps" and idle: "cc_stage c = Desk_idle"
  shows "core_inv D ts g {} H Y (completion r (c\<lparr>cc_desktop := ps\<rparr>))"
proof -
  define c1 where "c1 = c\<lparr>cc_desktop := ps, cc_stage := Desk_deciding r\<rparr>"
  have o: "outstanding c = r # concat (map completion_of ps) @ concat (map rollback_of (cc_queue c))"
    "outstanding c1 = concat (map completion_of ps) @ r # concat (map rollback_of (cc_queue c))"
    using p idle by (simp_all add: c1_def outstanding_def deciding_def completion_of_def)
  have f: "cc_requests c1 = cc_requests c" "cc_sessions c1 = cc_sessions c" "cc_callbacks c1 = cc_callbacks c"
    "cc_next_request c1 = cc_next_request c" "cc_next_session c1 = cc_next_session c" "cc_log c1 = cc_log c" "cc_active c1 = cc_active c"
    "cc_queue c1 = cc_queue c" "starts c1 = starts c" "delivered c1 = delivered c" "cc_shutdown_posted c1 = cc_shutdown_posted c"
    "cc_stage c1 = Desk_deciding r"
    by (simp_all add: c1_def starts_def delivered_def)
  have i1: "core_inv D ts g {} H Y c1"
  proof (rule queue_change_inv [OF inv])
    have "post_ok c1 = post_ok c" by (rule post_ok_cong) (simp_all add: f)
    then show "queue_ok c1" using core_invD(4) [OF inv] by (simp add: queue_ok_def f)
    show "place_ok {} H c1 x z" if "cc_requests c x = Some z" for x z using place_okD [OF inv that] unfolding place_ok_def f .
    show "distinct (outstanding c1)" using lists_okD(1) [OF inv] unfolding o by auto
  qed (use lists_okD [OF inv] busy_active [OF inv] in \<open>auto simp: acquiring_def f o\<close>)
  let ?f = "\<lambda>q. case rq_cancel_intent q of None \<Rightarrow> q | Some reason \<Rightarrow> q\<lparr>rq_error := cancel_code reason, rq_candidate_present := False,
      rq_signature_present := False, rq_mechanisms_present := False\<rparr>"
  have eq: "completion r (c\<lparr>cc_desktop := ps\<rparr>) = request_set r ?f c1"
    by (simp add: completion_def c1_def request_set_def)
  have r: "r \<in> set (outstanding c1)" by (simp add: o)
  with lists_okD(6) [OF i1, of r] obtain q where q: "cc_requests c1 r = Some q" by auto
  have ans: "rq_answered q" using answered_iff [OF i1 q] r by simp
  have nd: "r \<notin> set (delivered c1)" by (rule lists_okD(5) [OF i1 r])
  show ?thesis
  proof (cases "rq_cancel_intent q")
    case None
    have "request_set r ?f c1 = c1" using q None by (simp add: request_set_def fun_upd_idem)
    with i1 eq show ?thesis by simp
  next
    case (Some reason)
    let ?q = "q\<lparr>rq_error := cancel_code reason, rq_candidate_present := False, rq_signature_present := False, rq_mechanisms_present := False\<rparr>"
    have fq: "?f q = ?q" using Some by simp
    note R = request_okD [OF core_invD(2) [OF i1 q]]
    have ne: "cancel_code reason \<noteq> XCC_OK" by (cases reason) simp_all
    have "core_inv D ts g {} H Y (request_set r ?f c1)"
    proof (rule update_inv [OF i1 q])
      have "Post_rollback r \<notin> set (cc_queue c1)" using lists_okD(1) [OF i1] unfolding o f by (auto simp: rollback_of_def)
      then show "Post_rollback r \<in> set (cc_queue c1) \<Longrightarrow> rq_error (?f q) = rq_error q" by simp
      have "place_ok {} H (request_set r ?f c1) r ?q" using R(1) ans by (auto simp: place_ok_def fresh_def)
      moreover have "acquire_ok g {} (request_set r ?f c1) r ?q" using R(2) by (simp add: acquire_ok_def busy_def chosen_ok_def offer_ok_def [abs_def])
      moreover have "spec_ok ?q" using R(3) by (simp add: spec_ok_def)
      moreover have "result_ok (request_set r ?f c1) r ?q" using nd ne by (simp add: result_ok_def)
      moreover have "linked Y ?q = linked Y q" by (rule linked_cong) simp_all
      then have "link_ok Y (request_set r ?f c1) r ?q" using R(5) by (simp add: link_ok_def)
      moreover have "kind_ok (request_set r ?f c1) ?q" using R(6) by (simp add: kind_ok_def session_held_def)
      ultimately show "request_ok g {} H Y (request_set r ?f c1) r (?f q)" unfolding fq request_ok_def by blast
    qed (use fq in simp_all)
    with eq show ?thesis by simp
  qed
qed

lemma post_ok_mono:
  assumes "cc_requests c' = cc_requests c" "set (delivered c) \<subseteq> set (delivered c')" "post_ok c p"
  shows "post_ok c' p"
  using assms by (auto simp: post_ok_def split: core_post.splits)

lemma stage_requests:
  assumes inv: "core_inv D ts g X H Y c" and st: "cc_stage c = Desk_deciding r"
  obtains q where "cc_requests c r = Some q" "rq_answered q" "r \<notin> set (delivered c)" "r \<in> set (outstanding c)"
proof -
  have r: "r \<in> set (outstanding c)" using outstanding_stage [OF st] by simp
  with lists_okD(6) [OF inv, of r] obtain q where q: "cc_requests c r = Some q" by auto
  show thesis by (rule that [OF q _ lists_okD(5) [OF inv r] r]) (use answered_iff [OF inv q] r in simp)
qed

text \<open>A grant whose acquisition has failed meanwhile is to be taken back.\<close>

lemma deliver_rollback_inv:
  assumes inv: "core_inv D ts g {} {} Y c" and st: "cc_stage c = Desk_deciding r" and q: "cc_requests c r = Some q"
    and bad: "rq_candidate q \<noteq> None" "rq_error q \<noteq> XCC_OK"
  shows "core_inv D ts g {} {} Y ((xcc_context_post (Post_rollback r) c)\<lparr>cc_stage := Desk_idle\<rparr>)" "\<not> cc_shutdown_posted c"
proof -
  note out = outstanding_stage [OF st]
  obtain q' where "cc_requests c r = Some q'" "rq_answered q'" "r \<notin> set (delivered c)" by (rule stage_requests [OF inv st])
  with q have ans: "rq_answered q" "r \<notin> set (delivered c)" by simp_all
  have act: "r \<in> set (cc_active c)" using place_okD [OF inv q] ans bad by (auto simp: place_ok_def fresh_def)
  then show acc: "\<not> cc_shutdown_posted c" using core_invD(4) [OF inv] by (auto simp: queue_ok_def)
  define c' where "c' = (xcc_context_post (Post_rollback r) c)\<lparr>cc_stage := Desk_idle\<rparr>"
  have o: "outstanding c' = concat (map completion_of (cc_desktop c)) @ concat (map rollback_of (cc_queue c)) @ [r]"
    using acc by (simp add: c'_def outstanding_def deciding_def xcc_context_post_def cc_accepts_def rollback_of_def)
  have f: "cc_requests c' = cc_requests c" "cc_sessions c' = cc_sessions c" "cc_callbacks c' = cc_callbacks c"
    "cc_next_request c' = cc_next_request c" "cc_next_session c' = cc_next_session c" "cc_log c' = cc_log c" "cc_active c' = cc_active c"
    "cc_queue c' = cc_queue c @ [Post_rollback r]" "starts c' = starts c" "delivered c' = delivered c" "cc_shutdown_posted c' = cc_shutdown_posted c"
    "cc_stage c' = Desk_idle"
    using acc by (simp_all add: c'_def xcc_context_post_def cc_accepts_def starts_def delivered_def start_of_def)
  have "core_inv D ts g {} {} Y c'"
  proof (rule queue_change_inv [OF inv])
    have "post_ok c' = post_ok c" by (rule post_ok_cong) (simp_all add: f)
    moreover have "post_ok c (Post_rollback r)" using q bad by (simp add: post_ok_def)
    ultimately show "queue_ok c'" using core_invD(4) [OF inv] acc by (simp add: queue_ok_def f)
    show "place_ok {} {} c' x z" if "cc_requests c x = Some z" for x z using place_okD [OF inv that] unfolding place_ok_def f .
    show "distinct (outstanding c')" using lists_okD(1) [OF inv] unfolding o out by auto
  qed (use lists_okD [OF inv] busy_active [OF inv] in \<open>auto simp: acquiring_def f o out\<close>)
  then show "core_inv D ts g {} {} Y ((xcc_context_post (Post_rollback r) c)\<lparr>cc_stage := Desk_idle\<rparr>)" by (simp add: c'_def)
qed

text \<open>The call of \<open>done\<close>.\<close>

definition call_done :: "nat \<Rightarrow> xcc_request \<Rightarrow> core \<Rightarrow> core" where
  "call_done r q c = (core_note (Done r (rq_error q) (sent_candidate q) (sent_signature q)) c)\<lparr>cc_stage := Desk_called r\<rparr>"

lemma call_done_fields [simp]:
  "cc_requests (call_done r q c) = cc_requests c" "cc_sessions (call_done r q c) = cc_sessions c" "cc_callbacks (call_done r q c) = cc_callbacks c"
  "cc_next_request (call_done r q c) = cc_next_request c" "cc_next_session (call_done r q c) = cc_next_session c"
  "cc_active (call_done r q c) = cc_active c" "cc_queue (call_done r q c) = cc_queue c" "starts (call_done r q c) = starts c"
  "cc_desktop (call_done r q c) = cc_desktop c" "cc_shutdown_posted (call_done r q c) = cc_shutdown_posted c" "cc_posts (call_done r q c) = cc_posts c"
  "cc_log (call_done r q c) = Done r (rq_error q) (sent_candidate q) (sent_signature q) # cc_log c"
  "delivered (call_done r q c) = r # delivered c" "cc_stage (call_done r q c) = Desk_called r"
  "outstanding (call_done r q c) = concat (map completion_of (cc_desktop c)) @ concat (map rollback_of (cc_queue c))"
  "cc_stopping (call_done r q c) = cc_stopping c" "cc_registered (call_done r q c) = cc_registered c" "cc_generation (call_done r q c) = cc_generation c"
  by (simp_all add: call_done_def core_note_def starts_def delivered_def delivered_of_def outstanding_def deciding_def)

lemma call_done_queue_ok:
  assumes "queue_ok c"
  shows "queue_ok (call_done r q c)"
proof -
  have "post_ok (call_done r q c) p" if "post_ok c p" for p by (rule post_ok_mono [OF _ _ that]) auto
  with assms show ?thesis by (auto simp: queue_ok_def list_all_iff)
qed

lemma call_done_request:
  assumes inv: "core_inv D ts g {} {} Y c" and q: "cc_requests c r = Some q" "rq_answered q" "rq_candidate q \<noteq> None \<longrightarrow> rq_error q = XCC_OK"
    and ses: "\<And>sid s. cc_sessions c sid = Some s \<Longrightarrow> \<exists>t. cc_sessions c' sid = Some t \<and> ops_kept s t"
    and rest: "cc_callbacks c' = cc_callbacks c" "cc_active c' = cc_active c" "starts c' = starts c" "cc_log c' = cc_log c" "delivered c' = delivered c"
  shows "request_ok g {} {} Y (call_done r q c') r q"
proof -
  let ?c = "call_done r q c'"
  note R = request_okD [OF core_invD(2) [OF inv q(1)]]
  have "place_ok {} {} ?c r q" using R(1) q(2) by (auto simp: place_ok_def fresh_def rest)
  moreover have "acquire_ok g {} ?c r q" using R(2) unfolding acquire_ok_def by (auto simp: rest chosen_ok_def)
  moreover have "result_ok ?c r q" using R(4) q(3) unfolding result_ok_def by simp
  moreover have "link_ok Y ?c r q" unfolding link_ok_def
  proof (rule conjI; intro allI impI)
    show "rq_operation q = None \<Longrightarrow> rq_signature q = None" using R(5) by (simp add: link_ok_def)
    fix i
    assume "rq_operation q = Some i"
    with R(5) obtain sid os x where l: "rq_kind q = XCC_RESULT_SIGN" "rq_session q = Some sid" "cc_callbacks c sid i = Some r" "cc_sessions c sid = Some os"
      "linked Y q sid i os x" unfolding link_ok_def by blast
    from ses [OF l(4)] obtain t where "cc_sessions c' sid = Some t" "ops_kept os t" by blast
    with l linked_kept [OF l(5), of t Y] show "rq_kind q = XCC_RESULT_SIGN \<and> (\<exists>sid os x. rq_session q = Some sid \<and> cc_callbacks ?c sid i = Some r \<and>
      cc_sessions ?c sid = Some os \<and> linked Y q sid i os x)" by (auto simp: rest)
  qed
  moreover have "kind_ok ?c q" using R(6) ses unfolding kind_ok_def session_held_def by (auto simp: rest) (metis option.distinct(1) option.exhaust)
  ultimately show ?thesis using R(3) by (simp add: request_ok_def)
qed

lemma acquiring_answered: "cc_requests c r = Some q \<Longrightarrow> rq_answered q \<Longrightarrow> \<not> acquiring X c sid r"
  by (simp add: acquiring_def)

lemma deliver_session_inv:
  fixes D :: "'w discovery_env"
  assumes inv: "core_inv D ts g {} {} Y c" and st: "cc_stage c = Desk_deciding r" and q: "cc_requests c r = Some q" "rq_session q = Some sid"
    and good: "rq_candidate q \<noteq> None \<longrightarrow> rq_error q = XCC_OK" and os: "cc_sessions c sid = Some os"
    and os': "os' = (if rq_candidate q \<noteq> None then session_set (\<lambda>se. se\<lparr>se_grant_pending := False\<rparr>) os else os)"
  shows "core_inv D ts g {} {} Y (call_done r q (session_put sid os' c))" (is "core_inv D ts g {} {} Y ?c")
proof -
  obtain q' where "cc_requests c r = Some q'" "rq_answered q'" "r \<notin> set (delivered c)" "r \<in> set (outstanding c)"
    by (rule stage_requests [OF inv st])
  with q have ans: "rq_answered q" "r \<notin> set (delivered c)" "r \<in> set (outstanding c)" by simp_all
  note out = outstanding_stage [OF st]
  have d: "distinct (outstanding c @ delivered c)" using core_invD(1) [OF inv] by (simp add: lists_ok_def)
  have ops: "os_operations os' = os_operations os" "os_next os' = os_next os" by (simp_all add: os')
  have h: "holding ?c sid p = holding c sid p" "acquiring {} ?c sid p = acquiring {} c sid p" for p by (simp_all add: holding_def acquiring_def)
  show ?thesis
  proof (rule one_change_inv [OF inv q os])
    show "cc_requests ?c p = (if p = r then Some q else cc_requests c p)" for p using q by simp
    show "distinct (outstanding ?c @ delivered ?c)" using d unfolding out by auto
    have kept: "ops_kept os os'" by (simp add: os' ops_kept_def)
    then have sub: "\<And>z s. cc_sessions c z = Some s \<Longrightarrow> \<exists>t. cc_sessions (session_put sid os' c) z = Some t \<and> ops_kept s t"
      using os by auto
    show "ops_kept os os'" by (rule kept)
    show "request_ok g {} {} Y ?c r q" by (rule call_done_request [OF inv q(1) ans(1) good sub]) simp_all
    have "queue_ok (session_put sid os' c)" by (rule queue_ok_same [OF core_invD(4) [OF inv]]) auto
    then show "queue_ok ?c" by (rule call_done_queue_ok)
    have S: "session_ok D ts {} c sid os" by (rule core_invD(3) [OF inv os])
    have nh: "holding c sid r \<longleftrightarrow> rq_candidate q \<noteq> None" using q by (simp add: holding_def)
    from S show "session_ok D ts {} ?c sid os'"
    proof (cases rule: session_okE)
      case (granted p x cd)
      have px: "cc_requests ?c p = Some x" using granted(5) by simp
      show ?thesis
      proof (cases "rq_candidate q = None")
        case True
        then have "p \<noteq> r" using nh granted(4) by blast
        then show ?thesis using granted True d out h by (intro session_ok_grantedI [OF _ _ _ px granted(6)]) (auto simp: os' ops)
      next
        case False
        then have "p = r" using nh granted(4) [of r] by simp
        with granted(8) ans have pend: "se_grant_pending (os_session os)" by simp
        define e :: "'w op_env" where "e = undefined"
        have "op_step D ts os (e, Ev_delivered) os'" using step_delivered [OF pend, of D ts e] False by (simp add: os')
        then have "op_reachable D ts os'" by (rule reach_step [OF granted(1)])
        moreover have "granted_by x cd (os_session os')" using granted(7) by (simp add: os' granted_by_def)
        moreover have "r \<notin> set (outstanding ?c)" using d unfolding out by auto
        ultimately show ?thesis using granted False h \<open>p = r\<close>
          by (intro session_ok_grantedI [OF _ _ _ px granted(6)]) (auto simp: os' ops)
      qed
    next
      case ungranted
      then have "rq_candidate q = None" using nh by blast
      then show ?thesis using ungranted h by (intro session_ok_ungrantedI) (auto simp: os')
    qed
  qed (use d q ans ops out in \<open>auto simp: os'\<close>)
qed

lemma deliver_plain_inv:
  assumes inv: "core_inv D ts g {} {} Y c" and st: "cc_stage c = Desk_deciding r" and q: "cc_requests c r = Some q" "rq_session q = None"
  shows "core_inv D ts g {} {} Y (call_done r q c)" (is "core_inv D ts g {} {} Y ?c")
proof -
  obtain q' where "cc_requests c r = Some q'" "rq_answered q'" "r \<notin> set (delivered c)" "r \<in> set (outstanding c)"
    by (rule stage_requests [OF inv st])
  with q have ans: "rq_answered q" "r \<notin> set (delivered c)" "r \<in> set (outstanding c)" by simp_all
  note out = outstanding_stage [OF st]
  have L: "distinct (outstanding c @ delivered c)" using core_invD(1) [OF inv] by (simp add: lists_ok_def)
  note R = request_okD [OF core_invD(2) [OF inv q(1)]]
  from R(6) q(2) have kind: "rq_kind q = XCC_RESULT_CAPABILITIES" by (simp add: kind_ok_def)
  have none: "rq_candidate q = None" using R(2) kind by (cases "rq_candidate q") (auto simp: acquire_ok_def)
  have set: "set (outstanding ?c @ delivered ?c) = set (outstanding c @ delivered c)" unfolding out by auto
  have "lists_ok ?c"
  proof (rule lists_ok_change [OF core_invD(1) [OF inv]])
    show "distinct (outstanding ?c @ delivered ?c)" using L unfolding out by auto
    show "p \<in> set (outstanding ?c @ delivered ?c) \<longleftrightarrow> (\<exists>x. cc_requests ?c p = Some x \<and> rq_answered x)" for p
      using core_invD(1) [OF inv] unfolding set lists_ok_def by simp
  qed simp_all
  moreover have "request_ok g {} {} Y ?c p z" if z: "cc_requests c p = Some z" for p z
  proof (cases "p = r")
    case True
    have "request_ok g {} {} Y ?c r q" by (rule call_done_request [OF inv q(1) ans(1)]) (use none in auto)
    with True z q(1) show ?thesis by simp
  next
    case False
    show ?thesis by (rule request_ok_other [OF core_invD(2) [OF inv z]]) (use False in auto)
  qed
  moreover have "session_ok D ts {} ?c sid os" if os: "cc_sessions c sid = Some os" for sid os
  proof -
    have h: "holding ?c sid p = holding c sid p" "acquiring {} ?c sid p = acquiring {} c sid p" for p by (simp_all add: holding_def acquiring_def)
    from core_invD(3) [OF inv os] show ?thesis
    proof (cases rule: session_okE)
      case (granted p x cd)
      have px: "cc_requests ?c p = Some x" using granted(5) by simp
      have "p \<noteq> r" using granted(5,6) q(1) none by auto
      then show ?thesis using granted h out by (intro session_ok_grantedI [OF _ _ _ px granted(6)]) auto
    next
      case ungranted
      then show ?thesis using h by (intro session_ok_ungrantedI) auto
    qed
  qed
  ultimately show ?thesis using call_done_queue_ok [OF core_invD(4) [OF inv]] by (intro core_invI) auto
qed

lemma completion_deliver_inv:
  fixes D :: "'w discovery_env"
  assumes inv: "core_inv D ts g {} {} Y c" and st: "cc_stage c = Desk_deciding r"
  shows "core_inv D ts g {} {} Y (completion_deliver r c)"
proof -
  obtain q where q: "cc_requests c r = Some q" "rq_answered q" by (rule stage_requests [OF inv st])
  note R = request_okD [OF core_invD(2) [OF inv q(1)]]
  have acq: "(rq_kind q = XCC_RESULT_ACQUIRE \<and> rq_candidate q \<noteq> None) = (rq_candidate q \<noteq> None)" using R(2) by (auto simp: acquire_ok_def)
  have eq: "completion_deliver r c =
      (if rq_candidate q \<noteq> None \<and> rq_error q \<noteq> XCC_OK then (xcc_context_post (Post_rollback r) c)\<lparr>cc_stage := Desk_idle\<rparr>
       else call_done r q (case rq_session q of None \<Rightarrow> c
         | Some sid \<Rightarrow> (case cc_sessions c sid of None \<Rightarrow> c | Some os \<Rightarrow>
             if rq_candidate q \<noteq> None then session_put sid (session_set (\<lambda>se. se\<lparr>se_grant_pending := False\<rparr>) os) c else c)))"
    unfolding completion_deliver_def q(1) option.case acq Let_def call_done_def sent_candidate_def sent_signature_def ..
  show ?thesis
  proof (cases "rq_candidate q \<noteq> None \<and> rq_error q \<noteq> XCC_OK")
    case True
    with deliver_rollback_inv(1) [OF inv st q(1)] show ?thesis unfolding eq by simp
  next
    case False
    then have good: "rq_candidate q \<noteq> None \<longrightarrow> rq_error q = XCC_OK" by blast
    show ?thesis
    proof (cases "rq_session q")
      case None
      with False have "completion_deliver r c = call_done r q c" unfolding eq by auto
      with deliver_plain_inv [OF inv st q(1) None] show ?thesis by simp
    next
      case (Some sid)
      with R(6) obtain os where os: "cc_sessions c sid = Some os" by (auto simp: kind_ok_def)
      let ?os = "if rq_candidate q \<noteq> None then session_set (\<lambda>se. se\<lparr>se_grant_pending := False\<rparr>) os else os"
      have "session_put sid os c = c" using os by (simp add: session_put_def fun_upd_idem)
      with False Some os have "completion_deliver r c = call_done r q (session_put sid ?os c)" unfolding eq by auto
      with deliver_session_inv [OF inv st q(1) Some good os refl] show ?thesis by simp
    qed
  qed
qed

lemma completion_return_inv:
  assumes inv: "core_inv D ts g X H Y c" and st: "cc_stage c = Desk_called r"
  shows "core_inv D ts g X H Y (completion_return r c)"
proof -
  have r: "r \<in> set (delivered c)" using core_invD(4) [OF inv] st by (simp add: queue_ok_def)
  have idle: "core_inv D ts g X H Y (c\<lparr>cc_stage := Desk_idle\<rparr>)" if inv: "core_inv D ts g X H Y c" and st: "cc_stage c = Desk_called r" for c
  proof -
    let ?c = "c\<lparr>cc_stage := Desk_idle\<rparr>"
    have o: "outstanding ?c = outstanding c" using st by (simp add: outstanding_def deciding_def)
    have f: "cc_active ?c = cc_active c" "starts ?c = starts c" "delivered ?c = delivered c" by simp_all
    show ?thesis
    proof (rule queue_change_inv [OF inv])
      have "post_ok ?c = post_ok c" by (rule post_ok_cong) simp_all
      then show "queue_ok ?c" using core_invD(4) [OF inv] by (simp add: queue_ok_def)
      show "place_ok X H ?c x z" if "cc_requests c x = Some z" for x z using place_okD [OF inv that] unfolding place_ok_def f .
    qed (use lists_okD [OF inv] busy_active [OF inv] o in \<open>simp_all add: acquiring_def\<close>)
  qed
  have "core_inv D ts g X H Y (xcc_context_post (Post_ack r) c)"
    by (rule post_plain_inv [OF inv]) (use r in \<open>simp_all add: start_of_def rollback_of_def post_ok_def\<close>)
  from idle [OF this] idle [OF inv st] st inv show ?thesis by (simp add: completion_return_def split: option.split)
qed

text \<open>A grant that is taken back on the coordinator, before the completion is delivered.\<close>

lemma rollback_inv:
  fixes D :: "'w discovery_env"
  assumes inv: "core_inv D ts g {} {} Y c" and p: "cc_queue c = Post_rollback r # ps"
  shows "core_inv D ts g {} {} Y (rollback_acquisition r (c\<lparr>cc_queue := ps\<rparr>))"
    "\<exists>q sid os. cc_requests c r = Some q \<and> rq_session q = Some sid \<and> cc_sessions c sid = Some os \<and> se_grant_pending (os_session os)"
proof -
  have rout: "r \<in> set (outstanding c)" using p by (auto simp: outstanding_def rollback_of_def)
  have out: "outstanding c = concat (map completion_of (cc_desktop c)) @ deciding (cc_stage c) @ r # concat (map rollback_of ps)"
    using p by (simp add: outstanding_def rollback_of_def)
  from popped_queue_ok(2) [OF core_invD(4) [OF inv] p] obtain q where q: "cc_requests c r = Some q" "rq_candidate q \<noteq> None" "rq_error q \<noteq> XCC_OK"
    by (auto simp: post_ok_def)
  note R = request_okD [OF core_invD(2) [OF inv q(1)]]
  have ans: "rq_answered q" "rq_kind q = XCC_RESULT_ACQUIRE" using answered_iff [OF inv q(1)] rout R(2) q(2) by (auto simp: acquire_ok_def)
  have nd: "r \<notin> set (delivered c)" by (rule lists_okD(5) [OF inv rout])
  from R(6) ans(2) obtain sid os where s: "rq_session q = Some sid" "cc_sessions c sid = Some os" unfolding kind_ok_def by fastforce
  let ?os = "session_set rollback_session os" and ?q = "q\<lparr>rq_candidate := None\<rparr>"
  define c' where "c' = rollback_acquisition r (c\<lparr>cc_queue := ps\<rparr>)"
  have c': "c' = desktop_post (Desk_completion r) (request_set r (\<lambda>q. q\<lparr>rq_candidate := None\<rparr>) (session_put sid ?os (c\<lparr>cc_queue := ps\<rparr>)))"
    using q s by (simp add: c'_def rollback_acquisition_def xcc_acquire_rollback_def)
  have hold: "holding c sid r" using q s by (auto simp: holding_def)
  from core_invD(3) [OF inv s(2)] hold have S: "op_reachable D ts os" "\<And>i. cc_callbacks c sid i \<noteq> None \<longleftrightarrow> i < os_next os"
    "\<And>p. holding c sid p \<longleftrightarrow> p = r" "se_grant_pending (os_session os) \<longleftrightarrow> r \<in> set (outstanding c)" "\<And>p. \<not> acquiring {} c sid p"
    by (metis session_okE)+
  with rout have pend: "se_grant_pending (os_session os)" by simp
  with q s show "\<exists>q sid os. cc_requests c r = Some q \<and> rq_session q = Some sid \<and> cc_sessions c sid = Some os \<and> se_grant_pending (os_session os)" by blast
  define e :: "'w op_env" where "e = undefined"
  have reach: "op_reachable D ts ?os" by (rule reach_step [OF S(1) step_rollback [OF pend, of D ts e]])
  have st: "starts c = concat (map start_of ps)" using p by (simp add: starts_def start_of_def)
  have o: "outstanding c' = concat (map completion_of (cc_desktop c)) @ r # deciding (cc_stage c) @ concat (map rollback_of ps)"
    by (simp add: c' outstanding_def completion_of_def)
  have f: "cc_sessions c' z = (if z = sid then Some ?os else cc_sessions c z)" "starts c' = starts c" "cc_active c' = cc_active c"
    "cc_callbacks c' = cc_callbacks c" "cc_next_request c' = cc_next_request c" "cc_next_session c' = cc_next_session c"
    "cc_log c' = cc_log c" "delivered c' = delivered c" "cc_requests c' p = (if p = r then Some ?q else cc_requests c p)"
    "cc_stage c' = cc_stage c" "cc_queue c' = ps" "cc_shutdown_posted c' = cc_shutdown_posted c" for z p
    using q s by (simp_all add: c' st)
  have d: "distinct (outstanding c @ delivered c)" using core_invD(1) [OF inv] by (simp add: lists_ok_def)
  have "core_inv D ts g {} {} Y c'"
  proof (rule one_change_inv [OF inv q(1) s f(9)])
    show "distinct (outstanding c' @ delivered c')" using d unfolding o out f by auto
    have "place_ok {} {} c' r ?q" using R(1) ans by (auto simp: place_ok_def fresh_def f)
    moreover have "acquire_ok g {} c' r ?q" using R(2) unfolding acquire_ok_def f by (simp add: busy_def offer_ok_def [abs_def])
    moreover have "spec_ok ?q" using R(3) by (simp add: spec_ok_def)
    moreover have "result_ok c' r ?q" using R(4) q(3) nd unfolding result_ok_def f by simp
    moreover have "link_ok Y c' r ?q" using R(5) ans(2) by (cases "rq_operation q") (auto simp: link_ok_def)
    moreover have "kind_ok c' ?q" using R(6) s by (simp add: kind_ok_def session_held_def f)
    ultimately show "request_ok g {} {} Y c' r ?q" by (simp add: request_ok_def)
    show "ops_kept os ?os" by (rule ops_kept_idle [OF no_operations [OF S(1)]]) (use pend in simp_all)
    have nr: "Post_rollback r \<notin> set ps" using d unfolding out by (auto simp: rollback_of_def)
    have q1: "queue_ok (c\<lparr>cc_queue := ps\<rparr>)" by (rule popped_queue_ok [OF core_invD(4) [OF inv] p])
    show "queue_ok c'" by (rule queue_ok_same [OF q1]) (use q nr in \<open>auto simp: f\<close>)
    have nh: "\<not> holding c' sid p" for p using S(3) [of p] by (auto simp: holding_def f)
    have na: "\<not> acquiring {} c' sid p" for p using S(5) [of p] ans by (auto simp: acquiring_def f)
    show "session_ok D ts {} c' sid ?os" by (rule session_ok_ungrantedI [OF reach]) (use S(2) nh na in \<open>simp_all add: rollback_session_def f\<close>)
  qed (use ans s nd q d in \<open>auto simp: f(1-8) o out\<close>)
  then show "core_inv D ts g {} {} Y (rollback_acquisition r (c\<lparr>cc_queue := ps\<rparr>))" by (simp add: c'_def)
qed

end
