(* ===== verification/CoreReachable.thy ===== *)
theory CoreReachable
  imports CoreReach
begin

text \<open>
  New requests and sessions, the shutdown, and with them every step: each reachable state of the core has
  the invariant (\<open>core_reachable_inv\<close>).
\<close>

section \<open>New requests\<close>

definition made :: "xcc_request \<Rightarrow> bool" where
  "made q \<longleftrightarrow> fresh q \<and> \<not> rq_detached q \<and> spec_ok q \<and> \<not> rq_candidate_present q \<and> \<not> rq_signature_present q \<and> \<not> rq_mechanisms_present q"

lemma new_request_fields: "fresh (xcc_request_new s k)" "made (xcc_request_new s k) \<longleftrightarrow> k \<noteq> XCC_RESULT_ACQUIRE"
  by (auto simp: xcc_request_new_def fresh_def made_def spec_ok_def)

lemma acquire_request_made: "made (acquire_request spec (xcc_request_new (Some sid) XCC_RESULT_ACQUIRE))"
proof (cases spec)
  case (Some a)
  let ?l = "case as_lifetime_seconds a of Some l \<Rightarrow> min l 3600 | None \<Rightarrow> 300"
  have l: "unat ?l \<le> 3600"
  proof (cases "as_lifetime_seconds a")
    case (Some l)
    have "min l 3600 \<le> (3600 :: guint)" by simp
    then have "unat (min l 3600) \<le> unat (3600 :: guint)" unfolding word_le_nat_alt .
    with Some show ?thesis by simp
  qed simp
  have v: "?l \<noteq> 0" if "acquire_validation a ?l = XCC_OK" using that by (auto simp: acquire_validation_def split: if_splits)
  from l v Some show ?thesis by (simp add: made_def fresh_def spec_ok_def acquire_request_def xcc_request_new_def Let_def)
qed (simp add: acquire_request_def made_def fresh_def spec_ok_def xcc_request_new_def)

lemma sign_request_made: "made (sign_request spec valid (xcc_request_new (Some sid) XCC_RESULT_SIGN))"
  by (simp add: sign_request_def made_def fresh_def spec_ok_def xcc_request_new_def split: option.split)

lemma requests_kind [simp]:
  "rq_kind (acquire_request spec q) = rq_kind q" "rq_session (acquire_request spec q) = rq_session q"
  "rq_kind (sign_request sspec valid q) = rq_kind q" "rq_session (sign_request sspec valid q) = rq_session q"
  "rq_kind (xcc_request_new s k) = k" "rq_session (xcc_request_new s k) = s"
  by (simp_all add: acquire_request_def sign_request_def xcc_request_new_def Let_def split: option.split)

text \<open>A request that appears, queued or answered at once.\<close>

lemma new_request_inv:
  assumes inv: "core_inv D ts g {} {} Y c" and r: "r = cc_next_request c"
    and f: "\<And>p. cc_requests c' p = (if p = r then Some q else cc_requests c p)" "cc_sessions c' = cc_sessions c" "cc_callbacks c' = cc_callbacks c"
      "cc_next_request c' = cc_next_request c + 1" "cc_next_session c' = cc_next_session c" "cc_log c' = cc_log c" "cc_active c' = cc_active c"
    and starts: "distinct (starts c')" "\<And>p. p \<noteq> r \<Longrightarrow> p \<in> set (starts c') \<longleftrightarrow> p \<in> set (starts c)"
    and out: "distinct (outstanding c')" "set (outstanding c') = (if rq_answered q then insert r (set (outstanding c)) else set (outstanding c))"
    and q: "rq_operation q = None" "rq_candidate q = None" "kind_ok c q" "rq_signature q = None"
    and ok: "place_ok {} {} c' r q" "acquire_ok g {} c' r q" "spec_ok q" "result_ok c' r q" and queue: "queue_ok c'"
  shows "core_inv D ts g {} {} Y c'"
proof -
  note L = core_invD(1) [OF inv, unfolded lists_ok_def]
  have none: "cc_requests c r = None" using L r by blast
  have new: "r \<notin> set (outstanding c)" "r \<notin> set (delivered c)" "r \<notin> set (cc_active c)" "\<And>sid i. cc_callbacks c sid i \<noteq> Some r"
    using L none by (metis Un_iff set_append option.distinct(1))+
  have d: "delivered c' = delivered c" by (simp add: delivered_def f)
  have "lists_ok c'" unfolding lists_ok_def
  proof (intro conjI)
    show "distinct (outstanding c' @ delivered c')" using L new out unfolding d by (auto split: if_splits)
    show "\<forall>p. p \<in> set (outstanding c' @ delivered c') \<longleftrightarrow> (\<exists>q. cc_requests c' p = Some q \<and> rq_answered q)"
    proof
      fix p
      have "p \<in> set (outstanding c @ delivered c) \<longleftrightarrow> (\<exists>q. cc_requests c p = Some q \<and> rq_answered q)" using L by blast
      then show "p \<in> set (outstanding c' @ delivered c') \<longleftrightarrow> (\<exists>q. cc_requests c' p = Some q \<and> rq_answered q)"
        using new by (cases "p = r") (auto simp: d out(2) f(1))
    qed
    show "\<forall>p. p \<in> set (starts c') \<union> set (cc_active c') \<longrightarrow> cc_requests c' p \<noteq> None" using L starts(2) by (auto simp: f(1,7))
    show "\<forall>p. cc_requests c' p \<noteq> None \<longleftrightarrow> p < cc_next_request c'" using L r by (auto simp: f(1,4))
    show "\<forall>sid i p. cc_callbacks c' sid i = Some p \<longrightarrow> (\<exists>q. cc_requests c' p = Some q \<and> rq_session q = Some sid \<and> rq_operation q = Some i)"
    proof (intro allI impI)
      fix sid i p
      assume p: "cc_callbacks c' sid i = Some p"
      then have "p \<noteq> r" using new(4) by (auto simp: f)
      moreover have "\<exists>q. cc_requests c p = Some q \<and> rq_session q = Some sid \<and> rq_operation q = Some i" using L p by (simp add: f)
      ultimately show "\<exists>q. cc_requests c' p = Some q \<and> rq_session q = Some sid \<and> rq_operation q = Some i" by (simp add: f(1))
    qed
  qed (use L starts in \<open>simp_all add: f\<close>)
  moreover have "request_ok g {} {} Y c' p z" if z: "cc_requests c' p = Some z" for p z
  proof (cases "p = r")
    case True
    have "kind_ok c' q" using q(3) unfolding kind_ok_def session_held_def f .
    moreover have "link_ok Y c' r q" using q(1,4) by (simp add: link_ok_def)
    ultimately show ?thesis using True z ok by (simp add: f(1) request_ok_def)
  next
    case False
    with z have pz: "cc_requests c p = Some z" by (simp add: f)
    show ?thesis by (rule request_ok_other [OF core_invD(2) [OF inv pz]]) (use False starts in \<open>simp_all add: f d\<close>)
  qed
  moreover have "session_ok D ts {} c' sid os" if "cc_sessions c' sid = Some os" for sid os
  proof -
    from that have os: "cc_sessions c sid = Some os" by (simp add: f)
    have h: "holding c' sid p = holding c sid p" "acquiring {} c' sid p = acquiring {} c sid p" for p
      using q(2) none new(3) by (auto simp: holding_def acquiring_def f)
    from core_invD(3) [OF inv os] show ?thesis
    proof (cases rule: session_okE)
      case (granted p x cd)
      have "p \<noteq> r" using granted(5) none by auto
      then have px: "cc_requests c' p = Some x" "p \<in> set (outstanding c') \<longleftrightarrow> p \<in> set (outstanding c)" using granted(5) out by (auto simp: f)
      show ?thesis by (rule session_ok_grantedI [OF granted(1,3) _ px(1) granted(6,7)]) (use granted h px in \<open>auto simp: f\<close>)
    next
      case ungranted
      then show ?thesis using h by (intro session_ok_ungrantedI) (simp_all add: f)
    qed
  qed
  ultimately show ?thesis using queue by (intro core_invI)
qed

lemma request_add_inv:
  assumes inv: "core_inv D ts g {} {} Y c" and made: "made q" and kind: "kind_ok c q"
    and start: "\<And>r. start_of (start r) = [r]" "\<And>r c'. cc_requests c' r = Some q \<Longrightarrow> post_ok c' (start r)"
  shows "core_inv D ts g {} {} Y (request_add g q start c)"
proof -
  define r where "r = cc_next_request c"
  note L = core_invD(1) [OF inv, unfolded lists_ok_def]
  have none: "cc_requests c r = None" using L r_def by blast
  have new: "r \<notin> set (outstanding c)" "r \<notin> set (delivered c)" "r \<notin> set (cc_active c)" "r \<notin> set (starts c)"
    using L none by (metis Un_iff set_append option.distinct(1))+
  define c0 where "c0 = c\<lparr>cc_requests := (cc_requests c)(r \<mapsto> q), cc_next_request := r + 1\<rparr>"
  have l0: "starts c0 = starts c" "outstanding c0 = outstanding c" "delivered c0 = delivered c" "cc_queue c0 = cc_queue c" "cc_log c0 = cc_log c"
    "cc_active c0 = cc_active c" "cc_stage c0 = cc_stage c" "cc_shutdown_posted c0 = cc_shutdown_posted c" "cc_desktop c0 = cc_desktop c"
    by (simp_all add: c0_def starts_def outstanding_def delivered_def)
  have fr: "fresh q" "\<not> rq_detached q" "spec_ok q" "\<not> rq_candidate_present q" "\<not> rq_signature_present q" "\<not> rq_mechanisms_present q"
    using made by (simp_all add: made_def)
  note fq = fr(1) [unfolded fresh_def]
  have rb: "rollback_of (start r) = []" using start(1) [of r] by (cases "start r") (simp_all add: rollback_of_def start_of_def)
  have post0: "post_ok c0 p" if "p \<in> set (cc_queue c)" for p
  proof -
    from core_invD(4) [OF inv] that have "post_ok c p" by (simp add: queue_ok_def list_all_iff)
    then show ?thesis using none unfolding post_ok_def l0(3) by (auto simp: c0_def split: core_post.splits)
  qed
  show ?thesis
  proof (cases "cc_shutdown_posted c")
    case False
    let ?c = "xcc_context_post (start r) c0"
    have c: "request_add g q start c = ?c" using False
      by (simp add: request_add_def xcc_request_schedule_def c0_def r_def cc_accepts_def Let_def)
    have lc: "starts ?c = starts c @ [r]" "outstanding ?c = outstanding c" "cc_queue ?c = cc_queue c @ [start r]"
      using False start(1) rb l0 by (simp_all add: xcc_context_post_def cc_accepts_def starts_def outstanding_def)
    have "core_inv D ts g {} {} Y ?c"
    proof (rule new_request_inv [OF inv r_def])
      show "cc_requests ?c p = (if p = r then Some q else cc_requests c p)" for p by (simp add: c0_def)
      show "place_ok {} {} ?c r q" using fr new by (simp add: place_ok_def lc l0)
      show "acquire_ok g {} ?c r q" using fq by (simp add: acquire_ok_def busy_def)
      show "result_ok ?c r q" using fr fq new by (simp add: result_ok_def l0)
      have "post_ok ?c (start r)" by (rule start(2)) (simp add: c0_def)
      moreover have "post_ok ?c = post_ok c0" by (rule post_ok_cong) simp_all
      ultimately show "queue_ok ?c" using post0 core_invD(4) [OF inv] False by (simp add: queue_ok_def lc l0 list_all_iff)
      show "cc_next_request ?c = cc_next_request c + 1" by (simp add: c0_def r_def)
    qed (use fr fq new kind lists_okD [OF inv] lc in \<open>auto simp: c0_def\<close>)
    with c show ?thesis by simp
  next
    case True
    let ?q = "completed g XCC_ERROR_BACKEND_GONE (q\<lparr>rq_detached := True\<rparr>)"
    define c1 where "c1 = desktop_post (Desk_completion r) (request_set r (\<lambda>_. ?q) c0)"
    have c: "request_add g q start c = c1" using True fq
      by (simp add: request_add_def xcc_request_schedule_def c0_def r_def cc_accepts_def Let_def xcc_request_complete_def c1_def request_set_def)
    have bad: "rq_error ?q \<noteq> XCC_OK" by (simp add: completed_error)
    have "outstanding c1 = concat (map completion_of (cc_desktop c)) @ r # deciding (cc_stage c) @ concat (map rollback_of (cc_queue c))"
      by (simp add: c1_def outstanding_def completion_of_def l0)
    then have oc: "set (outstanding c1) = insert r (set (outstanding c))" "distinct (outstanding c1)"
      using lists_okD(1) [OF inv] new(1) by (auto simp: outstanding_def)
    have empty: "cc_queue c = []" "cc_active c = []" using core_invD(4) [OF inv] True by (simp_all add: queue_ok_def)
    have lc: "starts c1 = starts c" "delivered c1 = delivered c" "cc_queue c1 = cc_queue c" "cc_log c1 = cc_log c" "cc_active c1 = cc_active c"
      "cc_stage c1 = cc_stage c" by (simp_all add: c1_def l0)
    have "core_inv D ts g {} {} Y c1"
    proof (rule new_request_inv [OF inv r_def])
      show "cc_requests c1 p = (if p = r then Some ?q else cc_requests c p)" for p by (simp add: c1_def c0_def)
      show "place_ok {} {} c1 r ?q" using fq new by (simp add: place_ok_def lc)
      show "acquire_ok g {} c1 r ?q" using fq by (simp add: acquire_ok_def busy_def)
      show "result_ok c1 r ?q" using bad new by (simp add: result_ok_def lc)
      show "spec_ok ?q" using fr(3) by (simp add: spec_ok_def)
      show "kind_ok c ?q" using kind by (simp add: kind_ok_def)
      show "queue_ok c1" using core_invD(4) [OF inv] empty by (simp add: queue_ok_def lc)
      show "cc_next_request c1 = cc_next_request c + 1" by (simp add: c1_def c0_def r_def)
    qed (use fq new lists_okD [OF inv] oc lc in \<open>auto simp: c1_def c0_def\<close>)
    with c show ?thesis by simp
  qed
qed

section \<open>Sessions\<close>

lemma session_of_reachable:
  fixes D :: "'w discovery_env"
  shows "op_reachable D ts (session_of a)" "\<not> se_granted (os_session (session_of a))" "\<not> se_grant_pending (os_session (session_of a))"
    "os_next (session_of a) = 0" "os_operations (session_of a) = (\<lambda>_. None)"
proof -
  define e :: "'w op_env" where "e = undefined"
  have "op_reachable D ts op_start" by (rule reach_init) simp
  moreover have "op_step D ts op_start (e, Ev_identity (sp_owner_generation a) (sp_app_id a) (level_of (sp_identity_level a)) (sp_identity_present a))
      (session_of a)" unfolding session_of_def by (rule step_identity)
  ultimately show "op_reachable D ts (session_of a)" by (rule reach_step)
qed (simp_all add: session_of_def op_start_def xcc_session_init_def)

lemma new_session_inv:
  assumes inv: "core_inv D ts g X H Y c" and sid: "sid = cc_next_session c"
  shows "core_inv D ts g X H Y (session_put sid (session_of a) (c\<lparr>cc_next_session := sid + 1\<rparr>))" (is "core_inv D ts g X H Y ?c")
proof (rule core_invI)
  note L = core_invD(1) [OF inv, unfolded lists_ok_def]
  have none: "cc_sessions c sid = None" using L sid by blast
  have cb: "cc_callbacks c sid i = None" for i using L none by blast
  have noreq: "rq_session q \<noteq> Some sid" if "cc_requests c r = Some q" for r q
    using request_okD(6) [OF core_invD(2) [OF inv that]] none by (auto simp: kind_ok_def)
  have f: "cc_requests ?c = cc_requests c" "cc_callbacks ?c = cc_callbacks c" "cc_next_request ?c = cc_next_request c" "cc_log ?c = cc_log c"
    "cc_active ?c = cc_active c" "starts ?c = starts c" "outstanding ?c = outstanding c" "delivered ?c = delivered c" "cc_next_session ?c = sid + 1"
    "cc_sessions ?c z = (if z = sid then Some (session_of a) else cc_sessions c z)" for z
    by simp_all
  have "\<forall>z. cc_sessions ?c z \<noteq> None \<longleftrightarrow> z < cc_next_session ?c" using L by (auto simp: sid less_Suc_eq)
  then show "lists_ok ?c" using L unfolding lists_ok_def by auto
  show "queue_ok ?c" by (rule queue_ok_same [OF core_invD(4) [OF inv]]) auto
  show "request_ok g X H Y ?c r q" if "cc_requests ?c r = Some q" for r q
  proof -
    from that have q: "cc_requests c r = Some q" by simp
    show ?thesis by (rule request_ok_other [OF core_invD(2) [OF inv q]]) (use noreq [OF q] in auto)
  qed
  have h: "holding ?c z p = holding c z p" "acquiring X ?c z p = acquiring X c z p" for z p by (simp_all add: holding_def acquiring_def)
  have nh: "\<not> holding ?c sid p" "\<not> acquiring X ?c sid p" for p using noreq by (auto simp: holding_def acquiring_def)
  show "session_ok D ts X ?c z os" if z: "cc_sessions ?c z = Some os" for z os
  proof (cases "z = sid")
    case True
    with z have os: "os = session_of a" by simp
    show ?thesis unfolding True os by (rule session_ok_ungrantedI [OF session_of_reachable(1-3)]) (use nh cb in \<open>auto simp: session_of_reachable f(2)\<close>)
  next
    case False
    with z have "cc_sessions c z = Some os" by simp
    from core_invD(3) [OF inv this] show ?thesis unfolding session_ok_def h f .
  qed
qed

lemma xcc_session_new_inv:
  fixes D :: "'w discovery_env"
  assumes inv: "core_inv D ts g X H Y c"
  shows "core_inv D ts g X H Y (xcc_session_new spec c)"
proof -
  have "core_inv D ts g X H Y ((xcc_context_post (Post_register sid) (session_put sid (session_of a) c))\<lparr>cc_next_session := sid + 1, cc_waiting := True\<rparr>)"
    if "sid = cc_next_session c" for sid a
  proof -
    have post: "core_inv D ts g X H Y (xcc_context_post (Post_register sid) (session_put sid (session_of a) (c\<lparr>cc_next_session := sid + 1\<rparr>)))"
      by (rule post_plain_inv [OF new_session_inv [OF inv that]]) (simp_all add: start_of_def rollback_of_def post_ok_def)
    have "(xcc_context_post (Post_register sid) (session_put sid (session_of a) (c\<lparr>cc_next_session := sid + 1\<rparr>)))\<lparr>cc_waiting := True\<rparr> =
        (xcc_context_post (Post_register sid) (session_put sid (session_of a) c))\<lparr>cc_next_session := sid + 1, cc_waiting := True\<rparr>"
      by (simp add: xcc_context_post_def cc_accepts_def session_put_def)
    with core_inv_mild [OF post mild_plain(5) [where b = True]] show ?thesis by simp
  qed
  moreover have "core_inv D ts g X H Y (core_note (Session_refused err) c)" for err by (rule core_inv_note [OF inv]) (simp add: delivered_of_def)
  ultimately show ?thesis by (simp add: xcc_session_new_def Let_def split: option.split)
qed

lemma session_new_register_inv:
  fixes D :: "'w discovery_env"
  assumes inv: "core_inv D ts g X H {} c"
  shows "core_inv D ts g X H {} (session_new_register sid c)"
proof -
  have "core_inv D ts g X H {} ((core_note (Session_made sid v) c)\<lparr>cc_waiting := False\<rparr>)" for v
    by (rule core_inv_mild [OF core_inv_note [OF inv] mild_plain(5)]) (simp add: delivered_of_def)
  from this core_inv_mild [OF this mild_plain(2)] inv show ?thesis by (simp add: session_new_register_def Let_def split: option.split)
qed

lemma principal_checked_inv:
  fixes D :: "'w discovery_env"
  assumes inv: "core_inv D ts g X H {} c"
  shows "core_inv D ts g X H {} (principal_checked sid pr c)"
proof -
  obtain c1 err where p: "principal_check sid pr c = (c1, err)" by fastforce
  have "core_inv D ts g X H {} ((core_note (Principal_checked sid err) c1)\<lparr>cc_waiting := False\<rparr>)"
    by (rule core_inv_mild [OF core_inv_note [OF core_inv_mild [OF inv principal_check_mild [OF p]]] mild_plain(5)]) (simp add: delivered_of_def)
  then show ?thesis by (simp add: principal_checked_def p)
qed

section \<open>What leaves the queue alone\<close>

lemma same_queue_fold: "(\<And>x c. same_queue c (f x c)) \<Longrightarrow> same_queue c (fold f xs c)"
proof (induction xs arbitrary: c)
  case (Cons x xs)
  from same_queue_trans [OF Cons.prems Cons.IH [OF Cons.prems]] show ?case by simp
qed simp

lemma same_queue_fields [simp]:
  "same_queue c (c\<lparr>cc_registered := l\<rparr>)" "same_queue c (c\<lparr>cc_generation := n\<rparr>)" "same_queue c (c\<lparr>cc_stopping := b\<rparr>)"
  "same_queue c (c\<lparr>cc_waiting := b\<rparr>)" "same_queue c (c\<lparr>cc_watch_stopped := b\<rparr>)" "same_queue c (c\<lparr>cc_active := l\<rparr>)"
  "same_queue c (c\<lparr>cc_desktop := ds\<rparr>)" "same_queue c (c\<lparr>cc_stage := st\<rparr>)"
  by (simp_all add: same_queue_def)

lemma same_queue_intro:
  "same_queue c d \<Longrightarrow> same_queue c (request_set r f d)" "same_queue c d \<Longrightarrow> same_queue c (session_put sid os d)"
  "same_queue c d \<Longrightarrow> same_queue c (desktop_post p d)" "same_queue c d \<Longrightarrow> same_queue c (core_note x d)"
  "same_queue c d \<Longrightarrow> same_queue c (start_enumeration r d)" "same_queue c d \<Longrightarrow> same_queue c (xcc_request_complete g r err d)"
  "same_queue c d \<Longrightarrow> same_queue c (d\<lparr>cc_registered := l\<rparr>)" "same_queue c d \<Longrightarrow> same_queue c (d\<lparr>cc_waiting := b\<rparr>)"
  "same_queue c d \<Longrightarrow> same_queue c (d\<lparr>cc_stage := st\<rparr>)"
  by (erule same_queue_trans, simp)+

lemma same_queue_cancel: "same_queue c d \<Longrightarrow> same_queue c (cancel_cancellable r d)"
  by (simp add: cancel_cancellable_def Let_def same_queue_intro split: option.split)

lemma same_queue_session_closed: "same_queue c (session_closed sid c)"
proof -
  have "same_queue c (fold (close_request sid) rs c)" for rs
    by (rule same_queue_fold) (simp add: close_request_def split: option.split)
  then show ?thesis by (simp add: session_closed_def Let_def same_queue_intro)
qed

lemma same_queue_close: "same_queue c (xcc_session_close_internal e sid c)"
  by (auto simp: xcc_session_close_internal_def split: option.split intro: same_queue_trans [OF _ same_queue_session_closed])

lemma same_queue_report: "same_queue c (report g sid x c)"
proof -
  have "same_queue c (fold (invalidate_request sid reason) rs c)" for reason rs
    by (rule same_queue_fold) (simp add: invalidate_request_def split: option.split)
  then have "same_queue c (session_invalidated sid reason c)" for reason
    unfolding session_invalidated_def by (blast intro: same_queue_trans [OF _ same_queue_session_closed] same_queue_intro)
  then show ?thesis by (simp add: report_def on_operation_done_def same_queue_intro split: op_effect.split option.split sum.split)
qed

lemma same_queue_session_goes: "same_queue c (session_goes g sid os c)"
  by (auto simp: session_goes_def split: option.split intro: same_queue_trans [OF _ same_queue_fold] same_queue_report)

lemma same_queue_invalidate: "same_queue c (xcc_session_invalidate_internal g e reason sid c)"
  by (simp add: xcc_session_invalidate_internal_def same_queue_session_goes split: option.split)

lemma same_queue_token_event: "same_queue c (token_event g e ev c)"
proof -
  have "same_queue c (acquire_token_event token added r c)" for token added r c
    by (auto simp: acquire_token_event_def Let_def intro: same_queue_intro same_queue_cancel split: option.split)
  then have a: "same_queue c (xcc_acquire_token_event token added c)" for token added
    unfolding xcc_acquire_token_event_def by (rule same_queue_fold)
  have "same_queue d (remove_token g e token sid d)" for token sid d
    by (simp add: remove_token_def same_queue_invalidate split: option.split)
  then have "same_queue d (fold (remove_token g e token) sids d)" for token sids d by (rule same_queue_fold)
  from a same_queue_trans [OF a this] show ?thesis by (simp add: token_event_def Let_def)
qed

lemma same_queue_dispatch: "same_queue c d \<Longrightarrow> same_queue c (deliver_token_events g e events d)"
  unfolding deliver_token_events_def by (rule same_queue_trans [OF _ same_queue_fold [OF same_queue_token_event]])

lemma same_queue_finish: "same_queue c d \<Longrightarrow> same_queue c (finish_acquire g e r candidate d)"
  by (simp add: finish_acquire_def same_queue_intro split: option.split)

lemma same_queue_chooser_done: "same_queue c d \<Longrightarrow> same_queue c (on_chooser_done g e events r chosen err d)"
  unfolding on_chooser_done_def Let_def by (auto split: option.split intro!: same_queue_intro same_queue_finish same_queue_dispatch)

lemma same_queue_completed: "same_queue c d \<Longrightarrow> same_queue c (enumerated_completed g e r candidates q d)"
  by (simp add: enumerated_completed_def same_queue_intro same_queue_chooser_done split: option.split)

lemma same_queue_enumerated: "same_queue c (on_enumerated g e r candidates cancelled c)"
proof -
  define c2 where "c2 = request_set r (\<lambda>q. q\<lparr>rq_enumerating := False, rq_workers := rq_workers q - 1\<rparr>)
      (deliver_token_events g e (ce_events e) c)"
  have c2: "same_queue c c2" unfolding c2_def by (rule same_queue_intro(1) [OF same_queue_dispatch]) simp
  show ?thesis unfolding on_enumerated_def Let_def c2_def [symmetric]
    using c2 by (simp add: same_queue_intro same_queue_completed same_queue_cancel split: option.split)
qed

lemma same_queue_starts: "same_queue c (xcc_acquire_start g r c)" "same_queue c (capabilities_start g r c)"
  using validate_same_queue [of r c] by (auto simp: xcc_acquire_start_def capabilities_start_def intro!: same_queue_intro split: prod.split option.split)

lemma same_queue_requests: "same_queue c (cancel_request reason r c)" "same_queue c (override_request reason r c)"
  by (auto simp: cancel_request_def override_request_def Let_def split: option.split intro!: same_queue_cancel same_queue_intro)

lemma same_queue_generation: "same_queue c (generation e n c)"
proof -
  have "same_queue d (fold orphan_request rs d)" for rs d
    by (rule same_queue_fold) (simp add: orphan_request_def same_queue_requests split: option.split)
  moreover have "same_queue d (fold (orphan_session e) sids d)" for sids d
    by (rule same_queue_fold) (simp add: orphan_session_def same_queue_close split: option.split)
  ultimately show ?thesis unfolding generation_def Let_def by (blast intro: same_queue_trans same_queue_fields)
qed

section \<open>Posted functions\<close>

lemma shutdown_start_inv:
  fixes D :: "'w discovery_env" and e :: "'w core_env"
  assumes inv: "core_inv D ts g {} {} {} c" and posts: "0 < cc_posts c"
  shows "core_inv D ts g {} {} {} (shutdown_start g e c)" "same_queue c (shutdown_start g e c)"
proof -
  define c2 where "c2 = fold (override_request XCC_CANCEL_BACKEND_GONE) (cc_active (c\<lparr>cc_stopping := True\<rparr>)) (c\<lparr>cc_stopping := True\<rparr>)"
  define c3 where "c3 = fold (xcc_session_invalidate_internal g e ''backend_gone'') (cc_registered c2) c2"
  have i: "core_inv D ts g {} {} {} (c\<lparr>cc_stopping := True\<rparr>)" by (rule core_inv_mild [OF inv mild_plain(4)])
  have "mild D ts (c\<lparr>cc_stopping := True\<rparr>) c2" unfolding c2_def by (rule mild_fold [OF i mild_override_request])
  from core_inv_mild [OF i this] have i2: "core_inv D ts g {} {} {} c2" .
  have "mild D ts c2 c3" unfolding c3_def by (rule mild_fold_any [OF mild_invalidate_internal])
  from core_inv_mild [OF i2 this] have i3: "core_inv D ts g {} {} {} c3" .
  have "same_queue (c\<lparr>cc_stopping := True\<rparr>) c2" unfolding c2_def by (rule same_queue_fold) (rule same_queue_requests)
  moreover have "same_queue c2 c3" unfolding c3_def by (rule same_queue_fold) (rule same_queue_invalidate)
  ultimately have sq: "same_queue c c3" by (simp add: same_queue_def)
  have eq: "shutdown_start g e c = c3" using posts sq
    by (simp add: shutdown_start_def Let_def c2_def [symmetric, simplified] c3_def [symmetric] check_shutdown_idle same_queue_def)
  show "core_inv D ts g {} {} {} (shutdown_start g e c)" "same_queue c (shutdown_start g e c)" using i3 sq by (simp_all add: eq)
qed

lemma posted_function_inv:
  fixes D :: "'w discovery_env" and e :: "'w core_env"
  assumes inv: "core_inv D ts g {} {} {} c" and eq: "posts_eq c" and p: "cc_queue c = p # ps"
  shows "core_inv D ts g {} {} {} (posted_function g e p (c\<lparr>cc_queue := ps\<rparr>)) \<and>
    same_queue (c\<lparr>cc_queue := ps\<rparr>) (posted_function g e p (c\<lparr>cc_queue := ps\<rparr>))"
proof -
  have posts: "0 < cc_posts (c\<lparr>cc_queue := ps\<rparr>)" using eq p by (simp add: posts_eq_def)
  have plain: "core_inv D ts g {} {} {} (c\<lparr>cc_queue := ps\<rparr>)" if "start_of p = []" "rollback_of p = []"
    by (rule pop_plain_inv [OF inv p that])
  show ?thesis
  proof (cases p)
    case (Post_acquire r)
    from xcc_acquire_start_inv [OF inv p [unfolded Post_acquire]] same_queue_starts(1) [of "c\<lparr>cc_queue := ps\<rparr>" g r] Post_acquire
    show ?thesis by (simp add: posted_function_def)
  next
    case (Post_sign r)
    from xcc_sign_start_inv [OF inv p [unfolded Post_sign], of e] Post_sign show ?thesis by (simp add: posted_function_def)
  next
    case (Post_capabilities r)
    from capabilities_start_inv [OF inv p [unfolded Post_capabilities]] same_queue_starts(2) [of "c\<lparr>cc_queue := ps\<rparr>" g r] Post_capabilities
    show ?thesis by (simp add: posted_function_def)
  next
    case (Post_cancel r reason)
    then have i: "core_inv D ts g {} {} {} (c\<lparr>cc_queue := ps\<rparr>)" using plain by (simp add: start_of_def rollback_of_def)
    from core_inv_mild [OF i mild_cancel_request [OF i]] same_queue_requests(1) Post_cancel show ?thesis by (simp add: posted_function_def)
  next
    case (Post_generation n)
    then have i: "core_inv D ts g {} {} {} (c\<lparr>cc_queue := ps\<rparr>)" using plain by (simp add: start_of_def rollback_of_def)
    from core_inv_mild [OF i mild_generation [OF i]] same_queue_generation Post_generation show ?thesis by (simp add: posted_function_def)
  next
    case Post_shutdown
    then have i: "core_inv D ts g {} {} {} (c\<lparr>cc_queue := ps\<rparr>)" using plain by (simp add: start_of_def rollback_of_def)
    from shutdown_start_inv [OF i posts, of e] Post_shutdown show ?thesis by (simp add: posted_function_def)
  next
    case (Post_ack r)
    then have i: "core_inv D ts g {} {} {} (c\<lparr>cc_queue := ps\<rparr>)" using plain by (simp add: start_of_def rollback_of_def)
    from popped_queue_ok(2) [OF core_invD(4) [OF inv] p] Post_ack have r: "r \<in> set (delivered (c\<lparr>cc_queue := ps\<rparr>))" by (simp add: post_ok_def)
    from ack_inv [OF i r] posts Post_ack show ?thesis by (simp add: posted_function_def completion_ack_def check_shutdown_idle)
  next
    case (Post_rollback r)
    have "same_queue (c\<lparr>cc_queue := ps\<rparr>) (rollback_acquisition r (c\<lparr>cc_queue := ps\<rparr>))"
      by (simp add: rollback_acquisition_def xcc_acquire_rollback_def Let_def same_queue_intro split: option.split)
    with rollback_inv(1) [OF inv p [unfolded Post_rollback]] Post_rollback show ?thesis by (simp add: posted_function_def)
  next
    case (Post_session_call sid reason)
    then have i: "core_inv D ts g {} {} {} (c\<lparr>cc_queue := ps\<rparr>)" using plain by (simp add: start_of_def rollback_of_def)
    from core_inv_mild [OF i mild_close_internal] core_inv_mild [OF i mild_invalidate_internal] Post_session_call show ?thesis
      by (simp add: posted_function_def session_call_def same_queue_close same_queue_invalidate split: option.split)
  next
    case (Post_register sid)
    then have i: "core_inv D ts g {} {} {} (c\<lparr>cc_queue := ps\<rparr>)" using plain by (simp add: start_of_def rollback_of_def)
    from session_new_register_inv [OF i] Post_register show ?thesis
      by (simp add: posted_function_def session_new_register_def Let_def same_queue_intro split: option.split)
  next
    case (Post_principal sid pr)
    then have i: "core_inv D ts g {} {} {} (c\<lparr>cc_queue := ps\<rparr>)" using plain by (simp add: start_of_def rollback_of_def)
    obtain c1 err where v: "principal_check sid pr (c\<lparr>cc_queue := ps\<rparr>) = (c1, err)" by fastforce
    from principal_checked_inv [OF i, of sid pr] same_queue_mild [OF principal_check_mild [OF v, where D = D and ts = ts]] v Post_principal
    show ?thesis by (simp add: posted_function_def principal_checked_def same_queue_intro)
  qed
qed

lemma coordinator_post_inv:
  fixes D :: "'w discovery_env" and e :: "'w core_env"
  assumes inv: "core_inv D ts g {} {} {} c" and eq: "posts_eq c" and p: "cc_queue c = p # ps"
  shows "core_inv D ts g {} {} {} (coordinator_post g e p (c\<lparr>cc_queue := ps\<rparr>)) \<and> posts_eq (coordinator_post g e p (c\<lparr>cc_queue := ps\<rparr>))"
proof -
  define c1 where "c1 = posted_function g e p (c\<lparr>cc_queue := ps\<rparr>)"
  have i: "core_inv D ts g {} {} {} c1" and s: "same_queue (c\<lparr>cc_queue := ps\<rparr>) c1"
    using posted_function_inv [OF assms, of e] by (simp_all add: c1_def)
  have q: "posts_eq (c1\<lparr>cc_posts := cc_posts c1 - 1\<rparr>)" using s eq p by (simp add: posts_eq_def same_queue_def)
  from check_shutdown_inv [OF posts_inv [OF i] q, of e] q show ?thesis
    by (simp add: coordinator_post_def c1_def [symmetric] Let_def posts_eq_def check_shutdown_queue)
qed

section \<open>Every step\<close>

lemma chooser_answer_inv:
  fixes D :: "'w discovery_env" and e :: "'w core_env"
  assumes inv: "core_inv D ts g {} {} {} c" and q: "cc_requests c r = Some q" "rq_chooser q = Some rows"
    and chosen: "\<And>x. chosen = Some x \<Longrightarrow> x \<in> set rows \<and> err = XCC_OK"
  shows "core_inv D ts g {} {} {} (on_chooser_done g e events r chosen err (case chosen of None \<Rightarrow> c | Some x \<Rightarrow> core_note (Consented r x) c))"
proof -
  define c1 where "c1 = (case chosen of None \<Rightarrow> c | Some x \<Rightarrow> core_note (Consented r x) c)"
  have A: "acquire_ok g {} c r q" by (rule request_okD(2) [OF core_invD(2) [OF inv q(1)]])
  have i: "core_inv D ts g {} {} {} c1" using inv core_inv_note [OF inv, of "Consented r x" for x] by (simp add: c1_def delivered_of_def split: option.split)
  have u: "under_way {} c1 r q" using A q by (auto simp: c1_def under_way_def acquire_ok_def busy_def split: option.split)
  have rows: "list_all (offer_ok q) rows" "\<not> rq_chooser_completed q" using A q by (auto simp: acquire_ok_def)
  have "core_inv D ts g {} {} {} (on_chooser_done g e events r chosen err c1)"
  proof (rule on_chooser_done_inv [OF i _ u])
    fix x
    assume x: "chosen = Some x"
    with chosen have "x \<in> set rows" "err = XCC_OK" by simp_all
    moreover have "Consented r x \<in> set (cc_log c1)" using x by (simp add: c1_def core_note_def)
    ultimately show "chosen_ok (cc_log c1) r q x" "err = XCC_OK \<and> Consented r x \<in> set (cc_log c1)"
      using rows by (auto simp: chosen_ok_def list_all_iff)
  qed simp
  then show ?thesis by (simp add: c1_def)
qed

lemma shutdown_async_inv:
  assumes inv: "core_inv D ts g X H Y c"
  shows "core_inv D ts g X H Y (xcc_context_shutdown_async c)"
  using inv post_plain_inv [OF core_inv_mild [OF inv mild_plain(7)], of Post_shutdown True]
  by (simp add: xcc_context_shutdown_async_def start_of_def rollback_of_def post_ok_def)

lemma request_cancel_inv:
  assumes inv: "core_inv D ts g X H Y c"
  shows "core_inv D ts g X H Y (xcc_request_cancel r reason c)"
proof -
  have "mild D ts c (request_set r (\<lambda>q. if rq_cancel_intent q = None then q\<lparr>rq_cancel_intent := Some reason\<rparr> else q) c)"
    by (rule mild_request_set) simp
  from post_plain_inv [OF core_inv_mild [OF inv this], of "Post_cancel r reason"] inv show ?thesis
    by (simp add: xcc_request_cancel_def start_of_def rollback_of_def post_ok_def)
qed

lemma posts_eq_request_add: "posts_eq c \<Longrightarrow> posts_eq (request_add g q start c)"
  by (simp add: request_add_def xcc_request_schedule_def posts_eq_def xcc_context_post_def Let_def)

lemma core_step_inv:
  fixes D :: "'w discovery_env"
  assumes inv: "core_inv D ts g {} {} {} c \<and> posts_eq c" and step: "core_step D ts g c l c'"
  shows "core_inv D ts g {} {} {} c' \<and> posts_eq c'"
proof -
  from inv have i: "core_inv D ts g {} {} {} c" and eq: "posts_eq c" by simp_all
  have plain: "core_inv D ts g {} {} {} (xcc_context_post p c)" if "start_of p = []" "rollback_of p = []" "post_ok c p" for p
    by (rule post_plain_inv [OF i that])
  from step show ?thesis
  proof (cases rule: core_step.cases)
    case (core_post p ps e)
    then show ?thesis using coordinator_post_inv [OF i eq] by simp
  next
    case (core_enumerated r q candidates e cancelled)
    then show ?thesis using on_enumerated_inv [OF i] posts_eq_same [OF same_queue_enumerated eq] by simp
  next
    case (core_chooser r q rows chosen err e)
    have "same_queue c (case chosen of None \<Rightarrow> c | Some x \<Rightarrow> core_note (Consented r x) c)" by (simp split: option.split)
    moreover have "x \<in> set rows \<and> err = XCC_OK" if "chosen = Some x" for x using core_chooser that by simp
    ultimately show ?thesis using core_chooser chooser_answer_inv [OF i] posts_eq_same [OF same_queue_chooser_done eq] by simp
  next
    case (core_token e token added)
    then show ?thesis using core_inv_mild [OF i mild_token_event [OF i]] posts_eq_same [OF same_queue_token_event eq] by simp
  next
    case (core_operation sid os e ev os')
    then show ?thesis using session_goes_inv(1) [OF i] posts_eq_same [OF same_queue_session_goes eq] by simp
  next
    case (core_capabilities r q e)
    have "same_queue c (capabilities_done g r c)" by (simp add: capabilities_done_def same_queue_intro)
    with core_capabilities show ?thesis using capabilities_done_inv [OF i] posts_eq_same [OF _ eq] by simp
  next
    case (core_watch_stopped e)
    have w: "core_inv D ts g {} {} {} (c\<lparr>cc_watch_stopped := True\<rparr>)" "posts_eq (c\<lparr>cc_watch_stopped := True\<rparr>)"
      using core_inv_mild [OF i mild_plain(6)] eq by (simp_all add: posts_eq_def)
    from core_watch_stopped check_shutdown_inv [OF w] w(2) show ?thesis by (simp add: stopped_watch_def posts_eq_def check_shutdown_queue)
  next
    case (core_shutdown_poll e)
    then show ?thesis using check_shutdown_inv [OF i eq] eq by (simp add: posts_eq_def check_shutdown_queue)
  next
    case (core_desktop p ps e)
    have "core_inv D ts g {} {} {} (desktop_next p (c\<lparr>cc_desktop := ps\<rparr>)) \<and> posts_eq (desktop_next p (c\<lparr>cc_desktop := ps\<rparr>))"
    proof (cases p)
      case (Desk_completion r)
      then show ?thesis using completion_inv [OF i] core_desktop eq by (simp add: desktop_next_def posts_eq_def completion_def)
    next
      case (Desk_invalidated sid reason)
      then have "core_inv D ts g {} {} {} (c\<lparr>cc_desktop := ps\<rparr>)" using pop_desktop_inv [OF i] core_desktop by (simp add: completion_of_def)
      from core_inv_note [OF this, of "Session_invalidated sid reason"] eq Desk_invalidated show ?thesis
        by (simp add: desktop_next_def posts_eq_def delivered_of_def)
    next
      case Desk_shutdown
      then have "core_inv D ts g {} {} {} (c\<lparr>cc_desktop := ps\<rparr>)" using pop_desktop_inv [OF i] core_desktop by (simp add: completion_of_def)
      from core_inv_note [OF this, of Shutdown_done] eq Desk_shutdown show ?thesis
        by (simp add: desktop_next_def posts_eq_def delivered_of_def)
    qed
    then show ?thesis using core_desktop by simp
  next
    case (core_deliver r e)
    have "posts_eq (completion_deliver r c)" using eq
      by (auto simp: completion_deliver_def Let_def posts_eq_def xcc_context_post_def split: option.split)
    with core_deliver completion_deliver_inv [OF i] show ?thesis by simp
  next
    case (core_return r e)
    have "posts_eq (completion_return r c)" using eq
      by (simp add: completion_return_def posts_eq_def xcc_context_post_def split: option.split)
    with core_return completion_return_inv [OF i] show ?thesis by simp
  next
    case (core_acquire sid os e spec)
    have "core_inv D ts g {} {} {} (request_add g (acquire_request spec (xcc_request_new (Some sid) XCC_RESULT_ACQUIRE)) Post_acquire c)"
      by (rule request_add_inv [OF i acquire_request_made]) (use core_acquire in \<open>auto simp: kind_ok_def start_of_def post_ok_def\<close>)
    with core_acquire posts_eq_request_add [OF eq] show ?thesis by (simp add: xcc_acquire_async_def)
  next
    case (core_sign sid os e spec valid)
    have "core_inv D ts g {} {} {} (request_add g (sign_request spec valid (xcc_request_new (Some sid) XCC_RESULT_SIGN)) Post_sign c)"
      by (rule request_add_inv [OF i sign_request_made]) (use core_sign in \<open>auto simp: kind_ok_def start_of_def post_ok_def\<close>)
    with core_sign posts_eq_request_add [OF eq] show ?thesis by (simp add: xcc_sign_async_parsed_def)
  next
    case (core_get_capabilities e)
    have "core_inv D ts g {} {} {} (request_add g (xcc_request_new None XCC_RESULT_CAPABILITIES) Post_capabilities c)"
      by (rule request_add_inv [OF i]) (simp_all add: new_request_fields kind_ok_def start_of_def post_ok_def)
    with core_get_capabilities posts_eq_request_add [OF eq] show ?thesis by (simp add: xcc_get_capabilities_async_def)
  next
    case (core_cancel r e reason)
    then show ?thesis using request_cancel_inv [OF i] eq by (simp add: xcc_request_cancel_def posts_eq_def xcc_context_post_def)
  next
    case (core_session_close sid e)
    then show ?thesis using i plain eq posts_eq_post by (simp add: session_close_async_def start_of_def rollback_of_def post_ok_def)
  next
    case (core_session_invalidate sid e reason)
    then show ?thesis using i plain eq posts_eq_post by (simp add: session_invalidate_async_def start_of_def rollback_of_def post_ok_def)
  next
    case (core_session_new e spec)
    have "posts_eq (xcc_session_new spec c)" using eq
      by (simp add: xcc_session_new_def Let_def posts_eq_def xcc_context_post_def split: option.split)
    with core_session_new xcc_session_new_inv [OF i] show ?thesis by simp
  next
    case (core_check_principal sid e pr)
    have "core_inv D ts g {} {} {} ((xcc_context_post (Post_principal sid pr) c)\<lparr>cc_waiting := True\<rparr>)"
      by (rule core_inv_mild [OF plain mild_plain(5)]) (simp_all add: start_of_def rollback_of_def post_ok_def)
    moreover have "posts_eq (xcc_session_check_principal sid pr c)" using eq
      by (simp add: xcc_session_check_principal_def posts_eq_def xcc_context_post_def)
    ultimately show ?thesis using core_check_principal core_inv_note [OF i] by (simp add: xcc_session_check_principal_def delivered_of_def)
  next
    case (core_set_generation e n)
    then show ?thesis using plain eq posts_eq_post by (simp add: start_of_def rollback_of_def post_ok_def)
  next
    case (core_shutdown e)
    then show ?thesis using shutdown_async_inv [OF i] eq by (simp add: xcc_context_shutdown_async_def posts_eq_def xcc_context_post_def)
  qed
qed

lemma core_start_inv: "core_inv D ts g {} {} {} core_start \<and> posts_eq core_start"
  by (simp add: core_inv_def lists_ok_def queue_ok_def core_start_def outstanding_def delivered_def starts_def deciding_def posts_eq_def)

interpretation core: step_invariant "\<lambda>c. c = core_start" "core_step D ts g" "\<lambda>c. core_inv D ts g {} {} {} c \<and> posts_eq c" for D ts g
  by unfold_locales (use core_start_inv core_step_inv in blast)+

lemma core_reachable_inv:
  assumes "core_reachable D ts g c"
  shows "core_inv D ts g {} {} {} c" "posts_eq c"
  using core.reach_inv [OF assms] by simp_all

end
