(* ===== verification/CoreSamples.thy ===== *)
theory CoreSamples
  imports CoreReachable
begin

text \<open>
  A run of the core on the token of \<open>DiscoveryProps\<close>: a session is made and registered, an acquisition
  offers the token's certificate, the user consents, the grant is delivered, a signature is asked for and
  delivered.  Two branches: the acquisition is cancelled while its result is under way, and the context
  is shut down.
\<close>

section \<open>The session's operations\<close>

definition run_session :: xcc_session where
  "run_session = xcc_session_init\<lparr>se_app_id := Some ''app'', se_identity_seen := True\<rparr>"

definition run_grant :: "bool \<Rightarrow> xcc_session" where
  "run_grant pending = run_session\<lparr>se_granted := True, se_grant_pending := pending, se_candidate := Some sample_candidate,
     se_may_sign := True, se_lifetime := 60, se_expires_at := 60, se_expiry_source := Some 90\<rparr>"

definition run_idle :: "xcc_session \<Rightarrow> op_state" where
  "run_idle se = op_start\<lparr>os_session := se\<rparr>"

definition run_at :: "certificate_device \<Rightarrow> op_task \<Rightarrow> nat option \<Rightarrow> op_effect list \<Rightarrow> op_state" where
  "run_at d task lock log = \<lparr>os_session = (run_grant False)\<lparr>se_device := d\<rparr>,
     os_operations = [0 \<mapsto> sample_operation\<lparr>op_caller_display := Some ''app'', op_task := task\<rparr>],
     os_next = 1, os_interaction = None, os_operation_lock = lock, os_releases = 0, os_log = log\<rparr>"

definition run_input :: operation_request where
  "run_input = sample_request\<lparr>or_caller_display := Some ''app''\<rparr>"

lemma run_grant_fields [simp]:
  "se_grant_pending (run_grant p) = p" "se_candidate (run_grant p) = Some sample_candidate" "se_granted (run_grant p)"
  "\<not> se_closed (run_grant p)" "se_may_sign (run_grant p)" "\<not> se_generic_purpose (run_grant p)"
  "se_purpose (run_grant p) = CERTIFICATE_PURPOSE_CLIENT_AUTH" "se_login_generation (run_grant p) = 0" "se_device (run_grant p) = device_start"
  "\<not> se_login_in_progress (run_grant p)" "\<not> se_login_in_progress ((run_grant p)\<lparr>se_device := d\<rparr>)"
  "\<not> xcc_session_is_expired 0 (run_grant p)" "\<not> xcc_session_is_expired 0 ((run_grant p)\<lparr>se_device := d\<rparr>)"
  by (simp_all add: run_grant_def run_session_def xcc_session_init_def xcc_session_is_expired_def)

lemma run_at_fields [simp]:
  "os_operations (run_at d t k l) = [0 \<mapsto> sample_operation\<lparr>op_caller_display := Some ''app'', op_task := t\<rparr>]"
  "os_operation_lock (run_at d t k l) = k" "os_log (run_at d t k l) = l" "se_candidate (os_session (run_at d t k l)) = Some sample_candidate"
  "\<not> se_closed (os_session (run_at d t k l))" "\<not> xcc_session_is_expired 0 (os_session (run_at d t k l))"
  "\<not> se_login_in_progress (os_session (run_at d t k l))" "se_device (os_session (run_at d t k l)) = d"
  "se_login_generation (os_session (run_at d t k l)) = 0" "os_next (run_at d t k l) = 1"
  by (simp_all add: run_at_def)

lemma run_operation_fields [simp]:
  "\<not> op_answered (sample_operation\<lparr>op_caller_display := n, op_task := t\<rparr>)"
  "\<not> op_is_cancelled (sample_operation\<lparr>op_caller_display := n, op_task := t\<rparr>)"
  by (simp_all add: sample_operation_def op_is_cancelled_def)

lemma run_at_update:
  "op_set 0 (\<lambda>x. x\<lparr>op_task := u\<rparr>) (run_at d t k l) = run_at d u k l"
  "device_set d' (run_at d t k l) = run_at d' t k l"
  "op_note y (run_at d t k l) = run_at d t k (y # l)"
  "(run_at d t k l)\<lparr>os_operation_lock := k'\<rparr> = run_at d t k' l"
  by (simp_all add: run_at_def op_set_def op_note_def)

lemma run_authorised: "operation_still_authorised 0 False (os_session (run_at d u k l)) = Inr ()"
  by (simp add: operation_still_authorised_def run_at_def)

lemma run_performing: "certificate_broker_perform sample_op_env run_input (run_idle (run_grant False)) = run_at device_start Task_open None []"
proof -
  have p: "certificate_mechanism_prepare sample_mechanism (replicate 32 7) = Inr (digest_info_sha256 @ replicate 32 7)"
    by (simp add: certificate_mechanism_prepare_def sample_mechanism_def)
  show ?thesis
    by (simp add: certificate_broker_perform_def run_idle_def run_input_def sample_request_def sample_v15 [folded sample_mechanism_def] p Let_def
        open_operation_def op_set_def run_at_def op_start_def sample_operation_def run_grant_def run_session_def xcc_session_init_def
        xcc_session_is_expired_def)
qed

abbreviation run_asked :: "op_effect list" where
  "run_asked \<equiv> [Context_prompt 0 (login_request True (sample_operation\<lparr>op_caller_display := Some ''app'', op_task := Task_sign_lock\<rparr>)
     (os_session (run_at sample_device Task_sign_lock None []))), sample_use]"

abbreviation run_signed :: "op_effect list" where
  "run_signed \<equiv> Finishing 0 sample_device # run_asked"

definition run_answered :: op_state where
  "run_answered = on_signed sample_op_env 0 (run_at sample_device (Task_signed (Inr (Some [1, 2]))) None run_signed)"

lemma run_opening:
  "open_check sample_op_env 0 (run_at device_start Task_open None []) = run_at device_start Task_open_lock None []"
  "open_thread sample_discovery sample_tokens sample_op_env 0 (run_at device_start Task_open_lock None []) =
     run_at sample_device (Task_opened (Inr False)) None []"
  "on_opened sample_op_env 0 (run_at sample_device (Task_opened (Inr False)) None []) = run_at sample_device Task_sign None []"
  "sign_check sample_op_env 0 (run_at sample_device Task_sign None []) = run_at sample_device Task_sign_lock None []"
proof -
  show "open_check sample_op_env 0 (run_at device_start Task_open None []) = run_at device_start Task_open_lock None []"
    by (simp add: open_check_def run_at_def op_set_def operation_still_authorised_def)
  show "open_thread sample_discovery sample_tokens sample_op_env 0 (run_at device_start Task_open_lock None []) =
     run_at sample_device (Task_opened (Inr False)) None []"
    by (simp add: open_thread_def run_authorised ensure_session_locked_def sample_opening run_at_update)
      (simp add: wants_login_def sample_device_def)
  show "on_opened sample_op_env 0 (run_at sample_device (Task_opened (Inr False)) None []) = run_at sample_device Task_sign None []"
    by (simp add: on_opened_def task_propagate_def run_at_update Let_def run_authorised run_operation_def)
  show "sign_check sample_op_env 0 (run_at sample_device Task_sign None []) = run_at sample_device Task_sign_lock None []"
    by (simp add: sign_check_def run_at_def op_set_def operation_still_authorised_def)
qed

lemma run_signing:
  "sign_thread sample_discovery sample_op_env 0 (run_at sample_device Task_sign_lock None []) =
     run_at sample_device (Task_context 9) (Some 0) run_asked"
  "on_context_pin_done 0 CERTIFICATE_PIN_OK (run_at sample_device (Task_context 9) (Some 0) log) =
     run_at sample_device (Task_context_done 9 CERTIFICATE_PIN_OK) (Some 0) log"
  "sign_thread_authenticated sample_discovery sample_op_env 0 (run_at sample_device (Task_context_done 9 CERTIFICATE_PIN_OK) (Some 0) log) =
     run_at sample_device (Task_signed (Inr (Some [1, 2]))) None (Finishing 0 sample_device # log)"
proof -
  have r: "certificate_device_refresh_login sample_discovery sample_device (0, True) = ((sample_device, (0, True)), Inr ())"
    by (simp add: certificate_device_refresh_login_def sample_device_def sample_fields sample_get_session device_note_login_def)
  have k: "certificate_pkcs11_get_bool sample_functions 3 9 5 ty v w = (w, True)" for ty v w
    by (simp add: certificate_pkcs11_get_bool_def sample_functions_def overwrite_def)
  have b: "perform_begin sample_discovery False sample_mechanism p sample_device (0, True) = ((0, True), None)" for p
    by (simp add: perform_begin_def sample_device_def sample_fields k device_init_def) (simp add: sample_functions_def)
  have w: "\<not> wants_login sample_candidate sample_device" "dv_module sample_device = Some 3" "dv_session sample_device = 9"
    by (simp_all add: wants_login_def sample_device_def)
  show "sign_thread sample_discovery sample_op_env 0 (run_at sample_device Task_sign_lock None []) =
     run_at sample_device (Task_context 9) (Some 0) run_asked"
    by (simp add: sign_thread_def run_authorised r b w Let_def run_at_update sample_use_def)
  show "on_context_pin_done 0 CERTIFICATE_PIN_OK (run_at sample_device (Task_context 9) (Some 0) log) =
     run_at sample_device (Task_context_done 9 CERTIFICATE_PIN_OK) (Some 0) log"
    by (simp add: on_context_pin_done_def run_at_def op_set_def)
  show "sign_thread_authenticated sample_discovery sample_op_env 0 (run_at sample_device (Task_context_done 9 CERTIFICATE_PIN_OK) (Some 0) log) =
     run_at sample_device (Task_signed (Inr (Some [1, 2]))) None (Finishing 0 sample_device # log)"
    by (simp add: sign_thread_authenticated_def authenticate_context_def run_authorised w perform_end_def sample_output Let_def
        signed_result_def op_finish_task_def) (simp add: run_at_def op_set_def op_note_def sample_operation_def)
qed

lemma run_answered_log: "os_log run_answered = Op_done 0 (Inr [1, 2]) # run_signed"
proof -
  have m: "bm_type sample_mechanism = CKM_RSA_PKCS" by (simp add: sample_mechanism_def)
  show ?thesis by (simp add: run_answered_def on_signed_def task_propagate_def Let_def run_at_update m operation_succeed_def)
qed

section \<open>The core\<close>

definition run_env :: "(nat \<times> bool) core_env" where
  "run_env = \<lparr>ce_op = sample_op_env, ce_events = [], ce_more_events = [], ce_real_time = 2000000, ce_desktop_name = (\<lambda>_. None), ce_ui_idle = True\<rparr>"

definition run_config :: core_config where
  "run_config = \<lparr>cg_has_display = True, cg_chooser_available = True\<rparr>"

definition run_principal :: principal where
  "run_principal = \<lparr>pr_owner_generation = 0, pr_app_id = Some ''app'', pr_identity_level = 0, pr_identity_present = True\<rparr>"

definition run_session_spec :: session_spec where
  "run_session_spec = \<lparr>sp_owner_generation = 0, sp_app_id = Some ''app'', sp_identity_level = 0, sp_identity_present = True\<rparr>"

definition run_acquire_spec :: acquire_spec where
  "run_acquire_spec = \<lparr>as_principal = run_principal, as_purpose = 0, as_generic_purpose = None, as_lifetime_seconds = Some 60, as_sign = None,
     as_interaction_forbidden = None, as_issuers = None, as_key_usage = None, as_eku_oids = None, as_key_algorithms = None,
     as_token_label = None, as_piv_slot = None\<rparr>"

definition run_sign_spec :: sign_spec where
  "run_sign_spec = \<lparr>ss_principal = run_principal, ss_parent_window = None, ss_mechanism = Some ''RSA_PKCS1_V1_5'', ss_data = Some (replicate 32 7),
     ss_hash = Some (Some ''sha-256''), ss_mgf = None, ss_salt_length = None, ss_encoding = None\<rparr>"

definition run_acquire :: xcc_request where
  "run_acquire = acquire_request (Some run_acquire_spec) (xcc_request_new (Some 0) XCC_RESULT_ACQUIRE)"

definition run_sign :: xcc_request where
  "run_sign = sign_request (Some run_sign_spec) True (xcc_request_new (Some 0) XCC_RESULT_SIGN)"

lemma run_acquire_fields [simp]:
  "rq_session run_acquire = Some 0" "rq_kind run_acquire = XCC_RESULT_ACQUIRE" "\<not> rq_cancelled run_acquire" "\<not> rq_answered run_acquire"
  "\<not> rq_detached run_acquire" "rq_cancel_intent run_acquire = None" "rq_cancelled_code run_acquire = XCC_OK" "rq_error run_acquire = XCC_OK"
  "\<not> rq_candidate_present run_acquire" "rq_candidate run_acquire = None" "rq_signature run_acquire = None" "\<not> rq_signature_present run_acquire"
  "rq_chooser run_acquire = None" "\<not> rq_enumerating run_acquire" "\<not> rq_enumerate_again run_acquire" "\<not> rq_chooser_completed run_acquire"
  "rq_pending_chosen run_acquire = None" "rq_validation_error run_acquire = XCC_OK" "rq_principal run_acquire = run_principal"
  "rq_workers run_acquire = 0" "rq_operation run_acquire = None" "rq_purpose run_acquire = CERTIFICATE_PURPOSE_CLIENT_AUTH"
  "rq_lifetime run_acquire = 60" "rq_may_sign run_acquire" "\<not> rq_interaction_forbidden run_acquire" "\<not> rq_generic_purpose run_acquire"
  by (simp_all add: run_acquire_def acquire_request_def xcc_request_new_def run_acquire_spec_def run_principal_def Let_def purpose_of_def
      acquire_validation_def min_def)

lemma run_sign_fields [simp]:
  "rq_session run_sign = Some 0" "rq_kind run_sign = XCC_RESULT_SIGN" "\<not> rq_cancelled run_sign" "\<not> rq_answered run_sign"
  "\<not> rq_detached run_sign" "rq_cancel_intent run_sign = None" "rq_cancelled_code run_sign = XCC_OK" "rq_error run_sign = XCC_OK"
  "\<not> rq_candidate_present run_sign" "rq_candidate run_sign = None" "rq_signature run_sign = None" "\<not> rq_signature_present run_sign"
  "rq_validation_error run_sign = XCC_OK" "rq_principal run_sign = run_principal" "rq_operation run_sign = None" "rq_app_id run_sign = Some ''app''"
  by (simp_all add: run_sign_def sign_request_def xcc_request_new_def run_sign_spec_def run_principal_def)

lemma run_filter: "certificate_filter_apply [sample_candidate] (rq_filter run_acquire) 2000000 = [sample_candidate]"
  by (simp add: certificate_filter_apply_def run_acquire_def acquire_request_def xcc_request_new_def run_acquire_spec_def run_principal_def
      Let_def purpose_of_def certificate_filter_matches_def certificate_purpose_matches_def issuer_matches_def key_algorithm_matches_def
      certificate_purpose_operations_def candidate_signs_def key_usage_allows_signing_def eku_unrestricted_def has_text_def
      certificate_candidate_is_expired_def certificate_candidate_is_not_yet_valid_def sample_candidate_def certificate_candidate_new_def)

definition run_core :: "op_state \<Rightarrow> (nat \<Rightarrow> xcc_request option) \<Rightarrow> nat \<Rightarrow> (nat \<Rightarrow> nat \<Rightarrow> nat option) \<Rightarrow> nat list \<Rightarrow> nat \<Rightarrow> core_post list
    \<Rightarrow> desktop_call list \<Rightarrow> desktop_stage \<Rightarrow> core_effect list \<Rightarrow> core" where
  "run_core os rs n cb active posts queue desktop stage log = core_start\<lparr>cc_sessions := [0 \<mapsto> os], cc_next_session := 1, cc_registered := [0],
     cc_requests := rs, cc_next_request := n, cc_active := active, cc_callbacks := cb, cc_posts := posts, cc_queue := queue,
     cc_desktop := desktop, cc_stage := stage, cc_log := log\<rparr>"

lemma run_core_fields [simp]:
  "cc_sessions (run_core os rs n cb a k q d st l) = [0 \<mapsto> os]" "cc_next_session (run_core os rs n cb a k q d st l) = 1"
  "cc_registered (run_core os rs n cb a k q d st l) = [0]" "cc_requests (run_core os rs n cb a k q d st l) = rs"
  "cc_next_request (run_core os rs n cb a k q d st l) = n" "cc_active (run_core os rs n cb a k q d st l) = a"
  "cc_callbacks (run_core os rs n cb a k q d st l) = cb" "cc_posts (run_core os rs n cb a k q d st l) = k"
  "cc_queue (run_core os rs n cb a k q d st l) = q" "cc_desktop (run_core os rs n cb a k q d st l) = d"
  "cc_stage (run_core os rs n cb a k q d st l) = st" "cc_log (run_core os rs n cb a k q d st l) = l"
  "\<not> cc_stopping (run_core os rs n cb a k q d st l)" "\<not> cc_waiting (run_core os rs n cb a k q d st l)"
  "cc_generation (run_core os rs n cb a k q d st l) = 0" "\<not> cc_shutdown_posted (run_core os rs n cb a k q d st l)"
  by (simp_all add: run_core_def core_start_def)

lemma run_core_updates [simp]:
  "(run_core os rs n cb a k q d st l)\<lparr>cc_sessions := [0 \<mapsto> os']\<rparr> = run_core os' rs n cb a k q d st l"
  "(run_core os rs n cb a k q d st l)\<lparr>cc_requests := rs'\<rparr> = run_core os rs' n cb a k q d st l"
  "(run_core os rs n cb a k q d st l)\<lparr>cc_active := a'\<rparr> = run_core os rs n cb a' k q d st l"
  "(run_core os rs n cb a k q d st l)\<lparr>cc_callbacks := cb'\<rparr> = run_core os rs n cb' a k q d st l"
  "(run_core os rs n cb a k q d st l)\<lparr>cc_queue := q'\<rparr> = run_core os rs n cb a k q' d st l"
  "(run_core os rs n cb a k q d st l)\<lparr>cc_desktop := d'\<rparr> = run_core os rs n cb a k q d' st l"
  "(run_core os rs n cb a k q d st l)\<lparr>cc_stage := st'\<rparr> = run_core os rs n cb a k q d st' l"
  "(run_core os rs n cb a k q d st l)\<lparr>cc_log := l'\<rparr> = run_core os rs n cb a k q d st l'"
  by (simp_all add: run_core_def)

lemma run_core_calls [simp]:
  "xcc_context_post p (run_core os rs n cb a k q d st l) = run_core os rs n cb a (k + 1) (q @ [p]) d st l"
  "session_put 0 os' (run_core os rs n cb a k q d st l) = run_core os' rs n cb a k q d st l"
  "request_set r f (run_core os rs n cb a k q d st l) = run_core os (rs(r := map_option f (rs r))) n cb a k q d st l"
  "core_note x (run_core os rs n cb a k q d st l) = run_core os rs n cb a k q d st (x # l)"
  "desktop_post call (run_core os rs n cb a k q d st l) = run_core os rs n cb a k q (d @ [call]) st l"
  by (simp_all add: xcc_context_post_def cc_accepts_def session_put_def request_set_def core_note_def desktop_post_def)
    (simp_all add: run_core_def core_start_def)

text \<open>A step of the coordinator.\<close>

lemma run_post:
  assumes "posted_function run_config run_env p (run_core os rs n cb a k q d st l) = run_core os' rs' n' cb' a' k' q' d' st' l'" "0 < k'"
  shows "core_step D ts run_config (run_core os rs n cb a k (p # q) d st l) (run_env, Cv_post) (run_core os' rs' n' cb' a' (k' - 1) q' d' st' l')"
proof -
  have "coordinator_post run_config run_env p ((run_core os rs n cb a k (p # q) d st l)\<lparr>cc_queue := q\<rparr>) = run_core os' rs' n' cb' a' (k' - 1) q' d' st' l'"
    using assms(1) by (simp add: coordinator_post_def run_core_def) (simp add: xcc_context_check_shutdown_def core_start_def)
  then show ?thesis using core_post [of "run_core os rs n cb a k (p # q) d st l" p q D ts run_config run_env] by simp
qed

abbreviation run_made :: "core_effect list" where
  "run_made \<equiv> [Session_made 0 True]"

definition run_offered :: xcc_request where
  "run_offered = run_acquire\<lparr>rq_chooser := Some [sample_candidate]\<rparr>"

definition run_granted :: xcc_request where
  "run_granted = run_acquire\<lparr>rq_chooser_completed := True, rq_pending_chosen := Some sample_candidate, rq_candidate := Some sample_candidate,
     rq_result_may_sign := True, rq_answered := True, rq_candidate_present := True\<rparr>"

abbreviation run_consented :: "core_effect list" where
  "run_consented \<equiv> [Consented 0 sample_candidate, Offered 0 [sample_candidate], Session_made 0 True]"

abbreviation run_nocalls :: "nat \<Rightarrow> nat \<Rightarrow> nat option" where
  "run_nocalls \<equiv> \<lambda>_ _. None"

abbreviation run_reach :: "core \<Rightarrow> bool" where
  "run_reach \<equiv> core_reachable sample_discovery sample_tokens run_config"

section \<open>The steps\<close>

abbreviation run_step :: "core \<Rightarrow> core_event \<Rightarrow> core \<Rightarrow> bool" where
  "run_step c ev c' \<equiv> core_step sample_discovery sample_tokens run_config c (run_env, ev) c'"

lemma run_desktop [simp]: "desktop_free (run_core os rs n cb a k q d Desk_idle l)" "session_held 0 (run_core os rs n cb a k q d st l) \<longleftrightarrow> Session_made 0 True \<in> set l"
  by (simp_all add: desktop_free_def session_held_def)

lemma run_env_fields [simp]:
  "ce_op run_env = sample_op_env" "ce_events run_env = []" "ce_more_events run_env = []" "ce_real_time run_env = 2000000"
  "ce_desktop_name run_env = (\<lambda>_. None)"
  by (simp_all add: run_env_def)

lemma run_idle_fields [simp]:
  "os_session (run_idle se) = se" "run_idle se\<lparr>os_session := se'\<rparr> = run_idle se'" "os_log (run_idle se) = []" "os_next (run_idle se) = 0"
  by (simp_all add: run_idle_def op_start_def)

lemma run_session_fields [simp]:
  "\<not> se_granted run_session" "\<not> se_closed run_session" "\<not> se_grant_pending run_session"
  by (simp_all add: run_session_def xcc_session_init_def)

lemma run_principal_fields [simp]: "pr_app_id run_principal = Some ''app''"
  by (simp add: run_principal_def)

lemma run_principal_check:
  assumes "se = run_session \<or> se = run_grant p"
  shows "principal_check 0 (Some run_principal) (run_core (run_idle se) rs n cb a k q d st l) = (run_core (run_idle se) rs n cb a k q d st l, XCC_OK)"
  using assms by (auto simp: principal_check_def Let_def identity_set_def level_of_def run_principal_def run_session_def run_grant_def xcc_session_init_def)

lemma run_register: "run_reach (run_core (run_idle run_session) (\<lambda>_. None) 0 run_nocalls [] 0 [] [] Desk_idle run_made)"
proof -
  define c where "c = xcc_session_new (Some run_session_spec) core_start"
  have s: "session_of run_session_spec = run_idle run_session"
    by (simp add: session_of_def run_session_spec_def run_idle_def op_start_def run_session_def xcc_session_init_def level_of_def)
  have f: "sp_app_id run_session_spec = Some ''app''" "sp_identity_level run_session_spec = 0" by (simp_all add: run_session_spec_def)
  have c: "c = (core_start\<lparr>cc_sessions := [0 \<mapsto> run_idle run_session], cc_queue := [Post_register 0], cc_posts := 1, cc_next_session := 1, cc_waiting := True\<rparr>)"
    unfolding c_def xcc_session_new_def using f
    by (simp add: s xcc_context_post_def session_put_def core_start_def cc_accepts_def)
  have "run_reach core_start" by (rule reach_init) simp
  moreover have "run_step core_start (Cv_session_new (Some run_session_spec)) c"
    unfolding c_def by (rule core_session_new) (simp add: desktop_free_def core_start_def)
  moreover have "coordinator_post run_config run_env (Post_register 0) (c\<lparr>cc_queue := []\<rparr>) =
      run_core (run_idle run_session) (\<lambda>_. None) 0 run_nocalls [] 0 [] [] Desk_idle run_made"
    by (simp add: c coordinator_post_def posted_function_def session_new_register_def Let_def xcc_context_check_shutdown_def core_note_def run_core_def
        core_start_def run_session_def xcc_session_init_def)
  with core_post [of c "Post_register 0" "[]" sample_discovery sample_tokens run_config run_env]
  have "run_step c Cv_post (run_core (run_idle run_session) (\<lambda>_. None) 0 run_nocalls [] 0 [] [] Desk_idle run_made)" by (simp add: c)
  ultimately show ?thesis by (metis reach_step)
qed

definition run_asks :: core where
  "run_asks = run_core (run_idle run_session) [0 \<mapsto> run_acquire] 1 run_nocalls [] 1 [Post_acquire 0] [] Desk_idle run_made"

definition run_offers :: core where
  "run_offers = run_core (run_idle run_session) [0 \<mapsto> run_offered] 1 run_nocalls [0] 0 [] [] Desk_idle (Offered 0 [sample_candidate] # run_made)"

definition run_pending :: core where
  "run_pending = run_core (run_idle (run_grant True)) [0 \<mapsto> run_granted] 1 run_nocalls [0] 0 [] [Desk_completion 0] Desk_idle run_consented"

lemma run_asks: "run_reach run_asks"
proof -
  have "run_step (run_core (run_idle run_session) (\<lambda>_. None) 0 run_nocalls [] 0 [] [] Desk_idle run_made) (Cv_acquire 0 (Some run_acquire_spec)) run_asks"
  proof -
    have "xcc_acquire_async run_config 0 (Some run_acquire_spec) (run_core (run_idle run_session) (\<lambda>_. None) 0 run_nocalls [] 0 [] [] Desk_idle run_made) = run_asks"
      unfolding xcc_acquire_async_def run_acquire_def [symmetric]
      by (simp add: request_add_def xcc_request_schedule_def cc_accepts_def run_asks_def)
        (simp add: run_core_def core_start_def xcc_context_post_def cc_accepts_def)
    then show ?thesis by (metis core_acquire run_desktop list.set_intros(1) run_core_fields(1) fun_upd_same)
  qed
  from reach_step [OF run_register this] show ?thesis .
qed

lemma run_offers: "run_reach run_offers"
proof -
  let ?c = "run_core (run_idle run_session) [0 \<mapsto> run_acquire\<lparr>rq_enumerating := True, rq_enumerate_again := False, rq_workers := 1\<rparr>] 1 run_nocalls [0] 0 [] [] Desk_idle run_made"
  have "run_step run_asks Cv_post ?c"
    unfolding run_asks_def
    by (rule run_post [where k' = 1, simplified]) (simp add: posted_function_def xcc_acquire_start_def xcc_request_validate_def start_enumeration_def run_principal_check Let_def)
  then have c: "run_reach ?c" by (rule reach_step [OF run_asks])
  have o: "run_acquire\<lparr>rq_enumerate_again := False, rq_enumerating := False, rq_workers := 0, rq_chooser := Some [sample_candidate]\<rparr> = run_offered"
    by (simp add: run_offered_def run_acquire_def acquire_request_def xcc_request_new_def run_acquire_spec_def Let_def)
  have "on_enumerated run_config run_env 0 (Some [sample_candidate]) False ?c = run_offers"
    by (simp add: on_enumerated_def deliver_token_events_def run_config_def run_filter run_offers_def o Let_def)
  then have "run_step ?c (Cv_enumerated 0 (Some [sample_candidate]) False) run_offers"
    using core_enumerated [of ?c 0 _ "Some [sample_candidate]" sample_discovery sample_tokens run_config run_env False] by simp
  with c show ?thesis by (rule reach_step)
qed

lemma run_consenting: "run_step run_offers (Cv_chooser 0 (Some sample_candidate) XCC_OK) run_pending"
proof -
  have n: "xcc_session_grant 0 sample_candidate CERTIFICATE_PURPOSE_CLIENT_AUTH True False 60 (run_session\<lparr>se_grant_pending := True\<rparr>)
      \<lparr>se_generic_purpose := False\<rparr> = run_grant True"
    by (simp add: xcc_session_grant_def run_grant_def run_session_def xcc_session_init_def)
  have k: "cd_can_sign sample_candidate" "has_text (tk_serial sample_token)"
    by (simp_all add: sample_candidate_def sample_token_def has_text_def)
  have q: "completed run_config XCC_OK (run_acquire\<lparr>rq_chooser := None, rq_chooser_completed := True, rq_pending_error := XCC_OK, rq_pending_chosen := Some sample_candidate,
      rq_candidate := Some sample_candidate, rq_result_may_sign := True\<rparr>) = run_granted"
    by (simp add: completed_def Let_def run_granted_def run_acquire_def acquire_request_def xcc_request_new_def run_acquire_spec_def
        run_principal_def)
  have "on_chooser_done run_config run_env [] 0 (Some sample_candidate) XCC_OK (core_note (Consented 0 sample_candidate) run_offers) = run_pending"
    using n k q
    by (simp add: on_chooser_done_def deliver_token_events_def run_offers_def run_offered_def Let_def finish_acquire_def grant_session_def
        xcc_request_complete_def run_pending_def)
  then show ?thesis
    using core_chooser [where c = run_offers and r = 0 and q = run_offered and chosen = "Some sample_candidate" and err = XCC_OK and
      D = sample_discovery and ts = sample_tokens and g = run_config and e = run_env]
    by (simp add: run_offers_def run_offered_def)
qed

lemma run_pending: "run_reach run_pending"
  by (rule reach_step [OF run_offers run_consenting])

text \<open>The grant is delivered, and a signature is asked for.\<close>

abbreviation run_log :: "core_effect list" where
  "run_log \<equiv> Done 0 XCC_OK (Some sample_candidate) None # run_consented"

definition run_called :: core where
  "run_called = run_core (run_idle (run_grant False)) [0 \<mapsto> run_granted] 1 run_nocalls [0] 0 [] [] (Desk_called 0) run_log"

definition run_held :: core where
  "run_held = run_core (run_idle (run_grant False)) [0 \<mapsto> run_granted] 1 run_nocalls [0] 1 [Post_ack 0] [] Desk_idle run_log"

definition run_request :: xcc_request where
  "run_request = run_sign\<lparr>rq_operation := Some 0\<rparr>"

definition run_with :: "op_state \<Rightarrow> core" where
  "run_with os = run_core os [0 \<mapsto> run_granted, 1 \<mapsto> run_request] 2 (run_nocalls(0 := [0 \<mapsto> 1])) [1] 0 [] [] Desk_idle run_log"

lemma run_granted_fields [simp]:
  "rq_session run_granted = Some 0" "rq_kind run_granted = XCC_RESULT_ACQUIRE" "rq_answered run_granted" "\<not> rq_detached run_granted"
  "rq_cancel_intent run_granted = None" "rq_error run_granted = XCC_OK" "rq_candidate_present run_granted"
  "rq_candidate run_granted = Some sample_candidate" "\<not> rq_signature_present run_granted"
  by (simp_all add: run_granted_def)

lemma run_called: "run_reach run_called"
proof -
  let ?c = "run_core (run_idle (run_grant True)) [0 \<mapsto> run_granted] 1 run_nocalls [0] 0 [] [] (Desk_deciding 0) run_consented"
  have "run_step run_pending Cv_desktop ?c"
    using core_desktop [of run_pending "Desk_completion 0" "[]" sample_discovery sample_tokens run_config run_env]
    by (simp add: run_pending_def desktop_next_def completion_def)
  then have c: "run_reach ?c" by (rule reach_step [OF run_pending])
  have "(run_grant True)\<lparr>se_grant_pending := False\<rparr> = run_grant False" by (simp add: run_grant_def)
  then have "run_step ?c Cv_deliver run_called"
    using core_deliver [of ?c 0 sample_discovery sample_tokens run_config run_env]
    by (simp add: completion_deliver_def run_called_def)
  with c show ?thesis by (rule reach_step)
qed

lemma run_returning: "run_step run_called Cv_return run_held"
  using core_return [of run_called 0 sample_discovery sample_tokens run_config run_env]
  by (simp add: completion_return_def run_called_def run_held_def)

lemma run_held: "run_reach run_held"
  by (rule reach_step [OF run_called run_returning])

lemma run_sign_input: "(rq_input run_sign)\<lparr>or_cancelled := False, or_caller_display := Some ''app''\<rparr> = run_input"
  by (simp add: run_sign_def sign_request_def xcc_request_new_def run_sign_spec_def run_input_def sample_request_def sign_parameters_def sample_parameters_def)

lemma run_started: "run_reach (run_with (run_at device_start Task_open None []))"
proof -
  let ?c = "\<lambda>k q rs n. run_core (run_idle (run_grant False)) rs n run_nocalls [] k q [] Desk_idle run_log"
  have "run_step run_held Cv_post (?c 0 [] [0 \<mapsto> run_granted] 1)"
    unfolding run_held_def
    by (rule run_post [where k' = 1, simplified]) (simp add: posted_function_def completion_ack_def xcc_context_check_shutdown_def)
  then have 1: "run_reach (?c 0 [] [0 \<mapsto> run_granted] 1)" by (rule reach_step [OF run_held])
  have "xcc_sign_async_parsed run_config 0 (Some run_sign_spec) True (?c 0 [] [0 \<mapsto> run_granted] 1) =
      ?c 1 [Post_sign 1] [0 \<mapsto> run_granted, 1 \<mapsto> run_sign] 2"
    unfolding xcc_sign_async_parsed_def run_sign_def [symmetric]
    by (simp add: request_add_def xcc_request_schedule_def cc_accepts_def)
      (simp add: run_core_def core_start_def xcc_context_post_def cc_accepts_def)
  then have "run_step (?c 0 [] [0 \<mapsto> run_granted] 1) (Cv_sign 0 (Some run_sign_spec) True) (?c 1 [Post_sign 1] [0 \<mapsto> run_granted, 1 \<mapsto> run_sign] 2)"
    using core_sign [of "?c 0 [] [0 \<mapsto> run_granted] 1" 0 _ sample_discovery sample_tokens run_config run_env "Some run_sign_spec" True] by simp
  then have 2: "run_reach (?c 1 [Post_sign 1] [0 \<mapsto> run_granted, 1 \<mapsto> run_sign] 2)" by (rule reach_step [OF 1])
  let ?d = "run_core (run_idle (run_grant False)) [0 \<mapsto> run_granted, 1 \<mapsto> run_sign] 2 run_nocalls [1] 1 [] [] Desk_idle run_log"
  have v: "xcc_request_validate 1 (?c 1 [] [0 \<mapsto> run_granted, 1 \<mapsto> run_sign] 2) = (?d, XCC_OK)"
    by (simp add: xcc_request_validate_def Let_def run_principal_check [where p = False])
  have n: "certificate_app_display_name (\<lambda>_. None) (Some ''app'') = None" by (simp add: certificate_app_display_name_def)
  have "posted_function run_config run_env (Post_sign 1) (?c 1 [] [0 \<mapsto> run_granted, 1 \<mapsto> run_sign] 2) =
      run_core (run_at device_start Task_open None []) [0 \<mapsto> run_granted, 1 \<mapsto> run_request] 2 (run_nocalls(0 := [0 \<mapsto> 1])) [1] 1 [] [] Desk_idle run_log"
    by (simp add: posted_function_def xcc_sign_start_def v [simplified] n run_sign_input run_performing run_request_def Let_def)
  from run_post [OF this] have "run_step (?c 1 [Post_sign 1] [0 \<mapsto> run_granted, 1 \<mapsto> run_sign] 2) Cv_post
      (run_with (run_at device_start Task_open None []))"
    by (simp add: run_with_def)
  then show ?thesis by (rule reach_step [OF 2])
qed

text \<open>The operation runs; its steps before the last report nothing.\<close>

lemma run_session_goes:
  "session_goes g 0 os' (run_with os) = fold (report g 0) (rev (take (length (os_log os') - length (os_log os)) (os_log os'))) (run_with os')"
  by (simp add: session_goes_def run_with_def)

lemma run_working:
  assumes "run_reach (run_with os)" "op_step sample_discovery sample_tokens os (sample_op_env, ev) os'" "own_event ev"
    "\<forall>x \<in> set (take (length (os_log os') - length (os_log os)) (os_log os')). report run_config 0 x (run_with os') = run_with os'"
  shows "run_reach (run_with os')"
proof -
  have f: "fold (report run_config 0) xs (run_with os') = run_with os'" if "\<forall>x \<in> set xs. report run_config 0 x (run_with os') = run_with os'" for xs
    using that by (induction xs) simp_all
  have "session_goes run_config 0 os' (run_with os) = run_with os'" unfolding run_session_goes by (rule f) (use assms(4) in simp)
  then have "run_step (run_with os) (Cv_operation 0 ev) (run_with os')"
    using core_operation [of "run_with os" 0 os sample_discovery sample_tokens run_env ev os' run_config] assms(2,3) by (simp add: run_with_def)
  with assms(1) show ?thesis by (rule reach_step)
qed

lemma run_signing_step:
  "op_step sample_discovery sample_tokens (run_at sample_device Task_sign_lock None []) (sample_op_env, Ev_sign 0)
     (run_at sample_device (Task_context 9) (Some 0) run_asked)"
  unfolding run_signing(1) [symmetric] by (rule step_sign, simp, simp+)

lemma run_locked: "run_reach (run_with (run_at sample_device Task_sign_lock None []))"
proof -
  have 1: "run_reach (run_with (run_at device_start Task_open_lock None []))"
    by (rule run_working [OF run_started, where ev = "Ev_open_check 0"]; (simp add: own_event_def)?)
      (unfold run_opening(1) [symmetric], rule step_open_check, simp, simp+)
  have 2: "run_reach (run_with (run_at sample_device (Task_opened (Inr False)) None []))"
    by (rule run_working [OF 1, where ev = "Ev_open 0"]; (simp add: own_event_def)?)
      (unfold run_opening(2) [symmetric], rule step_open, simp, simp+)
  have 3: "run_reach (run_with (run_at sample_device Task_sign None []))"
    by (rule run_working [OF 2, where ev = "Ev_opened 0"]; (simp add: own_event_def)?)
      (unfold run_opening(3) [symmetric], rule step_opened, simp, simp+)
  show ?thesis
    by (rule run_working [OF 3, where ev = "Ev_sign_check 0"]; (simp add: own_event_def)?)
      (unfold run_opening(4) [symmetric], rule step_sign_check, simp, simp+)
qed

definition run_done :: core where
  "run_done = run_core run_answered [0 \<mapsto> run_granted, 1 \<mapsto> completed run_config XCC_OK (run_request\<lparr>rq_signature := Some [1, 2]\<rparr>)] 2
     (run_nocalls(0 := [0 \<mapsto> 1])) [1] 0 [] [] (Desk_called 1) (Done 1 XCC_OK None (Some [1, 2]) # run_log)"

lemma run_done: "run_reach run_done"
proof -
  let ?signed = "run_at sample_device (Task_signed (Inr (Some [1, 2]))) None run_signed"
  have 1: "run_reach (run_with (run_at sample_device (Task_context 9) (Some 0) run_asked))"
    by (rule run_working [OF run_locked run_signing_step]) (simp_all add: own_event_def report_def sample_use_def)
  have 2: "run_reach (run_with (run_at sample_device (Task_context_done 9 CERTIFICATE_PIN_OK) (Some 0) run_asked))"
    by (rule run_working [OF 1, where ev = "Ev_context_done 0 CERTIFICATE_PIN_OK"]; (simp add: own_event_def)?)
      (unfold run_signing(2) [symmetric], rule step_context_done, simp, simp+)
  have 3: "run_reach (run_with ?signed)"
    by (rule run_working [OF 2, where ev = "Ev_sign_authenticated 0"]; (simp add: own_event_def report_def)?)
      (unfold run_signing(3) [symmetric], rule step_sign_authenticated, simp, simp+)
  let ?r = "completed run_config XCC_OK (run_request\<lparr>rq_signature := Some [1, 2]\<rparr>)"
  let ?c = "\<lambda>d st. run_core run_answered [0 \<mapsto> run_granted, 1 \<mapsto> ?r] 2 (run_nocalls(0 := [0 \<mapsto> 1])) [1] 0 [] d st run_log"
  have "op_step sample_discovery sample_tokens ?signed (sample_op_env, Ev_signed 0) run_answered"
    unfolding run_answered_def by (rule step_signed, simp, simp)
  then have "run_step (run_with ?signed) (Cv_operation 0 (Ev_signed 0)) (session_goes run_config 0 run_answered (run_with ?signed))"
    using core_operation [of "run_with ?signed" 0 ?signed sample_discovery sample_tokens run_env "Ev_signed 0" run_answered run_config]
    by (simp add: run_with_def own_event_def)
  moreover have "session_goes run_config 0 run_answered (run_with ?signed) = ?c [Desk_completion 1] Desk_idle"
    unfolding run_session_goes run_answered_log
    by (simp add: report_def on_operation_done_def run_with_def xcc_request_complete_def run_request_def)
  ultimately have 4: "run_reach (?c [Desk_completion 1] Desk_idle)" using reach_step [OF 3] by simp
  have i: "rq_cancel_intent ?r = None" by (simp add: run_request_def)
  have "run_step (?c [Desk_completion 1] Desk_idle) Cv_desktop (?c [] (Desk_deciding 1))"
    using core_desktop [of "?c [Desk_completion 1] Desk_idle" "Desk_completion 1" "[]" sample_discovery sample_tokens run_config run_env] i
    by (simp add: desktop_next_def completion_def)
  then have 5: "run_reach (?c [] (Desk_deciding 1))" by (rule reach_step [OF 4])
  have "rq_error ?r = XCC_OK" by (simp add: completed_error run_request_def)
  then have "run_step (?c [] (Desk_deciding 1)) Cv_deliver run_done"
    using core_deliver [of "?c [] (Desk_deciding 1)" 1 sample_discovery sample_tokens run_config run_env]
    by (simp add: completion_deliver_def run_done_def run_request_def)
  with 5 show ?thesis by (rule reach_step)
qed

section \<open>Two branches\<close>

text \<open>The acquisition is cancelled after it is answered: its grant is to be taken back.\<close>

definition run_refused :: xcc_request where
  "run_refused = run_granted\<lparr>rq_cancel_intent := Some XCC_CANCEL_USER, rq_error := XCC_ERROR_CANCELLED, rq_candidate_present := False,
     rq_signature_present := False, rq_mechanisms_present := False\<rparr>"

definition run_back :: core where
  "run_back = run_core (run_idle (run_grant True)) [0 \<mapsto> run_refused] 1 run_nocalls [0] 1 [Post_rollback 0] [] Desk_idle run_consented"

lemma run_back: "run_reach run_back"
proof -
  let ?q = "run_granted\<lparr>rq_cancel_intent := Some XCC_CANCEL_USER\<rparr>"
  let ?c = "\<lambda>k q x d st. run_core (run_idle (run_grant True)) [0 \<mapsto> x] 1 run_nocalls [0] k q d st run_consented"
  have "run_step run_pending (Cv_cancel 0 XCC_CANCEL_USER) (?c 1 [Post_cancel 0 XCC_CANCEL_USER] ?q [Desk_completion 0] Desk_idle)"
    using core_cancel [of run_pending 0 sample_discovery sample_tokens run_config run_env XCC_CANCEL_USER]
    by (simp add: xcc_request_cancel_def run_pending_def)
  then have 1: "run_reach (?c 1 [Post_cancel 0 XCC_CANCEL_USER] ?q [Desk_completion 0] Desk_idle)" by (rule reach_step [OF run_pending])
  have "run_step (?c 1 [Post_cancel 0 XCC_CANCEL_USER] ?q [Desk_completion 0] Desk_idle) Cv_post (?c 0 [] ?q [Desk_completion 0] Desk_idle)"
    by (rule run_post [where k' = 1, simplified]) (simp add: posted_function_def cancel_request_def)
  then have 2: "run_reach (?c 0 [] ?q [Desk_completion 0] Desk_idle)" by (rule reach_step [OF 1])
  have "run_step (?c 0 [] ?q [Desk_completion 0] Desk_idle) Cv_desktop (?c 0 [] run_refused [] (Desk_deciding 0))"
    using core_desktop [of "?c 0 [] ?q [Desk_completion 0] Desk_idle" "Desk_completion 0" "[]" sample_discovery sample_tokens run_config run_env]
    by (simp add: desktop_next_def completion_def run_refused_def)
  then have 3: "run_reach (?c 0 [] run_refused [] (Desk_deciding 0))" by (rule reach_step [OF 2])
  have "run_step (?c 0 [] run_refused [] (Desk_deciding 0)) Cv_deliver run_back"
    using core_deliver [of "?c 0 [] run_refused [] (Desk_deciding 0)" 0 sample_discovery sample_tokens run_config run_env]
    by (simp add: completion_deliver_def run_back_def run_refused_def)
  with 3 show ?thesis by (rule reach_step)
qed

text \<open>The capabilities are asked for, and delivered; then the context is shut down.\<close>

definition bare_core :: "xcc_request \<Rightarrow> nat list \<Rightarrow> nat \<Rightarrow> core_post list \<Rightarrow> desktop_call list \<Rightarrow> desktop_stage \<Rightarrow> core_effect list \<Rightarrow> core" where
  "bare_core x active posts queue desktop stage log = core_start\<lparr>cc_requests := [0 \<mapsto> x], cc_next_request := 1, cc_active := active,
     cc_posts := posts, cc_queue := queue, cc_desktop := desktop, cc_stage := stage, cc_log := log\<rparr>"

definition run_capabilities :: xcc_request where
  "run_capabilities = completed run_config XCC_OK ((xcc_request_new None XCC_RESULT_CAPABILITIES)\<lparr>
     rq_mechanisms := Some (fst certificate_tokens_capabilities), rq_protected_path := snd certificate_tokens_capabilities, rq_has_display := True\<rparr>)"

definition run_stopped :: core where
  "run_stopped = (bare_core run_capabilities [] 0 [] [Desk_shutdown] Desk_idle [Done 0 XCC_OK None None])\<lparr>cc_stopping := True,
     cc_watch_stopped := True, cc_shutdown_started := True, cc_shutdown_posted := True\<rparr>"

lemma run_stopped: "run_reach run_stopped"
proof -
  let ?new = "xcc_request_new None XCC_RESULT_CAPABILITIES" and ?done = "[Done 0 XCC_OK None None]"
  let ?work = "?new\<lparr>rq_principal := (rq_principal ?new)\<lparr>pr_owner_generation := 0\<rparr>, rq_workers := 1\<rparr>"
  let ?cap = run_capabilities
  let ?step = "\<lambda>c ev c'. run_step c ev c'"
  have 1: "?step core_start Cv_get_capabilities (bare_core ?new [] 1 [Post_capabilities 0] [] Desk_idle [])"
    using core_get_capabilities [of core_start sample_discovery sample_tokens run_config run_env]
    by (simp add: xcc_get_capabilities_async_def request_add_def xcc_request_schedule_def cc_accepts_def xcc_context_post_def bare_core_def
        core_start_def desktop_free_def)
  have 2: "?step (bare_core ?new [] 1 [Post_capabilities 0] [] Desk_idle []) Cv_post (bare_core ?work [0] 0 [] [] Desk_idle [])"
    using core_post [of "bare_core ?new [] 1 [Post_capabilities 0] [] Desk_idle []" "Post_capabilities 0" "[]" sample_discovery sample_tokens run_config run_env]
    by (simp add: coordinator_post_def posted_function_def capabilities_start_def xcc_request_validate_def bare_core_def core_start_def
        xcc_context_check_shutdown_def request_set_def xcc_request_new_def Let_def)
  have 3: "?step (bare_core ?work [0] 0 [] [] Desk_idle []) (Cv_capabilities 0) (bare_core ?cap [0] 0 [] [Desk_completion 0] Desk_idle [])"
    using core_capabilities [of "bare_core ?work [0] 0 [] [] Desk_idle []" 0 ?work sample_discovery sample_tokens run_config run_env]
    by (simp add: capabilities_done_def xcc_request_complete_def bare_core_def core_start_def request_set_def desktop_post_def run_capabilities_def
        xcc_request_new_def completed_def run_config_def)
  have 4: "?step (bare_core ?cap [0] 0 [] [Desk_completion 0] Desk_idle []) Cv_desktop (bare_core ?cap [0] 0 [] [] (Desk_deciding 0) [])"
    using core_desktop [of "bare_core ?cap [0] 0 [] [Desk_completion 0] Desk_idle []" "Desk_completion 0" "[]" sample_discovery sample_tokens run_config run_env]
    by (simp add: desktop_next_def completion_def bare_core_def core_start_def request_set_def run_capabilities_def xcc_request_new_def)
  have 5: "?step (bare_core ?cap [0] 0 [] [] (Desk_deciding 0) []) Cv_deliver (bare_core ?cap [0] 0 [] [] (Desk_called 0) ?done)"
    using core_deliver [of "bare_core ?cap [0] 0 [] [] (Desk_deciding 0) []" 0 sample_discovery sample_tokens run_config run_env]
    by (simp add: completion_deliver_def bare_core_def core_start_def core_note_def run_capabilities_def xcc_request_new_def completed_error)
  have 6: "?step (bare_core ?cap [0] 0 [] [] (Desk_called 0) ?done) Cv_return (bare_core ?cap [0] 1 [Post_ack 0] [] Desk_idle ?done)"
    using core_return [of "bare_core ?cap [0] 0 [] [] (Desk_called 0) ?done" 0 sample_discovery sample_tokens run_config run_env]
    by (simp add: completion_return_def bare_core_def core_start_def xcc_context_post_def cc_accepts_def run_capabilities_def xcc_request_new_def)
  let ?c = "\<lambda>k q. (bare_core ?cap [] k q [] Desk_idle ?done)\<lparr>cc_shutdown_started := True\<rparr>"
  have 7: "?step (bare_core ?cap [0] 1 [Post_ack 0] [] Desk_idle ?done) Cv_post (bare_core ?cap [] 0 [] [] Desk_idle ?done)"
    using core_post [of "bare_core ?cap [0] 1 [Post_ack 0] [] Desk_idle ?done" "Post_ack 0" "[]" sample_discovery sample_tokens run_config run_env]
    by (simp add: coordinator_post_def posted_function_def completion_ack_def bare_core_def core_start_def xcc_context_check_shutdown_def)
  have 8: "?step (bare_core ?cap [] 0 [] [] Desk_idle ?done) Cv_shutdown (?c 1 [Post_shutdown])"
    using core_shutdown [of "bare_core ?cap [] 0 [] [] Desk_idle ?done" sample_discovery sample_tokens run_config run_env]
    by (simp add: xcc_context_shutdown_async_def bare_core_def core_start_def xcc_context_post_def cc_accepts_def desktop_free_def)
  have 9: "?step (?c 1 [Post_shutdown]) Cv_post ((?c 0 [])\<lparr>cc_stopping := True\<rparr>)"
    using core_post [of "?c 1 [Post_shutdown]" "Post_shutdown" "[]" sample_discovery sample_tokens run_config run_env]
    by (simp add: coordinator_post_def posted_function_def shutdown_start_def bare_core_def core_start_def xcc_context_check_shutdown_def)
  have 10: "?step ((?c 0 [])\<lparr>cc_stopping := True\<rparr>) Cv_watch_stopped run_stopped"
    using core_watch_stopped [of "(?c 0 [])\<lparr>cc_stopping := True\<rparr>" sample_discovery sample_tokens run_config run_env]
    by (simp add: stopped_watch_def bare_core_def core_start_def xcc_context_check_shutdown_def run_env_def xcc_session_releases_pending_def
        desktop_post_def run_stopped_def)
  have "run_reach core_start" by (rule reach_init) simp
  from reach_step [OF reach_step [OF reach_step [OF reach_step [OF reach_step [OF this 1] 2] 3] 4] 5]
  have "run_reach (bare_core ?cap [0] 0 [] [] (Desk_called 0) ?done)" .
  from reach_step [OF reach_step [OF reach_step [OF reach_step [OF reach_step [OF this 6] 7] 8] 9] 10] show ?thesis .
qed

end
