(* ===== verification/CoreTerms.thy ===== *)
theory CoreTerms
  imports CoreReachable
begin

text \<open>
  The terms of a grant over a step of the core: only the end of an acquisition makes a grant, for the
  session of that acquisition, and it then expires the lifetime asked for after the clock of the step;
  every other grant keeps its terms as they are (\<open>step_terms\<close>).
\<close>

section \<open>Terms that stay\<close>

definition grant_terms :: "xcc_session \<Rightarrow> _" where
  "grant_terms se = (se_candidate se, se_purpose se, se_may_sign se, se_may_decrypt se, se_lifetime se, se_expires_at se)"

definition keeps_terms :: "op_state \<Rightarrow> op_state \<Rightarrow> bool" where
  "keeps_terms s t \<longleftrightarrow> (se_granted (os_session t) \<longrightarrow> se_granted (os_session s) \<and> grant_terms (os_session t) = grant_terms (os_session s))"

lemma keeps_termsI:
  "os_session t = os_session s \<Longrightarrow> keeps_terms s t" "grant_part (os_session t) = grant_part (os_session s) \<Longrightarrow> keeps_terms s t"
  "weak s t \<Longrightarrow> keeps_terms s t" "calm s t \<Longrightarrow> keeps_terms s t"
  using weak_calm [of s t] by (auto simp: keeps_terms_def weak_def grant_part_def grant_terms_def)

lemma perform_keeps_terms: "keeps_terms s (certificate_broker_perform e r s)"
  by (auto simp: keeps_terms_def grant_terms_def certificate_broker_perform_def open_operation_def Let_def split: option.split sum.split)

text \<open>
  \<open>S\<close> is the session that may be granted at \<open>now\<close>.  The requests stay with their sessions.
\<close>

definition fresh_terms :: "int \<Rightarrow> xcc_session \<Rightarrow> bool" where
  "fresh_terms now se \<longleftrightarrow> se_expires_at se = now div G_USEC_PER_SEC + uint (se_lifetime se)"

definition terms :: "int \<Rightarrow> nat option \<Rightarrow> core \<Rightarrow> core \<Rightarrow> bool" where
  "terms now S c d \<longleftrightarrow>
     (\<forall>r q. cc_requests c r = Some q \<longrightarrow> (\<exists>p. cc_requests d r = Some p \<and> rq_session p = rq_session q)) \<and>
     (\<forall>sid t. cc_sessions d sid = Some t \<longrightarrow> \<not> se_granted (os_session t) \<or> (\<exists>s. cc_sessions c sid = Some s \<and> keeps_terms s t) \<or>
        S = Some sid \<and> fresh_terms now (os_session t))"

lemma terms_refl [simp]: "terms now S c c"
  by (auto simp: terms_def keeps_termsI(1))

lemma terms_trans:
  assumes "terms now S c d" "terms now S d e"
  shows "terms now S c e"
proof -
  have "\<not> se_granted (os_session t) \<or> (\<exists>s. cc_sessions c sid = Some s \<and> keeps_terms s t) \<or> S = Some sid \<and> fresh_terms now (os_session t)"
    if t: "cc_sessions e sid = Some t" for sid t
  proof (cases "se_granted (os_session t) \<and> \<not> (S = Some sid \<and> fresh_terms now (os_session t))")
    case True
    then obtain s where s: "cc_sessions d sid = Some s" "keeps_terms s t" using assms(2) t unfolding terms_def by blast
    with True have g: "se_granted (os_session s)" "grant_terms (os_session t) = grant_terms (os_session s)" by (simp_all add: keeps_terms_def)
    then have "fresh_terms now (os_session s) = fresh_terms now (os_session t)" by (simp add: fresh_terms_def grant_terms_def)
    with assms(1) s(1) g(1) True obtain u where u: "cc_sessions c sid = Some u" "keeps_terms u s" unfolding terms_def by blast
    with s(2) g have "keeps_terms u t" by (simp add: keeps_terms_def)
    with u show ?thesis by blast
  qed auto
  moreover have "\<exists>p. cc_requests e r = Some p \<and> rq_session p = rq_session q" if "cc_requests c r = Some q" for r q
    using assms that unfolding terms_def by metis
  ultimately show ?thesis unfolding terms_def by blast
qed

lemma terms_any: "terms now None c d \<Longrightarrow> terms now S c d"
  unfolding terms_def by blast

lemma terms_fields [simp]:
  "terms now S c (d\<lparr>cc_registered := l\<rparr>) = terms now S c d" "terms now S c (d\<lparr>cc_generation := n\<rparr>) = terms now S c d"
  "terms now S c (d\<lparr>cc_stopping := b\<rparr>) = terms now S c d" "terms now S c (d\<lparr>cc_waiting := b\<rparr>) = terms now S c d"
  "terms now S c (d\<lparr>cc_watch_stopped := b\<rparr>) = terms now S c d" "terms now S c (d\<lparr>cc_active := l\<rparr>) = terms now S c d"
  "terms now S c (d\<lparr>cc_desktop := ds\<rparr>) = terms now S c d" "terms now S c (d\<lparr>cc_stage := st\<rparr>) = terms now S c d"
  "terms now S c (d\<lparr>cc_queue := ps\<rparr>) = terms now S c d" "terms now S c (d\<lparr>cc_posts := n\<rparr>) = terms now S c d"
  "terms now S c (d\<lparr>cc_next_session := n\<rparr>) = terms now S c d" "terms now S c (d\<lparr>cc_callbacks := f\<rparr>) = terms now S c d"
  "terms now S c (d\<lparr>cc_shutdown_posted := b\<rparr>) = terms now S c d" "terms now S c (d\<lparr>cc_shutdown_started := b\<rparr>) = terms now S c d"
  "terms now S (c\<lparr>cc_desktop := ds\<rparr>) d = terms now S c d" "terms now S (c\<lparr>cc_queue := ps\<rparr>) d = terms now S c d"
  "terms now S (c\<lparr>cc_generation := n\<rparr>) d = terms now S c d" "terms now S (c\<lparr>cc_stopping := b\<rparr>) d = terms now S c d"
  "terms now S (c\<lparr>cc_active := l\<rparr>) d = terms now S c d" "terms now S (core_note x c) d = terms now S c d"
  "terms now S c (desktop_post p d) = terms now S c d" "terms now S c (core_note x d) = terms now S c d"
  "terms now S c (xcc_context_post q d) = terms now S c d"
  by (simp_all add: terms_def xcc_context_post_def)

lemma terms_request:
  assumes "\<And>q. rq_session (f q) = rq_session q" "terms now S c d"
  shows "terms now S c (request_set r f d)"
proof (rule terms_trans [OF assms(2)])
  show "terms now S d (request_set r f d)" using assms(1) by (auto simp: terms_def keeps_termsI(1))
qed

lemma terms_put:
  assumes "cc_sessions d sid = Some os" "keeps_terms os os'" "terms now S c d"
  shows "terms now S c (session_put sid os' d)"
proof (rule terms_trans [OF assms(3)])
  show "terms now S d (session_put sid os' d)" using assms(1,2) by (auto simp: terms_def keeps_termsI(1))
qed

lemma terms_fold: "(\<And>x d. terms now S d (f x d)) \<Longrightarrow> terms now S c d \<Longrightarrow> terms now S c (fold f xs d)"
proof (induction xs arbitrary: d)
  case (Cons x xs)
  from Cons.IH [OF Cons.prems(1) terms_trans [OF Cons.prems(2,1)]] show ?case by simp
qed simp

section \<open>What makes no grant\<close>

lemma terms_complete: "terms now S c d \<Longrightarrow> terms now S c (xcc_request_complete g r err d)"
  by (simp add: xcc_request_complete_def terms_request completed_def Let_def split: option.split)

lemma terms_enumeration: "terms now S c d \<Longrightarrow> terms now S c (start_enumeration r d)"
  by (simp add: start_enumeration_def terms_request)

lemma terms_cancel: "terms now S c d \<Longrightarrow> terms now S c (cancel_cancellable r d)"
  by (auto simp: cancel_cancellable_def Let_def keeps_termsI(1) intro!: terms_request terms_put split: option.split)

lemma terms_session_closed: "terms now S c d \<Longrightarrow> terms now S c (session_closed sid d)"
proof -
  have "terms now S e (close_request sid r e)" for r e
    by (auto simp: close_request_def Let_def intro!: terms_request split: option.split)
  then show "terms now S c d \<Longrightarrow> terms now S c (session_closed sid d)" by (simp add: session_closed_def Let_def terms_fold)
qed

lemma terms_close: "terms now S c d \<Longrightarrow> terms now S c (xcc_session_close_internal e sid d)"
  by (auto simp: xcc_session_close_internal_def intro!: terms_session_closed terms_put keeps_termsI(4) calm.same_close split: option.split)

lemma terms_report: "terms now S c d \<Longrightarrow> terms now S c (report g sid x d)"
proof -
  have i: "terms now S e (invalidate_request sid reason r e)" for reason r e
    by (auto simp: invalidate_request_def Let_def intro!: terms_request split: option.split)
  have v: "terms now S c d \<Longrightarrow> terms now S c (session_invalidated sid reason d)" for reason
    unfolding session_invalidated_def by (simp add: terms_session_closed terms_fold [OF i])
  show "terms now S c d \<Longrightarrow> terms now S c (report g sid x d)"
    by (auto simp: report_def on_operation_done_def v intro!: terms_complete terms_request split: op_effect.split option.split sum.split)
qed

lemma terms_session_goes:
  assumes "cc_sessions d sid = Some os" "keeps_terms os os'" "terms now S c d"
  shows "terms now S c (session_goes g sid os' d)"
  unfolding session_goes_def assms(1) option.case
  by (rule terms_fold [OF terms_report [OF terms_refl] terms_put [OF assms]])

lemma terms_invalidate: "terms now S c d \<Longrightarrow> terms now S c (xcc_session_invalidate_internal g e reason sid d)"
  by (auto simp: xcc_session_invalidate_internal_def intro!: terms_session_goes keeps_termsI(4) calm.same_invalidate split: option.split)

lemma terms_token_event: "terms now S c d \<Longrightarrow> terms now S c (token_event g e ev d)"
proof -
  have "terms now S c d \<Longrightarrow> terms now S c (acquire_token_event token added r d)" for token added r c d
    by (auto simp: acquire_token_event_def Let_def intro!: terms_request terms_cancel terms_enumeration split: option.split)
  then have a: "terms now S c d \<Longrightarrow> terms now S c (xcc_acquire_token_event token added d)" for token added c d
    unfolding xcc_acquire_token_event_def by (rule terms_fold) simp_all
  have "terms now S d (remove_token g e token sid d)" for token sid d
    by (simp add: remove_token_def terms_invalidate split: option.split)
  then show "terms now S c d \<Longrightarrow> terms now S c (token_event g e ev d)" by (simp add: token_event_def Let_def a terms_fold)
qed

lemma terms_dispatch: "terms now S c d \<Longrightarrow> terms now S c (deliver_token_events g e events d)"
  unfolding deliver_token_events_def by (rule terms_fold [OF terms_token_event [OF terms_refl]])

lemma terms_cancel_requests:
  "terms now S c d \<Longrightarrow> terms now S c (cancel_request reason r d)" "terms now S c d \<Longrightarrow> terms now S c (override_request reason r d)"
  by (auto simp: cancel_request_def override_request_def Let_def intro!: terms_cancel terms_request split: option.split)

lemma terms_generation: "terms now S c (generation e n c)"
proof -
  have "terms now S d (orphan_request r d)" "terms now S d (orphan_session e sid d)" for r sid d
    by (auto simp: orphan_request_def orphan_session_def terms_cancel_requests terms_close split: option.split)
  then show ?thesis by (simp add: generation_def Let_def terms_fold)
qed

lemma terms_check_shutdown: "terms now S c d \<Longrightarrow> terms now S c (xcc_context_check_shutdown e d)"
  by (simp add: xcc_context_check_shutdown_def)

lemma terms_shutdown_start: "terms now S c (shutdown_start g e c)"
  by (simp add: shutdown_start_def Let_def terms_check_shutdown terms_fold terms_invalidate terms_cancel_requests)

lemma terms_principal_check: "principal_check sid pr c = (c', err) \<Longrightarrow> terms now S c c'"
  by (auto simp: principal_check_def Let_def identity_set_def grant_part_def intro!: terms_put keeps_termsI(2) split: option.splits if_splits)

lemma terms_validate:
  assumes "xcc_request_validate r c = (c', err)"
  shows "terms now S c c'"
proof (cases "cc_requests c r")
  case (Some q)
  have p: "terms now S c c'" if "principal_check sid pr (c\<lparr>cc_active := cc_active c @ [r]\<rparr>) = (c', err)" for sid pr
    using terms_principal_check [OF that, of now S] by simp
  have r: "terms now S c (request_set r (\<lambda>q. q\<lparr>rq_principal := f q\<rparr>) (c\<lparr>cc_active := cc_active c @ [r]\<rparr>))" for f
    by (rule terms_request) simp_all
  show ?thesis
  proof (cases "rq_session q")
    case None
    with assms Some r show ?thesis by (auto simp: xcc_request_validate_def Let_def split: if_splits)
  next
    case (Some sid)
    show ?thesis
    proof (rule ccontr)
      assume n: "\<not> terms now S c c'"
      with p have "principal_check sid pr (c\<lparr>cc_active := cc_active c @ [r]\<rparr>) \<noteq> (c', err)" for pr by blast
      with n assms \<open>cc_requests c r = Some q\<close> Some show False
        by (auto simp: xcc_request_validate_def Let_def split: if_splits)
    qed
  qed
qed (use assms in \<open>simp add: xcc_request_validate_def\<close>)

lemma terms_starts:
  "terms now S c (xcc_acquire_start g r c)" "terms now S c (capabilities_start g r c)" "terms now S c (xcc_sign_start g e r c)"
proof -
  obtain c1 err where v: "xcc_request_validate r c = (c1, err)" by fastforce
  note t = terms_validate [OF v, of now S]
  show "terms now S c (xcc_acquire_start g r c)" "terms now S c (capabilities_start g r c)"
    using t by (auto simp: xcc_acquire_start_def capabilities_start_def v intro!: terms_complete terms_enumeration terms_request split: option.split)
  have refused: "terms now S c (case l of Op_refused refusal # _ \<Rightarrow> on_operation_done g r (Inl refusal) d | _ \<Rightarrow> d)"
    if "terms now S c d" for l d
    using that by (auto simp: on_operation_done_def terms_complete split: list.split op_effect.split)
  have perform: "terms now S c (if b then (request_set r (\<lambda>q. q\<lparr>rq_operation := Some i\<rparr>) d)\<lparr>cc_callbacks := cb\<rparr>
      else (case l of Op_refused refusal # _ \<Rightarrow> on_operation_done g r (Inl refusal) d | _ \<Rightarrow> d))"
    if "cc_sessions c1 sid = Some os" "d = session_put sid (certificate_broker_perform (ce_op e) rq os) c1" for b i d cb l sid os rq
  proof -
    have "terms now S c d" unfolding that(2) by (rule terms_put [OF that(1) perform_keeps_terms t])
    then show ?thesis using refused by (simp add: terms_request)
  qed
  show "terms now S c (xcc_sign_start g e r c)"
  proof (cases "err = XCC_OK \<and> (\<exists>q sid os. cc_requests c1 r = Some q \<and> rq_session q = Some sid \<and> cc_sessions c1 sid = Some os)")
    case True
    then obtain q sid os where q: "err = XCC_OK" "cc_requests c1 r = Some q" "rq_session q = Some sid" "cc_sessions c1 sid = Some os" by blast
    show ?thesis
      unfolding xcc_sign_start_def v prod.case Let_def q option.case
      by (subst if_not_P, simp) (rule perform [OF q(4) refl])
  next
    case False
    then show ?thesis
      using t by (auto simp: xcc_sign_start_def v terms_complete split: option.split)
  qed
qed

lemma terms_rollback: "terms now S c (rollback_acquisition r c)"
proof -
  have "keeps_terms os (session_set rollback_session os)" for os by (simp add: keeps_terms_def grant_rollback)
  then show ?thesis
    by (auto simp: rollback_acquisition_def xcc_acquire_rollback_def Let_def intro!: terms_request terms_put split: option.split)
qed

lemma terms_deliver: "terms now S c (completion_deliver r c)"
proof -
  have "keeps_terms os (session_set (\<lambda>se. se\<lparr>se_grant_pending := False\<rparr>) os)" for os by (simp add: keeps_terms_def grant_terms_def)
  then show ?thesis by (auto simp: completion_deliver_def Let_def intro!: terms_put split: option.split)
qed

lemma terms_posted: "terms now S c (posted_function g e p c)"
proof (cases p)
  case (Post_principal sid pr)
  obtain c1 err where "principal_check sid pr c = (c1, err)" by fastforce
  with terms_principal_check [OF this] Post_principal show ?thesis by (simp add: posted_function_def principal_checked_def)
qed (auto simp: posted_function_def terms_starts terms_cancel_requests terms_generation terms_shutdown_start completion_ack_def
    terms_check_shutdown terms_rollback session_call_def terms_invalidate terms_close session_new_register_def Let_def split: option.split)

section \<open>The end of an acquisition\<close>

lemma terms_finish:
  assumes q: "cc_requests c r = Some q" "S = rq_session q" and t: "terms (oe_now (ce_op e)) S c d"
  shows "terms (oe_now (ce_op e)) S c (finish_acquire g e r candidate d)"
proof -
  from q(1) t obtain p where p: "cc_requests d r = Some p" "rq_session p = rq_session q" unfolding terms_def by blast
  have "terms (oe_now (ce_op e)) S c (session_put sid (session_set (grant_session (oe_now (ce_op e)) p candidate) os) d)"
    if "rq_session p = Some sid" for sid os
  proof -
    have "fresh_terms (oe_now (ce_op e)) (grant_session (oe_now (ce_op e)) p candidate (os_session os))"
      by (simp add: fresh_terms_def grant_session_def xcc_session_grant_def)
    with that p(2) q(2) t show ?thesis unfolding terms_def by (auto split: if_splits)
  qed
  with p t show ?thesis
    by (auto simp: finish_acquire_def intro!: terms_complete terms_request split: option.split)
qed

lemma terms_chooser_done:
  assumes q: "cc_requests c r = Some q" "S = rq_session q" and t: "terms (oe_now (ce_op e)) S c d"
  shows "terms (oe_now (ce_op e)) S c (on_chooser_done g e events r chosen err d)"
proof -
  define d2 where "d2 = deliver_token_events g e events (request_set r (\<lambda>q. let q1 = q\<lparr>rq_chooser := None\<rparr>
      in if rq_chooser_completed q1 then q1
         else q1\<lparr>rq_chooser_completed := True, rq_pending_error := err, rq_pending_chosen := chosen\<rparr>) d)"
  have d2: "terms (oe_now (ce_op e)) S c d2"
    unfolding d2_def by (rule terms_dispatch [OF terms_request [OF _ t]]) (simp add: Let_def)
  from terms_finish [OF q d2, of g] terms_complete [OF d2, of g r] d2 show ?thesis
    unfolding on_chooser_done_def Let_def [of "deliver_token_events g e events _"] d2_def [symmetric] Let_def [of "request_set _ _ _"]
    by (auto split: option.split)
qed

lemma terms_enumerated:
  assumes q: "cc_requests c r = Some q" "S = rq_session q"
  shows "terms (oe_now (ce_op e)) S c (on_enumerated g e r candidates cancelled c)"
proof -
  define c2 where "c2 = request_set r (\<lambda>q. q\<lparr>rq_enumerating := False, rq_workers := rq_workers q - 1\<rparr>)
      (deliver_token_events g e (ce_events e) c)"
  have c2: "terms (oe_now (ce_op e)) S c c2" unfolding c2_def by (rule terms_request [OF _ terms_dispatch]) simp_all
  have "terms (oe_now (ce_op e)) S c (enumerated_completed g e r candidates p c2)" for p
    by (auto simp: enumerated_completed_def intro!: terms_chooser_done [OF q] terms_complete terms_enumeration c2 split: option.split)
  then show ?thesis unfolding on_enumerated_def Let_def c2_def [symmetric]
    using c2 by (auto intro!: terms_complete terms_enumeration terms_cancel terms_request split: option.split)
qed

section \<open>Every step\<close>

lemma terms_request_add:
  assumes "lists_ok c"
  shows "terms now S c (request_add g q start c)"
proof -
  have n: "cc_requests c (cc_next_request c) = None" using assms unfolding lists_ok_def by blast
  then have "terms now S c (c\<lparr>cc_requests := (cc_requests c)(cc_next_request c \<mapsto> q), cc_next_request := cc_next_request c + 1\<rparr>)"
    by (auto simp: terms_def keeps_termsI(1))
  then show ?thesis by (simp add: request_add_def xcc_request_schedule_def Let_def terms_complete terms_request)
qed

lemma terms_session_new:
  assumes "lists_ok c"
  shows "terms now S c (xcc_session_new spec c)"
proof -
  have n: "cc_sessions c (cc_next_session c) = None" using assms unfolding lists_ok_def by blast
  have "terms now S c (session_put (cc_next_session c) (session_of a) c)" for a
    by (auto simp: terms_def keeps_termsI(1) session_of_reachable)
  then show ?thesis by (simp add: xcc_session_new_def Let_def split: option.split)
qed

text \<open>The session whose acquisition a step may end.\<close>

definition finishing :: "core \<Rightarrow> core_event \<Rightarrow> nat option" where
  "finishing c ev = (case ev of
     Cv_enumerated r candidates cancelled \<Rightarrow> Option.bind (cc_requests c r) rq_session
   | Cv_chooser r chosen err \<Rightarrow> Option.bind (cc_requests c r) rq_session
   | _ \<Rightarrow> None)"

lemma step_terms:
  fixes D :: "'w discovery_env" and e :: "'w core_env"
  assumes inv: "core_inv D ts g {} {} {} c" and step: "core_step D ts g c (e, ev) c'"
  shows "terms (oe_now (ce_op e)) (finishing c ev) c c'"
proof -
  have L: "lists_ok c" by (rule core_invD(1) [OF inv])
  from step show ?thesis
  proof (cases rule: core_step.cases)
    case (core_post p ps)
    have "terms (oe_now (ce_op e)) S (c\<lparr>cc_queue := ps\<rparr>) (coordinator_post g e p (c\<lparr>cc_queue := ps\<rparr>))" for S
      unfolding coordinator_post_def Let_def by (rule terms_check_shutdown) (simp del: terms_fields(16) add: terms_posted)
    with core_post show ?thesis by simp
  next
    case (core_enumerated r q candidates cancelled)
    then show ?thesis by (simp add: finishing_def terms_enumerated)
  next
    case (core_chooser r q rows chosen err)
    have "terms (oe_now (ce_op e)) (rq_session q) c (case chosen of None \<Rightarrow> c | Some x \<Rightarrow> core_note (Consented r x) c)"
      by (simp split: option.split)
    from terms_chooser_done [OF core_chooser(3) refl this] core_chooser show ?thesis by (simp add: finishing_def)
  next
    case (core_operation sid os ev' os')
    have "keeps_terms os os'" using own_step_weak core_operation by (metis keeps_termsI(3))
    with core_operation show ?thesis by (simp add: terms_session_goes)
  next
    case (core_desktop p ps)
    have "terms (oe_now (ce_op e)) S c (desktop_next p (c\<lparr>cc_desktop := ps\<rparr>))" for S
      by (cases p) (simp_all add: desktop_next_def completion_def terms_request split: option.split)
    with core_desktop show ?thesis by simp
  next
    case (core_return r)
    then show ?thesis by (simp add: completion_return_def split: option.split)
  next
    case (core_cancel r reason)
    then show ?thesis by (simp add: xcc_request_cancel_def terms_request)
  next
    case (core_capabilities r q)
    then show ?thesis by (simp add: capabilities_done_def terms_complete terms_request)
  qed (simp_all add: terms_token_event stopped_watch_def terms_check_shutdown terms_deliver xcc_acquire_async_def terms_request_add [OF L]
      xcc_sign_async_parsed_def xcc_get_capabilities_async_def session_close_async_def session_invalidate_async_def terms_session_new [OF L]
      xcc_session_check_principal_def xcc_context_shutdown_async_def)
qed

end
