(* ===== verification/OperationOutputs.thy ===== *)
theory OperationOutputs
  imports OperationSettles
begin

text \<open>
  What an operation's result is: the bytes that the token's module returned for the operation's mechanism and
  payload, re-encoded where the mechanism asks for it.  The statement is about the module's own functions
  (\<open>token_output\<close>), and it is an invariant of the operations' system, carried by the tasks between the
  workers and the main context (\<open>output_inv\<close>).
\<close>

section \<open>The module's calls\<close>

text \<open>The operation was initialised on the token with its mechanism and the key of the device.\<close>

definition token_begun :: "'w discovery_env \<Rightarrow> bool \<Rightarrow> certificate_device \<Rightarrow> certificate_mechanism \<Rightarrow> bool" where
  "token_begun D b d m \<longleftrightarrow> (\<exists>md w w'. dv_module d = Some md \<and>
     (if b then f_DecryptInit else f_SignInit) (d_functions D) md (dv_session d) (certificate_mechanism_to_ck m) (dv_private_key d) w
       = (w', CKR_OK))"

text \<open>
  The module said how much room the output needs, \<open>n\<close>, and then that it wrote \<open>n'\<close> bytes of that room; the output
  has that many bytes and they are those written.
\<close>

definition token_returned :: "'w discovery_env \<Rightarrow> bool \<Rightarrow> certificate_device \<Rightarrow> bytes \<Rightarrow> bytes \<Rightarrow> bool" where
  "token_returned D b d p out \<longleftrightarrow> (\<exists>md w w' w'' n unused n' written. dv_module d = Some md \<and>
     (if b then f_Decrypt else f_Sign) (d_functions D) md (dv_session d) p None w = (w', CKR_OK, n, unused) \<and>
     (if b then f_Decrypt else f_Sign) (d_functions D) md (dv_session d) p (Some n) w' = (w'', CKR_OK, n', written) \<and>
     length out = unat n' \<and> (\<forall>k. k < length out \<and> k < unat n \<and> k < length written \<longrightarrow> out ! k = written ! k))"

text \<open>A module that keeps to its word: the output is what it wrote.\<close>

lemma token_returned_written:
  assumes "token_returned D False d p out"
    and "\<And>md h p r w w' rv n bs. f_Sign (d_functions D) md h p r w = (w', rv, n, bs) \<Longrightarrow> rv = CKR_OK \<Longrightarrow>
      (case r of None \<Rightarrow> True | Some room \<Rightarrow> unat n \<le> unat room \<and> length bs = unat n)"
  shows "\<exists>md w w' n n'. dv_module d = Some md \<and> f_Sign (d_functions D) md (dv_session d) p (Some n) w = (w', CKR_OK, n', out)"
proof -
  from assms(1) obtain md w w' n n' written where f: "dv_module d = Some md"
    "f_Sign (d_functions D) md (dv_session d) p (Some n) w = (w', CKR_OK, n', written)"
    "length out = unat n'" "\<forall>k. k < length out \<and> k < unat n \<and> k < length written \<longrightarrow> out ! k = written ! k"
    unfolding token_returned_def by auto
  from assms(2) [OF f(2)] have "unat n' \<le> unat n" "length written = unat n'" by simp_all
  with f(3,4) have "out = written" by (intro nth_equalityI) auto
  with f(1,2) show ?thesis by blast
qed

lemma device_output_returned:
  assumes "dv_module d = Some md" "device_output D md b d p w = (w', Inr out)"
  shows "token_returned D b d p out"
proof -
  obtain w1 rv n unused where 1: "device_run D md b d p None w = (w1, rv, n, unused)" by (metis prod.exhaust)
  obtain w2 rv2 n' written where 2: "device_run D md b d p (Some n) w1 = (w2, rv2, n', written)" by (metis prod.exhaust)
  from assms(2) 1 2 have ok: "rv = CKR_OK" "rv2 = CKR_OK" by (auto simp: device_output_def split: if_splits)
  from assms(2) 1 2 ok have out: "out = map (\<lambda>i. if i < unat n then overwrite (replicate (unat n) 0) written ! i else d_junk D i) [0..<unat n']"
    by (simp add: device_output_def Let_def)
  have "overwrite (replicate (unat n) 0) written ! k = written ! k" if "k < unat n" "k < length written" for k
    using that by (simp add: overwrite_def nth_append)
  then have "length out = unat n' \<and> (\<forall>k. k < length out \<and> k < unat n \<and> k < length written \<longrightarrow> out ! k = written ! k)"
    unfolding out by simp
  moreover have "(if b then f_Decrypt else f_Sign) (d_functions D) md (dv_session d) p None w = (w1, CKR_OK, n, unused)"
    "(if b then f_Decrypt else f_Sign) (d_functions D) md (dv_session d) p (Some n) w1 = (w2, CKR_OK, n', written)"
    using 1 2 ok by (simp_all add: device_run_def split: if_splits)
  ultimately show ?thesis using assms(1) unfolding token_returned_def by blast
qed

lemma perform_begin_token:
  assumes "perform_begin D b m p d w = (w', q)" "case q of None \<Rightarrow> True | Some (Inl err) \<Rightarrow> False | Some (Inr out) \<Rightarrow> True"
  shows "token_begun D b d m" "q = Some (Inr out) \<Longrightarrow> token_returned D b d p out"
proof -
  from assms obtain md where md: "dv_module d = Some md" "dv_private_key d \<noteq> CK_INVALID_HANDLE"
    by (cases "dv_module d") (auto simp: perform_begin_def split: if_splits)
  obtain w1 aa where 1: "certificate_pkcs11_get_bool (d_functions D) md (dv_session d) (dv_private_key d) CKA_ALWAYS_AUTHENTICATE False w = (w1, aa)"
    by (metis prod.exhaust)
  obtain w2 rv where 2: "device_init D md b d m w1 = (w2, rv)" by (metis prod.exhaust)
  obtain w3 r where 3: "device_output D md b d p w2 = (w3, r)" by (metis prod.exhaust)
  from assms md 1 2 have ok: "rv = CKR_OK" by (auto simp: perform_begin_def split: if_splits)
  with 2 have "(if b then f_DecryptInit else f_SignInit) (d_functions D) md (dv_session d) (certificate_mechanism_to_ck m) (dv_private_key d) w1 = (w2, CKR_OK)"
    by (simp add: device_init_def split: if_splits)
  with md(1) show "token_begun D b d m" unfolding token_begun_def by blast
  assume "q = Some (Inr out)"
  with assms(1) md 1 2 3 ok have "r = Inr out" by (auto simp: perform_begin_def split: if_splits)
  with 3 show "token_returned D b d p out" by (intro device_output_returned [OF md(1)]) simp
qed

section \<open>The outputs of the operations\<close>

text \<open>A PIN of the key's own comes between the two halves; the second is done on the same session of the token.\<close>

definition token_output :: "'w discovery_env \<Rightarrow> op_effect list \<Rightarrow> nat \<Rightarrow> bool \<Rightarrow> certificate_mechanism \<Rightarrow> bytes \<Rightarrow> bytes \<Rightarrow> bool" where
  "token_output D log i b m p out \<longleftrightarrow> (\<exists>d d'. Performing i d b m p \<in> set log \<and> token_begun D b d m \<and>
     (d' = d \<or> Finishing i d' \<in> set log \<and> dv_session d' = dv_session d) \<and> token_returned D b d' p out)"

definition answer_form :: "certificate_mechanism \<Rightarrow> bytes \<Rightarrow> bytes \<Rightarrow> bool" where
  "answer_form m out v \<longleftrightarrow> (if bm_type m = CKM_ECDSA \<and> bm_encoding m = CERTIFICATE_SIGNATURE_DER
     then certificate_ecdsa_raw_to_der out = Inr v else v = out)"

abbreviation own_output :: "'w discovery_env \<Rightarrow> op_effect list \<Rightarrow> nat \<Rightarrow> operation \<Rightarrow> bytes \<Rightarrow> bool" where
  "own_output D log i x \<equiv> token_output D log i (op_decrypt x) (op_mechanism x) (op_payload x)"

definition begun_in :: "'w discovery_env \<Rightarrow> op_effect list \<Rightarrow> nat \<Rightarrow> operation \<Rightarrow> ck_ulong \<Rightarrow> bool" where
  "begun_in D log i x h \<longleftrightarrow> (\<exists>d. Performing i d (op_decrypt x) (op_mechanism x) (op_payload x) \<in> set log \<and>
     token_begun D (op_decrypt x) d (op_mechanism x) \<and> dv_session d = h)"

definition task_output :: "'w discovery_env \<Rightarrow> op_effect list \<Rightarrow> nat \<Rightarrow> operation \<Rightarrow> bool" where
  "task_output D log i x \<longleftrightarrow> (case op_task x of
     Task_signed r \<Rightarrow> (case r of Inr (Some out) \<Rightarrow> own_output D log i x out | _ \<Rightarrow> True)
   | Task_context h \<Rightarrow> begun_in D log i x h | Task_context_done h outcome \<Rightarrow> begun_in D log i x h | _ \<Rightarrow> True)"

definition answered_output :: "'w discovery_env \<Rightarrow> op_state \<Rightarrow> nat \<Rightarrow> bytes \<Rightarrow> bool" where
  "answered_output D s i v \<longleftrightarrow>
     (\<exists>x out. os_operations s i = Some x \<and> own_output D (os_log s) i x out \<and> answer_form (op_mechanism x) out v)"

definition output_inv :: "'w discovery_env \<Rightarrow> op_state \<Rightarrow> bool" where
  "output_inv D s \<longleftrightarrow> (\<forall>i x. os_operations s i = Some x \<longrightarrow> task_output D (os_log s) i x) \<and>
     (\<forall>i v. Op_done i (Inr v) \<in> set (os_log s) \<longrightarrow> answered_output D s i v)"

lemma token_outputI:
  assumes "Performing i d b m p \<in> set log" "token_begun D b d m" "token_returned D b d' p out"
    "d' = d \<or> Finishing i d' \<in> set log \<and> dv_session d' = dv_session d"
  shows "token_output D log i b m p out"
  unfolding token_output_def using assms by blast

lemma token_output_mono: "token_output D log i b m p out \<Longrightarrow> set log \<subseteq> set log' \<Longrightarrow> token_output D log' i b m p out"
  unfolding token_output_def by blast

definition same_request :: "operation \<Rightarrow> operation \<Rightarrow> bool" where
  "same_request x y \<longleftrightarrow> op_decrypt y = op_decrypt x \<and> op_mechanism y = op_mechanism x \<and> op_payload y = op_payload x"

lemma begun_in_mono:
  assumes "begun_in D log i x h" "set log \<subseteq> set log'" "same_request x y"
  shows "begun_in D log' i y h"
proof -
  have y: "op_decrypt y = op_decrypt x" "op_mechanism y = op_mechanism x" "op_payload y = op_payload x"
    using assms(3) by (simp_all add: same_request_def)
  from assms(1,2) show ?thesis unfolding begun_in_def y by blast
qed

lemma own_output_mono: "own_output D log i x out \<Longrightarrow> set log \<subseteq> set log' \<Longrightarrow> same_request x y \<Longrightarrow> own_output D log' i y out"
  using token_output_mono by (simp add: same_request_def)

lemma task_output_mono:
  "task_output D log i x \<Longrightarrow> set log \<subseteq> set log' \<Longrightarrow> same_request x y \<Longrightarrow> op_task y = op_task x \<Longrightarrow> task_output D log' i y"
  by (auto simp: task_output_def split: op_task.split sum.split option.split intro: begun_in_mono own_output_mono)

lemma task_output_idle: "\<not> working x \<Longrightarrow> task_output D log i x"
  by (auto simp: task_output_def working_def in_context_def split: op_task.splits sum.split option.split)

text \<open>A step keeps the requests; a task that holds an output has it from before, or has one of the token.\<close>

lemma output_inv_step:
  assumes inv: "output_inv D s" and log: "os_log t = new @ os_log s"
    and keep: "\<And>i x. os_operations s i = Some x \<Longrightarrow> \<exists>y. os_operations t i = Some y \<and> same_request x y"
    and tasks: "\<And>i y. os_operations t i = Some y \<Longrightarrow> working y \<Longrightarrow>
      (\<exists>x. os_operations s i = Some x \<and> same_request x y \<and> op_task y = op_task x) \<or> task_output D (os_log t) i y"
    and new: "\<And>i v. Op_done i (Inr v) \<in> set new \<Longrightarrow> answered_output D t i v"
  shows "output_inv D t"
proof -
  have sub: "set (os_log s) \<subseteq> set (os_log t)" using log by auto
  have "task_output D (os_log t) i y" if y: "os_operations t i = Some y" for i y
  proof (cases "working y")
    case True
    from tasks [OF y True] show ?thesis
    proof
      assume "\<exists>x. os_operations s i = Some x \<and> same_request x y \<and> op_task y = op_task x"
      then obtain x where x: "os_operations s i = Some x" "same_request x y" "op_task y = op_task x" by blast
      with inv have "task_output D (os_log s) i x" by (simp add: output_inv_def)
      from task_output_mono [OF this sub x(2,3)] show ?thesis .
    qed
  qed (rule task_output_idle)
  moreover have "answered_output D t i v" if "Op_done i (Inr v) \<in> set (os_log t)" for i v
  proof (cases "Op_done i (Inr v) \<in> set new")
    case False
    with that log have "Op_done i (Inr v) \<in> set (os_log s)" by simp
    with inv have "answered_output D s i v" by (simp add: output_inv_def)
    then obtain x out where x: "os_operations s i = Some x" "own_output D (os_log s) i x out" "answer_form (op_mechanism x) out v"
      unfolding answered_output_def by blast
    from keep [OF x(1)] obtain y where "os_operations t i = Some y" "same_request x y" by blast
    moreover have "own_output D (os_log t) i y out" by (rule own_output_mono [OF x(2) sub \<open>same_request x y\<close>])
    moreover have "answer_form (op_mechanism y) out v" using x(3) \<open>same_request x y\<close> by (simp add: same_request_def)
    ultimately show ?thesis unfolding answered_output_def by blast
  qed (rule new)
  ultimately show ?thesis unfolding output_inv_def by blast
qed

lemma output_inv_calm:
  assumes "output_inv D s" "calm s t"
  shows "output_inv D t"
proof -
  from assms(2) obtain new where new: "os_log t = new @ os_log s" "list_all failure_note new"
    and ops: "\<And>i. rel_option calm_op (os_operations s i) (os_operations t i)" unfolding calm_def by blast
  show ?thesis
  proof (rule output_inv_step [OF assms(1) new(1)])
    fix i x
    assume "os_operations s i = Some x"
    with ops [of i] show "\<exists>y. os_operations t i = Some y \<and> same_request x y"
      by (cases "os_operations t i") (auto simp: calm_op_def same_request_def)
  next
    fix i y
    assume "os_operations t i = Some y" "working y"
    with ops [of i] show "(\<exists>x. os_operations s i = Some x \<and> same_request x y \<and> op_task y = op_task x) \<or> task_output D (os_log t) i y"
      by (cases "os_operations s i") (auto simp: calm_op_def same_request_def)
  next
    show "answered_output D t i v" if "Op_done i (Inr v) \<in> set new" for i v
      using new(2) that by (auto simp: list_all_iff failure_note_def)
  qed
qed

text \<open>One operation gets a new task, and no result is reported.\<close>

lemma output_inv_task:
  assumes inv: "output_inv D s" and x: "os_operations s i = Some x"
    and t: "os_operations t = (os_operations s)(i \<mapsto> y)" "os_log t = new @ os_log s" "\<And>j v. Op_done j (Inr v) \<notin> set new"
    and y: "same_request x y" "working y \<Longrightarrow> task_output D (os_log t) i y"
  shows "output_inv D t"
  by (rule output_inv_step [OF inv t(2)])
    (use x t(1,3) y in \<open>auto simp: same_request_def split: if_splits\<close>)

section \<open>The workers\<close>

lemma sign_thread_output:
  assumes inv: "output_inv D s"
  shows "output_inv D (sign_thread D e i s)"
proof (cases rule: sign_thread_cases [of D e i s])
  case (refused err)
  then show ?thesis using output_inv_calm [OF inv op_finish_calm(1)] by simp
next
  case (stale err d1 w1 q)
  then show ?thesis using output_inv_calm [OF inv calm.same_trans [OF calm.same_device op_finish_calm(1)]] by simp
next
  case (retry d1 w1 q)
  have "calm s (op_set i (\<lambda>x. x\<lparr>op_retry_open := True\<rparr>) (device_set d1 s))"
    by (rule calm.same_trans [OF calm.same_device calm.same_flag(1)]) simp
  from output_inv_calm [OF inv calm.same_trans [OF this op_finish_calm(1)]] retry show ?thesis by simp
next
  case (perform x c d1 w1 w2 q)
  let ?p = "Performing i d1 (op_decrypt x) (op_mechanism x) (op_payload x)"
  show ?thesis
  proof (cases q)
    case None
    from perform_begin_token(1) [OF perform(8)] None have b: "token_begun D (op_decrypt x) d1 (op_mechanism x)" by simp
    show ?thesis unfolding perform(9) None option.case
      by (rule output_inv_task [OF inv perform(1), where y = "x\<lparr>op_task := Task_context (dv_session d1)\<rparr>" and
          new = "[Context_prompt i (login_request True x (os_session s)), ?p]"])
        (use perform(1) b in \<open>auto simp: same_request_def task_output_def begun_in_def fun_eq_iff\<close>)
  next
    case (Some r)
    have out: "task_output D (?p # os_log s) i (x\<lparr>op_task := Task_signed (signed_result (op_decrypt x) r)\<rparr>)"
    proof (cases r)
      case (Inr out)
      from perform_begin_token [OF perform(8)] Some Inr have "token_begun D (op_decrypt x) d1 (op_mechanism x)"
        "token_returned D (op_decrypt x) d1 (op_payload x) out" by simp_all
      then show ?thesis using Inr by (auto simp: task_output_def signed_result_def token_output_def)
    qed (simp add: task_output_def signed_result_def)
    show ?thesis unfolding perform(9) Some option.case
      by (rule output_inv_task [OF inv perform(1), where y = "x\<lparr>op_task := Task_signed (signed_result (op_decrypt x) r)\<rparr>" and new = "[?p]"])
        (use perform(1) out in \<open>auto simp: same_request_def op_finish_task_def fun_eq_iff\<close>)
  qed
qed (simp add: inv)

lemma authenticated_output:
  assumes inv: "output_inv D s" and x: "os_operations s i = Some x" "op_task x = Task_context_done h outcome"
  shows "output_inv D (sign_thread_authenticated D e i s)"
proof -
  let ?r = "authenticate_context e h outcome x (os_session s)" and ?d = "se_device (os_session s)"
  have "?r = Inr () \<longrightarrow> dv_module ?d \<noteq> None" using authenticated_module by blast
  then obtain d1 w1 result where p: "perform_end D (op_decrypt x) (op_payload x) ?r ?d (oe_world e) = Some ((d1, w1), result)"
    "\<forall>err. ?r = Inl err \<longrightarrow> result = Inl err"
    by (rule perform_end_cases [where D = D and decrypt = "op_decrypt x" and payload = "op_payload x" and w = "oe_world e"])
  let ?new = "if ?r = Inr () then [Finishing i ?d] else []"
  let ?y = "x\<lparr>op_context_outcome := outcome, op_task := Task_signed (signed_result (op_decrypt x) result)\<rparr>"
  have "task_output D (?new @ os_log s) i ?y"
  proof (cases "\<exists>out. result = Inr out")
    case True
    then obtain out where out: "result = Inr out" by blast
    with p(2) have r: "?r = Inr ()" by (cases ?r) auto
    then have h: "dv_session ?d = h" by (auto simp: authenticate_context_def split: if_splits sum.splits)
    from p(1) r out obtain md w where "dv_module ?d = Some md" "device_output D md (op_decrypt x) ?d (op_payload x) (oe_world e) = (w, Inr out)"
      by (auto simp: perform_end_def split: option.splits prod.splits)
    then have ret: "token_returned D (op_decrypt x) ?d (op_payload x) out" by (rule device_output_returned)
    have "task_output D (os_log s) i x" using inv x(1) by (simp add: output_inv_def)
    with x(2) obtain d where "Performing i d (op_decrypt x) (op_mechanism x) (op_payload x) \<in> set (os_log s)"
      "token_begun D (op_decrypt x) d (op_mechanism x)" "dv_session d = h" by (auto simp: task_output_def begun_in_def)
    with ret h r have "own_output D (?new @ os_log s) i x out"
      by (intro token_outputI [where d = d and d' = ?d]) (simp_all del: disj_not1)
    with out show ?thesis by (simp add: task_output_def signed_result_def)
  qed (auto simp: task_output_def signed_result_def split: sum.split)
  moreover have "sign_thread_authenticated D e i s = op_finish_task i (signed_result (op_decrypt x) result) (device_set d1
      (if ?r = Inr () then op_note (Finishing i ?d) (op_set i (\<lambda>x. x\<lparr>op_context_outcome := outcome\<rparr>) (s\<lparr>os_operation_lock := None\<rparr>))
       else op_set i (\<lambda>x. x\<lparr>op_context_outcome := outcome\<rparr>) (s\<lparr>os_operation_lock := None\<rparr>)))"
    by (simp add: sign_thread_authenticated_def x p(1) Let_def)
  ultimately show ?thesis
    by (intro output_inv_task [OF inv x(1), where y = ?y and new = ?new])
      (auto simp: x(1) same_request_def op_finish_task_def fun_eq_iff)
qed

section \<open>The answer\<close>

text \<open>What \<open>on_signed\<close> reports is the signature of the task, in the form asked for.\<close>

lemma on_signed_answer:
  assumes x: "os_operations s i = Some x" "op_task x = Task_signed (Inr (Some out))" "\<not> op_answered x"
    and log: "os_log (on_signed e i s) = Op_done i (Inr v) # os_log s"
  shows "answer_form (op_mechanism x) out v"
proof -
  have "\<not> op_is_cancelled x"
  proof
    assume c: "op_is_cancelled x"
    then have "calm s (on_signed e i s)"
      using x(1,2) by (intro calm.same_on_signed [OF TrueI]) (auto simp: task_propagate_def)
    then show False using log by (auto simp: calm_def failure_note_def append_eq_Cons_conv Cons_eq_append_conv)
  qed
  then have r: "task_propagate x (Inr (Some out)) = Inr (Some out)" by (simp add: task_propagate_def)
  have retry: "\<not> op_retry_open x"
    using log x by (auto simp: on_signed_def r Let_def operation_fail_def open_operation_def split: if_splits)
  show ?thesis
  proof (cases "bm_type (op_mechanism x) = CKM_ECDSA \<and> bm_encoding (op_mechanism x) = CERTIFICATE_SIGNATURE_DER")
    case True
    with log x retry show ?thesis
      by (cases "certificate_ecdsa_raw_to_der out")
        (auto simp: on_signed_def r Let_def operation_fail_def operation_succeed_def answer_form_def)
  next
    case False
    with log x retry show ?thesis
      by (auto simp: on_signed_def r Let_def operation_succeed_def answer_form_def)
  qed
qed

lemma on_signed_output:
  assumes inv: "output_inv D s" and op: "op_inv {} s" and x: "os_operations s i = Some x" "op_task x = Task_signed r"
  shows "output_inv D (on_signed e i s)"
  using x
proof (cases rule: on_signed_cases [where e = e])
  case calm
  from inv calm(1) show ?thesis by (rule output_inv_calm)
next
  case (result out v)
  have n: "\<not> op_answered x" using task_out(1) [OF op x(1)] x(2) by simp
  let ?y = "x\<lparr>op_task := Task_none, op_answered := True\<rparr>"
  have t: "os_operations (on_signed e i s) = (os_operations s)(i \<mapsto> ?y)" "os_log (on_signed e i s) = [Op_done i (Inr v)] @ os_log s"
    unfolding result(3) using x(1) n by (auto simp: operation_succeed_def fun_eq_iff)
  have x': "op_task x = Task_signed (Inr (Some out))" using x(2) result(1) by simp
  have f: "answer_form (op_mechanism x) out v" by (rule on_signed_answer [OF x(1) x' n, where e = e]) (use t(2) in simp)
  have "task_output D (os_log s) i x" using inv x(1) by (simp add: output_inv_def)
  with x' have o: "own_output D (os_log s) i x out" by (simp add: task_output_def)
  show ?thesis
  proof (rule output_inv_step [OF inv t(2)])
    show "answered_output D (on_signed e i s) j u" if "Op_done j (Inr u) \<in> set [Op_done i (Inr v)]" for j u
      using that t f token_output_mono [OF o, of "os_log (on_signed e i s)"] by (auto simp: answered_output_def)
  qed (use x(1) t(1) in \<open>auto simp: same_request_def working_def in_context_def split: if_splits\<close>)
qed

section \<open>Every step\<close>

lemma output_inv_op_step:
  assumes op: "op_inv {} s" and inv: "output_inv D s" and step: "op_step D ts s l t"
  shows "output_inv D t"
proof -
  have c: "output_inv D u" if "calm s u" for u by (rule output_inv_calm [OF inv that])
  have same: "output_inv D u" if "os_operations u = os_operations s" "os_log u = os_log s" for u
    using inv unfolding output_inv_def answered_output_def that .
  show ?thesis using step
  proof (cases rule: op_step.cases)
    case (step_perform e r)
    show ?thesis
    proof (cases rule: perform_cases [of e r s])
      case (refused err)
      then show ?thesis using step_perform c calm.same_note [of "Op_refused err" s] by (simp add: failure_note_def)
    next
      case (accepted cd m p)
      have none: "os_operations s (os_next s) = None"
        using op_atD(1) [OF op, of "os_next s"] by (cases "os_operations s (os_next s)") auto
      show ?thesis unfolding step_perform(2)
      proof (rule output_inv_step [OF inv, where new = "[]"])
        show "os_log (certificate_broker_perform e r s) = [] @ os_log s" by (simp add: accepted(10))
      qed (use none in \<open>auto simp: accepted(10) same_request_def working_def in_context_def split: if_splits\<close>)
    qed
  next
    case (step_sign i x e)
    then show ?thesis using sign_thread_output [OF inv] by simp
  next
    case (step_sign_authenticated i x h outcome e)
    then show ?thesis using authenticated_output [OF inv] by simp
  next
    case (step_signed i x r e)
    then show ?thesis using on_signed_output [OF inv op] by simp
  next
    case (step_context_done i x h e outcome)
    have "task_output D (os_log s) i x" using inv step_context_done(3) by (simp add: output_inv_def)
    then show ?thesis unfolding step_context_done(2)
      by (intro output_inv_task [OF inv step_context_done(3), where y = "x\<lparr>op_task := Task_context_done h outcome\<rparr>" and new = "[]"])
        (use step_context_done in \<open>auto simp: on_context_pin_done_def same_request_def task_output_def begun_in_def fun_eq_iff\<close>)
  next
    case (step_opened i x r e)
    have w: "\<forall>j\<in>set (waiters s). se_login_in_progress (os_session s) \<or> True" by simp
    then show ?thesis using c step_opened calm.same_on_opened [OF TrueI w, where e = e] by simp
  qed (auto intro: c same calm.same_open_check calm.same_sign_check calm.same_open_thread calm.same_context_login
      calm.same_do_login calm.same_pin_done calm.same_finish_login calm.same_release_login calm.same_released calm.same_cancel
      calm.same_cancel_idle calm.same_expired calm.same_invalidate calm.same_close)
qed

interpretation outputs: step_invariant "\<lambda>s. s = op_start" "op_step D ts" "\<lambda>s. op_inv {} s \<and> output_inv D s" for D ts
proof unfold_locales
  show "op_inv {} s \<and> output_inv D s" if "s = op_start" for s
    using that op_inv_start by (simp add: output_inv_def op_start_def)
  show "op_inv {} t \<and> output_inv D t" if "op_inv {} s \<and> output_inv D s" "op_step D ts s l t" for s l t
    using that op_inv_step output_inv_op_step by blast
qed

lemma answers_are_outputs:
  fixes D :: "'w discovery_env"
  assumes "op_reachable D ts s" "Op_done i (Inr v) \<in> set (os_log s)"
  shows "answered_output D s i v"
  using outputs.reach_inv [OF assms(1)] assms(2) by (simp add: output_inv_def)

end
