(* ===== verification/CoreGuarantees.thy ===== *)
theory CoreGuarantees
  imports CoreSamples CoreTerms OperationOutputs
begin

text \<open>
  The properties of the core: its sessions are runs of \<open>Operations\<close>, a grant follows the user's consent and is
  used only once it is delivered, and lasts as long as was asked, a signature that is delivered is the token's own
  output over the request's data,
  every request is answered once, a failure leaves no grant, and the shutdown leaves nothing behind.
\<close>

section \<open>What the invariant says of a grant\<close>

lemma core_session:
  assumes "core_reachable D ts g c" "cc_sessions c sid = Some os"
  shows "session_ok D ts {} c sid os" "op_reachable D ts os"
proof -
  show "session_ok D ts {} c sid os" by (rule core_invD(3) [OF core_reachable_inv(1) [OF assms(1)] assms(2)])
  then show "op_reachable D ts os" by (simp add: session_ok_def)
qed

lemma core_request:
  assumes "core_reachable D ts g c" "cc_requests c r = Some q"
  shows "place_ok {} {} c r q" "acquire_ok g {} c r q" "spec_ok q" "result_ok c r q" "link_ok {} c r q" "kind_ok c q"
  using request_okD [OF core_invD(2) [OF core_reachable_inv(1) [OF assms(1)] assms(2)]] by simp_all

lemma delivered_iff: "r \<in> set (delivered c) \<longleftrightarrow> (\<exists>err cand sig. Done r err cand sig \<in> set (cc_log c))"
proof -
  have "r \<in> set (concat (map delivered_of l)) \<longleftrightarrow> (\<exists>err cand sig. Done r err cand sig \<in> set l)" for l
    by (induction l) (auto simp: delivered_of_def split: core_effect.splits)
  then show ?thesis by (simp add: delivered_def)
qed

lemma delivered_unique:
  assumes "distinct (concat (map delivered_of l))" "Done r e1 c1 s1 \<in> set l" "Done r e2 c2 s2 \<in> set l"
  shows "e1 = e2 \<and> c1 = c2 \<and> s1 = s2"
  using assms
proof (induction l)
  case (Cons x l)
  have in': "r \<in> set (concat (map delivered_of l))" if "Done r e c s \<in> set l" for e c s
    using that by (force simp: delivered_of_def)
  from Cons show ?case using in' by (cases "x = Done r e1 c1 s1"; cases "x = Done r e2 c2 s2") (auto simp: delivered_of_def)
qed simp

text \<open>What a delivered completion says of its request.\<close>

lemma done_request:
  assumes reach: "core_reachable D ts g c" and d: "Done r err cand sig \<in> set (cc_log c)"
  obtains q where "cc_requests c r = Some q" "rq_answered q" "err = rq_error q" "cand = sent_candidate q" "sig = sent_signature q"
    "rq_candidate q \<noteq> None \<longrightarrow> err = XCC_OK"
proof -
  note inv = core_reachable_inv(1) [OF reach]
  have r: "r \<in> set (delivered c)" using d by (auto simp: delivered_iff)
  with lists_okD(6) [OF inv, of r] obtain q where q: "cc_requests c r = Some q" by auto
  from core_request(4) [OF reach q] r have e: "Done r (rq_error q) (sent_candidate q) (sent_signature q) \<in> set (cc_log c)"
    "rq_candidate q \<noteq> None \<longrightarrow> rq_error q = XCC_OK" by (simp_all add: result_ok_def)
  have "distinct (delivered c)" using core_invD(1) [OF inv] by (simp add: lists_ok_def)
  with delivered_unique [OF _ d e(1)] have "err = rq_error q" "cand = sent_candidate q" "sig = sent_signature q" by (simp_all add: delivered_def)
  moreover have "rq_answered q" using answered_iff [OF inv q] r by simp
  ultimately show thesis using that [OF q] e(2) by simp
qed

definition consented :: "core \<Rightarrow> nat \<Rightarrow> certificate_candidate \<Rightarrow> xcc_session \<Rightarrow> nat \<Rightarrow> xcc_request \<Rightarrow> certificate_candidate \<Rightarrow> bool" where
  "consented c sid cd se r q x \<longleftrightarrow> cc_requests c r = Some q \<and> rq_session q = Some sid \<and> rq_kind q = XCC_RESULT_ACQUIRE \<and>
     Consented r x \<in> set (cc_log c) \<and> (x = cd \<or> certificate_candidate_same (Some x) (Some cd)) \<and>
     certificate_filter_matches cd (rq_filter q) \<and> has_serial cd \<and>
     se_purpose se = rq_purpose q \<and> cf_purpose (rq_filter q) = rq_purpose q \<and> se_may_sign se = (rq_may_sign q \<and> cd_can_sign cd) \<and>
     \<not> se_may_decrypt se \<and> se_lifetime se = rq_lifetime q \<and> 0 < unat (se_lifetime se) \<and> unat (se_lifetime se) \<le> 3600"

lemma grant_consented:
  assumes reach: "core_reachable D ts g c" and os: "cc_sessions c sid = Some os" and g: "se_granted (os_session os)"
  shows "\<exists>r q cd x sig. se_candidate (os_session os) = Some cd \<and> consented c sid cd (os_session os) r q x \<and>
    (if se_grant_pending (os_session os) then r \<in> set (outstanding c) else Done r XCC_OK (Some cd) sig \<in> set (cc_log c))"
  using core_session(1) [OF reach os]
proof (cases rule: session_okE)
  case (granted r q cd)
  note inv = core_reachable_inv(1) [OF reach]
  note Q = core_request [OF reach granted(5)]
  have sid: "rq_session q = Some sid" using granted(4) [of r] granted(5) by (simp add: holding_def)
  have k: "rq_kind q = XCC_RESULT_ACQUIRE" "rq_answered q" "rq_validation_error q = XCC_OK" "chosen_ok (cc_log c) r q cd" "has_serial cd"
    using Q(2) granted(6) by (simp_all add: acquire_ok_def)
  from k(4) obtain x where x: "Consented r x \<in> set (cc_log c)" "x = cd \<or> certificate_candidate_same (Some x) (Some cd)"
    "certificate_filter_matches cd (rq_filter q)" by (auto simp: chosen_ok_def offer_ok_def)
  have s: "rq_lifetime q \<noteq> 0" "unat (rq_lifetime q) \<le> 3600" "cf_purpose (rq_filter q) = rq_purpose q" using Q(3) k by (simp_all add: spec_ok_def)
  have "0 < unat (rq_lifetime q)" using s(1) by (simp add: unat_gt_0)
  with granted(5,7) sid k x s have c: "consented c sid cd (os_session os) r q x" unfolding consented_def granted_by_def by simp
  have "Done r XCC_OK (Some cd) (sent_signature q) \<in> set (cc_log c)" if "\<not> se_grant_pending (os_session os)"
  proof -
    have r: "r \<in> set (delivered c)" using answered_iff [OF inv granted(5)] k(2) granted(8) that by simp
    with Q(4) granted(6) have e: "rq_error q = XCC_OK" "Done r (rq_error q) (sent_candidate q) (sent_signature q) \<in> set (cc_log c)"
      by (auto simp: result_ok_def)
    with Q(4) k have "rq_candidate_present q" by (simp add: result_ok_def)
    with e granted(6) show ?thesis by (simp add: sent_candidate_def)
  qed
  with c granted(7,8) show ?thesis unfolding granted_by_def by (metis)
qed (use g in simp)

text \<open>The token works for a session only under a grant whose delivery is logged.\<close>

lemma core_token_work:
  assumes reach: "core_reachable D ts g c" and os: "cc_sessions c sid = Some os" and step: "op_step D ts os (e, l) os'"
    and log: "os_log os' = new @ os_log os" and p: "Performing i d b m p \<in> set new"
  shows "\<exists>r q cd x sig. consented c sid cd (os_session os) r q x \<and> Done r XCC_OK (Some cd) sig \<in> set (cc_log c) \<and>
    dv_candidate d = Some cd \<and> device_bound D ts d \<and> \<not> b \<and> rq_may_sign q \<and> cd_can_sign cd \<and>
    \<not> se_closed (os_session os) \<and> \<not> xcc_session_is_expired (oe_now e) (os_session os)"
proof -
  from token_work [OF core_session(2) [OF reach os] step log p] obtain c' where t:
    "se_candidate (os_session os) = Some c'" "se_granted (os_session os)" "\<not> se_grant_pending (os_session os)" "\<not> se_closed (os_session os)"
    "\<not> xcc_session_is_expired (oe_now e) (os_session os)" "if b then se_may_decrypt (os_session os) else se_may_sign (os_session os)"
    "dv_candidate d = Some c'" "device_bound D ts d" by blast
  from grant_consented [OF reach os t(2)] t(1,3) obtain r q x sig where c: "consented c sid c' (os_session os) r q x"
    "Done r XCC_OK (Some c') sig \<in> set (cc_log c)" by auto
  then have "\<not> b" "rq_may_sign q" "cd_can_sign c'" using t(6) by (auto simp: consented_def split: if_splits)
  with c t show ?thesis by blast
qed

section \<open>Signatures\<close>

lemma op_log_grows:
  assumes "op_reachable D ts s" "op_step D ts s (e, l) t"
  shows "\<exists>new. os_log t = new @ os_log s"
proof -
  from grant.reach_inv [OF assms(1)] have inv: "op_inv {} s" by simp
  show ?thesis using inv assms(2)
  proof (cases rule: step_log)
    case (sign f j x)
    show ?thesis unfolding sign(2)
    proof (cases rule: sign_thread_cases [of D f j s])
      case (perform x c d1 w1 w2 q)
      then show "\<exists>new. os_log (sign_thread D f j s) = new @ os_log s" by (simp add: perform(9) op_finish_task_def split: option.split)
    qed (simp_all add: op_finish_task_def)
  next
    case (authenticated f j x h outcome)
    then show ?thesis using authenticated_log [OF authenticated(3,4), of D f] by simp
  qed auto
qed

lemma result_performed:
  fixes D :: "'w discovery_env"
  assumes reach: "op_reachable D ts os" and r: "Op_done i (Inr v) \<in> set (os_log os)"
  shows "\<exists>x d d' out. os_operations os i = Some x \<and> Performing i d (op_decrypt x) (op_mechanism x) (op_payload x) \<in> set (os_log os) \<and>
    dv_candidate d = se_candidate (os_session os) \<and> token_begun D (op_decrypt x) d (op_mechanism x) \<and>
    (d' = d \<or> Finishing i d' \<in> set (os_log os) \<and> dv_session d' = dv_session d) \<and>
    token_returned D (op_decrypt x) d' (op_payload x) out \<and> answer_form (op_mechanism x) out v"
proof -
  from answers_are_outputs [OF reach r] obtain x out where x: "os_operations os i = Some x" "own_output D (os_log os) i x out"
    "answer_form (op_mechanism x) out v" unfolding answered_output_def by blast
  from x(2) obtain d d' where d: "Performing i d (op_decrypt x) (op_mechanism x) (op_payload x) \<in> set (os_log os)"
    "token_begun D (op_decrypt x) d (op_mechanism x)" "d' = d \<or> Finishing i d' \<in> set (os_log os) \<and> dv_session d' = dv_session d"
    "token_returned D (op_decrypt x) d' (op_payload x) out" unfolding token_output_def by blast
  from grant.reach_inv [OF reach] have "grant_inv D ts os" by simp
  from used_operation [OF this d(1)] have "dv_candidate d = se_candidate (os_session os)" by blast
  with x d show ?thesis by blast
qed

lemma delivered_signature:
  assumes reach: "core_reachable D ts g c" and d: "Done r err cand (Some v) \<in> set (cc_log c)"
  shows "\<exists>q sid os i x dev dev' out cd. cc_requests c r = Some q \<and> rq_kind q = XCC_RESULT_SIGN \<and> rq_session q = Some sid \<and> cc_sessions c sid = Some os \<and>
    cc_callbacks c sid i = Some r \<and> os_operations os i = Some x \<and> Op_done i (Inr v) \<in> set (os_log os) \<and>
    Performing i dev False (op_mechanism x) (op_payload x) \<in> set (os_log os) \<and> token_begun D False dev (op_mechanism x) \<and>
    (dev' = dev \<or> Finishing i dev' \<in> set (os_log os) \<and> dv_session dev' = dv_session dev) \<and>
    token_returned D False dev' (op_payload x) out \<and> answer_form (op_mechanism x) out v \<and>
    dv_candidate dev = Some cd \<and> se_candidate (os_session os) = Some cd \<and> se_granted (os_session os) \<and> \<not> se_grant_pending (os_session os) \<and>
    certificate_mechanism_parse (or_mechanism_name (rq_input q)) (or_parameters (rq_input q)) (cd_key_type cd) (cd_key_size cd) False =
      Inr (op_mechanism x) \<and>
    certificate_mechanism_prepare (op_mechanism x) (or_data (rq_input q)) = Inr (op_payload x) \<and> err = XCC_OK \<and> cand = None"
proof -
  from reach d obtain q where q: "cc_requests c r = Some q" "rq_answered q" "err = rq_error q" "cand = sent_candidate q" "Some v = sent_signature q"
    "rq_candidate q \<noteq> None \<longrightarrow> err = XCC_OK" by (rule done_request)
  note Q = core_request [OF reach q(1)]
  have v: "rq_signature_present q" "rq_signature q = Some v" using q(5) by (simp_all add: sent_signature_def split: if_splits)
  with Q(5) obtain i where i: "rq_operation q = Some i" by (cases "rq_operation q") (simp_all add: link_ok_def)
  with Q(5) obtain sid os x where l: "rq_kind q = XCC_RESULT_SIGN" "rq_session q = Some sid" "cc_callbacks c sid i = Some r" "cc_sessions c sid = Some os"
    "linked {} q sid i os x" unfolding link_ok_def by blast
  from l(5) v(2) have a: "os_operations os i = Some x" "asked_for q os x" "Op_done i (Inr v) \<in> set (os_log os)" by (simp_all add: linked_def)
  note reach_os = core_session(2) [OF reach l(4)]
  from result_performed [OF reach_os a(3)] a(1) obtain dev dev' out where
    dev: "Performing i dev (op_decrypt x) (op_mechanism x) (op_payload x) \<in> set (os_log os)" "dv_candidate dev = se_candidate (os_session os)"
    and out: "token_begun D (op_decrypt x) dev (op_mechanism x)" "dev' = dev \<or> Finishing i dev' \<in> set (os_log os) \<and> dv_session dev' = dv_session dev"
      "token_returned D (op_decrypt x) dev' (op_payload x) out" "answer_form (op_mechanism x) out v" by auto
  have "\<not> (\<not> se_granted (os_session os) \<or> se_grant_pending (os_session os))" using no_operations [OF reach_os] a(1) by (metis option.distinct(1))
  then have live: "se_granted (os_session os)" "\<not> se_grant_pending (os_session os)" by simp_all
  have none: "cand = None" using Q(2) l(1) q(4) by (auto simp: acquire_ok_def sent_candidate_def)
  have ok: "err = XCC_OK" using Q(4) v(1) q(3) by (auto simp: result_ok_def)
  from a(2) obtain cd where cd: "\<not> op_decrypt x" "se_candidate (os_session os) = Some cd"
    "certificate_mechanism_parse (or_mechanism_name (rq_input q)) (or_parameters (rq_input q)) (cd_key_type cd) (cd_key_size cd) False =
      Inr (op_mechanism x)" "certificate_mechanism_prepare (op_mechanism x) (or_data (rq_input q)) = Inr (op_payload x)"
    by (auto simp: asked_for_def)
  from q(1) l a dev out live none ok cd show ?thesis
    by (intro exI [of _ q] exI [of _ sid] exI [of _ os] exI [of _ i] exI [of _ x] exI [of _ dev] exI [of _ dev'] exI [of _ out] exI [of _ cd])
      (simp del: disj_not1)
qed

section \<open>Starts\<close>

text \<open>The owner of a session, as a request that starts must have it.\<close>

definition owner_ok :: "core \<Rightarrow> xcc_request \<Rightarrow> xcc_session \<Rightarrow> bool" where
  "owner_ok c q se \<longleftrightarrow> \<not> se_closed se \<and> se_owner_generation se = cc_generation c \<and> pr_owner_generation (rq_principal q) = cc_generation c \<and>
     pr_app_id (rq_principal q) \<noteq> None \<and> se_app_id se = pr_app_id (rq_principal q) \<and>
     (pr_identity_present (rq_principal q) \<and> se_identity_seen se \<longrightarrow> level_number (se_identity_level se) \<le> pr_identity_level (rq_principal q))"

lemma principal_check_ok:
  assumes "principal_check sid (Some p) c = (c', XCC_OK)"
  shows "\<exists>os. cc_sessions c sid = Some os \<and> \<not> se_closed (os_session os) \<and> se_owner_generation (os_session os) = cc_generation c \<and>
    pr_owner_generation p = cc_generation c \<and> se_app_id (os_session os) = pr_app_id p \<and>
    (pr_identity_present p \<and> se_identity_seen (os_session os) \<longrightarrow> level_number (se_identity_level (os_session os)) \<le> pr_identity_level p) \<and>
    (pr_identity_present p \<longrightarrow> (\<exists>os'. cc_sessions c' sid = Some os' \<and> se_identity_seen (os_session os') \<and>
       level_number (se_identity_level (os_session os')) = pr_identity_level p))"
proof -
  have lv: "level_number (level_of l) = l" if "\<not> 2 < l" for l
  proof -
    from that have "l \<le> 2" by simp
    then have "unat l \<le> 2" by (simp add: word_le_nat_alt)
    then have "unat l = 0 \<or> unat l = 1 \<or> unat l = 2" by linarith
    then have "l = 0 \<or> l = 1 \<or> l = 2" by (simp add: word_unat_eq_iff)
    then show ?thesis by (auto simp: level_of_def)
  qed
  from assms show ?thesis
    by (cases "cc_sessions c sid") (auto simp: principal_check_def Let_def identity_set_def lv split: if_splits)
qed

lemma validate_ok:
  assumes v: "xcc_request_validate r c = (c', XCC_OK)" and q: "cc_requests c r = Some q" "rq_session q = Some sid"
  shows "\<not> cc_stopping c \<and> rq_cancel_intent q = None \<and> rq_cancelled_code q = XCC_OK \<and> \<not> rq_cancelled q \<and> rq_validation_error q = XCC_OK \<and>
    (\<exists>os. cc_sessions c sid = Some os \<and> owner_ok c q (os_session os))"
proof -
  have p: "principal_check sid (Some (rq_principal q)) (c\<lparr>cc_active := cc_active c @ [r]\<rparr>) = (c', XCC_OK)" and n: "pr_app_id (rq_principal q) \<noteq> None"
    and k: "\<not> cc_stopping c \<and> rq_cancel_intent q = None \<and> rq_cancelled_code q = XCC_OK \<and> \<not> rq_cancelled q \<and> rq_validation_error q = XCC_OK"
    using v q unfolding xcc_request_validate_def by (simp_all add: Let_def split: if_splits)
  from principal_check_ok [OF p] n k show ?thesis by (auto simp: owner_ok_def)
qed

text \<open>A start that goes on has passed its checks.\<close>

lemma complete_answers: "cc_requests c r = Some q \<Longrightarrow> \<exists>p. cc_requests (xcc_request_complete g r err c) r = Some p \<and> rq_answered p"
  by (simp add: xcc_request_complete_def)

lemma start_checked:
  assumes reach: "core_reachable D ts g c" and p: "cc_queue c = p # ps" "p = Post_acquire r \<or> p = Post_sign r"
    and go: "cc_requests (posted_function g e p (c\<lparr>cc_queue := ps\<rparr>)) r = Some q'" "\<not> rq_answered q'"
  shows "\<exists>q sid os. cc_requests c r = Some q \<and> rq_session q = Some sid \<and> cc_sessions c sid = Some os \<and> owner_ok c q (os_session os) \<and>
    \<not> cc_stopping c \<and> rq_cancel_intent q = None \<and> rq_cancelled_code q = XCC_OK \<and> \<not> rq_cancelled q \<and> rq_validation_error q = XCC_OK"
proof -
  note inv = core_reachable_inv(1) [OF reach]
  have st: "start_of p = [r]" using p(2) by (auto simp: start_of_def)
  obtain c1 err where v: "xcc_request_validate r (c\<lparr>cc_queue := ps\<rparr>) = (c1, err)" by fastforce
  obtain z where z: "cc_requests c1 r = Some z" by (rule start_inv [OF inv p(1) st v])
  from popped_queue_ok(2) [OF core_invD(4) [OF inv] p(1)] p(2) obtain q where q: "cc_requests c r = Some q" "rq_kind q \<noteq> XCC_RESULT_CAPABILITIES"
    by (auto simp: post_ok_def)
  from core_request(6) [OF reach q(1)] q(2) obtain sid where sid: "rq_session q = Some sid" by (auto simp: kind_ok_def)
  have "err = XCC_OK"
  proof (rule ccontr)
    assume "err \<noteq> XCC_OK"
    then have "posted_function g e p (c\<lparr>cc_queue := ps\<rparr>) = xcc_request_complete g r err c1"
      using p(2) v by (auto simp: posted_function_def xcc_acquire_start_def xcc_sign_start_def)
    with complete_answers [OF z, of g err] go show False by auto
  qed
  with v validate_ok [of r "c\<lparr>cc_queue := ps\<rparr>" c1 q sid] q sid show ?thesis by (auto simp: owner_ok_def)
qed

lemma shutdown_empty:
  assumes reach: "core_reachable D ts g c" and s: "cc_shutdown_posted c"
  shows "cc_active c = []" "cc_queue c = []" "cc_requests c r = Some q \<Longrightarrow> rq_answered q \<and> (rq_detached q \<or> r \<in> set (delivered c))"
proof -
  note inv = core_reachable_inv(1) [OF reach]
  from core_invD(4) [OF inv] s show e: "cc_active c = []" "cc_queue c = []" by (simp_all add: queue_ok_def)
  assume q: "cc_requests c r = Some q"
  from core_request(1) [OF reach q] answered_iff [OF inv q] e show "rq_answered q \<and> (rq_detached q \<or> r \<in> set (delivered c))"
    by (auto simp: place_ok_def starts_def)
qed

lemma request_waits:
  assumes reach: "core_reachable D ts g c" and q: "cc_requests c r = Some q" "\<not> rq_answered q" "r \<notin> set (starts c)"
  shows "r \<in> set (cc_active c) \<and> (case rq_kind q of
      XCC_RESULT_ACQUIRE \<Rightarrow> rq_enumerating q \<and> rq_workers q = 1 \<or> rq_chooser q \<noteq> None
    | XCC_RESULT_SIGN \<Rightarrow> (\<exists>sid i os x. rq_session q = Some sid \<and> rq_operation q = Some i \<and> cc_callbacks c sid i = Some r \<and>
        cc_sessions c sid = Some os \<and> os_operations os i = Some x \<and> \<not> op_answered x)
    | XCC_RESULT_CAPABILITIES \<Rightarrow> rq_workers q > 0)"
proof -
  note Q = core_request [OF reach q(1)]
  have "r \<notin> set (delivered c)" using answered_iff [OF core_reachable_inv(1) [OF reach] q(1)] q(2) by simp
  with Q(1) q have a: "r \<in> set (cc_active c)" "awaited q" by (auto simp: place_ok_def)
  have "\<exists>sid i os x. rq_session q = Some sid \<and> rq_operation q = Some i \<and> cc_callbacks c sid i = Some r \<and>
      cc_sessions c sid = Some os \<and> os_operations os i = Some x \<and> \<not> op_answered x" if "rq_kind q = XCC_RESULT_SIGN"
  proof -
    from a(2) that obtain i where "rq_operation q = Some i" by (auto simp: awaited_def)
    with Q(5) q(2) show ?thesis unfolding link_ok_def linked_def by fastforce
  qed
  moreover have "rq_enumerating q \<and> rq_workers q = 1 \<or> rq_chooser q \<noteq> None" if "rq_kind q = XCC_RESULT_ACQUIRE"
    using a(2) Q(2) that by (auto simp: awaited_def busy_def acquire_ok_def)
  ultimately show ?thesis using a by (auto simp: awaited_def split: result_kind.split)
qed

lemma count_of_distinct: "distinct l \<Longrightarrow> count_list l x = (if x \<in> set l then 1 else 0)"
  by (induction l) auto

lemma answered_once:
  assumes reach: "core_reachable D ts g c" and q: "cc_requests c r = Some q"
  shows "count_list (outstanding c @ delivered c) r = (if rq_answered q then 1 else 0)"
proof -
  note inv = core_reachable_inv(1) [OF reach]
  have "distinct (outstanding c @ delivered c)" using core_invD(1) [OF inv] by (simp add: lists_ok_def)
  moreover have "rq_answered q \<longleftrightarrow> r \<in> set (outstanding c @ delivered c)" using answered_iff [OF inv q] by simp
  ultimately show ?thesis using count_of_distinct [of "outstanding c @ delivered c" r] by presburger
qed

lemma done_result:
  assumes reach: "core_reachable D ts g c" and d: "Done r err cand sig \<in> set (cc_log c)"
  shows "\<exists>q. cc_requests c r = Some q \<and> (if err = XCC_OK then (case rq_kind q of
      XCC_RESULT_ACQUIRE \<Rightarrow> cand \<noteq> None \<and> sig = None
    | XCC_RESULT_SIGN \<Rightarrow> cand = None \<and> sig \<noteq> None
    | XCC_RESULT_CAPABILITIES \<Rightarrow> cand = None \<and> sig = None \<and> rq_mechanisms_present q)
    else cand = None \<and> sig = None \<and> rq_candidate q = None)"
proof -
  from reach d obtain q where q: "cc_requests c r = Some q" "rq_answered q" "err = rq_error q" "cand = sent_candidate q" "sig = sent_signature q"
    "rq_candidate q \<noteq> None \<longrightarrow> err = XCC_OK" by (rule done_request)
  note Q = core_request [OF reach q(1)]
  have s: "rq_signature q = None" if "rq_kind q \<noteq> XCC_RESULT_SIGN"
  proof (cases "rq_operation q")
    case (Some i)
    with Q(5) that show ?thesis unfolding link_ok_def by blast
  qed (use Q(5) in \<open>simp add: link_ok_def\<close>)
  have k: "rq_candidate q = None" if "rq_kind q \<noteq> XCC_RESULT_ACQUIRE" using Q(2) that by (auto simp: acquire_ok_def)
  show ?thesis
  proof (cases "err = XCC_OK")
    case True
    with Q(4) q(2,3) have "case rq_kind q of XCC_RESULT_ACQUIRE \<Rightarrow> rq_candidate_present q \<and> rq_candidate q \<noteq> None
      | XCC_RESULT_SIGN \<Rightarrow> rq_signature_present q \<and> rq_signature q \<noteq> None | XCC_RESULT_CAPABILITIES \<Rightarrow> rq_mechanisms_present q"
      by (simp add: result_ok_def)
    with s k True q(1,4,5) show ?thesis by (cases "rq_kind q") (simp_all add: sent_candidate_def sent_signature_def)
  next
    case False
    with q Q(4) show ?thesis by (auto simp: sent_candidate_def sent_signature_def result_ok_def)
  qed
qed

lemma acquisition_alone:
  assumes reach: "core_reachable D ts g c" and q: "cc_requests c r = Some q" "rq_kind q = XCC_RESULT_ACQUIRE" "rq_session q = Some sid" "\<not> rq_answered q"
      "r \<in> set (cc_active c)"
  shows "\<exists>os. cc_sessions c sid = Some os \<and> \<not> se_granted (os_session os) \<and> \<not> se_grant_pending (os_session os) \<and>
    (\<forall>p x. cc_requests c p = Some x \<and> rq_session x = Some sid \<and> rq_kind x = XCC_RESULT_ACQUIRE \<and> p \<in> set (cc_active c) \<and> p \<noteq> r \<longrightarrow>
      rq_answered x \<and> rq_candidate x = None)"
proof -
  from core_request(6) [OF reach q(1)] q(3) obtain os where os: "cc_sessions c sid = Some os" unfolding kind_ok_def by blast
  have a: "acquiring {} c sid r" using q by (simp add: acquiring_def)
  from core_session(1) [OF reach os] show ?thesis
  proof (cases rule: session_okE)
    case ungranted
    have "rq_answered x \<and> rq_candidate x = None"
      if "cc_requests c p = Some x" "rq_session x = Some sid" "rq_kind x = XCC_RESULT_ACQUIRE" "p \<in> set (cc_active c)" "p \<noteq> r" for p x
      using ungranted(5) [of p] ungranted(6) [OF a, of p] that by (auto simp: holding_def acquiring_def)
    with os ungranted(3,4) show ?thesis by blast
  qed (use a in simp)
qed

text \<open>A grant that is there after a step was there before, with the same terms, or it was made by the step.\<close>

lemma grant_terms_step:
  fixes D :: "'w discovery_env" and e :: "'w core_env"
  assumes reach: "core_reachable D ts g c" and step: "core_step D ts g c (e, ev) c'"
    and os: "cc_sessions c' sid = Some os" and g: "se_granted (os_session os)"
  shows "\<exists>os0. cc_sessions c sid = Some os0 \<and> (if se_granted (os_session os0) then grant_terms (os_session os) = grant_terms (os_session os0)
    else fresh_terms (oe_now (ce_op e)) (os_session os))"
proof -
  note inv = core_reachable_inv(1) [OF reach]
  from step_terms [OF inv step] os g consider s where "cc_sessions c sid = Some s" "keeps_terms s os"
    | "finishing c ev = Some sid" "fresh_terms (oe_now (ce_op e)) (os_session os)"
    unfolding terms_def by blast
  then show ?thesis
  proof cases
    case 1
    with g show ?thesis by (simp add: keeps_terms_def)
  next
    case 2
    from step have "\<exists>r q. under_way {} c r q \<and> finishing c ev = rq_session q"
    proof (cases rule: core_step.cases)
      case (core_enumerated r q candidates cancelled)
      with core_request(2) [OF reach core_enumerated(3)] have "under_way {} c r q"
        by (auto simp: acquire_ok_def busy_def under_way_def split: if_splits)
      with core_enumerated show ?thesis by (auto simp: finishing_def)
    next
      case (core_chooser r q rows chosen err)
      with core_request(2) [OF reach core_chooser(3)] have "under_way {} c r q"
        by (auto simp: acquire_ok_def busy_def under_way_def)
      with core_chooser show ?thesis by (auto simp: finishing_def)
    qed (use 2 in \<open>simp_all add: finishing_def\<close>)
    then obtain r q where u: "under_way {} c r q" "rq_session q = Some sid" using 2(1) by auto
    from acquisition_alone [OF reach _ _ u(2)] u(1) obtain os0 where "cc_sessions c sid = Some os0" "\<not> se_granted (os_session os0)"
      unfolding under_way_def by blast
    with 2(2) show ?thesis by simp
  qed
qed

lemma rollback_undoes:
  fixes D :: "'w discovery_env"
  assumes reach: "core_reachable D ts g c" and p: "cc_queue c = Post_rollback r # ps"
  shows "\<exists>q sid os q' os'. cc_requests c r = Some q \<and> rq_session q = Some sid \<and> cc_sessions c sid = Some os \<and> se_grant_pending (os_session os) \<and>
    os_operations os = (\<lambda>_. None) \<and>
    cc_requests (rollback_acquisition r (c\<lparr>cc_queue := ps\<rparr>)) r = Some q' \<and> rq_error q' \<noteq> XCC_OK \<and> rq_candidate q' = None \<and>
    cc_sessions (rollback_acquisition r (c\<lparr>cc_queue := ps\<rparr>)) sid = Some os' \<and> \<not> se_granted (os_session os') \<and> se_candidate (os_session os') = None \<and>
    Desk_completion r \<in> set (cc_desktop (rollback_acquisition r (c\<lparr>cc_queue := ps\<rparr>)))"
proof -
  note inv = core_reachable_inv(1) [OF reach]
  from rollback_inv(2) [OF inv p] obtain q sid os where q: "cc_requests c r = Some q" "rq_session q = Some sid" "cc_sessions c sid = Some os"
    "se_grant_pending (os_session os)" by blast
  from popped_queue_ok(2) [OF core_invD(4) [OF inv] p] q(1) have "rq_error q \<noteq> XCC_OK" by (auto simp: post_ok_def)
  moreover have "os_operations os = (\<lambda>_. None)" using no_operations [OF core_session(2) [OF reach q(3)]] q(4) by simp
  ultimately show ?thesis using q by (simp add: rollback_acquisition_def xcc_acquire_rollback_def rollback_session_def session_put_def desktop_post_def)
qed

section \<open>Properties\<close>

text \<open>C5 (refinement): the core drives every session only by the steps of \<open>Operations\<close>: whatever the desktop
  thread asks, the user and the tokens do, and in whatever order posts, workers and completions run, the state of
  a session is one that the operations' own system reaches.\<close>

theorem core_sessions_run_operations:
  assumes "core_reachable D ts g c" and "cc_sessions c sid = Some os"
  shows "op_reachable D ts os"
  by (rule core_session(2) [OF assms])

theorem core_sessions_run_operations_witness: "sample_reach run_answered"
  using core_sessions_run_operations [OF run_done, of 0 run_answered] by (simp add: run_done_def)

text \<open>C3 (safety): after every step of the core, a session has a grant only for a certificate that the user consented
  to, or one that is found again as the same, in the dialogue of a valid acquisition of this session; the certificate
  meets the filter of that request and its token has a serial number; the grant has the purpose and the lifetime asked
  for, at most an hour, signs only if that was asked and the key can, and never decrypts.  A grant made by the step
  expires that lifetime after the clock of the step; one that was there before keeps its certificate, its permissions,
  its lifetime and its expiry.  It is pending exactly until the completion that hands it over.\<close>

theorem grant_follows_consent:
  fixes D :: "'w discovery_env" and e :: "'w core_env"
  assumes "core_reachable D ts g c" and "core_step D ts g c (e, ev) c'"
    and "cc_sessions c' sid = Some os" and "se_granted (os_session os)"
  shows "\<exists>r q cd x sig os0. se_candidate (os_session os) = Some cd \<and> consented c' sid cd (os_session os) r q x \<and>
    (if se_grant_pending (os_session os) then r \<in> set (outstanding c') else Done r XCC_OK (Some cd) sig \<in> set (cc_log c')) \<and>
    cc_sessions c sid = Some os0 \<and>
    (if se_granted (os_session os0) then grant_terms (os_session os) = grant_terms (os_session os0)
     else se_expires_at (os_session os) = oe_now (ce_op e) div G_USEC_PER_SEC + uint (rq_lifetime q))"
proof -
  from grant_consented [OF reach_step [OF assms(1,2)] assms(3,4)] obtain r q cd x sig where c: "se_candidate (os_session os) = Some cd"
    "consented c' sid cd (os_session os) r q x"
    "if se_grant_pending (os_session os) then r \<in> set (outstanding c') else Done r XCC_OK (Some cd) sig \<in> set (cc_log c')" by blast
  from grant_terms_step [OF assms] obtain os0 where "cc_sessions c sid = Some os0"
    "if se_granted (os_session os0) then grant_terms (os_session os) = grant_terms (os_session os0) else fresh_terms (oe_now (ce_op e)) (os_session os)"
    by blast
  moreover have "se_lifetime (os_session os) = rq_lifetime q" using c(2) by (simp add: consented_def)
  ultimately show ?thesis using c unfolding fresh_terms_def by metis
qed

theorem grant_follows_consent_witness:
  "(\<exists>r q x. consented run_pending 0 sample_candidate (run_grant True) r q x \<and> se_expires_at (run_grant True) = uint (rq_lifetime q)) \<and>
   (\<exists>r q x sig. consented run_held 0 sample_candidate (run_grant False) r q x \<and> Done r XCC_OK (Some sample_candidate) sig \<in> set (cc_log run_held))"
proof
  have "cc_sessions run_pending 0 = Some (run_idle (run_grant True))" "cc_sessions run_offers 0 = Some (run_idle run_session)"
    by (simp_all add: run_pending_def run_offers_def)
  with grant_follows_consent [OF run_offers run_consenting this(1)] show "\<exists>r q x. consented run_pending 0 sample_candidate (run_grant True) r q x \<and>
      se_expires_at (run_grant True) = uint (rq_lifetime q)" by fastforce
next
  have "cc_sessions run_held 0 = Some (run_idle (run_grant False))" by (simp add: run_held_def)
  with grant_follows_consent [OF run_called run_returning this] show "\<exists>r q x sig. consented run_held 0 sample_candidate (run_grant False) r q x \<and>
      Done r XCC_OK (Some sample_candidate) sig \<in> set (cc_log run_held)" by fastforce
qed

text \<open>C1 (safety): the token is asked to work for a session only after the grant was delivered to the application,
  on the device of the certificate of that grant, which the user consented to; the work is a signature, the
  request asked for signatures, the key can sign, and the session is neither closed nor expired.\<close>

theorem token_works_under_consent:
  assumes "core_reachable D ts g c" and "cc_sessions c sid = Some os" and "op_step D ts os (e, l) os'"
    and "os_log os' = new @ os_log os" and "Performing i d b m p \<in> set new"
  shows "\<exists>r q cd x sig. consented c sid cd (os_session os) r q x \<and> Done r XCC_OK (Some cd) sig \<in> set (cc_log c) \<and>
    dv_candidate d = Some cd \<and> device_bound D ts d \<and> \<not> b \<and> rq_may_sign q \<and> cd_can_sign cd \<and>
    \<not> se_closed (os_session os) \<and> \<not> xcc_session_is_expired (oe_now e) (os_session os)"
  by (rule core_token_work [OF assms])

theorem token_works_under_consent_witness:
  "\<exists>r q cd x sig. consented (run_with (run_at sample_device Task_sign_lock None [])) 0 cd (os_session (run_at sample_device Task_sign_lock None [])) r q x \<and>
     Done r XCC_OK (Some cd) sig \<in> set run_log \<and> dv_candidate sample_device = Some cd"
proof -
  have "cc_sessions (run_with (run_at sample_device Task_sign_lock None [])) 0 = Some (run_at sample_device Task_sign_lock None [])"
    "os_log (run_at sample_device (Task_context 9) (Some 0) run_asked) = run_asked @ os_log (run_at sample_device Task_sign_lock None [])"
    "Performing 0 sample_device False sample_mechanism (digest_info_sha256 @ replicate 32 7) \<in> set run_asked"
    by (simp_all add: run_with_def sample_use_def)
  from token_works_under_consent [OF run_locked this(1) run_signing_step this(2,3)] show ?thesis by (auto simp: run_with_def)
qed

text \<open>C2 (safety): a signature that is delivered to the application answers its own request: it is what the token
  returned for one operation of the request's session, re-encoded as DER where the mechanism asks for it.  The token's
  module accepted the operation's mechanism for the key of the granted certificate, and then, on the same session of
  the token, returned these bytes for the operation's payload; mechanism and payload are what the request's name,
  parameters and data parse to for the granted certificate, and the grant was delivered.\<close>

theorem delivered_signature_is_tokens:
  assumes "core_reachable D ts g c" and "Done r err cand (Some v) \<in> set (cc_log c)"
  shows "\<exists>q sid os i x dev dev' out cd. cc_requests c r = Some q \<and> rq_kind q = XCC_RESULT_SIGN \<and> rq_session q = Some sid \<and> cc_sessions c sid = Some os \<and>
    cc_callbacks c sid i = Some r \<and> os_operations os i = Some x \<and> Op_done i (Inr v) \<in> set (os_log os) \<and>
    Performing i dev False (op_mechanism x) (op_payload x) \<in> set (os_log os) \<and> token_begun D False dev (op_mechanism x) \<and>
    (dev' = dev \<or> Finishing i dev' \<in> set (os_log os) \<and> dv_session dev' = dv_session dev) \<and>
    token_returned D False dev' (op_payload x) out \<and> answer_form (op_mechanism x) out v \<and>
    dv_candidate dev = Some cd \<and> se_candidate (os_session os) = Some cd \<and> se_granted (os_session os) \<and> \<not> se_grant_pending (os_session os) \<and>
    certificate_mechanism_parse (or_mechanism_name (rq_input q)) (or_parameters (rq_input q)) (cd_key_type cd) (cd_key_size cd) False =
      Inr (op_mechanism x) \<and>
    certificate_mechanism_prepare (op_mechanism x) (or_data (rq_input q)) = Inr (op_payload x) \<and> err = XCC_OK \<and> cand = None"
  by (rule delivered_signature [OF assms])

theorem delivered_signature_is_tokens_witness:
  "\<exists>i dev m p out. Op_done i (Inr [1, 2]) \<in> set (os_log run_answered) \<and> Performing i dev False m p \<in> set (os_log run_answered) \<and>
     token_begun sample_discovery False dev m \<and> answer_form m out [1, 2] \<and> dv_candidate dev = se_candidate (os_session run_answered)"
proof -
  have "Done 1 XCC_OK None (Some [1, 2]) \<in> set (cc_log run_done)" "cc_sessions run_done = [0 \<mapsto> run_answered]"
    by (simp_all add: run_done_def)
  with delivered_signature_is_tokens [OF run_done this(1)] show ?thesis by (auto split: if_splits) blast+
qed

text \<open>C4 (invariant): every request is answered once: the completions under way and those delivered hold it exactly
  once when it is answered and not at all before.  One that is not answered is queued to start, or it is active and
  something is there that will answer it: its one enumeration, the open chooser, the worker, or the operation of
  its session, itself unanswered, that reports to it.\<close>

theorem requests_answered_once:
  assumes "core_reachable D ts g c" and "cc_requests c r = Some q"
  shows "count_list (outstanding c @ delivered c) r = (if rq_answered q then 1 else 0) \<and>
    (rq_answered q \<or> r \<in> set (starts c) \<or> r \<in> set (cc_active c) \<and> (case rq_kind q of
      XCC_RESULT_ACQUIRE \<Rightarrow> rq_enumerating q \<and> rq_workers q = 1 \<or> rq_chooser q \<noteq> None
    | XCC_RESULT_SIGN \<Rightarrow> (\<exists>sid i os x. rq_session q = Some sid \<and> rq_operation q = Some i \<and> cc_callbacks c sid i = Some r \<and>
        cc_sessions c sid = Some os \<and> os_operations os i = Some x \<and> \<not> op_answered x)
    | XCC_RESULT_CAPABILITIES \<Rightarrow> rq_workers q > 0))"
  using answered_once [OF assms] request_waits [OF assms] by blast

theorem requests_answered_once_witness:
  "count_list (outstanding run_done @ delivered run_done) 0 = 1 \<and> count_list (outstanding run_offers @ delivered run_offers) 0 = 0"
  using requests_answered_once [OF run_done, of 0 run_granted] requests_answered_once [OF run_offers, of 0 run_offered]
  by (simp add: run_done_def run_offers_def run_offered_def)

text \<open>C7 (error): what a completion delivers fits its code.  On success it has the certificate of an acquisition,
  or the signature, or the mechanisms, according to the kind of the request; with any error it has none of them and
  the request holds no grant.\<close>

theorem failures_deliver_nothing:
  assumes "core_reachable D ts g c" and "Done r err cand sig \<in> set (cc_log c)"
  shows "\<exists>q. cc_requests c r = Some q \<and> (if err = XCC_OK then (case rq_kind q of
      XCC_RESULT_ACQUIRE \<Rightarrow> cand \<noteq> None \<and> sig = None
    | XCC_RESULT_SIGN \<Rightarrow> cand = None \<and> sig \<noteq> None
    | XCC_RESULT_CAPABILITIES \<Rightarrow> cand = None \<and> sig = None \<and> rq_mechanisms_present q)
    else cand = None \<and> sig = None \<and> rq_candidate q = None)"
  by (rule done_result [OF assms])

theorem failures_deliver_nothing_witness: "\<exists>q. cc_requests run_stopped 0 = Some q \<and> rq_mechanisms_present q"
  using failures_deliver_nothing [OF run_stopped, of 0 XCC_OK None None]
  by (simp add: run_stopped_def bare_core_def run_capabilities_def xcc_request_new_def)

text \<open>C8 (invariant): while an acquisition is under way its session has no grant and no other acquisition that is under
  way or waits to hand its grant over.\<close>

theorem one_acquisition_per_session:
  assumes "core_reachable D ts g c" and "cc_requests c r = Some q" and "rq_kind q = XCC_RESULT_ACQUIRE" and "rq_session q = Some sid"
    and "\<not> rq_answered q" and "r \<in> set (cc_active c)"
  shows "\<exists>os. cc_sessions c sid = Some os \<and> \<not> se_granted (os_session os) \<and> \<not> se_grant_pending (os_session os) \<and>
    (\<forall>p x. cc_requests c p = Some x \<and> rq_session x = Some sid \<and> rq_kind x = XCC_RESULT_ACQUIRE \<and> p \<in> set (cc_active c) \<and> p \<noteq> r \<longrightarrow>
      rq_answered x \<and> rq_candidate x = None)"
  by (rule acquisition_alone [OF assms])

theorem one_acquisition_per_session_witness: "\<exists>os. cc_sessions run_offers 0 = Some os \<and> \<not> se_granted (os_session os)"
  using one_acquisition_per_session [OF run_offers, of 0 run_offered 0] by (auto simp: run_offers_def run_offered_def)

text \<open>C6 (safety): a grant whose result turns out cancelled is taken back before the failure is delivered.  When the
  coordinator comes to the rollback the grant is still pending, as the code asserts, and no operation ran under
  it; afterwards the session has neither grant nor certificate, and the completion that follows reports an error.\<close>

theorem rollback_finds_pending_grant:
  assumes "core_reachable D ts g c" and "cc_queue c = Post_rollback r # ps"
  shows "\<exists>q sid os q' os'. cc_requests c r = Some q \<and> rq_session q = Some sid \<and> cc_sessions c sid = Some os \<and> se_grant_pending (os_session os) \<and>
    os_operations os = (\<lambda>_. None) \<and>
    cc_requests (rollback_acquisition r (c\<lparr>cc_queue := ps\<rparr>)) r = Some q' \<and> rq_error q' \<noteq> XCC_OK \<and> rq_candidate q' = None \<and>
    cc_sessions (rollback_acquisition r (c\<lparr>cc_queue := ps\<rparr>)) sid = Some os' \<and> \<not> se_granted (os_session os') \<and> se_candidate (os_session os') = None \<and>
    Desk_completion r \<in> set (cc_desktop (rollback_acquisition r (c\<lparr>cc_queue := ps\<rparr>)))"
  by (rule rollback_undoes [OF assms])

theorem rollback_finds_pending_grant_witness:
  "\<exists>os. cc_sessions (rollback_acquisition 0 (run_back\<lparr>cc_queue := []\<rparr>)) 0 = Some os \<and> \<not> se_granted (os_session os)"
proof -
  have "cc_queue run_back = Post_rollback 0 # []" "\<And>q. cc_requests run_back 0 = Some q \<Longrightarrow> rq_session q = Some 0"
    by (auto simp: run_back_def run_refused_def)
  with rollback_finds_pending_grant [OF run_back this(1)] show ?thesis by fastforce
qed

text \<open>C9 (safety): once the shutdown is announced nothing is queued or active, every request is answered, and each was
  delivered unless it was made too late to be accepted.\<close>

theorem shutdown_leaves_nothing:
  assumes "core_reachable D ts g c" and "cc_shutdown_posted c"
  shows "cc_active c = [] \<and> cc_queue c = [] \<and>
    (\<forall>r q. cc_requests c r = Some q \<longrightarrow> rq_answered q \<and> (rq_detached q \<or> r \<in> set (delivered c)))"
  using shutdown_empty [OF assms] by blast

theorem shutdown_leaves_nothing_witness: "\<exists>q. cc_requests run_stopped 0 = Some q \<and> rq_answered q"
  using shutdown_leaves_nothing [OF run_stopped] by (simp add: run_stopped_def bare_core_def)

text \<open>C10 (safety): a request for a session goes on from its start only for the owner of the session: the session is open
  and of the present owner's generation, the caller names that generation and the same application, and claims no
  better identity level than was seen before; the request was not cancelled, its specification is valid and the context is not stopping.\<close>

theorem sessions_serve_their_owner:
  assumes "core_reachable D ts g c" and "cc_queue c = p # ps" and "p = Post_acquire r \<or> p = Post_sign r"
    and "cc_requests (posted_function g e p (c\<lparr>cc_queue := ps\<rparr>)) r = Some q'" and "\<not> rq_answered q'"
  shows "\<exists>q sid os. cc_requests c r = Some q \<and> rq_session q = Some sid \<and> cc_sessions c sid = Some os \<and> owner_ok c q (os_session os) \<and>
    \<not> cc_stopping c \<and> rq_cancel_intent q = None \<and> rq_cancelled_code q = XCC_OK \<and> \<not> rq_cancelled q \<and> rq_validation_error q = XCC_OK"
  by (rule start_checked [OF assms])

theorem sessions_serve_their_owner_witness: "owner_ok run_asks run_acquire run_session"
proof -
  have "posted_function run_config run_env (Post_acquire 0) (run_asks\<lparr>cc_queue := []\<rparr>) =
      run_core (run_idle run_session) [0 \<mapsto> run_acquire\<lparr>rq_enumerating := True, rq_enumerate_again := False, rq_workers := 1\<rparr>] 1 run_nocalls [0] 1 [] [] Desk_idle run_made"
    by (simp add: run_asks_def posted_function_def xcc_acquire_start_def xcc_request_validate_def start_enumeration_def run_principal_check Let_def)
  then have "cc_requests (posted_function run_config run_env (Post_acquire 0) (run_asks\<lparr>cc_queue := []\<rparr>)) 0 =
      Some (run_acquire\<lparr>rq_enumerating := True, rq_enumerate_again := False, rq_workers := 1\<rparr>)" by simp
  from sessions_serve_their_owner [OF run_asks _ _ this] show ?thesis by (auto simp: run_asks_def)
qed

end
