(* ===== verification/Spec2Isabelle.thy ===== *)
theory Spec2Isabelle
  imports ModuleProps Watch Chooser PinGuarantees CoreGuarantees
begin

text \<open>
  A verification development of xdg-desktop-portal-certificate.

  The program.  A sandboxed application must not see the user's smart cards and soft tokens.  It
  loads a PKCS#11 module (\<open>src/module/\<close>), which shows one virtual token; a search for a
  credential makes the module ask the desktop portal over D-Bus, the portal lets the user choose a
  certificate, and the answer is a \<^emph>\<open>grant\<close>: the certificate, and the permissions to sign and to
  decrypt with its key until the grant ends.  The module turns a grant into PKCS#11 objects and
  forwards signatures and decryptions to the portal.  On the other side the backend
  (\<open>src/certificate-impl.c\<close>, \<open>src/core/\<close>, \<open>src/broker/\<close>, \<open>src/tokens/\<close>) discovers tokens, runs
  the choice and the PIN dialogue, translates the portal's mechanism names and parameters into
  PKCS#11 mechanisms and performs the operation on the real token.

  Theories and the code they model.

    \<^item> \<open>Prelude\<close>: byte strings, words, big- and little-endian coding, and the interfaces
      components share, as locales: tables with a key column, TLV codecs, step systems with an
      invariant.
    \<^item> \<open>Der\<close>: \<open>module/der.c\<close>; the interpretation of the TLV codec on \<open>portal_der_encode\<close> and
      \<open>portal_der_read\<close>.
    \<^item> \<open>ModMechanism\<close>: \<open>module/mechanism.c\<close>, the hash and mechanism tables, and the strict
      \<open>DigestInfo\<close> parser.
    \<^item> \<open>Cryptoki\<close>: the constants and the attribute record of PKCS#11.
    \<^item> \<open>Objects\<close>: \<open>module/objects.c\<close> and \<open>module/grant.h\<close>: the three objects of a grant, search
      templates, attribute reads, and \<open>portal_template_intent\<close>, which decides which searches may
      ask the user.
    \<^item> \<open>ModuleState\<close>, \<open>ModuleCalls\<close>, \<open>ModuleFind\<close>, \<open>ModuleSign\<close>: \<open>module/module.c\<close>.  The record
      \<open>module_state\<close> is the file's static variables; there is a definition for each entry point of
      the function list, and for each static helper, with its error returns in the code's order.
    \<^item> \<open>ModuleSystem\<close>: the module as a system of threads: \<open>module_step\<close> is one section under
      \<open>module_lock\<close> of one entry point, executed in an arbitrary environment.
    \<^item> \<open>ModuleProps\<close>: what spans the entry points: properties of all reachable states, and
      the states on which they are instantiated.
    \<^item> \<open>BrokerMechanism\<close>: \<open>broker/mechanism.c\<close>, from the \<open>a{sv}\<close> of a request to
      \<open>CK_MECHANISM\<close>, the prepared input, and the DER form of ECDSA signatures.
    \<^item> \<open>Pkcs11Util\<close>: \<open>tokens/pkcs11-util.c\<close>, the helpers over a module's function list.  A module
      is foreign code: the parameter \<open>ck_function_list\<close> is a record of its functions over a state
      \<open>'w\<close> of the world, on which nothing is assumed.  \<open>recording\<close> makes a function list note its
      calls, so that a theorem can speak of the calls the code makes.
    \<^item> \<open>Tokens\<close>, \<open>Discovery\<close>: \<open>tokens/discovery.c\<close>: the identity of a token, the parser of a
      certificate (over the parameter \<open>x509_reading\<close>), which modules and tokens are read, the
      enumeration, and opening a session again on a token that may have moved.
    \<^item> \<open>DiscoveryProps\<close>: what enumeration and session opening guarantee.
    \<^item> \<open>Watch\<close>: the presence watch of \<open>tokens/discovery.c\<close>: the rounds of its thread, the event
      queue, and the debouncer they implement.
    \<^item> \<open>TokenFilter\<close>: \<open>tokens/filter.c\<close>: purposes, the parser of a request's filter, and the list of
      candidates offered.
    \<^item> \<open>Device\<close>: \<open>broker/device.c\<close>: the device that performs operations with one credential's
      key, as a step system whose calls may come in any order.
    \<^item> \<open>Display\<close>: \<open>core/identity.c\<close>, \<open>certificate-format.c\<close>, \<open>redact.c\<close>: untrusted text for windows
      and for log lines.
    \<^item> \<open>Chooser\<close>: \<open>core/chooser.c\<close>: the dialogue in which the user gives consent, with its rows,
      revisions and deferred answers, as a step system; its invariant and properties.
    \<^item> \<open>PinCore\<close>, \<open>PinProps\<close>, \<open>PinGuarantees\<close>: \<open>core/pin.c\<close>, \<open>core/pin-format.c\<close>, and the parts of
      \<open>core/ui.c\<close> and \<open>core/secret.c\<close> it stands on: the queue of PIN dialogues, their workers, timeouts
      and cancellations; the invariant; the properties.
    \<^item> \<open>Session\<close>: \<open>core/session.c\<close>, the record of a session and the functions of its grant.
    \<^item> \<open>Operations\<close>: \<open>broker/operations.c\<close> and the closing of a session: the chain of tasks of each
      operation, the login its operations share, and \<open>op_step\<close>, one section of a worker or one callback.
    \<^item> \<open>OperationsProps\<close>, \<open>OperationFrames\<close>, \<open>OperationGuarantees\<close>, \<open>OperationSettles\<close>: the invariant of the
      operations, what each function leaves alone, the properties, and how a closed session winds down.
    \<^item> \<open>OperationOutputs\<close>: the result of an operation is what the device's module wrote for it (\<open>token_returned\<close>),
      or for ECDSA its DER form where asked (\<open>answer_form\<close>).
    \<^item> \<open>Core\<close>: \<open>core/context.c\<close>, \<open>core/acquire.c\<close>, \<open>core/sign.c\<close> and the sessions of a context in
      \<open>core/session.c\<close>.  The record \<open>core\<close> is a context with its sessions, its requests (\<open>xcc_request\<close>), the
      queue of posts to the coordinator and that of calls to the desktop thread; \<open>core_step\<close> is one posted
      function, one callback of a worker, one part of a completion or one call of the frontend.
    \<^item> \<open>CoreSessions\<close>, \<open>CoreProps\<close>, \<open>CoreInv\<close>, \<open>CoreSteps\<close>, \<open>CoreReach\<close>, \<open>CoreReachable\<close>: what the steps of a
      session's operations report to the core; the invariant \<open>core_inv\<close> and the changes that answer no request
      (\<open>mild\<close>); and \<open>core_inv\<close> through the functions that answer, start, sign, complete, take back, stop and
      register, up to all reachable states.
    \<^item> \<open>CoreTerms\<close>: no step of the core changes the terms of a grant, its operations and its expiry, but the one
      that makes it.
    \<^item> \<open>CoreSamples\<close>, \<open>CoreGuarantees\<close>: a run of the core from a new session to a delivered signature, with a
      cancelled and a shut down branch, and the properties of the core.

  How the state corresponds to the code.  A pointer that may be \<open>NULL\<close> is an option; an output
  pointer is a component of the result; a \<open>GHashTable\<close> is an association list; a \<open>GError\<close> is its
  domain and code (the message is kept only where the code compares it).  \<open>guint\<close>, \<open>CK_ULONG\<close> and the
  octets are words of 32, 64 and 8 bits, and wrap as in C; a length of a buffer the model holds
  is a \<open>nat\<close>, since it cannot reach the word's bound; the clocks (\<open>gint64\<close> microseconds) are \<open>int\<close>.
  The code asks the world through its portal client, GnuTLS, the GLib clocks and its user interface.
  These are the parameters \<open>portal_env\<close>, \<open>gnutls_env\<close>, \<open>x509_env\<close> and \<open>unicode_env\<close>, records of functions the
  definitions take, and the readings \<open>chooser_env\<close>, \<open>pin_env\<close>, \<open>op_env\<close> and \<open>core_env\<close> of one step; nothing is assumed
  about them unless a theorem states it as a hypothesis.  The identifiers, revisions and generations of the
  dialogues and of logins are \<open>nat\<close>: they are 64-bit counters in the code.  One section under
  \<open>module_lock\<close> sees one reading of the environment, and different sections are unrelated, so the
  portal, the time and the user may change in between.

  Concurrency.  Every entry point takes \<open>module_lock\<close>, so a whole call is one step, except where
  the code drops the lock: an acquisition (\<open>ensure_grant\<close>), its wait for another thread's
  acquisition, and \<open>C_Finalize\<close> waiting for a running one.  There a call is a frame of the system
  state (\<open>call_frame\<close>) that later steps resume.  The initial test \<open>MODULE_CHECK\<close> is made together
  with the step that follows it.

  The backend runs on one thread, the coordinator, with workers for the calls of tokens.  In
  \<open>Chooser\<close>, \<open>PinCore\<close> and \<open>Operations\<close> a step is one callback of the coordinator or one section of a worker under
  \<open>device_lock\<close>, in any order and with an environment of its own.  What a UI provider does in
  answer to a call comes in a later step.  \<open>Operations\<close> is about one session: sessions share no state
  but the tokens.  It sees the PIN dialogue through its contract, attempts to log in while it
  lasts and then one outcome; that the dialogue keeps it is shown in \<open>PinGuarantees\<close>.

  \<open>Core\<close> has all sessions of a context and a second thread, the desktop's, which makes calls and is called
  back.  What crosses over is posted: to the coordinator in \<open>cc_queue\<close>, to the desktop thread in
  \<open>cc_desktop\<close>.  A completion is three steps, since the coordinator may run between its reading of the
  cancellation, its call of the frontend and its acknowledgement.  A session of the core is a state of
  \<open>Operations\<close>: the grant, its delivery and rollback, the operations a signature starts and the closing of a
  session are steps there, and \<open>core_sessions_run_operations\<close> proves it, so the properties of the operations
  hold for the sessions of the core.  The core sees the chooser and the enumeration through what
  \<open>Chooser\<close> and \<open>DiscoveryProps\<close> prove of them: an answer is a row of the list shown, without an error,
  or no row; and every candidate has a token.

  What the lemmas show.  Each entry point preserves the invariant \<open>module_inv\<close> of the module's
  state (unique session handles, objects exactly when there is a grant, well-formed pending
  operations), and each step the system invariant (at most one acquisition; the client it uses
  stays alive); the locale \<open>step_invariant\<close> lifts them to all reachable states.  On that rest the
  safety properties: who is prompted, when and how often, and that enumerating prompts only with the
  opt-in (\<open>prompt_only_when_asked\<close>); no operation of an old grant survives a
  new one; every grant obtained is installed or released; only digests of the right length are
  sent to be signed; private components never leave.  The functional properties
  state what a search lists, that signing in parts equals signing at once, and what the size
  queries of PKCS#11 change.  For the parsers they give the exact set of accepted
  inputs (\<open>der_read_exact\<close>, \<open>digestinfo_parse_exact\<close>, \<open>accepted_mechanism_fits_key\<close>) and
  round trips, among them one across the two programs: what the broker prepares for PKCS#1
  v1.5 is what the module parses.

  On the broker's side \<open>discovery_without_login\<close> reads the recorded calls: enumeration never logs
  in, and has one session at a time, which it closes.  \<open>session_opens_same_token\<close> and
  \<open>device_bound_to_one_credential\<close> say that the session and the key a device uses belong to the
  token and the certificate the user chose.  \<open>watch_refines_debouncer\<close> states the watch thread's
  contract, one debouncer for each token, and its refinement, for any first listing: a token listed
  there several times, as a card visible through two modules is, has its first removal reported
  as often, since the first loop of the thread does not look for what it has added already.

  The dialogues.  \<open>consent_is_for_the_row_shown\<close> says that a choice is honoured only for a row of the
  revision on the screen, that every view shown has a revision of its own, and that the candidate is of the
  list the core gave last, displayed as that row (\<open>last_offer\<close>), and \<open>row_ids_keep_their_credential\<close> that an identifier never changes its
  meaning.  \<open>prompts_answered_once\<close>, \<open>submissions_bounded\<close> and \<open>last_try_needs_agreement\<close> bound what a PIN dialogue can
  do to the token's retry counter.  Texts shown or logged are made from untrusted input
  (\<open>redacted_text_safe\<close>).

  The operations.  \<open>op_inv\<close> places every unanswered operation in exactly one task or queue; \<open>grant_inv\<close> ties the
  log of uses of the token to the grant, the device and the requests.  On them rest
  \<open>token_work_authorised\<close>, when the token may work; \<open>authenticated_work_authorised\<close>, the same after a PIN for one
  signature; \<open>results_only_when_live\<close>, what a caller may receive; \<open>token_uses_bounded\<close>, once for each operation and at
  most 32 decryptions for a grant.

  The core.  \<open>core_inv\<close> places every request: waiting to start, active with something that will answer it,
  answered with one completion under way, or delivered; and it ties the grant of a session to the one
  acquisition that made it, to the user's consent and to the completion that hands it over.  On it rest
  \<open>token_works_under_consent\<close> and \<open>delivered_signature_is_tokens\<close>, from the application's request to the octets
  the token's module wrote and back, \<open>grant_follows_consent\<close>, with the lifetime asked for and the expiry it gives, \<open>requests_answered_once\<close>, \<open>failures_deliver_nothing\<close>,
  \<open>one_acquisition_per_session\<close>, \<open>rollback_finds_pending_grant\<close>, which discharges an assertion of the code,
  \<open>shutdown_leaves_nothing\<close> and \<open>sessions_serve_their_owner\<close>.

  Termination.  Nearly every loop of the code modelled runs over a list or a buffer and is
  structural recursion.  The search loop of \<open>certificate_pkcs11_find_objects\<close> depends on what the
  module answers: it ends by the measure of the room left under \<open>CERTIFICATE_PKCS11_OBJECT_MAX\<close>,
  and \<open>enumeration_bounded\<close> counts its calls.  The prompts that \<open>pin_prompt_start\<close> takes
  from the queue one after the other end by the length of the queue.  There is no fuel.

  Liveness.  \<open>prompts_can_be_answered\<close>: the ends of workers and dismissals of windows answer every PIN prompt.
  \<open>closed_session_winds_down\<close>: in a closed session every step lowers \<open>settle_rank\<close>, at most ten for each operation,
  three for the login dialogue and one for each release, and \<open>closed_session_settles\<close>: while an operation is
  unanswered there is such a step, so all are answered.

  Where the code reads what a module wrote, the model holds the whole of it: \<open>list\<close> and \<open>d_junk\<close>
  are the memory from the start of a buffer on, past its end too, since two helpers trust the
  second count a module reports.

  Not modelled.  The D-Bus requests of \<open>module/portal.c\<close> beyond the queries \<open>module.c\<close> makes; memory
  management; message texts; starting, waking and joining the watch thread; in \<open>Operations\<close> the refresh
  of a token's flags and the test gates; in \<open>Core\<close> the creation of a context and of its thread, the
  snapshots of candidates the frontend may read, reference counts (freed sessions and requests stay in the maps) and
  log lines.  The D-Bus objects over the core (\<open>certificate-impl.c\<close> and its session and request objects) are glue
  over the frontend's calls, which \<open>core_step\<close> allows in any order.  The user interface (\<open>src/ui/\<close>) and the main loop are outside it.
\<close>

end
